(* ===== verification/Adam_Prelude.thy ===== *)
theory Adam_Prelude
  imports Main "HOL-Library.Word"
begin

text \<open>
  Shared vocabulary of the development: the machine integer types of the C sources (an LP64
  build: \<^verbatim>\<open>uint32_t\<close> is a 32 bit word, \<^verbatim>\<open>unsigned long\<close>, \<^verbatim>\<open>size_t\<close> and \<^verbatim>\<open>uintptr_t\<close> are
  64 bit words), C strings, the constants of \<^verbatim>\<open>include/constants.h\<close> that several components
  use, and the chained hash table that ADAM writes out by hand in every module: an array of
  singly linked chains, insertion at the head, lookup by a scan of one chain.
\<close>

unbundle bit_operations_syntax

named_theorems addr_defs \<open>the address space macros and constants\<close>
named_theorems sign_simps \<open>facts that evaluate the sign and truth bits of an address\<close>

type_synonym u8 = "8 word"
type_synonym u32 = "32 word"
type_synonym u64 = "64 word"

text \<open>A C string is the list of its bytes before the terminating NUL.\<close>

type_synonym cstr = "char list"

abbreviation NUL :: char where
  "NUL \<equiv> CHR 0x00"

text \<open>\<^verbatim>\<open>*(s + i)\<close>: the terminator (and nothing beyond it) is readable.\<close>

definition char_at :: "cstr \<Rightarrow> nat \<Rightarrow> char" where
  "char_at s i = (if i < length s then s ! i else NUL)"

text \<open>
  \<^verbatim>\<open>MH_MULTIPLY\<close> is an \<^verbatim>\<open>unsigned long\<close>. Most uses truncate the product to 32 bits at once, which
  commutes with multiplication, addition and exclusive or; the uses that reduce it modulo a
  table size first are written at 64 bits.
\<close>

definition MH_MULTIPLY :: "'a::len word" where
  "MH_MULTIPLY = 2654435761"

subsection \<open>Words\<close>

text \<open>Rotation of a 32 bit word, written in the sources as two shifts and an or.\<close>

definition rotl32 :: "nat \<Rightarrow> u32 \<Rightarrow> u32" where
  "rotl32 r x = (push_bit r x) OR (drop_bit (32 - r) x)"

lemma xor_cancel_left [simp]: "a XOR (a XOR b) = (b :: 'a::len word)"
  by (simp add: xor.assoc [symmetric])

lemma xor_cancel_right [simp]: "(b XOR a) XOR a = (b :: 'a::len word)"
  by (simp add: xor.assoc)

text \<open>The exclusive or of a list of words: the shape of every incremental hash code of ADAM.\<close>

definition xor_list :: "'a::len word list \<Rightarrow> 'a word" where
  "xor_list xs = foldr (XOR) xs 0"

lemma xor_list_Nil [simp]: "xor_list [] = 0"
  and xor_list_Cons [simp]: "xor_list (x # xs) = x XOR xor_list xs"
  by (simp_all add: xor_list_def)

lemma xor_list_append [simp]: "xor_list (xs @ ys) = xor_list xs XOR xor_list ys"
  by (induction xs) (simp_all add: xor.assoc)

lemma foldl_xor: "foldl (\<lambda>h x. h XOR f x) h xs = h XOR xor_list (map f xs)"
  by (induction xs arbitrary: h) (simp_all add: xor.assoc)

lemma xor_list_update:
  "i < length xs \<Longrightarrow> xor_list (xs[i := y]) = xor_list xs XOR xs ! i XOR y"
proof (induction xs arbitrary: i)
  case (Cons x xs)
  then show ?case by (cases i) (simp_all add: xor.assoc xor.commute xor.left_commute)
qed simp

lemma xor_list_remove1:
  "x \<in> set xs \<Longrightarrow> xor_list (remove1 x xs) = xor_list xs XOR x"
  by (induction xs) (auto simp: xor.assoc xor.commute xor.left_commute)

lemma xor_list_same_set:
  "distinct xs \<Longrightarrow> distinct ys \<Longrightarrow> set xs = set ys \<Longrightarrow> xor_list (map f xs) = xor_list (map f ys)"
proof (induction xs arbitrary: ys)
  case (Cons x xs)
  from Cons.prems have x: "x \<in> set ys" by auto
  then obtain us vs where ys: "ys = us @ x # vs" by (auto simp: in_set_conv_decomp)
  have "xor_list (map f xs) = xor_list (map f (us @ vs))"
    by (rule Cons.IH) (use Cons.prems ys in auto)
  then show ?case by (simp add: ys xor.assoc xor.commute xor.left_commute)
qed simp

lemma find_append:
  "find P (xs @ ys) = (case find P xs of Some x \<Rightarrow> Some x | None \<Rightarrow> find P ys)"
  by (induction xs) simp_all

lemma find_distinct_key:
  "distinct (map f xs) \<Longrightarrow> x \<in> set xs \<Longrightarrow> find (\<lambda>y. f y = f x) xs = Some x"
  by (induction xs) (auto simp: image_iff)

lemma find_SomeD: "find P xs = Some x \<Longrightarrow> x \<in> set xs \<and> P x"
  by (induction xs) (auto split: if_splits)

subsection \<open>Chained hash tables\<close>

text \<open>
  A table is a function from slot numbers to chains, the head of a chain first. The C arrays
  have a fixed number of slots; every access reduces the hash code modulo that number.
\<close>

type_synonym 'n htab = "nat \<Rightarrow> 'n list"

definition chain_empty :: "'n htab" where
  "chain_empty = (\<lambda>_. [])"

definition chain_find :: "('k \<Rightarrow> nat) \<Rightarrow> ('n \<Rightarrow> 'k) \<Rightarrow> 'n htab \<Rightarrow> 'k \<Rightarrow> 'n option" where
  "chain_find slot key t k = find (\<lambda>n. key n = k) (t (slot k))"

definition chain_insert :: "('k \<Rightarrow> nat) \<Rightarrow> ('n \<Rightarrow> 'k) \<Rightarrow> 'n \<Rightarrow> 'n htab \<Rightarrow> 'n htab" where
  "chain_insert slot key n t = t(slot (key n) := n # t (slot (key n)))"

text \<open>
  What the clients of such a table rely on, whatever the hash function: a lookup sees the most
  recent insertion under its own key and is not disturbed by insertions under other keys.
\<close>

locale keyed_table =
  fixes empty_tab :: "'t"
    and insert_tab :: "'n \<Rightarrow> 't \<Rightarrow> 't"
    and find_tab :: "'t \<Rightarrow> 'k \<Rightarrow> 'n option"
    and key_of :: "'n \<Rightarrow> 'k"
  assumes find_empty: "find_tab empty_tab k = None"
    and find_insert: "find_tab (insert_tab n t) k = (if key_of n = k then Some n else find_tab t k)"
begin

lemma find_insert_same: "find_tab (insert_tab n t) (key_of n) = Some n"
  by (simp add: find_insert)

lemma find_insert_other: "key_of n \<noteq> k \<Longrightarrow> find_tab (insert_tab n t) k = find_tab t k"
  by (simp add: find_insert)

text \<open>Insertions in sequence: the last one under the key wins.\<close>

lemma find_fold_insert:
  "find_tab (fold insert_tab ns t) k =
     (case find (\<lambda>n. key_of n = k) (rev ns) of Some n \<Rightarrow> Some n | None \<Rightarrow> find_tab t k)"
proof (induction ns arbitrary: t)
  case (Cons n ns)
  then show ?case
    by (simp add: find_append find_insert split: option.splits)
qed simp

lemma find_fold_distinct:
  assumes "distinct (map key_of ns)" and "n \<in> set ns"
  shows "find_tab (fold insert_tab ns t) (key_of n) = Some n"
proof -
  have "find (\<lambda>m. key_of m = key_of n) (rev ns) = Some n"
    using assms by (intro find_distinct_key) (simp_all add: rev_map [symmetric])
  then show ?thesis by (simp add: find_fold_insert)
qed

lemma find_fold_absent:
  "k \<notin> key_of ` set ns \<Longrightarrow> find_tab (fold insert_tab ns t) k = find_tab t k"
proof -
  assume "k \<notin> key_of ` set ns"
  then have "find (\<lambda>n. key_of n = k) (rev ns) = None"
    by (auto simp: find_None_iff)
  then show ?thesis by (simp add: find_fold_insert)
qed

end

lemma find_chain_insert:
  "chain_find slot key (chain_insert slot key n t) k =
     (if key n = k then Some n else chain_find slot key t k)"
  by (auto simp: chain_find_def chain_insert_def)

lemma keyed_table_chain:
  "keyed_table chain_empty (chain_insert slot key) (chain_find slot key) key"
proof
  show "chain_find slot key chain_empty k = None" for k
    by (simp add: chain_find_def chain_empty_def)
qed (rule find_chain_insert)

text \<open>
  A node sits in the chain of its own key: the invariant of a table to which nodes are only
  added by \<^const>\<open>chain_insert\<close>.
\<close>

definition chain_placed :: "('k \<Rightarrow> nat) \<Rightarrow> ('n \<Rightarrow> 'k) \<Rightarrow> 'n htab \<Rightarrow> bool" where
  "chain_placed slot key t \<longleftrightarrow> (\<forall>i. \<forall>n \<in> set (t i). slot (key n) = i)"

lemma chain_placed_empty: "chain_placed slot key chain_empty"
  by (simp add: chain_placed_def chain_empty_def)

lemma chain_placed_insert: "chain_placed slot key t \<Longrightarrow> chain_placed slot key (chain_insert slot key n t)"
  by (auto simp: chain_placed_def chain_insert_def)

lemma chain_find_Some: "chain_find slot key t k = Some n \<Longrightarrow> key n = k \<and> n \<in> set (t (slot k))"
  by (auto simp: chain_find_def find_Some_iff)

subsection \<open>Interning\<close>

text \<open>
  Strings, labels and tokens are given addresses or numbers that stand for them afterwards. The
  contract of such a table: a query that succeeds returns a key that holds the value, keys never
  change their value, and a value has one key. A client may conclude that the keys it was given
  are equal exactly when the values are.
\<close>

fun intern_all :: "('s \<Rightarrow> 'p \<Rightarrow> 'k \<times> 'p) \<Rightarrow> 's list \<Rightarrow> 'p \<Rightarrow> 'k list \<times> 'p" where
  "intern_all q [] p = ([], p)"
| "intern_all q (s # ss) p = (let (k, p) = q s p; (ks, p) = intern_all q ss p in (k # ks, p))"

locale interning =
  fixes inv :: "'p \<Rightarrow> bool"
    and mem :: "'p \<Rightarrow> 'k \<rightharpoonup> 's"
    and query :: "'s \<Rightarrow> 'p \<Rightarrow> 'k \<times> 'p"
    and wf :: "'s \<Rightarrow> bool"
    and ok :: "'k \<Rightarrow> bool"
  assumes mem_inj: "inv p \<Longrightarrow> mem p k = Some t \<Longrightarrow> mem p k' = Some t \<Longrightarrow> k = k'"
    and query_law: "inv p \<Longrightarrow> wf s \<Longrightarrow> query s p = (k, p') \<Longrightarrow>
          inv p' \<and> (ok k \<longrightarrow> mem p' k = Some s) \<and> (\<forall>j t. mem p j = Some t \<longrightarrow> mem p' j = Some t)"
begin

lemma intern_all_mem:
  assumes "inv p" "list_all wf ss" "intern_all query ss p = (ks, p')"
  shows "inv p' \<and> list_all2 (\<lambda>k s. ok k \<longrightarrow> mem p' k = Some s) ks ss \<and>
    (\<forall>j t. mem p j = Some t \<longrightarrow> mem p' j = Some t)"
  using assms
proof (induction ss arbitrary: p ks)
  case (Cons s ss)
  obtain k p1 where q: "query s p = (k, p1)" by fastforce
  obtain ks' where ks: "intern_all query ss p1 = (ks', p')" "ks = k # ks'"
    using Cons.prems(3) q by (auto split: prod.splits)
  have one: "inv p1 \<and> (ok k \<longrightarrow> mem p1 k = Some s) \<and> (\<forall>j t. mem p j = Some t \<longrightarrow> mem p1 j = Some t)"
    using query_law [OF Cons.prems(1) _ q] Cons.prems(2) by simp
  then have "inv p' \<and> list_all2 (\<lambda>k s. ok k \<longrightarrow> mem p' k = Some s) ks' ss \<and>
      (\<forall>j t. mem p1 j = Some t \<longrightarrow> mem p' j = Some t)"
    using Cons.IH [of p1 ks'] ks(1) Cons.prems(2) by simp
  with one ks(2) show ?case by simp
qed simp

lemma intern_all_eq_iff:
  assumes "inv p" "list_all wf ss" "intern_all query ss p = (ks, p')" "i < length ss" "j < length ss"
    "ok (ks ! i)" "ok (ks ! j)"
  shows "ks ! i = ks ! j \<longleftrightarrow> ss ! i = ss ! j"
proof -
  have "inv p'" "mem p' (ks ! i) = Some (ss ! i)" "mem p' (ks ! j) = Some (ss ! j)"
    using intern_all_mem [OF assms(1,2,3)] assms(4-) by (auto simp: list_all2_conv_all_nth)
  then show ?thesis using mem_inj by (metis option.inject)
qed

lemma query_again:
  assumes "inv p" "wf s" "mem p k = Some s" "ok (fst (query s p))"
  shows "fst (query s p) = k"
proof -
  obtain k' p' where q: "query s p = (k', p')" by fastforce
  then show ?thesis using query_law [OF assms(1,2) q] mem_inj [of p' k s k'] assms(3,4) by auto
qed

end

subsection \<open>Binary search\<close>

text \<open>
  The loop \<^verbatim>\<open>while(r - l > 1) { m = (l + r) / 2; if(p(m)) l = m; else r = m; }\<close> that the tag
  sets and the block graph builder share. On a predicate that changes from true to false once,
  it stops at the change.
\<close>

function bisect :: "(nat \<Rightarrow> bool) \<Rightarrow> nat \<Rightarrow> nat \<Rightarrow> nat \<times> nat" where
  "bisect p l r =
     (if r - l > 1
      then let m = (l + r) div 2 in if p m then bisect p m r else bisect p l m
      else (l, r))"
  by pat_completeness auto
termination
  by (relation "measure (\<lambda>(p, l, r). r - l)") auto

declare bisect.simps [simp del]

lemma bisect_bounds:
  "l < r \<Longrightarrow> bisect p l r = (l', r') \<Longrightarrow> l \<le> l' \<and> r' \<le> r \<and> r' = Suc l'"
proof (induction p l r rule: bisect.induct)
  case (1 p l r)
  show ?case
  proof (cases "r - l > 1")
    case True
    with 1 show ?thesis
      by (fastforce simp: bisect.simps [of p l r] Let_def split: if_splits)
  next
    case False
    with 1 show ?thesis by (simp add: bisect.simps [of p l r])
  qed
qed

lemma bisect_left:
  "bisect p l r = (l', r') \<Longrightarrow> p l \<Longrightarrow> p l'"
proof (induction p l r rule: bisect.induct)
  case (1 p l r)
  show ?case
  proof (cases "r - l > 1")
    case True
    with 1 show ?thesis
      by (cases "p ((l + r) div 2)") (simp_all add: bisect.simps [of p l r] Let_def)
  next
    case False
    with 1 show ?thesis by (simp add: bisect.simps [of p l r])
  qed
qed

lemma bisect_right:
  "bisect p l r = (l', r') \<Longrightarrow> r' = r \<or> \<not> p r'"
proof (induction p l r rule: bisect.induct)
  case (1 p l r)
  show ?case
  proof (cases "r - l > 1")
    case True
    with 1 show ?thesis
      by (cases "p ((l + r) div 2)") (auto simp: bisect.simps [of p l r] Let_def)
  next
    case False
    with 1 show ?thesis by (simp add: bisect.simps [of p l r])
  qed
qed

text \<open>
  On an array whose keys increase strictly, the search for the last key that is not greater ends
  at the key itself when it is there.
\<close>

lemma bisect_sorted:
  fixes key :: "nat \<Rightarrow> 'k::linorder"
  assumes sorted: "\<And>i j. i < j \<Longrightarrow> j < n \<Longrightarrow> key i < key j"
    and "k < n"
  shows "fst (bisect (\<lambda>m. key m \<le> key k) 0 n) = k"
proof -
  obtain l r where lr: "bisect (\<lambda>m. key m \<le> key k) 0 n = (l, r)" by fastforce
  then have bounds: "r \<le> n" "r = Suc l" using bisect_bounds [OF _ lr] assms(2) by auto
  have le: "key i \<le> key j" if "i \<le> j" "j < n" for i j
    using sorted [of i j] that by (cases "i = j") auto
  have "key l \<le> key k"
    using bisect_left [OF lr] le [of 0 k] assms(2) by simp
  then have "\<not> k < l" using sorted [of k l] bounds by (auto simp: not_le)
  moreover have "\<not> l < k"
    using bisect_right [OF lr] le [of r k] bounds assms(2) by auto
  ultimately show ?thesis using lr by simp
qed

lemma bisect_in_range: "0 < n \<Longrightarrow> fst (bisect p 0 n) < n"
  using bisect_bounds [of 0 n p] by (cases "bisect p 0 n") fastforce

subsection \<open>Partial functions on lists\<close>

fun map_opt :: "('a \<Rightarrow> 'b option) \<Rightarrow> 'a list \<Rightarrow> 'b list option" where
  "map_opt f [] = Some []"
| "map_opt f (x # xs) = (case f x of None \<Rightarrow> None | Some y \<Rightarrow> map_option ((#) y) (map_opt f xs))"

lemma map_opt_map: "(\<And>x. x \<in> set xs \<Longrightarrow> f x = Some (g x)) \<Longrightarrow> map_opt f xs = Some (map g xs)"
  by (induction xs) auto

lemma map_opt_Some_nth:
  "map_opt f xs = Some ys \<longleftrightarrow> length ys = length xs \<and> (\<forall>i < length xs. f (xs ! i) = Some (ys ! i))"
proof (induction xs arbitrary: ys)
  case (Cons x xs)
  show ?case
  proof (cases ys)
    case (Cons y ys')
    then show ?thesis using Cons.IH [of ys'] by (auto simp: All_less_Suc2 split: option.splits)
  qed (auto split: option.splits)
qed auto

end
