(* ===== verification/Store_Addr.thy ===== *)
theory Store_Addr
  imports Adam_Prelude Complex_Main
begin

text \<open>
  The address space of the abstract store (\<^verbatim>\<open>include/cesk/cesk_store.h\<close>, \<^verbatim>\<open>include/constants.h\<close>)
  and the abstraction of constant operands (\<^verbatim>\<open>cesk_store_const_addr_from_operand\<close>).

  A 32 bit store address is an object address, a relocated address (prefix \<^verbatim>\<open>0xff\<close>) or a
  constant address (prefix \<^verbatim>\<open>0xffffff\<close>). The low bits of a constant address are a set of
  abstract numbers: negative, zero, positive; the truth values reuse the bits of positive and
  zero. \<open>sign_gamma\<close> below is the meaning of such a set.
\<close>

definition CESK_STORE_ADDR_CONST_PREFIX :: u32 where
  "CESK_STORE_ADDR_CONST_PREFIX = 0xffffff00"

definition CESK_STORE_ADDR_RELOC_PREFIX :: u32 where
  "CESK_STORE_ADDR_RELOC_PREFIX = 0xff000000"

definition CESK_STORE_ADDR_NULL :: u32 where
  "CESK_STORE_ADDR_NULL = 0xffffffff"

definition CESK_STORE_ADDR_OBJ_LIMIT :: u32 where
  "CESK_STORE_ADDR_OBJ_LIMIT = CESK_STORE_ADDR_RELOC_PREFIX"

definition CESK_STORE_ADDR_NEG :: u32 where
  "CESK_STORE_ADDR_NEG = CESK_STORE_ADDR_CONST_PREFIX OR 0x01"

definition CESK_STORE_ADDR_ZERO :: u32 where
  "CESK_STORE_ADDR_ZERO = CESK_STORE_ADDR_CONST_PREFIX OR 0x02"

definition CESK_STORE_ADDR_POS :: u32 where
  "CESK_STORE_ADDR_POS = CESK_STORE_ADDR_CONST_PREFIX OR 0x04"

definition CESK_STORE_ADDR_TRUE :: u32 where
  "CESK_STORE_ADDR_TRUE = CESK_STORE_ADDR_CONST_PREFIX OR 0x04"

definition CESK_STORE_ADDR_FALSE :: u32 where
  "CESK_STORE_ADDR_FALSE = CESK_STORE_ADDR_CONST_PREFIX OR 0x02"

definition CESK_STORE_ADDR_EMPTY :: u32 where
  "CESK_STORE_ADDR_EMPTY = CESK_STORE_ADDR_CONST_PREFIX"

definition CESK_STORE_ADDR_IS_CONST :: "u32 \<Rightarrow> bool" where
  "CESK_STORE_ADDR_IS_CONST a \<longleftrightarrow> a AND CESK_STORE_ADDR_CONST_PREFIX = CESK_STORE_ADDR_CONST_PREFIX"

definition CESK_STORE_ADDR_CONST_SUFFIX :: "u32 \<Rightarrow> u32" where
  "CESK_STORE_ADDR_CONST_SUFFIX a = a AND (NOT CESK_STORE_ADDR_CONST_PREFIX)"

definition CESK_STORE_ADDR_CONST_CONTAIN :: "u32 \<Rightarrow> u32 \<Rightarrow> bool" where
  "CESK_STORE_ADDR_CONST_CONTAIN a e \<longleftrightarrow>
     CESK_STORE_ADDR_IS_CONST a \<and> a AND CESK_STORE_ADDR_CONST_SUFFIX e \<noteq> 0"

definition CESK_STORE_ADDR_CONST_SET :: "u32 \<Rightarrow> u32 \<Rightarrow> u32" where
  "CESK_STORE_ADDR_CONST_SET a e = a OR CESK_STORE_ADDR_CONST_SUFFIX e"

definition CESK_STORE_ADDR_IS_RELOC :: "u32 \<Rightarrow> bool" where
  "CESK_STORE_ADDR_IS_RELOC a \<longleftrightarrow>
     a AND CESK_STORE_ADDR_RELOC_PREFIX = CESK_STORE_ADDR_RELOC_PREFIX \<and>
     \<not> CESK_STORE_ADDR_IS_CONST a"

definition CESK_STORE_ADDR_RELOC_IDX :: "u32 \<Rightarrow> u32" where
  "CESK_STORE_ADDR_RELOC_IDX a = a AND (NOT CESK_STORE_ADDR_RELOC_PREFIX)"

definition CESK_STORE_ADDR_IS_OBJ :: "u32 \<Rightarrow> bool" where
  "CESK_STORE_ADDR_IS_OBJ a \<longleftrightarrow> a < CESK_STORE_ADDR_OBJ_LIMIT"

lemmas addr_const_defs =
  CESK_STORE_ADDR_CONST_PREFIX_def CESK_STORE_ADDR_RELOC_PREFIX_def CESK_STORE_ADDR_NULL_def
  CESK_STORE_ADDR_OBJ_LIMIT_def CESK_STORE_ADDR_NEG_def CESK_STORE_ADDR_ZERO_def
  CESK_STORE_ADDR_POS_def CESK_STORE_ADDR_TRUE_def CESK_STORE_ADDR_FALSE_def
  CESK_STORE_ADDR_EMPTY_def

declare addr_const_defs [addr_defs]
declare CESK_STORE_ADDR_IS_CONST_def [addr_defs]
declare CESK_STORE_ADDR_CONST_SUFFIX_def [addr_defs]
declare CESK_STORE_ADDR_CONST_CONTAIN_def [addr_defs]
declare CESK_STORE_ADDR_CONST_SET_def [addr_defs]
declare CESK_STORE_ADDR_IS_RELOC_def [addr_defs]
declare CESK_STORE_ADDR_RELOC_IDX_def [addr_defs]
declare CESK_STORE_ADDR_IS_OBJ_def [addr_defs]

subsection \<open>The three address classes\<close>

lemma const_prefix_mask: "CESK_STORE_ADDR_CONST_PREFIX = NOT (mask 8)"
  by (simp add: addr_const_defs mask_eq_exp_minus_1)

lemma masked_prefix_ge:
  fixes a p :: u32
  assumes "a AND p = p"
  shows "p \<le> a"
  using assms by (metis word_and_le2)

lemma unat_high_mask: "unat (mask (32 - n) :: u32) = 2 ^ (32 - n) - 1"
proof -
  have "uint (mask (32 - n) :: u32) = mask (32 - n)"
    by (simp add: uint_mask_eq)
  then have "nat (uint (mask (32 - n) :: u32)) = nat (2 ^ (32 - n) - 1)"
    by (simp add: mask_eq_exp_minus_1)
  then show ?thesis by (simp add: nat_diff_distrib nat_power_eq)
qed

lemma high_mask_of_ge:
  fixes a :: u32
  assumes "n \<le> 32" and "2 ^ 32 - 2 ^ n \<le> unat a"
  shows "a AND NOT (mask n) = NOT (mask n)"
proof -
  define c :: nat where "c = 2 ^ (32 - n) - 1"
  have pow: "(2 :: nat) ^ 32 = 2 ^ (32 - n) * 2 ^ n"
    using assms(1) by (metis le_add_diff_inverse2 power_add)
  have "unat a < 2 ^ 32" using unsigned_less [of a] by simp
  then have upper: "unat a < Suc c * 2 ^ n" by (simp only: c_def pow) simp
  have lower: "c * 2 ^ n \<le> unat a" using assms(2) by (simp only: c_def pow diff_mult_distrib mult_1)
  have "unat (drop_bit n a) = unat a div 2 ^ n"
    unfolding unat_drop_bit_eq by (simp add: drop_bit_eq_div)
  also have "\<dots> = c"
    using upper lower by (intro div_nat_eqI) (simp_all add: mult.commute)
  finally have "drop_bit n a = mask (32 - n)"
    using unat_high_mask [of n] by (simp add: word_unat_eq_iff c_def)
  moreover have "a AND NOT (mask n) = push_bit n (drop_bit n a)"
    by (rule bit_word_eqI) (auto simp: bit_simps)
  moreover have "push_bit n (mask (32 - n) :: u32) = NOT (mask n)"
    using assms(1) by (intro bit_word_eqI) (auto simp: bit_simps)
  ultimately show ?thesis by simp
qed

lemma is_const_iff_ge:
  "CESK_STORE_ADDR_IS_CONST a \<longleftrightarrow> CESK_STORE_ADDR_CONST_PREFIX \<le> a"
proof
  show "CESK_STORE_ADDR_IS_CONST a \<Longrightarrow> CESK_STORE_ADDR_CONST_PREFIX \<le> a"
    by (auto simp: CESK_STORE_ADDR_IS_CONST_def intro: masked_prefix_ge)
next
  assume "CESK_STORE_ADDR_CONST_PREFIX \<le> a"
  then have "a AND NOT (mask 8) = NOT (mask 8)"
    by (intro high_mask_of_ge) (simp_all add: addr_const_defs word_le_nat_alt)
  then show "CESK_STORE_ADDR_IS_CONST a"
    by (simp add: CESK_STORE_ADDR_IS_CONST_def const_prefix_mask)
qed

lemma is_reloc_iff_range:
  "CESK_STORE_ADDR_IS_RELOC a \<longleftrightarrow>
     CESK_STORE_ADDR_RELOC_PREFIX \<le> a \<and> a < CESK_STORE_ADDR_CONST_PREFIX"
proof -
  have "a AND 0xff000000 = 0xff000000" if "(0xff000000 :: u32) \<le> a"
  proof -
    have "a AND NOT (mask 24) = NOT (mask 24)"
      using that by (intro high_mask_of_ge) (simp_all add: word_le_nat_alt)
    moreover have "NOT (mask 24) = (0xff000000 :: u32)" by (simp add: mask_eq_exp_minus_1)
    ultimately show ?thesis by (simp only:)
  qed
  then show ?thesis
    using masked_prefix_ge [of a "0xff000000"]
    by (auto simp: CESK_STORE_ADDR_IS_RELOC_def is_const_iff_ge addr_const_defs not_le)
qed

lemma is_obj_iff: "CESK_STORE_ADDR_IS_OBJ a \<longleftrightarrow> a < CESK_STORE_ADDR_RELOC_PREFIX"
  by (simp add: CESK_STORE_ADDR_IS_OBJ_def CESK_STORE_ADDR_OBJ_LIMIT_def)

subsection \<open>Sets of abstract numbers\<close>

lemma const_suffixes [sign_simps]:
  "CESK_STORE_ADDR_CONST_SUFFIX CESK_STORE_ADDR_NEG = 1"
  "CESK_STORE_ADDR_CONST_SUFFIX CESK_STORE_ADDR_ZERO = 2"
  "CESK_STORE_ADDR_CONST_SUFFIX CESK_STORE_ADDR_POS = 4"
  "CESK_STORE_ADDR_CONST_SUFFIX CESK_STORE_ADDR_TRUE = 4"
  "CESK_STORE_ADDR_CONST_SUFFIX CESK_STORE_ADDR_FALSE = 2"
  by (simp_all add: CESK_STORE_ADDR_CONST_SUFFIX_def addr_const_defs)

lemma is_const_prefix [sign_simps]: "CESK_STORE_ADDR_IS_CONST CESK_STORE_ADDR_CONST_PREFIX"
  by (simp add: CESK_STORE_ADDR_IS_CONST_def)

lemma is_const_set [sign_simps]:
  "CESK_STORE_ADDR_IS_CONST a \<Longrightarrow> CESK_STORE_ADDR_IS_CONST (CESK_STORE_ADDR_CONST_SET a e)"
  unfolding CESK_STORE_ADDR_IS_CONST_def CESK_STORE_ADDR_CONST_SET_def
  by (simp add: bit_eq_iff bit_simps) blast

lemma contain_set [sign_simps]:
  "CESK_STORE_ADDR_IS_CONST a \<Longrightarrow>
   CESK_STORE_ADDR_CONST_CONTAIN (CESK_STORE_ADDR_CONST_SET a e) f \<longleftrightarrow>
     CESK_STORE_ADDR_CONST_CONTAIN a f \<or>
     CESK_STORE_ADDR_CONST_SUFFIX e AND CESK_STORE_ADDR_CONST_SUFFIX f \<noteq> 0"
  using is_const_set [of a e]
  by (auto simp: CESK_STORE_ADDR_CONST_CONTAIN_def CESK_STORE_ADDR_CONST_SET_def
      bit.conj_disj_distrib2 or_eq_0_iff)

text \<open>
  The meaning of an address as a set of numbers. It is used at \<^typ>\<open>int\<close> for the integer
  instructions and at \<^typ>\<open>real\<close> for the floating point ones.
\<close>

definition sign_gamma :: "u32 \<Rightarrow> ('a::linordered_idom) set" where
  "sign_gamma a = {x. (x < 0 \<and> CESK_STORE_ADDR_CONST_CONTAIN a CESK_STORE_ADDR_NEG) \<or>
                      (x = 0 \<and> CESK_STORE_ADDR_CONST_CONTAIN a CESK_STORE_ADDR_ZERO) \<or>
                      (x > 0 \<and> CESK_STORE_ADDR_CONST_CONTAIN a CESK_STORE_ADDR_POS)}"

text \<open>The meaning of an address as a set of truth values.\<close>

definition bool_gamma :: "u32 \<Rightarrow> bool set" where
  "bool_gamma a = {b. (b \<and> CESK_STORE_ADDR_CONST_CONTAIN a CESK_STORE_ADDR_TRUE) \<or>
                      (\<not> b \<and> CESK_STORE_ADDR_CONST_CONTAIN a CESK_STORE_ADDR_FALSE)}"

lemma sign_gamma_points:
  "CESK_STORE_ADDR_CONST_CONTAIN a CESK_STORE_ADDR_NEG \<longleftrightarrow> (-1 :: 'a::linordered_idom) \<in> sign_gamma a"
  "CESK_STORE_ADDR_CONST_CONTAIN a CESK_STORE_ADDR_ZERO \<longleftrightarrow> (0 :: 'a) \<in> sign_gamma a"
  "CESK_STORE_ADDR_CONST_CONTAIN a CESK_STORE_ADDR_POS \<longleftrightarrow> (1 :: 'a) \<in> sign_gamma a"
  by (auto simp: sign_gamma_def)

lemma contain_singletons [sign_simps]:
  "CESK_STORE_ADDR_CONST_CONTAIN CESK_STORE_ADDR_NEG e \<longleftrightarrow> CESK_STORE_ADDR_CONST_SUFFIX e AND 1 \<noteq> 0"
  "CESK_STORE_ADDR_CONST_CONTAIN CESK_STORE_ADDR_ZERO e \<longleftrightarrow> CESK_STORE_ADDR_CONST_SUFFIX e AND 2 \<noteq> 0"
  "CESK_STORE_ADDR_CONST_CONTAIN CESK_STORE_ADDR_POS e \<longleftrightarrow> CESK_STORE_ADDR_CONST_SUFFIX e AND 4 \<noteq> 0"
proof -
  have suffix: "(0xffffff00 OR b) AND CESK_STORE_ADDR_CONST_SUFFIX e = CESK_STORE_ADDR_CONST_SUFFIX e AND b" for b
    by (rule bit_word_eqI) (auto simp: CESK_STORE_ADDR_CONST_SUFFIX_def addr_const_defs bit_simps)
  have "CESK_STORE_ADDR_IS_CONST (0xffffff00 OR b)" for b
    unfolding CESK_STORE_ADDR_IS_CONST_def addr_const_defs
    by (rule bit_word_eqI) (auto simp: bit_simps)
  then have "CESK_STORE_ADDR_CONST_CONTAIN (0xffffff00 OR b) e \<longleftrightarrow>
      CESK_STORE_ADDR_CONST_SUFFIX e AND b \<noteq> 0" for b
    by (simp only: CESK_STORE_ADDR_CONST_CONTAIN_def suffix) simp
  from this [of 1] this [of 2] this [of 4]
  show "CESK_STORE_ADDR_CONST_CONTAIN CESK_STORE_ADDR_NEG e \<longleftrightarrow> CESK_STORE_ADDR_CONST_SUFFIX e AND 1 \<noteq> 0"
    "CESK_STORE_ADDR_CONST_CONTAIN CESK_STORE_ADDR_ZERO e \<longleftrightarrow> CESK_STORE_ADDR_CONST_SUFFIX e AND 2 \<noteq> 0"
    "CESK_STORE_ADDR_CONST_CONTAIN CESK_STORE_ADDR_POS e \<longleftrightarrow> CESK_STORE_ADDR_CONST_SUFFIX e AND 4 \<noteq> 0"
    by (simp_all add: CESK_STORE_ADDR_NEG_def CESK_STORE_ADDR_ZERO_def CESK_STORE_ADDR_POS_def
        CESK_STORE_ADDR_CONST_PREFIX_def)
qed

subsection \<open>Constant operands\<close>

text \<open>
  The operand of an instruction, as far as \<^verbatim>\<open>cesk_store_const_addr_from_operand\<close> reads it: the
  5 bit type code and the constant bit of the header, the 64 bits of the payload union (the
  integer members are its low bits, on a little endian machine) and the number that the union
  denotes when it is read as a \<^verbatim>\<open>double\<close> and as a \<^verbatim>\<open>float\<close>.
\<close>

record dalvik_operand =
  op_type :: nat
  is_const :: bool
  payload_bits :: u64
  payload_real64 :: real
  payload_real32 :: real

definition DVM_OPERAND_TYPE_BOOLEAN :: nat where "DVM_OPERAND_TYPE_BOOLEAN = 1"
definition DVM_OPERAND_TYPE_BYTE :: nat where "DVM_OPERAND_TYPE_BYTE = 2"
definition DVM_OPERAND_TYPE_CHAR :: nat where "DVM_OPERAND_TYPE_CHAR = 3"
definition DVM_OPERAND_TYPE_SHORT :: nat where "DVM_OPERAND_TYPE_SHORT = 4"
definition DVM_OPERAND_TYPE_INT :: nat where "DVM_OPERAND_TYPE_INT = 5"
definition DVM_OPERAND_TYPE_LONG :: nat where "DVM_OPERAND_TYPE_LONG = 6"
definition DVM_OPERAND_TYPE_DOUBLE :: nat where "DVM_OPERAND_TYPE_DOUBLE = 7"
definition DVM_OPERAND_TYPE_FLOAT :: nat where "DVM_OPERAND_TYPE_FLOAT = 8"

text \<open>The position of \<^verbatim>\<open>DALVIK_TYPECODE_BOOLEAN\<close> in the enumeration of type codes.\<close>

definition DALVIK_TYPECODE_BOOLEAN_code :: nat where "DALVIK_TYPECODE_BOOLEAN_code = 9"

lemmas operand_type_defs =
  DVM_OPERAND_TYPE_BOOLEAN_def DVM_OPERAND_TYPE_BYTE_def DVM_OPERAND_TYPE_CHAR_def
  DVM_OPERAND_TYPE_SHORT_def DVM_OPERAND_TYPE_INT_def DVM_OPERAND_TYPE_LONG_def
  DVM_OPERAND_TYPE_DOUBLE_def DVM_OPERAND_TYPE_FLOAT_def DALVIK_TYPECODE_BOOLEAN_code_def

definition payload_int8 :: "dalvik_operand \<Rightarrow> int" where
  "payload_int8 p = sint (ucast (payload_bits p) :: 8 word)"
definition payload_int16 :: "dalvik_operand \<Rightarrow> int" where
  "payload_int16 p = sint (ucast (payload_bits p) :: 16 word)"
definition payload_int32 :: "dalvik_operand \<Rightarrow> int" where
  "payload_int32 p = sint (ucast (payload_bits p) :: 32 word)"
definition payload_int64 :: "dalvik_operand \<Rightarrow> int" where
  "payload_int64 p = sint (payload_bits p)"

text \<open>The label \<^verbatim>\<open>num\<close> that the numeric cases jump to.\<close>

definition num_addr :: "int \<Rightarrow> u32" where
  "num_addr intval =
     (if intval > 0 then CESK_STORE_ADDR_POS
      else if intval < 0 then CESK_STORE_ADDR_NEG
      else CESK_STORE_ADDR_ZERO)"

text \<open>The three way test that the floating point cases make with a tolerance of \<^verbatim>\<open>1e-20\<close>.\<close>

definition real_sign :: "real \<Rightarrow> int" where
  "real_sign r = (if r < - (1 / 10 ^ 20) then - 1 else if r > 1 / 10 ^ 20 then 1 else 0)"

text \<open>
  The operand is an option: \<^const>\<open>None\<close> is the null pointer. \<^verbatim>\<open>intval\<close> is an \<^verbatim>\<open>int\<close>: the assignment of
  the 64 bit member keeps its low 32 bits.
\<close>

definition cesk_store_const_addr_from_operand :: "dalvik_operand option \<Rightarrow> u32" where
  "cesk_store_const_addr_from_operand operand =
     (case operand of
        None \<Rightarrow> CESK_STORE_ADDR_NULL
      | Some p \<Rightarrow>
          if \<not> is_const p then CESK_STORE_ADDR_NULL
          else if op_type p = DVM_OPERAND_TYPE_LONG
            then num_addr (sint (word_of_int (payload_int64 p) :: 32 word))
          else if op_type p = DVM_OPERAND_TYPE_SHORT then num_addr (payload_int16 p)
          else if op_type p = DVM_OPERAND_TYPE_INT then num_addr (payload_int32 p)
          else if op_type p = DVM_OPERAND_TYPE_BYTE then num_addr (payload_int8 p)
          else if op_type p = DVM_OPERAND_TYPE_DOUBLE then num_addr (real_sign (payload_real64 p))
          else if op_type p = DVM_OPERAND_TYPE_FLOAT then num_addr (real_sign (payload_real32 p))
          else if op_type p = DVM_OPERAND_TYPE_CHAR then num_addr (payload_int8 p)
          else if op_type p = DALVIK_TYPECODE_BOOLEAN_code
            then (if (ucast (payload_bits p) :: u8) \<noteq> 0 then CESK_STORE_ADDR_TRUE
                  else CESK_STORE_ADDR_FALSE)
          else CESK_STORE_ADDR_NULL)"

lemma num_addr_gamma: "sign_gamma (num_addr n) = {x :: int. sgn x = sgn n}"
  by (auto simp: num_addr_def sign_gamma_def sgn_if sign_simps)

subsection \<open>Properties of the address space\<close>

text \<open>
  C35: every 32 bit address belongs to exactly one of the three classes, object, relocated and
  constant, and the classes are intervals in this order: below \<^verbatim>\<open>0xff000000\<close>, up to
  \<^verbatim>\<open>0xffffff00\<close>, and above. The index of a relocated address recovers its offset from the prefix
  and stays below the size \<^verbatim>\<open>0xffff00\<close> of the relocated space.
\<close>

theorem address_classes_partition:
  "(CESK_STORE_ADDR_IS_OBJ a \<longleftrightarrow> a < 0xff000000) \<and>
   (CESK_STORE_ADDR_IS_RELOC a \<longleftrightarrow> 0xff000000 \<le> a \<and> a < 0xffffff00) \<and>
   (CESK_STORE_ADDR_IS_CONST a \<longleftrightarrow> 0xffffff00 \<le> a) \<and>
   (CESK_STORE_ADDR_IS_RELOC a \<longrightarrow>
      a = CESK_STORE_ADDR_RELOC_PREFIX OR CESK_STORE_ADDR_RELOC_IDX a \<and>
      CESK_STORE_ADDR_RELOC_IDX a < 0xffff00)"
proof (intro conjI impI)
  show "CESK_STORE_ADDR_IS_OBJ a \<longleftrightarrow> a < 0xff000000"
    "CESK_STORE_ADDR_IS_RELOC a \<longleftrightarrow> 0xff000000 \<le> a \<and> a < 0xffffff00"
    "CESK_STORE_ADDR_IS_CONST a \<longleftrightarrow> 0xffffff00 \<le> a"
    by (simp_all add: is_obj_iff is_reloc_iff_range is_const_iff_ge addr_const_defs)
next
  assume reloc: "CESK_STORE_ADDR_IS_RELOC a"
  then have prefix: "a AND 0xff000000 = 0xff000000"
    by (simp add: CESK_STORE_ADDR_IS_RELOC_def addr_const_defs)
  have "a = (a AND 0xff000000) OR (a AND NOT 0xff000000)"
    by (rule bit_word_eqI) (auto simp: bit_simps)
  with prefix show split: "a = CESK_STORE_ADDR_RELOC_PREFIX OR CESK_STORE_ADDR_RELOC_IDX a"
    by (simp add: CESK_STORE_ADDR_RELOC_IDX_def addr_const_defs)
  have disj: "0xff000000 AND CESK_STORE_ADDR_RELOC_IDX a = 0"
    by (rule bit_word_eqI) (auto simp: CESK_STORE_ADDR_RELOC_IDX_def addr_const_defs bit_simps)
  then have sum: "a = 0xff000000 + CESK_STORE_ADDR_RELOC_IDX a"
    using split by (simp add: addr_const_defs word_plus_and_or [symmetric, of "0xff000000"])
  have "a < 0xffffff00" using reloc by (simp add: is_reloc_iff_range addr_const_defs)
  moreover have "0xff000000 \<le> a" using reloc by (simp add: is_reloc_iff_range addr_const_defs)
  moreover have "CESK_STORE_ADDR_RELOC_IDX a = a - 0xff000000" using sum by (metis add_diff_cancel_left')
  ultimately show "CESK_STORE_ADDR_RELOC_IDX a < 0xffff00"
    by (simp add: word_less_nat_alt word_le_nat_alt unat_sub)
qed

theorem address_classes_partition_witness:
  "CESK_STORE_ADDR_RELOC_IDX 0xff000007 < 0xffff00"
proof -
  have "CESK_STORE_ADDR_IS_RELOC 0xff000007" by (simp add: addr_defs)
  with address_classes_partition [of "0xff000007"] show ?thesis by blast
qed

text \<open>
  For a constant operand of type int, short or byte, the address denotes exactly the integers
  with the sign of the operand.
\<close>

theorem const_operand_abstraction:
  assumes "is_const p"
    and "(op_type p, n) \<in> {(DVM_OPERAND_TYPE_INT, payload_int32 p),
                         (DVM_OPERAND_TYPE_SHORT, payload_int16 p),
                         (DVM_OPERAND_TYPE_BYTE, payload_int8 p)}"
  shows "sign_gamma (cesk_store_const_addr_from_operand (Some p)) = {x :: int. sgn x = sgn n}"
  using assms by (auto simp: cesk_store_const_addr_from_operand_def operand_type_defs num_addr_gamma)

theorem const_operand_abstraction_witness:
  "sign_gamma (cesk_store_const_addr_from_operand
     (Some \<lparr>op_type = 5, is_const = True, payload_bits = 0xfffffffb, payload_real64 = 0,
            payload_real32 = 0\<rparr>)) = {x :: int. sgn x = sgn (- 5)}"
  by (rule const_operand_abstraction) (simp_all add: operand_type_defs payload_int32_def)

text \<open>
  Three kinds of constant operands lose their value. A long whose low 32 bits are zero
  becomes zero although it is not; a boolean operand has no case and yields the null address,
  which as a set contains every number; the case labelled with the boolean type code is taken by
  object operands, whose code is 9.
\<close>

theorem const_operand_losses:
  "cesk_store_const_addr_from_operand
     (Some \<lparr>op_type = DVM_OPERAND_TYPE_LONG, is_const = True, payload_bits = 2 ^ 32,
            payload_real64 = 0, payload_real32 = 0\<rparr>) = CESK_STORE_ADDR_ZERO \<and>
   (\<forall>p. op_type p = DVM_OPERAND_TYPE_BOOLEAN \<longrightarrow>
      cesk_store_const_addr_from_operand (Some p) = CESK_STORE_ADDR_NULL) \<and>
   sign_gamma CESK_STORE_ADDR_NULL = (UNIV :: int set) \<and>
   (\<forall>p. is_const p \<and> op_type p = 9 \<longrightarrow>
      cesk_store_const_addr_from_operand (Some p) \<in> {CESK_STORE_ADDR_TRUE, CESK_STORE_ADDR_FALSE})"
proof (intro conjI)
  have "CESK_STORE_ADDR_CONST_CONTAIN CESK_STORE_ADDR_NULL CESK_STORE_ADDR_NEG"
    "CESK_STORE_ADDR_CONST_CONTAIN CESK_STORE_ADDR_NULL CESK_STORE_ADDR_ZERO"
    "CESK_STORE_ADDR_CONST_CONTAIN CESK_STORE_ADDR_NULL CESK_STORE_ADDR_POS"
    by (simp_all add: addr_defs)
  then show "sign_gamma CESK_STORE_ADDR_NULL = (UNIV :: int set)"
    by (auto simp: sign_gamma_def)
qed (simp_all add: cesk_store_const_addr_from_operand_def operand_type_defs payload_int64_def num_addr_def)

theorem const_operand_losses_witness:
  "cesk_store_const_addr_from_operand
     (Some \<lparr>op_type = 1, is_const = True, payload_bits = 1, payload_real64 = 0,
            payload_real32 = 0\<rparr>) = CESK_STORE_ADDR_NULL"
  using const_operand_losses by (simp add: operand_type_defs)

end
