(* ===== verification/Cesk_Arithmetic.thy ===== *)
theory Cesk_Arithmetic
  imports Store_Addr
begin

text \<open>
  Address arithmetic (\<^verbatim>\<open>include/cesk/cesk_arithmetic.h\<close>): every operation of the header, statement
  by statement. The warnings that the C code logs for an empty result have no effect on the
  value and are not modelled.

  The interface \<open>sound_arith\<close> states what the evaluator of instructions relies on, that each
  abstract operation covers the concrete one; from it follows that every arithmetic expression
  is covered. Negation, addition, subtraction and multiplication satisfy it, and they are exact
  for the signs; so are the truth value operations. The comparisons and the bitwise operations
  do not do what their comments say, and the theorems at the end of this theory state what they do.
\<close>

text \<open>\<^verbatim>\<open>if(c) ret = CESK_STORE_ADDR_CONST_SET(ret, e);\<close>\<close>

definition set_when :: "bool \<Rightarrow> u32 \<Rightarrow> u32 \<Rightarrow> u32" where
  "set_when c e ret = (if c then CESK_STORE_ADDR_CONST_SET ret e else ret)"

definition cesk_arithmetic_neg :: "u32 \<Rightarrow> u32" where
  "cesk_arithmetic_neg a =
     (let ret = CESK_STORE_ADDR_CONST_PREFIX;
          ret = set_when (CESK_STORE_ADDR_CONST_CONTAIN a CESK_STORE_ADDR_NEG) CESK_STORE_ADDR_POS ret;
          ret = set_when (CESK_STORE_ADDR_CONST_CONTAIN a CESK_STORE_ADDR_POS) CESK_STORE_ADDR_NEG ret;
          ret = set_when (CESK_STORE_ADDR_CONST_CONTAIN a CESK_STORE_ADDR_ZERO) CESK_STORE_ADDR_ZERO ret
      in ret)"

definition cesk_arithmetic_add :: "u32 \<Rightarrow> u32 \<Rightarrow> u32" where
  "cesk_arithmetic_add a b =
     (let ret = CESK_STORE_ADDR_CONST_PREFIX;
          ret = set_when (CESK_STORE_ADDR_CONST_CONTAIN a CESK_STORE_ADDR_NEG \<and>
                         CESK_STORE_ADDR_CONST_CONTAIN b CESK_STORE_ADDR_NEG) CESK_STORE_ADDR_NEG ret;
          ret = set_when (CESK_STORE_ADDR_CONST_CONTAIN a CESK_STORE_ADDR_NEG \<and>
                         CESK_STORE_ADDR_CONST_CONTAIN b CESK_STORE_ADDR_ZERO) CESK_STORE_ADDR_NEG ret;
          ret = set_when (CESK_STORE_ADDR_CONST_CONTAIN a CESK_STORE_ADDR_NEG \<and>
                         CESK_STORE_ADDR_CONST_CONTAIN b CESK_STORE_ADDR_POS) CESK_STORE_ADDR_NEG ret;
          ret = set_when (CESK_STORE_ADDR_CONST_CONTAIN a CESK_STORE_ADDR_NEG \<and>
                         CESK_STORE_ADDR_CONST_CONTAIN b CESK_STORE_ADDR_POS) CESK_STORE_ADDR_POS ret;
          ret = set_when (CESK_STORE_ADDR_CONST_CONTAIN a CESK_STORE_ADDR_NEG \<and>
                         CESK_STORE_ADDR_CONST_CONTAIN b CESK_STORE_ADDR_POS) CESK_STORE_ADDR_ZERO ret;
          ret = set_when (CESK_STORE_ADDR_CONST_CONTAIN a CESK_STORE_ADDR_ZERO \<and>
                         CESK_STORE_ADDR_CONST_CONTAIN b CESK_STORE_ADDR_NEG) CESK_STORE_ADDR_NEG ret;
          ret = set_when (CESK_STORE_ADDR_CONST_CONTAIN a CESK_STORE_ADDR_ZERO \<and>
                         CESK_STORE_ADDR_CONST_CONTAIN b CESK_STORE_ADDR_ZERO) CESK_STORE_ADDR_ZERO ret;
          ret = set_when (CESK_STORE_ADDR_CONST_CONTAIN a CESK_STORE_ADDR_ZERO \<and>
                         CESK_STORE_ADDR_CONST_CONTAIN b CESK_STORE_ADDR_POS) CESK_STORE_ADDR_POS ret;
          ret = set_when (CESK_STORE_ADDR_CONST_CONTAIN a CESK_STORE_ADDR_POS \<and>
                         CESK_STORE_ADDR_CONST_CONTAIN b CESK_STORE_ADDR_NEG) CESK_STORE_ADDR_NEG ret;
          ret = set_when (CESK_STORE_ADDR_CONST_CONTAIN a CESK_STORE_ADDR_POS \<and>
                         CESK_STORE_ADDR_CONST_CONTAIN b CESK_STORE_ADDR_NEG) CESK_STORE_ADDR_POS ret;
          ret = set_when (CESK_STORE_ADDR_CONST_CONTAIN a CESK_STORE_ADDR_POS \<and>
                         CESK_STORE_ADDR_CONST_CONTAIN b CESK_STORE_ADDR_NEG) CESK_STORE_ADDR_ZERO ret;
          ret = set_when (CESK_STORE_ADDR_CONST_CONTAIN a CESK_STORE_ADDR_POS \<and>
                         CESK_STORE_ADDR_CONST_CONTAIN b CESK_STORE_ADDR_ZERO) CESK_STORE_ADDR_POS ret;
          ret = set_when (CESK_STORE_ADDR_CONST_CONTAIN a CESK_STORE_ADDR_POS \<and>
                         CESK_STORE_ADDR_CONST_CONTAIN b CESK_STORE_ADDR_POS) CESK_STORE_ADDR_POS ret
      in if CESK_STORE_ADDR_CONST_PREFIX = ret then CESK_STORE_ADDR_CONST_PREFIX else ret)"

definition cesk_arithmetic_sub :: "u32 \<Rightarrow> u32 \<Rightarrow> u32" where
  "cesk_arithmetic_sub a b = cesk_arithmetic_add a (cesk_arithmetic_neg b)"

definition cesk_arithmetic_mul :: "u32 \<Rightarrow> u32 \<Rightarrow> u32" where
  "cesk_arithmetic_mul a b =
     (let ret = CESK_STORE_ADDR_CONST_PREFIX;
          ret = set_when (CESK_STORE_ADDR_CONST_CONTAIN a CESK_STORE_ADDR_NEG \<and>
                         CESK_STORE_ADDR_CONST_CONTAIN b CESK_STORE_ADDR_NEG) CESK_STORE_ADDR_POS ret;
          ret = set_when (CESK_STORE_ADDR_CONST_CONTAIN a CESK_STORE_ADDR_NEG \<and>
                         CESK_STORE_ADDR_CONST_CONTAIN b CESK_STORE_ADDR_ZERO) CESK_STORE_ADDR_ZERO ret;
          ret = set_when (CESK_STORE_ADDR_CONST_CONTAIN a CESK_STORE_ADDR_NEG \<and>
                         CESK_STORE_ADDR_CONST_CONTAIN b CESK_STORE_ADDR_POS) CESK_STORE_ADDR_NEG ret;
          ret = set_when (CESK_STORE_ADDR_CONST_CONTAIN a CESK_STORE_ADDR_ZERO \<and>
                         CESK_STORE_ADDR_CONST_CONTAIN b CESK_STORE_ADDR_NEG) CESK_STORE_ADDR_ZERO ret;
          ret = set_when (CESK_STORE_ADDR_CONST_CONTAIN a CESK_STORE_ADDR_ZERO \<and>
                         CESK_STORE_ADDR_CONST_CONTAIN b CESK_STORE_ADDR_ZERO) CESK_STORE_ADDR_ZERO ret;
          ret = set_when (CESK_STORE_ADDR_CONST_CONTAIN a CESK_STORE_ADDR_ZERO \<and>
                         CESK_STORE_ADDR_CONST_CONTAIN b CESK_STORE_ADDR_POS) CESK_STORE_ADDR_ZERO ret;
          ret = set_when (CESK_STORE_ADDR_CONST_CONTAIN a CESK_STORE_ADDR_POS \<and>
                         CESK_STORE_ADDR_CONST_CONTAIN b CESK_STORE_ADDR_NEG) CESK_STORE_ADDR_NEG ret;
          ret = set_when (CESK_STORE_ADDR_CONST_CONTAIN a CESK_STORE_ADDR_POS \<and>
                         CESK_STORE_ADDR_CONST_CONTAIN b CESK_STORE_ADDR_ZERO) CESK_STORE_ADDR_ZERO ret;
          ret = set_when (CESK_STORE_ADDR_CONST_CONTAIN a CESK_STORE_ADDR_POS \<and>
                         CESK_STORE_ADDR_CONST_CONTAIN b CESK_STORE_ADDR_POS) CESK_STORE_ADDR_POS ret
      in if CESK_STORE_ADDR_CONST_PREFIX = ret then CESK_STORE_ADDR_CONST_PREFIX else ret)"

definition cesk_arithmetic_div :: "u32 \<Rightarrow> u32 \<Rightarrow> u32" where
  "cesk_arithmetic_div a b =
     (let b = b AND (CESK_STORE_ADDR_CONST_PREFIX OR
                     CESK_STORE_ADDR_CONST_SUFFIX CESK_STORE_ADDR_NEG OR
                     CESK_STORE_ADDR_CONST_SUFFIX CESK_STORE_ADDR_POS)
      in cesk_arithmetic_mul a b)"

definition cesk_arithmetic_not :: "u32 \<Rightarrow> u32" where
  "cesk_arithmetic_not a =
     (let ret = CESK_STORE_ADDR_CONST_PREFIX;
          ret = set_when (CESK_STORE_ADDR_CONST_CONTAIN a CESK_STORE_ADDR_TRUE) CESK_STORE_ADDR_FALSE ret;
          ret = set_when (CESK_STORE_ADDR_CONST_CONTAIN a CESK_STORE_ADDR_FALSE) CESK_STORE_ADDR_TRUE ret
      in ret)"

definition cesk_arithmetic_and :: "u32 \<Rightarrow> u32 \<Rightarrow> u32" where
  "cesk_arithmetic_and a b =
     (let ret = CESK_STORE_ADDR_CONST_PREFIX;
          ret = set_when (CESK_STORE_ADDR_CONST_CONTAIN a CESK_STORE_ADDR_TRUE \<and>
                         CESK_STORE_ADDR_CONST_CONTAIN b CESK_STORE_ADDR_TRUE) CESK_STORE_ADDR_TRUE ret;
          ret = set_when (CESK_STORE_ADDR_CONST_CONTAIN a CESK_STORE_ADDR_TRUE \<and>
                         CESK_STORE_ADDR_CONST_CONTAIN b CESK_STORE_ADDR_FALSE) CESK_STORE_ADDR_FALSE ret;
          ret = set_when (CESK_STORE_ADDR_CONST_CONTAIN a CESK_STORE_ADDR_FALSE \<and>
                         CESK_STORE_ADDR_CONST_CONTAIN b CESK_STORE_ADDR_TRUE) CESK_STORE_ADDR_FALSE ret;
          ret = set_when (CESK_STORE_ADDR_CONST_CONTAIN a CESK_STORE_ADDR_FALSE \<and>
                         CESK_STORE_ADDR_CONST_CONTAIN b CESK_STORE_ADDR_FALSE) CESK_STORE_ADDR_FALSE ret
      in ret)"

definition cesk_arithmetic_or :: "u32 \<Rightarrow> u32 \<Rightarrow> u32" where
  "cesk_arithmetic_or a b =
     (let ret = CESK_STORE_ADDR_CONST_PREFIX;
          ret = set_when (CESK_STORE_ADDR_CONST_CONTAIN a CESK_STORE_ADDR_TRUE \<and>
                         CESK_STORE_ADDR_CONST_CONTAIN b CESK_STORE_ADDR_TRUE) CESK_STORE_ADDR_TRUE ret;
          ret = set_when (CESK_STORE_ADDR_CONST_CONTAIN a CESK_STORE_ADDR_TRUE \<and>
                         CESK_STORE_ADDR_CONST_CONTAIN b CESK_STORE_ADDR_FALSE) CESK_STORE_ADDR_TRUE ret;
          ret = set_when (CESK_STORE_ADDR_CONST_CONTAIN a CESK_STORE_ADDR_FALSE \<and>
                         CESK_STORE_ADDR_CONST_CONTAIN b CESK_STORE_ADDR_TRUE) CESK_STORE_ADDR_TRUE ret;
          ret = set_when (CESK_STORE_ADDR_CONST_CONTAIN a CESK_STORE_ADDR_FALSE \<and>
                         CESK_STORE_ADDR_CONST_CONTAIN b CESK_STORE_ADDR_FALSE) CESK_STORE_ADDR_FALSE ret
      in ret)"

definition cesk_arithmetic_xor :: "u32 \<Rightarrow> u32 \<Rightarrow> u32" where
  "cesk_arithmetic_xor a b =
     (let ret = CESK_STORE_ADDR_CONST_PREFIX;
          ret = set_when (CESK_STORE_ADDR_CONST_CONTAIN a CESK_STORE_ADDR_TRUE \<and>
                         CESK_STORE_ADDR_CONST_CONTAIN b CESK_STORE_ADDR_TRUE) CESK_STORE_ADDR_FALSE ret;
          ret = set_when (CESK_STORE_ADDR_CONST_CONTAIN a CESK_STORE_ADDR_TRUE \<and>
                         CESK_STORE_ADDR_CONST_CONTAIN b CESK_STORE_ADDR_FALSE) CESK_STORE_ADDR_TRUE ret;
          ret = set_when (CESK_STORE_ADDR_CONST_CONTAIN a CESK_STORE_ADDR_FALSE \<and>
                         CESK_STORE_ADDR_CONST_CONTAIN b CESK_STORE_ADDR_TRUE) CESK_STORE_ADDR_TRUE ret;
          ret = set_when (CESK_STORE_ADDR_CONST_CONTAIN a CESK_STORE_ADDR_FALSE \<and>
                         CESK_STORE_ADDR_CONST_CONTAIN b CESK_STORE_ADDR_FALSE) CESK_STORE_ADDR_FALSE ret
      in ret)"

text \<open>
  The comparisons use \<^const>\<open>CESK_STORE_ADDR_CONST_SET\<close> as a condition (a number that is never zero)
  and \<^const>\<open>CESK_STORE_ADDR_CONST_CONTAIN\<close> as a value (the truth value, 0 or 1).
\<close>

definition cesk_arithmetic_gt :: "u32 \<Rightarrow> u32 \<Rightarrow> u32" where
  "cesk_arithmetic_gt a b =
     (let ret = CESK_STORE_ADDR_CONST_PREFIX;
          tmp = cesk_arithmetic_sub a b;
          ret = set_when (CESK_STORE_ADDR_CONST_SET tmp CESK_STORE_ADDR_NEG \<noteq> 0) CESK_STORE_ADDR_FALSE ret;
          ret = (if CESK_STORE_ADDR_CONST_SET tmp CESK_STORE_ADDR_ZERO \<noteq> 0
                 then of_bool (CESK_STORE_ADDR_CONST_CONTAIN ret CESK_STORE_ADDR_FALSE) else ret);
          ret = set_when (CESK_STORE_ADDR_CONST_CONTAIN tmp CESK_STORE_ADDR_POS) CESK_STORE_ADDR_TRUE ret
      in ret)"

definition cesk_arithmetic_eq :: "u32 \<Rightarrow> u32 \<Rightarrow> u32" where
  "cesk_arithmetic_eq a b =
     (let ret = CESK_STORE_ADDR_CONST_PREFIX;
          tmp = cesk_arithmetic_sub a b;
          ret = set_when (CESK_STORE_ADDR_CONST_SET tmp CESK_STORE_ADDR_NEG \<noteq> 0) CESK_STORE_ADDR_FALSE ret;
          ret = (if CESK_STORE_ADDR_CONST_SET tmp CESK_STORE_ADDR_ZERO \<noteq> 0
                 then of_bool (CESK_STORE_ADDR_CONST_CONTAIN ret CESK_STORE_ADDR_TRUE) else ret);
          ret = set_when (CESK_STORE_ADDR_CONST_CONTAIN tmp CESK_STORE_ADDR_POS) CESK_STORE_ADDR_FALSE ret
      in ret)"

text \<open>The function calls itself on the same arguments; not returning is \<^const>\<open>None\<close>.\<close>

partial_function (option) cesk_arithmetic_ge :: "u32 \<Rightarrow> u32 \<Rightarrow> u32 option" where
  "cesk_arithmetic_ge a b =
     Option.bind (cesk_arithmetic_ge a b) (\<lambda>r. Some (r OR cesk_arithmetic_eq a b))"

definition cesk_arithmetic_lt :: "u32 \<Rightarrow> u32 \<Rightarrow> u32 option" where
  "cesk_arithmetic_lt a b = cesk_arithmetic_ge b a"

definition cesk_arithmetic_le :: "u32 \<Rightarrow> u32 \<Rightarrow> u32 option" where
  "cesk_arithmetic_le a b = cesk_arithmetic_ge b a"

definition cesk_arithmetic_neq :: "u32 \<Rightarrow> u32 \<Rightarrow> u32" where
  "cesk_arithmetic_neq a b = cesk_arithmetic_not (cesk_arithmetic_eq a b)"

definition cesk_arithmetic_sign_bit :: "u32 \<Rightarrow> u32" where
  "cesk_arithmetic_sign_bit a =
     (let sa = CESK_STORE_ADDR_CONST_PREFIX;
          sa = set_when (CESK_STORE_ADDR_CONST_CONTAIN a CESK_STORE_ADDR_NEG) CESK_STORE_ADDR_TRUE sa;
          sa = set_when (CESK_STORE_ADDR_CONST_CONTAIN a CESK_STORE_ADDR_ZERO) CESK_STORE_ADDR_FALSE sa;
          sa = set_when (CESK_STORE_ADDR_CONST_CONTAIN a CESK_STORE_ADDR_POS) CESK_STORE_ADDR_FALSE sa
      in sa)"

text \<open>Each assignment starts again from the parameter \<^verbatim>\<open>sr\<close>.\<close>

definition cesk_arithmetic_sign_bit_to_numeric :: "u32 \<Rightarrow> u32" where
  "cesk_arithmetic_sign_bit_to_numeric sr =
     (let ret = CESK_STORE_ADDR_CONST_PREFIX;
          ret = (if CESK_STORE_ADDR_CONST_CONTAIN sr CESK_STORE_ADDR_TRUE
                 then CESK_STORE_ADDR_CONST_SET sr CESK_STORE_ADDR_NEG else ret)
      in if CESK_STORE_ADDR_CONST_CONTAIN sr CESK_STORE_ADDR_FALSE
         then let ret = CESK_STORE_ADDR_CONST_SET sr CESK_STORE_ADDR_POS;
                  ret = CESK_STORE_ADDR_CONST_SET sr CESK_STORE_ADDR_ZERO
              in ret
         else ret)"

definition cesk_arithmetic_bitwise_and :: "u32 \<Rightarrow> u32 \<Rightarrow> u32" where
  "cesk_arithmetic_bitwise_and a b =
     (let sa = cesk_arithmetic_sign_bit a;
          sb = cesk_arithmetic_sign_bit b;
          sr = cesk_arithmetic_and sa sb;
          ret = cesk_arithmetic_sign_bit_to_numeric sr
      in if CESK_STORE_ADDR_CONST_PREFIX = ret then CESK_STORE_ADDR_CONST_PREFIX else ret)"

definition cesk_arithmetic_bitwise_or :: "u32 \<Rightarrow> u32 \<Rightarrow> u32" where
  "cesk_arithmetic_bitwise_or a b =
     (let sa = cesk_arithmetic_sign_bit a;
          sb = cesk_arithmetic_sign_bit b;
          sr = cesk_arithmetic_or sa sb;
          ret = cesk_arithmetic_sign_bit_to_numeric sr
      in if CESK_STORE_ADDR_CONST_PREFIX = ret then CESK_STORE_ADDR_CONST_PREFIX else ret)"

definition cesk_arithmetic_bitwise_xor :: "u32 \<Rightarrow> u32 \<Rightarrow> u32" where
  "cesk_arithmetic_bitwise_xor a b =
     (let sa = cesk_arithmetic_sign_bit a;
          sb = cesk_arithmetic_sign_bit b;
          sr = cesk_arithmetic_xor sa sb;
          ret = cesk_arithmetic_sign_bit_to_numeric sr
      in if CESK_STORE_ADDR_CONST_PREFIX = ret then CESK_STORE_ADDR_CONST_PREFIX else ret)"

definition cesk_arithmetic_bitwise_neg :: "u32 \<Rightarrow> u32" where
  "cesk_arithmetic_bitwise_neg a =
     (let sa = cesk_arithmetic_sign_bit a;
          sr = cesk_arithmetic_not sa;
          ret = cesk_arithmetic_sign_bit_to_numeric sr
      in if CESK_STORE_ADDR_CONST_PREFIX = ret then CESK_STORE_ADDR_CONST_PREFIX else ret)"

subsection \<open>The bits of the results\<close>

lemma is_const_set_when [sign_simps]:
  "CESK_STORE_ADDR_IS_CONST r \<Longrightarrow> CESK_STORE_ADDR_IS_CONST (set_when c e r)"
  by (simp add: set_when_def is_const_set)

lemma contain_set_when [sign_simps]:
  "CESK_STORE_ADDR_IS_CONST r \<Longrightarrow>
   CESK_STORE_ADDR_CONST_CONTAIN (set_when c e r) f \<longleftrightarrow>
     CESK_STORE_ADDR_CONST_CONTAIN r f \<or>
     c \<and> CESK_STORE_ADDR_CONST_SUFFIX e AND CESK_STORE_ADDR_CONST_SUFFIX f \<noteq> 0"
  by (simp add: set_when_def contain_set)

lemma contain_prefix [sign_simps]:
  "\<not> CESK_STORE_ADDR_CONST_CONTAIN CESK_STORE_ADDR_CONST_PREFIX e"
proof -
  have "CESK_STORE_ADDR_CONST_PREFIX AND CESK_STORE_ADDR_CONST_SUFFIX e = 0"
    by (rule bit_word_eqI) (auto simp: CESK_STORE_ADDR_CONST_SUFFIX_def bit_simps)
  then show ?thesis by (simp add: CESK_STORE_ADDR_CONST_CONTAIN_def)
qed

lemma if_eq_same [sign_simps]: "(if x = y then x else y) = y"
  by simp

lemmas arith_defs =
  cesk_arithmetic_neg_def cesk_arithmetic_add_def cesk_arithmetic_mul_def cesk_arithmetic_not_def
  cesk_arithmetic_and_def cesk_arithmetic_or_def cesk_arithmetic_xor_def
  cesk_arithmetic_sign_bit_def Let_def

lemma contain_neg:
  "CESK_STORE_ADDR_CONST_CONTAIN (cesk_arithmetic_neg a) CESK_STORE_ADDR_NEG \<longleftrightarrow>
     CESK_STORE_ADDR_CONST_CONTAIN a CESK_STORE_ADDR_POS"
  "CESK_STORE_ADDR_CONST_CONTAIN (cesk_arithmetic_neg a) CESK_STORE_ADDR_ZERO \<longleftrightarrow>
     CESK_STORE_ADDR_CONST_CONTAIN a CESK_STORE_ADDR_ZERO"
  "CESK_STORE_ADDR_CONST_CONTAIN (cesk_arithmetic_neg a) CESK_STORE_ADDR_POS \<longleftrightarrow>
     CESK_STORE_ADDR_CONST_CONTAIN a CESK_STORE_ADDR_NEG"
  by (simp_all add: arith_defs sign_simps)

lemma is_const_results [sign_simps]:
  "CESK_STORE_ADDR_IS_CONST (cesk_arithmetic_neg a)"
  "CESK_STORE_ADDR_IS_CONST (cesk_arithmetic_add a b)"
  "CESK_STORE_ADDR_IS_CONST (cesk_arithmetic_mul a b)"
  "CESK_STORE_ADDR_IS_CONST (cesk_arithmetic_not a)"
  "CESK_STORE_ADDR_IS_CONST (cesk_arithmetic_and a b)"
  "CESK_STORE_ADDR_IS_CONST (cesk_arithmetic_or a b)"
  "CESK_STORE_ADDR_IS_CONST (cesk_arithmetic_xor a b)"
  "CESK_STORE_ADDR_IS_CONST (cesk_arithmetic_sign_bit a)"
  by (simp_all add: arith_defs sign_simps)

lemma contain_add:
  "CESK_STORE_ADDR_CONST_CONTAIN (cesk_arithmetic_add a b) CESK_STORE_ADDR_NEG \<longleftrightarrow>
     CESK_STORE_ADDR_CONST_CONTAIN a CESK_STORE_ADDR_NEG \<and> CESK_STORE_ADDR_CONST_CONTAIN b CESK_STORE_ADDR_NEG \<or>
     CESK_STORE_ADDR_CONST_CONTAIN a CESK_STORE_ADDR_NEG \<and> CESK_STORE_ADDR_CONST_CONTAIN b CESK_STORE_ADDR_ZERO \<or>
     CESK_STORE_ADDR_CONST_CONTAIN a CESK_STORE_ADDR_NEG \<and> CESK_STORE_ADDR_CONST_CONTAIN b CESK_STORE_ADDR_POS \<or>
     CESK_STORE_ADDR_CONST_CONTAIN a CESK_STORE_ADDR_ZERO \<and> CESK_STORE_ADDR_CONST_CONTAIN b CESK_STORE_ADDR_NEG \<or>
     CESK_STORE_ADDR_CONST_CONTAIN a CESK_STORE_ADDR_POS \<and> CESK_STORE_ADDR_CONST_CONTAIN b CESK_STORE_ADDR_NEG"
  "CESK_STORE_ADDR_CONST_CONTAIN (cesk_arithmetic_add a b) CESK_STORE_ADDR_ZERO \<longleftrightarrow>
     CESK_STORE_ADDR_CONST_CONTAIN a CESK_STORE_ADDR_NEG \<and> CESK_STORE_ADDR_CONST_CONTAIN b CESK_STORE_ADDR_POS \<or>
     CESK_STORE_ADDR_CONST_CONTAIN a CESK_STORE_ADDR_ZERO \<and> CESK_STORE_ADDR_CONST_CONTAIN b CESK_STORE_ADDR_ZERO \<or>
     CESK_STORE_ADDR_CONST_CONTAIN a CESK_STORE_ADDR_POS \<and> CESK_STORE_ADDR_CONST_CONTAIN b CESK_STORE_ADDR_NEG"
  "CESK_STORE_ADDR_CONST_CONTAIN (cesk_arithmetic_add a b) CESK_STORE_ADDR_POS \<longleftrightarrow>
     CESK_STORE_ADDR_CONST_CONTAIN a CESK_STORE_ADDR_NEG \<and> CESK_STORE_ADDR_CONST_CONTAIN b CESK_STORE_ADDR_POS \<or>
     CESK_STORE_ADDR_CONST_CONTAIN a CESK_STORE_ADDR_ZERO \<and> CESK_STORE_ADDR_CONST_CONTAIN b CESK_STORE_ADDR_POS \<or>
     CESK_STORE_ADDR_CONST_CONTAIN a CESK_STORE_ADDR_POS \<and> CESK_STORE_ADDR_CONST_CONTAIN b CESK_STORE_ADDR_NEG \<or>
     CESK_STORE_ADDR_CONST_CONTAIN a CESK_STORE_ADDR_POS \<and> CESK_STORE_ADDR_CONST_CONTAIN b CESK_STORE_ADDR_ZERO \<or>
     CESK_STORE_ADDR_CONST_CONTAIN a CESK_STORE_ADDR_POS \<and> CESK_STORE_ADDR_CONST_CONTAIN b CESK_STORE_ADDR_POS"
  by (auto simp: arith_defs sign_simps)

lemma contain_mul:
  "CESK_STORE_ADDR_CONST_CONTAIN (cesk_arithmetic_mul a b) CESK_STORE_ADDR_NEG \<longleftrightarrow>
     CESK_STORE_ADDR_CONST_CONTAIN a CESK_STORE_ADDR_NEG \<and> CESK_STORE_ADDR_CONST_CONTAIN b CESK_STORE_ADDR_POS \<or>
     CESK_STORE_ADDR_CONST_CONTAIN a CESK_STORE_ADDR_POS \<and> CESK_STORE_ADDR_CONST_CONTAIN b CESK_STORE_ADDR_NEG"
  "CESK_STORE_ADDR_CONST_CONTAIN (cesk_arithmetic_mul a b) CESK_STORE_ADDR_ZERO \<longleftrightarrow>
     CESK_STORE_ADDR_CONST_CONTAIN a CESK_STORE_ADDR_NEG \<and> CESK_STORE_ADDR_CONST_CONTAIN b CESK_STORE_ADDR_ZERO \<or>
     CESK_STORE_ADDR_CONST_CONTAIN a CESK_STORE_ADDR_ZERO \<and> CESK_STORE_ADDR_CONST_CONTAIN b CESK_STORE_ADDR_NEG \<or>
     CESK_STORE_ADDR_CONST_CONTAIN a CESK_STORE_ADDR_ZERO \<and> CESK_STORE_ADDR_CONST_CONTAIN b CESK_STORE_ADDR_ZERO \<or>
     CESK_STORE_ADDR_CONST_CONTAIN a CESK_STORE_ADDR_ZERO \<and> CESK_STORE_ADDR_CONST_CONTAIN b CESK_STORE_ADDR_POS \<or>
     CESK_STORE_ADDR_CONST_CONTAIN a CESK_STORE_ADDR_POS \<and> CESK_STORE_ADDR_CONST_CONTAIN b CESK_STORE_ADDR_ZERO"
  "CESK_STORE_ADDR_CONST_CONTAIN (cesk_arithmetic_mul a b) CESK_STORE_ADDR_POS \<longleftrightarrow>
     CESK_STORE_ADDR_CONST_CONTAIN a CESK_STORE_ADDR_NEG \<and> CESK_STORE_ADDR_CONST_CONTAIN b CESK_STORE_ADDR_NEG \<or>
     CESK_STORE_ADDR_CONST_CONTAIN a CESK_STORE_ADDR_POS \<and> CESK_STORE_ADDR_CONST_CONTAIN b CESK_STORE_ADDR_POS"
  by (auto simp: arith_defs sign_simps)

lemma in_sign_gamma:
  fixes x :: "'a::linordered_idom"
  shows "x < 0 \<Longrightarrow> x \<in> sign_gamma a \<longleftrightarrow> CESK_STORE_ADDR_CONST_CONTAIN a CESK_STORE_ADDR_NEG"
    and "x = 0 \<Longrightarrow> x \<in> sign_gamma a \<longleftrightarrow> CESK_STORE_ADDR_CONST_CONTAIN a CESK_STORE_ADDR_ZERO"
    and "0 < x \<Longrightarrow> x \<in> sign_gamma a \<longleftrightarrow> CESK_STORE_ADDR_CONST_CONTAIN a CESK_STORE_ADDR_POS"
  by (auto simp: sign_gamma_def)

lemma neg_sound: "x \<in> sign_gamma a \<Longrightarrow> - x \<in> sign_gamma (cesk_arithmetic_neg a)"
  for x :: "'a::linordered_idom"
  by (auto simp: sign_gamma_def contain_neg)

lemma add_sound:
  fixes x y :: "'a::linordered_idom"
  assumes "x \<in> sign_gamma a" and "y \<in> sign_gamma b"
  shows "x + y \<in> sign_gamma (cesk_arithmetic_add a b)"
  using assms
  by (cases x "0 :: 'a" rule: linorder_cases; cases y "0 :: 'a" rule: linorder_cases;
      cases "x + y" "0 :: 'a" rule: linorder_cases)
    (simp_all add: in_sign_gamma contain_add)

lemma mul_sound:
  fixes x y :: "'a::linordered_idom"
  assumes "x \<in> sign_gamma a" and "y \<in> sign_gamma b"
  shows "x * y \<in> sign_gamma (cesk_arithmetic_mul a b)"
  using assms
  by (cases x "0 :: 'a" rule: linorder_cases; cases y "0 :: 'a" rule: linorder_cases)
    (simp_all add: in_sign_gamma contain_mul mult_neg_neg mult_neg_pos mult_pos_neg)

lemma sub_sound:
  fixes x y :: "'a::linordered_idom"
  assumes "x \<in> sign_gamma a" and "y \<in> sign_gamma b"
  shows "x - y \<in> sign_gamma (cesk_arithmetic_sub a b)"
  using add_sound [OF assms(1) neg_sound [OF assms(2)]] by (simp add: cesk_arithmetic_sub_def)

subsection \<open>Soundness of arithmetic expressions\<close>

text \<open>
  The arithmetic that a straight line of instructions computes from its registers, over any
  interpretation of the operations.
\<close>

datatype aexp = Reg nat | Neg aexp | Add aexp aexp | Sub aexp aexp | Mul aexp aexp

primrec aexp_eval ::
  "('v \<Rightarrow> 'v) \<Rightarrow> ('v \<Rightarrow> 'v \<Rightarrow> 'v) \<Rightarrow> ('v \<Rightarrow> 'v \<Rightarrow> 'v) \<Rightarrow> ('v \<Rightarrow> 'v \<Rightarrow> 'v) \<Rightarrow> (nat \<Rightarrow> 'v) \<Rightarrow> aexp \<Rightarrow> 'v"
where
  "aexp_eval ng ad sb ml regs (Reg r) = regs r"
| "aexp_eval ng ad sb ml regs (Neg e) = ng (aexp_eval ng ad sb ml regs e)"
| "aexp_eval ng ad sb ml regs (Add e f) = ad (aexp_eval ng ad sb ml regs e) (aexp_eval ng ad sb ml regs f)"
| "aexp_eval ng ad sb ml regs (Sub e f) = sb (aexp_eval ng ad sb ml regs e) (aexp_eval ng ad sb ml regs f)"
| "aexp_eval ng ad sb ml regs (Mul e f) = ml (aexp_eval ng ad sb ml regs e) (aexp_eval ng ad sb ml regs f)"

text \<open>
  The contract of an abstract arithmetic. A locale for the four operations; the evaluator of
  expressions needs nothing else.
\<close>

locale sound_arith =
  fixes gamma :: "'v \<Rightarrow> ('n::linordered_idom) set"
    and abs_neg :: "'v \<Rightarrow> 'v"
    and abs_add :: "'v \<Rightarrow> 'v \<Rightarrow> 'v"
    and abs_sub :: "'v \<Rightarrow> 'v \<Rightarrow> 'v"
    and abs_mul :: "'v \<Rightarrow> 'v \<Rightarrow> 'v"
  assumes gamma_neg: "x \<in> gamma a \<Longrightarrow> - x \<in> gamma (abs_neg a)"
    and gamma_add: "x \<in> gamma a \<Longrightarrow> y \<in> gamma b \<Longrightarrow> x + y \<in> gamma (abs_add a b)"
    and gamma_sub: "x \<in> gamma a \<Longrightarrow> y \<in> gamma b \<Longrightarrow> x - y \<in> gamma (abs_sub a b)"
    and gamma_mul: "x \<in> gamma a \<Longrightarrow> y \<in> gamma b \<Longrightarrow> x * y \<in> gamma (abs_mul a b)"
begin

lemma aexp_eval_sound:
  assumes "\<And>r. regs r \<in> gamma (addrs r)"
  shows "aexp_eval uminus (+) (-) (*) regs e \<in> gamma (aexp_eval abs_neg abs_add abs_sub abs_mul addrs e)"
  by (induction e) (simp_all add: assms gamma_neg gamma_add gamma_sub gamma_mul)

end

interpretation addr_arith: sound_arith sign_gamma cesk_arithmetic_neg cesk_arithmetic_add
    cesk_arithmetic_sub cesk_arithmetic_mul
  by unfold_locales (rule neg_sound add_sound sub_sound mul_sound, assumption+)+

subsection \<open>Exactness\<close>

lemma sgn_image_iff:
  "sgn ` (sign_gamma c :: int set) =
     {s. s = - 1 \<and> CESK_STORE_ADDR_CONST_CONTAIN c CESK_STORE_ADDR_NEG \<or>
         s = 0 \<and> CESK_STORE_ADDR_CONST_CONTAIN c CESK_STORE_ADDR_ZERO \<or>
         s = 1 \<and> CESK_STORE_ADDR_CONST_CONTAIN c CESK_STORE_ADDR_POS}"
proof -
  have "-1 \<in> sgn ` (sign_gamma c :: int set)" if "CESK_STORE_ADDR_CONST_CONTAIN c CESK_STORE_ADDR_NEG"
    using that by (intro image_eqI [of _ _ "-1"]) (simp_all add: in_sign_gamma)
  moreover have "0 \<in> sgn ` (sign_gamma c :: int set)" if "CESK_STORE_ADDR_CONST_CONTAIN c CESK_STORE_ADDR_ZERO"
    using that by (intro image_eqI [of _ _ "0"]) (simp_all add: in_sign_gamma)
  moreover have "1 \<in> sgn ` (sign_gamma c :: int set)" if "CESK_STORE_ADDR_CONST_CONTAIN c CESK_STORE_ADDR_POS"
    using that by (intro image_eqI [of _ _ "1"]) (simp_all add: in_sign_gamma)
  ultimately show ?thesis by (auto simp: sign_gamma_def)
qed

text \<open>
  An operation that is sound for \<open>f\<close> is exact for the signs when every sign it reports is the
  sign of \<open>f\<close> at some small arguments.
\<close>

lemma sign_exactI:
  fixes f :: "int \<Rightarrow> int \<Rightarrow> int"
  assumes sound: "\<And>x y. x \<in> sign_gamma a \<Longrightarrow> y \<in> sign_gamma b \<Longrightarrow> f x y \<in> sign_gamma c"
    and neg: "CESK_STORE_ADDR_CONST_CONTAIN c CESK_STORE_ADDR_NEG \<Longrightarrow>
      \<exists>x y. x \<in> sign_gamma a \<and> y \<in> sign_gamma b \<and> f x y < 0"
    and zero: "CESK_STORE_ADDR_CONST_CONTAIN c CESK_STORE_ADDR_ZERO \<Longrightarrow>
      \<exists>x y. x \<in> sign_gamma a \<and> y \<in> sign_gamma b \<and> f x y = 0"
    and pos: "CESK_STORE_ADDR_CONST_CONTAIN c CESK_STORE_ADDR_POS \<Longrightarrow>
      \<exists>x y. x \<in> sign_gamma a \<and> y \<in> sign_gamma b \<and> f x y > 0"
  shows "sgn ` sign_gamma c = {sgn (f x y) | x y. x \<in> sign_gamma a \<and> y \<in> sign_gamma b}"
proof (intro equalityI subsetI)
  fix s assume "s \<in> sgn ` (sign_gamma c :: int set)"
  then consider "s = -1" "CESK_STORE_ADDR_CONST_CONTAIN c CESK_STORE_ADDR_NEG"
    | "s = 0" "CESK_STORE_ADDR_CONST_CONTAIN c CESK_STORE_ADDR_ZERO"
    | "s = 1" "CESK_STORE_ADDR_CONST_CONTAIN c CESK_STORE_ADDR_POS"
    unfolding sgn_image_iff by blast
  then show "s \<in> {sgn (f x y) | x y. x \<in> sign_gamma a \<and> y \<in> sign_gamma b}"
  proof cases
    case 1
    with neg obtain x y where "x \<in> sign_gamma a" "y \<in> sign_gamma b" "s = sgn (f x y)" by auto
    then show ?thesis by blast
  next
    case 2
    with zero obtain x y where "x \<in> sign_gamma a" "y \<in> sign_gamma b" "s = sgn (f x y)" by auto
    then show ?thesis by blast
  next
    case 3
    with pos obtain x y where "x \<in> sign_gamma a" "y \<in> sign_gamma b" "s = sgn (f x y)" by auto
    then show ?thesis by blast
  qed
qed (use sound in blast)

lemma small_pairI:
  "\<exists>x \<in> {-2, -1, 0, 1, 2}. \<exists>y \<in> {-2, -1, 0, 1, 2 :: int}. x \<in> A \<and> y \<in> B \<and> P x y \<Longrightarrow>
   \<exists>x y :: int. x \<in> A \<and> y \<in> B \<and> P x y"
  by blast

lemma add_sgn_exact:
  "sgn ` sign_gamma (cesk_arithmetic_add a b) =
     {sgn (x + y :: int) | x y. x \<in> sign_gamma a \<and> y \<in> sign_gamma b}"
  by (rule sign_exactI [where f = "(+)"], erule (1) add_sound)
    (rule small_pairI, (simp add: in_sign_gamma contain_add; blast))+

lemma mul_sgn_exact:
  "sgn ` sign_gamma (cesk_arithmetic_mul a b) =
     {sgn (x * y :: int) | x y. x \<in> sign_gamma a \<and> y \<in> sign_gamma b}"
  by (rule sign_exactI [where f = "(*)"], erule (1) mul_sound)
    (rule small_pairI, (simp add: in_sign_gamma contain_mul; blast))+

lemma neg_gamma_surj: "y \<in> sign_gamma (cesk_arithmetic_neg b) \<longleftrightarrow> - y \<in> sign_gamma b"
  for y :: "'a::linordered_idom"
  by (auto simp: sign_gamma_def contain_neg)

lemma sub_sgn_exact:
  "sgn ` sign_gamma (cesk_arithmetic_sub a b) =
     {sgn (x - y :: int) | x y. x \<in> sign_gamma a \<and> y \<in> sign_gamma b}"
proof -
  have "{sgn (x + y :: int) | x y. x \<in> sign_gamma a \<and> y \<in> sign_gamma (cesk_arithmetic_neg b)} =
      {sgn (x - y) | x y. x \<in> sign_gamma a \<and> y \<in> sign_gamma b}"
    by (auto simp: neg_gamma_surj) (metis add.inverse_inverse diff_minus_eq_add uminus_add_conv_diff add.commute)+
  then show ?thesis by (simp add: cesk_arithmetic_sub_def add_sgn_exact)
qed

lemma is_const_div_mask: "CESK_STORE_ADDR_IS_CONST (b AND 0xffffff05) \<longleftrightarrow> CESK_STORE_ADDR_IS_CONST b"
  by (simp add: CESK_STORE_ADDR_IS_CONST_def addr_const_defs and.assoc)

lemma contain_div_mask:
  "CESK_STORE_ADDR_CONST_CONTAIN (b AND 0xffffff05) e \<longleftrightarrow>
     CESK_STORE_ADDR_IS_CONST b \<and> b AND 5 AND CESK_STORE_ADDR_CONST_SUFFIX e \<noteq> 0"
proof -
  have "b AND 0xffffff05 AND CESK_STORE_ADDR_CONST_SUFFIX e = b AND 5 AND CESK_STORE_ADDR_CONST_SUFFIX e"
    by (simp add: CESK_STORE_ADDR_CONST_SUFFIX_def addr_const_defs and.assoc)
      (simp add: and.left_commute [of _ e])
  then show ?thesis by (simp add: CESK_STORE_ADDR_CONST_CONTAIN_def is_const_div_mask and.assoc)
qed

lemma div_as_mul:
  "cesk_arithmetic_div a b = cesk_arithmetic_mul a (b AND 0xffffff05)"
  by (simp add: cesk_arithmetic_div_def const_suffixes CESK_STORE_ADDR_CONST_PREFIX_def)

lemma contain_div_operand:
  "\<not> CESK_STORE_ADDR_CONST_CONTAIN (b AND 0xffffff05) CESK_STORE_ADDR_ZERO"
  "CESK_STORE_ADDR_CONST_CONTAIN (b AND 0xffffff05) CESK_STORE_ADDR_NEG \<longleftrightarrow>
     CESK_STORE_ADDR_CONST_CONTAIN b CESK_STORE_ADDR_NEG"
  "CESK_STORE_ADDR_CONST_CONTAIN (b AND 0xffffff05) CESK_STORE_ADDR_POS \<longleftrightarrow>
     CESK_STORE_ADDR_CONST_CONTAIN b CESK_STORE_ADDR_POS"
  by (simp_all add: contain_div_mask is_const_div_mask const_suffixes and.assoc
      CESK_STORE_ADDR_CONST_CONTAIN_def)

lemma div_real_sound:
  fixes x y :: real
  assumes "x \<in> sign_gamma a" and "y \<in> sign_gamma b" and "y \<noteq> 0"
  shows "x / y \<in> sign_gamma (cesk_arithmetic_div a b)"
proof -
  have "inverse y \<in> sign_gamma (b AND 0xffffff05)"
    using assms(2,3) by (auto simp: sign_gamma_def contain_div_operand)
  then show ?thesis
    using mul_sound [OF assms(1)] by (simp add: div_as_mul divide_inverse)
qed

subsection \<open>Properties of the address arithmetic\<close>

text \<open>
  C36: an arithmetic expression over registers, computed with the abstract negation, addition,
  subtraction and multiplication on addresses, yields an address that covers the concrete
  result whenever the address of every register covers the register. The statement is about
  mathematical integers: the wrap-around of the 32 bit machine is abstracted away by the
  program.
\<close>

theorem arithmetic_expression_covered:
  assumes "\<And>r. (regs r :: int) \<in> sign_gamma (addrs r)"
  shows "aexp_eval uminus (+) (-) (*) regs e \<in>
    sign_gamma (aexp_eval cesk_arithmetic_neg cesk_arithmetic_add cesk_arithmetic_sub
      cesk_arithmetic_mul addrs e)"
  using assms by (rule addr_arith.aexp_eval_sound)

theorem arithmetic_expression_covered_witness:
  "aexp_eval uminus (+) (-) (*) (\<lambda>r. int r - 1) (Sub (Mul (Reg 0) (Reg 0)) (Reg 5)) \<in>
    sign_gamma (aexp_eval cesk_arithmetic_neg cesk_arithmetic_add cesk_arithmetic_sub
      cesk_arithmetic_mul (\<lambda>r. num_addr (int r - 1)) (Sub (Mul (Reg 0) (Reg 0)) (Reg 5)))"
  by (rule arithmetic_expression_covered) (simp add: num_addr_gamma)

text \<open>
  Addition and subtraction of addresses are exact: the signs in the result are precisely the
  signs that the sum (the difference) takes when the operands range over the integers that
  the operand addresses denote. No sign is missing and none is superfluous.
\<close>

theorem cesk_arithmetic_add_sub_exact:
  "sgn ` sign_gamma (cesk_arithmetic_add a b) =
     {sgn (x + y :: int) | x y. x \<in> sign_gamma a \<and> y \<in> sign_gamma b} \<and>
   sgn ` sign_gamma (cesk_arithmetic_sub a b) =
     {sgn (x - y :: int) | x y. x \<in> sign_gamma a \<and> y \<in> sign_gamma b}"
  by (intro conjI add_sgn_exact sub_sgn_exact)

text \<open>
  Multiplication of addresses is exact for the signs, in the same sense.
\<close>

theorem cesk_arithmetic_mul_exact:
  "sgn ` sign_gamma (cesk_arithmetic_mul a b) =
     {sgn (x * y :: int) | x y. x \<in> sign_gamma a \<and> y \<in> sign_gamma b}"
  by (rule mul_sgn_exact)

text \<open>
  Division of addresses covers the quotient of real numbers with a nonzero divisor, but not
  the integer quotient that the Dalvik integer division computes: 1 divided by 2 is 0, and the
  abstract quotient of two positive addresses is the positive address alone.
\<close>

theorem cesk_arithmetic_div_real_not_int:
  "(\<forall>x \<in> sign_gamma a. \<forall>y \<in> sign_gamma b. y \<noteq> 0 \<longrightarrow> x / y \<in> (sign_gamma (cesk_arithmetic_div a b) :: real set)) \<and>
   (1 :: int) \<in> sign_gamma CESK_STORE_ADDR_POS \<and> (2 :: int) \<in> sign_gamma CESK_STORE_ADDR_POS \<and>
   (1 :: int) div 2 \<notin> sign_gamma (cesk_arithmetic_div CESK_STORE_ADDR_POS CESK_STORE_ADDR_POS)"
  using div_real_sound
  by (auto simp: in_sign_gamma sign_simps div_as_mul contain_mul contain_div_operand)

theorem cesk_arithmetic_div_real_not_int_witness:
  "(- 3 / 2 :: real) \<in> sign_gamma (cesk_arithmetic_div CESK_STORE_ADDR_NEG CESK_STORE_ADDR_POS)"
proof -
  have "(- 3 :: real) \<in> sign_gamma CESK_STORE_ADDR_NEG" "(2 :: real) \<in> sign_gamma CESK_STORE_ADDR_POS"
    by (simp_all add: in_sign_gamma sign_simps)
  with cesk_arithmetic_div_real_not_int [of CESK_STORE_ADDR_NEG CESK_STORE_ADDR_POS]
  show ?thesis by (metis zero_neq_numeral)
qed

text \<open>
  The truth value operations are exact: the truth values in the result of negation,
  conjunction, disjunction and exclusive or are those that the concrete operation takes on the
  truth values in the operands.
\<close>

theorem cesk_arithmetic_logic_exact:
  "bool_gamma (cesk_arithmetic_not a) = Not ` bool_gamma a \<and>
   bool_gamma (cesk_arithmetic_and a b) = {x \<and> y | x y. x \<in> bool_gamma a \<and> y \<in> bool_gamma b} \<and>
   bool_gamma (cesk_arithmetic_or a b) = {x \<or> y | x y. x \<in> bool_gamma a \<and> y \<in> bool_gamma b} \<and>
   bool_gamma (cesk_arithmetic_xor a b) = {x \<noteq> y | x y. x \<in> bool_gamma a \<and> y \<in> bool_gamma b}"
proof -
  let ?t = "\<lambda>c. CESK_STORE_ADDR_CONST_CONTAIN c CESK_STORE_ADDR_TRUE"
  let ?f = "\<lambda>c. CESK_STORE_ADDR_CONST_CONTAIN c CESK_STORE_ADDR_FALSE"
  have sets: "S = T" if "True \<in> S \<longleftrightarrow> True \<in> T" "False \<in> S \<longleftrightarrow> False \<in> T" for S T :: "bool set"
    using that by (metis (full_types) set_eqI)
  have mem: "True \<in> bool_gamma c \<longleftrightarrow> ?t c" "False \<in> bool_gamma c \<longleftrightarrow> ?f c" for c
    by (simp_all add: bool_gamma_def)
  have bin: "v \<in> {g x y | x y. x \<in> bool_gamma a \<and> y \<in> bool_gamma b} \<longleftrightarrow>
      g True True = v \<and> ?t a \<and> ?t b \<or> g True False = v \<and> ?t a \<and> ?f b \<or>
      g False True = v \<and> ?f a \<and> ?t b \<or> g False False = v \<and> ?f a \<and> ?f b" for g :: "bool \<Rightarrow> bool \<Rightarrow> bool" and v
    unfolding mem [symmetric] by (simp add: ex_bool_eq) blast
  have un: "True \<in> Not ` bool_gamma a \<longleftrightarrow> ?f a" "False \<in> Not ` bool_gamma a \<longleftrightarrow> ?t a"
    by (auto simp: bool_gamma_def image_iff)
  have "bool_gamma (cesk_arithmetic_not a) = Not ` bool_gamma a"
    by (rule sets; unfold un mem) (simp_all add: arith_defs sign_simps)
  then show ?thesis
    using bin [of True "(\<and>)"] bin [of False "(\<and>)"] bin [of True "(\<or>)"] bin [of False "(\<or>)"]
      bin [of True "(\<noteq>)"] bin [of False "(\<noteq>)"]
    by (intro conjI sets) (simp_all add: mem arith_defs sign_simps)
qed

lemma const_set_nonzero: "CESK_STORE_ADDR_CONST_SET a e \<noteq> 0" if "CESK_STORE_ADDR_CONST_SUFFIX e \<noteq> 0"
  using that by (simp add: CESK_STORE_ADDR_CONST_SET_def or_eq_0_iff)

lemma gt_cases: "cesk_arithmetic_gt a b =
    (if CESK_STORE_ADDR_CONST_CONTAIN (cesk_arithmetic_sub a b) CESK_STORE_ADDR_POS then 5 else 1)"
  by (simp add: cesk_arithmetic_gt_def Let_def const_set_nonzero sign_simps)
    (simp add: set_when_def CESK_STORE_ADDR_CONST_SET_def const_suffixes)

lemma eq_cases: "cesk_arithmetic_eq a b =
    (if CESK_STORE_ADDR_CONST_CONTAIN (cesk_arithmetic_sub a b) CESK_STORE_ADDR_POS then 2 else 0)"
  by (simp add: cesk_arithmetic_eq_def Let_def const_set_nonzero sign_simps)
    (simp add: set_when_def CESK_STORE_ADDR_CONST_SET_def const_suffixes)

text \<open>
  The comparisons for greater, equal and not equal never denote a truth value. The first two
  return one of the numbers 0, 1, 2 and 5, which are object addresses and not constants, and the
  third always returns the empty constant, because the negation of a non constant is empty.
\<close>

theorem comparison_results_empty:
  "cesk_arithmetic_gt a b \<in> {1, 5} \<and> cesk_arithmetic_eq a b \<in> {0, 2} \<and>
   CESK_STORE_ADDR_IS_OBJ (cesk_arithmetic_gt a b) \<and> CESK_STORE_ADDR_IS_OBJ (cesk_arithmetic_eq a b) \<and>
   cesk_arithmetic_neq a b = CESK_STORE_ADDR_EMPTY \<and>
   bool_gamma (cesk_arithmetic_gt a b) = {} \<and> bool_gamma (cesk_arithmetic_eq a b) = {} \<and>
   bool_gamma (cesk_arithmetic_neq a b) = {}"
  by (simp add: gt_cases eq_cases cesk_arithmetic_neq_def arith_defs set_when_def bool_gamma_def
      addr_defs)

text \<open>
  The comparison for greater or equal calls itself on its own arguments and never returns;
  less than and less or equal call it and do not return either.
\<close>

theorem cesk_arithmetic_ge_never_returns:
  "cesk_arithmetic_ge a b = None \<and> cesk_arithmetic_lt a b = None \<and> cesk_arithmetic_le a b = None"
proof -
  have "False" if "cesk_arithmetic_ge a b = Some y" for a b y
    by (rule cesk_arithmetic_ge.raw_induct [of "\<lambda>_ _ _. False", OF _ that])
      (auto simp: bind_eq_Some_conv)
  then have "cesk_arithmetic_ge a b = None" for a b by (metis option.exhaust)
  then show ?thesis by (simp add: cesk_arithmetic_lt_def cesk_arithmetic_le_def)
qed

text \<open>
  The bitwise operations are not sound. For two positive operands the abstract conjunction,
  disjunction and exclusive or are the zero address alone, and so is the complement of a
  negative operand, because the conversion from sign bits to numbers overwrites its result with
  the parameter: 1 AND 1, 1 OR 1 and 1 XOR 2 are positive, and so is the complement of -2.
\<close>

theorem bitwise_operations_unsound:
  "(1 :: int) \<in> sign_gamma CESK_STORE_ADDR_POS \<and> (2 :: int) \<in> sign_gamma CESK_STORE_ADDR_POS \<and>
   (- 2 :: int) \<in> sign_gamma CESK_STORE_ADDR_NEG \<and>
   (1 AND 1 :: int) \<notin> sign_gamma (cesk_arithmetic_bitwise_and CESK_STORE_ADDR_POS CESK_STORE_ADDR_POS) \<and>
   (1 OR 1 :: int) \<notin> sign_gamma (cesk_arithmetic_bitwise_or CESK_STORE_ADDR_POS CESK_STORE_ADDR_POS) \<and>
   (1 XOR 2 :: int) \<notin> sign_gamma (cesk_arithmetic_bitwise_xor CESK_STORE_ADDR_POS CESK_STORE_ADDR_POS) \<and>
   (NOT (- 2) :: int) \<notin> sign_gamma (cesk_arithmetic_bitwise_neg CESK_STORE_ADDR_NEG)"
  by (simp add: cesk_arithmetic_bitwise_and_def cesk_arithmetic_bitwise_or_def
      cesk_arithmetic_bitwise_xor_def cesk_arithmetic_bitwise_neg_def arith_defs
      cesk_arithmetic_sign_bit_to_numeric_def set_when_def sign_gamma_def addr_defs)

end
