(* ===== verification/Tag_Set.thy ===== *)
theory Tag_Set
  imports Adam_Prelude "HOL-Library.Monad_Syntax"
begin

text \<open>
  Tag sets (\<^verbatim>\<open>src/tag/tag_set.c\<close>): reference counted, copy on write arrays of tag items, sorted by
  tag id, with an incrementally maintained hash code.

  The memory is a map from pointers to tag sets. Pointer 0 is the static \<^verbatim>\<open>_tag_set_empty\<close>; a null
  pointer is \<^const>\<open>None\<close> in the arguments and results of the operations. An operation yields
  \<^const>\<open>None\<close> as a whole when it follows a pointer to freed memory. The member \<^verbatim>\<open>size\<close> is the length
  of \<open>ts_data\<close>. Memory exhaustion is not modelled. The call to the tag tracker, whose result is
  only logged, is recorded in \<open>tracked\<close>.
\<close>

record tag_set_item =
  tid :: u32
  resol :: u32

record tag_set =
  ts_id :: u32
  ts_refcnt :: u32
  ts_hashcode :: u32
  ts_data :: "tag_set_item list"

abbreviation ts_size :: "tag_set \<Rightarrow> nat" where
  "ts_size t \<equiv> length (ts_data t)"

record tag_state =
  tag_sets :: "nat \<rightharpoonup> tag_set"
  next_ptr :: nat
  next_set_idx :: u32
  tracked :: "(u32 \<times> nat \<times> u32 list) list"

definition HASH_INIT :: u32 where
  "HASH_INIT = 0x376514fb"

definition TAG_RES_NOTHING :: u32 where
  "TAG_RES_NOTHING = 0"

text \<open>The initial memory: the static empty set, whose counter the loader sets to 0.\<close>

definition tag_set_empty_static :: tag_set where
  "tag_set_empty_static = \<lparr>ts_id = 0, ts_refcnt = 0, ts_hashcode = HASH_INIT, ts_data = []\<rparr>"

definition tag_boot :: tag_state where
  "tag_boot = \<lparr>tag_sets = [0 \<mapsto> tag_set_empty_static], next_ptr = 1, next_set_idx = 1, tracked = []\<rparr>"

definition tag_set_item_hashcode :: "tag_set_item \<Rightarrow> u32" where
  "tag_set_item_hashcode item =
     tid item * MH_MULTIPLY +
     (resol item * resol item + 0x23fc * resol item + MH_MULTIPLY * resol item)"

definition tag_set_new :: "tag_state \<Rightarrow> nat \<times> tag_state" where
  "tag_set_new s =
     (next_ptr s,
      s\<lparr>tag_sets := (tag_sets s)(next_ptr s \<mapsto>
          \<lparr>ts_id = next_set_idx s, ts_refcnt = 0, ts_hashcode = HASH_INIT, ts_data = []\<rparr>),
        next_ptr := Suc (next_ptr s),
        next_set_idx := next_set_idx s + 1\<rparr>)"

text \<open>Assignment to the members of the set at a pointer.\<close>

definition tag_upd :: "nat \<Rightarrow> (tag_set \<Rightarrow> tag_set) \<Rightarrow> tag_state \<Rightarrow> tag_state option" where
  "tag_upd p f s = do { t \<leftarrow> tag_sets s p; Some (s\<lparr>tag_sets := (tag_sets s)(p \<mapsto> f t)\<rparr>) }"

definition tag_set_incref :: "nat \<Rightarrow> tag_state \<Rightarrow> tag_state option" where
  "tag_set_incref p = tag_upd p (\<lambda>t. t\<lparr>ts_refcnt := ts_refcnt t + 1\<rparr>)"

text \<open>Freeing the static set would be undefined behaviour.\<close>

definition tag_set_decref :: "nat \<Rightarrow> tag_state \<Rightarrow> tag_state option" where
  "tag_set_decref p s = do {
     t \<leftarrow> tag_sets s p;
     if ts_refcnt t - 1 = 0
     then if p = 0 then None else Some (s\<lparr>tag_sets := (tag_sets s)(p := None)\<rparr>)
     else tag_upd p (\<lambda>t. t\<lparr>ts_refcnt := ts_refcnt t - 1\<rparr>) s
   }"

definition tag_tracker_register :: "u32 \<Rightarrow> nat \<Rightarrow> u32 list \<Rightarrow> tag_state \<Rightarrow> tag_state" where
  "tag_tracker_register i p inputs s = s\<lparr>tracked := tracked s @ [(i, p, inputs)]\<rparr>"

definition tag_set_duplicate :: "nat \<Rightarrow> bool \<Rightarrow> tag_state \<Rightarrow> (nat \<times> tag_state) option" where
  "tag_set_duplicate p fresh_idx s = do {
     t \<leftarrow> tag_sets s p;
     let (q, s) = tag_set_new s;
     s \<leftarrow> tag_upd q (\<lambda>r. r\<lparr>ts_data := ts_data t, ts_hashcode := ts_hashcode t\<rparr>) s;
     s \<leftarrow> (if fresh_idx
           then do {
             let i = next_set_idx s;
             s \<leftarrow> tag_upd q (\<lambda>r. r\<lparr>ts_id := i\<rparr>) (s\<lparr>next_set_idx := next_set_idx s + 1\<rparr>);
             Some (tag_tracker_register i q [ts_id t] s)
           }
           else tag_upd q (\<lambda>r. r\<lparr>ts_id := ts_id t\<rparr>) s);
     s \<leftarrow> tag_set_decref p s;
     s \<leftarrow> tag_set_incref q s;
     Some (q, s)
   }"

definition tag_set_init :: "tag_state \<Rightarrow> tag_state option" where
  "tag_set_init s = tag_set_incref 0 s"

definition tag_set_empty :: "tag_state \<Rightarrow> (nat \<times> tag_state) option" where
  "tag_set_empty s = do { s \<leftarrow> tag_set_incref 0 s; Some (0, s) }"

text \<open>
  The loop of \<^verbatim>\<open>tag_set_from_array\<close> over the remaining pairs, with the previous tag, the hash code
  and the data written so far. \<^const>\<open>None\<close> is the exit for an array that is not increasing.
\<close>

fun from_array_loop ::
  "u32 option \<Rightarrow> u32 \<Rightarrow> tag_set_item list \<Rightarrow> (u32 \<times> u32) list \<Rightarrow> (u32 \<times> tag_set_item list) option"
where
  "from_array_loop prev h acc [] = Some (h, acc)"
| "from_array_loop prev h acc ((t, r) # rest) =
     (let item = \<lparr>tid = t, resol = r\<rparr>;
          h = h XOR tag_set_item_hashcode item
      in case prev of
           None \<Rightarrow> from_array_loop (Some t) h (acc @ [item]) rest
         | Some pt \<Rightarrow> if pt \<ge> t then None else from_array_loop (Some t) h (acc @ [item]) rest)"

text \<open>The arrays have N elements each; a null array is \<^const>\<open>None\<close>.\<close>

definition tag_set_from_array ::
  "u32 list option \<Rightarrow> u32 list option \<Rightarrow> tag_state \<Rightarrow> (nat option \<times> tag_state) option"
where
  "tag_set_from_array tags resols s =
     (case (tags, resols) of
        (Some ts, Some rs) \<Rightarrow>
          if ts = [] then do { (p, s) \<leftarrow> tag_set_empty s; Some (Some p, s) }
          else
            let (p, s) = tag_set_new s in
            (case from_array_loop None HASH_INIT [] (zip ts rs) of
               None \<Rightarrow> Some (None, s\<lparr>tag_sets := (tag_sets s)(p := None)\<rparr>)
             | Some (h, d) \<Rightarrow> do {
                 s \<leftarrow> tag_upd p (\<lambda>r. r\<lparr>ts_hashcode := h, ts_data := d\<rparr>) s;
                 s \<leftarrow> tag_set_incref p s;
                 t \<leftarrow> tag_sets s p;
                 Some (Some p, tag_tracker_register (ts_id t) p [] s)
               })
      | _ \<Rightarrow> Some (None, s))"

definition tag_set_fork :: "nat option \<Rightarrow> tag_state \<Rightarrow> (nat option \<times> tag_state) option" where
  "tag_set_fork p s =
     (case p of None \<Rightarrow> Some (None, s) | Some p \<Rightarrow> do { s \<leftarrow> tag_set_incref p s; Some (Some p, s) })"

definition tag_set_free :: "nat option \<Rightarrow> tag_state \<Rightarrow> tag_state option" where
  "tag_set_free p s = (case p of None \<Rightarrow> Some s | Some p \<Rightarrow> tag_set_decref p s)"

definition tag_set_hashcode :: "tag_set \<Rightarrow> u32" where
  "tag_set_hashcode t = ts_hashcode t"

definition tag_set_equal :: "tag_set option \<Rightarrow> tag_set option \<Rightarrow> int" where
  "tag_set_equal first second =
     (case (first, second) of
        (Some f, Some g) \<Rightarrow>
          if ts_size f \<noteq> ts_size g \<or> ts_hashcode f \<noteq> ts_hashcode g then 0
          else if list_ex (\<lambda>i. tid (ts_data f ! i) \<noteq> tid (ts_data g ! i) \<or>
                               resol (ts_data f ! i) \<noteq> resol (ts_data g ! i)) [0..<ts_size f]
          then 0 else 1
      | _ \<Rightarrow> -1)"

text \<open>
  The merge loop of \<^verbatim>\<open>tag_set_merge\<close>. The lists are the unread parts \<^verbatim>\<open>data[i..]\<close> and \<^verbatim>\<open>data[j..]\<close> of
  the two arrays; the hash code and the data written so far are the other arguments.
\<close>

definition current_id :: "tag_set_item list \<Rightarrow> tag_set_item list \<Rightarrow> u32" where
  "current_id xs ys =
     (let cur = 0xffffffff;
          cur = (if xs \<noteq> [] \<and> tid (hd xs) < cur then tid (hd xs) else cur);
          cur = (if ys \<noteq> [] \<and> tid (hd ys) < cur then tid (hd ys) else cur)
      in cur)"

lemma max_u32: "(-1 :: u32) = 0xffffffff"
  by simp

lemma current_id_progress:
  "xs \<noteq> [] \<or> ys \<noteq> [] \<Longrightarrow>
   (xs \<noteq> [] \<and> current_id xs ys = tid (hd xs)) \<or> (ys \<noteq> [] \<and> current_id xs ys = tid (hd ys))"
proof -
  have "t < 0xffffffff \<or> t = 0xffffffff" for t :: u32
    using word_order.extremum [of t] unfolding max_u32 by (auto simp: order_le_less)
  then show "xs \<noteq> [] \<or> ys \<noteq> [] \<Longrightarrow> ?thesis"
    by (auto simp: current_id_def Let_def)
qed

function merge_loop ::
  "tag_set_item list \<Rightarrow> tag_set_item list \<Rightarrow> u32 \<Rightarrow> tag_set_item list \<Rightarrow> u32 \<times> tag_set_item list"
where
  "merge_loop xs ys h acc =
     (if xs = [] \<and> ys = [] then (h, acc)
      else
        let cur = current_id xs ys;
            in_first = (xs \<noteq> [] \<and> cur = tid (hd xs));
            in_second = (ys \<noteq> [] \<and> cur = tid (hd ys));
            r = 0;
            r = (if in_first then r OR resol (hd xs) else r);
            r = (if in_second then r OR resol (hd ys) else r);
            xs' = (if in_first then tl xs else xs);
            ys' = (if in_second then tl ys else ys);
            item = \<lparr>tid = cur, resol = r\<rparr>
        in if r = TAG_RES_NOTHING then merge_loop xs' ys' h acc
           else merge_loop xs' ys' (h XOR tag_set_item_hashcode item) (acc @ [item]))"
  by pat_completeness auto
termination
proof (relation "measure (\<lambda>(xs, ys, _, _). length xs + length ys)", goal_cases)
  case (2 xs ys)
  then show ?case using current_id_progress [of xs ys] by (cases xs; cases ys) auto
next
  case (3 xs ys)
  then show ?case using current_id_progress [of xs ys] by (cases xs; cases ys) auto
qed simp

declare merge_loop.simps [simp del]

definition tag_set_merge ::
  "nat option \<Rightarrow> nat option \<Rightarrow> tag_state \<Rightarrow> (nat option \<times> tag_state) option"
where
  "tag_set_merge first second s =
     (case (first, second) of
        (Some f, Some g) \<Rightarrow> do {
          tf \<leftarrow> tag_sets s f;
          tg \<leftarrow> tag_sets s g;
          if ts_size tf = 0 \<and> ts_size tg = 0 then do { (p, s) \<leftarrow> tag_set_empty s; Some (Some p, s) }
          else if ts_size tf = 0 then do {
            s \<leftarrow> tag_set_incref g s; (p, s) \<leftarrow> tag_set_duplicate g True s; Some (Some p, s) }
          else if ts_size tg = 0 then do {
            s \<leftarrow> tag_set_incref f s; (p, s) \<leftarrow> tag_set_duplicate f True s; Some (Some p, s) }
          else if g = f then do {
            s \<leftarrow> tag_set_incref f s; (p, s) \<leftarrow> tag_set_duplicate f True s; Some (Some p, s) }
          else do {
            let (p, s) = tag_set_new s;
            r \<leftarrow> tag_sets s p;
            let (h, d) = merge_loop (ts_data tf) (ts_data tg) (ts_hashcode r) (ts_data r);
            s \<leftarrow> tag_upd p (\<lambda>r. r\<lparr>ts_hashcode := h, ts_data := d\<rparr>) s;
            let s = tag_tracker_register (ts_id r) p [ts_id tf, ts_id tg] s;
            s \<leftarrow> tag_set_incref p s;
            Some (Some p, s)
          }
        }
      | _ \<Rightarrow> Some (None, s))"

text \<open>The binary search shared by the next two operations; the result is the index \<^verbatim>\<open>l\<close>.\<close>

definition tag_bsearch :: "tag_set_item list \<Rightarrow> u32 \<Rightarrow> nat" where
  "tag_bsearch d what = fst (bisect (\<lambda>m. tid (d ! m) \<le> what) 0 (length d))"

definition tag_set_contains :: "tag_set \<Rightarrow> u32 \<Rightarrow> bool" where
  "tag_set_contains t what =
     (if ts_size t = 0 \<or> what < tid (ts_data t ! 0) \<or> tid (ts_data t ! (ts_size t - 1)) < what
      then False
      else tid (ts_data t ! tag_bsearch (ts_data t) what) = what)"

definition tag_set_change_resolution ::
  "nat \<Rightarrow> u32 \<Rightarrow> u32 \<Rightarrow> tag_state \<Rightarrow> (nat option \<times> tag_state) option"
where
  "tag_set_change_resolution p tagid value s = do {
     t0 \<leftarrow> tag_sets s p;
     let shared = (ts_refcnt t0 > 1);
     (q, s) \<leftarrow> (if shared then tag_set_duplicate p False s else Some (p, s));
     t \<leftarrow> tag_sets s q;
     let l = tag_bsearch (ts_data t) tagid;
     if ts_size t = 0 \<or> tagid < tid (ts_data t ! 0) \<or> tagid > tid (ts_data t ! (ts_size t - 1)) \<or>
        tid (ts_data t ! l) \<noteq> tagid
     then
       if shared then do {
         s \<leftarrow> tag_set_decref q s;
         s \<leftarrow> tag_set_incref p s;
         Some (None, s) }
       else Some (None, s)
     else do {
       let old = ts_data t ! l;
       let new = old\<lparr>resol := value\<rparr>;
       s \<leftarrow> tag_upd q (\<lambda>t. t\<lparr>ts_hashcode := (ts_hashcode t XOR tag_set_item_hashcode old)
                                            XOR tag_set_item_hashcode new,
                             ts_data := (ts_data t)[l := new]\<rparr>) s;
       Some (Some q, s)
     }
   }"

definition tag_set_size :: "tag_set option \<Rightarrow> nat" where
  "tag_set_size t = (case t of None \<Rightarrow> 0 | Some t \<Rightarrow> ts_size t)"

definition tag_set_get_tagid :: "tag_set option \<Rightarrow> nat \<Rightarrow> u32" where
  "tag_set_get_tagid t k =
     (case t of None \<Rightarrow> 0xffffffff
      | Some t \<Rightarrow> if ts_size t \<le> k then 0xffffffff else tid (ts_data t ! k))"

definition tag_set_get_resol :: "tag_set option \<Rightarrow> nat \<Rightarrow> u32" where
  "tag_set_get_resol t k =
     (case t of None \<Rightarrow> 0xffffffff
      | Some t \<Rightarrow> if ts_size t \<le> k then 0xffffffff else resol (ts_data t ! k))"

definition tag_set_compute_hashcode :: "tag_set \<Rightarrow> u32" where
  "tag_set_compute_hashcode t = foldl (\<lambda>h item. h XOR tag_set_item_hashcode item) HASH_INIT (ts_data t)"

definition tag_set_id :: "tag_set \<Rightarrow> u32" where
  "tag_set_id t = ts_id t"

subsection \<open>Registered tags\<close>

text \<open>
  The handlers that print a tag. \<^verbatim>\<open>next_id\<close> counts the registrations; the arrays have
  \<^verbatim>\<open>TAG_SET_MAX_TAGS\<close> slots and the code does not check the bound.
\<close>

record tag_handlers =
  next_id :: u32
  tag_strreason :: "u32 \<Rightarrow> (u32 \<Rightarrow> u32 \<Rightarrow> string) option"
  tag_tostring :: "u32 \<Rightarrow> (u32 \<Rightarrow> string) option"

definition tag_set_register_handler ::
  "(u32 \<Rightarrow> string) option \<Rightarrow> (u32 \<Rightarrow> u32 \<Rightarrow> string) option \<Rightarrow> tag_handlers \<Rightarrow> u32 \<times> tag_handlers"
where
  "tag_set_register_handler to_str reason s =
     (let t = next_id s
      in (t, s\<lparr>next_id := t + 1, tag_strreason := (tag_strreason s)(t := reason),
              tag_tostring := (tag_tostring s)(t := to_str)\<rparr>))"

definition tag_set_reason_code_to_string :: "u32 \<Rightarrow> tag_handlers \<Rightarrow> string" where
  "tag_set_reason_code_to_string why s =
     (let t = drop_bit 16 why; code = why AND 0xffff
      in if t \<ge> next_id s then ''(invalid tag)''
         else case tag_strreason s t of
                None \<Rightarrow> ''(strreason function is not supported for this tag)''
              | Some f \<Rightarrow> f t code)"

definition tag_id_to_string :: "u32 \<Rightarrow> tag_handlers \<Rightarrow> string" where
  "tag_id_to_string i s =
     (if i \<ge> next_id s then ''unknown-tag''
      else case tag_tostring s i of None \<Rightarrow> ''unknown-tag'' | Some f \<Rightarrow> f i)"

subsection \<open>The data of a set\<close>

definition tag_sorted :: "tag_set_item list \<Rightarrow> bool" where
  "tag_sorted d \<longleftrightarrow> sorted_wrt (<) (map tid d)"

definition tag_hash :: "tag_set_item list \<Rightarrow> u32" where
  "tag_hash d = HASH_INIT XOR xor_list (map tag_set_item_hashcode d)"

text \<open>What a set says about a tag: its resolution, or nothing.\<close>

definition resolution :: "tag_set_item list \<Rightarrow> u32 \<Rightarrow> u32" where
  "resolution d t = (case find (\<lambda>item. tid item = t) d of None \<Rightarrow> TAG_RES_NOTHING | Some item \<Rightarrow> resol item)"

lemma compute_hashcode_tag_hash: "tag_set_compute_hashcode t = tag_hash (ts_data t)"
  by (simp add: tag_set_compute_hashcode_def tag_hash_def foldl_xor)

lemma tag_sorted_simps [simp]:
  "tag_sorted []"
  "tag_sorted (x # xs) \<longleftrightarrow> (\<forall>y \<in> set xs. tid x < tid y) \<and> tag_sorted xs"
  by (simp_all add: tag_sorted_def)

lemma tag_sorted_append:
  "tag_sorted (xs @ ys) \<longleftrightarrow> tag_sorted xs \<and> tag_sorted ys \<and> (\<forall>x \<in> set xs. \<forall>y \<in> set ys. tid x < tid y)"
  by (auto simp: tag_sorted_def sorted_wrt_append)

lemma resolution_simps [simp]:
  "resolution [] t = TAG_RES_NOTHING"
  "resolution (x # xs) t = (if tid x = t then resol x else resolution xs t)"
  by (simp_all add: resolution_def)

lemma resolution_absent: "\<forall>x \<in> set xs. tid x \<noteq> t \<Longrightarrow> resolution xs t = TAG_RES_NOTHING"
  by (induction xs) auto

lemma resolution_append:
  "\<forall>x \<in> set xs. tid x \<noteq> t \<Longrightarrow> resolution (xs @ ys) t = resolution ys t"
  by (induction xs) auto

subsection \<open>The merge loop computes a join\<close>

definition keep_item :: "u32 \<Rightarrow> u32 \<Rightarrow> tag_set_item list \<Rightarrow> tag_set_item list" where
  "keep_item t r d = (if r = TAG_RES_NOTHING then d else \<lparr>tid = t, resol = r\<rparr> # d)"

fun join_items :: "tag_set_item list \<Rightarrow> tag_set_item list \<Rightarrow> tag_set_item list" where
  "join_items [] [] = []"
| "join_items (x # xs) [] = keep_item (tid x) (resol x) (join_items xs [])"
| "join_items [] (y # ys) = keep_item (tid y) (resol y) (join_items [] ys)"
| "join_items (x # xs) (y # ys) =
     (if tid x < tid y then keep_item (tid x) (resol x) (join_items xs (y # ys))
      else if tid y < tid x then keep_item (tid y) (resol y) (join_items (x # xs) ys)
      else keep_item (tid x) (resol x OR resol y) (join_items xs ys))"

lemma tid_below_max: "\<not> t < 0xffffffff \<longleftrightarrow> t = (0xffffffff :: u32)"
  using word_order.extremum [of t] unfolding max_u32 by (auto simp: order_le_less)

lemma current_id_simps [simp]:
  "current_id (x # xs) [] = tid x"
  "current_id [] (y # ys) = tid y"
  "current_id (x # xs) (y # ys) = min (tid x) (tid y)"
  using tid_below_max [of "tid x"] tid_below_max [of "tid y"]
  by (auto simp: current_id_def Let_def min_def not_le)

lemma merge_loop_join:
  "merge_loop xs ys h acc =
     (h XOR xor_list (map tag_set_item_hashcode (join_items xs ys)), acc @ join_items xs ys)"
proof (induction xs ys arbitrary: h acc rule: join_items.induct)
  case (4 x xs y ys)
  note step = merge_loop.simps [of "x # xs" "y # ys"]
  consider "tid x < tid y" | "tid y < tid x" | "tid x = tid y" by fastforce
  then show ?case
  proof cases
    case 1
    then have "min (tid x) (tid y) = tid x" "tid x \<noteq> tid y" "\<not> tid y < tid x" by auto
    then show ?thesis by (simp add: 4(1) 1 step Let_def keep_item_def xor.assoc)
  next
    case 2
    then have "min (tid x) (tid y) = tid y" "tid y \<noteq> tid x" "\<not> tid x < tid y" by auto
    then show ?thesis by (simp add: 4(2) 2 step Let_def keep_item_def xor.assoc)
  next
    case 3
    then show ?thesis by (simp add: 4(3) step Let_def keep_item_def xor.assoc)
  qed
qed (simp_all add: merge_loop.simps [of "_ # _" "[]"] merge_loop.simps [of "[]"] Let_def keep_item_def xor.assoc)

lemma join_items_tids: "item \<in> set (join_items xs ys) \<Longrightarrow> tid item \<in> tid ` set xs \<union> tid ` set ys"
  by (induction xs ys rule: join_items.induct) (auto simp: keep_item_def split: if_splits)

lemma join_items_above:
  "\<forall>x \<in> set xs. t < tid x \<Longrightarrow> \<forall>y \<in> set ys. t < tid y \<Longrightarrow> \<forall>z \<in> set (join_items xs ys). t < tid z"
  using join_items_tids by fastforce

lemma join_items_above_Nil:
  "tag_sorted (x # xs) \<Longrightarrow> \<forall>z \<in> set (join_items xs []). tid x < tid z"
  "tag_sorted (y # ys) \<Longrightarrow> \<forall>z \<in> set (join_items [] ys). tid y < tid z"
  using join_items_above [of xs "tid x" "[]"] join_items_above [of "[]" "tid y" ys] by simp_all

lemma keep_item_sorted: "\<forall>z \<in> set d. t < tid z \<Longrightarrow> tag_sorted d \<Longrightarrow> tag_sorted (keep_item t r d)"
  by (simp add: keep_item_def)

text \<open>The three ways in which two sorted lists start, with what the join has left to add.\<close>

lemma sorted_heads_cases:
  assumes "tag_sorted (x # xs)" and "tag_sorted (y # ys)"
  obtains "tid x < tid y" "\<forall>z \<in> set (join_items xs (y # ys)). tid x < tid z" "\<forall>z \<in> set ys. tid x < tid z"
  | "tid y < tid x" "\<forall>z \<in> set (join_items (x # xs) ys). tid y < tid z" "\<forall>z \<in> set xs. tid y < tid z"
  | "tid x = tid y" "\<forall>z \<in> set (join_items xs ys). tid x < tid z"
proof -
  consider "tid x < tid y" | "tid y < tid x" | "tid x = tid y" by fastforce
  then show thesis
  proof cases
    case 1
    with assms have "\<forall>z \<in> set ys. tid x < tid z" by fastforce
    with 1 assms show thesis by (intro that(1) join_items_above) auto
  next
    case 2
    with assms have "\<forall>z \<in> set xs. tid y < tid z" by fastforce
    with 2 assms show thesis by (intro that(2) join_items_above) auto
  next
    case 3
    with assms show thesis by (intro that(3) join_items_above) auto
  qed
qed

lemma join_items_heads:
  "tid x < tid y \<Longrightarrow> join_items (x # xs) (y # ys) = keep_item (tid x) (resol x) (join_items xs (y # ys))"
  "tid y < tid x \<Longrightarrow> join_items (x # xs) (y # ys) = keep_item (tid y) (resol y) (join_items (x # xs) ys)"
  "tid x = tid y \<Longrightarrow> join_items (x # xs) (y # ys) = keep_item (tid x) (resol x OR resol y) (join_items xs ys)"
  by auto

lemma join_items_sorted: "tag_sorted xs \<Longrightarrow> tag_sorted ys \<Longrightarrow> tag_sorted (join_items xs ys)"
proof (induction xs ys rule: join_items.induct)
  case (4 x xs y ys)
  have tails: "tag_sorted xs" "tag_sorted ys" using 4(4,5) by simp_all
  from 4(4,5) show ?case
  proof (cases rule: sorted_heads_cases)
    case 1
    then show ?thesis unfolding join_items_heads(1) [OF 1(1)]
      by (intro keep_item_sorted 4(1) 4(5) tails)
  next
    case 2
    then have "\<not> tid x < tid y" by simp
    with 2 show ?thesis unfolding join_items_heads(2) [OF 2(1)]
      by (intro keep_item_sorted 4(2) 4(4) tails)
  next
    case 3
    then have "\<not> tid x < tid y" "\<not> tid y < tid x" by simp_all
    with 3 show ?thesis unfolding join_items_heads(3) [OF 3(1)]
      by (intro keep_item_sorted 4(3) tails)
  qed
next
  case (2 x xs)
  from 2(2) have "tag_sorted xs" by simp
  with 2 show ?case unfolding join_items.simps by (intro keep_item_sorted join_items_above_Nil 2(1))
next
  case (3 y ys)
  from 3(3) have "tag_sorted ys" by simp
  with 3 show ?case unfolding join_items.simps by (intro keep_item_sorted join_items_above_Nil 3(1))
qed simp

lemma join_items_length: "length (join_items xs ys) \<le> length xs + length ys"
  by (induction xs ys rule: join_items.induct) (auto simp: keep_item_def)

lemma join_items_nonzero: "item \<in> set (join_items xs ys) \<Longrightarrow> resol item \<noteq> TAG_RES_NOTHING"
  by (induction xs ys rule: join_items.induct) (auto simp: keep_item_def split: if_splits)

lemma resolution_below: "\<forall>x \<in> set xs. t < tid x \<Longrightarrow> resolution xs t = 0"
  by (rule resolution_absent [unfolded TAG_RES_NOTHING_def]) auto

lemma keep_item_resolution:
  "\<forall>x \<in> set d. t < tid x \<Longrightarrow> resolution (keep_item t r d) u = (if t = u then r else resolution d u)"
  by (auto simp: keep_item_def resolution_below TAG_RES_NOTHING_def)

lemma join_items_resolution:
  "tag_sorted xs \<Longrightarrow> tag_sorted ys \<Longrightarrow>
   resolution (join_items xs ys) t = resolution xs t OR resolution ys t"
proof (induction xs ys rule: join_items.induct)
  case (2 x xs)
  then show ?case
    by (simp only: join_items.simps keep_item_resolution [OF join_items_above_Nil(1)]) (simp add: TAG_RES_NOTHING_def)
next
  case (3 y ys)
  then show ?case
    by (simp only: join_items.simps keep_item_resolution [OF join_items_above_Nil(2)]) (simp add: TAG_RES_NOTHING_def)
next
  case (4 x xs y ys)
  have tails: "tag_sorted xs" "tag_sorted ys" using 4(4,5) by simp_all
  from 4(4,5) show ?case
  proof (cases rule: sorted_heads_cases)
    case 1
    have "resolution (y # ys) (tid x) = 0"
      using 1 by (intro resolution_below) simp
    with 4(1) [OF 1(1) tails(1) 4(5)] show ?thesis
      unfolding join_items_heads(1) [OF 1(1)] keep_item_resolution [OF 1(2)]
      by (auto split: if_splits)
  next
    case 2
    then have "\<not> tid x < tid y" by simp
    have "resolution (x # xs) (tid y) = 0"
      using 2 by (intro resolution_below) simp
    with 4(2) [OF \<open>\<not> tid x < tid y\<close> 2(1) 4(4) tails(2)] show ?thesis
      unfolding join_items_heads(2) [OF 2(1)] keep_item_resolution [OF 2(2)]
      by (auto split: if_splits)
  next
    case 3
    then have "\<not> tid x < tid y" "\<not> tid y < tid x" by simp_all
    with 4(3) [OF this tails] 3(1) show ?thesis
      unfolding join_items_heads(3) [OF 3(1)] keep_item_resolution [OF 3(2)] by simp
  qed
qed (simp add: TAG_RES_NOTHING_def)

subsection \<open>The binary search\<close>

lemma tag_sorted_nth: "tag_sorted d \<Longrightarrow> i < j \<Longrightarrow> j < length d \<Longrightarrow> tid (d ! i) < tid (d ! j)"
  by (simp add: tag_sorted_def sorted_wrt_iff_nth_less)

lemma tag_bsearch_finds:
  assumes "tag_sorted d" and "k < length d"
  shows "tag_bsearch d (tid (d ! k)) = k"
  unfolding tag_bsearch_def
  using assms by (intro bisect_sorted [where key = "\<lambda>i. tid (d ! i)"]) (auto intro: tag_sorted_nth)

lemma tag_bsearch_in_range: "d \<noteq> [] \<Longrightarrow> tag_bsearch d t < length d"
  unfolding tag_bsearch_def by (rule bisect_in_range) simp

lemma tag_outside:
  assumes "tag_sorted d" and "item \<in> set d"
  shows "\<not> tid item < tid (d ! 0)" and "\<not> tid (d ! (length d - 1)) < tid item"
proof -
  obtain k where k: "k < length d" "item = d ! k" using assms(2) by (auto simp: in_set_conv_nth)
  show "\<not> tid item < tid (d ! 0)"
    using tag_sorted_nth [OF assms(1), of 0 k] k by (cases "k = 0") auto
  show "\<not> tid (d ! (length d - 1)) < tid item"
  proof (cases "k = length d - 1")
    case False
    with k have "tid (d ! k) < tid (d ! (length d - 1))"
      by (intro tag_sorted_nth [OF assms(1)]) auto
    with k show ?thesis by simp
  qed (use k in simp)
qed

text \<open>The test that guards both searches decides membership.\<close>

lemma tag_search_iff:
  assumes "tag_sorted d"
  shows "d = [] \<or> t < tid (d ! 0) \<or> tid (d ! (length d - 1)) < t \<or> tid (d ! tag_bsearch d t) \<noteq> t
         \<longleftrightarrow> t \<notin> tid ` set d"
proof
  assume "d = [] \<or> t < tid (d ! 0) \<or> tid (d ! (length d - 1)) < t \<or> tid (d ! tag_bsearch d t) \<noteq> t"
  then show "t \<notin> tid ` set d"
    using tag_outside [OF assms] tag_bsearch_finds [OF assms] by (auto simp: in_set_conv_nth)
next
  assume absent: "t \<notin> tid ` set d"
  show "d = [] \<or> t < tid (d ! 0) \<or> tid (d ! (length d - 1)) < t \<or> tid (d ! tag_bsearch d t) \<noteq> t"
  proof (cases "d = []")
    case False
    then have "d ! tag_bsearch d t \<in> set d" by (simp add: tag_bsearch_in_range)
    with absent have "tid (d ! tag_bsearch d t) \<noteq> t" by (metis imageI)
    then show ?thesis by blast
  qed simp
qed

lemma resolution_update:
  assumes "tag_sorted d" and "k < length d"
  shows "resolution (d[k := (d ! k)\<lparr>resol := v\<rparr>]) t = (if t = tid (d ! k) then v else resolution d t)"
  using assms
proof (induction d arbitrary: k)
  case (Cons x d)
  then show ?case
  proof (cases k)
    case (Suc j)
    with Cons.prems have "tid (d ! j) \<noteq> tid x" by (auto dest!: nth_mem)
    with Suc Cons show ?thesis by auto
  qed auto
qed simp

lemma tag_sorted_update:
  "tag_sorted d \<Longrightarrow> k < length d \<Longrightarrow> tag_sorted (d[k := (d ! k)\<lparr>resol := v\<rparr>])"
proof -
  assume "tag_sorted d" and k: "k < length d"
  moreover have "map tid (d[k := (d ! k)\<lparr>resol := v\<rparr>]) = (map tid d)[k := map tid d ! k]"
    using k by (simp add: map_update)
  ultimately show ?thesis by (simp only: tag_sorted_def list_update_id)
qed

lemma tag_hash_update:
  "k < length d \<Longrightarrow>
   tag_hash (d[k := y]) = (tag_hash d XOR tag_set_item_hashcode (d ! k)) XOR tag_set_item_hashcode y"
  by (simp add: tag_hash_def map_update xor_list_update xor.assoc)

subsection \<open>The invariant of the memory\<close>

definition tag_ok :: "tag_set \<Rightarrow> bool" where
  "tag_ok t \<longleftrightarrow> tag_sorted (ts_data t) \<and> ts_hashcode t = tag_hash (ts_data t)"

text \<open>
  Between calls: every live set is well formed and has a positive counter, fresh pointers are
  unused, and the static set is present and empty.
\<close>

definition tag_inv :: "tag_state \<Rightarrow> bool" where
  "tag_inv s \<longleftrightarrow>
     (\<forall>p t. tag_sets s p = Some t \<longrightarrow> p < next_ptr s \<and> tag_ok t \<and> ts_refcnt t \<noteq> 0) \<and>
     (\<exists>t. tag_sets s 0 = Some t \<and> ts_data t = [])"

text \<open>No counter is about to wrap around.\<close>

definition tag_counters_low :: "tag_state \<Rightarrow> bool" where
  "tag_counters_low s \<longleftrightarrow> (\<forall>p t. tag_sets s p = Some t \<longrightarrow> ts_refcnt t \<noteq> 0xffffffff)"

lemma tag_incref_eq:
  "tag_sets s p = Some t \<Longrightarrow>
   tag_set_incref p s = Some (s\<lparr>tag_sets := (tag_sets s)(p \<mapsto> t\<lparr>ts_refcnt := ts_refcnt t + 1\<rparr>)\<rparr>)"
  by (simp add: tag_set_incref_def tag_upd_def)

lemma tag_decref_eq:
  "tag_sets s p = Some t \<Longrightarrow> ts_refcnt t \<noteq> 1 \<Longrightarrow>
   tag_set_decref p s = Some (s\<lparr>tag_sets := (tag_sets s)(p \<mapsto> t\<lparr>ts_refcnt := ts_refcnt t - 1\<rparr>)\<rparr>)"
  by (simp add: tag_set_decref_def tag_upd_def)

lemma tag_decref_last:
  "tag_sets s p = Some t \<Longrightarrow> ts_refcnt t = 1 \<Longrightarrow> p \<noteq> 0 \<Longrightarrow>
   tag_set_decref p s = Some (s\<lparr>tag_sets := (tag_sets s)(p := None)\<rparr>)"
  by (simp add: tag_set_decref_def tag_upd_def)

lemma tag_duplicate_eq:
  assumes "tag_sets s p = Some t" and "ts_refcnt t \<noteq> 1" and "p < next_ptr s"
  obtains s' i where "tag_set_duplicate p fresh s = Some (next_ptr s, s')"
    and "tag_sets s' = (tag_sets s)(p \<mapsto> t\<lparr>ts_refcnt := ts_refcnt t - 1\<rparr>,
      next_ptr s \<mapsto> \<lparr>ts_id = i, ts_refcnt = 1, ts_hashcode = ts_hashcode t, ts_data = ts_data t\<rparr>)"
    and "next_ptr s' = Suc (next_ptr s)"
  using assms
  by (cases fresh)
    (simp_all add: tag_set_duplicate_def tag_set_new_def tag_upd_def tag_set_decref_def
      tag_set_incref_def tag_tracker_register_def Let_def fun_upd_twist)


lemma tag_inv_live:
  "tag_inv s \<Longrightarrow> tag_sets s p = Some t \<Longrightarrow> p < next_ptr s \<and> tag_ok t \<and> ts_refcnt t \<noteq> 0"
  by (simp add: tag_inv_def)

lemma tag_inv_fresh: "tag_inv s \<Longrightarrow> tag_sets s (next_ptr s) = None"
  by (metis less_irrefl not_Some_eq tag_inv_live)

lemma tag_inv_static: "tag_inv s \<Longrightarrow> \<exists>t. tag_sets s 0 = Some t \<and> ts_data t = []"
  by (simp add: tag_inv_def)

lemma tag_invI:
  assumes "\<And>p t. tag_sets s p = Some t \<Longrightarrow> p < next_ptr s \<and> tag_ok t \<and> ts_refcnt t \<noteq> 0"
    and "tag_sets s 0 = Some t0" and "ts_data t0 = []"
  shows "tag_inv s"
  using assms by (auto simp: tag_inv_def)

text \<open>Storing one more well formed set, or replacing the counter of one, keeps the invariant.\<close>

lemma tag_inv_store:
  assumes "tag_inv s" and "tag_sets s' = (tag_sets s)(p \<mapsto> t)" and "next_ptr s \<le> next_ptr s'"
    and "p < next_ptr s'" and "tag_ok t" and "ts_refcnt t \<noteq> 0" and "p = 0 \<Longrightarrow> ts_data t = []"
  shows "tag_inv s'"
proof -
  obtain t0 where t0: "tag_sets s 0 = Some t0" "ts_data t0 = []" using tag_inv_static [OF assms(1)] by blast
  have "q < next_ptr s' \<and> tag_ok u \<and> ts_refcnt u \<noteq> 0" if "tag_sets s' q = Some u" for q u
    using that assms tag_inv_live [OF assms(1), of q u] by (auto split: if_splits)
  moreover have "\<exists>u. tag_sets s' 0 = Some u \<and> ts_data u = []"
    using assms(2,7) t0 by auto
  ultimately show ?thesis by (auto simp: tag_inv_def)
qed

text \<open>
  A duplicate made after taking a reference, the light weight copy of \<^verbatim>\<open>tag_set_merge\<close>: the source
  is as before and the copy is a new set of its own.
\<close>

lemma tag_copy:
  assumes inv: "tag_inv s" and p: "tag_sets s p = Some t"
  obtains s' u where
    "do { s \<leftarrow> tag_set_incref p s; (q, s) \<leftarrow> tag_set_duplicate p True s; Some (Some q, s) } =
       Some (Some (next_ptr s), s')"
    and "tag_sets s' = (tag_sets s)(next_ptr s \<mapsto> u)" and "ts_data u = ts_data t" and "tag_inv s'"
proof -
  let ?t = "t\<lparr>ts_refcnt := ts_refcnt t + 1\<rparr>"
  let ?s = "s\<lparr>tag_sets := (tag_sets s)(p \<mapsto> ?t)\<rparr>"
  have live: "p < next_ptr s" "tag_ok t" "ts_refcnt t \<noteq> 0" using tag_inv_live [OF inv p] by auto
  obtain s' i where dup: "tag_set_duplicate p True ?s = Some (next_ptr ?s, s')"
    "tag_sets s' = (tag_sets ?s)(p \<mapsto> ?t\<lparr>ts_refcnt := ts_refcnt ?t - 1\<rparr>,
      next_ptr ?s \<mapsto> \<lparr>ts_id = i, ts_refcnt = 1, ts_hashcode = ts_hashcode ?t, ts_data = ts_data ?t\<rparr>)"
    "next_ptr s' = Suc (next_ptr ?s)"
    by (rule tag_duplicate_eq [of ?s p ?t True]) (use live in auto)
  have sets: "tag_sets s' = (tag_sets s)(next_ptr s \<mapsto>
       \<lparr>ts_id = i, ts_refcnt = 1, ts_hashcode = ts_hashcode t, ts_data = ts_data t\<rparr>)"
    using dup(2) p live by (auto simp: fun_eq_iff)
  moreover have "tag_inv s'"
    by (rule tag_inv_store [OF inv sets]) (use dup(3) live in \<open>auto simp: tag_ok_def\<close>)
  moreover have "do { s \<leftarrow> tag_set_incref p s; (q, s) \<leftarrow> tag_set_duplicate p True s; Some (Some q, s) } =
       Some (Some (next_ptr s), s')"
    using dup(1) by (simp add: tag_incref_eq [OF p])
  ultimately show thesis
    using that [of s' "\<lparr>ts_id = i, ts_refcnt = 1, ts_hashcode = ts_hashcode t, ts_data = ts_data t\<rparr>"] by simp
qed

lemma resolution_Nil_or [simp]: "TAG_RES_NOTHING OR r = r" "r OR TAG_RES_NOTHING = r"
  by (simp_all add: TAG_RES_NOTHING_def)

text \<open>The full merge of two different sets, the last branch of \<^verbatim>\<open>tag_set_merge\<close>.\<close>

lemma tag_merge_full:
  assumes inv: "tag_inv s" and f: "tag_sets s f = Some tf" and g: "tag_sets s g = Some tg"
    and "ts_size tf \<noteq> 0" and "ts_size tg \<noteq> 0" and "g \<noteq> f"
  obtains s' t where "tag_set_merge (Some f) (Some g) s = Some (Some (next_ptr s), s')"
    and "tag_sets s' = (tag_sets s)(next_ptr s \<mapsto> t)"
    and "ts_data t = join_items (ts_data tf) (ts_data tg)" and "ts_refcnt t = 1" and "tag_inv s'"
proof -
  let ?d = "join_items (ts_data tf) (ts_data tg)"
  let ?t = "\<lparr>ts_id = next_set_idx s, ts_refcnt = 1, ts_hashcode = tag_hash ?d, ts_data = ?d\<rparr>"
  obtain s' where run: "tag_set_merge (Some f) (Some g) s = Some (Some (next_ptr s), s')"
    and sets: "tag_sets s' = (tag_sets s)(next_ptr s \<mapsto> ?t)" and ptr: "next_ptr s' = Suc (next_ptr s)"
    using assms(4-6) f g
    by (simp add: tag_set_merge_def tag_set_new_def tag_upd_def tag_set_incref_def
        tag_tracker_register_def Let_def merge_loop_join tag_hash_def)
  have "tag_ok ?t"
    using tag_inv_live [OF inv f] tag_inv_live [OF inv g] by (simp add: tag_ok_def join_items_sorted)
  moreover have "next_ptr s \<noteq> 0" using tag_inv_live [OF inv f] by auto
  ultimately have "tag_inv s'" by (intro tag_inv_store [OF inv sets]) (simp_all add: ptr)
  then show thesis using that [OF run sets] by simp
qed

lemma tag_merge_static:
  assumes inv: "tag_inv s" and "tag_counters_low s" and "tag_sets s f = Some tf" and "tag_sets s g = Some tg"
    and "ts_data tf = []" and "ts_data tg = []"
  obtains s' t where "tag_set_merge (Some f) (Some g) s = Some (Some 0, s')"
    and "tag_sets s' = (tag_sets s)(0 \<mapsto> t)" and "ts_data t = []" and "tag_inv s'"
proof -
  obtain t0 where t0: "tag_sets s 0 = Some t0" "ts_data t0 = []" using tag_inv_static [OF inv] by blast
  let ?t = "t0\<lparr>ts_refcnt := ts_refcnt t0 + 1\<rparr>"
  let ?s = "s\<lparr>tag_sets := (tag_sets s)(0 \<mapsto> ?t)\<rparr>"
  have "ts_refcnt t0 + 1 \<noteq> 0"
    using assms(2) t0(1) unfolding tag_counters_low_def by (metis add_eq_0_iff max_u32 minus_equation_iff)
  then have "tag_inv ?s"
    using tag_inv_live [OF inv t0(1)] t0(2)
    by (intro tag_inv_store [OF inv, of ?s 0 ?t]) (auto simp: tag_ok_def)
  moreover have "tag_set_merge (Some f) (Some g) s = Some (Some 0, ?s)"
    using assms by (simp add: tag_set_merge_def tag_set_empty_def tag_incref_eq [OF t0(1)])
  ultimately show thesis using t0(2) that [of ?s ?t] by simp
qed

text \<open>
  Where the result is, and what its data are, on every path of \<^verbatim>\<open>tag_set_merge\<close> with live arguments.
\<close>

lemma tag_merge_paths:
  assumes inv: "tag_inv s" and low: "tag_counters_low s"
    and f: "tag_sets s f = Some tf" and g: "tag_sets s g = Some tg"
  obtains p s' t where "tag_set_merge (Some f) (Some g) s = Some (Some p, s')"
    and "tag_sets s' = (tag_sets s)(p \<mapsto> t)" and "tag_inv s'"
    and "ts_data t = (if ts_data tf = [] then ts_data tg
                      else if ts_data tg = [] \<or> g = f then ts_data tf
                      else join_items (ts_data tf) (ts_data tg))"
proof -
  consider "ts_data tf = []" "ts_data tg = []" | "ts_data tf = []" "ts_data tg \<noteq> []"
    | "ts_data tf \<noteq> []" "ts_data tg = [] \<or> g = f"
    | "ts_data tf \<noteq> []" "ts_data tg \<noteq> []" "g \<noteq> f" by blast
  then show thesis
  proof cases
    case 1
    show thesis by (rule tag_merge_static [OF assms 1]) (rule that, use 1 in auto)
  next
    case 2
    then have "tag_set_merge (Some f) (Some g) s =
        do { s \<leftarrow> tag_set_incref g s; (q, s) \<leftarrow> tag_set_duplicate g True s; Some (Some q, s) }"
      using f g by (simp add: tag_set_merge_def)
    then show thesis
      by - (rule tag_copy [OF inv g], rule that, erule (1) trans, assumption, assumption, use 2 in simp)
  next
    case 3
    then have "tag_set_merge (Some f) (Some g) s =
        do { s \<leftarrow> tag_set_incref f s; (q, s) \<leftarrow> tag_set_duplicate f True s; Some (Some q, s) }"
      using f g by (auto simp: tag_set_merge_def)
    then show thesis
      by - (rule tag_copy [OF inv f], rule that, erule (1) trans, assumption, assumption, use 3 in simp)
  next
    case 4
    show thesis by (rule tag_merge_full [OF inv f g]) (use 4 that in auto)
  qed
qed

subsection \<open>Changing a resolution\<close>

lemma tag_change_unshared:
  assumes "tag_sets s p = Some t" and "ts_refcnt t = 1" and "tag_ok t"
  shows "tag_set_change_resolution p x v s =
    (if x \<in> tid ` set (ts_data t)
     then let l = tag_bsearch (ts_data t) x; d = (ts_data t)[l := (ts_data t ! l)\<lparr>resol := v\<rparr>]
          in Some (Some p, s\<lparr>tag_sets := (tag_sets s)(p \<mapsto> t\<lparr>ts_hashcode := tag_hash d, ts_data := d\<rparr>)\<rparr>)
     else Some (None, s))"
proof -
  have sorted: "tag_sorted (ts_data t)" and hash: "ts_hashcode t = tag_hash (ts_data t)"
    using assms(3) by (simp_all add: tag_ok_def)
  have "tag_bsearch (ts_data t) x < ts_size t" if "x \<in> tid ` set (ts_data t)"
    using that by (intro tag_bsearch_in_range) auto
  then show ?thesis
    using assms(1,2) tag_search_iff [OF sorted, of x]
    by (auto simp: tag_set_change_resolution_def tag_upd_def Let_def hash tag_hash_update)
qed

lemma tag_change_shared:
  assumes inv: "tag_inv s" and p: "tag_sets s p = Some t" and "ts_refcnt t > 1"
  obtains s1 u where "tag_sets s1 = (tag_sets s)(p \<mapsto> t\<lparr>ts_refcnt := ts_refcnt t - 1\<rparr>, next_ptr s \<mapsto> u)"
    and "next_ptr s1 = Suc (next_ptr s)" and "ts_data u = ts_data t" and "ts_refcnt u = 1" and "tag_ok u"
    and "tag_set_change_resolution p x v s =
      (case tag_set_change_resolution (next_ptr s) x v s1 of
         Some (None, _) \<Rightarrow> do {
           s2 \<leftarrow> tag_set_decref (next_ptr s) s1; s3 \<leftarrow> tag_set_incref p s2; Some (None, s3) }
       | r \<Rightarrow> r)"
proof -
  have "ts_refcnt t \<noteq> 1" "p < next_ptr s" "tag_ok t" using assms(3) tag_inv_live [OF inv p] by auto
  then obtain s1 i where dup: "tag_set_duplicate p False s = Some (next_ptr s, s1)"
    and sets: "tag_sets s1 = (tag_sets s)(p \<mapsto> t\<lparr>ts_refcnt := ts_refcnt t - 1\<rparr>,
      next_ptr s \<mapsto> \<lparr>ts_id = i, ts_refcnt = 1, ts_hashcode = ts_hashcode t, ts_data = ts_data t\<rparr>)"
    and ptr: "next_ptr s1 = Suc (next_ptr s)"
    using tag_duplicate_eq [OF p] by metis
  have "tag_set_change_resolution p x v s =
      (case tag_set_change_resolution (next_ptr s) x v s1 of
         Some (None, _) \<Rightarrow> do {
           s2 \<leftarrow> tag_set_decref (next_ptr s) s1; s3 \<leftarrow> tag_set_incref p s2; Some (None, s3) }
       | r \<Rightarrow> r)"
    using assms(3) p sets dup by (auto simp: tag_set_change_resolution_def tag_upd_def Let_def)
  with sets ptr \<open>tag_ok t\<close> show thesis by (intro that [OF sets ptr]) (auto simp: tag_ok_def)
qed

subsection \<open>Sets from arrays, references\<close>

definition array_items :: "(u32 \<times> u32) list \<Rightarrow> tag_set_item list" where
  "array_items l = map (\<lambda>(t, r). \<lparr>tid = t, resol = r\<rparr>) l"

lemma from_array_loop_eq:
  "from_array_loop prev h acc l =
     (if sorted_wrt (<) ((case prev of None \<Rightarrow> [] | Some t \<Rightarrow> [t]) @ map fst l)
      then Some (h XOR xor_list (map tag_set_item_hashcode (array_items l)), acc @ array_items l)
      else None)"
proof (induction prev h acc l rule: from_array_loop.induct)
  case (2 prev h acc t r rest)
  then show ?case
    by (cases prev) (auto simp: Let_def array_items_def xor.assoc sorted_wrt2 not_le simp del: sorted_wrt.simps(2))
qed (simp add: array_items_def split: option.split)

lemma tag_sorted_array_items: "tag_sorted (array_items l) \<longleftrightarrow> sorted_wrt (<) (map fst l)"
proof -
  have "map tid (array_items l) = map fst l" by (induction l) (auto simp: array_items_def)
  then show ?thesis by (simp add: tag_sorted_def)
qed

lemma from_array_increasing:
  assumes inv: "tag_inv s" and "length rs = length ts" and "ts \<noteq> []" and "sorted_wrt (<) ts"
  obtains s' t where "tag_set_from_array (Some ts) (Some rs) s = Some (Some (next_ptr s), s')"
    and "tag_sets s' = (tag_sets s)(next_ptr s \<mapsto> t)" and "ts_data t = array_items (zip ts rs)"
    and "tag_inv s'"
proof -
  let ?d = "array_items (zip ts rs)"
  let ?t = "\<lparr>ts_id = next_set_idx s, ts_refcnt = 1, ts_hashcode = tag_hash ?d, ts_data = ?d\<rparr>"
  obtain s' where run: "tag_set_from_array (Some ts) (Some rs) s = Some (Some (next_ptr s), s')"
    and sets: "tag_sets s' = (tag_sets s)(next_ptr s \<mapsto> ?t)" and ptr: "next_ptr s' = Suc (next_ptr s)"
    using assms(2-4)
    by (simp add: tag_set_from_array_def tag_set_new_def from_array_loop_eq tag_upd_def
        tag_set_incref_def tag_tracker_register_def Let_def tag_hash_def)
  have "tag_ok ?t" using assms(2,4) by (simp add: tag_ok_def tag_sorted_array_items)
  moreover have "next_ptr s \<noteq> 0" using tag_inv_static [OF inv] tag_inv_live [OF inv] by fastforce
  ultimately have "tag_inv s'" by (intro tag_inv_store [OF inv sets]) (simp_all add: ptr)
  then show thesis using that [OF run sets] by simp
qed

lemma from_array_not_increasing:
  assumes inv: "tag_inv s" and "length rs = length ts" and "\<not> sorted_wrt (<) ts"
  shows "\<exists>s'. tag_set_from_array (Some ts) (Some rs) s = Some (None, s') \<and>
    tag_sets s' = tag_sets s \<and> next_ptr s' = Suc (next_ptr s)"
proof -
  have "ts \<noteq> []" using assms(3) by auto
  then show ?thesis
    using assms(2,3) tag_inv_fresh [OF inv]
    by (simp add: tag_set_from_array_def tag_set_new_def from_array_loop_eq Let_def fun_upd_idem)
qed

subsection \<open>Sequences of operations\<close>

text \<open>
  The calls a client makes. A step is a call that does not follow a dangling pointer; the counters
  are assumed not to be at their maximum when a call may take a reference.
\<close>

inductive tag_step :: "tag_state \<Rightarrow> tag_state \<Rightarrow> bool" where
  from_array: "length rs = length ts \<Longrightarrow> ts \<noteq> [] \<Longrightarrow>
     tag_set_from_array (Some ts) (Some rs) s = Some (r, s') \<Longrightarrow> tag_step s s'"
| empty: "tag_counters_low s \<Longrightarrow> tag_set_empty s = Some (p, s') \<Longrightarrow> tag_step s s'"
| fork: "tag_counters_low s \<Longrightarrow> tag_set_fork p s = Some (r, s') \<Longrightarrow> tag_step s s'"
| free: "tag_set_free p s = Some s' \<Longrightarrow> tag_step s s'"
| merge: "tag_counters_low s \<Longrightarrow> tag_set_merge p q s = Some (r, s') \<Longrightarrow> tag_step s s'"
| change: "tag_set_change_resolution p x v s = Some (r, s') \<Longrightarrow> tag_step s s'"

inductive tag_reachable :: "tag_state \<Rightarrow> bool" where
  init: "tag_set_init tag_boot = Some s \<Longrightarrow> tag_reachable s"
| step: "tag_reachable s \<Longrightarrow> tag_step s s' \<Longrightarrow> tag_reachable s'"

lemma tag_inv_refcnt:
  assumes inv: "tag_inv s" and p: "tag_sets s p = Some t" and "c \<noteq> 0"
  shows "tag_inv (s\<lparr>tag_sets := (tag_sets s)(p \<mapsto> t\<lparr>ts_refcnt := c\<rparr>)\<rparr>)"
  by (rule tag_inv_store [OF inv, of _ p "t\<lparr>ts_refcnt := c\<rparr>"])
    (use tag_inv_live [OF inv p] tag_inv_static [OF inv] p assms(3) in \<open>auto simp: tag_ok_def\<close>)

lemma tag_incref_inv:
  assumes "tag_inv s" and "tag_counters_low s" and "tag_set_incref p s = Some s'"
  shows "tag_inv s'"
proof -
  obtain t where p: "tag_sets s p = Some t"
    using assms(3) by (auto simp: tag_set_incref_def tag_upd_def bind_eq_Some_conv)
  moreover have "ts_refcnt t + 1 \<noteq> 0"
    using assms(2) p unfolding tag_counters_low_def by (metis add_eq_0_iff max_u32 minus_equation_iff)
  ultimately show ?thesis using assms(1,3) tag_inv_refcnt by (simp add: tag_incref_eq [OF p]) blast
qed

lemma tag_decref_inv:
  assumes inv: "tag_inv s" and run: "tag_set_decref p s = Some s'"
  shows "tag_inv s'"
proof -
  obtain t where p: "tag_sets s p = Some t"
    using run by (auto simp: tag_set_decref_def bind_eq_Some_conv)
  show ?thesis
  proof (cases "ts_refcnt t = 1")
    case True
    with run p have "p \<noteq> 0" and s': "s' = s\<lparr>tag_sets := (tag_sets s)(p := None)\<rparr>"
      by (auto simp: tag_set_decref_def split: if_splits)
    with inv show ?thesis by (auto simp: tag_inv_def)
  next
    case False
    then have "ts_refcnt t - 1 \<noteq> 0" by simp
    with run False tag_inv_refcnt [OF inv p] show ?thesis by (auto simp: tag_decref_eq [OF p])
  qed
qed

subsection \<open>Properties of the tag sets\<close>

text \<open>
  C2: Merging two live tag sets always succeeds with a pointer to a set in which every tag has the
  bitwise or of its two resolutions. The invariant (sorted data, hash code equal to the recomputed
  one, positive counters) is kept, no other set changes in any member, and the data fit into the
  array of as many slots as both sets have items. When both sets are empty the result is the
  shared static set.
\<close>

theorem tag_set_merge_correct:
  assumes "tag_inv s" and "tag_counters_low s"
    and "tag_sets s f = Some tf" and "tag_sets s g = Some tg"
  shows "\<exists>p s' t. tag_set_merge (Some f) (Some g) s = Some (Some p, s') \<and> tag_sets s' p = Some t \<and>
    (\<forall>x. resolution (ts_data t) x = resolution (ts_data tf) x OR resolution (ts_data tg) x) \<and>
    tag_inv s' \<and> (\<forall>q. q \<noteq> p \<longrightarrow> tag_sets s' q = tag_sets s q) \<and>
    ts_size t \<le> ts_size tf + ts_size tg"
proof -
  obtain p s' t where run: "tag_set_merge (Some f) (Some g) s = Some (Some p, s')"
    and sets: "tag_sets s' = (tag_sets s)(p \<mapsto> t)" and inv': "tag_inv s'"
    and d: "ts_data t = (if ts_data tf = [] then ts_data tg
        else if ts_data tg = [] \<or> g = f then ts_data tf else join_items (ts_data tf) (ts_data tg))"
    using assms by (rule tag_merge_paths)
  have "tag_sorted (ts_data tf)" "tag_sorted (ts_data tg)"
    using tag_inv_live [OF assms(1)] assms(3,4) by (auto simp: tag_ok_def)
  moreover have "ts_data tg = ts_data tf" if "g = f" using assms(3,4) that by simp
  ultimately have "resolution (ts_data t) x = resolution (ts_data tf) x OR resolution (ts_data tg) x" for x
    using d by (auto simp: join_items_resolution)
  moreover have "ts_size t \<le> ts_size tf + ts_size tg" using d by (simp add: join_items_length)
  ultimately show ?thesis using run sets inv' by (intro exI conjI) auto
qed

text \<open>
  Looking up a tag by binary search finds it exactly when it is in the set.
\<close>

theorem tag_set_contains_correct:
  assumes "tag_ok t"
  shows "tag_set_contains t what \<longleftrightarrow> (\<exists>item \<in> set (ts_data t). tid item = what)"
proof -
  have "tag_sorted (ts_data t)" using assms by (simp add: tag_ok_def)
  from tag_search_iff [OF this, of what] show ?thesis
    by (auto simp: tag_set_contains_def image_iff)
qed

theorem tag_set_contains_correct_witness:
  "\<not> tag_set_contains \<lparr>ts_id = 1, ts_refcnt = 1,
     ts_hashcode = tag_hash [\<lparr>tid = 2, resol = 1\<rparr>, \<lparr>tid = 5, resol = 2\<rparr>],
     ts_data = [\<lparr>tid = 2, resol = 1\<rparr>, \<lparr>tid = 5, resol = 2\<rparr>]\<rparr> 3"
  by (subst tag_set_contains_correct) (simp_all add: tag_ok_def)

lemma tag_equal_iff:
  assumes "tag_ok f" and "tag_ok g"
  shows "tag_set_equal (Some f) (Some g) = (if ts_data f = ts_data g then 1 else 0)"
proof -
  have "ts_data f = ts_data g \<longleftrightarrow> ts_size f = ts_size g \<and>
      (\<forall>i < ts_size f. tid (ts_data f ! i) = tid (ts_data g ! i) \<and> resol (ts_data f ! i) = resol (ts_data g ! i))"
    by (auto simp: list_eq_iff_nth_eq)
  then show ?thesis
    using assms by (auto simp: tag_set_equal_def tag_ok_def list_ex_iff)
qed

text \<open>
  Two well formed sets are reported equal exactly when their items are the same; comparing
  the hash codes first never turns equal sets away.
\<close>

theorem tag_set_equal_correct:
  assumes "tag_ok f" and "tag_ok g"
  shows "tag_set_equal (Some f) (Some g) = (if ts_data f = ts_data g then 1 else 0)"
  using assms by (rule tag_equal_iff)

theorem tag_set_equal_correct_witness:
  "tag_set_equal (Some (tag_set_empty_static\<lparr>ts_id := 7\<rparr>)) (Some tag_set_empty_static) = 1"
  by (subst tag_set_equal_correct) (simp_all add: tag_ok_def tag_set_empty_static_def tag_hash_def)

lemma tag_inv_nonempty: "tag_inv s \<Longrightarrow> tag_sets s p = Some t \<Longrightarrow> ts_data t \<noteq> [] \<Longrightarrow> p \<noteq> 0"
  by (metis option.inject tag_inv_static)

text \<open>The memory after the copy on write step, when a set is shared.\<close>

lemma tag_inv_shared:
  assumes inv: "tag_inv s" and p: "tag_sets s p = Some t" and "ts_refcnt t > 1"
    and sets: "tag_sets s1 = (tag_sets s)(p \<mapsto> t\<lparr>ts_refcnt := ts_refcnt t - 1\<rparr>, next_ptr s \<mapsto> u)"
    and ptr: "next_ptr s1 = Suc (next_ptr s)" and u: "tag_ok u" "ts_refcnt u \<noteq> 0"
  shows "tag_inv s1"
proof -
  let ?t = "t\<lparr>ts_refcnt := ts_refcnt t - 1\<rparr>"
  let ?s = "s\<lparr>tag_sets := (tag_sets s)(p \<mapsto> ?t)\<rparr>"
  have live: "p < next_ptr s" "tag_ok t" using tag_inv_live [OF inv p] by auto
  have "tag_inv ?s"
    by (rule tag_inv_store [OF inv, of ?s p ?t])
      (use live assms(3) tag_inv_static [OF inv] p in \<open>auto simp: tag_ok_def\<close>)
  then show ?thesis
    by (rule tag_inv_store [of ?s s1 "next_ptr s" u]) (use sets ptr u live in auto)
qed

lemma tag_change_found:
  assumes inv: "tag_inv s" and p: "tag_sets s p = Some t" and one: "ts_refcnt t = 1"
    and found: "x \<in> tid ` set (ts_data t)"
  obtains s' u where "tag_set_change_resolution p x v s = Some (Some p, s')"
    and "tag_sets s' = (tag_sets s)(p \<mapsto> u)" and "tag_inv s'"
    and "\<forall>y. resolution (ts_data u) y = (if y = x then v else resolution (ts_data t) y)"
proof -
  let ?l = "tag_bsearch (ts_data t) x"
  define d where "d = (ts_data t)[?l := (ts_data t ! ?l)\<lparr>resol := v\<rparr>]"
  let ?u = "t\<lparr>ts_hashcode := tag_hash d, ts_data := d\<rparr>"
  let ?s = "s\<lparr>tag_sets := (tag_sets s)(p \<mapsto> ?u)\<rparr>"
  have live: "p < next_ptr s" "tag_ok t" using tag_inv_live [OF inv p] by auto
  then have sorted: "tag_sorted (ts_data t)" by (simp add: tag_ok_def)
  have l: "?l < ts_size t" using found by (intro tag_bsearch_in_range) auto
  have x: "tid (ts_data t ! ?l) = x" using tag_search_iff [OF sorted, of x] found by blast
  have "ts_data t \<noteq> []" using found by auto
  then have "p \<noteq> 0" by (rule tag_inv_nonempty [OF inv p])
  moreover have "tag_ok ?u" using tag_sorted_update [OF sorted l] by (simp add: tag_ok_def d_def)
  ultimately have "tag_inv ?s"
    using live one by (intro tag_inv_store [OF inv, of ?s p ?u]) simp_all
  moreover have "tag_set_change_resolution p x v s = Some (Some p, ?s)"
    using tag_change_unshared [OF p one live(2)] found by (simp add: d_def Let_def)
  moreover have "resolution d y = (if y = x then v else resolution (ts_data t) y)" for y
    using resolution_update [OF sorted l] x by (simp add: d_def)
  ultimately show thesis using that [of ?s ?u] by simp
qed

lemma refcnt_one: "\<not> 1 < c \<Longrightarrow> c \<noteq> 0 \<Longrightarrow> c = (1 :: u32)"
  by (auto simp: word_less_nat_alt word_unat_eq_iff not_less le_Suc_eq)

lemma tag_change_paths:
  assumes inv: "tag_inv s" and p: "tag_sets s p = Some t"
  shows "if x \<in> tid ` set (ts_data t)
    then \<exists>q s' u. tag_set_change_resolution p x v s = Some (Some q, s') \<and> tag_sets s' q = Some u \<and>
      (\<forall>y. resolution (ts_data u) y = (if y = x then v else resolution (ts_data t) y)) \<and> tag_inv s' \<and>
      (\<forall>r. r \<noteq> p \<and> r \<noteq> q \<longrightarrow> tag_sets s' r = tag_sets s r) \<and>
      (if ts_refcnt t > 1 then q \<noteq> p \<and> tag_sets s' p = Some (t\<lparr>ts_refcnt := ts_refcnt t - 1\<rparr>) else q = p)
    else \<exists>s'. tag_set_change_resolution p x v s = Some (None, s') \<and> tag_sets s' = tag_sets s \<and> next_ptr s \<le> next_ptr s'"
proof (cases "ts_refcnt t > 1")
  case False
  have live: "tag_ok t" "ts_refcnt t \<noteq> 0" using tag_inv_live [OF inv p] by auto
  with False have one: "ts_refcnt t = 1" by (intro refcnt_one)
  show ?thesis
  proof (cases "x \<in> tid ` set (ts_data t)")
    case True
    show ?thesis
      by (rule tag_change_found [OF inv p one True]) (use True False in fastforce)
  next
    case False
    with tag_change_unshared [OF p one live(1)] show ?thesis by simp
  qed
next
  case shared: True
  obtain s1 u where sets: "tag_sets s1 = (tag_sets s)(p \<mapsto> t\<lparr>ts_refcnt := ts_refcnt t - 1\<rparr>, next_ptr s \<mapsto> u)"
    and s1: "next_ptr s1 = Suc (next_ptr s)" "ts_data u = ts_data t" "ts_refcnt u = 1" "tag_ok u"
    and run: "tag_set_change_resolution p x v s =
      (case tag_set_change_resolution (next_ptr s) x v s1 of
         Some (None, _) \<Rightarrow> do {
           s2 \<leftarrow> tag_set_decref (next_ptr s) s1; s3 \<leftarrow> tag_set_incref p s2; Some (None, s3) }
       | r \<Rightarrow> r)"
    by (rule tag_change_shared [OF inv p shared])
  have q: "tag_sets s1 (next_ptr s) = Some u" "next_ptr s \<noteq> p" "next_ptr s \<noteq> 0"
    using sets tag_inv_live [OF inv p] by auto
  have inv1: "tag_inv s1" using tag_inv_shared [OF inv p shared sets] s1 by simp
  show ?thesis
  proof (cases "x \<in> tid ` set (ts_data t)")
    case True
    then have "x \<in> tid ` set (ts_data u)" using s1 by simp
    then obtain s' w where "tag_set_change_resolution (next_ptr s) x v s1 = Some (Some (next_ptr s), s')"
      "tag_sets s' = (tag_sets s1)(next_ptr s \<mapsto> w)" "tag_inv s'"
      "\<forall>y. resolution (ts_data w) y = (if y = x then v else resolution (ts_data u) y)"
      by (rule tag_change_found [OF inv1 q(1) s1(3)])
    with True shared run sets s1(2) q(2) show ?thesis by auto
  next
    case False
    then have "tag_set_change_resolution (next_ptr s) x v s1 = Some (None, s1)"
      using tag_change_unshared [OF q(1) s1(3,4)] s1(2) by simp
    with run sets q have "\<exists>s'. tag_set_change_resolution p x v s = Some (None, s') \<and>
        tag_sets s' = (tag_sets s)(next_ptr s := None) \<and> next_ptr s \<le> next_ptr s'"
      using s1(1,3) p by (simp add: tag_set_decref_def tag_set_incref_def tag_upd_def fun_eq_iff)
    with tag_inv_fresh [OF inv] False show ?thesis by (simp add: fun_upd_idem)
  qed
qed

text \<open>
  C16: Changing the resolution of a tag is copy on write. When the tag is in the set, the call
  returns a set in which only this resolution differs; a set with other holders keeps its data and
  loses one reference, and the result is a fresh set. When the tag is absent, the call returns
  null and every set is exactly as before, the reference counters included.
\<close>

theorem tag_set_change_resolution_cow:
  assumes inv: "tag_inv s" and p: "tag_sets s p = Some t"
  shows "if x \<in> tid ` set (ts_data t)
    then \<exists>q s' u. tag_set_change_resolution p x v s = Some (Some q, s') \<and> tag_sets s' q = Some u \<and>
      (\<forall>y. resolution (ts_data u) y = (if y = x then v else resolution (ts_data t) y)) \<and> tag_inv s' \<and>
      (\<forall>r. r \<noteq> p \<and> r \<noteq> q \<longrightarrow> tag_sets s' r = tag_sets s r) \<and>
      (if ts_refcnt t > 1 then q \<noteq> p \<and> tag_sets s' p = Some (t\<lparr>ts_refcnt := ts_refcnt t - 1\<rparr>) else q = p)
    else \<exists>s'. tag_set_change_resolution p x v s = Some (None, s') \<and> tag_sets s' = tag_sets s"
  using tag_change_paths [OF assms, of x v] by (auto split: if_splits)

text \<open>
  A set is built from an array of tags exactly when the array increases strictly; then it has
  the given tags with the given resolutions. Otherwise the result is null, the memory that was
  allocated is released and every live set is as before.
\<close>

theorem tag_set_from_array_correct:
  assumes "tag_inv s" and "length rs = length ts" and "ts \<noteq> []"
  shows "if sorted_wrt (<) ts
    then \<exists>p s' t. tag_set_from_array (Some ts) (Some rs) s = Some (Some p, s') \<and>
      tag_sets s' = (tag_sets s)(p \<mapsto> t) \<and> tag_sets s p = None \<and> tag_inv s' \<and>
      map tid (ts_data t) = ts \<and> map resol (ts_data t) = rs
    else \<exists>s'. tag_set_from_array (Some ts) (Some rs) s = Some (None, s') \<and> tag_sets s' = tag_sets s"
proof (cases "sorted_wrt (<) ts")
  case True
  have "map tid (array_items (zip ts rs)) = ts" "map resol (array_items (zip ts rs)) = rs"
    using assms(2) by (induction rs ts rule: list_induct2) (simp_all add: array_items_def)
  with True tag_inv_fresh [OF assms(1)] show ?thesis
    by - (rule from_array_increasing [OF assms True], auto)
next
  case False
  with from_array_not_increasing [OF assms(1,2)] show ?thesis by auto
qed

text \<open>A concrete memory for the examples: the initialised system with two sets.\<close>

definition tag_demo :: tag_state where
  "tag_demo = \<lparr>tag_sets = [
       0 \<mapsto> tag_set_empty_static\<lparr>ts_refcnt := 1\<rparr>,
       1 \<mapsto> \<lparr>ts_id = 1, ts_refcnt = 2, ts_hashcode = tag_hash [\<lparr>tid = 2, resol = 1\<rparr>, \<lparr>tid = 5, resol = 2\<rparr>],
            ts_data = [\<lparr>tid = 2, resol = 1\<rparr>, \<lparr>tid = 5, resol = 2\<rparr>]\<rparr>,
       2 \<mapsto> \<lparr>ts_id = 2, ts_refcnt = 1, ts_hashcode = tag_hash [\<lparr>tid = 5, resol = 4\<rparr>],
            ts_data = [\<lparr>tid = 5, resol = 4\<rparr>]\<rparr>],
     next_ptr = 3, next_set_idx = 3, tracked = []\<rparr>"

lemma tag_demo_ok: "tag_inv tag_demo" "tag_counters_low tag_demo"
  by (auto simp: tag_inv_def tag_counters_low_def tag_demo_def tag_ok_def tag_set_empty_static_def
      tag_hash_def split: if_splits)

theorem tag_set_merge_correct_witness:
  "\<exists>p s' t. tag_set_merge (Some 1) (Some 2) tag_demo = Some (Some p, s') \<and> tag_sets s' p = Some t \<and>
     resolution (ts_data t) 5 = 6"
proof -
  have "tag_sets tag_demo 1 = Some \<lparr>ts_id = 1, ts_refcnt = 2,
      ts_hashcode = tag_hash [\<lparr>tid = 2, resol = 1\<rparr>, \<lparr>tid = 5, resol = 2\<rparr>],
      ts_data = [\<lparr>tid = 2, resol = 1\<rparr>, \<lparr>tid = 5, resol = 2\<rparr>]\<rparr>"
    and "tag_sets tag_demo 2 = Some \<lparr>ts_id = 2, ts_refcnt = 1,
      ts_hashcode = tag_hash [\<lparr>tid = 5, resol = 4\<rparr>], ts_data = [\<lparr>tid = 5, resol = 4\<rparr>]\<rparr>"
    by (simp_all add: tag_demo_def)
  from tag_set_merge_correct [OF tag_demo_ok this] show ?thesis by fastforce
qed

theorem tag_set_change_resolution_cow_witness:
  "\<exists>q s' u. tag_set_change_resolution 1 5 9 tag_demo = Some (Some q, s') \<and> q \<noteq> 1 \<and>
     tag_sets s' q = Some u \<and> resolution (ts_data u) 5 = 9"
proof -
  have "tag_sets tag_demo 1 = Some \<lparr>ts_id = 1, ts_refcnt = 2,
      ts_hashcode = tag_hash [\<lparr>tid = 2, resol = 1\<rparr>, \<lparr>tid = 5, resol = 2\<rparr>],
      ts_data = [\<lparr>tid = 2, resol = 1\<rparr>, \<lparr>tid = 5, resol = 2\<rparr>]\<rparr>"
    by (simp add: tag_demo_def)
  from tag_set_change_resolution_cow [OF tag_demo_ok(1) this, of 5 9] show ?thesis by fastforce
qed

theorem tag_set_from_array_correct_witness:
  "\<exists>s'. tag_set_from_array (Some [4, 4]) (Some [1, 1]) tag_demo = Some (None, s') \<and>
     tag_sets s' = tag_sets tag_demo"
  using tag_set_from_array_correct [OF tag_demo_ok(1), of "[1, 1]" "[4, 4]"] by simp

lemma tag_step_inv: "tag_step s s' \<Longrightarrow> tag_inv s \<Longrightarrow> tag_inv s'"
proof (induction rule: tag_step.induct)
  case (from_array rs ts s r s')
  show ?case
  proof (cases "sorted_wrt (<) ts")
    case True
    with from_array show ?thesis by - (rule from_array_increasing [of s rs ts], auto)
  next
    case False
    obtain s2 where "tag_set_from_array (Some ts) (Some rs) s = Some (None, s2)"
      "tag_sets s2 = tag_sets s" "next_ptr s2 = Suc (next_ptr s)"
      using from_array_not_increasing [OF from_array(4,1) False] by blast
    with from_array(3,4) show ?thesis by (auto simp: tag_inv_def intro: less_SucI)
  qed
next
  case (empty s p s')
  then show ?case by (auto simp: tag_set_empty_def bind_eq_Some_conv intro: tag_incref_inv)
next
  case (fork s p r s')
  then show ?case
    by (auto simp: tag_set_fork_def bind_eq_Some_conv split: option.splits intro: tag_incref_inv)
next
  case (free p s s')
  then show ?case by (auto simp: tag_set_free_def split: option.splits intro: tag_decref_inv)
next
  case (merge s p q r s')
  show ?case
  proof (cases "p = None \<or> q = None")
    case True
    with merge show ?thesis by (auto simp: tag_set_merge_def split: option.splits)
  next
    case False
    then obtain f g where pq: "p = Some f" "q = Some g" by auto
    with merge(2) obtain tf tg where "tag_sets s f = Some tf" "tag_sets s g = Some tg"
      by (auto simp: tag_set_merge_def bind_eq_Some_conv)
    from tag_merge_paths [OF merge(3,1) this] merge(2) pq show ?thesis by auto
  qed
next
  case (change p x v s r s')
  then obtain t where p: "tag_sets s p = Some t"
    by (auto simp: tag_set_change_resolution_def bind_eq_Some_conv)
  show ?case
  proof (cases "x \<in> tid ` set (ts_data t)")
    case True
    with tag_change_paths [OF change(2) p, of x v] change(1) show ?thesis by auto
  next
    case False
    with tag_change_paths [OF change(2) p, of x v] change(1)
    have "tag_sets s' = tag_sets s" "next_ptr s \<le> next_ptr s'" by auto
    with change(2) show ?thesis by (auto simp: tag_inv_def intro: less_le_trans)
  qed
qed

text \<open>
  C13: From initialisation on, whatever sequence of calls a client makes, every live set is sorted
  by tag id, its incrementally maintained hash code is the one that
  \<^verbatim>\<open>tag_set_compute_hashcode\<close> computes from scratch, and its reference counter is positive.
\<close>

theorem tag_reachable_sound:
  assumes "tag_reachable s" and "tag_sets s p = Some t"
  shows "sorted_wrt (<) (map tid (ts_data t)) \<and>
    tag_set_hashcode t = tag_set_compute_hashcode t \<and> ts_refcnt t \<noteq> 0"
proof -
  from assms(1) have "tag_inv s"
  proof (induction rule: tag_reachable.induct)
    case (init s)
    then have "s = tag_boot\<lparr>tag_sets := [0 \<mapsto> tag_set_empty_static\<lparr>ts_refcnt := 1\<rparr>]\<rparr>"
      by (simp add: tag_set_init_def tag_set_incref_def tag_upd_def tag_boot_def tag_set_empty_static_def)
    then show ?case
      by (simp add: tag_inv_def tag_boot_def tag_set_empty_static_def tag_ok_def tag_hash_def)
  qed (rule tag_step_inv)
  from tag_inv_live [OF this assms(2)] show ?thesis
    by (simp add: tag_ok_def tag_sorted_def tag_set_hashcode_def compute_hashcode_tag_hash)
qed

theorem tag_reachable_sound_witness:
  "tag_set_compute_hashcode (tag_set_empty_static\<lparr>ts_refcnt := 1\<rparr>) =
   tag_set_hashcode (tag_set_empty_static\<lparr>ts_refcnt := 1\<rparr>)"
proof -
  let ?s = "tag_boot\<lparr>tag_sets := [0 \<mapsto> tag_set_empty_static\<lparr>ts_refcnt := 1\<rparr>]\<rparr>"
  have "tag_reachable ?s"
    by (rule tag_reachable.init)
      (simp add: tag_set_init_def tag_set_incref_def tag_upd_def tag_boot_def tag_set_empty_static_def)
  then show ?thesis by (rule tag_reachable_sound [THEN conjunct2, THEN conjunct1, symmetric, of _ 0]) simp
qed

subsection \<open>Joining many sets\<close>

text \<open>
  The contract of a join of resolutions, for the clients that merge tag sets one after another:
  what a fold of joins says about a key does not depend on the order or on repetition.
\<close>

locale resolution_join =
  fixes ok :: "'d \<Rightarrow> bool"
    and val :: "'d \<Rightarrow> 'k \<Rightarrow> 'w::len word"
    and join :: "'d \<Rightarrow> 'd \<Rightarrow> 'd"
  assumes ok_join: "ok a \<Longrightarrow> ok b \<Longrightarrow> ok (join a b)"
    and val_join: "ok a \<Longrightarrow> ok b \<Longrightarrow> val (join a b) k = val a k OR val b k"
begin

lemma bit_val_foldl:
  "ok a \<Longrightarrow> \<forall>d \<in> set ds. ok d \<Longrightarrow>
   bit (val (foldl join a ds) k) n \<longleftrightarrow> bit (val a k) n \<or> (\<exists>d \<in> set ds. bit (val d k) n)"
  by (induction ds arbitrary: a) (auto simp: ok_join val_join bit_simps)

lemma val_foldl_cong:
  assumes "ok a" and "\<forall>d \<in> set ds. ok d" and "set es = set ds"
  shows "val (foldl join a es) k = val (foldl join a ds) k"
  using assms by (intro bit_word_eqI) (simp add: bit_val_foldl)

end

text \<open>The data that the merge loop writes into a new set.\<close>

definition merged_data :: "tag_set_item list \<Rightarrow> tag_set_item list \<Rightarrow> tag_set_item list" where
  "merged_data f g = snd (merge_loop f g HASH_INIT [])"

interpretation tag_join: resolution_join tag_sorted resolution merged_data
  by unfold_locales (simp_all add: merged_data_def merge_loop_join join_items_sorted join_items_resolution)

text \<open>
  Merging a collection of sorted tag sets one after another into a first one gives every tag
  the same resolution, in whatever order they are merged and however often each is repeated.
\<close>

theorem tag_merge_order_irrelevant:
  assumes "tag_sorted a" and "\<forall>d \<in> set ds. tag_sorted d" and "set es = set ds"
  shows "resolution (foldl merged_data a es) t = resolution (foldl merged_data a ds) t"
  using assms by (rule tag_join.val_foldl_cong)

theorem tag_merge_order_irrelevant_witness:
  "resolution (foldl merged_data [] [[\<lparr>tid = 1, resol = 2\<rparr>], [\<lparr>tid = 1, resol = 4\<rparr>]]) 1 =
   resolution (foldl merged_data [] [[\<lparr>tid = 1, resol = 4\<rparr>], [\<lparr>tid = 1, resol = 2\<rparr>], [\<lparr>tid = 1, resol = 4\<rparr>]]) 1"
  by (rule tag_merge_order_irrelevant) auto

end
