(* ===== verification/Cesk_Set.thy ===== *)
theory Cesk_Set
  imports Store_Addr Tag_Set
begin

text \<open>
  Sets of store addresses (\<^verbatim>\<open>src/cesk/cesk_set.c\<close>). All sets live in one hash table keyed by set index
  and address. The node with the dummy address \<^verbatim>\<open>INFO_ADDR\<close> holds the metadata of a set; the other
  nodes are its elements and form a list through their data entries. Handles are shared: a set
  with several handles is duplicated before it is written.

  Nodes are records in a heap of pointers. A slot of the hash table is the list of the node
  pointers in its chain, head first; the list of a set is followed through the \<open>next\<close> and \<open>prev\<close>
  members as the code does. A handle is the set index stored in it; the operations that
  redirect their handle return the new index. An operation yields \<^const>\<open>None\<close> as a whole when it
  follows a dangling pointer. The loops over a list carry fuel, and the theorems show that the
  number of nodes ever allocated is enough. The metadata point to tag sets in the memory of
  \<open>Tag_Set\<close>.
\<close>

record set_info =
  info_size :: u32
  info_refcnt :: u32
  info_reloc :: u32
  info_hashcode :: u32
  info_tags :: "nat option"
  info_first :: "nat option"

datatype node_body = Data_Entry "nat option" "nat option" | Info_Entry set_info

record set_node =
  node_idx :: u32
  node_addr :: u32
  node_body :: node_body

record set_state =
  nodes :: "nat \<rightharpoonup> set_node"
  set_hash :: "nat htab"
  next_node :: nat
  next_idx :: u32
  set_tags :: tag_state
  empty_set_idx :: u32
  empty_set_metadata :: nat

definition CESK_SET_HASH_SIZE :: nat where
  "CESK_SET_HASH_SIZE = 100007"

definition CESK_SET_EMPTY_HASH :: u32 where
  "CESK_SET_EMPTY_HASH = 0x9c7cba63"

definition CESK_SET_INVALID :: u32 where
  "CESK_SET_INVALID = NOT 0"

abbreviation INFO_ADDR :: u32 where
  "INFO_ADDR \<equiv> CESK_STORE_ADDR_NULL"

definition cesk_set_idx_hashcode :: "u32 \<Rightarrow> u32 \<Rightarrow> u32" where
  "cesk_set_idx_hashcode hashidx addr =
     ((hashidx * MH_MULTIPLY) XOR ((addr AND 0xffff) * MH_MULTIPLY)) XOR drop_bit 16 addr"

definition set_slot :: "u32 \<Rightarrow> u32 \<Rightarrow> nat" where
  "set_slot i a = unat (cesk_set_idx_hashcode i a) mod CESK_SET_HASH_SIZE"

subsection \<open>Access to nodes\<close>

definition upd_node :: "nat \<Rightarrow> (set_node \<Rightarrow> set_node) \<Rightarrow> set_state \<Rightarrow> set_state option" where
  "upd_node p f s = do { n \<leftarrow> nodes s p; Some (s\<lparr>nodes := (nodes s)(p \<mapsto> f n)\<rparr>) }"

definition get_info :: "nat \<Rightarrow> set_state \<Rightarrow> set_info option" where
  "get_info p s = do { n \<leftarrow> nodes s p; case node_body n of Info_Entry i \<Rightarrow> Some i | _ \<Rightarrow> None }"

definition upd_info :: "nat \<Rightarrow> (set_info \<Rightarrow> set_info) \<Rightarrow> set_state \<Rightarrow> set_state option" where
  "upd_info p f s = do {
     n \<leftarrow> nodes s p;
     case node_body n of
       Info_Entry i \<Rightarrow> Some (s\<lparr>nodes := (nodes s)(p \<mapsto> n\<lparr>node_body := Info_Entry (f i)\<rparr>)\<rparr>)
     | _ \<Rightarrow> None }"

definition data_next :: "nat \<Rightarrow> set_state \<Rightarrow> nat option option" where
  "data_next p s = do { n \<leftarrow> nodes s p; case node_body n of Data_Entry nx _ \<Rightarrow> Some nx | _ \<Rightarrow> None }"

definition data_prev :: "nat \<Rightarrow> set_state \<Rightarrow> nat option option" where
  "data_prev p s = do { n \<leftarrow> nodes s p; case node_body n of Data_Entry _ pv \<Rightarrow> Some pv | _ \<Rightarrow> None }"

definition set_data_next :: "nat \<Rightarrow> nat option \<Rightarrow> set_state \<Rightarrow> set_state option" where
  "set_data_next p nx s = do {
     n \<leftarrow> nodes s p;
     case node_body n of
       Data_Entry _ pv \<Rightarrow> Some (s\<lparr>nodes := (nodes s)(p \<mapsto> n\<lparr>node_body := Data_Entry nx pv\<rparr>)\<rparr>)
     | _ \<Rightarrow> None }"

definition set_data_prev :: "nat \<Rightarrow> nat option \<Rightarrow> set_state \<Rightarrow> set_state option" where
  "set_data_prev p pv s = do {
     n \<leftarrow> nodes s p;
     case node_body n of
       Data_Entry nx _ \<Rightarrow> Some (s\<lparr>nodes := (nodes s)(p \<mapsto> n\<lparr>node_body := Data_Entry nx pv\<rparr>)\<rparr>)
     | _ \<Rightarrow> None }"

text \<open>Linking a node in front of a chain, and unlinking it.\<close>

definition chain_link :: "nat \<Rightarrow> u32 \<Rightarrow> u32 \<Rightarrow> set_state \<Rightarrow> set_state" where
  "chain_link p i a s = s\<lparr>set_hash := (set_hash s)(set_slot i a := p # set_hash s (set_slot i a))\<rparr>"

definition chain_unlink :: "nat \<Rightarrow> u32 \<Rightarrow> u32 \<Rightarrow> set_state \<Rightarrow> set_state" where
  "chain_unlink p i a s = s\<lparr>set_hash := (set_hash s)(set_slot i a := remove1 p (set_hash s (set_slot i a)))\<rparr>"

subsection \<open>The hash table\<close>

definition cesk_set_node_alloc :: "bool \<Rightarrow> u32 \<Rightarrow> u32 \<Rightarrow> set_node" where
  "cesk_set_node_alloc is_info i a =
     \<lparr>node_idx = i, node_addr = a,
      node_body = (if is_info
        then Info_Entry \<lparr>info_size = 0, info_refcnt = 0, info_reloc = 0, info_hashcode = 0,
                         info_tags = None, info_first = None\<rparr>
        else Data_Entry None None)\<rparr>"

definition cesk_set_hash_insert :: "u32 \<Rightarrow> u32 \<Rightarrow> set_state \<Rightarrow> nat \<times> set_state" where
  "cesk_set_hash_insert setidx addr s =
     (let p = next_node s;
          n = cesk_set_node_alloc (addr = CESK_STORE_ADDR_NULL) setidx addr
      in (p, chain_link p setidx addr
               (s\<lparr>nodes := (nodes s)(p \<mapsto> n), next_node := Suc p\<rparr>)))"

definition node_matches :: "set_state \<Rightarrow> u32 \<Rightarrow> u32 \<Rightarrow> nat \<Rightarrow> bool" where
  "node_matches s i a p = (case nodes s p of None \<Rightarrow> False | Some n \<Rightarrow> node_idx n = i \<and> node_addr n = a)"

definition cesk_set_hash_find :: "u32 \<Rightarrow> u32 \<Rightarrow> set_state \<Rightarrow> nat option" where
  "cesk_set_hash_find setidx addr s = find (node_matches s setidx addr) (set_hash s (set_slot setidx addr))"

definition cesk_set_idx_alloc :: "set_state \<Rightarrow> (u32 \<times> nat \<times> set_state) option" where
  "cesk_set_idx_alloc s = do {
     let (entry, s) = cesk_set_hash_insert (next_idx s) CESK_STORE_ADDR_NULL s;
     (t, ts) \<leftarrow> tag_set_empty (set_tags s);
     tset \<leftarrow> tag_sets ts t;
     s \<leftarrow> upd_info entry (\<lambda>i. i\<lparr>info_size := 0, info_refcnt := 0, info_first := None, info_tags := Some t,
            info_hashcode := CESK_SET_EMPTY_HASH XOR tag_set_hashcode tset\<rparr>) (s\<lparr>set_tags := ts\<rparr>);
     Some (next_idx s, entry, s\<lparr>next_idx := next_idx s + 1\<rparr>)
   }"

definition cesk_set_init :: "set_state \<Rightarrow> set_state option" where
  "cesk_set_init s = do {
     (i, entry, s) \<leftarrow> cesk_set_idx_alloc s;
     upd_info entry (\<lambda>e. e\<lparr>info_refcnt := info_refcnt e + 1\<rparr>)
       (s\<lparr>empty_set_idx := i, empty_set_metadata := entry\<rparr>)
   }"

definition cesk_set_fork :: "u32 option \<Rightarrow> set_state \<Rightarrow> (u32 option \<times> set_state) option" where
  "cesk_set_fork sour s =
     (case sour of
        None \<Rightarrow> Some (None, s)
      | Some i \<Rightarrow>
          (case cesk_set_hash_find i INFO_ADDR s of
             None \<Rightarrow> Some (None, s)
           | Some p \<Rightarrow> do {
               s \<leftarrow> upd_info p (\<lambda>e. e\<lparr>info_refcnt := info_refcnt e + 1\<rparr>) s;
               Some (Some i, s) }))"

definition cesk_set_empty_set :: "set_state \<Rightarrow> (u32 \<times> set_state) option" where
  "cesk_set_empty_set s = do {
     s \<leftarrow> upd_info (empty_set_metadata s) (\<lambda>e. e\<lparr>info_refcnt := info_refcnt e + 1\<rparr>) s;
     Some (empty_set_idx s, s) }"

definition cesk_set_size :: "u32 option \<Rightarrow> set_state \<Rightarrow> u32 option" where
  "cesk_set_size st s =
     (case st of
        None \<Rightarrow> Some 0
      | Some i \<Rightarrow>
          (case cesk_set_hash_find i INFO_ADDR s of
             None \<Rightarrow> Some 0
           | Some p \<Rightarrow> do { e \<leftarrow> get_info p s; Some (info_size e) }))"

text \<open>The loop of \<^verbatim>\<open>cesk_set_free\<close> that releases the elements.\<close>

fun free_elements :: "nat \<Rightarrow> nat option \<Rightarrow> set_state \<Rightarrow> set_state option" where
  "free_elements fuel None s = Some s"
| "free_elements 0 (Some p) s = None"
| "free_elements (Suc fuel) (Some p) s = do {
     n \<leftarrow> nodes s p;
     let s = chain_unlink p (node_idx n) (node_addr n) s;
     nx \<leftarrow> data_next p s;
     free_elements fuel nx (s\<lparr>nodes := (nodes s)(p := None)\<rparr>)
   }"

definition cesk_set_free :: "u32 option \<Rightarrow> set_state \<Rightarrow> set_state option" where
  "cesk_set_free st s =
     (case st of
        None \<Rightarrow> Some s
      | Some i \<Rightarrow>
          (case cesk_set_hash_find i INFO_ADDR s of
             None \<Rightarrow> Some s
           | Some p \<Rightarrow> do {
               s \<leftarrow> upd_info p (\<lambda>e. e\<lparr>info_refcnt := info_refcnt e - 1\<rparr>) s;
               e \<leftarrow> get_info p s;
               if info_refcnt e = 0
               then do {
                 s \<leftarrow> free_elements (next_node s) (info_first e) s;
                 n \<leftarrow> nodes s p;
                 let s = chain_unlink p (node_idx n) INFO_ADDR s;
                 ts \<leftarrow> tag_set_free (info_tags e) (set_tags s);
                 Some (s\<lparr>set_tags := ts, nodes := (nodes s)(p := None)\<rparr>)
               }
               else Some s
             }))"

text \<open>An iterator is the pointer to its next element.\<close>

definition cesk_set_iter_from_info_node :: "set_info \<Rightarrow> nat option" where
  "cesk_set_iter_from_info_node e = info_first e"

definition cesk_set_iter :: "u32 \<Rightarrow> set_state \<Rightarrow> nat option option" where
  "cesk_set_iter i s = do {
     p \<leftarrow> cesk_set_hash_find i INFO_ADDR s;
     e \<leftarrow> get_info p s;
     Some (cesk_set_iter_from_info_node e) }"

definition cesk_set_iter_next :: "nat option \<Rightarrow> set_state \<Rightarrow> (u32 \<times> nat option) option" where
  "cesk_set_iter_next iter s =
     (case iter of
        None \<Rightarrow> Some (CESK_STORE_ADDR_NULL, None)
      | Some p \<Rightarrow> do { n \<leftarrow> nodes s p; nx \<leftarrow> data_next p s; Some (node_addr n, nx) })"

text \<open>
  The loop of \<^verbatim>\<open>_cesk_set_duplicate\<close>: every element of the old list is inserted under the new index
  and pushed on the new list, and the former head of the new list gets its \<open>prev\<close> pointer.
\<close>

definition push_copy :: "u32 \<Rightarrow> nat \<Rightarrow> u32 \<Rightarrow> set_state \<Rightarrow> set_state option" where
  "push_copy new_idx new_info addr s = do {
     let (node, s) = cesk_set_hash_insert new_idx addr s;
     e \<leftarrow> get_info new_info s;
     s \<leftarrow> set_data_next node (info_first e) s;
     s \<leftarrow> (case info_first e of None \<Rightarrow> Some s | Some f \<Rightarrow> set_data_prev f (Some node) s);
     upd_info new_info (\<lambda>e. e\<lparr>info_first := Some node\<rparr>) s
   }"

fun copy_elements :: "nat \<Rightarrow> u32 \<Rightarrow> nat \<Rightarrow> nat option \<Rightarrow> set_state \<Rightarrow> set_state option" where
  "copy_elements fuel new_idx new_info None s = Some s"
| "copy_elements 0 new_idx new_info (Some p) s = None"
| "copy_elements (Suc fuel) new_idx new_info (Some p) s = do {
     n \<leftarrow> nodes s p;
     s \<leftarrow> push_copy new_idx new_info (node_addr n) s;
     nx \<leftarrow> data_next p s;
     copy_elements fuel new_idx new_info nx s
   }"

definition cesk_set_duplicate :: "nat \<Rightarrow> set_state \<Rightarrow> (u32 \<times> nat \<times> set_state) option" where
  "cesk_set_duplicate info s = do {
     (new_idx, new_info, s) \<leftarrow> cesk_set_idx_alloc s;
     e \<leftarrow> get_info info s;
     (t, ts) \<leftarrow> tag_set_fork (info_tags e) (set_tags s);
     s \<leftarrow> upd_info new_info (\<lambda>n. n\<lparr>info_size := info_size e, info_hashcode := info_hashcode e,
            info_reloc := info_reloc e, info_tags := t, info_refcnt := 1\<rparr>) (s\<lparr>set_tags := ts\<rparr>);
     s \<leftarrow> upd_info info (\<lambda>e. e\<lparr>info_refcnt := info_refcnt e - 1\<rparr>) s;
     s \<leftarrow> upd_info new_info (\<lambda>n. n\<lparr>info_first := None\<rparr>) s;
     s \<leftarrow> copy_elements (next_node s) new_idx new_info (info_first e) s;
     Some (new_idx, new_info, s)
   }"

text \<open>
  The result carries the index of the handle, which the function redirects, and the metadata
  node: \<^const>\<open>Inl\<close> stands for the null result.
\<close>

definition cesk_set_prepare_to_write :: "u32 \<Rightarrow> set_state \<Rightarrow> (unit + nat \<times> u32 \<times> set_state) option" where
  "cesk_set_prepare_to_write dest s =
     (case cesk_set_hash_find dest INFO_ADDR s of
        None \<Rightarrow> Some (Inl ())
      | Some info \<Rightarrow> do {
          e \<leftarrow> get_info info s;
          if info_refcnt e > 1
          then do { (i, p, s) \<leftarrow> cesk_set_duplicate info s; Some (Inr (p, i, s)) }
          else Some (Inr (info, dest, s))
        })"

text \<open>The insertion that the end of \<^verbatim>\<open>cesk_set_push\<close> and the loop of \<^verbatim>\<open>cesk_set_merge\<close> both spell out.\<close>

definition merge_element :: "u32 \<Rightarrow> nat \<Rightarrow> u32 \<Rightarrow> set_state \<Rightarrow> set_state option" where
  "merge_element d info_dst addr s =
     (if cesk_set_hash_find d addr s = None
      then do {
        let (node, s) = cesk_set_hash_insert d addr s;
        e \<leftarrow> get_info info_dst s;
        s \<leftarrow> set_data_next node (info_first e) s;
        upd_info info_dst (\<lambda>e. e\<lparr>info_first := Some node,
          info_hashcode := info_hashcode e XOR (addr * MH_MULTIPLY),
          info_size := info_size e + 1,
          info_reloc := (if CESK_STORE_ADDR_IS_RELOC addr then info_reloc e + 1 else info_reloc e)\<rparr>) s
      }
      else Some s)"

text \<open>
  The operations that return an \<^verbatim>\<open>int\<close> and may redirect their handle yield the return code, the
  index of the handle and the state.
\<close>

definition cesk_set_push :: "u32 option \<Rightarrow> u32 \<Rightarrow> set_state \<Rightarrow> (int \<times> u32 option \<times> set_state) option" where
  "cesk_set_push dest addr s =
     (case dest of
        None \<Rightarrow> Some (-1, dest, s)
      | Some d \<Rightarrow>
          if CESK_STORE_ADDR_NULL = addr then Some (-1, dest, s)
          else if CESK_SET_INVALID = d then Some (-1, dest, s)
          else do {
            r \<leftarrow> cesk_set_prepare_to_write d s;
            (case r of
               Inl _ \<Rightarrow> Some (-1, dest, s)
             | Inr (info, d, s) \<Rightarrow>
                 do { s \<leftarrow> merge_element d info addr s; Some (0, Some d, s) })
          })"

text \<open>The branch of \<^verbatim>\<open>cesk_set_modify\<close> for a target that is already an element.\<close>

definition modify_duplicate :: "nat \<Rightarrow> nat \<Rightarrow> u32 \<Rightarrow> set_state \<Rightarrow> set_state option" where
  "modify_duplicate info this from s = do {
     pv \<leftarrow> data_prev this s;
     nx \<leftarrow> data_next this s;
     s \<leftarrow> (case pv of
             Some q \<Rightarrow> set_data_next q nx s
           | None \<Rightarrow> upd_info info (\<lambda>e. e\<lparr>info_first := nx\<rparr>) s);
     s \<leftarrow> (case nx of Some q \<Rightarrow> set_data_prev q pv s | None \<Rightarrow> Some s);
     upd_info info (\<lambda>e. e\<lparr>info_hashcode := info_hashcode e XOR (from * MH_MULTIPLY)\<rparr>)
       (s\<lparr>nodes := (nodes s)(this := None)\<rparr>)
   }"

text \<open>The branch for a target that is not an element: the node moves to another chain.\<close>

definition modify_move :: "nat \<Rightarrow> u32 \<Rightarrow> nat \<Rightarrow> u32 \<Rightarrow> u32 \<Rightarrow> set_state \<Rightarrow> set_state option" where
  "modify_move info d this from to s = do {
     s \<leftarrow> upd_node this (\<lambda>n. n\<lparr>node_addr := to\<rparr>) s;
     let s = chain_link this d to s;
     upd_info info (\<lambda>e. e\<lparr>info_hashcode :=
        info_hashcode e XOR ((from * MH_MULTIPLY) XOR (to * MH_MULTIPLY))\<rparr>) s
   }"

definition cesk_set_modify ::
  "u32 option \<Rightarrow> u32 \<Rightarrow> u32 \<Rightarrow> set_state \<Rightarrow> (int \<times> u32 option \<times> set_state) option"
where
  "cesk_set_modify dest from to s =
     (if from = to then Some (0, dest, s)
      else case dest of
        None \<Rightarrow> Some (-1, dest, s)
      | Some d \<Rightarrow>
          if CESK_STORE_ADDR_NULL = from \<or> CESK_STORE_ADDR_NULL = to then Some (-1, dest, s)
          else if CESK_SET_INVALID = d then Some (-1, dest, s)
          else (case cesk_set_hash_find d INFO_ADDR s of
            None \<Rightarrow> Some (-1, dest, s)
          | Some info \<Rightarrow> do {
              e \<leftarrow> get_info info s;
              (d, info, s) \<leftarrow> (if info_refcnt e > 1 then cesk_set_duplicate info s else Some (d, info, s));
              (case cesk_set_hash_find d from s of
                 None \<Rightarrow> Some (0, Some d, s)
               | Some this \<Rightarrow> do {
                   let s = chain_unlink this d from s;
                   s \<leftarrow> (if cesk_set_hash_find d to s \<noteq> None
                         then modify_duplicate info this from s
                         else modify_move info d this from to s);
                   s \<leftarrow> (if CESK_STORE_ADDR_IS_RELOC from \<noteq> CESK_STORE_ADDR_IS_RELOC to
                         then upd_info info (\<lambda>e. e\<lparr>info_reloc :=
                                (if CESK_STORE_ADDR_IS_RELOC from then info_reloc e - 1
                                 else info_reloc e + 1)\<rparr>) s
                         else Some s);
                   Some (0, Some d, s)
                 })
            }))"

definition cesk_set_prepare_merge ::
  "u32 option \<Rightarrow> u32 option \<Rightarrow> set_state \<Rightarrow> (unit + nat \<times> nat \<times> u32 \<times> set_state) option"
where
  "cesk_set_prepare_merge dest sour s =
     (case (dest, sour) of
        (Some d, Some r) \<Rightarrow>
          if CESK_SET_INVALID = d \<or> CESK_SET_INVALID = r then Some (Inl ())
          else (case cesk_set_hash_find d INFO_ADDR s of
            None \<Rightarrow> Some (Inl ())
          | Some info_dst \<Rightarrow>
              (case cesk_set_hash_find r INFO_ADDR s of
                 None \<Rightarrow> Some (Inl ())
               | Some info_src \<Rightarrow> do {
                   e \<leftarrow> get_info info_dst s;
                   if info_refcnt e > 1
                   then do { (i, p, s) \<leftarrow> cesk_set_duplicate info_dst s; Some (Inr (p, info_src, i, s)) }
                   else Some (Inr (info_dst, info_src, d, s))
                 }))
      | _ \<Rightarrow> Some (Inl ()))"

text \<open>
  The last part of both merges: the hash code of the old tags is taken out, the tags are merged and
  the hash code of the new tags is put in. A null result of \<^verbatim>\<open>tag_set_merge\<close> ends with -1.
\<close>

definition merge_tag_sets ::
  "bool \<Rightarrow> nat \<Rightarrow> nat \<Rightarrow> set_state \<Rightarrow> (int \<times> set_state) option"
where
  "merge_tag_sets dst_first info_dst info_src s = do {
     ed \<leftarrow> get_info info_dst s;
     es \<leftarrow> get_info info_src s;
     td \<leftarrow> info_tags ed;
     old \<leftarrow> tag_sets (set_tags s) td;
     s \<leftarrow> upd_info info_dst (\<lambda>e. e\<lparr>info_hashcode := info_hashcode e XOR tag_set_hashcode old\<rparr>) s;
     (new_tags, ts) \<leftarrow> (if dst_first then tag_set_merge (info_tags ed) (info_tags es) (set_tags s)
                       else tag_set_merge (info_tags es) (info_tags ed) (set_tags s));
     let s = s\<lparr>set_tags := ts\<rparr>;
     (case new_tags of
        None \<Rightarrow> Some (-1, s)
      | Some t \<Rightarrow> do {
          ts \<leftarrow> tag_set_free (info_tags ed) (set_tags s);
          new \<leftarrow> tag_sets ts t;
          s \<leftarrow> upd_info info_dst (\<lambda>e. e\<lparr>info_tags := Some t,
                 info_hashcode := info_hashcode e XOR tag_set_hashcode new\<rparr>) (s\<lparr>set_tags := ts\<rparr>);
          Some (0, s)
        })
   }"

definition cesk_set_merge_tags ::
  "u32 option \<Rightarrow> u32 option \<Rightarrow> set_state \<Rightarrow> (int \<times> u32 option \<times> set_state) option"
where
  "cesk_set_merge_tags dest sour s = do {
     r \<leftarrow> cesk_set_prepare_merge dest sour s;
     (case r of
        Inl _ \<Rightarrow> Some (-1, dest, s)
      | Inr (info_dst, info_src, d, s) \<Rightarrow> do {
          (rc, s) \<leftarrow> merge_tag_sets True info_dst info_src s;
          Some (rc, Some d, s) })
   }"

definition cesk_set_get_tags :: "u32 option \<Rightarrow> set_state \<Rightarrow> nat option option" where
  "cesk_set_get_tags st s =
     (case st of
        None \<Rightarrow> Some None
      | Some i \<Rightarrow>
          (case cesk_set_hash_find i INFO_ADDR s of
             None \<Rightarrow> Some None
           | Some p \<Rightarrow> do { e \<leftarrow> get_info p s; Some (info_tags e) }))"

definition cesk_set_assign_tags ::
  "u32 option \<Rightarrow> nat option \<Rightarrow> set_state \<Rightarrow> (int \<times> u32 option \<times> set_state) option"
where
  "cesk_set_assign_tags st tags s =
     (case (st, tags) of
        (Some d, Some t) \<Rightarrow> do {
          r \<leftarrow> cesk_set_prepare_to_write d s;
          (case r of
             Inl _ \<Rightarrow> Some (-1, st, s)
           | Inr (info, d, s) \<Rightarrow> do {
               e \<leftarrow> get_info info s;
               ts \<leftarrow> tag_set_free (info_tags e) (set_tags s);
               s \<leftarrow> upd_info info (\<lambda>e. e\<lparr>info_tags := Some t\<rparr>) (s\<lparr>set_tags := ts\<rparr>);
               Some (0, Some d, s) })
        }
      | _ \<Rightarrow> Some (-1, st, s))"

fun merge_elements :: "nat \<Rightarrow> u32 \<Rightarrow> nat \<Rightarrow> nat option \<Rightarrow> set_state \<Rightarrow> set_state option" where
  "merge_elements fuel d info_dst None s = Some s"
| "merge_elements 0 d info_dst (Some p) s = None"
| "merge_elements (Suc fuel) d info_dst (Some p) s = do {
     n \<leftarrow> nodes s p;
     s \<leftarrow> merge_element d info_dst (node_addr n) s;
     nx \<leftarrow> data_next p s;
     merge_elements fuel d info_dst nx s
   }"

definition cesk_set_merge ::
  "u32 option \<Rightarrow> u32 option \<Rightarrow> set_state \<Rightarrow> (int \<times> u32 option \<times> set_state) option"
where
  "cesk_set_merge dest sour s = do {
     r \<leftarrow> cesk_set_prepare_merge dest sour s;
     (case r of
        Inl _ \<Rightarrow> Some (-1, dest, s)
      | Inr (info_dst, info_src, d, s) \<Rightarrow> do {
          es \<leftarrow> get_info info_src s;
          s \<leftarrow> merge_elements (next_node s) d info_dst (info_first es) s;
          (rc, s) \<leftarrow> merge_tag_sets False info_dst info_src s;
          Some (rc, Some d, s) })
   }"

definition cesk_set_contain :: "u32 option \<Rightarrow> u32 \<Rightarrow> set_state \<Rightarrow> bool" where
  "cesk_set_contain st addr s =
     (case st of
        None \<Rightarrow> False
      | Some i \<Rightarrow> addr \<noteq> CESK_STORE_ADDR_NULL \<and> cesk_set_hash_find i addr s \<noteq> None)"

definition cesk_set_hashcode :: "u32 \<Rightarrow> set_state \<Rightarrow> u32 option" where
  "cesk_set_hashcode i s =
     (case cesk_set_hash_find i INFO_ADDR s of
        None \<Rightarrow> Some 0
      | Some p \<Rightarrow> do { e \<leftarrow> get_info p s; Some (info_hashcode e) })"

text \<open>
  The two loops that drive an iterator stop at the address that \<^verbatim>\<open>cesk_set_iter_next\<close> returns at
  the end of the list.
\<close>

fun all_contained :: "nat \<Rightarrow> nat option \<Rightarrow> u32 \<Rightarrow> set_state \<Rightarrow> bool option" where
  "all_contained 0 iter second s = None"
| "all_contained (Suc fuel) iter second s = do {
     (addr, iter) \<leftarrow> cesk_set_iter_next iter s;
     if addr = CESK_STORE_ADDR_NULL then Some True
     else if \<not> cesk_set_contain (Some second) addr s then Some False
     else all_contained fuel iter second s
   }"

definition cesk_set_equal :: "u32 option \<Rightarrow> u32 option \<Rightarrow> set_state \<Rightarrow> int option" where
  "cesk_set_equal first second s =
     (case (first, second) of
        (Some f, Some g) \<Rightarrow> do {
          hf \<leftarrow> cesk_set_hashcode f s;
          hg \<leftarrow> cesk_set_hashcode g s;
          zf \<leftarrow> cesk_set_size first s;
          zg \<leftarrow> cesk_set_size second s;
          if hf \<noteq> hg then Some 0
          else if zf \<noteq> zg then Some 0
          else (case (cesk_set_hash_find f INFO_ADDR s, cesk_set_hash_find g INFO_ADDR s) of
            (Some pf, Some pg) \<Rightarrow> do {
              ef \<leftarrow> get_info pf s;
              eg \<leftarrow> get_info pg s;
              let rc = tag_set_equal (Option.bind (info_tags ef) (tag_sets (set_tags s)))
                                     (Option.bind (info_tags eg) (tag_sets (set_tags s)));
              if rc < 0 then Some (-1)
              else if rc = 0 then Some 0
              else do {
                b \<leftarrow> all_contained (Suc (next_node s)) (cesk_set_iter_from_info_node ef) g s;
                Some (if b then 1 else 0)
              }
            }
          | _ \<Rightarrow> Some (-1))
        }
      | (None, None) \<Rightarrow> Some 1
      | _ \<Rightarrow> Some 0)"

fun hash_elements :: "nat \<Rightarrow> nat option \<Rightarrow> u32 \<Rightarrow> set_state \<Rightarrow> u32 option" where
  "hash_elements 0 iter ret s = None"
| "hash_elements (Suc fuel) iter ret s = do {
     (this, iter) \<leftarrow> cesk_set_iter_next iter s;
     if this = CESK_STORE_ADDR_NULL then Some ret
     else hash_elements fuel iter (ret XOR (this * MH_MULTIPLY)) s
   }"

definition cesk_set_compute_hashcode :: "u32 option \<Rightarrow> set_state \<Rightarrow> u32 option" where
  "cesk_set_compute_hashcode st s =
     (case st of
        None \<Rightarrow> Some 0
      | Some i \<Rightarrow>
          (case cesk_set_hash_find i INFO_ADDR s of
             None \<Rightarrow> Some 0
           | Some p \<Rightarrow> do {
               e \<leftarrow> get_info p s;
               ret \<leftarrow> hash_elements (Suc (next_node s)) (cesk_set_iter_from_info_node e) CESK_SET_EMPTY_HASH s;
               t \<leftarrow> Option.bind (info_tags e) (tag_sets (set_tags s));
               Some (ret XOR tag_set_hashcode t)
             }))"

definition cesk_set_get_reloc :: "u32 \<Rightarrow> set_state \<Rightarrow> u32 option" where
  "cesk_set_get_reloc i s =
     (case cesk_set_hash_find i INFO_ADDR s of
        None \<Rightarrow> Some 0
      | Some p \<Rightarrow> do { e \<leftarrow> get_info p s; Some (info_reloc e) })"

subsection \<open>Views of the heap\<close>

text \<open>
  The invariant speaks about the heap through three views: the key of a node, the successor of a
  data node and the metadata of an info node. A primitive update changes one view at one place.
\<close>

definition node_key :: "set_state \<Rightarrow> nat \<Rightarrow> (u32 \<times> u32) option" where
  "node_key s q = map_option (\<lambda>n. (node_idx n, node_addr n)) (nodes s q)"

definition slot_of :: "u32 \<times> u32 \<Rightarrow> nat" where
  "slot_of k = set_slot (fst k) (snd k)"

lemma get_info_Some: "get_info p s = Some e \<longleftrightarrow> (\<exists>n. nodes s p = Some n \<and> node_body n = Info_Entry e)"
  by (auto simp: get_info_def split: Option.bind_splits node_body.splits)

lemma data_next_Some:
  "data_next p s = Some nx \<longleftrightarrow> (\<exists>n pv. nodes s p = Some n \<and> node_body n = Data_Entry nx pv)"
  by (auto simp: data_next_def split: Option.bind_splits node_body.splits)

lemma upd_info_eq:
  assumes "get_info p s = Some e"
  obtains s' where "upd_info p f s = Some s'"
    and "\<And>q. node_key s' q = node_key s q"
    and "\<And>q. data_next q s' = data_next q s"
    and "\<And>q. get_info q s' = (if q = p then Some (f e) else get_info q s)"
    and "set_hash s' = set_hash s" and "next_node s' = next_node s" and "next_idx s' = next_idx s"
    and "set_tags s' = set_tags s" and "empty_set_idx s' = empty_set_idx s"
    and "empty_set_metadata s' = empty_set_metadata s"
proof -
  obtain n where n: "nodes s p = Some n" "node_body n = Info_Entry e"
    using assms by (auto simp: get_info_Some)
  let ?s = "s\<lparr>nodes := (nodes s)(p \<mapsto> n\<lparr>node_body := Info_Entry (f e)\<rparr>)\<rparr>"
  have "upd_info p f s = Some ?s" using n by (simp add: upd_info_def)
  then show thesis
    by (rule that) (use n in \<open>auto simp: node_key_def data_next_def get_info_def\<close>)
qed

lemma set_data_next_eq:
  assumes "data_next p s = Some nx0"
  obtains s' where "set_data_next p nx s = Some s'"
    and "\<And>q. node_key s' q = node_key s q"
    and "\<And>q. data_next q s' = (if q = p then Some nx else data_next q s)"
    and "\<And>q. get_info q s' = get_info q s"
    and "set_hash s' = set_hash s" and "next_node s' = next_node s" and "next_idx s' = next_idx s"
    and "set_tags s' = set_tags s" and "empty_set_idx s' = empty_set_idx s"
    and "empty_set_metadata s' = empty_set_metadata s"
proof -
  obtain n pv where n: "nodes s p = Some n" "node_body n = Data_Entry nx0 pv"
    using assms by (auto simp: data_next_Some)
  let ?s = "s\<lparr>nodes := (nodes s)(p \<mapsto> n\<lparr>node_body := Data_Entry nx pv\<rparr>)\<rparr>"
  have "set_data_next p nx s = Some ?s" using n by (simp add: set_data_next_def)
  then show thesis
    by (rule that) (use n in \<open>auto simp: node_key_def data_next_def get_info_def\<close>)
qed

lemma set_data_prev_eq:
  assumes "data_next p s = Some nx0"
  obtains s' where "set_data_prev p pv s = Some s'"
    and "\<And>q. node_key s' q = node_key s q"
    and "\<And>q. data_next q s' = data_next q s"
    and "\<And>q. get_info q s' = get_info q s"
    and "set_hash s' = set_hash s" and "next_node s' = next_node s" and "next_idx s' = next_idx s"
    and "set_tags s' = set_tags s" and "empty_set_idx s' = empty_set_idx s"
    and "empty_set_metadata s' = empty_set_metadata s"
proof -
  obtain n pv0 where n: "nodes s p = Some n" "node_body n = Data_Entry nx0 pv0"
    using assms by (auto simp: data_next_Some)
  let ?s = "s\<lparr>nodes := (nodes s)(p \<mapsto> n\<lparr>node_body := Data_Entry nx0 pv\<rparr>)\<rparr>"
  have "set_data_prev p pv s = Some ?s" using n by (simp add: set_data_prev_def)
  then show thesis
    by (rule that) (use n in \<open>auto simp: node_key_def data_next_def get_info_def\<close>)
qed

lemma hash_insert_eq:
  obtains s' where "cesk_set_hash_insert i a s = (next_node s, s')"
    and "\<And>q. node_key s' q = (if q = next_node s then Some (i, a) else node_key s q)"
    and "\<And>q. data_next q s' = (if q = next_node s then (if a = INFO_ADDR then None else Some None) else data_next q s)"
    and "\<And>q. q \<noteq> next_node s \<Longrightarrow> get_info q s' = get_info q s"
    and "get_info (next_node s) s' \<noteq> None \<longleftrightarrow> a = INFO_ADDR"
    and "set_hash s' = (set_hash s)(slot_of (i, a) := next_node s # set_hash s (slot_of (i, a)))"
    and "next_node s' = Suc (next_node s)" and "next_idx s' = next_idx s"
    and "set_tags s' = set_tags s" and "empty_set_idx s' = empty_set_idx s"
    and "empty_set_metadata s' = empty_set_metadata s"
  by (auto simp: cesk_set_hash_insert_def Let_def chain_link_def node_key_def data_next_def get_info_def
      cesk_set_node_alloc_def slot_of_def)

subsection \<open>The invariant\<close>

text \<open>The list that starts at a pointer, for a successor function.\<close>

primrec dpath :: "(nat \<Rightarrow> nat option option) \<Rightarrow> nat option \<Rightarrow> nat list \<Rightarrow> bool" where
  "dpath f q [] \<longleftrightarrow> q = None"
| "dpath f q (p # ps) \<longleftrightarrow> q = Some p \<and> (\<exists>nx. f p = Some nx \<and> dpath f nx ps)"

lemma dpath_cong: "(\<And>p. p \<in> set ps \<Longrightarrow> f p = g p) \<Longrightarrow> dpath f q ps = dpath g q ps"
  by (induction ps arbitrary: q) auto

lemma dpath_unique: "dpath f q ps \<Longrightarrow> dpath f q qs \<Longrightarrow> ps = qs"
proof (induction ps arbitrary: q qs)
  case (Cons p ps)
  then show ?case by (cases qs) auto
next
  case Nil
  then show ?case by (cases qs) auto
qed

text \<open>
  The structure of the table: every chain holds the nodes of its slot once, keys are unique, every
  set has a metadata node, and the list of a set runs through all its data nodes once.
\<close>

definition set_elem_nodes :: "set_state \<Rightarrow> u32 \<Rightarrow> nat set" where
  "set_elem_nodes s i = {q. \<exists>a. a \<noteq> INFO_ADDR \<and> node_key s q = Some (i, a)}"

definition table_inv :: "set_state \<Rightarrow> bool" where
  "table_inv s \<longleftrightarrow>
     (\<forall>h. distinct (set_hash s h) \<and>
          set (set_hash s h) = {q. \<exists>k. node_key s q = Some k \<and> slot_of k = h}) \<and>
     (\<forall>q r k. node_key s q = Some k \<and> node_key s r = Some k \<longrightarrow> q = r) \<and>
     (\<forall>q i a. node_key s q = Some (i, a) \<longrightarrow> q < next_node s \<and> i < next_idx s) \<and>
     (\<forall>q i a. node_key s q = Some (i, a) \<longrightarrow>
        (get_info q s \<noteq> None \<longleftrightarrow> a = INFO_ADDR) \<and> (data_next q s \<noteq> None \<longleftrightarrow> a \<noteq> INFO_ADDR)) \<and>
     (\<forall>q i a. node_key s q = Some (i, a) \<longrightarrow> (\<exists>r. node_key s r = Some (i, INFO_ADDR)))"

definition lists_inv :: "set_state \<Rightarrow> bool" where
  "lists_inv s \<longleftrightarrow>
     (\<forall>r i e. node_key s r = Some (i, INFO_ADDR) \<and> get_info r s = Some e \<longrightarrow>
        (\<exists>ps. dpath (\<lambda>q. data_next q s) (info_first e) ps \<and> distinct ps \<and> set ps = set_elem_nodes s i))"

definition struct_inv :: "set_state \<Rightarrow> bool" where
  "struct_inv s \<longleftrightarrow> table_inv s \<and> lists_inv s"

lemma table_invD:
  assumes "table_inv s"
  shows "distinct (set_hash s h)"
    and "set (set_hash s h) = {q. \<exists>k. node_key s q = Some k \<and> slot_of k = h}"
    and "node_key s q = Some k \<Longrightarrow> node_key s r = Some k \<Longrightarrow> q = r"
    and "node_key s q = Some (i, a) \<Longrightarrow> q < next_node s"
    and "node_key s q = Some (i, a) \<Longrightarrow> i < next_idx s"
    and "node_key s q = Some (i, a) \<Longrightarrow> get_info q s \<noteq> None \<longleftrightarrow> a = INFO_ADDR"
    and "node_key s q = Some (i, a) \<Longrightarrow> data_next q s \<noteq> None \<longleftrightarrow> a \<noteq> INFO_ADDR"
    and "node_key s q = Some (i, a) \<Longrightarrow> \<exists>r. node_key s r = Some (i, INFO_ADDR)"
  using assms unfolding table_inv_def by blast+

text \<open>A lookup finds the node with the key.\<close>

lemma find_None_general: "find P xs = None \<longleftrightarrow> (\<forall>x \<in> set xs. \<not> P x)"
  by (induction xs) auto

lemma node_matches_key: "node_matches s i a p \<longleftrightarrow> node_key s p = Some (i, a)"
  by (auto simp: node_matches_def node_key_def split: option.split)

lemma hash_find_iff:
  assumes "table_inv s"
  shows "cesk_set_hash_find i a s = Some p \<longleftrightarrow> node_key s p = Some (i, a)"
proof
  assume "cesk_set_hash_find i a s = Some p"
  then show "node_key s p = Some (i, a)"
    unfolding cesk_set_hash_find_def by (auto dest!: find_SomeD simp: node_matches_key)
next
  assume p: "node_key s p = Some (i, a)"
  then have "p \<in> set (set_hash s (set_slot i a))"
    using table_invD(2) [OF assms] by (auto simp: slot_of_def)
  with p have "find (node_matches s i a) (set_hash s (set_slot i a)) \<noteq> None"
    by (auto simp: find_None_general node_matches_key)
  then obtain q where q: "find (node_matches s i a) (set_hash s (set_slot i a)) = Some q" by auto
  then have "node_key s q = Some (i, a)" by (auto dest!: find_SomeD simp: node_matches_key)
  with p q show "cesk_set_hash_find i a s = Some p"
    using table_invD(3) [OF assms] by (simp add: cesk_set_hash_find_def)
qed

lemma hash_find_None:
  assumes "table_inv s"
  shows "cesk_set_hash_find i a s = None \<longleftrightarrow> (\<forall>p. node_key s p \<noteq> Some (i, a))"
  using hash_find_iff [OF assms] by (metis not_None_eq)

lemma table_inv_fresh: "table_inv s \<Longrightarrow> node_key s (next_node s) = None"
  using table_invD(4) [of s "next_node s"] by (cases "node_key s (next_node s)") auto

lemma table_inv_insert:
  assumes inv: "table_inv s"
    and key: "\<And>q. node_key s' q = (if q = next_node s then Some (i, a) else node_key s q)"
    and hash: "set_hash s' = (set_hash s)(slot_of (i, a) := next_node s # set_hash s (slot_of (i, a)))"
    and nxt: "next_node s' = Suc (next_node s)" "next_idx s \<le> next_idx s'" "i < next_idx s'"
    and new: "\<And>q. node_key s q \<noteq> Some (i, a)"
    and typing: "get_info (next_node s) s' \<noteq> None \<longleftrightarrow> a = INFO_ADDR"
      "data_next (next_node s) s' \<noteq> None \<longleftrightarrow> a \<noteq> INFO_ADDR"
    and frame: "\<And>q. q \<noteq> next_node s \<Longrightarrow> get_info q s' = None \<longleftrightarrow> get_info q s = None"
      "\<And>q. q \<noteq> next_node s \<Longrightarrow> data_next q s' = None \<longleftrightarrow> data_next q s = None"
    and info: "a \<noteq> INFO_ADDR \<Longrightarrow> \<exists>r. node_key s r = Some (i, INFO_ADDR)"
  shows "table_inv s'"
  unfolding table_inv_def
proof (intro conjI allI impI)
  note D = table_invD [OF inv]
  have fresh: "node_key s (next_node s) = None" by (rule table_inv_fresh [OF inv])
  fix h
  show "distinct (set_hash s' h)" using D(1,2) fresh hash by auto
  show "set (set_hash s' h) = {q. \<exists>k. node_key s' q = Some k \<and> slot_of k = h}"
    using D(2) [of h] D(2) [of "slot_of (i, a)"] fresh by (auto simp: hash key split: if_splits)
next
  fix q r k assume "node_key s' q = Some k \<and> node_key s' r = Some k"
  then show "q = r" using table_invD(3) [OF inv] new by (auto simp: key split: if_splits)
next
  fix q j b assume "node_key s' q = Some (j, b)"
  then have q: "q = next_node s \<and> j = i \<and> b = a \<or> q \<noteq> next_node s \<and> node_key s q = Some (j, b)"
    by (auto simp: key split: if_splits)
  note D = table_invD(4-8) [OF inv, of q j b]
  show "q < next_node s'" "j < next_idx s'" using q D(1,2) nxt by (auto intro: less_le_trans)
  show "get_info q s' \<noteq> None \<longleftrightarrow> b = INFO_ADDR" "data_next q s' \<noteq> None \<longleftrightarrow> b \<noteq> INFO_ADDR"
    using q typing frame(1) [of q] frame(2) [of q] D(3,4) by auto
  show "\<exists>r. node_key s' r = Some (j, INFO_ADDR)"
  proof (cases "q = next_node s")
    case True
    show ?thesis
    proof (cases "a = INFO_ADDR")
      case True
      with q \<open>q = next_node s\<close> show ?thesis by (intro exI [of _ "next_node s"]) (auto simp: key)
    next
      case False
      with info obtain r where "node_key s r = Some (i, INFO_ADDR)" by blast
      with True q table_inv_fresh [OF inv] show ?thesis by (intro exI [of _ r]) (auto simp: key)
    qed
  next
    case False
    with q D(5) obtain r where "node_key s r = Some (j, INFO_ADDR)" by auto
    with table_inv_fresh [OF inv] show ?thesis by (intro exI [of _ r]) (auto simp: key)
  qed
qed

lemma table_inv_cong:
  assumes "table_inv s" and "\<And>q. node_key s' q = node_key s q" and "set_hash s' = set_hash s"
    and "next_node s' = next_node s" and "next_idx s' = next_idx s"
    and "\<And>q. get_info q s' = None \<longleftrightarrow> get_info q s = None"
    and "\<And>q. data_next q s' = None \<longleftrightarrow> data_next q s = None"
  shows "table_inv s'"
  using assms unfolding table_inv_def by simp

lemma lists_invD:
  "lists_inv s \<Longrightarrow> node_key s r = Some (i, INFO_ADDR) \<Longrightarrow> get_info r s = Some e \<Longrightarrow>
   \<exists>ps. dpath (\<lambda>q. data_next q s) (info_first e) ps \<and> distinct ps \<and> set ps = set_elem_nodes s i"
  by (simp add: lists_inv_def)

text \<open>A new data node in front of the list of set \<open>i\<close>; the other lists stay.\<close>

lemma lists_inv_push:
  assumes tab: "table_inv s" and inv: "lists_inv s"
    and key: "\<And>q. node_key s' q = (if q = next_node s then Some (i, a) else node_key s q)"
    and a: "a \<noteq> INFO_ADDR"
    and succ: "\<And>q. data_next q s' = (if q = next_node s then Some (info_first e) else data_next q s)"
    and r: "node_key s r = Some (i, INFO_ADDR)" "get_info r s = Some e"
    and r': "get_info r s' = Some e'" "info_first e' = Some (next_node s)"
    and info: "\<And>q. q \<noteq> r \<Longrightarrow> get_info q s' = get_info q s"
  shows "lists_inv s'"
  unfolding lists_inv_def
proof (intro allI impI)
  fix q j f assume q: "node_key s' q = Some (j, INFO_ADDR) \<and> get_info q s' = Some f"
  have fresh: "node_key s (next_node s) = None" by (rule table_inv_fresh [OF tab])
  have old: "node_key s q = Some (j, INFO_ADDR)" using q a by (auto simp: key split: if_splits)
  have elems: "set_elem_nodes s' j = (if j = i then insert (next_node s) (set_elem_nodes s j) else set_elem_nodes s j)"
    using a fresh by (auto simp: set_elem_nodes_def key)
  have out: "next_node s \<notin> set_elem_nodes s k" for k using fresh by (simp add: set_elem_nodes_def)
  have keep: "dpath (\<lambda>q. data_next q s') x ps = dpath (\<lambda>q. data_next q s) x ps"
    if "set ps = set_elem_nodes s k" for x ps k
    using that out by (intro dpath_cong) (auto simp: succ)
  show "\<exists>ps. dpath (\<lambda>q. data_next q s') (info_first f) ps \<and> distinct ps \<and> set ps = set_elem_nodes s' j"
  proof (cases "q = r")
    case True
    then have ji: "j = i" "f = e'" using old r(1) q r' by auto
    obtain ps where ps: "dpath (\<lambda>q. data_next q s) (info_first e) ps" "distinct ps" "set ps = set_elem_nodes s i"
      using lists_invD [OF inv r] by blast
    then have "dpath (\<lambda>q. data_next q s') (info_first f) (next_node s # ps)"
      using ji r' keep [OF ps(3)] by (simp add: succ)
    moreover have "distinct (next_node s # ps)" "set (next_node s # ps) = set_elem_nodes s' j"
      using ps out ji elems by auto
    ultimately show ?thesis by blast
  next
    case False
    then have "get_info q s = Some f" "j \<noteq> i"
      using q info table_invD(3) [OF tab old] r(1) by auto
    with lists_invD [OF inv old] keep elems show ?thesis by auto
  qed
qed

subsection \<open>The metadata\<close>

definition addrs_of :: "set_state \<Rightarrow> nat list \<Rightarrow> u32 list" where
  "addrs_of s ps = map (\<lambda>q. snd (the (node_key s q))) ps"

definition tag_hash_at :: "tag_state \<Rightarrow> nat option \<Rightarrow> u32" where
  "tag_hash_at ts t = (case Option.bind t (tag_sets ts) of None \<Rightarrow> 0 | Some x \<Rightarrow> ts_hashcode x)"

text \<open>Size, number of relocated addresses and hash code are those of the elements and the tags.\<close>

definition counts_ok :: "tag_state \<Rightarrow> set_info \<Rightarrow> u32 list \<Rightarrow> bool" where
  "counts_ok ts e as \<longleftrightarrow>
     info_size e = of_nat (length as) \<and>
     info_reloc e = of_nat (length (filter CESK_STORE_ADDR_IS_RELOC as)) \<and>
     info_hashcode e = (CESK_SET_EMPTY_HASH XOR xor_list (map (\<lambda>a. a * MH_MULTIPLY) as)) XOR
                       tag_hash_at ts (info_tags e)"

definition info_inv :: "set_state \<Rightarrow> u32 \<Rightarrow> set_info \<Rightarrow> bool" where
  "info_inv s i e \<longleftrightarrow>
     (\<forall>ps. dpath (\<lambda>q. data_next q s) (info_first e) ps \<longrightarrow> counts_ok (set_tags s) e (addrs_of s ps)) \<and>
     (\<exists>t x. info_tags e = Some t \<and> tag_sets (set_tags s) t = Some x)"

definition set_inv :: "set_state \<Rightarrow> bool" where
  "set_inv s \<longleftrightarrow> table_inv s \<and> lists_inv s \<and> tag_inv (set_tags s) \<and>
     (\<forall>r i e. node_key s r = Some (i, INFO_ADDR) \<and> get_info r s = Some e \<longrightarrow> info_inv s i e)"

text \<open>The elements of a set, the abstract value of a handle.\<close>

definition set_elems :: "set_state \<Rightarrow> u32 \<Rightarrow> u32 set" where
  "set_elems s i = {a. a \<noteq> INFO_ADDR \<and> (\<exists>q. node_key s q = Some (i, a))}"

lemma set_elems_find:
  "table_inv s \<Longrightarrow> a \<in> set_elems s i \<longleftrightarrow> a \<noteq> INFO_ADDR \<and> cesk_set_hash_find i a s \<noteq> None"
  by (simp add: set_elems_def hash_find_None)

lemma set_elems_insert:
  assumes key: "\<And>q. node_key s' q = (if q = n then Some (d, a) else node_key s q)"
    and "node_key s n = None" and "a \<noteq> INFO_ADDR"
  shows "set_elems s' i = (if i = d then insert a (set_elems s i) else set_elems s i)"
proof -
  have "(\<exists>q. node_key s' q = Some (i, x)) \<longleftrightarrow> i = d \<and> x = a \<or> (\<exists>q. node_key s q = Some (i, x))" for x
    by (metis assms(2) key option.distinct(1) option.inject prod.inject)
  then show ?thesis using assms(3) by (auto simp: set_elems_def)
qed

lemma set_elems_path:
  assumes "set ps = set_elem_nodes s i"
  shows "set (addrs_of s ps) = set_elems s i"
  using assms by (force simp: addrs_of_def set_elem_nodes_def set_elems_def image_iff)

lemma addrs_of_cong: "(\<And>q. q \<in> set ps \<Longrightarrow> node_key s' q = node_key s q) \<Longrightarrow> addrs_of s' ps = addrs_of s ps"
  by (simp add: addrs_of_def)

lemma live_handle:
  assumes "table_inv s" and "node_key s r = Some (i, INFO_ADDR)"
  obtains e where "get_info r s = Some e"
  using table_invD(6) [OF assms(1), of r i INFO_ADDR] assms(2) by auto

subsection \<open>Inserting an element\<close>

lemma merge_element_present:
  assumes "table_inv s" and "addr \<in> set_elems s d"
  shows "merge_element d r addr s = Some s"
  using assms set_elems_find [OF assms(1), of addr d] by (auto simp: merge_element_def)

lemma merge_element_absent:
  assumes tab: "table_inv s" and r: "node_key s r = Some (d, INFO_ADDR)" "get_info r s = Some e"
    and a: "addr \<noteq> INFO_ADDR" "addr \<notin> set_elems s d"
  obtains s' where "merge_element d r addr s = Some s'"
    and "\<And>q. node_key s' q = (if q = next_node s then Some (d, addr) else node_key s q)"
    and "\<And>q. data_next q s' = (if q = next_node s then Some (info_first e) else data_next q s)"
    and "\<And>q. q \<noteq> r \<Longrightarrow> get_info q s' = get_info q s"
    and "get_info r s' = Some (e\<lparr>info_first := Some (next_node s),
          info_hashcode := info_hashcode e XOR (addr * MH_MULTIPLY),
          info_size := info_size e + 1,
          info_reloc := (if CESK_STORE_ADDR_IS_RELOC addr then info_reloc e + 1 else info_reloc e)\<rparr>)"
    and "set_hash s' = (set_hash s)(slot_of (d, addr) := next_node s # set_hash s (slot_of (d, addr)))"
    and "next_node s' = Suc (next_node s)" and "next_idx s' = next_idx s"
    and "set_tags s' = set_tags s" and "empty_set_idx s' = empty_set_idx s"
    and "empty_set_metadata s' = empty_set_metadata s"
proof -
  let ?f = "e\<lparr>info_first := Some (next_node s), info_hashcode := info_hashcode e XOR (addr * MH_MULTIPLY),
      info_size := info_size e + 1,
      info_reloc := (if CESK_STORE_ADDR_IS_RELOC addr then info_reloc e + 1 else info_reloc e)\<rparr>"
  obtain n where n: "nodes s r = Some n" "node_body n = Info_Entry e" using r(2) by (auto simp: get_info_Some)
  have neq: "r \<noteq> next_node s" using r(1) table_inv_fresh [OF tab] by auto
  have none: "cesk_set_hash_find d addr s = None" using a set_elems_find [OF tab] by blast
  have fresh: "nodes s (next_node s) = None" using table_inv_fresh [OF tab] by (simp add: node_key_def)
  have "\<exists>s'. merge_element d r addr s = Some s' \<and>
      nodes s' = (nodes s)(
        next_node s \<mapsto> \<lparr>node_idx = d, node_addr = addr, node_body = Data_Entry (info_first e) None\<rparr>,
        r \<mapsto> n\<lparr>node_body := Info_Entry ?f\<rparr>) \<and>
      set_hash s' = (set_hash s)(slot_of (d, addr) := next_node s # set_hash s (slot_of (d, addr))) \<and>
      next_node s' = Suc (next_node s) \<and> next_idx s' = next_idx s \<and> set_tags s' = set_tags s \<and>
      empty_set_idx s' = empty_set_idx s \<and> empty_set_metadata s' = empty_set_metadata s"
    using n neq none a(1)
    by (simp add: merge_element_def cesk_set_hash_insert_def Let_def chain_link_def get_info_def
        set_data_next_def upd_info_def cesk_set_node_alloc_def slot_of_def)
  then obtain s' where run: "merge_element d r addr s = Some s'"
    and nodes': "nodes s' = (nodes s)(
      next_node s \<mapsto> \<lparr>node_idx = d, node_addr = addr, node_body = Data_Entry (info_first e) None\<rparr>,
      r \<mapsto> n\<lparr>node_body := Info_Entry ?f\<rparr>)"
    and rest: "set_hash s' = (set_hash s)(slot_of (d, addr) := next_node s # set_hash s (slot_of (d, addr)))"
      "next_node s' = Suc (next_node s)" "next_idx s' = next_idx s" "set_tags s' = set_tags s"
      "empty_set_idx s' = empty_set_idx s" "empty_set_metadata s' = empty_set_metadata s"
    by blast
  show thesis
    by (rule that [OF run _ _ _ _ rest])
      (use n neq fresh r a(1) in \<open>auto simp: nodes' node_key_def data_next_def get_info_def\<close>)
qed

text \<open>
  What an insertion into the set with metadata node \<open>r\<close> leaves alone: every node keeps its key and
  its successor, every other metadata node is unchanged, and \<open>r\<close> keeps its counter and its tags.
\<close>

definition elem_frame :: "nat \<Rightarrow> set_state \<Rightarrow> set_state \<Rightarrow> bool" where
  "elem_frame r s s' \<longleftrightarrow>
     (\<forall>q k. node_key s q = Some k \<longrightarrow> node_key s' q = Some k \<and> data_next q s' = data_next q s) \<and>
     (\<forall>q. q \<noteq> r \<longrightarrow> get_info q s' = get_info q s) \<and>
     (\<forall>e. get_info r s = Some e \<longrightarrow>
        (\<exists>e'. get_info r s' = Some e' \<and> info_refcnt e' = info_refcnt e \<and> info_tags e' = info_tags e)) \<and>
     (\<forall>q i. node_key s' q = Some (i, INFO_ADDR) \<longrightarrow> node_key s q = Some (i, INFO_ADDR)) \<and>
     next_node s \<le> next_node s' \<and> next_idx s' = next_idx s \<and> set_tags s' = set_tags s \<and>
     empty_set_idx s' = empty_set_idx s \<and> empty_set_metadata s' = empty_set_metadata s"

lemma elem_frame_refl: "elem_frame r s s"
  unfolding elem_frame_def by blast

lemma elem_frameD:
  assumes "elem_frame r s s'"
  shows "node_key s q = Some k \<Longrightarrow> node_key s' q = Some k"
    and "node_key s q = Some k \<Longrightarrow> data_next q s' = data_next q s"
    and "q \<noteq> r \<Longrightarrow> get_info q s' = get_info q s"
    and "get_info r s = Some e \<Longrightarrow>
      \<exists>e'. get_info r s' = Some e' \<and> info_refcnt e' = info_refcnt e \<and> info_tags e' = info_tags e"
    and "node_key s' q = Some (i, INFO_ADDR) \<Longrightarrow> node_key s q = Some (i, INFO_ADDR)"
    and "next_node s \<le> next_node s'" and "next_idx s' = next_idx s" and "set_tags s' = set_tags s"
    and "empty_set_idx s' = empty_set_idx s" and "empty_set_metadata s' = empty_set_metadata s"
  using assms unfolding elem_frame_def by blast+

lemma elem_frame_trans:
  assumes st: "elem_frame r s t" and tu: "elem_frame r t u"
  shows "elem_frame r s u"
  unfolding elem_frame_def
proof (intro conjI allI impI)
  fix q k assume "node_key s q = Some k"
  then show "node_key u q = Some k" "data_next q u = data_next q s"
    using elem_frameD(1,2) [OF st] elem_frameD(1,2) [OF tu] by metis+
next
  fix e assume "get_info r s = Some e"
  then obtain e' where "get_info r t = Some e'" "info_refcnt e' = info_refcnt e" "info_tags e' = info_tags e"
    using elem_frameD(4) [OF st] by blast
  then show "\<exists>e'. get_info r u = Some e' \<and> info_refcnt e' = info_refcnt e \<and> info_tags e' = info_tags e"
    using elem_frameD(4) [OF tu] by metis
next
  show "next_node s \<le> next_node u" using elem_frameD(6) [OF st] elem_frameD(6) [OF tu] by (rule le_trans)
qed (use elem_frameD(3,5,7-) [OF st] elem_frameD(3,5,7-) [OF tu] in metis)+

lemma set_invD:
  assumes "set_inv s"
  shows "table_inv s" and "lists_inv s" and "tag_inv (set_tags s)"
    and "node_key s r = Some (i, INFO_ADDR) \<Longrightarrow> get_info r s = Some e \<Longrightarrow> info_inv s i e"
  using assms by (auto simp: set_inv_def)

lemma set_invI:
  assumes "table_inv s" and "lists_inv s" and "tag_inv (set_tags s)"
    and "\<And>r i e. node_key s r = Some (i, INFO_ADDR) \<Longrightarrow> get_info r s = Some e \<Longrightarrow> info_inv s i e"
  shows "set_inv s"
  using assms by (auto simp: set_inv_def)

text \<open>The list of a set, with what the invariant says about it.\<close>

lemma set_inv_list:
  assumes "set_inv s" and "node_key s r = Some (i, INFO_ADDR)" and "get_info r s = Some e"
  obtains ps where "dpath (\<lambda>q. data_next q s) (info_first e) ps" and "distinct ps"
    and "set ps = set_elem_nodes s i" and "counts_ok (set_tags s) e (addrs_of s ps)"
  using lists_invD [OF set_invD(2) [OF assms(1)] assms(2,3)] set_invD(4) [OF assms]
  unfolding info_inv_def by blast

lemma info_invI:
  assumes "dpath (\<lambda>q. data_next q s) (info_first e) ps" and "counts_ok (set_tags s) e (addrs_of s ps)"
    and "\<exists>t x. info_tags e = Some t \<and> tag_sets (set_tags s) t = Some x"
  shows "info_inv s i e"
  using assms dpath_unique unfolding info_inv_def by blast

lemma counts_ok_Cons:
  "counts_ok ts e as \<Longrightarrow>
   counts_ok ts (e\<lparr>info_first := p, info_hashcode := info_hashcode e XOR (a * MH_MULTIPLY),
      info_size := info_size e + 1,
      info_reloc := (if CESK_STORE_ADDR_IS_RELOC a then info_reloc e + 1 else info_reloc e)\<rparr>) (a # as)"
  by (simp add: counts_ok_def xor.assoc xor.commute xor.left_commute)

lemma merge_element_set_inv:
  assumes inv: "set_inv s" and r: "node_key s r = Some (d, INFO_ADDR)" and a: "addr \<noteq> INFO_ADDR"
  obtains s' where "merge_element d r addr s = Some s'" and "set_inv s'" and "elem_frame r s s'"
    and "\<forall>i. set_elems s' i = (if i = d then insert addr (set_elems s i) else set_elems s i)"
proof (cases "addr \<in> set_elems s d")
  case True
  with that [OF merge_element_present [OF set_invD(1) [OF inv] True] inv elem_frame_refl] show thesis
    by (auto simp: insert_absorb)
next
  case False
  note tab = set_invD(1) [OF inv]
  obtain e where e: "get_info r s = Some e" using live_handle [OF tab r] .
  obtain s' where run: "merge_element d r addr s = Some s'"
    and key: "\<And>q. node_key s' q = (if q = next_node s then Some (d, addr) else node_key s q)"
    and succ: "\<And>q. data_next q s' = (if q = next_node s then Some (info_first e) else data_next q s)"
    and info: "\<And>q. q \<noteq> r \<Longrightarrow> get_info q s' = get_info q s"
    and info_r: "get_info r s' = Some (e\<lparr>info_first := Some (next_node s),
          info_hashcode := info_hashcode e XOR (addr * MH_MULTIPLY),
          info_size := info_size e + 1,
          info_reloc := (if CESK_STORE_ADDR_IS_RELOC addr then info_reloc e + 1 else info_reloc e)\<rparr>)"
    and rest: "set_hash s' = (set_hash s)(slot_of (d, addr) := next_node s # set_hash s (slot_of (d, addr)))"
      "next_node s' = Suc (next_node s)" "next_idx s' = next_idx s" "set_tags s' = set_tags s"
      "empty_set_idx s' = empty_set_idx s" "empty_set_metadata s' = empty_set_metadata s"
    by (rule merge_element_absent [OF tab r e a False]) blast
  let ?e = "e\<lparr>info_first := Some (next_node s), info_hashcode := info_hashcode e XOR (addr * MH_MULTIPLY),
      info_size := info_size e + 1,
      info_reloc := (if CESK_STORE_ADDR_IS_RELOC addr then info_reloc e + 1 else info_reloc e)\<rparr>"
  have fresh: "node_key s (next_node s) = None" by (rule table_inv_fresh [OF tab])
  have idx: "d < next_idx s" using table_invD(5) [OF tab r] .
  have tab': "table_inv s'"
  proof (rule table_inv_insert [OF tab key])
    show "node_key s q \<noteq> Some (d, addr)" for q using False a by (auto simp: set_elems_def)
    show "get_info (next_node s) s' \<noteq> None \<longleftrightarrow> addr = INFO_ADDR"
      using a info fresh r by (cases "r = next_node s") (auto simp: get_info_def node_key_def)
    show "get_info q s' = None \<longleftrightarrow> get_info q s = None" for q using info [of q] info_r e by (cases "q = r") auto
  qed (use rest a r idx succ in auto)
  have lists': "lists_inv s'"
    by (rule lists_inv_push [OF tab set_invD(2) [OF inv] key a succ r e info_r _ info]) simp
  have frame: "elem_frame r s s'"
    unfolding elem_frame_def using fresh info info_r e rest a by (auto simp: key succ)
  have "info_inv s' i f" if "node_key s' q = Some (i, INFO_ADDR)" "get_info q s' = Some f" for q i f
  proof -
    have q: "node_key s q = Some (i, INFO_ADDR)" using that(1) a by (auto simp: key split: if_splits)
    obtain g where g: "get_info q s = Some g" using live_handle [OF tab q] .
    obtain ps where ps: "dpath (\<lambda>q. data_next q s) (info_first g) ps"
      "set ps = set_elem_nodes s i" "counts_ok (set_tags s) g (addrs_of s ps)"
      using set_inv_list [OF inv q g] by metis
    have out: "next_node s \<notin> set ps" using ps(2) fresh by (auto simp: set_elem_nodes_def)
    then have path: "dpath (\<lambda>q. data_next q s') (info_first g) ps"
      using ps(1) by (subst dpath_cong [of ps _ "\<lambda>q. data_next q s"]) (auto simp: succ)
    have addrs: "addrs_of s' ps = addrs_of s ps" using out by (intro addrs_of_cong) (auto simp: key)
    have tags: "\<exists>t x. info_tags g = Some t \<and> tag_sets (set_tags s') t = Some x"
      using set_invD(4) [OF inv q g] rest(4) by (simp add: info_inv_def)
    show ?thesis
    proof (cases "q = r")
      case True
      then have [simp]: "g = e" "f = ?e" using g e info_r that(2) by auto
      show ?thesis
      proof (rule info_invI [of _ _ "next_node s # ps"])
        have "addrs_of s' (next_node s # ps) = addr # addrs_of s ps"
          using addrs by (simp add: addrs_of_def key)
        then show "counts_ok (set_tags s') f (addrs_of s' (next_node s # ps))"
          using ps(3) rest(4) by (simp add: counts_ok_Cons)
      qed (use path tags in \<open>simp_all add: succ\<close>)
    next
      case False
      then have "f = g" using info g that(2) by simp
      with ps(3) addrs tags rest(4) path show ?thesis by (intro info_invI [of _ _ ps]) simp_all
    qed
  qed
  then have "set_inv s'" using set_invD(3) [OF inv] rest(4) by (intro set_invI tab' lists') simp_all
  moreover have "set_elems s' i = (if i = d then insert addr (set_elems s i) else set_elems s i)" for i
    by (rule set_elems_insert [OF key fresh a])
  ultimately show thesis by (intro that [OF run _ frame]) simp_all
qed

text \<open>The loop of \<^verbatim>\<open>cesk_set_merge\<close>, with enough fuel for the list it runs through.\<close>

lemma merge_elements_set_inv:
  assumes "set_inv s" and "node_key s r = Some (d, INFO_ADDR)"
    and "dpath (\<lambda>q. data_next q s) q ps" and "length ps \<le> fuel"
    and "\<And>p. p \<in> set ps \<Longrightarrow> \<exists>i a. a \<noteq> INFO_ADDR \<and> node_key s p = Some (i, a)"
  shows "\<exists>s'. merge_elements fuel d r q s = Some s' \<and> set_inv s' \<and> elem_frame r s s' \<and>
    (\<forall>i. set_elems s' i = (if i = d then set_elems s i \<union> set (addrs_of s ps) else set_elems s i))"
  using assms
proof (induction ps arbitrary: q s fuel)
  case Nil
  then show ?case by (auto simp: addrs_of_def intro: elem_frame_refl)
next
  case (Cons p ps)
  from Cons.prems(3) obtain nx where q: "q = Some p" and nx: "data_next p s = Some nx"
    and rest: "dpath (\<lambda>q. data_next q s) nx ps" by auto
  obtain fuel' where fuel: "fuel = Suc fuel'" "length ps \<le> fuel'" using Cons.prems(4) by (cases fuel) auto
  obtain j a where ja: "a \<noteq> INFO_ADDR" "node_key s p = Some (j, a)" using Cons.prems(5) [of p] by auto
  then obtain n where n: "nodes s p = Some n" "node_addr n = a" by (auto simp: node_key_def)
  obtain s1 where s1: "merge_element d r a s = Some s1" "set_inv s1" "elem_frame r s s1"
    and elems: "\<forall>i. set_elems s1 i = (if i = d then insert a (set_elems s i) else set_elems s i)"
    by (rule merge_element_set_inv [OF Cons.prems(1,2) ja(1)])
  have keys: "node_key s1 x = node_key s x" "data_next x s1 = data_next x s" if "x \<in> set (p # ps)" for x
    using Cons.prems(5) [OF that] elem_frameD(1,2) [OF s1(3)] by auto
  have "dpath (\<lambda>q. data_next q s1) nx ps"
    using rest keys dpath_cong [of ps "\<lambda>q. data_next q s1" "\<lambda>q. data_next q s" nx] by simp
  moreover have "\<exists>i a. a \<noteq> INFO_ADDR \<and> node_key s1 x = Some (i, a)" if "x \<in> set ps" for x
    using Cons.prems(5) [of x] keys that by simp
  ultimately obtain s' where s': "merge_elements fuel' d r nx s1 = Some s'" "set_inv s'" "elem_frame r s1 s'"
    and elems': "\<forall>i. set_elems s' i = (if i = d then set_elems s1 i \<union> set (addrs_of s1 ps) else set_elems s1 i)"
    using Cons.IH [OF s1(2) elem_frameD(1) [OF s1(3) Cons.prems(2)] _ fuel(2)] by blast
  have "merge_elements fuel d r q s = Some s'"
    using fuel q n s1(1) keys(2) [of p] nx s'(1) by simp
  moreover have "addrs_of s1 ps = addrs_of s ps" using keys by (intro addrs_of_cong) simp
  moreover have "addrs_of s (p # ps) = a # addrs_of s ps" using ja by (simp add: addrs_of_def)
  ultimately show ?case
    using s'(2) elem_frame_trans [OF s1(3) s'(3)] elems elems' by auto
qed

subsection \<open>Duplicating a set\<close>

text \<open>The tag memory after calls that only take references.\<close>

definition tags_kept :: "tag_state \<Rightarrow> tag_state \<Rightarrow> bool" where
  "tags_kept ts ts' \<longleftrightarrow> (\<forall>t x. tag_sets ts t = Some x \<longrightarrow>
     (\<exists>y. tag_sets ts' t = Some y \<and> ts_hashcode y = ts_hashcode x \<and> ts_data y = ts_data x))"

lemma tags_kept_refl: "tags_kept ts ts"
  by (simp add: tags_kept_def)

lemma tags_kept_trans: "tags_kept a b \<Longrightarrow> tags_kept b c \<Longrightarrow> tags_kept a c"
  unfolding tags_kept_def by metis

lemma tags_kept_incref: "tag_set_incref p ts = Some ts' \<Longrightarrow> tags_kept ts ts'"
  by (auto simp: tags_kept_def tag_set_incref_def tag_upd_def split: Option.bind_splits)

lemma info_inv_frame:
  assumes inv: "set_inv s" and r: "node_key s r = Some (i, INFO_ADDR)" "get_info r s = Some e"
    and same: "\<And>q. q \<in> set_elem_nodes s i \<Longrightarrow> node_key s' q = node_key s q \<and> data_next q s' = data_next q s"
    and tags: "tags_kept (set_tags s) (set_tags s')"
  shows "info_inv s' i e"
proof -
  obtain ps where ps: "dpath (\<lambda>q. data_next q s) (info_first e) ps"
    "set ps = set_elem_nodes s i" "counts_ok (set_tags s) e (addrs_of s ps)"
    using set_inv_list [OF inv r] by metis
  obtain t x where t: "info_tags e = Some t" "tag_sets (set_tags s) t = Some x"
    using set_invD(4) [OF inv r] by (auto simp: info_inv_def)
  then obtain y where y: "tag_sets (set_tags s') t = Some y" "ts_hashcode y = ts_hashcode x"
    using tags by (auto simp: tags_kept_def)
  have "dpath (\<lambda>q. data_next q s') (info_first e) ps"
    using ps(1,2) same dpath_cong [of ps "\<lambda>q. data_next q s'" "\<lambda>q. data_next q s" "info_first e"] by simp
  moreover have "addrs_of s' ps = addrs_of s ps" using ps(2) same by (intro addrs_of_cong) simp
  ultimately show ?thesis
    using ps(3) t y by (intro info_invI [of _ _ ps]) (simp_all add: counts_ok_def tag_hash_at_def)
qed

lemma info_inv_refcnt [simp]: "info_inv s i (e\<lparr>info_refcnt := c\<rparr>) = info_inv s i e"
  by (simp add: info_inv_def counts_ok_def)

text \<open>Room for \<open>n\<close> more references in every counter.\<close>

definition tag_room :: "nat \<Rightarrow> tag_state \<Rightarrow> bool" where
  "tag_room n ts \<longleftrightarrow> (\<forall>p t. tag_sets ts p = Some t \<longrightarrow> unat (ts_refcnt t) + n < 2 ^ 32)"

lemma tag_room_low: "tag_room n ts \<Longrightarrow> 0 < n \<Longrightarrow> tag_counters_low ts"
  unfolding tag_room_def tag_counters_low_def by fastforce

lemma tag_room_incref:
  assumes "tag_room (Suc n) ts" and "tag_set_incref p ts = Some ts'"
  shows "tag_room n ts'"
proof -
  obtain t where t: "tag_sets ts p = Some t"
    and ts': "ts' = ts\<lparr>tag_sets := (tag_sets ts)(p \<mapsto> t\<lparr>ts_refcnt := ts_refcnt t + 1\<rparr>)\<rparr>"
    using assms(2) by (auto simp: tag_set_incref_def tag_upd_def bind_eq_Some_conv)
  have "unat (ts_refcnt t + 1) \<le> Suc (unat (ts_refcnt t))"
    by (metis Suc_eq_plus1 order_refl unat_1 unat_word_ariths(1) mod_less_eq_dividend)
  then show ?thesis using assms(1) t unfolding tag_room_def ts' by (fastforce split: if_splits)
qed

lemma tag_empty_ok:
  assumes "tag_inv ts" and "tag_room (Suc n) ts"
  obtains ts' x where "tag_set_empty ts = Some (0, ts')" and "tag_sets ts' 0 = Some x"
    and "tag_inv ts'" and "tags_kept ts ts'" and "tag_room n ts'"
proof -
  obtain t where t: "tag_sets ts 0 = Some t" using tag_inv_static [OF assms(1)] by blast
  let ?ts = "ts\<lparr>tag_sets := (tag_sets ts)(0 \<mapsto> t\<lparr>ts_refcnt := ts_refcnt t + 1\<rparr>)\<rparr>"
  have run: "tag_set_incref 0 ts = Some ?ts" by (rule tag_incref_eq [OF t])
  have low: "tag_counters_low ts" using tag_room_low [OF assms(2)] by simp
  show thesis
    by (rule that [of ?ts "t\<lparr>ts_refcnt := ts_refcnt t + 1\<rparr>"])
      (use run tag_incref_inv [OF assms(1) low run] tags_kept_incref [OF run]
         tag_room_incref [OF assms(2) run] in \<open>simp_all add: tag_set_empty_def\<close>)
qed

definition fresh_info :: "tag_set \<Rightarrow> set_info" where
  "fresh_info x = \<lparr>info_size = 0, info_refcnt = 0, info_reloc = 0,
     info_hashcode = CESK_SET_EMPTY_HASH XOR ts_hashcode x, info_tags = Some 0, info_first = None\<rparr>"

lemma idx_alloc_views:
  assumes tab: "table_inv s" and tags: "tag_set_empty (set_tags s) = Some (0, ts)" "tag_sets ts 0 = Some x"
  obtains s' where "cesk_set_idx_alloc s = Some (next_idx s, next_node s, s')"
    and "\<And>q. node_key s' q = (if q = next_node s then Some (next_idx s, INFO_ADDR) else node_key s q)"
    and "\<And>q. data_next q s' = data_next q s"
    and "\<And>q. get_info q s' = (if q = next_node s then Some (fresh_info x) else get_info q s)"
    and "set_hash s' = (set_hash s)(slot_of (next_idx s, INFO_ADDR) :=
           next_node s # set_hash s (slot_of (next_idx s, INFO_ADDR)))"
    and "next_node s' = Suc (next_node s)" and "next_idx s' = next_idx s + 1" and "set_tags s' = ts"
    and "empty_set_idx s' = empty_set_idx s" and "empty_set_metadata s' = empty_set_metadata s"
proof -
  have fresh: "nodes s (next_node s) = None" using table_inv_fresh [OF tab] by (simp add: node_key_def)
  have "\<exists>s'. cesk_set_idx_alloc s = Some (next_idx s, next_node s, s') \<and>
      nodes s' = (nodes s)(next_node s \<mapsto>
        \<lparr>node_idx = next_idx s, node_addr = INFO_ADDR, node_body = Info_Entry (fresh_info x)\<rparr>) \<and>
      set_hash s' = (set_hash s)(slot_of (next_idx s, INFO_ADDR) :=
           next_node s # set_hash s (slot_of (next_idx s, INFO_ADDR))) \<and>
      next_node s' = Suc (next_node s) \<and> next_idx s' = next_idx s + 1 \<and> set_tags s' = ts \<and>
      empty_set_idx s' = empty_set_idx s \<and> empty_set_metadata s' = empty_set_metadata s"
    using tags
    by (simp add: cesk_set_idx_alloc_def cesk_set_hash_insert_def Let_def chain_link_def upd_info_def
        cesk_set_node_alloc_def slot_of_def fresh_info_def tag_set_hashcode_def)
  then obtain s' where s': "cesk_set_idx_alloc s = Some (next_idx s, next_node s, s')"
    and n: "nodes s' = (nodes s)(next_node s \<mapsto>
        \<lparr>node_idx = next_idx s, node_addr = INFO_ADDR, node_body = Info_Entry (fresh_info x)\<rparr>)"
    and rest: "set_hash s' = (set_hash s)(slot_of (next_idx s, INFO_ADDR) :=
           next_node s # set_hash s (slot_of (next_idx s, INFO_ADDR)))"
      "next_node s' = Suc (next_node s)" "next_idx s' = next_idx s + 1" "set_tags s' = ts"
      "empty_set_idx s' = empty_set_idx s" "empty_set_metadata s' = empty_set_metadata s"
    by blast
  show thesis
    by (rule that [OF s' _ _ _ rest])
      (use fresh in \<open>auto simp: n node_key_def data_next_def get_info_def\<close>)
qed

lemma next_idx_less: "i \<noteq> 0xffffffff \<Longrightarrow> i < i + (1 :: u32)"
  using inc_less_eq_iff [of i i] unfolding max_u32 by (simp add: not_le [symmetric])

lemma set_elem_nodes_new_info:
  assumes "\<And>q. node_key s' q = (if q = n then Some (i, INFO_ADDR) else node_key s q)"
    and "node_key s n = None"
  shows "set_elem_nodes s' j = set_elem_nodes s j" and "set_elems s' j = set_elems s j"
proof -
  have "node_key s' q = Some (j, a) \<longleftrightarrow> node_key s q = Some (j, a)" if "a \<noteq> INFO_ADDR" for q a
    using assms that by auto
  then show "set_elem_nodes s' j = set_elem_nodes s j" "set_elems s' j = set_elems s j"
    by (auto simp: set_elem_nodes_def set_elems_def)
qed

lemma next_idx_unused: "table_inv s \<Longrightarrow> node_key s q \<noteq> Some (next_idx s, a)"
  using table_invD(5) [of s q "next_idx s" a] by auto

lemma idx_alloc_set_inv:
  assumes inv: "set_inv s" and tag_room: "tag_room (Suc k) (set_tags s)" and room: "next_idx s \<noteq> 0xffffffff"
  obtains s' x where "cesk_set_idx_alloc s = Some (next_idx s, next_node s, s')" and "set_inv s'"
    and "\<And>q. node_key s' q = (if q = next_node s then Some (next_idx s, INFO_ADDR) else node_key s q)"
    and "\<And>q. data_next q s' = data_next q s"
    and "\<And>q. get_info q s' = (if q = next_node s then Some (fresh_info x) else get_info q s)"
    and "next_node s' = Suc (next_node s)" and "next_idx s' = next_idx s + 1"
    and "tags_kept (set_tags s) (set_tags s')" and "tag_room k (set_tags s')"
    and "empty_set_idx s' = empty_set_idx s" and "empty_set_metadata s' = empty_set_metadata s"
proof -
  note tab = set_invD(1) [OF inv]
  have fresh: "node_key s (next_node s) = None" by (rule table_inv_fresh [OF tab])
  obtain ts x where tags: "tag_set_empty (set_tags s) = Some (0, ts)" "tag_sets ts 0 = Some x"
    "tag_inv ts" "tags_kept (set_tags s) ts" "tag_room k ts"
    by (rule tag_empty_ok [OF set_invD(3) [OF inv] tag_room])
  obtain s' where run: "cesk_set_idx_alloc s = Some (next_idx s, next_node s, s')"
    and key: "\<And>q. node_key s' q = (if q = next_node s then Some (next_idx s, INFO_ADDR) else node_key s q)"
    and succ: "\<And>q. data_next q s' = data_next q s"
    and info: "\<And>q. get_info q s' = (if q = next_node s then Some (fresh_info x) else get_info q s)"
    and rest: "set_hash s' = (set_hash s)(slot_of (next_idx s, INFO_ADDR) :=
           next_node s # set_hash s (slot_of (next_idx s, INFO_ADDR)))"
      "next_node s' = Suc (next_node s)" "next_idx s' = next_idx s + 1" "set_tags s' = ts"
      "empty_set_idx s' = empty_set_idx s" "empty_set_metadata s' = empty_set_metadata s"
    by (rule idx_alloc_views [OF tab tags(1,2)]) blast
  have less: "next_idx s < next_idx s'" using next_idx_less [OF room] rest(3) by simp
  have nodes: "set_elem_nodes s' j = set_elem_nodes s j" for j
    by (rule set_elem_nodes_new_info [OF key fresh])
  have empty: "set_elem_nodes s (next_idx s) = {}"
    using next_idx_unused [OF tab] by (auto simp: set_elem_nodes_def)
  have tab': "table_inv s'"
  proof (rule table_inv_insert [OF tab key rest(1,2) _ less])
    have "data_next (next_node s) s = None" using fresh by (simp add: data_next_def node_key_def)
    then show "data_next (next_node s) s' \<noteq> None \<longleftrightarrow> INFO_ADDR \<noteq> INFO_ADDR" by (simp add: succ)
  qed (use less next_idx_unused [OF tab] in \<open>auto simp: info succ\<close>)
  have "lists_inv s'"
    unfolding lists_inv_def
  proof (intro allI impI)
    fix q j f assume q: "node_key s' q = Some (j, INFO_ADDR) \<and> get_info q s' = Some f"
    show "\<exists>ps. dpath (\<lambda>q. data_next q s') (info_first f) ps \<and> distinct ps \<and> set ps = set_elem_nodes s' j"
    proof (cases "q = next_node s")
      case True
      with q empty show ?thesis by (intro exI [of _ "[]"]) (auto simp: key info nodes fresh_info_def)
    next
      case False
      with q have "node_key s q = Some (j, INFO_ADDR)" "get_info q s = Some f" by (auto simp: key info)
      with lists_invD [OF set_invD(2) [OF inv]] show ?thesis by (simp add: succ nodes)
    qed
  qed
  moreover have "info_inv s' j f" if "node_key s' q = Some (j, INFO_ADDR)" "get_info q s' = Some f" for q j f
  proof (cases "q = next_node s")
    case True
    with that show ?thesis
      by (intro info_invI [of _ _ "[]"])
        (auto simp: info fresh_info_def counts_ok_def addrs_of_def tag_hash_at_def rest(4) tags(2))
  next
    case False
    with that have "node_key s q = Some (j, INFO_ADDR)" "get_info q s = Some f" by (auto simp: key info)
    then show ?thesis
    proof (rule info_inv_frame [OF inv])
      fix p assume "p \<in> set_elem_nodes s j"
      then have "p \<noteq> next_node s" using fresh by (auto simp: set_elem_nodes_def)
      then show "node_key s' p = node_key s p \<and> data_next p s' = data_next p s" by (simp add: key succ)
    qed (use tags(4) rest(4) in simp)
  qed
  ultimately have "set_inv s'" using tags(3) rest(4) by (intro set_invI tab') simp_all
  with that [OF run _ key succ info] rest tags(4,5) show thesis by simp
qed

lemma push_copy_views:
  assumes tab: "table_inv s" and lists: "lists_inv s"
    and r: "node_key s r = Some (d, INFO_ADDR)" "get_info r s = Some e" and a: "addr \<noteq> INFO_ADDR"
  obtains s' where "push_copy d r addr s = Some s'"
    and "\<And>q. node_key s' q = (if q = next_node s then Some (d, addr) else node_key s q)"
    and "\<And>q. data_next q s' = (if q = next_node s then Some (info_first e) else data_next q s)"
    and "\<And>q. get_info q s' = (if q = r then Some (e\<lparr>info_first := Some (next_node s)\<rparr>) else get_info q s)"
    and "set_hash s' = (set_hash s)(slot_of (d, addr) := next_node s # set_hash s (slot_of (d, addr)))"
    and "next_node s' = Suc (next_node s)" and "next_idx s' = next_idx s"
    and "set_tags s' = set_tags s" and "empty_set_idx s' = empty_set_idx s"
    and "empty_set_metadata s' = empty_set_metadata s"
proof -
  obtain n where n: "nodes s r = Some n" "node_body n = Info_Entry e" using r(2) by (auto simp: get_info_Some)
  have neq: "r \<noteq> next_node s" using r(1) table_inv_fresh [OF tab] by auto
  have fresh: "nodes s (next_node s) = None" using table_inv_fresh [OF tab] by (simp add: node_key_def)
  obtain ps where ps: "dpath (\<lambda>q. data_next q s) (info_first e) ps" using lists_invD [OF lists r] by blast
  obtain m where "\<exists>s'. push_copy d r addr s = Some s' \<and>
      nodes s' = (nodes s ++ m)(
        next_node s \<mapsto> \<lparr>node_idx = d, node_addr = addr, node_body = Data_Entry (info_first e) None\<rparr>,
        r \<mapsto> n\<lparr>node_body := Info_Entry (e\<lparr>info_first := Some (next_node s)\<rparr>)\<rparr>) \<and>
      set_hash s' = (set_hash s)(slot_of (d, addr) := next_node s # set_hash s (slot_of (d, addr))) \<and>
      next_node s' = Suc (next_node s) \<and> next_idx s' = next_idx s \<and> set_tags s' = set_tags s \<and>
      empty_set_idx s' = empty_set_idx s \<and> empty_set_metadata s' = empty_set_metadata s"
    and m: "\<And>q x. m q = Some x \<Longrightarrow> \<exists>y nx pv pv'. nodes s q = Some y \<and> node_body y = Data_Entry nx pv \<and>
      x = y\<lparr>node_body := Data_Entry nx pv'\<rparr>"
  proof (cases "info_first e")
    case None
    have "\<exists>s'. push_copy d r addr s = Some s' \<and>
      nodes s' = (nodes s ++ Map.empty)(
        next_node s \<mapsto> \<lparr>node_idx = d, node_addr = addr, node_body = Data_Entry (info_first e) None\<rparr>,
        r \<mapsto> n\<lparr>node_body := Info_Entry (e\<lparr>info_first := Some (next_node s)\<rparr>)\<rparr>) \<and>
      set_hash s' = (set_hash s)(slot_of (d, addr) := next_node s # set_hash s (slot_of (d, addr))) \<and>
      next_node s' = Suc (next_node s) \<and> next_idx s' = next_idx s \<and> set_tags s' = set_tags s \<and>
      empty_set_idx s' = empty_set_idx s \<and> empty_set_metadata s' = empty_set_metadata s"
      using n neq a None
      by (simp add: push_copy_def cesk_set_hash_insert_def Let_def chain_link_def get_info_def
          set_data_next_def upd_info_def cesk_set_node_alloc_def slot_of_def)
    then show thesis by (rule that) simp
  next
    case (Some f)
    with ps obtain nx where "data_next f s = Some nx" by (cases ps) auto
    then obtain y pv where y: "nodes s f = Some y" "node_body y = Data_Entry nx pv"
      by (auto simp: data_next_Some)
    have f: "f \<noteq> next_node s" "f \<noteq> r" using y fresh n by auto
    have "\<exists>s'. push_copy d r addr s = Some s' \<and>
      nodes s' = (nodes s ++ [f \<mapsto> y\<lparr>node_body := Data_Entry nx (Some (next_node s))\<rparr>])(
        next_node s \<mapsto> \<lparr>node_idx = d, node_addr = addr, node_body = Data_Entry (info_first e) None\<rparr>,
        r \<mapsto> n\<lparr>node_body := Info_Entry (e\<lparr>info_first := Some (next_node s)\<rparr>)\<rparr>) \<and>
      set_hash s' = (set_hash s)(slot_of (d, addr) := next_node s # set_hash s (slot_of (d, addr))) \<and>
      next_node s' = Suc (next_node s) \<and> next_idx s' = next_idx s \<and> set_tags s' = set_tags s \<and>
      empty_set_idx s' = empty_set_idx s \<and> empty_set_metadata s' = empty_set_metadata s"
      using n neq a Some y f
      by (simp add: push_copy_def cesk_set_hash_insert_def Let_def chain_link_def get_info_def
          set_data_next_def set_data_prev_def upd_info_def cesk_set_node_alloc_def slot_of_def fun_upd_twist)
    then show thesis by (rule that) (use y in \<open>auto split: if_splits\<close>)
  qed
  then obtain s' where run: "push_copy d r addr s = Some s'"
    and nodes': "nodes s' = (nodes s ++ m)(
        next_node s \<mapsto> \<lparr>node_idx = d, node_addr = addr, node_body = Data_Entry (info_first e) None\<rparr>,
        r \<mapsto> n\<lparr>node_body := Info_Entry (e\<lparr>info_first := Some (next_node s)\<rparr>)\<rparr>)"
    and rest: "set_hash s' = (set_hash s)(slot_of (d, addr) := next_node s # set_hash s (slot_of (d, addr)))"
      "next_node s' = Suc (next_node s)" "next_idx s' = next_idx s" "set_tags s' = set_tags s"
      "empty_set_idx s' = empty_set_idx s" "empty_set_metadata s' = empty_set_metadata s"
    by blast
  have views: "map_option (\<lambda>n. (node_idx n, node_addr n)) ((nodes s ++ m) q) = node_key s q"
    "((nodes s ++ m) q \<bind> (\<lambda>n. case node_body n of Data_Entry nx _ \<Rightarrow> Some nx | _ \<Rightarrow> None)) = data_next q s"
    "((nodes s ++ m) q \<bind> (\<lambda>n. case node_body n of Info_Entry i \<Rightarrow> Some i | _ \<Rightarrow> None)) = get_info q s" for q
    using m [of q] by (auto simp: map_add_def node_key_def data_next_def get_info_def split: option.splits)
  show thesis
  proof (rule that [OF run _ _ _ rest])
    fix q
    show "node_key s' q = (if q = next_node s then Some (d, addr) else node_key s q)"
      "data_next q s' = (if q = next_node s then Some (info_first e) else data_next q s)"
      "get_info q s' = (if q = r then Some (e\<lparr>info_first := Some (next_node s)\<rparr>) else get_info q s)"
      using views [of q] neq n r fresh
      by (auto simp: nodes' node_key_def data_next_def get_info_def)
  qed
qed

lemma push_copy_struct:
  assumes tab: "table_inv s" and lists: "lists_inv s"
    and r: "node_key s r = Some (d, INFO_ADDR)" "get_info r s = Some e"
    and a: "addr \<noteq> INFO_ADDR" "addr \<notin> set_elems s d"
  obtains s' where "push_copy d r addr s = Some s'" and "table_inv s'" and "lists_inv s'"
    and "elem_frame r s s'" and "node_key s' (next_node s) = Some (d, addr)"
    and "data_next (next_node s) s' = Some (info_first e)"
    and "get_info r s' = Some (e\<lparr>info_first := Some (next_node s)\<rparr>)"
    and "\<And>i. set_elems s' i = (if i = d then insert addr (set_elems s i) else set_elems s i)"
proof -
  obtain s' where run: "push_copy d r addr s = Some s'"
    and key: "\<And>q. node_key s' q = (if q = next_node s then Some (d, addr) else node_key s q)"
    and succ: "\<And>q. data_next q s' = (if q = next_node s then Some (info_first e) else data_next q s)"
    and info: "\<And>q. get_info q s' = (if q = r then Some (e\<lparr>info_first := Some (next_node s)\<rparr>) else get_info q s)"
    and rest: "set_hash s' = (set_hash s)(slot_of (d, addr) := next_node s # set_hash s (slot_of (d, addr)))"
      "next_node s' = Suc (next_node s)" "next_idx s' = next_idx s" "set_tags s' = set_tags s"
      "empty_set_idx s' = empty_set_idx s" "empty_set_metadata s' = empty_set_metadata s"
    by (rule push_copy_views [OF tab lists r a(1)]) blast
  have fresh: "node_key s (next_node s) = None" by (rule table_inv_fresh [OF tab])
  then have "r \<noteq> next_node s" "get_info (next_node s) s = None"
    using r by (auto simp: node_key_def get_info_def)
  have "table_inv s'"
  proof (rule table_inv_insert [OF tab key rest(1,2)])
    show "node_key s q \<noteq> Some (d, addr)" for q using a by (auto simp: set_elems_def)
    show "get_info q s' = None \<longleftrightarrow> get_info q s = None" for q using r(2) by (simp add: info)
    show "get_info (next_node s) s' \<noteq> None \<longleftrightarrow> addr = INFO_ADDR"
      using \<open>r \<noteq> next_node s\<close> \<open>get_info (next_node s) s = None\<close> a(1) by (simp add: info)
  qed (use rest a r table_invD(5) [OF tab r(1)] succ in auto)
  moreover have "lists_inv s'"
    by (rule lists_inv_push [OF tab lists key a(1) succ r, of "e\<lparr>info_first := Some (next_node s)\<rparr>"])
      (simp_all add: info)
  moreover have "elem_frame r s s'"
    unfolding elem_frame_def using fresh info r(2) rest a by (auto simp: key succ)
  moreover have "set_elems s' i = (if i = d then insert addr (set_elems s i) else set_elems s i)" for i
    by (rule set_elems_insert [OF key fresh a(1)])
  ultimately show thesis using that [OF run] by (simp add: key succ info)
qed

lemma copy_elements_struct:
  assumes "table_inv s" and "lists_inv s" and "node_key s r = Some (d, INFO_ADDR)" and "get_info r s = Some e"
    and "dpath (\<lambda>q. data_next q s) q ps" and "length ps \<le> fuel"
    and "\<And>p. p \<in> set ps \<Longrightarrow> \<exists>i a. a \<noteq> INFO_ADDR \<and> node_key s p = Some (i, a)"
    and "distinct (addrs_of s ps)" and "set (addrs_of s ps) \<inter> set_elems s d = {}"
    and "dpath (\<lambda>q. data_next q s) (info_first e) qs" and "set qs \<subseteq> {q. node_key s q \<noteq> None}"
  shows "\<exists>s' f qs'. copy_elements fuel d r q s = Some s' \<and> table_inv s' \<and> lists_inv s' \<and> elem_frame r s s' \<and>
    get_info r s' = Some (e\<lparr>info_first := f\<rparr>) \<and> dpath (\<lambda>q. data_next q s') f qs' \<and>
    addrs_of s' qs' = rev (addrs_of s ps) @ addrs_of s qs \<and>
    (\<forall>i. set_elems s' i = (if i = d then set_elems s i \<union> set (addrs_of s ps) else set_elems s i))"
  using assms
proof (induction ps arbitrary: q s fuel e qs)
  case Nil
  then show ?case
    by (intro exI [of _ s] exI [of _ "info_first e"] exI [of _ qs])
      (auto simp: addrs_of_def intro: elem_frame_refl)
next
  case (Cons p ps)
  from Cons.prems(5) obtain nx where q: "q = Some p" and nx: "data_next p s = Some nx"
    and rest: "dpath (\<lambda>q. data_next q s) nx ps" by auto
  obtain fuel' where fuel: "fuel = Suc fuel'" "length ps \<le> fuel'" using Cons.prems(6) by (cases fuel) auto
  obtain j a where ja: "a \<noteq> INFO_ADDR" "node_key s p = Some (j, a)" using Cons.prems(7) [of p] by auto
  then obtain n where n: "nodes s p = Some n" "node_addr n = a" by (auto simp: node_key_def)
  have addrs: "addrs_of s (p # ps) = a # addrs_of s ps" using ja by (simp add: addrs_of_def)
  with Cons.prems(9) have absent: "a \<notin> set_elems s d" by auto
  obtain s1 where s1: "push_copy d r a s = Some s1" "table_inv s1" "lists_inv s1" "elem_frame r s s1"
    "node_key s1 (next_node s) = Some (d, a)" "data_next (next_node s) s1 = Some (info_first e)"
    "get_info r s1 = Some (e\<lparr>info_first := Some (next_node s)\<rparr>)"
    and elems: "\<And>i. set_elems s1 i = (if i = d then insert a (set_elems s i) else set_elems s i)"
    using push_copy_struct [OF Cons.prems(1-4) ja(1) absent] by blast
  have keys: "node_key s1 x = node_key s x" "data_next x s1 = data_next x s" if "node_key s x \<noteq> None" for x
    using that elem_frameD(1,2) [OF s1(4)] by auto
  have live: "node_key s x \<noteq> None" if "x \<in> set (p # ps)" for x using Cons.prems(7) [OF that] by auto
  have same: "addrs_of s1 ps = addrs_of s ps" "addrs_of s1 qs = addrs_of s qs"
    using keys live Cons.prems(11) by (auto intro!: addrs_of_cong)
  have "\<exists>s' f qs'. copy_elements fuel' d r nx s1 = Some s' \<and> table_inv s' \<and> lists_inv s' \<and> elem_frame r s1 s' \<and>
      get_info r s' = Some (e\<lparr>info_first := Some (next_node s)\<rparr>\<lparr>info_first := f\<rparr>) \<and> dpath (\<lambda>q. data_next q s') f qs' \<and>
      addrs_of s' qs' = rev (addrs_of s1 ps) @ addrs_of s1 (next_node s # qs) \<and>
      (\<forall>i. set_elems s' i = (if i = d then set_elems s1 i \<union> set (addrs_of s1 ps) else set_elems s1 i))"
  proof (rule Cons.IH [OF s1(2,3) elem_frameD(1) [OF s1(4) Cons.prems(3)] s1(7) _ fuel(2)])
    show "dpath (\<lambda>q. data_next q s1) nx ps"
      using rest keys live dpath_cong [of ps "\<lambda>q. data_next q s1" "\<lambda>q. data_next q s" nx] by auto
    show "\<exists>i a. a \<noteq> INFO_ADDR \<and> node_key s1 x = Some (i, a)" if "x \<in> set ps" for x
      using Cons.prems(7) [of x] keys live that by auto
    show "distinct (addrs_of s1 ps)" "set (addrs_of s1 ps) \<inter> set_elems s1 d = {}"
      using Cons.prems(8,9) elems unfolding same addrs by auto
    show "dpath (\<lambda>q. data_next q s1) (info_first (e\<lparr>info_first := Some (next_node s)\<rparr>)) (next_node s # qs)"
    proof -
      have "data_next x s1 = data_next x s" if "x \<in> set qs" for x
        using Cons.prems(11) keys(2) that by blast
      with Cons.prems(10) s1(6) show ?thesis
        using dpath_cong [of qs "\<lambda>q. data_next q s1" "\<lambda>q. data_next q s" "info_first e"] by auto
    qed
    show "set (next_node s # qs) \<subseteq> {q. node_key s1 q \<noteq> None}"
      using Cons.prems(11) keys s1(5) by auto
  qed
  then obtain s' f qs' where s': "copy_elements fuel' d r nx s1 = Some s'" "table_inv s'" "lists_inv s'"
      "elem_frame r s1 s'" "get_info r s' = Some (e\<lparr>info_first := f\<rparr>)" "dpath (\<lambda>q. data_next q s') f qs'"
      "addrs_of s' qs' = rev (addrs_of s ps) @ addrs_of s1 (next_node s # qs)"
    and elems': "\<forall>i. set_elems s' i = (if i = d then set_elems s1 i \<union> set (addrs_of s ps) else set_elems s1 i)"
    unfolding same by auto
  have "copy_elements fuel d r q s = Some s'"
    using fuel q n s1(1) keys(2) [of p] live nx s'(1) by simp
  moreover have "addrs_of s1 (next_node s # qs) = a # addrs_of s qs"
    using s1(5) same(2) by (simp add: addrs_of_def)
  ultimately show ?case
    using s' elem_frame_trans [OF s1(4) s'(4)] elems elems' addrs
    by (intro exI [of _ s'] exI [of _ f] exI [of _ qs']) auto
qed

lemma counts_ok_rev: "counts_ok ts e (rev as) \<longleftrightarrow> counts_ok ts e as"
proof -
  have "xor_list (rev xs) = xor_list xs" for xs :: "u32 list"
    by (induction xs) (simp_all add: xor.commute)
  then show ?thesis by (simp add: counts_ok_def rev_map [symmetric] rev_filter [symmetric])
qed

lemma tag_fork_ok:
  assumes "tag_inv ts" and "tag_room (Suc n) ts" and "tag_sets ts t = Some x"
  obtains ts' where "tag_set_fork (Some t) ts = Some (Some t, ts')" and "tag_inv ts'"
    and "tags_kept ts ts'" and "tag_room n ts'"
proof -
  obtain ts' where run: "tag_set_incref t ts = Some ts'" using tag_incref_eq [OF assms(3)] by blast
  have "tag_counters_low ts" using tag_room_low [OF assms(2)] by simp
  with tag_incref_inv [OF assms(1) _ run] tags_kept_incref [OF run] tag_room_incref [OF assms(2) run] run
  show thesis by (intro that [of ts']) (simp_all add: tag_set_fork_def)
qed

lemma lists_inv_cong:
  assumes inv: "lists_inv s" and key: "\<And>q. node_key s' q = node_key s q"
    and succ: "\<And>q. data_next q s' = data_next q s"
    and info: "\<And>q e'. get_info q s' = Some e' \<Longrightarrow> \<exists>e. get_info q s = Some e \<and> info_first e' = info_first e"
  shows "lists_inv s'"
  unfolding lists_inv_def
proof (intro allI impI)
  fix r i e' assume r: "node_key s' r = Some (i, INFO_ADDR) \<and> get_info r s' = Some e'"
  then obtain e where "get_info r s = Some e" "info_first e' = info_first e" using info by blast
  moreover have "set_elem_nodes s' i = set_elem_nodes s i" by (simp add: set_elem_nodes_def key)
  ultimately show "\<exists>ps. dpath (\<lambda>q. data_next q s') (info_first e') ps \<and> distinct ps \<and> set ps = set_elem_nodes s' i"
    using lists_invD [OF inv, of r i e] r by (simp add: key succ)
qed

text \<open>
  The state of \<^verbatim>\<open>_cesk_set_duplicate\<close> before its loop: the new metadata node has the counters of the
  old one and an empty list, the old one has lost a reference.
\<close>

lemma duplicate_prepare:
  assumes inv: "set_inv s" and room: "tag_room 2 (set_tags s)" "next_idx s \<noteq> 0xffffffff"
    and r: "node_key s r = Some (i, INFO_ADDR)" "get_info r s = Some e"
  obtains s2 where "cesk_set_duplicate r s = do {
      s3 \<leftarrow> copy_elements (next_node s2) (next_idx s) (next_node s) (info_first e) s2;
      Some (next_idx s, next_node s, s3) }"
    and "table_inv s2" and "lists_inv s2" and "tag_inv (set_tags s2)"
    and "\<And>q. node_key s2 q = (if q = next_node s then Some (next_idx s, INFO_ADDR) else node_key s q)"
    and "\<And>q. data_next q s2 = data_next q s"
    and "\<And>q. get_info q s2 = (if q = next_node s then Some (e\<lparr>info_refcnt := 1, info_first := None\<rparr>)
           else if q = r then Some (e\<lparr>info_refcnt := info_refcnt e - 1\<rparr>) else get_info q s)"
    and "next_node s2 = Suc (next_node s)" and "next_idx s2 = next_idx s + 1"
    and "tags_kept (set_tags s) (set_tags s2)"
    and "empty_set_idx s2 = empty_set_idx s" and "empty_set_metadata s2 = empty_set_metadata s"
proof -
  note tab = set_invD(1) [OF inv]
  have neq: "r \<noteq> next_node s" using r(1) table_inv_fresh [OF tab] by auto
  obtain s1 x where alloc: "cesk_set_idx_alloc s = Some (next_idx s, next_node s, s1)" "set_inv s1"
    and key1: "\<And>q. node_key s1 q = (if q = next_node s then Some (next_idx s, INFO_ADDR) else node_key s q)"
    and succ1: "\<And>q. data_next q s1 = data_next q s"
    and info1: "\<And>q. get_info q s1 = (if q = next_node s then Some (fresh_info x) else get_info q s)"
    and rest1: "next_node s1 = Suc (next_node s)" "next_idx s1 = next_idx s + 1"
      "tags_kept (set_tags s) (set_tags s1)" "tag_room 1 (set_tags s1)"
      "empty_set_idx s1 = empty_set_idx s" "empty_set_metadata s1 = empty_set_metadata s"
    by (rule idx_alloc_set_inv [OF inv room(1) [unfolded numeral_2_eq_2] room(2)]) auto
  have e1: "get_info r s1 = Some e" using r neq by (simp add: info1)
  have key_r: "node_key s1 r = Some (i, INFO_ADDR)" using r neq by (simp add: key1)
  obtain t y where t: "info_tags e = Some t" "tag_sets (set_tags s1) t = Some y"
    using set_invD(4) [OF alloc(2) key_r e1] by (auto simp: info_inv_def)
  obtain ts where fork: "tag_set_fork (Some t) (set_tags s1) = Some (Some t, ts)" "tag_inv ts"
    "tags_kept (set_tags s1) ts"
    using tag_fork_ok [OF set_invD(3) [OF alloc(2)] _ t(2), of 0] rest1(4) by auto
  obtain n m where nm: "nodes s1 (next_node s) = Some n" "node_body n = Info_Entry (fresh_info x)"
      "nodes s1 r = Some m" "node_body m = Info_Entry e"
    using info1 [of "next_node s"] e1 by (auto simp: get_info_Some)
  let ?e' = "e\<lparr>info_refcnt := 1, info_first := None\<rparr>"
  let ?s2 = "s1\<lparr>set_tags := ts, nodes := (nodes s1)(next_node s \<mapsto> n\<lparr>node_body := Info_Entry ?e'\<rparr>,
      r \<mapsto> m\<lparr>node_body := Info_Entry (e\<lparr>info_refcnt := info_refcnt e - 1\<rparr>)\<rparr>)\<rparr>"
  have copied: "\<lparr>info_size = info_size e, info_refcnt = 1, info_reloc = info_reloc e,
      info_hashcode = info_hashcode e, info_tags = Some t, info_first = None\<rparr> = ?e'"
    using t(1) by (cases e) simp
  have key2: "node_key ?s2 q = node_key s1 q" for q using nm by (simp add: node_key_def)
  have succ2: "data_next q ?s2 = data_next q s1" for q using nm by (simp add: data_next_def)
  have info2: "get_info q ?s2 = (if q = next_node s then Some ?e'
      else if q = r then Some (e\<lparr>info_refcnt := info_refcnt e - 1\<rparr>) else get_info q s1)" for q
    using nm neq by (simp add: get_info_def)
  show thesis
  proof (rule that [of ?s2])
    show "cesk_set_duplicate r s = do {
        s3 \<leftarrow> copy_elements (next_node ?s2) (next_idx s) (next_node s) (info_first e) ?s2;
        Some (next_idx s, next_node s, s3) }"
      using alloc(1) e1 t(1) fork(1) nm neq
      by (simp add: cesk_set_duplicate_def upd_info_def fresh_info_def fun_upd_twist copied)
    show "table_inv ?s2"
      by (rule table_inv_cong [OF set_invD(1) [OF alloc(2)] key2])
        (simp_all add: succ2 info2 info1 r(2) neq)
    show "lists_inv ?s2"
      by (rule lists_inv_cong [OF set_invD(2) [OF alloc(2)] key2 succ2])
        (auto simp: info2 info1 r(2) neq fresh_info_def split: if_splits)
    show "tags_kept (set_tags s) (set_tags ?s2)" using tags_kept_trans [OF rest1(3) fork(3)] by simp
  qed (use fork(2) rest1 in \<open>simp_all add: key2 key1 succ2 succ1 info2 info1\<close>)
qed

lemma path_bound:
  assumes "table_inv s" and "distinct ps" and "set ps \<subseteq> set_elem_nodes s i"
  shows "length ps \<le> next_node s"
proof -
  have "set ps \<subseteq> {..<next_node s}"
    using assms(3) table_invD(4) [OF assms(1)] by (auto simp: set_elem_nodes_def)
  then have "card (set ps) \<le> next_node s" by (metis card_lessThan card_mono finite_lessThan)
  with assms(2) show ?thesis by (simp add: distinct_card)
qed

lemma addrs_distinct:
  assumes tab: "table_inv s" and "distinct ps" and "set ps \<subseteq> set_elem_nodes s i"
  shows "distinct (addrs_of s ps)"
proof -
  have "inj_on (\<lambda>q. snd (the (node_key s q))) (set ps)"
    using assms(3) table_invD(3) [OF tab] by (fastforce simp: inj_on_def set_elem_nodes_def)
  with assms(2) show ?thesis by (simp add: addrs_of_def distinct_map)
qed

lemma counts_ok_handle: "counts_ok ts (e\<lparr>info_refcnt := c, info_first := f\<rparr>) as = counts_ok ts e as"
  by (simp add: counts_ok_def)

lemma counts_ok_tags:
  assumes "tags_kept ts ts'" and "info_tags e = Some t" and "tag_sets ts t = Some x" and "counts_ok ts e as"
  shows "counts_ok ts' e as"
proof -
  obtain y where "tag_sets ts' t = Some y" "ts_hashcode y = ts_hashcode x"
    using assms(1,3) by (auto simp: tags_kept_def)
  with assms(2-4) show ?thesis by (simp add: counts_ok_def tag_hash_at_def)
qed

text \<open>
  What a duplicate leaves alone: every node keeps its key and its successor, and every metadata node
  other than the source is unchanged.
\<close>

lemma duplicate_set_inv:
  assumes inv: "set_inv s" and room: "tag_room 2 (set_tags s)" "next_idx s \<noteq> 0xffffffff"
    and r: "node_key s r = Some (i, INFO_ADDR)" "get_info r s = Some e"
  obtains s' e' where "cesk_set_duplicate r s = Some (next_idx s, next_node s, s')" and "set_inv s'"
    and "node_key s' (next_node s) = Some (next_idx s, INFO_ADDR)"
    and "get_info (next_node s) s' = Some e'" and "info_refcnt e' = 1" and "info_tags e' = info_tags e"
    and "get_info r s' = Some (e\<lparr>info_refcnt := info_refcnt e - 1\<rparr>)"
    and "\<And>q k. node_key s q = Some k \<Longrightarrow> node_key s' q = Some k"
    and "\<And>q. q \<noteq> r \<Longrightarrow> q \<noteq> next_node s \<Longrightarrow> get_info q s' = get_info q s"
    and "\<And>j. set_elems s' j = (if j = next_idx s then set_elems s i else set_elems s j)"
    and "next_idx s' = next_idx s + 1" and "tags_kept (set_tags s) (set_tags s')"
proof -
  note tab = set_invD(1) [OF inv]
  have fresh: "node_key s (next_node s) = None" by (rule table_inv_fresh [OF tab])
  obtain s2 where run2: "cesk_set_duplicate r s = do {
      s3 \<leftarrow> copy_elements (next_node s2) (next_idx s) (next_node s) (info_first e) s2;
      Some (next_idx s, next_node s, s3) }"
    and s2: "table_inv s2" "lists_inv s2" "tag_inv (set_tags s2)"
    and key2: "\<And>q. node_key s2 q = (if q = next_node s then Some (next_idx s, INFO_ADDR) else node_key s q)"
    and succ2: "\<And>q. data_next q s2 = data_next q s"
    and info2: "\<And>q. get_info q s2 = (if q = next_node s then Some (e\<lparr>info_refcnt := 1, info_first := None\<rparr>)
           else if q = r then Some (e\<lparr>info_refcnt := info_refcnt e - 1\<rparr>) else get_info q s)"
    and rest2: "next_node s2 = Suc (next_node s)" "next_idx s2 = next_idx s + 1"
      "tags_kept (set_tags s) (set_tags s2)"
    by (rule duplicate_prepare [OF inv room r]) blast
  obtain ps where ps: "dpath (\<lambda>q. data_next q s) (info_first e) ps" "distinct ps"
    "set ps = set_elem_nodes s i" "counts_ok (set_tags s) e (addrs_of s ps)"
    using set_inv_list [OF inv r] .
  have live: "x \<noteq> next_node s \<and> (\<exists>a. a \<noteq> INFO_ADDR \<and> node_key s x = Some (i, a))" if "x \<in> set ps" for x
    using that ps(3) fresh by (auto simp: set_elem_nodes_def)
  have addrs2: "addrs_of s2 ps = addrs_of s ps" using live by (intro addrs_of_cong) (simp add: key2)
  have elems2: "set_elems s2 j = set_elems s j" for j by (rule set_elem_nodes_new_info [OF key2 fresh])
  have none: "set_elems s (next_idx s) = {}" using next_idx_unused [OF tab] by (auto simp: set_elems_def)
  have "\<exists>s' f qs'. copy_elements (next_node s2) (next_idx s) (next_node s) (info_first e) s2 = Some s' \<and>
      table_inv s' \<and> lists_inv s' \<and> elem_frame (next_node s) s2 s' \<and>
      get_info (next_node s) s' = Some (e\<lparr>info_refcnt := 1, info_first := None\<rparr>\<lparr>info_first := f\<rparr>) \<and>
      dpath (\<lambda>q. data_next q s') f qs' \<and> addrs_of s' qs' = rev (addrs_of s2 ps) @ addrs_of s2 [] \<and>
      (\<forall>j. set_elems s' j = (if j = next_idx s then set_elems s2 j \<union> set (addrs_of s2 ps) else set_elems s2 j))"
  proof (rule copy_elements_struct [OF s2(1,2)])
    show "length ps \<le> next_node s2" using path_bound [OF tab ps(2), of i] ps(3) rest2(1) by simp
    show "distinct (addrs_of s2 ps)" unfolding addrs2 using addrs_distinct [OF tab ps(2), of i] ps(3) by simp
    show "set (addrs_of s2 ps) \<inter> set_elems s2 (next_idx s) = {}" using none elems2 by simp
    show "\<exists>i a. a \<noteq> INFO_ADDR \<and> node_key s2 x = Some (i, a)" if "x \<in> set ps" for x
      using live [OF that] by (auto simp: key2)
  qed (use ps(1) in \<open>simp_all add: key2 succ2 info2\<close>)
  then obtain s' f qs' where s': "copy_elements (next_node s2) (next_idx s) (next_node s) (info_first e) s2 = Some s'"
      "table_inv s'" "lists_inv s'" "elem_frame (next_node s) s2 s'"
    and info'': "get_info (next_node s) s' = Some (e\<lparr>info_refcnt := 1, info_first := None\<rparr>\<lparr>info_first := f\<rparr>)"
    and path': "dpath (\<lambda>q. data_next q s') f qs'" "addrs_of s' qs' = rev (addrs_of s2 ps) @ addrs_of s2 []"
    and elems': "\<forall>j. set_elems s' j = (if j = next_idx s then set_elems s2 j \<union> set (addrs_of s2 ps) else set_elems s2 j)"
    by (elim exE conjE)
  have info': "get_info (next_node s) s' = Some (e\<lparr>info_refcnt := 1, info_first := f\<rparr>)" using info'' by simp
  have path: "addrs_of s' qs' = rev (addrs_of s ps)" using path'(2) by (simp add: addrs2 addrs_of_def [of s2 "[]"])
  have elems: "set_elems s' j = (if j = next_idx s then set_elems s i else set_elems s j)" for j
    using elems' none set_elems_path [OF ps(3)] by (simp add: elems2 addrs2)
  note fr = elem_frameD [OF s'(4)]
  have keys: "node_key s' q = Some k" if "node_key s q = Some k" for q k
  proof (rule fr(1))
    show "node_key s2 q = Some k" using that fresh by (auto simp: key2)
  qed
  have tags: "tags_kept (set_tags s) (set_tags s')" using rest2(3) fr(8) by simp
  have frame: "node_key s' x = node_key s x \<and> data_next x s' = data_next x s" if el: "x \<in> set_elem_nodes s j" for x j
  proof -
    obtain a where x: "node_key s x = Some (j, a)" using el by (auto simp: set_elem_nodes_def)
    then have "node_key s2 x = Some (j, a)" using fresh by (auto simp: key2)
    with x keys [OF x] fr(2) [of x] succ2 show ?thesis by simp
  qed
  have "info_inv s' j g" if q: "node_key s' q = Some (j, INFO_ADDR)" "get_info q s' = Some g" for q j g
  proof (cases "q = next_node s")
    case True
    obtain t y where t: "info_tags e = Some t" "tag_sets (set_tags s) t = Some y"
      using set_invD(4) [OF inv r] by (auto simp: info_inv_def)
    then obtain z where z: "tag_sets (set_tags s') t = Some z" using tags by (auto simp: tags_kept_def)
    have "counts_ok (set_tags s') e (rev (addrs_of s ps))"
      unfolding counts_ok_rev by (rule counts_ok_tags [OF tags t ps(4)])
    with True q(2) info' path path'(1) t z show ?thesis
      by (intro info_invI [of _ _ qs']) (auto simp: counts_ok_handle)
  next
    case False
    have key: "node_key s q = Some (j, INFO_ADDR)" using fr(5) [OF q(1)] False by (simp add: key2)
    show ?thesis
    proof (cases "q = r")
      case True
      then have g: "g = e\<lparr>info_refcnt := info_refcnt e - 1\<rparr>" using q(2) fr(3) [OF False] False by (simp add: info2)
      show ?thesis unfolding g info_inv_refcnt
        by (rule info_inv_frame [OF inv key _ frame tags]) (use True r in simp_all)
    next
      case other: False
      then have "get_info q s = Some g" using q(2) fr(3) [OF False] False by (simp add: info2)
      then show ?thesis by (rule info_inv_frame [OF inv key _ frame tags])
    qed
  qed
  then have "set_inv s'" using s2(3) fr(8) by (intro set_invI s'(2,3)) simp_all
  moreover have "node_key s' (next_node s) = Some (next_idx s, INFO_ADDR)" by (rule fr(1)) (simp add: key2)
  moreover have "r \<noteq> next_node s" using r(1) fresh by auto
  then have "get_info r s' = Some (e\<lparr>info_refcnt := info_refcnt e - 1\<rparr>)"
    using fr(3) [of r] by (simp add: info2)
  moreover have "get_info q s' = get_info q s" if "q \<noteq> r" "q \<noteq> next_node s" for q
    using fr(3) [of q] that by (simp add: info2)
  moreover have "cesk_set_duplicate r s = Some (next_idx s, next_node s, s')" using run2 s'(1) by simp
  ultimately show thesis
    using info' keys elems tags fr(7) rest2(2) by (intro that [of s' "e\<lparr>info_refcnt := 1, info_first := f\<rparr>"]) simp_all
qed

subsection \<open>Writing to a set\<close>

text \<open>
  The set that a handle may write to: the one it has when it holds the only reference, a private
  copy otherwise. The elements of every existing set are as before.
\<close>

lemma prepare_to_write_ok:
  assumes inv: "set_inv s" and room: "tag_room 2 (set_tags s)" "next_idx s \<noteq> 0xffffffff"
    and r: "node_key s r = Some (d, INFO_ADDR)" "get_info r s = Some e"
  obtains p d' s' where "cesk_set_prepare_to_write d s = Some (Inr (p, d', s'))" and "set_inv s'"
    and "node_key s' p = Some (d', INFO_ADDR)" and "set_elems s' d' = set_elems s d"
    and "d' = (if info_refcnt e > 1 then next_idx s else d)"
    and "\<And>j. j \<noteq> next_idx s \<Longrightarrow> set_elems s' j = set_elems s j"
    and "tags_kept (set_tags s) (set_tags s')"
proof -
  have find: "cesk_set_hash_find d INFO_ADDR s = Some r" using hash_find_iff [OF set_invD(1) [OF inv]] r(1) by simp
  show thesis
  proof (cases "info_refcnt e > 1")
    case True
    have "cesk_set_duplicate r s = Some (i, p, s') \<Longrightarrow>
        cesk_set_prepare_to_write d s = Some (Inr (p, i, s'))" for i p s'
      using True find r(2) by (simp add: cesk_set_prepare_to_write_def)
    with True show thesis by - (rule duplicate_set_inv [OF inv room r], rule that, simp_all)
  next
    case False
    then have "cesk_set_prepare_to_write d s = Some (Inr (r, d, s))"
      using find r(2) by (simp add: cesk_set_prepare_to_write_def)
    then show thesis by (rule that) (use False inv r in \<open>simp_all add: tags_kept_refl\<close>)
  qed
qed

lemma valid_idx: "d < i \<Longrightarrow> CESK_SET_INVALID \<noteq> d"
  using word_order.extremum_strict [of i] by (auto simp: CESK_SET_INVALID_def)

lemma cesk_set_push_ok:
  assumes inv: "set_inv s" and room: "tag_room 2 (set_tags s)" "next_idx s \<noteq> 0xffffffff"
    and r: "node_key s r = Some (d, INFO_ADDR)" "get_info r s = Some e" and a: "addr \<noteq> CESK_STORE_ADDR_NULL"
  obtains d' s' where "cesk_set_push (Some d) addr s = Some (0, Some d', s')" and "set_inv s'"
    and "d' = (if info_refcnt e > 1 then next_idx s else d)"
    and "set_elems s' d' = insert addr (set_elems s d)"
    and "\<And>j. j \<noteq> d' \<Longrightarrow> j \<noteq> next_idx s \<Longrightarrow> set_elems s' j = set_elems s j"
proof -
  have "d < next_idx s" by (rule table_invD(5) [OF set_invD(1) [OF inv] r(1)])
  then have valid: "CESK_SET_INVALID \<noteq> d" by (rule valid_idx)
  obtain p d' s1 where prep: "cesk_set_prepare_to_write d s = Some (Inr (p, d', s1))" "set_inv s1"
    "node_key s1 p = Some (d', INFO_ADDR)" "set_elems s1 d' = set_elems s d"
    "d' = (if info_refcnt e > 1 then next_idx s else d)"
    and elems1: "\<And>j. j \<noteq> next_idx s \<Longrightarrow> set_elems s1 j = set_elems s j"
    by (rule prepare_to_write_ok [OF inv room r]) blast
  obtain s' where s': "merge_element d' p addr s1 = Some s'" "set_inv s'" "elem_frame p s1 s'"
    and elems: "\<forall>i. set_elems s' i = (if i = d' then insert addr (set_elems s1 i) else set_elems s1 i)"
    by (rule merge_element_set_inv [OF prep(2,3) a])
  have "cesk_set_push (Some d) addr s = Some (0, Some d', s')"
    using a valid prep(1) s'(1) by (simp add: cesk_set_push_def)
  then show thesis
  proof (rule that [OF _ s'(2) prep(5)])
    show "set_elems s' d' = insert addr (set_elems s d)" using elems prep(4) by simp
    show "set_elems s' j = set_elems s j" if "j \<noteq> d'" "j \<noteq> next_idx s" for j
      using elems elems1 [of j] that by simp
  qed
qed

subsection \<open>Comparing sets\<close>

lemma iter_next_step:
  assumes "node_key s p = Some (i, a)" and "data_next p s = Some nx"
  shows "cesk_set_iter_next (Some p) s = Some (a, nx)"
  using assms by (auto simp: cesk_set_iter_next_def node_key_def)

lemma hash_elements_eq:
  assumes "dpath (\<lambda>q. data_next q s) q ps" and "set ps \<subseteq> set_elem_nodes s i" and "length ps < fuel"
  shows "hash_elements fuel q ret s = Some (ret XOR xor_list (map (\<lambda>a. a * MH_MULTIPLY) (addrs_of s ps)))"
  using assms
proof (induction ps arbitrary: q fuel ret)
  case Nil
  then show ?case by (cases fuel) (simp_all add: cesk_set_iter_next_def addrs_of_def)
next
  case (Cons p ps)
  then obtain nx a f where p: "q = Some p" "data_next p s = Some nx" "dpath (\<lambda>q. data_next q s) nx ps"
    and a: "a \<noteq> INFO_ADDR" "node_key s p = Some (i, a)" and f: "fuel = Suc f" "length ps < f"
    by (cases fuel) (auto simp: set_elem_nodes_def)
  have "addrs_of s (p # ps) = a # addrs_of s ps" using a by (simp add: addrs_of_def)
  with p a f Cons.IH [OF p(3) _ f(2)] Cons.prems(2) show ?case
    by (simp add: iter_next_step [OF a(2) p(2)] xor.assoc)
qed

lemma all_contained_eq:
  assumes "table_inv s" and "dpath (\<lambda>q. data_next q s) q ps" and "set ps \<subseteq> set_elem_nodes s i"
    and "length ps < fuel"
  shows "all_contained fuel q g s = Some (set (addrs_of s ps) \<subseteq> set_elems s g)"
  using assms(2-)
proof (induction ps arbitrary: q fuel)
  case Nil
  then show ?case by (cases fuel) (simp_all add: cesk_set_iter_next_def addrs_of_def)
next
  case (Cons p ps)
  then obtain nx a f where p: "q = Some p" "data_next p s = Some nx" "dpath (\<lambda>q. data_next q s) nx ps"
    and a: "a \<noteq> INFO_ADDR" "node_key s p = Some (i, a)" and f: "fuel = Suc f" "length ps < f"
    by (cases fuel) (auto simp: set_elem_nodes_def)
  have "addrs_of s (p # ps) = a # addrs_of s ps" using a by (simp add: addrs_of_def)
  moreover have "cesk_set_contain (Some g) a s \<longleftrightarrow> a \<in> set_elems s g"
    using set_elems_find [OF assms(1)] by (simp add: cesk_set_contain_def)
  ultimately show ?case
    using p a f Cons.IH [OF p(3) _ f(2)] Cons.prems(2) by (simp add: iter_next_step [OF a(2) p(2)])
qed

text \<open>A set has fewer elements than there are addresses, so that its size does not wrap around.\<close>

lemma addrs_length:
  assumes "distinct as" and "INFO_ADDR \<notin> set as"
  shows "length as < 2 ^ 32"
proof -
  have "set as \<subset> (UNIV :: u32 set)" using assms(2) by blast
  then have "card (set as) < card (UNIV :: u32 set)" by (intro psubset_card_mono) simp_all
  with assms(1) show ?thesis by (simp add: distinct_card card_word)
qed

lemma size_eq_iff:
  assumes "length xs < 2 ^ 32" and "length ys < 2 ^ 32"
  shows "(of_nat (length xs) :: u32) = of_nat (length ys) \<longleftrightarrow> length xs = length ys"
  using assms by (simp add: word_of_nat_eq_iff take_bit_nat_eq_self)

lemma set_inv_summary:
  assumes inv: "set_inv s" and r: "node_key s r = Some (i, INFO_ADDR)" "get_info r s = Some e"
  obtains ps where "dpath (\<lambda>q. data_next q s) (info_first e) ps" and "set ps \<subseteq> set_elem_nodes s i"
    and "length ps < Suc (next_node s)" and "distinct (addrs_of s ps)" and "set (addrs_of s ps) = set_elems s i"
    and "length (addrs_of s ps) < 2 ^ 32" and "counts_ok (set_tags s) e (addrs_of s ps)"
    and "cesk_set_hash_find i INFO_ADDR s = Some r"
proof -
  note tab = set_invD(1) [OF inv]
  obtain ps where ps: "dpath (\<lambda>q. data_next q s) (info_first e) ps" "distinct ps"
    "set ps = set_elem_nodes s i" "counts_ok (set_tags s) e (addrs_of s ps)"
    using set_inv_list [OF inv r] .
  have dist: "distinct (addrs_of s ps)" using addrs_distinct [OF tab ps(2), of i] ps(3) by simp
  have elems: "set (addrs_of s ps) = set_elems s i" by (rule set_elems_path [OF ps(3)])
  then have "INFO_ADDR \<notin> set (addrs_of s ps)" by (simp add: set_elems_def)
  with dist have "length (addrs_of s ps) < 2 ^ 32" by (rule addrs_length)
  moreover have "length ps < Suc (next_node s)" using path_bound [OF tab ps(2), of i] ps(3) by simp
  moreover have "cesk_set_hash_find i INFO_ADDR s = Some r" using hash_find_iff [OF tab] r(1) by simp
  ultimately show thesis using ps dist elems by (intro that) simp_all
qed

lemma upd_refcnt_set_inv:
  assumes inv: "set_inv s" and e: "get_info r s = Some e"
  obtains s' where "upd_info r (\<lambda>e. e\<lparr>info_refcnt := f e\<rparr>) s = Some s'" and "set_inv s'"
    and "\<forall>q. node_key s' q = node_key s q"
    and "\<forall>q. get_info q s' = (if q = r then Some (e\<lparr>info_refcnt := f e\<rparr>) else get_info q s)"
    and "set_elems s' = set_elems s" and "next_idx s' = next_idx s" and "set_tags s' = set_tags s"
    and "empty_set_idx s' = empty_set_idx s" and "empty_set_metadata s' = empty_set_metadata s"
proof -
  obtain s' where run: "upd_info r (\<lambda>e. e\<lparr>info_refcnt := f e\<rparr>) s = Some s'"
    and key: "\<And>q. node_key s' q = node_key s q" and succ: "\<And>q. data_next q s' = data_next q s"
    and info: "\<And>q. get_info q s' = (if q = r then Some (e\<lparr>info_refcnt := f e\<rparr>) else get_info q s)"
    and rest: "set_hash s' = set_hash s" "next_node s' = next_node s" "next_idx s' = next_idx s"
      "set_tags s' = set_tags s" "empty_set_idx s' = empty_set_idx s"
      "empty_set_metadata s' = empty_set_metadata s"
    using upd_info_eq [OF e] by blast
  have "table_inv s'"
    by (rule table_inv_cong [OF set_invD(1) [OF inv] key]) (use rest e succ info in auto)
  moreover have "lists_inv s'"
    by (rule lists_inv_cong [OF set_invD(2) [OF inv] key succ]) (auto simp: info e split: if_splits)
  moreover have "info_inv s' i g" if q: "node_key s' q = Some (i, INFO_ADDR)" "get_info q s' = Some g" for q i g
  proof -
    obtain g0 where "get_info q s = Some g0" "g = g0 \<or> g = g0\<lparr>info_refcnt := f e\<rparr>"
      using q(2) e by (auto simp: info split: if_splits)
    moreover from this(1) have "info_inv s' i g0"
      by (rule info_inv_frame [OF inv q(1) [unfolded key]]) (simp_all add: key succ rest tags_kept_refl)
    ultimately show ?thesis by auto
  qed
  ultimately have "set_inv s'" using set_invD(3) [OF inv] rest(4) by (intro set_invI) simp_all
  moreover have "set_elems s' = set_elems s" by (simp add: fun_eq_iff set_elems_def key)
  ultimately show thesis using key info rest by (intro that [OF run]) simp_all
qed

subsection \<open>Initialisation\<close>

definition set_boot :: set_state where
  "set_boot = \<lparr>nodes = Map.empty, set_hash = (\<lambda>_. []), next_node = 0, next_idx = 0,
     set_tags = tag_boot\<lparr>tag_sets := [0 \<mapsto> tag_set_empty_static\<lparr>ts_refcnt := 1\<rparr>]\<rparr>,
     empty_set_idx = 0, empty_set_metadata = 0\<rparr>"

lemma set_boot_views [simp]: "node_key set_boot q = None" "get_info q set_boot = None"
  by (simp_all add: set_boot_def node_key_def get_info_def)

lemma set_boot_inv: "set_inv set_boot"
  by (rule set_invI)
    (auto simp: table_inv_def lists_inv_def set_boot_def [unfolded fun_eq_iff] tag_inv_def tag_boot_def
      tag_set_empty_static_def tag_ok_def tag_hash_def node_key_def)

text \<open>After initialisation there is one set, the empty one, with the reference the module keeps.\<close>

lemma set_init_ok:
  obtains s e where "cesk_set_init set_boot = Some s" and "set_inv s" and "node_key s 0 = Some (0, INFO_ADDR)"
    and "get_info 0 s = Some e" and "info_refcnt e = 1" and "\<forall>i. set_elems s i = {}" and "next_idx s = 1"
    and "empty_set_idx s = 0" and "empty_set_metadata s = 0" and "tag_room 9 (set_tags s)"
proof -
  have room: "tag_room (Suc 9) (set_tags set_boot)" "next_idx set_boot \<noteq> 0xffffffff"
    by (simp_all add: tag_room_def set_boot_def)
  have start: "next_node set_boot = 0" "next_idx set_boot = 0" "\<forall>i. set_elems set_boot i = {}"
    by (simp_all add: set_boot_def set_elems_def node_key_def)
  obtain s1 x where alloc: "cesk_set_idx_alloc set_boot = Some (next_idx set_boot, next_node set_boot, s1)" "set_inv s1"
    and key: "\<And>q. node_key s1 q = (if q = next_node set_boot then Some (next_idx set_boot, INFO_ADDR) else node_key set_boot q)"
    and info: "\<And>q. get_info q s1 = (if q = next_node set_boot then Some (fresh_info x) else get_info q set_boot)"
    and rest: "next_idx s1 = next_idx set_boot + 1" "tag_room 9 (set_tags s1)"
      "empty_set_idx s1 = empty_set_idx set_boot" "empty_set_metadata s1 = empty_set_metadata set_boot"
    using idx_alloc_set_inv [OF set_boot_inv room] by metis
  have "s1\<lparr>empty_set_idx := 0, empty_set_metadata := 0\<rparr> = s1"
    using rest(3,4) by (cases s1) (simp add: set_boot_def)
  then have run: "cesk_set_init set_boot = upd_info 0 (\<lambda>e. e\<lparr>info_refcnt := info_refcnt e + 1\<rparr>) s1"
    using alloc(1) by (simp add: cesk_set_init_def start)
  have e: "get_info 0 s1 = Some (fresh_info x)" by (simp add: info start)
  have elems: "set_elems s1 i = {}" for i by (auto simp: set_elems_def key split: if_splits)
  obtain s' where s': "upd_info 0 (\<lambda>e. e\<lparr>info_refcnt := info_refcnt e + 1\<rparr>) s1 = Some s'" "set_inv s'"
    "\<forall>q. node_key s' q = node_key s1 q"
    "\<forall>q. get_info q s' = (if q = 0 then Some ((fresh_info x)\<lparr>info_refcnt := info_refcnt (fresh_info x) + 1\<rparr>) else get_info q s1)"
    "set_elems s' = set_elems s1" "next_idx s' = next_idx s1" "set_tags s' = set_tags s1"
    "empty_set_idx s' = empty_set_idx s1" "empty_set_metadata s' = empty_set_metadata s1"
    by (rule upd_refcnt_set_inv [OF alloc(2) e])
  show thesis
  proof (rule that)
    show "cesk_set_init set_boot = Some s'" using run s'(1) by simp
    show "get_info 0 s' = Some ((fresh_info x)\<lparr>info_refcnt := 1\<rparr>)" using s'(4) by (simp add: fresh_info_def)
  qed (use s' rest in \<open>simp_all add: key start elems set_boot_def\<close>)
qed

subsection \<open>Properties of the address sets\<close>

text \<open>
  A handle is live when its index has a metadata node with a positive counter.
\<close>

definition live_set :: "set_state \<Rightarrow> u32 \<Rightarrow> set_info \<Rightarrow> bool" where
  "live_set s d e \<longleftrightarrow> (\<exists>r. node_key s r = Some (d, INFO_ADDR) \<and> get_info r s = Some e) \<and> 0 < info_refcnt e"

text \<open>
  C1: Pushing an address on a live handle always succeeds. The handle then denotes the old elements
  with the address added, under its old index when it was the only one and under a fresh index
  otherwise; every other existing set has the elements it had, and the invariant of the table is
  kept.
\<close>

theorem cesk_set_push_correct:
  assumes "set_inv s" and "live_set s d e" and "addr \<noteq> CESK_STORE_ADDR_NULL"
    and "tag_room 2 (set_tags s)" and "next_idx s \<noteq> 0xffffffff"
  shows "\<exists>d' s'. cesk_set_push (Some d) addr s = Some (0, Some d', s') \<and> set_inv s' \<and>
    set_elems s' d' = insert addr (set_elems s d) \<and>
    (if info_refcnt e > 1 then d' = next_idx s \<and> set_elems s' d = set_elems s d else d' = d) \<and>
    (\<forall>j < next_idx s. j \<noteq> d' \<longrightarrow> set_elems s' j = set_elems s j)"
proof -
  obtain r where r: "node_key s r = Some (d, INFO_ADDR)" "get_info r s = Some e"
    using assms(2) by (auto simp: live_set_def)
  have d: "d \<noteq> next_idx s" using table_invD(5) [OF set_invD(1) [OF assms(1)] r(1)] by auto
  obtain d' s' where run: "cesk_set_push (Some d) addr s = Some (0, Some d', s')" "set_inv s'"
    "d' = (if info_refcnt e > 1 then next_idx s else d)" "set_elems s' d' = insert addr (set_elems s d)"
    and other: "\<And>j. j \<noteq> d' \<Longrightarrow> j \<noteq> next_idx s \<Longrightarrow> set_elems s' j = set_elems s j"
    by (rule cesk_set_push_ok [OF assms(1,4,5) r assms(3)]) blast
  have "\<forall>j < next_idx s. j \<noteq> d' \<longrightarrow> set_elems s' j = set_elems s j" using other by auto
  with run other [of d] d show ?thesis by (intro exI conjI) (auto split: if_splits)
qed

text \<open>The handle that a client obtains for the empty set after initialisation.\<close>

lemma empty_handle:
  obtains s e where "do { s \<leftarrow> cesk_set_init set_boot; cesk_set_empty_set s } = Some (0, s)" and "set_inv s"
    and "live_set s 0 e" and "info_refcnt e = 2" and "set_elems s 0 = {}" and "next_idx s = 1"
    and "tag_room 2 (set_tags s)"
proof -
  obtain s0 e where s0: "cesk_set_init set_boot = Some s0" "set_inv s0" "node_key s0 0 = Some (0, INFO_ADDR)"
    "get_info 0 s0 = Some e" "info_refcnt e = 1" "\<forall>i. set_elems s0 i = {}" "next_idx s0 = 1"
    "empty_set_idx s0 = 0" "empty_set_metadata s0 = 0" "tag_room 9 (set_tags s0)"
    by (rule set_init_ok)
  obtain s' where s': "upd_info 0 (\<lambda>e. e\<lparr>info_refcnt := info_refcnt e + 1\<rparr>) s0 = Some s'" "set_inv s'"
    "\<forall>q. node_key s' q = node_key s0 q"
    "\<forall>q. get_info q s' = (if q = 0 then Some (e\<lparr>info_refcnt := info_refcnt e + 1\<rparr>) else get_info q s0)"
    "set_elems s' = set_elems s0" "next_idx s' = next_idx s0" "set_tags s' = set_tags s0"
    "empty_set_idx s' = empty_set_idx s0" "empty_set_metadata s' = empty_set_metadata s0"
    by (rule upd_refcnt_set_inv [OF s0(2,4)])
  show thesis
  proof (rule that)
    show "do { s \<leftarrow> cesk_set_init set_boot; cesk_set_empty_set s } = Some (0, s')"
      using s0 s' by (simp add: cesk_set_empty_set_def)
    show "live_set s' 0 (e\<lparr>info_refcnt := 2\<rparr>)"
      using s0 s' by (auto simp: live_set_def intro!: exI [of _ 0])
    show "tag_room 2 (set_tags s')" using s0(10) s'(7) by (force simp: tag_room_def)
  qed (use s0 s' in simp_all)
qed

theorem cesk_set_push_correct_witness:
  "\<exists>s d' s'. cesk_set_push (Some 0) 5 s = Some (0, Some d', s') \<and> d' = 1 \<and> set_elems s' d' = {5} \<and>
     set_elems s' 0 = {}"
proof -
  obtain s e where s: "set_inv s" "live_set s 0 e" "info_refcnt e = 2" "set_elems s 0 = {}" "next_idx s = 1"
    "tag_room 2 (set_tags s)" by (rule empty_handle)
  have "5 \<noteq> CESK_STORE_ADDR_NULL" by (simp add: addr_const_defs)
  from cesk_set_push_correct [OF s(1,2) this s(6)] s(3-5) show ?thesis by auto
qed

subsection \<open>Releasing a set\<close>

text \<open>The nodes of a set of pointers are taken out of the memory and out of the chains.\<close>

definition without :: "nat set \<Rightarrow> set_state \<Rightarrow> set_state" where
  "without P s = s\<lparr>nodes := nodes s |` (- P), set_hash := \<lambda>h. filter (\<lambda>q. q \<notin> P) (set_hash s h)\<rparr>"

lemma without_views:
  "node_key (without P s) q = (if q \<in> P then None else node_key s q)"
  "data_next q (without P s) = (if q \<in> P then None else data_next q s)"
  "get_info q (without P s) = (if q \<in> P then None else get_info q s)"
  "set_hash (without P s) h = filter (\<lambda>q. q \<notin> P) (set_hash s h)"
  "next_node (without P s) = next_node s" "next_idx (without P s) = next_idx s" "set_tags (without P s) = set_tags s"
  by (simp_all add: without_def node_key_def data_next_def get_info_def)

lemma set_tags_views [simp]:
  "node_key (s\<lparr>set_tags := ts\<rparr>) q = node_key s q" "data_next q (s\<lparr>set_tags := ts\<rparr>) = data_next q s"
  "get_info q (s\<lparr>set_tags := ts\<rparr>) = get_info q s"
  by (simp_all add: node_key_def data_next_def get_info_def)

lemma without_empty [simp]: "without {} s = s"
  by (simp add: without_def restrict_map_def)

lemma without_twice: "without P (without Q s) = without (P \<union> Q) s"
  by (simp add: without_def restrict_map_def fun_eq_iff conj_commute cong: if_cong)

lemma unlink_without:
  assumes "\<And>h. distinct (set_hash s h)" "\<And>h. p \<in> set (set_hash s h) \<Longrightarrow> h = set_slot i a"
  shows "(chain_unlink p i a s)\<lparr>nodes := (nodes s)(p := None)\<rparr> = without {p} s"
proof -
  have "nodes s |` (- {p}) = (nodes s)(p := None)" by (auto simp: restrict_map_def fun_eq_iff)
  moreover have "(set_hash s)(set_slot i a := remove1 p (set_hash s (set_slot i a))) = (\<lambda>h. filter (\<lambda>q. q \<notin> {p}) (set_hash s h))"
  proof
    fix h
    show "((set_hash s)(set_slot i a := remove1 p (set_hash s (set_slot i a)))) h = filter (\<lambda>q. q \<notin> {p}) (set_hash s h)"
    proof (cases "h = set_slot i a")
      case True
      then show ?thesis using assms(1) by (simp add: distinct_remove1_removeAll removeAll_filter_not_eq)
        (rule filter_cong; auto)
    next
      case False
      then show ?thesis using assms(2) [of h] by (auto intro!: filter_True [symmetric])
    qed
  qed
  ultimately show ?thesis by (simp add: chain_unlink_def without_def)
qed

lemma free_elements_ok:
  assumes "dpath (\<lambda>q. data_next q s) x ps" "distinct ps" "length ps \<le> fuel"
    and "\<And>h. distinct (set_hash s h)" "\<And>p h n. nodes s p = Some n \<Longrightarrow> p \<in> set (set_hash s h) \<Longrightarrow> h = set_slot (node_idx n) (node_addr n)"
  shows "free_elements fuel x s = Some (without (set ps) s)"
  using assms
proof (induction ps arbitrary: fuel x s)
  case (Cons p ps)
  then obtain nx f where x: "x = Some p" "data_next p s = Some nx" "dpath (\<lambda>q. data_next q s) nx ps" "fuel = Suc f" "length ps \<le> f"
    by (cases fuel) auto
  obtain n where n: "nodes s p = Some n" using x(2) by (auto simp: data_next_Some)
  have s1: "(chain_unlink p (node_idx n) (node_addr n) s)\<lparr>nodes := (nodes s)(p := None)\<rparr> = without {p} s"
    using Cons.prems(4,5) n by (intro unlink_without) blast+
  have "free_elements f nx (without {p} s) = Some (without (set ps) (without {p} s))"
  proof (rule Cons.IH [OF _ _ x(5)])
    show "dpath (\<lambda>q. data_next q (without {p} s)) nx ps"
      using x(3) Cons.prems(2) by (subst dpath_cong [of _ _ "\<lambda>q. data_next q s"]) (auto simp: without_views)
    show "h = set_slot (node_idx m) (node_addr m)" if "nodes (without {p} s) r = Some m" "r \<in> set (set_hash (without {p} s) h)" for r h m
      using Cons.prems(5) that by (auto simp: without_def restrict_map_def split: if_splits)
  qed (use Cons.prems(2,4) in \<open>simp_all add: without_views\<close>)
  moreover have "nodes (chain_unlink p (node_idx n) (node_addr n) s) = nodes s"
    "data_next p (chain_unlink p (node_idx n) (node_addr n) s) = data_next p s" by (simp_all add: chain_unlink_def data_next_def)
  ultimately show ?case using x n s1 by (simp add: Let_def without_twice insert_is_Un [symmetric] Un_commute)
qed simp

text \<open>The nodes of an index: its metadata and its elements. A set disappears as a whole.\<close>

definition idx_nodes :: "set_state \<Rightarrow> u32 \<Rightarrow> nat set" where
  "idx_nodes s i = {q. \<exists>a. node_key s q = Some (i, a)}"

text \<open>No tag set has fewer references than users; the shared empty set has one of its own.\<close>

definition tag_users :: "set_state \<Rightarrow> nat \<Rightarrow> nat set" where
  "tag_users s t = {r. \<exists>e. get_info r s = Some e \<and> info_tags e = Some t}"

lemma tag_users_tags [simp]: "tag_users (s\<lparr>set_tags := ts\<rparr>) = tag_users s"
  by (simp add: tag_users_def fun_eq_iff)

definition tags_used :: "set_state \<Rightarrow> bool" where
  "tags_used s \<longleftrightarrow> (\<forall>t x. tag_sets (set_tags s) t = Some x \<longrightarrow> card (tag_users s t) + of_bool (t = 0) \<le> unat (ts_refcnt x))"

lemma without_idx_table:
  assumes inv: "table_inv s"
  shows "table_inv (without (idx_nodes s i) s)"
proof -
  note D = table_invD [OF inv]
  let ?s = "without (idx_nodes s i) s"
  have key: "node_key ?s q = Some (j, a) \<longleftrightarrow> j \<noteq> i \<and> node_key s q = Some (j, a)" for q j a
    by (auto simp: without_views idx_nodes_def)
  have same: "get_info q ?s = get_info q s" "data_next q ?s = data_next q s" if "node_key ?s q \<noteq> None" for q
    using that by (auto simp: without_views split: if_splits)
  have slots: "set (set_hash ?s h) = {q. \<exists>k. node_key ?s q = Some k \<and> slot_of k = h}" for h
    using D(2) [of h] by (auto simp: without_views split: if_splits)
  show ?thesis
    unfolding table_inv_def
  proof (intro conjI allI impI)
    fix h show "distinct (set_hash ?s h)" using D(1) by (simp add: without_views)
  next
    fix q r k assume "node_key ?s q = Some k \<and> node_key ?s r = Some k"
    then show "q = r" using D(3) by (cases k) (auto simp: key)
  next
    fix q j a assume k: "node_key ?s q = Some (j, a)"
    then have old: "j \<noteq> i" "node_key s q = Some (j, a)" by (simp_all add: key)
    show "q < next_node ?s" "j < next_idx ?s" using D(4,5) [OF old(2)] by (simp_all add: without_views)
    show "\<exists>r. node_key ?s r = Some (j, INFO_ADDR)" using D(8) [OF old(2)] old(1) by (simp add: key)
    show "get_info q ?s \<noteq> None \<longleftrightarrow> a = INFO_ADDR" "data_next q ?s \<noteq> None \<longleftrightarrow> a \<noteq> INFO_ADDR"
      using same [of q] k D(6,7) [of q j a] by (auto simp: key)
  qed (rule slots)
qed

lemma without_idx_elems: "j \<noteq> i \<Longrightarrow> set_elem_nodes (without (idx_nodes s i) s) j = set_elem_nodes s j"
  by (auto simp: set_elem_nodes_def without_views idx_nodes_def)

lemma without_idx_lists:
  assumes inv: "lists_inv s"
  shows "lists_inv (without (idx_nodes s i) s)"
  unfolding lists_inv_def
proof (intro allI impI)
  let ?s = "without (idx_nodes s i) s"
  fix r j e assume "node_key ?s r = Some (j, INFO_ADDR) \<and> get_info r ?s = Some e"
  then have r: "j \<noteq> i" "node_key s r = Some (j, INFO_ADDR)" "get_info r s = Some e"
    by (auto simp: without_views idx_nodes_def split: if_splits)
  obtain ps where ps: "dpath (\<lambda>q. data_next q s) (info_first e) ps" "distinct ps" "set ps = set_elem_nodes s j"
    using lists_invD [OF inv r(2,3)] by blast
  have "dpath (\<lambda>q. data_next q ?s) (info_first e) ps"
    using ps(1,3) r(1) by (subst dpath_cong [of _ _ "\<lambda>q. data_next q s"]) (auto simp: without_views idx_nodes_def set_elem_nodes_def)
  then show "\<exists>ps. dpath (\<lambda>q. data_next q ?s) (info_first e) ps \<and> distinct ps \<and> set ps = set_elem_nodes ?s j"
    using ps without_idx_elems [OF r(1)] by blast
qed

text \<open>The tags of the other sets outlive the release.\<close>

definition tags_survive :: "set_state \<Rightarrow> tag_state \<Rightarrow> bool" where
  "tags_survive s ts \<longleftrightarrow> tag_inv ts \<and> (\<forall>r e t x. get_info r s = Some e \<longrightarrow> info_tags e = Some t \<longrightarrow>
     tag_sets (set_tags s) t = Some x \<longrightarrow> (\<exists>y. tag_sets ts t = Some y \<and> ts_hashcode y = ts_hashcode x))"

lemma info_inv_without:
  assumes inv: "set_inv s" and r: "node_key s r = Some (j, INFO_ADDR)" "get_info r s = Some e" "j \<noteq> i"
    and ts: "tags_survive (without (idx_nodes s i) s) ts"
  shows "info_inv ((without (idx_nodes s i) s)\<lparr>set_tags := ts\<rparr>) j e"
proof -
  let ?s = "(without (idx_nodes s i) s)\<lparr>set_tags := ts\<rparr>"
  have out: "q \<notin> idx_nodes s i" if "q \<in> set_elem_nodes s j \<or> q = r" for q
    using that r(1,3) by (auto simp: idx_nodes_def set_elem_nodes_def)
  obtain ps where ps: "dpath (\<lambda>q. data_next q s) (info_first e) ps" "set ps = set_elem_nodes s j" "counts_ok (set_tags s) e (addrs_of s ps)"
    using set_inv_list [OF inv r(1,2)] by metis
  obtain t x where t: "info_tags e = Some t" "tag_sets (set_tags s) t = Some x"
    using set_invD(4) [OF inv r(1,2)] by (auto simp: info_inv_def)
  moreover have "get_info r (without (idx_nodes s i) s) = Some e" using r(2) out [of r] by (simp add: without_views)
  ultimately obtain y where y: "tag_sets ts t = Some y" "ts_hashcode y = ts_hashcode x"
    using ts t(2) unfolding tags_survive_def without_views(7) by blast
  have "dpath (\<lambda>q. data_next q ?s) (info_first e) ps"
    using ps(1,2) out by (subst dpath_cong [of _ _ "\<lambda>q. data_next q s"]) (auto simp: without_views)
  moreover have "addrs_of ?s ps = addrs_of s ps" using ps(2) out by (intro addrs_of_cong) (auto simp: without_views)
  ultimately show ?thesis using ps(3) t y by (intro info_invI [of _ _ ps]) (simp_all add: counts_ok_def tag_hash_at_def)
qed

lemma without_idx_set_inv:
  assumes inv: "set_inv s" and ts: "tags_survive (without (idx_nodes s i) s) ts"
  shows "set_inv ((without (idx_nodes s i) s)\<lparr>set_tags := ts\<rparr>)"
proof (rule set_invI)
  let ?w = "without (idx_nodes s i) s"
  show "table_inv (?w\<lparr>set_tags := ts\<rparr>)"
    by (rule table_inv_cong [OF without_idx_table [OF set_invD(1) [OF inv]]]) simp_all
  show "lists_inv (?w\<lparr>set_tags := ts\<rparr>)"
    by (rule lists_inv_cong [OF without_idx_lists [OF set_invD(2) [OF inv]]]) auto
  show "tag_inv (set_tags (?w\<lparr>set_tags := ts\<rparr>))" using ts by (simp add: tags_survive_def)
  show "info_inv (?w\<lparr>set_tags := ts\<rparr>) j e"
    if "node_key (?w\<lparr>set_tags := ts\<rparr>) r = Some (j, INFO_ADDR)" "get_info r (?w\<lparr>set_tags := ts\<rparr>) = Some e" for r j e
  proof (rule info_inv_without [OF inv _ _ _ ts])
    show "node_key s r = Some (j, INFO_ADDR)" "get_info r s = Some e" "j \<noteq> i"
      using that unfolding set_tags_views by (auto simp: without_views idx_nodes_def split: if_splits)
  qed
qed

lemma tag_users_finite: "table_inv s \<Longrightarrow> (\<And>q. get_info q s \<noteq> None \<Longrightarrow> node_key s q \<noteq> None) \<Longrightarrow> finite (tag_users s t)"
  using table_invD(4) [of s] by (intro finite_subset [OF _ finite_lessThan [of "next_node s"]]) (fastforce simp: tag_users_def)

lemma get_info_key: "get_info q s \<noteq> None \<Longrightarrow> node_key s q \<noteq> None"
  by (auto simp: get_info_def node_key_def split: Option.bind_splits)

text \<open>The release of the tags of a set that is no longer there.\<close>

lemma tag_free_ok:
  assumes inv: "set_inv s" and used: "tags_used s" and r: "node_key s r = Some (i, INFO_ADDR)" "get_info r s = Some e"
  obtains ts where "tag_set_free (info_tags e) (set_tags s) = Some ts" "tags_survive (without (idx_nodes s i) s) ts"
    "tags_used ((without (idx_nodes s i) s)\<lparr>set_tags := ts\<rparr>)"
proof -
  let ?w = "without (idx_nodes s i) s"
  obtain t x where t: "info_tags e = Some t" "tag_sets (set_tags s) t = Some x"
    using set_invD(4) [OF inv r] by (auto simp: info_inv_def)
  have uniq: "q = r" if q: "node_key s q = Some (i, a)" "get_info q s = Some f" for q a f
  proof -
    have "a = INFO_ADDR" using table_invD(6) [OF set_invD(1) [OF inv] q(1)] q(2) by simp
    then show ?thesis using table_invD(3) [OF set_invD(1) [OF inv] q(1)] r(1) by simp
  qed
  have gone: "r \<in> idx_nodes s i" using r(1) by (simp add: idx_nodes_def)
  have users: "tag_users ?w u = tag_users s u - {r}" for u
  proof (rule set_eqI)
    fix q
    have "q \<notin> idx_nodes s i" if "get_info q s = Some f" "q \<noteq> r" for f using uniq that by (auto simp: idx_nodes_def)
    then show "q \<in> tag_users ?w u \<longleftrightarrow> q \<in> tag_users s u - {r}"
      using gone by (cases "q = r") (auto simp: tag_users_def without_views(3))
  qed
  have fin: "finite (tag_users s u)" for u by (rule tag_users_finite [OF set_invD(1) [OF inv] get_info_key])
  have mem: "r \<in> tag_users s t" using r(2) t(1) by (simp add: tag_users_def)
  have le: "Suc (card (tag_users ?w t)) + of_bool (t = 0) \<le> unat (ts_refcnt x)"
    using used t(2) card_Suc_Diff1 [OF fin mem] by (simp add: tags_used_def users)
  then have pos: "ts_refcnt x \<noteq> 0" by auto
  have others: "card (tag_users ?w u) \<le> card (tag_users s u)" for u unfolding users by (intro card_mono fin) auto
  show thesis
  proof (cases "ts_refcnt x = 1")
    case True
    then have last: "tag_users ?w t = {}" "t \<noteq> 0" using le fin [of t] by (auto simp: users card_eq_0_iff)
    let ?ts = "(set_tags s)\<lparr>tag_sets := (tag_sets (set_tags s))(t := None)\<rparr>"
    have run: "tag_set_decref t (set_tags s) = Some ?ts" by (rule tag_decref_last [OF t(2) True last(2)])
    show thesis
    proof (rule that [of ?ts])
      show "tag_set_free (info_tags e) (set_tags s) = Some ?ts" using run t(1) by (simp add: tag_set_free_def)
      have alone: "info_tags g \<noteq> Some t" if "get_info q ?w = Some g" for q g using last(1) that by (auto simp: tag_users_def)
      then show "tags_survive ?w ?ts"
        using tag_decref_inv [OF set_invD(3) [OF inv] run] by (auto simp: tags_survive_def without_views(7))
      show "tags_used (?w\<lparr>set_tags := ?ts\<rparr>)"
        unfolding tags_used_def tag_users_tags
      proof (intro allI impI)
        fix u y assume "tag_sets (set_tags (?w\<lparr>set_tags := ?ts\<rparr>)) u = Some y"
        then have "tag_sets (set_tags s) u = Some y" by (simp split: if_splits)
        then have "card (tag_users s u) + of_bool (u = 0) \<le> unat (ts_refcnt y)" using used by (simp add: tags_used_def)
        then show "card (tag_users ?w u) + of_bool (u = 0) \<le> unat (ts_refcnt y)" using others [of u] by linarith
      qed
    qed
  next
    case False
    let ?ts = "(set_tags s)\<lparr>tag_sets := (tag_sets (set_tags s))(t \<mapsto> x\<lparr>ts_refcnt := ts_refcnt x - 1\<rparr>)\<rparr>"
    have run: "tag_set_decref t (set_tags s) = Some ?ts" by (rule tag_decref_eq [OF t(2) False])
    show thesis
    proof (rule that [of ?ts])
      show "tag_set_free (info_tags e) (set_tags s) = Some ?ts" using run t(1) by (simp add: tag_set_free_def)
      show "tags_survive ?w ?ts"
        using tag_decref_inv [OF set_invD(3) [OF inv] run] t(2) by (auto simp: tags_survive_def without_views(7))
      have "unat (ts_refcnt x - 1) = unat (ts_refcnt x) - 1" using pos by (simp add: unat_minus_one)
      then have new: "card (tag_users ?w t) + of_bool (t = 0) \<le> unat (ts_refcnt x - 1)" using le by linarith
      show "tags_used (?w\<lparr>set_tags := ?ts\<rparr>)"
        unfolding tags_used_def tag_users_tags
      proof (intro allI impI)
        fix u y assume u: "tag_sets (set_tags (?w\<lparr>set_tags := ?ts\<rparr>)) u = Some y"
        show "card (tag_users ?w u) + of_bool (u = 0) \<le> unat (ts_refcnt y)"
        proof (cases "u = t")
          case True
          then have "ts_refcnt y = ts_refcnt x - 1" using u by auto
          then show ?thesis using new True by (simp only:)
        next
          case False
          then have "card (tag_users s u) + of_bool (u = 0) \<le> unat (ts_refcnt y)" using used u by (simp add: tags_used_def)
          then show ?thesis using others [of u] by linarith
        qed
      qed
    qed
  qed
qed

text \<open>
  A release is always defined. A handle that is not known is left alone, one with more references loses a reference,
  and the last reference takes the set away, whose elements and metadata leave the table.
\<close>

lemma set_free_ok:
  assumes inv: "set_inv s" and used: "tags_used s"
  shows "\<exists>s'. cesk_set_free st s = Some s' \<and> set_inv s' \<and> tags_used s' \<and> next_idx s' = next_idx s \<and> next_node s' = next_node s"
proof (cases "Option.bind st (\<lambda>i. cesk_set_hash_find i INFO_ADDR s)")
  case None
  then have "cesk_set_free st s = Some s" by (cases st) (simp_all add: cesk_set_free_def)
  then show ?thesis using assms by blast
next
  case (Some r)
  then obtain i where st: "st = Some i" "cesk_set_hash_find i INFO_ADDR s = Some r" by (cases st) auto
  then have r: "node_key s r = Some (i, INFO_ADDR)" using hash_find_iff [OF set_invD(1) [OF inv]] by simp
  obtain e where e: "get_info r s = Some e" by (rule live_handle [OF set_invD(1) [OF inv] r])
  let ?e = "e\<lparr>info_refcnt := info_refcnt e - 1\<rparr>"
  obtain s1 where s1: "upd_info r (\<lambda>e. e\<lparr>info_refcnt := info_refcnt e - 1\<rparr>) s = Some s1" "set_inv s1"
    "\<forall>q. node_key s1 q = node_key s q" "\<forall>q. get_info q s1 = (if q = r then Some ?e else get_info q s)"
    "set_elems s1 = set_elems s" "next_idx s1 = next_idx s" "set_tags s1 = set_tags s"
    "empty_set_idx s1 = empty_set_idx s" "empty_set_metadata s1 = empty_set_metadata s"
    by (rule upd_refcnt_set_inv [OF inv e])
  have next_node: "next_node s1 = next_node s"
    using s1(1) by (auto simp: upd_info_def split: Option.bind_splits node_body.splits)
  have r1: "node_key s1 r = Some (i, INFO_ADDR)" "get_info r s1 = Some ?e" using r s1(3,4) by simp_all
  have users: "tag_users s1 = tag_users s" using s1(4) e by (auto simp: tag_users_def fun_eq_iff split: if_splits)
  have used1: "tags_used s1" using used by (simp add: tags_used_def users s1(7))
  show ?thesis
  proof (cases "info_refcnt ?e = 0")
    case False
    then have "cesk_set_free st s = Some s1" using st s1(1) r1(2) by (simp add: cesk_set_free_def)
    then show ?thesis using s1(2,6) next_node used1 by blast
  next
    case True
    note D = table_invD [OF set_invD(1) [OF s1(2)]]
    obtain ps where ps: "dpath (\<lambda>q. data_next q s1) (info_first ?e) ps" "distinct ps" "set ps = set_elem_nodes s1 i"
      using set_inv_list [OF s1(2) r1] by metis
    have slot: "h = set_slot (node_idx n) (node_addr n)" if "nodes s1 p = Some n" "p \<in> set (set_hash s1 h)" for p h n
      using D(2) [of h] that by (auto simp: node_key_def slot_of_def)
    have "length ps \<le> next_node s1" using path_bound [OF set_invD(1) [OF s1(2)] ps(2), of i] ps(3) by simp
    then have elems: "free_elements (next_node s1) (info_first ?e) s1 = Some (without (set ps) s1)"
      by (rule free_elements_ok [OF ps(1,2) _ D(1) slot])
    let ?s2 = "without (set ps) s1"
    have out: "r \<notin> set ps" using ps(3) r1(1) by (auto simp: set_elem_nodes_def)
    obtain n where n: "nodes s1 r = Some n" "node_idx n = i" "node_addr n = INFO_ADDR" using r1(1) by (auto simp: node_key_def)
    have n2: "nodes ?s2 r = Some n" using n(1) out by (simp add: without_def)
    have last: "(chain_unlink r i INFO_ADDR ?s2)\<lparr>nodes := (nodes ?s2)(r := None)\<rparr> = without {r} ?s2"
    proof (rule unlink_without)
      show "distinct (set_hash ?s2 h)" for h using D(1) by (simp add: without_views)
      show "h = set_slot i INFO_ADDR" if "r \<in> set (set_hash ?s2 h)" for h
        using slot [OF n(1), of h] n(2,3) that by (simp add: without_views)
    qed
    have gone: "without {r} ?s2 = without (idx_nodes s1 i) s1"
    proof -
      have "idx_nodes s1 i = {r} \<union> set ps"
        using ps(3) r1(1) D(3) by (auto simp: idx_nodes_def set_elem_nodes_def)
      then show ?thesis by (simp only: without_twice)
    qed
    obtain ts where ts: "tag_set_free (info_tags ?e) (set_tags s1) = Some ts" "tags_survive (without (idx_nodes s1 i) s1) ts"
      "tags_used ((without (idx_nodes s1 i) s1)\<lparr>set_tags := ts\<rparr>)"
      by (rule tag_free_ok [OF s1(2) used1 r1])
    have "cesk_set_free st s = Some ((without (idx_nodes s1 i) s1)\<lparr>set_tags := ts\<rparr>)"
    proof -
      have "set_tags (chain_unlink r i INFO_ADDR ?s2) = set_tags s1" "nodes (chain_unlink r i INFO_ADDR ?s2) = nodes ?s2"
        by (simp_all add: chain_unlink_def without_views)
      moreover have "(chain_unlink r i INFO_ADDR ?s2)\<lparr>set_tags := ts, nodes := (nodes ?s2)(r := None)\<rparr> =
          ((chain_unlink r i INFO_ADDR ?s2)\<lparr>nodes := (nodes ?s2)(r := None)\<rparr>)\<lparr>set_tags := ts\<rparr>" by simp
      ultimately show ?thesis
        using st s1(1) r1(2) True elems n2 n(2) ts(1) last gone by (simp add: cesk_set_free_def next_node Let_def)
    qed
    moreover have "set_inv ((without (idx_nodes s1 i) s1)\<lparr>set_tags := ts\<rparr>)" by (rule without_idx_set_inv [OF s1(2) ts(2)])
    ultimately show ?thesis using ts(3) s1(6) next_node by (simp add: without_views)
  qed
qed

subsection \<open>The states that the module reaches\<close>

text \<open>
  The operations that clients call on handles that are live. The loop of a merge may also run on a handle with
  itself. The side conditions say that no counter and no index is at its maximum, and for a release that the tag sets
  count their users.
\<close>

inductive set_step :: "set_state \<Rightarrow> set_state \<Rightarrow> bool" where
  empty: "cesk_set_empty_set s = Some (d, s') \<Longrightarrow> set_step s s'"
| fork: "cesk_set_fork h s = Some (h', s') \<Longrightarrow> set_step s s'"
| push: "live_set s d e \<Longrightarrow> addr \<noteq> CESK_STORE_ADDR_NULL \<Longrightarrow> tag_room 2 (set_tags s) \<Longrightarrow> next_idx s \<noteq> 0xffffffff \<Longrightarrow>
    cesk_set_push (Some d) addr s = Some (rc, h, s') \<Longrightarrow> set_step s s'"
| merge: "node_key s p = Some (d, CESK_STORE_ADDR_NULL) \<Longrightarrow> node_key s q = Some (i, CESK_STORE_ADDR_NULL) \<Longrightarrow> get_info q s = Some e \<Longrightarrow>
    merge_elements (next_node s) d p (info_first e) s = Some s' \<Longrightarrow> set_step s s'"
| free: "tags_used s \<Longrightarrow> cesk_set_free h s = Some s' \<Longrightarrow> set_step s s'"

inductive set_reachable :: "set_state \<Rightarrow> bool" where
  init: "cesk_set_init set_boot = Some s \<Longrightarrow> set_reachable s"
| step: "set_reachable s \<Longrightarrow> set_step s s' \<Longrightarrow> set_reachable s'"

lemma upd_refcnt_inv:
  assumes "set_inv s" "upd_info p (\<lambda>e. e\<lparr>info_refcnt := f e\<rparr>) s = Some s'"
  shows "set_inv s'"
proof -
  obtain e where "get_info p s = Some e"
    using assms(2) by (auto simp: upd_info_def get_info_def split: Option.bind_splits node_body.splits)
  then show ?thesis using upd_refcnt_set_inv [OF assms(1), of p e f] assms(2) by auto
qed

lemma set_step_inv:
  assumes "set_step s s'" "set_inv s"
  shows "set_inv s'"
  using assms(1)
proof cases
  case (empty d)
  then show ?thesis using upd_refcnt_inv [OF assms(2)] by (auto simp: cesk_set_empty_set_def bind_eq_Some_conv)
next
  case (fork h h')
  then show ?thesis using upd_refcnt_inv [OF assms(2)] assms(2)
    by (auto simp: cesk_set_fork_def bind_eq_Some_conv split: option.splits)
next
  case (push d e addr rc h)
  then obtain r where r: "node_key s r = Some (d, INFO_ADDR)" "get_info r s = Some e" by (auto simp: live_set_def)
  show ?thesis using cesk_set_push_ok [OF assms(2) push(3,4) r push(2)] push(5) by auto
next
  case (merge p d q i e)
  obtain ps where ps: "dpath (\<lambda>q. data_next q s) (info_first e) ps" "distinct ps" "set ps = set_elem_nodes s i"
    using set_inv_list [OF assms(2) merge(2,3)] by metis
  have bound: "length ps \<le> next_node s" using path_bound [OF set_invD(1) [OF assms(2)] ps(2), of i] ps(3) by simp
  have elems: "\<exists>i a. a \<noteq> INFO_ADDR \<and> node_key s x = Some (i, a)" if "x \<in> set ps" for x
    using that ps(3) by (auto simp: set_elem_nodes_def)
  show ?thesis using merge_elements_set_inv [OF assms(2) merge(1) ps(1) bound elems] merge(4) by auto
next
  case (free h)
  then show ?thesis using set_free_ok [OF assms(2), of h] by auto
qed

lemma set_reachable_inv: "set_reachable s \<Longrightarrow> set_inv s"
proof (induction rule: set_reachable.induct)
  case (init s)
  obtain s0 where "cesk_set_init set_boot = Some s0" "set_inv s0" by (rule set_init_ok)
  then show ?case using init by simp
qed (rule set_step_inv)



subsection \<open>Equality, merges and forks\<close>

lemma set_equal_eq:
  assumes "set_inv s" and rf: "node_key s rf = Some (f, INFO_ADDR)" "get_info rf s = Some ef"
    and rg: "node_key s rg = Some (g, INFO_ADDR)" "get_info rg s = Some eg"
    and tags: "info_tags ef = Some tf" "tag_sets (set_tags s) tf = Some xf"
      "info_tags eg = Some tg" "tag_sets (set_tags s) tg = Some xg"
  shows "cesk_set_equal (Some f) (Some g) s =
    Some (if set_elems s f = set_elems s g \<and> ts_data xf = ts_data xg then 1 else 0)"
proof -
  obtain ps where ps: "dpath (\<lambda>q. data_next q s) (info_first ef) ps" "set ps \<subseteq> set_elem_nodes s f"
    "length ps < Suc (next_node s)" "distinct (addrs_of s ps)" "set (addrs_of s ps) = set_elems s f"
    "length (addrs_of s ps) < 2 ^ 32" "counts_ok (set_tags s) ef (addrs_of s ps)"
    "cesk_set_hash_find f INFO_ADDR s = Some rf"
    by (rule set_inv_summary [OF assms(1) rf])
  obtain qs where qs: "dpath (\<lambda>q. data_next q s) (info_first eg) qs" "set qs \<subseteq> set_elem_nodes s g"
    "length qs < Suc (next_node s)" "distinct (addrs_of s qs)" "set (addrs_of s qs) = set_elems s g"
    "length (addrs_of s qs) < 2 ^ 32" "counts_ok (set_tags s) eg (addrs_of s qs)"
    "cesk_set_hash_find g INFO_ADDR s = Some rg"
    by (rule set_inv_summary [OF assms(1) rg])
  have ok: "tag_ok xf" "tag_ok xg"
    using tag_inv_live [OF set_invD(3) [OF assms(1)]] tags(2,4) by auto
  have all: "all_contained (Suc (next_node s)) (info_first ef) g s = Some (set_elems s f \<subseteq> set_elems s g)"
    using all_contained_eq [OF set_invD(1) [OF assms(1)] ps(1-3)] ps(5) by (simp del: all_contained.simps)
  have card: "length (addrs_of s ps) = card (set_elems s f)" "length (addrs_of s qs) = card (set_elems s g)"
    using distinct_card [OF ps(4)] distinct_card [OF qs(4)] ps(5) qs(5) by simp_all
  have size: "info_size ef = info_size eg \<longleftrightarrow> card (set_elems s f) = card (set_elems s g)"
    using size_eq_iff [OF ps(6) qs(6)] ps(7) qs(7) card by (simp add: counts_ok_def)
  have hash: "info_hashcode ef = info_hashcode eg" if "set_elems s f = set_elems s g" "ts_data xf = ts_data xg"
    using xor_list_same_set [OF ps(4) qs(4), of "\<lambda>a. a * MH_MULTIPLY"] that ps(5,7) qs(5,7) ok tags
    by (simp add: counts_ok_def tag_hash_at_def tag_ok_def)
  have subset: "set_elems s f = set_elems s g"
    if "card (set_elems s f) = card (set_elems s g)" "set_elems s f \<subseteq> set_elems s g"
    using that qs(5) by (metis List.finite_set card_subset_eq)
  show ?thesis
    using ps(8) qs(8) rf(2) rg(2) tags size hash subset all tag_equal_iff [OF ok]
    by (auto simp: cesk_set_equal_def cesk_set_hashcode_def cesk_set_size_def cesk_set_iter_from_info_node_def
        Let_def simp del: all_contained.simps)
qed

text \<open>
  C10: The comparison of two live sets is exact: it returns 1 when they have the same elements and
  tag sets with the same items, and 0 otherwise. Neither the hash codes nor the sizes that it
  compares first turn equal sets away, and comparing one inclusion with equal sizes is enough.
\<close>

theorem cesk_set_equal_correct:
  assumes "set_inv s" and "live_set s f ef" and "live_set s g eg"
    and "info_tags ef = Some tf" "tag_sets (set_tags s) tf = Some xf"
    and "info_tags eg = Some tg" "tag_sets (set_tags s) tg = Some xg"
  shows "cesk_set_equal (Some f) (Some g) s =
    Some (if set_elems s f = set_elems s g \<and> ts_data xf = ts_data xg then 1 else 0)"
  using assms(2,3) unfolding live_set_def by (blast intro: set_equal_eq [OF assms(1) _ _ _ _ assms(4-7)])

theorem cesk_set_equal_correct_witness:
  "\<exists>s. set_inv s \<and> cesk_set_equal (Some 0) (Some 0) s = Some 1"
proof -
  obtain s e where s: "set_inv s" "live_set s 0 e" by (rule empty_handle)
  then obtain t x where t: "info_tags e = Some t" "tag_sets (set_tags s) t = Some x"
    using set_invD(4) [OF s(1)] unfolding live_set_def info_inv_def by blast
  from cesk_set_equal_correct [OF s s(2) t t] s(1) show ?thesis by auto
qed

text \<open>
  C31: The loop of \<^verbatim>\<open>cesk_set_merge\<close> terminates within the number of allocated nodes, also when
  source and destination are the same set, and adds exactly the elements of the source to the
  destination; all other sets, and the counters and tags of all sets, stay as they are.
\<close>

theorem cesk_set_merge_loop_correct:
  assumes "set_inv s" and "node_key s p = Some (d, CESK_STORE_ADDR_NULL)"
    and "node_key s q = Some (r, CESK_STORE_ADDR_NULL)" and "get_info q s = Some e"
  shows "\<exists>s'. merge_elements (next_node s) d p (info_first e) s = Some s' \<and> set_inv s' \<and>
    set_elems s' d = set_elems s d \<union> set_elems s r \<and>
    (\<forall>i. i \<noteq> d \<longrightarrow> set_elems s' i = set_elems s i) \<and> elem_frame p s s'"
proof -
  obtain ps where ps: "dpath (\<lambda>q. data_next q s) (info_first e) ps" "distinct ps" "set ps = set_elem_nodes s r"
    using set_inv_list [OF assms(1,3,4)] by metis
  have bound: "length ps \<le> next_node s" using path_bound [OF set_invD(1) [OF assms(1)] ps(2), of r] ps(3) by simp
  have "\<exists>i a. a \<noteq> INFO_ADDR \<and> node_key s x = Some (i, a)" if "x \<in> set ps" for x
    using that ps(3) by (auto simp: set_elem_nodes_def)
  from merge_elements_set_inv [OF assms(1,2) ps(1) bound this] set_elems_path [OF ps(3)]
  show ?thesis by auto
qed

theorem cesk_set_merge_loop_correct_witness:
  "\<exists>s (e :: set_info) s'. merge_elements (next_node s) 0 0 (info_first e) s = Some s' \<and> set_elems s' 0 = {}"
proof -
  obtain s e where s: "set_inv s" "node_key s 0 = Some (0, INFO_ADDR)" "get_info 0 s = Some e" "\<forall>i. set_elems s i = {}"
    by (rule set_init_ok)
  from cesk_set_merge_loop_correct [OF s(1,2,2,3)] s(4) show ?thesis by auto
qed

text \<open>
  C29: A forked handle is isolated from its origin: after \<^verbatim>\<open>cesk_set_fork\<close> and a push through the
  new handle, the original index denotes the elements it had and the new handle denotes those
  with the pushed address.
\<close>

theorem cesk_set_fork_isolated:
  assumes "set_inv s" and "live_set s d e" and "info_refcnt e \<noteq> 0xffffffff"
    and "addr \<noteq> CESK_STORE_ADDR_NULL" and "tag_room 2 (set_tags s)" and "next_idx s \<noteq> 0xffffffff"
  shows "\<exists>s1 d' s2. cesk_set_fork (Some d) s = Some (Some d, s1) \<and>
    cesk_set_push (Some d) addr s1 = Some (0, Some d', s2) \<and> set_inv s2 \<and> d' \<noteq> d \<and>
    set_elems s2 d = set_elems s d \<and> set_elems s2 d' = insert addr (set_elems s d)"
proof -
  obtain r where r: "node_key s r = Some (d, INFO_ADDR)" "get_info r s = Some e" and pos: "0 < info_refcnt e"
    using assms(2) by (auto simp: live_set_def)
  obtain s1 where s1: "upd_info r (\<lambda>e. e\<lparr>info_refcnt := info_refcnt e + 1\<rparr>) s = Some s1" "set_inv s1"
    "\<forall>q. node_key s1 q = node_key s q"
    "\<forall>q. get_info q s1 = (if q = r then Some (e\<lparr>info_refcnt := info_refcnt e + 1\<rparr>) else get_info q s)"
    "set_elems s1 = set_elems s" "next_idx s1 = next_idx s" "set_tags s1 = set_tags s"
    "empty_set_idx s1 = empty_set_idx s" "empty_set_metadata s1 = empty_set_metadata s"
    by (rule upd_refcnt_set_inv [OF assms(1) r(2)])
  have fork: "cesk_set_fork (Some d) s = Some (Some d, s1)"
    using s1(1) hash_find_iff [OF set_invD(1) [OF assms(1)], of d INFO_ADDR r] r(1) by (simp add: cesk_set_fork_def)
  have "1 \<le> info_refcnt e" using pos by (simp add: word_le_nat_alt word_less_nat_alt)
  then have more: "1 < info_refcnt e + 1" using next_idx_less [OF assms(3)] by (rule le_less_trans)
  have key: "node_key s1 r = Some (d, INFO_ADDR)" and info: "get_info r s1 = Some (e\<lparr>info_refcnt := info_refcnt e + 1\<rparr>)"
    using s1 r by simp_all
  have d: "d < next_idx s1" using table_invD(5) [OF set_invD(1) [OF s1(2)] key] .
  obtain d' s2 where s2: "cesk_set_push (Some d) addr s1 = Some (0, Some d', s2)" "set_inv s2"
    "d' = (if info_refcnt (e\<lparr>info_refcnt := info_refcnt e + 1\<rparr>) > 1 then next_idx s1 else d)"
    "set_elems s2 d' = insert addr (set_elems s1 d)"
    and other: "\<And>j. j \<noteq> d' \<Longrightarrow> j \<noteq> next_idx s1 \<Longrightarrow> set_elems s2 j = set_elems s1 j"
    using cesk_set_push_ok [OF s1(2) _ _ key info assms(4)] assms(5,6) s1(6,7) by metis
  have "d' = next_idx s1" using s2(3) more by simp
  with d other [of d] s2 fork s1(5) show ?thesis by auto
qed

theorem cesk_set_fork_isolated_witness:
  "\<exists>s s1 d' s2. cesk_set_fork (Some 0) s = Some (Some 0, s1) \<and>
     cesk_set_push (Some 0) 7 s1 = Some (0, Some d', s2) \<and> set_elems s2 0 = {} \<and> set_elems s2 d' = {7}"
proof -
  obtain s e where s: "set_inv s" "live_set s 0 e" "info_refcnt e = 2" "set_elems s 0 = {}" "next_idx s = 1"
    "tag_room 2 (set_tags s)" by (rule empty_handle)
  have "info_refcnt e \<noteq> 0xffffffff" "7 \<noteq> CESK_STORE_ADDR_NULL" "next_idx s \<noteq> 0xffffffff"
    using s by (simp_all add: addr_const_defs)
  from cesk_set_fork_isolated [OF s(1,2) this(1,2) s(6) this(3)] s(4) show ?thesis by auto
qed

text \<open>
  An example for the branch of \<^verbatim>\<open>cesk_set_modify\<close> that finds the target already present: three pushes
  on a fresh set, then the second address is modified into the first.
\<close>

definition modify_demo :: "(int \<times> u32 \<times> bool \<times> bool \<times> bool \<times> u32 \<times> u32) option" where
  "modify_demo = do {
     s \<leftarrow> cesk_set_init set_boot;
     (d, s) \<leftarrow> cesk_set_empty_set s;
     (rc, d, s) \<leftarrow> cesk_set_push (Some d) 1 s;
     (rc, d, s) \<leftarrow> cesk_set_push d 2 s;
     (rc, d, s) \<leftarrow> cesk_set_push d 3 s;
     (rc, d, s) \<leftarrow> cesk_set_modify d 2 1 s;
     i \<leftarrow> d;
     z \<leftarrow> cesk_set_size d s;
     it \<leftarrow> cesk_set_iter i s;
     (a, it) \<leftarrow> cesk_set_iter_next it s;
     (b, it) \<leftarrow> cesk_set_iter_next it s;
     Some (rc, z, cesk_set_contain d 1 s, cesk_set_contain d 2 s, cesk_set_contain d 3 s, a, b) }"

lemma set_slot_demo:
  "set_slot 0 4294967295 = 13579"
  "set_slot 1 4294967295 = 58331"
  "set_slot 1 1 = 0"
  "set_slot 1 2 = 86590"
  "set_slot 1 3 = 78176"
  by (simp_all add: set_slot_def cesk_set_idx_hashcode_def MH_MULTIPLY_def CESK_SET_HASH_SIZE_def)

lemmas set_op_defs = cesk_set_init_def cesk_set_idx_alloc_def cesk_set_hash_insert_def cesk_set_node_alloc_def
  chain_link_def chain_unlink_def upd_info_def get_info_def data_next_def data_prev_def set_data_next_def
  set_data_prev_def upd_node_def cesk_set_hash_find_def node_matches_def cesk_set_empty_set_def
  cesk_set_push_def cesk_set_prepare_to_write_def cesk_set_duplicate_def push_copy_def merge_element_def
  cesk_set_modify_def modify_duplicate_def modify_move_def cesk_set_size_def cesk_set_iter_def
  cesk_set_iter_from_info_node_def cesk_set_iter_next_def cesk_set_contain_def set_boot_def
  tag_set_empty_def tag_set_fork_def tag_set_incref_def tag_upd_def tag_boot_def tag_set_empty_static_def
  tag_set_hashcode_def CESK_SET_INVALID_def CESK_STORE_ADDR_NULL_def CESK_STORE_ADDR_IS_RELOC_def

text \<open>
  Modifying an address into one that is already an element corrupts the set. After pushing 1, 2
  and 3 and modifying 2 into 1, the lookup finds 1 and 3 and the size is still 3, but an iterator
  yields 1 and then the end: the push does not set the \<open>prev\<close> pointers, so that unlinking the node
  in the middle cuts off the head of the list, and the size is not decremented.
\<close>

theorem cesk_set_modify_duplicate_corrupts:
  "modify_demo = Some (0, 3, True, False, True, 1, CESK_STORE_ADDR_NULL)"
  by (simp add: modify_demo_def set_op_defs set_slot_demo Let_def addr_defs)

end
