(* ===== verification/Alloctab.thy ===== *)
theory Alloctab
  imports Store_Addr
begin

text \<open>
  The allocation table (\<^verbatim>\<open>src/cesk/cesk_alloctab.c\<close>): a chained hash table that relates the object
  addresses of a store to relocated addresses, in both directions. Several stores share one table
  and are told apart by a token. A table is counted by its users and is replaced by a fresh one
  when a chain has become too long.

  Tables live in a heap, a map from pointers to tables. Of a store, only its token is read. The
  operations on a table take and return the table that the pointer refers to; a null pointer is
  \<^const>\<open>None\<close>. Memory exhaustion is not modelled.
\<close>

subsection \<open>Data\<close>

definition CESK_ALLOC_TABLE_NSLOTS :: nat where "CESK_ALLOC_TABLE_NSLOTS = 100007"
definition CESK_ALLOC_TABLE_MAX_CHAIN_SIZE :: nat where "CESK_ALLOC_TABLE_MAX_CHAIN_SIZE = 5"

record alloc_node =
  an_token :: u32
  an_key :: u32
  an_val :: u32

record alloctab =
  at_slot :: "alloc_node htab"
  at_chain_size :: "nat \<Rightarrow> u32"
  at_next_token :: u32
  at_max_chain_size :: u32
  at_using :: u32

record alloctab_heap =
  at_mem :: "nat \<rightharpoonup> alloctab"
  at_fresh :: nat

definition alloctab_zero :: alloctab where
  "alloctab_zero = \<lparr>at_slot = chain_empty, at_chain_size = (\<lambda>_. 0), at_next_token = 0,
     at_max_chain_size = 0, at_using = 0\<rparr>"

subsection \<open>Operations\<close>

text \<open>
  \<^verbatim>\<open>addr * addr\<close> is a 32 bit product; the rest of the sum is computed at 64 bits and reduced modulo
  the number of slots before it is truncated.
\<close>

definition cesk_alloctab_hashcode :: "u32 \<Rightarrow> u32 \<Rightarrow> nat" where
  "cesk_alloctab_hashcode token addr =
     unat ((ucast token * MH_MULTIPLY + (ucast (addr * addr) + ucast addr * MH_MULTIPLY) :: u64)
           mod of_nat CESK_ALLOC_TABLE_NSLOTS)"

definition cesk_alloctab_new :: "nat option \<Rightarrow> alloctab_heap \<Rightarrow> nat \<times> alloctab_heap" where
  "cesk_alloctab_new old hp =
     (case old of
        Some p \<Rightarrow>
          (case at_mem hp p of
             Some t \<Rightarrow>
               if at_max_chain_size t > of_nat CESK_ALLOC_TABLE_MAX_CHAIN_SIZE
               then (at_fresh hp, hp\<lparr>at_mem := (at_mem hp)(at_fresh hp \<mapsto> alloctab_zero\<lparr>at_using := 1\<rparr>),
                                     at_fresh := Suc (at_fresh hp)\<rparr>)
               else (p, hp\<lparr>at_mem := (at_mem hp)(p \<mapsto> t\<lparr>at_using := at_using t + 1\<rparr>)\<rparr>)
           | None \<Rightarrow> (p, hp))
      | None \<Rightarrow>
          (at_fresh hp, hp\<lparr>at_mem := (at_mem hp)(at_fresh hp \<mapsto> alloctab_zero\<lparr>at_using := 1\<rparr>),
                           at_fresh := Suc (at_fresh hp)\<rparr>))"

definition cesk_alloctab_free :: "nat option \<Rightarrow> alloctab_heap \<Rightarrow> alloctab_heap" where
  "cesk_alloctab_free mem hp =
     (case mem of
        None \<Rightarrow> hp
      | Some p \<Rightarrow>
          (case at_mem hp p of
             None \<Rightarrow> hp
           | Some t \<Rightarrow>
               let t = t\<lparr>at_using := at_using t - 1\<rparr>
               in if at_using t = 0 then hp\<lparr>at_mem := (at_mem hp)(p := None)\<rparr>
                  else hp\<lparr>at_mem := (at_mem hp)(p \<mapsto> t)\<rparr>))"

definition cesk_alloctab_insert ::
  "alloctab option \<Rightarrow> u32 option \<Rightarrow> u32 \<Rightarrow> u32 \<Rightarrow> int \<times> alloctab option" where
  "cesk_alloctab_insert table store key_addr val_addr =
     (case (table, store) of
        (Some t, Some token) \<Rightarrow>
          if CESK_STORE_ADDR_IS_OBJ key_addr \<and> CESK_STORE_ADDR_IS_RELOC val_addr \<or>
             CESK_STORE_ADDR_IS_RELOC key_addr \<and> CESK_STORE_ADDR_IS_OBJ val_addr
          then let h = cesk_alloctab_hashcode token key_addr;
                   n = \<lparr>an_token = token, an_key = key_addr, an_val = val_addr\<rparr>;
                   t = t\<lparr>at_slot := (at_slot t)(h := n # at_slot t h),
                         at_chain_size := (at_chain_size t)(h := at_chain_size t h + 1)\<rparr>;
                   t = (if at_chain_size t h > at_max_chain_size t
                        then t\<lparr>at_max_chain_size := at_chain_size t h\<rparr> else t)
               in (0, Some t)
          else (-1, table)
      | _ \<Rightarrow> (-1, table))"

definition cesk_alloctab_query :: "alloctab option \<Rightarrow> u32 \<Rightarrow> u32 \<Rightarrow> u32" where
  "cesk_alloctab_query table token addr =
     (case table of
        None \<Rightarrow> CESK_STORE_ADDR_NULL
      | Some t \<Rightarrow>
          (case find (\<lambda>n. an_token n = token \<and> an_key n = addr) (at_slot t (cesk_alloctab_hashcode token addr)) of
             Some n \<Rightarrow> an_val n
           | None \<Rightarrow> CESK_STORE_ADDR_NULL))"

definition cesk_alloctab_map_addr ::
  "alloctab option \<Rightarrow> u32 option \<Rightarrow> u32 \<Rightarrow> u32 \<Rightarrow> int \<times> alloctab option" where
  "cesk_alloctab_map_addr table store rel_addr obj_addr =
     (if \<not> CESK_STORE_ADDR_IS_RELOC rel_addr then (-1, table)
      else if \<not> CESK_STORE_ADDR_IS_OBJ obj_addr then (-1, table)
      else case cesk_alloctab_insert table store rel_addr obj_addr of
             (rc, table) \<Rightarrow>
               if rc < 0 then (-1, table)
               else case cesk_alloctab_insert table store obj_addr rel_addr of
                      (rc, table) \<Rightarrow> if rc < 0 then (-1, table) else (0, table))"

definition cesk_alloctab_get_token :: "alloctab \<Rightarrow> u32 \<times> alloctab" where
  "cesk_alloctab_get_token t = (at_next_token t, t\<lparr>at_next_token := at_next_token t + 1\<rparr>)"

subsection \<open>The table as a keyed table\<close>

definition an_id :: "alloc_node \<Rightarrow> u32 \<times> u32" where
  "an_id n = (an_token n, an_key n)"

definition alloc_slot :: "u32 \<times> u32 \<Rightarrow> nat" where
  "alloc_slot k = cesk_alloctab_hashcode (fst k) (snd k)"

interpretation alloc_tab: keyed_table chain_empty "chain_insert alloc_slot an_id" "chain_find alloc_slot an_id" an_id
  by (rule keyed_table_chain)

lemma query_chain:
  "cesk_alloctab_query (Some t) token addr =
     (case chain_find alloc_slot an_id (at_slot t) (token, addr) of
        Some n \<Rightarrow> an_val n | None \<Rightarrow> CESK_STORE_ADDR_NULL)"
  by (simp add: cesk_alloctab_query_def chain_find_def alloc_slot_def an_id_def)

text \<open>The chain counters count the chains, and the maximum is the longest of them.\<close>

definition alloctab_inv :: "alloctab \<Rightarrow> bool" where
  "alloctab_inv t \<longleftrightarrow>
     (\<forall>h. at_chain_size t h = of_nat (length (at_slot t h)) \<and> at_chain_size t h \<le> at_max_chain_size t) \<and>
     (at_max_chain_size t = 0 \<or> (\<exists>h. at_chain_size t h = at_max_chain_size t))"

definition valid_record :: "u32 \<Rightarrow> u32 \<Rightarrow> bool" where
  "valid_record k v \<longleftrightarrow> CESK_STORE_ADDR_IS_OBJ k \<and> CESK_STORE_ADDR_IS_RELOC v \<or>
     CESK_STORE_ADDR_IS_RELOC k \<and> CESK_STORE_ADDR_IS_OBJ v"

lemma insert_effect:
  assumes "valid_record k v"
  shows "\<exists>t'. cesk_alloctab_insert (Some t) (Some token) k v = (0, Some t') \<and>
    at_slot t' = chain_insert alloc_slot an_id \<lparr>an_token = token, an_key = k, an_val = v\<rparr> (at_slot t)"
  using assms
  by (simp add: cesk_alloctab_insert_def valid_record_def Let_def chain_insert_def alloc_slot_def an_id_def)

lemma insert_query:
  assumes "valid_record k v" "cesk_alloctab_insert (Some t) (Some token) k v = (rc, Some t')"
  shows "cesk_alloctab_query (Some t') token' a =
    (if token' = token \<and> a = k then v else cesk_alloctab_query (Some t) token' a)"
  using insert_effect [OF assms(1), of t token] assms(2)
  by (auto simp: query_chain alloc_tab.find_insert an_id_def)

lemma reloc_not_obj: "CESK_STORE_ADDR_IS_RELOC a \<Longrightarrow> CESK_STORE_ADDR_IS_OBJ b \<Longrightarrow> a \<noteq> b"
  by (auto simp: is_reloc_iff_range is_obj_iff)

text \<open>
  Mapping a relocated address to an object address succeeds on every table, and then each of
  the two addresses looks up the other one in that store, whatever the hash codes are. No other
  lookup, of another address or of another store that shares the table, changes.
\<close>

theorem cesk_alloctab_map_addr_correct:
  assumes "CESK_STORE_ADDR_IS_RELOC rel" "CESK_STORE_ADDR_IS_OBJ obj"
  shows "\<exists>t'. cesk_alloctab_map_addr (Some t) (Some token) rel obj = (0, Some t') \<and>
    cesk_alloctab_query (Some t') token rel = obj \<and>
    cesk_alloctab_query (Some t') token obj = rel \<and>
    (\<forall>token' a. (token', a) \<notin> {(token, rel), (token, obj)} \<longrightarrow>
       cesk_alloctab_query (Some t') token' a = cesk_alloctab_query (Some t) token' a)"
proof -
  have v: "valid_record rel obj" "valid_record obj rel" using assms by (auto simp: valid_record_def)
  obtain t1 where t1: "cesk_alloctab_insert (Some t) (Some token) rel obj = (0, Some t1)"
    using insert_effect [OF v(1)] by metis
  obtain t2 where t2: "cesk_alloctab_insert (Some t1) (Some token) obj rel = (0, Some t2)"
    using insert_effect [OF v(2)] by metis
  have "cesk_alloctab_map_addr (Some t) (Some token) rel obj = (0, Some t2)"
    using assms t1 t2 by (simp add: cesk_alloctab_map_addr_def)
  then show ?thesis
    using insert_query [OF v(1) t1] insert_query [OF v(2) t2] reloc_not_obj [OF assms] by auto
qed

theorem cesk_alloctab_map_addr_correct_witness:
  "\<exists>t'. cesk_alloctab_map_addr (Some alloctab_zero) (Some 3) 0xff000001 8 = (0, Some t') \<and>
    cesk_alloctab_query (Some t') 3 8 = 0xff000001"
proof -
  have "CESK_STORE_ADDR_IS_RELOC 0xff000001" "CESK_STORE_ADDR_IS_OBJ 8"
    by (simp_all add: is_reloc_iff_range is_obj_iff addr_const_defs)
  from cesk_alloctab_map_addr_correct [OF this, of alloctab_zero 3] show ?thesis by blast
qed

lemma insert_rejects:
  "\<not> valid_record k v \<Longrightarrow> cesk_alloctab_insert table store k v = (-1, table)"
  by (cases table; cases store) (auto simp: cesk_alloctab_insert_def valid_record_def)

text \<open>
  A record that does not relate an object address to a relocated address is refused, by the
  insertion and by the mapping, and the table stays as it is; so is every record for a null table
  or a null store.
\<close>

theorem cesk_alloctab_rejects:
  "(\<not> valid_record k v \<longrightarrow> cesk_alloctab_insert table store k v = (-1, table)) \<and>
   (\<not> (CESK_STORE_ADDR_IS_RELOC k \<and> CESK_STORE_ADDR_IS_OBJ v) \<longrightarrow>
      cesk_alloctab_map_addr table store k v = (-1, table)) \<and>
   (table = None \<or> store = None \<longrightarrow> cesk_alloctab_map_addr table store k v = (-1, table))"
  using insert_rejects [of k v table store]
  by (auto simp: cesk_alloctab_map_addr_def cesk_alloctab_insert_def split: option.splits)

theorem cesk_alloctab_rejects_witness:
  "cesk_alloctab_map_addr (Some alloctab_zero) (Some 0) 8 8 = (-1, Some alloctab_zero)"
proof -
  have "\<not> CESK_STORE_ADDR_IS_RELOC 8" by (simp add: is_reloc_iff_range addr_const_defs)
  then show ?thesis using cesk_alloctab_rejects [of 8 8 "Some alloctab_zero" "Some 0"] by simp
qed

subsection \<open>Chain counters\<close>

lemma alloctab_inv_zero: "alloctab_inv (alloctab_zero\<lparr>at_using := n\<rparr>)"
  by (simp add: alloctab_inv_def alloctab_zero_def chain_empty_def)

lemma alloctab_inv_insert:
  assumes "alloctab_inv t" "\<And>h. Suc (length (at_slot t h)) < 2 ^ 32"
    and ins: "cesk_alloctab_insert (Some t) (Some token) k v = (rc, Some t')"
  shows "alloctab_inv t'"
proof (cases "valid_record k v")
  case False
  then show ?thesis using insert_rejects [OF False] ins assms(1) by simp
next
  case True
  let ?h = "cesk_alloctab_hashcode token k"
  let ?c = "at_chain_size t ?h"
  have "?c = of_nat (length (at_slot t ?h))" using assms(1) by (simp add: alloctab_inv_def)
  then have "unat ?c + 1 < 2 ^ 32" using assms(2) [of ?h] by (simp add: unat_of_nat)
  then have less: "?c < ?c + 1" by (simp add: word_less_nat_alt unat_word_ariths)
  have size: "at_chain_size t' = (at_chain_size t)(?h := ?c + 1)"
    "at_slot t' = (at_slot t)(?h := \<lparr>an_token = token, an_key = k, an_val = v\<rparr> # at_slot t ?h)"
    "at_max_chain_size t' = (if ?c + 1 > at_max_chain_size t then ?c + 1 else at_max_chain_size t)"
    using True ins by (auto simp: cesk_alloctab_insert_def valid_record_def Let_def)
  have old: "at_chain_size t h \<le> at_max_chain_size t"
    "at_chain_size t h = of_nat (length (at_slot t h))" for h
    using assms(1) unfolding alloctab_inv_def by blast+
  have bound: "at_chain_size t' h \<le> at_max_chain_size t'" for h
    using old(1) [of h] unfolding size by (auto simp: not_less)
  have "at_max_chain_size t' = 0 \<or> (\<exists>h. at_chain_size t' h = at_max_chain_size t')"
  proof (cases "?c + 1 > at_max_chain_size t")
    case True then show ?thesis by (intro disjI2 exI [of _ ?h]) (simp add: size)
  next
    case False
    then have ge: "?c + 1 \<le> at_max_chain_size t" by simp
    then obtain h where h: "at_chain_size t h = at_max_chain_size t"
      using assms(1) less by (auto simp: alloctab_inv_def)
    then have "h \<noteq> ?h" using ge less by auto
    then show ?thesis using h False by (intro disjI2 exI [of _ h]) (simp add: size)
  qed
  then show ?thesis using bound old(2) unfolding alloctab_inv_def
    by (auto simp: size add.commute)
qed

text \<open>A sequence of insertions, as the stores that share a table make them.\<close>

definition insert_all :: "(u32 \<times> u32 \<times> u32) list \<Rightarrow> alloctab option \<Rightarrow> alloctab option" where
  "insert_all rs t = fold (\<lambda>(token, k, v) t. snd (cesk_alloctab_insert t (Some token) k v)) rs t"

lemma insert_Some: "\<exists>t'. snd (cesk_alloctab_insert (Some t) (Some token) k v) = Some t' \<and>
    (\<forall>h. length (at_slot t' h) \<le> Suc (length (at_slot t h)))"
  by (auto simp: cesk_alloctab_insert_def Let_def)

lemma insert_all_inv:
  assumes "alloctab_inv t" "\<And>h. length (at_slot t h) + length rs < 2 ^ 32"
  shows "\<exists>t'. insert_all rs (Some t) = Some t' \<and> alloctab_inv t' \<and>
    (\<forall>h. length (at_slot t' h) \<le> length (at_slot t h) + length rs)"
  using assms
proof (induction rs arbitrary: t)
  case Nil then show ?case by (simp add: insert_all_def)
next
  case (Cons r rs)
  obtain token k v where r: "r = (token, k, v)" by (cases r)
  obtain t1 where t1: "snd (cesk_alloctab_insert (Some t) (Some token) k v) = Some t1"
    "\<And>h. length (at_slot t1 h) \<le> Suc (length (at_slot t h))"
    using insert_Some [of t token k v] by blast
  have "Suc (length (at_slot t h)) < 2 ^ 32" for h using Cons.prems(2) [of h] by simp
  then have "alloctab_inv t1"
    using t1(1) by (intro alloctab_inv_insert [OF Cons.prems(1)]) (auto intro: prod_eqI)
  moreover have "length (at_slot t1 h) + length rs < 2 ^ 32" for h
    using Cons.prems(2) [of h] t1(2) [of h] by simp
  ultimately obtain t' where t': "insert_all rs (Some t1) = Some t'" "alloctab_inv t'"
    "\<And>h. length (at_slot t' h) \<le> length (at_slot t1 h) + length rs" using Cons.IH [of t1] by blast
  have "length (at_slot t' h) \<le> length (at_slot t h) + length (r # rs)" for h
    using t'(3) [of h] t1(2) [of h] by simp
  then show ?case using t' t1(1) by (simp add: insert_all_def r)
qed

text \<open>
  After fewer than \<^verbatim>\<open>2^32\<close> insertions into a fresh table, the counters are the lengths of the
  chains and the recorded maximum is the length of the longest chain; so the table is replaced
  exactly when one of its chains has more than five nodes.
\<close>

theorem alloctab_reuse_decision:
  assumes "length rs < 2 ^ 32"
    and "insert_all rs (Some (alloctab_zero\<lparr>at_using := 1\<rparr>)) = Some t"
    and "at_mem hp p = Some t" "at_mem hp (at_fresh hp) = None"
  shows "fst (cesk_alloctab_new (Some p) hp) = p \<longleftrightarrow> (\<forall>h. length (at_slot t h) \<le> 5)"
proof -
  have inv: "alloctab_inv t" and len: "length (at_slot t h) \<le> length rs" for h
    using insert_all_inv [OF alloctab_inv_zero, of 1 rs] assms(1,2)
    by (auto simp: alloctab_zero_def chain_empty_def)
  have "fst (cesk_alloctab_new (Some p) hp) = p \<longleftrightarrow> at_max_chain_size t \<le> 5"
    using assms(3,4) by (auto simp: cesk_alloctab_new_def CESK_ALLOC_TABLE_MAX_CHAIN_SIZE_def not_less)
  also have "\<dots> \<longleftrightarrow> (\<forall>h. at_chain_size t h \<le> 5)"
    using inv unfolding alloctab_inv_def by (metis order_trans word_zero_le)
  finally have decision: "fst (cesk_alloctab_new (Some p) hp) = p \<longleftrightarrow> (\<forall>h. at_chain_size t h \<le> 5)" .
  have "at_chain_size t h \<le> 5 \<longleftrightarrow> length (at_slot t h) \<le> 5" for h
  proof -
    have "unat (at_chain_size t h) = length (at_slot t h)"
      using inv len [of h] assms(1) by (simp add: alloctab_inv_def unat_of_nat)
    then show ?thesis by (simp add: word_le_nat_alt)
  qed
  with decision show ?thesis by simp
qed

theorem alloctab_reuse_decision_witness:
  "fst (cesk_alloctab_new (Some 1) \<lparr>at_mem = [1 \<mapsto> alloctab_zero\<lparr>at_using := 1\<rparr>], at_fresh = 2\<rparr>) = 1"
  using alloctab_reuse_decision [of "[]" "alloctab_zero\<lparr>at_using := 1\<rparr>"
      "\<lparr>at_mem = [1 \<mapsto> alloctab_zero\<lparr>at_using := 1\<rparr>], at_fresh = 2\<rparr>" 1]
  by (simp add: insert_all_def alloctab_zero_def chain_empty_def)

subsection \<open>Users and tokens\<close>

lemma using_minus_zero:
  fixes u :: u32
  assumes "k \<le> unat u"
  shows "u - of_nat k = 0 \<longleftrightarrow> k = unat u"
proof
  assume "u - of_nat k = 0"
  then have "u = of_nat k" by simp
  moreover have "k < 2 ^ LENGTH(32)" by (rule order.strict_trans1 [OF assms unsigned_less])
  ultimately show "k = unat u" by (simp add: unat_of_nat)
qed simp

lemma free_iterate:
  assumes "at_mem hp p = Some t" "k < unat (at_using t)"
  shows "at_mem ((cesk_alloctab_free (Some p) ^^ k) hp) p = Some (t\<lparr>at_using := at_using t - of_nat k\<rparr>)"
  using assms
proof (induction k)
  case (Suc k)
  have "at_using t - of_nat (Suc k) \<noteq> 0" using using_minus_zero [of "Suc k" "at_using t"] Suc.prems(2) by simp
  then show ?case using Suc by (simp add: cesk_alloctab_free_def diff_diff_eq add.commute)
qed simp

text \<open>
  A table stays alive, with its records, while it has been released fewer times than it has
  users, and is freed by the last of them. Taking a table over for one more user adds one to the
  number of releases that it survives.
\<close>

theorem alloctab_lifetime:
  assumes "at_mem hp p = Some t" "0 < unat (at_using t)"
  shows "(\<forall>k < unat (at_using t). \<exists>t'. at_mem ((cesk_alloctab_free (Some p) ^^ k) hp) p = Some t' \<and> at_slot t' = at_slot t) \<and>
    at_mem ((cesk_alloctab_free (Some p) ^^ unat (at_using t)) hp) p = None \<and>
    (at_max_chain_size t \<le> 5 \<and> unat (at_using t) < 2 ^ 32 - 1 \<longrightarrow>
       (\<exists>t'. at_mem (snd (cesk_alloctab_new (Some p) hp)) p = Some t' \<and> at_slot t' = at_slot t \<and>
          unat (at_using t') = unat (at_using t) + 1))"
proof -
  let ?n = "unat (at_using t)"
  have "at_mem ((cesk_alloctab_free (Some p) ^^ Suc (?n - 1)) hp) p = None"
  proof -
    have "at_using t - of_nat (Suc (?n - 1)) = 0" using assms(2) by simp
    moreover have "at_mem ((cesk_alloctab_free (Some p) ^^ (?n - 1)) hp) p
        = Some (t\<lparr>at_using := at_using t - of_nat (?n - 1)\<rparr>)"
      using free_iterate [OF assms(1), of "?n - 1"] assms(2) by simp
    ultimately show ?thesis by (simp add: cesk_alloctab_free_def diff_diff_eq add.commute)
  qed
  then have gone: "at_mem ((cesk_alloctab_free (Some p) ^^ ?n) hp) p = None" using assms(2) by simp
  have taken: "\<exists>t'. at_mem (snd (cesk_alloctab_new (Some p) hp)) p = Some t' \<and> at_slot t' = at_slot t \<and>
      unat (at_using t') = ?n + 1" if "at_max_chain_size t \<le> 5" "?n < 2 ^ 32 - 1"
    using that assms(1)
    by (auto simp: cesk_alloctab_new_def CESK_ALLOC_TABLE_MAX_CHAIN_SIZE_def unat_word_ariths not_less)
  show ?thesis using gone taken free_iterate [OF assms(1)] by auto
qed

theorem alloctab_lifetime_witness:
  "at_mem ((cesk_alloctab_free (Some 1) ^^ 2)
      \<lparr>at_mem = [1 \<mapsto> alloctab_zero\<lparr>at_using := 2\<rparr>], at_fresh = 2\<rparr>) 1 = None"
  using alloctab_lifetime [of "\<lparr>at_mem = [1 \<mapsto> alloctab_zero\<lparr>at_using := 2\<rparr>], at_fresh = 2\<rparr>" 1
      "alloctab_zero\<lparr>at_using := 2\<rparr>"] by simp

fun get_tokens :: "nat \<Rightarrow> alloctab \<Rightarrow> u32 list" where
  "get_tokens 0 t = []"
| "get_tokens (Suc n) t = (let (k, t) = cesk_alloctab_get_token t in k # get_tokens n t)"

lemma get_tokens_nth: "i < n \<Longrightarrow> get_tokens n t ! i = at_next_token t + of_nat i"
proof (induction n arbitrary: t i)
  case (Suc n)
  then show ?case by (cases i) (simp_all add: cesk_alloctab_get_token_def)
qed simp

lemma get_tokens_length: "length (get_tokens n t) = n"
  by (induction n arbitrary: t) (simp_all add: cesk_alloctab_get_token_def)

text \<open>
  A table hands out pairwise different tokens as long as no more than \<^verbatim>\<open>2^32\<close> stores ask for one.
\<close>

theorem alloctab_tokens_distinct: "n \<le> 2 ^ 32 \<Longrightarrow> distinct (get_tokens n t)"
proof -
  assume n: "n \<le> 2 ^ 32"
  have "i = j" if "i < n" "j < n" "of_nat i = (of_nat j :: u32)" for i j
  proof -
    have "unat (of_nat i :: u32) = i" "unat (of_nat j :: u32) = j" using that(1,2) n by (simp_all add: unat_of_nat)
    then show ?thesis using that(3) by metis
  qed
  then show ?thesis by (auto simp: distinct_conv_nth get_tokens_length get_tokens_nth)
qed

theorem alloctab_tokens_distinct_witness: "distinct (get_tokens 3 alloctab_zero)"
  by (rule alloctab_tokens_distinct) simp

end
