(* ===== verification/Bci_Nametab.thy ===== *)
theory Bci_Nametab
  imports Adam_Prelude
begin

text \<open>
  The name table of the built-in classes (\<^verbatim>\<open>src/bci/bci_nametab.c\<close>): class paths, as addresses of
  pooled strings, to class definitions. A definition stands for the class object, a pointer to code
  of one of the built-in classes; its \<^verbatim>\<open>unload\<close> callback is a parameter of the finalizer.
\<close>

definition BCI_NAMETAB_SIZE :: nat where "BCI_NAMETAB_SIZE = 100007"

record 'c class_wrap =
  wrap_path :: nat
  wrap_class :: 'c

record 'c nametab_node =
  clspath :: nat
  def_wrap :: "'c class_wrap"

definition bci_nametab_hash :: "nat \<Rightarrow> u32" where
  "bci_nametab_hash class_path = (let a = of_nat class_path in a * a * MH_MULTIPLY)"

definition nametab_slot :: "nat \<Rightarrow> nat" where
  "nametab_slot class_path = unat (bci_nametab_hash class_path mod of_nat BCI_NAMETAB_SIZE)"

definition bci_nametab_init :: "'c nametab_node htab \<Rightarrow> int \<times> 'c nametab_node htab" where
  "bci_nametab_init tab = (0, chain_empty)"

definition bci_nametab_node_alloc :: "nat \<Rightarrow> 'c \<Rightarrow> 'c nametab_node" where
  "bci_nametab_node_alloc class object =
     \<lparr>clspath = class, def_wrap = \<lparr>wrap_path = class, wrap_class = object\<rparr>\<rparr>"

definition bci_nametab_insert :: "nat \<Rightarrow> 'c \<Rightarrow> 'c nametab_node htab \<Rightarrow> int \<times> 'c nametab_node htab" where
  "bci_nametab_insert class object tab =
     (let h = nametab_slot class; node = bci_nametab_node_alloc class object
      in (0, tab(h := node # tab h)))"

definition bci_nametab_find :: "nat \<Rightarrow> 'c nametab_node htab \<Rightarrow> 'c nametab_node option" where
  "bci_nametab_find class tab = find (\<lambda>n. clspath n = class) (tab (nametab_slot class))"

definition bci_nametab_register_class :: "nat \<Rightarrow> 'c \<Rightarrow> 'c nametab_node htab \<Rightarrow> int \<times> 'c nametab_node htab" where
  "bci_nametab_register_class path def tab = bci_nametab_insert path def tab"

definition bci_nametab_get_class :: "nat \<Rightarrow> 'c nametab_node htab \<Rightarrow> 'c class_wrap option" where
  "bci_nametab_get_class path tab = map_option def_wrap (bci_nametab_find path tab)"

text \<open>The finalizer calls \<^verbatim>\<open>unload\<close> on every class, slot by slot, in the order of the chains.\<close>

definition bci_nametab_finialize :: "(nat \<Rightarrow> 'c \<Rightarrow> 's \<Rightarrow> 's) \<Rightarrow> 'c nametab_node htab \<Rightarrow> 's \<Rightarrow> 's" where
  "bci_nametab_finialize unload tab s =
     fold (\<lambda>i s. fold (\<lambda>n s. unload (clspath n) (wrap_class (def_wrap n)) s) (tab i) s) [0..<BCI_NAMETAB_SIZE] s"

interpretation name_tab: keyed_table chain_empty "chain_insert nametab_slot clspath"
  "chain_find nametab_slot clspath" clspath
  by (rule keyed_table_chain)

lemma register_chain:
  "bci_nametab_register_class path c tab =
     (0, chain_insert nametab_slot clspath (bci_nametab_node_alloc path c) tab)"
  by (simp add: bci_nametab_register_class_def bci_nametab_insert_def chain_insert_def Let_def
      bci_nametab_node_alloc_def)

lemma get_class_chain:
  "bci_nametab_get_class path tab = map_option def_wrap (chain_find nametab_slot clspath tab path)"
  by (simp add: bci_nametab_get_class_def bci_nametab_find_def chain_find_def)

definition register_all :: "(nat \<times> 'c) list \<Rightarrow> 'c nametab_node htab \<Rightarrow> 'c nametab_node htab" where
  "register_all cs tab = fold (\<lambda>(path, c) tab. snd (bci_nametab_register_class path c tab)) cs tab"

lemma register_all_chain:
  "register_all cs tab =
     fold (chain_insert nametab_slot clspath) (map (\<lambda>(path, c). bci_nametab_node_alloc path c) cs) tab"
  by (induction cs arbitrary: tab) (auto simp: register_all_def register_chain)

text \<open>
  After the classes of a list have been registered in an initialised table under different
  paths, each path gives the class registered for it, wrapped with its path, and every other path
  gives nothing.
\<close>

theorem bci_nametab_lookup_correct:
  assumes "distinct (map fst cs)"
  shows "bci_nametab_get_class path (register_all cs (snd (bci_nametab_init tab))) =
    map_option (\<lambda>c. \<lparr>wrap_path = path, wrap_class = c\<rparr>) (map_of cs path)"
proof -
  let ?ns = "map (\<lambda>(path, c). bci_nametab_node_alloc path c) cs"
  have keys: "map clspath ?ns = map fst cs" by (auto simp: bci_nametab_node_alloc_def)
  have init: "snd (bci_nametab_init tab) = chain_empty" by (simp add: bci_nametab_init_def)
  show ?thesis
  proof (cases "map_of cs path")
    case None
    then have "path \<notin> clspath ` set ?ns" by (auto simp: map_of_eq_None_iff bci_nametab_node_alloc_def image_iff)
    with None show ?thesis
      by (simp add: get_class_chain register_all_chain init name_tab.find_fold_absent name_tab.find_empty)
  next
    case (Some c)
    then have "bci_nametab_node_alloc path c \<in> set ?ns" using map_of_SomeD by force
    then have "chain_find nametab_slot clspath (fold (chain_insert nametab_slot clspath) ?ns chain_empty)
        (clspath (bci_nametab_node_alloc path c)) = Some (bci_nametab_node_alloc path c)"
      using assms by (intro name_tab.find_fold_distinct) (simp only: keys)
    with Some show ?thesis
      by (simp add: get_class_chain register_all_chain init bci_nametab_node_alloc_def)
  qed
qed

theorem bci_nametab_lookup_correct_witness:
  "bci_nametab_get_class 16 (register_all [(16, True), (32, False)] (snd (bci_nametab_init undefined))) =
    Some \<lparr>wrap_path = 16, wrap_class = True\<rparr>"
  using bci_nametab_lookup_correct [of "[(16, True), (32, False)]" 16 undefined] by simp

end
