(* ===== verification/Dalvik_Label.thy ===== *)
theory Dalvik_Label
  imports Adam_Prelude
begin

text \<open>
  The label table (\<^verbatim>\<open>src/dalvik/dalvik_label.c\<close>), which numbers the labels of a method in the
  order of their first use, and the jump table from these numbers to instructions. A label is the
  address of its pooled name, so labels are compared by address.
\<close>

definition DAVLIK_LABEL_POOL_SIZE :: nat where "DAVLIK_LABEL_POOL_SIZE = 655217"

record label_node =
  lab_label :: nat
  lab_idx :: nat

record label_state =
  label_map :: "label_node htab"
  dalvik_label_jump_table :: "nat \<Rightarrow> u32"
  label_count :: nat

definition label_slot :: "nat \<Rightarrow> nat" where
  "label_slot label = unat ((of_nat label * MH_MULTIPLY :: u64) mod of_nat DAVLIK_LABEL_POOL_SIZE)"

definition dalvik_label_init :: "label_state \<Rightarrow> int \<times> label_state" where
  "dalvik_label_init st =
     (0, \<lparr>label_map = chain_empty, dalvik_label_jump_table = (\<lambda>_. -1), label_count = 0\<rparr>)"

definition dalvik_label_exists :: "nat \<Rightarrow> label_state \<Rightarrow> int" where
  "dalvik_label_exists label st =
     (if \<exists>n \<in> set (label_map st (label_slot label)). lab_label n = label then 1 else 0)"

definition dalvik_label_get_label_id :: "nat \<Rightarrow> label_state \<Rightarrow> int \<times> label_state" where
  "dalvik_label_get_label_id label st =
     (case find (\<lambda>n. lab_label n = label) (label_map st (label_slot label)) of
        Some n \<Rightarrow> (int (lab_idx n), st)
      | None \<Rightarrow>
          if label_count st \<ge> DAVLIK_LABEL_POOL_SIZE then (-1, st)
          else let n = \<lparr>lab_label = label, lab_idx = label_count st\<rparr>
               in (int (label_count st),
                   st\<lparr>label_count := Suc (label_count st),
                      label_map := (label_map st)(label_slot label := n # label_map st (label_slot label))\<rparr>))"

subsection \<open>Labels and numbers\<close>

interpretation label_tab: keyed_table chain_empty "chain_insert label_slot lab_label"
  "chain_find label_slot lab_label" lab_label
  by (rule keyed_table_chain)

abbreviation label_find :: "label_state \<Rightarrow> nat \<Rightarrow> label_node option" where
  "label_find st \<equiv> chain_find label_slot lab_label (label_map st)"

lemma get_label_id_chain:
  "dalvik_label_get_label_id label st =
     (case label_find st label of
        Some n \<Rightarrow> (int (lab_idx n), st)
      | None \<Rightarrow>
          if label_count st \<ge> DAVLIK_LABEL_POOL_SIZE then (-1, st)
          else (int (label_count st),
                st\<lparr>label_count := Suc (label_count st),
                   label_map := chain_insert label_slot lab_label
                     \<lparr>lab_label = label, lab_idx = label_count st\<rparr> (label_map st)\<rparr>))"
  by (auto simp: dalvik_label_get_label_id_def chain_find_def chain_insert_def Let_def split: option.splits)

text \<open>The numbers that are in use are those below the counter, each for one label.\<close>

definition label_inv :: "label_state \<Rightarrow> bool" where
  "label_inv st \<longleftrightarrow> label_count st \<le> DAVLIK_LABEL_POOL_SIZE \<and>
     (\<forall>l n. label_find st l = Some n \<longrightarrow> lab_idx n < label_count st) \<and>
     (\<forall>l l' n n'. label_find st l = Some n \<longrightarrow> label_find st l' = Some n' \<longrightarrow> lab_idx n = lab_idx n' \<longrightarrow> l = l')"

definition label_of :: "label_state \<Rightarrow> int \<rightharpoonup> nat" where
  "label_of st i = (if \<exists>l n. label_find st l = Some n \<and> int (lab_idx n) = i
     then Some (THE l. \<exists>n. label_find st l = Some n \<and> int (lab_idx n) = i) else None)"

lemma label_inv_idx: "label_inv st \<Longrightarrow> label_find st l = Some n \<Longrightarrow> lab_idx n < label_count st"
  and label_inv_inj: "label_inv st \<Longrightarrow> label_find st l = Some n \<Longrightarrow> label_find st l' = Some n' \<Longrightarrow>
    lab_idx n = lab_idx n' \<Longrightarrow> l = l'"
  unfolding label_inv_def by blast+

lemma label_of_iff:
  assumes "label_inv st"
  shows "label_of st i = Some l \<longleftrightarrow> (\<exists>n. label_find st l = Some n \<and> int (lab_idx n) = i)"
proof (cases "\<exists>l n. label_find st l = Some n \<and> int (lab_idx n) = i")
  case True
  then obtain l0 n0 where l0: "label_find st l0 = Some n0" "int (lab_idx n0) = i" by blast
  then have unique: "l = l0" if "label_find st l = Some n" "int (lab_idx n) = i" for l n
    using that label_inv_inj [OF assms, of l n l0 n0] by simp
  have "(THE l. \<exists>n. label_find st l = Some n \<and> int (lab_idx n) = i) = l0"
    using l0 unique by (intro the_equality) blast+
  then have "label_of st i = Some l0" using True by (simp add: label_of_def)
  then show ?thesis using l0 unique by (metis option.inject)
next
  case False
  then show ?thesis unfolding label_of_def by auto
qed

lemma label_inv_init: "label_inv (snd (dalvik_label_init st))"
  by (simp add: dalvik_label_init_def label_inv_def chain_find_def chain_empty_def)

lemma label_add:
  assumes "label_inv st" "label_find st label = None" "label_count st < DAVLIK_LABEL_POOL_SIZE"
  defines "st' \<equiv> st\<lparr>label_count := Suc (label_count st),
     label_map := chain_insert label_slot lab_label \<lparr>lab_label = label, lab_idx = label_count st\<rparr> (label_map st)\<rparr>"
  shows "label_inv st'"
    and "label_find st' l = (if l = label then Some \<lparr>lab_label = label, lab_idx = label_count st\<rparr> else label_find st l)"
proof -
  show find: "label_find st' l = (if l = label then Some \<lparr>lab_label = label, lab_idx = label_count st\<rparr> else label_find st l)"
    for l by (simp add: st'_def label_tab.find_insert)
  have "lab_idx n < label_count st'" if "label_find st' l = Some n" for l n
    using that label_inv_idx [OF assms(1), of l n] unfolding find by (auto simp: st'_def split: if_splits)
  moreover have "l = l'" if "label_find st' l = Some n" "label_find st' l' = Some n'" "lab_idx n = lab_idx n'" for l l' n n'
    using that label_inv_inj [OF assms(1), of l n l' n'] label_inv_idx [OF assms(1), of l n]
      label_inv_idx [OF assms(1), of l' n'] unfolding find by (auto split: if_splits)
  ultimately show "label_inv st'" using assms(3) unfolding label_inv_def by (auto simp: st'_def)
qed

lemma get_label_id_law:
  assumes "label_inv st" "dalvik_label_get_label_id label st = (i, st')"
  shows "label_inv st' \<and> (0 \<le> i \<longrightarrow> label_of st' i = Some label) \<and>
    (\<forall>j l. label_of st j = Some l \<longrightarrow> label_of st' j = Some l)"
proof (cases "label_find st label = None \<and> label_count st < DAVLIK_LABEL_POOL_SIZE")
  case True
  then have new: "label_find st label = None" "label_count st < DAVLIK_LABEL_POOL_SIZE" by auto
  note add = label_add [OF assms(1) new]
  have "st' = st\<lparr>label_count := Suc (label_count st),
     label_map := chain_insert label_slot lab_label \<lparr>lab_label = label, lab_idx = label_count st\<rparr> (label_map st)\<rparr>"
    "i = int (label_count st)" using assms(2) new by (auto simp: get_label_id_chain)
  with add new(1) show ?thesis
    by (auto simp: label_of_iff [OF assms(1)] label_of_iff [OF add(1)])
next
  case False
  then have "st' = st" "i = -1 \<or> (\<exists>n. label_find st label = Some n \<and> i = int (lab_idx n))"
    using assms(2) by (auto simp: get_label_id_chain split: option.splits if_splits)
  then show ?thesis using assms(1) by (auto simp: label_of_iff)
qed

interpretation label_interning: interning label_inv label_of dalvik_label_get_label_id "\<lambda>_. True" "\<lambda>i. 0 \<le> i"
proof
  show "k = k'" if "label_inv p" "label_of p k = Some t" "label_of p k' = Some t" for p k k' t
    using that by (auto simp: label_of_iff)
qed (use get_label_id_law in blast)

lemma get_label_id_range:
  assumes "label_inv st" "dalvik_label_get_label_id label st = (i, st')"
  shows "i < int DAVLIK_LABEL_POOL_SIZE" "i < int (label_count st')" "label_count st \<le> label_count st'"
  using assms label_inv_idx [OF assms(1)]
  by (force simp: get_label_id_chain label_inv_def split: option.splits if_splits)+

text \<open>
  Starting from an initialised table, any sequence of queries gives two labels the same number
  exactly when they are the same label, apart from the queries that fail because the table is full.
\<close>

theorem dalvik_label_ids_correct:
  assumes "intern_all dalvik_label_get_label_id labels (snd (dalvik_label_init st)) = (ids, st')"
    and "i < length labels" "j < length labels" "0 \<le> ids ! i" "0 \<le> ids ! j"
  shows "ids ! i = ids ! j \<longleftrightarrow> labels ! i = labels ! j"
  by (rule label_interning.intern_all_eq_iff [OF label_inv_init _ assms]) (simp add: list_all_iff)

theorem dalvik_label_ids_correct_witness:
  "\<exists>ids st'. intern_all dalvik_label_get_label_id [64, 80, 64] (snd (dalvik_label_init undefined)) = (ids, st') \<and>
     ids = [0, 1, 0] \<and> (ids ! 0 = ids ! 2 \<longleftrightarrow> ([64, 80, 64] :: nat list) ! 0 = [64, 80, 64] ! 2)"
proof -
  obtain ids st' where q: "intern_all dalvik_label_get_label_id [64, 80, 64] (snd (dalvik_label_init undefined)) = (ids, st')"
    by (rule prod.exhaust)
  then have ids: "ids = [0, 1, 0]"
    by (auto simp: get_label_id_chain label_tab.find_insert label_tab.find_empty dalvik_label_init_def
        DAVLIK_LABEL_POOL_SIZE_def)
  show ?thesis using dalvik_label_ids_correct [OF q, of 0 2] q ids by simp
qed

text \<open>
  The number of a label is always an index of the jump table; a query for a label that the table
  knows does not change anything, and one for an unknown label fails exactly when all numbers are
  taken, and then changes nothing either.
\<close>

theorem dalvik_label_get_label_id_bounds:
  assumes "label_inv st" "dalvik_label_get_label_id label st = (i, st')"
  shows "label_inv st' \<and> -1 \<le> i \<and> i < int DAVLIK_LABEL_POOL_SIZE \<and>
    (dalvik_label_exists label st = 1 \<longrightarrow> st' = st \<and> 0 \<le> i) \<and>
    (dalvik_label_exists label st = 0 \<longrightarrow>
       (if label_count st = DAVLIK_LABEL_POOL_SIZE then i = -1 \<and> st' = st
        else i = int (label_count st) \<and> dalvik_label_exists label st' = 1 \<and>
          dalvik_label_jump_table st' = dalvik_label_jump_table st))"
proof -
  have exists: "dalvik_label_exists label s = (if label_find s label = None then 0 else 1)" for s
    by (auto simp: dalvik_label_exists_def chain_find_def find_None_iff)
  have count: "label_count st \<le> DAVLIK_LABEL_POOL_SIZE" using assms(1) by (simp add: label_inv_def)
  have inv: "label_inv st'" using get_label_id_law [OF assms] by blast
  show ?thesis
  proof (cases "label_find st label")
    case None
    then show ?thesis using inv count assms(2)
      by (auto simp: exists get_label_id_chain label_tab.find_insert split: if_splits)
  next
    case (Some n)
    then show ?thesis using inv get_label_id_range(1) [OF assms] assms(2)
      by (auto simp: exists get_label_id_chain)
  qed
qed

theorem dalvik_label_get_label_id_bounds_witness:
  "\<exists>i st'. dalvik_label_get_label_id 64 (snd (dalvik_label_init undefined)) = (i, st') \<and> i < 655217"
proof -
  obtain i st' where q: "dalvik_label_get_label_id 64 (snd (dalvik_label_init undefined)) = (i, st')"
    by (rule prod.exhaust)
  then show ?thesis using dalvik_label_get_label_id_bounds [OF label_inv_init q]
    by (simp add: DAVLIK_LABEL_POOL_SIZE_def)
qed

end
