(* ===== verification/Stringpool.thy ===== *)
theory Stringpool
  imports Adam_Prelude
begin

text \<open>
  The string pool (\<^verbatim>\<open>src/stringpool.c\<close>, \<^verbatim>\<open>include/stringpool.h\<close>). Every string that ADAM reads is
  pooled, so that two strings are compared by their addresses. The pool is a chained hash table
  of four 32 bit hash codes. There are two ways to compute the hash codes, directly from a string
  and incrementally by an accumulator that the scanner of S-expressions feeds one character at a
  time; the theorems show that they agree and that the pool gives equal strings equal addresses.

  Pooled strings live in \<open>pool_mem\<close>, a map from pointers to strings. The model follows a little
  endian machine, on which the unaligned 32 bit load of the direct computation reads the bytes in
  the order that the accumulator shifts them in. Shifts that leave the range of \<^verbatim>\<open>int\<close> are taken
  modulo \<^verbatim>\<open>2^32\<close>. Memory exhaustion is not modelled.
\<close>

subsection \<open>The hash functions\<close>

definition STRINGPOOL_MURMUR_C1 :: u32 where "STRINGPOOL_MURMUR_C1 = 0xcc9e2d51"
definition STRINGPOOL_MURMUR_C2 :: u32 where "STRINGPOOL_MURMUR_C2 = 0x1b873593"
definition STRINGPOOL_MURMUR_R1 :: nat where "STRINGPOOL_MURMUR_R1 = 15"
definition STRINGPOOL_MURMUR_R2 :: nat where "STRINGPOOL_MURMUR_R2 = 13"
definition STRINGPOOL_MURMUR_M :: u32 where "STRINGPOOL_MURMUR_M = 5"
definition STRINGPOOL_MURMUR_N :: u32 where "STRINGPOOL_MURMUR_N = 0xe6546b64"
definition STRINGPOOL_MURMUR_SEED :: u32 where "STRINGPOOL_MURMUR_SEED = 0xf3f53423"
definition STRINGPOOL_MULTIPLY_SEED :: u32 where "STRINGPOOL_MULTIPLY_SEED = 0x23f4537"
definition STRINGPOOL_SUM_M :: u32 where "STRINGPOOL_SUM_M = 0xfffe7985"
definition STRINGPOOL_SUM_R1 :: nat where "STRINGPOOL_SUM_R1 = 17"
definition STRINGPOOL_SUM_R2 :: nat where "STRINGPOOL_SUM_R2 = 15"
definition STRINGPOOL_ELF_MSK :: u32 where "STRINGPOOL_ELF_MSK = 0xf0000000"

record hash4 =
  h0 :: u32
  h1 :: u32
  h2 :: u32
  h3 :: u32

text \<open>A character as an unsigned byte, promoted to 32 bits.\<close>

definition byte :: "char \<Rightarrow> u32" where
  "byte c = word_of_nat (of_char c)"

text \<open>The statements that both computations contain.\<close>

definition murmur_scramble :: "u32 \<Rightarrow> u32" where
  "murmur_scramble k =
     (let k = k * STRINGPOOL_MURMUR_C1; k = rotl32 STRINGPOOL_MURMUR_R1 k in k * STRINGPOOL_MURMUR_C2)"

definition murmur_block :: "u32 \<Rightarrow> u32 \<Rightarrow> u32" where
  "murmur_block k h =
     (let h = h XOR murmur_scramble k;
          h = h * rotl32 STRINGPOOL_MURMUR_R2 h
      in h XOR (h * STRINGPOOL_MURMUR_M + STRINGPOOL_MURMUR_N))"

definition murmur_finish :: "u32 \<Rightarrow> u32 \<Rightarrow> u32" where
  "murmur_finish count h =
     (let h = h XOR count;
          h = h XOR drop_bit 16 h;
          h = h * 0x85ebca6b;
          h = h XOR drop_bit 13 h;
          h = h * 0xc2b2ae35
      in h XOR drop_bit 16 h)"

definition hash_byte :: "u32 \<Rightarrow> hash4 \<Rightarrow> hash4" where
  "hash_byte d h =
     (let e = push_bit 4 (h3 h) + d;
          g = e AND STRINGPOOL_ELF_MSK;
          e = (if g \<noteq> 0 then e XOR drop_bit 24 g else e)
      in h\<lparr>h1 := (h1 h + d + push_bit STRINGPOOL_SUM_R1 d + drop_bit STRINGPOOL_SUM_R2 d) mod STRINGPOOL_SUM_M,
           h2 := h2 h + d * d,
           h3 := e AND NOT g\<rparr>)"

definition hash_init :: hash4 where
  "hash_init = \<lparr>h0 = STRINGPOOL_MURMUR_SEED, h1 = 0, h2 = STRINGPOOL_MULTIPLY_SEED, h3 = 0\<rparr>"

subsection \<open>The direct computation\<close>

text \<open>The 32 bit load at offset \<^verbatim>\<open>i - 4\<close>.\<close>

definition load32 :: "cstr \<Rightarrow> nat \<Rightarrow> u32" where
  "load32 s i = byte (s ! i) OR push_bit 8 (byte (s ! (i + 1))) OR push_bit 16 (byte (s ! (i + 2)))
     OR push_bit 24 (byte (s ! (i + 3)))"

text \<open>One round of the loop, for the character at index \<open>i\<close>.\<close>

definition hash_step :: "cstr \<Rightarrow> nat \<Rightarrow> hash4 \<Rightarrow> hash4" where
  "hash_step s i h =
     (let h = (if i mod 4 = 0 \<and> i \<noteq> 0 then h\<lparr>h0 := murmur_block (load32 s (i - 4)) (h0 h)\<rparr> else h)
      in hash_byte (byte (s ! i)) h)"

text \<open>The switch falls through from the case of the length modulo 4 down to 1.\<close>

definition direct_remaining :: "cstr \<Rightarrow> u32" where
  "direct_remaining s =
     (let i = length s; d = (\<lambda>k. byte (s ! (i - k)));
          r = 0;
          r = (if i mod 4 = 0 then r OR push_bit 24 (d 4) else r);
          r = (if i mod 4 \<in> {0, 3} then r OR push_bit 16 (d 3) else r);
          r = (if i mod 4 \<in> {0, 3, 2} then r OR push_bit 8 (d 2) else r)
      in r OR d 1)"

definition stringpool_hash_func :: "cstr \<Rightarrow> hash4" where
  "stringpool_hash_func s =
     (let h = fold (hash_step s) [0..<length s] hash_init;
          h = (if length s > 0 then h\<lparr>h0 := h0 h XOR murmur_scramble (direct_remaining s)\<rparr> else h)
      in h\<lparr>h0 := murmur_finish (of_nat (length s)) (h0 h)\<rparr>)"

subsection \<open>The accumulator\<close>

text \<open>
  \<^verbatim>\<open>begin\<close> points into the text that is scanned; the model keeps the text from there on. The member
  \<^verbatim>\<open>last\<close> is not initialised.
\<close>

record accumulator =
  acc_count :: nat
  acc_h :: hash4
  acc_last :: u32
  acc_begin :: cstr

definition stringpool_accumulator_init :: "u32 \<Rightarrow> cstr \<Rightarrow> accumulator" where
  "stringpool_accumulator_init garbage begin' =
     \<lparr>acc_count = 0, acc_h = hash_init, acc_last = garbage, acc_begin = begin'\<rparr>"

definition stringpool_accumulator_next :: "char \<Rightarrow> accumulator \<Rightarrow> accumulator" where
  "stringpool_accumulator_next c acc =
     (let data = byte c;
          h = (if acc_count acc mod 4 = 0 \<and> acc_count acc \<noteq> 0
               then (acc_h acc)\<lparr>h0 := murmur_block (acc_last acc) (h0 (acc_h acc))\<rparr> else acc_h acc)
      in acc\<lparr>acc_last := drop_bit 8 (acc_last acc) OR push_bit 24 data,
             acc_h := hash_byte data h,
             acc_count := acc_count acc + 1\<rparr>)"

definition accu_remaining :: "nat \<Rightarrow> u32 \<Rightarrow> u32" where
  "accu_remaining count last' =
     (let r = 0;
          r = (if count mod 4 = 0 then r OR push_bit 24 (last' AND 0xff) else r);
          r = (if count mod 4 \<in> {0, 3} then r OR push_bit 8 (last' AND 0xff00) else r);
          r = (if count mod 4 \<in> {0, 3, 2} then r OR drop_bit 8 (last' AND 0xff0000) else r)
      in r OR drop_bit 24 (last' AND 0xff000000))"

definition stringpool_accu_hash :: "accumulator \<Rightarrow> accumulator" where
  "stringpool_accu_hash acc =
     (let h = acc_h acc;
          h = (if acc_count acc > 0
               then h\<lparr>h0 := h0 h XOR murmur_scramble (accu_remaining (acc_count acc) (acc_last acc))\<rparr> else h)
      in acc\<lparr>acc_h := h\<lparr>h0 := murmur_finish (of_nat (acc_count acc)) (h0 h)\<rparr>\<rparr>)"

subsection \<open>The pool\<close>

record hashnode =
  node_h :: hash4
  node_str :: nat

record pool =
  pool_size :: nat
  pool_hash :: "hashnode htab"
  pool_mem :: "nat \<rightharpoonup> cstr"
  pool_next :: nat

definition STRING_SLOT :: "pool \<Rightarrow> hash4 \<Rightarrow> nat" where
  "STRING_SLOT p h = unat (h0 h) mod pool_size p"

text \<open>
  The condition of the search: \<^verbatim>\<open>strncmp(ptr->str, str, len) == 0 && ptr->str[len] == 0\<close> after the
  four hash codes.
\<close>

definition node_equal :: "pool \<Rightarrow> hash4 \<Rightarrow> nat \<Rightarrow> cstr \<Rightarrow> hashnode \<Rightarrow> bool" where
  "node_equal p h len s n =
     (node_h n = h \<and>
      (case pool_mem p (node_str n) of
         None \<Rightarrow> False
       | Some t \<Rightarrow> take len t = take len s \<and> char_at t len = NUL))"

definition stringpool_query_imp :: "hash4 \<Rightarrow> nat \<Rightarrow> cstr \<Rightarrow> pool \<Rightarrow> nat \<times> pool" where
  "stringpool_query_imp h len s p =
     (let idx = STRING_SLOT p h
      in case find (node_equal p h len s) (pool_hash p idx) of
           Some n \<Rightarrow> (node_str n, p)
         | None \<Rightarrow>
             let k = pool_next p; n = \<lparr>node_h = h, node_str = k\<rparr>
             in (k, p\<lparr>pool_hash := (pool_hash p)(idx := n # pool_hash p idx),
                      pool_mem := (pool_mem p)(k \<mapsto> take len s),
                      pool_next := Suc k\<rparr>))"

definition stringpool_query :: "cstr \<Rightarrow> pool \<Rightarrow> nat \<times> pool" where
  "stringpool_query s p = stringpool_query_imp (stringpool_hash_func s) (length s) s p"

definition stringpool_accumulator_query :: "accumulator \<Rightarrow> pool \<Rightarrow> nat \<times> pool" where
  "stringpool_accumulator_query acc p =
     (let acc = stringpool_accu_hash acc
      in stringpool_query_imp (acc_h acc) (acc_count acc) (acc_begin acc) p)"

text \<open>The pool before initialisation is \<^const>\<open>None\<close>; initialising it twice is an error.\<close>

definition stringpool_init :: "nat \<Rightarrow> pool option \<Rightarrow> int \<times> pool option" where
  "stringpool_init poolsize p =
     (case p of
        Some _ \<Rightarrow> (-1, p)
      | None \<Rightarrow> (0, Some \<lparr>pool_size = poolsize, pool_hash = chain_empty, pool_mem = Map.empty, pool_next = 1\<rparr>))"

definition stringpool_finalize :: "pool option \<Rightarrow> pool option" where
  "stringpool_finalize p = None"

subsection \<open>The two computations agree\<close>

text \<open>The byte of a word at position \<open>j\<close>, 0 the lowest.\<close>

definition word_byte :: "nat \<Rightarrow> u32 \<Rightarrow> u32" where
  "word_byte j w = take_bit 8 (drop_bit (8 * j) w)"

lemma byte_less: "unat (byte c) < 256"
proof -
  have "unat (byte c) \<le> of_char c" by (simp add: byte_def unat_of_nat)
  also have "\<dots> < 256" by (rule nat_of_char_less_256)
  finally show ?thesis .
qed

lemma byte_take_bit: "take_bit 8 (byte c) = byte c"
  using byte_less [of c] by (simp add: word_unat_eq_iff take_bit_eq_mod unat_mod)

lemma byte_high_bits: "bit (byte c) n \<Longrightarrow> n < 8"
  using byte_take_bit [of c] by (metis bit_take_bit_iff)

lemma word_byte_new: "word_byte 3 (drop_bit 8 w OR push_bit 24 (byte c)) = byte c"
  by (rule bit_word_eqI) (auto simp: word_byte_def bit_simps dest: byte_high_bits)

lemma word_byte_old:
  "j < 3 \<Longrightarrow> word_byte j (drop_bit 8 w OR push_bit 24 (byte c)) = word_byte (Suc j) w"
  by (rule bit_word_eqI) (auto simp: word_byte_def bit_simps algebra_simps dest: byte_high_bits)

lemma word_of_bytes:
  "w = word_byte 0 w OR push_bit 8 (word_byte 1 w) OR push_bit 16 (word_byte 2 w) OR push_bit 24 (word_byte 3 w)"
proof (rule bit_word_eqI)
  fix n assume "n < LENGTH(32)"
  then consider "n < 8" | "8 \<le> n" "n < 16" | "16 \<le> n" "n < 24" | "24 \<le> n" "n < 32" by fastforce
  then show "bit w n \<longleftrightarrow> bit (word_byte 0 w OR push_bit 8 (word_byte 1 w) OR push_bit 16 (word_byte 2 w)
      OR push_bit 24 (word_byte 3 w)) n"
    by cases (auto simp: word_byte_def bit_simps)
qed

lemma accu_remaining_bytes:
  "push_bit 24 (w AND 0xff) = push_bit 24 (word_byte 0 w)"
  "push_bit 8 (w AND 0xff00) = push_bit 16 (word_byte 1 w)"
  "drop_bit 8 (w AND 0xff0000) = push_bit 8 (word_byte 2 w)"
  "drop_bit 24 (w AND 0xff000000) = word_byte 3 w"
proof -
  have masks: "0xff = (mask 8 :: u32)" "0xff00 = push_bit 8 (mask 8 :: u32)"
    "0xff0000 = push_bit 16 (mask 8 :: u32)" "0xff000000 = push_bit 24 (mask 8 :: u32)"
    by (simp_all add: mask_eq_exp_minus_1 push_bit_eq_mult)
  show "push_bit 24 (w AND 0xff) = push_bit 24 (word_byte 0 w)"
    "push_bit 8 (w AND 0xff00) = push_bit 16 (word_byte 1 w)"
    "drop_bit 8 (w AND 0xff0000) = push_bit 8 (word_byte 2 w)"
    "drop_bit 24 (w AND 0xff000000) = word_byte 3 w"
    unfolding masks by (rule bit_word_eqI; auto simp: word_byte_def bit_simps)+
qed


text \<open>
  What the accumulator knows after the characters of \<open>s\<close>: the hash codes of the loop of the direct
  computation, and the last four characters in \<^verbatim>\<open>last\<close>, the most recent one in the highest byte.
\<close>

definition feed :: "cstr \<Rightarrow> accumulator \<Rightarrow> accumulator" where
  "feed s acc = fold stringpool_accumulator_next s acc"

lemma hash_step_append: "i < length s \<Longrightarrow> hash_step (s @ t) i = hash_step s i"
  by (rule ext) (auto simp: hash_step_def load32_def nth_append)

lemma fold_hash_step_append:
  "n \<le> length s \<Longrightarrow> fold (hash_step (s @ t)) [0..<n] h = fold (hash_step s) [0..<n] h"
  by (rule fold_cong) (auto simp: hash_step_append)

lemma load32_last:
  assumes "\<And>k. 1 \<le> k \<Longrightarrow> k \<le> 4 \<Longrightarrow> k \<le> length s \<Longrightarrow> word_byte (4 - k) w = byte (s ! (length s - k))"
    and "4 \<le> length s"
  shows "w = load32 s (length s - 4)"
proof -
  have "word_byte 0 w = byte (s ! (length s - 4))" "word_byte 1 w = byte (s ! (length s - 3))"
    "word_byte 2 w = byte (s ! (length s - 2))" "word_byte 3 w = byte (s ! (length s - 1))"
    using assms(1) [of 4] assms(1) [of 3] assms(1) [of 2] assms(1) [of 1] assms(2) by auto
  moreover have "length s - 4 + 1 = length s - 3" "length s - 4 + 2 = length s - 2"
    "length s - 4 + 3 = length s - 1" using assms(2) by auto
  ultimately show ?thesis
    by (subst word_of_bytes) (simp only: load32_def)
qed

lemma feed_snoc: "feed (s @ [c]) acc = stringpool_accumulator_next c (feed s acc)"
  by (simp add: feed_def)

definition tracks :: "cstr \<Rightarrow> accumulator \<Rightarrow> bool" where
  "tracks s acc \<longleftrightarrow> acc_count acc = length s \<and> acc_h acc = fold (hash_step s) [0..<length s] hash_init \<and>
     (\<forall>k. 1 \<le> k \<and> k \<le> 4 \<and> k \<le> length s \<longrightarrow>
        word_byte (4 - k) (acc_last acc) = byte (s ! (length s - k)))"

lemma tracks_next:
  assumes "tracks s acc"
  shows "tracks (s @ [c]) (stringpool_accumulator_next c acc)"
proof -
  let ?acc' = "stringpool_accumulator_next c acc"
  have last: "word_byte (4 - k) (acc_last acc) = byte (s ! (length s - k))"
    if "1 \<le> k" "k \<le> 4" "k \<le> length s" for k
    using assms that by (simp add: tracks_def)
  have block: "acc_last acc = load32 (s @ [c]) (length s - 4)"
    if "length s mod 4 = 0" "length s \<noteq> 0"
  proof -
    have l: "4 \<le> length s" using that by presburger
    then have "load32 (s @ [c]) (length s - 4) = load32 s (length s - 4)"
      by (simp add: load32_def nth_append)
    then show ?thesis using load32_last [OF last l] by simp
  qed
  have "acc_h ?acc' = hash_step (s @ [c]) (length s) (acc_h acc)"
    using block assms
    by (auto simp: tracks_def stringpool_accumulator_next_def hash_step_def Let_def nth_append)
  moreover have "word_byte (4 - k) (acc_last ?acc') = byte ((s @ [c]) ! (length (s @ [c]) - k))"
    if k: "1 \<le> k" "k \<le> 4" "k \<le> length (s @ [c])" for k
  proof (cases "k = 1")
    case True
    then show ?thesis by (simp add: stringpool_accumulator_next_def Let_def word_byte_new)
  next
    case False
    with k have "Suc (4 - k) = 4 - (k - 1)" "4 - k < 3" by auto
    moreover have "(s @ [c]) ! (length (s @ [c]) - k) = s ! (length s - (k - 1))"
      using k False by (auto simp: nth_append)
    ultimately show ?thesis using last [of "k - 1"] k False
      by (simp add: stringpool_accumulator_next_def Let_def word_byte_old)
  qed
  ultimately show ?thesis using assms
    by (simp add: tracks_def fold_hash_step_append stringpool_accumulator_next_def Let_def)
qed

lemma tracks_feed: "tracks [] acc \<Longrightarrow> tracks s (feed s acc)"
  by (induction s rule: rev_induct) (simp_all add: feed_snoc tracks_next, simp add: feed_def)

lemma tracks_init: "tracks [] (stringpool_accumulator_init garbage buf)"
  by (simp add: tracks_def stringpool_accumulator_init_def)

lemma feed_begin: "acc_begin (feed s acc) = acc_begin acc"
  by (induction s rule: rev_induct)
    (simp_all add: feed_snoc stringpool_accumulator_next_def Let_def, simp add: feed_def)

lemma remaining_agree:
  assumes "\<And>k. 1 \<le> k \<Longrightarrow> k \<le> 4 \<Longrightarrow> k \<le> length s \<Longrightarrow> word_byte (4 - k) w = byte (s ! (length s - k))"
    and "0 < length s"
  shows "accu_remaining (length s) w = direct_remaining s"
proof -
  let ?n = "length s"
  have byte3: "word_byte 3 w = byte (s ! (?n - 1))" using assms(1) [of 1] assms(2) by (simp add: Suc_le_eq)
  have byte2: "?n mod 4 \<in> {0, 3, 2} \<Longrightarrow> word_byte 2 w = byte (s ! (?n - 2))"
    using assms(1) [of 2] assms(2) by (cases "?n = 1") auto
  have byte1: "?n mod 4 \<in> {0, 3} \<Longrightarrow> word_byte 1 w = byte (s ! (?n - 3))"
    using assms(1) [of 3] assms(2) by (cases "?n = 1"; cases "?n = 2") auto
  have byte0: "?n mod 4 = 0 \<Longrightarrow> word_byte 0 w = byte (s ! (?n - 4))"
    using assms(1) [of 4] assms(2) by (metis One_nat_def diff_self_eq_0 dvd_imp_le mod_0_imp_dvd
        numeral_le_iff one_le_numeral order_refl)
  show ?thesis
    unfolding accu_remaining_def direct_remaining_def accu_remaining_bytes Let_def byte3
    using byte0 byte1 byte2 by auto
qed

lemma accu_hash_fed:
  "acc_h (stringpool_accu_hash (feed s (stringpool_accumulator_init garbage buf))) = stringpool_hash_func s"
proof -
  let ?acc = "feed s (stringpool_accumulator_init garbage buf)"
  have t: "tracks s ?acc" by (rule tracks_feed [OF tracks_init])
  then have "0 < length s \<Longrightarrow> accu_remaining (length s) (acc_last ?acc) = direct_remaining s"
    by (intro remaining_agree) (auto simp: tracks_def)
  then show ?thesis
    using t unfolding stringpool_accu_hash_def stringpool_hash_func_def Let_def
    by (auto simp: tracks_def)
qed

text \<open>
  The hash codes that the accumulator has after the characters of a string are those that the
  direct computation has for the string, whatever the accumulator's uninitialised member
  \<^verbatim>\<open>last\<close> held.
\<close>

theorem accumulator_hash_agrees:
  "acc_h (stringpool_accu_hash (fold stringpool_accumulator_next s (stringpool_accumulator_init garbage buf)))
     = stringpool_hash_func s"
  by (rule accu_hash_fed [unfolded feed_def])

lemma accumulator_query_feed:
  "stringpool_accumulator_query (feed s (stringpool_accumulator_init garbage buf)) p
     = stringpool_query_imp (stringpool_hash_func s) (length s) buf p"
  using tracks_feed [OF tracks_init, of s garbage buf] feed_begin [of s "stringpool_accumulator_init garbage buf"]
    accu_hash_fed [of s garbage buf]
  by (simp add: stringpool_accumulator_query_def Let_def stringpool_accu_hash_def tracks_def
      stringpool_accumulator_init_def)

text \<open>
  C33: scanning the characters of a string one by one where it stands in a longer text and then
  querying the accumulator does exactly what querying the string does: the same address and the
  same pool afterwards.
\<close>

theorem accumulator_query_is_query:
  "stringpool_accumulator_query
     (fold stringpool_accumulator_next s (stringpool_accumulator_init garbage (s @ rest))) p
   = stringpool_query s p"
  unfolding feed_def [symmetric] accumulator_query_feed stringpool_query_def stringpool_query_imp_def
    node_equal_def [abs_def] Let_def
  by (simp cong: option.case_cong)

subsection \<open>The pool gives equal strings equal addresses\<close>

text \<open>
  Every node is in the chain of its hash codes, which are those of its string; every pooled string
  has a node and one address only; the addresses from \<^const>\<open>pool_next\<close> on are free.
\<close>

definition pool_inv :: "pool \<Rightarrow> bool" where
  "pool_inv p \<longleftrightarrow>
     (\<forall>i. \<forall>n \<in> set (pool_hash p i). i = STRING_SLOT p (node_h n) \<and>
        (\<exists>t. pool_mem p (node_str n) = Some t \<and> node_h n = stringpool_hash_func t)) \<and>
     (\<forall>k t. pool_mem p k = Some t \<longrightarrow> NUL \<notin> set t \<and> k < pool_next p \<and>
        (\<exists>n \<in> set (pool_hash p (STRING_SLOT p (stringpool_hash_func t))). node_str n = k)) \<and>
     (\<forall>k k' t. pool_mem p k = Some t \<longrightarrow> pool_mem p k' = Some t \<longrightarrow> k = k')"

lemma pool_inv_node:
  "pool_inv p \<Longrightarrow> n \<in> set (pool_hash p i) \<Longrightarrow>
     i = STRING_SLOT p (node_h n) \<and> (\<exists>t. pool_mem p (node_str n) = Some t \<and> node_h n = stringpool_hash_func t)"
  unfolding pool_inv_def by blast

lemma pool_inv_mem:
  "pool_inv p \<Longrightarrow> pool_mem p k = Some t \<Longrightarrow> NUL \<notin> set t \<and> k < pool_next p \<and>
     (\<exists>n \<in> set (pool_hash p (STRING_SLOT p (stringpool_hash_func t))). node_str n = k)"
  unfolding pool_inv_def by blast

lemma pool_inv_inj: "pool_inv p \<Longrightarrow> pool_mem p k = Some t \<Longrightarrow> pool_mem p k' = Some t \<Longrightarrow> k = k'"
  unfolding pool_inv_def by blast

lemma char_at_no_nul: "NUL \<notin> set t \<Longrightarrow> char_at t n = NUL \<longleftrightarrow> length t \<le> n"
  by (metis char_at_def linorder_not_less nth_mem)

lemma same_string: "NUL \<notin> set t \<Longrightarrow> take (length s) t = s \<and> char_at t (length s) = NUL \<longleftrightarrow> t = s"
  by (auto simp: char_at_no_nul)

lemma pool_inv_init: "pool_inv (the (snd (stringpool_init n None)))"
  by (simp add: pool_inv_def stringpool_init_def chain_empty_def)

lemma query_found:
  assumes "pool_inv p" "find (node_equal p (stringpool_hash_func s) (length s) s)
      (pool_hash p (STRING_SLOT p (stringpool_hash_func s))) = Some n"
  shows "pool_mem p (node_str n) = Some s"
proof -
  have n: "node_equal p (stringpool_hash_func s) (length s) s n" using find_SomeD [OF assms(2)] by blast
  then obtain t where t: "pool_mem p (node_str n) = Some t" by (auto simp: node_equal_def split: option.splits)
  then have "NUL \<notin> set t" using pool_inv_mem [OF assms(1)] by blast
  with n t show ?thesis using same_string [of t s] by (auto simp: node_equal_def)
qed

lemma query_not_found:
  assumes "pool_inv p" "find (node_equal p (stringpool_hash_func s) (length s) s)
      (pool_hash p (STRING_SLOT p (stringpool_hash_func s))) = None"
  shows "pool_mem p k \<noteq> Some s"
proof
  assume k: "pool_mem p k = Some s"
  obtain n where n: "n \<in> set (pool_hash p (STRING_SLOT p (stringpool_hash_func s)))" "node_str n = k"
    using pool_inv_mem [OF assms(1) k] by blast
  have "node_h n = stringpool_hash_func s" using pool_inv_node [OF assms(1) n(1)] n(2) k by simp
  moreover have "NUL \<notin> set s" using pool_inv_mem [OF assms(1) k] by blast
  ultimately have "node_equal p (stringpool_hash_func s) (length s) s n"
    using n k same_string [of s s] by (simp add: node_equal_def)
  then show False using assms(2) n by (auto simp: find_None_iff)
qed

lemma pool_inv_add:
  assumes "pool_inv p" "NUL \<notin> set s" "\<And>k. pool_mem p k \<noteq> Some s"
  shows "pool_inv (p\<lparr>pool_hash := (pool_hash p)(STRING_SLOT p (stringpool_hash_func s) :=
             \<lparr>node_h = stringpool_hash_func s, node_str = pool_next p\<rparr>
               # pool_hash p (STRING_SLOT p (stringpool_hash_func s))),
           pool_mem := (pool_mem p)(pool_next p \<mapsto> s), pool_next := Suc (pool_next p)\<rparr>)"
    (is "pool_inv ?p")
proof -
  have slot: "STRING_SLOT ?p h = STRING_SLOT p h" for h by (simp add: STRING_SLOT_def)
  have "i = STRING_SLOT ?p (node_h n) \<and>
      (\<exists>t. pool_mem ?p (node_str n) = Some t \<and> node_h n = stringpool_hash_func t)"
    if "n \<in> set (pool_hash ?p i)" for i n
  proof (cases "n = \<lparr>node_h = stringpool_hash_func s, node_str = pool_next p\<rparr> \<and>
      i = STRING_SLOT p (stringpool_hash_func s)")
    case True then show ?thesis by (simp add: slot)
  next
    case False
    then have "n \<in> set (pool_hash p i)" using that by (auto split: if_splits)
    then obtain t where t: "i = STRING_SLOT p (node_h n)" "pool_mem p (node_str n) = Some t"
      "node_h n = stringpool_hash_func t" using pool_inv_node [OF assms(1)] by metis
    then have "node_str n < pool_next p" using pool_inv_mem [OF assms(1)] by blast
    then show ?thesis using t by (auto simp: slot)
  qed
  moreover have "NUL \<notin> set t \<and> k < pool_next ?p \<and>
      (\<exists>n \<in> set (pool_hash ?p (STRING_SLOT ?p (stringpool_hash_func t))). node_str n = k)"
    if "pool_mem ?p k = Some t" for k t
  proof (cases "k = pool_next p")
    case True then show ?thesis using that assms(2) unfolding slot by auto
  next
    case False
    then have "pool_mem p k = Some t" using that by simp
    then show ?thesis using pool_inv_mem [OF assms(1), of k t] unfolding slot by (auto split: if_splits)
  qed
  moreover have "k = k'" if "pool_mem ?p k = Some t" "pool_mem ?p k' = Some t" for k k' t
    using that assms(3) pool_inv_inj [OF assms(1), of k t k'] by (auto split: if_splits)
  ultimately show ?thesis unfolding pool_inv_def by blast
qed

lemma stringpool_query_law:
  assumes "pool_inv p" "NUL \<notin> set s" "stringpool_query s p = (k, p')"
  shows "pool_inv p' \<and> pool_mem p' k = Some s \<and> (\<forall>j t. pool_mem p j = Some t \<longrightarrow> pool_mem p' j = Some t)"
proof (cases "find (node_equal p (stringpool_hash_func s) (length s) s)
    (pool_hash p (STRING_SLOT p (stringpool_hash_func s)))")
  case None
  have "pool_mem p (pool_next p) = None"
    using pool_inv_mem [OF assms(1), of "pool_next p"] by (cases "pool_mem p (pool_next p)") auto
  with None show ?thesis
    using pool_inv_add [OF assms(1,2) query_not_found [OF assms(1) None]] assms(3)
    by (auto simp: stringpool_query_def stringpool_query_imp_def Let_def)
next
  case (Some n)
  then show ?thesis using query_found [OF assms(1) Some] assms(1,3)
    by (auto simp: stringpool_query_def stringpool_query_imp_def Let_def)
qed

interpretation pool_interning: interning pool_inv pool_mem stringpool_query "\<lambda>s. NUL \<notin> set s" "\<lambda>_. True"
proof
  show "k = k'" if "pool_inv p" "pool_mem p k = Some t" "pool_mem p k' = Some t" for p k k' t
    using that by (rule pool_inv_inj)
qed (use stringpool_query_law in blast)

text \<open>
  C32: after any sequence of queries to a pool that has just been initialised, the addresses that
  two queries returned are equal if and only if their strings are, and every address still holds
  the string it was returned for.
\<close>

theorem stringpool_query_interns:
  assumes "stringpool_init n None = (0, Some p)"
    and "\<forall>s \<in> set ss. NUL \<notin> set s"
    and "intern_all stringpool_query ss p = (ks, p')"
  shows "length ks = length ss \<and>
    (\<forall>i < length ss. pool_mem p' (ks ! i) = Some (ss ! i) \<and>
       (\<forall>j < length ss. ks ! i = ks ! j \<longleftrightarrow> ss ! i = ss ! j))"
proof -
  have inv: "pool_inv p" using pool_inv_init [of n] assms(1) by simp
  have wf: "list_all (\<lambda>s. NUL \<notin> set s) ss" using assms(2) by (simp add: list_all_iff)
  have "list_all2 (\<lambda>k s. pool_mem p' k = Some s) ks ss"
    using pool_interning.intern_all_mem [OF inv wf assms(3)] by simp
  then show ?thesis
    using pool_interning.intern_all_eq_iff [OF inv wf assms(3)] by (simp add: list_all2_conv_all_nth)
qed

theorem stringpool_query_interns_witness:
  "\<exists>p p' ks. stringpool_init 100 None = (0, Some p) \<and>
     intern_all stringpool_query [''name'', ''type'', ''name''] p = (ks, p') \<and> ks ! 0 = ks ! 2 \<and> ks ! 0 \<noteq> ks ! 1"
proof -
  let ?ss = "[''name'', ''type'', ''name'']"
  obtain p where p: "stringpool_init 100 None = (0, Some p)" by (simp add: stringpool_init_def)
  obtain ks p' where q: "intern_all stringpool_query ?ss p = (ks, p')" by (rule prod.exhaust)
  have "\<forall>s \<in> set ?ss. NUL \<notin> set s" by simp
  note interned = stringpool_query_interns [OF p this q]
  have "ks ! 0 = ks ! 2 \<longleftrightarrow> ?ss ! 0 = ?ss ! 2" "ks ! 0 = ks ! 1 \<longleftrightarrow> ?ss ! 0 = ?ss ! 1"
    using interned by simp_all
  then have "ks ! 0 = ks ! 2" "ks ! 0 \<noteq> ks ! 1" by simp_all
  with p q show ?thesis by (intro exI conjI)
qed

end
