(* ===== verification/Sexp.thy ===== *)
theory Sexp
  imports Stringpool
begin

text \<open>
  S-expressions (\<^verbatim>\<open>src/sexp.c\<close>, \<^verbatim>\<open>include/sexp.h\<close>): the scanner and parser through which every Dalvik
  program is read, the pattern matcher, and the functions that put class paths and method addresses
  back together. The text is a C string and a position in it; \<^verbatim>\<open>SEXP_NIL\<close>, the null pointer, is
  \<open>SNil\<close>. Literals and strings are addresses of the string pool, which is passed along.

  The parser and the list parser call each other. They are given fuel, and a lemma shows that fuel
  of twice the length of the text is always enough, so that the parser ends on every text.
\<close>

subsection \<open>Data\<close>

datatype sexp = SNil | SLit nat | SStr nat | SCons char sexp sexp

text \<open>
  The outcomes of the parser: the position after the expression, the expression and the pool; the
  end of the text (\<^verbatim>\<open>SEXP_EOF\<close> is stored and \<^verbatim>\<open>NULL\<close> returned); an error; and the one path that
  leaves the text, after which the C program reads beyond the terminator.
\<close>

datatype presult = PDone nat sexp pool | PEof pool | PFail pool | PBeyond

subsection \<open>The scanner\<close>

definition is_ws :: "char \<Rightarrow> bool" where
  "is_ws c \<longleftrightarrow> c \<in> {CHR '' '', CHR 0x09, CHR 0x0D, CHR 0x0A, CHR ''/'', CHR '','', CHR ''.''}"

text \<open>No caller uses the return value of \<^verbatim>\<open>_sexp_parse_ws\<close>.\<close>

definition sexp_parse_ws :: "cstr \<Rightarrow> nat \<Rightarrow> nat" where
  "sexp_parse_ws s i =
     (let i = (if char_at s i = CHR ''-'' then i + 1 else i)
      in i + length (takeWhile is_ws (drop i s)))"

lemma parse_ws_ge: "i \<le> sexp_parse_ws s i"
  by (simp add: sexp_parse_ws_def Let_def)

lemma takeWhile_drop_le: "i \<le> length s \<Longrightarrow> i + length (takeWhile P (drop i s)) \<le> length s"
  using length_takeWhile_le [of P "drop i s"] by simp

lemma parse_ws_le: "i \<le> length s \<Longrightarrow> sexp_parse_ws s i \<le> length s"
  using takeWhile_drop_le [of i s is_ws] takeWhile_drop_le [of "Suc i" s is_ws]
  by (auto simp: sexp_parse_ws_def Let_def char_at_def split: if_splits)

function sexp_parse_comment :: "cstr \<Rightarrow> nat \<Rightarrow> nat" where
  "sexp_parse_comment s i =
     (if char_at s i = CHR '';''
      then let i = i + 1;
               i = i + length (takeWhile (\<lambda>c. c \<noteq> CHR 0x0A) (drop i s));
               i = sexp_parse_ws s i
           in sexp_parse_comment s i
      else i)"
  by pat_completeness auto
termination
proof (relation "measure (\<lambda>(s, i). length s - i)", goal_cases)
  case (2 s i x xa xb)
  then have "i < length s" by (auto simp: char_at_def split: if_splits)
  moreover have "Suc i \<le> xb" using 2 parse_ws_ge [of xa s] by simp
  ultimately show ?case by simp
qed simp

declare sexp_parse_comment.simps [simp del]

text \<open>The loop of \<^verbatim>\<open>_sexp_parse_string\<close>: the rest of the text, the escape flag, the accumulator and the position.\<close>

fun string_loop :: "cstr \<Rightarrow> bool \<Rightarrow> accumulator \<Rightarrow> nat \<Rightarrow> (accumulator \<times> nat) option" where
  "string_loop [] escape acc i = None"
| "string_loop (c # cs) escape acc i =
     (if \<not> escape
      then if c = CHR 0x22 then Some (acc, i + 1)
           else if c \<noteq> CHR 0x5C then string_loop cs False (stringpool_accumulator_next c acc) (i + 1)
           else string_loop cs True acc (i + 1)
      else string_loop cs False (stringpool_accumulator_next c acc) (i + 1))"

text \<open>
  The member of the accumulator that is not initialised does not influence a query; it is 0 here.
\<close>

definition sexp_parse_string :: "cstr \<Rightarrow> nat \<Rightarrow> pool \<Rightarrow> presult" where
  "sexp_parse_string s i p =
     (case string_loop (drop i s) False (stringpool_accumulator_init 0 (drop i s)) i of
        None \<Rightarrow> PFail p
      | Some (acc, j) \<Rightarrow> (case stringpool_accumulator_query acc p of (k, p) \<Rightarrow> PDone j (SStr k) p))"

text \<open>A C string in a buffer ends at the first NUL; \<^verbatim>\<open>tmp\<close> holds one character.\<close>

definition cstr_of :: "char \<Rightarrow> cstr" where
  "cstr_of c = (if c = NUL then [] else [c])"

definition sexp_parse_char :: "cstr \<Rightarrow> nat \<Rightarrow> pool \<Rightarrow> presult" where
  "sexp_parse_char s i p =
     (if char_at s i = CHR 0x5C
      then let tmp = cstr_of (char_at s (i + 1));
               j = (if char_at s (i + 1) = NUL then i + 1 else i + 2)
           in (case stringpool_query tmp p of (k, p) \<Rightarrow> PDone j (SStr k) p)
      else if char_at s i = NUL then PBeyond
      else (case stringpool_query (cstr_of (char_at s i)) p of (k, p) \<Rightarrow> PDone (i + 1) (SStr k) p))"

definition lit_char :: "char \<Rightarrow> bool" where
  "lit_char c \<longleftrightarrow> c \<notin> {CHR 0x0D, CHR 0x0A, CHR '' '', CHR 0x09, CHR ''/'', CHR ''-'', CHR ''.'', CHR '','',
     CHR ''('', CHR '')'', CHR ''['', CHR '']'', CHR ''{'', CHR ''}'', NUL}"

definition sexpr_parse_literal :: "cstr \<Rightarrow> nat \<Rightarrow> pool \<Rightarrow> presult" where
  "sexpr_parse_literal s i p =
     (let acc = stringpool_accumulator_init 0 (drop i s);
          (acc, i) = (if char_at s i = CHR ''-'' then (stringpool_accumulator_next CHR ''-'' acc, i + 1) else (acc, i));
          cs = takeWhile lit_char (drop i s);
          acc = fold stringpool_accumulator_next cs acc
      in (case stringpool_accumulator_query acc p of (k, p) \<Rightarrow> PDone (i + length cs) (SLit k) p))"

subsection \<open>The parser\<close>

definition is_close :: "char \<Rightarrow> bool" where "is_close c \<longleftrightarrow> c \<in> {CHR '')'', CHR '']'', CHR ''}''}"
definition is_open :: "char \<Rightarrow> bool" where "is_open c \<longleftrightarrow> c \<in> {CHR ''('', CHR ''['', CHR ''{''}"

text \<open>
  The list parser appends a cons per round; here the rest of the list is the result of the next
  round. An error in any round fails the whole list.
\<close>

fun sexp_parse :: "nat \<Rightarrow> cstr \<Rightarrow> nat \<Rightarrow> pool \<Rightarrow> presult option"
and sexp_parse_list :: "nat \<Rightarrow> cstr \<Rightarrow> nat \<Rightarrow> pool \<Rightarrow> presult option" where
  "sexp_parse 0 s i p = None"
| "sexp_parse (Suc f) s i p =
     (let i = sexp_parse_comment s (sexp_parse_ws s i); c = char_at s i
      in if c = NUL then Some (PEof p)
         else if is_close c then Some (PFail p)
         else if is_open c then sexp_parse_list f s (i + 1) p
         else if c = CHR 0x22 then Some (sexp_parse_string s (i + 1) p)
         else if c = CHR ''#'' then Some (sexp_parse_char s (i + 1) p)
         else Some (sexpr_parse_literal s i p))"
| "sexp_parse_list 0 s i p = None"
| "sexp_parse_list (Suc f) s i p =
     (let i = sexp_parse_comment s (sexp_parse_ws s i)
      in if is_close (char_at s i) then Some (PDone (i + 1) SNil p)
         else let i = (if char_at s i = CHR ''-'' then i - 1 else i)
              in case sexp_parse f s i p of
                   None \<Rightarrow> None
                 | Some (PDone j e p) \<Rightarrow>
                     (case sexp_parse_list f s j p of
                        None \<Rightarrow> None
                      | Some (PDone k es p) \<Rightarrow> Some (PDone k (SCons (char_at s j) e es) p)
                      | Some r \<Rightarrow> Some r)
                 | Some (PEof p) \<Rightarrow> Some (PFail p)
                 | Some r \<Rightarrow> Some r)"

definition parse_fuel :: "cstr \<Rightarrow> nat" where
  "parse_fuel s = 2 * length s + 2"

subsection \<open>Pattern matching\<close>

text \<open>
  The variadic arguments: for \<^verbatim>\<open>=\<close> the expected address, for \<^verbatim>\<open>?\<close> and \<^verbatim>\<open>A\<close> a variable, of which only
  the position in the argument list matters. The matcher returns its verdict and the values it
  stored, with the positions of their variables.
\<close>

datatype mval = MAddr nat | MSexp sexp

datatype sexp_type = SEXP_TYPE_LIT | SEXP_TYPE_STR | SEXP_TYPE_CONS

fun type_of :: "sexp \<Rightarrow> sexp_type option" where
  "type_of SNil = None"
| "type_of (SLit k) = Some SEXP_TYPE_LIT"
| "type_of (SStr k) = Some SEXP_TYPE_STR"
| "type_of (SCons c a b) = Some SEXP_TYPE_CONS"

text \<open>
  The first eight bytes of the data of an expression, read as an address. A cons starts with its
  separator, followed by zeroed padding.
\<close>

fun sexp_data :: "sexp \<Rightarrow> nat option" where
  "sexp_data SNil = None"
| "sexp_data (SLit k) = Some k"
| "sexp_data (SStr k) = Some k"
| "sexp_data (SCons c a b) = Some (of_char c)"

definition expected_type :: "char \<Rightarrow> sexp \<Rightarrow> sexp_type option" where
  "expected_type tc e =
     (if tc = CHR ''C'' then Some SEXP_TYPE_CONS else if tc = CHR ''L'' then Some SEXP_TYPE_LIT
      else if tc = CHR ''S'' then Some SEXP_TYPE_STR else if tc = CHR ''_'' then type_of e else None)"

definition sexp_match_one :: "sexp \<Rightarrow> char \<Rightarrow> char \<Rightarrow> nat \<Rightarrow> bool \<times> mval option" where
  "sexp_match_one e tc sc arg =
     (if e = SNil then (if tc = CHR ''C'' \<and> sc = CHR ''?'' then (True, Some (MSexp SNil)) else (False, None))
      else case expected_type tc e of
             None \<Rightarrow> (False, None)
           | Some ty \<Rightarrow>
               if Some ty \<noteq> type_of e then (False, None)
               else if sc = NUL then (False, None)
               else if ty = SEXP_TYPE_CONS \<and> sc = CHR ''='' then (False, None)
               else if tc = CHR ''_'' \<and> sc = CHR ''='' then (False, None)
               else if sc = CHR ''='' then (sexp_data e = Some arg, None)
               else if sc = CHR ''?''
               then (True, Some (if ty \<noteq> SEXP_TYPE_CONS \<and> tc \<noteq> CHR ''_'' then MAddr (the (sexp_data e)) else MSexp e))
               else (True, None))"

definition store_arg :: "nat \<Rightarrow> mval option \<Rightarrow> (nat \<times> mval) list" where
  "store_arg n v = (case v of None \<Rightarrow> [] | Some v \<Rightarrow> [(n, v)])"

text \<open>The loop over the pattern, with the position of the next argument; \<open>ret\<close> is true on entry of every round.\<close>

fun match_loop :: "cstr \<Rightarrow> sexp \<Rightarrow> nat \<Rightarrow> nat list \<Rightarrow> bool \<times> (nat \<times> mval) list" where
  "match_loop [] e n args = (e = SNil, [])"
| "match_loop (tc # pat) e n args =
     (if tc = CHR ''A'' then (pat = [], [(n, MSexp e)])
      else case e of
             SNil \<Rightarrow> (False, [])
           | SCons c a b \<Rightarrow>
               (case sexp_match_one a tc (char_at pat 0) (args ! n) of
                  (False, v) \<Rightarrow> (False, store_arg n v)
                | (True, v) \<Rightarrow>
                    (case match_loop (drop 1 pat) b (n + 1) args of
                       (ret, vs) \<Rightarrow> (ret, store_arg n v @ vs)))
           | _ \<Rightarrow> (False, []))"

definition sexp_match :: "sexp \<Rightarrow> cstr \<Rightarrow> nat list \<Rightarrow> bool \<times> (nat \<times> mval) list" where
  "sexp_match e pattern args =
     (if char_at pattern 0 \<noteq> CHR ''(''
      then if char_at pattern 0 \<noteq> NUL
           then (case sexp_match_one e (char_at pattern 0) (char_at pattern 1) (args ! 0) of (ret, v) \<Rightarrow> (ret, store_arg 0 v))
           else (False, [])
      else match_loop (drop 1 pattern) e 0 args)"

text \<open>\<^verbatim>\<open>sexp_strip\<close> reads the data of the first element; \<^const>\<open>None\<close> when that element is null.\<close>

definition sexp_strip :: "sexp \<Rightarrow> nat list \<Rightarrow> sexp option" where
  "sexp_strip e ws =
     (case e of
        SCons c a b \<Rightarrow> (case sexp_data a of None \<Rightarrow> None | Some k \<Rightarrow> Some (if k \<in> set ws then b else e))
      | _ \<Rightarrow> Some e)"

subsection \<open>Class paths and method addresses\<close>

definition SEXP_BUFSIZE :: nat where "SEXP_BUFSIZE = 4096"

text \<open>
  The loop that both functions share appends the names to a buffer, each followed by a slash, and
  remembers where the last name begins. \<open>Inl\<close> is an error that the C code reports, and \<^const>\<open>None\<close>
  a write beyond the buffer, whose end it does not check.
\<close>

fun path_loop :: "(nat \<rightharpoonup> cstr) \<Rightarrow> sexp \<Rightarrow> cstr \<Rightarrow> nat \<Rightarrow> (unit + cstr \<times> nat \<times> sexp) option" where
  "path_loop mem SNil buf lastp = Some (Inr (buf, lastp, SNil))"
| "path_loop mem (SCons c a b) buf lastp =
     (case a of
        SLit k \<Rightarrow>
          (case mem k of
             None \<Rightarrow> None
           | Some w \<Rightarrow>
               let lastp = length buf; buf = buf @ w @ ''/''
               in if length buf > SEXP_BUFSIZE then None
                  else if c \<noteq> CHR ''/'' then Some (Inr (buf, lastp, b))
                  else path_loop mem b buf lastp)
      | _ \<Rightarrow> Some (Inl ()))"
| "path_loop mem _ buf lastp = Some (Inl ())"

definition sexp_get_object_path :: "sexp \<Rightarrow> pool \<Rightarrow> (unit + nat \<times> sexp \<times> pool) option" where
  "sexp_get_object_path e p =
     (if e = SNil then Some (Inl ())
      else case path_loop (pool_mem p) e [] 0 of
             None \<Rightarrow> None
           | Some (Inl u) \<Rightarrow> Some (Inl u)
           | Some (Inr (buf, lastp, rest)) \<Rightarrow>
               (case stringpool_query (butlast buf) p of (k, p) \<Rightarrow> Some (Inr (k, rest, p))))"

text \<open>Path, name, the remaining expression and the pool.\<close>

definition sexp_get_method_address :: "sexp \<Rightarrow> pool \<Rightarrow> (unit + nat \<times> nat \<times> sexp \<times> pool) option" where
  "sexp_get_method_address e p =
     (if e = SNil then Some (Inl ())
      else case path_loop (pool_mem p) e [] 0 of
             None \<Rightarrow> None
           | Some (Inl u) \<Rightarrow> Some (Inl u)
           | Some (Inr (buf, lastp, rest)) \<Rightarrow>
               (let buf = butlast buf
                in case stringpool_query (drop lastp buf) p of
                     (name, p) \<Rightarrow>
                       (case stringpool_query (if lastp \<ge> 1 then take (lastp - 1) buf else []) p of
                          (path, p) \<Rightarrow> Some (Inr (path, name, rest, p)))))"

fun sexp_length :: "sexp \<Rightarrow> nat" where
  "sexp_length SNil = 0"
| "sexp_length (SLit k) = 1"
| "sexp_length (SStr k) = 1"
| "sexp_length (SCons c a b) = Suc (case b of SCons _ _ _ \<Rightarrow> sexp_length b | _ \<Rightarrow> 0)"

subsection \<open>Progress and termination\<close>

lemma parse_comment_bounds:
  "i \<le> length s \<Longrightarrow> i \<le> sexp_parse_comment s i \<and> sexp_parse_comment s i \<le> length s"
proof (induction s i rule: sexp_parse_comment.induct)
  case (1 s i)
  show ?case
  proof (cases "char_at s i = CHR '';''")
    case True
    then have i: "Suc i \<le> length s" by (auto simp: char_at_def split: if_splits)
    let ?j = "i + 1 + length (takeWhile (\<lambda>c. c \<noteq> CHR 0x0A) (drop (i + 1) s))"
    have j: "sexp_parse_ws s ?j \<le> length s" using takeWhile_drop_le [OF i] by (intro parse_ws_le) simp
    have "i \<le> sexp_parse_ws s ?j" using parse_ws_ge [of ?j s] by simp
    then show ?thesis using "1.IH" [OF True refl refl refl] j True
      by (subst (1 2) sexp_parse_comment.simps) (simp add: Let_def)
  next
    case False
    then show ?thesis using "1.prems" by (simp add: sexp_parse_comment.simps [of s i])
  qed
qed

text \<open>Where the scanner stands after white space and comments.\<close>

definition skip :: "cstr \<Rightarrow> nat \<Rightarrow> nat" where
  "skip s i = sexp_parse_comment s (sexp_parse_ws s i)"

lemma skip_bounds: "i \<le> length s \<Longrightarrow> i \<le> skip s i \<and> skip s i \<le> length s"
  using parse_comment_bounds [OF parse_ws_le, of i s] parse_ws_ge [of i s]
  by (auto simp: skip_def)

lemma takeWhile_stops:
  assumes "\<not> P NUL"
  shows "\<not> P (char_at s (i + length (takeWhile P (drop i s))))"
proof (cases "i + length (takeWhile P (drop i s)) < length s")
  case True
  then have "length (takeWhile P (drop i s)) < length (drop i s)" by simp
  from nth_length_takeWhile [OF this] True show ?thesis by (simp add: char_at_def)
qed (use assms in \<open>simp add: char_at_def\<close>)

lemma parse_ws_not_ws: "\<not> is_ws (char_at s (sexp_parse_ws s i))"
  unfolding sexp_parse_ws_def Let_def by (rule takeWhile_stops) (simp add: is_ws_def)

lemma parse_comment_not_ws: "\<not> is_ws (char_at s i) \<Longrightarrow> \<not> is_ws (char_at s (sexp_parse_comment s i))"
proof (induction s i rule: sexp_parse_comment.induct)
  case (1 s i)
  then show ?case
    using parse_ws_not_ws [of s]
    by (cases "char_at s i = CHR '';''") (simp_all add: sexp_parse_comment.simps [of s i] Let_def)
qed

lemma skip_not_ws: "\<not> is_ws (char_at s (skip s i))"
  unfolding skip_def by (rule parse_comment_not_ws) (rule parse_ws_not_ws)

lemma skip_dash: "i \<le> length s \<Longrightarrow> char_at s (skip s i) = CHR ''-'' \<Longrightarrow> i < skip s i"
proof (rule ccontr)
  assume a: "i \<le> length s" "char_at s (skip s i) = CHR ''-''" "\<not> i < skip s i"
  then have "skip s i = i" using skip_bounds [of i s] by simp
  then have "i < sexp_parse_ws s i" using a by (simp add: sexp_parse_ws_def Let_def)
  also have "\<dots> \<le> skip s i" using a(1) parse_comment_bounds parse_ws_le by (simp add: skip_def)
  finally show False using a(3) by simp
qed

lemma string_loop_bounds:
  "string_loop cs escape acc i = Some (acc', j) \<Longrightarrow> i < j \<and> j \<le> i + length cs"
  by (induction cs escape acc i rule: string_loop.induct) (force split: if_splits)+

lemma char_at_in: "char_at s i \<noteq> NUL \<Longrightarrow> i < length s"
  by (auto simp: char_at_def split: if_splits)

lemma parse_string_bounds: "sexp_parse_string s i p = PDone j e p' \<Longrightarrow> i \<le> length s \<Longrightarrow> i < j \<and> j \<le> length s"
  using string_loop_bounds by (fastforce simp: sexp_parse_string_def split: option.splits prod.splits)

lemma parse_char_bounds: "sexp_parse_char s i p = PDone j e p' \<Longrightarrow> i < j \<and> j \<le> length s"
  using char_at_in [of s i] char_at_in [of s "i + 1"]
  by (auto simp: sexp_parse_char_def Let_def split: if_splits prod.splits)

lemma parse_literal_bounds:
  assumes "sexpr_parse_literal s i p = PDone j e p'" "i < length s" "lit_char (char_at s i) \<or> char_at s i = CHR ''-''"
  shows "i < j \<and> j \<le> length s"
proof (cases "char_at s i = CHR ''-''")
  case True
  then show ?thesis using assms(1,2) takeWhile_drop_le [of "Suc i" s lit_char]
    by (auto simp: sexpr_parse_literal_def Let_def split: prod.splits)
next
  case False
  then have "lit_char (s ! i)" using assms(2,3) by (simp add: char_at_def)
  then have "0 < length (takeWhile lit_char (drop i s))" using assms(2) by (simp add: Cons_nth_drop_Suc [symmetric])
  then show ?thesis using assms(1,2) False takeWhile_drop_le [of i s lit_char]
    by (auto simp: sexpr_parse_literal_def Let_def split: prod.splits)
qed

lemma literal_start:
  "c \<noteq> NUL \<Longrightarrow> \<not> is_close c \<Longrightarrow> \<not> is_open c \<Longrightarrow> \<not> is_ws c \<Longrightarrow> lit_char c \<or> c = CHR ''-''"
  by (auto simp: is_close_def is_open_def is_ws_def lit_char_def)

text \<open>One level of each function, and the position from which the list parser reads an element.\<close>

lemma parse_step:
  "sexp_parse (Suc f) s i p = (let k = skip s i; c = char_at s k in
      if c = NUL then Some (PEof p) else if is_close c then Some (PFail p)
      else if is_open c then sexp_parse_list f s (k + 1) p
      else if c = CHR 0x22 then Some (sexp_parse_string s (k + 1) p)
      else if c = CHR ''#'' then Some (sexp_parse_char s (k + 1) p)
      else Some (sexpr_parse_literal s k p))"
  by (simp add: skip_def Let_def)

definition elem_pos :: "cstr \<Rightarrow> nat \<Rightarrow> nat" where
  "elem_pos s i = (if char_at s (skip s i) = CHR ''-'' then skip s i - 1 else skip s i)"

lemma elem_pos_bounds: "i \<le> length s \<Longrightarrow> i \<le> elem_pos s i \<and> elem_pos s i \<le> length s"
  using skip_bounds [of i s] skip_dash [of i s] by (auto simp: elem_pos_def)

lemma list_step:
  "sexp_parse_list (Suc f) s i p =
     (if is_close (char_at s (skip s i)) then Some (PDone (skip s i + 1) SNil p)
      else case sexp_parse f s (elem_pos s i) p of
             None \<Rightarrow> None
           | Some (PDone j e p) \<Rightarrow>
               (case sexp_parse_list f s j p of
                  None \<Rightarrow> None
                | Some (PDone k es p) \<Rightarrow> Some (PDone k (SCons (char_at s j) e es) p)
                | Some r \<Rightarrow> Some r)
           | Some (PEof p) \<Rightarrow> Some (PFail p)
           | Some r \<Rightarrow> Some r)"
  by (simp add: skip_def elem_pos_def Let_def)

declare sexp_parse.simps(2) [simp del] sexp_parse_list.simps(2) [simp del]

lemma parse_bounds:
  "i \<le> length s \<Longrightarrow> sexp_parse f s i p = Some (PDone j e p') \<Longrightarrow> i < j \<and> j \<le> length s"
  "i \<le> length s \<Longrightarrow> sexp_parse_list f s i p = Some (PDone j e p') \<Longrightarrow> i < j \<and> j \<le> length s"
proof (induction f s i p and f s i p arbitrary: j e p' and j e p' rule: sexp_parse_sexp_parse_list.induct)
  case (2 f s i p)
  let ?k = "skip s i"
  note step = parse_step [of f s i p, unfolded Let_def]
  have k: "i \<le> ?k" "?k \<le> length s" using skip_bounds [OF "2.prems"(1)] by auto
  have c: "char_at s ?k \<noteq> NUL" "\<not> is_close (char_at s ?k)"
    using "2.prems"(2) unfolding step by (auto split: if_splits)
  have lt: "Suc ?k \<le> length s" using char_at_in [OF c(1)] by simp
  consider "is_open (char_at s ?k)" | "\<not> is_open (char_at s ?k)" "char_at s ?k = CHR 0x22"
    | "\<not> is_open (char_at s ?k)" "char_at s ?k = CHR ''#''"
    | "\<not> is_open (char_at s ?k)" "char_at s ?k \<noteq> CHR 0x22" "char_at s ?k \<noteq> CHR ''#''" by blast
  then show ?case
  proof cases
    case 1
    then have "sexp_parse_list f s (?k + 1) p = Some (PDone j e p')" using "2.prems"(2) c unfolding step by simp
    then have "?k + 1 < j \<and> j \<le> length s"
      using "2.IH" [folded skip_def, OF refl refl] c 1 lt by simp
    then show ?thesis using k by simp
  next
    case 2
    then show ?thesis using "2.prems"(2) c k lt parse_string_bounds [of s "?k + 1" p j e p'] unfolding step by simp
  next
    case 3
    then show ?thesis using "2.prems"(2) c k lt parse_char_bounds [of s "?k + 1" p j e p'] unfolding step
      by (simp add: is_open_def)
  next
    case 4
    then show ?thesis using "2.prems"(2) c k lt parse_literal_bounds [of s ?k p j e p']
        literal_start [OF c 4(1) skip_not_ws] unfolding step by simp
  qed
next
  case (4 f s i p)
  let ?k = "skip s i"
  have k: "i \<le> ?k" "?k \<le> length s" using skip_bounds [OF "4.prems"(1)] by auto
  note k' = elem_pos_bounds [OF "4.prems"(1)]
  show ?case
  proof (cases "is_close (char_at s ?k)")
    case True
    then have "?k < length s" by (intro char_at_in) (auto simp: is_close_def)
    then show ?thesis using True "4.prems"(2) k by (simp add: list_step)
  next
    case False
    note IH = "4.IH" [folded skip_def, OF refl False refl, folded elem_pos_def]
    obtain m a p1 es where r: "sexp_parse f s (elem_pos s i) p = Some (PDone m a p1)"
      "sexp_parse_list f s m p1 = Some (PDone j es p')"
      using False "4.prems"(2) by (auto simp: list_step split: option.splits presult.splits)
    have "elem_pos s i < m \<and> m \<le> length s" using IH(1) [of m a p1] k' r(1) by simp
    moreover have "m < j \<and> j \<le> length s"
      using IH(2) [OF r(1) refl, of j es p'] calculation r(2) by simp
    ultimately show ?thesis using k' by linarith
  qed
qed simp_all

lemma parse_enough_fuel:
  "i \<le> length s \<Longrightarrow> 2 * (length s - i) + 1 \<le> f \<Longrightarrow> sexp_parse f s i p \<noteq> None"
  "i \<le> length s \<Longrightarrow> 2 * (length s - i) + 2 \<le> f \<Longrightarrow> sexp_parse_list f s i p \<noteq> None"
proof (induction f arbitrary: i p)
  case (Suc f)
  {
    case 1
    let ?k = "skip s i"
    have k: "i \<le> ?k" using skip_bounds [OF 1(1)] by simp
    have "sexp_parse_list f s (?k + 1) p \<noteq> None" if "is_open (char_at s ?k)"
    proof (rule Suc.IH(2))
      have "?k < length s" using that by (intro char_at_in) (auto simp: is_open_def)
      then show "?k + 1 \<le> length s" "2 * (length s - (?k + 1)) + 2 \<le> f" using k 1 by auto
    qed
    then show ?case by (simp add: parse_step Let_def)
  next
    case 2
    note k = elem_pos_bounds [OF 2(1)]
    have "2 * (length s - elem_pos s i) + 1 \<le> f" using k 2 by linarith
    then have e: "sexp_parse f s (elem_pos s i) p \<noteq> None" using Suc.IH(1) k by blast
    have "sexp_parse_list f s m p1 \<noteq> None" if "sexp_parse f s (elem_pos s i) p = Some (PDone m a p1)" for m a p1
    proof (rule Suc.IH(2))
      show "m \<le> length s" "2 * (length s - m) + 2 \<le> f"
        using parse_bounds(1) [OF conjunct2 [OF k] that] k 2 by auto
    qed
    then show ?case using e by (auto simp: list_step split: option.splits presult.splits)
  }
qed simp_all

lemma parse_fuel_mono:
  "sexp_parse f s i p = Some r \<Longrightarrow> sexp_parse (f + n) s i p = Some r"
  "sexp_parse_list f s i p = Some r \<Longrightarrow> sexp_parse_list (f + n) s i p = Some r"
proof (induction f arbitrary: i p r)
  case (Suc f)
  {
    case 1
    then show ?case using Suc.IH(2) by (auto simp: parse_step Let_def split: if_splits)
  next
    case 2
    show ?case
    proof (cases "is_close (char_at s (skip s i))")
      case True then show ?thesis using 2 by (simp add: list_step)
    next
      case False
      then obtain r1 where r1: "sexp_parse f s (elem_pos s i) p = Some r1"
        using 2 by (auto simp: list_step split: option.splits)
      note r1' = Suc.IH(1) [OF r1]
      show ?thesis
      proof (cases r1)
        case (PDone m a p1)
        then obtain r2 where r2: "sexp_parse_list f s m p1 = Some r2"
          using 2 False r1 by (auto simp: list_step split: option.splits)
        show ?thesis using 2 False r1 r1' PDone r2 Suc.IH(2) [OF r2] by (simp add: list_step)
      qed (use 2 False r1 r1' in \<open>auto simp: list_step\<close>)
    qed
  }
qed simp_all

text \<open>
  C37: the parser ends on every text and from every position in it: with the fuel that depends only
  on the length of the text it has a result. Where it returns an expression, it has consumed at
  least one character and stands inside the text or at its end; more fuel does not change the result.
\<close>

theorem sexp_parse_terminates:
  assumes "i \<le> length s"
  shows "\<exists>r. \<forall>n. sexp_parse (parse_fuel s + n) s i p = Some r \<and>
    (\<forall>j e p'. r = PDone j e p' \<longrightarrow> i < j \<and> j \<le> length s)"
proof -
  have "2 * (length s - i) + 1 \<le> parse_fuel s" by (simp add: parse_fuel_def)
  then obtain r where r: "sexp_parse (parse_fuel s) s i p = Some r"
    using parse_enough_fuel(1) [OF assms] by blast
  then show ?thesis using parse_fuel_mono(1) [OF r] parse_bounds(1) [OF assms] by (intro exI [of _ r]) auto
qed

theorem sexp_parse_terminates_witness:
  "\<exists>r. \<forall>n. sexp_parse (parse_fuel ''(a b'' + n) ''(a b'' 0 (the (snd (stringpool_init 10 None))) = Some r"
  using sexp_parse_terminates [of 0 "''(a b''" "the (snd (stringpool_init 10 None))"] by auto

subsection \<open>Reading back what was written\<close>

text \<open>
  Expressions as trees, their text, and what it means that a parsed expression is a tree: its
  literals are the addresses of the words. Separators and the way the list was bracketed are left
  open.
\<close>

datatype tree = Atom cstr | TList "tree list"

fun unparse :: "tree \<Rightarrow> cstr" and unparse_items :: "tree list \<Rightarrow> cstr" where
  "unparse (Atom w) = w"
| "unparse (TList ts) = CHR ''('' # unparse_items ts @ '')''"
| "unparse_items [] = []"
| "unparse_items (t # ts) = unparse t @ (if ts = [] then [] else '' '') @ unparse_items ts"

definition is_word :: "cstr \<Rightarrow> bool" where
  "is_word w \<longleftrightarrow> w \<noteq> [] \<and> list_all lit_char w \<and> hd w \<notin> {CHR '';'', CHR ''#'', CHR 0x22}"

fun wf_tree :: "tree \<Rightarrow> bool" and wf_trees :: "tree list \<Rightarrow> bool" where
  "wf_tree (Atom w) = is_word w"
| "wf_tree (TList ts) = wf_trees ts"
| "wf_trees [] = True"
| "wf_trees (t # ts) = (wf_tree t \<and> wf_trees ts)"

fun denotes :: "(nat \<rightharpoonup> cstr) \<Rightarrow> sexp \<Rightarrow> tree \<Rightarrow> bool"
and denotes_list :: "(nat \<rightharpoonup> cstr) \<Rightarrow> sexp \<Rightarrow> tree list \<Rightarrow> bool" where
  "denotes mem e (Atom w) = (case e of SLit k \<Rightarrow> mem k = Some w | _ \<Rightarrow> False)"
| "denotes mem e (TList ts) = denotes_list mem e ts"
| "denotes_list mem e [] = (e = SNil)"
| "denotes_list mem e (t # ts) = (case e of SCons c a b \<Rightarrow> denotes mem a t \<and> denotes_list mem b ts | _ \<Rightarrow> False)"

lemma denotes_mono:
  "\<forall>k w. mem k = Some w \<longrightarrow> mem' k = Some w \<Longrightarrow> denotes mem e t \<Longrightarrow> denotes mem' e t"
  "\<forall>k w. mem k = Some w \<longrightarrow> mem' k = Some w \<Longrightarrow> denotes_list mem e ts \<Longrightarrow> denotes_list mem' e ts"
  by (induction mem e t and mem e ts rule: denotes_denotes_list.induct) (auto split: sexp.splits)

lemma char_at_append [simp]: "char_at (pre @ c # s) (length pre) = c"
  by (simp add: char_at_def)

lemma skip_here:
  assumes "\<not> is_ws c" "c \<noteq> CHR ''-''" "c \<noteq> CHR '';''"
  shows "skip (pre @ c # s) (length pre) = length pre"
  using assms by (simp add: skip_def sexp_parse_ws_def sexp_parse_comment.simps)

lemma skip_space:
  assumes "\<not> is_ws c" "c \<noteq> CHR '';''"
  shows "skip (pre @ CHR '' '' # c # s) (length pre) = Suc (length pre)"
proof -
  have "char_at (pre @ CHR '' '' # c # s) (Suc (length pre)) = c" by (simp add: char_at_def nth_append)
  with assms show ?thesis
    by (simp add: skip_def sexp_parse_ws_def sexp_parse_comment.simps is_ws_def)
qed

definition elem_start :: "char \<Rightarrow> bool" where
  "elem_start c \<longleftrightarrow> \<not> is_ws c \<and> c \<notin> {CHR ''-'', CHR '';'', NUL} \<and> \<not> is_close c"

lemma unparse_start: "wf_tree t \<Longrightarrow> \<exists>c cs. unparse t = c # cs \<and> elem_start c"
proof (cases t)
  case (Atom w)
  moreover assume "wf_tree t"
  ultimately show ?thesis
    by (cases w) (auto simp: is_word_def elem_start_def lit_char_def is_ws_def is_close_def)
qed (simp add: elem_start_def is_ws_def is_close_def)

lemma parse_word:
  assumes "is_word w" "pool_inv p" "s = [] \<or> \<not> lit_char (hd s)"
  shows "\<exists>k p'. sexp_parse (Suc 0) (pre @ w @ s) (length pre) p = Some (PDone (length pre + length w) (SLit k) p') \<and>
    pool_inv p' \<and> pool_mem p' k = Some w \<and> (\<forall>j t. pool_mem p j = Some t \<longrightarrow> pool_mem p' j = Some t)"
proof -
  obtain c cs where w: "w = c # cs" "lit_char c" using assms(1) by (cases w) (auto simp: is_word_def)
  have c: "\<not> is_ws c" "c \<noteq> CHR ''-''" "c \<noteq> CHR '';''" "c \<noteq> NUL" "\<not> is_close c" "\<not> is_open c"
    "c \<noteq> CHR ''#''" "c \<noteq> CHR 0x22"
    using assms(1) w by (auto simp: is_word_def lit_char_def is_ws_def is_close_def is_open_def)
  have tw: "takeWhile lit_char (w @ s) = w"
    using assms(1,3) by (cases s) (auto simp: is_word_def list_all_iff takeWhile_append2 takeWhile_append)
  obtain k p' where q: "stringpool_query w p = (k, p')" by fastforce
  have "stringpool_accumulator_query (feed w (stringpool_accumulator_init 0 (w @ s))) p = stringpool_query w p"
    unfolding accumulator_query_feed stringpool_query_def stringpool_query_imp_def node_equal_def [abs_def] Let_def
    by (simp cong: option.case_cong)
  then have "sexpr_parse_literal (pre @ w @ s) (length pre) p = PDone (length pre + length w) (SLit k) p'"
    using q c(2) tw by (simp add: sexpr_parse_literal_def Let_def w feed_def char_at_append)
  then have "sexp_parse (Suc 0) (pre @ w @ s) (length pre) p = Some (PDone (length pre + length w) (SLit k) p')"
    using c by (simp add: parse_step w skip_here Let_def)
  moreover have "NUL \<notin> set w" using assms(1) by (auto simp: is_word_def list_all_iff lit_char_def)
  ultimately show ?thesis using stringpool_query_law [OF assms(2) _ q] by blast
qed

text \<open>What the parser does with the text of a tree, wherever it stands, and with the rest of a list.\<close>

definition parses_to :: "cstr \<Rightarrow> nat \<Rightarrow> pool \<Rightarrow> nat \<Rightarrow> tree \<Rightarrow> bool" where
  "parses_to s i p j t \<longleftrightarrow> (\<exists>f e p'. sexp_parse f s i p = Some (PDone j e p') \<and> pool_inv p' \<and>
     denotes (pool_mem p') e t \<and> (\<forall>k w. pool_mem p k = Some w \<longrightarrow> pool_mem p' k = Some w))"

definition list_parses_to :: "cstr \<Rightarrow> nat \<Rightarrow> pool \<Rightarrow> nat \<Rightarrow> tree list \<Rightarrow> bool" where
  "list_parses_to s i p j ts \<longleftrightarrow> (\<exists>f e p'. sexp_parse_list f s i p = Some (PDone j e p') \<and> pool_inv p' \<and>
     denotes_list (pool_mem p') e ts \<and> (\<forall>k w. pool_mem p k = Some w \<longrightarrow> pool_mem p' k = Some w))"

lemma list_parses_cons:
  assumes "\<not> is_close (char_at s (skip s i))" "parses_to s (elem_pos s i) p m t"
    and "\<And>p. pool_inv p \<Longrightarrow> list_parses_to s m p j ts"
  shows "list_parses_to s i p j (t # ts)"
proof -
  obtain f a p1 where a: "sexp_parse f s (elem_pos s i) p = Some (PDone m a p1)" "pool_inv p1"
    "denotes (pool_mem p1) a t" "\<forall>k w. pool_mem p k = Some w \<longrightarrow> pool_mem p1 k = Some w"
    using assms(2) unfolding parses_to_def by blast
  obtain g b p2 where b: "sexp_parse_list g s m p1 = Some (PDone j b p2)" "pool_inv p2"
    "denotes_list (pool_mem p2) b ts" "\<forall>k w. pool_mem p1 k = Some w \<longrightarrow> pool_mem p2 k = Some w"
    using assms(3) [OF a(2)] unfolding list_parses_to_def by blast
  have "sexp_parse_list (Suc (f + g)) s i p = Some (PDone j (SCons (char_at s m) a b) p2)"
    using assms(1) parse_fuel_mono(1) [OF a(1), of g] parse_fuel_mono(2) [OF b(1), of f]
    by (simp add: list_step add.commute)
  moreover have "denotes_list (pool_mem p2) (SCons (char_at s m) a b) (t # ts)"
    using denotes_mono(1) [OF b(4) a(3)] b(3) by simp
  ultimately show ?thesis using a(4) b(2,4) unfolding list_parses_to_def by blast
qed

lemma list_parses_nil:
  assumes "is_close (char_at s (skip s i))" "pool_inv p"
  shows "list_parses_to s i p (skip s i + 1) []"
proof -
  have "sexp_parse_list (Suc 0) s i p = Some (PDone (skip s i + 1) SNil p)" using assms by (simp add: list_step)
  then show ?thesis using assms(2) unfolding list_parses_to_def by force
qed

lemma unparse_parses:
  "wf_tree t \<Longrightarrow> pool_inv p \<Longrightarrow> s = [] \<or> \<not> lit_char (hd s) \<Longrightarrow>
     parses_to (pre @ unparse t @ s) (length pre) p (length pre + length (unparse t)) t"
  "wf_trees ts \<Longrightarrow> pool_inv p \<Longrightarrow> gap \<in> {[], '' ''} \<Longrightarrow>
     list_parses_to (pre @ gap @ unparse_items ts @ CHR '')'' # s) (length pre) p
       (length pre + length gap + length (unparse_items ts) + 1) ts"
proof (induction t and ts arbitrary: p s pre and p s pre gap rule: unparse_unparse_items.induct)
  case (1 w)
  then show ?case using parse_word [of w p s pre] unfolding parses_to_def
    by (auto intro!: exI [of _ "Suc 0"])
next
  case (2 ts)
  let ?s = "pre @ unparse (TList ts) @ s"
  have list: "list_parses_to ((pre @ ''('') @ [] @ unparse_items ts @ CHR '')'' # s) (length (pre @ ''('')) p
      (length (pre @ ''('') + length [] + length (unparse_items ts) + 1) ts"
    using "2.IH" [where pre = "pre @ ''(''" and gap = "[]" and p = p and s = s] "2.prems" by simp
  have "skip ?s (length pre) = length pre" by (simp add: skip_here is_ws_def)
  then have "sexp_parse (Suc f) ?s (length pre) p = sexp_parse_list f ?s (length pre + 1) p" for f
    by (simp add: parse_step Let_def is_close_def is_open_def)
  then show ?case using list unfolding parses_to_def list_parses_to_def
    by (simp del: denotes_list.simps) metis
next
  case 3
  let ?s = "pre @ gap @ CHR '')'' # s"
  have "skip ?s (length pre) = length pre + length gap"
    using 3(3) skip_here [of "CHR '')''" pre s] skip_space [of "CHR '')''" pre s]
    by (auto simp: is_ws_def)
  moreover have "char_at ?s (length pre + length gap) = CHR '')''"
    using char_at_append [of "pre @ gap" "CHR '')''" s] by simp
  ultimately show ?case using list_parses_nil [of ?s "length pre" p] 3(2) by (simp add: is_close_def)
next
  case (4 t ts)
  let ?u = "(if ts = [] then [] else '' '')"
  let ?s = "pre @ gap @ unparse_items (t # ts) @ CHR '')'' # s"
  let ?m = "length pre + length gap + length (unparse t)"
  have wf: "wf_tree t" "wf_trees ts" using 4(3) by auto
  obtain c cs where c: "unparse t = c # cs" "elem_start c" using unparse_start [OF wf(1)] by blast
  have s: "?s = (pre @ gap) @ unparse t @ ?u @ unparse_items ts @ CHR '')'' # s"
    "?s = (pre @ gap @ unparse t) @ ?u @ unparse_items ts @ CHR '')'' # s" by simp_all
  have skip: "skip ?s (length pre) = length pre + length gap"
    using 4(5) c skip_here [of c pre] skip_space [of c pre] by (auto simp: elem_start_def)
  moreover have "char_at ?s (length pre + length gap) = c"
    using char_at_append [of "pre @ gap" c] c(1) by (metis append_Cons append_assoc length_append s(1))
  ultimately have pos: "elem_pos ?s (length pre) = length (pre @ gap)" "\<not> is_close (char_at ?s (skip ?s (length pre)))"
    using c(2) by (auto simp: elem_pos_def elem_start_def)
  have "hd (?u @ unparse_items ts @ CHR '')'' # s) \<in> {CHR '' '', CHR '')''}" by simp
  then have "\<not> lit_char (hd (?u @ unparse_items ts @ CHR '')'' # s))" by (auto simp: lit_char_def)
  then have "parses_to ((pre @ gap) @ unparse t @ ?u @ unparse_items ts @ CHR '')'' # s) (length (pre @ gap)) p
      (length (pre @ gap) + length (unparse t)) t"
    by (intro "4.IH"(1) [OF wf(1) 4(4)] disjI2)
  then have "parses_to ?s (elem_pos ?s (length pre)) p ?m t"
    unfolding s(1) [symmetric] pos(1) by simp
  moreover have "list_parses_to ?s ?m p' (length pre + length gap + length (unparse_items (t # ts)) + 1) ts"
    if "pool_inv p'" for p'
  proof -
    have "list_parses_to ((pre @ gap @ unparse t) @ ?u @ unparse_items ts @ CHR '')'' # s)
        (length (pre @ gap @ unparse t)) p'
        (length (pre @ gap @ unparse t) + length ?u + length (unparse_items ts) + 1) ts"
      by (rule "4.IH"(2) [OF wf(2) that]) simp
    then show ?thesis unfolding s(2) [symmetric] by (simp add: ac_simps)
  qed
  ultimately show ?case by (rule list_parses_cons [OF pos(2)])
qed

text \<open>
  C28: reading what was written. The text of any tree of words, in whatever context it stands, is
  parsed to an expression that denotes the tree: nested lists become chains of conses and every
  word becomes a literal whose address holds the word. The parser stops right behind the text.
\<close>

theorem sexp_parse_unparse:
  fixes pre :: cstr
  assumes "wf_tree t" "pool_inv p" "s = [] \<or> \<not> lit_char (hd s)"
  defines "buf \<equiv> pre @ unparse t @ s"
  shows "\<exists>e p'. sexp_parse (parse_fuel buf) buf (length pre) p = Some (PDone (length pre + length (unparse t)) e p') \<and>
    pool_inv p' \<and> denotes (pool_mem p') e t"
proof -
  obtain f e p' where f: "sexp_parse f buf (length pre) p = Some (PDone (length pre + length (unparse t)) e p')"
    "pool_inv p'" "denotes (pool_mem p') e t"
    using unparse_parses(1) [OF assms(1-3), of pre] unfolding parses_to_def buf_def by blast
  have "length pre \<le> length buf" by (simp add: buf_def)
  moreover have "2 * (length buf - length pre) + 1 \<le> parse_fuel buf" by (simp add: parse_fuel_def)
  ultimately obtain r where r: "sexp_parse (parse_fuel buf) buf (length pre) p = Some r"
    using parse_enough_fuel(1) by blast
  have "r = PDone (length pre + length (unparse t)) e p'"
    using parse_fuel_mono(1) [OF f(1), of "parse_fuel buf"] parse_fuel_mono(1) [OF r, of f]
    by (simp add: add.commute)
  then show ?thesis using r f by blast
qed

theorem sexp_parse_unparse_witness:
  "\<exists>e p'. sexp_parse (parse_fuel ''(move (v1 b))'') ''(move (v1 b))'' 0 (the (snd (stringpool_init 10 None)))
      = Some (PDone 13 e p') \<and>
    denotes (pool_mem p') e (TList [Atom ''move'', TList [Atom ''v1'', Atom ''b'']])"
  using sexp_parse_unparse [of "TList [Atom ''move'', TList [Atom ''v1'', Atom ''b'']]"
      "the (snd (stringpool_init 10 None))" "[]" "[]", OF _ pool_inv_init]
  by (auto simp: is_word_def lit_char_def numeral_eq_Suc)

subsection \<open>Matching lists\<close>

fun mk_list :: "(char \<times> sexp) list \<Rightarrow> sexp" where
  "mk_list [] = SNil"
| "mk_list ((c, e) # xs) = SCons c e (mk_list xs)"

lemma sexp_length_mk_list: "sexp_length (mk_list xs) = length xs"
proof (induction xs)
  case (Cons x xs)
  then show ?case by (cases x; cases xs) auto
qed simp

definition pattern_of :: "(char \<times> char) list \<Rightarrow> cstr" where
  "pattern_of items = concat (map (\<lambda>(tc, sc). [tc, sc]) items)"

definition items_match :: "(char \<times> char) list \<Rightarrow> (char \<times> sexp) list \<Rightarrow> nat \<Rightarrow> nat list \<Rightarrow> bool" where
  "items_match items xs n args \<longleftrightarrow>
     (\<forall>i < length items. fst (sexp_match_one (snd (xs ! i)) (fst (items ! i)) (snd (items ! i)) (args ! (n + i))))"

lemma items_match_Cons:
  "items_match ((tc, sc) # items) ((c, e) # xs) n args \<longleftrightarrow>
     fst (sexp_match_one e tc sc (args ! n)) \<and> items_match items xs (Suc n) args"
  unfolding items_match_def by (auto simp: less_Suc_eq_0_disj nth_Cons split: nat.splits)

lemma pattern_of_simps [simp]:
  "pattern_of [] = []" "pattern_of ((tc, sc) # items) = tc # sc # pattern_of items"
  by (simp_all add: pattern_of_def)

lemma match_loop_step:
  assumes "tc \<noteq> CHR ''A''"
  shows "fst (match_loop (tc # sc # pat) (SCons c e b) n args) \<longleftrightarrow>
      fst (sexp_match_one e tc sc (args ! n)) \<and> fst (match_loop pat b (Suc n) args)"
    and "fst (match_loop (tc # sc # pat) (SCons c e b) n args) \<Longrightarrow>
      set (snd (match_loop pat b (Suc n) args)) \<subseteq> set (snd (match_loop (tc # sc # pat) (SCons c e b) n args))"
  using assms by (auto simp: char_at_def split: prod.splits bool.splits)

lemma match_loop_exact:
  assumes "\<forall>(tc, sc) \<in> set items. tc \<noteq> CHR ''A''"
  shows "fst (match_loop (pattern_of items) (mk_list xs) n args) \<longleftrightarrow>
    length xs = length items \<and> items_match items xs n args"
  using assms
proof (induction items arbitrary: xs n)
  case Nil
  then show ?case by (cases xs) (auto simp: items_match_def)
next
  case (Cons it items)
  obtain tc sc where it: "it = (tc, sc)" by fastforce
  then have tc: "tc \<noteq> CHR ''A''" using Cons.prems by auto
  show ?case
  proof (cases xs)
    case Nil
    then show ?thesis using tc by (simp add: it)
  next
    case xs: (Cons x xs')
    obtain c e where x: "x = (c, e)" by fastforce
    have "fst (match_loop (pattern_of items) (mk_list xs') (Suc n) args) \<longleftrightarrow>
        length xs' = length items \<and> items_match items xs' (Suc n) args"
      using Cons.IH Cons.prems by simp
    then show ?thesis
      unfolding xs x it pattern_of_simps mk_list.simps match_loop_step(1) [OF tc] items_match_Cons by auto
  qed
qed

lemma match_loop_rest:
  assumes "\<forall>(tc, sc) \<in> set items. tc \<noteq> CHR ''A''"
  shows "fst (match_loop (pattern_of items @ ''A'') (mk_list xs) n args) \<longleftrightarrow>
      length items \<le> length xs \<and> items_match items xs n args"
    and "fst (match_loop (pattern_of items @ ''A'') (mk_list xs) n args) \<Longrightarrow>
      (n + length items, MSexp (mk_list (drop (length items) xs)))
        \<in> set (snd (match_loop (pattern_of items @ ''A'') (mk_list xs) n args))"
  using assms
proof (induction items arbitrary: xs n)
  case (Cons it items)
  obtain tc sc where it: "it = (tc, sc)" by fastforce
  {
    case 1
    then have wf: "tc \<noteq> CHR ''A''" "\<forall>(tc, sc) \<in> set items. tc \<noteq> CHR ''A''" by (auto simp: it)
    show ?case
    proof (cases xs)
      case xs: (Cons x xs')
      obtain c e where x: "x = (c, e)" by fastforce
      show ?thesis using Cons.IH(1) [OF wf(2), of xs' "Suc n"]
        unfolding xs x it pattern_of_simps mk_list.simps append_Cons match_loop_step(1) [OF wf(1)] items_match_Cons by auto
    qed (use wf in \<open>simp add: it\<close>)
  next
    case 2
    then have wf: "tc \<noteq> CHR ''A''" "\<forall>(tc, sc) \<in> set items. tc \<noteq> CHR ''A''" by (auto simp: it)
    then obtain c e xs' where xs: "xs = (c, e) # xs'" using 2 by (cases xs) (auto simp: it)
    note step = match_loop_step [OF wf(1), of sc "pattern_of items @ ''A''" c e "mk_list xs'" n args]
    have ok: "fst (match_loop (tc # sc # pattern_of items @ ''A'') (SCons c e (mk_list xs')) n args)"
      using 2 by (simp only: it xs pattern_of_simps mk_list.simps append_Cons)
    have "(Suc n + length items, MSexp (mk_list (drop (length items) xs')))
        \<in> set (snd (match_loop (pattern_of items @ ''A'') (mk_list xs') (Suc n) args))"
      using Cons.IH(2) [of xs' "Suc n", OF _ wf(2)] step(1) ok by blast
    then have "(Suc n + length items, MSexp (mk_list (drop (length items) xs')))
        \<in> set (snd (match_loop (tc # sc # pattern_of items @ ''A'') (SCons c e (mk_list xs')) n args))"
      using step(2) [OF ok] by blast
    then show ?case by (simp only: it xs pattern_of_simps mk_list.simps append_Cons) simp
  }
qed (simp_all add: items_match_def)

text \<open>
  On a list, a list pattern of \<open>n\<close> items matches exactly when the list has \<open>n\<close> elements and each
  element matches its item; a pattern that ends with \<^verbatim>\<open>A\<close> matches exactly when the list has at
  least \<open>n\<close> elements and the first \<open>n\<close> match, and then the variable of \<^verbatim>\<open>A\<close> is the rest of the list.
\<close>

theorem sexp_match_list_correct:
  assumes "\<forall>(tc, sc) \<in> set items. tc \<noteq> CHR ''A''"
  shows "(fst (sexp_match (mk_list xs) (CHR ''('' # pattern_of items) args) \<longleftrightarrow>
      length xs = length items \<and> items_match items xs 0 args) \<and>
    (fst (sexp_match (mk_list xs) (CHR ''('' # pattern_of items @ ''A'') args) \<longleftrightarrow>
      length items \<le> length xs \<and> items_match items xs 0 args) \<and>
    (fst (sexp_match (mk_list xs) (CHR ''('' # pattern_of items @ ''A'') args) \<longrightarrow>
      (length items, MSexp (mk_list (drop (length items) xs)))
        \<in> set (snd (sexp_match (mk_list xs) (CHR ''('' # pattern_of items @ ''A'') args)))"
  using match_loop_exact [OF assms, of xs 0 args] match_loop_rest(1) [OF assms, of xs 0 args]
    match_loop_rest(2) [OF assms, of xs 0 args]
  by (simp add: sexp_match_def char_at_def)

theorem sexp_match_list_correct_witness:
  "fst (sexp_match (mk_list [(CHR '' '', SLit 7), (CHR '' '', SStr 9)]) ''(L=S?A'' [7, 0, 0])"
  using sexp_match_list_correct [of "[(CHR ''L'', CHR ''=''), (CHR ''S'', CHR ''?'')]"
      "[(CHR '' '', SLit 7), (CHR '' '', SStr 9)]" "[7, 0, 0]"]
  by (simp add: pattern_of_def items_match_def less_Suc_eq sexp_match_one_def expected_type_def)

subsection \<open>Putting paths together\<close>

text \<open>
  The names \<open>ks\<close> and then \<open>k\<close>, joined by slashes in the source, with the separator \<open>c\<close> after the last
  one and the expression \<open>rest\<close> behind it.
\<close>

definition path_sexp :: "nat list \<Rightarrow> nat \<Rightarrow> char \<Rightarrow> sexp \<Rightarrow> sexp" where
  "path_sexp ks k c rest = foldr (\<lambda>k e. SCons CHR ''/'' (SLit k) e) ks (SCons c (SLit k) rest)"

definition slashed :: "cstr list \<Rightarrow> cstr" where
  "slashed ws = concat (map (\<lambda>w. w @ ''/'') ws)"

lemma slashed_snoc: "butlast (buf @ slashed (ws @ [w])) = buf @ slashed ws @ w"
  by (simp add: slashed_def butlast_append)

lemma path_loop_correct:
  assumes "list_all2 (\<lambda>k w. mem k = Some w) ks ws" "mem k = Some w" "c \<noteq> CHR ''/'' \<or> rest = SNil"
    and "length buf + length (slashed (ws @ [w])) \<le> SEXP_BUFSIZE"
  shows "path_loop mem (path_sexp ks k c rest) buf lastp =
    Some (Inr (buf @ slashed (ws @ [w]), length buf + length (slashed ws), rest))"
  using assms
proof (induction ks arbitrary: ws buf lastp)
  case Nil
  then show ?case by (auto simp: path_sexp_def slashed_def Let_def)
next
  case (Cons k1 ks)
  then obtain w1 ws' where ws: "ws = w1 # ws'" "mem k1 = Some w1" "list_all2 (\<lambda>k w. mem k = Some w) ks ws'"
    by (auto simp: list_all2_Cons1)
  have "path_loop mem (path_sexp ks k c rest) (buf @ w1 @ ''/'') (length buf) =
      Some (Inr ((buf @ w1 @ ''/'') @ slashed (ws' @ [w]), length (buf @ w1 @ ''/'') + length (slashed ws'), rest))"
    using Cons.prems ws by (intro Cons.IH) (simp_all add: slashed_def)
  moreover have "length (buf @ w1 @ ''/'') \<le> SEXP_BUFSIZE" using Cons.prems(4) by (simp add: ws slashed_def)
  ultimately show ?case using ws(2) by (simp add: path_sexp_def Let_def ws slashed_def)
qed

lemma path_sexp_not_nil: "path_sexp ks k c rest \<noteq> SNil"
  by (cases ks) (simp_all add: path_sexp_def)

lemma nul_free_path:
  assumes "pool_inv p" "list_all2 (\<lambda>k w. pool_mem p k = Some w) ks ws"
  shows "NUL \<notin> set (slashed ws)"
proof -
  have "NUL \<notin> set w" if "w \<in> set ws" for w
    using assms(2) that pool_inv_mem [OF assms(1)] by (auto simp: list_all2_conv_all_nth in_set_conv_nth)
  then show ?thesis by (auto simp: slashed_def)
qed

text \<open>
  On an expression that names a class, the class path is the pooled string of the names with
  slashes between them, and what remains is the expression behind the last name, provided that
  the path fits the buffer of 4096 bytes.
\<close>

theorem sexp_get_object_path_correct:
  assumes "pool_inv p" "list_all2 (\<lambda>k w. pool_mem p k = Some w) ks ws" "pool_mem p k = Some w"
    and "c \<noteq> CHR ''/'' \<or> rest = SNil" "length (slashed (ws @ [w])) \<le> 4096"
  shows "\<exists>a p'. sexp_get_object_path (path_sexp ks k c rest) p = Some (Inr (a, rest, p')) \<and>
    pool_inv p' \<and> pool_mem p' a = Some (slashed ws @ w)"
proof -
  obtain a p' where q: "stringpool_query (slashed ws @ w) p = (a, p')" by fastforce
  have "NUL \<notin> set (slashed ws @ w)"
    using nul_free_path [OF assms(1,2)] pool_inv_mem [OF assms(1,3)] by simp
  note law = stringpool_query_law [OF assms(1) this q]
  have "path_loop (pool_mem p) (path_sexp ks k c rest) [] 0 = Some (Inr (slashed (ws @ [w]), length (slashed ws), rest))"
    using path_loop_correct [OF assms(2,3,4), of "[]" 0] assms(5) by (simp add: SEXP_BUFSIZE_def)
  then show ?thesis using law q slashed_snoc [of "[]" ws w] path_sexp_not_nil [of ks k c rest]
    by (simp add: sexp_get_object_path_def)
qed

theorem sexp_get_object_path_correct_witness:
  "\<exists>k p a p'. pool_mem p k = Some ''a'' \<and>
    sexp_get_object_path (path_sexp [k] k CHR '')'' SNil) p = Some (Inr (a, SNil, p')) \<and>
    pool_mem p' a = Some ''a/a''"
proof -
  obtain k p where q: "stringpool_query ''a'' (the (snd (stringpool_init 10 None))) = (k, p)" by fastforce
  have p: "pool_inv p" "pool_mem p k = Some ''a''"
    using stringpool_query_law [OF pool_inv_init _ q] by simp_all
  have "list_all2 (\<lambda>k w. pool_mem p k = Some w) [k] [''a'']" using p by simp
  from sexp_get_object_path_correct [OF p(1) this p(2), of "CHR '')''" SNil] p(2) show ?thesis
    by (simp add: slashed_def) blast
qed

text \<open>
  On an expression that names a method, the method name is the pooled string of the last name and
  the class path that of the names before it with slashes between them, empty when there are none.
\<close>

theorem sexp_get_method_address_correct:
  assumes "pool_inv p" "list_all2 (\<lambda>k w. pool_mem p k = Some w) ks ws" "pool_mem p k = Some w"
    and "c \<noteq> CHR ''/'' \<or> rest = SNil" "length (slashed (ws @ [w])) \<le> 4096"
  shows "\<exists>path name p'. sexp_get_method_address (path_sexp ks k c rest) p = Some (Inr (path, name, rest, p')) \<and>
    pool_inv p' \<and> pool_mem p' name = Some w \<and> pool_mem p' path = Some (butlast (slashed ws))"
proof -
  have nul: "NUL \<notin> set w" "NUL \<notin> set (butlast (slashed ws))"
    using nul_free_path [OF assms(1,2)] pool_inv_mem [OF assms(1,3)] by (auto dest: in_set_butlastD)
  obtain name p1 where q1: "stringpool_query w p = (name, p1)" by fastforce
  note law1 = stringpool_query_law [OF assms(1) nul(1) q1]
  obtain path p' where q2: "stringpool_query (butlast (slashed ws)) p1 = (path, p')" by fastforce
  note law2 = stringpool_query_law [OF conjunct1 [OF law1] nul(2) q2]
  have "path_loop (pool_mem p) (path_sexp ks k c rest) [] 0 = Some (Inr (slashed (ws @ [w]), length (slashed ws), rest))"
    using path_loop_correct [OF assms(2,3,4), of "[]" 0] assms(5) by (simp add: SEXP_BUFSIZE_def)
  moreover have "(if length (slashed ws) \<ge> 1 then take (length (slashed ws) - 1) (slashed ws @ w) else []) = butlast (slashed ws)"
    by (cases "slashed ws = []") (auto simp: butlast_conv_take Suc_le_eq)
  ultimately have "sexp_get_method_address (path_sexp ks k c rest) p = Some (Inr (path, name, rest, p'))"
    using q1 q2 slashed_snoc [of "[]" ws w] path_sexp_not_nil [of ks k c rest]
    by (simp add: sexp_get_method_address_def Let_def del: One_nat_def split: if_splits)
  then show ?thesis using law1 law2 by blast
qed

theorem sexp_get_method_address_correct_witness:
  "\<exists>k p path name p'. pool_mem p k = Some ''a'' \<and>
    sexp_get_method_address (path_sexp [k] k CHR '')'' SNil) p = Some (Inr (path, name, SNil, p')) \<and>
    pool_mem p' path = Some ''a'' \<and> pool_mem p' name = Some ''a''"
proof -
  obtain k p where q: "stringpool_query ''a'' (the (snd (stringpool_init 10 None))) = (k, p)" by fastforce
  have p: "pool_inv p" "pool_mem p k = Some ''a''"
    using stringpool_query_law [OF pool_inv_init _ q] by simp_all
  have "list_all2 (\<lambda>k w. pool_mem p k = Some w) [k] [''a'']" using p by simp
  from sexp_get_method_address_correct [OF p(1) this p(2), of "CHR '')''" SNil] p(2) show ?thesis
    by (simp add: slashed_def) blast
qed

subsection \<open>Where the reader departs from the text\<close>

text \<open>
  In a string with an escape sequence the accumulator is fed the characters without the
  backslashes but the pool copies as many characters from the text as were fed, so the string
  \<^verbatim>\<open>"a\"b"\<close> is stored as its first three characters, backslash included. A minus sign in front of
  the first word of a list, or of a word at the top level, is read as white space.
\<close>

theorem sexp_reader_quirks:
  "(\<exists>p'. sexp_parse 1 [CHR 0x22, CHR ''a'', CHR 0x5C, CHR 0x22, CHR ''b'', CHR 0x22] 0 (the (snd (stringpool_init 10 None)))
      = Some (PDone 6 (SStr 1) p') \<and> pool_mem p' 1 = Some [CHR ''a'', CHR 0x5C, CHR 0x22]) \<and>
   (\<exists>p'. sexp_parse 1 ''-5'' 0 (the (snd (stringpool_init 10 None))) = Some (PDone 2 (SLit 1) p') \<and>
      pool_mem p' 1 = Some ''5'')"
proof -
  let ?p = "the (snd (stringpool_init 10 None))"
  have q: "\<exists>p'. stringpool_accumulator_query (feed s (stringpool_accumulator_init 0 buf)) ?p = (Suc 0, p') \<and>
      pool_mem p' (Suc 0) = Some (take (length s) buf)" for s buf
    unfolding accumulator_query_feed
    by (simp add: stringpool_init_def stringpool_query_imp_def Let_def chain_empty_def)
  show ?thesis
    using q [of "[CHR ''a'', CHR 0x22, CHR ''b'']" "[CHR ''a'', CHR 0x5C, CHR 0x22, CHR ''b'', CHR 0x22]"]
      q [of "''5''" "''5''"]
    by (auto simp: feed_def parse_step Let_def skip_def sexp_parse_ws_def char_at_def is_ws_def
        sexp_parse_comment.simps is_close_def is_open_def sexp_parse_string_def sexpr_parse_literal_def lit_char_def)
qed

end
