(* ===== verification/Vector_Data.thy ===== *)
theory Vector_Data
  imports Adam_Prelude
begin

text \<open>
  The growing array (\<^verbatim>\<open>src/vector.c\<close>, \<^verbatim>\<open>include/vector.h\<close>) that keeps the instructions, branches and
  exception handlers. Elements are byte sequences of a fixed size in one block of memory, which is
  doubled when it is full. The contents of memory that has been allocated and not written is a
  parameter \<open>junk\<close>. A null pointer is \<^const>\<open>None\<close>; memory exhaustion and the overflow of a size
  beyond the address space are not modelled.
\<close>

definition VECTOR_INIT_CAP :: nat where "VECTOR_INIT_CAP = 32"

record vec =
  capacity :: nat
  vec_size :: nat
  elem_size :: nat
  vec_data :: "u8 list"

definition vector_new :: "(nat \<Rightarrow> u8) \<Rightarrow> nat \<Rightarrow> vec option" where
  "vector_new junk esz =
     (if esz = 0 then None
      else Some \<lparr>capacity = VECTOR_INIT_CAP, vec_size = 0, elem_size = esz,
                 vec_data = map junk [0..<esz * VECTOR_INIT_CAP]\<rparr>)"

text \<open>\<^verbatim>\<open>realloc\<close> keeps the old bytes; the new ones are not initialised.\<close>

definition vector_resize :: "(nat \<Rightarrow> u8) \<Rightarrow> vec \<Rightarrow> vec" where
  "vector_resize junk v =
     (let new_capacity = capacity v * 2
      in v\<lparr>vec_data := vec_data v @ map junk [length (vec_data v)..<new_capacity * elem_size v],
           capacity := new_capacity\<rparr>)"

definition mem_write :: "nat \<Rightarrow> u8 list \<Rightarrow> u8 list \<Rightarrow> u8 list" where
  "mem_write addr bs mem = take addr mem @ bs @ drop (addr + length bs) mem"

definition vector_pushback :: "(nat \<Rightarrow> u8) \<Rightarrow> vec option \<Rightarrow> u8 list option \<Rightarrow> int \<times> vec option" where
  "vector_pushback junk v d =
     (case (v, d) of
        (Some v, Some d) \<Rightarrow>
          let v = (if vec_size v = capacity v then vector_resize junk v else v);
              addr = vec_size v * elem_size v
          in (0, Some (v\<lparr>vec_data := mem_write addr (take (elem_size v) d) (vec_data v),
                         vec_size := vec_size v + 1\<rparr>))
      | _ \<Rightarrow> (-1, v))"

definition vector_dry_pushback :: "(nat \<Rightarrow> u8) \<Rightarrow> vec option \<Rightarrow> int \<times> vec option" where
  "vector_dry_pushback junk v =
     (case v of
        None \<Rightarrow> (-1, v)
      | Some v \<Rightarrow>
          let v = (if vec_size v = capacity v then vector_resize junk v else v)
          in (0, Some (v\<lparr>vec_size := vec_size v + 1\<rparr>)))"

text \<open>
  The bytes at the address that \<^verbatim>\<open>vector_get\<close> returns. Indices are not checked in the default build,
  so a read beyond the block is \<^const>\<open>None\<close>.
\<close>

definition vector_get :: "vec \<Rightarrow> nat \<Rightarrow> u8 list option" where
  "vector_get v idx =
     (let addr = elem_size v * idx
      in if addr + elem_size v \<le> length (vec_data v) then Some (take (elem_size v) (drop addr (vec_data v)))
         else None)"

definition vector_size :: "vec \<Rightarrow> nat" where
  "vector_size v = vec_size v"

definition vec_inv :: "vec \<Rightarrow> bool" where
  "vec_inv v \<longleftrightarrow> 0 < elem_size v \<and> vec_size v \<le> capacity v \<and> 0 < capacity v \<and>
     length (vec_data v) = elem_size v * capacity v \<and> (\<exists>k. capacity v = VECTOR_INIT_CAP * 2 ^ k)"

lemma vec_inv_new: "vector_new junk esz = Some v \<Longrightarrow> vec_inv v \<and> vec_size v = 0 \<and> elem_size v = esz"
  by (auto simp: vector_new_def vec_inv_def VECTOR_INIT_CAP_def split: if_splits intro: exI [of _ 0])

lemma vec_inv_resize:
  assumes "vec_inv v"
  shows "vec_inv (vector_resize junk v)" "vec_size (vector_resize junk v) < capacity (vector_resize junk v)"
    "take (length (vec_data v)) (vec_data (vector_resize junk v)) = vec_data v"
proof -
  obtain k where "capacity v = VECTOR_INIT_CAP * 2 ^ k" using assms by (auto simp: vec_inv_def)
  then have "capacity v * 2 = VECTOR_INIT_CAP * 2 ^ Suc k" by simp
  then show "vec_inv (vector_resize junk v)"
    using assms by (auto simp: vec_inv_def vector_resize_def Let_def algebra_simps intro!: exI [of _ "Suc k"])
qed (use assms in \<open>auto simp: vec_inv_def vector_resize_def Let_def\<close>)

text \<open>The room that a push needs, whether or not the block had to grow.\<close>

definition grown :: "(nat \<Rightarrow> u8) \<Rightarrow> vec \<Rightarrow> vec" where
  "grown junk v = (if vec_size v = capacity v then vector_resize junk v else v)"

lemma grown_props:
  assumes "vec_inv v"
  shows "vec_inv (grown junk v)" "vec_size (grown junk v) < capacity (grown junk v)"
    "vec_size (grown junk v) = vec_size v" "elem_size (grown junk v) = elem_size v"
    "take (length (vec_data v)) (vec_data (grown junk v)) = vec_data v"
  using vec_inv_resize [OF assms, of junk] assms
  by (auto simp: grown_def vec_inv_def vector_resize_def Let_def)

lemma elem_in_block:
  assumes "vec_inv v" "i < capacity v"
  shows "elem_size v * i + elem_size v \<le> length (vec_data v)"
proof -
  have "elem_size v * Suc i \<le> elem_size v * capacity v" using assms(2) by (intro mult_le_mono) auto
  then show ?thesis using assms(1) by (simp add: vec_inv_def)
qed

lemma get_grown:
  assumes "vec_inv v" "i < vec_size v"
  shows "vector_get (grown junk v) i = vector_get v i"
proof -
  have i: "i < capacity v" using assms by (simp add: vec_inv_def)
  note in_v = elem_in_block [OF assms(1) i]
  have "take (elem_size v) (drop (elem_size v * i) (vec_data v)) =
      take (elem_size v) (drop (elem_size v * i) (vec_data (grown junk v)))"
    using in_v by (subst grown_props(5) [OF assms(1), of junk, symmetric]) (simp add: drop_take min_def)
  moreover have "length (vec_data v) \<le> length (vec_data (grown junk v))"
    using grown_props(5) [OF assms(1), of junk] by (metis length_take min.cobounded1)
  ultimately show ?thesis using in_v by (simp add: vector_get_def Let_def grown_props(4) [OF assms(1)])
qed

lemma mem_write_below:
  assumes "x + n \<le> a" "a \<le> length mem"
  shows "take n (drop x (mem_write a d mem)) = take n (drop x mem)"
proof -
  have "take n (drop x (mem_write a d mem)) = take n (drop x (take a mem))"
    using assms by (simp add: mem_write_def min_def)
  also have "\<dots> = take n (drop x mem)" using assms by (simp add: drop_take min_def)
  finally show ?thesis .
qed

lemma pushback_effect:
  assumes "vec_inv v" "length d = elem_size v"
  shows "\<exists>v'. vector_pushback junk (Some v) (Some d) = (0, Some v') \<and> vec_inv v' \<and>
    vec_size v' = Suc (vec_size v) \<and> elem_size v' = elem_size v \<and>
    vector_get v' (vec_size v) = Some d \<and> (\<forall>i < vec_size v. vector_get v' i = vector_get v i)"
proof -
  let ?g = "grown junk v"
  let ?a = "vec_size v * elem_size v"
  let ?v' = "?g\<lparr>vec_data := mem_write ?a d (vec_data ?g), vec_size := Suc (vec_size v)\<rparr>"
  note g = grown_props [OF assms(1), of junk]
  have push: "vector_pushback junk (Some v) (Some d) = (0, Some ?v')"
    using assms(2) g(3,4) by (simp add: vector_pushback_def Let_def grown_def [symmetric])
  have room: "?a + elem_size v \<le> length (vec_data ?g)"
    using elem_in_block [OF g(1) g(2)] g(3,4) by (simp add: mult.commute)
  then have len: "length (vec_data ?v') = length (vec_data ?g)" using assms(2) by (simp add: mem_write_def)
  have inv: "vec_inv ?v'" using g(1,2,3) len by (simp add: vec_inv_def)
  have new: "vector_get ?v' (vec_size v) = Some d"
    using room len assms(2) g(4) by (simp add: vector_get_def Let_def mem_write_def mult.commute)
  have "vector_get ?v' i = vector_get ?g i" if "i < vec_size v" for i
  proof -
    have "elem_size v * Suc i \<le> elem_size v * vec_size v" using that by (intro mult_le_mono) auto
    then have "elem_size v * i + elem_size v \<le> ?a" by (simp add: mult.commute)
    moreover have "?a \<le> length (vec_data ?g)" using room by simp
    ultimately show ?thesis using len g(4)
      by (simp add: vector_get_def Let_def mem_write_below)
  qed
  then show ?thesis using push inv new get_grown [OF assms(1)] g(4) by (intro exI [of _ ?v']) simp
qed

definition push_all :: "(nat \<Rightarrow> u8) \<Rightarrow> u8 list list \<Rightarrow> vec option \<Rightarrow> vec option" where
  "push_all junk ds v = fold (\<lambda>d v. snd (vector_pushback junk v (Some d))) ds v"

lemma push_all_effect:
  assumes "vec_inv v" "\<forall>d \<in> set ds. length d = elem_size v"
  shows "\<exists>v'. push_all junk ds (Some v) = Some v' \<and> vec_inv v' \<and> vec_size v' = vec_size v + length ds \<and>
    (\<forall>i < vec_size v. vector_get v' i = vector_get v i) \<and>
    (\<forall>i < length ds. vector_get v' (vec_size v + i) = Some (ds ! i))"
  using assms
proof (induction ds arbitrary: v)
  case Nil then show ?case by (simp add: push_all_def)
next
  case (Cons d ds)
  obtain v1 where v1: "vector_pushback junk (Some v) (Some d) = (0, Some v1)" "vec_inv v1"
    "vec_size v1 = Suc (vec_size v)" "elem_size v1 = elem_size v" "vector_get v1 (vec_size v) = Some d"
    "\<forall>i < vec_size v. vector_get v1 i = vector_get v i"
    using pushback_effect [OF Cons.prems(1), of d junk] Cons.prems(2) by auto
  obtain v' where v': "push_all junk ds (Some v1) = Some v'" "vec_inv v'" "vec_size v' = vec_size v1 + length ds"
    "\<forall>i < vec_size v1. vector_get v' i = vector_get v1 i"
    "\<forall>i < length ds. vector_get v' (vec_size v1 + i) = Some (ds ! i)"
    using Cons.IH [OF v1(2)] Cons.prems(2) v1(4) by auto
  have "vector_get v' (vec_size v + i) = Some ((d # ds) ! i)" if "i < length (d # ds)" for i
    using that v'(4,5) v1(3,5) by (cases i) auto
  moreover have "push_all junk (d # ds) (Some v) = Some v'" using v'(1) v1(1) by (simp add: push_all_def)
  ultimately show ?case using v' v1 by auto
qed

text \<open>
  Pushing a list of elements of the right size onto a new vector makes their number its size,
  and every element is read back from its index unchanged, however often the block had to grow; the
  capacity is 32 doubled some number of times and never below the size.
\<close>

theorem vector_roundtrip:
  assumes "0 < esz" "\<forall>d \<in> set ds. length d = esz"
  shows "\<exists>v. push_all junk ds (vector_new junk esz) = Some v \<and> vector_size v = length ds \<and>
    (\<forall>i < length ds. vector_get v i = Some (ds ! i)) \<and>
    length ds \<le> capacity v \<and> (\<exists>k. capacity v = 32 * 2 ^ k)"
proof -
  obtain v0 where v0: "vector_new junk esz = Some v0" using assms(1) by (simp add: vector_new_def)
  note n = vec_inv_new [OF v0]
  obtain v where v: "push_all junk ds (Some v0) = Some v" "vec_inv v" "vec_size v = length ds"
    "\<forall>i < length ds. vector_get v i = Some (ds ! i)"
    using push_all_effect [of v0 ds junk] n assms(2) by auto
  have "length ds \<le> capacity v" "\<exists>k. capacity v = 32 * 2 ^ k"
    using v(2,3) by (auto simp: vec_inv_def VECTOR_INIT_CAP_def)
  with v v0 show ?thesis by (intro exI [of _ v]) (simp add: vector_size_def)
qed

theorem vector_roundtrip_witness:
  "\<exists>v. push_all (\<lambda>_. 7) [[1, 2], [3, 4]] (vector_new (\<lambda>_. 7) 2) = Some v \<and> vector_get v 1 = Some [3, 4]"
  using vector_roundtrip [of 2 "[[1, 2], [3, 4]]" "\<lambda>_. 7"] by force

text \<open>
  The errors of the vector: an element size of zero gives no vector, pushing to a null vector or
  from a null pointer returns a negative value and leaves the vector alone.
\<close>

theorem vector_errors:
  "vector_new junk 0 = None \<and> vector_pushback junk None d = (-1, None) \<and>
   vector_pushback junk v None = (-1, v) \<and> vector_dry_pushback junk None = (-1, None)"
  by (auto simp: vector_new_def vector_pushback_def vector_dry_pushback_def split: option.splits)

end
