(* ===== verification/Dalvik_Tokens.thy ===== *)
theory Dalvik_Tokens
  imports Sexp
begin

text \<open>
  The table of keywords (\<^verbatim>\<open>src/dalvik/dalvik_tokens.c\<close>, \<^verbatim>\<open>include/dalvik/dalvik_tokens.h\<close>). The keywords
  are pooled once, so that the readers compare a literal with a keyword by address. Of the macros,
  those that the modelled readers use are given.
\<close>

definition dalvik_token_defs :: "cstr list" where
  "dalvik_token_defs = [
     ''move'', ''return'', ''const'', ''monitor'', ''check'', ''instance'', ''array'', ''new'',
     ''filled'', ''16'', ''from16'', ''wide'', ''object'', ''result'', ''exception'', ''void'', ''4'',
     ''high16'', ''32'', ''class'', ''jumbo'', ''enter'', ''exit'', ''cast'', ''of'', ''length'',
     ''range'', ''throw'', ''goto'', ''packed'', ''switch'', ''sparse'', ''cmpl'', ''cmpg'', ''cmp'',
     ''float'', ''double'', ''long'', ''if'', ''eq'', ''ne'', ''le'', ''ge'', ''gt'', ''lt'', ''eqz'',
     ''nez'', ''lez'', ''gez'', ''gtz'', ''ltz'', ''boolean'', ''byte'', ''char'', ''short'', ''aget'',
     ''aput'', ''sget'', ''sput'', ''iget'', ''iput'', ''invoke'', ''virtual'', ''super'', ''direct'',
     ''static'', ''interface'', ''int'', ''to'', ''neg'', ''not'', ''add'', ''sub'', ''mul'', ''div'',
     ''rem'', ''and'', ''or'', ''xor'', ''shl'', ''shr'', ''ushl'', ''ushr'', ''2addr'', ''lit8'',
     ''lit16'', ''nop'', ''string'', ''default'', ''rsub'', ''method'', ''attrs'', ''abstract'',
     ''annotation'', ''final'', ''private'', ''protected'', ''public'', ''synchronized'', ''transient'',
     ''line'', ''limit'', ''registers'', ''label'', ''field'', ''source'', ''implements'', ''data'',
     ''catch'', ''catchall'', ''fill'', ''using'', ''from'', ''__DEBUG__'', ''true'', ''false'',
     ''_invoke'', ''volatile'', ''native'']"

definition DALVIK_TOKEN_TABLE_ENTITY :: "nat list \<Rightarrow> nat \<Rightarrow> nat" where
  "DALVIK_TOKEN_TABLE_ENTITY keywords i = keywords ! i"

definition dalvik_tokens_init :: "pool \<Rightarrow> nat list \<times> pool" where
  "dalvik_tokens_init p = intern_all stringpool_query dalvik_token_defs p"

abbreviation DALVIK_TOKEN_ARRAY :: "nat list \<Rightarrow> nat" where "DALVIK_TOKEN_ARRAY kw \<equiv> DALVIK_TOKEN_TABLE_ENTITY kw 6"
abbreviation DALVIK_TOKEN_OBJECT :: "nat list \<Rightarrow> nat" where "DALVIK_TOKEN_OBJECT kw \<equiv> DALVIK_TOKEN_TABLE_ENTITY kw 12"
abbreviation DALVIK_TOKEN_VOID :: "nat list \<Rightarrow> nat" where "DALVIK_TOKEN_VOID kw \<equiv> DALVIK_TOKEN_TABLE_ENTITY kw 15"
abbreviation DALVIK_TOKEN_WIDE :: "nat list \<Rightarrow> nat" where "DALVIK_TOKEN_WIDE kw \<equiv> DALVIK_TOKEN_TABLE_ENTITY kw 11"
abbreviation DALVIK_TOKEN_FLOAT :: "nat list \<Rightarrow> nat" where "DALVIK_TOKEN_FLOAT kw \<equiv> DALVIK_TOKEN_TABLE_ENTITY kw 35"
abbreviation DALVIK_TOKEN_DOUBLE :: "nat list \<Rightarrow> nat" where "DALVIK_TOKEN_DOUBLE kw \<equiv> DALVIK_TOKEN_TABLE_ENTITY kw 36"
abbreviation DALVIK_TOKEN_LONG :: "nat list \<Rightarrow> nat" where "DALVIK_TOKEN_LONG kw \<equiv> DALVIK_TOKEN_TABLE_ENTITY kw 37"
abbreviation DALVIK_TOKEN_BOOLEAN :: "nat list \<Rightarrow> nat" where "DALVIK_TOKEN_BOOLEAN kw \<equiv> DALVIK_TOKEN_TABLE_ENTITY kw 51"
abbreviation DALVIK_TOKEN_BYTE :: "nat list \<Rightarrow> nat" where "DALVIK_TOKEN_BYTE kw \<equiv> DALVIK_TOKEN_TABLE_ENTITY kw 52"
abbreviation DALVIK_TOKEN_CHAR :: "nat list \<Rightarrow> nat" where "DALVIK_TOKEN_CHAR kw \<equiv> DALVIK_TOKEN_TABLE_ENTITY kw 53"
abbreviation DALVIK_TOKEN_SHORT :: "nat list \<Rightarrow> nat" where "DALVIK_TOKEN_SHORT kw \<equiv> DALVIK_TOKEN_TABLE_ENTITY kw 54"
abbreviation DALVIK_TOKEN_INT :: "nat list \<Rightarrow> nat" where "DALVIK_TOKEN_INT kw \<equiv> DALVIK_TOKEN_TABLE_ENTITY kw 67"
abbreviation DALVIK_TOKEN_TO :: "nat list \<Rightarrow> nat" where "DALVIK_TOKEN_TO kw \<equiv> DALVIK_TOKEN_TABLE_ENTITY kw 68"
abbreviation DALVIK_TOKEN_STATIC :: "nat list \<Rightarrow> nat" where "DALVIK_TOKEN_STATIC kw \<equiv> DALVIK_TOKEN_TABLE_ENTITY kw 65"
abbreviation DALVIK_TOKEN_ATTRS :: "nat list \<Rightarrow> nat" where "DALVIK_TOKEN_ATTRS kw \<equiv> DALVIK_TOKEN_TABLE_ENTITY kw 91"
abbreviation DALVIK_TOKEN_ABSTRACT :: "nat list \<Rightarrow> nat" where "DALVIK_TOKEN_ABSTRACT kw \<equiv> DALVIK_TOKEN_TABLE_ENTITY kw 92"
abbreviation DALVIK_TOKEN_ANNOTATION :: "nat list \<Rightarrow> nat" where "DALVIK_TOKEN_ANNOTATION kw \<equiv> DALVIK_TOKEN_TABLE_ENTITY kw 93"
abbreviation DALVIK_TOKEN_FINAL :: "nat list \<Rightarrow> nat" where "DALVIK_TOKEN_FINAL kw \<equiv> DALVIK_TOKEN_TABLE_ENTITY kw 94"
abbreviation DALVIK_TOKEN_PRIVATE :: "nat list \<Rightarrow> nat" where "DALVIK_TOKEN_PRIVATE kw \<equiv> DALVIK_TOKEN_TABLE_ENTITY kw 95"
abbreviation DALVIK_TOKEN_PROTECTED :: "nat list \<Rightarrow> nat" where "DALVIK_TOKEN_PROTECTED kw \<equiv> DALVIK_TOKEN_TABLE_ENTITY kw 96"
abbreviation DALVIK_TOKEN_PUBLIC :: "nat list \<Rightarrow> nat" where "DALVIK_TOKEN_PUBLIC kw \<equiv> DALVIK_TOKEN_TABLE_ENTITY kw 97"
abbreviation DALVIK_TOKEN_SYNCHRNIZED :: "nat list \<Rightarrow> nat" where "DALVIK_TOKEN_SYNCHRNIZED kw \<equiv> DALVIK_TOKEN_TABLE_ENTITY kw 98"
abbreviation DALVIK_TOKEN_TRANSIENT :: "nat list \<Rightarrow> nat" where "DALVIK_TOKEN_TRANSIENT kw \<equiv> DALVIK_TOKEN_TABLE_ENTITY kw 99"
abbreviation DALVIK_TOKEN_VOLATILE :: "nat list \<Rightarrow> nat" where "DALVIK_TOKEN_VOLATILE kw \<equiv> DALVIK_TOKEN_TABLE_ENTITY kw 117"
abbreviation DALVIK_TOKEN_NATIVE :: "nat list \<Rightarrow> nat" where "DALVIK_TOKEN_NATIVE kw \<equiv> DALVIK_TOKEN_TABLE_ENTITY kw 118"
abbreviation DALVIK_TOKEN_CATCH :: "nat list \<Rightarrow> nat" where "DALVIK_TOKEN_CATCH kw \<equiv> DALVIK_TOKEN_TABLE_ENTITY kw 108"
abbreviation DALVIK_TOKEN_CATCHALL :: "nat list \<Rightarrow> nat" where "DALVIK_TOKEN_CATCHALL kw \<equiv> DALVIK_TOKEN_TABLE_ENTITY kw 109"
abbreviation DALVIK_TOKEN_USING :: "nat list \<Rightarrow> nat" where "DALVIK_TOKEN_USING kw \<equiv> DALVIK_TOKEN_TABLE_ENTITY kw 111"
abbreviation DALVIK_TOKEN_FROM :: "nat list \<Rightarrow> nat" where "DALVIK_TOKEN_FROM kw \<equiv> DALVIK_TOKEN_TABLE_ENTITY kw 112"
abbreviation DALVIK_TOKEN_FIELD :: "nat list \<Rightarrow> nat" where "DALVIK_TOKEN_FIELD kw \<equiv> DALVIK_TOKEN_TABLE_ENTITY kw 104"
abbreviation DALVIK_TOKEN_MOVE :: "nat list \<Rightarrow> nat" where "DALVIK_TOKEN_MOVE kw \<equiv> DALVIK_TOKEN_TABLE_ENTITY kw 0"
abbreviation DALVIK_TOKEN_RETURN :: "nat list \<Rightarrow> nat" where "DALVIK_TOKEN_RETURN kw \<equiv> DALVIK_TOKEN_TABLE_ENTITY kw 1"
abbreviation DALVIK_TOKEN_CONST :: "nat list \<Rightarrow> nat" where "DALVIK_TOKEN_CONST kw \<equiv> DALVIK_TOKEN_TABLE_ENTITY kw 2"
abbreviation DALVIK_TOKEN_MONITOR :: "nat list \<Rightarrow> nat" where "DALVIK_TOKEN_MONITOR kw \<equiv> DALVIK_TOKEN_TABLE_ENTITY kw 3"
abbreviation DALVIK_TOKEN_CHECK :: "nat list \<Rightarrow> nat" where "DALVIK_TOKEN_CHECK kw \<equiv> DALVIK_TOKEN_TABLE_ENTITY kw 4"
abbreviation DALVIK_TOKEN_INSTANCE :: "nat list \<Rightarrow> nat" where "DALVIK_TOKEN_INSTANCE kw \<equiv> DALVIK_TOKEN_TABLE_ENTITY kw 5"
abbreviation DALVIK_TOKEN_NEW :: "nat list \<Rightarrow> nat" where "DALVIK_TOKEN_NEW kw \<equiv> DALVIK_TOKEN_TABLE_ENTITY kw 7"
abbreviation DALVIK_TOKEN_FILLED :: "nat list \<Rightarrow> nat" where "DALVIK_TOKEN_FILLED kw \<equiv> DALVIK_TOKEN_TABLE_ENTITY kw 8"
abbreviation DALVIK_TOKEN_16 :: "nat list \<Rightarrow> nat" where "DALVIK_TOKEN_16 kw \<equiv> DALVIK_TOKEN_TABLE_ENTITY kw 9"
abbreviation DALVIK_TOKEN_FROM16 :: "nat list \<Rightarrow> nat" where "DALVIK_TOKEN_FROM16 kw \<equiv> DALVIK_TOKEN_TABLE_ENTITY kw 10"
abbreviation DALVIK_TOKEN_RESULT :: "nat list \<Rightarrow> nat" where "DALVIK_TOKEN_RESULT kw \<equiv> DALVIK_TOKEN_TABLE_ENTITY kw 13"
abbreviation DALVIK_TOKEN_EXCEPTION :: "nat list \<Rightarrow> nat" where "DALVIK_TOKEN_EXCEPTION kw \<equiv> DALVIK_TOKEN_TABLE_ENTITY kw 14"
abbreviation DALVIK_TOKEN_4 :: "nat list \<Rightarrow> nat" where "DALVIK_TOKEN_4 kw \<equiv> DALVIK_TOKEN_TABLE_ENTITY kw 16"
abbreviation DALVIK_TOKEN_HIGH16 :: "nat list \<Rightarrow> nat" where "DALVIK_TOKEN_HIGH16 kw \<equiv> DALVIK_TOKEN_TABLE_ENTITY kw 17"
abbreviation DALVIK_TOKEN_32 :: "nat list \<Rightarrow> nat" where "DALVIK_TOKEN_32 kw \<equiv> DALVIK_TOKEN_TABLE_ENTITY kw 18"
abbreviation DALVIK_TOKEN_CLASS :: "nat list \<Rightarrow> nat" where "DALVIK_TOKEN_CLASS kw \<equiv> DALVIK_TOKEN_TABLE_ENTITY kw 19"
abbreviation DALVIK_TOKEN_JUMBO :: "nat list \<Rightarrow> nat" where "DALVIK_TOKEN_JUMBO kw \<equiv> DALVIK_TOKEN_TABLE_ENTITY kw 20"
abbreviation DALVIK_TOKEN_ENTER :: "nat list \<Rightarrow> nat" where "DALVIK_TOKEN_ENTER kw \<equiv> DALVIK_TOKEN_TABLE_ENTITY kw 21"
abbreviation DALVIK_TOKEN_EXIT :: "nat list \<Rightarrow> nat" where "DALVIK_TOKEN_EXIT kw \<equiv> DALVIK_TOKEN_TABLE_ENTITY kw 22"
abbreviation DALVIK_TOKEN_CAST :: "nat list \<Rightarrow> nat" where "DALVIK_TOKEN_CAST kw \<equiv> DALVIK_TOKEN_TABLE_ENTITY kw 23"
abbreviation DALVIK_TOKEN_OF :: "nat list \<Rightarrow> nat" where "DALVIK_TOKEN_OF kw \<equiv> DALVIK_TOKEN_TABLE_ENTITY kw 24"
abbreviation DALVIK_TOKEN_RANGE :: "nat list \<Rightarrow> nat" where "DALVIK_TOKEN_RANGE kw \<equiv> DALVIK_TOKEN_TABLE_ENTITY kw 26"
abbreviation DALVIK_TOKEN_THROW :: "nat list \<Rightarrow> nat" where "DALVIK_TOKEN_THROW kw \<equiv> DALVIK_TOKEN_TABLE_ENTITY kw 27"
abbreviation DALVIK_TOKEN_GOTO :: "nat list \<Rightarrow> nat" where "DALVIK_TOKEN_GOTO kw \<equiv> DALVIK_TOKEN_TABLE_ENTITY kw 28"
abbreviation DALVIK_TOKEN_PACKED :: "nat list \<Rightarrow> nat" where "DALVIK_TOKEN_PACKED kw \<equiv> DALVIK_TOKEN_TABLE_ENTITY kw 29"
abbreviation DALVIK_TOKEN_SWITCH :: "nat list \<Rightarrow> nat" where "DALVIK_TOKEN_SWITCH kw \<equiv> DALVIK_TOKEN_TABLE_ENTITY kw 30"
abbreviation DALVIK_TOKEN_SPARSE :: "nat list \<Rightarrow> nat" where "DALVIK_TOKEN_SPARSE kw \<equiv> DALVIK_TOKEN_TABLE_ENTITY kw 31"
abbreviation DALVIK_TOKEN_CMPL :: "nat list \<Rightarrow> nat" where "DALVIK_TOKEN_CMPL kw \<equiv> DALVIK_TOKEN_TABLE_ENTITY kw 32"
abbreviation DALVIK_TOKEN_CMPG :: "nat list \<Rightarrow> nat" where "DALVIK_TOKEN_CMPG kw \<equiv> DALVIK_TOKEN_TABLE_ENTITY kw 33"
abbreviation DALVIK_TOKEN_CMP :: "nat list \<Rightarrow> nat" where "DALVIK_TOKEN_CMP kw \<equiv> DALVIK_TOKEN_TABLE_ENTITY kw 34"
abbreviation DALVIK_TOKEN_IF :: "nat list \<Rightarrow> nat" where "DALVIK_TOKEN_IF kw \<equiv> DALVIK_TOKEN_TABLE_ENTITY kw 38"
abbreviation DALVIK_TOKEN_EQ :: "nat list \<Rightarrow> nat" where "DALVIK_TOKEN_EQ kw \<equiv> DALVIK_TOKEN_TABLE_ENTITY kw 39"
abbreviation DALVIK_TOKEN_NE :: "nat list \<Rightarrow> nat" where "DALVIK_TOKEN_NE kw \<equiv> DALVIK_TOKEN_TABLE_ENTITY kw 40"
abbreviation DALVIK_TOKEN_LE :: "nat list \<Rightarrow> nat" where "DALVIK_TOKEN_LE kw \<equiv> DALVIK_TOKEN_TABLE_ENTITY kw 41"
abbreviation DALVIK_TOKEN_GE :: "nat list \<Rightarrow> nat" where "DALVIK_TOKEN_GE kw \<equiv> DALVIK_TOKEN_TABLE_ENTITY kw 42"
abbreviation DALVIK_TOKEN_GT :: "nat list \<Rightarrow> nat" where "DALVIK_TOKEN_GT kw \<equiv> DALVIK_TOKEN_TABLE_ENTITY kw 43"
abbreviation DALVIK_TOKEN_LT :: "nat list \<Rightarrow> nat" where "DALVIK_TOKEN_LT kw \<equiv> DALVIK_TOKEN_TABLE_ENTITY kw 44"
abbreviation DALVIK_TOKEN_EQZ :: "nat list \<Rightarrow> nat" where "DALVIK_TOKEN_EQZ kw \<equiv> DALVIK_TOKEN_TABLE_ENTITY kw 45"
abbreviation DALVIK_TOKEN_NEZ :: "nat list \<Rightarrow> nat" where "DALVIK_TOKEN_NEZ kw \<equiv> DALVIK_TOKEN_TABLE_ENTITY kw 46"
abbreviation DALVIK_TOKEN_LEZ :: "nat list \<Rightarrow> nat" where "DALVIK_TOKEN_LEZ kw \<equiv> DALVIK_TOKEN_TABLE_ENTITY kw 47"
abbreviation DALVIK_TOKEN_GEZ :: "nat list \<Rightarrow> nat" where "DALVIK_TOKEN_GEZ kw \<equiv> DALVIK_TOKEN_TABLE_ENTITY kw 48"
abbreviation DALVIK_TOKEN_GTZ :: "nat list \<Rightarrow> nat" where "DALVIK_TOKEN_GTZ kw \<equiv> DALVIK_TOKEN_TABLE_ENTITY kw 49"
abbreviation DALVIK_TOKEN_LTZ :: "nat list \<Rightarrow> nat" where "DALVIK_TOKEN_LTZ kw \<equiv> DALVIK_TOKEN_TABLE_ENTITY kw 50"
abbreviation DALVIK_TOKEN_AGET :: "nat list \<Rightarrow> nat" where "DALVIK_TOKEN_AGET kw \<equiv> DALVIK_TOKEN_TABLE_ENTITY kw 55"
abbreviation DALVIK_TOKEN_APUT :: "nat list \<Rightarrow> nat" where "DALVIK_TOKEN_APUT kw \<equiv> DALVIK_TOKEN_TABLE_ENTITY kw 56"
abbreviation DALVIK_TOKEN_SGET :: "nat list \<Rightarrow> nat" where "DALVIK_TOKEN_SGET kw \<equiv> DALVIK_TOKEN_TABLE_ENTITY kw 57"
abbreviation DALVIK_TOKEN_SPUT :: "nat list \<Rightarrow> nat" where "DALVIK_TOKEN_SPUT kw \<equiv> DALVIK_TOKEN_TABLE_ENTITY kw 58"
abbreviation DALVIK_TOKEN_IGET :: "nat list \<Rightarrow> nat" where "DALVIK_TOKEN_IGET kw \<equiv> DALVIK_TOKEN_TABLE_ENTITY kw 59"
abbreviation DALVIK_TOKEN_IPUT :: "nat list \<Rightarrow> nat" where "DALVIK_TOKEN_IPUT kw \<equiv> DALVIK_TOKEN_TABLE_ENTITY kw 60"
abbreviation DALVIK_TOKEN_INVOKE :: "nat list \<Rightarrow> nat" where "DALVIK_TOKEN_INVOKE kw \<equiv> DALVIK_TOKEN_TABLE_ENTITY kw 61"
abbreviation DALVIK_TOKEN_VIRTUAL :: "nat list \<Rightarrow> nat" where "DALVIK_TOKEN_VIRTUAL kw \<equiv> DALVIK_TOKEN_TABLE_ENTITY kw 62"
abbreviation DALVIK_TOKEN_SUPER :: "nat list \<Rightarrow> nat" where "DALVIK_TOKEN_SUPER kw \<equiv> DALVIK_TOKEN_TABLE_ENTITY kw 63"
abbreviation DALVIK_TOKEN_DIRECT :: "nat list \<Rightarrow> nat" where "DALVIK_TOKEN_DIRECT kw \<equiv> DALVIK_TOKEN_TABLE_ENTITY kw 64"
abbreviation DALVIK_TOKEN_INTERFACE :: "nat list \<Rightarrow> nat" where "DALVIK_TOKEN_INTERFACE kw \<equiv> DALVIK_TOKEN_TABLE_ENTITY kw 66"
abbreviation DALVIK_TOKEN_NEG :: "nat list \<Rightarrow> nat" where "DALVIK_TOKEN_NEG kw \<equiv> DALVIK_TOKEN_TABLE_ENTITY kw 69"
abbreviation DALVIK_TOKEN_NOT :: "nat list \<Rightarrow> nat" where "DALVIK_TOKEN_NOT kw \<equiv> DALVIK_TOKEN_TABLE_ENTITY kw 70"
abbreviation DALVIK_TOKEN_ADD :: "nat list \<Rightarrow> nat" where "DALVIK_TOKEN_ADD kw \<equiv> DALVIK_TOKEN_TABLE_ENTITY kw 71"
abbreviation DALVIK_TOKEN_SUB :: "nat list \<Rightarrow> nat" where "DALVIK_TOKEN_SUB kw \<equiv> DALVIK_TOKEN_TABLE_ENTITY kw 72"
abbreviation DALVIK_TOKEN_MUL :: "nat list \<Rightarrow> nat" where "DALVIK_TOKEN_MUL kw \<equiv> DALVIK_TOKEN_TABLE_ENTITY kw 73"
abbreviation DALVIK_TOKEN_DIV :: "nat list \<Rightarrow> nat" where "DALVIK_TOKEN_DIV kw \<equiv> DALVIK_TOKEN_TABLE_ENTITY kw 74"
abbreviation DALVIK_TOKEN_REM :: "nat list \<Rightarrow> nat" where "DALVIK_TOKEN_REM kw \<equiv> DALVIK_TOKEN_TABLE_ENTITY kw 75"
abbreviation DALVIK_TOKEN_AND :: "nat list \<Rightarrow> nat" where "DALVIK_TOKEN_AND kw \<equiv> DALVIK_TOKEN_TABLE_ENTITY kw 76"
abbreviation DALVIK_TOKEN_OR :: "nat list \<Rightarrow> nat" where "DALVIK_TOKEN_OR kw \<equiv> DALVIK_TOKEN_TABLE_ENTITY kw 77"
abbreviation DALVIK_TOKEN_XOR :: "nat list \<Rightarrow> nat" where "DALVIK_TOKEN_XOR kw \<equiv> DALVIK_TOKEN_TABLE_ENTITY kw 78"
abbreviation DALVIK_TOKEN_SHL :: "nat list \<Rightarrow> nat" where "DALVIK_TOKEN_SHL kw \<equiv> DALVIK_TOKEN_TABLE_ENTITY kw 79"
abbreviation DALVIK_TOKEN_SHR :: "nat list \<Rightarrow> nat" where "DALVIK_TOKEN_SHR kw \<equiv> DALVIK_TOKEN_TABLE_ENTITY kw 80"
abbreviation DALVIK_TOKEN_USHR :: "nat list \<Rightarrow> nat" where "DALVIK_TOKEN_USHR kw \<equiv> DALVIK_TOKEN_TABLE_ENTITY kw 82"
abbreviation DALVIK_TOKEN_2ADDR :: "nat list \<Rightarrow> nat" where "DALVIK_TOKEN_2ADDR kw \<equiv> DALVIK_TOKEN_TABLE_ENTITY kw 83"
abbreviation DALVIK_TOKEN_LIT8 :: "nat list \<Rightarrow> nat" where "DALVIK_TOKEN_LIT8 kw \<equiv> DALVIK_TOKEN_TABLE_ENTITY kw 84"
abbreviation DALVIK_TOKEN_LIT16 :: "nat list \<Rightarrow> nat" where "DALVIK_TOKEN_LIT16 kw \<equiv> DALVIK_TOKEN_TABLE_ENTITY kw 85"
abbreviation DALVIK_TOKEN_NOP :: "nat list \<Rightarrow> nat" where "DALVIK_TOKEN_NOP kw \<equiv> DALVIK_TOKEN_TABLE_ENTITY kw 86"
abbreviation DALVIK_TOKEN_STRING :: "nat list \<Rightarrow> nat" where "DALVIK_TOKEN_STRING kw \<equiv> DALVIK_TOKEN_TABLE_ENTITY kw 87"
abbreviation DALVIK_TOKEN_DEFAULT :: "nat list \<Rightarrow> nat" where "DALVIK_TOKEN_DEFAULT kw \<equiv> DALVIK_TOKEN_TABLE_ENTITY kw 88"
abbreviation DALVIK_TOKEN_RSUB :: "nat list \<Rightarrow> nat" where "DALVIK_TOKEN_RSUB kw \<equiv> DALVIK_TOKEN_TABLE_ENTITY kw 89"
abbreviation DALVIK_TOKEN_METHOD :: "nat list \<Rightarrow> nat" where "DALVIK_TOKEN_METHOD kw \<equiv> DALVIK_TOKEN_TABLE_ENTITY kw 90"
abbreviation DALVIK_TOKEN_LINE :: "nat list \<Rightarrow> nat" where "DALVIK_TOKEN_LINE kw \<equiv> DALVIK_TOKEN_TABLE_ENTITY kw 100"
abbreviation DALVIK_TOKEN_LIMIT :: "nat list \<Rightarrow> nat" where "DALVIK_TOKEN_LIMIT kw \<equiv> DALVIK_TOKEN_TABLE_ENTITY kw 101"
abbreviation DALVIK_TOKEN_REGISTERS :: "nat list \<Rightarrow> nat" where "DALVIK_TOKEN_REGISTERS kw \<equiv> DALVIK_TOKEN_TABLE_ENTITY kw 102"
abbreviation DALVIK_TOKEN_LABEL :: "nat list \<Rightarrow> nat" where "DALVIK_TOKEN_LABEL kw \<equiv> DALVIK_TOKEN_TABLE_ENTITY kw 103"
abbreviation DALVIK_TOKEN_SOURCE :: "nat list \<Rightarrow> nat" where "DALVIK_TOKEN_SOURCE kw \<equiv> DALVIK_TOKEN_TABLE_ENTITY kw 105"
abbreviation DALVIK_TOKEN_IMPLEMENTS :: "nat list \<Rightarrow> nat" where "DALVIK_TOKEN_IMPLEMENTS kw \<equiv> DALVIK_TOKEN_TABLE_ENTITY kw 106"
abbreviation DALVIK_TOKEN_DATA :: "nat list \<Rightarrow> nat" where "DALVIK_TOKEN_DATA kw \<equiv> DALVIK_TOKEN_TABLE_ENTITY kw 107"
abbreviation DALVIK_TOKEN_FILL :: "nat list \<Rightarrow> nat" where "DALVIK_TOKEN_FILL kw \<equiv> DALVIK_TOKEN_TABLE_ENTITY kw 110"
abbreviation DALVIK_TOKEN_UINVOKE :: "nat list \<Rightarrow> nat" where "DALVIK_TOKEN_UINVOKE kw \<equiv> DALVIK_TOKEN_TABLE_ENTITY kw 116"

lemma token_defs_distinct: "distinct dalvik_token_defs"
  unfolding dalvik_token_defs_def by code_simp

lemma token_defs_length: "length dalvik_token_defs = 119"
  unfolding dalvik_token_defs_def by code_simp

lemma token_defs_nul_free: "list_all (\<lambda>w. NUL \<notin> set w) dalvik_token_defs"
  unfolding dalvik_token_defs_def by code_simp

text \<open>What the readers assume of the table: every keyword is at its place in the pool.\<close>

definition tokens_ok :: "nat list \<Rightarrow> pool \<Rightarrow> bool" where
  "tokens_ok kw p \<longleftrightarrow> pool_inv p \<and> list_all2 (\<lambda>k w. pool_mem p k = Some w) kw dalvik_token_defs"

lemma tokens_init_ok:
  assumes "pool_inv p" "dalvik_tokens_init p = (kw, p')"
  shows "tokens_ok kw p'"
  using pool_interning.intern_all_mem [OF assms(1) token_defs_nul_free, of kw p'] assms(2)
  by (simp add: tokens_ok_def dalvik_tokens_init_def)

lemma tokens_ok_mono:
  "tokens_ok kw p \<Longrightarrow> pool_inv p' \<Longrightarrow> \<forall>k w. pool_mem p k = Some w \<longrightarrow> pool_mem p' k = Some w \<Longrightarrow> tokens_ok kw p'"
  unfolding tokens_ok_def by (auto elim: list_all2_mono)

lemma token_mem:
  "tokens_ok kw p \<Longrightarrow> i < 119 \<Longrightarrow> pool_mem p (DALVIK_TOKEN_TABLE_ENTITY kw i) = Some (dalvik_token_defs ! i)"
  by (auto simp: tokens_ok_def list_all2_conv_all_nth token_defs_length DALVIK_TOKEN_TABLE_ENTITY_def)

lemma token_eq_iff:
  assumes "tokens_ok kw p" "i < 119" "j < 119"
  shows "DALVIK_TOKEN_TABLE_ENTITY kw i = DALVIK_TOKEN_TABLE_ENTITY kw j \<longleftrightarrow> i = j"
proof
  assume "DALVIK_TOKEN_TABLE_ENTITY kw i = DALVIK_TOKEN_TABLE_ENTITY kw j"
  then have "dalvik_token_defs ! i = dalvik_token_defs ! j"
    using token_mem [OF assms(1,2)] token_mem [OF assms(1,3)] by simp
  then show "i = j" using token_defs_distinct assms(2,3) by (simp add: nth_eq_iff_index_eq token_defs_length)
qed simp

text \<open>
  After the keyword table has been initialised, a literal of the program is the address of a
  keyword exactly when it is spelled like it, and different keywords have different addresses.
\<close>

theorem dalvik_tokens_recognise:
  assumes "pool_inv p" "dalvik_tokens_init p = (kw, p')" "i < 119" "pool_mem p' k = Some w"
  shows "(k = DALVIK_TOKEN_TABLE_ENTITY kw i \<longleftrightarrow> w = dalvik_token_defs ! i) \<and>
    (\<forall>j < 119. DALVIK_TOKEN_TABLE_ENTITY kw i = DALVIK_TOKEN_TABLE_ENTITY kw j \<longleftrightarrow> i = j)"
proof -
  have ok: "tokens_ok kw p'" by (rule tokens_init_ok [OF assms(1,2)])
  have "pool_inv p'" using ok by (simp add: tokens_ok_def)
  then show ?thesis using token_mem [OF ok assms(3)] token_eq_iff [OF ok assms(3)] assms(4) pool_inv_inj
    by (metis option.inject)
qed

theorem dalvik_tokens_recognise_witness:
  "\<exists>kw p'. dalvik_tokens_init (the (snd (stringpool_init 10 None))) = (kw, p') \<and>
    DALVIK_TOKEN_VOID kw \<noteq> DALVIK_TOKEN_OBJECT kw"
proof -
  obtain kw p' where t: "dalvik_tokens_init (the (snd (stringpool_init 10 None))) = (kw, p')" by fastforce
  have "pool_mem p' (DALVIK_TOKEN_VOID kw) = Some (dalvik_token_defs ! 15)"
    by (rule token_mem [OF tokens_init_ok [OF pool_inv_init t]]) simp
  from dalvik_tokens_recognise [OF pool_inv_init t _ this, of 15] t show ?thesis by auto
qed

end
