(* ===== verification/Dalvik_Type.thy ===== *)
theory Dalvik_Type
  imports Dalvik_Tokens
begin

text \<open>
  Type descriptors and attributes (\<^verbatim>\<open>src/dalvik/dalvik_type.c\<close>, \<^verbatim>\<open>src/dalvik/dalvik_attrs.c\<close>). The
  atomic types are singletons that are created once, by \<^verbatim>\<open>dalvik_type_init\<close>; every other
  descriptor refers to one of them by its address, so that comparing the addresses of two atomic
  descriptors compares their codes. A descriptor is therefore its value here, and the addresses of
  the singletons, which the hash code uses, are the table \<open>atoms\<close>. A null descriptor is
  \<^const>\<open>None\<close>, and a list that ends with a null descriptor is a list. The type codes outside of the
  enumeration do not occur. Memory exhaustion is not modelled.
\<close>

subsection \<open>Data\<close>

datatype dalvik_typecode =
  DALVIK_TYPECODE_VOID | DALVIK_TYPECODE_INT | DALVIK_TYPECODE_LONG | DALVIK_TYPECODE_SHORT
| DALVIK_TYPECODE_WIDE | DALVIK_TYPECODE_FLOAT | DALVIK_TYPECODE_DOUBLE | DALVIK_TYPECODE_CHAR
| DALVIK_TYPECODE_BYTE | DALVIK_TYPECODE_BOOLEAN

datatype dalvik_type = TAtom dalvik_typecode | TObject nat | TArray dalvik_type

type_synonym atom_table = "dalvik_typecode \<Rightarrow> nat"

fun dalvik_type_atom_name :: "dalvik_typecode \<Rightarrow> cstr" where
  "dalvik_type_atom_name DALVIK_TYPECODE_VOID = ''void''"
| "dalvik_type_atom_name DALVIK_TYPECODE_INT = ''int''"
| "dalvik_type_atom_name DALVIK_TYPECODE_LONG = ''long''"
| "dalvik_type_atom_name DALVIK_TYPECODE_SHORT = ''short''"
| "dalvik_type_atom_name DALVIK_TYPECODE_WIDE = ''wide''"
| "dalvik_type_atom_name DALVIK_TYPECODE_FLOAT = ''float''"
| "dalvik_type_atom_name DALVIK_TYPECODE_DOUBLE = ''double''"
| "dalvik_type_atom_name DALVIK_TYPECODE_CHAR = ''char''"
| "dalvik_type_atom_name DALVIK_TYPECODE_BYTE = ''byte''"
| "dalvik_type_atom_name DALVIK_TYPECODE_BOOLEAN = ''boolean''"

subsection \<open>Reading a type\<close>

text \<open>The value stored for an argument of \<^verbatim>\<open>sexp_match\<close>.\<close>

definition out_addr :: "(nat \<times> mval) list \<Rightarrow> nat \<Rightarrow> nat" where
  "out_addr vs n = (case map_of vs n of Some (MAddr k) \<Rightarrow> k | _ \<Rightarrow> 0)"

definition out_sexp :: "(nat \<times> mval) list \<Rightarrow> nat \<Rightarrow> sexp" where
  "out_sexp vs n = (case map_of vs n of Some (MSexp e) \<Rightarrow> e | _ \<Rightarrow> SNil)"

definition type_of_literal :: "nat list \<Rightarrow> nat \<Rightarrow> dalvik_type option" where
  "type_of_literal kw curlit =
     (if curlit = DALVIK_TOKEN_VOID kw then Some (TAtom DALVIK_TYPECODE_VOID)
      else if curlit = DALVIK_TOKEN_INT kw then Some (TAtom DALVIK_TYPECODE_INT)
      else if curlit = DALVIK_TOKEN_WIDE kw then Some (TAtom DALVIK_TYPECODE_WIDE)
      else if curlit = DALVIK_TOKEN_LONG kw then Some (TAtom DALVIK_TYPECODE_LONG)
      else if curlit = DALVIK_TOKEN_SHORT kw then Some (TAtom DALVIK_TYPECODE_SHORT)
      else if curlit = DALVIK_TOKEN_BYTE kw then Some (TAtom DALVIK_TYPECODE_BYTE)
      else if curlit = DALVIK_TOKEN_CHAR kw then Some (TAtom DALVIK_TYPECODE_CHAR)
      else if curlit = DALVIK_TOKEN_BOOLEAN kw then Some (TAtom DALVIK_TYPECODE_BOOLEAN)
      else if curlit = DALVIK_TOKEN_FLOAT kw then Some (TAtom DALVIK_TYPECODE_FLOAT)
      else if curlit = DALVIK_TOKEN_DOUBLE kw then Some (TAtom DALVIK_TYPECODE_DOUBLE)
      else None)"

lemma match_lit: "sexp_match e ''L?'' args = (case e of SLit k \<Rightarrow> (True, [(0, MAddr k)]) | _ \<Rightarrow> (False, []))"
  by (cases e) (simp_all add: sexp_match_def char_at_def sexp_match_one_def expected_type_def store_arg_def)

lemma match_lit_rest:
  "fst (sexp_match e ''(L?A'' args) \<longleftrightarrow> (\<exists>c k rest. e = SCons c (SLit k) rest)"
  "sexp_match (SCons c (SLit k) rest) ''(L?A'' args = (True, [(0, MAddr k), (1, MSexp rest)])"
proof -
  show "fst (sexp_match e ''(L?A'' args) \<longleftrightarrow> (\<exists>c k rest. e = SCons c (SLit k) rest)"
  proof (cases e)
    case (SCons c a b)
    then show ?thesis
      by (cases a) (simp_all add: sexp_match_def char_at_def sexp_match_one_def expected_type_def store_arg_def)
  qed (simp_all add: sexp_match_def char_at_def)
qed (simp add: sexp_match_def char_at_def sexp_match_one_def expected_type_def store_arg_def)

lemma match_any:
  "fst (sexp_match e ''(_?'' args) \<longleftrightarrow> (\<exists>c a. e = SCons c a SNil \<and> a \<noteq> SNil)"
  "a \<noteq> SNil \<Longrightarrow> sexp_match (SCons c a SNil) ''(_?'' args = (True, [(0, MSexp a)])"
proof -
  show "fst (sexp_match e ''(_?'' args) \<longleftrightarrow> (\<exists>c a. e = SCons c a SNil \<and> a \<noteq> SNil)"
  proof (cases e)
    case (SCons c a b)
    then show ?thesis
      by (cases a) (simp_all add: sexp_match_def char_at_def sexp_match_one_def expected_type_def store_arg_def)
  qed (simp_all add: sexp_match_def char_at_def)
  show "a \<noteq> SNil \<Longrightarrow> sexp_match (SCons c a SNil) ''(_?'' args = (True, [(0, MSexp a)])"
    by (cases a) (simp_all add: sexp_match_def char_at_def sexp_match_one_def expected_type_def store_arg_def)
qed

text \<open>\<^const>\<open>None\<close> when the class path leaves its buffer; \<open>Some (None, _)\<close> is a null result.\<close>

function dalvik_type_from_sexp :: "nat list \<Rightarrow> sexp \<Rightarrow> pool \<Rightarrow> (dalvik_type option \<times> pool) option" where
  "dalvik_type_from_sexp kw e p =
     (if fst (sexp_match e ''L?'' [0])
      then Some (type_of_literal kw (out_addr (snd (sexp_match e ''L?'' [0])) 0), p)
      else if fst (sexp_match e ''(L?A'' [0, 0])
      then let vs = snd (sexp_match e ''(L?A'' [0, 0]); curlit = out_addr vs 0; e' = out_sexp vs 1
           in if curlit = DALVIK_TOKEN_OBJECT kw
              then (case sexp_get_object_path e' p of
                      None \<Rightarrow> None
                    | Some (Inl _) \<Rightarrow> Some (None, p)
                    | Some (Inr (path, rest, p)) \<Rightarrow> Some (Some (TObject path), p))
              else if curlit = DALVIK_TOKEN_ARRAY kw
              then if \<not> fst (sexp_match e' ''(_?'' [0]) then Some (None, p)
                   else (case dalvik_type_from_sexp kw (out_sexp (snd (sexp_match e' ''(_?'' [0])) 0) p of
                           None \<Rightarrow> None
                         | Some (None, p) \<Rightarrow> Some (None, p)
                         | Some (Some t, p) \<Rightarrow> Some (Some (TArray t), p))
              else Some (None, p)
      else Some (None, p))"
  by pat_completeness auto
termination
proof (relation "measure (\<lambda>(kw, e, p). size e)", goal_cases)
  case (2 kw e p vs curlit e')
  obtain c k rest where e: "e = SCons c (SLit k) rest" using 2(2) match_lit_rest(1) by blast
  then have rest: "e' = rest" using 2(3,5) by (simp add: match_lit_rest out_sexp_def)
  obtain c' a where "e' = SCons c' a SNil" "a \<noteq> SNil" using 2(8) match_any(1) by auto
  then show ?case using e rest by (simp add: match_any out_sexp_def)
qed simp

declare dalvik_type_from_sexp.simps [simp del]

subsection \<open>Operations on types\<close>

text \<open>A comparison of atomic descriptors compares addresses of singletons.\<close>

fun type_equal :: "dalvik_type \<Rightarrow> dalvik_type \<Rightarrow> bool" where
  "type_equal (TAtom c) r = (r = TAtom c)"
| "type_equal (TArray l) r = (case r of TArray r \<Rightarrow> type_equal l r | _ \<Rightarrow> False)"
| "type_equal (TObject k) r = (case r of TObject k' \<Rightarrow> k = k' | _ \<Rightarrow> False)"

definition dalvik_type_equal :: "dalvik_type option \<Rightarrow> dalvik_type option \<Rightarrow> bool" where
  "dalvik_type_equal l r = (case (l, r) of (Some l, Some r) \<Rightarrow> type_equal l r | _ \<Rightarrow> l = None \<and> r = None)"

text \<open>The hash code of a path is computed at 64 bits before it is truncated.\<close>

fun type_hash :: "atom_table \<Rightarrow> dalvik_type \<Rightarrow> u32" where
  "type_hash atoms (TAtom c) = of_nat (atoms c) * MH_MULTIPLY"
| "type_hash atoms (TArray t) = (type_hash atoms t * MH_MULTIPLY) XOR 0x375cf68c"
| "type_hash atoms (TObject k) = ucast (((of_nat k :: u64) XOR 0x5fc7f961) * MH_MULTIPLY)"

definition dalvik_type_hashcode :: "atom_table \<Rightarrow> dalvik_type option \<Rightarrow> u32" where
  "dalvik_type_hashcode atoms t = (case t of None \<Rightarrow> 0xe7c54276 | Some t \<Rightarrow> type_hash atoms t)"

definition dalvik_type_list_hashcode :: "atom_table \<Rightarrow> dalvik_type list option \<Rightarrow> u32" where
  "dalvik_type_list_hashcode atoms ts =
     (case ts of
        None \<Rightarrow> 0x7c5b32f7
      | Some ts \<Rightarrow> fold (\<lambda>t h. (h XOR dalvik_type_hashcode atoms (Some t)) * MH_MULTIPLY) ts 0)"

text \<open>The loop runs while both lists have an element; afterwards both must be at their end.\<close>

fun type_list_equal :: "dalvik_type list \<Rightarrow> dalvik_type list \<Rightarrow> bool" where
  "type_list_equal (l # ls) (r # rs) = (if dalvik_type_equal (Some l) (Some r) then type_list_equal ls rs else False)"
| "type_list_equal ls rs = (ls = [] \<and> rs = [])"

definition dalvik_type_list_equal :: "dalvik_type list option \<Rightarrow> dalvik_type list option \<Rightarrow> bool" where
  "dalvik_type_list_equal l r = (case (l, r) of (Some l, Some r) \<Rightarrow> type_list_equal l r | _ \<Rightarrow> l = None \<and> r = None)"

fun dalvik_type_clone :: "dalvik_type \<Rightarrow> dalvik_type" where
  "dalvik_type_clone (TAtom c) = TAtom c"
| "dalvik_type_clone (TObject k) = TObject k"
| "dalvik_type_clone (TArray t) = TArray (dalvik_type_clone t)"

text \<open>The loop of the list clone runs from the last element to the first.\<close>

fun clone_loop :: "dalvik_type list \<Rightarrow> nat \<Rightarrow> dalvik_type list \<Rightarrow> dalvik_type list" where
  "clone_loop ts 0 acc = acc"
| "clone_loop ts (Suc i) acc = clone_loop ts i (dalvik_type_clone (ts ! i) # acc)"

definition dalvik_type_list_clone :: "dalvik_type list option \<Rightarrow> dalvik_type list option" where
  "dalvik_type_list_clone ts = map_option (\<lambda>ts. clone_loop ts (length ts) []) ts"

text \<open>The descriptor as text, with an ample buffer.\<close>

fun type_text :: "(nat \<Rightarrow> cstr) \<Rightarrow> dalvik_type \<Rightarrow> cstr" where
  "type_text str (TAtom c) = dalvik_type_atom_name c"
| "type_text str (TObject k) = ''[object '' @ str k @ '']''"
| "type_text str (TArray t) = ''[array '' @ type_text str t @ '']''"

subsection \<open>Attributes\<close>

definition attr_flag :: "nat list \<Rightarrow> nat \<Rightarrow> u32" where
  "attr_flag kw this_attr =
     (if this_attr = DALVIK_TOKEN_ABSTRACT kw then 0x1
      else if this_attr = DALVIK_TOKEN_ANNOTATION kw then 0x2
      else if this_attr = DALVIK_TOKEN_FINAL kw then 0x4
      else if this_attr = DALVIK_TOKEN_PRIVATE kw then 0x8
      else if this_attr = DALVIK_TOKEN_PROTECTED kw then 0x10
      else if this_attr = DALVIK_TOKEN_PUBLIC kw then 0x20
      else if this_attr = DALVIK_TOKEN_SYNCHRNIZED kw then 0x80
      else if this_attr = DALVIK_TOKEN_STATIC kw then 0x40
      else if this_attr = DALVIK_TOKEN_TRANSIENT kw then 0x100
      else if this_attr = DALVIK_TOKEN_VOLATILE kw then 0x200
      else if this_attr = DALVIK_TOKEN_NATIVE kw then 0x400
      else 0)"

function attrs_loop :: "nat list \<Rightarrow> sexp \<Rightarrow> u32 \<Rightarrow> int" where
  "attrs_loop kw e flags =
     (if e = SNil then sint flags
      else if \<not> fst (sexp_match e ''(L?A'' [0, 0]) then -1
      else let vs = snd (sexp_match e ''(L?A'' [0, 0])
           in attrs_loop kw (out_sexp vs 1) (flags OR attr_flag kw (out_addr vs 0)))"
  by pat_completeness auto
termination
proof (relation "measure (\<lambda>(kw, e, flags). size e)", goal_cases)
  case (2 kw e flags vs)
  obtain c k rest where e: "e = SCons c (SLit k) rest" using 2(2) match_lit_rest(1) by blast
  then show ?case using 2(3) by (simp add: match_lit_rest out_sexp_def)
qed simp

declare attrs_loop.simps [simp del]

definition dalvik_attrs_from_sexp :: "nat list \<Rightarrow> sexp \<Rightarrow> int" where
  "dalvik_attrs_from_sexp kw e =
     (if \<not> fst (sexp_match e ''(L=A'' [DALVIK_TOKEN_ATTRS kw, 0]) then -1
      else attrs_loop kw (out_sexp (snd (sexp_match e ''(L=A'' [DALVIK_TOKEN_ATTRS kw, 0])) 1) 0)"

subsection \<open>Comparison, hash code and copy\<close>

lemma type_equal_iff: "type_equal l r \<longleftrightarrow> l = r"
  by (induction l arbitrary: r) (auto split: dalvik_type.splits)

lemma dalvik_type_equal_iff: "dalvik_type_equal l r \<longleftrightarrow> l = r"
  by (auto simp: dalvik_type_equal_def type_equal_iff split: option.splits)

lemma type_list_equal_iff: "type_list_equal ls rs \<longleftrightarrow> ls = rs"
  by (induction ls rs rule: type_list_equal.induct) (auto simp: dalvik_type_equal_iff)

lemma dalvik_type_list_equal_iff: "dalvik_type_list_equal l r \<longleftrightarrow> l = r"
  by (auto simp: dalvik_type_list_equal_def type_list_equal_iff split: option.splits)

lemma type_clone_id: "dalvik_type_clone t = t"
  by (induction t) auto

lemma clone_loop_id: "n \<le> length ts \<Longrightarrow> clone_loop ts n acc = take n ts @ acc"
  by (induction n arbitrary: acc) (simp_all add: type_clone_id take_Suc_conv_app_nth)

text \<open>
  Comparison of types and of type lists, which stops at the first null descriptor of either
  list, decides equality; so types that compare equal have equal hash codes. A copy, which is built
  from the last element to the first, compares equal to its original.
\<close>

theorem dalvik_type_comparison_exact:
  "(dalvik_type_equal l r \<longleftrightarrow> l = r) \<and> (dalvik_type_list_equal ls rs \<longleftrightarrow> ls = rs) \<and>
   dalvik_type_equal l (map_option dalvik_type_clone l) \<and> dalvik_type_list_equal ls (dalvik_type_list_clone ls)"
proof -
  have "map_option dalvik_type_clone l = l" by (cases l) (simp_all add: type_clone_id)
  moreover have "dalvik_type_list_clone ls = ls"
    by (cases ls) (simp_all add: dalvik_type_list_clone_def clone_loop_id)
  ultimately show ?thesis by (simp add: dalvik_type_equal_iff dalvik_type_list_equal_iff)
qed

subsection \<open>The reader of types\<close>

text \<open>
  A type as it is written: an atom, a class by the names of its path (as addresses of their words), or
  an array; its expression; and when a descriptor is that type.
\<close>

datatype type_src = SrcAtom dalvik_typecode | SrcObject "nat list" nat | SrcArray type_src

fun atom_token :: "dalvik_typecode \<Rightarrow> nat" where
  "atom_token DALVIK_TYPECODE_VOID = 15"
| "atom_token DALVIK_TYPECODE_INT = 67"
| "atom_token DALVIK_TYPECODE_LONG = 37"
| "atom_token DALVIK_TYPECODE_SHORT = 54"
| "atom_token DALVIK_TYPECODE_WIDE = 11"
| "atom_token DALVIK_TYPECODE_FLOAT = 35"
| "atom_token DALVIK_TYPECODE_DOUBLE = 36"
| "atom_token DALVIK_TYPECODE_CHAR = 53"
| "atom_token DALVIK_TYPECODE_BYTE = 52"
| "atom_token DALVIK_TYPECODE_BOOLEAN = 51"

fun src_sexp :: "nat list \<Rightarrow> type_src \<Rightarrow> sexp" where
  "src_sexp kw (SrcAtom c) = SLit (DALVIK_TOKEN_TABLE_ENTITY kw (atom_token c))"
| "src_sexp kw (SrcObject ks k) = SCons CHR '' '' (SLit (DALVIK_TOKEN_OBJECT kw)) (path_sexp ks k CHR '']'' SNil)"
| "src_sexp kw (SrcArray s) =
     SCons CHR '' '' (SLit (DALVIK_TOKEN_ARRAY kw)) (SCons CHR '']'' (src_sexp kw s) SNil)"

definition path_of :: "(nat \<rightharpoonup> cstr) \<Rightarrow> nat list \<Rightarrow> nat \<Rightarrow> cstr" where
  "path_of mem ks k = slashed (map (the \<circ> mem) ks) @ the (mem k)"

fun wf_src :: "(nat \<rightharpoonup> cstr) \<Rightarrow> type_src \<Rightarrow> bool" where
  "wf_src mem (SrcAtom c) = True"
| "wf_src mem (SrcObject ks k) = (set (k # ks) \<subseteq> dom mem \<and> length (path_of mem ks k) < 4096)"
| "wf_src mem (SrcArray s) = wf_src mem s"

fun is_type :: "(nat \<rightharpoonup> cstr) \<Rightarrow> (nat \<rightharpoonup> cstr) \<Rightarrow> type_src \<Rightarrow> dalvik_type \<Rightarrow> bool" where
  "is_type mem mem' (SrcAtom c) t = (t = TAtom c)"
| "is_type mem mem' (SrcObject ks k) t = (case t of TObject a \<Rightarrow> mem' a = Some (path_of mem ks k) | _ \<Rightarrow> False)"
| "is_type mem mem' (SrcArray s) t = (case t of TArray t \<Rightarrow> is_type mem mem' s t | _ \<Rightarrow> False)"

lemma type_of_literal_atom:
  assumes "tokens_ok kw p"
  shows "type_of_literal kw (DALVIK_TOKEN_TABLE_ENTITY kw (atom_token c)) = Some (TAtom c)"
  using token_eq_iff [OF assms] by (cases c) (simp_all add: type_of_literal_def)

lemma src_sexp_not_nil: "src_sexp kw s \<noteq> SNil"
  by (cases s) simp_all

lemma object_path_of:
  assumes "pool_inv p" "set (k # ks) \<subseteq> dom (pool_mem p)" "length (path_of (pool_mem p) ks k) < 4096"
  shows "\<exists>a p'. sexp_get_object_path (path_sexp ks k CHR '']'' SNil) p = Some (Inr (a, SNil, p')) \<and>
    pool_inv p' \<and> pool_mem p' a = Some (path_of (pool_mem p) ks k) \<and>
    (\<forall>j w. pool_mem p j = Some w \<longrightarrow> pool_mem p' j = Some w)"
proof -
  let ?ws = "map (the \<circ> pool_mem p) ks" and ?w = "the (pool_mem p k)"
  have names: "list_all2 (\<lambda>k w. pool_mem p k = Some w) ks ?ws" "pool_mem p k = Some ?w"
    using assms(2) by (auto simp: list_all2_conv_all_nth subset_iff domIff)
  obtain a p' where q: "stringpool_query (path_of (pool_mem p) ks k) p = (a, p')" by fastforce
  have "NUL \<notin> set (path_of (pool_mem p) ks k)"
    using nul_free_path [OF assms(1) names(1)] pool_inv_mem [OF assms(1) names(2)] by (simp add: path_of_def)
  note law = stringpool_query_law [OF assms(1) this q]
  have "length (slashed (?ws @ [?w])) \<le> SEXP_BUFSIZE"
    using assms(3) by (simp add: path_of_def slashed_def SEXP_BUFSIZE_def)
  then have "path_loop (pool_mem p) (path_sexp ks k CHR '']'' SNil) [] 0 =
      Some (Inr (slashed (?ws @ [?w]), length (slashed ?ws), SNil))"
    using path_loop_correct [OF names, of "CHR '']''" SNil "[]" 0] by simp
  then show ?thesis using law q slashed_snoc [of "[]" ?ws ?w] path_sexp_not_nil [of ks k "CHR '']''" SNil]
    by (simp add: sexp_get_object_path_def path_of_def)
qed

lemma from_sexp_list:
  "dalvik_type_from_sexp kw (SCons c (SLit (DALVIK_TOKEN_TABLE_ENTITY kw i)) rest) p =
     (if DALVIK_TOKEN_TABLE_ENTITY kw i = DALVIK_TOKEN_OBJECT kw
      then (case sexp_get_object_path rest p of
              None \<Rightarrow> None
            | Some (Inl _) \<Rightarrow> Some (None, p)
            | Some (Inr (path, rest, p)) \<Rightarrow> Some (Some (TObject path), p))
      else if DALVIK_TOKEN_TABLE_ENTITY kw i = DALVIK_TOKEN_ARRAY kw
      then if \<not> fst (sexp_match rest ''(_?'' [0]) then Some (None, p)
           else (case dalvik_type_from_sexp kw (out_sexp (snd (sexp_match rest ''(_?'' [0])) 0) p of
                   None \<Rightarrow> None
                 | Some (None, p) \<Rightarrow> Some (None, p)
                 | Some (Some t, p) \<Rightarrow> Some (Some (TArray t), p))
      else Some (None, p))"
  by (subst dalvik_type_from_sexp.simps)
    (simp add: match_lit match_lit_rest out_addr_def out_sexp_def Let_def)

lemma from_sexp_src:
  assumes "tokens_ok kw p" "wf_src (pool_mem p) s"
  shows "\<exists>t p'. dalvik_type_from_sexp kw (src_sexp kw s) p = Some (Some t, p') \<and>
    is_type (pool_mem p) (pool_mem p') s t \<and> tokens_ok kw p' \<and>
    (\<forall>j w. pool_mem p j = Some w \<longrightarrow> pool_mem p' j = Some w)"
  using assms
proof (induction s)
  case (SrcAtom c)
  have "dalvik_type_from_sexp kw (src_sexp kw (SrcAtom c)) p = Some (Some (TAtom c), p)"
    using type_of_literal_atom [OF SrcAtom.prems(1)]
    by (subst dalvik_type_from_sexp.simps) (simp add: match_lit out_addr_def)
  then show ?case using SrcAtom.prems by simp
next
  case (SrcObject ks k)
  have inv: "pool_inv p" using SrcObject.prems by (simp add: tokens_ok_def)
  have "set (k # ks) \<subseteq> dom (pool_mem p)" "length (path_of (pool_mem p) ks k) < 4096"
    using SrcObject.prems(2) by auto
  from object_path_of [OF inv this] obtain a p' where
    a: "sexp_get_object_path (path_sexp ks k CHR '']'' SNil) p = Some (Inr (a, SNil, p'))" "pool_inv p'"
    "pool_mem p' a = Some (path_of (pool_mem p) ks k)" "\<forall>j w. pool_mem p j = Some w \<longrightarrow> pool_mem p' j = Some w"
    by blast
  have "dalvik_type_from_sexp kw (src_sexp kw (SrcObject ks k)) p = Some (Some (TObject a), p')"
    using a(1) by (simp add: from_sexp_list)
  then show ?case using a tokens_ok_mono [OF SrcObject.prems(1) a(2,4)] by simp
next
  case (SrcArray s)
  then obtain t p' where t: "dalvik_type_from_sexp kw (src_sexp kw s) p = Some (Some t, p')"
    "is_type (pool_mem p) (pool_mem p') s t" "tokens_ok kw p'"
    "\<forall>j w. pool_mem p j = Some w \<longrightarrow> pool_mem p' j = Some w" by auto
  have "dalvik_type_from_sexp kw (src_sexp kw (SrcArray s)) p = Some (Some (TArray t), p')"
    using t(1) token_eq_iff [OF SrcArray.prems(1), of 6 12]
    by (simp add: from_sexp_list match_any src_sexp_not_nil out_sexp_def)
  then show ?case using t by simp
qed

text \<open>
  The expressions that denote a type: an atom, a class with at least one name, or an array with exactly
  one element type. What stands behind the path of a class is not looked at.
\<close>

fun path_expr :: "sexp \<Rightarrow> bool" where
  "path_expr (SCons c (SLit k) b) = (c \<noteq> CHR ''/'' \<or> b = SNil \<or> path_expr b)"
| "path_expr e = False"

fun type_expr :: "nat list \<Rightarrow> sexp \<Rightarrow> bool" where
  "type_expr kw (SLit k) = (\<exists>c. k = DALVIK_TOKEN_TABLE_ENTITY kw (atom_token c))"
| "type_expr kw (SCons c (SLit k) rest) =
     (if k = DALVIK_TOKEN_OBJECT kw then path_expr rest
      else k = DALVIK_TOKEN_ARRAY kw \<and> (case rest of SCons d a SNil \<Rightarrow> a \<noteq> SNil \<and> type_expr kw a | _ \<Rightarrow> False))"
| "type_expr kw e = False"

text \<open>The words of an expression are in the pool and fit into the buffer for class paths together.\<close>

fun words_size :: "(nat \<rightharpoonup> cstr) \<Rightarrow> sexp \<Rightarrow> nat" where
  "words_size mem (SLit k) = Suc (length (the (mem k)))"
| "words_size mem (SCons c a b) = words_size mem a + words_size mem b"
| "words_size mem e = 0"

fun words_known :: "(nat \<rightharpoonup> cstr) \<Rightarrow> sexp \<Rightarrow> bool" where
  "words_known mem (SLit k) = (k \<in> dom mem)"
| "words_known mem (SCons c a b) = (words_known mem a \<and> words_known mem b)"
| "words_known mem e = True"

lemma path_loop_defined:
  "words_known mem e \<Longrightarrow> length buf + words_size mem e \<le> SEXP_BUFSIZE \<Longrightarrow> e \<noteq> SNil \<Longrightarrow>
     \<exists>r. path_loop mem e buf lastp = Some r \<and> ((\<exists>x. r = Inr x) \<longleftrightarrow> path_expr e)"
proof (induction mem e buf lastp rule: path_loop.induct)
  case (2 mem c a b buf lastp)
  show ?case
  proof (cases a)
    case (SLit k)
    then obtain w where w: "mem k = Some w" using "2.prems"(1) by auto
    show ?thesis
    proof (cases "c = CHR ''/'' \<and> b \<noteq> SNil")
      case True
      then show ?thesis using "2.IH" [OF SLit w refl refl] "2.prems" SLit w by (simp add: Let_def)
    next
      case False
      then show ?thesis using "2.prems" SLit w by (cases "c = CHR ''/''") (auto simp: Let_def)
    qed
  qed simp_all
qed simp_all

lemma type_of_literal_iff:
  assumes "tokens_ok kw p"
  shows "(\<exists>c. type_of_literal kw k = Some (TAtom c) \<and> k = DALVIK_TOKEN_TABLE_ENTITY kw (atom_token c)) \<or>
    type_of_literal kw k = None \<and> (\<forall>c. k \<noteq> DALVIK_TOKEN_TABLE_ENTITY kw (atom_token c))"
proof (cases "\<exists>c. k = DALVIK_TOKEN_TABLE_ENTITY kw (atom_token c)")
  case True
  then show ?thesis using type_of_literal_atom [OF assms] by blast
next
  case False
  then have "k \<noteq> DALVIK_TOKEN_TABLE_ENTITY kw (atom_token c)" for c by blast
  from this [of DALVIK_TYPECODE_VOID] this [of DALVIK_TYPECODE_INT] this [of DALVIK_TYPECODE_LONG] this [of DALVIK_TYPECODE_SHORT]
    this [of DALVIK_TYPECODE_WIDE] this [of DALVIK_TYPECODE_FLOAT] this [of DALVIK_TYPECODE_DOUBLE] this [of DALVIK_TYPECODE_CHAR]
    this [of DALVIK_TYPECODE_BYTE] this [of DALVIK_TYPECODE_BOOLEAN]
  have "type_of_literal kw k = None" by (simp add: type_of_literal_def)
  then show ?thesis using False by blast
qed

lemma from_sexp_total:
  assumes "tokens_ok kw p"
  shows "words_known (pool_mem p) e \<Longrightarrow> words_size (pool_mem p) e \<le> SEXP_BUFSIZE \<Longrightarrow>
    (if type_expr kw e then \<exists>t p'. dalvik_type_from_sexp kw e p = Some (Some t, p') else dalvik_type_from_sexp kw e p = Some (None, p))"
proof (induction e rule: measure_induct_rule [of size])
  case (less e)
  have other: "dalvik_type_from_sexp kw e p = Some (None, p)" if "\<nexists>k. e = SLit k" "\<nexists>c k rest. e = SCons c (SLit k) rest"
    using that by (subst dalvik_type_from_sexp.simps) (cases e; simp add: match_lit match_lit_rest(1))
  show ?case
  proof (cases e)
    case (SLit k)
    then show ?thesis using type_of_literal_iff [OF assms, of k]
      by (subst (1 2) dalvik_type_from_sexp.simps) (auto simp: match_lit out_addr_def)
  next
    case (SCons c a rest)
    show ?thesis
    proof (cases a)
      case k: (SLit k)
      have fit: "words_known (pool_mem p) rest" "words_size (pool_mem p) rest \<le> SEXP_BUFSIZE"
        using less.prems SCons k by auto
      have eq: "dalvik_type_from_sexp kw e p =
         (if k = DALVIK_TOKEN_OBJECT kw
          then (case sexp_get_object_path rest p of
                  None \<Rightarrow> None | Some (Inl _) \<Rightarrow> Some (None, p) | Some (Inr (path, rest, p)) \<Rightarrow> Some (Some (TObject path), p))
          else if k = DALVIK_TOKEN_ARRAY kw
          then if \<not> fst (sexp_match rest ''(_?'' [0]) then Some (None, p)
               else (case dalvik_type_from_sexp kw (out_sexp (snd (sexp_match rest ''(_?'' [0])) 0) p of
                       None \<Rightarrow> None | Some (None, p) \<Rightarrow> Some (None, p) | Some (Some t, p) \<Rightarrow> Some (Some (TArray t), p))
          else Some (None, p))"
        unfolding SCons k by (subst dalvik_type_from_sexp.simps) (simp add: match_lit match_lit_rest out_addr_def out_sexp_def Let_def)
      show ?thesis
      proof (cases "k = DALVIK_TOKEN_OBJECT kw")
        case True
        show ?thesis
        proof (cases "rest = SNil")
          case False
          then obtain r where "path_loop (pool_mem p) rest [] 0 = Some r" "(\<exists>x. r = Inr x) \<longleftrightarrow> path_expr rest"
            using path_loop_defined [OF fit(1), of "[]" 0] fit(2) by auto
          then show ?thesis unfolding eq using True SCons k False
            by (cases r) (auto simp: sexp_get_object_path_def split: prod.splits)
        qed (use eq True SCons k in \<open>simp add: sexp_get_object_path_def\<close>)
      next
        case obj: False
        show ?thesis
        proof (cases "k = DALVIK_TOKEN_ARRAY kw \<and> (\<exists>d b. rest = SCons d b SNil \<and> b \<noteq> SNil)")
          case True
          then obtain d b where b: "rest = SCons d b SNil" "b \<noteq> SNil" by blast
          have "if type_expr kw b then \<exists>t p'. dalvik_type_from_sexp kw b p = Some (Some t, p') else dalvik_type_from_sexp kw b p = Some (None, p)"
            by (rule less.IH) (use fit b SCons in simp_all)
          then show ?thesis unfolding eq using obj True b SCons k by (auto simp: match_any out_sexp_def split: if_splits)
        next
          case False
          then show ?thesis unfolding eq using obj SCons k by (auto simp: match_any(1) split: sexp.splits)
        qed
      qed
    qed (use other SCons in simp_all)
  qed (use other in simp_all)
qed

text \<open>
  C40: the expression of any type, atoms, classes and arrays nested to any depth, is read as that type:
  atoms by their keyword, classes with the pooled class path, arrays with the element type. Every expression
  whose words are known and fit into the buffer for class paths has a result: a descriptor when it has the form
  of a type, and otherwise null, with the pool as it was.
\<close>

theorem dalvik_type_from_sexp_correct:
  assumes "tokens_ok kw p"
  shows "(wf_src (pool_mem p) s \<longrightarrow>
      (\<exists>t p'. dalvik_type_from_sexp kw (src_sexp kw s) p = Some (Some t, p') \<and> is_type (pool_mem p) (pool_mem p') s t)) \<and>
    (words_known (pool_mem p) e \<and> words_size (pool_mem p) e \<le> SEXP_BUFSIZE \<longrightarrow>
      (if type_expr kw e then \<exists>t p'. dalvik_type_from_sexp kw e p = Some (Some t, p') else dalvik_type_from_sexp kw e p = Some (None, p)))"
  using from_sexp_src [OF assms] from_sexp_total [OF assms] by blast

theorem dalvik_type_from_sexp_correct_witness:
  "\<exists>kw p t p'. dalvik_tokens_init (the (snd (stringpool_init 10 None))) = (kw, p) \<and>
    dalvik_type_from_sexp kw (src_sexp kw (SrcArray (SrcArray (SrcAtom DALVIK_TYPECODE_INT)))) p = Some (Some t, p') \<and>
    t = TArray (TArray (TAtom DALVIK_TYPECODE_INT)) \<and>
    dalvik_type_from_sexp kw (SCons CHR '' '' (SLit (DALVIK_TOKEN_ARRAY kw)) SNil) p = Some (None, p)"
proof -
  obtain kw p where i: "dalvik_tokens_init (the (snd (stringpool_init 10 None))) = (kw, p)" by fastforce
  have "wf_src (pool_mem p) (SrcArray (SrcArray (SrcAtom DALVIK_TYPECODE_INT)))" by simp
  with conjunct1 [OF dalvik_type_from_sexp_correct [OF tokens_init_ok [OF pool_inv_init i], of "SrcArray (SrcArray (SrcAtom DALVIK_TYPECODE_INT))" SNil]]
  obtain t p' where t: "dalvik_type_from_sexp kw (src_sexp kw (SrcArray (SrcArray (SrcAtom DALVIK_TYPECODE_INT)))) p = Some (Some t, p')"
    "is_type (pool_mem p) (pool_mem p') (SrcArray (SrcArray (SrcAtom DALVIK_TYPECODE_INT))) t" by blast
  from t(2) have "t = TArray (TArray (TAtom DALVIK_TYPECODE_INT))" by (auto split: dalvik_type.splits)
  moreover have "dalvik_type_from_sexp kw (SCons CHR '' '' (SLit (DALVIK_TOKEN_ARRAY kw)) SNil) p = Some (None, p)"
  proof -
    let ?e = "SCons CHR '' '' (SLit (DALVIK_TOKEN_ARRAY kw)) SNil"
    have ok: "tokens_ok kw p" by (rule tokens_init_ok [OF pool_inv_init i])
    have "words_known (pool_mem p) ?e \<and> words_size (pool_mem p) ?e \<le> SEXP_BUFSIZE"
      using token_mem [OF ok, of 6] by (auto simp: dalvik_token_defs_def SEXP_BUFSIZE_def)
    moreover have "\<not> type_expr kw ?e" using token_eq_iff [OF ok, of 6 12] by simp
    ultimately show ?thesis using conjunct2 [OF dalvik_type_from_sexp_correct [OF ok, of _ ?e]] by simp
  qed
  ultimately show ?thesis using t(1) i by blast
qed

subsection \<open>The reader of attributes\<close>

definition small_flags :: "u32 \<Rightarrow> bool" where
  "small_flags f \<longleftrightarrow> take_bit 11 f = f"

lemma attr_flag_small: "small_flags (attr_flag kw k)"
  by (simp add: attr_flag_def small_flags_def)

lemma small_flags_or: "small_flags a \<Longrightarrow> small_flags b \<Longrightarrow> small_flags (a OR b)"
  by (simp add: small_flags_def take_bit_or)

lemma small_flags_fold: "small_flags f \<Longrightarrow> small_flags (fold (\<lambda>k f. f OR attr_flag kw k) ks f)"
  by (induction ks arbitrary: f) (simp_all add: small_flags_or attr_flag_small)

lemma small_flags_sint: "small_flags a \<Longrightarrow> sint a = uint a \<and> uint a \<le> 0x7ff"
proof -
  assume "small_flags a"
  then have "uint a = take_bit 11 (uint a)" unfolding small_flags_def by (metis unsigned_take_bit_eq)
  then have "uint a < 2 ^ 11" by (metis take_bit_int_less_exp)
  moreover have "- (2 ^ 31) \<le> uint a" by (rule order_trans [OF _ unsigned_greater_eq]) simp
  ultimately show ?thesis by (simp add: sint_uint signed_take_bit_int_eq_self)
qed

lemma attrs_loop_list:
  "small_flags flags \<Longrightarrow>
   attrs_loop kw (mk_list (map (\<lambda>k. (CHR '' '', SLit k)) ks)) flags =
     uint (fold (\<lambda>k f. f OR attr_flag kw k) ks flags)"
proof (induction ks arbitrary: flags)
  case Nil
  then show ?case using small_flags_sint by (subst attrs_loop.simps) simp
next
  case (Cons k ks)
  then show ?case using small_flags_or [OF _ attr_flag_small]
    by (subst attrs_loop.simps) (simp add: match_lit_rest out_addr_def out_sexp_def)
qed

text \<open>
  A list of attributes is read as the disjunction of the flags of its members, in any order; the
  result is never negative and at most 0x7ff, so that it is told apart from the error \<open>-1\<close>. Unknown
  attributes count for nothing.
\<close>

theorem dalvik_attrs_from_sexp_correct:
  "dalvik_attrs_from_sexp kw (SCons c (SLit (DALVIK_TOKEN_ATTRS kw)) (mk_list (map (\<lambda>k. (CHR '' '', SLit k)) ks))) =
     uint (fold (\<lambda>k f. f OR attr_flag kw k) ks 0) \<and>
   uint (fold (\<lambda>k f. f OR attr_flag kw k) ks 0) \<le> 0x7ff"
proof -
  have zero: "small_flags 0" by (simp add: small_flags_def)
  have "uint (fold (\<lambda>k f. f OR attr_flag kw k) ks 0) \<le> 0x7ff"
    using small_flags_sint [OF small_flags_fold [OF zero]] by blast
  moreover have "sexp_match (SCons c (SLit (DALVIK_TOKEN_ATTRS kw)) e) ''(L=A'' [DALVIK_TOKEN_ATTRS kw, 0] =
      (True, [(1, MSexp e)])" for e
    by (simp add: sexp_match_def char_at_def sexp_match_one_def expected_type_def store_arg_def)
  ultimately show ?thesis by (simp add: dalvik_attrs_from_sexp_def out_sexp_def attrs_loop_list zero)
qed

end
