(* ===== verification/Dalvik_Memberdict.thy ===== *)
theory Dalvik_Memberdict
  imports Dalvik_Type
begin

text \<open>
  The member dictionary (\<^verbatim>\<open>src/dalvik/dalvik_memberdict.c\<close>): classes, fields and methods by class
  path, member name, argument types and return type. Paths and names are addresses of pooled
  strings. A registered object is a value of an arbitrary type here, since the dictionary only
  passes its address on.
\<close>

subsection \<open>Data\<close>

definition DALVIK_MEMBERDICT_SIZE :: nat where "DALVIK_MEMBERDICT_SIZE = 100007"

datatype member_kind = TYPE_METHOD | TYPE_FIELD | TYPE_CLASS

record 'o memberdict_node =
  md_class_path :: nat
  md_member_name :: "nat option"
  md_args :: "dalvik_type list option"
  md_rtype :: "dalvik_type option"
  md_type :: member_kind
  md_object :: 'o

type_synonym 'o memberdict = "'o memberdict_node htab"

subsection \<open>Operations\<close>

definition dalvik_memberdict_init :: "'o memberdict \<Rightarrow> int \<times> 'o memberdict" where
  "dalvik_memberdict_init tab = (0, chain_empty)"

fun member_typeid :: "member_kind \<Rightarrow> u32" where
  "member_typeid TYPE_METHOD = 0xe3def"
| "member_typeid TYPE_FIELD = 0x12fcde"
| "member_typeid TYPE_CLASS = 0x2323fe"

definition dalvik_memberdict_hash ::
  "atom_table \<Rightarrow> nat \<Rightarrow> nat option \<Rightarrow> dalvik_type list option \<Rightarrow> dalvik_type option \<Rightarrow> member_kind \<Rightarrow> u32" where
  "dalvik_memberdict_hash atoms class_path member_name args rtype ty =
     (let a = of_nat class_path;
          b = (case member_name of None \<Rightarrow> 0 | Some k \<Rightarrow> of_nat k);
          c = dalvik_type_list_hashcode atoms args;
          d = dalvik_type_hashcode atoms rtype
      in (a * a * 100003 * MH_MULTIPLY + b * MH_MULTIPLY + c + d * d * d) XOR member_typeid ty)"

definition member_slot ::
  "atom_table \<Rightarrow> nat \<Rightarrow> nat option \<Rightarrow> dalvik_type list option \<Rightarrow> dalvik_type option \<Rightarrow> member_kind \<Rightarrow> nat" where
  "member_slot atoms class_path member_name args rtype ty =
     unat (dalvik_memberdict_hash atoms class_path member_name args rtype ty mod of_nat DALVIK_MEMBERDICT_SIZE)"

definition dalvik_memberdict_register_object ::
  "atom_table \<Rightarrow> nat \<Rightarrow> nat option \<Rightarrow> dalvik_type list option \<Rightarrow> dalvik_type option \<Rightarrow> member_kind \<Rightarrow> 'o
     \<Rightarrow> 'o memberdict \<Rightarrow> int \<times> 'o memberdict" where
  "dalvik_memberdict_register_object atoms class_path object_name args rtype ty obj tab =
     (let idx = member_slot atoms class_path object_name args rtype ty
      in if \<exists>n \<in> set (tab idx). md_class_path n = class_path \<and> md_member_name n = object_name \<and>
              dalvik_type_list_equal args (md_args n) \<and> dalvik_type_equal rtype (md_rtype n)
         then (-1, tab)
         else (0, tab(idx := \<lparr>md_class_path = class_path, md_member_name = object_name, md_args = args,
                             md_rtype = rtype, md_type = ty, md_object = obj\<rparr> # tab idx)))"

definition dalvik_memberdict_find_object ::
  "atom_table \<Rightarrow> nat \<Rightarrow> nat option \<Rightarrow> dalvik_type list option \<Rightarrow> dalvik_type option \<Rightarrow> member_kind
     \<Rightarrow> 'o memberdict \<Rightarrow> 'o option" where
  "dalvik_memberdict_find_object atoms path name args rtype ty tab =
     map_option md_object
       (find (\<lambda>n. md_class_path n = path \<and> md_member_name n = name \<and>
                dalvik_type_list_equal (md_args n) args \<and> dalvik_type_equal (md_rtype n) rtype)
          (tab (member_slot atoms path name args rtype ty)))"

text \<open>
  A method is given by its name, its argument types, which are never null, its return type and the
  object; a field by its name and the object. A null object is refused.
\<close>

definition dalvik_memberdict_register_method ::
  "atom_table \<Rightarrow> nat \<Rightarrow> (nat \<times> dalvik_type list \<times> dalvik_type option \<times> 'o) option \<Rightarrow> 'o memberdict \<Rightarrow> int \<times> 'o memberdict" where
  "dalvik_memberdict_register_method atoms class_path method tab =
     (case method of
        None \<Rightarrow> (-1, tab)
      | Some (name, args_type, return_type, obj) \<Rightarrow>
          dalvik_memberdict_register_object atoms class_path (Some name) (Some args_type) return_type TYPE_METHOD obj tab)"

definition dalvik_memberdict_register_field ::
  "atom_table \<Rightarrow> nat \<Rightarrow> (nat \<times> 'o) option \<Rightarrow> 'o memberdict \<Rightarrow> int \<times> 'o memberdict" where
  "dalvik_memberdict_register_field atoms class_path field tab =
     (case field of
        None \<Rightarrow> (-1, tab)
      | Some (name, obj) \<Rightarrow>
          dalvik_memberdict_register_object atoms class_path (Some name) None None TYPE_FIELD obj tab)"

definition dalvik_memberdict_register_class ::
  "atom_table \<Rightarrow> nat \<Rightarrow> 'o option \<Rightarrow> 'o memberdict \<Rightarrow> int \<times> 'o memberdict" where
  "dalvik_memberdict_register_class atoms class_path class tab =
     (case class of
        None \<Rightarrow> (-1, tab)
      | Some obj \<Rightarrow> dalvik_memberdict_register_object atoms class_path None None None TYPE_CLASS obj tab)"

definition dalvik_memberdict_get_method ::
  "atom_table \<Rightarrow> nat \<Rightarrow> nat \<Rightarrow> dalvik_type list \<Rightarrow> dalvik_type option \<Rightarrow> 'o memberdict \<Rightarrow> 'o option" where
  "dalvik_memberdict_get_method atoms class_path name args rtype tab =
     dalvik_memberdict_find_object atoms class_path (Some name) (Some args) rtype TYPE_METHOD tab"

definition dalvik_memberdict_get_field :: "atom_table \<Rightarrow> nat \<Rightarrow> nat \<Rightarrow> 'o memberdict \<Rightarrow> 'o option" where
  "dalvik_memberdict_get_field atoms class_path name tab =
     dalvik_memberdict_find_object atoms class_path (Some name) None None TYPE_FIELD tab"

definition dalvik_memberdict_get_class :: "atom_table \<Rightarrow> nat \<Rightarrow> 'o memberdict \<Rightarrow> 'o option" where
  "dalvik_memberdict_get_class atoms class_path tab =
     dalvik_memberdict_find_object atoms class_path None None None TYPE_CLASS tab"

subsection \<open>Search by prefix\<close>

fun prefix_loop :: "cstr \<Rightarrow> cstr \<Rightarrow> bool" where
  "prefix_loop (c # p) (d # s) = (if c = d then prefix_loop p s else False)"
| "prefix_loop p s = True"

definition dalvik_memberdict_check_prefix :: "cstr option \<Rightarrow> cstr option \<Rightarrow> bool" where
  "dalvik_memberdict_check_prefix p s =
     (case p of
        None \<Rightarrow> s = None
      | Some p \<Rightarrow> (case s of None \<Rightarrow> True | Some s \<Rightarrow> prefix_loop p s))"

text \<open>
  The nodes whose data is written to the result arrays, in order; \<^verbatim>\<open>ret\<close> is their number. The size
  of the arrays is only tested between two slots. \<open>str\<close> reads a pooled string.
\<close>

definition node_has_prefix :: "(nat \<Rightarrow> cstr) \<Rightarrow> cstr option \<Rightarrow> cstr option \<Rightarrow> 'o memberdict_node \<Rightarrow> bool" where
  "node_has_prefix str class_path_prefix member_name_prefix n \<longleftrightarrow>
     dalvik_memberdict_check_prefix class_path_prefix (Some (str (md_class_path n))) \<and>
     dalvik_memberdict_check_prefix member_name_prefix (map_option str (md_member_name n))"

definition dalvik_memberdict_member_match ::
  "(nat \<Rightarrow> cstr) \<Rightarrow> cstr option \<Rightarrow> cstr option \<Rightarrow> nat \<Rightarrow> 'o memberdict \<Rightarrow> 'o memberdict_node list" where
  "dalvik_memberdict_member_match str class_path_prefix member_name_prefix bufsize tab =
     fold (\<lambda>i acc. if length acc < bufsize
                   then acc @ filter (node_has_prefix str class_path_prefix member_name_prefix) (tab i)
                   else acc)
       [0..<DALVIK_MEMBERDICT_SIZE] []"

definition dalvik_memberdict_find_class_by_prefix ::
  "(nat \<Rightarrow> cstr) \<Rightarrow> cstr option \<Rightarrow> nat \<Rightarrow> 'o memberdict \<Rightarrow> 'o memberdict_node list" where
  "dalvik_memberdict_find_class_by_prefix str prefix bufsize tab =
     dalvik_memberdict_member_match str prefix None bufsize tab"

definition dalvik_memberdict_find_member_by_prefix ::
  "(nat \<Rightarrow> cstr) \<Rightarrow> cstr option \<Rightarrow> cstr option \<Rightarrow> nat \<Rightarrow> 'o memberdict \<Rightarrow> 'o memberdict_node list" where
  "dalvik_memberdict_find_member_by_prefix str class_prefix method_prefix bufsize tab =
     dalvik_memberdict_member_match str class_prefix method_prefix bufsize tab"

subsection \<open>Registration and lookup\<close>

type_synonym member_key = "nat \<times> nat option \<times> dalvik_type list option \<times> dalvik_type option \<times> member_kind"

definition md_key :: "'o memberdict_node \<Rightarrow> member_key" where
  "md_key n = (md_class_path n, md_member_name n, md_args n, md_rtype n, md_type n)"

definition key_slot :: "atom_table \<Rightarrow> member_key \<Rightarrow> nat" where
  "key_slot atoms = (\<lambda>(path, name, args, rtype, ty). member_slot atoms path name args rtype ty)"

interpretation member_tab: keyed_table chain_empty "chain_insert (key_slot atoms) md_key"
  "chain_find (key_slot atoms) md_key" md_key for atoms
  by (rule keyed_table_chain)

text \<open>
  The chains are searched without regard to the kind of a member. That the kind follows from which
  parts of the key are null makes up for it.
\<close>

fun kind_ok :: "member_key \<Rightarrow> bool" where
  "kind_ok (path, name, args, rtype, ty) =
     (ty = (if name = None then TYPE_CLASS else if args = None then TYPE_FIELD else TYPE_METHOD))"

definition dict_ok :: "'o memberdict \<Rightarrow> bool" where
  "dict_ok tab \<longleftrightarrow> (\<forall>i. \<forall>n \<in> set (tab i). kind_ok (md_key n))"

lemma dict_ok_init: "dict_ok (snd (dalvik_memberdict_init tab))"
  by (simp add: dict_ok_def dalvik_memberdict_init_def chain_empty_def)

lemma same_member:
  assumes "kind_ok (md_key n)" "kind_ok (path, name, args, rtype, ty)"
  shows "md_key n = (path, name, args, rtype, ty) \<longleftrightarrow>
    md_class_path n = path \<and> md_member_name n = name \<and> md_args n = args \<and> md_rtype n = rtype"
  using assms by (auto simp: md_key_def)

lemma find_cong_set: "(\<And>x. x \<in> set xs \<Longrightarrow> P x \<longleftrightarrow> Q x) \<Longrightarrow> find P xs = find Q xs"
  by (induction xs) auto

lemma member_condition:
  assumes "dict_ok tab" "kind_ok (path, name, args, rtype, ty)" "n \<in> set (tab i)"
  shows "(md_class_path n = path \<and> md_member_name n = name \<and> md_args n = args \<and> md_rtype n = rtype) \<longleftrightarrow>
    md_key n = (path, name, args, rtype, ty)"
  using assms same_member [OF _ assms(2), of n] unfolding dict_ok_def by blast

lemma find_object_chain:
  assumes "dict_ok tab" "kind_ok (path, name, args, rtype, ty)"
  shows "dalvik_memberdict_find_object atoms path name args rtype ty tab =
    map_option md_object (chain_find (key_slot atoms) md_key tab (path, name, args, rtype, ty))"
proof -
  have "find (\<lambda>n. md_class_path n = path \<and> md_member_name n = name \<and>
        dalvik_type_list_equal (md_args n) args \<and> dalvik_type_equal (md_rtype n) rtype) (tab i) =
      find (\<lambda>n. md_key n = (path, name, args, rtype, ty)) (tab i)" for i
    unfolding dalvik_type_list_equal_iff dalvik_type_equal_iff
    by (rule find_cong_set) (rule member_condition [OF assms])
  then show ?thesis by (simp add: dalvik_memberdict_find_object_def chain_find_def key_slot_def)
qed

lemma register_object_chain:
  assumes "dict_ok tab" "kind_ok (path, name, args, rtype, ty)"
  shows "dalvik_memberdict_register_object atoms path name args rtype ty obj tab =
    (if chain_find (key_slot atoms) md_key tab (path, name, args, rtype, ty) \<noteq> None then (-1, tab)
     else (0, chain_insert (key_slot atoms) md_key \<lparr>md_class_path = path, md_member_name = name, md_args = args,
               md_rtype = rtype, md_type = ty, md_object = obj\<rparr> tab))"
proof -
  let ?s = "key_slot atoms (path, name, args, rtype, ty)"
  have "chain_find (key_slot atoms) md_key tab (path, name, args, rtype, ty) \<noteq> None \<longleftrightarrow>
      (\<exists>n \<in> set (tab ?s). md_key n = (path, name, args, rtype, ty))"
    by (auto simp: chain_find_def find_None_iff)
  also have "\<dots> \<longleftrightarrow> (\<exists>n \<in> set (tab ?s). md_class_path n = path \<and> md_member_name n = name \<and>
      dalvik_type_list_equal args (md_args n) \<and> dalvik_type_equal rtype (md_rtype n))"
    unfolding dalvik_type_list_equal_iff dalvik_type_equal_iff
    using member_condition [OF assms] by (intro bex_cong refl) (auto simp: eq_commute)
  finally have found: "chain_find (key_slot atoms) md_key tab (path, name, args, rtype, ty) \<noteq> None \<longleftrightarrow>
      (\<exists>n \<in> set (tab ?s). md_class_path n = path \<and> md_member_name n = name \<and>
      dalvik_type_list_equal args (md_args n) \<and> dalvik_type_equal rtype (md_rtype n))" .
  have slot: "member_slot atoms path name args rtype ty = ?s" by (simp add: key_slot_def)
  show ?thesis
    unfolding dalvik_memberdict_register_object_def Let_def slot found [symmetric] chain_insert_def
    by (simp add: md_key_def)
qed

lemma register_object_ok:
  assumes "dict_ok tab" "kind_ok (path, name, args, rtype, ty)"
    and "dalvik_memberdict_register_object atoms path name args rtype ty obj tab = (rc, tab')"
  shows "dict_ok tab'"
proof -
  have "kind_ok (md_key \<lparr>md_class_path = path, md_member_name = name, md_args = args, md_rtype = rtype,
      md_type = ty, md_object = obj\<rparr>)" using assms(2) by (simp only: md_key_def memberdict_node.simps)
  then have "dict_ok (chain_insert (key_slot atoms) md_key \<lparr>md_class_path = path, md_member_name = name,
      md_args = args, md_rtype = rtype, md_type = ty, md_object = obj\<rparr> tab)"
    using assms(1) by (simp only: dict_ok_def chain_insert_def) (simp split: if_splits)
  then show ?thesis using assms(1,3) register_object_chain [OF assms(1,2), of atoms obj] by (simp split: if_splits)
qed

lemma register_object_twice:
  assumes "dict_ok tab" "kind_ok (path, name, args, rtype, ty)"
    and "dalvik_memberdict_register_object atoms path name args rtype ty obj tab = (rc, tab')"
    and "dalvik_memberdict_find_object atoms path name args rtype ty tab \<noteq> None"
  shows "rc = -1 \<and> tab' = tab"
  using assms(3,4) register_object_chain [OF assms(1,2), of atoms obj] find_object_chain [OF assms(1,2), of atoms]
  by auto

lemma register_object_new:
  assumes "dict_ok tab" "kind_ok (path, name, args, rtype, ty)"
    and "dalvik_memberdict_register_object atoms path name args rtype ty obj tab = (rc, tab')"
    and "dalvik_memberdict_find_object atoms path name args rtype ty tab = None"
  shows "rc = 0"
    and "kind_ok (path', name', args', rtype', ty') \<Longrightarrow>
      dalvik_memberdict_find_object atoms path' name' args' rtype' ty' tab' =
        (if (path', name', args', rtype', ty') = (path, name, args, rtype, ty) then Some obj
         else dalvik_memberdict_find_object atoms path' name' args' rtype' ty' tab)"
proof -
  let ?n = "\<lparr>md_class_path = path, md_member_name = name, md_args = args, md_rtype = rtype, md_type = ty, md_object = obj\<rparr>"
  have new: "rc = 0 \<and> tab' = chain_insert (key_slot atoms) md_key ?n tab"
    using assms(3,4) register_object_chain [OF assms(1,2), of atoms obj] find_object_chain [OF assms(1,2), of atoms]
    by auto
  then show "rc = 0" by simp
  assume k: "kind_ok (path', name', args', rtype', ty')"
  have key: "md_key ?n = (path, name, args, rtype, ty)" by (simp add: md_key_def)
  have "chain_find (key_slot atoms) md_key tab' (path', name', args', rtype', ty') =
      (if (path', name', args', rtype', ty') = (path, name, args, rtype, ty) then Some ?n
       else chain_find (key_slot atoms) md_key tab (path', name', args', rtype', ty'))"
    using new member_tab.find_insert [of atoms ?n tab "(path', name', args', rtype', ty')"] unfolding key by auto
  then show "dalvik_memberdict_find_object atoms path' name' args' rtype' ty' tab' =
        (if (path', name', args', rtype', ty') = (path, name, args, rtype, ty) then Some obj
         else dalvik_memberdict_find_object atoms path' name' args' rtype' ty' tab)"
    unfolding find_object_chain [OF register_object_ok [OF assms(1-3)] k] find_object_chain [OF assms(1) k]
    by (simp del: kind_ok.simps)
qed

declare kind_ok.simps [simp del]

lemma kind_ok_kinds:
  "kind_ok (path, Some name, Some args, rtype, TYPE_METHOD)" "kind_ok (path, Some name, None, rtype, TYPE_FIELD)"
  "kind_ok (path, None, None, rtype, TYPE_CLASS)"
  by (simp_all add: kind_ok.simps)

text \<open>
  C39: registering a method under a key that the dictionary does not have succeeds, and the method is
  then found under exactly that class path, name, argument list and return type; every other
  method and every field and class is found as before. Registering the same key again is
  refused and changes nothing.
\<close>

theorem dalvik_memberdict_method_correct:
  assumes "dict_ok tab"
    and "dalvik_memberdict_register_method atoms path (Some (name, args, rtype, obj)) tab = (rc, tab')"
  shows "dict_ok tab' \<and>
    (dalvik_memberdict_get_method atoms path name args rtype tab = None \<longrightarrow> rc = 0 \<and>
       (\<forall>path' name' args' rtype'. dalvik_memberdict_get_method atoms path' name' args' rtype' tab' =
          (if (path', name', args', rtype') = (path, name, args, rtype) then Some obj
           else dalvik_memberdict_get_method atoms path' name' args' rtype' tab)) \<and>
       (\<forall>path' name'. dalvik_memberdict_get_field atoms path' name' tab' = dalvik_memberdict_get_field atoms path' name' tab) \<and>
       (\<forall>path'. dalvik_memberdict_get_class atoms path' tab' = dalvik_memberdict_get_class atoms path' tab)) \<and>
    (dalvik_memberdict_get_method atoms path name args rtype tab \<noteq> None \<longrightarrow> rc = -1 \<and> tab' = tab)"
proof -
  note k = kind_ok_kinds(1) [of path name args rtype]
  have r: "dalvik_memberdict_register_object atoms path (Some name) (Some args) rtype TYPE_METHOD obj tab = (rc, tab')"
    using assms(2) by (simp add: dalvik_memberdict_register_method_def)
  note new = register_object_new [OF assms(1) k r]
  show ?thesis
    unfolding dalvik_memberdict_get_method_def dalvik_memberdict_get_field_def dalvik_memberdict_get_class_def
  proof (intro conjI impI allI)
    show "dict_ok tab'" by (rule register_object_ok [OF assms(1) k r])
  qed (use new register_object_twice [OF assms(1) k r] kind_ok_kinds in simp_all)
qed

theorem dalvik_memberdict_method_correct_witness:
  "\<exists>rc tab'. dalvik_memberdict_register_method (\<lambda>_. 0) 16 (Some (32, [TAtom DALVIK_TYPECODE_INT], None, ''m''))
      (snd (dalvik_memberdict_init undefined)) = (rc, tab') \<and> rc = 0 \<and>
    dalvik_memberdict_get_method (\<lambda>_. 0) 16 32 [TAtom DALVIK_TYPECODE_INT] None tab' = Some ''m''"
proof -
  let ?tab = "snd (dalvik_memberdict_init undefined) :: cstr memberdict"
  obtain rc tab' where r: "dalvik_memberdict_register_method (\<lambda>_. 0) 16
      (Some (32, [TAtom DALVIK_TYPECODE_INT], None, ''m'')) ?tab = (rc, tab')" by fastforce
  have "dalvik_memberdict_get_method (\<lambda>_. 0) 16 32 [TAtom DALVIK_TYPECODE_INT] None ?tab = None"
    by (simp add: dalvik_memberdict_get_method_def dalvik_memberdict_find_object_def dalvik_memberdict_init_def chain_empty_def)
  with dalvik_memberdict_method_correct [OF dict_ok_init r] r show ?thesis by auto
qed

subsection \<open>What the search by prefix finds\<close>

lemma prefix_loop_iff: "prefix_loop p s \<longleftrightarrow> take (length p) s = p \<or> take (length s) p = s"
  by (induction p s rule: prefix_loop.induct) auto

definition all_matches :: "(nat \<Rightarrow> cstr) \<Rightarrow> cstr option \<Rightarrow> cstr option \<Rightarrow> 'o memberdict \<Rightarrow> nat \<Rightarrow> 'o memberdict_node list" where
  "all_matches str cp mp tab n = concat (map (\<lambda>i. filter (node_has_prefix str cp mp) (tab i)) [0..<n])"

lemma match_fold:
  assumes "length (all_matches str cp mp tab n) \<le> bufsize"
  shows "fold (\<lambda>i acc. if length acc < bufsize then acc @ filter (node_has_prefix str cp mp) (tab i) else acc)
      [0..<n] [] = all_matches str cp mp tab n"
  using assms
proof (induction n)
  case (Suc n)
  then have "length (all_matches str cp mp tab n) \<le> bufsize" by (simp add: all_matches_def)
  with Suc show ?case
    by (cases "length (all_matches str cp mp tab n) < bufsize") (auto simp: all_matches_def simp flip: length_0_conv)
qed (simp add: all_matches_def)

lemma match_one_slot:
  assumes "\<And>i. i \<noteq> k \<Longrightarrow> tab i = []" "k < DALVIK_MEMBERDICT_SIZE" "0 < bufsize"
  shows "dalvik_memberdict_member_match str cp mp bufsize tab = filter (node_has_prefix str cp mp) (tab k)"
proof -
  let ?f = "\<lambda>i acc. if length acc < bufsize then acc @ filter (node_has_prefix str cp mp) (tab i) else acc"
  have skip: "fold ?f is acc = acc" if "k \<notin> set is" for "is" acc
    using that assms(1) by (induction "is") auto
  have "[0..<DALVIK_MEMBERDICT_SIZE] = [0..<k] @ k # [Suc k..<DALVIK_MEMBERDICT_SIZE]"
    using assms(2) upt_add_eq_append [of 0 k "DALVIK_MEMBERDICT_SIZE - k"] upt_conv_Cons [of k DALVIK_MEMBERDICT_SIZE] by simp
  then show ?thesis using assms(3) by (simp add: dalvik_memberdict_member_match_def skip)
qed

lemma member_slot_less: "member_slot atoms path name args rtype ty < DALVIK_MEMBERDICT_SIZE"
proof -
  have "unat (h mod of_nat DALVIK_MEMBERDICT_SIZE :: u32) < DALVIK_MEMBERDICT_SIZE" for h
    by (simp add: unat_mod DALVIK_MEMBERDICT_SIZE_def)
  then show ?thesis by (simp add: member_slot_def)
qed

text \<open>
  The search by prefix returns all members that match, in the order of the table, when they fit
  the buffer. But a member matches also when its name is shorter than the prefix and the prefix
  starts with it, and the size of the buffer is only looked at between two slots: two classes
  in one slot are both written to a buffer for one.
\<close>

theorem dalvik_memberdict_prefix_search:
  "(length (all_matches str cp mp (tab :: 'o memberdict) DALVIK_MEMBERDICT_SIZE) \<le> bufsize \<longrightarrow>
      dalvik_memberdict_member_match str cp mp bufsize tab = all_matches str cp mp tab DALVIK_MEMBERDICT_SIZE) \<and>
   (dalvik_memberdict_check_prefix (Some p) (Some s) \<longleftrightarrow> take (length p) s = p \<or> take (length s) p = s) \<and>
   length (dalvik_memberdict_find_class_by_prefix (\<lambda>_. ''a'') (Some ''a'') 1
     (snd (dalvik_memberdict_register_class atoms (2 ^ 32 - 16) (Some ())
       (snd (dalvik_memberdict_register_class atoms 16 (Some ()) (snd (dalvik_memberdict_init undefined))))))) = 2"
proof (intro conjI impI)
  show "dalvik_memberdict_member_match str cp mp bufsize tab = all_matches str cp mp tab DALVIK_MEMBERDICT_SIZE"
    if "length (all_matches str cp mp tab DALVIK_MEMBERDICT_SIZE) \<le> bufsize"
    using match_fold [OF that] by (simp add: dalvik_memberdict_member_match_def)
  show "dalvik_memberdict_check_prefix (Some p) (Some s) \<longleftrightarrow> take (length p) s = p \<or> take (length s) p = s"
    by (simp add: dalvik_memberdict_check_prefix_def prefix_loop_iff)
  let ?slot = "member_slot atoms 16 None None None TYPE_CLASS"
  let ?n = "\<lambda>path. \<lparr>md_class_path = path, md_member_name = None, md_args = None, md_rtype = None,
      md_type = TYPE_CLASS, md_object = ()\<rparr>"
  let ?tab = "chain_empty(?slot := [?n (2 ^ 32 - 16), ?n 16])"
  have same: "member_slot atoms (2 ^ 32 - 16) None None None TYPE_CLASS = ?slot"
  proof -
    have "(of_nat (2 ^ 32 - 16) :: u32) * of_nat (2 ^ 32 - 16) = of_nat 16 * of_nat 16" by simp
    then show ?thesis unfolding member_slot_def dalvik_memberdict_hash_def Let_def by (simp only:)
  qed
  have tab: "snd (dalvik_memberdict_register_class atoms (2 ^ 32 - 16) (Some ())
      (snd (dalvik_memberdict_register_class atoms 16 (Some ()) (snd (dalvik_memberdict_init undefined))))) = ?tab"
    unfolding dalvik_memberdict_register_class_def dalvik_memberdict_register_object_def option.case Let_def same
    by (simp add: dalvik_memberdict_init_def chain_empty_def)
  have "?slot < DALVIK_MEMBERDICT_SIZE" by (rule member_slot_less)
  then have "dalvik_memberdict_member_match (\<lambda>_. ''a'') (Some ''a'') None 1 ?tab =
      filter (node_has_prefix (\<lambda>_. ''a'') (Some ''a'') None) (?tab ?slot)"
    by (intro match_one_slot) (simp_all add: chain_empty_def)
  then show "length (dalvik_memberdict_find_class_by_prefix (\<lambda>_. ''a'') (Some ''a'') 1
     (snd (dalvik_memberdict_register_class atoms (2 ^ 32 - 16) (Some ())
       (snd (dalvik_memberdict_register_class atoms 16 (Some ()) (snd (dalvik_memberdict_init undefined))))))) = 2"
    unfolding tab dalvik_memberdict_find_class_by_prefix_def
    by (simp add: node_has_prefix_def dalvik_memberdict_check_prefix_def)
qed

theorem dalvik_memberdict_prefix_search_witness:
  "dalvik_memberdict_member_match (\<lambda>_. ''a'') (Some ''a'') None 1 (chain_empty :: unit memberdict) = []"
proof -
  have none: "all_matches (\<lambda>_. ''a'') (Some ''a'') None (chain_empty :: unit memberdict) n = []" for n
    by (simp add: all_matches_def chain_empty_def)
  show ?thesis
    using dalvik_memberdict_prefix_search [of "\<lambda>_. ''a''" "Some ''a''" None "chain_empty :: unit memberdict" 1 "[]" "[]" undefined]
    unfolding none by simp
qed

end
