(* ===== verification/Dalvik_Exception.thy ===== *)
theory Dalvik_Exception
  imports Dalvik_Type Dalvik_Label
begin

text \<open>
  Exception handlers (\<^verbatim>\<open>src/dalvik/dalvik_exception.c\<close>): reading a handler with the labels of its
  range, and the sets of handlers that are attached to instructions. The two vectors that own the
  handlers and the sets are lists. A set of handlers, a linked list in C, is a list, a null set the
  empty list. Memory exhaustion is not modelled.
\<close>

subsection \<open>Data\<close>

record exception_handler =
  eh_exception :: "nat option"
  eh_handler_label :: int

record exception_state =
  handler_vector :: "exception_handler list"
  handler_set_vector :: "exception_handler list list"

definition dalvik_exception_init :: "exception_state \<Rightarrow> int \<times> exception_state" where
  "dalvik_exception_init st = (0, \<lparr>handler_vector = [], handler_set_vector = []\<rparr>)"

definition dalvik_exception_handler_alloc ::
  "nat option \<Rightarrow> int \<Rightarrow> exception_state \<Rightarrow> exception_handler \<times> exception_state" where
  "dalvik_exception_handler_alloc exception handler st =
     (let ret = \<lparr>eh_exception = exception, eh_handler_label = handler\<rparr>
      in (ret, st\<lparr>handler_vector := handler_vector st @ [ret]\<rparr>))"

subsection \<open>Reading a handler\<close>

text \<open>
  The part of the reader behind the class path, the same for \<^verbatim>\<open>catch\<close> and \<^verbatim>\<open>catchall\<close>. A result is
  the handler with the numbers of the labels where its range begins and ends.
\<close>

definition handler_range ::
  "nat list \<Rightarrow> sexp \<Rightarrow> nat option \<Rightarrow> label_state \<Rightarrow> exception_state
     \<Rightarrow> (exception_handler \<times> int \<times> int) option \<times> label_state \<times> exception_state" where
  "handler_range kw e exception ls st =
     (let m = sexp_match e ''(L=L?L=L?L=L?'' [DALVIK_TOKEN_FROM kw, 0, DALVIK_TOKEN_TO kw, 0, DALVIK_TOKEN_USING kw, 0]
      in if \<not> fst m then (None, ls, st)
         else let (lid1, ls) = dalvik_label_get_label_id (out_addr (snd m) 1) ls
              in if lid1 < 0 then (None, ls, st)
                 else let (lid2, ls) = dalvik_label_get_label_id (out_addr (snd m) 3) ls
                      in if lid2 < 0 then (None, ls, st)
                         else let (lid3, ls) = dalvik_label_get_label_id (out_addr (snd m) 5) ls
                              in if lid3 < 0 then (None, ls, st)
                                 else let (h, st) = dalvik_exception_handler_alloc exception lid3 st
                                      in (Some (h, lid1, lid2), ls, st))"

text \<open>\<^const>\<open>None\<close> when the class path leaves its buffer.\<close>

definition dalvik_exception_handler_from_sexp ::
  "nat list \<Rightarrow> sexp \<Rightarrow> pool \<Rightarrow> label_state \<Rightarrow> exception_state
     \<Rightarrow> ((exception_handler \<times> int \<times> int) option \<times> pool \<times> label_state \<times> exception_state) option" where
  "dalvik_exception_handler_from_sexp kw e p ls st =
     (if e = SNil then Some (None, p, ls, st)
      else let m = sexp_match e ''(L=A'' [DALVIK_TOKEN_CATCH kw, 0];
               m' = sexp_match e ''(L=A'' [DALVIK_TOKEN_CATCHALL kw, 0]
           in if fst m
              then (case sexp_get_object_path (out_sexp (snd m) 1) p of
                      None \<Rightarrow> None
                    | Some (Inl _) \<Rightarrow> Some (None, p, ls, st)
                    | Some (Inr (classpath, rest, p)) \<Rightarrow>
                        (case handler_range kw rest (Some classpath) ls st of (r, ls, st) \<Rightarrow> Some (r, p, ls, st)))
              else if fst m'
              then (case sexp_get_object_path (out_sexp (snd m') 1) p of
                      None \<Rightarrow> None
                    | Some (Inl _) \<Rightarrow> Some (None, p, ls, st)
                    | Some (Inr (classpath, rest, p)) \<Rightarrow>
                        (case handler_range kw rest None ls st of (r, ls, st) \<Rightarrow> Some (r, p, ls, st)))
              else Some (None, p, ls, st))"

text \<open>The set is built from the last handler to the first, and is owned by the second vector.\<close>

fun handler_set_loop :: "exception_handler list \<Rightarrow> nat \<Rightarrow> exception_handler list \<Rightarrow> exception_handler list" where
  "handler_set_loop hs 0 ret = ret"
| "handler_set_loop hs (Suc i) ret = handler_set_loop hs i (hs ! i # ret)"

definition dalvik_exception_new_handler_set ::
  "nat \<Rightarrow> exception_handler list \<Rightarrow> exception_state \<Rightarrow> exception_handler list \<times> exception_state" where
  "dalvik_exception_new_handler_set count hs st =
     (if count = 0 then ([], st)
      else let ret = handler_set_loop hs count []
           in (ret, st\<lparr>handler_set_vector := handler_set_vector st @ [ret]\<rparr>))"

subsection \<open>What is read\<close>

lemma handler_set_loop_take: "n \<le> length hs \<Longrightarrow> handler_set_loop hs n ret = take n hs @ ret"
  by (induction n arbitrary: ret) (simp_all add: take_Suc_conv_app_nth)

text \<open>
  A set of handlers has the given handlers in the given order, so that the first one that matches an
  exception is the first one in the source.
\<close>

lemma new_handler_set_order:
  "count \<le> length hs \<Longrightarrow> fst (dalvik_exception_new_handler_set count hs st) = take count hs"
  by (simp add: dalvik_exception_new_handler_set_def handler_set_loop_take Let_def)

text \<open>The expression of a range: \<^verbatim>\<open>from l1 to l2 using l3\<close>.\<close>

definition range_sexp :: "nat list \<Rightarrow> nat \<Rightarrow> nat \<Rightarrow> nat \<Rightarrow> sexp" where
  "range_sexp kw l1 l2 l3 = mk_list (map (\<lambda>k. (CHR '' '', SLit k))
     [DALVIK_TOKEN_FROM kw, l1, DALVIK_TOKEN_TO kw, l2, DALVIK_TOKEN_USING kw, l3])"

lemma range_match:
  "sexp_match (range_sexp kw l1 l2 l3) ''(L=L?L=L?L=L?''
      [DALVIK_TOKEN_FROM kw, 0, DALVIK_TOKEN_TO kw, 0, DALVIK_TOKEN_USING kw, 0] =
     (True, [(1, MAddr l1), (3, MAddr l2), (5, MAddr l3)])"
  by (simp add: range_sexp_def sexp_match_def char_at_def sexp_match_one_def expected_type_def store_arg_def)

lemma handler_range_read:
  assumes "label_inv ls" "dalvik_label_get_label_id l1 ls = (i1, ls1)" "dalvik_label_get_label_id l2 ls1 = (i2, ls2)"
    "dalvik_label_get_label_id l3 ls2 = (i3, ls3)" "0 \<le> i1" "0 \<le> i2" "0 \<le> i3"
  shows "handler_range kw (range_sexp kw l1 l2 l3) exception ls st =
    (Some (\<lparr>eh_exception = exception, eh_handler_label = i3\<rparr>, i1, i2), ls3,
     st\<lparr>handler_vector := handler_vector st @ [\<lparr>eh_exception = exception, eh_handler_label = i3\<rparr>]\<rparr>)"
  using assms by (simp add: handler_range_def range_match out_addr_def Let_def dalvik_exception_handler_alloc_def)

lemma label_room:
  assumes "label_inv ls" "label_count ls < DAVLIK_LABEL_POOL_SIZE" "dalvik_label_get_label_id l ls = (i, ls')"
  shows "label_inv ls'" "0 \<le> i" "label_count ls' \<le> Suc (label_count ls)" "label_of ls' i = Some l"
    "\<forall>j m. label_of ls j = Some m \<longrightarrow> label_of ls' j = Some m"
proof -
  show i: "0 \<le> i" "label_count ls' \<le> Suc (label_count ls)"
    using assms by (auto simp: get_label_id_chain split: option.splits if_splits)
  show "label_inv ls'" "label_of ls' i = Some l" "\<forall>j m. label_of ls j = Some m \<longrightarrow> label_of ls' j = Some m"
    using get_label_id_law [OF assms(1,3)] i(1) by auto
qed

lemma handler_range_correct:
  assumes "label_inv ls" "label_count ls + 3 \<le> DAVLIK_LABEL_POOL_SIZE"
  shows "\<exists>i1 i2 i3 ls'. handler_range kw (range_sexp kw l1 l2 l3) exception ls st =
      (Some (\<lparr>eh_exception = exception, eh_handler_label = i3\<rparr>, i1, i2), ls',
       st\<lparr>handler_vector := handler_vector st @ [\<lparr>eh_exception = exception, eh_handler_label = i3\<rparr>]\<rparr>) \<and>
    label_inv ls' \<and> label_of ls' i1 = Some l1 \<and> label_of ls' i2 = Some l2 \<and> label_of ls' i3 = Some l3"
proof -
  obtain i1 ls1 where g1: "dalvik_label_get_label_id l1 ls = (i1, ls1)" by fastforce
  obtain i2 ls2 where g2: "dalvik_label_get_label_id l2 ls1 = (i2, ls2)" by fastforce
  obtain i3 ls3 where g3: "dalvik_label_get_label_id l3 ls2 = (i3, ls3)" by fastforce
  have c1: "label_count ls < DAVLIK_LABEL_POOL_SIZE" using assms(2) by simp
  note r1 = label_room [OF assms(1) c1 g1]
  have c2: "label_count ls1 < DAVLIK_LABEL_POOL_SIZE" using assms(2) r1(3) by simp
  note r2 = label_room [OF r1(1) c2 g2]
  have c3: "label_count ls2 < DAVLIK_LABEL_POOL_SIZE" using assms(2) r1(3) r2(3) by simp
  note r3 = label_room [OF r2(1) c3 g3]
  have "label_of ls3 i1 = Some l1" "label_of ls3 i2 = Some l2" using r1(4) r2(4,5) r3(5) by auto
  with handler_range_read [OF assms(1) g1 g2 g3 r1(2) r2(2) r3(2), of kw exception st] r3(1,4)
  show ?thesis by blast
qed

lemma match_token_rest:
  "sexp_match (SCons c (SLit k) e) ''(L=A'' [k', 0] = (if k = k' then (True, [(1, MSexp e)]) else (False, []))"
  by (simp add: sexp_match_def char_at_def sexp_match_one_def expected_type_def store_arg_def)

text \<open>
  A handler \<^verbatim>\<open>(catch a/b/c from l1 to l2 using l3)\<close> is read with the pooled class path as its
  exception and with the numbers of its three labels, as long as the label table has room for them.
\<close>

theorem dalvik_exception_catch_correct:
  assumes "tokens_ok kw p" "label_inv ls" "label_count ls + 3 \<le> DAVLIK_LABEL_POOL_SIZE"
    and "list_all2 (\<lambda>k w. pool_mem p k = Some w) ks ws" "pool_mem p k = Some w" "length (slashed (ws @ [w])) \<le> 4096"
  shows "\<exists>h i1 i2 p' ls' st'. dalvik_exception_handler_from_sexp kw
      (SCons CHR '' '' (SLit (DALVIK_TOKEN_CATCH kw)) (path_sexp ks k CHR '' '' (range_sexp kw l1 l2 l3))) p ls st
        = Some (Some (h, i1, i2), p', ls', st') \<and>
    (\<exists>a. eh_exception h = Some a \<and> pool_mem p' a = Some (slashed ws @ w)) \<and>
    label_of ls' i1 = Some l1 \<and> label_of ls' i2 = Some l2 \<and> label_of ls' (eh_handler_label h) = Some l3 \<and>
    handler_vector st' = handler_vector st @ [h]"
proof -
  have inv: "pool_inv p" using assms(1) by (simp add: tokens_ok_def)
  obtain a p' where q: "stringpool_query (slashed ws @ w) p = (a, p')" by fastforce
  have "NUL \<notin> set (slashed ws @ w)" using nul_free_path [OF inv assms(4)] pool_inv_mem [OF inv assms(5)] by simp
  note law = stringpool_query_law [OF inv this q]
  have "path_loop (pool_mem p) (path_sexp ks k CHR '' '' (range_sexp kw l1 l2 l3)) [] 0 =
      Some (Inr (slashed (ws @ [w]), length (slashed ws), range_sexp kw l1 l2 l3))"
    using path_loop_correct [OF assms(4,5), of "CHR '' ''" "range_sexp kw l1 l2 l3" "[]" 0] assms(6)
    by (simp add: SEXP_BUFSIZE_def)
  then have path: "sexp_get_object_path (path_sexp ks k CHR '' '' (range_sexp kw l1 l2 l3)) p =
      Some (Inr (a, range_sexp kw l1 l2 l3, p'))"
    using q slashed_snoc [of "[]" ws w] path_sexp_not_nil by (simp add: sexp_get_object_path_def)
  obtain i1 i2 i3 ls' where range: "handler_range kw (range_sexp kw l1 l2 l3) (Some a) ls st =
      (Some (\<lparr>eh_exception = Some a, eh_handler_label = i3\<rparr>, i1, i2), ls',
       st\<lparr>handler_vector := handler_vector st @ [\<lparr>eh_exception = Some a, eh_handler_label = i3\<rparr>]\<rparr>)"
    "label_of ls' i1 = Some l1" "label_of ls' i2 = Some l2" "label_of ls' i3 = Some l3"
    using handler_range_correct [OF assms(2,3), of kw l1 l2 l3 "Some a" st] by blast
  show ?thesis using path range law
    by (simp add: dalvik_exception_handler_from_sexp_def match_token_rest out_sexp_def Let_def)
qed

theorem dalvik_exception_catch_correct_witness:
  "\<exists>kw p h i1 i2 p' ls' st'. dalvik_tokens_init (the (snd (stringpool_init 10 None))) = (kw, p) \<and>
    dalvik_exception_handler_from_sexp kw (SCons CHR '' '' (SLit (DALVIK_TOKEN_CATCH kw))
        (path_sexp [] (DALVIK_TOKEN_OBJECT kw) CHR '' '' (range_sexp kw 64 80 96))) p
      (snd (dalvik_label_init undefined)) (snd (dalvik_exception_init undefined)) = Some (Some (h, i1, i2), p', ls', st') \<and>
    label_of ls' (eh_handler_label h) = Some 96"
proof -
  obtain kw p where i: "dalvik_tokens_init (the (snd (stringpool_init 10 None))) = (kw, p)" by fastforce
  note ok = tokens_init_ok [OF pool_inv_init i]
  have room: "label_count (snd (dalvik_label_init undefined)) + 3 \<le> DAVLIK_LABEL_POOL_SIZE"
    by (simp add: dalvik_label_init_def DAVLIK_LABEL_POOL_SIZE_def)
  have w: "pool_mem p (DALVIK_TOKEN_OBJECT kw) = Some ''object''"
    using token_mem [OF ok, of 12] by (simp add: dalvik_token_defs_def)
  have "list_all2 (\<lambda>k w. pool_mem p k = Some w) [] []" "length (slashed ([] @ [''object''])) \<le> 4096"
    by (simp_all add: slashed_def)
  from dalvik_exception_catch_correct [OF ok label_inv_init room this(1) w this(2),
      where ?l1.0 = 64 and ?l2.0 = 80 and ?l3.0 = 96 and st = "snd (dalvik_exception_init undefined)"] i
  show ?thesis by blast
qed

text \<open>
  A handler \<^verbatim>\<open>(catchall from l1 to l2 using l3)\<close>, the form that the comment in the reader gives,
  is never read: the reader looks for a class path first, takes the word \<^verbatim>\<open>from\<close> for it, and then misses
  that word.
\<close>

theorem dalvik_exception_catchall_unreadable:
  assumes "tokens_ok kw p" "l1 \<noteq> DALVIK_TOKEN_FROM kw"
  shows "\<exists>p' ls' st'. dalvik_exception_handler_from_sexp kw
      (SCons CHR '' '' (SLit (DALVIK_TOKEN_CATCHALL kw)) (range_sexp kw l1 l2 l3)) p ls st = Some (None, p', ls', st')"
proof -
  have ne: "DALVIK_TOKEN_CATCHALL kw \<noteq> DALVIK_TOKEN_CATCH kw" using token_eq_iff [OF assms(1), of 109 108] by simp
  have "pool_mem p (DALVIK_TOKEN_FROM kw) = Some ''from''"
    using token_mem [OF assms(1), of 112] by (simp add: dalvik_token_defs_def)
  then have "path_loop (pool_mem p) (range_sexp kw l1 l2 l3) [] 0 = Some (Inr (''from/'', 0,
      mk_list (map (\<lambda>k. (CHR '' '', SLit k)) [l1, DALVIK_TOKEN_TO kw, l2, DALVIK_TOKEN_USING kw, l3])))"
    by (simp add: range_sexp_def SEXP_BUFSIZE_def)
  then obtain a p' where path: "sexp_get_object_path (range_sexp kw l1 l2 l3) p = Some (Inr (a,
      mk_list (map (\<lambda>k. (CHR '' '', SLit k)) [l1, DALVIK_TOKEN_TO kw, l2, DALVIK_TOKEN_USING kw, l3]), p'))"
    by (cases "stringpool_query ''from'' p") (auto simp: sexp_get_object_path_def range_sexp_def)
  have "\<not> fst (sexp_match (mk_list (map (\<lambda>k. (CHR '' '', SLit k)) [l1, DALVIK_TOKEN_TO kw, l2, DALVIK_TOKEN_USING kw, l3]))
      ''(L=L?L=L?L=L?'' [DALVIK_TOKEN_FROM kw, 0, DALVIK_TOKEN_TO kw, 0, DALVIK_TOKEN_USING kw, 0])"
    using assms(2) by (simp add: sexp_match_def char_at_def sexp_match_one_def expected_type_def)
  then have range: "handler_range kw (mk_list (map (\<lambda>k. (CHR '' '', SLit k)) [l1, DALVIK_TOKEN_TO kw, l2, DALVIK_TOKEN_USING kw, l3]))
      None ls st = (None, ls, st)" by (simp only: handler_range_def Let_def if_True not_False_eq_True)
  show ?thesis
    unfolding dalvik_exception_handler_from_sexp_def Let_def match_token_rest using ne path range
    by (simp add: out_sexp_def del: mk_list.simps list.map)
qed

theorem dalvik_exception_catchall_unreadable_witness:
  "\<exists>kw p p' ls' st'. dalvik_tokens_init (the (snd (stringpool_init 10 None))) = (kw, p) \<and>
    dalvik_exception_handler_from_sexp kw
      (SCons CHR '' '' (SLit (DALVIK_TOKEN_CATCHALL kw)) (range_sexp kw (DALVIK_TOKEN_TO kw) 64 80)) p
      (snd (dalvik_label_init undefined)) (snd (dalvik_exception_init undefined)) = Some (None, p', ls', st')"
proof -
  obtain kw p where i: "dalvik_tokens_init (the (snd (stringpool_init 10 None))) = (kw, p)" by fastforce
  note ok = tokens_init_ok [OF pool_inv_init i]
  have "DALVIK_TOKEN_TO kw \<noteq> DALVIK_TOKEN_FROM kw" using token_eq_iff [OF ok, of 68 112] by simp
  from dalvik_exception_catchall_unreadable [OF ok this] i show ?thesis by blast
qed

end
