(* ===== verification/Dalvik_Block.thy ===== *)
theory Dalvik_Block
  imports Dalvik_Memberdict Dalvik_Exception
begin

text \<open>
  The block graph of a method (\<^verbatim>\<open>src/dalvik/dalvik_block.c\<close>, \<^verbatim>\<open>include/dalvik/dalvik_block.h\<close>). The
  builder scans the instructions of a method for the last instructions of basic blocks, makes a
  block for each, links the branches to blocks, searches the graph from the entry and drops what it
  did not reach. Finished graphs are cached.

  Instructions live in a pool that is indexed by 32 bit numbers. Of an instruction, the members
  that the builder reads are modelled. Blocks are referred to by their index in the array of the
  builder. A branch whose target does not exist makes the C code read outside of that array; the
  model gives \<^const>\<open>None\<close> there. Memory exhaustion is not modelled.
\<close>

subsection \<open>Instructions\<close>

datatype dalvik_opcode =
  DVM_NOP | DVM_MOVE | DVM_RETURN | DVM_CONST | DVM_MONITOR | DVM_CHECK_CAST | DVM_INSTANCE | DVM_ARRAY
| DVM_THROW | DVM_GOTO | DVM_SWITCH | DVM_CMP | DVM_IF | DVM_INVOKE | DVM_UNOP | DVM_BINOP

record sparse_switch_branch =
  sb_cond :: int
  sb_is_default :: bool
  sb_labelid :: nat

datatype payload =
  PLabelid nat | PInt32 int | PBranches "nat list option" | PSparse "sparse_switch_branch list option" | POther

record dalvik_instruction =
  opcode :: dalvik_opcode
  flags :: nat
  inst_next :: u32
  handler_set :: "exception_handler list"
  operands :: "payload list"

definition DALVIK_INSTRUCTION_INVALID :: u32 where "DALVIK_INSTRUCTION_INVALID = 0xffffffff"
definition DVM_FLAG_SWITCH_PACKED :: nat where "DVM_FLAG_SWITCH_PACKED = 0"
definition DVM_FLAG_SWITCH_SPARSE :: nat where "DVM_FLAG_SWITCH_SPARSE = 1"
definition DVM_FLAG_IF_EQ :: nat where "DVM_FLAG_IF_EQ = 0"
definition DVM_FLAG_IF_NE :: nat where "DVM_FLAG_IF_NE = 1"
definition DVM_FLAG_IF_GT :: nat where "DVM_FLAG_IF_GT = 2"
definition DVM_FLAG_IF_GE :: nat where "DVM_FLAG_IF_GE = 3"
definition DVM_FLAG_IF_LE :: nat where "DVM_FLAG_IF_LE = 4"
definition DVM_FLAG_IF_LT :: nat where "DVM_FLAG_IF_LT = 5"

type_synonym inst_pool = "u32 \<Rightarrow> dalvik_instruction"
type_synonym jump_table = "nat \<Rightarrow> u32"

definition op_labelid :: "dalvik_instruction \<Rightarrow> nat \<Rightarrow> nat" where
  "op_labelid inst i = (case operands inst ! i of PLabelid l \<Rightarrow> l | _ \<Rightarrow> 0)"
definition op_int32 :: "dalvik_instruction \<Rightarrow> nat \<Rightarrow> int" where
  "op_int32 inst i = (case operands inst ! i of PInt32 n \<Rightarrow> n | _ \<Rightarrow> 0)"
definition op_branches :: "dalvik_instruction \<Rightarrow> nat \<Rightarrow> nat list option" where
  "op_branches inst i = (case operands inst ! i of PBranches v \<Rightarrow> v | _ \<Rightarrow> None)"
definition op_sparse :: "dalvik_instruction \<Rightarrow> nat \<Rightarrow> sparse_switch_branch list option" where
  "op_sparse inst i = (case operands inst ! i of PSparse v \<Rightarrow> v | _ \<Rightarrow> None)"

subsection \<open>Key instructions\<close>

definition DALVIK_BLOCK_MAX_KEYS :: nat where "DALVIK_BLOCK_MAX_KEYS = 1024"

text \<open>
  What one instruction pushes, in order; the flag tells that the operand of a switch is null, upon
  which the function returns \<open>-1\<close> after it has pushed the instruction itself.
\<close>

definition label_key :: "jump_table \<Rightarrow> nat \<Rightarrow> u32" where
  "label_key jt l = jt l - 1"

definition own_block :: "u32 \<Rightarrow> u32 \<Rightarrow> u32 list" where
  "own_block entry_point inst = (if inst \<noteq> entry_point then [inst - 1, inst] else [inst])"

definition inst_keys :: "jump_table \<Rightarrow> u32 \<Rightarrow> dalvik_instruction \<Rightarrow> u32 \<Rightarrow> u32 list \<times> bool" where
  "inst_keys jt entry_point current_inst inst =
     (case opcode current_inst of
        DVM_GOTO \<Rightarrow> ([inst, label_key jt (op_labelid current_inst 0)], False)
      | DVM_IF \<Rightarrow> ([inst, label_key jt (op_labelid current_inst 2)], False)
      | DVM_SWITCH \<Rightarrow>
          if flags current_inst = DVM_FLAG_SWITCH_PACKED
          then (case op_branches current_inst 2 of
                  None \<Rightarrow> ([inst], True)
                | Some lv \<Rightarrow> (inst # map (label_key jt) lv, False))
          else if flags current_inst = DVM_FLAG_SWITCH_SPARSE
          then (case op_sparse current_inst 1 of
                  None \<Rightarrow> ([inst], True)
                | Some lv \<Rightarrow> (inst # map (\<lambda>b. label_key jt (sb_labelid b)) lv, False))
          else ([inst], False)
      | DVM_INVOKE \<Rightarrow> (own_block entry_point inst, False)
      | DVM_RETURN \<Rightarrow> (own_block entry_point inst, False)
      | _ \<Rightarrow> if handler_set current_inst \<noteq> [] then (own_block entry_point inst, False) else ([], False))"

text \<open>\<^verbatim>\<open>__PUSH\<close>, repeated; \<^const>\<open>None\<close> when the array is full, upon which the function returns 0.\<close>

fun push_keys :: "u32 \<Rightarrow> nat \<Rightarrow> u32 list \<Rightarrow> u32 list \<Rightarrow> u32 list option" where
  "push_keys entry_point sz [] key = Some key"
| "push_keys entry_point sz (v # vs) key =
     (if v < entry_point then push_keys entry_point sz vs key
      else if length key \<ge> sz then None
      else push_keys entry_point sz vs (key @ [v]))"

datatype key_result = Keys "u32 list" | KeysFull | KeysInvalid

text \<open>
  The loop over the instructions with the last instruction that it has seen. It follows the chain of
  the instructions, which ends in every method that the reader has made; the model has fuel for it.
\<close>

fun scan_keys :: "nat \<Rightarrow> inst_pool \<Rightarrow> jump_table \<Rightarrow> u32 \<Rightarrow> nat \<Rightarrow> u32 \<Rightarrow> u32 \<Rightarrow> u32 list \<Rightarrow> key_result option" where
  "scan_keys 0 code jt entry_point sz inst last_instruction key = None"
| "scan_keys (Suc f) code jt entry_point sz inst last_instruction key =
     (if inst = DALVIK_INSTRUCTION_INVALID
      then if last_instruction \<noteq> DALVIK_INSTRUCTION_INVALID
           then (case push_keys entry_point sz [last_instruction] key of None \<Rightarrow> Some KeysFull | Some key \<Rightarrow> Some (Keys key))
           else Some (Keys key)
      else case inst_keys jt entry_point (code inst) inst of
             (vs, invalid) \<Rightarrow>
               (case push_keys entry_point sz vs key of
                  None \<Rightarrow> Some KeysFull
                | Some key \<Rightarrow>
                    if invalid then Some KeysInvalid
                    else scan_keys f code jt entry_point sz (inst_next (code inst)) inst key))"

text \<open>
  The comparison function subtracts two keys as \<^verbatim>\<open>int\<close>, so the order is that of signed numbers (where
  the difference does not leave the range of \<^verbatim>\<open>int\<close>).
\<close>

definition sort_keys :: "u32 list \<Rightarrow> u32 list" where
  "sort_keys key = sort_key sint key"

text \<open>The loop that removes duplicates: the last element that was kept and the rest.\<close>

fun unique_loop :: "u32 \<Rightarrow> u32 list \<Rightarrow> u32 list" where
  "unique_loop prev [] = []"
| "unique_loop prev (k # key) = (if prev = k then unique_loop prev key else k # unique_loop k key)"

definition unique_keys :: "u32 list \<Rightarrow> u32 list" where
  "unique_keys key = (case key of [] \<Rightarrow> [] | k # key \<Rightarrow> k # unique_loop k key)"

text \<open>\<open>Inl\<close> is the error \<open>-1\<close>; a full array gives the result 0, no keys.\<close>

definition dalvik_block_get_key_instruction_list ::
  "nat \<Rightarrow> inst_pool \<Rightarrow> jump_table \<Rightarrow> u32 \<Rightarrow> nat \<Rightarrow> (unit + u32 list) option" where
  "dalvik_block_get_key_instruction_list f code jt entry_point sz =
     (case scan_keys f code jt entry_point sz entry_point DALVIK_INSTRUCTION_INVALID [] of
        None \<Rightarrow> None
      | Some KeysInvalid \<Rightarrow> Some (Inl ())
      | Some KeysFull \<Rightarrow> Some (Inr [])
      | Some (Keys key) \<Rightarrow> Some (Inr (unique_keys (sort_keys key))))"

definition dalvik_block_find_blockid_by_instruction :: "u32 \<Rightarrow> u32 list \<Rightarrow> int" where
  "dalvik_block_find_blockid_by_instruction inst key =
     (let kcnt = length key
      in if kcnt = 0 \<or> key ! (kcnt - 1) < inst then -1
         else if inst \<le> key ! 0 then 0
         else int (snd (bisect (\<lambda>m. key ! m < inst) 0 kcnt)))"

subsection \<open>Blocks\<close>

text \<open>The left operand shares its memory with an immediate value and the label of a handler.\<close>

datatype left_operand = LNull | LOperand nat | LImmediate int | LHandler int
datatype right_operand = RNull | ROperand nat | RException "nat option"

text \<open>
  \<open>block_id\<close> shares its memory with the pointer to the target block, which is the index of the block
  here, \<^const>\<open>None\<close> for a null pointer, once the branch has been linked.
\<close>

record dalvik_block_branch =
  block_id :: int
  block_ptr :: "nat option"
  left_op :: left_operand
  right_op :: right_operand
  conditional :: bool
  eq :: bool
  lt :: bool
  gt :: bool
  linked :: bool
  disabled :: bool
  left_inst :: bool

record dalvik_block =
  index :: nat
  blk_begin :: u32
  blk_end :: u32
  branches :: "dalvik_block_branch list"
  nregs :: nat

definition branch_zero :: dalvik_block_branch where
  "branch_zero = \<lparr>block_id = 0, block_ptr = None, left_op = LNull, right_op = RNull, conditional = False, eq = False,
     lt = False, gt = False, linked = False, disabled = False, left_inst = False\<rparr>"

definition dalvik_block_new :: "nat \<Rightarrow> dalvik_block" where
  "dalvik_block_new nbranches =
     \<lparr>index = 0, blk_begin = 0, blk_end = 0, branches = replicate nbranches branch_zero, nregs = 0\<rparr>"

text \<open>
  The type of an unconditional branch is kept in the two bits of the flags that a conditional
  branch uses for \<^verbatim>\<open>eq\<close> and \<^verbatim>\<open>lt\<close>.
\<close>

definition DALVIK_BLOCK_BRANCH_UNCOND_TYPE_GET :: "dalvik_block_branch \<Rightarrow> nat" where
  "DALVIK_BLOCK_BRANCH_UNCOND_TYPE_GET b = of_bool (eq b) + 2 * of_bool (lt b)"

definition DALVIK_BLOCK_BRANCH_UNCOND_TYPE_SET :: "nat \<Rightarrow> dalvik_block_branch \<Rightarrow> dalvik_block_branch" where
  "DALVIK_BLOCK_BRANCH_UNCOND_TYPE_SET ty b = b\<lparr>eq := odd ty, lt := odd (ty div 2)\<rparr>"

definition DALVIK_BLOCK_BRANCH_UNCOND_TYPE_IS_RETURN :: "dalvik_block_branch \<Rightarrow> bool" where
  "DALVIK_BLOCK_BRANCH_UNCOND_TYPE_IS_RETURN b \<longleftrightarrow> DALVIK_BLOCK_BRANCH_UNCOND_TYPE_GET b = 1 \<and> \<not> conditional b"

definition dalvik_block_setup_keyinst_goto :: "jump_table \<Rightarrow> dalvik_instruction \<Rightarrow> u32 list \<Rightarrow> nat \<Rightarrow> dalvik_block" where
  "dalvik_block_setup_keyinst_goto jt inst key idx =
     (let target = jt (op_labelid inst 0)
      in (dalvik_block_new 1)\<lparr>index := idx,
           branches := [branch_zero\<lparr>linked := False, conditional := False,
             block_id := dalvik_block_find_blockid_by_instruction target key\<rparr>]\<rparr>)"

definition dalvik_block_setup_keyinst_if :: "jump_table \<Rightarrow> dalvik_instruction \<Rightarrow> u32 list \<Rightarrow> nat \<Rightarrow> dalvik_block" where
  "dalvik_block_setup_keyinst_if jt inst key idx =
     (let b1 = branch_zero\<lparr>conditional := False, linked := False\<rparr>;
          b1 = (if inst_next inst = DALVIK_INSTRUCTION_INVALID then b1\<lparr>disabled := True\<rparr>
                else b1\<lparr>block_id := dalvik_block_find_blockid_by_instruction (inst_next inst) key\<rparr>);
          target = jt (op_labelid inst 2);
          fl = flags inst;
          b0 = branch_zero\<lparr>conditional := True, linked := False,
                 block_id := dalvik_block_find_blockid_by_instruction target key,
                 left_op := LOperand 0, right_op := ROperand 1,
                 eq := fl = DVM_FLAG_IF_EQ \<or> fl = DVM_FLAG_IF_LE \<or> fl = DVM_FLAG_IF_GE,
                 lt := fl = DVM_FLAG_IF_LE \<or> fl = DVM_FLAG_IF_LT,
                 gt := fl = DVM_FLAG_IF_GE \<or> fl = DVM_FLAG_IF_GT\<rparr>
      in (dalvik_block_new 2)\<lparr>index := idx, branches := [b0, b1]\<rparr>)"

definition packed_branch :: "jump_table \<Rightarrow> u32 list \<Rightarrow> int \<Rightarrow> nat \<Rightarrow> nat \<Rightarrow> dalvik_block_branch" where
  "packed_branch jt key value_begin j target =
     branch_zero\<lparr>conditional := True, linked := False,
       block_id := dalvik_block_find_blockid_by_instruction (jt target) key,
       left_inst := True, left_op := LImmediate (int j + value_begin), right_op := ROperand 0, eq := True\<rparr>"

definition sparse_branch :: "jump_table \<Rightarrow> u32 list \<Rightarrow> sparse_switch_branch \<Rightarrow> dalvik_block_branch" where
  "sparse_branch jt key branch =
     (let b = branch_zero\<lparr>conditional := True, linked := False,
                block_id := dalvik_block_find_blockid_by_instruction (jt (sb_labelid branch)) key\<rparr>
      in if sb_is_default branch then b\<lparr>conditional := False, linked := False\<rparr>
         else b\<lparr>left_inst := True, left_op := LImmediate (sb_cond branch), right_op := ROperand 1, eq := True\<rparr>)"

text \<open>
  The last branch of a packed switch is made unconditional afterwards. A packed switch without any branch
  writes in front of the branch array, which is undefined, \<^const>\<open>None\<close>; \<^const>\<open>Inl\<close> is the error of
  unknown flags.
\<close>

definition dalvik_block_setup_keyinst_switch ::
  "jump_table \<Rightarrow> dalvik_instruction \<Rightarrow> u32 list \<Rightarrow> nat \<Rightarrow> (unit + dalvik_block) option" where
  "dalvik_block_setup_keyinst_switch jt inst key idx =
     (if flags inst = DVM_FLAG_SWITCH_PACKED
      then let lv = the (op_branches inst 2);
               bs = map (\<lambda>(j, l). packed_branch jt key (op_int32 inst 1) j l) (enumerate 0 lv)
           in if bs = [] then None
              else Some (Inr ((dalvik_block_new (length lv))\<lparr>index := idx,
                     branches := bs[length bs - 1 := (last bs)\<lparr>conditional := False\<rparr>]\<rparr>))
      else if flags inst = DVM_FLAG_SWITCH_SPARSE
      then let lv = the (op_sparse inst 1)
           in Some (Inr ((dalvik_block_new (length lv))\<lparr>index := idx, branches := map (sparse_branch jt key) lv\<rparr>))
      else Some (Inl ()))"

text \<open>
  The branches for the exception handlers. A handler without a block disables its branch and ends
  the loop, so that the branches for the handlers behind it stay as they were allocated.
\<close>

fun handler_branches :: "jump_table \<Rightarrow> u32 list \<Rightarrow> exception_handler list \<Rightarrow> dalvik_block_branch list" where
  "handler_branches jt key [] = []"
| "handler_branches jt key (h # hs) =
     (let target = dalvik_block_find_blockid_by_instruction (jt (nat (eh_handler_label h))) key
      in if target < 0 then branch_zero\<lparr>disabled := True\<rparr> # replicate (length hs) branch_zero
         else DALVIK_BLOCK_BRANCH_UNCOND_TYPE_SET 2 (branch_zero\<lparr>block_id := target,
                right_op := RException (eh_exception h), left_op := LHandler (eh_handler_label h)\<rparr>)
              # handler_branches jt key hs)"

definition dalvik_block_setup_keyinst :: "jump_table \<Rightarrow> dalvik_instruction \<Rightarrow> u32 list \<Rightarrow> nat \<Rightarrow> dalvik_block" where
  "dalvik_block_setup_keyinst jt inst key idx =
     (let b0 = branch_zero\<lparr>conditional := False\<rparr>;
          b0 = (if inst_next inst \<noteq> DALVIK_INSTRUCTION_INVALID
                then b0\<lparr>block_id := dalvik_block_find_blockid_by_instruction (inst_next inst) key\<rparr>
                else b0\<lparr>disabled := True\<rparr>)
      in (dalvik_block_new (1 + length (handler_set inst)))\<lparr>index := idx,
           branches := b0 # handler_branches jt key (handler_set inst)\<rparr>)"

definition dalvik_block_setup_return :: "nat \<Rightarrow> dalvik_block" where
  "dalvik_block_setup_return idx =
     (dalvik_block_new 1)\<lparr>index := idx,
        branches := [DALVIK_BLOCK_BRANCH_UNCOND_TYPE_SET 1 (branch_zero\<lparr>left_inst := False, conditional := False\<rparr>)
                       \<lparr>left_op := LOperand 0\<rparr>]\<rparr>"

text \<open>The block of a key instruction, and where it ends.\<close>

definition key_block :: "jump_table \<Rightarrow> dalvik_instruction \<Rightarrow> u32 list \<Rightarrow> nat \<Rightarrow> (unit + dalvik_block \<times> u32) option" where
  "key_block jt inst key i =
     (case opcode inst of
        DVM_GOTO \<Rightarrow> Some (Inr (dalvik_block_setup_keyinst_goto jt inst key i, key ! i))
      | DVM_IF \<Rightarrow> Some (Inr (dalvik_block_setup_keyinst_if jt inst key i, key ! i))
      | DVM_SWITCH \<Rightarrow> map_option (map_sum id (\<lambda>b. (b, key ! i))) (dalvik_block_setup_keyinst_switch jt inst key i)
      | DVM_RETURN \<Rightarrow> Some (Inr (dalvik_block_setup_return i, key ! i))
      | _ \<Rightarrow> Some (Inr (dalvik_block_setup_keyinst jt inst key i, inst_next inst)))"

text \<open>The loop from key \<open>i\<close> on; \<^const>\<open>None\<close> is undefined, \<^const>\<open>Inl\<close> the error \<open>-1\<close>.\<close>

function build_loop :: "inst_pool \<Rightarrow> jump_table \<Rightarrow> u32 list \<Rightarrow> nat \<Rightarrow> u32 \<Rightarrow> (unit + dalvik_block list) option" where
  "build_loop code jt key i block_begin =
     (if i < length key
      then let inst = code (key ! i)
           in case key_block jt inst key i of
                None \<Rightarrow> None
              | Some (Inl _) \<Rightarrow> Some (Inl ())
              | Some (Inr (b, block_end)) \<Rightarrow>
                  map_option (map_sum id (\<lambda>bs. b\<lparr>blk_begin := block_begin, blk_end := block_end\<rparr> # bs))
                    (build_loop code jt key (i + 1) (inst_next inst))
      else Some (Inr []))"
  by pat_completeness auto
termination
  by (relation "measure (\<lambda>(code, jt, key, i, b). length key - i)") auto

declare build_loop.simps [simp del]

definition dalvik_block_build_graph :: "inst_pool \<Rightarrow> jump_table \<Rightarrow> u32 \<Rightarrow> u32 list \<Rightarrow> (unit + dalvik_block list) option" where
  "dalvik_block_build_graph code jt entry key = build_loop code jt key 0 entry"

subsection \<open>Linking and reachability\<close>

text \<open>
  \<^verbatim>\<open>blocks\<close> has \<^const>\<open>DALVIK_BLOCK_MAX_KEYS\<close> entries, null behind the blocks that were built; an
  index outside of the array is \<^const>\<open>None\<close>.
\<close>

definition link_branch :: "nat \<Rightarrow> dalvik_block_branch \<Rightarrow> dalvik_block_branch option" where
  "link_branch n b =
     (if disabled b then Some b
      else if \<not> DALVIK_BLOCK_BRANCH_UNCOND_TYPE_IS_RETURN b
      then if 0 \<le> block_id b \<and> block_id b < int DALVIK_BLOCK_MAX_KEYS
           then Some (b\<lparr>block_ptr := (if nat (block_id b) < n then Some (nat (block_id b)) else None), linked := True\<rparr>)
           else None
      else Some (b\<lparr>block_ptr := None, linked := True\<rparr>))"

definition link_block :: "nat \<Rightarrow> dalvik_block \<Rightarrow> dalvik_block option" where
  "link_block n b = map_option (\<lambda>bs. b\<lparr>branches := bs\<rparr>) (map_opt (link_branch n) (branches b))"

definition link_blocks :: "dalvik_block list \<Rightarrow> dalvik_block list option" where
  "link_blocks bs = map_opt (link_block (length bs)) bs"

definition follows :: "dalvik_block_branch \<Rightarrow> bool" where
  "follows b \<longleftrightarrow> \<not> disabled b \<and> \<not> DALVIK_BLOCK_BRANCH_UNCOND_TYPE_IS_RETURN b"

text \<open>
  The search, with the visit flags as a set of block indices. Every call on a block that was not
  visited marks it, so fuel of one more than the number of blocks is enough.
\<close>

fun dalvik_block_graph_dfs :: "nat \<Rightarrow> dalvik_block list \<Rightarrow> nat option \<Rightarrow> nat set \<Rightarrow> nat set option"
and dfs_branches :: "nat \<Rightarrow> dalvik_block list \<Rightarrow> dalvik_block_branch list \<Rightarrow> nat set \<Rightarrow> nat set option" where
  "dalvik_block_graph_dfs 0 bs b visit = None"
| "dalvik_block_graph_dfs (Suc f) bs b visit =
     (case b of
        None \<Rightarrow> Some visit
      | Some i \<Rightarrow>
          if index (bs ! i) \<in> visit then Some visit
          else dfs_branches f bs (branches (bs ! i)) (insert (index (bs ! i)) visit))"
| "dfs_branches f bs [] visit = Some visit"
| "dfs_branches f bs (br # brs) visit =
     (if follows br
      then (case dalvik_block_graph_dfs f bs (block_ptr br) visit of
              None \<Rightarrow> None
            | Some visit \<Rightarrow> dfs_branches f bs brs visit)
      else dfs_branches f bs brs visit)"

subsection \<open>The cache and the entry point\<close>

definition DALVIK_BLOCK_CACHE_SIZE :: nat where "DALVIK_BLOCK_CACHE_SIZE = 100007"

text \<open>A graph is its array of blocks, \<^const>\<open>None\<close> where a block was freed; the empty graph is the null pointer.\<close>

type_synonym block_graph = "dalvik_block option list"

record block_cache_node =
  bc_methodname :: nat
  bc_classpath :: nat
  bc_typelist :: "dalvik_type list option"
  bc_returntype :: "dalvik_type option"
  bc_block :: block_graph

type_synonym block_cache = "block_cache_node htab"

record method_code =
  m_entry :: u32
  m_num_regs :: nat

definition dalvik_block_init :: "block_cache \<Rightarrow> int \<times> block_cache" where
  "dalvik_block_init cache = (0, chain_empty)"

definition dalvik_block_hash ::
  "atom_table \<Rightarrow> nat \<Rightarrow> nat \<Rightarrow> dalvik_type list option \<Rightarrow> dalvik_type option \<Rightarrow> u32" where
  "dalvik_block_hash atoms class method typelist rtype =
     ucast (((of_nat class AND 0xffffffff) * MH_MULTIPLY) XOR ((of_nat method AND 0xffff) * MH_MULTIPLY) XOR
            drop_bit 16 (of_nat method) XOR NOT (drop_bit 4 (of_nat class)) XOR
            ucast (dalvik_type_list_hashcode atoms typelist) XOR
            (MH_MULTIPLY * ucast (dalvik_type_hashcode atoms rtype)) :: u64)"

text \<open>The search in the cache does not compare the return type.\<close>

definition cache_find :: "nat \<Rightarrow> nat \<Rightarrow> dalvik_type list option \<Rightarrow> block_cache_node list \<Rightarrow> block_cache_node option" where
  "cache_find classpath methodname typelist chain =
     find (\<lambda>p. bc_methodname p = methodname \<and> bc_classpath p = classpath \<and> dalvik_type_list_equal typelist (bc_typelist p)) chain"

definition dalvik_block_cache_node_alloc ::
  "nat \<Rightarrow> nat \<Rightarrow> dalvik_type list option \<Rightarrow> dalvik_type option \<Rightarrow> block_graph \<Rightarrow> block_cache_node" where
  "dalvik_block_cache_node_alloc class method typelist ty block =
     \<lparr>bc_methodname = method, bc_classpath = class, bc_typelist = dalvik_type_list_clone typelist,
      bc_returntype = map_option dalvik_type_clone ty, bc_block = block\<rparr>"

text \<open>Unreachable blocks are freed. The back pointer of a block to its cache node is not modelled.\<close>

definition prune :: "nat \<Rightarrow> nat set \<Rightarrow> dalvik_block list \<Rightarrow> block_graph" where
  "prune num_regs visit bs = map (\<lambda>b. if index b \<notin> visit then None else Some (b\<lparr>nregs := num_regs\<rparr>)) bs"

text \<open>\<open>Inl\<close> is an error that is reported with a null pointer.\<close>

definition dalvik_block_make ::
  "nat \<Rightarrow> inst_pool \<Rightarrow> jump_table \<Rightarrow> method_code \<Rightarrow> (unit + block_graph) option" where
  "dalvik_block_make f code jt method =
     (case dalvik_block_get_key_instruction_list f code jt (m_entry method) DALVIK_BLOCK_MAX_KEYS of
        None \<Rightarrow> None
      | Some (Inl _) \<Rightarrow> Some (Inl ())
      | Some (Inr key) \<Rightarrow>
          (case dalvik_block_build_graph code jt (m_entry method) key of
             None \<Rightarrow> None
           | Some (Inl _) \<Rightarrow> Some (Inl ())
           | Some (Inr bs) \<Rightarrow>
               (case link_blocks bs of
                  None \<Rightarrow> None
                | Some bs \<Rightarrow>
                    (case dalvik_block_graph_dfs (Suc (length bs)) bs (if bs = [] then None else Some 0) {} of
                       None \<Rightarrow> None
                     | Some visit \<Rightarrow> Some (Inr (prune (m_num_regs method) visit bs))))))"

definition dalvik_block_from_method ::
  "nat \<Rightarrow> atom_table \<Rightarrow> inst_pool \<Rightarrow> jump_table \<Rightarrow> method_code memberdict \<Rightarrow> nat option \<Rightarrow> nat option
     \<Rightarrow> dalvik_type list \<Rightarrow> dalvik_type option \<Rightarrow> block_cache \<Rightarrow> (block_graph \<times> block_cache) option" where
  "dalvik_block_from_method f atoms code jt dict class method typelist rtype cache =
     (case (class, method) of
        (Some classpath, Some methodname) \<Rightarrow>
          let h = unat (dalvik_block_hash atoms classpath methodname (Some typelist) rtype mod of_nat DALVIK_BLOCK_CACHE_SIZE)
          in (case cache_find classpath methodname (Some typelist) (cache h) of
                Some p \<Rightarrow> Some (bc_block p, cache)
              | None \<Rightarrow>
                  (case dalvik_memberdict_get_method atoms classpath methodname typelist rtype dict of
                     None \<Rightarrow> Some ([], cache)
                   | Some m \<Rightarrow>
                       (case dalvik_block_make f code jt m of
                          None \<Rightarrow> None
                        | Some (Inl _) \<Rightarrow> Some ([], cache)
                        | Some (Inr graph) \<Rightarrow>
                            let node = dalvik_block_cache_node_alloc classpath methodname (Some typelist) rtype graph
                            in Some (graph, cache(h := node # cache h)))))
      | _ \<Rightarrow> Some ([], cache))"

subsection \<open>The search for a block\<close>

lemma find_blockid_cases:
  assumes "sorted_wrt (<) key"
  shows "if key = [] \<or> last key < inst then dalvik_block_find_blockid_by_instruction inst key = -1
    else \<exists>r. dalvik_block_find_blockid_by_instruction inst key = int r \<and> r < length key \<and> inst \<le> key ! r \<and>
      (\<forall>j < r. key ! j < inst)"
proof (cases "key = [] \<or> last key < inst")
  case True
  then show ?thesis
    by (cases "key = []") (auto simp: dalvik_block_find_blockid_by_instruction_def last_conv_nth Let_def)
next
  case False
  then have ne: "key \<noteq> []" "\<not> key ! (length key - 1) < inst" by (auto simp: last_conv_nth)
  show ?thesis
  proof (cases "inst \<le> key ! 0")
    case True
    then show ?thesis using False ne
      by (auto simp: dalvik_block_find_blockid_by_instruction_def intro!: exI [of _ 0])
  next
    case gt: False
    obtain l r where lr: "bisect (\<lambda>m. key ! m < inst) 0 (length key) = (l, r)" by fastforce
    have b: "r \<le> length key" "r = Suc l" using bisect_bounds [OF _ lr] ne(1) by auto
    have l: "key ! l < inst" using bisect_left [OF lr] gt by simp
    moreover have "l = length key - 1" if "r = length key" using that b(2) by simp
    ultimately have "r \<noteq> length key" using ne(2) by blast
    then have r: "r < length key" "\<not> key ! r < inst" using bisect_right [OF lr] b by auto
    have "key ! j < inst" if "j < r" for j
    proof (cases "j = l")
      case False
      then have "key ! j < key ! l" using that b r(1) assms by (auto simp: sorted_wrt_iff_nth_less)
      then show ?thesis using l by simp
    qed (use l in simp)
    then show ?thesis using False ne gt lr r
      by (auto simp: dalvik_block_find_blockid_by_instruction_def Let_def not_less intro!: exI [of _ r])
  qed
qed

text \<open>
  On the sorted key instructions, the binary search returns the first block whose key is not
  before the instruction, and \<open>-1\<close> exactly when the instruction is behind the last key.
\<close>

theorem dalvik_block_find_blockid_correct:
  assumes "sorted_wrt (<) key"
  shows "(dalvik_block_find_blockid_by_instruction inst key = -1 \<longleftrightarrow> (\<forall>k \<in> set key. k < inst)) \<and>
    (\<forall>r < length key. dalvik_block_find_blockid_by_instruction inst key = int r \<longleftrightarrow>
       inst \<le> key ! r \<and> (\<forall>j < r. key ! j < inst))"
proof (cases "key = [] \<or> last key < inst")
  case True
  have less: "k < inst" if k: "k \<in> set key" for k
  proof -
    obtain j where j: "j < length key" "k = key ! j" using k by (auto simp: in_set_conv_nth)
    then have "k \<le> key ! (length key - 1)"
      using assms by (cases "j = length key - 1") (auto simp: sorted_wrt_iff_nth_less intro: order.strict_implies_order)
    moreover have "key ! (length key - 1) = last key" using j(1) by (subst last_conv_nth) auto
    ultimately show ?thesis using True j(1) by auto
  qed
  have "dalvik_block_find_blockid_by_instruction inst key = -1" using find_blockid_cases [OF assms, of inst] True by simp
  moreover have "\<not> inst \<le> key ! r" if "r < length key" for r using less [OF nth_mem [OF that]] by simp
  ultimately show ?thesis using less by simp
next
  case False
  then obtain r where r: "dalvik_block_find_blockid_by_instruction inst key = int r" "r < length key"
    "inst \<le> key ! r" "\<forall>j < r. key ! j < inst" using find_blockid_cases [OF assms, of inst] by auto
  have "\<not> (\<forall>k \<in> set key. k < inst)" using r(2,3) nth_mem [OF r(2)] by (auto simp: not_less)
  moreover have "int r = int r' \<longleftrightarrow> inst \<le> key ! r' \<and> (\<forall>j < r'. key ! j < inst)" for r'
  proof
    assume r': "inst \<le> key ! r' \<and> (\<forall>j < r'. key ! j < inst)"
    have "\<not> r < r'" using r' r(3) by (auto simp: not_less [symmetric])
    moreover have "\<not> r' < r" using r' r(4) by (auto simp: not_less [symmetric])
    ultimately show "int r = int r'" by simp
  qed (use r(3,4) in simp)
  ultimately show ?thesis using r(1) by simp
qed

theorem dalvik_block_find_blockid_witness:
  "sorted_wrt (<) [3, 5, 9 :: u32] \<and> dalvik_block_find_blockid_by_instruction 4 [3, 5, 9] = int 1 \<and>
     dalvik_block_find_blockid_by_instruction 10 [3, 5, 9] = -1"
  using dalvik_block_find_blockid_correct [of "[3, 5, 9]" 4] dalvik_block_find_blockid_correct [of "[3, 5, 9]" 10]
  by (auto simp: less_Suc_eq)

subsection \<open>The key instructions of a method\<close>

text \<open>The labels that an instruction jumps to.\<close>

definition jump_labels :: "dalvik_instruction \<Rightarrow> nat list" where
  "jump_labels inst =
     (case opcode inst of
        DVM_GOTO \<Rightarrow> [op_labelid inst 0]
      | DVM_IF \<Rightarrow> [op_labelid inst 2]
      | DVM_SWITCH \<Rightarrow>
          if flags inst = DVM_FLAG_SWITCH_PACKED then (case op_branches inst 2 of None \<Rightarrow> [] | Some lv \<Rightarrow> lv)
          else if flags inst = DVM_FLAG_SWITCH_SPARSE
          then (case op_sparse inst 1 of None \<Rightarrow> [] | Some lv \<Rightarrow> map sb_labelid lv) else []
      | _ \<Rightarrow> [])"

text \<open>
  The code of a method as its reader leaves it: \<open>n\<close> consecutive instructions from the entry point on,
  chained in order, whose switches have their tables, no packed one without a label, and whose jumps stay in the method. The method
  does not start at instruction 0, and the numbers fit an \<^verbatim>\<open>int\<close>.
\<close>

definition empty_switch :: "dalvik_instruction \<Rightarrow> bool" where
  "empty_switch inst \<longleftrightarrow> opcode inst = DVM_SWITCH \<and> flags inst = DVM_FLAG_SWITCH_PACKED \<and> op_branches inst 2 = Some []"

definition method_wf :: "inst_pool \<Rightarrow> jump_table \<Rightarrow> u32 \<Rightarrow> nat \<Rightarrow> bool" where
  "method_wf code jt entry n \<longleftrightarrow> 0 < n \<and> 0 < unat entry \<and> unat entry + n < 2 ^ 31 \<and>
     (\<forall>i < n. inst_next (code (entry + of_nat i)) =
        (if Suc i = n then DALVIK_INSTRUCTION_INVALID else entry + of_nat (Suc i))) \<and>
     (\<forall>i < n. \<not> snd (inst_keys jt entry (code (entry + of_nat i)) (entry + of_nat i)) \<and>
        \<not> empty_switch (code (entry + of_nat i))) \<and>
     (\<forall>i < n. \<forall>l \<in> set (jump_labels (code (entry + of_nat i))). \<exists>k < n. jt l = entry + of_nat k)"

definition keys_at :: "inst_pool \<Rightarrow> jump_table \<Rightarrow> u32 \<Rightarrow> nat \<Rightarrow> u32 list" where
  "keys_at code jt entry i = fst (inst_keys jt entry (code (entry + of_nat i)) (entry + of_nat i))"

definition method_keys :: "inst_pool \<Rightarrow> jump_table \<Rightarrow> u32 \<Rightarrow> nat \<Rightarrow> u32 list" where
  "method_keys code jt entry n = concat (map (keys_at code jt entry) [0..<n]) @ [entry + of_nat (n - 1)]"

lemma unat_inst:
  assumes "method_wf code jt entry n" "i \<le> n"
  shows "unat (entry + of_nat i) = unat entry + i"
proof -
  have "unat entry + i < 2 ^ 32" using assms by (simp add: method_wf_def)
  then show ?thesis by (simp add: unat_word_ariths unat_of_nat)
qed

lemma inst_eq_iff:
  assumes "method_wf code jt entry n" "i \<le> n" "j \<le> n"
  shows "entry + of_nat i = entry + of_nat j \<longleftrightarrow> i = j"
    and "entry + of_nat i < entry + of_nat j \<longleftrightarrow> i < j" and "entry + of_nat i \<le> entry + of_nat j \<longleftrightarrow> i \<le> j"
  using unat_inst [OF assms(1,2)] unat_inst [OF assms(1,3)]
  by (simp_all add: word_unat_eq_iff word_less_nat_alt word_le_nat_alt)

lemma inst_not_invalid: "method_wf code jt entry n \<Longrightarrow> i < n \<Longrightarrow> entry + of_nat i \<noteq> DALVIK_INSTRUCTION_INVALID"
proof
  assume a: "method_wf code jt entry n" "i < n" "entry + of_nat i = DALVIK_INSTRUCTION_INVALID"
  then have "unat entry + i = unat DALVIK_INSTRUCTION_INVALID" using unat_inst [of code jt entry n i] by simp
  then show False using a by (simp add: method_wf_def DALVIK_INSTRUCTION_INVALID_def)
qed

lemma push_keys_append:
  "push_keys entry sz (us @ vs) key =
     (case push_keys entry sz us key of None \<Rightarrow> None | Some key \<Rightarrow> push_keys entry sz vs key)"
  by (induction entry sz us key rule: push_keys.induct) auto

lemma push_keys_filter: "push_keys entry sz vs key = Some key' \<Longrightarrow> key' = key @ filter (\<lambda>v. entry \<le> v) vs"
  by (induction entry sz vs key rule: push_keys.induct) (auto split: if_splits)

lemma scan_keys_run:
  assumes "method_wf code jt entry n" "i \<le> n" "last_instruction = (if i = 0 then DALVIK_INSTRUCTION_INVALID else entry + of_nat (i - 1))"
  shows "scan_keys (Suc (n - i)) code jt entry sz (if i = n then DALVIK_INSTRUCTION_INVALID else entry + of_nat i)
      last_instruction key =
    (case push_keys entry sz (concat (map (keys_at code jt entry) [i..<n]) @ [entry + of_nat (n - 1)]) key of
       None \<Rightarrow> Some KeysFull | Some key \<Rightarrow> Some (Keys key))"
  using assms(2,3)
proof (induction "n - i" arbitrary: i last_instruction key)
  case 0
  then have "i = n" by simp
  moreover have "n \<noteq> 0" using assms(1) by (simp add: method_wf_def)
  ultimately show ?case using 0 inst_not_invalid [OF assms(1), of "n - 1"] by simp
next
  case (Suc m)
  then have i: "i < n" "m = n - Suc i" by auto
  have next_inst: "inst_next (code (entry + of_nat i)) = (if Suc i = n then DALVIK_INSTRUCTION_INVALID else entry + of_nat (Suc i))"
    and valid: "\<not> snd (inst_keys jt entry (code (entry + of_nat i)) (entry + of_nat i))"
    using assms(1) i(1) by (auto simp: method_wf_def)
  have keys: "inst_keys jt entry (code (entry + of_nat i)) (entry + of_nat i) = (keys_at code jt entry i, False)"
    using valid by (cases "inst_keys jt entry (code (entry + of_nat i)) (entry + of_nat i)") (simp add: keys_at_def)
  have upt: "[i..<n] = i # [Suc i..<n]" using i(1) by (simp add: upt_conv_Cons)
  have IH: "scan_keys (Suc (n - Suc i)) code jt entry sz
      (if Suc i = n then DALVIK_INSTRUCTION_INVALID else entry + of_nat (Suc i)) (entry + of_nat i) key' =
    (case push_keys entry sz (concat (map (keys_at code jt entry) [Suc i..<n]) @ [entry + of_nat (n - 1)]) key' of
       None \<Rightarrow> Some KeysFull | Some key \<Rightarrow> Some (Keys key))" for key'
    using Suc.hyps(1) [OF i(2), of "entry + of_nat i" key'] i(1) by simp
  have fuel: "Suc (n - i) = Suc (Suc (n - Suc i))" using i(1) by simp
  have "scan_keys (Suc (n - i)) code jt entry sz (entry + of_nat i) last_instruction key =
    (case push_keys entry sz (keys_at code jt entry i) key of
       None \<Rightarrow> Some KeysFull
     | Some key \<Rightarrow> scan_keys (Suc (n - Suc i)) code jt entry sz
         (if Suc i = n then DALVIK_INSTRUCTION_INVALID else entry + of_nat (Suc i)) (entry + of_nat i) key)"
    unfolding fuel by (subst scan_keys.simps(2)) (simp only: keys next_inst inst_not_invalid [OF assms(1) i(1)] if_False prod.case)
  then show ?case
    using i(1) unfolding IH upt by (simp add: push_keys_append split: option.split del: scan_keys.simps push_keys.simps)
qed

lemma unique_loop_sorted:
  "sorted (map sint (prev # key)) \<Longrightarrow>
     sorted_wrt (\<lambda>a b. sint a < sint b) (prev # unique_loop prev key) \<and> set (prev # unique_loop prev key) = set (prev # key)"
proof (induction prev key rule: unique_loop.induct)
  case (2 prev k key)
  show ?case
  proof (cases "prev = k")
    case True
    then show ?thesis using 2 by auto
  next
    case False
    have "sint prev \<le> sint k" "sorted (map sint (k # key))" using "2.prems" by auto
    moreover have "sint prev \<noteq> sint k" using False by (auto dest: signed_word_eqI)
    ultimately show ?thesis using "2.IH"(2) [OF False] False by fastforce
  qed
qed simp

lemma unique_keys_sorted:
  "sorted_wrt (\<lambda>a b. sint a < sint b) (unique_keys (sort_keys key)) \<and> set (unique_keys (sort_keys key)) = set key"
proof -
  have s: "sorted (map sint (sort_keys key))" "set (sort_keys key) = set key" by (simp_all add: sort_keys_def)
  show ?thesis
  proof (cases "sort_keys key")
    case Nil
    then show ?thesis using s(2) by (simp add: unique_keys_def)
  next
    case (Cons k ks)
    then show ?thesis using unique_loop_sorted [of k ks] s by (simp add: unique_keys_def)
  qed
qed

lemma keys_at_jump: "inst_keys jt entry inst k = (vs, False) \<Longrightarrow> l \<in> set (jump_labels inst) \<Longrightarrow> label_key jt l \<in> set vs \<and> k \<in> set vs"
  supply TrueI [simproc del: list_to_set_comprehension]
  by (cases "opcode inst") (auto simp: inst_keys_def jump_labels_def own_block_def split: if_splits option.splits)

lemma keys_at_cases:
  "inst_keys jt entry inst k = (vs, b) \<Longrightarrow> v \<in> set vs \<Longrightarrow>
     v = k \<or> v = k - 1 \<and> k \<noteq> entry \<or> (\<exists>l \<in> set (jump_labels inst). v = label_key jt l)"
  supply TrueI [simproc del: list_to_set_comprehension]
  by (cases "opcode inst") (auto simp: inst_keys_def jump_labels_def own_block_def split: if_splits option.splits)

lemma inst_keys_length: "length (fst (inst_keys jt entry inst k)) \<le> 2 + length (jump_labels inst)"
  by (cases "opcode inst") (auto simp: inst_keys_def jump_labels_def own_block_def split: option.splits)

lemma inst_pred:
  assumes "method_wf code jt entry n" "i \<le> n" "0 < i"
  shows "entry + of_nat i - 1 = entry + of_nat (i - 1)"
  using assms(3) by (cases i) simp_all

lemma entry_pred: "method_wf code jt entry n \<Longrightarrow> entry - 1 < entry"
  by (simp add: method_wf_def word_less_nat_alt unat_minus_one unat_eq_0 [symmetric] del: unat_eq_0)

lemma method_keys_range:
  assumes wf: "method_wf code jt entry n" and k: "k \<in> set (method_keys code jt entry n)" "entry \<le> k"
  shows "\<exists>i < n. k = entry + of_nat i"
proof -
  have n: "0 < n" using wf by (simp add: method_wf_def)
  have lab: "\<exists>i < n. k = entry + of_nat i" if "k = entry + of_nat j - 1" "j \<le> n" for j
  proof (cases j)
    case 0
    then show ?thesis using that(1) k(2) entry_pred [OF wf] by simp
  next
    case (Suc j')
    then show ?thesis using that by (intro exI [of _ j']) simp
  qed
  consider "k = entry + of_nat (n - 1)" | i where "i < n" "k \<in> set (keys_at code jt entry i)"
    using k(1) by (auto simp: method_keys_def)
  then show ?thesis
  proof cases
    case 1
    then show ?thesis using n by (intro exI [of _ "n - 1"]) simp
  next
    case (2 i)
    then have "k = entry + of_nat i \<or> k = entry + of_nat i - 1 \<or>
        (\<exists>l \<in> set (jump_labels (code (entry + of_nat i))). k = label_key jt l)"
      using keys_at_cases [OF prod.collapse [symmetric], of k] by (auto simp: keys_at_def)
    moreover have "\<exists>j < n. jt l = entry + of_nat j" if "l \<in> set (jump_labels (code (entry + of_nat i)))" for l
      using wf 2(1) that by (simp add: method_wf_def)
    ultimately show ?thesis using lab 2(1) unfolding label_key_def by (metis less_imp_le)
  qed
qed

lemma sint_inst: "method_wf code jt entry n \<Longrightarrow> i \<le> n \<Longrightarrow> sint (entry + of_nat i) = int (unat entry + i)"
  unfolding sint_uint uint_nat using unat_inst [of code jt entry n i]
  by (subst signed_take_bit_int_eq_self) (auto simp: method_wf_def uint_nat simp del: of_nat_unat)

lemma key_list_cases:
  assumes wf: "method_wf code jt entry n"
  shows "dalvik_block_get_key_instruction_list (Suc n) code jt entry sz =
    (case push_keys entry sz (method_keys code jt entry n) [] of
       None \<Rightarrow> Some (Inr []) | Some ks \<Rightarrow> Some (Inr (unique_keys (sort_keys ks))))"
proof -
  have "n \<noteq> 0" using wf by (simp add: method_wf_def)
  then show ?thesis using scan_keys_run [OF wf le0 refl, of sz "[]"]
    by (auto simp: dalvik_block_get_key_instruction_list_def method_keys_def simp del: scan_keys.simps push_keys.simps
        split: option.splits)
qed

lemma key_list_pushed:
  assumes "method_wf code jt entry n"
    and "dalvik_block_get_key_instruction_list (Suc n) code jt entry sz = Some (Inr key)" "key \<noteq> []"
  shows "\<exists>ks. push_keys entry sz (method_keys code jt entry n) [] = Some ks \<and> key = unique_keys (sort_keys ks)"
  using assms(2,3) unfolding key_list_cases [OF assms(1)] by (auto split: option.splits)

lemma key_list_correct:
  assumes wf: "method_wf code jt entry n"
    and key: "dalvik_block_get_key_instruction_list (Suc n) code jt entry sz = Some (Inr key)" "key \<noteq> []"
  shows "sorted_wrt (<) key \<and> set key = {k \<in> set (method_keys code jt entry n). entry \<le> k}"
proof -
  obtain ks where ks: "push_keys entry sz (method_keys code jt entry n) [] = Some ks" "key = unique_keys (sort_keys ks)"
    using key_list_pushed [OF wf key] by blast
  have set_key: "set key = {k \<in> set (method_keys code jt entry n). entry \<le> k}"
    using push_keys_filter [OF ks(1)] unique_keys_sorted [of ks] ks(2) by auto
  have "a < b" if ab: "a \<in> set key" "b \<in> set key" "sint a < sint b" for a b
  proof -
    obtain i j where "i < n" "j < n" "a = entry + of_nat i" "b = entry + of_nat j"
      using method_keys_range [OF wf] ab(1,2) set_key by blast
    then show ?thesis using ab(3) sint_inst [OF wf, of i] sint_inst [OF wf, of j] inst_eq_iff(2) [OF wf, of i j] by simp
  qed
  then have "sorted_wrt (<) key" using unique_keys_sorted [of ks] ks(2) by (auto elim!: sorted_wrt_mono_rel [rotated])
  then show ?thesis using set_key by simp
qed

subsection \<open>The blocks of a method\<close>

lemma map_sum_Inr [simp]: "map_sum f g z = Inr y \<longleftrightarrow> (\<exists>x. z = Inr x \<and> y = g x)"
  by (cases z) auto

lemma key_block_index: "key_block jt inst key i = Some (Inr (b, e)) \<Longrightarrow> index b = i"
  by (cases "opcode inst")
    (auto simp: key_block_def dalvik_block_setup_keyinst_goto_def dalvik_block_setup_keyinst_if_def
      dalvik_block_setup_keyinst_switch_def dalvik_block_setup_keyinst_def dalvik_block_setup_return_def Let_def
      split: if_splits)

lemma build_loop_nth:
  assumes "build_loop code jt key i block_begin = Some (Inr bs)" "i \<le> length key"
  shows "length bs = length key - i \<and>
    (\<forall>r < length bs. \<exists>b e. key_block jt (code (key ! (i + r))) key (i + r) = Some (Inr (b, e)) \<and>
       bs ! r = b\<lparr>blk_begin := (if r = 0 then block_begin else inst_next (code (key ! (i + r - 1)))), blk_end := e\<rparr>)"
  using assms
proof (induction code jt key i block_begin arbitrary: bs rule: build_loop.induct)
  case (1 code jt key i block_begin)
  show ?case
  proof (cases "i < length key")
    case False
    then show ?thesis using "1.prems" by (subst (asm) build_loop.simps) auto
  next
    case True
    then obtain b e bs' where b: "key_block jt (code (key ! i)) key i = Some (Inr (b, e))"
      "build_loop code jt key (i + 1) (inst_next (code (key ! i))) = Some (Inr bs')"
      "bs = b\<lparr>blk_begin := block_begin, blk_end := e\<rparr> # bs'"
      using "1.prems"(1) unfolding build_loop.simps [of code jt key i block_begin] by (auto simp: Let_def split: option.splits sum.splits)
    have IH: "length bs' = length key - (i + 1)"
      "r < length bs' \<Longrightarrow> \<exists>b e. key_block jt (code (key ! (i + 1 + r))) key (i + 1 + r) = Some (Inr (b, e)) \<and>
        bs' ! r = b\<lparr>blk_begin := (if r = 0 then inst_next (code (key ! i)) else inst_next (code (key ! (i + 1 + r - 1)))),
          blk_end := e\<rparr>" for r
      using "1.IH" [OF True refl b(1) refl refl b(2)] True by auto
    have "\<exists>b e. key_block jt (code (key ! (i + r))) key (i + r) = Some (Inr (b, e)) \<and>
       bs ! r = b\<lparr>blk_begin := (if r = 0 then block_begin else inst_next (code (key ! (i + r - 1)))), blk_end := e\<rparr>"
      if "r < length bs" for r
    proof (cases r)
      case 0
      then show ?thesis using b(1,3) by simp
    next
      case (Suc r')
      then show ?thesis using IH(2) [of r'] that b(3) by (cases r') auto
    qed
    moreover have "length bs = length key - i" using b(3) IH(1) True by simp
    ultimately show ?thesis by blast
  qed
qed

lemma build_graph_nth:
  assumes "dalvik_block_build_graph code jt entry key = Some (Inr bs)"
  shows "length bs = length key"
    and "r < length key \<Longrightarrow> index (bs ! r) = r"
    and "r < length key \<Longrightarrow> blk_begin (bs ! r) = (if r = 0 then entry else inst_next (code (key ! (r - 1))))"
    and "r < length key \<Longrightarrow> \<exists>b e. key_block jt (code (key ! r)) key r = Some (Inr (b, e)) \<and> branches (bs ! r) = branches b"
proof -
  note B = build_loop_nth [OF assms [unfolded dalvik_block_build_graph_def] le0, simplified]
  show len: "length bs = length key" using B by simp
  show "index (bs ! r) = r" if r: "r < length key"
  proof -
    obtain b e where "key_block jt (code (key ! r)) key r = Some (Inr (b, e))" "index (bs ! r) = index b"
      using B r len by fastforce
    then show ?thesis using key_block_index by metis
  qed
  show "blk_begin (bs ! r) = (if r = 0 then entry else inst_next (code (key ! (r - 1))))" if "r < length key"
    using B that len by fastforce
  show "\<exists>b e. key_block jt (code (key ! r)) key r = Some (Inr (b, e)) \<and> branches (bs ! r) = branches b" if "r < length key"
    using B that len by fastforce
qed

lemma key_le_last: "sorted_wrt (<) key \<Longrightarrow> r < length key \<Longrightarrow> key ! r \<le> (last key :: u32)"
proof (induction key rule: rev_induct)
  case (snoc k key)
  then show ?case by (cases "r = length key") (auto simp: sorted_wrt_append nth_append intro: order.strict_implies_order)
qed simp

lemma wf_next: "method_wf code jt entry n \<Longrightarrow> Suc i < n \<Longrightarrow> inst_next (code (entry + of_nat i)) = entry + of_nat (Suc i)"
  by (simp add: method_wf_def)

lemma find_blockid_exact:
  assumes "sorted_wrt (<) key" "r < length key" "inst \<le> key ! r" "\<And>j. j < r \<Longrightarrow> key ! j < inst"
  shows "dalvik_block_find_blockid_by_instruction inst key = int r"
proof -
  have "\<not> (key = [] \<or> last key < inst)"
    using key_le_last [OF assms(1,2)] assms(2,3) by auto
  then obtain r' where r': "dalvik_block_find_blockid_by_instruction inst key = int r'" "inst \<le> key ! r'" "\<forall>j < r'. key ! j < inst"
    using find_blockid_cases [OF assms(1), of inst] by auto
  have "\<not> r < r'" using r'(3) assms(3) by (auto simp: not_less [symmetric])
  moreover have "\<not> r' < r" using r'(2) assms(4) by (auto simp: not_less [symmetric])
  ultimately show ?thesis using r'(1) by simp
qed

lemma jump_target_starts_block:
  assumes wf: "method_wf code jt entry n"
    and key: "dalvik_block_get_key_instruction_list (Suc n) code jt entry sz = Some (Inr key)" "key \<noteq> []"
    and start: "k < n" "k = 0 \<or> entry + of_nat (k - 1) \<in> set key"
  shows "\<exists>r < length key. dalvik_block_find_blockid_by_instruction (entry + of_nat k) key = int r \<and>
    (if r = 0 then entry else inst_next (code (key ! (r - 1)))) = entry + of_nat k"
proof -
  note K = key_list_correct [OF wf key]
  have n: "0 < n" using wf by (simp add: method_wf_def)
  have ge: "\<exists>i < n. v = entry + of_nat i" if "v \<in> set key" for v using K method_keys_range [OF wf] that by blast
  have lst: "entry + of_nat (n - 1) \<in> set key" 
    using K inst_eq_iff(3) [OF wf, of 0 "n - 1"] by (simp add: method_keys_def)
  show ?thesis
  proof (cases "k = 0")
    case True
    obtain i where "i < n" "key ! 0 = entry + of_nat i" using ge [OF nth_mem, of 0] key(2) by auto
    then have "entry \<le> key ! 0" using inst_eq_iff(3) [OF wf, of 0 i] by simp
    then have "dalvik_block_find_blockid_by_instruction entry key = int 0"
      using find_blockid_exact [of key 0 entry] K key(2) by simp
    then show ?thesis using True key(2) by (intro exI [of _ 0]) simp
  next
    case False
    then obtain q where q: "q < length key" "key ! q = entry + of_nat (k - 1)" using start by (auto simp: in_set_conv_nth)
    obtain p where p: "p < length key" "key ! p = entry + of_nat (n - 1)" using lst by (auto simp: in_set_conv_nth)
    have "key ! q < key ! p" using q p start(1) False n inst_eq_iff(2) [OF wf, of "k - 1" "n - 1"] by simp
    then have "q < p" using K q(1) p(1) by (metis linorder_neqE_nat not_less_iff_gr_or_eq sorted_wrt_iff_nth_less)
    then have q1: "Suc q < length key" using p(1) by simp
    obtain i where i: "i < n" "key ! Suc q = entry + of_nat i" using ge [OF nth_mem, OF q1] by auto
    have "key ! q < key ! Suc q" using K q1 by (simp add: sorted_wrt_iff_nth_less)
    then have "k - 1 < i" using q(2) i start(1) inst_eq_iff(2) [OF wf, of "k - 1" i] by simp
    then have le: "entry + of_nat k \<le> key ! Suc q" using i start(1) inst_eq_iff(3) [OF wf, of k i] by simp
    have "key ! j < entry + of_nat k" if "j < Suc q" for j
    proof -
      have "key ! j \<le> key ! q" using K that q1
        by (cases "j = q") (auto simp: sorted_wrt_iff_nth_less intro: order.strict_implies_order)
      moreover have "key ! q < entry + of_nat k" using q(2) start(1) False inst_eq_iff(2) [OF wf, of "k - 1" k] by simp
      ultimately show ?thesis by simp
    qed
    then have "dalvik_block_find_blockid_by_instruction (entry + of_nat k) key = int (Suc q)"
      using find_blockid_exact [OF _ q1 le] K by simp
    moreover have "inst_next (code (key ! q)) = entry + of_nat k" using wf_next [OF wf, of "k - 1"] q(2) start(1) False by simp
    ultimately show ?thesis using q1 by (intro exI [of _ "Suc q"]) simp
  qed
qed

lemma keys_at_control:
  "opcode inst \<in> {DVM_GOTO, DVM_IF, DVM_SWITCH, DVM_INVOKE, DVM_RETURN} \<or> handler_set inst \<noteq> [] \<Longrightarrow>
     k \<in> set (fst (inst_keys jt entry inst k))"
  by (cases "opcode inst") (auto simp: inst_keys_def own_block_def split: option.splits)

lemma inst_in_block:
  assumes wf: "method_wf code jt entry n"
    and key: "dalvik_block_get_key_instruction_list (Suc n) code jt entry sz = Some (Inr key)" "key \<noteq> []"
    and i: "i < n"
  shows "\<exists>r < length key. dalvik_block_find_blockid_by_instruction (entry + of_nat i) key = int r \<and>
    (if r = 0 then entry else inst_next (code (key ! (r - 1)))) \<le> entry + of_nat i \<and> entry + of_nat i \<le> key ! r \<and>
    (\<forall>j < r. key ! j < entry + of_nat i)"
proof -
  note K = key_list_correct [OF wf key]
  have "entry + of_nat (n - 1) \<in> set key"
    using K inst_eq_iff(3) [OF wf, of 0 "n - 1"] by (simp add: method_keys_def)
  then obtain p where p: "p < length key" "key ! p = entry + of_nat (n - 1)" by (auto simp: in_set_conv_nth)
  have "entry + of_nat i \<le> key ! p" using p(2) i inst_eq_iff(3) [OF wf, of i "n - 1"] by simp
  then have "entry + of_nat i \<le> last key" using key_le_last [OF _ p(1)] K by simp
  then obtain r where r: "dalvik_block_find_blockid_by_instruction (entry + of_nat i) key = int r" "r < length key"
    "entry + of_nat i \<le> key ! r" "\<forall>j < r. key ! j < entry + of_nat i"
    using find_blockid_cases [OF conjunct1 [OF K], of "entry + of_nat i"] key(2) by (auto simp: leD)
  have "(if r = 0 then entry else inst_next (code (key ! (r - 1)))) \<le> entry + of_nat i"
  proof (cases r)
    case 0
    then show ?thesis using i inst_eq_iff(3) [OF wf, of 0 i] by simp
  next
    case (Suc q)
    then obtain p where p: "p < n" "key ! q = entry + of_nat p"
      using conjunct2 [OF K] method_keys_range [OF wf, of "key ! q"] r(2) nth_mem [of q key] by auto
    then have "p < i" using r(4) Suc i inst_eq_iff(2) [OF wf, of p i] by auto
    then show ?thesis using Suc p(2) wf_next [OF wf, of p] i inst_eq_iff(3) [OF wf, of "Suc p" i] by simp
  qed
  then show ?thesis using r by blast
qed

lemma label_starts_block:
  assumes wf: "method_wf code jt entry n"
    and key: "dalvik_block_get_key_instruction_list (Suc n) code jt entry sz = Some (Inr key)" "key \<noteq> []"
    and l: "i < n" "l \<in> set (jump_labels (code (entry + of_nat i)))"
  shows "\<exists>t < length key. dalvik_block_find_blockid_by_instruction (jt l) key = int t \<and>
    (if t = 0 then entry else inst_next (code (key ! (t - 1)))) = jt l"
proof -
  note K = key_list_correct [OF wf key]
  have "\<exists>k < n. jt l = entry + of_nat k" using wf l by (simp add: method_wf_def)
  then obtain k where k: "k < n" "jt l = entry + of_nat k" by blast
  have "\<not> snd (inst_keys jt entry (code (entry + of_nat i)) (entry + of_nat i))" using wf l(1) by (simp add: method_wf_def)
  then have "label_key jt l \<in> set (keys_at code jt entry i)"
    unfolding keys_at_def by (intro conjunct1 [OF keys_at_jump [OF _ l(2)]] prod_eqI) simp_all
  then have lk: "label_key jt l \<in> set (method_keys code jt entry n)" using l(1) by (auto simp: method_keys_def)
  have "entry + of_nat (k - 1) \<in> set key" if k0: "k \<noteq> 0"
  proof -
    have "label_key jt l = entry + of_nat (k - 1)" 
      unfolding label_key_def k(2) using k(1) k0 by (intro inst_pred [OF wf]) simp_all
    moreover have "entry \<le> entry + of_nat (k - 1)" using inst_eq_iff(3) [OF wf, of 0 "k - 1"] k(1) by simp
    ultimately show ?thesis using lk unfolding conjunct2 [OF K] by simp
  qed
  then have "k = 0 \<or> entry + of_nat (k - 1) \<in> set key" by blast
  then show ?thesis using jump_target_starts_block [OF wf key k(1)] k(2) by simp
qed

text \<open>Where a block ends: behind its key instruction, or at it when the block leaves by it.\<close>

abbreviation leaves_by :: "dalvik_opcode \<Rightarrow> bool" where
  "leaves_by oc \<equiv> oc \<in> {DVM_GOTO, DVM_IF, DVM_SWITCH, DVM_RETURN}"

lemma build_graph_end:
  assumes "dalvik_block_build_graph code jt entry key = Some (Inr bs)" "r < length key"
  shows "blk_end (bs ! r) = (if leaves_by (opcode (code (key ! r))) then key ! r else inst_next (code (key ! r)))"
proof -
  obtain b e where "key_block jt (code (key ! r)) key r = Some (Inr (b, e))" "blk_end (bs ! r) = e"
    using build_loop_nth [OF assms(1) [unfolded dalvik_block_build_graph_def] le0] assms(2) by fastforce
  then show ?thesis by (cases "opcode (code (key ! r))") (auto simp: key_block_def)
qed

text \<open>The successor of an instruction is behind it; the last one has a successor behind everything.\<close>

lemma wf_next_less:
  assumes wf: "method_wf code jt entry n" and "i < n" "j \<le> i"
  shows "entry + of_nat j < inst_next (code (entry + of_nat i))"
proof (cases "Suc i = n")
  case True
  have "unat (entry + of_nat j) < 2 ^ 31" using unat_inst [OF wf, of j] assms by (simp add: method_wf_def)
  then have "entry + of_nat j < DALVIK_INSTRUCTION_INVALID"
    by (simp add: word_less_nat_alt DALVIK_INSTRUCTION_INVALID_def)
  then show ?thesis using wf True by (auto simp: method_wf_def)
next
  case False
  then show ?thesis using wf_next [OF wf, of i] assms inst_eq_iff(2) [OF wf, of j "Suc i"] by simp
qed

lemma control_is_key:
  assumes wf: "method_wf code jt entry n"
    and key: "dalvik_block_get_key_instruction_list (Suc n) code jt entry sz = Some (Inr key)" "key \<noteq> []"
    and i: "i < n"
    and control: "handler_set (code (entry + of_nat i)) \<noteq> [] \<or>
      opcode (code (entry + of_nat i)) \<in> {DVM_GOTO, DVM_IF, DVM_SWITCH, DVM_INVOKE, DVM_RETURN}"
  shows "entry + of_nat i \<in> set key"
proof -
  have "entry + of_nat i \<in> set (keys_at code jt entry i)"
    using keys_at_control [of "code (entry + of_nat i)"] control unfolding keys_at_def by blast
  then show ?thesis using key_list_correct [OF wf key] i inst_eq_iff(3) [OF wf, of 0 i] by (auto simp: method_keys_def)
qed

lemma block_range_unique:
  assumes wf: "method_wf code jt entry n"
    and key: "dalvik_block_get_key_instruction_list (Suc n) code jt entry sz = Some (Inr key)" "key \<noteq> []"
    and graph: "dalvik_block_build_graph code jt entry key = Some (Inr bs)"
    and i: "i < n"
    and r: "r < length key" "entry + of_nat i \<le> key ! r" "\<forall>j < r. key ! j < entry + of_nat i"
      "blk_begin (bs ! r) \<le> entry + of_nat i"
    and q: "q < length key"
  shows "blk_begin (bs ! q) \<le> entry + of_nat i \<and> entry + of_nat i < blk_end (bs ! q) \<longleftrightarrow>
    q = r \<and> \<not> leaves_by (opcode (code (entry + of_nat i)))"
proof -
  note K = key_list_correct [OF wf key] and G = build_graph_nth [OF graph] and E = build_graph_end [OF graph]
  have srt: "sorted_wrt (<) key" using K by blast
  have key_at: "\<exists>p < n. key ! j = entry + of_nat p" if "j < length key" for j
    using K method_keys_range [OF wf, of "key ! j"] nth_mem [OF that] by auto
  obtain p where p: "p < n" "key ! q = entry + of_nat p" using key_at [OF q] by blast
  consider "q < r" | "r < q" | "q = r" by linarith
  then show ?thesis
  proof cases
    case 1
    then have "p < i" using r(3) p i inst_eq_iff(2) [OF wf, of p i] by auto
    then have "inst_next (code (key ! q)) \<le> entry + of_nat i" "key ! q \<le> entry + of_nat i"
      using p(2) wf_next [OF wf, of p] i inst_eq_iff(3) [OF wf, of "Suc p" i] inst_eq_iff(3) [OF wf, of p i] by simp_all
    then show ?thesis using 1 E [OF q] by auto
  next
    case 2
    have "q - 1 < length key" using q by simp
    then obtain p' where p': "p' < n" "key ! (q - 1) = entry + of_nat p'" using key_at by blast
    have "key ! r \<le> key ! (q - 1)"
      using 2 srt q by (cases "r = q - 1") (auto simp: sorted_wrt_iff_nth_less intro: order.strict_implies_order)
    then have "entry + of_nat i \<le> entry + of_nat p'" using r(2) p'(2) by simp
    then have "i \<le> p'" using p'(1) i inst_eq_iff(3) [OF wf, of i p'] by simp
    then have "entry + of_nat i < blk_begin (bs ! q)"
      using 2 G(3) [OF q] p' wf_next_less [OF wf p'(1), of i] by simp
    then show ?thesis using 2 by auto
  next
    case 3
    show ?thesis
    proof (cases "entry + of_nat i = key ! r")
      case True
      moreover have "entry + of_nat i < inst_next (code (entry + of_nat i))" by (rule wf_next_less [OF wf i]) simp
      ultimately show ?thesis using 3 r(4) E [OF r(1)] by auto
    next
      case False
      have "entry + of_nat i \<notin> set key"
      proof
        assume "entry + of_nat i \<in> set key"
        then obtain j where "j < length key" "key ! j = entry + of_nat i" by (auto simp: in_set_conv_nth)
        then show False using r(1,2,3) False srt
          by (metis linorder_neqE_nat not_less_iff_gr_or_eq order.strict_trans2 sorted_wrt_iff_nth_less)
      qed
      moreover have "entry + of_nat i \<in> set key" if "leaves_by (opcode (code (entry + of_nat i)))"
        using control_is_key [OF wf key i] that by blast
      moreover have "entry + of_nat i < key ! r" using r(2) False by simp
      moreover have "key ! r < inst_next (code (key ! r))" using p 3 wf_next_less [OF wf p(1), of p] by simp
      ultimately show ?thesis using 3 r(4) E [OF r(1)] by auto
    qed
  qed
qed

text \<open>
  C6: the blocks partition the method. For a method as the reader leaves it, the key instructions are
  strictly sorted and there is one block for each. Of the ranges from the begin of a block up to, but without,
  its end, exactly one holds an instruction that neither jumps nor returns, that of the block with the first key
  instruction at or behind it, and none holds an instruction that jumps or returns, which ends its block. An instruction
  that is not the last one of its block neither jumps nor calls nor returns nor has a handler, and every label
  that the method jumps to is the first instruction of the block that the branch gets.
\<close>

theorem dalvik_block_build_graph_partition:
  assumes wf: "method_wf code jt entry n"
    and key: "dalvik_block_get_key_instruction_list (Suc n) code jt entry sz = Some (Inr key)" "key \<noteq> []"
    and graph: "dalvik_block_build_graph code jt entry key = Some (Inr bs)"
    and i: "i < n"
  shows "length bs = length key \<and> sorted_wrt (<) key \<and>
    (\<exists>r < length bs. dalvik_block_find_blockid_by_instruction (entry + of_nat i) key = int r \<and> index (bs ! r) = r \<and>
       blk_begin (bs ! r) \<le> entry + of_nat i \<and> entry + of_nat i \<le> key ! r \<and>
       (\<forall>q < length bs. blk_begin (bs ! q) \<le> entry + of_nat i \<and> entry + of_nat i < blk_end (bs ! q) \<longleftrightarrow>
          q = r \<and> opcode (code (entry + of_nat i)) \<notin> {DVM_GOTO, DVM_IF, DVM_SWITCH, DVM_RETURN}) \<and>
       (opcode (code (entry + of_nat i)) \<in> {DVM_GOTO, DVM_IF, DVM_SWITCH, DVM_RETURN} \<longrightarrow> blk_end (bs ! r) = entry + of_nat i)) \<and>
    (entry + of_nat i \<notin> set key \<longrightarrow> handler_set (code (entry + of_nat i)) = [] \<and>
       opcode (code (entry + of_nat i)) \<notin> {DVM_GOTO, DVM_IF, DVM_SWITCH, DVM_INVOKE, DVM_RETURN}) \<and>
    (\<forall>l \<in> set (jump_labels (code (entry + of_nat i))).
       \<exists>t < length bs. dalvik_block_find_blockid_by_instruction (jt l) key = int t \<and> blk_begin (bs ! t) = jt l)"
proof -
  note K = key_list_correct [OF wf key] and G = build_graph_nth [OF graph]
  note self = control_is_key [OF wf key i]
  obtain r where r: "r < length key" "dalvik_block_find_blockid_by_instruction (entry + of_nat i) key = int r"
    "blk_begin (bs ! r) \<le> entry + of_nat i" "entry + of_nat i \<le> key ! r" "\<forall>j < r. key ! j < entry + of_nat i"
    using inst_in_block [OF wf key i] G(3) by auto
  have at_key: "key ! r = entry + of_nat i" if "entry + of_nat i \<in> set key"
  proof -
    from that obtain j where j: "j < length key" "key ! j = entry + of_nat i" by (auto simp: in_set_conv_nth)
    then have "\<not> j < r" using r(5) by auto
    moreover have "key ! r < key ! j" if "r < j" using that j(1) K by (simp add: sorted_wrt_iff_nth_less)
    then have "\<not> r < j" using j(2) r(4) by auto
    ultimately show ?thesis using j(2) by (cases rule: linorder_cases [of j r]) simp_all
  qed
  have "blk_end (bs ! r) = entry + of_nat i" if "leaves_by (opcode (code (entry + of_nat i)))"
    using build_graph_end [OF graph r(1)] at_key self that by auto
  then have "\<exists>r < length bs. dalvik_block_find_blockid_by_instruction (entry + of_nat i) key = int r \<and> index (bs ! r) = r \<and>
       blk_begin (bs ! r) \<le> entry + of_nat i \<and> entry + of_nat i \<le> key ! r \<and>
       (\<forall>q < length bs. blk_begin (bs ! q) \<le> entry + of_nat i \<and> entry + of_nat i < blk_end (bs ! q) \<longleftrightarrow>
          q = r \<and> \<not> leaves_by (opcode (code (entry + of_nat i)))) \<and>
       (leaves_by (opcode (code (entry + of_nat i))) \<longrightarrow> blk_end (bs ! r) = entry + of_nat i)"
    using r G(1) G(2) [OF r(1)] block_range_unique [OF wf key graph i r(1,4,5,3)] by (intro exI [of _ r]) simp
  moreover have "\<exists>t < length bs. dalvik_block_find_blockid_by_instruction (jt l) key = int t \<and> blk_begin (bs ! t) = jt l"
    if "l \<in> set (jump_labels (code (entry + of_nat i)))" for l
    using label_starts_block [OF wf key i that] G(1,3) by auto
  ultimately show ?thesis using G(1) K self by blast
qed

subsection \<open>An example\<close>

text \<open>A loop of three instructions: leave the loop if two registers are equal, go back, return.\<close>

definition example_code :: inst_pool where
  "example_code k =
     (if k = 1 then \<lparr>opcode = DVM_IF, flags = DVM_FLAG_IF_EQ, inst_next = 2, handler_set = [], operands = [POther, POther, PLabelid 0]\<rparr>
      else if k = 2 then \<lparr>opcode = DVM_GOTO, flags = 0, inst_next = 3, handler_set = [], operands = [PLabelid 1]\<rparr>
      else \<lparr>opcode = DVM_RETURN, flags = 0, inst_next = DALVIK_INSTRUCTION_INVALID, handler_set = [], operands = [POther]\<rparr>)"

definition example_jt :: jump_table where "example_jt l = (if l = 0 then 3 else 1)"

lemma example_wf: "method_wf example_code example_jt 1 3"
  by (simp add: method_wf_def All_less_Suc Ex_less_Suc numeral_3_eq_3 example_code_def example_jt_def inst_keys_def jump_labels_def
      op_labelid_def empty_switch_def)

lemma example_keys: "dalvik_block_get_key_instruction_list (Suc 3) example_code example_jt 1 DALVIK_BLOCK_MAX_KEYS = Some (Inr [1, 2, 3])"
  by code_simp

lemma example_graph: "map_option (map_sum id (map blk_begin)) (dalvik_block_build_graph example_code example_jt 1 [1, 2, 3]) = Some (Inr [1, 2, 3])"
  by code_simp

theorem dalvik_block_build_graph_partition_witness:
  "\<exists>bs. dalvik_block_build_graph example_code example_jt 1 [1, 2, 3] = Some (Inr bs) \<and> length bs = 3 \<and>
     (\<forall>q < length bs. \<not> (blk_begin (bs ! q) \<le> 1 \<and> 1 < blk_end (bs ! q))) \<and>
     (\<forall>l \<in> set (jump_labels (example_code 1)). \<exists>t < length bs.
        dalvik_block_find_blockid_by_instruction (example_jt l) [1, 2, 3] = int t \<and> blk_begin (bs ! t) = example_jt l)"
proof -
  obtain bs where bs: "dalvik_block_build_graph example_code example_jt 1 [1, 2, 3] = Some (Inr bs)" using example_graph by auto
  have "opcode (example_code 1) = DVM_IF" by (simp add: example_code_def)
  then show ?thesis
    using bs dalvik_block_build_graph_partition [OF example_wf example_keys _ bs, of 0] by auto
qed

subsection \<open>The search of the graph\<close>

definition branch_targets :: "dalvik_block_branch list \<Rightarrow> nat set" where
  "branch_targets brs = {j. \<exists>br \<in> set brs. follows br \<and> block_ptr br = Some j}"

definition block_edges :: "dalvik_block list \<Rightarrow> (nat \<times> nat) set" where
  "block_edges bs = {(i, j). i < length bs \<and> j \<in> branch_targets (branches (bs ! i))}"

text \<open>The blocks carry their index, and every branch leads to a block of the array.\<close>

definition graph_wf :: "dalvik_block list \<Rightarrow> bool" where
  "graph_wf bs \<longleftrightarrow> (\<forall>i < length bs. index (bs ! i) = i \<and> branch_targets (branches (bs ! i)) \<subseteq> {..<length bs})"

lemma branch_targets_simps [simp]:
  "branch_targets [] = {}"
  "branch_targets (br # brs) = (if follows br then set_option (block_ptr br) else {}) \<union> branch_targets brs"
  by (auto simp: branch_targets_def)

lemma card_unvisited_mono: "visit \<subseteq> visit' \<Longrightarrow> card ({..<n} - visit') \<le> card ({..<n} - (visit :: nat set))"
  by (intro card_mono) auto

text \<open>
  A search adds a set of blocks that it can reach from where it starts, that holds its start and that
  is closed under the branches up to what was visited before.
\<close>

definition search_result :: "dalvik_block list \<Rightarrow> nat set \<Rightarrow> nat set \<Rightarrow> nat set \<Rightarrow> bool" where
  "search_result bs start visit visit' \<longleftrightarrow> visit \<subseteq> visit' \<and> start \<subseteq> visit' \<and> visit' \<subseteq> visit \<union> (block_edges bs)\<^sup>* `` start \<and>
     block_edges bs `` (visit' - visit) \<subseteq> visit'"

lemma search_result_step:
  assumes "search_result bs start (insert i visit) visit'" "block_edges bs `` {i} = start"
  shows "search_result bs {i} visit visit'"
proof -
  have "(block_edges bs)\<^sup>* `` start \<subseteq> (block_edges bs)\<^sup>* `` {i}"
    using assms(2) by (auto intro: converse_rtrancl_into_rtrancl)
  moreover have "block_edges bs `` (visit' - visit) \<subseteq> visit'"
    using assms unfolding search_result_def by blast
  ultimately show ?thesis using assms(1) unfolding search_result_def by blast
qed

lemma search_result_trans:
  assumes "search_result bs s1 visit visit1" "search_result bs s2 visit1 visit2"
  shows "search_result bs (s1 \<union> s2) visit visit2"
proof -
  have v: "visit \<subseteq> visit1" "visit1 \<subseteq> visit2" "s1 \<subseteq> visit1" "s2 \<subseteq> visit2" "visit1 \<subseteq> visit \<union> (block_edges bs)\<^sup>* `` s1"
    "visit2 \<subseteq> visit1 \<union> (block_edges bs)\<^sup>* `` s2" "block_edges bs `` (visit1 - visit) \<subseteq> visit1"
    "block_edges bs `` (visit2 - visit1) \<subseteq> visit2" using assms by (simp_all add: search_result_def)
  have "block_edges bs `` (visit2 - visit) \<subseteq> block_edges bs `` (visit1 - visit) \<union> block_edges bs `` (visit2 - visit1)" by blast
  then have "block_edges bs `` (visit2 - visit) \<subseteq> visit2" using v(2,7,8) by blast
  moreover have "visit2 \<subseteq> visit \<union> (block_edges bs)\<^sup>* `` (s1 \<union> s2)" using v(5,6) by (auto simp: Image_Un)
  ultimately show ?thesis using v(1-4) by (auto simp: search_result_def)
qed

lemma search_result_subset:
  "graph_wf bs \<Longrightarrow> search_result bs start visit visit' \<Longrightarrow> start \<subseteq> {..<length bs} \<Longrightarrow> visit \<subseteq> {..<length bs} \<Longrightarrow>
     visit' \<subseteq> {..<length bs}"
proof
  fix x
  assume wf: "graph_wf bs" and r: "search_result bs start visit visit'" and s: "start \<subseteq> {..<length bs}" "visit \<subseteq> {..<length bs}"
    and x: "x \<in> visit'"
  have "j < length bs" if "(i, j) \<in> (block_edges bs)\<^sup>*" "i < length bs" for i j
    using that wf by (induction rule: rtrancl_induct) (auto simp: block_edges_def graph_wf_def)
  then show "x \<in> {..<length bs}" using r s x unfolding search_result_def by blast
qed

lemma dfs_search:
  assumes "graph_wf bs"
  shows "set_option b \<subseteq> {..<length bs} \<Longrightarrow> visit \<subseteq> {..<length bs} \<Longrightarrow> card ({..<length bs} - visit) < f \<Longrightarrow>
      \<exists>visit'. dalvik_block_graph_dfs f bs b visit = Some visit' \<and> search_result bs (set_option b) visit visit'"
    and "branch_targets brs \<subseteq> {..<length bs} \<Longrightarrow> visit \<subseteq> {..<length bs} \<Longrightarrow> card ({..<length bs} - visit) < f \<Longrightarrow>
      \<exists>visit'. dfs_branches f bs brs visit = Some visit' \<and> search_result bs (branch_targets brs) visit visit'"
  using assms
proof (induction f bs b visit and f bs brs visit rule: dalvik_block_graph_dfs_dfs_branches.induct)
  case (2 f bs b visit)
  show ?case
  proof (cases b)
    case None
    then show ?thesis by (simp add: search_result_def)
  next
    case (Some i)
    have i: "i < length bs" "index (bs ! i) = i" using Some "2.prems" by (auto simp: graph_wf_def)
    show ?thesis
    proof (cases "i \<in> visit")
      case True
      then show ?thesis using Some i by (simp add: search_result_def)
    next
      case False
      have "{..<length bs} - visit = insert i ({..<length bs} - insert i visit)" using i(1) False by auto
      then have "card ({..<length bs} - visit) = Suc (card ({..<length bs} - insert i visit))"
        by (metis DiffE card_insert_disjoint finite_Diff finite_lessThan insertI1)
      moreover have "branch_targets (branches (bs ! i)) \<subseteq> {..<length bs}" using "2.prems"(4) i(1) by (auto simp: graph_wf_def)
      ultimately obtain visit' where "dfs_branches f bs (branches (bs ! i)) (insert i visit) = Some visit'"
        "search_result bs (branch_targets (branches (bs ! i))) (insert i visit) visit'"
        using "2.IH" [OF Some] i False "2.prems" by auto
      moreover have "block_edges bs `` {i} = branch_targets (branches (bs ! i))" using i(1) by (auto simp: block_edges_def)
      ultimately show ?thesis using Some i False search_result_step by auto
    qed
  qed
next
  case (4 f bs br brs visit)
  show ?case
  proof (cases "follows br")
    case False
    then show ?thesis using "4.IH"(3) "4.prems" by simp
  next
    case True
    then obtain visit1 where v1: "dalvik_block_graph_dfs f bs (block_ptr br) visit = Some visit1"
      "search_result bs (set_option (block_ptr br)) visit visit1" using "4.IH"(1) "4.prems" by auto
    have sub: "visit1 \<subseteq> {..<length bs}"
      using search_result_subset [OF "4.prems"(4) v1(2)] "4.prems"(1,2) True by simp
    moreover have "card ({..<length bs} - visit1) < f"
      using card_unvisited_mono [of visit visit1 "length bs"] v1(2) "4.prems"(3) by (simp add: search_result_def)
    ultimately obtain visit2 where "dfs_branches f bs brs visit1 = Some visit2"
      "search_result bs (branch_targets brs) visit1 visit2" using "4.IH"(2) [OF True v1(1)] "4.prems" True by auto
    then show ?thesis using v1 True search_result_trans by auto
  qed
qed (auto simp: search_result_def)

text \<open>
  The depth first search ends and marks exactly the blocks that can be reached from the first one by
  branches that are neither disabled nor returns.
\<close>

lemma dfs_search_start:
  assumes "graph_wf bs" "bs \<noteq> []"
  shows "dalvik_block_graph_dfs (Suc (length bs)) bs (Some 0) {} = Some ((block_edges bs)\<^sup>* `` {0})"
proof -
  obtain visit' where v: "dalvik_block_graph_dfs (Suc (length bs)) bs (Some 0) {} = Some visit'" "search_result bs {0} {} visit'"
    using dfs_search(1) [OF assms(1), of "Some 0" "{}" "Suc (length bs)"] assms(2) by auto
  have "(block_edges bs)\<^sup>* `` {0} \<subseteq> visit'"
  proof
    fix x
    assume "x \<in> (block_edges bs)\<^sup>* `` {0}"
    then have "(0, x) \<in> (block_edges bs)\<^sup>*" by simp
    then show "x \<in> visit'" using v(2) by (induction rule: rtrancl_induct) (auto simp: search_result_def)
  qed
  then show ?thesis using v by (auto simp: search_result_def)
qed

subsection \<open>Linking\<close>

text \<open>A branch that can be linked: the id of its block is that of a block.\<close>

definition branch_ok :: "nat \<Rightarrow> dalvik_block_branch \<Rightarrow> bool" where
  "branch_ok n br \<longleftrightarrow> disabled br \<or> DALVIK_BLOCK_BRANCH_UNCOND_TYPE_IS_RETURN br \<or> 0 \<le> block_id br \<and> block_id br < int n"

definition id_ok :: "u32 list \<Rightarrow> u32 \<Rightarrow> bool" where
  "id_ok key inst \<longleftrightarrow> (\<exists>t < length key. dalvik_block_find_blockid_by_instruction inst key = int t)"

lemma id_ok_bounds [simp]:
  assumes "id_ok key inst"
  shows "0 \<le> dalvik_block_find_blockid_by_instruction inst key"
    and "dalvik_block_find_blockid_by_instruction inst key < int (length key)"
  using assms by (auto simp: id_ok_def)

lemma find_blockid_range: "sorted_wrt (<) key \<Longrightarrow> dalvik_block_find_blockid_by_instruction inst key < 0 \<or> id_ok key inst"
  using find_blockid_cases [of key inst] by (auto simp: id_ok_def split: if_splits)

lemma handler_branches_ok:
  "sorted_wrt (<) key \<Longrightarrow> key \<noteq> [] \<Longrightarrow> br \<in> set (handler_branches jt key hs) \<Longrightarrow> branch_ok (length key) br"
proof (induction jt key hs rule: handler_branches.induct)
  case (2 jt key h hs)
  note F = find_blockid_range [OF "2.prems"(1), of "jt (nat (eh_handler_label h))"]
  show ?case
  proof (cases "dalvik_block_find_blockid_by_instruction (jt (nat (eh_handler_label h))) key < 0")
    case True
    then show ?thesis using "2.prems"(2,3) by (auto simp: branch_ok_def branch_zero_def split: if_splits)
  next
    case False
    then have "id_ok key (jt (nat (eh_handler_label h)))" using F by blast
    then show ?thesis using "2.IH" [OF refl False] "2.prems" False
      by (auto simp: branch_ok_def branch_zero_def DALVIK_BLOCK_BRANCH_UNCOND_TYPE_SET_def)
  qed
qed simp

lemma switch_branches_ok:
  assumes "dalvik_block_setup_keyinst_switch jt inst key i = Some (Inr b)" "opcode inst = DVM_SWITCH"
    "\<not> snd (inst_keys jt entry inst k)" "\<And>l. l \<in> set (jump_labels inst) \<Longrightarrow> id_ok key (jt l)" "br \<in> set (branches b)"
  shows "branch_ok (length key) br"
proof (cases "flags inst = DVM_FLAG_SWITCH_PACKED")
  case True
  then obtain lv where lv: "op_branches inst 2 = Some lv" using assms(2,3) by (auto simp: inst_keys_def split: option.splits)
  have lab: "id_ok key (jt l)" if "l \<in> set lv" for l using assms(4) [of l] that True lv assms(2) by (simp add: jump_labels_def)
  define bs where "bs = map (\<lambda>(j, l). packed_branch jt key (op_int32 inst 1) j l) (enumerate 0 lv)"
  have ok: "branch_ok (length key) x" "branch_ok (length key) (x\<lparr>conditional := False\<rparr>)" if "x \<in> set bs" for x
    using that lab by (auto simp: bs_def packed_branch_def branch_ok_def in_set_enumerate_eq)
  have "branches b = bs[length bs - 1 := (last bs)\<lparr>conditional := False\<rparr>]" "bs \<noteq> []"
    using assms(1) True lv by (auto simp: dalvik_block_setup_keyinst_switch_def bs_def Let_def split: if_splits)
  then show ?thesis using assms(5) ok set_update_subset_insert [of bs "length bs - 1" "(last bs)\<lparr>conditional := False\<rparr>"]
    by auto
next
  case False
  then have sp: "flags inst = DVM_FLAG_SWITCH_SPARSE" using assms(1) by (auto simp: dalvik_block_setup_keyinst_switch_def split: if_splits)
  then obtain lv where lv: "op_sparse inst 1 = Some lv" using assms(2,3) False by (auto simp: inst_keys_def split: option.splits)
  have lab: "id_ok key (jt (sb_labelid l))" if "l \<in> set lv" for l
    using assms(4) [of "sb_labelid l"] that False sp lv assms(2) by (simp add: jump_labels_def)
  have "branches b = map (sparse_branch jt key) lv"
    using assms(1) False sp lv by (auto simp: dalvik_block_setup_keyinst_switch_def)
  then show ?thesis using assms(5) lab by (auto simp: sparse_branch_def branch_ok_def Let_def)
qed

lemma key_block_ok:
  assumes b: "key_block jt inst key i = Some (Inr (b, e))" "br \<in> set (branches b)" and key: "sorted_wrt (<) key" "key \<noteq> []"
    and sw: "\<not> snd (inst_keys jt entry inst k)" and lab: "\<And>l. l \<in> set (jump_labels inst) \<Longrightarrow> id_ok key (jt l)"
    and nxt: "inst_next inst = DALVIK_INSTRUCTION_INVALID \<or> id_ok key (inst_next inst)"
  shows "branch_ok (length key) br"
proof -
  have goto: "branch_ok (length key) br" if "opcode inst = DVM_GOTO"
    using b that lab [of "op_labelid inst 0"]
    by (auto simp: key_block_def dalvik_block_setup_keyinst_goto_def branch_ok_def jump_labels_def)
  have iff: "branch_ok (length key) br" if "opcode inst = DVM_IF"
    using b that lab [of "op_labelid inst 2"] nxt
    by (auto simp: key_block_def dalvik_block_setup_keyinst_if_def branch_ok_def jump_labels_def Let_def split: if_splits)
  have switch: "branch_ok (length key) br" if "opcode inst = DVM_SWITCH"
    using b that switch_branches_ok [OF _ that sw lab] by (auto simp: key_block_def)
  have ret: "branch_ok (length key) br" if "opcode inst = DVM_RETURN"
    using b that by (auto simp: key_block_def dalvik_block_setup_return_def branch_ok_def branch_zero_def
      DALVIK_BLOCK_BRANCH_UNCOND_TYPE_IS_RETURN_def DALVIK_BLOCK_BRANCH_UNCOND_TYPE_GET_def DALVIK_BLOCK_BRANCH_UNCOND_TYPE_SET_def)
  have other: "branch_ok (length key) br" if "b = dalvik_block_setup_keyinst jt inst key i"
  proof (cases "br \<in> set (handler_branches jt key (handler_set inst))")
    case True
    then show ?thesis using handler_branches_ok key by blast
  next
    case False
    then show ?thesis using b(2) that nxt
      by (auto simp: dalvik_block_setup_keyinst_def branch_ok_def Let_def split: if_splits)
  qed
  show ?thesis using b(1) goto iff switch ret other by (cases "opcode inst") (simp_all add: key_block_def)
qed

lemma push_keys_length: "push_keys entry sz vs key = Some key' \<Longrightarrow> length key \<le> sz \<Longrightarrow> length key' \<le> sz"
  by (induction entry sz vs key rule: push_keys.induct) (auto split: if_splits)

lemma unique_loop_length: "length (unique_loop prev key) \<le> length key"
  by (induction prev key rule: unique_loop.induct) auto

lemma key_list_length:
  assumes "method_wf code jt entry n" "dalvik_block_get_key_instruction_list (Suc n) code jt entry sz = Some (Inr key)"
  shows "length key \<le> sz"
proof (cases "key = []")
  case False
  then obtain ks where ks: "push_keys entry sz (method_keys code jt entry n) [] = Some ks" "key = unique_keys (sort_keys ks)"
    using key_list_pushed [OF assms] by blast
  have "length (unique_keys (sort_keys ks)) \<le> length (sort_keys ks)"
    using unique_loop_length by (auto simp: unique_keys_def split: list.splits)
  then show ?thesis using ks push_keys_length [OF ks(1)] by (simp add: sort_keys_def)
qed simp

lemma link_branch_ok:
  assumes "branch_ok n br" "n \<le> DALVIK_BLOCK_MAX_KEYS"
  shows "link_branch n br = Some (the (link_branch n br)) \<and> follows (the (link_branch n br)) = follows br \<and>
    (follows br \<longrightarrow> block_ptr (the (link_branch n br)) = Some (nat (block_id br)) \<and> 0 \<le> block_id br \<and> block_id br < int n)"
  using assms
  by (auto simp: branch_ok_def link_branch_def follows_def DALVIK_BLOCK_BRANCH_UNCOND_TYPE_IS_RETURN_def
      DALVIK_BLOCK_BRANCH_UNCOND_TYPE_GET_def)

text \<open>The edges of the graph before its branches have been linked, by the ids of the blocks.\<close>

definition id_edges :: "dalvik_block list \<Rightarrow> (nat \<times> nat) set" where
  "id_edges bs = {(i, j). i < length bs \<and> (\<exists>br \<in> set (branches (bs ! i)). follows br \<and> block_id br = int j)}"

lemma link_blocks_ok:
  assumes ok: "\<And>i br. i < length bs \<Longrightarrow> br \<in> set (branches (bs ! i)) \<Longrightarrow> branch_ok (length bs) br"
    and idx: "\<And>i. i < length bs \<Longrightarrow> index (bs ! i) = i" and len: "length bs \<le> DALVIK_BLOCK_MAX_KEYS"
  shows "\<exists>bs'. link_blocks bs = Some bs' \<and> length bs' = length bs \<and> graph_wf bs' \<and> block_edges bs' = id_edges bs \<and>
    (\<forall>i < length bs. index (bs' ! i) = i \<and> blk_begin (bs' ! i) = blk_begin (bs ! i) \<and> blk_end (bs' ! i) = blk_end (bs ! i))"
proof -
  define g where "g b = b\<lparr>branches := map (\<lambda>br. the (link_branch (length bs) br)) (branches b)\<rparr>" for b :: dalvik_block
  have L: "link_branch (length bs) br = Some (the (link_branch (length bs) br))"
    "follows (the (link_branch (length bs) br)) = follows br"
    "follows br \<Longrightarrow> block_ptr (the (link_branch (length bs) br)) = Some (nat (block_id br)) \<and> 0 \<le> block_id br \<and>
       block_id br < int (length bs)"
    if "i < length bs" "br \<in> set (branches (bs ! i))" for i br
    using link_branch_ok [OF ok [OF that] len] by blast+
  have "link_block (length bs) b = Some (g b)" if b: "b \<in> set bs" for b
  proof -
    obtain i where "i < length bs" "b = bs ! i" using b by (auto simp: in_set_conv_nth)
    then have "map_opt (link_branch (length bs)) (branches b) = Some (map (\<lambda>br. the (link_branch (length bs) br)) (branches b))"
      using L(1) by (intro map_opt_map) auto
    then show ?thesis by (simp add: link_block_def g_def)
  qed
  then have link: "link_blocks bs = Some (map g bs)" unfolding link_blocks_def by (rule map_opt_map)
  have targets: "branch_targets (branches (g (bs ! i))) = {j. \<exists>br \<in> set (branches (bs ! i)). follows br \<and> block_id br = int j}"
    if "i < length bs" for i
    using L(2,3) [OF that] by (force simp: branch_targets_def g_def)
  have "block_edges (map g bs) = id_edges bs" using targets by (auto simp: block_edges_def id_edges_def)
  moreover have "graph_wf (map g bs)"
  proof -
    have "j < length bs" if "i < length bs" "j \<in> branch_targets (branches (g (bs ! i)))" for i j
      using that(2) L(3) [OF that(1)] unfolding targets [OF that(1)] by force
    then show ?thesis using idx by (auto simp: graph_wf_def g_def)
  qed
  ultimately show ?thesis using link idx by (auto simp: g_def)
qed

lemma built_graph_ok:
  assumes wf: "method_wf code jt entry n"
    and key: "dalvik_block_get_key_instruction_list (Suc n) code jt entry sz = Some (Inr key)" "key \<noteq> []"
    and graph: "dalvik_block_build_graph code jt entry key = Some (Inr bs)" and r: "r < length bs" "br \<in> set (branches (bs ! r))"
  shows "branch_ok (length bs) br"
proof -
  note K = key_list_correct [OF wf key] and G = build_graph_nth [OF graph]
  have r': "r < length key" using r(1) G(1) by simp
  obtain b e where b: "key_block jt (code (key ! r)) key r = Some (Inr (b, e))" "branches (bs ! r) = branches b" using G(4) [OF r'] by blast
  obtain i where i: "i < n" "key ! r = entry + of_nat i"
    using method_keys_range [OF wf, of "key ! r"] conjunct2 [OF K] nth_mem [OF r'] by blast
  have sw: "\<not> snd (inst_keys jt entry (code (key ! r)) (entry + of_nat i))" using wf i by (simp add: method_wf_def)
  have lab: "id_ok key (jt l)" if "l \<in> set (jump_labels (code (key ! r)))" for l
    using label_starts_block [OF wf key i(1), of l] that unfolding i(2) id_ok_def by blast
  have "inst_next (code (key ! r)) = DALVIK_INSTRUCTION_INVALID \<or> id_ok key (inst_next (code (key ! r)))"
  proof (cases "Suc i = n")
    case True
    then show ?thesis using wf i by (simp add: method_wf_def)
  next
    case False
    then have "Suc i < n" using i(1) by simp
    then show ?thesis using inst_in_block [OF wf key, of "Suc i"] wf_next [OF wf, of i] unfolding i(2) id_ok_def by auto
  qed
  then show ?thesis using key_block_ok [OF b(1) _ _ key(2) sw lab] r(2) b(2) K G(1) by auto
qed

lemma key_block_total:
  assumes "\<not> snd (inst_keys jt entry inst k)" "\<not> empty_switch inst"
  shows "\<exists>z. key_block jt inst key i = Some z \<and>
    ((opcode inst = DVM_SWITCH \<longrightarrow> flags inst \<in> {DVM_FLAG_SWITCH_PACKED, DVM_FLAG_SWITCH_SPARSE}) \<longrightarrow> \<not> isl z)"
proof (cases "opcode inst = DVM_SWITCH")
  case True
  then show ?thesis using assms
    by (auto simp: key_block_def dalvik_block_setup_keyinst_switch_def inst_keys_def empty_switch_def Let_def enumerate_eq_zip
        split: option.splits if_splits)
next
  case False
  then show ?thesis by (cases "opcode inst") (simp_all add: key_block_def)
qed

lemma build_loop_total:
  assumes "\<And>r. i \<le> r \<Longrightarrow> r < length key \<Longrightarrow> \<exists>z. key_block jt (code (key ! r)) key r = Some z \<and> (known \<longrightarrow> \<not> isl z)"
  shows "\<exists>z. build_loop code jt key i block_begin = Some z \<and> (known \<longrightarrow> \<not> isl z)"
  using assms
proof (induction code jt key i block_begin rule: build_loop.induct)
  case (1 code jt key i block_begin)
  show ?case
  proof (cases "i < length key")
    case True
    then obtain z where z: "key_block jt (code (key ! i)) key i = Some z" "known \<longrightarrow> \<not> isl z" using "1.prems" [of i] by auto
    show ?thesis
    proof (cases z)
      case (Inl u)
      then show ?thesis using True z by (subst build_loop.simps) (simp add: Let_def)
    next
      case (Inr be)
      then obtain b e where be: "key_block jt (code (key ! i)) key i = Some (Inr (b, e))" using z(1) by (cases be) simp
      obtain z' where "build_loop code jt key (i + 1) (inst_next (code (key ! i))) = Some z'" "known \<longrightarrow> \<not> isl z'"
        using "1.IH" [OF True refl be refl refl] "1.prems" by auto
      then show ?thesis using True be by (subst build_loop.simps) (cases z'; simp add: Let_def)
    qed
  qed (subst build_loop.simps, simp)
qed

lemma build_graph_total:
  assumes wf: "method_wf code jt entry n"
    and key: "dalvik_block_get_key_instruction_list (Suc n) code jt entry sz = Some (Inr key)"
    and known: "known \<Longrightarrow> \<forall>i < n. opcode (code (entry + of_nat i)) = DVM_SWITCH \<longrightarrow>
      flags (code (entry + of_nat i)) \<in> {DVM_FLAG_SWITCH_PACKED, DVM_FLAG_SWITCH_SPARSE}"
  shows "\<exists>z. dalvik_block_build_graph code jt entry key = Some z \<and> (known \<longrightarrow> \<not> isl z)"
  unfolding dalvik_block_build_graph_def
proof (rule build_loop_total)
  fix r assume r: "r < length key"
  then have "key \<noteq> []" by auto
  then obtain i where i: "i < n" "key ! r = entry + of_nat i"
    using method_keys_range [OF wf, of "key ! r"] key_list_correct [OF wf key] nth_mem [OF r] by auto
  then have "\<not> snd (inst_keys jt entry (code (key ! r)) (key ! r))" "\<not> empty_switch (code (key ! r))"
    using wf by (simp_all add: method_wf_def)
  from key_block_total [OF this] known i
  show "\<exists>z. key_block jt (code (key ! r)) key r = Some z \<and> (known \<longrightarrow> \<not> isl z)" by metis
qed

lemma block_make_built:
  assumes wf: "method_wf code jt (m_entry m) n"
    and key: "dalvik_block_get_key_instruction_list (Suc n) code jt (m_entry m) DALVIK_BLOCK_MAX_KEYS = Some (Inr key)"
    and bs: "dalvik_block_build_graph code jt (m_entry m) key = Some (Inr bs)"
  shows "\<exists>graph. dalvik_block_make (Suc n) code jt m = Some (Inr graph) \<and> length graph = length bs \<and>
    (\<forall>i < length bs. (graph ! i \<noteq> None \<longleftrightarrow> (0, i) \<in> (id_edges bs)\<^sup>*) \<and>
     (\<forall>b. graph ! i = Some b \<longrightarrow> index b = i \<and> blk_begin b = blk_begin (bs ! i) \<and> blk_end b = blk_end (bs ! i) \<and>
        nregs b = m_num_regs m))"
proof -
  note G = build_graph_nth [OF bs]
  show ?thesis
  proof (cases "bs = []")
    case True
    then show ?thesis using key bs by (simp add: dalvik_block_make_def link_blocks_def prune_def)
  next
    case False
    then have ne_key: "key \<noteq> []" using G(1) by auto
    have ok: "branch_ok (length bs) br" if "i < length bs" "br \<in> set (branches (bs ! i))" for i br
      using built_graph_ok [OF wf key ne_key bs that] .
    have idx: "index (bs ! i) = i" if "i < length bs" for i using G(2) that unfolding G(1) .
    have len: "length bs \<le> DALVIK_BLOCK_MAX_KEYS" using key_list_length [OF wf key] G(1) by simp
    have "\<exists>bs'. link_blocks bs = Some bs' \<and> length bs' = length bs \<and> graph_wf bs' \<and> block_edges bs' = id_edges bs \<and>
      (\<forall>i < length bs. index (bs' ! i) = i \<and> blk_begin (bs' ! i) = blk_begin (bs ! i) \<and> blk_end (bs' ! i) = blk_end (bs ! i))"
      by (rule link_blocks_ok) (use ok idx len in auto)
    then obtain bs' where bs': "link_blocks bs = Some bs'" "length bs' = length bs" "graph_wf bs'" "block_edges bs' = id_edges bs"
      "\<forall>i < length bs. index (bs' ! i) = i \<and> blk_begin (bs' ! i) = blk_begin (bs ! i) \<and> blk_end (bs' ! i) = blk_end (bs ! i)"
      by blast
    have ne: "bs' \<noteq> []" using bs'(2) False by auto
    have "dalvik_block_make (Suc n) code jt m = Some (Inr (prune (m_num_regs m) ((id_edges bs)\<^sup>* `` {0}) bs'))"
      using key bs bs'(1) ne dfs_search_start [OF bs'(3) ne] by (simp add: dalvik_block_make_def bs'(4) del: dalvik_block_graph_dfs.simps)
    then show ?thesis using key bs bs'(2,5) by (auto simp: prune_def)
  qed
qed

lemma block_make_graph:
  assumes wf: "method_wf code jt (m_entry m) n"
  shows "\<exists>res. dalvik_block_make (Suc n) code jt m = Some res \<and>
    (\<forall>key bs. dalvik_block_get_key_instruction_list (Suc n) code jt (m_entry m) DALVIK_BLOCK_MAX_KEYS = Some (Inr key) \<longrightarrow>
       dalvik_block_build_graph code jt (m_entry m) key = Some (Inr bs) \<longrightarrow>
       (\<exists>graph. res = Inr graph \<and> length graph = length bs \<and>
          (\<forall>i < length bs. (graph ! i \<noteq> None \<longleftrightarrow> (0, i) \<in> (id_edges bs)\<^sup>*) \<and>
             (\<forall>b. graph ! i = Some b \<longrightarrow> index b = i \<and> blk_begin b = blk_begin (bs ! i) \<and> blk_end b = blk_end (bs ! i) \<and>
                nregs b = m_num_regs m))))"
proof -
  obtain key where key: "dalvik_block_get_key_instruction_list (Suc n) code jt (m_entry m) DALVIK_BLOCK_MAX_KEYS = Some (Inr key)"
    unfolding key_list_cases [OF wf]
    by (cases "push_keys (m_entry m) DALVIK_BLOCK_MAX_KEYS (method_keys code jt (m_entry m) n) []") auto
  show ?thesis
  proof (cases "the (dalvik_block_build_graph code jt (m_entry m) key)")
    case (Inl u)
    then show ?thesis using key build_graph_total [OF wf key, of False] by (auto simp: dalvik_block_make_def)
  next
    case (Inr bs)
    then have bs: "dalvik_block_build_graph code jt (m_entry m) key = Some (Inr bs)"
      using build_graph_total [OF wf key, of False] by auto
    show ?thesis using key bs block_make_built [OF wf key bs] by auto
  qed
qed

lemma push_keys_fit: "length key + length vs \<le> sz \<Longrightarrow> push_keys entry sz vs key \<noteq> None"
  by (induction entry sz vs key rule: push_keys.induct) auto

lemma block_make_succeeds:
  assumes wf: "method_wf code jt (m_entry m) n"
    and known: "\<forall>i < n. opcode (code (m_entry m + of_nat i)) = DVM_SWITCH \<longrightarrow>
      flags (code (m_entry m + of_nat i)) \<in> {DVM_FLAG_SWITCH_PACKED, DVM_FLAG_SWITCH_SPARSE}"
  shows "\<exists>graph. dalvik_block_make (Suc n) code jt m = Some (Inr graph) \<and>
    (length (method_keys code jt (m_entry m) n) \<le> DALVIK_BLOCK_MAX_KEYS \<longrightarrow> graph \<noteq> [] \<and> graph ! 0 \<noteq> None)"
proof -
  let ?keys = "dalvik_block_get_key_instruction_list (Suc n) code jt (m_entry m) DALVIK_BLOCK_MAX_KEYS"
  obtain key where key: "?keys = Some (Inr key)"
    unfolding key_list_cases [OF wf]
    by (cases "push_keys (m_entry m) DALVIK_BLOCK_MAX_KEYS (method_keys code jt (m_entry m) n) []") auto
  obtain bs where bs: "dalvik_block_build_graph code jt (m_entry m) key = Some (Inr bs)"
  proof -
    obtain z where "dalvik_block_build_graph code jt (m_entry m) key = Some z" "\<not> isl z"
      using build_graph_total [OF wf key, of True] known by blast
    then show ?thesis using that by (cases z) simp_all
  qed
  obtain graph where graph: "dalvik_block_make (Suc n) code jt m = Some (Inr graph)" "length graph = length bs"
    "\<forall>i < length bs. graph ! i \<noteq> None \<longleftrightarrow> (0, i) \<in> (id_edges bs)\<^sup>*" using block_make_built [OF wf key bs] by blast
  have "graph \<noteq> [] \<and> graph ! 0 \<noteq> None" if fit: "length (method_keys code jt (m_entry m) n) \<le> DALVIK_BLOCK_MAX_KEYS"
  proof -
    obtain ks where ks: "push_keys (m_entry m) DALVIK_BLOCK_MAX_KEYS (method_keys code jt (m_entry m) n) [] = Some ks"
      using push_keys_fit [of "[]"] fit by fastforce
    have "m_entry m + of_nat (n - 1) \<in> set ks"
      using push_keys_filter [OF ks] inst_eq_iff(3) [OF wf, of 0 "n - 1"] by (simp add: method_keys_def)
    moreover have "key = unique_keys (sort_keys ks)" using key ks unfolding key_list_cases [OF wf] by simp
    ultimately have "key \<noteq> []" using conjunct2 [OF unique_keys_sorted [of ks]] by (metis empty_iff empty_set)
    then have "bs \<noteq> []" using build_graph_nth(1) [OF bs] by auto
    then show ?thesis using graph(2,3) by auto
  qed
  then show ?thesis using graph(1) by blast
qed

text \<open>
  C5: on a method as the reader leaves it, the construction of the block graph returns: it never uses
  a block outside of its array. When the keys fit and the switches are understood, the graph has an
  entry for every block, and it keeps exactly the blocks that can be reached from the first block by
  the branches that the builder made, with the bounds that the builder gave them.
\<close>

theorem dalvik_block_make_correct:
  assumes wf: "method_wf code jt (m_entry m) n"
  shows "\<exists>res. dalvik_block_make (Suc n) code jt m = Some res \<and>
    (\<forall>key bs. dalvik_block_get_key_instruction_list (Suc n) code jt (m_entry m) DALVIK_BLOCK_MAX_KEYS = Some (Inr key) \<longrightarrow>
       dalvik_block_build_graph code jt (m_entry m) key = Some (Inr bs) \<longrightarrow>
       (\<exists>graph. res = Inr graph \<and> length graph = length bs \<and>
          (\<forall>i < length bs. (graph ! i \<noteq> None \<longleftrightarrow> (0, i) \<in> (id_edges bs)\<^sup>*) \<and>
             (\<forall>b. graph ! i = Some b \<longrightarrow> index b = i \<and> blk_begin b = blk_begin (bs ! i) \<and> blk_end b = blk_end (bs ! i) \<and>
                nregs b = m_num_regs m))))"
  by (rule block_make_graph [OF wf])

theorem dalvik_block_make_witness:
  "\<exists>graph. dalvik_block_make (Suc 3) example_code example_jt \<lparr>m_entry = 1, m_num_regs = 2\<rparr> = Some (Inr graph) \<and>
     length graph = 3 \<and> graph ! 0 \<noteq> None"
proof -
  obtain bs where bs: "dalvik_block_build_graph example_code example_jt 1 [1, 2, 3] = Some (Inr bs)" "length bs = 3"
    using example_graph by (auto dest: arg_cong [of _ _ length])
  have "method_wf example_code example_jt (m_entry \<lparr>m_entry = 1, m_num_regs = 2\<rparr>) 3" using example_wf by simp
  from dalvik_block_make_correct [OF this] show ?thesis
    using example_keys bs by (auto 4 4)
qed

subsection \<open>The default branch of a packed switch\<close>

text \<open>
  The last branch of a packed switch keeps the flag \<^verbatim>\<open>eq\<close> when it is made unconditional, which
  is the type of a return. It is linked to no block and the search does not follow it, while the same
  instruction's other branches are followed.
\<close>

theorem dalvik_block_packed_switch_default:
  assumes "flags inst = DVM_FLAG_SWITCH_PACKED" "op_branches inst 2 = Some lv" "lv \<noteq> []"
  shows "\<exists>b. dalvik_block_setup_keyinst_switch jt inst key i = Some (Inr b) \<and> length (branches b) = length lv \<and>
    \<not> follows (last (branches b)) \<and> map_option block_ptr (link_branch n (last (branches b))) = Some None \<and>
    (\<forall>br \<in> set (butlast (branches b)). follows br \<and> conditional br)"
proof -
  define bs where "bs = map (\<lambda>(j, l). packed_branch jt key (op_int32 inst 1) j l) (enumerate 0 lv)"
  have len: "length bs = length lv" by (simp add: bs_def)
  then have bs: "length bs = length lv" "bs \<noteq> []" using assms(3) by auto
  have packed: "x \<in> set bs \<Longrightarrow> eq x \<and> \<not> lt x \<and> \<not> disabled x \<and> conditional x" for x
    by (auto simp: bs_def packed_branch_def branch_zero_def)
  obtain ys y where split: "bs = ys @ [y]" using bs(2) by (metis append_butlast_last_id)
  have y: "eq y" "\<not> lt y" "\<not> disabled y" using packed [of y] by (simp_all add: split)
  have ys: "\<not> disabled x \<and> conditional x" if "x \<in> set ys" for x using packed [of x] that by (simp add: split)
  let ?y = "y\<lparr>conditional := False\<rparr>"
  let ?b = "(dalvik_block_new (length lv))\<lparr>index := i, branches := ys @ [?y]\<rparr>"
  have "bs[length bs - 1 := (last bs)\<lparr>conditional := False\<rparr>] = ys @ [?y]" by (simp add: split)
  then have b: "dalvik_block_setup_keyinst_switch jt inst key i = Some (Inr ?b)"
    unfolding dalvik_block_setup_keyinst_switch_def Let_def assms(2) option.sel bs_def [symmetric] using assms(1) bs(2) by simp
  have ret: "DALVIK_BLOCK_BRANCH_UNCOND_TYPE_IS_RETURN ?y"
    using y by (simp add: DALVIK_BLOCK_BRANCH_UNCOND_TYPE_IS_RETURN_def DALVIK_BLOCK_BRANCH_UNCOND_TYPE_GET_def)
  have "\<not> follows ?y" using ret by (simp add: follows_def)
  moreover have "map_option block_ptr (link_branch n ?y) = Some None" using ret y by (simp add: link_branch_def)
  moreover have "follows x \<and> conditional x" if "x \<in> set ys" for x
    using ys [OF that] by (simp add: follows_def DALVIK_BLOCK_BRANCH_UNCOND_TYPE_IS_RETURN_def)
  moreover have "length lv = Suc (length ys)" using bs(1) split by simp
  ultimately show ?thesis using b by (intro exI [of _ ?b]) simp
qed

theorem dalvik_block_packed_switch_default_witness:
  "\<exists>b. dalvik_block_setup_keyinst_switch example_jt
      \<lparr>opcode = DVM_SWITCH, flags = DVM_FLAG_SWITCH_PACKED, inst_next = 2, handler_set = [],
        operands = [POther, PInt32 7, PBranches (Some [0, 1])]\<rparr> [1, 2, 3] 0 = Some (Inr b) \<and> length (branches b) = 2 \<and>
     \<not> follows (last (branches b))"
  using dalvik_block_packed_switch_default [of "\<lparr>opcode = DVM_SWITCH, flags = DVM_FLAG_SWITCH_PACKED, inst_next = 2,
      handler_set = [], operands = [POther, PInt32 7, PBranches (Some [0, 1])]\<rparr>" "[0, 1]" example_jt "[1, 2, 3]" 0 3]
  by (simp add: op_branches_def numeral_2_eq_2) blast

subsection \<open>The cache\<close>

lemma cache_find_new:
  "cache_find classpath methodname typelist
     (dalvik_block_cache_node_alloc classpath methodname typelist ty graph # chain) =
   Some (dalvik_block_cache_node_alloc classpath methodname typelist ty graph)"
  by (cases typelist)
    (simp_all add: cache_find_def dalvik_block_cache_node_alloc_def dalvik_type_list_equal_iff dalvik_type_list_clone_def clone_loop_id)

text \<open>
  The cache is stable. A request that has returned a graph, be it from the cache, newly built or
  the null pointer of a missing method, returns the same graph when it is repeated, and the repetition
  leaves the cache as it is.
\<close>

theorem dalvik_block_from_method_cached:
  assumes "dalvik_block_from_method f atoms code jt dict class method typelist rtype cache = Some (graph, cache')"
  shows "dalvik_block_from_method f atoms code jt dict class method typelist rtype cache' = Some (graph, cache')"
  using assms cache_find_new
  by (auto simp: dalvik_block_from_method_def Let_def dalvik_block_cache_node_alloc_def split: option.splits sum.splits)

definition example_dict :: "method_code memberdict" where
  "example_dict slot = [\<lparr>md_class_path = 7, md_member_name = Some 8, md_args = Some [], md_rtype = None, md_type = TYPE_METHOD,
     md_object = \<lparr>m_entry = 1, m_num_regs = 2\<rparr>\<rparr>]"

lemma example_make: "\<exists>graph. dalvik_block_make (Suc 3) example_code example_jt \<lparr>m_entry = 1, m_num_regs = 2\<rparr> = Some (Inr graph)"
proof -
  have "case dalvik_block_make (Suc 3) example_code example_jt \<lparr>m_entry = 1, m_num_regs = 2\<rparr> of Some (Inr graph) \<Rightarrow> True | _ \<Rightarrow> False"
    by code_simp
  then show ?thesis by (auto split: option.splits sum.splits)
qed

theorem dalvik_block_from_method_cached_witness:
  "\<exists>graph cache. dalvik_block_from_method (Suc 3) (\<lambda>_. 0) example_code example_jt example_dict (Some 7) (Some 8) [] None chain_empty
       = Some (graph, cache) \<and> cache \<noteq> chain_empty \<and>
     dalvik_block_from_method (Suc 3) (\<lambda>_. 0) example_code example_jt example_dict (Some 7) (Some 8) [] None cache = Some (graph, cache)"
proof -
  obtain graph where g: "dalvik_block_make (Suc 3) example_code example_jt \<lparr>m_entry = 1, m_num_regs = 2\<rparr> = Some (Inr graph)"
    using example_make by blast
  define h where "h = unat (dalvik_block_hash (\<lambda>_. 0) 7 8 (Some []) None mod of_nat DALVIK_BLOCK_CACHE_SIZE)"
  have c: "dalvik_block_from_method (Suc 3) (\<lambda>_. 0) example_code example_jt example_dict (Some 7) (Some 8) [] None chain_empty =
      Some (graph, chain_empty(h := [dalvik_block_cache_node_alloc 7 8 (Some []) None graph]))"
    using g by (simp add: dalvik_block_from_method_def Let_def cache_find_def chain_empty_def example_dict_def h_def
        dalvik_memberdict_get_method_def dalvik_memberdict_find_object_def dalvik_type_list_equal_iff dalvik_type_equal_iff)
  have "(chain_empty(h := [dalvik_block_cache_node_alloc 7 8 (Some []) None graph])) h \<noteq> chain_empty h" by (simp add: chain_empty_def)
  then show ?thesis using c dalvik_block_from_method_cached [OF c] by metis
qed

end
