(* ===== verification/Dalvik_Instruction.thy ===== *)
theory Dalvik_Instruction
  imports Dalvik_Block "HOL-Library.Monad_Syntax"
begin

text \<open>
  The reader of instructions (\<^verbatim>\<open>src/dalvik/dalvik_instruction.c\<close>, \<^verbatim>\<open>include/dalvik/dalvik_instruction.h\<close>): the
  pool of instructions, one constructor per keyword that fills an instruction from an expression, and
  the function that frees what an instruction owns.

  A constructor returns the result code, the instruction as far as it has been filled, and the state
  of the reader, which is the string pool (class paths are pooled) and the label table. \<^const>\<open>None\<close> is
  a read behind the end of a string or a write outside of the operand array. An operand is a flag byte
  with a union; the union is a datatype whose constructor tells what has been written to it. A pointer
  to memory that is not valid is \<open>OWild\<close>. The program is compiled without \<^verbatim>\<open>DALVIK_ARRAY_SUPPORT\<close>, as
  the build files do, and for pointers of eight bytes. Memory exhaustion is not modelled.
\<close>

subsection \<open>Numbers in text\<close>

text \<open>The functions of the C library: \<^verbatim>\<open>atoi\<close> truncates what \<^verbatim>\<open>strtol\<close> gives, which saturates at 64 bits.\<close>

definition is_space :: "char \<Rightarrow> bool" where
  "is_space c \<longleftrightarrow> c \<in> {CHR '' '', CHR 0x09, CHR 0x0A, CHR 0x0B, CHR 0x0C, CHR 0x0D}"

definition dec_digit :: "char \<Rightarrow> nat option" where
  "dec_digit c = (if 48 \<le> (of_char c :: nat) \<and> (of_char c :: nat) \<le> 57 then Some (of_char c - 48) else None)"

definition hex_digit :: "char \<Rightarrow> nat option" where
  "hex_digit c =
     (let n = of_char c :: nat
      in if 48 \<le> n \<and> n \<le> 57 then Some (n - 48)
         else if 97 \<le> n \<and> n \<le> 102 then Some (n - 87)
         else if 65 \<le> n \<and> n \<le> 70 then Some (n - 55) else None)"

fun digits_value :: "nat \<Rightarrow> (char \<Rightarrow> nat option) \<Rightarrow> cstr \<Rightarrow> nat \<Rightarrow> nat" where
  "digits_value base d [] acc = acc"
| "digits_value base d (c # s) acc = (case d c of None \<Rightarrow> acc | Some v \<Rightarrow> digits_value base d s (acc * base + v))"

definition signed_value :: "nat \<Rightarrow> (char \<Rightarrow> nat option) \<Rightarrow> cstr \<Rightarrow> int" where
  "signed_value base d s =
     (case dropWhile is_space s of
        [] \<Rightarrow> 0
      | c # t \<Rightarrow>
          if c = CHR ''-'' then - int (digits_value base d t 0)
          else if c = CHR ''+'' then int (digits_value base d t 0)
          else int (digits_value base d (c # t) 0))"

definition strtol :: "cstr \<Rightarrow> int" where
  "strtol s = max (- (2 ^ 63)) (min (2 ^ 63 - 1) (signed_value 10 dec_digit s))"

definition atoi :: "cstr \<Rightarrow> int" where
  "atoi s = sint (of_int (strtol s) :: u32)"

subsection \<open>Instructions\<close>

definition DVM_OPERAND_TYPE_ANY :: u8 where "DVM_OPERAND_TYPE_ANY = 0"
definition DVM_OPERAND_TYPE_BOOLEAN :: u8 where "DVM_OPERAND_TYPE_BOOLEAN = 1"
definition DVM_OPERAND_TYPE_BYTE :: u8 where "DVM_OPERAND_TYPE_BYTE = 2"
definition DVM_OPERAND_TYPE_CHAR :: u8 where "DVM_OPERAND_TYPE_CHAR = 3"
definition DVM_OPERAND_TYPE_SHORT :: u8 where "DVM_OPERAND_TYPE_SHORT = 4"
definition DVM_OPERAND_TYPE_INT :: u8 where "DVM_OPERAND_TYPE_INT = 5"
definition DVM_OPERAND_TYPE_LONG :: u8 where "DVM_OPERAND_TYPE_LONG = 6"
definition DVM_OPERAND_TYPE_DOUBLE :: u8 where "DVM_OPERAND_TYPE_DOUBLE = 7"
definition DVM_OPERAND_TYPE_FLOAT :: u8 where "DVM_OPERAND_TYPE_FLOAT = 8"
definition DVM_OPERAND_TYPE_OBJECT :: u8 where "DVM_OPERAND_TYPE_OBJECT = 9"
definition DVM_OPERAND_TYPE_STRING :: u8 where "DVM_OPERAND_TYPE_STRING = 10"
definition DVM_OPERAND_TYPE_CLASS :: u8 where "DVM_OPERAND_TYPE_CLASS = 11"
definition DVM_OPERAND_TYPE_VOID :: u8 where "DVM_OPERAND_TYPE_VOID = 12"
definition DVM_OPERAND_TYPE_LABEL :: u8 where "DVM_OPERAND_TYPE_LABEL = 13"
definition DVM_OPERAND_TYPE_LABELVECTOR :: u8 where "DVM_OPERAND_TYPE_LABELVECTOR = 14"
definition DVM_OPERAND_TYPE_SPARSE :: u8 where "DVM_OPERAND_TYPE_SPARSE = 15"
definition DVM_OPERAND_TYPE_TYPEDESC :: u8 where "DVM_OPERAND_TYPE_TYPEDESC = 16"
definition DVM_OPERAND_TYPE_TYPELIST :: u8 where "DVM_OPERAND_TYPE_TYPELIST = 17"
definition DVM_OPERAND_TYPE_FIELD :: u8 where "DVM_OPERAND_TYPE_FIELD = 18"
definition DVM_OPERAND_TYPE_EXCEPTION :: u8 where "DVM_OPERAND_TYPE_EXCEPTION = 19"
definition DVM_OPERAND_TYPE_ARRAYDATA :: u8 where "DVM_OPERAND_TYPE_ARRAYDATA = 20"
definition DVM_OPERAND_FLAG_WIDE :: u8 where "DVM_OPERAND_FLAG_WIDE = 0x1"
definition DVM_OPERAND_FLAG_CONST :: u8 where "DVM_OPERAND_FLAG_CONST = 0x40"
definition DVM_OPERAND_FLAG_RESULT :: u8 where "DVM_OPERAND_FLAG_RESULT = 0x80"
definition DVM_OPERAND_FLAG_TYPE :: "u8 \<Rightarrow> u8" where "DVM_OPERAND_FLAG_TYPE what = push_bit 1 what"

definition DVM_FLAG_MONITOR_ENT :: nat where "DVM_FLAG_MONITOR_ENT = 0"
definition DVM_FLAG_MONITOR_EXT :: nat where "DVM_FLAG_MONITOR_EXT = 1"
definition DVM_FLAG_INSTANCE_OF :: nat where "DVM_FLAG_INSTANCE_OF = 0"
definition DVM_FLAG_INSTANCE_NEW :: nat where "DVM_FLAG_INSTANCE_NEW = 1"
definition DVM_FLAG_INSTANCE_GET :: nat where "DVM_FLAG_INSTANCE_GET = 2"
definition DVM_FLAG_INSTANCE_PUT :: nat where "DVM_FLAG_INSTANCE_PUT = 3"
definition DVM_FLAG_INSTANCE_SGET :: nat where "DVM_FLAG_INSTANCE_SGET = 4"
definition DVM_FLAG_INSTANCE_SPUT :: nat where "DVM_FLAG_INSTANCE_SPUT = 5"
definition DVM_FLAG_INVOKE_VIRTUAL :: nat where "DVM_FLAG_INVOKE_VIRTUAL = 0"
definition DVM_FLAG_INVOKE_SUPER :: nat where "DVM_FLAG_INVOKE_SUPER = 1"
definition DVM_FLAG_INVOKE_DIRECT :: nat where "DVM_FLAG_INVOKE_DIRECT = 2"
definition DVM_FLAG_INVOKE_STATIC :: nat where "DVM_FLAG_INVOKE_STATIC = 3"
definition DVM_FLAG_INVOKE_INTERFACE :: nat where "DVM_FLAG_INVOKE_INTERFACE = 4"
definition DVM_FLAG_UOP_NEG :: nat where "DVM_FLAG_UOP_NEG = 0"
definition DVM_FLAG_UOP_NOT :: nat where "DVM_FLAG_UOP_NOT = 1"
definition DVM_FLAG_UOP_TO :: nat where "DVM_FLAG_UOP_TO = 2"
definition DVM_FLAG_BINOP_ADD :: nat where "DVM_FLAG_BINOP_ADD = 0"
definition DVM_FLAG_BINOP_SUB :: nat where "DVM_FLAG_BINOP_SUB = 1"
definition DVM_FLAG_BINOP_MUL :: nat where "DVM_FLAG_BINOP_MUL = 2"
definition DVM_FLAG_BINOP_DIV :: nat where "DVM_FLAG_BINOP_DIV = 3"
definition DVM_FLAG_BINOP_REM :: nat where "DVM_FLAG_BINOP_REM = 4"
definition DVM_FLAG_BINOP_AND :: nat where "DVM_FLAG_BINOP_AND = 5"
definition DVM_FLAG_BINOP_OR :: nat where "DVM_FLAG_BINOP_OR = 6"
definition DVM_FLAG_BINOP_XOR :: nat where "DVM_FLAG_BINOP_XOR = 7"
definition DVM_FLAG_BINOP_SHR :: nat where "DVM_FLAG_BINOP_SHR = 8"
definition DVM_FLAG_BINOP_SHL :: nat where "DVM_FLAG_BINOP_SHL = 9"
definition DVM_FLAG_BINOP_USHR :: nat where "DVM_FLAG_BINOP_USHR = 10"
definition DVM_FLAG_BINOP_RSUB :: nat where "DVM_FLAG_BINOP_RSUB = 11"
definition DVM_FLAG_ARRAY_DATA :: nat where "DVM_FLAG_ARRAY_DATA = 6"
definition DVM_FLAG_INVOKE_RANGE :: nat where "DVM_FLAG_INVOKE_RANGE = 0x40"
definition DVM_FLAG_INVOKE_ANNOTATION :: nat where "DVM_FLAG_INVOKE_ANNOTATION = 0x80"

lemmas dvm_types = DVM_OPERAND_TYPE_ANY_def DVM_OPERAND_TYPE_BOOLEAN_def DVM_OPERAND_TYPE_BYTE_def DVM_OPERAND_TYPE_CHAR_def DVM_OPERAND_TYPE_SHORT_def DVM_OPERAND_TYPE_INT_def DVM_OPERAND_TYPE_LONG_def DVM_OPERAND_TYPE_DOUBLE_def DVM_OPERAND_TYPE_FLOAT_def DVM_OPERAND_TYPE_OBJECT_def DVM_OPERAND_TYPE_STRING_def DVM_OPERAND_TYPE_CLASS_def DVM_OPERAND_TYPE_VOID_def DVM_OPERAND_TYPE_LABEL_def DVM_OPERAND_TYPE_LABELVECTOR_def DVM_OPERAND_TYPE_SPARSE_def DVM_OPERAND_TYPE_TYPEDESC_def DVM_OPERAND_TYPE_TYPELIST_def DVM_OPERAND_TYPE_FIELD_def DVM_OPERAND_TYPE_EXCEPTION_def DVM_OPERAND_TYPE_ARRAYDATA_def
lemmas dvm_flags = dvm_types DVM_OPERAND_FLAG_WIDE_def DVM_OPERAND_FLAG_CONST_def DVM_OPERAND_FLAG_RESULT_def DVM_OPERAND_FLAG_TYPE_def

datatype opr_payload =
    ONum u64
  | OStr "nat option"
  | OType dalvik_type
  | OTypes "dalvik_type list"
  | OLabels "int list"
  | OSparse "sparse_switch_branch list"
  | OData "u32 list"
  | OWild

record operand =
  opr_flags :: u8
  opr_payload :: opr_payload

record instruction =
  ins_opcode :: dalvik_opcode
  ins_num_operands :: nat
  ins_flags :: nat
  ins_method :: "nat option"
  ins_line :: int
  ins_next :: u32
  ins_handler_set :: "exception_handler list"
  ins_operands :: "operand list"
  ins_annotation :: "(nat \<times> u32) option"

record reader =
  rd_pool :: pool
  rd_labels :: label_state

definition operand_zero :: operand where
  "operand_zero = \<lparr>opr_flags = 0, opr_payload = ONum 0\<rparr>"

text \<open>What \<^verbatim>\<open>dalvik_instruction_new\<close> leaves in the cell of the pool.\<close>

definition instruction_zero :: instruction where
  "instruction_zero = \<lparr>ins_opcode = DVM_NOP, ins_num_operands = 0, ins_flags = 0, ins_method = None, ins_line = 0,
     ins_next = DALVIK_INSTRUCTION_INVALID, ins_handler_set = [], ins_operands = replicate 16 operand_zero, ins_annotation = None\<rparr>"

subsection \<open>Parts of the constructors\<close>

definition dalvik_instruction_operand_setup :: "nat \<Rightarrow> u8 \<Rightarrow> opr_payload \<Rightarrow> instruction \<Rightarrow> instruction option" where
  "dalvik_instruction_operand_setup id' fl payload buf =
     (if id' < length (ins_operands buf)
      then Some (buf\<lparr>ins_operands := (ins_operands buf)[id' := \<lparr>opr_flags = fl, opr_payload = payload\<rparr>]\<rparr>) else None)"

text \<open>The annotation is written behind the operands in use, if there is room for it.\<close>

definition dalvik_instruction_write_annotation :: "instruction \<Rightarrow> u32 \<Rightarrow> int \<times> instruction" where
  "dalvik_instruction_write_annotation inst value =
     (if ins_num_operands inst * 16 + 4 < 256 then (0, inst\<lparr>ins_annotation := Some (ins_num_operands inst, value)\<rparr>) else (-1, inst))"

definition DI_REGNUM :: "reader \<Rightarrow> nat \<Rightarrow> int option" where
  "DI_REGNUM s k = (case pool_mem (rd_pool s) k of Some (c # w) \<Rightarrow> Some (atoi w) | _ \<Rightarrow> None)"

definition DI_INSNUM :: "reader \<Rightarrow> nat \<Rightarrow> int option" where
  "DI_INSNUM s k = map_option atoi (pool_mem (rd_pool s) k)"

definition DI_INSNUMLL :: "reader \<Rightarrow> nat \<Rightarrow> int option" where
  "DI_INSNUMLL s k = map_option strtol (pool_mem (rd_pool s) k)"

definition setup_reg :: "reader \<Rightarrow> nat \<Rightarrow> u8 \<Rightarrow> nat \<Rightarrow> instruction \<Rightarrow> instruction option" where
  "setup_reg s i fl k buf = do { n \<leftarrow> DI_REGNUM s k; dalvik_instruction_operand_setup i fl (ONum (of_int n)) buf }"

definition setup_imm :: "reader \<Rightarrow> nat \<Rightarrow> u8 \<Rightarrow> nat \<Rightarrow> instruction \<Rightarrow> instruction option" where
  "setup_imm s i fl k buf = do { n \<leftarrow> DI_INSNUM s k; dalvik_instruction_operand_setup i fl (ONum (of_int n)) buf }"

text \<open>The expressions that the constructors match most often.\<close>

definition lit_rest :: "sexp \<Rightarrow> (nat \<times> sexp) option" where
  "lit_rest e = (case sexp_match e ''(L?A'' [0, 0] of (True, vs) \<Rightarrow> Some (out_addr vs 0, out_sexp vs 1) | _ \<Rightarrow> None)"

definition lit :: "sexp \<Rightarrow> nat option" where
  "lit e = (case sexp_match e ''(L?'' [0] of (True, vs) \<Rightarrow> Some (out_addr vs 0) | _ \<Rightarrow> None)"

definition lit2 :: "sexp \<Rightarrow> (nat \<times> nat) option" where
  "lit2 e = (case sexp_match e ''(L?L?'' [0, 0] of (True, vs) \<Rightarrow> Some (out_addr vs 0, out_addr vs 1) | _ \<Rightarrow> None)"

definition key_lit :: "nat \<Rightarrow> sexp \<Rightarrow> nat option" where
  "key_lit k e = (case sexp_match e ''(L=L?'' [k, 0] of (True, vs) \<Rightarrow> Some (out_addr vs 1) | _ \<Rightarrow> None)"

definition key_rest :: "nat \<Rightarrow> sexp \<Rightarrow> sexp option" where
  "key_rest k e = (case sexp_match e ''(L=A'' [k, 0] of (True, vs) \<Rightarrow> Some (out_sexp vs 1) | _ \<Rightarrow> None)"

definition any_rest :: "sexp \<Rightarrow> (sexp \<times> sexp) option" where
  "any_rest e = (case sexp_match e ''(_?A'' [0, 0] of (True, vs) \<Rightarrow> Some (out_sexp vs 0, out_sexp vs 1) | _ \<Rightarrow> None)"

definition list_rest :: "sexp \<Rightarrow> (sexp \<times> sexp) option" where
  "list_rest e = (case sexp_match e ''(C?A'' [0, 0] of (True, vs) \<Rightarrow> Some (out_sexp vs 0, out_sexp vs 1) | _ \<Rightarrow> None)"

type_synonym di_result = "(int \<times> instruction \<times> reader) option"

subsection \<open>Constructors\<close>

definition dalvik_instruction_NOP :: "nat list \<Rightarrow> sexp \<Rightarrow> instruction \<Rightarrow> reader \<Rightarrow> di_result" where
  "dalvik_instruction_NOP kw next' buf s = Some (0, buf\<lparr>ins_opcode := DVM_NOP, ins_num_operands := 0, ins_flags := 0\<rparr>, s)"

definition dalvik_instruction_MOVE :: "nat list \<Rightarrow> sexp \<Rightarrow> instruction \<Rightarrow> reader \<Rightarrow> di_result" where
  "dalvik_instruction_MOVE kw next' buf s =
     (let buf = buf\<lparr>ins_opcode := DVM_MOVE, ins_num_operands := 2\<rparr>;
          obj = DVM_OPERAND_FLAG_TYPE DVM_OPERAND_TYPE_OBJECT
      in case lit_rest next' of
           None \<Rightarrow> Some (-1, buf, s)
         | Some (curlit, next') \<Rightarrow>
             if curlit = DALVIK_TOKEN_FROM16 kw \<or> curlit = DALVIK_TOKEN_16 kw
             then (case lit2 next' of
                     None \<Rightarrow> Some (-1, buf, s)
                   | Some (dest, sour) \<Rightarrow> do {
                       buf \<leftarrow> setup_reg s 0 0 dest buf; buf \<leftarrow> setup_reg s 1 0 sour buf; Some (0, buf, s) })
             else if curlit = DALVIK_TOKEN_WIDE kw
             then do {
               next' \<leftarrow> sexp_strip next' [DALVIK_TOKEN_FROM16 kw, DALVIK_TOKEN_16 kw];
               (case lit2 next' of
                  None \<Rightarrow> Some (-1, buf, s)
                | Some (dest, sour) \<Rightarrow> do {
                    buf \<leftarrow> setup_reg s 0 DVM_OPERAND_FLAG_WIDE dest buf;
                    buf \<leftarrow> setup_reg s 1 DVM_OPERAND_FLAG_WIDE sour buf;
                    Some (0, buf, s) }) }
             else if curlit = DALVIK_TOKEN_OBJECT kw
             then do {
               next' \<leftarrow> sexp_strip next' [DALVIK_TOKEN_FROM16 kw, DALVIK_TOKEN_16 kw];
               (case lit2 next' of
                  None \<Rightarrow> Some (0, buf, s)
                | Some (dest, sour) \<Rightarrow> do { buf \<leftarrow> setup_reg s 0 obj dest buf; buf \<leftarrow> setup_reg s 1 obj sour buf; Some (0, buf, s) }) }
             else if curlit = DALVIK_TOKEN_RESULT kw
             then (case key_lit (DALVIK_TOKEN_WIDE kw) next' of
                     Some dest \<Rightarrow> do {
                       buf \<leftarrow> setup_reg s 0 DVM_OPERAND_FLAG_WIDE dest buf;
                       buf \<leftarrow> dalvik_instruction_operand_setup 1 (DVM_OPERAND_FLAG_WIDE OR DVM_OPERAND_FLAG_RESULT) (ONum 0) buf;
                       Some (0, buf, s) }
                   | None \<Rightarrow>
                  (case key_lit (DALVIK_TOKEN_OBJECT kw) next' of
                     Some dest \<Rightarrow> do {
                       buf \<leftarrow> setup_reg s 0 obj dest buf;
                       buf \<leftarrow> dalvik_instruction_operand_setup 1 (obj OR DVM_OPERAND_FLAG_RESULT) (ONum 0) buf;
                       Some (0, buf, s) }
                   | None \<Rightarrow>
                  (case lit next' of
                     Some dest \<Rightarrow> do {
                       buf \<leftarrow> setup_reg s 0 0 dest buf;
                       buf \<leftarrow> dalvik_instruction_operand_setup 1 DVM_OPERAND_FLAG_RESULT (ONum 0) buf;
                       Some (0, buf, s) }
                   | None \<Rightarrow> Some (-1, buf, s))))
             else if curlit = DALVIK_TOKEN_EXCEPTION kw
             then (case lit next' of
                     Some dest \<Rightarrow> do {
                       buf \<leftarrow> setup_reg s 0 0 dest buf;
                       buf \<leftarrow> dalvik_instruction_operand_setup 1 (DVM_OPERAND_FLAG_TYPE DVM_OPERAND_TYPE_EXCEPTION) (ONum 0) buf;
                       Some (0, buf, s) }
                   | None \<Rightarrow> Some (-1, buf, s))
             else (case lit next' of
                     Some sour \<Rightarrow> do { buf \<leftarrow> setup_reg s 0 0 curlit buf; buf \<leftarrow> setup_reg s 1 0 sour buf; Some (0, buf, s) }
                   | None \<Rightarrow> Some (0, buf, s)))"

definition dalvik_instruction_RETURN :: "nat list \<Rightarrow> sexp \<Rightarrow> instruction \<Rightarrow> reader \<Rightarrow> di_result" where
  "dalvik_instruction_RETURN kw next' buf s =
     (let buf = buf\<lparr>ins_opcode := DVM_RETURN, ins_num_operands := 1\<rparr>
      in case lit_rest next' of
           None \<Rightarrow> Some (-1, buf, s)
         | Some (curlit, next') \<Rightarrow>
             if curlit = DALVIK_TOKEN_VOID kw
             then do {
               buf \<leftarrow> dalvik_instruction_operand_setup 0 (DVM_OPERAND_FLAG_TYPE DVM_OPERAND_TYPE_VOID) (ONum 0) buf;
               Some (0, buf, s) }
             else if curlit = DALVIK_TOKEN_WIDE kw
             then (case lit next' of
                     Some dest \<Rightarrow> do { buf \<leftarrow> setup_reg s 0 DVM_OPERAND_FLAG_WIDE dest buf; Some (0, buf, s) }
                   | None \<Rightarrow> Some (-1, buf, s))
             else if curlit = DALVIK_TOKEN_OBJECT kw
             then (case lit next' of
                     Some dest \<Rightarrow> do {
                       buf \<leftarrow> setup_reg s 0 (DVM_OPERAND_FLAG_TYPE DVM_OPERAND_TYPE_OBJECT) dest buf; Some (0, buf, s) }
                   | None \<Rightarrow> Some (-1, buf, s))
             else do { buf \<leftarrow> setup_reg s 0 (DVM_OPERAND_FLAG_TYPE DVM_OPERAND_TYPE_INT) curlit buf; Some (0, buf, s) })"

text \<open>A class path that cannot be read is a null pointer in the operand.\<close>

definition object_path :: "sexp \<Rightarrow> reader \<Rightarrow> (nat option \<times> sexp \<times> reader) option" where
  "object_path e s =
     (case sexp_get_object_path e (rd_pool s) of
        None \<Rightarrow> None
      | Some (Inl _) \<Rightarrow> Some (None, e, s)
      | Some (Inr (k, rest, p)) \<Rightarrow> Some (Some k, rest, s\<lparr>rd_pool := p\<rparr>))"

definition dalvik_instruction_CONST :: "nat list \<Rightarrow> sexp \<Rightarrow> instruction \<Rightarrow> reader \<Rightarrow> di_result" where
  "dalvik_instruction_CONST kw next' buf s =
     (let buf = buf\<lparr>ins_opcode := DVM_CONST, ins_num_operands := 2\<rparr>;
          int_const = DVM_OPERAND_FLAG_CONST OR DVM_OPERAND_FLAG_TYPE DVM_OPERAND_TYPE_INT
      in do {
        next' \<leftarrow> sexp_strip next' [DALVIK_TOKEN_4 kw, DALVIK_TOKEN_16 kw];
        (case lit_rest next' of
           None \<Rightarrow> Some (-1, buf, s)
         | Some (curlit, next') \<Rightarrow>
             if curlit = DALVIK_TOKEN_HIGH16 kw
             then (case lit2 next' of
                     Some (dest, sour) \<Rightarrow> do {
                       buf \<leftarrow> setup_reg s 0 0 dest buf;
                       n \<leftarrow> DI_INSNUM s sour;
                       buf \<leftarrow> dalvik_instruction_operand_setup 1 int_const (ONum (of_int (sint (push_bit 16 (of_int n :: u32))))) buf;
                       Some (0, buf, s) }
                   | None \<Rightarrow> Some (-1, buf, s))
             else if curlit = DALVIK_TOKEN_WIDE kw
             then do {
               next' \<leftarrow> sexp_strip next' [DALVIK_TOKEN_16 kw, DALVIK_TOKEN_32 kw];
               (case sexp_match next' ''(L=L?L?'' [DALVIK_TOKEN_HIGH16 kw, 0, 0] of
                  (True, vs) \<Rightarrow> do {
                    buf \<leftarrow> setup_reg s 0 DVM_OPERAND_FLAG_WIDE (out_addr vs 1) buf;
                    n \<leftarrow> DI_INSNUM s (out_addr vs 2);
                    buf \<leftarrow> dalvik_instruction_operand_setup 1 (int_const OR DVM_OPERAND_FLAG_WIDE) (ONum (push_bit 48 (of_int n))) buf;
                    Some (0, buf, s) }
                | _ \<Rightarrow>
                    (case lit2 next' of
                       Some (dest, sour) \<Rightarrow> do {
                         buf \<leftarrow> setup_reg s 0 DVM_OPERAND_FLAG_WIDE dest buf;
                         n \<leftarrow> DI_INSNUMLL s sour;
                         buf \<leftarrow> dalvik_instruction_operand_setup 1 (int_const OR DVM_OPERAND_FLAG_WIDE) (ONum (of_int n)) buf;
                         Some (0, buf, s) }
                     | None \<Rightarrow> Some (-1, buf, s))) }
             else if curlit = DALVIK_TOKEN_STRING kw
             then do {
               next' \<leftarrow> sexp_strip next' [DALVIK_TOKEN_JUMBO kw];
               (case sexp_match next' ''(L?S?'' [0, 0] of
                  (True, vs) \<Rightarrow> do {
                    buf \<leftarrow> setup_reg s 0 (DVM_OPERAND_FLAG_TYPE DVM_OPERAND_TYPE_STRING) (out_addr vs 0) buf;
                    buf \<leftarrow> dalvik_instruction_operand_setup 1
                      (DVM_OPERAND_FLAG_TYPE DVM_OPERAND_TYPE_STRING OR DVM_OPERAND_FLAG_CONST) (OStr (Some (out_addr vs 1))) buf;
                    Some (0, buf, s) }
                | _ \<Rightarrow> Some (-1, buf, s)) }
             else if curlit = DALVIK_TOKEN_CLASS kw
             then (case lit_rest next' of
                     Some (dest, next') \<Rightarrow> do {
                       buf \<leftarrow> setup_reg s 0 (DVM_OPERAND_FLAG_TYPE DVM_OPERAND_TYPE_OBJECT) dest buf;
                       (path, _, s) \<leftarrow> object_path next' s;
                       buf \<leftarrow> dalvik_instruction_operand_setup 1
                         (DVM_OPERAND_FLAG_TYPE DVM_OPERAND_TYPE_CLASS OR DVM_OPERAND_FLAG_CONST) (OStr path) buf;
                       Some (0, buf, s) }
                   | None \<Rightarrow> Some (-1, buf, s))
             else (case lit next' of
                     Some sour \<Rightarrow> do { buf \<leftarrow> setup_reg s 0 0 curlit buf; buf \<leftarrow> setup_imm s 1 int_const sour buf; Some (0, buf, s) }
                   | None \<Rightarrow> Some (-1, buf, s))) })"

definition dalvik_instruction_MONITOR :: "nat list \<Rightarrow> sexp \<Rightarrow> instruction \<Rightarrow> reader \<Rightarrow> di_result" where
  "dalvik_instruction_MONITOR kw next' buf s =
     (let buf = buf\<lparr>ins_opcode := DVM_MONITOR, ins_num_operands := 1\<rparr>
      in case lit_rest next' of
           None \<Rightarrow> Some (-1, buf, s)
         | Some (curlit, next') \<Rightarrow>
             if curlit = DALVIK_TOKEN_ENTER kw \<or> curlit = DALVIK_TOKEN_EXIT kw
             then let buf = buf\<lparr>ins_flags := if curlit = DALVIK_TOKEN_ENTER kw then DVM_FLAG_MONITOR_ENT else DVM_FLAG_MONITOR_EXT\<rparr>
                  in (case lit next' of
                        Some arg \<Rightarrow> do { buf \<leftarrow> setup_reg s 0 0 arg buf; Some (0, buf, s) }
                      | None \<Rightarrow> Some (-1, buf, s))
             else Some (0, buf, s))"

definition dalvik_instruction_CHECK :: "nat list \<Rightarrow> sexp \<Rightarrow> instruction \<Rightarrow> reader \<Rightarrow> di_result" where
  "dalvik_instruction_CHECK kw next' buf s =
     (let buf = buf\<lparr>ins_opcode := DVM_CHECK_CAST, ins_num_operands := 2\<rparr>
      in case lit_rest next' of
           None \<Rightarrow> Some (-1, buf, s)
         | Some (curlit, next') \<Rightarrow>
             if curlit = DALVIK_TOKEN_CAST kw
             then (case lit_rest next' of
                     Some (sour, next') \<Rightarrow> do {
                       buf \<leftarrow> setup_reg s 0 (DVM_OPERAND_FLAG_TYPE DVM_OPERAND_TYPE_OBJECT) sour buf;
                       (path, _, s) \<leftarrow> object_path next' s;
                       buf \<leftarrow> dalvik_instruction_operand_setup 1
                         (DVM_OPERAND_FLAG_TYPE DVM_OPERAND_TYPE_CLASS OR DVM_OPERAND_FLAG_CONST) (OStr path) buf;
                       Some (0, buf, s) }
                   | None \<Rightarrow> Some (-1, buf, s))
             else Some (-1, buf, s))"

definition dalvik_instruction_THROW :: "nat list \<Rightarrow> sexp \<Rightarrow> instruction \<Rightarrow> reader \<Rightarrow> di_result" where
  "dalvik_instruction_THROW kw next' buf s =
     (let buf = buf\<lparr>ins_opcode := DVM_THROW, ins_num_operands := 1\<rparr>
      in case lit next' of
           Some sour \<Rightarrow> do { buf \<leftarrow> setup_reg s 0 (DVM_OPERAND_FLAG_TYPE DVM_OPERAND_TYPE_OBJECT) sour buf; Some (0, buf, s) }
         | None \<Rightarrow> Some (-1, buf, s))"

definition get_label_id :: "nat \<Rightarrow> reader \<Rightarrow> int \<times> reader" where
  "get_label_id label s = (case dalvik_label_get_label_id label (rd_labels s) of (lid, ls) \<Rightarrow> (lid, s\<lparr>rd_labels := ls\<rparr>))"

text \<open>The number of the label is stored even when the label table is full and it is \<open>-1\<close>.\<close>

definition dalvik_instruction_GOTO :: "nat list \<Rightarrow> sexp \<Rightarrow> instruction \<Rightarrow> reader \<Rightarrow> di_result" where
  "dalvik_instruction_GOTO kw next' buf s =
     (let buf = buf\<lparr>ins_opcode := DVM_GOTO, ins_num_operands := 1\<rparr>
      in do {
        next' \<leftarrow> sexp_strip next' [DALVIK_TOKEN_16 kw, DALVIK_TOKEN_32 kw];
        (case lit next' of
           Some label \<Rightarrow>
             (case get_label_id label s of
                (lid, s) \<Rightarrow> do {
                  buf \<leftarrow> dalvik_instruction_operand_setup 0
                    (DVM_OPERAND_FLAG_TYPE DVM_OPERAND_TYPE_LABEL OR DVM_OPERAND_FLAG_CONST) (ONum (of_int lid)) buf;
                  Some (0, buf, s) })
         | None \<Rightarrow> Some (-1, buf, s)) })"

text \<open>The expression that is left is smaller, so the loops over lists end.\<close>

lemma lit_rest_eq: "lit_rest e = (case e of SCons c (SLit k) rest \<Rightarrow> Some (k, rest) | _ \<Rightarrow> None)"
proof (cases e)
  case (SCons c a b)
  then show ?thesis
    by (cases a) (simp_all add: lit_rest_def sexp_match_def char_at_def sexp_match_one_def expected_type_def store_arg_def out_addr_def out_sexp_def)
qed (simp_all add: lit_rest_def sexp_match_def char_at_def)

lemma any_rest_eq: "any_rest e = (case e of SCons c a rest \<Rightarrow> if a = SNil then None else Some (a, rest) | _ \<Rightarrow> None)"
proof (cases e)
  case (SCons c a b)
  then show ?thesis
    by (cases a) (simp_all add: any_rest_def sexp_match_def char_at_def sexp_match_one_def expected_type_def store_arg_def out_addr_def out_sexp_def)
qed (simp_all add: any_rest_def sexp_match_def char_at_def)

lemma list_rest_eq:
  "list_rest e = (case e of SCons c SNil rest \<Rightarrow> Some (SNil, rest) | SCons c (SCons d a b) rest \<Rightarrow> Some (SCons d a b, rest) | _ \<Rightarrow> None)"
proof (cases e)
  case (SCons c a b)
  then show ?thesis
    by (cases a) (simp_all add: list_rest_def sexp_match_def char_at_def sexp_match_one_def expected_type_def store_arg_def out_addr_def out_sexp_def)
qed (simp_all add: list_rest_def sexp_match_def char_at_def)

lemma lit_rest_size [dest]: "lit_rest e = Some (k, rest) \<Longrightarrow> size rest < size e"
  by (auto simp: lit_rest_eq split: sexp.splits)

lemma any_rest_size [dest]: "any_rest e = Some (a, rest) \<Longrightarrow> size a < size e \<and> size rest < size e"
  by (auto simp: any_rest_eq split: sexp.splits if_splits)

lemma list_rest_size [dest]: "list_rest e = Some (a, rest) \<Longrightarrow> size rest < size e"
  by (auto simp: list_rest_eq split: sexp.splits)

text \<open>The jump table of a packed switch; \<^const>\<open>None\<close> in the first place is the error that frees the vector.\<close>

function packed_loop :: "sexp \<Rightarrow> reader \<Rightarrow> int list \<Rightarrow> int list option \<times> reader" where
  "packed_loop next' s jump_table =
     (if next' = SNil then (Some jump_table, s)
      else case lit_rest next' of
             None \<Rightarrow> (None, s)
           | Some (label, next') \<Rightarrow>
               (case get_label_id label s of
                  (lid, s) \<Rightarrow> if lid < 0 then (None, s) else packed_loop next' s (jump_table @ [lid])))"
  by pat_completeness auto
termination
  by (relation "measure (\<lambda>(e, s, t). size e)") (auto dest: lit_rest_size)

declare packed_loop.simps [simp del]

definition dalvik_instruction_PACKED :: "nat list \<Rightarrow> sexp \<Rightarrow> instruction \<Rightarrow> reader \<Rightarrow> di_result" where
  "dalvik_instruction_PACKED kw next' buf s =
     (let buf = buf\<lparr>ins_opcode := DVM_SWITCH, ins_num_operands := 3, ins_flags := DVM_FLAG_SWITCH_PACKED\<rparr>;
          fl = DVM_OPERAND_FLAG_TYPE DVM_OPERAND_TYPE_LABELVECTOR OR DVM_OPERAND_FLAG_CONST
      in case sexp_match next' ''(L=L?L?A'' [DALVIK_TOKEN_SWITCH kw, 0, 0, 0] of
           (True, vs) \<Rightarrow> do {
             buf \<leftarrow> setup_reg s 0 0 (out_addr vs 1) buf;
             buf \<leftarrow> setup_imm s 1 (DVM_OPERAND_FLAG_CONST OR DVM_OPERAND_FLAG_TYPE DVM_OPERAND_TYPE_INT) (out_addr vs 2) buf;
             (case packed_loop (out_sexp vs 3) s [] of
                (Some jump_table, s) \<Rightarrow> do { buf \<leftarrow> dalvik_instruction_operand_setup 2 fl (OLabels jump_table) buf; Some (0, buf, s) }
              | (None, s) \<Rightarrow> do { buf \<leftarrow> dalvik_instruction_operand_setup 2 fl OWild buf; Some (-1, buf, s) }) }
         | _ \<Rightarrow> Some (-1, buf, s))"

function sparse_loop :: "nat list \<Rightarrow> sexp \<Rightarrow> reader \<Rightarrow> sparse_switch_branch list \<Rightarrow> (sparse_switch_branch list option \<times> reader) option" where
  "sparse_loop kw next' s jump_table =
     (if next' = SNil then Some (Some jump_table, s)
      else case list_rest next' of
             None \<Rightarrow> Some (None, s)
           | Some (this, next') \<Rightarrow>
               (case lit2 this of
                  None \<Rightarrow> Some (None, s)
                | Some (cond, label) \<Rightarrow>
                    (case get_label_id label s of
                       (lid, s) \<Rightarrow>
                         (case DI_INSNUM s cond of
                            None \<Rightarrow> None
                          | Some cit \<Rightarrow>
                              if lid < 0 then Some (None, s)
                              else sparse_loop kw next' s
                                (jump_table @ [\<lparr>sb_cond = cit, sb_is_default = (cond = DALVIK_TOKEN_DEFAULT kw), sb_labelid = nat lid\<rparr>])))))"
  by pat_completeness auto
termination
  by (relation "measure (\<lambda>(kw, e, s, t). size e)") (auto dest: list_rest_size)

declare sparse_loop.simps [simp del]

definition dalvik_instruction_SPARSE :: "nat list \<Rightarrow> sexp \<Rightarrow> instruction \<Rightarrow> reader \<Rightarrow> di_result" where
  "dalvik_instruction_SPARSE kw next' buf s =
     (let buf = buf\<lparr>ins_opcode := DVM_SWITCH, ins_flags := DVM_FLAG_SWITCH_SPARSE, ins_num_operands := 2\<rparr>;
          fl = DVM_OPERAND_FLAG_CONST OR DVM_OPERAND_FLAG_TYPE DVM_OPERAND_TYPE_SPARSE
      in case sexp_match next' ''(L=L?A'' [DALVIK_TOKEN_SWITCH kw, 0, 0] of
           (True, vs) \<Rightarrow> do {
             buf \<leftarrow> setup_reg s 0 0 (out_addr vs 1) buf;
             (t, s) \<leftarrow> sparse_loop kw (out_sexp vs 2) s [];
             (case t of
                Some jump_table \<Rightarrow> do { buf \<leftarrow> dalvik_instruction_operand_setup 1 fl (OSparse jump_table) buf; Some (0, buf, s) }
              | None \<Rightarrow> do { buf \<leftarrow> dalvik_instruction_operand_setup 1 fl OWild buf; Some (-1, buf, s) }) }
         | _ \<Rightarrow> Some (-1, buf, s))"

definition dalvik_instruction_CMP :: "nat list \<Rightarrow> sexp \<Rightarrow> instruction \<Rightarrow> reader \<Rightarrow> di_result" where
  "dalvik_instruction_CMP kw next' buf s =
     (let buf = buf\<lparr>ins_opcode := DVM_CMP, ins_num_operands := 3\<rparr>
      in case sexp_match next' ''(L?L?L?L?'' [0, 0, 0, 0] of
           (True, vs) \<Rightarrow> do {
             buf \<leftarrow> setup_reg s 0 0 (out_addr vs 1) buf;
             let ty = out_addr vs 0;
             (case (if ty = DALVIK_TOKEN_FLOAT kw then Some (DVM_OPERAND_FLAG_TYPE DVM_OPERAND_TYPE_FLOAT)
                    else if ty = DALVIK_TOKEN_DOUBLE kw
                    then Some (DVM_OPERAND_FLAG_TYPE DVM_OPERAND_TYPE_DOUBLE OR DVM_OPERAND_FLAG_WIDE)
                    else if ty = DALVIK_TOKEN_LONG kw then Some (DVM_OPERAND_FLAG_TYPE DVM_OPERAND_TYPE_LONG)
                    else None) of
                None \<Rightarrow> Some (-1, buf, s)
              | Some fl \<Rightarrow> do {
                  buf \<leftarrow> setup_reg s 1 fl (out_addr vs 2) buf;
                  buf \<leftarrow> setup_reg s 2 fl (out_addr vs 3) buf;
                  Some (0, buf, s) }) }
         | _ \<Rightarrow> Some (-1, buf, s))"

definition if_flag :: "nat list \<Rightarrow> nat \<Rightarrow> nat option" where
  "if_flag kw how =
     (if how = DALVIK_TOKEN_NEZ kw \<or> how = DALVIK_TOKEN_NE kw then Some DVM_FLAG_IF_NE
      else if how = DALVIK_TOKEN_LEZ kw \<or> how = DALVIK_TOKEN_LE kw then Some DVM_FLAG_IF_LE
      else if how = DALVIK_TOKEN_GEZ kw \<or> how = DALVIK_TOKEN_GE kw then Some DVM_FLAG_IF_GE
      else if how = DALVIK_TOKEN_GTZ kw \<or> how = DALVIK_TOKEN_GT kw then Some DVM_FLAG_IF_GT
      else if how = DALVIK_TOKEN_LTZ kw \<or> how = DALVIK_TOKEN_LT kw then Some DVM_FLAG_IF_LT
      else if how = DALVIK_TOKEN_EQZ kw \<or> how = DALVIK_TOKEN_EQ kw then Some DVM_FLAG_IF_EQ
      else None)"

definition if_label :: "nat list \<Rightarrow> nat \<Rightarrow> sexp \<Rightarrow> instruction \<Rightarrow> reader \<Rightarrow> di_result" where
  "if_label kw how next' buf s =
     (case lit next' of
        None \<Rightarrow> Some (-1, buf, s)
      | Some label \<Rightarrow>
          (case get_label_id label s of
             (lid, s) \<Rightarrow>
               if lid < 0 then Some (-1, buf, s)
               else do {
                 buf \<leftarrow> dalvik_instruction_operand_setup 2
                   (DVM_OPERAND_FLAG_CONST OR DVM_OPERAND_FLAG_TYPE DVM_OPERAND_TYPE_LABEL) (ONum (of_int lid)) buf;
                 (case if_flag kw how of
                    None \<Rightarrow> Some (-1, buf, s)
                  | Some fl \<Rightarrow> Some (0, buf\<lparr>ins_flags := fl\<rparr>, s)) }))"

definition dalvik_instruction_IF :: "nat list \<Rightarrow> sexp \<Rightarrow> instruction \<Rightarrow> reader \<Rightarrow> di_result" where
  "dalvik_instruction_IF kw next' buf s =
     (let buf = buf\<lparr>ins_opcode := DVM_IF, ins_num_operands := 3\<rparr>
      in case sexp_match next' ''(L?L?A'' [0, 0, 0] of
           (True, vs) \<Rightarrow> do {
             let how = out_addr vs 0;
             let next' = out_sexp vs 2;
             buf \<leftarrow> setup_reg s 0 0 (out_addr vs 1) buf;
             if how \<in> {DALVIK_TOKEN_EQZ kw, DALVIK_TOKEN_LTZ kw, DALVIK_TOKEN_GTZ kw, DALVIK_TOKEN_GEZ kw, DALVIK_TOKEN_LEZ kw, DALVIK_TOKEN_NEZ kw}
             then do {
               buf \<leftarrow> dalvik_instruction_operand_setup 1 (DVM_OPERAND_FLAG_CONST OR DVM_OPERAND_FLAG_TYPE DVM_OPERAND_TYPE_INT) (ONum 0) buf;
               if_label kw how next' buf s }
             else (case lit_rest next' of
                     None \<Rightarrow> Some (-1, buf, s)
                   | Some (sourB, next') \<Rightarrow> do { buf \<leftarrow> setup_reg s 1 0 sourB buf; if_label kw how next' buf s }) }
         | _ \<Rightarrow> Some (-1, buf, s))"

definition read_type :: "nat list \<Rightarrow> sexp \<Rightarrow> reader \<Rightarrow> (dalvik_type option \<times> reader) option" where
  "read_type kw e s = do { (t, p) \<leftarrow> dalvik_type_from_sexp kw e (rd_pool s); Some (t, s\<lparr>rd_pool := p\<rparr>) }"

definition any :: "sexp \<Rightarrow> sexp option" where
  "any e = (case sexp_match e ''(_?'' [0] of (True, vs) \<Rightarrow> Some (out_sexp vs 0) | _ \<Rightarrow> None)"

text \<open>The flags that the keyword for a type gives to the first operand, if the literal is such a keyword.\<close>

definition access_type :: "nat list \<Rightarrow> nat \<Rightarrow> u8 option" where
  "access_type kw curlit =
     (if curlit = DALVIK_TOKEN_WIDE kw then Some DVM_OPERAND_FLAG_WIDE
      else if curlit = DALVIK_TOKEN_OBJECT kw then Some (DVM_OPERAND_FLAG_TYPE DVM_OPERAND_TYPE_OBJECT)
      else if curlit = DALVIK_TOKEN_BOOLEAN kw then Some (DVM_OPERAND_FLAG_TYPE DVM_OPERAND_TYPE_BOOLEAN)
      else if curlit = DALVIK_TOKEN_BYTE kw then Some (DVM_OPERAND_FLAG_TYPE DVM_OPERAND_TYPE_BYTE)
      else if curlit = DALVIK_TOKEN_CHAR kw then Some (DVM_OPERAND_FLAG_TYPE DVM_OPERAND_TYPE_CHAR)
      else if curlit = DALVIK_TOKEN_SHORT kw then Some (DVM_OPERAND_FLAG_TYPE DVM_OPERAND_TYPE_SHORT)
      else None)"

text \<open>The class path, the name and the type of a field; \<open>i\<close> is the operand of the path.\<close>

definition setup_field :: "nat list \<Rightarrow> nat \<Rightarrow> sexp \<Rightarrow> instruction \<Rightarrow> reader \<Rightarrow> di_result" where
  "setup_field kw i next' buf s = do {
     (path, next', s) \<leftarrow> object_path next' s;
     (case path of
        None \<Rightarrow> Some (-1, buf, s)
      | Some path \<Rightarrow>
          (case lit_rest next' of
             None \<Rightarrow> Some (-1, buf, s)
           | Some (field, next') \<Rightarrow>
               if next' = SNil then Some (-1, buf, s)
               else case any next' of
                      None \<Rightarrow> Some (-1, buf, s)
                    | Some next' \<Rightarrow> do {
                        (t, s) \<leftarrow> read_type kw next' s;
                        (case t of
                           None \<Rightarrow> Some (-1, buf, s)
                         | Some t \<Rightarrow> do {
                             buf \<leftarrow> dalvik_instruction_operand_setup i
                               (DVM_OPERAND_FLAG_CONST OR DVM_OPERAND_FLAG_TYPE DVM_OPERAND_TYPE_CLASS) (OStr (Some path)) buf;
                             buf \<leftarrow> dalvik_instruction_operand_setup (i + 1)
                               (DVM_OPERAND_FLAG_CONST OR DVM_OPERAND_FLAG_TYPE DVM_OPERAND_TYPE_FIELD) (OStr (Some field)) buf;
                             buf \<leftarrow> dalvik_instruction_operand_setup (i + 2)
                               (DVM_OPERAND_FLAG_CONST OR DVM_OPERAND_FLAG_TYPE DVM_OPERAND_TYPE_TYPEDESC) (OType t) buf;
                             Some (0, buf, s) }) })) }"

definition dalvik_instruction_setup_object_operations :: "nat list \<Rightarrow> dalvik_opcode \<Rightarrow> nat \<Rightarrow> sexp \<Rightarrow> instruction \<Rightarrow> reader \<Rightarrow> di_result" where
  "dalvik_instruction_setup_object_operations kw opc fl next' buf s =
     (let static = (opc \<noteq> DVM_ARRAY \<and> (fl = DVM_FLAG_INSTANCE_SGET \<or> fl = DVM_FLAG_INSTANCE_SPUT));
          buf = buf\<lparr>ins_opcode := opc, ins_num_operands := if opc = DVM_ARRAY then 3 else if static then 4 else 5, ins_flags := fl\<rparr>
      in case lit_rest next' of
           None \<Rightarrow> Some (-1, buf, s)
         | Some (curlit, after) \<Rightarrow>
             (let (opflags, next') = (case access_type kw curlit of Some f \<Rightarrow> (f, after) | None \<Rightarrow> (0, next'))
              in case lit_rest next' of
                   None \<Rightarrow> Some (-1, buf, s)
                 | Some (dest, next') \<Rightarrow> do {
                     buf \<leftarrow> setup_reg s 0 opflags dest buf;
                     if static then setup_field kw 1 next' buf s
                     else (case lit_rest next' of
                             None \<Rightarrow> Some (-1, buf, s)
                           | Some (obj, next') \<Rightarrow> do {
                               buf \<leftarrow> setup_reg s 1 (DVM_OPERAND_FLAG_TYPE DVM_OPERAND_TYPE_OBJECT) obj buf;
                               if opc \<noteq> DVM_ARRAY then setup_field kw 2 next' buf s
                               else (case lit next' of
                                       None \<Rightarrow> Some (-1, buf, s)
                                     | Some idx \<Rightarrow> do {
                                         buf \<leftarrow> setup_reg s 2 (DVM_OPERAND_FLAG_TYPE DVM_OPERAND_TYPE_INT) idx buf; Some (0, buf, s) }) }) }))"

definition dalvik_instruction_AGET :: "nat list \<Rightarrow> sexp \<Rightarrow> instruction \<Rightarrow> reader \<Rightarrow> di_result" where
  "dalvik_instruction_AGET kw next' buf s = Some (-1, buf, s)"

definition dalvik_instruction_APUT :: "nat list \<Rightarrow> sexp \<Rightarrow> instruction \<Rightarrow> reader \<Rightarrow> di_result" where
  "dalvik_instruction_APUT kw next' buf s = Some (-1, buf, s)"

definition dalvik_instruction_IGET :: "nat list \<Rightarrow> sexp \<Rightarrow> instruction \<Rightarrow> reader \<Rightarrow> di_result" where
  "dalvik_instruction_IGET kw next' buf s = dalvik_instruction_setup_object_operations kw DVM_INSTANCE DVM_FLAG_INSTANCE_GET next' buf s"

definition dalvik_instruction_IPUT :: "nat list \<Rightarrow> sexp \<Rightarrow> instruction \<Rightarrow> reader \<Rightarrow> di_result" where
  "dalvik_instruction_IPUT kw next' buf s = dalvik_instruction_setup_object_operations kw DVM_INSTANCE DVM_FLAG_INSTANCE_PUT next' buf s"

definition dalvik_instruction_SGET :: "nat list \<Rightarrow> sexp \<Rightarrow> instruction \<Rightarrow> reader \<Rightarrow> di_result" where
  "dalvik_instruction_SGET kw next' buf s = dalvik_instruction_setup_object_operations kw DVM_INSTANCE DVM_FLAG_INSTANCE_SGET next' buf s"

definition dalvik_instruction_SPUT :: "nat list \<Rightarrow> sexp \<Rightarrow> instruction \<Rightarrow> reader \<Rightarrow> di_result" where
  "dalvik_instruction_SPUT kw next' buf s = dalvik_instruction_setup_object_operations kw DVM_INSTANCE DVM_FLAG_INSTANCE_SPUT next' buf s"

text \<open>
  The argument types of a call. The array is filled until an element cannot be matched; if that happens
  before its end, the rest of the array is not initialised, except in the range form.
\<close>

datatype types_result = TypesDone "dalvik_type list" | TypesShort "dalvik_type list" | TypesError

primrec types_loop :: "nat list \<Rightarrow> nat \<Rightarrow> sexp \<Rightarrow> reader \<Rightarrow> dalvik_type list \<Rightarrow> (types_result \<times> reader) option" where
  "types_loop kw 0 next' s arr = Some (TypesDone arr, s)"
| "types_loop kw (Suc n) next' s arr =
     (case any_rest next' of
        None \<Rightarrow> Some (TypesShort arr, s)
      | Some (type_sexp, next') \<Rightarrow> do {
          (t, s) \<leftarrow> read_type kw type_sexp s;
          (case t of None \<Rightarrow> Some (TypesError, s) | Some t \<Rightarrow> types_loop kw n next' s (arr @ [t])) })"

text \<open>The signature behind the method: the return type, then the list of argument types.\<close>

definition setup_signature :: "nat list \<Rightarrow> bool \<Rightarrow> (instruction \<Rightarrow> instruction option) \<Rightarrow> sexp \<Rightarrow> instruction \<Rightarrow> reader \<Rightarrow> di_result" where
  "setup_signature kw cleared extra next' buf s =
     (case sexp_match next' ''(C?_?'' [0, 0] of
        (True, vs) \<Rightarrow> do {
          (rtype, s) \<leftarrow> read_type kw (out_sexp vs 1) s;
          (case rtype of
             None \<Rightarrow> Some (-1, buf, s)
           | Some rtype \<Rightarrow> do {
               buf \<leftarrow> dalvik_instruction_operand_setup 3
                 (DVM_OPERAND_FLAG_CONST OR DVM_OPERAND_FLAG_TYPE DVM_OPERAND_TYPE_TYPEDESC) (OType rtype) buf;
               buf \<leftarrow> extra buf;
               (r, s) \<leftarrow> types_loop kw (sexp_length (out_sexp vs 0)) (out_sexp vs 0) s [];
               let fl = DVM_OPERAND_FLAG_CONST OR DVM_OPERAND_FLAG_TYPE DVM_OPERAND_TYPE_TYPELIST;
               (case r of
                  TypesError \<Rightarrow> Some (-1, buf, s)
                | TypesDone ts \<Rightarrow> do { buf \<leftarrow> dalvik_instruction_operand_setup 2 fl (OTypes ts) buf; Some (0, buf, s) }
                | TypesShort ts \<Rightarrow> do {
                    buf \<leftarrow> dalvik_instruction_operand_setup 2 fl (if cleared then OTypes ts else OWild) buf; Some (0, buf, s) }) }) }
      | _ \<Rightarrow> Some (-1, buf, s))"

definition method_address :: "sexp \<Rightarrow> reader \<Rightarrow> ((nat \<times> nat) option \<times> sexp \<times> reader) option" where
  "method_address e s =
     (case sexp_get_method_address e (rd_pool s) of
        None \<Rightarrow> None
      | Some (Inl _) \<Rightarrow> Some (None, e, s)
      | Some (Inr (path, name, rest, p)) \<Rightarrow> Some (Some (path, name), rest, s\<lparr>rd_pool := p\<rparr>))"

definition setup_method :: "nat \<Rightarrow> nat \<Rightarrow> instruction \<Rightarrow> instruction option" where
  "setup_method path field buf = do {
     buf \<leftarrow> dalvik_instruction_operand_setup 0 (DVM_OPERAND_FLAG_CONST OR DVM_OPERAND_FLAG_TYPE DVM_OPERAND_TYPE_CLASS) (OStr (Some path)) buf;
     dalvik_instruction_operand_setup 1 (DVM_OPERAND_FLAG_CONST OR DVM_OPERAND_FLAG_TYPE DVM_OPERAND_TYPE_FIELD) (OStr (Some field)) buf }"

text \<open>\<^verbatim>\<open>num_operands\<close> has four bits; the loop stops with an error when it wraps around.\<close>

function invoke_args :: "sexp \<Rightarrow> instruction \<Rightarrow> reader \<Rightarrow> (bool \<times> instruction) option" where
  "invoke_args args buf s =
     (if args = SNil then Some (True, buf)
      else if ins_num_operands buf \<ge> 16 then Some (False, buf)
      else case lit_rest args of
             None \<Rightarrow> Some (False, buf)
           | Some (reg1, args) \<Rightarrow>
               (case setup_reg s (ins_num_operands buf) 0 reg1 buf of
                  None \<Rightarrow> None
                | Some buf \<Rightarrow>
                    let buf = buf\<lparr>ins_num_operands := (ins_num_operands buf + 1) mod 16\<rparr>
                    in if ins_num_operands buf = 0 then Some (False, buf) else invoke_args args buf s))"
  by pat_completeness auto
termination
  by (relation "measure (\<lambda>(e, b, s). size e)") (auto dest: lit_rest_size)

declare invoke_args.simps [simp del]

definition invoke_kind :: "nat list \<Rightarrow> nat \<Rightarrow> nat option" where
  "invoke_kind kw curlit =
     (if curlit = DALVIK_TOKEN_VIRTUAL kw then Some DVM_FLAG_INVOKE_VIRTUAL
      else if curlit = DALVIK_TOKEN_SUPER kw then Some DVM_FLAG_INVOKE_SUPER
      else if curlit = DALVIK_TOKEN_DIRECT kw then Some DVM_FLAG_INVOKE_DIRECT
      else if curlit = DALVIK_TOKEN_STATIC kw then Some DVM_FLAG_INVOKE_STATIC
      else if curlit = DALVIK_TOKEN_INTERFACE kw then Some DVM_FLAG_INVOKE_INTERFACE
      else None)"

definition invoke_range :: "nat list \<Rightarrow> sexp \<Rightarrow> instruction \<Rightarrow> reader \<Rightarrow> di_result" where
  "invoke_range kw next' buf s =
     (let buf = buf\<lparr>ins_flags := ins_flags buf OR DVM_FLAG_INVOKE_RANGE, ins_num_operands := 6\<rparr>;
          fl = DVM_OPERAND_FLAG_CONST OR DVM_OPERAND_FLAG_TYPE DVM_OPERAND_TYPE_INT
      in case list_rest next' of
           None \<Rightarrow> Some (-1, buf, s)
         | Some (args, next') \<Rightarrow> do {
             (m, next', s) \<leftarrow> method_address next' s;
             (case m of
                None \<Rightarrow> Some (-1, buf, s)
              | Some (path, field) \<Rightarrow> do {
                  buf \<leftarrow> setup_method path field buf;
                  (case (case lit2 args of Some r \<Rightarrow> Some r | None \<Rightarrow> map_option (\<lambda>r. (r, r)) (lit args)) of
                     None \<Rightarrow> Some (-1, buf, s)
                   | Some (reg1, reg2) \<Rightarrow> do {
                       reg_from \<leftarrow> DI_REGNUM s reg1;
                       reg_to \<leftarrow> DI_REGNUM s reg2;
                       setup_signature kw True
                         (\<lambda>buf. do { buf \<leftarrow> dalvik_instruction_operand_setup 4 fl (ONum (of_int reg_from)) buf;
                                    dalvik_instruction_operand_setup 5 fl (ONum (of_int reg_to)) buf }) next' buf s }) }) })"

definition dalvik_instruction_INVOKE :: "nat list \<Rightarrow> sexp \<Rightarrow> instruction \<Rightarrow> reader \<Rightarrow> di_result" where
  "dalvik_instruction_INVOKE kw next' buf s =
     (let buf = buf\<lparr>ins_opcode := DVM_INVOKE\<rparr>
      in case lit_rest next' of
           None \<Rightarrow> Some (-1, buf, s)
         | Some (curlit, next') \<Rightarrow>
             (case invoke_kind kw curlit of
                None \<Rightarrow> Some (-1, buf, s)
              | Some fl \<Rightarrow>
                  (let buf = buf\<lparr>ins_flags := fl\<rparr>
                   in case key_rest (DALVIK_TOKEN_RANGE kw) next' of
                        Some next' \<Rightarrow> invoke_range kw next' buf s
                      | None \<Rightarrow>
                          (case list_rest next' of
                             None \<Rightarrow> Some (0, buf, s)
                           | Some (args, next') \<Rightarrow> do {
                               (m, next', s) \<leftarrow> method_address next' s;
                               (case m of
                                  None \<Rightarrow> Some (-1, buf, s)
                                | Some (path, field) \<Rightarrow> do {
                                    buf \<leftarrow> setup_method path field buf;
                                    (ok, buf) \<leftarrow> invoke_args args (buf\<lparr>ins_num_operands := 4\<rparr>) s;
                                    if ok then setup_signature kw False Some next' buf s else Some (-1, buf, s) }) }))))"

text \<open>
  The type keyword of an arithmetic instruction, as flags; \<^const>\<open>None\<close> is the code \<open>-1\<close>. The expression
  is advanced past a literal even when it is no type.
\<close>

definition dalvik_instruction_sexpression_fetch_type :: "nat list \<Rightarrow> sexp \<Rightarrow> u8 \<Rightarrow> u8 option \<times> sexp" where
  "dalvik_instruction_sexpression_fetch_type kw e additional_flags =
     (case lit_rest e of
        None \<Rightarrow> (None, e)
      | Some (ty, rest) \<Rightarrow>
          (map_option (\<lambda>t. additional_flags OR DVM_OPERAND_FLAG_TYPE t)
             (if ty = DALVIK_TOKEN_INT kw then Some DVM_OPERAND_TYPE_INT
              else if ty = DALVIK_TOKEN_LONG kw then Some DVM_OPERAND_TYPE_LONG
              else if ty = DALVIK_TOKEN_FLOAT kw then Some DVM_OPERAND_TYPE_FLOAT
              else if ty = DALVIK_TOKEN_DOUBLE kw then Some DVM_OPERAND_TYPE_DOUBLE
              else if ty = DALVIK_TOKEN_BYTE kw then Some DVM_OPERAND_TYPE_BYTE
              else if ty = DALVIK_TOKEN_CHAR kw then Some DVM_OPERAND_TYPE_CHAR
              else if ty = DALVIK_TOKEN_SHORT kw then Some DVM_OPERAND_TYPE_SHORT
              else None), rest))"

primrec arithmetic_loop :: "u8 option list \<Rightarrow> nat \<Rightarrow> sexp \<Rightarrow> instruction \<Rightarrow> reader \<Rightarrow> di_result" where
  "arithmetic_loop [] i next' buf s = Some (0, buf, s)"
| "arithmetic_loop (fl # fls) i next' buf s =
     (case fl of
        None \<Rightarrow> Some (-1, buf, s)
      | Some fl \<Rightarrow>
          (case lit_rest next' of
             None \<Rightarrow> Some (-1, buf, s)
           | Some (reg, next') \<Rightarrow> do {
               buf \<leftarrow> (if fl AND DVM_OPERAND_FLAG_CONST \<noteq> 0 then setup_imm s i fl reg buf else setup_reg s i fl reg buf);
               arithmetic_loop fls (Suc i) next' buf s }))"

definition dalvik_instruction_setup_arithmetic ::
    "dalvik_opcode \<Rightarrow> nat \<Rightarrow> u8 option list \<Rightarrow> sexp \<Rightarrow> instruction \<Rightarrow> reader \<Rightarrow> di_result" where
  "dalvik_instruction_setup_arithmetic opc fl operand_flags next' buf s =
     arithmetic_loop operand_flags 0 next'
       (buf\<lparr>ins_opcode := opc, ins_flags := fl, ins_num_operands := length operand_flags\<rparr>) s"

definition dalvik_instruction_NEG :: "nat list \<Rightarrow> sexp \<Rightarrow> instruction \<Rightarrow> reader \<Rightarrow> di_result" where
  "dalvik_instruction_NEG kw next' buf s =
     (case dalvik_instruction_sexpression_fetch_type kw next' 0 of
        (fl, next') \<Rightarrow> dalvik_instruction_setup_arithmetic DVM_UNOP DVM_FLAG_UOP_NEG [fl, fl] next' buf s)"

definition dalvik_instruction_NOT :: "nat list \<Rightarrow> sexp \<Rightarrow> instruction \<Rightarrow> reader \<Rightarrow> di_result" where
  "dalvik_instruction_NOT kw next' buf s =
     (case dalvik_instruction_sexpression_fetch_type kw next' 0 of
        (fl, next') \<Rightarrow> dalvik_instruction_setup_arithmetic DVM_UNOP DVM_FLAG_UOP_NOT [fl, fl] next' buf s)"

text \<open>The first operand, which is the destination, gets the type of the source, the second one the type of the destination.\<close>

definition dalvik_instruction_convert_operator :: "nat list \<Rightarrow> sexp \<Rightarrow> instruction \<Rightarrow> u8 \<Rightarrow> reader \<Rightarrow> di_result" where
  "dalvik_instruction_convert_operator kw next' buf ty s =
     (case key_rest (DALVIK_TOKEN_TO kw) next' of
        None \<Rightarrow> Some (-1, buf, s)
      | Some next' \<Rightarrow>
          (case dalvik_instruction_sexpression_fetch_type kw next' 0 of
             (fl, next') \<Rightarrow>
               dalvik_instruction_setup_arithmetic DVM_UNOP DVM_FLAG_UOP_TO [Some (DVM_OPERAND_FLAG_TYPE ty), fl] next' buf s))"

definition dalvik_instruction_INT :: "nat list \<Rightarrow> sexp \<Rightarrow> instruction \<Rightarrow> reader \<Rightarrow> di_result" where
  "dalvik_instruction_INT kw next' buf s = dalvik_instruction_convert_operator kw next' buf DVM_OPERAND_TYPE_INT s"

definition dalvik_instruction_LONG :: "nat list \<Rightarrow> sexp \<Rightarrow> instruction \<Rightarrow> reader \<Rightarrow> di_result" where
  "dalvik_instruction_LONG kw next' buf s = dalvik_instruction_convert_operator kw next' buf DVM_OPERAND_TYPE_LONG s"

definition dalvik_instruction_FLOAT :: "nat list \<Rightarrow> sexp \<Rightarrow> instruction \<Rightarrow> reader \<Rightarrow> di_result" where
  "dalvik_instruction_FLOAT kw next' buf s = dalvik_instruction_convert_operator kw next' buf DVM_OPERAND_TYPE_FLOAT s"

definition dalvik_instruction_DOUBLE :: "nat list \<Rightarrow> sexp \<Rightarrow> instruction \<Rightarrow> reader \<Rightarrow> di_result" where
  "dalvik_instruction_DOUBLE kw next' buf s = dalvik_instruction_convert_operator kw next' buf DVM_OPERAND_TYPE_DOUBLE s"

definition dalvik_instruction_setup_binary_operator :: "nat list \<Rightarrow> nat \<Rightarrow> sexp \<Rightarrow> instruction \<Rightarrow> reader \<Rightarrow> di_result" where
  "dalvik_instruction_setup_binary_operator kw fl next' buf s =
     (let buf = buf\<lparr>ins_opcode := DVM_BINOP, ins_flags := fl\<rparr>
      in case dalvik_instruction_sexpression_fetch_type kw next' 0 of
           (None, _) \<Rightarrow> Some (-1, buf, s)
         | (Some opflags, previous) \<Rightarrow>
             (case lit_rest previous of
                None \<Rightarrow> Some (-1, buf, s)
              | Some (curlit, after) \<Rightarrow>
                  (let buf = buf\<lparr>ins_num_operands := 3\<rparr>;
                       flag2addr = (curlit = DALVIK_TOKEN_2ADDR kw);
                       const_operand = (\<not> flag2addr \<and> (curlit = DALVIK_TOKEN_LIT16 kw \<or> curlit = DALVIK_TOKEN_LIT8 kw))
                   in case sexp_match (if flag2addr \<or> const_operand then after else previous) ''(L?L?A'' [0, 0, 0] of
                        (True, vs) \<Rightarrow> do {
                          buf \<leftarrow> setup_reg s 0 opflags (out_addr vs 0) buf;
                          buf \<leftarrow> (if flag2addr then setup_reg s 1 opflags (out_addr vs 0) buf else Some buf);
                          buf \<leftarrow> setup_reg s (if flag2addr then 2 else 1) opflags (out_addr vs 1) buf;
                          if flag2addr then Some (0, buf, s)
                          else (case lit (out_sexp vs 2) of
                                  None \<Rightarrow> Some (-1, buf, s)
                                | Some reg3 \<Rightarrow> do {
                                    buf \<leftarrow> (if const_operand then setup_imm s 2 (opflags OR DVM_OPERAND_FLAG_CONST) reg3 buf
                                           else setup_reg s 2 opflags reg3 buf);
                                    Some (0, buf, s) }) }
                      | _ \<Rightarrow> Some (-1, buf, s))))"

definition dalvik_instruction_ADD :: "nat list \<Rightarrow> sexp \<Rightarrow> instruction \<Rightarrow> reader \<Rightarrow> di_result" where
  "dalvik_instruction_ADD kw next' buf s = dalvik_instruction_setup_binary_operator kw DVM_FLAG_BINOP_ADD next' buf s"

definition dalvik_instruction_SUB :: "nat list \<Rightarrow> sexp \<Rightarrow> instruction \<Rightarrow> reader \<Rightarrow> di_result" where
  "dalvik_instruction_SUB kw next' buf s = dalvik_instruction_setup_binary_operator kw DVM_FLAG_BINOP_SUB next' buf s"

definition dalvik_instruction_MUL :: "nat list \<Rightarrow> sexp \<Rightarrow> instruction \<Rightarrow> reader \<Rightarrow> di_result" where
  "dalvik_instruction_MUL kw next' buf s = dalvik_instruction_setup_binary_operator kw DVM_FLAG_BINOP_MUL next' buf s"

definition dalvik_instruction_DIV :: "nat list \<Rightarrow> sexp \<Rightarrow> instruction \<Rightarrow> reader \<Rightarrow> di_result" where
  "dalvik_instruction_DIV kw next' buf s = dalvik_instruction_setup_binary_operator kw DVM_FLAG_BINOP_DIV next' buf s"

definition dalvik_instruction_REM :: "nat list \<Rightarrow> sexp \<Rightarrow> instruction \<Rightarrow> reader \<Rightarrow> di_result" where
  "dalvik_instruction_REM kw next' buf s = dalvik_instruction_setup_binary_operator kw DVM_FLAG_BINOP_REM next' buf s"

definition dalvik_instruction_AND :: "nat list \<Rightarrow> sexp \<Rightarrow> instruction \<Rightarrow> reader \<Rightarrow> di_result" where
  "dalvik_instruction_AND kw next' buf s = dalvik_instruction_setup_binary_operator kw DVM_FLAG_BINOP_AND next' buf s"

definition dalvik_instruction_OR :: "nat list \<Rightarrow> sexp \<Rightarrow> instruction \<Rightarrow> reader \<Rightarrow> di_result" where
  "dalvik_instruction_OR kw next' buf s = dalvik_instruction_setup_binary_operator kw DVM_FLAG_BINOP_OR next' buf s"

definition dalvik_instruction_XOR :: "nat list \<Rightarrow> sexp \<Rightarrow> instruction \<Rightarrow> reader \<Rightarrow> di_result" where
  "dalvik_instruction_XOR kw next' buf s = dalvik_instruction_setup_binary_operator kw DVM_FLAG_BINOP_XOR next' buf s"

definition dalvik_instruction_SHL :: "nat list \<Rightarrow> sexp \<Rightarrow> instruction \<Rightarrow> reader \<Rightarrow> di_result" where
  "dalvik_instruction_SHL kw next' buf s = dalvik_instruction_setup_binary_operator kw DVM_FLAG_BINOP_SHL next' buf s"

definition dalvik_instruction_SHR :: "nat list \<Rightarrow> sexp \<Rightarrow> instruction \<Rightarrow> reader \<Rightarrow> di_result" where
  "dalvik_instruction_SHR kw next' buf s = dalvik_instruction_setup_binary_operator kw DVM_FLAG_BINOP_SHR next' buf s"

definition dalvik_instruction_USHR :: "nat list \<Rightarrow> sexp \<Rightarrow> instruction \<Rightarrow> reader \<Rightarrow> di_result" where
  "dalvik_instruction_USHR kw next' buf s = dalvik_instruction_setup_binary_operator kw DVM_FLAG_BINOP_USHR next' buf s"

definition dalvik_instruction_RSUB :: "nat list \<Rightarrow> sexp \<Rightarrow> instruction \<Rightarrow> reader \<Rightarrow> di_result" where
  "dalvik_instruction_RSUB kw next' buf s = dalvik_instruction_setup_binary_operator kw DVM_FLAG_BINOP_RSUB next' buf s"

definition dalvik_instruction_INSTANCE :: "nat list \<Rightarrow> sexp \<Rightarrow> instruction \<Rightarrow> reader \<Rightarrow> di_result" where
  "dalvik_instruction_INSTANCE kw next' buf s =
     (let buf = buf\<lparr>ins_opcode := DVM_INSTANCE, ins_flags := DVM_FLAG_INSTANCE_OF, ins_num_operands := 3\<rparr>
      in case sexp_match next' ''(L=L?L?A'' [DALVIK_TOKEN_OF kw, 0, 0, 0] of
           (True, vs) \<Rightarrow> do {
             let next' = out_sexp vs 3;
             buf \<leftarrow> setup_reg s 0 0 (out_addr vs 1) buf;
             buf \<leftarrow> setup_reg s 1 (DVM_OPERAND_FLAG_TYPE DVM_OPERAND_TYPE_OBJECT) (out_addr vs 2) buf;
             (path, _, s) \<leftarrow> object_path next' s;
             (case path of
                Some path \<Rightarrow> do {
                  buf \<leftarrow> dalvik_instruction_operand_setup 2
                    (DVM_OPERAND_FLAG_TYPE DVM_OPERAND_TYPE_CLASS OR DVM_OPERAND_FLAG_CONST) (OStr (Some path)) buf;
                  Some (0, buf, s) }
              | None \<Rightarrow>
                  (case any next' of
                     None \<Rightarrow> Some (-1, buf, s)
                   | Some next' \<Rightarrow> do {
                       (t, s) \<leftarrow> read_type kw next' s;
                       (case t of
                          None \<Rightarrow> Some (-1, buf, s)
                        | Some t \<Rightarrow> do {
                            buf \<leftarrow> dalvik_instruction_operand_setup 2
                              (DVM_OPERAND_FLAG_CONST OR DVM_OPERAND_FLAG_TYPE DVM_OPERAND_TYPE_TYPEDESC) (OType t) buf;
                            Some (0, buf, s) }) })) }
         | _ \<Rightarrow> Some (-1, buf, s))"

definition dalvik_instruction_ARRAY :: "nat list \<Rightarrow> sexp \<Rightarrow> instruction \<Rightarrow> reader \<Rightarrow> di_result" where
  "dalvik_instruction_ARRAY kw next' buf s = Some (-1, buf, s)"

definition dalvik_instruction_NEW :: "nat list \<Rightarrow> sexp \<Rightarrow> instruction \<Rightarrow> reader \<Rightarrow> di_result" where
  "dalvik_instruction_NEW kw next' buf s =
     (case lit_rest next' of
        None \<Rightarrow> Some (-1, buf, s)
      | Some (curlit, next') \<Rightarrow>
          if curlit = DALVIK_TOKEN_ARRAY kw \<or> curlit \<noteq> DALVIK_TOKEN_INSTANCE kw then Some (-1, buf, s)
          else let buf = buf\<lparr>ins_opcode := DVM_INSTANCE\<rparr>
               in case lit_rest next' of
                    None \<Rightarrow> Some (-1, buf, s)
                  | Some (dest, next') \<Rightarrow> do {
                      buf \<leftarrow> setup_reg s 0 0 dest buf;
                      let buf = buf\<lparr>ins_flags := DVM_FLAG_INSTANCE_NEW\<rparr>;
                      (path, _, s) \<leftarrow> object_path next' s;
                      (case path of
                         None \<Rightarrow> Some (-1, buf, s)
                       | Some path \<Rightarrow> do {
                           buf \<leftarrow> dalvik_instruction_operand_setup 1
                             (DVM_OPERAND_FLAG_TYPE DVM_OPERAND_TYPE_CLASS OR DVM_OPERAND_FLAG_CONST) (OStr (Some path)) buf;
                           Some (0, buf\<lparr>ins_num_operands := 2\<rparr>, s) }) })"

definition dalvik_instruction_FILLED :: "nat list \<Rightarrow> sexp \<Rightarrow> instruction \<Rightarrow> reader \<Rightarrow> di_result" where
  "dalvik_instruction_FILLED kw next' buf s = Some (-1, buf, s)"

definition dalvik_instruction_UINVOKE :: "nat list \<Rightarrow> sexp \<Rightarrow> instruction \<Rightarrow> reader \<Rightarrow> di_result" where
  "dalvik_instruction_UINVOKE kw next' buf s =
     (case lit_rest next' of
        None \<Rightarrow> Some (-1, buf, s)
      | Some (target, next') \<Rightarrow> do {
          (rc, buf, s) \<leftarrow> dalvik_instruction_INVOKE kw next' buf s;
          tid \<leftarrow> DI_REGNUM s target;
          let buf = buf\<lparr>ins_flags := ins_flags buf OR DVM_FLAG_INVOKE_ANNOTATION\<rparr>;
          Some (rc, snd (dalvik_instruction_write_annotation buf (of_int tid)), s) })"

text \<open>
  The bytes of one number of an array, in the order of increasing weight; \<^const>\<open>None\<close> in the first place
  is the error. A byte has the form \<^verbatim>\<open>0xhh\<close>.
\<close>

definition data_byte :: "reader \<Rightarrow> nat \<Rightarrow> u32 option option" where
  "data_byte s k =
     (case pool_mem (rd_pool s) k of
        None \<Rightarrow> None
      | Some w \<Rightarrow> Some (if length w \<noteq> 4 \<or> w ! 0 \<noteq> CHR ''0'' \<or> w ! 1 \<noteq> CHR ''x'' then None
                      else Some (of_int (signed_value 16 hex_digit (drop 2 w)))))"

function data_item :: "sexp \<Rightarrow> reader \<Rightarrow> u32 \<Rightarrow> u32 \<Rightarrow> (u32 \<times> u32) option option" where
  "data_item item s this_val this_byte =
     (if item = SNil then Some (Some (this_val, this_byte))
      else case lit_rest item of
             None \<Rightarrow> Some None
           | Some (k, item) \<Rightarrow>
               (case data_byte s k of
                  None \<Rightarrow> None
                | Some None \<Rightarrow> Some None
                | Some (Some current) \<Rightarrow> data_item item s (this_val OR this_byte * current) (push_bit 8 this_byte)))"
  by pat_completeness auto
termination
  by (relation "measure (\<lambda>(e, s, v, b). size e)") (auto dest: lit_rest_size)

declare data_item.simps [simp del]

definition sign_extend_item :: "u32 \<Rightarrow> u32 \<Rightarrow> u32" where
  "sign_extend_item this_val this_byte =
     (if this_byte \<noteq> 0 \<and> drop_bit 1 this_byte AND this_val \<noteq> 0 then this_val OR NOT (this_byte - 1) else this_val)"

text \<open>
  A number that is a single literal is stored as zero: its value goes to a variable of the inner block.
  The text behind its first two characters is read, though.
\<close>

definition data_value :: "sexp \<Rightarrow> reader \<Rightarrow> u32 option option" where
  "data_value item s =
     (case sexp_match item ''C?'' [0] of
        (True, vs) \<Rightarrow>
          map_option (map_option (\<lambda>(this_val, this_byte). sign_extend_item this_val this_byte)) (data_item (out_sexp vs 0) s 0 1)
      | _ \<Rightarrow>
          (case sexp_match item ''L?'' [0] of
             (True, vs) \<Rightarrow> (case pool_mem (rd_pool s) (out_addr vs 0) of Some (a # b # w) \<Rightarrow> Some (Some 0) | _ \<Rightarrow> None)
           | _ \<Rightarrow> Some (Some 0)))"

function data_loop :: "sexp \<Rightarrow> reader \<Rightarrow> u32 list \<Rightarrow> u32 list option option" where
  "data_loop next' s data =
     (if next' = SNil then Some (Some data)
      else case any_rest next' of
             None \<Rightarrow> Some None
           | Some (item, next') \<Rightarrow>
               (case data_value item s of
                  None \<Rightarrow> None
                | Some None \<Rightarrow> Some None
                | Some (Some this_val) \<Rightarrow> data_loop next' s (data @ [this_val])))"
  by pat_completeness auto
termination
  by (relation "measure (\<lambda>(e, s, d). size e)") (auto dest: any_rest_size)

declare data_loop.simps [simp del]

definition dalvik_instruction_DATA :: "nat list \<Rightarrow> sexp \<Rightarrow> instruction \<Rightarrow> reader \<Rightarrow> di_result" where
  "dalvik_instruction_DATA kw next' buf s =
     (case key_rest (DALVIK_TOKEN_ARRAY kw) next' of
        None \<Rightarrow> Some (-1, buf, s)
      | Some next' \<Rightarrow> do {
          let buf = buf\<lparr>ins_opcode := DVM_ARRAY, ins_flags := DVM_FLAG_ARRAY_DATA, ins_num_operands := 1\<rparr>;
          data \<leftarrow> data_loop next' s [];
          (case data of
             None \<Rightarrow> Some (-1, buf, s)
           | Some data \<Rightarrow> do {
               buf \<leftarrow> dalvik_instruction_operand_setup 0
                 (DVM_OPERAND_FLAG_CONST OR DVM_OPERAND_FLAG_TYPE DVM_OPERAND_TYPE_ARRAYDATA) (OData data) buf;
               Some (0, buf, s) }) })"

subsection \<open>The reader of one instruction\<close>

definition dalvik_instruction_dispatch :: "nat list \<Rightarrow> nat \<Rightarrow> sexp \<Rightarrow> instruction \<Rightarrow> reader \<Rightarrow> di_result" where
  "dalvik_instruction_dispatch kw firstword next' buf s =
     (if firstword = DALVIK_TOKEN_NOP kw then dalvik_instruction_NOP kw next' buf s
      else if firstword = DALVIK_TOKEN_MOVE kw then dalvik_instruction_MOVE kw next' buf s
      else if firstword = DALVIK_TOKEN_RETURN kw then dalvik_instruction_RETURN kw next' buf s
      else if firstword = DALVIK_TOKEN_CONST kw then dalvik_instruction_CONST kw next' buf s
      else if firstword = DALVIK_TOKEN_MONITOR kw then dalvik_instruction_MONITOR kw next' buf s
      else if firstword = DALVIK_TOKEN_CHECK kw then dalvik_instruction_CHECK kw next' buf s
      else if firstword = DALVIK_TOKEN_THROW kw then dalvik_instruction_THROW kw next' buf s
      else if firstword = DALVIK_TOKEN_GOTO kw then dalvik_instruction_GOTO kw next' buf s
      else if firstword = DALVIK_TOKEN_PACKED kw then dalvik_instruction_PACKED kw next' buf s
      else if firstword = DALVIK_TOKEN_SPARSE kw then dalvik_instruction_SPARSE kw next' buf s
      else if firstword = DALVIK_TOKEN_CMP kw then dalvik_instruction_CMP kw next' buf s
      else if firstword = DALVIK_TOKEN_CMPL kw then dalvik_instruction_CMP kw next' buf s
      else if firstword = DALVIK_TOKEN_CMPG kw then dalvik_instruction_CMP kw next' buf s
      else if firstword = DALVIK_TOKEN_IF kw then dalvik_instruction_IF kw next' buf s
      else if firstword = DALVIK_TOKEN_AGET kw then dalvik_instruction_AGET kw next' buf s
      else if firstword = DALVIK_TOKEN_APUT kw then dalvik_instruction_APUT kw next' buf s
      else if firstword = DALVIK_TOKEN_IGET kw then dalvik_instruction_IGET kw next' buf s
      else if firstword = DALVIK_TOKEN_IPUT kw then dalvik_instruction_IPUT kw next' buf s
      else if firstword = DALVIK_TOKEN_SGET kw then dalvik_instruction_SGET kw next' buf s
      else if firstword = DALVIK_TOKEN_SPUT kw then dalvik_instruction_SPUT kw next' buf s
      else if firstword = DALVIK_TOKEN_INVOKE kw then dalvik_instruction_INVOKE kw next' buf s
      else if firstword = DALVIK_TOKEN_NEG kw then dalvik_instruction_NEG kw next' buf s
      else if firstword = DALVIK_TOKEN_NOT kw then dalvik_instruction_NOT kw next' buf s
      else if firstword = DALVIK_TOKEN_INT kw then dalvik_instruction_INT kw next' buf s
      else if firstword = DALVIK_TOKEN_LONG kw then dalvik_instruction_LONG kw next' buf s
      else if firstword = DALVIK_TOKEN_FLOAT kw then dalvik_instruction_FLOAT kw next' buf s
      else if firstword = DALVIK_TOKEN_DOUBLE kw then dalvik_instruction_DOUBLE kw next' buf s
      else if firstword = DALVIK_TOKEN_ADD kw then dalvik_instruction_ADD kw next' buf s
      else if firstword = DALVIK_TOKEN_SUB kw then dalvik_instruction_SUB kw next' buf s
      else if firstword = DALVIK_TOKEN_MUL kw then dalvik_instruction_MUL kw next' buf s
      else if firstword = DALVIK_TOKEN_DIV kw then dalvik_instruction_DIV kw next' buf s
      else if firstword = DALVIK_TOKEN_REM kw then dalvik_instruction_REM kw next' buf s
      else if firstword = DALVIK_TOKEN_AND kw then dalvik_instruction_AND kw next' buf s
      else if firstword = DALVIK_TOKEN_OR kw then dalvik_instruction_OR kw next' buf s
      else if firstword = DALVIK_TOKEN_XOR kw then dalvik_instruction_XOR kw next' buf s
      else if firstword = DALVIK_TOKEN_SHL kw then dalvik_instruction_SHL kw next' buf s
      else if firstword = DALVIK_TOKEN_SHR kw then dalvik_instruction_SHR kw next' buf s
      else if firstword = DALVIK_TOKEN_USHR kw then dalvik_instruction_USHR kw next' buf s
      else if firstword = DALVIK_TOKEN_RSUB kw then dalvik_instruction_RSUB kw next' buf s
      else if firstword = DALVIK_TOKEN_INSTANCE kw then dalvik_instruction_INSTANCE kw next' buf s
      else if firstword = DALVIK_TOKEN_ARRAY kw then dalvik_instruction_ARRAY kw next' buf s
      else if firstword = DALVIK_TOKEN_NEW kw then dalvik_instruction_NEW kw next' buf s
      else if firstword = DALVIK_TOKEN_FILLED kw then dalvik_instruction_FILLED kw next' buf s
      else if firstword = DALVIK_TOKEN_UINVOKE kw then dalvik_instruction_UINVOKE kw next' buf s
      else if firstword = DALVIK_TOKEN_DATA kw then dalvik_instruction_DATA kw next' buf s
      else Some (-1, buf, s))"

definition dalvik_instruction_from_sexp :: "nat list \<Rightarrow> sexp \<Rightarrow> instruction \<Rightarrow> int \<Rightarrow> reader \<Rightarrow> di_result" where
  "dalvik_instruction_from_sexp kw e buf line s =
     (if e = SNil then Some (-1, buf, s)
      else case lit_rest e of
             None \<Rightarrow> Some (-1, buf, s)
           | Some (firstword, next') \<Rightarrow> do {
               (rc, buf, s) \<leftarrow> dalvik_instruction_dispatch kw firstword next' buf s;
               Some (rc, if rc = 0 then buf\<lparr>ins_line := line\<rparr> else buf, s) })"

text \<open>
  What the fields of the flag byte say, and the memory an operand owns. \<^verbatim>\<open>dalvik_instruction_free\<close> gives
  the list of what it has released; \<^const>\<open>None\<close> is the use of a pointer that is not valid.
\<close>

definition operand_is_const :: "operand \<Rightarrow> bool" where
  "operand_is_const o' = bit (opr_flags o') 6"

definition operand_type :: "operand \<Rightarrow> u8" where
  "operand_type o' = drop_bit 1 (opr_flags o') AND 31"

definition free_operand :: "operand \<Rightarrow> opr_payload list option" where
  "free_operand o' =
     (if operand_is_const o' then
        (if operand_type o' = DVM_OPERAND_TYPE_LABELVECTOR then (case opr_payload o' of OLabels v \<Rightarrow> Some [OLabels v] | _ \<Rightarrow> None)
         else if operand_type o' = DVM_OPERAND_TYPE_SPARSE then (case opr_payload o' of OSparse v \<Rightarrow> Some [OSparse v] | _ \<Rightarrow> None)
         else if operand_type o' = DVM_OPERAND_TYPE_TYPEDESC then (case opr_payload o' of OType t \<Rightarrow> Some [OType t] | _ \<Rightarrow> None)
         else if operand_type o' = DVM_OPERAND_TYPE_TYPELIST then (case opr_payload o' of OTypes ts \<Rightarrow> Some [OTypes ts] | _ \<Rightarrow> None)
         else if operand_type o' = DVM_OPERAND_TYPE_ARRAYDATA then (case opr_payload o' of OData v \<Rightarrow> Some [OData v] | _ \<Rightarrow> None)
         else Some [])
      else Some [])"

fun free_operands :: "operand list \<Rightarrow> opr_payload list option" where
  "free_operands [] = Some []"
| "free_operands (o' # os) = do { a \<leftarrow> free_operand o'; b \<leftarrow> free_operands os; Some (a @ b) }"

definition dalvik_instruction_free :: "instruction \<Rightarrow> opr_payload list option" where
  "dalvik_instruction_free buf = free_operands (take (ins_num_operands buf) (ins_operands buf))"

subsection \<open>The pool of instructions\<close>

text \<open>\<open>ip_cells\<close> are the cells in use; there are \<open>ip_capacity\<close> of them once the pool is allocated.\<close>

record instruction_pool =
  ip_allocated :: bool
  ip_capacity :: nat
  ip_cells :: "instruction list"

definition DALVIK_POOL_INIT_SIZE :: nat where "DALVIK_POOL_INIT_SIZE = 1024"

definition instruction_pool_start :: instruction_pool where
  "instruction_pool_start = \<lparr>ip_allocated = False, ip_capacity = DALVIK_POOL_INIT_SIZE, ip_cells = []\<rparr>"

definition dalvik_instruction_init :: "instruction_pool \<Rightarrow> int \<times> instruction_pool" where
  "dalvik_instruction_init ip = (0, ip\<lparr>ip_cells := [], ip_allocated := True\<rparr>)"

definition dalvik_instruction_pool_resize :: "instruction_pool \<Rightarrow> int \<times> instruction_pool" where
  "dalvik_instruction_pool_resize ip = (if \<not> ip_allocated ip then (-1, ip) else (0, ip\<lparr>ip_capacity := ip_capacity ip * 2\<rparr>))"

text \<open>The cell is given by its index; a null pointer is \<open>Some (None, _)\<close>, the use of an unallocated pool \<^const>\<open>None\<close>.\<close>

definition dalvik_instruction_new :: "instruction_pool \<Rightarrow> (nat option \<times> instruction_pool) option" where
  "dalvik_instruction_new ip =
     (case (if length (ip_cells ip) \<ge> ip_capacity ip then dalvik_instruction_pool_resize ip else (0, ip)) of
        (rc, ip) \<Rightarrow>
          if rc < 0 then Some (None, ip)
          else if \<not> ip_allocated ip then None
          else Some (Some (length (ip_cells ip)), ip\<lparr>ip_cells := ip_cells ip @ [instruction_zero]\<rparr>))"

fun free_cells :: "instruction list \<Rightarrow> opr_payload list option" where
  "free_cells [] = Some []"
| "free_cells (c # cs) = do { a \<leftarrow> dalvik_instruction_free c; b \<leftarrow> free_cells cs; Some (a @ b) }"

definition dalvik_instruction_finalize :: "instruction_pool \<Rightarrow> (int \<times> opr_payload list) option" where
  "dalvik_instruction_finalize ip =
     (if ip_allocated ip then map_option (Pair 0) (free_cells (ip_cells ip)) else Some (0, []))"

definition dalvik_instruction_read_annotation :: "instruction \<Rightarrow> u32 option" where
  "dalvik_instruction_read_annotation ins =
     (case ins_annotation ins of Some (i, v) \<Rightarrow> if i = ins_num_operands ins then Some v else None | None \<Rightarrow> None)"

definition dalvik_instruction_get_index :: "nat \<Rightarrow> u32" where
  "dalvik_instruction_get_index inst = of_nat inst"

definition dalvik_instruction_get :: "instruction_pool \<Rightarrow> u32 \<Rightarrow> instruction option" where
  "dalvik_instruction_get ip offset = (if unat offset < length (ip_cells ip) then Some (ip_cells ip ! unat offset) else None)"

definition dalvik_instruction_set_next :: "u32 \<Rightarrow> nat \<Rightarrow> instruction_pool \<Rightarrow> instruction_pool option" where
  "dalvik_instruction_set_next prev inst ip =
     (if unat prev < length (ip_cells ip)
      then Some (ip\<lparr>ip_cells := (ip_cells ip)[unat prev := (ip_cells ip ! unat prev)\<lparr>ins_next := dalvik_instruction_get_index inst\<rparr>]\<rparr>)
      else None)"

end
