(* ===== verification/Dalvik_Instruction_Read.thy ===== *)
theory Dalvik_Instruction_Read
  imports Dalvik_Instruction
begin

text \<open>
  What the constructors of \<^verbatim>\<open>src/dalvik/dalvik_instruction.c\<close> make of the text of an instruction: numbers
  and register names, the operands of the binary operators, the numbers of an array, and what happens
  to a switch that cannot be read.
\<close>

subsection \<open>Decimal numbers\<close>

definition digit_char :: "nat \<Rightarrow> char" where
  "digit_char d = char_of (48 + d)"

fun dec_text :: "nat \<Rightarrow> cstr" where
  "dec_text n = (if n < 10 then [digit_char n] else dec_text (n div 10) @ [digit_char (n mod 10)])"

declare dec_text.simps [simp del]

definition int_text :: "int \<Rightarrow> cstr" where
  "int_text n = (if n < 0 then CHR ''-'' # dec_text (nat (- n)) else dec_text (nat n))"

lemma dec_digit_char [simp]: "d < 10 \<Longrightarrow> dec_digit (digit_char d) = Some d"
  by (simp add: dec_digit_def digit_char_def)

lemma dec_text_digits: "c \<in> set (dec_text n) \<Longrightarrow> \<exists>d < 10. c = digit_char d"
proof (induction n rule: dec_text.induct)
  case (1 n)
  have "n mod 10 < 10" by simp
  then have "\<exists>d < 10. digit_char (n mod 10) = digit_char d" by blast
  with 1 show ?case by (subst (asm) (2) dec_text.simps) (auto split: if_splits)
qed

lemma dec_text_nonempty [simp]: "dec_text n \<noteq> []"
  by (subst dec_text.simps) simp

lemma digits_value_append:
  "\<forall>c \<in> set a. dec_digit c \<noteq> None \<Longrightarrow> digits_value 10 dec_digit (a @ b) acc = digits_value 10 dec_digit b (digits_value 10 dec_digit a acc)"
  by (induction a arbitrary: acc) auto

lemma digits_value_text [simp]: "digits_value 10 dec_digit (dec_text n) 0 = n"
proof (induction n rule: dec_text.induct)
  case (1 n)
  have "\<forall>c \<in> set (dec_text m). dec_digit c \<noteq> None" for m using dec_text_digits by fastforce
  then show ?case using 1 by (subst dec_text.simps) (simp add: digits_value_append)
qed

lemma digit_char_plain:
  assumes "d < 10"
  shows "\<not> is_space (digit_char d)" "digit_char d \<noteq> CHR ''-''" "digit_char d \<noteq> CHR ''+''"
  using assms by (auto simp: digit_char_def is_space_def char_of_eq_iff take_bit_eq_mod dest!: arg_cong [of _ _ "of_char :: char \<Rightarrow> nat"])

lemma signed_value_dec: "signed_value 10 dec_digit (dec_text n) = int n"
proof -
  obtain c t where c: "dec_text n = c # t" by (cases "dec_text n") auto
  then obtain d where "d < 10" "c = digit_char d" using dec_text_digits [of c n] by auto
  then show ?thesis using digits_value_text [of n] by (simp add: signed_value_def c digit_char_plain del: digits_value_text)
qed

lemma signed_value_int: "signed_value 10 dec_digit (int_text n) = n"
  by (simp add: int_text_def signed_value_dec) (simp add: signed_value_def is_space_def)

text \<open>\<^verbatim>\<open>atoi\<close> gives back every number of an \<^verbatim>\<open>int\<close>; a larger number of 64 bits is cut off.\<close>

lemma atoi_text:
  assumes "- (2 ^ 63) \<le> n" "n < 2 ^ 63"
  shows "atoi (int_text n) = signed_take_bit 31 n"
proof -
  have "strtol (int_text n) = n" using assms by (simp add: strtol_def signed_value_int)
  then show ?thesis by (simp add: atoi_def sint_sbintrunc')
qed

lemma atoi_int: "- (2 ^ 31) \<le> n \<Longrightarrow> n < 2 ^ 31 \<Longrightarrow> atoi (int_text n) = n"
  using atoi_text [of n] by (simp add: signed_take_bit_int_eq_self)

lemma atoi_nat: "n < 2 ^ 31 \<Longrightarrow> atoi (dec_text n) = int n"
  using atoi_int [of "int n"] by (simp add: int_text_def)

subsection \<open>Binary operators\<close>

definition lits :: "nat list \<Rightarrow> sexp" where
  "lits ks = mk_list (map (\<lambda>k. (CHR '' '', SLit k)) ks)"

lemma lits_simps [simp]: "lits [] = SNil" "lits (k # ks) = SCons (CHR '' '') (SLit k) (lits ks)"
  by (simp_all add: lits_def)

lemmas match_simps = sexp_match_def char_at_def sexp_match_one_def expected_type_def store_arg_def out_addr_def out_sexp_def

lemma key_rest_eq: "key_rest k e = (case e of SCons c (SLit k') rest \<Rightarrow> if k' = k then Some rest else None | _ \<Rightarrow> None)"
proof (cases e)
  case (SCons c a b)
  then show ?thesis
    by (cases a) (simp_all add: key_rest_def sexp_match_def char_at_def sexp_match_one_def expected_type_def store_arg_def out_addr_def out_sexp_def)
qed (simp_all add: key_rest_def sexp_match_def char_at_def)

text \<open>The twelve operators differ in their flags only.\<close>

lemmas binop_defs = dalvik_instruction_ADD_def dalvik_instruction_SUB_def dalvik_instruction_MUL_def dalvik_instruction_DIV_def
  dalvik_instruction_REM_def dalvik_instruction_AND_def dalvik_instruction_OR_def dalvik_instruction_XOR_def
  dalvik_instruction_SHL_def dalvik_instruction_SHR_def dalvik_instruction_USHR_def dalvik_instruction_RSUB_def

definition binop_table :: "nat list \<Rightarrow> (nat \<times> nat) list" where
  "binop_table kw =
     [(DALVIK_TOKEN_ADD kw, DVM_FLAG_BINOP_ADD), (DALVIK_TOKEN_SUB kw, DVM_FLAG_BINOP_SUB), (DALVIK_TOKEN_MUL kw, DVM_FLAG_BINOP_MUL),
      (DALVIK_TOKEN_DIV kw, DVM_FLAG_BINOP_DIV), (DALVIK_TOKEN_REM kw, DVM_FLAG_BINOP_REM), (DALVIK_TOKEN_AND kw, DVM_FLAG_BINOP_AND),
      (DALVIK_TOKEN_OR kw, DVM_FLAG_BINOP_OR), (DALVIK_TOKEN_XOR kw, DVM_FLAG_BINOP_XOR), (DALVIK_TOKEN_SHL kw, DVM_FLAG_BINOP_SHL),
      (DALVIK_TOKEN_SHR kw, DVM_FLAG_BINOP_SHR), (DALVIK_TOKEN_USHR kw, DVM_FLAG_BINOP_USHR), (DALVIK_TOKEN_RSUB kw, DVM_FLAG_BINOP_RSUB)]"

definition arith_types :: "nat list \<Rightarrow> (nat \<times> u8) list" where
  "arith_types kw =
     [(DALVIK_TOKEN_INT kw, DVM_OPERAND_TYPE_INT), (DALVIK_TOKEN_LONG kw, DVM_OPERAND_TYPE_LONG),
      (DALVIK_TOKEN_FLOAT kw, DVM_OPERAND_TYPE_FLOAT), (DALVIK_TOKEN_DOUBLE kw, DVM_OPERAND_TYPE_DOUBLE),
      (DALVIK_TOKEN_BYTE kw, DVM_OPERAND_TYPE_BYTE), (DALVIK_TOKEN_CHAR kw, DVM_OPERAND_TYPE_CHAR),
      (DALVIK_TOKEN_SHORT kw, DVM_OPERAND_TYPE_SHORT)]"

lemma dispatch_binop:
  assumes "tokens_ok kw p" "(tok, fl) \<in> set (binop_table kw)"
  shows "dalvik_instruction_dispatch kw tok e b s = dalvik_instruction_setup_binary_operator kw fl e b s"
  using assms(2) unfolding binop_table_def dalvik_instruction_dispatch_def binop_defs
  by (auto simp: token_eq_iff [OF assms(1)])

lemma fetch_type_read:
  assumes "tokens_ok kw p" "(ty, t) \<in> set (arith_types kw)"
  shows "dalvik_instruction_sexpression_fetch_type kw (SCons c (SLit ty) rest) 0 = (Some (DVM_OPERAND_FLAG_TYPE t), rest)"
  using assms(2) unfolding arith_types_def dalvik_instruction_sexpression_fetch_type_def
  by (auto simp: token_eq_iff [OF assms(1)] lit_rest_eq)

text \<open>A register is a letter and a number.\<close>

definition is_register :: "reader \<Rightarrow> nat \<Rightarrow> nat \<Rightarrow> bool" where
  "is_register s k n \<longleftrightarrow> n < 2 ^ 31 \<and> (case pool_mem (rd_pool s) k of Some (c # w) \<Rightarrow> w = dec_text n | _ \<Rightarrow> False)"

definition is_number :: "reader \<Rightarrow> nat \<Rightarrow> int \<Rightarrow> bool" where
  "is_number s k n \<longleftrightarrow> - (2 ^ 31) \<le> n \<and> n < 2 ^ 31 \<and> pool_mem (rd_pool s) k = Some (int_text n)"

lemma regnum_read: "is_register s k n \<Longrightarrow> DI_REGNUM s k = Some (int n)"
  by (auto simp: is_register_def DI_REGNUM_def atoi_nat split: option.splits list.splits)

lemma insnum_read: "is_number s k n \<Longrightarrow> DI_INSNUM s k = Some n"
  by (simp add: is_number_def DI_INSNUM_def atoi_int)

lemma register_not_keyword:
  assumes "tokens_ok kw (rd_pool s)" "is_register s k n"
  shows "k \<noteq> DALVIK_TOKEN_2ADDR kw" "k \<noteq> DALVIK_TOKEN_LIT16 kw" "k \<noteq> DALVIK_TOKEN_LIT8 kw"
proof -
  have no: "pool_mem (rd_pool s) k \<noteq> Some (c # d # w)" if "dec_digit d = None" for c d w
  proof
    assume "pool_mem (rd_pool s) k = Some (c # d # w)"
    then have "d \<in> set (dec_text n)" using assms(2) by (auto simp: is_register_def dest: sym)
    then show False using that dec_text_digits by fastforce
  qed
  show "k \<noteq> DALVIK_TOKEN_2ADDR kw"
    using token_mem [OF assms(1), of 83] no [of "CHR ''a''" "CHR ''2''" "''ddr''"] by (auto simp: dalvik_token_defs_def dec_digit_def)
  show "k \<noteq> DALVIK_TOKEN_LIT16 kw"
    using token_mem [OF assms(1), of 85] no [of "CHR ''i''" "CHR ''l''" "''t16''"] by (auto simp: dalvik_token_defs_def dec_digit_def)
  show "k \<noteq> DALVIK_TOKEN_LIT8 kw"
    using token_mem [OF assms(1), of 84] no [of "CHR ''i''" "CHR ''l''" "''t8''"] by (auto simp: dalvik_token_defs_def dec_digit_def)
qed

definition binop_inst :: "nat \<Rightarrow> int \<Rightarrow> operand list \<Rightarrow> instruction" where
  "binop_inst fl line os = instruction_zero\<lparr>ins_opcode := DVM_BINOP, ins_flags := fl, ins_num_operands := 3, ins_line := line,
     ins_operands := os @ replicate 13 operand_zero\<rparr>"

definition register_operand :: "u8 \<Rightarrow> nat \<Rightarrow> operand" where
  "register_operand t n = \<lparr>opr_flags = DVM_OPERAND_FLAG_TYPE t, opr_payload = ONum (of_nat n)\<rparr>"

definition literal_operand :: "u8 \<Rightarrow> int \<Rightarrow> operand" where
  "literal_operand t n = \<lparr>opr_flags = DVM_OPERAND_FLAG_TYPE t OR DVM_OPERAND_FLAG_CONST, opr_payload = ONum (of_int n)\<rparr>"

lemma lit_eq: "lit e = (case e of SCons c (SLit k) SNil \<Rightarrow> Some k | _ \<Rightarrow> None)"
proof (cases e)
  case (SCons c a b)
  then show ?thesis by (cases a; cases b) (simp_all add: lit_def match_simps)
qed (simp_all add: lit_def match_simps)

lemma binary_register:
  assumes "tokens_ok kw (rd_pool s)" "(ty, t) \<in> set (arith_types kw)"
    and "is_register s k0 n0" "is_register s k1 n1" "is_register s k2 n2"
  shows "dalvik_instruction_setup_binary_operator kw fl (lits [ty, k0, k1, k2]) instruction_zero s =
     Some (0, binop_inst fl 0 [register_operand t n0, register_operand t n1, register_operand t n2], s)"
  using register_not_keyword [OF assms(1,3)]
  by (simp add: dalvik_instruction_setup_binary_operator_def fetch_type_read [OF assms(1,2)] lit_rest_eq lit_eq match_simps
      setup_reg_def regnum_read [OF assms(3)] regnum_read [OF assms(4)] regnum_read [OF assms(5)] dalvik_instruction_operand_setup_def
      instruction_zero_def binop_inst_def register_operand_def numeral_eq_Suc)

lemma binary_2addr:
  assumes "tokens_ok kw (rd_pool s)" "(ty, t) \<in> set (arith_types kw)" "is_register s k0 n0" "is_register s k1 n1"
  shows "dalvik_instruction_setup_binary_operator kw fl (lits [ty, DALVIK_TOKEN_2ADDR kw, k0, k1]) instruction_zero s =
     Some (0, binop_inst fl 0 [register_operand t n0, register_operand t n0, register_operand t n1], s)"
  by (simp add: dalvik_instruction_setup_binary_operator_def fetch_type_read [OF assms(1,2)] lit_rest_eq lit_eq match_simps
      setup_reg_def regnum_read [OF assms(3)] regnum_read [OF assms(4)] dalvik_instruction_operand_setup_def
      instruction_zero_def binop_inst_def register_operand_def numeral_eq_Suc)

lemma binary_literal:
  assumes "tokens_ok kw (rd_pool s)" "(ty, t) \<in> set (arith_types kw)" "is_register s k0 n0" "is_register s k1 n1" "is_number s k2 m"
    and "l = DALVIK_TOKEN_LIT8 kw \<or> l = DALVIK_TOKEN_LIT16 kw"
  shows "dalvik_instruction_setup_binary_operator kw fl (lits [ty, l, k0, k1, k2]) instruction_zero s =
     Some (0, binop_inst fl 0 [register_operand t n0, register_operand t n1, literal_operand t m], s)"
  using assms(6)
  by (auto simp: dalvik_instruction_setup_binary_operator_def fetch_type_read [OF assms(1,2)] lit_rest_eq lit_eq match_simps
      setup_reg_def setup_imm_def regnum_read [OF assms(3)] regnum_read [OF assms(4)] insnum_read [OF assms(5)]
      token_eq_iff [OF assms(1)] dalvik_instruction_operand_setup_def
      instruction_zero_def binop_inst_def register_operand_def literal_operand_def numeral_eq_Suc)

lemma from_sexp_binop:
  assumes "tokens_ok kw p" "(tok, fl) \<in> set (binop_table kw)"
    and "dalvik_instruction_setup_binary_operator kw fl (lits ks) instruction_zero s = Some (0, binop_inst fl 0 os, s)"
  shows "dalvik_instruction_from_sexp kw (lits (tok # ks)) instruction_zero line s = Some (0, binop_inst fl line os, s)"
  by (simp add: dalvik_instruction_from_sexp_def lit_rest_eq dispatch_binop [OF assms(1,2)] assms(3) binop_inst_def)

text \<open>
  C38: each of the twelve binary operators, for each of the seven types of numbers, is read into an
  instruction with that operator and three operands of that type: the registers of the text for the
  plain form, the first register twice for \<^verbatim>\<open>/2addr\<close>, and a constant as the third operand for
  \<^verbatim>\<open>/lit8\<close> and \<^verbatim>\<open>/lit16\<close>.
\<close>

theorem dalvik_instruction_binop_read:
  assumes "tokens_ok kw (rd_pool s)" "(tok, fl) \<in> set (binop_table kw)" "(ty, t) \<in> set (arith_types kw)"
    and "is_register s k0 n0" "is_register s k1 n1" "is_register s k2 n2" "is_number s k3 m"
    and "l = DALVIK_TOKEN_LIT8 kw \<or> l = DALVIK_TOKEN_LIT16 kw"
  shows "dalvik_instruction_from_sexp kw (lits [tok, ty, k0, k1, k2]) instruction_zero line s =
      Some (0, binop_inst fl line [register_operand t n0, register_operand t n1, register_operand t n2], s) \<and>
    dalvik_instruction_from_sexp kw (lits [tok, ty, DALVIK_TOKEN_2ADDR kw, k0, k1]) instruction_zero line s =
      Some (0, binop_inst fl line [register_operand t n0, register_operand t n0, register_operand t n1], s) \<and>
    dalvik_instruction_from_sexp kw (lits [tok, ty, l, k0, k1, k3]) instruction_zero line s =
      Some (0, binop_inst fl line [register_operand t n0, register_operand t n1, literal_operand t m], s)"
proof (intro conjI from_sexp_binop [OF assms(1,2)])
  show "dalvik_instruction_setup_binary_operator kw fl (lits [ty, k0, k1, k2]) instruction_zero s =
     Some (0, binop_inst fl 0 [register_operand t n0, register_operand t n1, register_operand t n2], s)"
    by (rule binary_register [OF assms(1,3,4,5,6)])
  show "dalvik_instruction_setup_binary_operator kw fl (lits [ty, DALVIK_TOKEN_2ADDR kw, k0, k1]) instruction_zero s =
     Some (0, binop_inst fl 0 [register_operand t n0, register_operand t n0, register_operand t n1], s)"
    by (rule binary_2addr [OF assms(1,3,4,5)])
  show "dalvik_instruction_setup_binary_operator kw fl (lits [ty, l, k0, k1, k3]) instruction_zero s =
     Some (0, binop_inst fl 0 [register_operand t n0, register_operand t n1, literal_operand t m], s)"
    by (rule binary_literal [OF assms(1,3,4,5,7,8)])
qed

lemma example_pool:
  assumes "list_all (\<lambda>w. NUL \<notin> set w) ws"
  shows "\<exists>kw p ks. tokens_ok kw p \<and> list_all2 (\<lambda>k w. pool_mem p k = Some w) ks ws"
proof -
  obtain kw p where i: "dalvik_tokens_init (the (snd (stringpool_init 10 None))) = (kw, p)" by fastforce
  have ok: "tokens_ok kw p" by (rule tokens_init_ok [OF pool_inv_init i])
  obtain ks p' where q: "intern_all stringpool_query ws p = (ks, p')" by fastforce
  have "pool_inv p" using ok by (simp add: tokens_ok_def)
  from pool_interning.intern_all_mem [OF this assms q] have "pool_inv p'"
    "list_all2 (\<lambda>k w. pool_mem p' k = Some w) ks ws" "\<forall>k w. pool_mem p k = Some w \<longrightarrow> pool_mem p' k = Some w"
    by simp_all
  then show ?thesis using tokens_ok_mono [OF ok] by blast
qed

definition reader_of :: "pool \<Rightarrow> reader" where
  "reader_of p = \<lparr>rd_pool = p, rd_labels = \<lparr>label_map = chain_empty, dalvik_label_jump_table = (\<lambda>_. -1), label_count = 0\<rparr>\<rparr>"

lemma example_words:
  "\<exists>kw p k0 k1 k2 k3. tokens_ok kw p \<and> is_register (reader_of p) k0 4 \<and> is_register (reader_of p) k1 17 \<and>
     is_number (reader_of p) k2 (-9) \<and> pool_mem p k3 = Some ''l1''"
proof -
  have w: "list_all (\<lambda>w. NUL \<notin> set w) [''v4'', ''v17'', ''-9'', ''l1'']" by simp
  have d: "dec_text 4 = ''4''" "dec_text 17 = ''17''" "dec_text 9 = ''9''"
    by (simp_all add: dec_text.simps digit_char_def char_of_def bit_0)
  from example_pool [OF w] obtain kw p k0 k1 k2 k3 where k: "tokens_ok kw p" "pool_mem p k0 = Some ''v4''" "pool_mem p k1 = Some ''v17''"
    "pool_mem p k2 = Some ''-9''" "pool_mem p k3 = Some ''l1''" by (auto simp: list_all2_Cons2)
  then have "is_register (reader_of p) k0 4" "is_register (reader_of p) k1 17" "is_number (reader_of p) k2 (-9)"
    by (simp_all add: is_register_def is_number_def reader_of_def int_text_def d)
  with k(1,5) show ?thesis by blast
qed

theorem dalvik_instruction_binop_read_witness:
  "\<exists>kw p k0 k1 k2. tokens_ok kw p \<and>
     dalvik_instruction_from_sexp kw (lits [DALVIK_TOKEN_XOR kw, DALVIK_TOKEN_INT kw, DALVIK_TOKEN_LIT8 kw, k0, k1, k2]) instruction_zero 12 (reader_of p) =
       Some (0, binop_inst 7 12 [register_operand DVM_OPERAND_TYPE_INT 4, register_operand DVM_OPERAND_TYPE_INT 17, literal_operand DVM_OPERAND_TYPE_INT (-9)], reader_of p)"
proof -
  obtain kw p k0 k1 k2 where w: "tokens_ok kw p" "is_register (reader_of p) k0 4" "is_register (reader_of p) k1 17"
    "is_number (reader_of p) k2 (-9)" using example_words by blast
  have t: "tokens_ok kw (rd_pool (reader_of p))" using w(1) by (simp add: reader_of_def)
  have "(DALVIK_TOKEN_XOR kw, 7) \<in> set (binop_table kw)" "(DALVIK_TOKEN_INT kw, DVM_OPERAND_TYPE_INT) \<in> set (arith_types kw)"
    by (simp_all add: binop_table_def arith_types_def DVM_FLAG_BINOP_XOR_def)
  from dalvik_instruction_binop_read [OF t this w(2,3,3,4), of "DALVIK_TOKEN_LIT8 kw" 12] w(1)
  show ?thesis by blast
qed

subsection \<open>Switches\<close>

lemma label_step:
  assumes "label_inv (rd_labels s)" "label_count (rd_labels s) < DAVLIK_LABEL_POOL_SIZE"
  obtains lid ls where "get_label_id l s = (lid, s\<lparr>rd_labels := ls\<rparr>)" "0 \<le> lid" "label_inv ls" "label_of ls lid = Some l"
    "label_count ls \<le> Suc (label_count (rd_labels s))" "\<forall>j m. label_of (rd_labels s) j = Some m \<longrightarrow> label_of ls j = Some m"
proof -
  obtain lid ls where g: "dalvik_label_get_label_id l (rd_labels s) = (lid, ls)" by fastforce
  show ?thesis using label_room [OF assms g] g by (intro that [of lid ls]) (simp_all add: get_label_id_def)
qed

text \<open>The jump table has the number of each label, as long as the label table has room for them.\<close>

lemma packed_loop_read:
  assumes "label_inv (rd_labels s)" "label_count (rd_labels s) + length ks \<le> DAVLIK_LABEL_POOL_SIZE"
  shows "\<exists>lids ls. packed_loop (lits ks) s t = (Some (t @ lids), s\<lparr>rd_labels := ls\<rparr>) \<and> label_inv ls \<and>
    (\<forall>j m. label_of (rd_labels s) j = Some m \<longrightarrow> label_of ls j = Some m) \<and>
    list_all2 (\<lambda>lid k. label_of ls lid = Some k) lids ks"
  using assms
proof (induction ks arbitrary: s t)
  case Nil
  then show ?case by (auto simp: packed_loop.simps intro!: exI [of _ "[]"] exI [of _ "rd_labels s"])
next
  case (Cons k ks)
  have "label_count (rd_labels s) < DAVLIK_LABEL_POOL_SIZE" using Cons.prems(2) by simp
  from label_step [OF Cons.prems(1) this] obtain lid ls where l: "get_label_id k s = (lid, s\<lparr>rd_labels := ls\<rparr>)" "0 \<le> lid"
    "label_inv ls" "label_of ls lid = Some k" "label_count ls \<le> Suc (label_count (rd_labels s))"
    "\<forall>j m. label_of (rd_labels s) j = Some m \<longrightarrow> label_of ls j = Some m" by metis
  have "label_count ls + length ks \<le> DAVLIK_LABEL_POOL_SIZE" using l(5) Cons.prems(2) by simp
  then obtain lids ls' where r: "packed_loop (lits ks) (s\<lparr>rd_labels := ls\<rparr>) (t @ [lid]) = (Some (t @ [lid] @ lids), s\<lparr>rd_labels := ls'\<rparr>)"
    "label_inv ls'" "\<forall>j m. label_of ls j = Some m \<longrightarrow> label_of ls' j = Some m" "list_all2 (\<lambda>lid k. label_of ls' lid = Some k) lids ks"
    using Cons.IH [of "s\<lparr>rd_labels := ls\<rparr>" "t @ [lid]"] l(3) by auto
  have "packed_loop (lits (k # ks)) s t = packed_loop (lits ks) (s\<lparr>rd_labels := ls\<rparr>) (t @ [lid])"
    using l(2) by (subst packed_loop.simps) (simp add: lit_rest_eq l(1))
  then show ?case using r l(4,6) by (intro exI [of _ "lid # lids"] exI [of _ ls']) auto
qed

definition packed_inst :: "nat \<Rightarrow> int \<Rightarrow> int list \<Rightarrow> int \<Rightarrow> instruction" where
  "packed_inst n first lids line = instruction_zero\<lparr>ins_opcode := DVM_SWITCH, ins_flags := DVM_FLAG_SWITCH_PACKED, ins_num_operands := 3,
     ins_line := line,
     ins_operands := [\<lparr>opr_flags = 0, opr_payload = ONum (of_nat n)\<rparr>,
       \<lparr>opr_flags = DVM_OPERAND_FLAG_CONST OR DVM_OPERAND_FLAG_TYPE DVM_OPERAND_TYPE_INT, opr_payload = ONum (of_int first)\<rparr>,
       \<lparr>opr_flags = DVM_OPERAND_FLAG_TYPE DVM_OPERAND_TYPE_LABELVECTOR OR DVM_OPERAND_FLAG_CONST, opr_payload = OLabels lids\<rparr>]
       @ replicate 13 operand_zero\<rparr>"

text \<open>
  A packed switch is read into an instruction with the register, the first value, and the jump
  table that has, for each label of the text in order, the number of that label.
\<close>

theorem dalvik_instruction_packed_read:
  assumes "tokens_ok kw (rd_pool s)" "is_register s k0 n" "is_number s k1 first"
    and "label_inv (rd_labels s)" "label_count (rd_labels s) + length ks \<le> DAVLIK_LABEL_POOL_SIZE"
  shows "\<exists>lids ls. dalvik_instruction_from_sexp kw (lits (DALVIK_TOKEN_PACKED kw # DALVIK_TOKEN_SWITCH kw # k0 # k1 # ks))
      instruction_zero line s = Some (0, packed_inst n first lids line, s\<lparr>rd_labels := ls\<rparr>) \<and>
    label_inv ls \<and> list_all2 (\<lambda>lid k. label_of ls lid = Some k) lids ks"
proof -
  obtain lids ls where p: "packed_loop (lits ks) s [] = (Some lids, s\<lparr>rd_labels := ls\<rparr>)" "label_inv ls"
    "list_all2 (\<lambda>lid k. label_of ls lid = Some k) lids ks"
    using packed_loop_read [OF assms(4,5), of "[]"] by auto
  have "dalvik_instruction_PACKED kw (lits (DALVIK_TOKEN_SWITCH kw # k0 # k1 # ks)) instruction_zero s =
      Some (0, packed_inst n first lids 0, s\<lparr>rd_labels := ls\<rparr>)"
    by (simp add: dalvik_instruction_PACKED_def match_simps setup_reg_def setup_imm_def regnum_read [OF assms(2)] insnum_read [OF assms(3)]
        p(1) dalvik_instruction_operand_setup_def instruction_zero_def packed_inst_def numeral_eq_Suc)
  then have "dalvik_instruction_from_sexp kw (lits (DALVIK_TOKEN_PACKED kw # DALVIK_TOKEN_SWITCH kw # k0 # k1 # ks)) instruction_zero line s =
      Some (0, packed_inst n first lids line, s\<lparr>rd_labels := ls\<rparr>)"
    by (simp add: dalvik_instruction_from_sexp_def lit_rest_eq dalvik_instruction_dispatch_def token_eq_iff [OF assms(1)] packed_inst_def)
  with p show ?thesis by blast
qed

theorem dalvik_instruction_packed_read_witness:
  "\<exists>kw p k0 k1 k2 lids ls. tokens_ok kw p \<and> pool_mem p k2 = Some ''l1'' \<and>
     dalvik_instruction_from_sexp kw (lits [DALVIK_TOKEN_PACKED kw, DALVIK_TOKEN_SWITCH kw, k0, k1, k2]) instruction_zero 3 (reader_of p) =
       Some (0, packed_inst 4 (-9) lids 3, (reader_of p)\<lparr>rd_labels := ls\<rparr>) \<and> map (label_of ls) lids = [Some k2]"
proof -
  obtain kw p k0 k1 k2 where w: "tokens_ok kw p" "is_register (reader_of p) k0 4" "is_number (reader_of p) k1 (-9)" "pool_mem p k2 = Some ''l1''"
    using example_words by blast
  have t: "tokens_ok kw (rd_pool (reader_of p))" using w(1) by (simp add: reader_of_def)
  have l: "label_inv (rd_labels (reader_of p))" "label_count (rd_labels (reader_of p)) + length [k2] \<le> DAVLIK_LABEL_POOL_SIZE"
    using label_inv_init by (simp_all add: reader_of_def dalvik_label_init_def DAVLIK_LABEL_POOL_SIZE_def)
  from dalvik_instruction_packed_read [OF t w(2,3) l, of 3] obtain lids ls where
    r: "dalvik_instruction_from_sexp kw (lits [DALVIK_TOKEN_PACKED kw, DALVIK_TOKEN_SWITCH kw, k0, k1, k2]) instruction_zero 3 (reader_of p) =
       Some (0, packed_inst 4 (-9) lids 3, (reader_of p)\<lparr>rd_labels := ls\<rparr>)" "list_all2 (\<lambda>lid k. label_of ls lid = Some k) lids [k2]" by blast
  have "map (label_of ls) lids = [Some k2]" using r(2) by (auto simp: list_all2_Cons2)
  with w(1,4) r(1) show ?thesis by (intro exI conjI)
qed

lemma free_operands_None: "o' \<in> set os \<Longrightarrow> free_operand o' = None \<Longrightarrow> free_operands os = None"
  by (induction os) (auto simp: bind_eq_None_conv)

lemma free_wild:
  assumes "i < ins_num_operands b" "i < length (ins_operands b)" "ins_operands b ! i = \<lparr>opr_flags = fl, opr_payload = OWild\<rparr>"
    and "fl = DVM_OPERAND_FLAG_TYPE DVM_OPERAND_TYPE_LABELVECTOR OR DVM_OPERAND_FLAG_CONST \<or>
      fl = DVM_OPERAND_FLAG_CONST OR DVM_OPERAND_FLAG_TYPE DVM_OPERAND_TYPE_SPARSE"
  shows "dalvik_instruction_free b = None"
  unfolding dalvik_instruction_free_def
proof (rule free_operands_None)
  show "\<lparr>opr_flags = fl, opr_payload = OWild\<rparr> \<in> set (take (ins_num_operands b) (ins_operands b))"
    using assms(1-3) by (auto simp: in_set_conv_nth intro!: exI [of _ i])
  show "free_operand \<lparr>opr_flags = fl, opr_payload = OWild\<rparr> = None"
    using assms(4) by (auto simp: free_operand_def operand_is_const_def operand_type_def dvm_flags)
qed

lemma reg_shape: "setup_reg s i fl k b = Some b' \<Longrightarrow> ins_num_operands b' = ins_num_operands b \<and> length (ins_operands b') = length (ins_operands b)"
  by (auto simp: setup_reg_def bind_eq_Some_conv dalvik_instruction_operand_setup_def split: if_splits)

lemma imm_shape: "setup_imm s i fl k b = Some b' \<Longrightarrow> ins_num_operands b' = ins_num_operands b \<and> length (ins_operands b') = length (ins_operands b)"
  by (auto simp: setup_imm_def bind_eq_Some_conv dalvik_instruction_operand_setup_def split: if_splits)

text \<open>
  A switch whose labels cannot be read has freed its jump table and yet keeps the pointer to it:
  releasing the instruction, which the finalisation of the pool does for every cell, uses that pointer again.
\<close>

theorem dalvik_instruction_switch_dangling:
  assumes "dalvik_instruction_PACKED kw e buf s = Some (-1, buf', s') \<and>
      fst (sexp_match e ''(L=L?L?A'' [DALVIK_TOKEN_SWITCH kw, 0, 0, 0]) \<or>
    dalvik_instruction_SPARSE kw e buf s = Some (-1, buf', s') \<and>
      fst (sexp_match e ''(L=L?A'' [DALVIK_TOKEN_SWITCH kw, 0, 0])"
  shows "dalvik_instruction_free buf' = None"
  using assms
proof (elim disjE conjE)
  assume p: "dalvik_instruction_PACKED kw e buf s = Some (-1, buf', s')" "fst (sexp_match e ''(L=L?L?A'' [DALVIK_TOKEN_SWITCH kw, 0, 0, 0])"
  obtain vs where vs: "sexp_match e ''(L=L?L?A'' [DALVIK_TOKEN_SWITCH kw, 0, 0, 0] = (True, vs)" using p(2) by (metis prod.collapse)
  obtain b where "ins_num_operands b = 3" "dalvik_instruction_operand_setup 2
      (DVM_OPERAND_FLAG_TYPE DVM_OPERAND_TYPE_LABELVECTOR OR DVM_OPERAND_FLAG_CONST) OWild b = Some buf'"
    using p(1) vs by (cases "packed_loop (out_sexp vs 3) s []")
      (auto simp: dalvik_instruction_PACKED_def bind_eq_Some_conv Let_def split: option.splits dest!: reg_shape imm_shape)
  then show ?thesis
    by (intro free_wild [of 2]) (auto simp: dalvik_instruction_operand_setup_def split: if_splits)
next
  assume p: "dalvik_instruction_SPARSE kw e buf s = Some (-1, buf', s')" "fst (sexp_match e ''(L=L?A'' [DALVIK_TOKEN_SWITCH kw, 0, 0])"
  then obtain b where "ins_num_operands b = 2" "dalvik_instruction_operand_setup 1
      (DVM_OPERAND_FLAG_CONST OR DVM_OPERAND_FLAG_TYPE DVM_OPERAND_TYPE_SPARSE) OWild b = Some buf'"
    by (auto simp: dalvik_instruction_SPARSE_def bind_eq_Some_conv Let_def split: prod.splits option.splits dest!: reg_shape imm_shape)
  then show ?thesis
    by (intro free_wild [of 1]) (auto simp: dalvik_instruction_operand_setup_def split: if_splits)
qed

text \<open>A packed switch with a string in the place of a label.\<close>

theorem dalvik_instruction_switch_dangling_witness:
  "\<exists>kw p k0 k1 buf' s'. tokens_ok kw p \<and>
     dalvik_instruction_PACKED kw (mk_list [(CHR '' '', SLit (DALVIK_TOKEN_SWITCH kw)), (CHR '' '', SLit k0), (CHR '' '', SLit k1), (CHR '' '', SStr k0)])
       instruction_zero (reader_of p) = Some (-1, buf', s') \<and> dalvik_instruction_free buf' = None"
proof -
  obtain kw p k0 k1 where w: "tokens_ok kw p" "is_register (reader_of p) k0 4" "is_number (reader_of p) k1 (-9)"
    using example_words by blast
  let ?e = "mk_list [(CHR '' '', SLit (DALVIK_TOKEN_SWITCH kw)), (CHR '' '', SLit k0), (CHR '' '', SLit k1), (CHR '' '', SStr k0)]"
  have m: "fst (sexp_match ?e ''(L=L?L?A'' [DALVIK_TOKEN_SWITCH kw, 0, 0, 0])" by (simp add: match_simps)
  obtain buf' s' where p: "dalvik_instruction_PACKED kw ?e instruction_zero (reader_of p) = Some (-1, buf', s')"
    by (simp add: dalvik_instruction_PACKED_def match_simps setup_reg_def setup_imm_def regnum_read [OF w(2)] insnum_read [OF w(3)]
        packed_loop.simps lit_rest_eq dalvik_instruction_operand_setup_def instruction_zero_def)
  from dalvik_instruction_switch_dangling [OF disjI1, OF conjI, OF p m] p w(1) show ?thesis by blast
qed

subsection \<open>Numbers of an array\<close>

definition hex_char :: "nat \<Rightarrow> char" where
  "hex_char d = char_of (if d < 10 then 48 + d else 87 + d)"

definition byte_text :: "nat \<Rightarrow> cstr" where
  "byte_text b = [CHR ''0'', CHR ''x'', hex_char (b div 16), hex_char (b mod 16)]"

definition is_byte :: "reader \<Rightarrow> nat \<Rightarrow> nat \<Rightarrow> bool" where
  "is_byte s k b \<longleftrightarrow> b < 256 \<and> pool_mem (rd_pool s) k = Some (byte_text b)"

fun bytes_value :: "nat list \<Rightarrow> nat" where
  "bytes_value [] = 0"
| "bytes_value (b # bs) = b + 256 * bytes_value bs"

lemma hex_digit_char: "d < 16 \<Longrightarrow> hex_digit (hex_char d) = Some d"
  by (auto simp: hex_digit_def hex_char_def Let_def take_bit_eq_mod)

lemma hex_char_plain:
  assumes "d < 16"
  shows "\<not> is_space (hex_char d)" "hex_char d \<noteq> CHR ''-''" "hex_char d \<noteq> CHR ''+''"
  using assms by (auto simp: hex_char_def is_space_def char_of_eq_iff take_bit_eq_mod split: if_splits
      dest!: arg_cong [of _ _ "of_char :: char \<Rightarrow> nat"])

lemma data_byte_read:
  assumes "is_byte s k b"
  shows "data_byte s k = Some (Some (of_nat b))"
proof -
  have d: "b div 16 < 16" "b mod 16 < 16" using assms by (auto simp: is_byte_def less_mult_imp_div_less)
  have "signed_value 16 hex_digit [hex_char (b div 16), hex_char (b mod 16)] = int b"
    using hex_char_plain [OF d(1)] by (simp add: signed_value_def hex_digit_char [OF d(1)] hex_digit_char [OF d(2)] del: of_nat_mult of_nat_add)
  then show ?thesis using assms by (simp add: data_byte_def is_byte_def byte_text_def)
qed

lemma bit_high:
  assumes "v < 2 ^ k" "k \<le> n"
  shows "\<not> bit (v :: nat) n"
proof -
  have "v < 2 ^ n" by (rule less_le_trans [OF assms(1) power_increasing [OF assms(2)]]) simp
  then show ?thesis by (simp add: bit_iff_odd)
qed

lemma or_shifted:
  assumes "v < 2 ^ k"
  shows "(of_nat v :: u32) OR 2 ^ k * of_nat b = of_nat (v + 2 ^ k * b)"
proof -
  have "(of_nat v :: u32) AND push_bit k (of_nat b) = 0"
  proof (rule bit_eqI)
    fix n
    show "bit ((of_nat v :: u32) AND push_bit k (of_nat b)) n \<longleftrightarrow> bit (0 :: u32) n"
      using bit_high [OF assms, of n] by (auto simp: bit_simps)
  qed
  then have "(of_nat v :: u32) + push_bit k (of_nat b) = of_nat v OR push_bit k (of_nat b)"
    by (rule disjunctive_add_eq_or)
  then show ?thesis by (simp add: push_bit_eq_mult mult.commute)
qed

lemma data_item_read:
  assumes "list_all2 (is_byte s) ks bs" "v < 2 ^ (8 * i)"
  shows "data_item (lits ks) s (of_nat v) (2 ^ (8 * i)) = Some (Some (of_nat (v + 2 ^ (8 * i) * bytes_value bs), 2 ^ (8 * (i + length bs))))"
  using assms
proof (induction ks bs arbitrary: v i rule: list_all2_induct)
  case Nil
  then show ?case by (simp add: data_item.simps)
next
  case (Cons k ks b bs)
  have b: "b < 256" using Cons.hyps(1) by (simp add: is_byte_def)
  have "v + 2 ^ (8 * i) * b < 2 ^ (8 * i) + 2 ^ (8 * i) * b" using Cons.prems by simp
  also have "\<dots> = 2 ^ (8 * i) * Suc b" by simp
  also have "\<dots> \<le> 2 ^ (8 * i) * 256" using b by (intro mult_le_mono2) simp
  finally have v: "v + 2 ^ (8 * i) * b < 2 ^ (8 * Suc i)" by (simp add: power_add)
  have shift: "push_bit 8 (2 ^ (8 * i)) = (2 ^ (8 * Suc i) :: u32)" by (simp add: push_bit_eq_mult power_add)
  have "data_item (lits (k # ks)) s (of_nat v) (2 ^ (8 * i)) = data_item (lits ks) s (of_nat (v + 2 ^ (8 * i) * b)) (2 ^ (8 * Suc i))"
    by (subst data_item.simps)
      (simp add: lit_rest_eq data_byte_read [OF Cons.hyps(1)] or_shifted [OF Cons.prems, of b, simplified] shift [simplified])
  then show ?case using Cons.IH [OF v] by (simp add: algebra_simps power_add)
qed

lemma sign_extend_small:
  assumes "V < 2 ^ (8 * n)" "n = 1 \<or> n = 2 \<or> n = 3"
  shows "sign_extend_item (of_nat V) (2 ^ (8 * n)) = signed_take_bit (8 * n - 1) (of_nat V :: u32)"
proof -
  have half: "drop_bit 1 (2 ^ (8 * n)) = (2 ^ (8 * n - 1) :: u32)" using assms(2) by auto
  have "(2 :: u32) ^ (8 * n) \<noteq> 0" using assms(2) by auto
  then have "sign_extend_item (of_nat V) (2 ^ (8 * n)) =
      (if bit (of_nat V :: u32) (8 * n - 1) then of_nat V OR NOT (mask (8 * n)) else of_nat V)"
    by (simp add: sign_extend_item_def half [simplified] and.commute [of "2 ^ k" for k] and_exp_eq_0_iff_not_bit mask_eq_exp_minus_1)
  also have "\<dots> = signed_take_bit (8 * n - 1) (of_nat V :: u32)"
  proof (rule bit_word_eqI)
    fix m
    assume m: "m < LENGTH(32)"
    show "bit (if bit (of_nat V :: u32) (8 * n - 1) then of_nat V OR NOT (mask (8 * n)) else of_nat V :: u32) m \<longleftrightarrow>
        bit (signed_take_bit (8 * n - 1) (of_nat V :: u32)) m"
      using assms(2) bit_high [OF assms(1), of m] m by (cases "m = 8 * n - 1") (auto simp: bit_simps min_def)
  qed
  finally show ?thesis .
qed

lemma signed_take_bit_full: "signed_take_bit 31 (w :: u32) = w"
proof (rule bit_word_eqI)
  fix m
  assume "m < LENGTH(32)"
  then show "bit (signed_take_bit 31 w) m \<longleftrightarrow> bit w m" by (cases "m = 31") (auto simp: bit_simps min_def)
qed

lemma bytes_value_bound: "\<forall>b \<in> set bs. b < 256 \<Longrightarrow> bytes_value bs < 2 ^ (8 * length bs)"
  by (induction bs) (auto simp: power_add)

text \<open>
  A number of an array that is written as a list of one to four bytes is stored as the number that
  the bytes have in little endian order, extended with its sign to 32 bits. A number that is written
  as a single literal is stored as zero, whatever the literal says.
\<close>

theorem dalvik_instruction_data_value:
  assumes "list_all2 (is_byte s) ks bs" "1 \<le> length bs" "length bs \<le> 4" "is_byte s k b"
  shows "data_value (lits ks) s = Some (Some (signed_take_bit (8 * length bs - 1) (of_nat (bytes_value bs)))) \<and>
    data_value (SLit k) s = Some (Some 0)"
proof
  have "\<forall>b \<in> set bs. b < 256" using assms(1) by (auto simp: list_all2_conv_all_nth in_set_conv_nth is_byte_def)
  note V = bytes_value_bound [OF this]
  obtain k0 ks' where ks: "ks = k0 # ks'" using assms(1,2) by (cases ks) auto
  have "data_item (lits ks) s 0 1 = Some (Some (of_nat (bytes_value bs), 2 ^ (8 * length bs)))"
    using data_item_read [OF assms(1), of 0 0] by simp
  moreover have "sign_extend_item (of_nat (bytes_value bs)) (2 ^ (8 * length bs)) =
      signed_take_bit (8 * length bs - 1) (of_nat (bytes_value bs))"
  proof (cases "length bs = 4")
    case True
    then show ?thesis by (simp add: sign_extend_item_def signed_take_bit_full)
  next
    case False
    then show ?thesis using assms(2,3) by (intro sign_extend_small [OF V]) auto
  qed
  ultimately show "data_value (lits ks) s = Some (Some (signed_take_bit (8 * length bs - 1) (of_nat (bytes_value bs))))"
    by (simp add: data_value_def match_simps ks)
  show "data_value (SLit k) s = Some (Some 0)"
    using assms(4) by (simp add: data_value_def match_simps is_byte_def byte_text_def)
qed

theorem dalvik_instruction_data_value_witness:
  "\<exists>p k0 k1. pool_mem p k0 = Some ''0xfe'' \<and> pool_mem p k1 = Some ''0xff'' \<and>
     data_value (lits [k0, k1]) (reader_of p) = Some (Some (-2)) \<and> data_value (SLit k0) (reader_of p) = Some (Some 0)"
proof -
  have "list_all (\<lambda>w. NUL \<notin> set w) [''0xfe'', ''0xff'']" by simp
  from example_pool [OF this] obtain p :: pool and ks where "list_all2 (\<lambda>k w. pool_mem p k = Some w) ks [''0xfe'', ''0xff'']" by blast
  then obtain k0 k1 where p: "pool_mem p k0 = Some ''0xfe''" "pool_mem p k1 = Some ''0xff''" by (auto simp: list_all2_Cons2)
  then have b: "is_byte (reader_of p) k0 254" "is_byte (reader_of p) k1 255"
    by (simp_all add: is_byte_def reader_of_def byte_text_def hex_char_def char_of_def bit_0)
  have l: "list_all2 (is_byte (reader_of p)) [k0, k1] [254, 255]" using b by simp
  from dalvik_instruction_data_value [OF l _ _ b(1)] p show ?thesis by auto
qed

end
