(* ===== verification/Dalvik_Instruction_Type.thy ===== *)
theory Dalvik_Instruction_Type
  imports Dalvik_Instruction_Read
begin

text \<open>
  What the reader of instructions guarantees. The flag byte of every operand that the constructors
  of \<^verbatim>\<open>src/dalvik/dalvik_instruction.c\<close> write tells what is stored in its union, so that the readers
  of the operands and \<^verbatim>\<open>dalvik_instruction_free\<close> use the member that has been written. The exceptions
  are the error path of the two switches and a signature that contains an empty list.
\<close>

subsection \<open>Well-typed operands\<close>

definition pointer_types :: "u8 list" where
  "pointer_types = [DVM_OPERAND_TYPE_STRING, DVM_OPERAND_TYPE_CLASS, DVM_OPERAND_TYPE_FIELD, DVM_OPERAND_TYPE_LABELVECTOR,
     DVM_OPERAND_TYPE_SPARSE, DVM_OPERAND_TYPE_TYPEDESC, DVM_OPERAND_TYPE_TYPELIST, DVM_OPERAND_TYPE_ARRAYDATA]"

definition operand_ok :: "operand \<Rightarrow> bool" where
  "operand_ok o' =
     (case opr_payload o' of
        ONum _ \<Rightarrow> \<not> operand_is_const o' \<or> operand_type o' \<notin> set pointer_types
      | OStr _ \<Rightarrow> operand_is_const o' \<and> operand_type o' \<in> {DVM_OPERAND_TYPE_STRING, DVM_OPERAND_TYPE_CLASS, DVM_OPERAND_TYPE_FIELD}
      | OType _ \<Rightarrow> operand_is_const o' \<and> operand_type o' = DVM_OPERAND_TYPE_TYPEDESC
      | OTypes _ \<Rightarrow> operand_is_const o' \<and> operand_type o' = DVM_OPERAND_TYPE_TYPELIST
      | OLabels _ \<Rightarrow> operand_is_const o' \<and> operand_type o' = DVM_OPERAND_TYPE_LABELVECTOR
      | OSparse _ \<Rightarrow> operand_is_const o' \<and> operand_type o' = DVM_OPERAND_TYPE_SPARSE
      | OData _ \<Rightarrow> operand_is_const o' \<and> operand_type o' = DVM_OPERAND_TYPE_ARRAYDATA
      | OWild \<Rightarrow> False)"

definition inst_typed :: "instruction \<Rightarrow> bool" where
  "inst_typed buf \<longleftrightarrow> length (ins_operands buf) = 16 \<and> ins_num_operands buf < 16 \<and> (\<forall>o' \<in> set (ins_operands buf). operand_ok o')"

lemma inst_typed_zero: "inst_typed instruction_zero"
  by (simp add: inst_typed_def instruction_zero_def operand_zero_def operand_ok_def operand_is_const_def)

text \<open>The memory of a well-typed operand is what its flags say, so it can be released.\<close>

lemma free_operand_ok: "operand_ok o' \<Longrightarrow> free_operand o' \<noteq> None"
  by (cases "opr_payload o'") (auto simp: operand_ok_def free_operand_def pointer_types_def dvm_types)

lemma free_operands_ok: "(\<forall>o' \<in> set os. operand_ok o') \<Longrightarrow> free_operands os \<noteq> None"
  by (induction os) (use free_operand_ok in \<open>auto simp: bind_eq_None_conv\<close>)

lemma free_typed: "inst_typed buf \<Longrightarrow> dalvik_instruction_free buf \<noteq> None"
  unfolding dalvik_instruction_free_def inst_typed_def by (rule free_operands_ok) (auto dest: in_set_takeD)

subsection \<open>Flags\<close>

text \<open>Flags that say that the union holds a number.\<close>

definition num_flag :: "u8 \<Rightarrow> bool" where
  "num_flag fl \<longleftrightarrow> \<not> bit fl 6 \<or> drop_bit 1 fl AND 31 \<notin> set pointer_types"

lemma operand_ok_num: "num_flag fl \<Longrightarrow> operand_ok \<lparr>opr_flags = fl, opr_payload = ONum n\<rparr>"
  by (simp add: operand_ok_def num_flag_def operand_is_const_def operand_type_def)

text \<open>The flags of the constructors.\<close>

lemmas flag_simps = num_flag_def operand_ok_def operand_is_const_def operand_type_def pointer_types_def dvm_flags

lemma num_flags [simp]:
  "num_flag 0" "num_flag DVM_OPERAND_FLAG_WIDE" "num_flag (DVM_OPERAND_FLAG_TYPE DVM_OPERAND_TYPE_OBJECT)"
  "num_flag (DVM_OPERAND_FLAG_TYPE DVM_OPERAND_TYPE_INT)" "num_flag (DVM_OPERAND_FLAG_TYPE DVM_OPERAND_TYPE_STRING)"
  "num_flag (DVM_OPERAND_FLAG_TYPE DVM_OPERAND_TYPE_FLOAT)" "num_flag (DVM_OPERAND_FLAG_TYPE DVM_OPERAND_TYPE_LONG)"
  "num_flag (DVM_OPERAND_FLAG_TYPE DVM_OPERAND_TYPE_DOUBLE)"
  "num_flag (DVM_OPERAND_FLAG_TYPE DVM_OPERAND_TYPE_DOUBLE OR DVM_OPERAND_FLAG_WIDE)"
  "num_flag (DVM_OPERAND_FLAG_CONST OR DVM_OPERAND_FLAG_TYPE DVM_OPERAND_TYPE_INT)"
  by (simp_all add: flag_simps)

lemma operand_oks [simp]:
  "operand_ok \<lparr>opr_flags = DVM_OPERAND_FLAG_WIDE OR DVM_OPERAND_FLAG_RESULT, opr_payload = ONum n\<rparr>"
  "operand_ok \<lparr>opr_flags = DVM_OPERAND_FLAG_TYPE DVM_OPERAND_TYPE_OBJECT OR DVM_OPERAND_FLAG_RESULT, opr_payload = ONum n\<rparr>"
  "operand_ok \<lparr>opr_flags = DVM_OPERAND_FLAG_RESULT, opr_payload = ONum n\<rparr>"
  "operand_ok \<lparr>opr_flags = DVM_OPERAND_FLAG_TYPE DVM_OPERAND_TYPE_EXCEPTION, opr_payload = ONum n\<rparr>"
  "operand_ok \<lparr>opr_flags = DVM_OPERAND_FLAG_TYPE DVM_OPERAND_TYPE_VOID, opr_payload = ONum n\<rparr>"
  "operand_ok \<lparr>opr_flags = DVM_OPERAND_FLAG_CONST OR DVM_OPERAND_FLAG_TYPE DVM_OPERAND_TYPE_INT, opr_payload = ONum n\<rparr>"
  "operand_ok \<lparr>opr_flags = (DVM_OPERAND_FLAG_CONST OR DVM_OPERAND_FLAG_TYPE DVM_OPERAND_TYPE_INT) OR DVM_OPERAND_FLAG_WIDE, opr_payload = ONum n\<rparr>"
  "operand_ok \<lparr>opr_flags = DVM_OPERAND_FLAG_TYPE DVM_OPERAND_TYPE_STRING OR DVM_OPERAND_FLAG_CONST, opr_payload = OStr k\<rparr>"
  "operand_ok \<lparr>opr_flags = DVM_OPERAND_FLAG_TYPE DVM_OPERAND_TYPE_CLASS OR DVM_OPERAND_FLAG_CONST, opr_payload = OStr k\<rparr>"
  "operand_ok \<lparr>opr_flags = DVM_OPERAND_FLAG_CONST OR DVM_OPERAND_FLAG_TYPE DVM_OPERAND_TYPE_CLASS, opr_payload = OStr k\<rparr>"
  "operand_ok \<lparr>opr_flags = DVM_OPERAND_FLAG_CONST OR DVM_OPERAND_FLAG_TYPE DVM_OPERAND_TYPE_FIELD, opr_payload = OStr k\<rparr>"
  "operand_ok \<lparr>opr_flags = DVM_OPERAND_FLAG_CONST OR DVM_OPERAND_FLAG_TYPE DVM_OPERAND_TYPE_TYPEDESC, opr_payload = OType t\<rparr>"
  "operand_ok \<lparr>opr_flags = DVM_OPERAND_FLAG_CONST OR DVM_OPERAND_FLAG_TYPE DVM_OPERAND_TYPE_TYPELIST, opr_payload = OTypes ts\<rparr>"
  "operand_ok \<lparr>opr_flags = DVM_OPERAND_FLAG_CONST OR DVM_OPERAND_FLAG_TYPE DVM_OPERAND_TYPE_ARRAYDATA, opr_payload = OData d\<rparr>"
  "operand_ok \<lparr>opr_flags = DVM_OPERAND_FLAG_TYPE DVM_OPERAND_TYPE_LABEL OR DVM_OPERAND_FLAG_CONST, opr_payload = ONum n\<rparr>"
  "operand_ok \<lparr>opr_flags = DVM_OPERAND_FLAG_CONST OR DVM_OPERAND_FLAG_TYPE DVM_OPERAND_TYPE_LABEL, opr_payload = ONum n\<rparr>"
  "operand_ok \<lparr>opr_flags = DVM_OPERAND_FLAG_TYPE DVM_OPERAND_TYPE_LABELVECTOR OR DVM_OPERAND_FLAG_CONST, opr_payload = OLabels v\<rparr>"
  "operand_ok \<lparr>opr_flags = DVM_OPERAND_FLAG_CONST OR DVM_OPERAND_FLAG_TYPE DVM_OPERAND_TYPE_SPARSE, opr_payload = OSparse sv\<rparr>"
  by (simp_all add: flag_simps)

lemma access_type_num: "access_type kw l = Some fl \<Longrightarrow> num_flag fl"
  by (auto simp: access_type_def flag_simps split: if_splits)

lemma fetch_type_num:
  "dalvik_instruction_sexpression_fetch_type kw e 0 = (Some fl, rest) \<Longrightarrow> num_flag fl \<and> num_flag (fl OR DVM_OPERAND_FLAG_CONST)"
  by (auto simp: dalvik_instruction_sexpression_fetch_type_def flag_simps split: option.splits if_splits)

lemma setup_opcode: "dalvik_instruction_operand_setup i fl p b = Some b' \<Longrightarrow> ins_opcode b' = ins_opcode b"
  by (auto simp: dalvik_instruction_operand_setup_def split: if_splits)

lemma reg_opcode: "setup_reg s i fl k b = Some b' \<Longrightarrow> ins_opcode b' = ins_opcode b"
  by (auto simp: setup_reg_def bind_eq_Some_conv dest: setup_opcode)

lemma imm_opcode: "setup_imm s i fl k b = Some b' \<Longrightarrow> ins_opcode b' = ins_opcode b"
  by (auto simp: setup_imm_def bind_eq_Some_conv dest: setup_opcode)

subsection \<open>Signatures\<close>

text \<open>The lists inside of the expression have no empty list as an element; the expression itself may have some.\<close>

fun elems_nonnil :: "sexp \<Rightarrow> bool" where
  "elems_nonnil (SCons c a b) = (a \<noteq> SNil \<and> elems_nonnil b)"
| "elems_nonnil _ = True"

fun sublists_clean :: "sexp \<Rightarrow> bool" where
  "sublists_clean (SCons c a b) = (elems_nonnil a \<and> sublists_clean b)"
| "sublists_clean _ = True"

lemma types_loop_complete:
  "elems_nonnil e \<Longrightarrow> n \<le> sexp_length e \<Longrightarrow> (n = 0 \<or> (\<exists>c a b. e = SCons c a b)) \<Longrightarrow>
    types_loop kw n e s arr \<noteq> Some (TypesShort ts, s')"
proof (induction n arbitrary: e s arr)
  case (Suc n)
  then obtain c a b where e: "e = SCons c a b" by auto
  have "n \<le> sexp_length b" "n = 0 \<or> (\<exists>c' a' b'. b = SCons c' a' b')"
    using Suc.prems(2) by (auto simp: e split: sexp.splits)
  then show ?case using Suc.prems(1) Suc.IH [of b]
    by (auto simp: e any_rest_eq bind_eq_Some_conv split: option.splits)
qed simp

lemma clean_lit_rest: "lit_rest e = Some (k, rest) \<Longrightarrow> sublists_clean e \<Longrightarrow> sublists_clean rest"
  by (auto simp: lit_rest_eq split: sexp.splits)

lemma clean_list_rest: "list_rest e = Some (a, rest) \<Longrightarrow> sublists_clean e \<Longrightarrow> sublists_clean rest"
  by (auto simp: list_rest_eq split: sexp.splits)

lemma clean_key_rest: "key_rest k e = Some rest \<Longrightarrow> sublists_clean e \<Longrightarrow> sublists_clean rest"
  by (auto simp: key_rest_eq split: sexp.splits if_splits)

lemma clean_path_loop: "path_loop mem e buf l = Some (Inr (buf', l', rest)) \<Longrightarrow> sublists_clean e \<Longrightarrow> sublists_clean rest"
  by (induction mem e buf l rule: path_loop.induct) (auto simp: Let_def split: sexp.splits option.splits if_splits)

lemma clean_method_address: "method_address e s = Some (m, rest, s') \<Longrightarrow> sublists_clean e \<Longrightarrow> sublists_clean rest"
  by (auto simp: method_address_def sexp_get_method_address_def Let_def dest: clean_path_loop
      split: option.splits sum.splits prod.splits if_splits)

lemma signature_match:
  "sexp_match e ''(C?_?'' [0, 0] = (True, vs) \<Longrightarrow> sublists_clean e \<Longrightarrow>
     elems_nonnil (out_sexp vs 0) \<and> (out_sexp vs 0 = SNil \<or> (\<exists>c a b. out_sexp vs 0 = SCons c a b))"
proof (cases e)
  case (SCons c a b)
  assume "sexp_match e ''(C?_?'' [0, 0] = (True, vs)" "sublists_clean e"
  then show ?thesis unfolding SCons
    by (cases a) (auto simp: sexp_match_def char_at_def sexp_match_one_def expected_type_def store_arg_def out_sexp_def
        split: sexp.splits if_splits prod.splits)
qed (simp_all add: sexp_match_def char_at_def)

subsection \<open>What a constructor keeps\<close>

text \<open>
  A property of instructions that every write of an operand keeps, is kept by all of the constructors,
  unless the reading of a switch fails. The operands that are written are well-typed, except for a
  signature with an empty list; \<open>wild\<close> says that the property does not depend on that.
\<close>

definition post :: "(instruction \<Rightarrow> bool) \<Rightarrow> di_result \<Rightarrow> bool" where
  "post Q m \<longleftrightarrow> (\<forall>rc b s. m = Some (rc, b, s) \<longrightarrow> rc = 0 \<or> ins_opcode b \<noteq> DVM_SWITCH \<longrightarrow> Q b)"

locale constructor_contract =
  fixes Q :: "instruction \<Rightarrow> bool" and wild :: bool
  assumes setup_kept: "Q b \<Longrightarrow> operand_ok \<lparr>opr_flags = fl, opr_payload = p\<rparr> \<or> wild \<Longrightarrow>
      dalvik_instruction_operand_setup i fl p b = Some b' \<Longrightarrow> Q b'"
    and upd_opcode [simp]: "Q b \<Longrightarrow> opc \<noteq> DVM_SWITCH \<Longrightarrow> Q (b\<lparr>ins_opcode := opc\<rparr>)"
    and upd_flags [simp]: "Q b \<Longrightarrow> Q (b\<lparr>ins_flags := fls\<rparr>)"
    and upd_num [simp]: "Q b \<Longrightarrow> n < 16 \<Longrightarrow> Q (b\<lparr>ins_num_operands := n\<rparr>)"
    and upd_line [simp]: "Q b \<Longrightarrow> Q (b\<lparr>ins_line := l\<rparr>)"
    and upd_annotation [simp]: "Q b \<Longrightarrow> Q (b\<lparr>ins_annotation := an\<rparr>)"
begin

lemma setup_typed:
  "Q b \<Longrightarrow> operand_ok \<lparr>opr_flags = fl, opr_payload = p\<rparr> \<Longrightarrow> dalvik_instruction_operand_setup i fl p b = Some b' \<Longrightarrow> Q b'"
  by (rule setup_kept) simp_all

lemma typed_post_None: "post Q None"
  by (simp add: post_def)

lemma typed_post_return: "Q b \<Longrightarrow> post Q (Some (rc, b, s))"
  by (simp add: post_def)

lemma typed_post_read: "(\<And>x. m = Some x \<Longrightarrow> post Q (f x)) \<Longrightarrow> post Q (m \<bind> f)"
  by (cases m) (simp_all add: post_def)

lemma typed_post_wild:
  assumes "Q b" "operand_ok \<lparr>opr_flags = fl, opr_payload = p\<rparr> \<or> wild" "\<And>b'. Q b' \<Longrightarrow> post Q (f b')"
  shows "post Q (dalvik_instruction_operand_setup i fl p b \<bind> f)"
  by (rule typed_post_read) (rule assms(3), erule setup_kept [OF assms(1,2)])

lemma typed_post_setup:
  assumes "Q b" "operand_ok \<lparr>opr_flags = fl, opr_payload = p\<rparr>" "\<And>b'. Q b' \<Longrightarrow> ins_opcode b' = ins_opcode b \<Longrightarrow> post Q (f b')"
  shows "post Q (dalvik_instruction_operand_setup i fl p b \<bind> f)"
  by (rule typed_post_read) (rule assms(3), erule setup_typed [OF assms(1,2)], erule setup_opcode)

lemma reg_typed: "Q b \<Longrightarrow> num_flag fl \<Longrightarrow> setup_reg s i fl k b = Some b' \<Longrightarrow> Q b'"
  by (auto simp: setup_reg_def bind_eq_Some_conv elim!: setup_typed [OF _ operand_ok_num])

lemma imm_typed: "Q b \<Longrightarrow> num_flag fl \<Longrightarrow> setup_imm s i fl k b = Some b' \<Longrightarrow> Q b'"
  by (auto simp: setup_imm_def bind_eq_Some_conv elim!: setup_typed [OF _ operand_ok_num])

lemma typed_post_reg:
  assumes "Q b" "num_flag fl" "\<And>b'. Q b' \<Longrightarrow> ins_opcode b' = ins_opcode b \<Longrightarrow> post Q (f b')"
  shows "post Q (setup_reg s i fl k b \<bind> f)"
  by (rule typed_post_read) (rule assms(3), erule reg_typed [OF assms(1,2)], erule reg_opcode)

lemma typed_post_imm:
  assumes "Q b" "num_flag fl" "\<And>b'. Q b' \<Longrightarrow> ins_opcode b' = ins_opcode b \<Longrightarrow> post Q (f b')"
  shows "post Q (setup_imm s i fl k b \<bind> f)"
  by (rule typed_post_read) (rule assms(3), erule imm_typed [OF assms(1,2)], erule imm_opcode)

text \<open>One rule per kind of case distinction, so that a constructor is traversed along its text.\<close>

lemma typed_post_cases:
  "post Q m1 \<Longrightarrow> (\<And>x. m = Some x \<Longrightarrow> post Q (f x)) \<Longrightarrow> post Q (case m of None \<Rightarrow> m1 | Some x \<Rightarrow> f x)"
  "(\<And>x y. z = (x, y) \<Longrightarrow> post Q (g x y)) \<Longrightarrow> post Q (case z of (x, y) \<Rightarrow> g x y)"
  "post Q m1 \<Longrightarrow> post Q m2 \<Longrightarrow> post Q (case c of True \<Rightarrow> m1 | False \<Rightarrow> m2)"
  "post Q m1 \<Longrightarrow> post Q m2 \<Longrightarrow> post Q (if c then m1 else m2)"
  by (auto split: option.split prod.split bool.split)

lemmas typed_post_reads =
  typed_post_read [where m = "sexp_strip e ws" for e ws]
  typed_post_read [where m = "object_path e s" for e s]
  typed_post_read [where m = "method_address e s" for e s]
  typed_post_read [where m = "read_type kw e s" for kw e s]
  typed_post_read [where m = "DI_REGNUM s k" for s k]
  typed_post_read [where m = "DI_INSNUM s k" for s k]
  typed_post_read [where m = "DI_INSNUMLL s k" for s k]
  typed_post_read [where m = "data_loop e s d" for e s d]

lemmas typed_rules = typed_post_cases typed_post_None typed_post_return typed_post_setup typed_post_reg typed_post_imm typed_post_reads

text \<open>The constructors.\<close>

lemma if_label_typed: "Q b \<Longrightarrow> post Q (if_label kw how e b s)"
  unfolding if_label_def by (intro typed_rules) simp_all

lemma field_typed: "Q b \<Longrightarrow> post Q (setup_field kw i e b s)"
  unfolding setup_field_def by (intro typed_rules) simp_all

lemma NOP_typed: "Q b \<Longrightarrow> post Q (dalvik_instruction_NOP kw e b s)"
  unfolding dalvik_instruction_NOP_def Let_def by (intro typed_rules) simp_all

lemma MOVE_typed: "Q b \<Longrightarrow> post Q (dalvik_instruction_MOVE kw e b s)"
  unfolding dalvik_instruction_MOVE_def Let_def by (intro typed_rules) simp_all

lemma RETURN_typed: "Q b \<Longrightarrow> post Q (dalvik_instruction_RETURN kw e b s)"
  unfolding dalvik_instruction_RETURN_def Let_def by (intro typed_rules) simp_all

lemma CONST_typed: "Q b \<Longrightarrow> post Q (dalvik_instruction_CONST kw e b s)"
  unfolding dalvik_instruction_CONST_def Let_def by (intro typed_rules) simp_all

lemma MONITOR_typed: "Q b \<Longrightarrow> post Q (dalvik_instruction_MONITOR kw e b s)"
  unfolding dalvik_instruction_MONITOR_def Let_def by (intro typed_rules) simp_all

lemma CHECK_typed: "Q b \<Longrightarrow> post Q (dalvik_instruction_CHECK kw e b s)"
  unfolding dalvik_instruction_CHECK_def Let_def by (intro typed_rules) simp_all

lemma THROW_typed: "Q b \<Longrightarrow> post Q (dalvik_instruction_THROW kw e b s)"
  unfolding dalvik_instruction_THROW_def Let_def by (intro typed_rules) simp_all

lemma GOTO_typed: "Q b \<Longrightarrow> post Q (dalvik_instruction_GOTO kw e b s)"
  unfolding dalvik_instruction_GOTO_def Let_def by (intro typed_rules) simp_all

lemma CMP_typed: "Q b \<Longrightarrow> post Q (dalvik_instruction_CMP kw e b s)"
  unfolding dalvik_instruction_CMP_def Let_def by (intro typed_rules) (auto split: if_splits)

lemma IF_typed: "Q b \<Longrightarrow> post Q (dalvik_instruction_IF kw e b s)"
  unfolding dalvik_instruction_IF_def Let_def by (intro typed_rules if_label_typed) simp_all

lemma INSTANCE_typed: "Q b \<Longrightarrow> post Q (dalvik_instruction_INSTANCE kw e b s)"
  unfolding dalvik_instruction_INSTANCE_def Let_def by (intro typed_rules) simp_all

lemma ARRAY_typed: "Q b \<Longrightarrow> post Q (dalvik_instruction_ARRAY kw e b s)"
  unfolding dalvik_instruction_ARRAY_def Let_def by (intro typed_rules) simp_all

lemma NEW_typed: "Q b \<Longrightarrow> post Q (dalvik_instruction_NEW kw e b s)"
  unfolding dalvik_instruction_NEW_def Let_def by (intro typed_rules) simp_all

lemma FILLED_typed: "Q b \<Longrightarrow> post Q (dalvik_instruction_FILLED kw e b s)"
  unfolding dalvik_instruction_FILLED_def Let_def by (intro typed_rules) simp_all

lemma DATA_typed: "Q b \<Longrightarrow> post Q (dalvik_instruction_DATA kw e b s)"
  unfolding dalvik_instruction_DATA_def Let_def by (intro typed_rules) simp_all

lemma AGET_typed: "Q b \<Longrightarrow> post Q (dalvik_instruction_AGET kw e b s)"
  unfolding dalvik_instruction_AGET_def Let_def by (intro typed_rules) simp_all

lemma APUT_typed: "Q b \<Longrightarrow> post Q (dalvik_instruction_APUT kw e b s)"
  unfolding dalvik_instruction_APUT_def Let_def by (intro typed_rules) simp_all

lemma object_operations_typed: "Q b \<Longrightarrow> opc \<noteq> DVM_SWITCH \<Longrightarrow> post Q (dalvik_instruction_setup_object_operations kw opc fl e b s)"
  unfolding dalvik_instruction_setup_object_operations_def Let_def
  by (intro typed_rules field_typed) (auto dest: access_type_num split: option.splits)

lemma instance_typed: "Q b \<Longrightarrow> post Q (dalvik_instruction_IGET kw e b s)"
  "Q b \<Longrightarrow> post Q (dalvik_instruction_IPUT kw e b s)" "Q b \<Longrightarrow> post Q (dalvik_instruction_SGET kw e b s)"
  "Q b \<Longrightarrow> post Q (dalvik_instruction_SPUT kw e b s)"
  by (simp_all add: dalvik_instruction_IGET_def dalvik_instruction_IPUT_def dalvik_instruction_SGET_def dalvik_instruction_SPUT_def
      object_operations_typed)

text \<open>Arithmetic.\<close>

lemma arithmetic_loop_typed:
  "Q b \<Longrightarrow> (\<forall>fl. Some fl \<in> set fls \<longrightarrow> num_flag fl) \<Longrightarrow> post Q (arithmetic_loop fls i e b s)"
proof (induction fls arbitrary: i e b)
  case (Cons f fls)
  then show ?case by (auto simp: if_distrib [of "\<lambda>m. Option.bind m h" for h] intro!: typed_rules)
qed (simp add: typed_post_return)

lemma setup_arithmetic_typed:
  "Q b \<Longrightarrow> opc \<noteq> DVM_SWITCH \<Longrightarrow> length fls < 16 \<Longrightarrow> (\<forall>fl. Some fl \<in> set fls \<longrightarrow> num_flag fl) \<Longrightarrow>
    post Q (dalvik_instruction_setup_arithmetic opc fl fls e b s)"
  unfolding dalvik_instruction_setup_arithmetic_def by (rule arithmetic_loop_typed) simp_all

lemma NEG_typed: "Q b \<Longrightarrow> post Q (dalvik_instruction_NEG kw e b s)"
  unfolding dalvik_instruction_NEG_def by (intro typed_post_cases setup_arithmetic_typed) (auto dest: fetch_type_num)

lemma NOT_typed: "Q b \<Longrightarrow> post Q (dalvik_instruction_NOT kw e b s)"
  unfolding dalvik_instruction_NOT_def by (intro typed_post_cases setup_arithmetic_typed) (auto dest: fetch_type_num)

lemma convert_typed:
  "Q b \<Longrightarrow> num_flag (DVM_OPERAND_FLAG_TYPE ty) \<Longrightarrow> post Q (dalvik_instruction_convert_operator kw e b ty s)"
  unfolding dalvik_instruction_convert_operator_def
  by (intro typed_rules setup_arithmetic_typed) (auto dest: fetch_type_num)

lemma conversions_typed: "Q b \<Longrightarrow> post Q (dalvik_instruction_INT kw e b s)"
  "Q b \<Longrightarrow> post Q (dalvik_instruction_LONG kw e b s)" "Q b \<Longrightarrow> post Q (dalvik_instruction_FLOAT kw e b s)"
  "Q b \<Longrightarrow> post Q (dalvik_instruction_DOUBLE kw e b s)"
  by (simp_all add: dalvik_instruction_INT_def dalvik_instruction_LONG_def dalvik_instruction_FLOAT_def dalvik_instruction_DOUBLE_def
      convert_typed)

lemma binary_typed: "Q b \<Longrightarrow> post Q (dalvik_instruction_setup_binary_operator kw fl e b s)"
  unfolding dalvik_instruction_setup_binary_operator_def Let_def if_distrib [of "\<lambda>m. Option.bind m h" for h]
  by (intro typed_rules) (auto dest: fetch_type_num intro!: typed_rules)

text \<open>Calls.\<close>

lemma typed_post_types_result:
  assumes "\<And>ts. r = TypesDone ts \<Longrightarrow> post Q (f ts)" "\<And>ts. r = TypesShort ts \<Longrightarrow> post Q (g ts)" "post Q h"
  shows "post Q (case r of TypesDone ts \<Rightarrow> f ts | TypesShort ts \<Rightarrow> g ts | TypesError \<Rightarrow> h)"
  using assms by (cases r) simp_all

lemma signature_typed:
  assumes "Q b" "sublists_clean e \<or> wild"
    and extra: "\<And>b b'. Q b \<Longrightarrow> extra b = Some b' \<Longrightarrow> Q b'"
  shows "post Q (setup_signature kw cleared extra e b s)"
proof -
  have step: "post Q (extra b \<bind> f)" if "Q b" "\<And>b'. Q b' \<Longrightarrow> post Q (f b')" for b f
    by (rule typed_post_read) (rule that(2), rule extra [OF that(1)])
  have complete: "types_loop kw (sexp_length (out_sexp vs 0)) (out_sexp vs 0) s [] = Some (TypesShort ts, s') \<Longrightarrow> wild"
    if "sexp_match e ''(C?_?'' [0, 0] = (True, vs)" for vs s ts s'
  proof (rule ccontr)
    assume t: "types_loop kw (sexp_length (out_sexp vs 0)) (out_sexp vs 0) s [] = Some (TypesShort ts, s')" "\<not> wild"
    then have "sublists_clean e" using assms(2) by simp
    then have "types_loop kw (sexp_length (out_sexp vs 0)) (out_sexp vs 0) s [] \<noteq> Some (TypesShort ts, s')"
      using signature_match [OF that] by (intro types_loop_complete) auto
    then show False using t(1) by contradiction
  qed
  obtain ok vs where m: "sexp_match e ''(C?_?'' [0, 0] = (ok, vs)" by fastforce
  show ?thesis
    using assms(1) complete [of vs] m unfolding setup_signature_def Let_def
    by (cases ok) (auto intro!: typed_post_cases typed_post_None typed_post_return typed_post_wild typed_post_reads step
        typed_post_types_result typed_post_read [where m = "types_loop kw n e s arr" for kw n e s arr])
qed

lemma invoke_args_typed: "Q b \<Longrightarrow> invoke_args args b s = Some (ok, b') \<Longrightarrow> Q b'"
proof (induction args b s rule: invoke_args.induct)
  case (1 args b s)
  show ?case
  proof (cases "args = SNil \<or> 16 \<le> ins_num_operands b \<or> lit_rest args = None")
    case True
    then show ?thesis using "1.prems" by (auto simp: invoke_args.simps [of args] split: if_splits)
  next
    case False
    then obtain k rest where k: "args \<noteq> SNil" "\<not> 16 \<le> ins_num_operands b" "lit_rest args = Some (k, rest)" by auto
    from "1.prems"(2) k obtain b1 where b1: "setup_reg s (ins_num_operands b) 0 k b = Some b1"
      by (subst (asm) invoke_args.simps) (auto split: option.splits)
    let ?b2 = "b1\<lparr>ins_num_operands := (ins_num_operands b1 + 1) mod 16\<rparr>"
    have b2: "Q ?b2" using reg_typed [OF "1.prems"(1) _ b1] by simp
    have "Some (ok, b') = (if ins_num_operands ?b2 = 0 then Some (False, ?b2) else invoke_args rest ?b2 s)"
      using "1.prems"(2) k b1 by (subst (asm) invoke_args.simps) (auto simp: Let_def split: if_splits)
    then show ?thesis using b2 "1.IH" [OF k refl b1 refl _ b2] by (auto split: if_splits)
  qed
qed

lemma two_setups_typed:
  assumes "Q b" "operand_ok \<lparr>opr_flags = fl, opr_payload = p\<rparr>" "operand_ok \<lparr>opr_flags = fl', opr_payload = p'\<rparr>"
    and "dalvik_instruction_operand_setup i fl p b \<bind> dalvik_instruction_operand_setup j fl' p' = Some b'"
  shows "Q b'"
proof -
  obtain b1 where b1: "dalvik_instruction_operand_setup i fl p b = Some b1" "dalvik_instruction_operand_setup j fl' p' b1 = Some b'"
    using assms(4) by (auto simp: bind_eq_Some_conv)
  show ?thesis by (rule setup_typed [OF setup_typed [OF assms(1,2) b1(1)] assms(3) b1(2)])
qed

lemma setup_method_typed: "Q b \<Longrightarrow> setup_method path field b = Some b' \<Longrightarrow> Q b'"
  unfolding setup_method_def by (erule two_setups_typed [rotated 3]) simp_all

lemma typed_post_method:
  assumes "Q b" "\<And>b'. Q b' \<Longrightarrow> post Q (f b')"
  shows "post Q (setup_method path field b \<bind> f)"
  by (rule typed_post_read) (rule assms(2), rule setup_method_typed [OF assms(1)])

lemma typed_post_args:
  assumes "Q b" "\<And>ok b'. Q b' \<Longrightarrow> post Q (f (ok, b'))"
  shows "post Q (invoke_args args b s \<bind> f)"
proof (rule typed_post_read)
  fix x
  assume "invoke_args args b s = Some x"
  then show "post Q (f x)" using invoke_args_typed [OF assms(1)] assms(2) by (cases x) auto
qed

lemma range_typed: "Q b \<Longrightarrow> sublists_clean e \<or> wild \<Longrightarrow> post Q (invoke_range kw e b s)"
  unfolding invoke_range_def Let_def
  by (intro typed_rules signature_typed typed_post_method)
    (auto dest: clean_list_rest clean_method_address elim!: two_setups_typed [rotated 3])

lemma INVOKE_typed: "Q b \<Longrightarrow> sublists_clean e \<or> wild \<Longrightarrow> post Q (dalvik_instruction_INVOKE kw e b s)"
  unfolding dalvik_instruction_INVOKE_def Let_def
  by (intro typed_rules signature_typed typed_post_method typed_post_args range_typed)
    (auto dest: clean_lit_rest clean_key_rest clean_list_rest clean_method_address
      intro!: typed_rules signature_typed typed_post_method typed_post_args)

lemma annotation_kept: "Q b \<Longrightarrow> Q (snd (dalvik_instruction_write_annotation b v))"
  by (simp add: dalvik_instruction_write_annotation_def)

lemma annotation_opcode: "ins_opcode (snd (dalvik_instruction_write_annotation b v)) = ins_opcode b"
  by (simp add: dalvik_instruction_write_annotation_def)

lemma UINVOKE_typed:
  assumes "Q b" "sublists_clean e \<or> wild"
  shows "post Q (dalvik_instruction_UINVOKE kw e b s)"
proof -
  have *: "post Q (dalvik_instruction_INVOKE kw rest b s)" if "lit_rest e = Some (k, rest)" for k rest
    using that assms by (blast intro: INVOKE_typed clean_lit_rest)
  show ?thesis
  proof (cases "lit_rest e")
    case None
    then show ?thesis using assms(1) by (simp add: dalvik_instruction_UINVOKE_def typed_post_return)
  next
    case (Some x)
    then obtain k rest where x: "lit_rest e = Some (k, rest)" by (cases x) auto
    show ?thesis using * [OF x] x
      by (auto simp: dalvik_instruction_UINVOKE_def post_def bind_eq_Some_conv annotation_opcode intro!: annotation_kept)
  qed
qed

lemmas constructors_typed = NOP_typed MOVE_typed RETURN_typed CONST_typed MONITOR_typed CHECK_typed THROW_typed GOTO_typed
  CMP_typed IF_typed AGET_typed APUT_typed instance_typed INVOKE_typed NEG_typed NOT_typed
  conversions_typed binary_typed INSTANCE_typed ARRAY_typed NEW_typed FILLED_typed UINVOKE_typed DATA_typed

end

text \<open>The switches set their opcode as well.\<close>

locale switch_contract = constructor_contract +
  assumes upd_switch [simp]: "Q b \<Longrightarrow> Q (b\<lparr>ins_opcode := DVM_SWITCH\<rparr>)"
begin

text \<open>A switch is well-typed when it has been read without an error.\<close>

lemma typed_post_switch_error:
  "ins_opcode b = DVM_SWITCH \<Longrightarrow> post Q (do { b \<leftarrow> dalvik_instruction_operand_setup i fl p b; Some (-1, b, s) })"
  by (auto simp: post_def bind_eq_Some_conv dest: setup_opcode)

lemma typed_post_switch_ok:
  "Q b \<Longrightarrow> operand_ok \<lparr>opr_flags = fl, opr_payload = p\<rparr> \<Longrightarrow>
    post Q (do { b \<leftarrow> dalvik_instruction_operand_setup i fl p b; Some (0, b, s) })"
  by (auto intro!: typed_post_setup typed_post_return)

lemmas switch_rules = typed_post_cases typed_post_None typed_post_return typed_post_reg typed_post_imm
  typed_post_switch_error typed_post_switch_ok typed_post_read [where m = "sparse_loop kw e s t" for kw e s t]

lemma PACKED_typed: "Q b \<Longrightarrow> post Q (dalvik_instruction_PACKED kw e b s)"
  unfolding dalvik_instruction_PACKED_def Let_def by (intro switch_rules) simp_all

lemma SPARSE_typed: "Q b \<Longrightarrow> post Q (dalvik_instruction_SPARSE kw e b s)"
  unfolding dalvik_instruction_SPARSE_def Let_def by (intro switch_rules) simp_all

lemma dispatch_typed: "Q b \<Longrightarrow> sublists_clean e \<or> wild \<Longrightarrow> post Q (dalvik_instruction_dispatch kw k e b s)"
  unfolding dalvik_instruction_dispatch_def binop_defs
  by (intro typed_post_cases(4) constructors_typed PACKED_typed SPARSE_typed typed_post_return)

lemma from_sexp_typed:
  assumes "Q buf" "sublists_clean e \<or> wild"
    and "dalvik_instruction_from_sexp kw e buf line s = Some (rc, buf', s')" "rc = 0 \<or> ins_opcode buf' \<noteq> DVM_SWITCH"
  shows "Q buf'"
proof (cases "e = SNil \<or> lit_rest e = None")
  case True
  then show ?thesis using assms(1,3) by (auto simp: dalvik_instruction_from_sexp_def split: if_splits)
next
  case False
  then obtain k rest where k: "e \<noteq> SNil" "lit_rest e = Some (k, rest)" by auto
  obtain b1 where b1: "dalvik_instruction_dispatch kw k rest buf s = Some (rc, b1, s')"
    "buf' = (if rc = 0 then b1\<lparr>ins_line := line\<rparr> else b1)"
    using assms(3) k by (auto simp: dalvik_instruction_from_sexp_def bind_eq_Some_conv)
  have "post Q (dalvik_instruction_dispatch kw k rest buf s)"
    using assms(1,2) clean_lit_rest [OF k(2)] by (auto intro: dispatch_typed)
  then show ?thesis using b1 assms(4) by (auto simp: post_def split: if_splits)
qed

end

text \<open>Well-typed instructions are one such property. What the reader of methods writes is another.\<close>

interpretation typed: switch_contract inst_typed False
proof
  show "inst_typed b'"
    if "inst_typed b" "operand_ok \<lparr>opr_flags = fl, opr_payload = p\<rparr> \<or> False" "dalvik_instruction_operand_setup i fl p b = Some b'"
    for b b' fl p i
    using that by (auto simp: inst_typed_def dalvik_instruction_operand_setup_def split: if_splits
        dest!: subsetD [OF set_update_subset_insert])
qed (simp_all add: inst_typed_def)

definition inst_frame :: "instruction \<Rightarrow> nat option \<times> u32 \<times> exception_handler list \<times> nat" where
  "inst_frame b = (ins_method b, ins_next b, ins_handler_set b, length (ins_operands b))"

interpretation frame: switch_contract "\<lambda>b. inst_frame b = fr" True for fr
  by unfold_locales (auto simp: inst_frame_def dalvik_instruction_operand_setup_def split: if_splits)

text \<open>No other constructor makes a switch, and a switch that has been read has its table.\<close>

interpretation plain: constructor_contract "\<lambda>b. ins_opcode b \<noteq> DVM_SWITCH" True
  by unfold_locales (auto dest: setup_opcode)

definition switch_shape :: "instruction \<Rightarrow> bool" where
  "switch_shape b \<longleftrightarrow>
     ins_flags b = DVM_FLAG_SWITCH_PACKED \<and> (\<exists>v. opr_payload (ins_operands b ! 2) = OLabels v) \<or>
     ins_flags b = DVM_FLAG_SWITCH_SPARSE \<and> (\<exists>v. opr_payload (ins_operands b ! 1) = OSparse v)"

lemma setup_effect:
  "dalvik_instruction_operand_setup i fl p b = Some b' \<Longrightarrow>
     ins_flags b' = ins_flags b \<and> opr_payload (ins_operands b' ! i) = p"
  by (auto simp: dalvik_instruction_operand_setup_def split: if_splits)

lemma reg_flags: "setup_reg s i fl k b = Some b' \<Longrightarrow> ins_flags b' = ins_flags b"
  by (auto simp: setup_reg_def bind_eq_Some_conv dest: setup_effect)

lemma imm_flags: "setup_imm s i fl k b = Some b' \<Longrightarrow> ins_flags b' = ins_flags b"
  by (auto simp: setup_imm_def bind_eq_Some_conv dest: setup_effect)

lemma PACKED_shape:
  assumes "dalvik_instruction_PACKED kw e b s = Some (0, b', s')"
  shows "switch_shape b'"
proof -
  obtain ok vs where m: "sexp_match e ''(L=L?L?A'' [DALVIK_TOKEN_SWITCH kw, 0, 0, 0] = (ok, vs)" by fastforce
  show ?thesis
    using assms m by (cases ok; cases "packed_loop (out_sexp vs 3) s []")
      (auto simp: dalvik_instruction_PACKED_def switch_shape_def Let_def bind_eq_Some_conv
        dest!: setup_effect reg_flags imm_flags split: option.splits)
qed

lemma SPARSE_shape: "dalvik_instruction_SPARSE kw e b s = Some (0, b', s') \<Longrightarrow> switch_shape b'"
  by (auto simp: dalvik_instruction_SPARSE_def switch_shape_def Let_def bind_eq_Some_conv
      dest!: setup_effect reg_flags imm_flags split: prod.splits bool.splits option.splits)

lemma post_weaken: "post Q m \<Longrightarrow> (\<And>b. Q b \<Longrightarrow> R b) \<Longrightarrow> post R m"
  by (auto simp: post_def)

lemma post_if: "post Q m1 \<Longrightarrow> post Q m2 \<Longrightarrow> post Q (if c then m1 else m2)"
  by simp

lemma switches_shape:
  "post (\<lambda>b. ins_opcode b \<noteq> DVM_SWITCH \<or> switch_shape b) (dalvik_instruction_PACKED kw e b s)"
  "post (\<lambda>b. ins_opcode b \<noteq> DVM_SWITCH \<or> switch_shape b) (dalvik_instruction_SPARSE kw e b s)"
  by (auto simp: post_def dest: PACKED_shape SPARSE_shape)

lemmas plain_constructors = plain.constructors_typed [THEN post_weaken [where R = "\<lambda>b. ins_opcode b \<noteq> DVM_SWITCH \<or> switch_shape b"]]

lemma dispatch_shape:
  "ins_opcode b \<noteq> DVM_SWITCH \<Longrightarrow> post (\<lambda>b. ins_opcode b \<noteq> DVM_SWITCH \<or> switch_shape b) (dalvik_instruction_dispatch kw k e b s)"
  unfolding dalvik_instruction_dispatch_def binop_defs
  by (intro post_if plain_constructors switches_shape plain.typed_post_return [THEN post_weaken]) simp_all

lemma from_sexp_switch:
  assumes "dalvik_instruction_from_sexp kw e buf line s = Some (0, b, s')" "ins_opcode buf \<noteq> DVM_SWITCH" "ins_opcode b = DVM_SWITCH"
  shows "switch_shape b"
proof -
  obtain k rest b1 where b1: "dalvik_instruction_dispatch kw k rest buf s = Some (0, b1, s')" "b = b1\<lparr>ins_line := line\<rparr>"
    using assms(1) by (auto simp: dalvik_instruction_from_sexp_def bind_eq_Some_conv split: if_splits option.splits)
  have "ins_opcode b1 \<noteq> DVM_SWITCH \<or> switch_shape b1"
    using dispatch_shape [OF assms(2), of kw k rest s] b1(1) by (simp add: post_def)
  then show ?thesis using b1(2) assms(3) by (auto simp: switch_shape_def)
qed


lemma lits_clean [simp]: "sublists_clean (lits ks)"
  by (induction ks) simp_all


subsection \<open>A signature with an empty list\<close>

text \<open>
  When the loop over the argument types of a call stops at an empty list, the rest of its array has never
  been written (unless the registers are given as a range). The reader returns 0 all the same, and releasing the
  instruction follows the pointers that the memory happened to hold.
\<close>

theorem dalvik_instruction_signature_wild:
  assumes "sexp_match e ''(C?_?'' [0, 0] = (True, vs)" "read_type kw (out_sexp vs 1) s = Some (Some t, s1)"
    and "types_loop kw (sexp_length (out_sexp vs 0)) (out_sexp vs 0) s1 [] = Some (TypesShort ts, s2)"
    and "length (ins_operands buf) = 16" "3 \<le> ins_num_operands buf"
  shows "\<exists>buf'. setup_signature kw False Some e buf s = Some (0, buf', s2) \<and> dalvik_instruction_free buf' = None"
proof -
  let ?fl = "DVM_OPERAND_FLAG_CONST OR DVM_OPERAND_FLAG_TYPE DVM_OPERAND_TYPE_TYPELIST"
  obtain buf' where sig: "setup_signature kw False Some e buf s = Some (0, buf', s2)" "ins_num_operands buf' = ins_num_operands buf"
    "length (ins_operands buf') = 16" "ins_operands buf' ! 2 = \<lparr>opr_flags = ?fl, opr_payload = OWild\<rparr>"
    using assms by (simp add: setup_signature_def dalvik_instruction_operand_setup_def Let_def)
  have "dalvik_instruction_free buf' = None"
    unfolding dalvik_instruction_free_def
  proof (rule free_operands_None)
    show "\<lparr>opr_flags = ?fl, opr_payload = OWild\<rparr> \<in> set (take (ins_num_operands buf') (ins_operands buf'))"
      using sig assms(5) by (auto simp: in_set_conv_nth intro!: exI [of _ 2])
    show "free_operand \<lparr>opr_flags = ?fl, opr_payload = OWild\<rparr> = None"
      by (simp add: free_operand_def operand_is_const_def operand_type_def dvm_flags dvm_types)
  qed
  then show ?thesis using sig(1) by blast
qed

text \<open>The list of argument types \<open>(())\<close> with the return type void.\<close>

theorem dalvik_instruction_signature_wild_witness:
  "\<exists>kw p buf' s'. setup_signature kw False Some
      (mk_list [(CHR ''('', mk_list [(CHR ''('', SNil)]), (CHR '' '', SLit (DALVIK_TOKEN_VOID kw))])
      (instruction_zero\<lparr>ins_num_operands := 4\<rparr>) (reader_of p) = Some (0, buf', s') \<and> dalvik_instruction_free buf' = None"
proof -
  obtain kw p k0 where w: "tokens_ok kw p" "is_register (reader_of p) k0 4" using example_words by blast
  let ?e = "mk_list [(CHR ''('', mk_list [(CHR ''('', SNil)]), (CHR '' '', SLit (DALVIK_TOKEN_VOID kw))]"
  have m: "\<exists>vs. sexp_match ?e ''(C?_?'' [0, 0] = (True, vs) \<and> out_sexp vs 0 = mk_list [(CHR ''('', SNil)] \<and>
      out_sexp vs 1 = SLit (DALVIK_TOKEN_VOID kw)"
    by (simp add: match_simps out_sexp_def)
  then obtain vs where vs: "sexp_match ?e ''(C?_?'' [0, 0] = (True, vs)" "out_sexp vs 0 = mk_list [(CHR ''('', SNil)]"
      "out_sexp vs 1 = SLit (DALVIK_TOKEN_VOID kw)" by blast
  have "read_type kw (SLit (DALVIK_TOKEN_VOID kw)) rd = Some (Some (TAtom DALVIK_TYPECODE_VOID), rd)" for rd
    by (simp add: read_type_def dalvik_type_from_sexp.simps match_simps type_of_literal_def)
  then have void: "read_type kw (out_sexp vs 1) (reader_of p) = Some (Some (TAtom DALVIK_TYPECODE_VOID), reader_of p)"
    by (simp only: vs(3))
  have short: "types_loop kw (sexp_length (out_sexp vs 0)) (out_sexp vs 0) (reader_of p) [] = Some (TypesShort [], reader_of p)"
    by (simp add: vs(2) any_rest_eq)
  from dalvik_instruction_signature_wild [OF vs(1) void short, of "instruction_zero\<lparr>ins_num_operands := 4\<rparr>"]
  show ?thesis by (auto simp: instruction_zero_def)
qed

end
