(* ===== verification/Dalvik_Instruction_Labels.thy ===== *)
theory Dalvik_Instruction_Labels
  imports Dalvik_Instruction_Type
begin

text \<open>
  The constructors of \<^verbatim>\<open>src/dalvik/dalvik_instruction.c\<close> only number labels, they do not place them: the
  jump table stays as it is. Their result is \<open>0\<close> or \<open>-1\<close>.
\<close>

abbreviation jump_table_of :: "reader \<Rightarrow> jump_table" where
  "jump_table_of s \<equiv> dalvik_label_jump_table (rd_labels s)"

definition jt_post :: "jump_table \<Rightarrow> di_result \<Rightarrow> bool" where
  "jt_post jt m \<longleftrightarrow> (\<forall>rc b s. m = Some (rc, b, s) \<longrightarrow> jump_table_of s = jt \<and> (rc = 0 \<or> rc = -1))"

lemma jt_rules:
  "jump_table_of s = jt \<Longrightarrow> rc = 0 \<or> rc = -1 \<Longrightarrow> jt_post jt (Some (rc, b, s))"
  "(\<And>x. mx = Some x \<Longrightarrow> jt_post jt (f x)) \<Longrightarrow> jt_post jt (mx \<bind> f)"
  "jt_post jt m1 \<Longrightarrow> (\<And>x. mx = Some x \<Longrightarrow> jt_post jt (f x)) \<Longrightarrow> jt_post jt (case mx of None \<Rightarrow> m1 | Some x \<Rightarrow> f x)"
  "(\<And>x y. z = (x, y) \<Longrightarrow> jt_post jt (g x y)) \<Longrightarrow> jt_post jt (case z of (x, y) \<Rightarrow> g x y)"
  "jt_post jt m1 \<Longrightarrow> jt_post jt m2 \<Longrightarrow> jt_post jt (case c of True \<Rightarrow> m1 | False \<Rightarrow> m2)"
  "jt_post jt m1 \<Longrightarrow> jt_post jt m2 \<Longrightarrow> jt_post jt (if c then m1 else m2)"
  "(\<And>ts. r = TypesDone ts \<Longrightarrow> jt_post jt (g1 ts)) \<Longrightarrow> (\<And>ts. r = TypesShort ts \<Longrightarrow> jt_post jt (g2 ts)) \<Longrightarrow> jt_post jt m1 \<Longrightarrow>
    jt_post jt (case r of TypesDone ts \<Rightarrow> g1 ts | TypesShort ts \<Rightarrow> g2 ts | TypesError \<Rightarrow> m1)"
  by (auto simp: jt_post_def bind_eq_Some_conv split: option.split prod.split bool.split types_result.split)

lemma get_label_id_jump: "dalvik_label_get_label_id l ls = (i, ls') \<Longrightarrow> dalvik_label_jump_table ls' = dalvik_label_jump_table ls"
  by (auto simp: get_label_id_chain split: option.splits if_splits)

lemma label_jt: "get_label_id l s = (lid, s') \<Longrightarrow> jump_table_of s' = jump_table_of s"
  by (auto simp: get_label_id_def split: prod.splits dest: get_label_id_jump)

lemma object_path_jt: "object_path e s = Some (k, rest, s') \<Longrightarrow> jump_table_of s' = jump_table_of s"
  by (auto simp: object_path_def split: option.splits sum.splits)

lemma method_address_jt: "method_address e s = Some (m, rest, s') \<Longrightarrow> jump_table_of s' = jump_table_of s"
  by (auto simp: method_address_def split: option.splits sum.splits)

lemma read_type_jt: "read_type kw e s = Some (t, s') \<Longrightarrow> jump_table_of s' = jump_table_of s"
  by (auto simp: read_type_def bind_eq_Some_conv)

lemma types_loop_jt: "types_loop kw n e s arr = Some (r, s') \<Longrightarrow> jump_table_of s' = jump_table_of s"
proof (induction n arbitrary: e s arr)
  case (Suc n)
  then show ?case by (auto simp: bind_eq_Some_conv dest!: read_type_jt split: option.splits)
qed simp

lemma packed_loop_jt: "packed_loop e s t = (r, s') \<Longrightarrow> jump_table_of s' = jump_table_of s"
proof (induction e s t rule: packed_loop.induct)
  case (1 e s t)
  show ?case
  proof (cases "e = SNil \<or> lit_rest e = None")
    case True
    then show ?thesis using "1.prems" by (auto simp: packed_loop.simps [of e] split: if_splits)
  next
    case False
    then obtain k rest where k: "e \<noteq> SNil" "lit_rest e = Some (k, rest)" by auto
    obtain lid s1 where l: "get_label_id k s = (lid, s1)" by fastforce
    show ?thesis using "1.prems" "1.IH" [OF k refl l [symmetric]] label_jt [OF l]
      by (subst (asm) packed_loop.simps) (auto simp: k l split: if_splits)
  qed
qed

lemma sparse_loop_jt: "sparse_loop kw e s t = Some (r, s') \<Longrightarrow> jump_table_of s' = jump_table_of s"
proof (induction kw e s t rule: sparse_loop.induct)
  case (1 kw e s t)
  show ?case
  proof (cases "\<exists>this rest cond label cit. e \<noteq> SNil \<and> list_rest e = Some (this, rest) \<and> lit2 this = Some (cond, label) \<and>
      DI_INSNUM (snd (get_label_id label s)) cond = Some cit")
    case True
    then obtain this rest cond label cit where k: "e \<noteq> SNil" "list_rest e = Some (this, rest)" "lit2 this = Some (cond, label)"
      "DI_INSNUM (snd (get_label_id label s)) cond = Some cit" by blast
    obtain lid s1 where l: "get_label_id label s = (lid, s1)" by fastforce
    have d: "DI_INSNUM s1 cond = Some cit" using k(4) l by simp
    show ?thesis using "1.prems" "1.IH" [OF k(1,2) refl k(3) refl l [symmetric] d] label_jt [OF l]
      by (subst (asm) sparse_loop.simps) (auto simp: k(1-3) l d split: if_splits)
  next
    case False
    with "1.prems" show ?thesis
      by (subst (asm) sparse_loop.simps) (auto split: if_splits option.splits prod.splits dest!: label_jt)
  qed
qed

lemmas jt_dests = label_jt object_path_jt method_address_jt read_type_jt types_loop_jt packed_loop_jt sparse_loop_jt

lemma if_label_jt: "jt_post (jump_table_of s) (if_label kw how e b s)"
  unfolding if_label_def by (intro jt_rules) (auto dest!: jt_dests)

lemma field_jt: "jt_post (jump_table_of s) (setup_field kw i e b s)"
  unfolding setup_field_def by (intro jt_rules) (auto dest!: jt_dests)

lemma signature_jt: "jt_post (jump_table_of s) (setup_signature kw cleared extra e b s)"
  unfolding setup_signature_def Let_def by (intro jt_rules) (auto dest!: jt_dests)

lemma jt_same: "jt_post (jump_table_of s') m \<Longrightarrow> jump_table_of s' = jt \<Longrightarrow> jt_post jt m"
  by simp

lemma range_jt: "jt_post (jump_table_of s) (invoke_range kw e b s)"
  unfolding invoke_range_def Let_def by (intro jt_rules signature_jt [THEN jt_same]) (auto dest!: jt_dests)

lemma INVOKE_jt: "jt_post (jump_table_of s) (dalvik_instruction_INVOKE kw e b s)"
  unfolding dalvik_instruction_INVOKE_def Let_def by (intro jt_rules signature_jt [THEN jt_same] range_jt) (auto dest!: jt_dests)

lemma arithmetic_jt: "jt_post (jump_table_of s) (arithmetic_loop fls i e b s)"
  by (induction fls arbitrary: i e b) (auto intro!: jt_rules split: option.split)

lemma UINVOKE_jt: "jt_post (jump_table_of s) (dalvik_instruction_UINVOKE kw e b s)"
  using INVOKE_jt by (fastforce simp: dalvik_instruction_UINVOKE_def jt_post_def bind_eq_Some_conv split: option.splits)

lemma object_operations_jt: "jt_post (jump_table_of s) (dalvik_instruction_setup_object_operations kw opc fl e b s)"
  unfolding dalvik_instruction_setup_object_operations_def Let_def by (intro jt_rules field_jt [THEN jt_same]) auto

lemma binary_jt: "jt_post (jump_table_of s) (dalvik_instruction_setup_binary_operator kw fl e b s)"
  unfolding dalvik_instruction_setup_binary_operator_def Let_def by (intro jt_rules) auto

lemma plain_jt:
  "jt_post (jump_table_of s) (dalvik_instruction_NOP kw e b s)" "jt_post (jump_table_of s) (dalvik_instruction_MOVE kw e b s)"
  "jt_post (jump_table_of s) (dalvik_instruction_RETURN kw e b s)" "jt_post (jump_table_of s) (dalvik_instruction_CONST kw e b s)"
  "jt_post (jump_table_of s) (dalvik_instruction_MONITOR kw e b s)" "jt_post (jump_table_of s) (dalvik_instruction_CHECK kw e b s)"
  "jt_post (jump_table_of s) (dalvik_instruction_THROW kw e b s)" "jt_post (jump_table_of s) (dalvik_instruction_GOTO kw e b s)"
  "jt_post (jump_table_of s) (dalvik_instruction_PACKED kw e b s)" "jt_post (jump_table_of s) (dalvik_instruction_SPARSE kw e b s)"
  "jt_post (jump_table_of s) (dalvik_instruction_CMP kw e b s)" "jt_post (jump_table_of s) (dalvik_instruction_IF kw e b s)"
  "jt_post (jump_table_of s) (dalvik_instruction_INSTANCE kw e b s)" "jt_post (jump_table_of s) (dalvik_instruction_NEW kw e b s)"
  "jt_post (jump_table_of s) (dalvik_instruction_DATA kw e b s)"
  unfolding dalvik_instruction_NOP_def dalvik_instruction_MOVE_def dalvik_instruction_RETURN_def dalvik_instruction_CONST_def
    dalvik_instruction_MONITOR_def dalvik_instruction_CHECK_def dalvik_instruction_THROW_def dalvik_instruction_GOTO_def
    dalvik_instruction_PACKED_def dalvik_instruction_SPARSE_def dalvik_instruction_CMP_def dalvik_instruction_IF_def
    dalvik_instruction_INSTANCE_def dalvik_instruction_NEW_def dalvik_instruction_DATA_def Let_def
  by (intro jt_rules if_label_jt; auto dest!: jt_dests)+

lemma from_sexp_jt:
  assumes "dalvik_instruction_from_sexp kw e b line s = Some (rc, b', s')"
  shows "jump_table_of s' = jump_table_of s \<and> (rc = 0 \<or> rc = -1)"
proof -
  have "jt_post (jump_table_of s) (dalvik_instruction_dispatch kw k rest b s)" for k rest
    unfolding dalvik_instruction_dispatch_def binop_defs dalvik_instruction_IGET_def dalvik_instruction_IPUT_def
      dalvik_instruction_SGET_def dalvik_instruction_SPUT_def dalvik_instruction_AGET_def dalvik_instruction_APUT_def
      dalvik_instruction_NEG_def dalvik_instruction_NOT_def dalvik_instruction_INT_def dalvik_instruction_LONG_def
      dalvik_instruction_FLOAT_def dalvik_instruction_DOUBLE_def dalvik_instruction_convert_operator_def
      dalvik_instruction_setup_arithmetic_def dalvik_instruction_ARRAY_def dalvik_instruction_FILLED_def
    by (intro jt_rules plain_jt INVOKE_jt UINVOKE_jt object_operations_jt binary_jt arithmetic_jt) auto
  then show ?thesis using assms
    by (fastforce simp: dalvik_instruction_from_sexp_def jt_post_def bind_eq_Some_conv split: if_splits option.splits)
qed

end
