(* ===== verification/Dalvik_Method.thy ===== *)
theory Dalvik_Method
  imports Dalvik_Instruction_Labels
begin

text \<open>
  The reader of methods (\<^verbatim>\<open>src/dalvik/dalvik_method.c\<close>): the head of a method with the types of its
  arguments, and its body, whose statements are pseudo-instructions (lines, labels, exception handlers)
  and instructions. The instructions of a method are appended to the instruction pool and chained; the
  labels in front of an instruction are set to it in the jump table, and the handlers whose range has been
  entered are attached to it.

  The state of the reader is the string pool and the label table, the exception module and the instruction
  pool. A member of the structure that the code leaves uninitialised is \<^const>\<open>None\<close>; a missing path or
  file name, for which the code stores a fixed text, is \<^const>\<open>None\<close> too. The outer
  \<^const>\<open>None\<close> of an operation is a write outside of an array or the use of such a member.
\<close>

subsection \<open>Data\<close>

record dalvik_method =
  dm_name :: nat
  dm_path :: "nat option"
  dm_file :: "nat option"
  dm_return_type :: "dalvik_type option option"
  dm_num_args :: nat
  dm_num_regs :: "16 word option"
  dm_entry :: "u32 option"
  dm_args_type :: "dalvik_type list"

record method_state =
  ms_reader :: reader
  ms_exceptions :: exception_state
  ms_pool :: instruction_pool

definition DALVIK_METHOD_LABEL_STACK_SIZE :: nat where "DALVIK_METHOD_LABEL_STACK_SIZE = 32"
definition DALVIK_MAX_CATCH_BLOCK :: nat where "DALVIK_MAX_CATCH_BLOCK = 1024"

text \<open>A handler of the method with the numbers of the labels of its range; \<open>hr_st\<close> tells which of them have been seen.\<close>

record handler_range_state =
  hr_handler :: exception_handler
  hr_from :: int
  hr_to :: int
  hr_st :: nat

text \<open>The local variables of the loop over the body, with the members of the method that it writes.\<close>

record body_state =
  bd_num_regs :: "16 word option"
  bd_entry :: "u32 option"
  bd_line :: int
  bd_last :: u32
  bd_label_stack :: "int list"
  bd_handlers :: "handler_range_state list"
  bd_ehset :: "exception_handler list"
  bd_st :: method_state

abbreviation bd_reader :: "body_state \<Rightarrow> reader" where "bd_reader b \<equiv> ms_reader (bd_st b)"
abbreviation bd_pool :: "body_state \<Rightarrow> instruction_pool" where "bd_pool b \<equiv> ms_pool (bd_st b)"

text \<open>A statement of the body ends with the next state, with the error exit, or with undefined behaviour.\<close>

type_synonym step_result = "(bool \<times> body_state) option"

subsection \<open>Labels\<close>

definition handler_seen :: "int \<Rightarrow> handler_range_state \<Rightarrow> handler_range_state" where
  "handler_seen lid h =
     (if lid = hr_from h \<and> hr_st h = 0 then h\<lparr>hr_st := 1\<rparr>
      else if lid = hr_to h \<and> hr_st h = 1 then h\<lparr>hr_st := 2\<rparr>
      else h)"

definition body_label :: "nat \<Rightarrow> body_state \<Rightarrow> step_result" where
  "body_label arg b =
     (let ls = rd_labels (bd_reader b);
          exists = (dalvik_label_exists arg ls \<noteq> 0);
          (lid, ls) = dalvik_label_get_label_id arg ls;
          st = (bd_st b)\<lparr>ms_reader := (bd_reader b)\<lparr>rd_labels := ls\<rparr>\<rparr>
      in if exists \<and> dalvik_label_jump_table ls (nat lid) \<noteq> 0xffffffff then Some (False, b\<lparr>bd_st := st\<rparr>)
         else if lid < -1 then Some (False, b\<lparr>bd_st := st\<rparr>)
         else let stack = (if length (bd_label_stack b) < DALVIK_METHOD_LABEL_STACK_SIZE then bd_label_stack b @ [lid] else bd_label_stack b);
                  handlers = map (handler_seen lid) (bd_handlers b);
                  enabled = map hr_handler (filter (\<lambda>h. hr_st h = 1) handlers);
                  b = b\<lparr>bd_st := st, bd_label_stack := stack, bd_handlers := handlers\<rparr>
              in if length enabled > DALVIK_MAX_CATCH_BLOCK then Some (False, b)
                 else let (ehset, ex) = dalvik_exception_new_handler_set (length enabled) enabled (ms_exceptions st)
                      in Some (True, b\<lparr>bd_ehset := ehset, bd_st := st\<lparr>ms_exceptions := ex\<rparr>\<rparr>))"

subsection \<open>Handlers\<close>

definition body_catch :: "nat list \<Rightarrow> sexp \<Rightarrow> body_state \<Rightarrow> step_result" where
  "body_catch kw this_smt b =
     (if length (bd_handlers b) \<ge> DALVIK_MAX_CATCH_BLOCK then None
      else case dalvik_exception_handler_from_sexp kw this_smt (rd_pool (bd_reader b)) (rd_labels (bd_reader b)) (ms_exceptions (bd_st b)) of
             None \<Rightarrow> None
           | Some (h, p, ls, ex) \<Rightarrow>
               (let b = b\<lparr>bd_st := (bd_st b)\<lparr>ms_reader := \<lparr>rd_pool = p, rd_labels = ls\<rparr>, ms_exceptions := ex\<rparr>\<rparr>
                in case h of
                     None \<Rightarrow> Some (True, b)
                   | Some (handler, from, to) \<Rightarrow>
                       (let hs = bd_handlers b @ [\<lparr>hr_handler = handler, hr_from = from, hr_to = to, hr_st = 0\<rparr>];
                            b = b\<lparr>bd_handlers := hs\<rparr>
                        in Some (\<not> DALVIK_MAX_CATCH_BLOCK < length hs, b))))"

subsection \<open>Instructions\<close>

text \<open>The jump table is set for every label of the stack; the number \<open>-1\<close> is outside of it.\<close>

fun set_labels :: "int list \<Rightarrow> u32 \<Rightarrow> label_state \<Rightarrow> label_state option" where
  "set_labels [] inst ls = Some ls"
| "set_labels (lid # stack) inst ls =
     (if lid < 0 then None
      else set_labels stack inst (ls\<lparr>dalvik_label_jump_table := (dalvik_label_jump_table ls)(nat lid := inst)\<rparr>))"

text \<open>The pointer to the instruction is used before it is compared with null.\<close>

definition body_instruction :: "nat list \<Rightarrow> nat \<Rightarrow> sexp \<Rightarrow> body_state \<Rightarrow> step_result" where
  "body_instruction kw method this_smt b = do {
     (inst, ip) \<leftarrow> dalvik_instruction_new (bd_pool b);
     inst \<leftarrow> inst;
     (rc, cell, rd) \<leftarrow> dalvik_instruction_from_sexp kw this_smt ((ip_cells ip ! inst)\<lparr>ins_method := Some method\<rparr>) (bd_line b) (bd_reader b);
     let ip = ip\<lparr>ip_cells := (ip_cells ip)[inst := cell]\<rparr>;
     let b = b\<lparr>bd_st := (bd_st b)\<lparr>ms_reader := rd, ms_pool := ip\<rparr>\<rparr>;
     if rc < 0 then Some (False, b)
     else do {
       let idx = dalvik_instruction_get_index inst;
       (ip, entry) \<leftarrow> (if DALVIK_INSTRUCTION_INVALID = bd_last b then Some (ip, Some idx)
                      else do { ip \<leftarrow> dalvik_instruction_set_next (bd_last b) inst ip; Some (ip, bd_entry b) });
       let ip = ip\<lparr>ip_cells := (ip_cells ip)[inst := (ip_cells ip ! inst)\<lparr>ins_handler_set := bd_ehset b\<rparr>]\<rparr>;
       ls \<leftarrow> set_labels (bd_label_stack b) idx (rd_labels rd);
       Some (True, b\<lparr>bd_entry := entry, bd_last := idx, bd_label_stack := [],
         bd_st := (bd_st b)\<lparr>ms_reader := rd\<lparr>rd_labels := ls\<rparr>, ms_pool := ip\<rparr>\<rparr>) } }"

subsection \<open>The body\<close>

definition limit_registers :: "nat list \<Rightarrow> sexp \<Rightarrow> nat option" where
  "limit_registers kw e =
     (case sexp_match e ''(L=L=L?'' [DALVIK_TOKEN_LIMIT kw, DALVIK_TOKEN_REGISTERS kw, 0] of (True, vs) \<Rightarrow> Some (out_addr vs 2) | _ \<Rightarrow> None)"

definition body_statement :: "nat list \<Rightarrow> nat \<Rightarrow> sexp \<Rightarrow> body_state \<Rightarrow> step_result" where
  "body_statement kw method this_smt b =
     (case limit_registers kw this_smt of
        Some arg \<Rightarrow> do { n \<leftarrow> DI_INSNUM (bd_reader b) arg; Some (True, b\<lparr>bd_num_regs := Some (of_int n)\<rparr>) }
      | None \<Rightarrow>
     (case key_lit (DALVIK_TOKEN_LINE kw) this_smt of
        Some arg \<Rightarrow> do { n \<leftarrow> DI_INSNUM (bd_reader b) arg; Some (True, b\<lparr>bd_line := n\<rparr>) }
      | None \<Rightarrow>
     (case key_lit (DALVIK_TOKEN_LABEL kw) this_smt of
        Some arg \<Rightarrow> body_label arg b
      | None \<Rightarrow>
          if key_rest (DALVIK_TOKEN_ANNOTATION kw) this_smt \<noteq> None then Some (True, b)
          else if key_rest (DALVIK_TOKEN_CATCH kw) this_smt \<noteq> None \<or> key_rest (DALVIK_TOKEN_CATCHALL kw) this_smt \<noteq> None
          then body_catch kw this_smt b
          else if key_rest (DALVIK_TOKEN_FILL kw) this_smt \<noteq> None then Some (True, b)
          else body_instruction kw method this_smt b)))"

function body_loop :: "nat list \<Rightarrow> nat \<Rightarrow> sexp \<Rightarrow> body_state \<Rightarrow> step_result" where
  "body_loop kw method body b =
     (if body = SNil then Some (True, b)
      else case list_rest body of
             None \<Rightarrow> Some (False, b)
           | Some (this_smt, body) \<Rightarrow>
               (case body_statement kw method this_smt b of
                  None \<Rightarrow> None
                | Some (ok, b) \<Rightarrow> if ok then body_loop kw method body b else Some (False, b)))"
  by pat_completeness auto
termination
  by (relation "measure (\<lambda>(kw, m, e, b). size e)") (auto dest: list_rest_size)

declare body_loop.simps [simp del]

subsection \<open>Methods\<close>

primrec args_loop :: "nat list \<Rightarrow> nat \<Rightarrow> sexp \<Rightarrow> dalvik_type list \<Rightarrow> reader \<Rightarrow> (bool \<times> dalvik_type list \<times> reader) option" where
  "args_loop kw 0 arglist ts s = Some (True, ts, s)"
| "args_loop kw (Suc n) arglist ts s =
     (if arglist = SNil then Some (True, ts, s)
      else case any_rest arglist of
             None \<Rightarrow> Some (False, ts, s)
           | Some (this_arg, arglist) \<Rightarrow> do {
               (t, s) \<leftarrow> read_type kw this_arg s;
               (case t of None \<Rightarrow> Some (False, ts, s) | Some t \<Rightarrow> args_loop kw n arglist (ts @ [t]) s) })"

text \<open>The error exit releases the method, which reads the return type.\<close>

definition dalvik_method_free :: "dalvik_method \<Rightarrow> unit option" where
  "dalvik_method_free method = (case dm_return_type method of None \<Rightarrow> None | Some _ \<Rightarrow> Some ())"

definition method_error :: "dalvik_method \<Rightarrow> method_state \<Rightarrow> (dalvik_method option \<times> method_state) option" where
  "method_error method st = do { dalvik_method_free method; Some (None, st) }"

definition body_start :: "method_state \<Rightarrow> body_state" where
  "body_start st = \<lparr>bd_num_regs = None, bd_entry = None, bd_line = 0, bd_last = DALVIK_INSTRUCTION_INVALID, bd_label_stack = [],
     bd_handlers = [], bd_ehset = [], bd_st = st\<rparr>"

text \<open>\<open>maddr\<close> is the address that the method gets.\<close>

definition dalvik_method_from_sexp ::
  "nat list \<Rightarrow> sexp \<Rightarrow> nat option \<Rightarrow> nat option \<Rightarrow> nat \<Rightarrow> method_state \<Rightarrow> (dalvik_method option \<times> method_state) option" where
  "dalvik_method_from_sexp kw e class_path file maddr st =
     (if e = SNil then Some (None, st)
      else case sexp_match e ''(L=C?L?C?_?A'' [DALVIK_TOKEN_METHOD kw, 0, 0, 0, 0, 0] of
             (True, vs) \<Rightarrow>
               if dalvik_attrs_from_sexp kw (out_sexp vs 1) < 0 then Some (None, st)
               else do {
                 let num_args = sexp_length (out_sexp vs 3);
                 (ok, ts, rd) \<leftarrow> args_loop kw num_args (out_sexp vs 3) [] (ms_reader st);
                 let st = st\<lparr>ms_reader := rd\<rparr>;
                 let method = \<lparr>dm_name = out_addr vs 2, dm_path = class_path, dm_file = file, dm_return_type = None,
                   dm_num_args = num_args, dm_num_regs = None, dm_entry = None, dm_args_type = ts\<rparr>;
                 if \<not> ok then method_error method st
                 else do {
                   (rtype, rd) \<leftarrow> read_type kw (out_sexp vs 4) (ms_reader st);
                   let st = st\<lparr>ms_reader := rd\<rparr>;
                   let method = method\<lparr>dm_return_type := Some rtype\<rparr>;
                   if rtype = None then method_error method st
                   else do {
                     (ok, b) \<leftarrow> body_loop kw maddr (out_sexp vs 5) (body_start st);
                     let method = method\<lparr>dm_num_regs := bd_num_regs b, dm_entry := bd_entry b\<rparr>;
                     if ok then Some (Some method, bd_st b) else method_error method (bd_st b) } } }
           | _ \<Rightarrow> Some (None, st))"

subsection \<open>The chain of instructions\<close>

text \<open>
  The invariant of the loop over the body: the instructions that it has appended to the pool belong to the
  method and are chained in order, the first is the entry and the last is remembered; the older part of the
  pool is as it was; labels that have been set lead to instructions of the method.
\<close>

definition chained :: "nat \<Rightarrow> nat \<Rightarrow> instruction list \<Rightarrow> bool" where
  "chained method n0 new \<longleftrightarrow> (\<forall>i < length new. ins_method (new ! i) = Some method \<and>
     ins_next (new ! i) = (if Suc i = length new then DALVIK_INSTRUCTION_INVALID else of_nat (n0 + Suc i)) \<and>
     length (ins_operands (new ! i)) = 16 \<and> (ins_opcode (new ! i) = DVM_SWITCH \<longrightarrow> switch_shape (new ! i)))"

definition placed :: "jump_table \<Rightarrow> nat \<Rightarrow> nat \<Rightarrow> jump_table \<Rightarrow> bool" where
  "placed jt0 n0 n jt \<longleftrightarrow> (\<forall>l. jt l \<noteq> jt0 l \<longrightarrow> (\<exists>i < n. jt l = of_nat (n0 + i)))"

definition body_inv :: "instruction list \<Rightarrow> nat \<Rightarrow> jump_table \<Rightarrow> instruction list \<Rightarrow> body_state \<Rightarrow> bool" where
  "body_inv cells0 method jt0 new b \<longleftrightarrow>
     ip_cells (bd_pool b) = cells0 @ new \<and> chained method (length cells0) new \<and>
     bd_last b = (if new = [] then DALVIK_INSTRUCTION_INVALID else of_nat (length cells0 + length new - 1)) \<and>
     bd_entry b = (if new = [] then None else Some (of_nat (length cells0))) \<and>
     placed jt0 (length cells0) (length new) (jump_table_of (bd_reader b))"

lemma set_labels_jump:
  "set_labels stack inst ls = Some ls' \<Longrightarrow>
     dalvik_label_jump_table ls' l = (if int l \<in> set stack then inst else dalvik_label_jump_table ls l)"
proof (induction stack arbitrary: ls)
  case (Cons lid stack)
  then have "0 \<le> lid" by (simp split: if_splits)
  then show ?case using Cons by (auto split: if_splits)
qed simp

lemma new_cell:
  "dalvik_instruction_new ip = Some (Some i, ip') \<Longrightarrow> i = length (ip_cells ip) \<and> ip_cells ip' = ip_cells ip @ [instruction_zero]"
  by (auto simp: dalvik_instruction_new_def dalvik_instruction_pool_resize_def split: if_splits)

lemma chained_append:
  assumes "chained method n0 new" "ins_method c = Some method" "ins_next c = DALVIK_INSTRUCTION_INVALID"
    and "length (ins_operands c) = 16" "ins_opcode c = DVM_SWITCH \<longrightarrow> switch_shape c" "new \<noteq> []"
  shows "chained method n0 (new[length new - 1 := (last new)\<lparr>ins_next := of_nat (n0 + length new)\<rparr>] @ [c])"
proof (cases new rule: rev_cases)
  case (snoc ys y)
  then show ?thesis using assms by (auto simp: chained_def nth_append less_Suc_eq switch_shape_def)
qed (use assms in simp)

lemma placed_mono: "placed jt0 n0 n jt \<Longrightarrow> n \<le> m \<Longrightarrow> placed jt0 n0 m jt"
  unfolding placed_def by (meson less_le_trans)

lemma placed_set:
  assumes "placed jt0 n0 n (dalvik_label_jump_table ls)" "set_labels stack (of_nat (n0 + n)) ls = Some ls'"
  shows "placed jt0 n0 (Suc n) (dalvik_label_jump_table ls')"
  using assms(1) unfolding placed_def set_labels_jump [OF assms(2)] by (auto intro: less_SucI)

lemma last_index:
  assumes "n0 + n < 2 ^ 32" "0 < n"
  shows "unat (of_nat (n0 + n - 1) :: u32) = n0 + n - 1" "(of_nat (n0 + n - 1) :: u32) \<noteq> DALVIK_INSTRUCTION_INVALID"
proof -
  show u: "unat (of_nat (n0 + n - 1) :: u32) = n0 + n - 1"
    using assms by (subst unat_of_nat) (simp add: take_bit_nat_eq_self_iff)
  show "(of_nat (n0 + n - 1) :: u32) \<noteq> DALVIK_INSTRUCTION_INVALID"
  proof
    assume "(of_nat (n0 + n - 1) :: u32) = DALVIK_INSTRUCTION_INVALID"
    then have "n0 + n - 1 = unat DALVIK_INSTRUCTION_INVALID" using u by simp
    then show False using assms by (simp add: DALVIK_INSTRUCTION_INVALID_def)
  qed
qed

text \<open>One instruction is appended and linked.\<close>

lemma body_instruction_step:
  assumes inv: "body_inv cells0 method jt0 new b" and step: "body_instruction kw method e b = Some (True, b')"
    and bound: "length cells0 + length new < 2 ^ 32"
  shows "\<exists>new'. length new' = Suc (length new) \<and> body_inv cells0 method jt0 new' b'"
proof -
  let ?k = "length cells0" and ?n = "length new"
  obtain inst ip where new: "dalvik_instruction_new (bd_pool b) = Some (Some inst, ip)"
    using step by (auto simp: body_instruction_def bind_eq_Some_conv)
  have inst: "inst = ?k + ?n" "ip_cells ip = cells0 @ new @ [instruction_zero]"
    using new_cell [OF new] inv by (simp_all add: body_inv_def)
  let ?zero = "instruction_zero\<lparr>ins_method := Some method\<rparr>"
  obtain rc cell rd where read: "dalvik_instruction_from_sexp kw e ?zero (bd_line b) (bd_reader b) = Some (rc, cell, rd)"
    using step by (auto simp: body_instruction_def bind_eq_Some_conv new inst)
  have rc: "rc = 0" and jt: "jump_table_of rd = jump_table_of (bd_reader b)"
    using from_sexp_jt [OF read] step by (auto simp: body_instruction_def new inst read)
  have fr: "inst_frame cell = inst_frame ?zero" using frame.from_sexp_typed [OF refl _ read] rc by simp
  then have cell: "ins_method cell = Some method" "ins_next cell = DALVIK_INSTRUCTION_INVALID" "length (ins_operands cell) = 16"
    by (simp_all add: inst_frame_def instruction_zero_def)
  have sw: "ins_opcode cell = DVM_SWITCH \<longrightarrow> switch_shape cell"
    using from_sexp_switch read rc by (auto simp: instruction_zero_def)
  let ?c = "cell\<lparr>ins_handler_set := bd_ehset b\<rparr>"
  have c: "ins_method ?c = Some method" "ins_next ?c = DALVIK_INSTRUCTION_INVALID" "length (ins_operands ?c) = 16" "ins_opcode ?c = DVM_SWITCH \<longrightarrow> switch_shape ?c"
    using cell sw by (simp_all add: switch_shape_def)
  show ?thesis
  proof (cases "new = []")
    case True
    then have l: "bd_last b = DALVIK_INSTRUCTION_INVALID" using inv by (simp add: body_inv_def)
    obtain ls where ls: "set_labels (bd_label_stack b) (of_nat ?k) (rd_labels rd) = Some ls"
      and b': "ip_cells (bd_pool b') = cells0 @ [?c]" "bd_last b' = of_nat ?k" "bd_entry b' = Some (of_nat ?k)" "rd_labels (bd_reader b') = ls"
      using step by (auto simp: body_instruction_def new inst read rc l True dalvik_instruction_get_index_def bind_eq_Some_conv Let_def)
    have "placed jt0 ?k (Suc 0) (jump_table_of (bd_reader b'))"
      using placed_set [of jt0 ?k 0 "rd_labels rd"] ls inv jt True b'(4) by (simp add: body_inv_def)
    then have "body_inv cells0 method jt0 [?c] b'" using b' c by (simp add: body_inv_def chained_def)
    then show ?thesis using True by (intro exI [of _ "[?c]"]) simp
  next
    case False
    then have l: "bd_last b = of_nat (?k + ?n - 1)" using inv by (simp add: body_inv_def)
    have ge: "\<not> ?k + ?n - Suc 0 < ?k" using False by (cases new) auto
    note li = last_index [of ?k ?n, OF bound]
    let ?new = "new[?n - 1 := (last new)\<lparr>ins_next := of_nat (?k + ?n)\<rparr>] @ [?c]"
    obtain ls where ls: "set_labels (bd_label_stack b) (of_nat (?k + ?n)) (rd_labels rd) = Some ls"
      and b': "ip_cells (bd_pool b') = cells0 @ ?new" "bd_last b' = of_nat (?k + ?n)" "bd_entry b' = bd_entry b" "rd_labels (bd_reader b') = ls"
      using step li ge False
      by (auto simp: body_instruction_def new inst read rc l dalvik_instruction_get_index_def dalvik_instruction_set_next_def
          bind_eq_Some_conv Let_def nth_append list_update_append last_conv_nth split: if_splits)
    have "placed jt0 ?k (Suc ?n) (jump_table_of (bd_reader b'))"
      using placed_set [of jt0 ?k ?n "rd_labels rd"] ls inv jt b'(4) by (simp add: body_inv_def)
    moreover have "chained method ?k ?new" using inv c False by (intro chained_append) (auto simp: body_inv_def)
    ultimately have "body_inv cells0 method jt0 ?new b'" using b' inv False by (simp add: body_inv_def)
    then show ?thesis by (intro exI [of _ ?new]) simp
  qed
qed

text \<open>The other statements do not touch the pool or the jump table.\<close>

definition same_code :: "body_state \<Rightarrow> body_state \<Rightarrow> bool" where
  "same_code b b' \<longleftrightarrow> bd_pool b' = bd_pool b \<and> bd_last b' = bd_last b \<and> bd_entry b' = bd_entry b \<and>
     jump_table_of (bd_reader b') = jump_table_of (bd_reader b)"

lemma same_code_inv: "same_code b b' \<Longrightarrow> body_inv cells0 method jt0 new b \<Longrightarrow> body_inv cells0 method jt0 new b'"
  by (simp add: same_code_def body_inv_def)

lemma body_label_same: "body_label arg b = Some (ok, b') \<Longrightarrow> same_code b b'"
  by (auto simp: body_label_def same_code_def Let_def dest!: get_label_id_jump split: prod.splits if_splits)

lemma handler_range_jump: "handler_range kw e x ls st = (r, ls', st') \<Longrightarrow> dalvik_label_jump_table ls' = dalvik_label_jump_table ls"
  by (auto simp: handler_range_def Let_def dest!: get_label_id_jump split: prod.splits if_splits)

lemma handler_from_sexp_jump:
  "dalvik_exception_handler_from_sexp kw e p ls st = Some (r, p', ls', st') \<Longrightarrow> dalvik_label_jump_table ls' = dalvik_label_jump_table ls"
  by (auto simp: dalvik_exception_handler_from_sexp_def Let_def dest!: handler_range_jump split: prod.splits if_splits option.splits sum.splits)

lemma body_catch_same: "body_catch kw e b = Some (ok, b') \<Longrightarrow> same_code b b'"
  by (auto simp: body_catch_def same_code_def Let_def dest!: handler_from_sexp_jump split: if_splits option.splits)

lemma body_statement_cases:
  assumes "body_statement kw method e b = Some (ok, b')"
  obtains "same_code b b'" | "body_instruction kw method e b = Some (ok, b')"
proof -
  have "same_code b b' \<or> body_instruction kw method e b = Some (ok, b')"
    using assms by (auto simp: body_statement_def same_code_def bind_eq_Some_conv split: option.splits if_splits
        dest: body_label_same [unfolded same_code_def] body_catch_same [unfolded same_code_def])
  then show ?thesis using that by blast
qed

lemma body_instruction_grows:
  assumes "body_instruction kw method e b = Some (ok, b')"
  shows "length (ip_cells (bd_pool b')) = Suc (length (ip_cells (bd_pool b)))"
  using assms by (auto simp: body_instruction_def bind_eq_Some_conv Let_def dalvik_instruction_set_next_def dest!: new_cell split: if_splits)

lemma body_statement_grows:
  "body_statement kw method e b = Some (ok, b') \<Longrightarrow> length (ip_cells (bd_pool b)) \<le> length (ip_cells (bd_pool b'))"
  by (erule body_statement_cases) (auto simp: same_code_def dest: body_instruction_grows)

lemma body_loop_step:
  assumes "body \<noteq> SNil" "list_rest body = Some (e, rest)" "body_statement kw method e b = Some (True, b1)"
  shows "body_loop kw method body b = body_loop kw method rest b1"
  using assms by (subst body_loop.simps) simp

lemma body_loop_success:
  assumes "body_loop kw method body b = Some (True, b')" "body \<noteq> SNil"
  obtains e rest b1 where "list_rest body = Some (e, rest)" "body_statement kw method e b = Some (True, b1)"
    "body_loop kw method rest b1 = Some (True, b')"
  using assms by (subst (asm) body_loop.simps) (auto split: option.splits prod.splits if_splits)

lemma body_loop_grows:
  "body_loop kw method body b = Some (True, b') \<Longrightarrow> length (ip_cells (bd_pool b)) \<le> length (ip_cells (bd_pool b'))"
proof (induction "size body" arbitrary: body b rule: less_induct)
  case less
  show ?case
  proof (cases "body = SNil")
    case True
    then show ?thesis using less.prems by (simp add: body_loop.simps)
  next
    case False
    from body_loop_success [OF less.prems False] obtain e rest b1 where r: "list_rest body = Some (e, rest)"
      "body_statement kw method e b = Some (True, b1)" "body_loop kw method rest b1 = Some (True, b')" .
    show ?thesis using less.hyps [OF list_rest_size [OF r(1)] r(3)] body_statement_grows [OF r(2)] by simp
  qed
qed

lemma body_loop_inv:
  assumes "body_loop kw method body b = Some (True, b')" "length (ip_cells (bd_pool b')) < 2 ^ 32" "body_inv cells0 method jt0 new b"
  shows "\<exists>new'. body_inv cells0 method jt0 new' b'"
  using assms
proof (induction "size body" arbitrary: body b new rule: less_induct)
  case less
  show ?case
  proof (cases "body = SNil")
    case True
    then show ?thesis using less.prems by (auto simp: body_loop.simps)
  next
    case False
    from body_loop_success [OF less.prems(1) False] obtain e rest b1 where r: "list_rest body = Some (e, rest)"
      "body_statement kw method e b = Some (True, b1)" "body_loop kw method rest b1 = Some (True, b')" .
    have "\<exists>new1. body_inv cells0 method jt0 new1 b1"
    proof (cases rule: body_statement_cases [OF r(2)])
      case 1
      then show ?thesis using same_code_inv less.prems(3) by blast
    next
      case 2
      have "length cells0 + length new < 2 ^ 32"
        using body_instruction_grows [OF 2] body_loop_grows [OF r(3)] less.prems(2,3) by (simp add: body_inv_def)
      then show ?thesis using body_instruction_step [OF less.prems(3) 2] by blast
    qed
    then show ?thesis using less.hyps [OF list_rest_size [OF r(1)] r(3) less.prems(2)] by blast
  qed
qed

lemma args_loop_jt: "args_loop kw n e ts s = Some (ok, ts', s') \<Longrightarrow> jump_table_of s' = jump_table_of s"
proof (induction n arbitrary: e ts s)
  case (Suc n)
  then show ?case by (auto simp: bind_eq_Some_conv dest!: read_type_jt split: option.splits if_splits)
qed simp

lemma method_chain:
  assumes "dalvik_method_from_sexp kw e class_path file maddr st = Some (Some m, st')" "length (ip_cells (ms_pool st')) < 2 ^ 32"
  defines "n0 \<equiv> length (ip_cells (ms_pool st))"
  shows "\<exists>new. ip_cells (ms_pool st') = ip_cells (ms_pool st) @ new \<and> chained maddr n0 new \<and>
    dm_entry m = (if new = [] then None else Some (of_nat n0)) \<and>
    placed (jump_table_of (ms_reader st)) n0 (length new) (jump_table_of (ms_reader st'))"
proof -
  obtain vs ts rd t rd' b where r: "args_loop kw (sexp_length (out_sexp vs 3)) (out_sexp vs 3) [] (ms_reader st) = Some (True, ts, rd)"
    "read_type kw (out_sexp vs 4) rd = Some (t, rd')"
    "body_loop kw maddr (out_sexp vs 5) (body_start (st\<lparr>ms_reader := rd'\<rparr>)) = Some (True, b)" "st' = bd_st b" "dm_entry m = bd_entry b"
    using assms(1) by (auto simp: dalvik_method_from_sexp_def method_error_def bind_eq_Some_conv Let_def split: if_splits prod.splits bool.splits)
  have jt: "jump_table_of rd' = jump_table_of (ms_reader st)"
    using args_loop_jt [OF r(1)] read_type_jt [OF r(2)] by simp
  have "body_inv (ip_cells (ms_pool st)) maddr (jump_table_of (ms_reader st)) [] (body_start (st\<lparr>ms_reader := rd'\<rparr>))"
    by (simp add: body_inv_def body_start_def chained_def placed_def jt)
  from body_loop_inv [OF r(3) _ this] assms(2) r(4) obtain new where
    "body_inv (ip_cells (ms_pool st)) maddr (jump_table_of (ms_reader st)) new b" by auto
  then show ?thesis using r(4,5) unfolding body_inv_def n0_def by auto
qed

text \<open>
  C19: when a method has been read, the instructions that were added to the pool are those of the method,
  chained in order from its entry; older instructions are as they were; every label that has been placed
  leads to one of the new instructions; and a switch has its table.
\<close>

theorem dalvik_method_from_sexp_chain:
  assumes "dalvik_method_from_sexp kw e class_path file maddr st = Some (Some m, st')" "length (ip_cells (ms_pool st')) < 2 ^ 32"
  defines "n0 \<equiv> length (ip_cells (ms_pool st))"
  shows "\<exists>new. ip_cells (ms_pool st') = ip_cells (ms_pool st) @ new \<and> chained maddr n0 new \<and>
    dm_entry m = (if new = [] then None else Some (of_nat n0)) \<and>
    placed (jump_table_of (ms_reader st)) n0 (length new) (jump_table_of (ms_reader st'))"
  unfolding n0_def by (rule method_chain [OF assms(1,2)])

subsection \<open>The block graph of a method that has been read\<close>

text \<open>
  What the builder of block graphs reads from an instruction, and the pool as it sees it. A cell that is
  not in use is read like an empty one. The number \<open>-1\<close> of a label that did not fit the label table has no
  counterpart in the builder.
\<close>

definition payload_of :: "operand \<Rightarrow> payload" where
  "payload_of o' =
     (case opr_payload o' of
        ONum n \<Rightarrow> if operand_type o' = DVM_OPERAND_TYPE_LABEL then PLabelid (nat (sint (ucast n :: u32))) else PInt32 (sint (ucast n :: u32))
      | OLabels v \<Rightarrow> PBranches (Some (map nat v))
      | OSparse v \<Rightarrow> PSparse (Some v)
      | _ \<Rightarrow> POther)"

definition block_inst :: "instruction \<Rightarrow> dalvik_instruction" where
  "block_inst c = \<lparr>opcode = ins_opcode c, flags = ins_flags c, inst_next = ins_next c, handler_set = ins_handler_set c,
     operands = map payload_of (ins_operands c)\<rparr>"

definition code_of :: "instruction_pool \<Rightarrow> inst_pool" where
  "code_of ip i = block_inst (case dalvik_instruction_get ip i of Some c \<Rightarrow> c | None \<Rightarrow> instruction_zero)"

lemma code_of_new:
  assumes "ip_cells ip = cells0 @ new" "length cells0 + length new < 2 ^ 32" "i < length new"
  shows "code_of ip (of_nat (length cells0) + of_nat i) = block_inst (new ! i)"
proof -
  have "unat (of_nat (length cells0 + i) :: u32) = length cells0 + i"
    using assms(2,3) by (subst unat_of_nat) (simp add: take_bit_nat_eq_self_iff)
  then have "dalvik_instruction_get ip (of_nat (length cells0 + i)) = Some (new ! i)"
    using assms(1,3) by (simp add: dalvik_instruction_get_def)
  then show ?thesis by (simp add: code_of_def)
qed

lemma switch_has_table:
  assumes "length (ins_operands c) = 16" "ins_opcode c = DVM_SWITCH \<longrightarrow> switch_shape c"
  shows "\<not> snd (inst_keys jt entry (block_inst c) i)"
proof (cases "ins_opcode c = DVM_SWITCH")
  case True
  then show ?thesis using assms
    by (auto simp: switch_shape_def inst_keys_def block_inst_def op_branches_def op_sparse_def payload_of_def
        DVM_FLAG_SWITCH_PACKED_def DVM_FLAG_SWITCH_SPARSE_def)
next
  case False
  then show ?thesis by (auto simp: inst_keys_def block_inst_def split: dalvik_opcode.splits)
qed

lemma chained_method_wf:
  assumes "ip_cells ip = cells0 @ new" "chained method (length cells0) new" "new \<noteq> []" "cells0 \<noteq> []"
    and "length cells0 + length new < 2 ^ 31" "placed jt0 (length cells0) (length new) jt"
    and "\<forall>c \<in> set new. \<not> empty_switch (block_inst c) \<and> (\<forall>l \<in> set (jump_labels (block_inst c)). jt l \<noteq> jt0 l)"
  shows "method_wf (code_of ip) jt (of_nat (length cells0)) (length new)"
proof -
  have len: "length cells0 + length new < 2 ^ 32" using assms(5) by simp
  have entry: "unat (of_nat (length cells0) :: u32) = length cells0"
    using assms(5) by (subst unat_of_nat) (simp add: take_bit_nat_eq_self_iff)
  have code: "code_of ip (of_nat (length cells0) + of_nat i) = block_inst (new ! i)" if "i < length new" for i
    using code_of_new [OF assms(1) len that] .
  have c: "inst_next (block_inst (new ! i)) = (if Suc i = length new then DALVIK_INSTRUCTION_INVALID else of_nat (length cells0) + of_nat (Suc i))"
    "\<not> snd (inst_keys jt entry (block_inst (new ! i)) k)" if "i < length new" for i entry k
    using assms(2) that switch_has_table [of "new ! i"] by (auto simp: chained_def block_inst_def)
  have "\<exists>k < length new. jt l = of_nat (length cells0) + of_nat k" if "i < length new" "l \<in> set (jump_labels (block_inst (new ! i)))" for i l
  proof -
    have "jt l \<noteq> jt0 l" using assms(7) that by (auto dest: nth_mem)
    then show ?thesis using assms(6) by (auto simp: placed_def)
  qed
  moreover have "\<not> empty_switch (block_inst (new ! i))" if "i < length new" for i using assms(7) that by (auto dest: nth_mem)
  ultimately show ?thesis using assms(3-5) entry c unfolding method_wf_def by (auto simp: code)
qed

lemma chained_switch_flags:
  assumes "ip_cells ip = cells0 @ new" "chained method (length cells0) new" "length cells0 + length new < 2 ^ 32"
    and "i < length new" "opcode (code_of ip (of_nat (length cells0) + of_nat i)) = DVM_SWITCH"
  shows "flags (code_of ip (of_nat (length cells0) + of_nat i)) \<in> {DVM_FLAG_SWITCH_PACKED, DVM_FLAG_SWITCH_SPARSE}"
  using assms(2,4,5) unfolding code_of_new [OF assms(1,3,4)] by (auto simp: chained_def block_inst_def switch_shape_def)


text \<open>A method with a label and a jump to it, for the witnesses.\<close>

definition example_method :: "nat list \<Rightarrow> nat \<Rightarrow> sexp" where
  "example_method kw k = mk_list (map (Pair (CHR '' ''))
     [SLit (DALVIK_TOKEN_METHOD kw), lits [DALVIK_TOKEN_ATTRS kw], SLit k, SNil, SLit (DALVIK_TOKEN_VOID kw),
      lits [DALVIK_TOKEN_LABEL kw, k], lits [DALVIK_TOKEN_NOP kw], lits [DALVIK_TOKEN_GOTO kw, k]])"

definition example_state :: "pool \<Rightarrow> method_state" where
  "example_state p = \<lparr>ms_reader = reader_of p, ms_exceptions = \<lparr>handler_vector = [], handler_set_vector = []\<rparr>,
     ms_pool = \<lparr>ip_allocated = True, ip_capacity = 1024, ip_cells = [instruction_zero]\<rparr>\<rparr>"

lemmas statement_simps = body_statement_def limit_registers_def key_lit_def key_rest_eq match_simps

lemma example_statements:
  assumes "tokens_ok kw p"
  shows "body_statement kw m (lits [DALVIK_TOKEN_LABEL kw, k]) b = body_label k b"
    "body_statement kw m (lits [DALVIK_TOKEN_NOP kw]) b = body_instruction kw m (lits [DALVIK_TOKEN_NOP kw]) b"
    "body_statement kw m (lits [DALVIK_TOKEN_GOTO kw, k]) b = body_instruction kw m (lits [DALVIK_TOKEN_GOTO kw, k]) b"
  by (simp_all add: statement_simps token_eq_iff [OF assms])

lemma example_instructions:
  assumes "tokens_ok kw p"
  shows "dalvik_instruction_from_sexp kw (lits [DALVIK_TOKEN_NOP kw]) c line s = Some (0, c\<lparr>ins_opcode := DVM_NOP, ins_num_operands := 0, ins_flags := 0, ins_line := line\<rparr>, s)"
    "k \<noteq> DALVIK_TOKEN_16 kw \<Longrightarrow> k \<noteq> DALVIK_TOKEN_32 kw \<Longrightarrow> get_label_id k s = (lid, s) \<Longrightarrow> length (ins_operands c) = 16 \<Longrightarrow>
      dalvik_instruction_from_sexp kw (lits [DALVIK_TOKEN_GOTO kw, k]) c line s =
      Some (0, c\<lparr>ins_opcode := DVM_GOTO, ins_num_operands := 1, ins_line := line, ins_operands := (ins_operands c)[0 := \<lparr>opr_flags =
         DVM_OPERAND_FLAG_TYPE DVM_OPERAND_TYPE_LABEL OR DVM_OPERAND_FLAG_CONST, opr_payload = ONum (of_int lid)\<rparr>]\<rparr>, s)"
  by (simp_all add: dalvik_instruction_from_sexp_def lit_rest_eq dalvik_instruction_dispatch_def token_eq_iff [OF assms]
      dalvik_instruction_NOP_def dalvik_instruction_GOTO_def sexp_strip_def lit_eq dalvik_instruction_operand_setup_def Let_def)

lemma example_label:
  "\<exists>ls. dalvik_label_get_label_id k (rd_labels (reader_of p)) = (0, ls) \<and>
     (\<forall>jt. dalvik_label_get_label_id k (ls\<lparr>dalvik_label_jump_table := jt\<rparr>) = (0, ls\<lparr>dalvik_label_jump_table := jt\<rparr>)) \<and>
     dalvik_label_jump_table ls = (\<lambda>_. -1) \<and> dalvik_label_exists k (rd_labels (reader_of p)) = 0"
  by (simp add: reader_of_def dalvik_label_get_label_id_def dalvik_label_exists_def chain_empty_def DAVLIK_LABEL_POOL_SIZE_def Let_def)

text \<open>How an instruction that can be read changes the state of the loop.\<close>

lemma body_instruction_run:
  assumes "length (ip_cells (bd_pool b)) < ip_capacity (bd_pool b)" "ip_allocated (bd_pool b)"
    and "dalvik_instruction_from_sexp kw e (instruction_zero\<lparr>ins_method := Some maddr\<rparr>) (bd_line b) (bd_reader b) = Some (0, c, rd)"
    and "set_labels (bd_label_stack b) (of_nat (length (ip_cells (bd_pool b)))) (rd_labels rd) = Some ls"
    and "cells = (if bd_last b = DALVIK_INSTRUCTION_INVALID then ip_cells (bd_pool b)
      else (ip_cells (bd_pool b))[unat (bd_last b) := (ip_cells (bd_pool b) ! unat (bd_last b))\<lparr>ins_next := of_nat (length (ip_cells (bd_pool b)))\<rparr>])"
    and "bd_last b \<noteq> DALVIK_INSTRUCTION_INVALID \<Longrightarrow> unat (bd_last b) < length (ip_cells (bd_pool b))"
  shows "body_instruction kw maddr e b = Some (True, b\<lparr>
    bd_entry := (if bd_last b = DALVIK_INSTRUCTION_INVALID then Some (of_nat (length (ip_cells (bd_pool b)))) else bd_entry b),
    bd_last := of_nat (length (ip_cells (bd_pool b))), bd_label_stack := [],
    bd_st := (bd_st b)\<lparr>ms_reader := rd\<lparr>rd_labels := ls\<rparr>,
      ms_pool := (bd_pool b)\<lparr>ip_cells := cells @ [c\<lparr>ins_handler_set := bd_ehset b\<rparr>]\<rparr>\<rparr>\<rparr>)"
  using assms
  by (simp add: body_instruction_def dalvik_instruction_new_def dalvik_instruction_set_next_def dalvik_instruction_get_index_def
      nth_append list_update_append Let_def split: if_splits)

lemma list_rest_lits: "list_rest (SCons d (lits (k # ks)) rest) = Some (lits (k # ks), rest)"
  by (simp add: list_rest_eq)

lemma zero_operands: "length (ins_operands (instruction_zero\<lparr>ins_method := m\<rparr>)) = 16"
  by (simp add: instruction_zero_def)

lemma example_body:
  assumes "tokens_ok kw p" "k \<noteq> DALVIK_TOKEN_16 kw" "k \<noteq> DALVIK_TOKEN_32 kw"
  shows "\<exists>b. body_loop kw 77 (mk_list (map (Pair (CHR '' ''))
       [lits [DALVIK_TOKEN_LABEL kw, k], lits [DALVIK_TOKEN_NOP kw], lits [DALVIK_TOKEN_GOTO kw, k]])) (body_start (example_state p)) = Some (True, b) \<and>
    bd_entry b = Some 1 \<and> jump_table_of (bd_reader b) 0 = 1 \<and>
    (\<exists>c1 c2. ip_cells (bd_pool b) = [instruction_zero, c1, c2] \<and> ins_opcode c1 = DVM_NOP \<and> jump_labels (block_inst c2) = [0])"
proof -
  obtain ls where ls: "dalvik_label_get_label_id k (rd_labels (reader_of p)) = (0, ls)"
    "\<And>jt. dalvik_label_get_label_id k (ls\<lparr>dalvik_label_jump_table := jt\<rparr>) = (0, ls\<lparr>dalvik_label_jump_table := jt\<rparr>)"
    "dalvik_label_jump_table ls = (\<lambda>_. -1)" "dalvik_label_exists k (rd_labels (reader_of p)) = 0" using example_label by blast
  let ?ls = "ls\<lparr>dalvik_label_jump_table := (dalvik_label_jump_table ls)(0 := 1)\<rparr>"
  let ?pool = "ms_pool (example_state p)"
  have pool: "?pool = \<lparr>ip_allocated = True, ip_capacity = 1024, ip_cells = [instruction_zero]\<rparr>" by (simp add: example_state_def)
  obtain b1 where b1: "body_label k (body_start (example_state p)) = Some (True, b1)" "bd_label_stack b1 = [0]" "bd_last b1 = DALVIK_INSTRUCTION_INVALID"
    "bd_pool b1 = ?pool" "bd_reader b1 = (reader_of p)\<lparr>rd_labels := ls\<rparr>" "bd_line b1 = 0"
    by (simp add: body_label_def body_start_def example_state_def ls DALVIK_METHOD_LABEL_STACK_SIZE_def dalvik_exception_new_handler_set_def)
  let ?m = "instruction_zero\<lparr>ins_method := Some 77\<rparr>"
  let ?nop = "?m\<lparr>ins_opcode := DVM_NOP, ins_num_operands := 0, ins_flags := 0, ins_line := 0\<rparr>"
  note i1 = body_instruction_run [where b = b1 and maddr = 77 and kw = kw and e = "lits [DALVIK_TOKEN_NOP kw]" and ls = ?ls,
      OF _ _ example_instructions(1) [OF assms(1)] _ refl]
  obtain b2 c1 where b2: "body_instruction kw 77 (lits [DALVIK_TOKEN_NOP kw]) b1 = Some (True, b2)" "bd_label_stack b2 = []" "bd_last b2 = 1"
    "bd_entry b2 = Some 1" "bd_pool b2 = ?pool\<lparr>ip_cells := [instruction_zero, c1]\<rparr>" "ins_opcode c1 = DVM_NOP"
    "bd_reader b2 = (reader_of p)\<lparr>rd_labels := ?ls\<rparr>" "bd_line b2 = 0"
    using i1 by (simp add: b1 pool del: lits_simps)
  have lid: "get_label_id k (bd_reader b2) = (0, bd_reader b2)" by (simp add: get_label_id_def b2 ls)
  note i2 = body_instruction_run [where b = b2 and maddr = 77 and kw = kw and e = "lits [DALVIK_TOKEN_GOTO kw, k]" and ls = ?ls,
      OF _ _ example_instructions(2) [OF assms lid zero_operands] _ refl]
  obtain b3 c2 where b3: "body_instruction kw 77 (lits [DALVIK_TOKEN_GOTO kw, k]) b2 = Some (True, b3)" "bd_entry b3 = Some 1"
    "ip_cells (bd_pool b3) = [instruction_zero, c1\<lparr>ins_next := 2\<rparr>, c2]" "jump_labels (block_inst c2) = [0]"
    "bd_reader b3 = (reader_of p)\<lparr>rd_labels := ?ls\<rparr>"
    using i2 by (simp add: b2 pool DALVIK_INSTRUCTION_INVALID_def jump_labels_def block_inst_def op_labelid_def payload_of_def
        instruction_zero_def del: lits_simps)
  show ?thesis using b1 b2 b3
    by (simp add: body_loop.simps list_rest_lits example_statements [OF assms(1)] del: lits_simps)
qed

lemma example_read:
  assumes "tokens_ok kw p" "k \<noteq> DALVIK_TOKEN_16 kw" "k \<noteq> DALVIK_TOKEN_32 kw"
  obtains m st c1 c2 where "dalvik_method_from_sexp kw (example_method kw k) None None 77 (example_state p) = Some (Some m, st)"
    "dm_entry m = Some 1" "jump_table_of (ms_reader st) 0 = 1" "ip_cells (ms_pool st) = [instruction_zero, c1, c2]"
    "ins_opcode c1 = DVM_NOP" "jump_labels (block_inst c2) = [0]"
proof -
  obtain b c1 c2 where b: "body_loop kw 77 (mk_list (map (Pair (CHR '' ''))
       [lits [DALVIK_TOKEN_LABEL kw, k], lits [DALVIK_TOKEN_NOP kw], lits [DALVIK_TOKEN_GOTO kw, k]])) (body_start (example_state p)) = Some (True, b)"
    "bd_entry b = Some 1" "jump_table_of (bd_reader b) 0 = 1" "ip_cells (bd_pool b) = [instruction_zero, c1, c2]"
    "ins_opcode c1 = DVM_NOP" "jump_labels (block_inst c2) = [0]" using example_body [OF assms] by blast
  let ?body = "mk_list (map (Pair (CHR '' '')) [lits [DALVIK_TOKEN_LABEL kw, k], lits [DALVIK_TOKEN_NOP kw], lits [DALVIK_TOKEN_GOTO kw, k]])"
  have head: "example_method kw k \<noteq> SNil"
    "sexp_match (example_method kw k) ''(L=C?L?C?_?A'' [DALVIK_TOKEN_METHOD kw, 0, 0, 0, 0, 0] =
      (True, [(1, MSexp (lits [DALVIK_TOKEN_ATTRS kw])), (2, MAddr k), (3, MSexp SNil), (4, MSexp (SLit (DALVIK_TOKEN_VOID kw))), (5, MSexp ?body)])"
    by (simp_all add: example_method_def match_simps numeral_eq_Suc)
  have attrs: "dalvik_attrs_from_sexp kw (lits [DALVIK_TOKEN_ATTRS kw]) = 0"
    by (simp add: dalvik_attrs_from_sexp_def match_simps attrs_loop.simps)
  have void: "read_type kw (SLit (DALVIK_TOKEN_VOID kw)) rd = Some (Some (TAtom DALVIK_TYPECODE_VOID), rd)" for rd
    by (simp add: read_type_def dalvik_type_from_sexp.simps match_simps type_of_literal_def)
  have "\<exists>m. dalvik_method_from_sexp kw (example_method kw k) None None 77 (example_state p) = Some (Some m, bd_st b) \<and> dm_entry m = Some 1"
    using b(1,2) unfolding dalvik_method_from_sexp_def head(2) 
    by (simp add: head(1) out_sexp_def out_addr_def attrs void Let_def del: lits_simps)
  then show ?thesis using that b(3-) by blast
qed

lemma example_setting:
  obtains kw k p where "tokens_ok kw p" "k \<noteq> DALVIK_TOKEN_16 kw" "k \<noteq> DALVIK_TOKEN_32 kw"
proof -
  obtain kw k p where t: "tokens_ok kw p" "pool_mem p k = Some ''l1''" using example_words by blast
  have "k \<noteq> DALVIK_TOKEN_16 kw" "k \<noteq> DALVIK_TOKEN_32 kw"
    using token_mem [OF t(1), of 9] token_mem [OF t(1), of 18] t(2) by (auto simp: dalvik_token_defs_def)
  then show ?thesis using that t(1) by blast
qed

theorem dalvik_method_from_sexp_chain_witness:
  "\<exists>kw k p m st new. dalvik_method_from_sexp kw (example_method kw k) None None 77 (example_state p) = Some (Some m, st) \<and>
     ip_cells (ms_pool st) = instruction_zero # new \<and> length new = 2 \<and> chained 77 1 new \<and> dm_entry m = Some 1"
proof -
  obtain kw k p where t: "tokens_ok kw p" "k \<noteq> DALVIK_TOKEN_16 kw" "k \<noteq> DALVIK_TOKEN_32 kw" by (rule example_setting)
  obtain m st c1 c2 where r: "dalvik_method_from_sexp kw (example_method kw k) None None 77 (example_state p) = Some (Some m, st)"
    "dm_entry m = Some 1" "jump_table_of (ms_reader st) 0 = 1" "ip_cells (ms_pool st) = [instruction_zero, c1, c2]"
    "ins_opcode c1 = DVM_NOP" "jump_labels (block_inst c2) = [0]" by (rule example_read [OF t])
  have "chained 77 1 [c1, c2]" using dalvik_method_from_sexp_chain [OF r(1)] by (auto simp: r(4) example_state_def)
  then show ?thesis using r(1,2,4) by fastforce
qed


end
