(* ===== verification/Cesk_Object.thy ===== *)
theory Cesk_Object
  imports Dalvik_Memberdict Bci_Nametab Tag_Set Store_Addr
begin

text \<open>
  Built-in classes (\<^verbatim>\<open>src/bci/bci_class.c\<close>) and objects of the abstract machine
  (\<^verbatim>\<open>src/cesk/cesk_object.c\<close>, \<^verbatim>\<open>include/cesk/cesk_object.h\<close>). An object is a sequence of structures, one
  for each class from its own class upwards, user-defined classes first. The structure of a
  user-defined class is a table of addresses, that of a built-in class is data that only the functions
  of that class understand.

  A built-in class is the record of its functions, as in the C code, over a type of data \<open>'d\<close>; a null
  function is \<^const>\<open>None\<close>. Sizes and offsets inside of an object are replaced by positions in lists.
  What memory holds before it is written is a parameter. An access outside of an object is \<^const>\<open>None\<close>
  at the outer level.
\<close>

subsection \<open>Built-in classes\<close>

record 'd bci_class =
  bci_size :: nat
  bci_finalize :: "('d \<Rightarrow> int) option"
  bci_duplicate :: "('d \<Rightarrow> 'd \<Rightarrow> int \<times> 'd) option"
  bci_read :: "('d \<Rightarrow> nat \<Rightarrow> nat \<Rightarrow> int \<times> u32 list) option"
  bci_write :: "('d \<Rightarrow> nat \<Rightarrow> u32 list \<Rightarrow> int \<times> 'd) option"
  bci_hash :: "('d \<Rightarrow> u32) option"
  bci_equal :: "('d \<Rightarrow> 'd \<Rightarrow> int) option"
  bci_has_reloc_ref :: "('d \<Rightarrow> int) option"
  bci_merge :: "('d \<Rightarrow> 'd \<Rightarrow> int \<times> 'd) option"
  bci_is_instance :: "('d \<Rightarrow> dalvik_type \<Rightarrow> int) option"
  bci_get_method :: "('d option \<Rightarrow> nat \<Rightarrow> nat \<Rightarrow> dalvik_type list \<Rightarrow> dalvik_type option \<Rightarrow> int) option"
  bci_super :: "nat option"
  bci_provides :: "nat list"

definition BCI_BOOLEAN_FALSE :: int where "BCI_BOOLEAN_FALSE = 0"
definition BCI_BOOLEAN_TRUE :: int where "BCI_BOOLEAN_TRUE = 1"
definition BCI_BOOLEAN_UNKNOWN :: int where "BCI_BOOLEAN_UNKNOWN = 2"

text \<open>The dispatchers: a null argument is an error, a null function has a default result.\<close>

definition bci_class_finalize :: "'d option \<Rightarrow> 'd bci_class option \<Rightarrow> int" where
  "bci_class_finalize this class =
     (case (this, class) of
        (Some d, Some c) \<Rightarrow> (case bci_finalize c of None \<Rightarrow> 0 | Some g \<Rightarrow> g d)
      | _ \<Rightarrow> -1)"

definition bci_class_read :: "'d option \<Rightarrow> nat \<Rightarrow> nat \<Rightarrow> 'd bci_class option \<Rightarrow> int \<times> u32 list" where
  "bci_class_read this offset sz class =
     (case (this, class) of
        (Some d, Some c) \<Rightarrow> (case bci_read c of None \<Rightarrow> (0, []) | Some g \<Rightarrow> g d offset sz)
      | _ \<Rightarrow> (-1, []))"

definition bci_class_write :: "'d \<Rightarrow> nat \<Rightarrow> u32 list \<Rightarrow> 'd bci_class option \<Rightarrow> int \<times> 'd" where
  "bci_class_write this offset new class =
     (case class of
        None \<Rightarrow> (-1, this)
      | Some c \<Rightarrow> (case bci_write c of None \<Rightarrow> (0, this) | Some g \<Rightarrow> g this offset new))"

definition bci_class_hashcode :: "'d option \<Rightarrow> 'd bci_class option \<Rightarrow> u32" where
  "bci_class_hashcode this class =
     (case (this, class) of
        (Some d, Some c) \<Rightarrow> (case bci_hash c of None \<Rightarrow> 0 | Some g \<Rightarrow> g d)
      | _ \<Rightarrow> 0)"

definition bci_class_duplicate :: "'d option \<Rightarrow> 'd \<Rightarrow> 'd bci_class option \<Rightarrow> int \<times> 'd" where
  "bci_class_duplicate this that class =
     (case (this, class) of
        (Some d, Some c) \<Rightarrow> (case bci_duplicate c of None \<Rightarrow> (0, that) | Some g \<Rightarrow> g d that)
      | _ \<Rightarrow> (-1, that))"

definition bci_class_equal :: "'d option \<Rightarrow> 'd option \<Rightarrow> 'd bci_class option \<Rightarrow> int" where
  "bci_class_equal this that class =
     (case (this, that, class) of
        (Some d, Some d', Some c) \<Rightarrow> (case bci_equal c of None \<Rightarrow> -1 | Some g \<Rightarrow> g d d')
      | _ \<Rightarrow> -1)"

definition bci_class_has_reloc_ref :: "'d option \<Rightarrow> 'd bci_class option \<Rightarrow> int" where
  "bci_class_has_reloc_ref this class =
     (case (this, class) of
        (Some d, Some c) \<Rightarrow> (case bci_has_reloc_ref c of None \<Rightarrow> 0 | Some g \<Rightarrow> g d)
      | _ \<Rightarrow> -1)"

definition bci_class_merge :: "'d \<Rightarrow> 'd option \<Rightarrow> 'd bci_class option \<Rightarrow> int \<times> 'd" where
  "bci_class_merge this that class =
     (case (that, class) of
        (Some d, Some c) \<Rightarrow> (case bci_merge c of None \<Rightarrow> (0, this) | Some g \<Rightarrow> g this d)
      | _ \<Rightarrow> (-1, this))"

definition bci_class_is_instance :: "'d option \<Rightarrow> dalvik_type \<Rightarrow> 'd bci_class option \<Rightarrow> int" where
  "bci_class_is_instance this ty class =
     (case (this, class) of
        (Some d, Some c) \<Rightarrow> (case bci_is_instance c of None \<Rightarrow> BCI_BOOLEAN_UNKNOWN | Some g \<Rightarrow> g d ty)
      | _ \<Rightarrow> -1)"

definition bci_class_get_method ::
  "'d option \<Rightarrow> nat \<Rightarrow> nat option \<Rightarrow> dalvik_type list \<Rightarrow> dalvik_type option \<Rightarrow> 'd bci_class option \<Rightarrow> int" where
  "bci_class_get_method this classpath methodname typelist rtype class =
     (case (methodname, class) of
        (Some m, Some c) \<Rightarrow> (case bci_get_method c of None \<Rightarrow> -1 | Some g \<Rightarrow> g this classpath m typelist rtype)
      | _ \<Rightarrow> -1)"

subsection \<open>Classes and members\<close>

record dalvik_class =
  cls_path :: nat
  cls_super :: "nat option"
  cls_implements :: "nat list"
  cls_attrs :: int
  cls_is_interface :: bool
  cls_members :: "nat list"

record dalvik_field =
  fld_name :: nat
  fld_path :: "nat option"
  fld_file :: "nat option"
  fld_type :: dalvik_type
  fld_attrs :: int
  fld_default :: "nat option"
  fld_offset :: int

text \<open>What a member dictionary holds; a lookup casts to the type of the member it was asked for.\<close>

datatype 'm dalvik_member = MClass dalvik_class | MField dalvik_field | MMethod 'm

definition get_class_def :: "atom_table \<Rightarrow> 'm dalvik_member memberdict \<Rightarrow> nat \<Rightarrow> dalvik_class option" where
  "get_class_def atoms dict path =
     (case dalvik_memberdict_get_class atoms path dict of Some (MClass c) \<Rightarrow> Some c | _ \<Rightarrow> None)"

definition get_field_def :: "atom_table \<Rightarrow> 'm dalvik_member memberdict \<Rightarrow> nat \<Rightarrow> nat \<Rightarrow> dalvik_field option" where
  "get_field_def atoms dict path name =
     (case dalvik_memberdict_get_field atoms path name dict of Some (MField f) \<Rightarrow> Some f | _ \<Rightarrow> None)"

subsection \<open>Objects\<close>

type_synonym 'd bci_class_wrap = "'d bci_class class_wrap"
type_synonym 'd bci_nametab = "'d bci_class nametab_node htab"

datatype 'd object_struct = UdefStruct dalvik_class "u32 list" | BciStruct "'d bci_class_wrap" 'd

datatype 'd class_ref = UdefRef dalvik_class | BciRef "'d bci_class_wrap"

fun struct_class :: "'d object_struct \<Rightarrow> 'd class_ref" where
  "struct_class (UdefStruct c tab) = UdefRef c"
| "struct_class (BciStruct w d) = BciRef w"

fun built_in :: "'d object_struct \<Rightarrow> bool" where
  "built_in (UdefStruct c tab) = False"
| "built_in (BciStruct w d) = True"

fun struct_path :: "'d object_struct \<Rightarrow> nat" where
  "struct_path (UdefStruct c tab) = cls_path c"
| "struct_path (BciStruct w d) = wrap_path w"

text \<open>\<open>obj_builtin\<close> is the position of the first structure of a built-in class.\<close>

record 'd cesk_object =
  obj_members :: "'d object_struct list"
  obj_builtin :: nat
  obj_nbuiltin :: nat
  obj_tags :: "nat option"

abbreviation obj_depth :: "'d cesk_object \<Rightarrow> nat" where
  "obj_depth obj \<equiv> length (obj_members obj)"

definition CESK_OBJECT_MAX_USER_DEFINED_CLASSES :: nat where "CESK_OBJECT_MAX_USER_DEFINED_CLASSES = 1024"
definition CESK_OBJECT_MAX_BUILTIN_CLASSES :: nat where "CESK_OBJECT_MAX_BUILTIN_CLASSES = 1024"

text \<open>The loop that follows the super classes. It ends, even when the classes form a cycle; \<^const>\<open>None\<close> is the error exit.\<close>

function class_chain ::
  "atom_table \<Rightarrow> 'm dalvik_member memberdict \<Rightarrow> 'd bci_nametab \<Rightarrow> nat option \<Rightarrow> dalvik_class list \<Rightarrow> 'd bci_class_wrap list
     \<Rightarrow> (dalvik_class list \<times> 'd bci_class_wrap list) option" where
  "class_chain atoms dict tab classpath classes bcis =
     (case classpath of
        None \<Rightarrow> Some (classes, bcis)
      | Some path \<Rightarrow>
          (case get_class_def atoms dict path of
             None \<Rightarrow>
               (case bci_nametab_get_class path tab of
                  Some w \<Rightarrow>
                    if length (bcis @ [w]) \<ge> CESK_OBJECT_MAX_BUILTIN_CLASSES then None
                    else class_chain atoms dict tab (bci_super (wrap_class w)) classes (bcis @ [w])
                | None \<Rightarrow> Some (classes, bcis))
           | Some c \<Rightarrow>
               if length (classes @ [c]) \<ge> CESK_OBJECT_MAX_USER_DEFINED_CLASSES then None
               else class_chain atoms dict tab (cls_super c) (classes @ [c]) bcis))"
  by pat_completeness auto
termination
  by (relation "measure (\<lambda>(atoms, dict, tab, path, cs, bs).
      (CESK_OBJECT_MAX_USER_DEFINED_CLASSES - length cs) + (CESK_OBJECT_MAX_BUILTIN_CLASSES - length bs))") auto

declare class_chain.simps [simp del]

fun init_fields :: "atom_table \<Rightarrow> 'm dalvik_member memberdict \<Rightarrow> nat \<Rightarrow> nat list \<Rightarrow> u32 list \<Rightarrow> u32 list option" where
  "init_fields atoms dict path [] tab = Some tab"
| "init_fields atoms dict path (m # ms) tab =
     (case get_field_def atoms dict path m of
        None \<Rightarrow> init_fields atoms dict path ms tab
      | Some f \<Rightarrow>
          if 0 \<le> fld_offset f \<and> fld_offset f < int (length tab)
          then init_fields atoms dict path ms (tab[nat (fld_offset f) := CESK_STORE_ADDR_NULL])
          else None)"

text \<open>\<open>junk\<close> is what the memory of a field holds before, and \<open>raw\<close> the data of a built-in class before it is initialised.\<close>

definition udef_struct ::
  "atom_table \<Rightarrow> 'm dalvik_member memberdict \<Rightarrow> (nat \<Rightarrow> u32) \<Rightarrow> dalvik_class \<Rightarrow> 'd object_struct option" where
  "udef_struct atoms dict junk c =
     map_option (UdefStruct c) (init_fields atoms dict (cls_path c) (cls_members c) (map junk [0..<length (cls_members c)]))"

definition cesk_object_new ::
  "atom_table \<Rightarrow> 'm dalvik_member memberdict \<Rightarrow> 'd bci_nametab \<Rightarrow> (nat \<Rightarrow> u32) \<Rightarrow> ('d bci_class_wrap \<Rightarrow> 'd) \<Rightarrow> nat option
     \<Rightarrow> tag_state \<Rightarrow> ('d cesk_object option \<times> tag_state) option" where
  "cesk_object_new atoms dict tab junk raw classpath ts =
     (case class_chain atoms dict tab classpath [] [] of
        None \<Rightarrow> Some (None, ts)
      | Some (classes, bcis) \<Rightarrow> do {
          us \<leftarrow> map_opt (udef_struct atoms dict junk) classes;
          (t, ts) \<leftarrow> tag_set_empty ts;
          Some (Some \<lparr>obj_members = us @ map (\<lambda>w. BciStruct w (raw w)) bcis, obj_builtin = length us,
                      obj_nbuiltin = length bcis, obj_tags = Some t\<rparr>, ts)
        })"

text \<open>
  The result of \<^verbatim>\<open>cesk_object_get\<close>: the place of a field, or the built-in class that has to answer with
  the place of its data, or a null pointer.
\<close>

datatype 'd get_result = GetField nat nat | GetBci "'d bci_class" nat | GetNull

fun get_loop ::
  "atom_table \<Rightarrow> 'm dalvik_member memberdict \<Rightarrow> bool \<Rightarrow> nat \<Rightarrow> 'd object_struct list \<Rightarrow> nat \<Rightarrow> nat \<Rightarrow> 'd get_result option" where
  "get_loop atoms dict want_bci field_name [] i classpath = Some GetNull"
| "get_loop atoms dict want_bci field_name (BciStruct w d # ss) i classpath =
     Some (if want_bci then GetBci (wrap_class w) i else GetNull)"
| "get_loop atoms dict want_bci field_name (UdefStruct c tab # ss) i classpath =
     (case get_field_def atoms dict classpath field_name of
        Some f \<Rightarrow> Some (GetField i (nat (fld_offset f)))
      | None \<Rightarrow> (case ss of [] \<Rightarrow> None | s # _ \<Rightarrow> get_loop atoms dict want_bci field_name ss (Suc i) (struct_path s)))"

fun find_struct :: "nat \<Rightarrow> 'd object_struct list \<Rightarrow> nat \<Rightarrow> (nat \<times> 'd object_struct list) option" where
  "find_struct classpath [] i = None"
| "find_struct classpath (s # ss) i = (if struct_path s = classpath then Some (i, s # ss) else find_struct classpath ss (Suc i))"

definition cesk_object_get ::
  "atom_table \<Rightarrow> 'm dalvik_member memberdict \<Rightarrow> 'd cesk_object option \<Rightarrow> nat option \<Rightarrow> nat option \<Rightarrow> bool \<Rightarrow> 'd get_result option" where
  "cesk_object_get atoms dict object classpath field_name want_bci =
     (case (object, classpath, field_name) of
        (Some obj, Some path, Some name) \<Rightarrow>
          (case find_struct path (obj_members obj) 0 of
             None \<Rightarrow> Some GetNull
           | Some (i, ss) \<Rightarrow> get_loop atoms dict want_bci name ss i path)
      | _ \<Rightarrow> Some GetNull)"

definition struct_field :: "'d object_struct \<Rightarrow> nat \<Rightarrow> u32 option" where
  "struct_field s ofs = (case s of UdefStruct c tab \<Rightarrow> if ofs < length tab then Some (tab ! ofs) else None | _ \<Rightarrow> None)"

definition cesk_object_get_addr ::
  "atom_table \<Rightarrow> 'm dalvik_member memberdict \<Rightarrow> 'd cesk_object option \<Rightarrow> nat option \<Rightarrow> nat option \<Rightarrow> bool \<Rightarrow> (int \<times> u32 option) option" where
  "cesk_object_get_addr atoms dict object classpath field_name want_bci = do {
     r \<leftarrow> cesk_object_get atoms dict object classpath field_name want_bci;
     (case r of
        GetField i ofs \<Rightarrow> map_option (\<lambda>a. (0, Some a)) (struct_field (obj_members (the object) ! i) ofs)
      | _ \<Rightarrow> Some (-1, None))
   }"

text \<open>The finalizers of the built-in classes work on the data that is about to be freed.\<close>

definition cesk_object_free :: "'d cesk_object option \<Rightarrow> tag_state \<Rightarrow> tag_state option" where
  "cesk_object_free object ts = (case object of None \<Rightarrow> Some ts | Some obj \<Rightarrow> tag_set_free (obj_tags obj) ts)"

text \<open>The loop over the built-in structures; \<open>Some None\<close> is the error exit.\<close>

fun dup_loop :: "nat \<Rightarrow> 'd object_struct list \<Rightarrow> 'd object_struct list option option" where
  "dup_loop 0 ss = Some (Some ss)"
| "dup_loop (Suc n) [] = None"
| "dup_loop (Suc n) (UdefStruct c tab # ss) = Some None"
| "dup_loop (Suc n) (BciStruct w d # ss) =
     (case bci_class_duplicate (Some d) d (Some (wrap_class w)) of
        (rc, d') \<Rightarrow>
          if rc < 0 then Some None
          else map_option (map_option ((#) (BciStruct w d'))) (dup_loop n ss))"

definition cesk_object_duplicate ::
  "'d cesk_object \<Rightarrow> tag_state \<Rightarrow> ('d cesk_object option \<times> tag_state) option" where
  "cesk_object_duplicate obj ts = do {
     (t, ts) \<leftarrow> tag_set_fork (obj_tags obj) ts;
     r \<leftarrow> dup_loop (obj_nbuiltin obj) (drop (obj_builtin obj) (obj_members obj));
     (case r of
        None \<Rightarrow> Some (None, ts)
      | Some ss \<Rightarrow> Some (Some (obj\<lparr>obj_members := take (obj_builtin obj) (obj_members obj) @ ss, obj_tags := t\<rparr>), ts))
   }"

text \<open>\<open>class_addr\<close> is the address of the description of a class.\<close>

fun hash_fields :: "u32 list \<Rightarrow> u32 \<times> u32 \<Rightarrow> u32 \<times> u32" where
  "hash_fields [] (hash, mul) = (hash, mul)"
| "hash_fields (a # tab) (hash, mul) =
     (let k = a * mul; mul = mul * MH_MULTIPLY; hash = hash XOR k; hash = push_bit 16 hash OR drop_bit 16 hash
      in hash_fields tab (hash, mul))"

fun hash_struct :: "('d class_ref \<Rightarrow> nat) \<Rightarrow> 'd object_struct \<Rightarrow> u32 \<times> u32 \<Rightarrow> u32 \<times> u32" where
  "hash_struct class_addr s (hash, mul) =
     (let mul = mul XOR of_nat (class_addr (struct_class s))
      in case s of
           BciStruct w d \<Rightarrow>
             let h = 0x73658217 * bci_class_hashcode (Some d) (Some (wrap_class w)) * MH_MULTIPLY
             in (hash XOR (h * h), mul)
         | UdefStruct c tab \<Rightarrow> hash_fields tab (hash, mul))"

definition cesk_object_hashcode :: "('d class_ref \<Rightarrow> nat) \<Rightarrow> 'd cesk_object \<Rightarrow> tag_state \<Rightarrow> u32 option" where
  "cesk_object_hashcode class_addr obj ts =
     (case obj_members obj of
        [] \<Rightarrow> None
      | s # _ \<Rightarrow> do {
          let (hash, mul) = fold (hash_struct class_addr) (obj_members obj) (of_nat (class_addr (struct_class s)), MH_MULTIPLY);
          t \<leftarrow> Option.bind (obj_tags obj) (tag_sets ts);
          let ts_hash = tag_set_hashcode t;
          Some (hash XOR (ts_hash * ts_hash + MH_MULTIPLY * ts_hash))
        })"

definition cesk_object_compute_hashcode :: "('d class_ref \<Rightarrow> nat) \<Rightarrow> 'd cesk_object \<Rightarrow> tag_state \<Rightarrow> u32 option" where
  "cesk_object_compute_hashcode class_addr obj ts = cesk_object_hashcode class_addr obj ts"

text \<open>The loop of the comparison. It moves on to the next structures behind user-defined classes only.\<close>

fun equal_loop :: "nat \<Rightarrow> 'd object_struct list \<Rightarrow> 'd object_struct list \<Rightarrow> int option" where
  "equal_loop 0 this that = Some 1"
| "equal_loop (Suc n) (s # this) (t # that) =
     (case (s, t) of
        (BciStruct w d, BciStruct w' d') \<Rightarrow>
          let rc = bci_class_equal (Some d) (Some d') (Some (wrap_class w))
          in if rc < 0 then Some (-1) else if rc = 0 then Some 0 else equal_loop n (s # this) (t # that)
      | (UdefStruct c tab, UdefStruct c' tab') \<Rightarrow>
          if length tab \<noteq> length tab' then Some 0
          else if list_ex (\<lambda>j. tab ! j \<noteq> tab' ! j) [0..<length tab] then Some 0
          else equal_loop n this that
      | _ \<Rightarrow> Some 0)"
| "equal_loop (Suc n) this that = None"

definition cesk_object_equal ::
  "('d class_ref \<Rightarrow> nat) \<Rightarrow> 'd cesk_object option \<Rightarrow> 'd cesk_object option \<Rightarrow> tag_state \<Rightarrow> int option" where
  "cesk_object_equal class_addr first second ts =
     (case (first, second) of
        (Some f, Some g) \<Rightarrow>
          (case (obj_members f, obj_members g) of
             (s # _, t # _) \<Rightarrow>
               if class_addr (struct_class s) \<noteq> class_addr (struct_class t) then Some 0
               else if obj_depth f \<noteq> obj_depth g then Some 0
               else if tag_set_equal (Option.bind (obj_tags f) (tag_sets ts)) (Option.bind (obj_tags g) (tag_sets ts)) = 0
               then Some 0
               else equal_loop (obj_depth f) (obj_members f) (obj_members g)
           | _ \<Rightarrow> None)
      | (None, None) \<Rightarrow> Some 1
      | _ \<Rightarrow> Some 0)"

text \<open>
  The test against a type. The loop over the interfaces of a class compares with the entry whose
  position is that of the structure. \<open>junk\<close> is what the table of interfaces holds behind its end mark.
\<close>

definition implements_at :: "(nat \<Rightarrow> nat option) \<Rightarrow> dalvik_class \<Rightarrow> nat \<Rightarrow> nat option" where
  "implements_at junk c i =
     (if i < length (cls_implements c) then Some (cls_implements c ! i)
      else if i = length (cls_implements c) then None else junk i)"

fun instance_loop :: "(nat \<Rightarrow> nat option) \<Rightarrow> dalvik_type \<Rightarrow> nat option \<Rightarrow> 'd object_struct list \<Rightarrow> nat \<Rightarrow> u32" where
  "instance_loop junk ty classpath [] i = CESK_STORE_ADDR_ZERO"
| "instance_loop junk ty classpath (s # ss) i =
     (if Some (struct_path s) = classpath then 1
      else case s of
             BciStruct w d \<Rightarrow>
               let rc = bci_class_is_instance (Some d) ty (Some (wrap_class w))
               in if rc = BCI_BOOLEAN_TRUE then CESK_STORE_ADDR_POS
                  else if rc = BCI_BOOLEAN_UNKNOWN then CESK_STORE_ADDR_POS OR CESK_STORE_ADDR_ZERO
                  else if rc < 0 then CESK_STORE_ADDR_NULL
                  else instance_loop junk ty classpath ss (Suc i)
           | UdefStruct c tab \<Rightarrow>
               if cls_implements c \<noteq> [] \<and> classpath = implements_at junk c i then CESK_STORE_ADDR_POS
               else instance_loop junk ty classpath ss (Suc i))"

definition cesk_object_instance_of :: "(nat \<Rightarrow> nat option) \<Rightarrow> 'd cesk_object \<Rightarrow> dalvik_type \<Rightarrow> u32" where
  "cesk_object_instance_of junk obj ty =
     (case ty of
        TArray _ \<Rightarrow> instance_loop junk ty None (obj_members obj) 0
      | TObject path \<Rightarrow> instance_loop junk ty (Some path) (obj_members obj) 0
      | TAtom _ \<Rightarrow> CESK_STORE_ADDR_NULL)"

subsection \<open>The layout of a new object\<close>

text \<open>
  The dictionary as the class reader leaves it: every member of a class is the name of a field whose
  offset is its position among the members.
\<close>

definition fields_ok :: "atom_table \<Rightarrow> 'm dalvik_member memberdict \<Rightarrow> dalvik_class \<Rightarrow> bool" where
  "fields_ok atoms dict c \<longleftrightarrow>
     (\<forall>j < length (cls_members c). \<exists>f. get_field_def atoms dict (cls_path c) (cls_members c ! j) = Some f \<and> fld_offset f = int j)"

lemma init_fields_suffix:
  assumes "\<And>j. j < length ms \<Longrightarrow> \<exists>f. get_field_def atoms dict path (ms ! j) = Some f \<and> fld_offset f = int (k + j)"
    and "length tab = k + length ms" and "\<And>j. j < k \<Longrightarrow> tab ! j = CESK_STORE_ADDR_NULL"
  shows "init_fields atoms dict path ms tab = Some (replicate (length tab) CESK_STORE_ADDR_NULL)"
  using assms
proof (induction ms arbitrary: k tab)
  case Nil
  then show ?case by (auto intro!: nth_equalityI)
next
  case (Cons m ms)
  obtain f where f: "get_field_def atoms dict path m = Some f" "fld_offset f = int k" using Cons.prems(1) [of 0] by auto
  have "init_fields atoms dict path ms (tab[k := CESK_STORE_ADDR_NULL]) =
      Some (replicate (length (tab[k := CESK_STORE_ADDR_NULL])) CESK_STORE_ADDR_NULL)"
  proof (rule Cons.IH [of "Suc k"])
    show "\<exists>f. get_field_def atoms dict path (ms ! j) = Some f \<and> fld_offset f = int (Suc k + j)" if "j < length ms" for j
      using Cons.prems(1) [of "Suc j"] that by simp
    show "length (tab[k := CESK_STORE_ADDR_NULL]) = Suc k + length ms" using Cons.prems(2) by simp
    show "tab[k := CESK_STORE_ADDR_NULL] ! j = CESK_STORE_ADDR_NULL" if "j < Suc k" for j
      using that Cons.prems(2,3) by (cases "j = k") auto
  qed
  then show ?case using f Cons.prems(2) by simp
qed

lemma udef_struct_init:
  assumes "fields_ok atoms dict c"
  shows "udef_struct atoms dict junk c = Some (UdefStruct c (replicate (length (cls_members c)) CESK_STORE_ADDR_NULL))"
  using init_fields_suffix [of "cls_members c" atoms dict "cls_path c" 0 "map junk [0..<length (cls_members c)]"] assms
  by (simp add: udef_struct_def fields_ok_def)

lemma object_new_layout:
  fixes raw :: "'d bci_class_wrap \<Rightarrow> 'd"
  assumes "class_chain atoms dict tab classpath [] [] = Some (classes, bcis)" "\<forall>c \<in> set classes. fields_ok atoms dict c"
    and "tag_set_empty ts = Some (t, ts')"
  shows "cesk_object_new atoms dict tab junk raw classpath ts =
    Some (Some \<lparr>obj_members = map (\<lambda>c. UdefStruct c (replicate (length (cls_members c)) CESK_STORE_ADDR_NULL)) classes @
                  map (\<lambda>w. BciStruct w (raw w)) bcis,
                obj_builtin = length classes, obj_nbuiltin = length bcis, obj_tags = Some t\<rparr>, ts')"
proof -
  have "map_opt (udef_struct atoms dict junk) classes =
      Some (map (\<lambda>c. UdefStruct c (replicate (length (cls_members c)) CESK_STORE_ADDR_NULL) :: 'd object_struct) classes)"
    using assms(2) by (intro map_opt_map udef_struct_init) simp
  then show ?thesis using assms(1,3) by (simp add: cesk_object_new_def)
qed

text \<open>
  A new object has one structure for every class found on the way up, user-defined classes first,
  and every field of a user-defined class is the null address, whatever the memory held before.
\<close>

theorem cesk_object_new_layout:
  fixes raw :: "'d bci_class_wrap \<Rightarrow> 'd"
  assumes "class_chain atoms dict tab classpath [] [] = Some (classes, bcis)" "\<forall>c \<in> set classes. fields_ok atoms dict c"
    and "tag_set_empty ts = Some (t, ts')"
  shows "cesk_object_new atoms dict tab junk raw classpath ts =
    Some (Some \<lparr>obj_members = map (\<lambda>c. UdefStruct c (replicate (length (cls_members c)) CESK_STORE_ADDR_NULL)) classes @
                  map (\<lambda>w. BciStruct w (raw w)) bcis,
                obj_builtin = length classes, obj_nbuiltin = length bcis, obj_tags = Some t\<rparr>, ts')"
  by (rule object_new_layout [OF assms])

lemma class_chain_cycle:
  assumes "get_class_def atoms dict path = Some c" "cls_super c = Some path"
  shows "class_chain atoms dict tab (Some path) cs bs = None"
proof (induction "CESK_OBJECT_MAX_USER_DEFINED_CLASSES - length cs" arbitrary: cs)
  case 0
  then show ?case using assms by (subst class_chain.simps) simp
next
  case (Suc n)
  have "class_chain atoms dict tab (Some path) (cs @ [c]) bs = None" using Suc.hyps(2) by (intro Suc.hyps(1)) simp
  then show ?case using assms by (subst class_chain.simps) simp
qed

text \<open>
  A class that is its own super class does not hang the construction of an object: it ends with an
  error after the maximal number of classes, and nothing is allocated.
\<close>

theorem cesk_object_new_cyclic:
  assumes "get_class_def atoms dict path = Some c" "cls_super c = Some path"
  shows "cesk_object_new atoms dict tab junk raw (Some path) ts = Some (None, ts)"
  using class_chain_cycle [OF assms, of tab "[]" "[]"] by (simp add: cesk_object_new_def)

subsection \<open>Access to a field\<close>

lemma find_struct_first:
  assumes "i < length ss" "struct_path (ss ! i) = path" "\<And>j. j < i \<Longrightarrow> struct_path (ss ! j) \<noteq> path"
  shows "find_struct path ss k = Some (k + i, drop i ss)"
  using assms
proof (induction ss arbitrary: i k)
  case (Cons s ss)
  show ?case
  proof (cases i)
    case 0
    then show ?thesis using Cons.prems by simp
  next
    case (Suc i')
    have "struct_path s \<noteq> path" using Cons.prems(3) [of 0] Suc by simp
    moreover have "find_struct path ss (Suc k) = Some (Suc k + i', drop i' ss)"
    proof (rule Cons.IH)
      show "struct_path (ss ! j) \<noteq> path" if "j < i'" for j using Cons.prems(3) [of "Suc j"] Suc that by simp
    qed (use Cons.prems Suc in auto)
    ultimately show ?thesis using Suc by simp
  qed
qed simp

lemma get_loop_up:
  assumes "k < length ss" "\<And>j. j \<le> k \<Longrightarrow> \<not> built_in (ss ! j)"
    and "\<And>j. j < k \<Longrightarrow> get_field_def atoms dict (struct_path (ss ! j)) name = None"
    and "path = struct_path (ss ! 0)"
  shows "get_loop atoms dict want_bci name ss i path =
    (case get_field_def atoms dict (struct_path (ss ! k)) name of
       Some f \<Rightarrow> Some (GetField (i + k) (nat (fld_offset f)))
     | None \<Rightarrow> if Suc k < length ss then get_loop atoms dict want_bci name (drop (Suc k) ss) (i + Suc k) (struct_path (ss ! Suc k)) else None)"
  using assms
proof (induction ss arbitrary: i k path)
  case (Cons s ss)
  obtain c tab where s: "s = UdefStruct c tab" using Cons.prems(2) [of 0] by (cases s) auto
  show ?case
  proof (cases k)
    case 0
    then show ?thesis using s Cons.prems(4) by (cases ss) (auto split: option.split)
  next
    case (Suc k')
    then have ss: "ss \<noteq> []" using Cons.prems(1) by auto
    have none: "get_field_def atoms dict path name = None" using Cons.prems(3) [of 0] Suc Cons.prems(4) by simp
    have IH: "get_loop atoms dict want_bci name ss (Suc i) (struct_path (ss ! 0)) =
      (case get_field_def atoms dict (struct_path (ss ! k')) name of
         Some f \<Rightarrow> Some (GetField (Suc i + k') (nat (fld_offset f)))
       | None \<Rightarrow> if Suc k' < length ss then get_loop atoms dict want_bci name (drop (Suc k') ss) (Suc i + Suc k') (struct_path (ss ! Suc k'))
                 else None)"
    proof (rule Cons.IH)
      show "k' < length ss" using Cons.prems(1) Suc by simp
      show "\<not> built_in (ss ! j)" if "j \<le> k'" for j using Cons.prems(2) [of "Suc j"] Suc that by simp
      show "get_field_def atoms dict (struct_path (ss ! j)) name = None" if "j < k'" for j
        using Cons.prems(3) [of "Suc j"] Suc that by simp
    qed simp
    then show ?thesis using s none ss Suc by (cases ss) (auto split: option.split)
  qed
qed simp

text \<open>
  The access to a field starts at the structure of the given class and goes up to the first class
  that declares a field of the name. If the classes up to the last structure are user-defined and none
  declares it, the code reads a class path behind the end of the object.
\<close>

theorem cesk_object_get_nearest:
  assumes "i \<le> k" "k < obj_depth obj" "struct_path (obj_members obj ! i) = path"
    and "\<forall>j < i. struct_path (obj_members obj ! j) \<noteq> path"
    and "\<forall>j. i \<le> j \<longrightarrow> j \<le> k \<longrightarrow> \<not> built_in (obj_members obj ! j)"
    and "\<forall>j. i \<le> j \<longrightarrow> j < k \<longrightarrow> get_field_def atoms dict (struct_path (obj_members obj ! j)) name = None"
  shows "(\<forall>f. get_field_def atoms dict (struct_path (obj_members obj ! k)) name = Some f \<longrightarrow>
            cesk_object_get atoms dict (Some obj) (Some path) (Some name) want_bci = Some (GetField k (nat (fld_offset f)))) \<and>
         (get_field_def atoms dict (struct_path (obj_members obj ! k)) name = None \<and> Suc k = obj_depth obj \<longrightarrow>
            cesk_object_get atoms dict (Some obj) (Some path) (Some name) want_bci = None)"
proof -
  let ?ss = "obj_members obj"
  have find: "find_struct path ?ss 0 = Some (i, drop i ?ss)"
    using find_struct_first [of i ?ss path 0] assms(1-4) by simp
  have "get_loop atoms dict want_bci name (drop i ?ss) i path =
    (case get_field_def atoms dict (struct_path (drop i ?ss ! (k - i))) name of
       Some f \<Rightarrow> Some (GetField (i + (k - i)) (nat (fld_offset f)))
     | None \<Rightarrow> if Suc (k - i) < length (drop i ?ss)
               then get_loop atoms dict want_bci name (drop (Suc (k - i)) (drop i ?ss)) (i + Suc (k - i)) (struct_path (drop i ?ss ! Suc (k - i)))
               else None)"
    using assms by (intro get_loop_up) auto
  then show ?thesis using find assms(1,2) by (auto simp: cesk_object_get_def)
qed

subsection \<open>Comparison and copies\<close>

text \<open>What the functions of a built-in class promise about comparison, hash code and copies.\<close>

definition bci_equal_ok :: "'d bci_class \<Rightarrow> bool" where
  "bci_equal_ok c \<longleftrightarrow> (\<exists>g. bci_equal c = Some g \<and> (\<forall>d d'. g d d' = (if d = d' then 1 else 0)))"

definition bci_copy_ok :: "'d bci_class \<Rightarrow> bool" where
  "bci_copy_ok c \<longleftrightarrow> (\<forall>g d. bci_duplicate c = Some g \<longrightarrow> fst (g d d) \<ge> 0 \<and> snd (g d d) = d)"

text \<open>The shape of an object: user-defined structures, then the built-in ones.\<close>

definition object_shape :: "'d cesk_object \<Rightarrow> bool" where
  "object_shape obj \<longleftrightarrow> obj_builtin obj + obj_nbuiltin obj = obj_depth obj \<and>
     (\<forall>i < obj_depth obj. built_in (obj_members obj ! i) \<longleftrightarrow> obj_builtin obj \<le> i)"

lemma equal_tabs:
  "length tab = length tab' \<Longrightarrow> list_ex (\<lambda>j. tab ! j \<noteq> tab' ! j) [0..<length tab] \<longleftrightarrow> tab \<noteq> tab'"
  unfolding list_ex_iff by (metis atLeastLessThan_iff le0 nth_equalityI set_upt)

lemma equal_loop_step:
  "equal_loop (Suc n) (UdefStruct c tab # us) (UdefStruct c' tab' # vs) = (if tab = tab' then equal_loop n us vs else Some 0)"
proof (cases "length tab = length tab'")
  case True
  then show ?thesis using equal_tabs [OF True] by simp
qed auto

lemma equal_loop_udef:
  assumes "map struct_class us = map struct_class vs" "\<forall>s \<in> set us. \<not> built_in s"
  shows "equal_loop (length us + n) (us @ ss) (vs @ ts) = (if us = vs then equal_loop n ss ts else Some 0)"
  using assms
proof (induction us arbitrary: vs)
  case (Cons u us)
  obtain v vs' where vs: "vs = v # vs'" "struct_class u = struct_class v" "map struct_class us = map struct_class vs'"
    using Cons.prems(1) by (cases vs) simp_all
  obtain c tab where u: "u = UdefStruct c tab" using Cons.prems(2) by (cases u) simp_all
  obtain tab' where v: "v = UdefStruct c tab'" using vs(2) u by (cases v) simp_all
  have "equal_loop (length us + n) (us @ ss) (vs' @ ts) = (if us = vs' then equal_loop n ss ts else Some 0)"
    using Cons.prems(2) by (intro Cons.IH vs(3)) simp
  then show ?case by (cases "us = vs'") (simp_all add: vs(1) u v equal_loop_step del: equal_loop.simps)
qed simp

lemma equal_loop_bci:
  assumes "bci_equal_ok (wrap_class w)" "0 < n"
  shows "equal_loop n (BciStruct w d # ss) (BciStruct w d' # ts) = Some (if d = d' then 1 else 0)"
  using assms(2)
proof (induction n)
  case (Suc n)
  have rc: "bci_class_equal (Some d) (Some d') (Some (wrap_class w)) = (if d = d' then 1 else 0)"
    using assms(1) by (auto simp: bci_equal_ok_def bci_class_equal_def)
  then show ?case using Suc by (cases n) auto
qed simp

lemma shape_split:
  assumes "object_shape obj"
  shows "obj_members obj = take (obj_builtin obj) (obj_members obj) @ drop (obj_builtin obj) (obj_members obj)"
    and "\<forall>s \<in> set (take (obj_builtin obj) (obj_members obj)). \<not> built_in s"
    and "\<forall>s \<in> set (drop (obj_builtin obj) (obj_members obj)). built_in s"
    and "length (drop (obj_builtin obj) (obj_members obj)) = obj_nbuiltin obj"
    and "length (take (obj_builtin obj) (obj_members obj)) = obj_builtin obj"
  using assms by (auto simp: object_shape_def in_set_conv_nth)

text \<open>
  Objects of the same classes with at most one built-in class compare equal exactly when their
  fields, their built-in data and their tags are the same, and then their hash codes agree.
\<close>

theorem cesk_object_equal_correct:
  assumes "object_shape f" "object_shape g" "obj_nbuiltin f \<le> 1" "obj_members f \<noteq> []"
    and "map struct_class (obj_members f) = map struct_class (obj_members g)"
    and "\<forall>w d. BciStruct w d \<in> set (obj_members f) \<longrightarrow> bci_equal_ok (wrap_class w)"
    and "obj_tags f = Some p" "tag_sets ts p = Some t" "tag_ok t" "obj_tags g = Some q" "tag_sets ts q = Some u" "tag_ok u"
  shows "cesk_object_equal class_addr (Some f) (Some g) ts =
      Some (if obj_members f = obj_members g \<and> ts_data t = ts_data u then 1 else 0) \<and>
    (cesk_object_equal class_addr (Some f) (Some g) ts = Some 1 \<longrightarrow>
      cesk_object_hashcode class_addr f ts = cesk_object_hashcode class_addr g ts)"
proof -
  have len: "obj_depth f = obj_depth g" using assms(5) map_eq_imp_length_eq by blast
  have same: "struct_class (obj_members f ! i) = struct_class (obj_members g ! i)" if "i < obj_depth f" for i
    using assms(5) that len by (metis nth_map)
  have bi: "built_in s = built_in s'" if "struct_class s = struct_class s'" for s s' :: "'a object_struct"
    using that by (cases s; cases s') auto
  have "obj_builtin f = obj_builtin g"
  proof -
    have "(obj_builtin f \<le> i) = (obj_builtin g \<le> i)" if "i < obj_depth f" for i
      using assms(1,2) bi [OF same [OF that]] that len by (simp add: object_shape_def)
    moreover have "obj_builtin f \<le> obj_depth f" "obj_builtin g \<le> obj_depth f" using assms(1,2) len by (auto simp: object_shape_def)
    ultimately show ?thesis by (metis le_antisym le_less_linear le_refl not_le order_less_le)
  qed
  then have k: "take (obj_builtin f) (obj_members g) @ drop (obj_builtin f) (obj_members g) = obj_members g" by simp
  let ?us = "take (obj_builtin f) (obj_members f)" and ?vs = "take (obj_builtin f) (obj_members g)"
  let ?ss = "drop (obj_builtin f) (obj_members f)" and ?ts = "drop (obj_builtin f) (obj_members g)"
  note S = shape_split [OF assms(1)]
  have cls: "map struct_class ?us = map struct_class ?vs" "map struct_class ?ss = map struct_class ?ts"
    using assms(5) by (simp_all flip: take_map drop_map)
  have tail: "equal_loop (obj_nbuiltin f) ?ss ?ts = Some (if ?ss = ?ts then 1 else 0)"
  proof (cases ?ss)
    case Nil
    then show ?thesis using S(4) cls(2) by simp
  next
    case (Cons s ss)
    then have one: "ss = []" "obj_nbuiltin f = 1" using S(4) assms(3) by (cases ss; simp)+
    obtain w d where s: "s = BciStruct w d" using S(3) Cons by (cases s) auto
    obtain t' where t': "?ts = [t']" "struct_class t' = struct_class s" using cls(2) Cons one by auto
    then obtain d' where d': "t' = BciStruct w d'" using s by (cases t') auto
    have "BciStruct w d \<in> set (obj_members f)" using Cons s by (metis in_set_dropD list.set_intros(1))
    then have "bci_equal_ok (wrap_class w)" using assms(6) by blast
    then show ?thesis using equal_loop_bci [of w 1 d "[]" d' "[]"] Cons one s t'(1) d' by simp
  qed
  have loop: "equal_loop (obj_depth f) (obj_members f) (obj_members g) = Some (if obj_members f = obj_members g then 1 else 0)"
  proof -
    have "obj_depth f = length ?us + obj_nbuiltin f" using S(5) assms(1) by (simp add: object_shape_def)
    then have "equal_loop (obj_depth f) (?us @ ?ss) (?vs @ ?ts) = (if ?us = ?vs then equal_loop (obj_nbuiltin f) ?ss ?ts else Some 0)"
      using equal_loop_udef [OF cls(1) S(2), of "obj_nbuiltin f" ?ss ?ts] by simp
    moreover have "obj_members f = obj_members g \<longleftrightarrow> ?us = ?vs \<and> ?ss = ?ts"
      by (metis append_take_drop_id)
    ultimately show ?thesis using tail by (simp add: k)
  qed
  obtain s ss s' ss' where cons: "obj_members f = s # ss" "obj_members g = s' # ss'"
    using assms(4) len by (cases "obj_members f"; cases "obj_members g") auto
  have hd: "struct_class s = struct_class s'" using same [of 0] cons by simp
  have eq: "cesk_object_equal class_addr (Some f) (Some g) ts =
      Some (if obj_members f = obj_members g \<and> ts_data t = ts_data u then 1 else 0)"
    using loop cons hd len assms(7,8,10,11) tag_equal_iff [OF assms(9,12)]
    by (simp add: cesk_object_equal_def del: equal_loop.simps)
  moreover have "cesk_object_hashcode class_addr f ts = cesk_object_hashcode class_addr g ts"
    if "obj_members f = obj_members g" "ts_data t = ts_data u"
    using that assms(7-12) by (simp add: cesk_object_hashcode_def tag_set_hashcode_def tag_ok_def split: list.split)
  ultimately show ?thesis by auto
qed

text \<open>
  The comparison of objects does not move on behind a built-in structure, so of several built-in
  classes only the first one is compared: the data of the others has no influence on the result.
\<close>

theorem cesk_object_equal_ignores_builtins:
  assumes "\<forall>s \<in> set us. \<not> built_in s" "bci_equal_ok (wrap_class w)"
    and "obj_members f = us @ BciStruct w d # bs" "obj_members g = us @ BciStruct w d # bs'" "length bs = length bs'"
    and "obj_tags f = Some p" "tag_sets ts p = Some t" "tag_ok t" "obj_tags g = Some q" "tag_sets ts q = Some u" "tag_ok u"
    and "ts_data t = ts_data u"
  shows "cesk_object_equal class_addr (Some f) (Some g) ts = Some 1"
proof -
  have "obj_depth f = length us + Suc (length bs)" using assms(3) by simp
  then have loop: "equal_loop (obj_depth f) (obj_members f) (obj_members g) = Some 1"
    using equal_loop_udef [OF refl assms(1), of "Suc (length bs)"] equal_loop_bci [OF assms(2), of "Suc (length bs)" d bs d bs']
    by (simp add: assms(3,4) del: equal_loop.simps)
  obtain s ss s' ss' where cons: "obj_members f = s # ss" "obj_members g = s' # ss'" "struct_class s = struct_class s'"
    using assms(3,4) by (cases us) auto
  have "obj_depth f = obj_depth g" using assms(3-5) by simp
  then show ?thesis using loop cons assms(6,7,9,10,12) tag_equal_iff [OF assms(8,11)]
    by (simp add: cesk_object_equal_def del: equal_loop.simps)
qed

lemma dup_loop_copy:
  assumes "\<forall>s \<in> set ss. built_in s" "\<forall>w d. BciStruct w d \<in> set ss \<longrightarrow> bci_copy_ok (wrap_class w)"
  shows "dup_loop (length ss) ss = Some (Some ss)"
  using assms
proof (induction ss)
  case (Cons s ss)
  obtain w d where s: "s = BciStruct w d" using Cons.prems(1) by (cases s) simp_all
  have "bci_copy_ok (wrap_class w)" using Cons.prems(2) s by simp
  then have "fst (bci_class_duplicate (Some d) d (Some (wrap_class w))) \<ge> 0 \<and> snd (bci_class_duplicate (Some d) d (Some (wrap_class w))) = d"
    by (auto simp: bci_copy_ok_def bci_class_duplicate_def split: option.split)
  moreover have "dup_loop (length ss) ss = Some (Some ss)" using Cons.prems by (intro Cons.IH) auto
  ultimately show ?case using s by (auto simp: case_prod_beta)
qed simp

text \<open>
  A copy of an object has the same structures as the original and shares its tag set, whose counter
  is increased by one, when the built-in classes copy their data faithfully.
\<close>

theorem cesk_object_duplicate_correct:
  assumes "object_shape obj" "\<forall>w d. BciStruct w d \<in> set (obj_members obj) \<longrightarrow> bci_copy_ok (wrap_class w)"
    and "obj_tags obj = Some p" "tag_sets ts p = Some t"
  shows "cesk_object_duplicate obj ts =
    Some (Some obj, ts\<lparr>tag_sets := (tag_sets ts)(p \<mapsto> t\<lparr>ts_refcnt := ts_refcnt t + 1\<rparr>)\<rparr>)"
proof -
  note S = shape_split [OF assms(1)]
  have "\<forall>w d. BciStruct w d \<in> set (drop (obj_builtin obj) (obj_members obj)) \<longrightarrow> bci_copy_ok (wrap_class w)"
    using assms(2) by (meson in_set_dropD)
  then have "dup_loop (obj_nbuiltin obj) (drop (obj_builtin obj) (obj_members obj)) = Some (Some (drop (obj_builtin obj) (obj_members obj)))"
    using dup_loop_copy [OF S(3)] S(4) by simp
  then show ?thesis using assms(3) tag_incref_eq [OF assms(4)] by (simp add: cesk_object_duplicate_def tag_set_fork_def)
qed

subsection \<open>The test against a type\<close>

text \<open>
  The test whether an object is an instance of a type is wrong in two ways. For the object's own
  class the result is 1, which is the address of an object and no truth value; and for the first class
  of an object only its first interface is looked at, so a second interface is reported as not implemented.
\<close>

theorem cesk_object_instance_of_wrong:
  assumes "obj_members obj = [UdefStruct c tab]"
  shows "cesk_object_instance_of junk obj (TObject (cls_path c)) = 1 \<and>
    (\<forall>a b rest. cls_implements c = a # b # rest \<longrightarrow> b \<noteq> a \<longrightarrow> b \<noteq> cls_path c \<longrightarrow>
       cesk_object_instance_of junk obj (TObject b) = CESK_STORE_ADDR_ZERO)"
  using assms by (simp add: cesk_object_instance_of_def implements_at_def)

subsection \<open>Examples\<close>

text \<open>A class with two fields, a built-in class with numbers as its data, and a dictionary that knows the class.\<close>

definition point_class :: dalvik_class where
  "point_class = \<lparr>cls_path = 7, cls_super = Some 9, cls_implements = [11, 12], cls_attrs = 0, cls_is_interface = False, cls_members = [21, 22]\<rparr>"

definition point_field :: "nat \<Rightarrow> nat \<Rightarrow> dalvik_field" where
  "point_field name ofs = \<lparr>fld_name = name, fld_path = Some 7, fld_file = None, fld_type = TAtom DALVIK_TYPECODE_INT, fld_attrs = 0,
     fld_default = None, fld_offset = int ofs\<rparr>"

definition number_class :: "nat bci_class" where
  "number_class = \<lparr>bci_size = 4, bci_finalize = None, bci_duplicate = None, bci_read = None, bci_write = None,
     bci_hash = Some of_nat, bci_equal = Some (\<lambda>a b. if a = b then 1 else 0), bci_has_reloc_ref = None, bci_merge = None,
     bci_is_instance = None, bci_get_method = None, bci_super = None, bci_provides = []\<rparr>"

definition number_wrap :: "nat bci_class_wrap" where
  "number_wrap = \<lparr>wrap_path = 9, wrap_class = number_class\<rparr>"

definition member_node :: "nat option \<Rightarrow> unit dalvik_member \<Rightarrow> unit dalvik_member memberdict_node" where
  "member_node name obj = \<lparr>md_class_path = 7, md_member_name = name, md_args = None, md_rtype = None, md_type = TYPE_FIELD, md_object = obj\<rparr>"

definition point_dict :: "unit dalvik_member memberdict" where
  "point_dict slot = [member_node None (MClass point_class), member_node (Some 21) (MField (point_field 21 0)),
     member_node (Some 22) (MField (point_field 22 1))]"

definition point_tab :: "nat bci_nametab" where
  "point_tab slot = [\<lparr>clspath = 9, def_wrap = number_wrap\<rparr>]"

definition point_object :: "nat \<Rightarrow> nat cesk_object" where
  "point_object d = \<lparr>obj_members = [UdefStruct point_class [1, 2], BciStruct number_wrap d], obj_builtin = 1, obj_nbuiltin = 1, obj_tags = Some 0\<rparr>"

lemma point_lookup:
  "get_class_def atoms point_dict 7 = Some point_class" "get_class_def atoms point_dict 9 = None"
  "get_field_def atoms point_dict 7 21 = Some (point_field 21 0)" "get_field_def atoms point_dict 7 22 = Some (point_field 22 1)"
  by (simp_all add: get_class_def_def get_field_def_def point_dict_def member_node_def dalvik_memberdict_get_class_def
      dalvik_memberdict_get_field_def dalvik_memberdict_find_object_def dalvik_type_list_equal_iff dalvik_type_equal_iff)

lemma point_fields: "fields_ok atoms point_dict point_class"
  by (auto simp: fields_ok_def point_class_def point_lookup point_field_def less_Suc_eq)

lemma point_chain: "class_chain atoms point_dict point_tab (Some 7) [] [] = Some ([point_class], [number_wrap])"
  by (simp add: class_chain.simps point_lookup bci_nametab_get_class_def bci_nametab_find_def point_tab_def number_wrap_def
      number_class_def point_class_def CESK_OBJECT_MAX_USER_DEFINED_CLASSES_def CESK_OBJECT_MAX_BUILTIN_CLASSES_def)

theorem cesk_object_new_layout_witness:
  "\<exists>ts'. cesk_object_new (\<lambda>_. 0) point_dict point_tab (\<lambda>_. 5) (\<lambda>_. 3) (Some 7) tag_boot =
     Some (Some \<lparr>obj_members = [UdefStruct point_class [CESK_STORE_ADDR_NULL, CESK_STORE_ADDR_NULL], BciStruct number_wrap 3],
       obj_builtin = 1, obj_nbuiltin = 1, obj_tags = Some 0\<rparr>, ts')"
proof -
  obtain ts' where e: "tag_set_empty tag_boot = Some (0, ts')"
    by (auto simp: tag_set_empty_def tag_set_incref_def tag_upd_def tag_boot_def)
  show ?thesis using cesk_object_new_layout [OF point_chain _ e, of "\<lambda>_. 0" "\<lambda>_. 5" "\<lambda>_. 3"] point_fields
    by (simp add: point_class_def numeral_2_eq_2)
qed

definition loop_class :: dalvik_class where
  "loop_class = point_class\<lparr>cls_super := Some 7\<rparr>"

definition loop_dict :: "unit dalvik_member memberdict" where
  "loop_dict slot = [member_node None (MClass loop_class)]"

theorem cesk_object_new_cyclic_witness:
  "cesk_object_new (\<lambda>_. 0) loop_dict point_tab (\<lambda>_. 5) (\<lambda>_. 3) (Some 7) tag_boot = Some (None, tag_boot)"
proof (rule cesk_object_new_cyclic)
  show "get_class_def (\<lambda>_. 0) loop_dict 7 = Some loop_class"
    by (simp add: get_class_def_def loop_dict_def member_node_def dalvik_memberdict_get_class_def
        dalvik_memberdict_find_object_def dalvik_type_list_equal_iff dalvik_type_equal_iff)
qed (simp add: loop_class_def)

theorem cesk_object_get_nearest_witness:
  "cesk_object_get (\<lambda>_. 0) point_dict (Some (point_object 3)) (Some 7) (Some 22) False = Some (GetField 0 1)"
  using cesk_object_get_nearest [of 0 0 "point_object 3" 7 "\<lambda>_. 0" point_dict 22 False]
  by (simp add: point_object_def point_class_def point_lookup point_field_def)

lemma point_shape: "object_shape (point_object d)"
  by (auto simp: object_shape_def point_object_def less_Suc_eq)

lemma number_ok: "bci_equal_ok number_class" "bci_copy_ok number_class"
  by (auto simp: bci_equal_ok_def bci_copy_ok_def number_class_def)

lemma boot_tag: "tag_sets tag_boot 0 = Some tag_set_empty_static" "tag_ok tag_set_empty_static"
  by (simp_all add: tag_boot_def tag_ok_def tag_set_empty_static_def tag_hash_def)

theorem cesk_object_equal_correct_witness:
  "cesk_object_equal (\<lambda>_. 0) (Some (point_object 3)) (Some (point_object 4)) tag_boot = Some 0 \<and>
   cesk_object_equal (\<lambda>_. 0) (Some (point_object 3)) (Some (point_object 3)) tag_boot = Some 1"
  using cesk_object_equal_correct [of "point_object 3" "point_object 4" 0 tag_boot tag_set_empty_static 0 tag_set_empty_static "\<lambda>_. 0"]
    cesk_object_equal_correct [of "point_object 3" "point_object 3" 0 tag_boot tag_set_empty_static 0 tag_set_empty_static "\<lambda>_. 0"]
    point_shape boot_tag number_ok
  by (simp add: point_object_def number_wrap_def)

definition two_builtins :: "nat \<Rightarrow> nat cesk_object" where
  "two_builtins d = \<lparr>obj_members = [BciStruct number_wrap 1, BciStruct number_wrap d], obj_builtin = 0, obj_nbuiltin = 2, obj_tags = Some 0\<rparr>"

theorem cesk_object_equal_ignores_builtins_witness:
  "cesk_object_equal (\<lambda>_. 0) (Some (two_builtins 3)) (Some (two_builtins 4)) tag_boot = Some 1"
  by (rule cesk_object_equal_ignores_builtins [of "[]" number_wrap _ 1 "[BciStruct number_wrap 3]" _ "[BciStruct number_wrap 4]" 0])
    (use boot_tag number_ok in \<open>simp_all add: two_builtins_def number_wrap_def\<close>)

theorem cesk_object_duplicate_correct_witness:
  "\<exists>ts'. cesk_object_duplicate (point_object 3) tag_boot = Some (Some (point_object 3), ts')"
  using cesk_object_duplicate_correct [of "point_object 3" 0 tag_boot tag_set_empty_static] point_shape boot_tag number_ok
  by (auto simp: point_object_def number_wrap_def)

theorem cesk_object_instance_of_wrong_witness:
  "cesk_object_instance_of (\<lambda>_. None)
     (\<lparr>obj_members = [UdefStruct point_class [1, 2]], obj_builtin = 1, obj_nbuiltin = 0, obj_tags = Some 0\<rparr> :: nat cesk_object)
     (TObject 12) = CESK_STORE_ADDR_ZERO"
  using cesk_object_instance_of_wrong [of "\<lparr>obj_members = [UdefStruct point_class [1, 2]], obj_builtin = 1, obj_nbuiltin = 0,
      obj_tags = Some 0\<rparr> :: nat cesk_object" point_class "[1, 2]" "\<lambda>_. None"]
  by (simp add: point_class_def)

end
