(* ===== verification/Dalvik_Class.thy ===== *)
theory Dalvik_Class
  imports Dalvik_Method Cesk_Object
begin

text \<open>
  The readers of fields and classes (\<^verbatim>\<open>src/dalvik/dalvik_field.c\<close>, \<^verbatim>\<open>src/dalvik/dalvik_class.c\<close>). A class is
  read definition by definition; its methods and fields are registered in the member dictionary under the
  path of the class while they are read, the class itself at the end. An instance field gets the next
  position among the members of its class, a static field the next number of a global counter.

  The structures are allocated without being cleared. What such memory holds is a parameter: the offset of a
  new field, the super class of a new class, and the names that a reader of the member list sees behind the
  part that is cleared. The outer \<^const>\<open>None\<close> of an operation is a write outside of an array or the use of a
  member that is not initialised.
\<close>

subsection \<open>Fields\<close>

definition DALVIK_ATTRS_STATIC :: int where "DALVIK_ATTRS_STATIC = 0x40"

definition DALVIK_CLASS_MAX_NUM_IMPLEMENTS :: nat where "DALVIK_CLASS_MAX_NUM_IMPLEMENTS = 128"

definition dalvik_field_from_sexp ::
  "nat list \<Rightarrow> int \<Rightarrow> sexp \<Rightarrow> nat option \<Rightarrow> nat option \<Rightarrow> reader \<Rightarrow> (dalvik_field option \<times> reader) option" where
  "dalvik_field_from_sexp kw junk e class_path file_name s =
     (if e = SNil then Some (None, s)
      else case sexp_match e ''(L=C?L?_?A'' [DALVIK_TOKEN_FIELD kw, 0, 0, 0, 0] of
             (True, vs) \<Rightarrow> do {
               (ty, s) \<leftarrow> read_type kw (out_sexp vs 3) s;
               (case ty of
                  None \<Rightarrow> Some (None, s)
                | Some ty \<Rightarrow>
                    let attrs = dalvik_attrs_from_sexp kw (out_sexp vs 1);
                        e = out_sexp vs 4;
                        fld = \<lparr>fld_name = out_addr vs 2, fld_path = class_path, fld_file = file_name, fld_type = ty,
                          fld_attrs = attrs, fld_default = None, fld_offset = junk\<rparr>
                    in if attrs = -1 then Some (None, s)
                       else if e \<noteq> SNil
                       then (case sexp_match e ''(S?'' [0] of
                               (True, vs) \<Rightarrow> Some (Some (fld\<lparr>fld_default := Some (out_addr vs 0)\<rparr>), s)
                             | _ \<Rightarrow> Some (None, s))
                       else Some (Some fld, s)) }
           | _ \<Rightarrow> Some (None, s))"

subsection \<open>The definitions of a class\<close>

text \<open>The modules that the reader of classes uses. Methods are numbered as they are allocated.\<close>

record class_state =
  cs_method :: method_state
  cs_dict :: "dalvik_method dalvik_member memberdict"
  cs_static_field_count :: int
  cs_next_method :: nat

text \<open>The local variables of the loop, with the members of the class that it writes.\<close>

record class_body =
  cb_source :: "nat option"
  cb_super :: "nat option"
  cb_implements :: "nat list"
  cb_members :: "nat list"
  cb_st :: class_state

abbreviation cb_reader :: "class_body \<Rightarrow> reader" where "cb_reader b \<equiv> ms_reader (cs_method (cb_st b))"
abbreviation cb_dict :: "class_body \<Rightarrow> dalvik_method dalvik_member memberdict" where "cb_dict b \<equiv> cs_dict (cb_st b)"

definition with_reader :: "reader \<Rightarrow> class_state \<Rightarrow> class_state" where
  "with_reader rd st = st\<lparr>cs_method := (cs_method st)\<lparr>ms_reader := rd\<rparr>\<rparr>"

type_synonym class_step = "(bool \<times> class_body) option"

definition class_super :: "sexp \<Rightarrow> class_body \<Rightarrow> class_step" where
  "class_super tail b = do {
     (path, _, rd) \<leftarrow> object_path tail (cb_reader b);
     Some (path \<noteq> None, b\<lparr>cb_super := path, cb_st := with_reader rd (cb_st b)\<rparr>) }"

text \<open>The null pointer that ends the list is written behind the last interface; the array has no room for it after 128 interfaces.\<close>

definition class_implements :: "sexp \<Rightarrow> class_body \<Rightarrow> class_step" where
  "class_implements tail b =
     (if length (cb_implements b) \<ge> DALVIK_CLASS_MAX_NUM_IMPLEMENTS then Some (True, b)
      else do {
        (path, _, rd) \<leftarrow> object_path tail (cb_reader b);
        let b = b\<lparr>cb_st := with_reader rd (cb_st b)\<rparr>;
        (case path of
           None \<Rightarrow> Some (False, b)
         | Some path \<Rightarrow>
             if Suc (length (cb_implements b)) < DALVIK_CLASS_MAX_NUM_IMPLEMENTS
             then Some (True, b\<lparr>cb_implements := cb_implements b @ [path]\<rparr>) else None) })"

definition class_method :: "nat list \<Rightarrow> atom_table \<Rightarrow> nat \<Rightarrow> sexp \<Rightarrow> class_body \<Rightarrow> class_step" where
  "class_method kw atoms path this_def b =
     (let st = cb_st b in do {
        (m, ms) \<leftarrow> dalvik_method_from_sexp kw this_def (Some path) (cb_source b) (cs_next_method st) (cs_method st);
        let st = st\<lparr>cs_method := ms, cs_next_method := Suc (cs_next_method st)\<rparr>;
        (case m of
           None \<Rightarrow> Some (False, b\<lparr>cb_st := st\<rparr>)
         | Some m \<Rightarrow> do {
             rtype \<leftarrow> dm_return_type m;
             let (rc, dict) = dalvik_memberdict_register_method atoms path
               (Some (dm_name m, dm_args_type m, rtype, MMethod m)) (cs_dict st);
             Some (\<not> rc < 0, b\<lparr>cb_st := st\<lparr>cs_dict := dict\<rparr>\<rparr>) }) })"

text \<open>\<open>n\<close> is the number of definitions; the array of members has one more cell.\<close>

definition class_field :: "nat list \<Rightarrow> atom_table \<Rightarrow> int \<Rightarrow> nat \<Rightarrow> nat \<Rightarrow> sexp \<Rightarrow> class_body \<Rightarrow> class_step" where
  "class_field kw atoms junk n path this_def b = do {
     (fld, rd) \<leftarrow> dalvik_field_from_sexp kw junk this_def (Some path) (cb_source b) (cb_reader b);
     let b = b\<lparr>cb_st := with_reader rd (cb_st b)\<rparr>;
     (case fld of
        None \<Rightarrow> Some (False, b)
      | Some fld \<Rightarrow> do {
          (fld, b) \<leftarrow>
            (if fld_attrs fld AND DALVIK_ATTRS_STATIC = 0
             then if length (cb_members b) \<le> n
                  then Some (fld\<lparr>fld_offset := int (length (cb_members b))\<rparr>, b\<lparr>cb_members := cb_members b @ [fld_name fld]\<rparr>)
                  else None
             else Some (fld\<lparr>fld_offset := cs_static_field_count (cb_st b)\<rparr>,
                        b\<lparr>cb_st := (cb_st b)\<lparr>cs_static_field_count := cs_static_field_count (cb_st b) + 1\<rparr>\<rparr>));
          let (rc, dict) = dalvik_memberdict_register_field atoms path (Some (fld_name fld, MField fld)) (cb_dict b);
          Some (\<not> rc < 0, b\<lparr>cb_st := (cb_st b)\<lparr>cs_dict := dict\<rparr>\<rparr>) }) }"

text \<open>The name of the source file is stored as soon as a string is found, even when more follows and the pattern does not match.\<close>

definition class_definition :: "nat list \<Rightarrow> atom_table \<Rightarrow> int \<Rightarrow> nat \<Rightarrow> nat \<Rightarrow> sexp \<Rightarrow> class_body \<Rightarrow> class_step" where
  "class_definition kw atoms junk n path this_def b =
     (case sexp_match this_def ''(L=S?'' [DALVIK_TOKEN_SOURCE kw, 0] of
        (source, vs) \<Rightarrow>
          let b = b\<lparr>cb_source := (case map_of vs 1 of Some (MAddr a) \<Rightarrow> Some a | _ \<Rightarrow> cb_source b)\<rparr>
          in if source then Some (True, b)
             else (case key_rest (DALVIK_TOKEN_SUPER kw) this_def of
                     Some tail \<Rightarrow> class_super tail b
                   | None \<Rightarrow>
                  (case key_rest (DALVIK_TOKEN_IMPLEMENTS kw) this_def of
                     Some tail \<Rightarrow> class_implements tail b
                   | None \<Rightarrow>
                       if key_rest (DALVIK_TOKEN_ANNOTATION kw) this_def \<noteq> None then Some (True, b)
                       else (case lit_rest this_def of
                               None \<Rightarrow> Some (False, b)
                             | Some (firstlit, tail) \<Rightarrow>
                                 if firstlit = DALVIK_TOKEN_METHOD kw then class_method kw atoms path this_def b
                                 else if firstlit = DALVIK_TOKEN_FIELD kw then class_field kw atoms junk n path this_def b
                                 else Some (True, b)))))"

function class_loop :: "nat list \<Rightarrow> atom_table \<Rightarrow> int \<Rightarrow> nat \<Rightarrow> nat \<Rightarrow> sexp \<Rightarrow> class_body \<Rightarrow> class_step" where
  "class_loop kw atoms junk n path e b =
     (if e = SNil then Some (True, b)
      else case list_rest e of
             None \<Rightarrow> Some (False, b)
           | Some (this_def, e) \<Rightarrow>
               (case class_definition kw atoms junk n path this_def b of
                  None \<Rightarrow> None
                | Some (ok, b) \<Rightarrow> if ok then class_loop kw atoms junk n path e b else Some (False, b)))"
  by pat_completeness auto
termination
  by (relation "measure (\<lambda>(kw, atoms, junk, n, path, e, b). size e)") (auto dest: list_rest_size)

declare class_loop.simps [simp del]

subsection \<open>Classes\<close>

text \<open>What the memory of a new class and of new fields holds.\<close>

record class_junk =
  jk_offset :: int
  jk_super :: "nat option"
  jk_members :: "nat list"

text \<open>One cell of the member list is not cleared: when all definitions are instance fields, the list has no end of its own.\<close>

definition class_of :: "class_junk \<Rightarrow> nat \<Rightarrow> nat \<Rightarrow> int \<Rightarrow> bool \<Rightarrow> class_body \<Rightarrow> dalvik_class" where
  "class_of junk n path attrs is_interface b =
     \<lparr>cls_path = path, cls_super = cb_super b, cls_implements = cb_implements b, cls_attrs = attrs,
      cls_is_interface = is_interface, cls_members = cb_members b @ (if length (cb_members b) < n then [] else jk_members junk)\<rparr>"

definition dalvik_class_from_sexp ::
  "nat list \<Rightarrow> atom_table \<Rightarrow> class_junk \<Rightarrow> sexp \<Rightarrow> class_state \<Rightarrow> (dalvik_class option \<times> class_state) option" where
  "dalvik_class_from_sexp kw atoms junk e st =
     (if e = SNil then Some (None, st)
      else case sexp_match e ''(L?C?A'' [0, 0, 0] of
             (True, vs) \<Rightarrow>
               if out_addr vs 0 \<noteq> DALVIK_TOKEN_CLASS kw \<and> out_addr vs 0 \<noteq> DALVIK_TOKEN_INTERFACE kw then Some (None, st)
               else if dalvik_attrs_from_sexp kw (out_sexp vs 1) < 0 then Some (None, st)
               else do {
                 (class_path, e, rd) \<leftarrow> object_path (out_sexp vs 2) (ms_reader (cs_method st));
                 let st = with_reader rd st;
                 (case class_path of
                    None \<Rightarrow> Some (None, st)
                  | Some path \<Rightarrow> do {
                      let n = sexp_length e;
                      (ok, b) \<leftarrow> class_loop kw atoms (jk_offset junk) n path e
                        \<lparr>cb_source = None, cb_super = jk_super junk, cb_implements = [], cb_members = [], cb_st = st\<rparr>;
                      if ok
                      then let c = class_of junk n path (dalvik_attrs_from_sexp kw (out_sexp vs 1)) (out_addr vs 0 \<noteq> DALVIK_TOKEN_CLASS kw) b;
                               (rc, dict) = dalvik_memberdict_register_class atoms path (Some (MClass c)) (cb_dict b);
                               st = (cb_st b)\<lparr>cs_dict := dict\<rparr>
                           in Some (if rc < 0 then None else Some c, st)
                      else Some (None, cb_st b) }) }
           | _ \<Rightarrow> Some (None, st))"

subsection \<open>Registering only adds\<close>

text \<open>Every member that a dictionary has is found in the later one.\<close>

definition dict_le :: "atom_table \<Rightarrow> 'o memberdict \<Rightarrow> 'o memberdict \<Rightarrow> bool" where
  "dict_le atoms d d' \<longleftrightarrow> (\<forall>path name args rtype ty obj. kind_ok (path, name, args, rtype, ty) \<longrightarrow>
     dalvik_memberdict_find_object atoms path name args rtype ty d = Some obj \<longrightarrow>
     dalvik_memberdict_find_object atoms path name args rtype ty d' = Some obj)"

lemma dict_le_refl [simp]: "dict_le atoms d d"
  by (simp add: dict_le_def)

lemma dict_le_trans: "dict_le atoms d d' \<Longrightarrow> dict_le atoms d' d'' \<Longrightarrow> dict_le atoms d d''"
  by (simp add: dict_le_def)

lemma dict_le_field: "dict_le atoms d d' \<Longrightarrow> get_field_def atoms d path name = Some f \<Longrightarrow> get_field_def atoms d' path name = Some f"
  unfolding dict_le_def get_field_def_def dalvik_memberdict_get_field_def using kind_ok_kinds(2)
  by (fastforce split: option.splits dalvik_member.splits)

lemma register_object_le:
  assumes "dict_ok d" "kind_ok (path, name, args, rtype, ty)" "dalvik_memberdict_register_object atoms path name args rtype ty obj d = (rc, d')"
  shows "dict_ok d'" "dict_le atoms d d'" "\<not> rc < 0 \<Longrightarrow> dalvik_memberdict_find_object atoms path name args rtype ty d' = Some obj"
proof -
  show "dict_ok d'" by (rule register_object_ok [OF assms])
  have "dict_le atoms d d' \<and> (\<not> rc < 0 \<longrightarrow> dalvik_memberdict_find_object atoms path name args rtype ty d' = Some obj)"
  proof (cases "dalvik_memberdict_find_object atoms path name args rtype ty d = None")
    case True
    note new = register_object_new(2) [OF assms True]
    show ?thesis using True unfolding dict_le_def by (auto simp: new assms(2))
  next
    case False
    then show ?thesis using register_object_twice [OF assms False] by simp
  qed
  then show "dict_le atoms d d'" "\<not> rc < 0 \<Longrightarrow> dalvik_memberdict_find_object atoms path name args rtype ty d' = Some obj" by blast+
qed

text \<open>Fields of the dictionary after the registration of a member of any kind.\<close>

lemma register_fields:
  assumes "dict_ok d" "kind_ok (path, name, args, rtype, ty)"
    and "dalvik_memberdict_register_object atoms path name args rtype ty obj d = (rc, d')"
  shows "get_field_def atoms d' p n =
    (if \<not> rc < 0 \<and> (path, name, args, rtype, ty) = (p, Some n, None, None, TYPE_FIELD) then (case obj of MField f \<Rightarrow> Some f | _ \<Rightarrow> None)
     else get_field_def atoms d p n)"
proof (cases "dalvik_memberdict_find_object atoms path name args rtype ty d = None")
  case True
  note new = register_object_new [OF assms True]
  show ?thesis using new(1) new(2) [OF kind_ok_kinds(2), of p n None]
    by (auto simp: get_field_def_def dalvik_memberdict_get_field_def)
next
  case False
  then show ?thesis using register_object_twice [OF assms False] by simp
qed

subsection \<open>What the loop over the definitions keeps\<close>

text \<open>A definition that is neither a method nor a field leaves members, dictionary and counter alone.\<close>

definition same_members :: "class_body \<Rightarrow> class_body \<Rightarrow> bool" where
  "same_members b b' \<longleftrightarrow> cb_members b' = cb_members b \<and> cb_dict b' = cb_dict b \<and>
     cs_static_field_count (cb_st b') = cs_static_field_count (cb_st b)"

lemma same_members_super: "class_super tail b = Some (ok, b') \<Longrightarrow> same_members b b'"
  by (auto simp: class_super_def same_members_def with_reader_def bind_eq_Some_conv)

lemma same_members_implements: "class_implements tail b = Some (ok, b') \<Longrightarrow> same_members b b'"
  by (auto simp: class_implements_def same_members_def with_reader_def bind_eq_Some_conv Let_def split: if_splits option.splits)

lemma class_definition_cases:
  assumes "class_definition kw atoms junk n path this_def b = Some (ok, b')"
  obtains "same_members b b'"
    | b1 where "same_members b b1" "class_method kw atoms path this_def b1 = Some (ok, b')"
    | b1 where "same_members b b1" "class_field kw atoms junk n path this_def b1 = Some (ok, b')"
proof -
  obtain vs source where m: "sexp_match this_def ''(L=S?'' [DALVIK_TOKEN_SOURCE kw, 0] = (source, vs)" by fastforce
  define b1 where "b1 = b\<lparr>cb_source := (case map_of vs 1 of Some (MAddr a) \<Rightarrow> Some a | _ \<Rightarrow> cb_source b)\<rparr>"
  have s: "same_members b b1" by (simp add: b1_def same_members_def)
  have t: "same_members b1 b' \<Longrightarrow> same_members b b'" using s by (simp add: same_members_def)
  have refl: "same_members b1 b1" by (simp add: same_members_def)
  have "same_members b1 b' \<or> class_method kw atoms path this_def b1 = Some (ok, b') \<or> class_field kw atoms junk n path this_def b1 = Some (ok, b')"
    using assms refl unfolding class_definition_def m prod.case b1_def [symmetric] Let_def
    by (auto split: if_splits option.splits dest: same_members_super same_members_implements)
  then show ?thesis using that s t by blast
qed

text \<open>
  What a property of the state needs so that reading the definitions of a class keeps it. The flag tells
  whether the definition has been read or the reader is on its way to the error exit.
\<close>

locale class_contract =
  fixes kw :: "nat list" and atoms :: atom_table and junk :: int and n :: nat and path :: nat
    and good :: "bool \<Rightarrow> class_body \<Rightarrow> bool"
  assumes good_same: "good True b \<Longrightarrow> same_members b b' \<Longrightarrow> good ok b'"
    and good_method: "good True b \<Longrightarrow> class_method kw atoms path e b = Some (ok, b') \<Longrightarrow> good ok b'"
    and good_field: "good True b \<Longrightarrow> class_field kw atoms junk n path e b = Some (ok, b') \<Longrightarrow> good ok b'"
begin

lemma good_definition:
  assumes "class_definition kw atoms junk n path e b = Some (ok, b')" "good True b"
  shows "good ok b'"
  using assms(1)
proof (cases rule: class_definition_cases)
  case 1
  then show ?thesis by (rule good_same [OF assms(2)])
next
  case (2 b1)
  show ?thesis by (rule good_method [OF good_same [OF assms(2) 2(1)] 2(2)])
next
  case (3 b1)
  show ?thesis by (rule good_field [OF good_same [OF assms(2) 3(1)] 3(2)])
qed

lemma good_loop: "class_loop kw atoms junk n path e b = Some (ok, b') \<Longrightarrow> good True b \<Longrightarrow> good ok b'"
proof (induction "size e" arbitrary: e b rule: less_induct)
  case less
  show ?case
  proof (cases "e = SNil")
    case True
    then show ?thesis using less.prems by (subst (asm) class_loop.simps) simp
  next
    case False
    show ?thesis
    proof (cases "list_rest e")
      case None
      then show ?thesis using False less.prems good_same [of b b False] by (subst (asm) class_loop.simps) (simp add: same_members_def)
    next
      case (Some r)
      then obtain d rest where r: "list_rest e = Some (d, rest)" by (cases r) simp
      obtain ok1 b1 where d: "class_definition kw atoms junk n path d b = Some (ok1, b1)"
        "if ok1 then class_loop kw atoms junk n path rest b1 = Some (ok, b') else ok = False \<and> b' = b1"
        using less.prems(1) False r by (subst (asm) class_loop.simps) (auto split: option.splits if_splits)
      have "good ok1 b1" by (rule good_definition [OF d(1) less.prems(2)])
      then show ?thesis using d(2) less.hyps [OF list_rest_size [OF r]] by (cases ok1) auto
    qed
  qed
qed

end

subsection \<open>Members and their offsets\<close>

text \<open>After the definitions that have been read, the members of the class are fields of the dictionary with their positions as offsets.\<close>

definition members_good :: "atom_table \<Rightarrow> nat \<Rightarrow> dalvik_method dalvik_member memberdict \<Rightarrow> bool \<Rightarrow> class_body \<Rightarrow> bool" where
  "members_good atoms path d0 ok b \<longleftrightarrow> dict_ok (cb_dict b) \<and> dict_le atoms d0 (cb_dict b) \<and>
     (ok \<longrightarrow> (\<forall>j < length (cb_members b). \<exists>f. get_field_def atoms (cb_dict b) path (cb_members b ! j) = Some f \<and> fld_offset f = int j))"

lemma class_method_effect:
  assumes "class_method kw atoms path e b = Some (ok, b')"
  shows "cb_members b' = cb_members b \<and> cs_static_field_count (cb_st b') = cs_static_field_count (cb_st b) \<and> (cb_dict b' = cb_dict b \<or>
    (\<exists>m rtype rc. dalvik_memberdict_register_object atoms path (Some (dm_name m)) (Some (dm_args_type m)) rtype TYPE_METHOD (MMethod m) (cb_dict b) =
      (rc, cb_dict b')))"
proof -
  let ?reg = "\<lambda>m rtype. dalvik_memberdict_register_object atoms path (Some (dm_name m)) (Some (dm_args_type m)) rtype TYPE_METHOD (MMethod m) (cb_dict b)"
  obtain m ms where r: "dalvik_method_from_sexp kw e (Some path) (cb_source b) (cs_next_method (cb_st b)) (cs_method (cb_st b)) = Some (m, ms)"
    using assms by (auto simp: class_method_def Let_def bind_eq_Some_conv)
  show ?thesis
  proof (cases m)
    case None
    then show ?thesis using assms r by (auto simp: class_method_def Let_def)
  next
    case (Some m')
    then obtain rtype where t: "dm_return_type m' = Some rtype" using assms r by (auto simp: class_method_def Let_def bind_eq_Some_conv)
    obtain rc d where d: "?reg m' rtype = (rc, d)" by fastforce
    then show ?thesis using assms r Some t by (auto simp: class_method_def Let_def dalvik_memberdict_register_method_def)
  qed
qed

lemma class_field_effect:
  assumes "class_field kw atoms junk n path e b = Some (ok, b')"
  obtains "\<not> ok" "same_members b b'"
    | f rc where "dalvik_memberdict_register_object atoms path (Some (fld_name f)) None None TYPE_FIELD (MField f) (cb_dict b) = (rc, cb_dict b')"
      "ok \<longleftrightarrow> \<not> rc < 0" "fld_attrs f AND DALVIK_ATTRS_STATIC = 0" "fld_offset f = int (length (cb_members b))"
      "cb_members b' = cb_members b @ [fld_name f]" "cs_static_field_count (cb_st b') = cs_static_field_count (cb_st b)"
    | f rc where "dalvik_memberdict_register_object atoms path (Some (fld_name f)) None None TYPE_FIELD (MField f) (cb_dict b) = (rc, cb_dict b')"
      "ok \<longleftrightarrow> \<not> rc < 0" "fld_attrs f AND DALVIK_ATTRS_STATIC \<noteq> 0" "fld_offset f = cs_static_field_count (cb_st b)"
      "cb_members b' = cb_members b" "cs_static_field_count (cb_st b') = cs_static_field_count (cb_st b) + 1"
proof -
  obtain fld rd where r: "dalvik_field_from_sexp kw junk e (Some path) (cb_source b) (cb_reader b) = Some (fld, rd)"
    using assms by (auto simp: class_field_def bind_eq_Some_conv)
  show ?thesis
  proof (cases fld)
    case None
    then show ?thesis using that(1) assms r by (auto simp: class_field_def same_members_def with_reader_def)
  next
    case (Some f)
    show ?thesis
    proof (cases "fld_attrs f AND DALVIK_ATTRS_STATIC = 0")
      case True
      let ?f = "f\<lparr>fld_offset := int (length (cb_members b))\<rparr>"
      obtain rc d where d: "dalvik_memberdict_register_object atoms path (Some (fld_name f)) None None TYPE_FIELD (MField ?f) (cb_dict b) = (rc, d)"
        by fastforce
      show ?thesis using that(2) [of ?f rc] assms r Some True d
        by (auto simp: class_field_def Let_def with_reader_def dalvik_memberdict_register_field_def split: if_splits)
    next
      case False
      let ?f = "f\<lparr>fld_offset := cs_static_field_count (cb_st b)\<rparr>"
      obtain rc d where d: "dalvik_memberdict_register_object atoms path (Some (fld_name f)) None None TYPE_FIELD (MField ?f) (cb_dict b) = (rc, d)"
        by fastforce
      show ?thesis using that(3) [of ?f rc] assms r Some False d
        by (auto simp: class_field_def Let_def with_reader_def dalvik_memberdict_register_field_def)
    qed
  qed
qed

lemma members_good_later:
  assumes "members_good atoms path d0 True b" "dict_ok (cb_dict b')" "dict_le atoms (cb_dict b) (cb_dict b')" "cb_members b' = cb_members b"
  shows "members_good atoms path d0 ok b'"
proof -
  have "dict_le atoms d0 (cb_dict b')" using assms(1,3) by (auto simp: members_good_def intro: dict_le_trans)
  then show ?thesis using assms(1,2,4) dict_le_field [OF assms(3)] unfolding members_good_def by metis
qed

lemma members_good_new:
  assumes "members_good atoms path d0 True b" "dict_ok (cb_dict b')" "dict_le atoms (cb_dict b) (cb_dict b')" "cb_members b' = cb_members b @ [name]"
    and "ok \<Longrightarrow> get_field_def atoms (cb_dict b') path name = Some f" "fld_offset f = int (length (cb_members b))"
  shows "members_good atoms path d0 ok b'"
proof -
  have "members_good atoms path d0 ok (b'\<lparr>cb_members := cb_members b\<rparr>)" using members_good_later [OF assms(1)] assms(2,3) by simp
  then show ?thesis using assms(4-6) by (auto simp: members_good_def nth_append less_Suc_eq)
qed

interpretation members: class_contract kw atoms junk n path "members_good atoms path d0" for kw atoms junk n path d0
proof
  fix b b' ok
  assume g: "members_good atoms path d0 True b"
  then have d: "dict_ok (cb_dict b)" by (simp add: members_good_def)
  show "members_good atoms path d0 ok b'" if "same_members b b'"
    using members_good_later [OF g] d that by (simp add: same_members_def)
  show "members_good atoms path d0 ok b'" if "class_method kw atoms path e b = Some (ok, b')" for e
    using class_method_effect [OF that] d register_object_le(1,2) [OF d kind_ok_kinds(1)]
    by (intro members_good_later [OF g]) auto
  show "members_good atoms path d0 ok b'" if "class_field kw atoms junk n path e b = Some (ok, b')" for e
    using that
  proof (cases rule: class_field_effect)
    case 1
    then show ?thesis using members_good_later [OF g] d by (simp add: same_members_def)
  next
    case (2 f rc)
    note le = register_object_le [OF d kind_ok_kinds(2) 2(1)]
    show ?thesis using le(3) 2(2)
      by (intro members_good_new [OF g le(1,2) 2(5) _ 2(4)]) (simp add: get_field_def_def dalvik_memberdict_get_field_def)
  next
    case (3 f rc)
    show ?thesis using register_object_le(1,2) [OF d kind_ok_kinds(2) 3(1)] by (intro members_good_later [OF g _ _ 3(5)])
  qed
qed

subsection \<open>Numbers of static fields\<close>

definition is_static :: "dalvik_field \<Rightarrow> bool" where
  "is_static f \<longleftrightarrow> fld_attrs f AND DALVIK_ATTRS_STATIC \<noteq> 0"

text \<open>Static fields have numbers below the counter, and no two of them the same.\<close>

definition statics_ok :: "atom_table \<Rightarrow> class_state \<Rightarrow> bool" where
  "statics_ok atoms st \<longleftrightarrow> dict_ok (cs_dict st) \<and> 0 \<le> cs_static_field_count st \<and>
     (\<forall>path name f. get_field_def atoms (cs_dict st) path name = Some f \<longrightarrow> is_static f \<longrightarrow>
        0 \<le> fld_offset f \<and> fld_offset f < cs_static_field_count st \<and>
        (\<forall>path' name' f'. get_field_def atoms (cs_dict st) path' name' = Some f' \<longrightarrow> is_static f' \<longrightarrow> fld_offset f' = fld_offset f \<longrightarrow>
           path' = path \<and> name' = name))"

lemma statics_ok_same:
  assumes "statics_ok atoms st" "dict_ok (cs_dict st')" "cs_static_field_count st' = cs_static_field_count st"
    and "\<And>p n f. get_field_def atoms (cs_dict st') p n = Some f \<Longrightarrow> is_static f \<Longrightarrow> get_field_def atoms (cs_dict st) p n = Some f"
  shows "statics_ok atoms st'"
  using assms unfolding statics_ok_def by metis

lemma statics_ok_new:
  assumes "statics_ok atoms st" "dict_ok (cs_dict st')" "cs_static_field_count st' = cs_static_field_count st + 1"
    and new: "\<And>p n f. get_field_def atoms (cs_dict st') p n = Some f \<Longrightarrow>
      get_field_def atoms (cs_dict st) p n = Some f \<or> p = path \<and> n = name \<and> fld_offset f = cs_static_field_count st"
  shows "statics_ok atoms st'"
proof -
  have old: "0 \<le> fld_offset f" "fld_offset f < cs_static_field_count st" if "get_field_def atoms (cs_dict st) p n = Some f" "is_static f" for p n f
    using assms(1) that unfolding statics_ok_def by blast+
  have uniq: "p' = p \<and> n' = n" if "get_field_def atoms (cs_dict st) p n = Some f" "is_static f"
    "get_field_def atoms (cs_dict st) p' n' = Some f'" "is_static f'" "fld_offset f' = fld_offset f" for p n f p' n' f'
    using assms(1) that unfolding statics_ok_def by blast
  have cnt: "0 \<le> cs_static_field_count st" using assms(1) by (simp add: statics_ok_def)
  show ?thesis
    unfolding statics_ok_def
  proof (intro conjI allI impI)
    fix p n f assume f: "get_field_def atoms (cs_dict st') p n = Some f" "is_static f"
    show "0 \<le> fld_offset f" "fld_offset f < cs_static_field_count st'"
      using new [OF f(1)] old [OF _ f(2)] cnt assms(3) by fastforce+
    fix p' n' f' assume f': "get_field_def atoms (cs_dict st') p' n' = Some f'" "is_static f'" "fld_offset f' = fld_offset f"
    show "p' = p" "n' = n"
      using new [OF f(1)] new [OF f'(1)] uniq [OF _ f(2) _ f'(2,3)] old [OF _ f(2)] old [OF _ f'(2)] f'(3) by fastforce+
  qed (use assms(2,3) cnt in simp_all)
qed

interpretation statics: class_contract kw atoms junk n path "\<lambda>ok b. statics_ok atoms (cb_st b)" for kw atoms junk n path
proof
  fix b b' :: class_body and ok :: bool
  assume g: "statics_ok atoms (cb_st b)"
  then have d: "dict_ok (cb_dict b)" by (simp add: statics_ok_def)
  show "statics_ok atoms (cb_st b')" if "same_members b b'" using g that by (simp add: statics_ok_def same_members_def)
  show "statics_ok atoms (cb_st b')" if "class_method kw atoms path e b = Some (ok, b')" for e
    using class_method_effect [OF that] d register_object_le(1) [OF d kind_ok_kinds(1)] register_fields [OF d kind_ok_kinds(1)]
    by (intro statics_ok_same [OF g]) auto
  show "statics_ok atoms (cb_st b')" if "class_field kw atoms junk n path e b = Some (ok, b')" for e
    using that
  proof (cases rule: class_field_effect)
    case 1
    then show ?thesis using g by (simp add: statics_ok_def same_members_def)
  next
    case (2 f rc)
    show ?thesis using register_object_le(1) [OF d kind_ok_kinds(2) 2(1)] register_fields [OF d kind_ok_kinds(2) 2(1)] 2(3)
      by (intro statics_ok_same [OF g _ 2(6)]) (auto simp: is_static_def split: if_splits)
  next
    case (3 f rc)
    show ?thesis
    proof (rule statics_ok_new [OF g _ 3(6), of path "fld_name f"])
      show "dict_ok (cb_dict b')" by (rule register_object_le(1) [OF d kind_ok_kinds(2) 3(1)])
      show "get_field_def atoms (cb_dict b) p n = Some f' \<or> p = path \<and> n = fld_name f \<and> fld_offset f' = cs_static_field_count (cb_st b)"
        if "get_field_def atoms (cb_dict b') p n = Some f'" for p n f'
        using that register_fields [OF d kind_ok_kinds(2) 3(1), of p n] 3(4) by (simp split: if_splits)
    qed
  qed
qed

subsection \<open>Classes that have been read\<close>

text \<open>How a call ends: early, on the way through the definitions, or with the registration of the class.\<close>

lemma class_from_sexp_cases:
  assumes "dalvik_class_from_sexp kw atoms junk e st = Some (r, st')"
  obtains (early) "r = None" "cs_dict st' = cs_dict st" "cs_static_field_count st' = cs_static_field_count st"
    | (body) n path b0 e' b where "r = None" "class_loop kw atoms (jk_offset junk) n path e' b0 = Some (False, b)" "st' = cb_st b"
      "cb_dict b0 = cs_dict st" "cs_static_field_count (cb_st b0) = cs_static_field_count st" "cb_members b0 = []"
    | (registered) n path b0 e' b attrs is_interface c rc where "class_loop kw atoms (jk_offset junk) n path e' b0 = Some (True, b)"
      "cb_dict b0 = cs_dict st" "cs_static_field_count (cb_st b0) = cs_static_field_count st" "cb_members b0 = []"
      "c = class_of junk n path attrs is_interface b"
      "dalvik_memberdict_register_object atoms path None None None TYPE_CLASS (MClass c) (cb_dict b) = (rc, cs_dict st')"
      "cs_static_field_count st' = cs_static_field_count (cb_st b)" "r = (if rc < 0 then None else Some c)"
proof (cases "r = None \<and> cs_dict st' = cs_dict st \<and> cs_static_field_count st' = cs_static_field_count st")
  case True
  then show ?thesis using early by blast
next
  case False
  note s = False [simplified]
  obtain vs path rest rd where m: "sexp_match e ''(L?C?A'' [0, 0, 0] = (True, vs)"
    "object_path (out_sexp vs 2) (ms_reader (cs_method st)) = Some (Some path, rest, rd)" "e \<noteq> SNil"
    "out_addr vs 0 = DALVIK_TOKEN_CLASS kw \<or> out_addr vs 0 = DALVIK_TOKEN_INTERFACE kw" "\<not> dalvik_attrs_from_sexp kw (out_sexp vs 1) < 0"
    using assms s by (auto simp: dalvik_class_from_sexp_def bind_eq_Some_conv with_reader_def Let_def
        split: if_splits prod.splits bool.splits option.splits)
  let ?b0 = "\<lparr>cb_source = None, cb_super = jk_super junk, cb_implements = [], cb_members = [], cb_st = with_reader rd st\<rparr>"
  note u = assms [unfolded dalvik_class_from_sexp_def m(1) Let_def]
  obtain ok b where l: "class_loop kw atoms (jk_offset junk) (sexp_length rest) path rest ?b0 = Some (ok, b)"
    using u m(3-5) by (auto simp: m(1,2) bind_eq_Some_conv split: if_splits)
  show ?thesis
  proof (cases ok)
    case False
    then show ?thesis using u m(3-5) body [of "sexp_length rest" path rest ?b0 b] l by (auto simp: m(1,2) with_reader_def split: if_splits)
  next
    case True
    define c where "c = class_of junk (sexp_length rest) path (dalvik_attrs_from_sexp kw (out_sexp vs 1)) (out_addr vs 0 \<noteq> DALVIK_TOKEN_CLASS kw) b"
    obtain rc d where d: "dalvik_memberdict_register_object atoms path None None None TYPE_CLASS (MClass c) (cb_dict b) = (rc, d)" by fastforce
    have k: "(out_addr vs 0 \<noteq> DALVIK_TOKEN_CLASS kw \<and> out_addr vs 0 \<noteq> DALVIK_TOKEN_INTERFACE kw) = False" using m(4) by blast
    have "r = (if rc < 0 then None else Some c)" "st' = (cb_st b)\<lparr>cs_dict := d\<rparr>"
      using u m(3,5) True l d unfolding k
      by (auto simp: m(1,2) k dalvik_memberdict_register_class_def c_def [symmetric] simp del: One_nat_def de_Morgan_conj)
    then show ?thesis using True l d registered [OF _ _ _ _ c_def, of rest ?b0 rc] by (simp add: with_reader_def)
  qed
qed

text \<open>The dictionary as object creation needs it: classes are registered under their paths, and their fields are laid out.\<close>

definition layout_ok :: "atom_table \<Rightarrow> 'm dalvik_member memberdict \<Rightarrow> bool" where
  "layout_ok atoms d \<longleftrightarrow> dict_ok d \<and> (\<forall>path c. get_class_def atoms d path = Some c \<longrightarrow> cls_path c = path \<and> fields_ok atoms d c)"

lemma fields_ok_le: "dict_le atoms d d' \<Longrightarrow> fields_ok atoms d c \<Longrightarrow> fields_ok atoms d' c"
  unfolding fields_ok_def using dict_le_field by metis

lemma register_classes:
  assumes "dict_ok d" "kind_ok (path, name, args, rtype, ty)"
    and "dalvik_memberdict_register_object atoms path name args rtype ty obj d = (rc, d')"
  shows "get_class_def atoms d' p =
    (if \<not> rc < 0 \<and> (path, name, args, rtype, ty) = (p, None, None, None, TYPE_CLASS) then (case obj of MClass c \<Rightarrow> Some c | _ \<Rightarrow> None)
     else get_class_def atoms d p)"
proof (cases "dalvik_memberdict_find_object atoms path name args rtype ty d = None")
  case True
  note new = register_object_new [OF assms True]
  show ?thesis using new(1) new(2) [OF kind_ok_kinds(3), of p None]
    by (auto simp: get_class_def_def dalvik_memberdict_get_class_def)
next
  case False
  then show ?thesis using register_object_twice [OF assms False] by simp
qed

text \<open>Reading definitions registers no class.\<close>

definition classes_kept :: "atom_table \<Rightarrow> dalvik_method dalvik_member memberdict \<Rightarrow> bool \<Rightarrow> class_body \<Rightarrow> bool" where
  "classes_kept atoms d0 ok b \<longleftrightarrow> dict_ok (cb_dict b) \<and> (\<forall>p. get_class_def atoms (cb_dict b) p = get_class_def atoms d0 p)"

interpretation classes: class_contract kw atoms junk n path "classes_kept atoms d0" for kw atoms junk n path d0
proof
  fix b b' :: class_body and ok :: bool
  assume g: "classes_kept atoms d0 True b"
  then have d: "dict_ok (cb_dict b)" by (simp add: classes_kept_def)
  show "classes_kept atoms d0 ok b'" if "same_members b b'" using g that by (simp add: classes_kept_def same_members_def)
  show "classes_kept atoms d0 ok b'" if "class_method kw atoms path e b = Some (ok, b')" for e
    using class_method_effect [OF that] g register_object_le(1) [OF d kind_ok_kinds(1)] register_classes [OF d kind_ok_kinds(1)]
    by (auto simp: classes_kept_def)
  show "classes_kept atoms d0 ok b'" if "class_field kw atoms junk n path e b = Some (ok, b')" for e
    using that
  proof (cases rule: class_field_effect)
    case 1
    then show ?thesis using g by (simp add: classes_kept_def same_members_def)
  next
    case (2 f rc)
    show ?thesis using g register_object_le(1) [OF d kind_ok_kinds(2) 2(1)] register_classes [OF d kind_ok_kinds(2) 2(1)]
      by (simp add: classes_kept_def)
  next
    case (3 f rc)
    show ?thesis using g register_object_le(1) [OF d kind_ok_kinds(2) 3(1)] register_classes [OF d kind_ok_kinds(2) 3(1)]
      by (simp add: classes_kept_def)
  qed
qed

lemma layout_ok_le:
  assumes "layout_ok atoms d" "dict_ok d'" "dict_le atoms d d'" "\<And>p. get_class_def atoms d' p = get_class_def atoms d p"
  shows "layout_ok atoms d'"
  using assms fields_ok_le [OF assms(3)] unfolding layout_ok_def by metis

lemma statics_register_class:
  assumes "statics_ok atoms st" "dalvik_memberdict_register_object atoms path None None None TYPE_CLASS obj (cs_dict st) = (rc, cs_dict st')"
    and "cs_static_field_count st' = cs_static_field_count st"
  shows "statics_ok atoms st'"
proof -
  have d: "dict_ok (cs_dict st)" using assms(1) by (simp add: statics_ok_def)
  show ?thesis using register_object_le(1) [OF d kind_ok_kinds(3) assms(2)] register_fields [OF d kind_ok_kinds(3) assms(2)]
    by (intro statics_ok_same [OF assms(1) _ assms(3)]) auto
qed

lemma class_body_facts:
  assumes "class_loop kw atoms jk n path e b0 = Some (ok, b)" "dict_ok (cb_dict b0)" "cb_members b0 = []"
  shows "members_good atoms path (cb_dict b0) ok b" "classes_kept atoms (cb_dict b0) ok b" "statics_ok atoms (cb_st b0) \<Longrightarrow> statics_ok atoms (cb_st b)"
proof -
  show "members_good atoms path (cb_dict b0) ok b" by (rule members.good_loop [OF assms(1)]) (simp add: members_good_def assms(2,3))
  show "classes_kept atoms (cb_dict b0) ok b" by (rule classes.good_loop [OF assms(1)]) (simp add: classes_kept_def assms(2))
  show "statics_ok atoms (cb_st b)" if "statics_ok atoms (cb_st b0)" by (rule statics.good_loop [OF assms(1) that])
qed

text \<open>The member list of a class that has been read, up to the cell that is not cleared.\<close>

lemma class_read_layout:
  assumes "dict_ok (cs_dict st)" "dalvik_class_from_sexp kw atoms junk e st = Some (Some c, st')"
  shows "dict_ok (cs_dict st') \<and> dict_le atoms (cs_dict st) (cs_dict st') \<and>
    get_class_def atoms (cs_dict st') (cls_path c) = Some c \<and>
    (\<exists>names. (cls_members c = names \<or> cls_members c = names @ jk_members junk) \<and>
       fields_ok atoms (cs_dict st') (c\<lparr>cls_members := names\<rparr>))"
  using assms(2)
proof (cases rule: class_from_sexp_cases)
  case (registered n path b0 e' b attrs is_interface c' rc)
  have d0: "dict_ok (cb_dict b0)" using assms(1) registered(2) by simp
  note facts = class_body_facts [OF registered(1) d0 registered(4)]
  have d: "dict_ok (cb_dict b)" "dict_le atoms (cs_dict st) (cb_dict b)"
    using facts(1) registered(2) by (auto simp: members_good_def)
  note le = register_object_le(1,2) [OF d(1) kind_ok_kinds(3) registered(6)]
  have rc: "\<not> rc < 0" "c' = c" using registered(8) by (auto split: if_splits)
  have c: "cls_path c = path" "cls_members c = cb_members b \<or> cls_members c = cb_members b @ jk_members junk"
    using registered(5) rc(2) by (auto simp: class_of_def)
  have "get_class_def atoms (cs_dict st') path = Some c"
    using register_classes [OF d(1) kind_ok_kinds(3) registered(6), of path] rc by simp
  moreover have "fields_ok atoms (cs_dict st') (c\<lparr>cls_members := cb_members b\<rparr>)"
    by (rule fields_ok_le [OF le(2)]) (use facts(1) c(1) in \<open>simp add: fields_ok_def members_good_def\<close>)
  ultimately show ?thesis using le(1) dict_le_trans [OF d(2) le(2)] c by blast
qed simp_all


text \<open>Every outcome of the reader keeps both invariants of the dictionary, when the memory behind the member lists is null.\<close>

lemma class_read_invariant:
  assumes "layout_ok atoms (cs_dict st)" "statics_ok atoms st" "jk_members junk = []"
    and "dalvik_class_from_sexp kw atoms junk e st = Some (r, st')"
  shows "layout_ok atoms (cs_dict st') \<and> statics_ok atoms st'"
  using assms(4)
proof (cases rule: class_from_sexp_cases)
  case early
  then show ?thesis using assms(1,2) by (simp add: statics_ok_def)
next
  case (body n path b0 e' b)
  have d0: "dict_ok (cb_dict b0)" "statics_ok atoms (cb_st b0)" using assms(1,2) body(4,5) by (simp_all add: layout_ok_def statics_ok_def)
  note facts = class_body_facts [OF body(2) d0(1) body(6)]
  show ?thesis using facts(1,2) facts(3) [OF d0(2)] body(3,4)
    by (auto intro: layout_ok_le [OF assms(1)] simp: members_good_def classes_kept_def)
next
  case (registered n path b0 e' b attrs is_interface c rc)
  have d0: "dict_ok (cb_dict b0)" "statics_ok atoms (cb_st b0)" using assms(1,2) registered(2,3) by (simp_all add: layout_ok_def statics_ok_def)
  note facts = class_body_facts [OF registered(1) d0(1) registered(4)]
  have d: "dict_ok (cb_dict b)" using facts(1) by (simp add: members_good_def)
  note le = register_object_le(1,2) [OF d kind_ok_kinds(3) registered(6)]
  have l: "layout_ok atoms (cb_dict b)" using facts(1,2) registered(2)
    by (auto intro: layout_ok_le [OF assms(1)] simp: members_good_def classes_kept_def)
  have "cls_path c = path" "fields_ok atoms (cb_dict b) c"
    using facts(1) registered(5) assms(3) by (simp_all add: class_of_def fields_ok_def members_good_def)
  then have c: "cls_path c = path" "fields_ok atoms (cs_dict st') c" using fields_ok_le [OF le(2)] by blast+
  have "layout_ok atoms (cs_dict st')" unfolding layout_ok_def
    using le l c fields_ok_le [OF le(2)] register_classes [OF d kind_ok_kinds(3) registered(6)]
    by (auto simp: layout_ok_def split: if_splits)
  then show ?thesis using statics_register_class [OF facts(3) [OF d0(2)] registered(6,7)] by simp
qed

text \<open>A class with an instance field and a static field, for the witnesses.\<close>

definition field_sexp :: "nat list \<Rightarrow> nat list \<Rightarrow> nat \<Rightarrow> sexp" where
  "field_sexp kw attrs k = mk_list (map (Pair (CHR '' ''))
     [SLit (DALVIK_TOKEN_FIELD kw), lits (DALVIK_TOKEN_ATTRS kw # attrs), SLit k, SLit (DALVIK_TOKEN_INT kw)])"

definition example_class :: "nat list \<Rightarrow> nat \<Rightarrow> nat \<Rightarrow> sexp" where
  "example_class kw k k' = mk_list (map (Pair (CHR '' ''))
     [SLit (DALVIK_TOKEN_CLASS kw), lits [DALVIK_TOKEN_ATTRS kw], SLit k,
      field_sexp kw [] k, field_sexp kw [DALVIK_TOKEN_STATIC kw] k'])"

lemma field_attrs:
  assumes "tokens_ok kw p"
  shows "dalvik_attrs_from_sexp kw (lits [DALVIK_TOKEN_ATTRS kw]) = 0"
    "dalvik_attrs_from_sexp kw (lits [DALVIK_TOKEN_ATTRS kw, DALVIK_TOKEN_STATIC kw]) = 0x40"
  by (simp_all add: dalvik_attrs_from_sexp_def match_simps attrs_loop.simps attr_flag_def token_eq_iff [OF assms])

lemma field_sexp_read:
  assumes "tokens_ok kw p" "dalvik_attrs_from_sexp kw (lits (DALVIK_TOKEN_ATTRS kw # attrs)) = a" "a \<noteq> -1"
  shows "dalvik_field_from_sexp kw junk (field_sexp kw attrs k) path file s = Some (Some
    \<lparr>fld_name = k, fld_path = path, fld_file = file, fld_type = TAtom DALVIK_TYPECODE_INT, fld_attrs = a, fld_default = None, fld_offset = junk\<rparr>, s)"
proof -
  have head: "field_sexp kw attrs k \<noteq> SNil"
    "sexp_match (field_sexp kw attrs k) ''(L=C?L?_?A'' [DALVIK_TOKEN_FIELD kw, 0, 0, 0, 0] =
      (True, [(1, MSexp (lits (DALVIK_TOKEN_ATTRS kw # attrs))), (2, MAddr k), (3, MSexp (SLit (DALVIK_TOKEN_INT kw))), (4, MSexp SNil)])"
    by (simp_all add: field_sexp_def match_simps numeral_eq_Suc)
  have ty: "read_type kw (SLit (DALVIK_TOKEN_INT kw)) s = Some (Some (TAtom DALVIK_TYPECODE_INT), s)"
    by (simp add: read_type_def dalvik_type_from_sexp.simps match_simps type_of_literal_def token_eq_iff [OF assms(1)])
  show ?thesis unfolding dalvik_field_from_sexp_def head(2)
    using assms(2,3) by (simp add: head(1) out_sexp_def out_addr_def ty Let_def del: lits_simps)
qed

lemma class_definition_field:
  assumes "tokens_ok kw p"
  shows "class_definition kw atoms junk n path (field_sexp kw attrs k) b = class_field kw atoms junk n path (field_sexp kw attrs k) b"
  by (simp add: class_definition_def field_sexp_def match_simps key_rest_eq lit_rest_eq token_eq_iff [OF assms] Let_def)

lemma class_field_run:
  assumes "tokens_ok kw p" "dalvik_attrs_from_sexp kw (lits (DALVIK_TOKEN_ATTRS kw # attrs)) = a" "a \<noteq> -1"
    and "dict_ok (cb_dict b)" "dalvik_memberdict_get_field atoms path k (cb_dict b) = None" "length (cb_members b) \<le> n"
  shows "\<exists>b'. class_field kw atoms junk n path (field_sexp kw attrs k) b = Some (True, b') \<and> dict_ok (cb_dict b') \<and> cb_super b' = cb_super b \<and>
    length (cb_members b') \<le> Suc (length (cb_members b)) \<and>
    dalvik_memberdict_get_class atoms path (cb_dict b') = dalvik_memberdict_get_class atoms path (cb_dict b) \<and>
    (\<forall>k'. k' \<noteq> k \<longrightarrow> dalvik_memberdict_get_field atoms path k' (cb_dict b') = dalvik_memberdict_get_field atoms path k' (cb_dict b))"
proof -
  have reg: "\<exists>d. dalvik_memberdict_register_object atoms path (Some k) None None TYPE_FIELD obj (cb_dict b) = (0, d) \<and> dict_ok d \<and>
    dalvik_memberdict_get_class atoms path d = dalvik_memberdict_get_class atoms path (cb_dict b) \<and>
    (\<forall>k'. k' \<noteq> k \<longrightarrow> dalvik_memberdict_get_field atoms path k' d = dalvik_memberdict_get_field atoms path k' (cb_dict b))" for obj
  proof -
    obtain rc d where r: "dalvik_memberdict_register_object atoms path (Some k) None None TYPE_FIELD obj (cb_dict b) = (rc, d)" by fastforce
    note new = register_object_new [OF assms(4) kind_ok_kinds(2) r assms(5) [unfolded dalvik_memberdict_get_field_def]]
    show ?thesis using r new(1) new(2) [OF kind_ok_kinds(2)] new(2) [OF kind_ok_kinds(3)] register_object_ok [OF assms(4) kind_ok_kinds(2) r]
      by (simp add: dalvik_memberdict_get_field_def dalvik_memberdict_get_class_def)
  qed
  define f where "f ofs = (MField \<lparr>fld_name = k, fld_path = Some path, fld_file = cb_source b, fld_type = TAtom DALVIK_TYPECODE_INT,
    fld_attrs = a, fld_default = None, fld_offset = ofs\<rparr> :: dalvik_method dalvik_member)" for ofs
  define ofs where "ofs = (if a AND DALVIK_ATTRS_STATIC = 0 then int (length (cb_members b)) else cs_static_field_count (cb_st b))"
  obtain d where d: "dalvik_memberdict_register_object atoms path (Some k) None None TYPE_FIELD (f ofs) (cb_dict b) = (0, d)" "dict_ok d"
    "dalvik_memberdict_get_class atoms path d = dalvik_memberdict_get_class atoms path (cb_dict b)"
    "\<And>k'. k' \<noteq> k \<Longrightarrow> dalvik_memberdict_get_field atoms path k' d = dalvik_memberdict_get_field atoms path k' (cb_dict b)"
    using reg by blast
  show ?thesis using d assms(6) unfolding f_def ofs_def
    by (simp add: class_field_def field_sexp_read [OF assms(1-3)] with_reader_def dalvik_memberdict_register_field_def Let_def split: if_splits)
qed

definition example_class_state :: "pool \<Rightarrow> class_state" where
  "example_class_state p = \<lparr>cs_method = example_state p, cs_dict = chain_empty, cs_static_field_count = 0, cs_next_method = 1\<rparr>"

lemma example_class_read:
  assumes "tokens_ok kw p" "pool_mem p k = Some w" "length w < 4096" "k \<noteq> k'"
  shows "\<exists>c st'. dalvik_class_from_sexp kw atoms junk (example_class kw k k') (example_class_state p) = Some (Some c, st') \<and> cls_super c = jk_super junk"
proof -
  let ?body = "mk_list (map (Pair (CHR '' '')) [field_sexp kw [] k, field_sexp kw [DALVIK_TOKEN_STATIC kw] k'])"
  have head: "example_class kw k k' \<noteq> SNil" "sexp_match (example_class kw k k') ''(L?C?A'' [0, 0, 0] =
      (True, [(0, MAddr (DALVIK_TOKEN_CLASS kw)), (1, MSexp (lits [DALVIK_TOKEN_ATTRS kw])), (2, MSexp (SCons (CHR '' '') (SLit k) ?body))])"
    by (simp_all add: example_class_def match_simps numeral_eq_Suc)
  obtain path pool where q: "stringpool_query w p = (path, pool)" by fastforce
  obtain rd where path: "object_path (SCons (CHR '' '') (SLit k) ?body) (ms_reader (cs_method (example_class_state p))) = Some (Some path, ?body, rd)"
    using path_loop_correct [of "pool_mem p" "[]" "[]" k w "CHR '' ''" ?body "[]" 0] assms(2,3) q
    by (simp add: object_path_def sexp_get_object_path_def path_sexp_def slashed_def SEXP_BUFSIZE_def example_class_state_def example_state_def
        reader_of_def)
  let ?b0 = "\<lparr>cb_source = None, cb_super = jk_super junk, cb_implements = [], cb_members = [], cb_st = with_reader rd (example_class_state p)\<rparr>"
  have b0: "dict_ok (cb_dict ?b0)" "dalvik_memberdict_get_field atoms path n (cb_dict ?b0) = None"
    "dalvik_memberdict_get_class atoms path (cb_dict ?b0) = None" for n
    by (simp_all add: dalvik_memberdict_get_class_def with_reader_def example_class_state_def dict_ok_def chain_empty_def dalvik_memberdict_get_field_def dalvik_memberdict_find_object_def)
  obtain b1 where b1: "class_field kw atoms (jk_offset junk) 2 path (field_sexp kw [] k) ?b0 = Some (True, b1)" "dict_ok (cb_dict b1)"
    "cb_super b1 = jk_super junk"
    "length (cb_members b1) \<le> 1" "dalvik_memberdict_get_class atoms path (cb_dict b1) = None" "dalvik_memberdict_get_field atoms path k' (cb_dict b1) = None"
    using class_field_run [OF assms(1) field_attrs(1) [OF assms(1)] _ b0(1,2), of 2 "jk_offset junk" k] assms(4) b0(2) [of k'] b0(3) by auto
  obtain b2 where b2: "class_field kw atoms (jk_offset junk) 2 path (field_sexp kw [DALVIK_TOKEN_STATIC kw] k') b1 = Some (True, b2)" "dict_ok (cb_dict b2)"
    "dalvik_memberdict_get_class atoms path (cb_dict b2) = None" "cb_super b2 = jk_super junk"
    using class_field_run [OF assms(1) field_attrs(2) [OF assms(1)] _ b1(2,6), of 2 "jk_offset junk"] b1(3-5) by auto
  have rest: "list_rest (SCons c (field_sexp kw as i) r) = Some (field_sexp kw as i, r)" for c as i r
    by (simp add: list_rest_eq field_sexp_def)
  have loop: "class_loop kw atoms (jk_offset junk) 2 path ?body ?b0 = Some (True, b2)"
    by (simp add: class_loop.simps rest class_definition_field [OF assms(1)] b1(1) b2(1))
  have reg: "\<exists>d. dalvik_memberdict_register_object atoms path None None None TYPE_CLASS obj (cb_dict b2) = (0, d)" for obj
  proof -
    obtain rc d where r: "dalvik_memberdict_register_object atoms path None None None TYPE_CLASS obj (cb_dict b2) = (rc, d)" by fastforce
    then show ?thesis using register_object_new(1) [OF b2(2) kind_ok_kinds(3) r] b2(3) by (simp add: dalvik_memberdict_get_class_def)
  qed
  obtain d where d: "dalvik_memberdict_register_object atoms path None None None TYPE_CLASS (MClass (class_of junk 2 path 0 False b2)) (cb_dict b2) = (0, d)"
    using reg by blast
  have len: "sexp_length ?body = 2" unfolding sexp_length_mk_list by simp
  show ?thesis unfolding dalvik_class_from_sexp_def head(2)
    using d loop len path b2(4) by (simp add: class_of_def head(1) out_sexp_def out_addr_def field_attrs(1) [OF assms(1)] dalvik_memberdict_register_class_def Let_def
        del: lits_simps sexp_length.simps)
qed

lemma example_class_setting:
  obtains kw k k' p where "tokens_ok kw p" "pool_mem p k = Some ''l1''" "k \<noteq> k'"
proof -
  obtain kw k p where "tokens_ok kw p" "pool_mem p k = Some ''l1''" using example_words by blast
  then show ?thesis using that [of kw p k "Suc k"] by simp
qed



lemma empty_dictionary: "layout_ok atoms chain_empty" "cs_dict st = chain_empty \<Longrightarrow> 0 \<le> cs_static_field_count st \<Longrightarrow> statics_ok atoms st"
  by (simp_all add: layout_ok_def statics_ok_def dict_ok_def chain_empty_def get_class_def_def get_field_def_def
      dalvik_memberdict_get_class_def dalvik_memberdict_get_field_def dalvik_memberdict_find_object_def)


end
