(* ===== verification/Dalvik_Loader.thy ===== *)
theory Dalvik_Loader
  imports Dalvik_Class
begin

text \<open>
  The loader (\<^verbatim>\<open>src/dalvik/dalvik_loader.c\<close>): it walks through a directory, parses every file and reads the
  classes in it. The file system is a parameter, given as the tree of entries in the order in which
  \<^verbatim>\<open>scandir\<close> returns them; a file that cannot be opened has no content, a directory that cannot be scanned no
  entries. Names are joined in buffers of fixed size, and the outer \<^const>\<open>None\<close> is a name that does not fit, or
  what the parser and the class reader mark as undefined.
\<close>

datatype dir_entry = FileEntry cstr "cstr option" | DirEntry cstr "dir_entry list option"

definition dalvik_loader_filter :: "cstr \<Rightarrow> bool" where
  "dalvik_loader_filter name \<longleftrightarrow> char_at name 0 \<noteq> CHR ''.''"

text \<open>The buffer for the text of a file is doubled until the text fits.\<close>

function grow_buffer :: "nat \<Rightarrow> nat \<Rightarrow> nat" where
  "grow_buffer len bufsize = (if len > bufsize \<and> bufsize > 0 then grow_buffer len (2 * bufsize) else bufsize)"
  by pat_completeness auto
termination by (relation "measure (\<lambda>(len, bufsize). len - bufsize)") auto

declare grow_buffer.simps [simp del]

definition set_pool :: "pool \<Rightarrow> class_state \<Rightarrow> class_state" where
  "set_pool p st = with_reader ((ms_reader (cs_method st))\<lparr>rd_pool := p\<rparr>) st"

text \<open>The memory for the class that begins at a position of a text is a parameter.\<close>

type_synonym memory = "cstr \<Rightarrow> nat \<Rightarrow> class_junk"

function load_text :: "nat list \<Rightarrow> atom_table \<Rightarrow> memory \<Rightarrow> cstr \<Rightarrow> nat \<Rightarrow> class_state \<Rightarrow> (bool \<times> class_state) option" where
  "load_text kw atoms junk s i st =
     (if char_at s i = NUL then Some (True, st)
      else case sexp_parse (parse_fuel s) s i (rd_pool (ms_reader (cs_method st))) of
             None \<Rightarrow> None
           | Some PBeyond \<Rightarrow> None
           | Some (PEof p) \<Rightarrow> Some (True, set_pool p st)
           | Some (PFail p) \<Rightarrow> Some (False, set_pool p st)
           | Some (PDone j e p) \<Rightarrow>
               if e = SNil then load_text kw atoms junk s j (set_pool p st)
               else (case dalvik_class_from_sexp kw atoms (junk s i) e (set_pool p st) of
                       None \<Rightarrow> None
                     | Some (None, st) \<Rightarrow> Some (False, st)
                     | Some (Some c, st) \<Rightarrow> load_text kw atoms junk s j st))"
  by pat_completeness auto
termination
proof (relation "measure (\<lambda>(kw, atoms, junk, s, i, st). length s - i)", goal_cases)
  case (2 kw atoms junk s i st r j e p)
  then have i: "i < length s" by (auto simp: char_at_def split: if_splits)
  then show ?case using parse_bounds(1) [of i s] 2 by fastforce
next
  case (3 kw atoms junk s i st r j e p r' c st' c')
  then have i: "i < length s" by (auto simp: char_at_def split: if_splits)
  then show ?case using parse_bounds(1) [of i s] 3 by fastforce
qed simp

declare load_text.simps [simp del]

definition FILENAME_SIZE :: nat where "FILENAME_SIZE = 1024"

function load_entries ::
  "nat list \<Rightarrow> atom_table \<Rightarrow> memory \<Rightarrow> cstr \<Rightarrow> nat \<Rightarrow> dir_entry list \<Rightarrow> class_state \<Rightarrow> (int \<times> class_state) option" where
  "load_entries kw atoms junk path bufsize [] st = Some (0, st)"
| "load_entries kw atoms junk path bufsize (FileEntry name content # es) st =
     (if \<not> dalvik_loader_filter name then load_entries kw atoms junk path bufsize es st
      else if length (path @ ''/'' @ name) \<ge> bufsize then None
      else case content of
             None \<Rightarrow> load_entries kw atoms junk path bufsize es st
           | Some text' \<Rightarrow>
               (case load_text kw atoms junk (takeWhile (\<lambda>c. c \<noteq> NUL) text') 0 st of
                  None \<Rightarrow> None
                | Some (ok, st) \<Rightarrow>
                    if ok then load_entries kw atoms junk path (grow_buffer (length text' + 1) bufsize) es st else Some (-1, st)))"
| "load_entries kw atoms junk path bufsize (DirEntry name entries # es) st =
     (if \<not> dalvik_loader_filter name then load_entries kw atoms junk path bufsize es st
      else let filename = path @ ''/'' @ name
           in if length filename \<ge> FILENAME_SIZE then None
              else case entries of
                     None \<Rightarrow> Some (-1, st)
                   | Some sub \<Rightarrow>
                       (case load_entries kw atoms junk filename FILENAME_SIZE sub st of
                          None \<Rightarrow> None
                        | Some (rc, st) \<Rightarrow> if rc < 0 then Some (-1, st) else load_entries kw atoms junk path bufsize es st))"
  by pat_completeness auto
termination by (relation "measure (\<lambda>(kw, atoms, junk, path, bufsize, es, st). size_list size es)") auto

definition dalvik_loader_from_directory ::
  "nat list \<Rightarrow> atom_table \<Rightarrow> memory \<Rightarrow> cstr \<Rightarrow> dir_entry list option \<Rightarrow> class_state \<Rightarrow> (int \<times> class_state) option" where
  "dalvik_loader_from_directory kw atoms junk path entries st =
     (case entries of None \<Rightarrow> Some (-1, st) | Some es \<Rightarrow> load_entries kw atoms junk path 1024 es st)"

subsection \<open>What loading keeps\<close>

text \<open>The buffer is large enough for the text and its terminator.\<close>

lemma grow_buffer_fits: "0 < bufsize \<Longrightarrow> len \<le> grow_buffer len bufsize"
proof (induction len bufsize rule: grow_buffer.induct)
  case (1 len bufsize)
  then show ?case by (subst grow_buffer.simps) (simp del: mult_Suc)
qed

definition dictionary_ok :: "atom_table \<Rightarrow> class_state \<Rightarrow> bool" where
  "dictionary_ok atoms st \<longleftrightarrow> layout_ok atoms (cs_dict st) \<and> statics_ok atoms st"

lemma dictionary_ok_pool [simp]: "dictionary_ok atoms (set_pool p st) = dictionary_ok atoms st"
  by (simp add: dictionary_ok_def set_pool_def with_reader_def statics_ok_def)

lemma dictionary_ok_class:
  "dictionary_ok atoms st \<Longrightarrow> jk_members junk = [] \<Longrightarrow> dalvik_class_from_sexp kw atoms junk e st = Some (r, st') \<Longrightarrow> dictionary_ok atoms st'"
  using class_read_invariant unfolding dictionary_ok_def by blast

lemma load_text_keeps:
  "load_text kw atoms junk s i st = Some (ok, st') \<Longrightarrow> dictionary_ok atoms st \<Longrightarrow> \<forall>s i. jk_members (junk s i) = [] \<Longrightarrow> dictionary_ok atoms st'"
proof (induction kw atoms junk s i st rule: load_text.induct)
  case (1 kw atoms junk s i st)
  show ?case
  proof (cases "char_at s i = NUL")
    case True
    then show ?thesis using "1.prems" by (simp add: load_text.simps [of kw atoms junk s i])
  next
    case False
    obtain r where r: "sexp_parse (parse_fuel s) s i (rd_pool (ms_reader (cs_method st))) = Some r" "r \<noteq> PBeyond"
      using "1.prems"(1) False by (auto simp: load_text.simps [of kw atoms junk s i] split: option.splits presult.splits)
    note eq = "1.prems"(1) [unfolded load_text.simps [of kw atoms junk s i] r(1), simplified False, simplified]
    show ?thesis
    proof (cases r)
      case (PDone j e p)
      show ?thesis
      proof (cases "e = SNil")
        case True
        then show ?thesis using "1.IH"(1) [OF False r(1) PDone True] eq "1.prems"(2,3) PDone by simp
      next
        case nil: False
        then obtain c st1 where c: "dalvik_class_from_sexp kw atoms (junk s i) e (set_pool p st) = Some (c, st1)"
          "(case c of None \<Rightarrow> Some (False, st1) | Some c \<Rightarrow> load_text kw atoms junk s j st1) = Some (ok, st')"
          using eq PDone by (auto split: option.splits)
        have k: "dictionary_ok atoms st1" using dictionary_ok_class [OF _ _ c(1)] "1.prems"(2,3) by simp
        show ?thesis
        proof (cases c)
          case None
          then show ?thesis using c(2) k by simp
        next
          case (Some c')
          then show ?thesis using "1.IH"(2) [OF False r(1) PDone nil c(1) refl Some] c(2) k "1.prems"(3) by simp
        qed
      qed
    qed (use eq r(2) "1.prems"(2) in auto)
  qed
qed

lemma load_entries_keeps:
  "load_entries kw atoms junk path bufsize es st = Some (rc, st') \<Longrightarrow> dictionary_ok atoms st \<Longrightarrow> \<forall>s i. jk_members (junk s i) = [] \<Longrightarrow>
    dictionary_ok atoms st'"
proof (induction kw atoms junk path bufsize es st arbitrary: rc st' rule: load_entries.induct)
  case (2 kw atoms junk path bufsize name content es st)
  have keep: "dictionary_ok atoms st1" if "load_text kw atoms junk s i st = Some (ok, st1)" for s i ok st1
    using load_text_keeps [OF that "2.prems"(2,3)] .
  show ?case
  proof (cases "dalvik_loader_filter name \<and> content \<noteq> None")
    case True
    then obtain s where s: "content = Some s" by blast
    obtain ok st1 where l: "load_text kw atoms junk (takeWhile (\<lambda>c. c \<noteq> NUL) s) 0 st = Some (ok, st1)"
      using "2.prems"(1) True s by (auto split: if_splits option.splits)
    show ?thesis using 2 True s l keep [OF l] by (auto split: if_splits)
  next
    case False
    then show ?thesis using 2 by (auto split: if_splits option.splits)
  qed
next
  case (3 kw atoms junk path bufsize name entries es st)
  show ?case
  proof (cases "dalvik_loader_filter name \<and> entries \<noteq> None")
    case True
    then obtain sub where sub: "entries = Some sub" by blast
    let ?f = "path @ ''/'' @ name"
    obtain rc1 st1 where l: "\<not> length ?f \<ge> FILENAME_SIZE" "load_entries kw atoms junk ?f FILENAME_SIZE sub st = Some (rc1, st1)"
      "if rc1 < 0 then st' = st1 else load_entries kw atoms junk path bufsize es st1 = Some (rc, st')"
      using "3.prems"(1) True sub by (auto simp: Let_def split: if_splits option.splits)
    have k: "dictionary_ok atoms st1" using "3.IH"(2) [of ?f sub rc1 st1] True sub l(1,2) "3.prems"(2,3) by simp
    show ?thesis using "3.IH"(3) [of ?f sub "(rc1, st1)" rc1 st1 rc st'] True sub l k "3.prems"(3) by (simp split: if_splits)
  next
    case False
    then show ?thesis using 3 by (auto simp: Let_def split: if_splits option.splits)
  qed
qed simp

text \<open>The classes on the way up are those that the dictionary has.\<close>

lemma class_chain_found:
  "class_chain atoms dict tab classpath cs bs = Some (classes, bcis) \<Longrightarrow> \<forall>c \<in> set classes. c \<in> set cs \<or> (\<exists>path. get_class_def atoms dict path = Some c)"
proof (induction atoms dict tab classpath cs bs rule: class_chain.induct)
  case (1 atoms dict tab classpath cs bs)
  show ?case using "1.prems" "1.IH" by (subst (asm) class_chain.simps) (fastforce split: option.splits if_splits)
qed


lemma dictionary_ok_start: "cs_dict st = chain_empty \<Longrightarrow> 0 \<le> cs_static_field_count st \<Longrightarrow> dictionary_ok atoms st"
  using empty_dictionary by (simp add: dictionary_ok_def)


end
