(* ===== verification/Cesk_Value.thy ===== *)
theory Cesk_Value
  imports Cesk_Object Cesk_Set
begin

text \<open>
  Values of the abstract machine (\<^verbatim>\<open>src/cesk/cesk_value.c\<close>, \<^verbatim>\<open>include/cesk/cesk_value.h\<close>): objects and
  sets of addresses, counted by the slots of store blocks that refer to them. Values live in a memory,
  a map from pointers to values; following a dangling pointer is \<^const>\<open>None\<close>. The exhaustion of
  memory is not modelled.
\<close>

subsection \<open>Data\<close>

datatype 'd value_data = VObject "'d cesk_object option" | VSet "u32 option"

text \<open>\<^verbatim>\<open>write_count\<close> has four bits. Its value in a new value is not initialised, \<open>junk\<close> below.\<close>

record 'd cesk_value =
  val_data :: "'d value_data"
  val_write_count :: nat
  val_reloc :: bool
  val_refcnt :: u32

record 'd value_heap =
  vh_mem :: "nat \<rightharpoonup> 'd cesk_value"
  vh_next :: nat
  vh_sets :: set_state

abbreviation vh_tags :: "'d value_heap \<Rightarrow> tag_state" where
  "vh_tags h \<equiv> set_tags (vh_sets h)"

definition with_tags :: "tag_state \<Rightarrow> 'd value_heap \<Rightarrow> 'd value_heap" where
  "with_tags ts h = h\<lparr>vh_sets := (vh_sets h)\<lparr>set_tags := ts\<rparr>\<rparr>"

definition value_upd :: "nat \<Rightarrow> ('d cesk_value \<Rightarrow> 'd cesk_value) \<Rightarrow> 'd value_heap \<Rightarrow> 'd value_heap option" where
  "value_upd v f h = do { x \<leftarrow> vh_mem h v; Some (h\<lparr>vh_mem := (vh_mem h)(v \<mapsto> f x)\<rparr>) }"

subsection \<open>Operations\<close>

definition cesk_value_alloc :: "nat \<Rightarrow> 'd value_data \<Rightarrow> 'd value_heap \<Rightarrow> nat \<times> 'd value_heap" where
  "cesk_value_alloc junk data h =
     (vh_next h, h\<lparr>vh_mem := (vh_mem h)(vh_next h \<mapsto> \<lparr>val_data = data, val_write_count = junk, val_reloc = False, val_refcnt = 0\<rparr>),
                   vh_next := Suc (vh_next h)\<rparr>)"

definition cesk_value_free :: "nat \<Rightarrow> 'd value_heap \<Rightarrow> 'd value_heap option" where
  "cesk_value_free v h = do {
     x \<leftarrow> vh_mem h v;
     h \<leftarrow> (case val_data x of
             VObject (Some obj) \<Rightarrow> do { ts \<leftarrow> cesk_object_free (Some obj) (vh_tags h); Some (with_tags ts h) }
           | VSet (Some i) \<Rightarrow> do { s \<leftarrow> cesk_set_free (Some i) (vh_sets h); Some (h\<lparr>vh_sets := s\<rparr>) }
           | _ \<Rightarrow> Some h);
     Some (h\<lparr>vh_mem := (vh_mem h)(v := None)\<rparr>)
   }"

text \<open>
  The module keeps a list of the values that are alive, the newest first; addresses grow with every
  allocation, so walking down the addresses is walking along the list.
\<close>

definition cesk_value_init :: "'d value_heap \<Rightarrow> int \<times> 'd value_heap" where
  "cesk_value_init h = (0, h\<lparr>vh_mem := Map.empty\<rparr>)"

fun free_values :: "nat \<Rightarrow> 'd value_heap \<Rightarrow> 'd value_heap option" where
  "free_values 0 h = Some h"
| "free_values (Suc v) h =
     (case vh_mem h v of
        None \<Rightarrow> free_values v h
      | Some _ \<Rightarrow> do { h \<leftarrow> cesk_value_free v h; free_values v h })"

definition cesk_value_finalize :: "'d value_heap \<Rightarrow> 'd value_heap option" where
  "cesk_value_finalize h = free_values (vh_next h) h"

definition cesk_value_incref :: "nat \<Rightarrow> 'd value_heap \<Rightarrow> 'd value_heap option" where
  "cesk_value_incref v h = value_upd v (\<lambda>x. x\<lparr>val_refcnt := val_refcnt x + 1\<rparr>) h"

definition cesk_value_decref :: "nat \<Rightarrow> 'd value_heap \<Rightarrow> 'd value_heap option" where
  "cesk_value_decref v h = do {
     h \<leftarrow> value_upd v (\<lambda>x. x\<lparr>val_refcnt := val_refcnt x - 1\<rparr>) h;
     x \<leftarrow> vh_mem h v;
     if val_refcnt x = 0 then cesk_value_free v h else Some h
   }"

text \<open>The inner \<^const>\<open>None\<close> is the null pointer that reports an error.\<close>

definition cesk_value_from_classpath ::
  "atom_table \<Rightarrow> 'm dalvik_member memberdict \<Rightarrow> 'd bci_nametab \<Rightarrow> (nat \<Rightarrow> u32) \<Rightarrow> ('d bci_class_wrap \<Rightarrow> 'd) \<Rightarrow> nat \<Rightarrow> nat option
     \<Rightarrow> 'd value_heap \<Rightarrow> (nat option \<times> 'd value_heap) option" where
  "cesk_value_from_classpath atoms dict tab mem0 raw junk classpath h = do {
     let (v, h) = cesk_value_alloc junk (VObject None) h;
     (obj, ts) \<leftarrow> cesk_object_new atoms dict tab mem0 raw classpath (vh_tags h);
     let h = with_tags ts h;
     (case obj of
        None \<Rightarrow> do { h \<leftarrow> cesk_value_free v h; Some (None, h) }
      | Some obj \<Rightarrow> do { h \<leftarrow> value_upd v (\<lambda>x. x\<lparr>val_data := VObject (Some obj)\<rparr>) h; Some (Some v, h) })
   }"

definition cesk_value_empty_set :: "nat \<Rightarrow> 'd value_heap \<Rightarrow> (nat \<times> 'd value_heap) option" where
  "cesk_value_empty_set junk h = do {
     let (v, h) = cesk_value_alloc junk (VSet None) h;
     (i, s) \<leftarrow> cesk_set_empty_set (vh_sets h);
     h \<leftarrow> value_upd v (\<lambda>x. x\<lparr>val_data := VSet (Some i), val_reloc := False\<rparr>) (h\<lparr>vh_sets := s\<rparr>);
     Some (v, h)
   }"

definition cesk_value_from_set :: "nat \<Rightarrow> u32 option \<Rightarrow> 'd value_heap \<Rightarrow> (nat option \<times> 'd value_heap) option" where
  "cesk_value_from_set junk st h =
     (case st of
        None \<Rightarrow> Some (None, h)
      | Some i \<Rightarrow> do {
          let (v, h) = cesk_value_alloc junk (VSet (Some i)) h;
          r \<leftarrow> cesk_set_get_reloc i (vh_sets h);
          h \<leftarrow> value_upd v (\<lambda>x. x\<lparr>val_reloc := r > 0\<rparr>) h;
          Some (Some v, h)
        })"

definition cesk_value_fork :: "nat \<Rightarrow> nat \<Rightarrow> 'd value_heap \<Rightarrow> (nat option \<times> 'd value_heap) option" where
  "cesk_value_fork junk v h = do {
     x \<leftarrow> vh_mem h v;
     (case val_data x of
        VObject obj \<Rightarrow> do {
          let (n, h) = cesk_value_alloc junk (VObject None) h;
          obj \<leftarrow> obj;
          (obj, ts) \<leftarrow> cesk_object_duplicate obj (vh_tags h);
          let h = with_tags ts h;
          (case obj of
             None \<Rightarrow> do { h \<leftarrow> cesk_value_free n h; Some (None, h) }
           | Some obj \<Rightarrow> do {
               h \<leftarrow> value_upd n (\<lambda>y. y\<lparr>val_data := VObject (Some obj), val_reloc := val_reloc x, val_write_count := 0\<rparr>) h;
               Some (Some n, h) })
        }
      | VSet st \<Rightarrow> do {
          let (n, h) = cesk_value_alloc junk (VSet None) h;
          (st, s) \<leftarrow> cesk_set_fork st (vh_sets h);
          let h = h\<lparr>vh_sets := s\<rparr>;
          (case st of
             None \<Rightarrow> do { h \<leftarrow> cesk_value_free n h; Some (None, h) }
           | Some i \<Rightarrow> do {
               h \<leftarrow> value_upd n (\<lambda>y. y\<lparr>val_data := VSet (Some i), val_reloc := val_reloc x, val_write_count := 0\<rparr>) h;
               Some (Some n, h) })
        })
   }"

definition data_hashcode :: "('d class_ref \<Rightarrow> nat) \<Rightarrow> 'd value_data \<Rightarrow> set_state \<Rightarrow> u32 option" where
  "data_hashcode class_addr data s =
     (case data of
        VObject (Some obj) \<Rightarrow> cesk_object_hashcode class_addr obj (set_tags s)
      | VSet (Some i) \<Rightarrow> cesk_set_hashcode i s
      | _ \<Rightarrow> None)"

definition cesk_value_hashcode :: "('d class_ref \<Rightarrow> nat) \<Rightarrow> nat option \<Rightarrow> 'd value_heap \<Rightarrow> u32 option" where
  "cesk_value_hashcode class_addr v h =
     (case v of
        None \<Rightarrow> Some 0x3c4fab47
      | Some v \<Rightarrow> do { x \<leftarrow> vh_mem h v; data_hashcode class_addr (val_data x) (vh_sets h) })"

definition cesk_value_compute_hashcode :: "('d class_ref \<Rightarrow> nat) \<Rightarrow> nat option \<Rightarrow> 'd value_heap \<Rightarrow> u32 option" where
  "cesk_value_compute_hashcode class_addr v h =
     (case v of
        None \<Rightarrow> Some 0x3c4fab47
      | Some v \<Rightarrow> do {
          x \<leftarrow> vh_mem h v;
          (case val_data x of
             VObject (Some obj) \<Rightarrow> cesk_object_compute_hashcode class_addr obj (vh_tags h)
           | VSet st \<Rightarrow> cesk_set_compute_hashcode st (vh_sets h)
           | _ \<Rightarrow> None) })"

definition cesk_value_equal ::
  "('d class_ref \<Rightarrow> nat) \<Rightarrow> nat option \<Rightarrow> nat option \<Rightarrow> 'd value_heap \<Rightarrow> int option" where
  "cesk_value_equal class_addr first second h =
     (case (first, second) of
        (Some v, Some w) \<Rightarrow> do {
          x \<leftarrow> vh_mem h v;
          y \<leftarrow> vh_mem h w;
          (case (val_data x, val_data y) of
             (VObject f, VObject g) \<Rightarrow> cesk_object_equal class_addr f g (vh_tags h)
           | (VSet f, VSet g) \<Rightarrow> cesk_set_equal f g (vh_sets h)
           | _ \<Rightarrow> Some 0)
        }
      | (None, None) \<Rightarrow> Some 1
      | _ \<Rightarrow> Some 0)"

definition cesk_value_set_reloc :: "nat \<Rightarrow> 'd value_heap \<Rightarrow> 'd value_heap option" where
  "cesk_value_set_reloc v h = value_upd v (\<lambda>x. x\<lparr>val_reloc := True\<rparr>) h"

definition cesk_value_get_reloc :: "nat \<Rightarrow> 'd value_heap \<Rightarrow> bool option" where
  "cesk_value_get_reloc v h = map_option val_reloc (vh_mem h v)"

definition cesk_value_clear_reloc :: "nat \<Rightarrow> 'd value_heap \<Rightarrow> 'd value_heap option" where
  "cesk_value_clear_reloc v h = value_upd v (\<lambda>x. x\<lparr>val_reloc := False\<rparr>) h"

end
