(* ===== verification/Cesk_Store.thy ===== *)
theory Cesk_Store
  imports Cesk_Value Alloctab
begin

text \<open>
  The abstract store (\<^verbatim>\<open>src/cesk/cesk_store.c\<close>, \<^verbatim>\<open>include/cesk/cesk_store.h\<close>) and its allocation parameters
  (\<^verbatim>\<open>include/cesk/cesk_alloc_param.h\<close>). A store is a table of pointers to blocks. Blocks are shared by
  stores and counted; they are copied before a store writes to a shared one. A block is an array of
  slots, a slot refers to a value, and values are shared and counted as well.

  The world holds the memory of the blocks, the memory of the values and that of the allocation
  tables; a store is a value that the operations take and return. \<^const>\<open>None\<close> at the outer level means
  that the C code follows a null or dangling pointer or reads outside of a block. Memory exhaustion is
  not modelled. Sizes are those of a platform with pointers of eight bytes.
\<close>

subsection \<open>Data\<close>

record alloc_param =
  ap_inst :: u32
  ap_offset :: u32

definition cesk_alloc_param_hash :: "alloc_param \<Rightarrow> u32" where
  "cesk_alloc_param_hash param =
     ap_inst param * ap_inst param * MH_MULTIPLY + ap_offset param * MH_MULTIPLY * MH_MULTIPLY"

definition cesk_alloc_param_equal :: "alloc_param \<Rightarrow> alloc_param \<Rightarrow> bool" where
  "cesk_alloc_param_equal first second \<longleftrightarrow> ap_inst first = ap_inst second \<and> ap_offset first = ap_offset second"

record store_slot =
  sl_refcnt :: u32
  sl_reuse :: bool
  sl_inuse :: bool
  sl_param :: alloc_param
  sl_value :: "nat option"

record store_block =
  sb_refcnt :: u32
  sb_num_ent :: u32
  sb_num_reloc :: u32
  sb_slots :: "store_slot list"

definition CESK_STORE_BLOCK_SIZE :: nat where "CESK_STORE_BLOCK_SIZE = 0x4000"
definition CESK_STORE_BLOCK_NSLOTS :: nat where "CESK_STORE_BLOCK_NSLOTS = (CESK_STORE_BLOCK_SIZE - 16) div 24"
definition CESK_STORE_EMPTY_HASH :: u32 where "CESK_STORE_EMPTY_HASH = 0x547f6a73"
definition CESK_STORE_ALLOC_ATTEMPT :: nat where "CESK_STORE_ALLOC_ATTEMPT = 5"

record cesk_store =
  st_num_ent :: u32
  st_hashcode :: u32
  st_alloc_tab :: "nat option"
  st_alloc_token :: u32
  st_blocks :: "nat list"

abbreviation nblocks :: "cesk_store \<Rightarrow> nat" where
  "nblocks st \<equiv> length (st_blocks st)"

record 'd world =
  w_heap :: "'d value_heap"
  w_blocks :: "nat \<rightharpoonup> store_block"
  w_next_block :: nat
  w_tabs :: alloctab_heap

definition slot_zero :: store_slot where
  "slot_zero = \<lparr>sl_refcnt = 0, sl_reuse = False, sl_inuse = False, sl_param = \<lparr>ap_inst = 0, ap_offset = 0\<rparr>, sl_value = None\<rparr>"

definition block_zero :: store_block where
  "block_zero = \<lparr>sb_refcnt = 0, sb_num_ent = 0, sb_num_reloc = 0, sb_slots = replicate CESK_STORE_BLOCK_NSLOTS slot_zero\<rparr>"

abbreviation addr_block :: "u32 \<Rightarrow> nat" where
  "addr_block addr \<equiv> unat addr div CESK_STORE_BLOCK_NSLOTS"
abbreviation addr_ofs :: "u32 \<Rightarrow> nat" where
  "addr_ofs addr \<equiv> unat addr mod CESK_STORE_BLOCK_NSLOTS"

definition block_upd :: "nat \<Rightarrow> (store_block \<Rightarrow> store_block) \<Rightarrow> 'd world \<Rightarrow> 'd world option" where
  "block_upd b f w = do { blk \<leftarrow> w_blocks w b; Some (w\<lparr>w_blocks := (w_blocks w)(b \<mapsto> f blk)\<rparr>) }"

definition slot_at :: "nat \<Rightarrow> nat \<Rightarrow> 'd world \<Rightarrow> store_slot option" where
  "slot_at b ofs w = do { blk \<leftarrow> w_blocks w b; if ofs < length (sb_slots blk) then Some (sb_slots blk ! ofs) else None }"

definition slot_upd :: "nat \<Rightarrow> nat \<Rightarrow> (store_slot \<Rightarrow> store_slot) \<Rightarrow> 'd world \<Rightarrow> 'd world option" where
  "slot_upd b ofs f w = do {
     sl \<leftarrow> slot_at b ofs w;
     block_upd b (\<lambda>blk. blk\<lparr>sb_slots := (sb_slots blk)[ofs := f sl]\<rparr>) w }"

definition heap_op :: "('d value_heap \<Rightarrow> 'd value_heap option) \<Rightarrow> 'd world \<Rightarrow> 'd world option" where
  "heap_op f w = do { h \<leftarrow> f (w_heap w); Some (w\<lparr>w_heap := h\<rparr>) }"

definition store_tab :: "cesk_store \<Rightarrow> 'd world \<Rightarrow> alloctab option" where
  "store_tab st w = Option.bind (st_alloc_tab st) (at_mem (w_tabs w))"

definition hash_inc :: "u32 \<Rightarrow> u32 \<Rightarrow> bool \<Rightarrow> u32" where
  "hash_inc addr val_hash reuse = (addr * MH_MULTIPLY + val_hash) XOR (of_bool reuse * NOT MH_MULTIPLY)"

definition HASH_INC :: "('d class_ref \<Rightarrow> nat) \<Rightarrow> u32 \<Rightarrow> nat option \<Rightarrow> bool \<Rightarrow> 'd world \<Rightarrow> u32 option" where
  "HASH_INC class_addr addr val reuse w = map_option (\<lambda>vh. hash_inc addr vh reuse) (cesk_value_hashcode class_addr val (w_heap w))"

definition HASH_CMP :: "('d class_ref \<Rightarrow> nat) \<Rightarrow> u32 \<Rightarrow> nat option \<Rightarrow> bool \<Rightarrow> 'd world \<Rightarrow> u32 option" where
  "HASH_CMP class_addr addr val reuse w = map_option (\<lambda>vh. hash_inc addr vh reuse) (cesk_value_compute_hashcode class_addr val (w_heap w))"

subsection \<open>Blocks\<close>

fun incref_values :: "store_slot list \<Rightarrow> 'd value_heap \<Rightarrow> 'd value_heap option" where
  "incref_values [] h = Some h"
| "incref_values (sl # sls) h =
     (case sl_value sl of
        None \<Rightarrow> incref_values sls h
      | Some v \<Rightarrow> do { h \<leftarrow> cesk_value_incref v h; incref_values sls h })"

definition cesk_store_block_duplicate :: "nat \<Rightarrow> 'd world \<Rightarrow> (nat \<times> 'd world) option" where
  "cesk_store_block_duplicate b w = do {
     blk \<leftarrow> w_blocks w b;
     let n = w_next_block w;
     let w = w\<lparr>w_blocks := (w_blocks w)(n \<mapsto> blk\<lparr>sb_refcnt := 0\<rparr>), w_next_block := Suc n\<rparr>;
     w \<leftarrow> heap_op (incref_values (sb_slots blk)) w;
     Some (n, w)
   }"

text \<open>The inner \<^const>\<open>None\<close> is the null pointer that reports an error.\<close>

definition cesk_store_getblock_rw ::
  "cesk_store \<Rightarrow> u32 \<Rightarrow> 'd world \<Rightarrow> (nat option \<times> cesk_store \<times> 'd world) option" where
  "cesk_store_getblock_rw st addr w =
     (if addr = CESK_STORE_ADDR_NULL then Some (None, st, w)
      else if addr_block addr \<ge> nblocks st then Some (None, st, w)
      else do {
        let b = st_blocks st ! addr_block addr;
        blk \<leftarrow> w_blocks w b;
        if sb_refcnt blk > 1
        then do {
          (n, w) \<leftarrow> cesk_store_block_duplicate b w;
          w \<leftarrow> block_upd n (\<lambda>blk. blk\<lparr>sb_refcnt := 1\<rparr>) w;
          w \<leftarrow> block_upd b (\<lambda>blk. blk\<lparr>sb_refcnt := sb_refcnt blk - 1\<rparr>) w;
          Some (Some n, st\<lparr>st_blocks := (st_blocks st)[addr_block addr := n]\<rparr>, w)
        }
        else Some (Some b, st, w)
      })"

definition cesk_store_empty_store :: "u32 \<Rightarrow> cesk_store" where
  "cesk_store_empty_store junk =
     \<lparr>st_num_ent = 0, st_hashcode = CESK_STORE_EMPTY_HASH, st_alloc_tab = None, st_alloc_token = junk, st_blocks = []\<rparr>"

definition cesk_store_set_alloc_table :: "cesk_store \<Rightarrow> nat option \<Rightarrow> 'd world \<Rightarrow> (int \<times> cesk_store \<times> 'd world) option" where
  "cesk_store_set_alloc_table st table w =
     (case table of
        None \<Rightarrow> Some (0, st\<lparr>st_alloc_tab := None\<rparr>, w)
      | Some p \<Rightarrow> do {
          t \<leftarrow> at_mem (w_tabs w) p;
          let (token, t) = cesk_alloctab_get_token t;
          Some (0, st\<lparr>st_alloc_tab := Some p, st_alloc_token := token\<rparr>,
                w\<lparr>w_tabs := (w_tabs w)\<lparr>at_mem := (at_mem (w_tabs w))(p \<mapsto> t)\<rparr>\<rparr>) })"

fun incref_blocks :: "nat list \<Rightarrow> 'd world \<Rightarrow> 'd world option" where
  "incref_blocks [] w = Some w"
| "incref_blocks (b # bs) w = do { w \<leftarrow> block_upd b (\<lambda>blk. blk\<lparr>sb_refcnt := sb_refcnt blk + 1\<rparr>) w; incref_blocks bs w }"

definition cesk_store_fork :: "cesk_store \<Rightarrow> 'd world \<Rightarrow> (cesk_store \<times> 'd world) option" where
  "cesk_store_fork st w = do { w \<leftarrow> incref_blocks (st_blocks st) w; Some (st, w) }"

definition cesk_store_make_object_address :: "cesk_store \<Rightarrow> u32 \<Rightarrow> 'd world \<Rightarrow> u32" where
  "cesk_store_make_object_address st addr w =
     (if CESK_STORE_ADDR_IS_RELOC addr
      then if st_alloc_tab st = None then CESK_STORE_ADDR_NULL
           else cesk_alloctab_query (store_tab st w) (st_alloc_token st) addr
      else addr)"

subsection \<open>Access\<close>

text \<open>A null pointer is the inner \<^const>\<open>None\<close>.\<close>

definition cesk_store_get_ro :: "cesk_store \<Rightarrow> u32 \<Rightarrow> 'd world \<Rightarrow> nat option option" where
  "cesk_store_get_ro st addr w =
     (let addr = cesk_store_make_object_address st addr w
      in if addr = CESK_STORE_ADDR_NULL then Some None
         else if addr_block addr \<ge> nblocks st then Some None
         else map_option sl_value (slot_at (st_blocks st ! addr_block addr) (addr_ofs addr) w))"

definition cesk_store_get_reuse :: "cesk_store \<Rightarrow> u32 \<Rightarrow> 'd world \<Rightarrow> int option" where
  "cesk_store_get_reuse st addr w =
     (let addr = cesk_store_make_object_address st addr w
      in if addr = CESK_STORE_ADDR_NULL then Some (-1)
         else if addr_block addr \<ge> nblocks st then Some (-1)
         else map_option (\<lambda>sl. of_bool (sl_reuse sl)) (slot_at (st_blocks st ! addr_block addr) (addr_ofs addr) w))"

definition flush_hash :: "('d class_ref \<Rightarrow> nat) \<Rightarrow> u32 \<Rightarrow> nat \<Rightarrow> cesk_store \<Rightarrow> 'd world \<Rightarrow> cesk_store option" where
  "flush_hash class_addr addr b st w = do {
     sl \<leftarrow> slot_at b (addr_ofs addr) w;
     k \<leftarrow> HASH_INC class_addr addr (sl_value sl) (sl_reuse sl) w;
     Some (st\<lparr>st_hashcode := st_hashcode st XOR k\<rparr>) }"

definition cesk_store_set_reuse :: "('d class_ref \<Rightarrow> nat) \<Rightarrow> cesk_store \<Rightarrow> u32 \<Rightarrow> 'd world \<Rightarrow> (int \<times> cesk_store \<times> 'd world) option" where
  "cesk_store_set_reuse class_addr st addr w =
     (let addr = cesk_store_make_object_address st addr w
      in if addr = CESK_STORE_ADDR_NULL then Some (-1, st, w)
         else if addr_block addr \<ge> nblocks st then Some (-1, st, w)
         else do {
           (b, st, w) \<leftarrow> cesk_store_getblock_rw st addr w;
           b \<leftarrow> b;
           sl \<leftarrow> slot_at b (addr_ofs addr) w;
           v \<leftarrow> sl_value sl;
           x \<leftarrow> vh_mem (w_heap w) v;
           st \<leftarrow> (if val_write_count x = 0 then flush_hash class_addr addr b st w else Some st);
           w \<leftarrow> slot_upd b (addr_ofs addr) (\<lambda>sl. sl\<lparr>sl_reuse := True\<rparr>) w;
           st \<leftarrow> (if val_write_count x = 0 then flush_hash class_addr addr b st w else Some st);
           Some (0, st, w)
         })"

definition cesk_store_clear_reuse :: "('d class_ref \<Rightarrow> nat) \<Rightarrow> cesk_store \<Rightarrow> u32 \<Rightarrow> 'd world \<Rightarrow> (int \<times> cesk_store \<times> 'd world) option" where
  "cesk_store_clear_reuse class_addr st addr w =
     (let addr = cesk_store_make_object_address st addr w
      in if addr = CESK_STORE_ADDR_NULL then Some (-1, st, w)
         else if addr_block addr \<ge> nblocks st then Some (-1, st, w)
         else do {
           (b, st, w) \<leftarrow> cesk_store_getblock_rw st addr w;
           b \<leftarrow> b;
           st \<leftarrow> flush_hash class_addr addr b st w;
           w \<leftarrow> slot_upd b (addr_ofs addr) (\<lambda>sl. sl\<lparr>sl_reuse := False\<rparr>) w;
           st \<leftarrow> flush_hash class_addr addr b st w;
           Some (0, st, w)
         })"

text \<open>
  \<^verbatim>\<open>write_count\<close> has four bits, so the test against 15 never fails and the counter wraps around.
\<close>

definition cesk_store_get_rw ::
  "('d class_ref \<Rightarrow> nat) \<Rightarrow> nat \<Rightarrow> cesk_store \<Rightarrow> u32 \<Rightarrow> bool \<Rightarrow> 'd world \<Rightarrow> (nat option \<times> cesk_store \<times> 'd world) option" where
  "cesk_store_get_rw class_addr junk st addr noval w =
     (let addr = cesk_store_make_object_address st addr w
      in if addr = CESK_STORE_ADDR_NULL then Some (None, st, w)
         else do {
           (b, st, w) \<leftarrow> cesk_store_getblock_rw st addr w;
           (case b of
              None \<Rightarrow> Some (None, st, w)
            | Some b \<Rightarrow> do {
                sl \<leftarrow> slot_at b (addr_ofs addr) w;
                (case sl_value sl of
                   None \<Rightarrow> Some (None, st, w)
                 | Some v \<Rightarrow> do {
                     x \<leftarrow> vh_mem (w_heap w) v;
                     (r, w) \<leftarrow> (if val_refcnt x > 1 \<and> \<not> noval
                               then do {
                                 (n, h) \<leftarrow> cesk_value_fork junk v (w_heap w);
                                 let w = w\<lparr>w_heap := h\<rparr>;
                                 (case n of
                                    None \<Rightarrow> Some (None, w)
                                  | Some n \<Rightarrow> do {
                                      w \<leftarrow> slot_upd b (addr_ofs addr) (\<lambda>sl. sl\<lparr>sl_value := Some n\<rparr>) w;
                                      w \<leftarrow> heap_op (cesk_value_decref v) w;
                                      w \<leftarrow> heap_op (cesk_value_incref n) w;
                                      Some (Some n, w) }) }
                               else Some (Some v, w));
                     (case r of
                        None \<Rightarrow> Some (None, st, w)
                      | Some v \<Rightarrow> do {
                          st \<leftarrow> flush_hash class_addr addr b st w;
                          x \<leftarrow> vh_mem (w_heap w) v;
                          w \<leftarrow> (if val_reloc x then block_upd b (\<lambda>blk. blk\<lparr>sb_num_reloc := sb_num_reloc blk - 1\<rparr>) w else Some w);
                          w \<leftarrow> (if val_write_count x > 15 then Some w
                                else heap_op (value_upd v (\<lambda>x. x\<lparr>val_write_count := (val_write_count x + 1) mod 16\<rparr>)) w);
                          Some (Some v, st, w) }) }) })
         })"

definition cesk_store_release_rw ::
  "('d class_ref \<Rightarrow> nat) \<Rightarrow> cesk_store \<Rightarrow> u32 \<Rightarrow> 'd world \<Rightarrow> (cesk_store \<times> 'd world) option" where
  "cesk_store_release_rw class_addr st addr w =
     (let addr = cesk_store_make_object_address st addr w
      in if addr = CESK_STORE_ADDR_NULL then Some (st, w)
         else if addr_block addr \<ge> nblocks st then Some (st, w)
         else do {
           (b, st, w) \<leftarrow> cesk_store_getblock_rw st addr w;
           b \<leftarrow> b;
           sl \<leftarrow> slot_at b (addr_ofs addr) w;
           v \<leftarrow> sl_value sl;
           x \<leftarrow> vh_mem (w_heap w) v;
           if val_write_count x = 0 then Some (st, w)
           else do {
             w \<leftarrow> heap_op (value_upd v (\<lambda>x. x\<lparr>val_write_count := val_write_count x - 1\<rparr>)) w;
             if val_write_count x = 1
             then do {
               w \<leftarrow> (if val_reloc x then block_upd b (\<lambda>blk. blk\<lparr>sb_num_reloc := sb_num_reloc blk + 1\<rparr>) w else Some w);
               st \<leftarrow> flush_hash class_addr addr b st w;
               Some (st, w) }
             else Some (st, w) }
         })"

text \<open>The hash code computed afresh, slot by slot. A value with a writer is left out.\<close>

fun hash_slots :: "('d class_ref \<Rightarrow> nat) \<Rightarrow> 'd world \<Rightarrow> nat \<Rightarrow> store_slot list \<Rightarrow> u32 \<Rightarrow> u32 option" where
  "hash_slots class_addr w a [] ret = Some ret"
| "hash_slots class_addr w a (sl # sls) ret =
     (case sl_value sl of
        None \<Rightarrow> hash_slots class_addr w (Suc a) sls ret
      | Some v \<Rightarrow> do {
          x \<leftarrow> vh_mem (w_heap w) v;
          if val_write_count x = 0
          then do {
            k \<leftarrow> HASH_CMP class_addr (of_nat a) (Some v) (sl_reuse sl) w;
            hash_slots class_addr w (Suc a) sls (ret XOR k) }
          else hash_slots class_addr w (Suc a) sls ret })"

fun hash_blocks :: "('d class_ref \<Rightarrow> nat) \<Rightarrow> 'd world \<Rightarrow> nat \<Rightarrow> nat list \<Rightarrow> u32 \<Rightarrow> u32 option" where
  "hash_blocks class_addr w i [] ret = Some ret"
| "hash_blocks class_addr w i (b # bs) ret = do {
     blk \<leftarrow> w_blocks w b;
     ret \<leftarrow> hash_slots class_addr w (i * CESK_STORE_BLOCK_NSLOTS) (sb_slots blk) ret;
     hash_blocks class_addr w (Suc i) bs ret }"

definition cesk_store_compute_hashcode :: "('d class_ref \<Rightarrow> nat) \<Rightarrow> cesk_store \<Rightarrow> 'd world \<Rightarrow> u32 option" where
  "cesk_store_compute_hashcode class_addr st w = hash_blocks class_addr w 0 (st_blocks st) CESK_STORE_EMPTY_HASH"

subsection \<open>Allocation\<close>

text \<open>
  The product is computed at 64 bits, the type of \<^verbatim>\<open>MH_MULTIPLY\<close>, and reduced modulo the number of
  slots before it is truncated.
\<close>

definition next_slot :: "nat \<Rightarrow> nat" where
  "next_slot slot =
     unat ((ucast (of_nat slot * of_nat slot :: u32) * MH_MULTIPLY + ucast (100007 * of_nat slot :: u32) + 634567 :: u64)
           mod of_nat CESK_STORE_BLOCK_NSLOTS)"

definition init_slot :: "alloc_param \<Rightarrow> nat" where
  "init_slot param = unat (cesk_alloc_param_hash param) mod CESK_STORE_BLOCK_NSLOTS"

text \<open>What the search has found so far: the first empty slot and the equal slot, as pairs of block and offset.\<close>

type_synonym found = "(nat \<times> nat) option \<times> (nat \<times> nat) option"

fun search_blocks :: "alloc_param \<Rightarrow> nat \<Rightarrow> 'd world \<Rightarrow> nat \<Rightarrow> nat list \<Rightarrow> found \<Rightarrow> found option" where
  "search_blocks param slot w i [] fnd = Some fnd"
| "search_blocks param slot w i (b # bs) (emp, eql) = do {
     sl \<leftarrow> slot_at b slot w;
     let emp = (if \<not> sl_inuse sl \<and> emp = None then Some (i, slot) else emp);
     let eql = (if sl_inuse sl \<and> cesk_alloc_param_equal param (sl_param sl) then Some (i, slot) else eql);
     if eql \<noteq> None then Some (emp, eql) else search_blocks param slot w (Suc i) bs (emp, eql) }"

fun search_attempts :: "nat \<Rightarrow> alloc_param \<Rightarrow> nat \<Rightarrow> 'd world \<Rightarrow> nat list \<Rightarrow> found \<Rightarrow> found option" where
  "search_attempts 0 param slot w bs fnd = Some fnd"
| "search_attempts (Suc n) param slot w bs fnd = do {
     (emp, eql) \<leftarrow> search_blocks param slot w 0 bs fnd;
     if eql \<noteq> None then Some (emp, eql) else search_attempts n param (next_slot slot) w bs (emp, eql) }"

definition slot_addr :: "nat \<times> nat \<Rightarrow> u32" where
  "slot_addr p = of_nat (fst p * CESK_STORE_BLOCK_NSLOTS + snd p)"

definition cesk_store_allocate :: "cesk_store \<Rightarrow> alloc_param \<Rightarrow> 'd world \<Rightarrow> (u32 \<times> cesk_store \<times> 'd world) option" where
  "cesk_store_allocate st param w = do {
     (emp, eql) \<leftarrow> search_attempts CESK_STORE_ALLOC_ATTEMPT param (init_slot param) w (st_blocks st) (None, None);
     (case eql of
        Some p \<Rightarrow> Some (slot_addr p, st, w)
      | None \<Rightarrow> do {
          let (p, st, w) =
            (case emp of
               Some p \<Rightarrow> (p, st, w)
             | None \<Rightarrow>
                 ((nblocks st, init_slot param), st\<lparr>st_blocks := st_blocks st @ [w_next_block w]\<rparr>,
                  w\<lparr>w_blocks := (w_blocks w)(w_next_block w \<mapsto> block_zero\<lparr>sb_refcnt := 1\<rparr>), w_next_block := Suc (w_next_block w)\<rparr>));
          w \<leftarrow> slot_upd (st_blocks st ! fst p) (snd p) (\<lambda>sl. sl\<lparr>sl_param := param, sl_reuse := False, sl_inuse := True\<rparr>) w;
          Some (slot_addr p, st, w) })
   }"

subsection \<open>Reference counters of slots\<close>

definition cesk_store_incref :: "cesk_store \<Rightarrow> u32 \<Rightarrow> 'd world \<Rightarrow> (int \<times> cesk_store \<times> 'd world) option" where
  "cesk_store_incref st addr w =
     (let addr = cesk_store_make_object_address st addr w
      in if addr = CESK_STORE_ADDR_NULL then Some (-1, st, w)
         else if CESK_STORE_ADDR_IS_CONST addr then Some (0, st, w)
         else do {
           (b, st, w) \<leftarrow> cesk_store_getblock_rw st addr w;
           (case b of
              None \<Rightarrow> Some (-1, st, w)
            | Some b \<Rightarrow> do {
                sl \<leftarrow> slot_at b (addr_ofs addr) w;
                if sl_value sl \<noteq> None
                then do {
                  w \<leftarrow> slot_upd b (addr_ofs addr) (\<lambda>sl. sl\<lparr>sl_refcnt := (sl_refcnt sl + 1) AND 0x7fffffff\<rparr>) w;
                  Some (uint ((sl_refcnt sl + 1) AND 0x7fffffff), st, w) }
                else Some (-1, st, w) }) })"

text \<open>
  Dropping the last reference to a slot empties it and drops the references of its value in turn. The
  loops over the references of a value take the function that drops one as an argument, \<open>dec\<close>; it is
  \<open>cesk_store_decref\<close> with less fuel. Every round of the recursion empties a slot.
\<close>

type_synonym 'd decref_fun = "cesk_store \<Rightarrow> u32 \<Rightarrow> 'd world \<Rightarrow> (int \<times> cesk_store \<times> 'd world) option"

fun cesk_store_free_set :: "'d decref_fun \<Rightarrow> nat \<Rightarrow> nat option \<Rightarrow> cesk_store \<Rightarrow> 'd world \<Rightarrow> (cesk_store \<times> 'd world) option" where
  "cesk_store_free_set dec 0 iter st w = None"
| "cesk_store_free_set dec (Suc n) iter st w = do {
     (addr, iter) \<leftarrow> cesk_set_iter_next iter (vh_sets (w_heap w));
     if addr = CESK_STORE_ADDR_NULL then Some (st, w)
     else do { (rc, st, w) \<leftarrow> dec st addr w; cesk_store_free_set dec n iter st w } }"

fun free_addrs :: "'d decref_fun \<Rightarrow> u32 list \<Rightarrow> cesk_store \<Rightarrow> 'd world \<Rightarrow> (cesk_store \<times> 'd world) option" where
  "free_addrs dec [] st w = Some (st, w)"
| "free_addrs dec (a # as) st w = do { (rc, st, w) \<leftarrow> dec st a w; free_addrs dec as st w }"

fun free_builtin :: "'d decref_fun \<Rightarrow> nat \<Rightarrow> 'd bci_class_wrap \<Rightarrow> 'd \<Rightarrow> nat \<Rightarrow> cesk_store \<Rightarrow> 'd world \<Rightarrow> (cesk_store \<times> 'd world) option" where
  "free_builtin dec 0 wr d offset st w = None"
| "free_builtin dec (Suc n) wr d offset st w =
     (case bci_class_read (Some d) offset 128 (Some (wrap_class wr)) of
        (rc, buf) \<Rightarrow>
          if rc \<le> 0 then Some (st, w)
          else do {
            (st, w) \<leftarrow> free_addrs dec (take (nat rc) buf) st w;
            free_builtin dec n wr d (offset + nat rc) st w })"

fun cesk_store_free_object :: "'d decref_fun \<Rightarrow> nat \<Rightarrow> 'd object_struct list \<Rightarrow> cesk_store \<Rightarrow> 'd world \<Rightarrow> (cesk_store \<times> 'd world) option" where
  "cesk_store_free_object dec n [] st w = Some (st, w)"
| "cesk_store_free_object dec n (UdefStruct c tab # ss) st w = do {
     (st, w) \<leftarrow> free_addrs dec tab st w; cesk_store_free_object dec n ss st w }"
| "cesk_store_free_object dec n (BciStruct wr d # ss) st w = do {
     (st, w) \<leftarrow> free_builtin dec n wr d 0 st w; cesk_store_free_object dec n ss st w }"

definition swipe_with ::
  "('d class_ref \<Rightarrow> nat) \<Rightarrow> 'd decref_fun \<Rightarrow> nat \<Rightarrow> cesk_store \<Rightarrow> nat \<Rightarrow> u32 \<Rightarrow> 'd world \<Rightarrow> (cesk_store \<times> 'd world) option" where
  "swipe_with class_addr dec n st b addr w = do {
     sl \<leftarrow> slot_at b (addr_ofs addr) w;
     v \<leftarrow> sl_value sl;
     w \<leftarrow> slot_upd b (addr_ofs addr) (\<lambda>sl. sl\<lparr>sl_value := None\<rparr>) w;
     k \<leftarrow> HASH_INC class_addr addr (Some v) (sl_reuse sl) w;
     let st = st\<lparr>st_hashcode := st_hashcode st XOR k\<rparr>;
     x \<leftarrow> vh_mem (w_heap w) v;
     (st, w) \<leftarrow> (case val_data x of
                 VObject None \<Rightarrow> Some (st, w)
               | VObject (Some obj) \<Rightarrow> cesk_store_free_object dec n (obj_members obj) st w
               | VSet None \<Rightarrow> None
               | VSet (Some i) \<Rightarrow>
                   (case cesk_set_iter i (vh_sets (w_heap w)) of
                      None \<Rightarrow> Some (st, w)
                    | Some iter \<Rightarrow> cesk_store_free_set dec (Suc (next_node (vh_sets (w_heap w)))) iter st w));
     w \<leftarrow> heap_op (cesk_value_decref v) w;
     Some (st, w) }"

definition decref_with :: "('d class_ref \<Rightarrow> nat) \<Rightarrow> 'd decref_fun \<Rightarrow> nat \<Rightarrow> 'd decref_fun" where
  "decref_with class_addr dec n st addr w =
     (let addr = cesk_store_make_object_address st addr w
      in if addr = CESK_STORE_ADDR_NULL then Some (-1, st, w)
         else if CESK_STORE_ADDR_IS_CONST addr then Some (0, st, w)
         else do {
           (b, st, w) \<leftarrow> cesk_store_getblock_rw st addr w;
           (case b of
              None \<Rightarrow> Some (-1, st, w)
            | Some b \<Rightarrow> do {
                sl \<leftarrow> slot_at b (addr_ofs addr) w;
                if sl_value sl = None then Some (0, st, w)
                else do {
                  w \<leftarrow> (if sl_refcnt sl > 0 then slot_upd b (addr_ofs addr) (\<lambda>sl. sl\<lparr>sl_refcnt := sl_refcnt sl - 1\<rparr>) w else Some w);
                  sl \<leftarrow> slot_at b (addr_ofs addr) w;
                  (st, w) \<leftarrow> (if sl_refcnt sl = 0
                            then do {
                              (st, w) \<leftarrow> swipe_with class_addr dec n st b addr w;
                              w \<leftarrow> block_upd b (\<lambda>blk. blk\<lparr>sb_num_ent := sb_num_ent blk - 1\<rparr>) w;
                              Some (st\<lparr>st_num_ent := st_num_ent st - 1\<rparr>, w) }
                            else Some (st, w));
                  sl \<leftarrow> slot_at b (addr_ofs addr) w;
                  Some (uint (sl_refcnt sl), st, w) } }) })"

primrec cesk_store_decref :: "('d class_ref \<Rightarrow> nat) \<Rightarrow> nat \<Rightarrow> 'd decref_fun" where
  "cesk_store_decref class_addr 0 = (\<lambda>st addr w. None)"
| "cesk_store_decref class_addr (Suc f) = decref_with class_addr (cesk_store_decref class_addr f) f"

definition cesk_store_swipe ::
  "('d class_ref \<Rightarrow> nat) \<Rightarrow> nat \<Rightarrow> cesk_store \<Rightarrow> nat \<Rightarrow> u32 \<Rightarrow> 'd world \<Rightarrow> (cesk_store \<times> 'd world) option" where
  "cesk_store_swipe class_addr f = swipe_with class_addr (cesk_store_decref class_addr f) f"

definition cesk_store_get_refcnt :: "cesk_store \<Rightarrow> u32 \<Rightarrow> 'd world \<Rightarrow> u32 option" where
  "cesk_store_get_refcnt st addr w =
     (let addr = cesk_store_make_object_address st addr w
      in if addr = CESK_STORE_ADDR_NULL then Some (-1)
         else if nblocks st \<le> addr_block addr then Some 0
         else map_option sl_refcnt (slot_at (st_blocks st ! addr_block addr) (addr_ofs addr) w))"

definition cesk_store_clear_refcnt :: "cesk_store \<Rightarrow> u32 \<Rightarrow> 'd world \<Rightarrow> (int \<times> cesk_store \<times> 'd world) option" where
  "cesk_store_clear_refcnt st addr w =
     (let addr = cesk_store_make_object_address st addr w
      in if addr = CESK_STORE_ADDR_NULL then Some (-1, st, w)
         else do {
           (b, st, w) \<leftarrow> cesk_store_getblock_rw st addr w;
           (case b of
              None \<Rightarrow> Some (-1, st, w)
            | Some b \<Rightarrow> do { w \<leftarrow> slot_upd b (addr_ofs addr) (\<lambda>sl. sl\<lparr>sl_refcnt := 0\<rparr>) w; Some (0, st, w) }) })"

subsection \<open>Attaching values, comparison and release\<close>

definition cesk_store_attach ::
  "('d class_ref \<Rightarrow> nat) \<Rightarrow> nat \<Rightarrow> cesk_store \<Rightarrow> u32 \<Rightarrow> nat option \<Rightarrow> 'd world \<Rightarrow> (int \<times> cesk_store \<times> 'd world) option" where
  "cesk_store_attach class_addr f st addr val w =
     (if addr = CESK_STORE_ADDR_NULL then Some (-1, st, w)
      else let addr = cesk_store_make_object_address st addr w
      in if addr = CESK_STORE_ADDR_NULL then Some (-1, st, w)
         else if addr_block addr \<ge> nblocks st then Some (-1, st, w)
         else do {
           sl \<leftarrow> slot_at (st_blocks st ! addr_block addr) (addr_ofs addr) w;
           if val = sl_value sl then Some (0, st, w)
           else do {
             (b, st, w) \<leftarrow> cesk_store_getblock_rw st addr w;
             b \<leftarrow> b;
             (st, w) \<leftarrow>
               (if sl_value sl = None \<and> val \<noteq> None
                then do {
                  w \<leftarrow> block_upd b (\<lambda>blk. blk\<lparr>sb_num_ent := sb_num_ent blk + 1\<rparr>) w;
                  Some (st\<lparr>st_num_ent := st_num_ent st + 1\<rparr>, w) }
                else if sl_value sl \<noteq> None \<and> val = None
                then do {
                  w \<leftarrow> block_upd b (\<lambda>blk. blk\<lparr>sb_num_ent := sb_num_ent blk - 1\<rparr>) w;
                  w \<leftarrow> slot_upd b (addr_ofs addr) (\<lambda>sl. sl\<lparr>sl_inuse := False\<rparr>) w;
                  Some (st\<lparr>st_num_ent := st_num_ent st - 1\<rparr>, w) }
                else Some (st, w));
             (st, w) \<leftarrow> (if sl_value sl \<noteq> None then cesk_store_swipe class_addr f st b addr w else Some (st, w));
             w \<leftarrow> (case val of
                    None \<Rightarrow> Some w
                  | Some v \<Rightarrow> heap_op (\<lambda>h. do { h \<leftarrow> cesk_value_incref v h; value_upd v (\<lambda>x. x\<lparr>val_write_count := 1\<rparr>) h }) w);
             w \<leftarrow> slot_upd b (addr_ofs addr) (\<lambda>sl. sl\<lparr>sl_value := val, sl_reuse := False\<rparr>) w;
             Some (0, st, w) }
         })"

fun decref_values :: "store_slot list \<Rightarrow> 'd value_heap \<Rightarrow> 'd value_heap option" where
  "decref_values [] h = Some h"
| "decref_values (sl # sls) h =
     (case sl_value sl of
        None \<Rightarrow> decref_values sls h
      | Some v \<Rightarrow> do { h \<leftarrow> cesk_value_decref v h; decref_values sls h })"

fun free_blocks :: "nat list \<Rightarrow> 'd world \<Rightarrow> 'd world option" where
  "free_blocks [] w = Some w"
| "free_blocks (b # bs) w = do {
     blk \<leftarrow> w_blocks w b;
     w \<leftarrow> (if sb_refcnt blk > 0 then block_upd b (\<lambda>blk. blk\<lparr>sb_refcnt := sb_refcnt blk - 1\<rparr>) w else Some w);
     blk \<leftarrow> w_blocks w b;
     w \<leftarrow> (if sb_refcnt blk = 0
           then do {
             w \<leftarrow> heap_op (decref_values (sb_slots blk)) w;
             Some (w\<lparr>w_blocks := (w_blocks w)(b := None)\<rparr>) }
           else Some w);
     free_blocks bs w }"

definition cesk_store_free :: "cesk_store option \<Rightarrow> 'd world \<Rightarrow> 'd world option" where
  "cesk_store_free st w = (case st of None \<Rightarrow> Some w | Some st \<Rightarrow> free_blocks (st_blocks st) w)"

fun equal_slots :: "('d class_ref \<Rightarrow> nat) \<Rightarrow> store_slot list \<Rightarrow> store_slot list \<Rightarrow> 'd world \<Rightarrow> bool option" where
  "equal_slots class_addr (s # ss) (t # ts) w = do {
     rc \<leftarrow> cesk_value_equal class_addr (sl_value s) (sl_value t) (w_heap w);
     if rc = 0 then Some False else equal_slots class_addr ss ts w }"
| "equal_slots class_addr ss ts w = Some True"

fun equal_blocks :: "('d class_ref \<Rightarrow> nat) \<Rightarrow> nat list \<Rightarrow> nat list \<Rightarrow> 'd world \<Rightarrow> int option" where
  "equal_blocks class_addr (a # as) (b # bs) w = do {
     x \<leftarrow> w_blocks w a;
     y \<leftarrow> w_blocks w b;
     e \<leftarrow> equal_slots class_addr (sb_slots x) (sb_slots y) w;
     if e then equal_blocks class_addr as bs w else Some 0 }"
| "equal_blocks class_addr as bs w = Some 1"

text \<open>If just one of the stores is null the result is 1, and 0 when both are.\<close>

definition cesk_store_equal :: "('d class_ref \<Rightarrow> nat) \<Rightarrow> cesk_store option \<Rightarrow> cesk_store option \<Rightarrow> 'd world \<Rightarrow> int option" where
  "cesk_store_equal class_addr first second w =
     (case (first, second) of
        (Some f, Some g) \<Rightarrow>
          if nblocks f \<noteq> nblocks g then Some 0
          else if st_hashcode f \<noteq> st_hashcode g then Some 0
          else equal_blocks class_addr (st_blocks f) (st_blocks g) w
      | (None, None) \<Rightarrow> Some 0
      | _ \<Rightarrow> Some 1)"

function compact_loop :: "cesk_store \<Rightarrow> 'd world \<Rightarrow> (cesk_store \<times> 'd world) option" where
  "compact_loop st w =
     (if st_blocks st = [] then Some (st, w)
      else do {
        let b = last (st_blocks st);
        blk \<leftarrow> w_blocks w b;
        if sb_num_ent blk \<noteq> 0 then Some (st, w)
        else compact_loop (st\<lparr>st_blocks := butlast (st_blocks st)\<rparr>)
          (if sb_refcnt blk - 1 = 0 then w\<lparr>w_blocks := (w_blocks w)(b := None)\<rparr>
           else w\<lparr>w_blocks := (w_blocks w)(b \<mapsto> blk\<lparr>sb_refcnt := sb_refcnt blk - 1\<rparr>)\<rparr>) })"
  by pat_completeness auto
termination
  by (relation "measure (\<lambda>(st, w). nblocks st)") auto

declare compact_loop.simps [simp del]

definition cesk_store_compact_store :: "cesk_store option \<Rightarrow> 'd world \<Rightarrow> (int \<times> cesk_store option \<times> 'd world) option" where
  "cesk_store_compact_store st w =
     (case st of
        None \<Rightarrow> Some (-1, None, w)
      | Some st \<Rightarrow> do { (st, w) \<leftarrow> compact_loop st w; Some (0, Some st, w) })"

subsection \<open>Applying the allocation table\<close>

text \<open>A relocated address without a record is left as it is.\<close>

definition apply_addr :: "alloctab option \<Rightarrow> u32 \<Rightarrow> u32 \<Rightarrow> u32" where
  "apply_addr tab token a =
     (if CESK_STORE_ADDR_IS_RELOC a
      then let r = cesk_alloctab_query tab token a in if r = CESK_STORE_ADDR_NULL then a else r
      else a)"

fun apply_set :: "nat \<Rightarrow> alloctab option \<Rightarrow> u32 \<Rightarrow> nat option \<Rightarrow> u32 \<Rightarrow> set_state \<Rightarrow> (u32 \<times> set_state) option" where
  "apply_set 0 tab token iter i s = None"
| "apply_set (Suc n) tab token iter i s = do {
     (a, iter) \<leftarrow> cesk_set_iter_next iter s;
     if a = CESK_STORE_ADDR_NULL then Some (i, s)
     else if CESK_STORE_ADDR_IS_RELOC a
     then let r = cesk_alloctab_query tab token a
          in if r = CESK_STORE_ADDR_NULL then apply_set n tab token iter i s
             else do {
               (rc, d, s) \<leftarrow> cesk_set_modify (Some i) a r s;
               d \<leftarrow> d;
               apply_set n tab token iter d s }
     else apply_set n tab token iter i s }"

text \<open>A write that fails makes the loop read the same part again and again.\<close>

fun apply_builtin :: "nat \<Rightarrow> alloctab option \<Rightarrow> u32 \<Rightarrow> 'd bci_class_wrap \<Rightarrow> nat \<Rightarrow> 'd \<Rightarrow> 'd option" where
  "apply_builtin 0 tab token wr offset d = None"
| "apply_builtin (Suc n) tab token wr offset d =
     (case bci_class_read (Some d) offset 1024 (Some (wrap_class wr)) of
        (rc, buf) \<Rightarrow>
          if rc \<le> 0 then Some d
          else (case bci_class_write d offset (map (apply_addr tab token) (take (nat rc) buf)) (Some (wrap_class wr)) of
                  (rc', d') \<Rightarrow>
                    if rc' < 0 then apply_builtin n tab token wr offset d'
                    else apply_builtin n tab token wr (offset + nat rc) d'))"

fun apply_struct :: "nat \<Rightarrow> alloctab option \<Rightarrow> u32 \<Rightarrow> 'd object_struct \<Rightarrow> 'd object_struct option" where
  "apply_struct n tab token (UdefStruct c as) = Some (UdefStruct c (map (apply_addr tab token) as))"
| "apply_struct n tab token (BciStruct wr d) = map_option (BciStruct wr) (apply_builtin n tab token wr 0 d)"

definition apply_value :: "nat \<Rightarrow> alloctab option \<Rightarrow> u32 \<Rightarrow> nat \<Rightarrow> 'd value_heap \<Rightarrow> (int \<times> 'd value_heap) option" where
  "apply_value n tab token v h = do {
     x \<leftarrow> vh_mem h v;
     (case val_data x of
        VSet None \<Rightarrow> None
      | VSet (Some i) \<Rightarrow>
          (case cesk_set_iter i (vh_sets h) of
             None \<Rightarrow> Some (-1, h)
           | Some iter \<Rightarrow> do {
               (i, s) \<leftarrow> apply_set (Suc (next_node (vh_sets h))) tab token iter i (vh_sets h);
               h \<leftarrow> value_upd v (\<lambda>x. x\<lparr>val_data := VSet (Some i)\<rparr>) (h\<lparr>vh_sets := s\<rparr>);
               Some (0, h) })
      | VObject None \<Rightarrow> None
      | VObject (Some obj) \<Rightarrow> do {
          ss \<leftarrow> map_opt (apply_struct n tab token) (obj_members obj);
          h \<leftarrow> value_upd v (\<lambda>x. x\<lparr>val_data := VObject (Some (obj\<lparr>obj_members := ss\<rparr>))\<rparr>) h;
          Some (0, h) }) }"

fun apply_slots ::
  "('d class_ref \<Rightarrow> nat) \<Rightarrow> nat \<Rightarrow> nat \<Rightarrow> nat \<Rightarrow> u32 \<Rightarrow> nat list \<Rightarrow> cesk_store \<Rightarrow> 'd world \<Rightarrow> (int \<times> cesk_store \<times> 'd world) option" where
  "apply_slots class_addr n junk b base [] st w = Some (0, st, w)"
| "apply_slots class_addr n junk b base (ofs # os) st w = do {
     sl \<leftarrow> slot_at b ofs w;
     (case sl_value sl of
        None \<Rightarrow> apply_slots class_addr n junk b base os st w
      | Some v \<Rightarrow> do {
          r \<leftarrow> cesk_value_get_reloc v (w_heap w);
          if \<not> r then apply_slots class_addr n junk b base os st w
          else do {
            (v, st, w) \<leftarrow> cesk_store_get_rw class_addr junk st (base + of_nat ofs) False w;
            (case v of
               None \<Rightarrow> Some (-1, st, w)
             | Some v \<Rightarrow> do {
                 w \<leftarrow> heap_op (cesk_value_clear_reloc v) w;
                 (rc, h) \<leftarrow> apply_value n (store_tab st w) (st_alloc_token st) v (w_heap w);
                 let w = w\<lparr>w_heap := h\<rparr>;
                 if rc < 0 then Some (-1, st, w)
                 else do {
                   (st, w) \<leftarrow> cesk_store_release_rw class_addr st (base + of_nat ofs) w;
                   apply_slots class_addr n junk b base os st w } }) } }) }"

definition cesk_store_apply_alloc_tab ::
  "('d class_ref \<Rightarrow> nat) \<Rightarrow> nat \<Rightarrow> nat \<Rightarrow> u32 \<Rightarrow> cesk_store \<Rightarrow> 'd world \<Rightarrow> (int \<times> cesk_store \<times> 'd world) option" where
  "cesk_store_apply_alloc_tab class_addr n junk base st w = do {
     (b, st, w) \<leftarrow> cesk_store_getblock_rw st base w;
     (case b of
        None \<Rightarrow> Some (-1, st, w)
      | Some b \<Rightarrow> do {
          (rc, st, w) \<leftarrow> apply_slots class_addr n junk b base [0..<CESK_STORE_BLOCK_NSLOTS] st w;
          if rc < 0 then Some (-1, st, w)
          else do {
            blk \<leftarrow> w_blocks w b;
            Some (if sb_num_reloc blk \<noteq> 0 then -1 else 0, st, w) } }) }"

fun apply_blocks ::
  "('d class_ref \<Rightarrow> nat) \<Rightarrow> nat \<Rightarrow> nat \<Rightarrow> nat list \<Rightarrow> cesk_store \<Rightarrow> 'd world \<Rightarrow> (int \<times> cesk_store \<times> 'd world) option" where
  "apply_blocks class_addr n junk [] st w = Some (0, st, w)"
| "apply_blocks class_addr n junk (i # is) st w = do {
     blk \<leftarrow> w_blocks w (st_blocks st ! i);
     if sb_num_reloc blk > 0
     then do {
       (rc, st, w) \<leftarrow> cesk_store_apply_alloc_tab class_addr n junk (of_nat (i * CESK_STORE_BLOCK_NSLOTS)) st w;
       if rc < 0 then Some (-1, st, w) else apply_blocks class_addr n junk is st w }
     else apply_blocks class_addr n junk is st w }"

definition cesk_store_apply_alloctab ::
  "('d class_ref \<Rightarrow> nat) \<Rightarrow> nat \<Rightarrow> nat \<Rightarrow> cesk_store \<Rightarrow> 'd world \<Rightarrow> (int \<times> cesk_store \<times> 'd world) option" where
  "cesk_store_apply_alloctab class_addr n junk st w =
     (if st_alloc_tab st = None then Some (0, st, w)
      else do {
        (rc, st, w) \<leftarrow> apply_blocks class_addr n junk [0..<nblocks st] st w;
        if rc < 0 then Some (-1, st, w) else Some (0, st\<lparr>st_alloc_tab := None\<rparr>, w) })"

end
