(* ===== verification/Cesk_Store_Alloc.thy ===== *)
theory Cesk_Store_Alloc
  imports Cesk_Store
begin

text \<open>
  The allocator of the abstract store: what its search finds, that an allocation parameter keeps its
  address, and that the allocator writes to blocks without regard to the stores that share them.
\<close>

subsection \<open>Well-formed stores\<close>

definition store_ok :: "cesk_store \<Rightarrow> 'd world \<Rightarrow> bool" where
  "store_ok st w \<longleftrightarrow> distinct (st_blocks st) \<and>
     (\<forall>b \<in> set (st_blocks st). b < w_next_block w \<and>
        (\<exists>blk. w_blocks w b = Some blk \<and> length (sb_slots blk) = CESK_STORE_BLOCK_NSLOTS))"

definition store_slot_at :: "cesk_store \<Rightarrow> nat \<times> nat \<Rightarrow> 'd world \<Rightarrow> store_slot option" where
  "store_slot_at st p w = (if fst p < nblocks st then slot_at (st_blocks st ! fst p) (snd p) w else None)"

lemma nslots_pos [simp]: "0 < CESK_STORE_BLOCK_NSLOTS" "CESK_STORE_BLOCK_NSLOTS \<noteq> 0"
  by (simp_all add: CESK_STORE_BLOCK_NSLOTS_def CESK_STORE_BLOCK_SIZE_def)

lemma next_slot_bound [simp]: "next_slot s < CESK_STORE_BLOCK_NSLOTS"
proof -
  have "unat ((x :: u64) mod of_nat CESK_STORE_BLOCK_NSLOTS) < CESK_STORE_BLOCK_NSLOTS" for x
    by (simp add: unat_mod unat_of_nat CESK_STORE_BLOCK_NSLOTS_def CESK_STORE_BLOCK_SIZE_def)
  then show ?thesis unfolding next_slot_def .
qed

lemma init_slot_bound [simp]: "init_slot param < CESK_STORE_BLOCK_NSLOTS"
  by (simp add: init_slot_def)

lemma store_slot_exists:
  "store_ok st w \<Longrightarrow> i < nblocks st \<Longrightarrow> o' < CESK_STORE_BLOCK_NSLOTS \<Longrightarrow> \<exists>sl. slot_at (st_blocks st ! i) o' w = Some sl"
proof -
  assume "store_ok st w" "i < nblocks st" "o' < CESK_STORE_BLOCK_NSLOTS"
  moreover from this obtain blk where "w_blocks w (st_blocks st ! i) = Some blk" "length (sb_slots blk) = CESK_STORE_BLOCK_NSLOTS"
    using nth_mem [of i "st_blocks st"] unfolding store_ok_def by blast
  ultimately show ?thesis by (simp add: slot_at_def)
qed

subsection \<open>The search\<close>

fun probes :: "nat \<Rightarrow> nat \<Rightarrow> nat list" where
  "probes 0 slot = []"
| "probes (Suc n) slot = slot # probes n (next_slot slot)"

definition positions :: "nat list \<Rightarrow> nat \<Rightarrow> (nat \<times> nat) list" where
  "positions os n = concat (map (\<lambda>o'. map (\<lambda>i. (i, o')) [0..<n]) os)"

definition slot_matches :: "alloc_param \<Rightarrow> cesk_store \<Rightarrow> 'd world \<Rightarrow> nat \<times> nat \<Rightarrow> bool" where
  "slot_matches param st w p \<longleftrightarrow> (\<exists>sl. store_slot_at st p w = Some sl \<and> sl_inuse sl \<and> sl_param sl = param)"

definition slot_free :: "cesk_store \<Rightarrow> 'd world \<Rightarrow> nat \<times> nat \<Rightarrow> bool" where
  "slot_free st w p \<longleftrightarrow> (\<exists>sl. store_slot_at st p w = Some sl \<and> \<not> sl_inuse sl)"

definition or_else :: "'a option \<Rightarrow> 'a option \<Rightarrow> 'a option" where
  "or_else x y = (case x of None \<Rightarrow> y | Some _ \<Rightarrow> x)"

lemma or_else_simps [simp]: "or_else None y = y" "or_else (Some a) y = Some a" "or_else x None = x"
  by (simp_all add: or_else_def split: option.split)

lemma or_else_assoc: "or_else (or_else x y) z = or_else x (or_else y z)"
  by (cases x) simp_all

lemma find_append_or_else: "find P (xs @ ys) = or_else (find P xs) (find P ys)"
  by (induction xs) simp_all

lemma param_equal: "cesk_alloc_param_equal p q \<longleftrightarrow> q = p"
  by (cases p; cases q) (auto simp: cesk_alloc_param_equal_def)

lemma search_blocks_find:
  assumes "store_ok st w" "slot < CESK_STORE_BLOCK_NSLOTS" "i \<le> nblocks st"
  shows "\<exists>e. search_blocks param slot w i (drop i (st_blocks st)) (emp, None) =
      Some (e, find (slot_matches param st w) (map (\<lambda>i. (i, slot)) [i..<nblocks st])) \<and>
    (find (slot_matches param st w) (map (\<lambda>i. (i, slot)) [i..<nblocks st]) = None \<longrightarrow>
       e = or_else emp (find (slot_free st w) (map (\<lambda>i. (i, slot)) [i..<nblocks st])))"
  using assms(3)
proof (induction "nblocks st - i" arbitrary: i emp)
  case 0
  then show ?case by simp
next
  case (Suc n)
  then have i: "i < nblocks st" "n = nblocks st - Suc i" by auto
  obtain sl where sl: "slot_at (st_blocks st ! i) slot w = Some sl" using store_slot_exists [OF assms(1) i(1) assms(2)] by blast
  have drop: "drop i (st_blocks st) = st_blocks st ! i # drop (Suc i) (st_blocks st)" using i(1) by (simp add: Cons_nth_drop_Suc)
  have upt: "[i..<nblocks st] = i # [Suc i..<nblocks st]" using i(1) by (simp add: upt_conv_Cons)
  have here: "slot_matches param st w (i, slot) \<longleftrightarrow> sl_inuse sl \<and> sl_param sl = param" "slot_free st w (i, slot) \<longleftrightarrow> \<not> sl_inuse sl"
    using sl i(1) by (simp_all add: slot_matches_def slot_free_def store_slot_at_def)
  show ?case
  proof (cases "slot_matches param st w (i, slot)")
    case True
    then show ?thesis using sl here by (simp add: drop upt param_equal)
  next
    case False
    let ?emp = "if \<not> sl_inuse sl \<and> emp = None then Some (i, slot) else emp"
    have e: "?emp = or_else emp (if slot_free st w (i, slot) then Some (i, slot) else None)"
      using here by (cases emp) simp_all
    obtain r where r: "search_blocks param slot w (Suc i) (drop (Suc i) (st_blocks st)) (?emp, None) =
        Some (r, find (slot_matches param st w) (map (\<lambda>i. (i, slot)) [Suc i..<nblocks st]))"
      "find (slot_matches param st w) (map (\<lambda>i. (i, slot)) [Suc i..<nblocks st]) = None \<longrightarrow>
         r = or_else ?emp (find (slot_free st w) (map (\<lambda>i. (i, slot)) [Suc i..<nblocks st]))"
      using Suc.hyps(1) [OF i(2), of ?emp] i(1) by auto
    have nm: "\<not> (sl_inuse sl \<and> cesk_alloc_param_equal param (sl_param sl))" using False here(1) by (simp add: param_equal)
    have "search_blocks param slot w i (drop i (st_blocks st)) (emp, None) =
        search_blocks param slot w (Suc i) (drop (Suc i) (st_blocks st)) (?emp, None)"
      using sl nm by (cases "sl_inuse sl") (auto simp: drop)
    then show ?thesis using r False by (auto simp: upt e or_else_assoc here split: if_splits)
  qed
qed

lemma search_attempts_find:
  assumes "store_ok st w" "slot < CESK_STORE_BLOCK_NSLOTS"
  shows "\<exists>e. search_attempts n param slot w (st_blocks st) (emp, None) =
      Some (e, find (slot_matches param st w) (positions (probes n slot) (nblocks st))) \<and>
    (find (slot_matches param st w) (positions (probes n slot) (nblocks st)) = None \<longrightarrow>
       e = or_else emp (find (slot_free st w) (positions (probes n slot) (nblocks st))))"
  using assms(2)
proof (induction n arbitrary: slot emp)
  case 0
  then show ?case by (simp add: positions_def)
next
  case (Suc n)
  let ?ps = "map (\<lambda>i. (i, slot)) [0..<nblocks st]"
  have pos: "positions (slot # probes n (next_slot slot)) (nblocks st) = ?ps @ positions (probes n (next_slot slot)) (nblocks st)"
    by (simp add: positions_def)
  obtain e where e: "search_blocks param slot w 0 (st_blocks st) (emp, None) = Some (e, find (slot_matches param st w) ?ps)"
    "find (slot_matches param st w) ?ps = None \<longrightarrow> e = or_else emp (find (slot_free st w) ?ps)"
    using search_blocks_find [OF assms(1) Suc.prems, of 0 param emp] by auto
  show ?case
  proof (cases "find (slot_matches param st w) ?ps")
    case None
    obtain r where "search_attempts n param (next_slot slot) w (st_blocks st) (e, None) =
        Some (r, find (slot_matches param st w) (positions (probes n (next_slot slot)) (nblocks st)))"
      "find (slot_matches param st w) (positions (probes n (next_slot slot)) (nblocks st)) = None \<longrightarrow>
         r = or_else e (find (slot_free st w) (positions (probes n (next_slot slot)) (nblocks st)))"
      using Suc.IH [of "next_slot slot" e] by auto
    then show ?thesis using e None by (auto simp: pos find_append_or_else or_else_assoc)
  next
    case (Some p)
    then show ?thesis using e by (simp add: pos find_append_or_else)
  qed
qed

subsection \<open>What an allocation does\<close>

lemma positions_mem: "p \<in> set (positions os n) \<longleftrightarrow> fst p < n \<and> snd p \<in> set os"
  by (cases p) (force simp: positions_def)

lemma probes_bound: "slot < CESK_STORE_BLOCK_NSLOTS \<Longrightarrow> o' \<in> set (probes n slot) \<Longrightarrow> o' < CESK_STORE_BLOCK_NSLOTS"
proof (induction n arbitrary: slot)
  case (Suc n)
  then show ?case using Suc.IH [of "next_slot slot"] by auto
qed simp

lemma find_only: "p \<in> set xs \<Longrightarrow> (\<And>q. q \<in> set xs \<Longrightarrow> P q \<longleftrightarrow> q = p) \<Longrightarrow> find P xs = Some p"
  by (induction xs) auto

lemma find_Some_mem: "find P xs = Some p \<Longrightarrow> p \<in> set xs \<and> P p"
  by (induction xs) (auto split: if_splits)

lemma find_None_mem: "find P xs = None \<longleftrightarrow> (\<forall>q \<in> set xs. \<not> P q)"
  by (induction xs) auto

lemma slot_at_upd:
  "slot_upd b o' f w = Some w' \<Longrightarrow>
     slot_at b2 o2 w' = (if b2 = b \<and> o2 = o' then map_option f (slot_at b o' w) else slot_at b2 o2 w)"
  by (auto simp: slot_upd_def slot_at_def block_upd_def bind_eq_Some_conv split: if_splits)

lemma slot_upd_Some: "slot_at b o' w = Some sl \<Longrightarrow> \<exists>w'. slot_upd b o' f w = Some w'"
  by (auto simp: slot_upd_def slot_at_def block_upd_def bind_eq_Some_conv split: if_splits)

lemma slot_upd_frame:
  "slot_upd b o' f w = Some w' \<Longrightarrow> w_next_block w' = w_next_block w \<and> w_heap w' = w_heap w \<and> w_tabs w' = w_tabs w \<and>
     (\<forall>c. map_option (\<lambda>blk. length (sb_slots blk)) (w_blocks w' c) = map_option (\<lambda>blk. length (sb_slots blk)) (w_blocks w c)) \<and>
     (\<forall>c. map_option sb_refcnt (w_blocks w' c) = map_option sb_refcnt (w_blocks w c))"
  by (auto simp: slot_upd_def slot_at_def block_upd_def bind_eq_Some_conv split: if_splits)

lemma store_ok_alt:
  "store_ok st w \<longleftrightarrow> distinct (st_blocks st) \<and>
     (\<forall>b \<in> set (st_blocks st). b < w_next_block w \<and> map_option (\<lambda>blk. length (sb_slots blk)) (w_blocks w b) = Some CESK_STORE_BLOCK_NSLOTS)"
  by (auto simp: store_ok_def)

lemma store_ok_upd: "slot_upd b o' f w = Some w' \<Longrightarrow> store_ok st w \<Longrightarrow> store_ok st w'"
  using slot_upd_frame [of b o' f w w'] by (simp add: store_ok_alt)

lemma slot_addr_parts:
  assumes "snd p < CESK_STORE_BLOCK_NSLOTS" "Suc (fst p) * CESK_STORE_BLOCK_NSLOTS \<le> 0xff000000"
  shows "addr_block (slot_addr p) = fst p" "addr_ofs (slot_addr p) = snd p" "CESK_STORE_ADDR_IS_OBJ (slot_addr p)"
proof -
  have lt: "fst p * CESK_STORE_BLOCK_NSLOTS + snd p < 0xff000000" using assms by simp
  then have u: "unat (slot_addr p) = fst p * CESK_STORE_BLOCK_NSLOTS + snd p"
    unfolding slot_addr_def by (simp add: unat_of_nat take_bit_nat_eq_self_iff del: of_nat_add of_nat_mult)
  show "addr_block (slot_addr p) = fst p" "addr_ofs (slot_addr p) = snd p" using u assms(1) by simp_all
  show "CESK_STORE_ADDR_IS_OBJ (slot_addr p)"
    using u lt by (simp add: CESK_STORE_ADDR_IS_OBJ_def CESK_STORE_ADDR_OBJ_LIMIT_def CESK_STORE_ADDR_RELOC_PREFIX_def word_less_nat_alt)
qed

abbreviation search_positions :: "alloc_param \<Rightarrow> cesk_store \<Rightarrow> (nat \<times> nat) list" where
  "search_positions param st \<equiv> positions (probes CESK_STORE_ALLOC_ATTEMPT (init_slot param)) (nblocks st)"

abbreviation mark_slot :: "alloc_param \<Rightarrow> store_slot \<Rightarrow> store_slot" where
  "mark_slot param \<equiv> \<lambda>sl. sl\<lparr>sl_param := param, sl_reuse := False, sl_inuse := True\<rparr>"

definition with_new_block :: "'d world \<Rightarrow> 'd world" where
  "with_new_block w = w\<lparr>w_blocks := (w_blocks w)(w_next_block w \<mapsto> block_zero\<lparr>sb_refcnt := 1\<rparr>), w_next_block := Suc (w_next_block w)\<rparr>"

lemma allocate_cases:
  assumes "store_ok st w"
  shows "cesk_store_allocate st param w =
    (case find (slot_matches param st w) (search_positions param st) of
       Some p \<Rightarrow> Some (slot_addr p, st, w)
     | None \<Rightarrow>
         (case find (slot_free st w) (search_positions param st) of
            Some p \<Rightarrow> map_option (\<lambda>w'. (slot_addr p, st, w')) (slot_upd (st_blocks st ! fst p) (snd p) (mark_slot param) w)
          | None \<Rightarrow>
              map_option (\<lambda>w'. (slot_addr (nblocks st, init_slot param), st\<lparr>st_blocks := st_blocks st @ [w_next_block w]\<rparr>, w'))
                (slot_upd (w_next_block w) (init_slot param) (mark_slot param) (with_new_block w))))"
proof -
  obtain e where e: "search_attempts CESK_STORE_ALLOC_ATTEMPT param (init_slot param) w (st_blocks st) (None, None) =
      Some (e, find (slot_matches param st w) (search_positions param st))"
    "find (slot_matches param st w) (search_positions param st) = None \<longrightarrow> e = find (slot_free st w) (search_positions param st)"
    using search_attempts_find [OF assms init_slot_bound, of CESK_STORE_ALLOC_ATTEMPT param param None] by auto
  show ?thesis
  proof (cases "find (slot_matches param st w) (search_positions param st)")
    case None
    then show ?thesis using e
      by (cases "find (slot_free st w) (search_positions param st)")
        (auto simp: cesk_store_allocate_def with_new_block_def map_option_case bind_eq_Some_conv split: option.split)
  qed (use e in \<open>auto simp: cesk_store_allocate_def\<close>)
qed

lemma slot_at_mark:
  assumes "slot_upd (st_blocks st ! fst p) (snd p) (mark_slot param) w = Some w'" "store_ok st w" "fst p < nblocks st" "fst q < nblocks st"
  shows "store_slot_at st q w' = (if q = p then map_option (mark_slot param) (store_slot_at st p w) else store_slot_at st q w)"
proof -
  have "st_blocks st ! fst q = st_blocks st ! fst p \<longleftrightarrow> fst q = fst p"
    using assms(2-4) by (simp add: store_ok_def nth_eq_iff_index_eq)
  then show ?thesis using assms(3,4) slot_at_upd [OF assms(1)] by (auto simp: store_slot_at_def prod_eq_iff)
qed

text \<open>The result of an allocation, as the callers rely on it.\<close>

definition allocated ::
  "cesk_store \<Rightarrow> alloc_param \<Rightarrow> 'd world \<Rightarrow> nat \<times> nat \<Rightarrow> cesk_store \<Rightarrow> 'd world \<Rightarrow> bool" where
  "allocated st param w p st' w' \<longleftrightarrow> store_ok st' w' \<and> snd p < CESK_STORE_BLOCK_NSLOTS \<and> fst p \<le> nblocks st \<and> slot_matches param st' w' p \<and>
     (\<forall>q. q \<noteq> p \<longrightarrow> fst q < nblocks st \<longrightarrow> store_slot_at st' q w' = store_slot_at st q w) \<and>
     (slot_matches param st w p \<and> st' = st \<and> w' = w \<or> slot_free st w p \<or> fst p = nblocks st)"

lemma allocate_reuse:
  assumes "store_ok st w" "find (slot_matches param st w) (search_positions param st) = Some p"
  shows "cesk_store_allocate st param w = Some (slot_addr p, st, w) \<and> allocated st param w p st w"
  using assms find_Some_mem [OF assms(2)] probes_bound [OF init_slot_bound]
  by (auto simp: allocate_cases allocated_def positions_mem)

lemma allocate_empty:
  assumes ok: "store_ok st w" and none: "find (slot_matches param st w) (search_positions param st) = None"
    and free: "find (slot_free st w) (search_positions param st) = Some p"
  shows "\<exists>w'. cesk_store_allocate st param w = Some (slot_addr p, st, w') \<and> allocated st param w p st w' \<and>
    cesk_store_allocate st param w' = Some (slot_addr p, st, w')"
proof -
  have p: "fst p < nblocks st" "snd p < CESK_STORE_BLOCK_NSLOTS" "slot_free st w p" "p \<in> set (search_positions param st)"
    using find_Some_mem [OF free] probes_bound [OF init_slot_bound] by (auto simp: positions_mem)
  obtain sl where sl: "store_slot_at st p w = Some sl" "slot_at (st_blocks st ! fst p) (snd p) w = Some sl"
    using p(1,3) by (auto simp: slot_free_def store_slot_at_def)
  obtain w' where w': "slot_upd (st_blocks st ! fst p) (snd p) (mark_slot param) w = Some w'" using slot_upd_Some [OF sl(2)] by blast
  note view = slot_at_mark [OF w' ok p(1)]
  have ok': "store_ok st w'" by (rule store_ok_upd [OF w' ok])
  have match: "slot_matches param st w' q \<longleftrightarrow> q = p" if "q \<in> set (search_positions param st)" for q
  proof (cases "q = p")
    case False
    then have "store_slot_at st q w' = store_slot_at st q w" using view [of q] that by (simp add: positions_mem)
    then show ?thesis using False none that by (simp add: slot_matches_def find_None_mem)
  qed (use view [of p] p(1) sl in \<open>simp add: slot_matches_def\<close>)
  have "cesk_store_allocate st param w = Some (slot_addr p, st, w')" using none free w' by (simp add: allocate_cases [OF ok])
  moreover have "allocated st param w p st w'" using ok' p match [OF p(4)] view by (auto simp: allocated_def)
  moreover have "cesk_store_allocate st param w' = Some (slot_addr p, st, w')"
    using find_only [OF p(4), of "slot_matches param st w'"] match by (simp add: allocate_cases [OF ok'])
  ultimately show ?thesis by blast
qed

lemma store_ok_new_block:
  assumes "store_ok st w" "st' = st\<lparr>st_blocks := st_blocks st @ [w_next_block w]\<rparr>"
  shows "store_ok st' (with_new_block w)"
  using assms by (auto simp: store_ok_def with_new_block_def block_zero_def)

lemma slot_at_new_block:
  "slot_at b o' (with_new_block w) =
     (if b = w_next_block w then if o' < CESK_STORE_BLOCK_NSLOTS then Some slot_zero else None else slot_at b o' w)"
  by (auto simp: slot_at_def with_new_block_def block_zero_def)

lemma store_slot_new_block:
  assumes "store_ok st w" "st' = st\<lparr>st_blocks := st_blocks st @ [w_next_block w]\<rparr>"
  shows "store_slot_at st' q (with_new_block w) =
    (if fst q = nblocks st then if snd q < CESK_STORE_BLOCK_NSLOTS then Some slot_zero else None else store_slot_at st q w)"
proof -
  have "st_blocks st ! fst q \<noteq> w_next_block w" if "fst q < nblocks st"
    using assms(1) nth_mem [OF that] unfolding store_ok_def by (metis less_irrefl)
  then show ?thesis by (auto simp: store_slot_at_def assms(2) slot_at_new_block nth_append)
qed

lemma init_slot_probe: "init_slot param \<in> set (probes CESK_STORE_ALLOC_ATTEMPT (init_slot param))"
  by (simp add: CESK_STORE_ALLOC_ATTEMPT_def numeral_eq_Suc)

lemma allocate_new_block:
  assumes ok: "store_ok st w" and none: "find (slot_matches param st w) (search_positions param st) = None"
    and full: "find (slot_free st w) (search_positions param st) = None"
  shows "\<exists>st' w'. cesk_store_allocate st param w = Some (slot_addr (nblocks st, init_slot param), st', w') \<and>
    allocated st param w (nblocks st, init_slot param) st' w' \<and>
    cesk_store_allocate st' param w' = Some (slot_addr (nblocks st, init_slot param), st', w')"
proof -
  let ?p = "(nblocks st, init_slot param)"
  define st' where "st' = st\<lparr>st_blocks := st_blocks st @ [w_next_block w]\<rparr>"
  note ok1 = store_ok_new_block [OF ok st'_def] and view1 = store_slot_new_block [OF ok st'_def]
  have len: "nblocks st' = Suc (nblocks st)" and b: "st_blocks st' ! nblocks st = w_next_block w" by (simp_all add: st'_def)
  obtain w' where w': "slot_upd (st_blocks st' ! fst ?p) (snd ?p) (mark_slot param) (with_new_block w) = Some w'"
    using slot_upd_Some [of "w_next_block w" "init_slot param" "with_new_block w" slot_zero "mark_slot param"]
    by (auto simp: b slot_at_new_block)
  have p: "fst ?p < nblocks st'" using len by simp
  note view = slot_at_mark [OF w' ok1 p]
  have ok': "store_ok st' w'" by (rule store_ok_upd [OF w' ok1])
  have mem: "?p \<in> set (search_positions param st')" by (simp add: positions_mem len init_slot_probe)
  have old: "store_slot_at st' q w' = store_slot_at st q w" if "fst q < nblocks st" for q
    using view [of q] view1 [of q] that len by auto
  have match: "slot_matches param st' w' q \<longleftrightarrow> q = ?p" if q: "q \<in> set (search_positions param st')" for q
  proof (cases "fst q = nblocks st")
    case True
    then show ?thesis using view [of q] view1 [of q] len
      by (cases q) (auto simp: slot_matches_def slot_zero_def)
  next
    case False
    then have lt: "fst q < nblocks st" "q \<in> set (search_positions param st)" using q len by (auto simp: positions_mem)
    then have "\<not> slot_matches param st w q" using none by (simp add: find_None_mem)
    then show ?thesis using lt old [OF lt(1)] by (auto simp: slot_matches_def)
  qed
  have "cesk_store_allocate st param w = Some (slot_addr ?p, st', w')"
    using none full w' by (simp add: allocate_cases [OF ok] b st'_def)
  moreover have "allocated st param w ?p st' w'" using ok' match [OF mem] old by (auto simp: allocated_def)
  moreover have "cesk_store_allocate st' param w' = Some (slot_addr ?p, st', w')"
    using find_only [OF mem, of "slot_matches param st' w'"] match by (simp add: allocate_cases [OF ok'])
  ultimately show ?thesis by blast
qed

lemma allocate_correct:
  assumes "store_ok st w"
  shows "\<exists>p st' w'. cesk_store_allocate st param w = Some (slot_addr p, st', w') \<and> allocated st param w p st' w' \<and>
    cesk_store_allocate st' param w' = Some (slot_addr p, st', w')"
proof (cases "find (slot_matches param st w) (search_positions param st)")
  case None
  then show ?thesis
    using allocate_empty [OF assms None] allocate_new_block [OF assms None]
    by (cases "find (slot_free st w) (search_positions param st)") blast+
qed (use allocate_reuse [OF assms] in blast)

text \<open>
  C23: The allocator always returns. On a well-formed store whose blocks fit into the part of the address
  space that belongs to objects, the address it returns is an object address inside of the resulting store,
  its slot is in use and carries the allocation parameter. No other slot of the store changes; the slot
  either had the same parameter already, or was free, or lies in a new block. A second allocation with the
  same parameter returns the same address and changes nothing.
\<close>

theorem cesk_store_allocate_correct:
  assumes "store_ok st w" "Suc (nblocks st) * CESK_STORE_BLOCK_NSLOTS \<le> 0xff000000"
  shows "\<exists>addr st' w'. cesk_store_allocate st param w = Some (addr, st', w') \<and>
    CESK_STORE_ADDR_IS_OBJ addr \<and> allocated st param w (addr_block addr, addr_ofs addr) st' w' \<and>
    cesk_store_allocate st' param w' = Some (addr, st', w')"
proof -
  obtain p st' w' where a: "cesk_store_allocate st param w = Some (slot_addr p, st', w')" "allocated st param w p st' w'"
    "cesk_store_allocate st' param w' = Some (slot_addr p, st', w')" using allocate_correct [OF assms(1)] by blast
  then have "snd p < CESK_STORE_BLOCK_NSLOTS" "Suc (fst p) \<le> Suc (nblocks st)" by (simp_all add: allocated_def)
  moreover from this have "Suc (fst p) * CESK_STORE_BLOCK_NSLOTS \<le> 0xff000000"
    using assms(2) mult_le_mono1 [of "Suc (fst p)" "Suc (nblocks st)" CESK_STORE_BLOCK_NSLOTS] by linarith
  ultimately show ?thesis using a slot_addr_parts [of p] by fastforce
qed

text \<open>The world before the analysis.\<close>

definition empty_world :: "unit world" where
  "empty_world = \<lparr>w_heap = \<lparr>vh_mem = Map.empty, vh_next = 0, vh_sets = set_boot\<rparr>, w_blocks = Map.empty, w_next_block = 0,
     w_tabs = \<lparr>at_mem = Map.empty, at_fresh = 0\<rparr>\<rparr>"

theorem cesk_store_allocate_correct_witness:
  "\<exists>addr st' w'. cesk_store_allocate (cesk_store_empty_store 0) \<lparr>ap_inst = 7, ap_offset = 0\<rparr> empty_world = Some (addr, st', w') \<and>
    CESK_STORE_ADDR_IS_OBJ addr \<and> cesk_store_allocate st' \<lparr>ap_inst = 7, ap_offset = 0\<rparr> w' = Some (addr, st', w')"
proof -
  have "store_ok (cesk_store_empty_store 0) empty_world" by (simp add: store_ok_def cesk_store_empty_store_def)
  moreover have "Suc (nblocks (cesk_store_empty_store 0)) * CESK_STORE_BLOCK_NSLOTS \<le> 0xff000000"
    by (simp add: cesk_store_empty_store_def CESK_STORE_BLOCK_NSLOTS_def CESK_STORE_BLOCK_SIZE_def)
  ultimately show ?thesis using cesk_store_allocate_correct by blast
qed

end
