(* ===== verification/Cesk_Store_Cow.thy ===== *)
theory Cesk_Store_Cow
  imports Cesk_Store_Alloc
begin

text \<open>
  Sharing of blocks between the stores of the analyser (\<^verbatim>\<open>src/cesk/cesk_store.c\<close>). Several stores live
  in one world. The invariant says that the counter of a block is the number of stores that own it; it
  makes a write through one store invisible through the others. The operations that write a block after
  \<open>cesk_store_getblock_rw\<close> keep the invariant; the allocator, which skips that call, does not isolate.
\<close>

subsection \<open>The invariant\<close>

definition w_slots :: "'d world \<Rightarrow> nat \<Rightarrow> store_slot list option" where
  "w_slots w b = map_option sb_slots (w_blocks w b)"

definition w_refs :: "'d world \<Rightarrow> nat \<Rightarrow> u32 option" where
  "w_refs w b = map_option sb_refcnt (w_blocks w b)"

definition owners :: "cesk_store list \<Rightarrow> nat \<Rightarrow> nat set" where
  "owners sts b = {j. j < length sts \<and> b \<in> set (st_blocks (sts ! j))}"

definition heap_bounded :: "'d value_heap \<Rightarrow> bool" where
  "heap_bounded h \<longleftrightarrow> (\<forall>v \<in> dom (vh_mem h). v < vh_next h)"

definition slots_live :: "'d value_heap \<Rightarrow> store_slot list \<Rightarrow> bool" where
  "slots_live h sls \<longleftrightarrow> (\<forall>sl \<in> set sls. set_option (sl_value sl) \<subseteq> dom (vh_mem h))"

definition cow_inv :: "cesk_store list \<Rightarrow> 'd world \<Rightarrow> bool" where
  "cow_inv sts w \<longleftrightarrow> length sts < 2 ^ 32 \<and> heap_bounded (w_heap w) \<and> (\<forall>st \<in> set sts. distinct (st_blocks st)) \<and>
     (\<forall>b. owners sts b \<noteq> {} \<longrightarrow> b < w_next_block w \<and> w_refs w b = Some (of_nat (card (owners sts b))) \<and>
        (\<exists>sls. w_slots w b = Some sls \<and> length sls = CESK_STORE_BLOCK_NSLOTS \<and> slots_live (w_heap w) sls))"

definition same_view :: "cesk_store \<Rightarrow> 'd world \<Rightarrow> cesk_store \<Rightarrow> 'd world \<Rightarrow> bool" where
  "same_view st w st' w' \<longleftrightarrow> (\<forall>q. store_slot_at st' q w' = store_slot_at st q w)"

lemma slot_at_slots: "slot_at b ofs w = do { sls \<leftarrow> w_slots w b; if ofs < length sls then Some (sls ! ofs) else None }"
  by (cases "w_blocks w b") (simp_all add: slot_at_def w_slots_def)

lemma slots_live_mono: "slots_live h sls \<Longrightarrow> dom (vh_mem h) \<subseteq> dom (vh_mem h') \<Longrightarrow> slots_live h' sls"
  unfolding slots_live_def by blast

lemma slots_live_nth: "slots_live h sls \<Longrightarrow> ofs < length sls \<Longrightarrow> set_option (sl_value (sls ! ofs)) \<subseteq> dom (vh_mem h)"
  unfolding slots_live_def using nth_mem by blast

lemma slots_live_update: "slots_live h sls \<Longrightarrow> set_option (sl_value sl) \<subseteq> dom (vh_mem h) \<Longrightarrow> slots_live h (sls[ofs := sl])"
  unfolding slots_live_def using set_update_subset_insert [of sls ofs sl] by blast

lemma same_viewI:
  "st_blocks st' = st_blocks st \<Longrightarrow> (\<And>b. b \<in> set (st_blocks st) \<Longrightarrow> w_slots w' b = w_slots w b) \<Longrightarrow> same_view st w st' w'"
  by (simp add: same_view_def store_slot_at_def slot_at_slots)

lemma same_view_refl [simp]: "same_view st w st w"
  by (simp add: same_view_def)

lemma same_view_trans: "same_view st1 w1 st2 w2 \<Longrightarrow> same_view st2 w2 st3 w3 \<Longrightarrow> same_view st1 w1 st3 w3"
  by (simp add: same_view_def)

lemma owners_cong: "map st_blocks sts = map st_blocks sts' \<Longrightarrow> owners sts b = owners sts' b"
  using map_eq_imp_length_eq [of st_blocks sts st_blocks sts'] unfolding owners_def
  by (metis (no_types, lifting) nth_map)

lemma owners_finite [simp]: "finite (owners sts b)"
  by (simp add: owners_def)

lemma card_owners_le: "card (owners sts b) \<le> length sts"
  using card_mono [of "{..<length sts}" "owners sts b"] by (auto simp: owners_def)

lemma cow_inv_cong:
  assumes "map st_blocks sts = map st_blocks sts'"
  shows "cow_inv sts w \<longleftrightarrow> cow_inv sts' w"
proof -
  have "(\<forall>st \<in> set sts. distinct (st_blocks st)) \<longleftrightarrow> (\<forall>bs \<in> set (map st_blocks sts). distinct bs)"
    "(\<forall>st \<in> set sts'. distinct (st_blocks st)) \<longleftrightarrow> (\<forall>bs \<in> set (map st_blocks sts'). distinct bs)" by simp_all
  moreover have "length sts = length sts'" using assms map_eq_imp_length_eq by blast
  ultimately show ?thesis unfolding cow_inv_def by (simp only: owners_cong [OF assms] assms)
qed

lemma cow_inv_store_ok: "cow_inv sts w \<Longrightarrow> i < length sts \<Longrightarrow> store_ok (sts ! i) w"
proof -
  assume inv: "cow_inv sts w" and i: "i < length sts"
  have "b < w_next_block w \<and> (\<exists>sls. w_slots w b = Some sls \<and> length sls = CESK_STORE_BLOCK_NSLOTS)" if "b \<in> set (st_blocks (sts ! i))" for b
  proof -
    have "owners sts b \<noteq> {}" using that i by (auto simp: owners_def)
    then show ?thesis using inv unfolding cow_inv_def by blast
  qed
  moreover have "distinct (st_blocks (sts ! i))" using inv i by (simp add: cow_inv_def)
  ultimately show ?thesis by (fastforce simp: store_ok_def w_slots_def)
qed

subsection \<open>Taking a block for writing\<close>

lemma incref_values_live:
  "slots_live h sls \<Longrightarrow> heap_bounded h \<Longrightarrow>
     \<exists>h'. incref_values sls h = Some h' \<and> dom (vh_mem h') = dom (vh_mem h) \<and> heap_bounded h'"
proof (induction sls arbitrary: h)
  case (Cons sl sls)
  show ?case
  proof (cases "sl_value sl")
    case None
    then show ?thesis using Cons by (simp add: slots_live_def)
  next
    case (Some v)
    then obtain x where x: "vh_mem h v = Some x" using Cons.prems(1) by (auto simp: slots_live_def)
    let ?h = "h\<lparr>vh_mem := (vh_mem h)(v \<mapsto> x\<lparr>val_refcnt := val_refcnt x + 1\<rparr>)\<rparr>"
    have d: "dom (vh_mem ?h) = dom (vh_mem h)" using x by auto
    have "slots_live ?h sls" "heap_bounded ?h" using Cons.prems d by (simp_all add: slots_live_def heap_bounded_def del: dom_fun_upd)
    from Cons.IH [OF this, unfolded d] show ?thesis using Some x by (simp add: cesk_value_incref_def value_upd_def)
  qed
qed simp

lemma owners_single:
  assumes "card (owners sts b) \<le> 1" "i \<in> owners sts b"
  shows "owners sts b = {i}"
proof -
  have "card (owners sts b) = 1" using assms card_gt_0_iff [of "owners sts b"] by fastforce
  then show ?thesis using assms(2) by (metis card_1_singletonE singletonD)
qed

lemma owners_update:
  assumes "i < length sts" "distinct (st_blocks (sts ! i))" "k < nblocks (sts ! i)" "owners sts n = {}"
    "st' = (sts ! i)\<lparr>st_blocks := (st_blocks (sts ! i))[k := n]\<rparr>"
  shows "owners (sts[i := st']) c =
    (if c = n then {i} else if c = st_blocks (sts ! i) ! k then owners sts c - {i} else owners sts c)"
proof -
  have "set (st_blocks st') = insert n (set (st_blocks (sts ! i)) - {st_blocks (sts ! i) ! k})"
    using assms(2,3,5) by (simp add: set_update_distinct)
  then show ?thesis using assms(1,3,4) by (auto simp: owners_def nth_list_update split: if_splits)
qed

text \<open>The world after block \<open>b\<close> of store \<open>i\<close> has been copied to the fresh block \<open>n\<close>.\<close>

definition copied :: "nat \<Rightarrow> nat \<Rightarrow> 'd world \<Rightarrow> 'd world \<Rightarrow> bool" where
  "copied b n w w' \<longleftrightarrow> w_next_block w' = Suc n \<and> dom (vh_mem (w_heap w')) = dom (vh_mem (w_heap w)) \<and> heap_bounded (w_heap w') \<and>
     (\<forall>c. w_slots w' c = (if c = n then w_slots w b else w_slots w c)) \<and>
     (\<forall>c. w_refs w' c = (if c = n then Some 1 else if c = b then map_option (\<lambda>r. r - 1) (w_refs w b) else w_refs w c))"

lemma cow_inv_block:
  "cow_inv sts w \<Longrightarrow> owners sts b \<noteq> {} \<Longrightarrow> b < w_next_block w \<and> w_refs w b = Some (of_nat (card (owners sts b))) \<and>
     (\<exists>sls. w_slots w b = Some sls \<and> length sls = CESK_STORE_BLOCK_NSLOTS \<and> slots_live (w_heap w) sls)"
  unfolding cow_inv_def by blast

lemma cow_inv_distinct: "cow_inv sts w \<Longrightarrow> i < length sts \<Longrightarrow> distinct (st_blocks (sts ! i))"
  by (simp add: cow_inv_def)

lemma cow_inv_fresh: "cow_inv sts w \<Longrightarrow> owners sts (w_next_block w) = {}"
  unfolding cow_inv_def by blast

lemma cow_inv_copied:
  assumes inv: "cow_inv sts w" and i: "i < length sts" and k: "k < nblocks (sts ! i)" and b: "b = st_blocks (sts ! i) ! k"
    and n: "n = w_next_block w" and st': "st' = (sts ! i)\<lparr>st_blocks := (st_blocks (sts ! i))[k := n]\<rparr>" and cp: "copied b n w w'"
  shows "cow_inv (sts[i := st']) w'" "owners (sts[i := st']) n = {i}"
proof -
  have fresh: "owners sts n = {}" using cow_inv_fresh [OF inv] n by simp
  note dist = cow_inv_distinct [OF inv i]
  note own' = owners_update [OF i dist k fresh st', folded b]
  then show "owners (sts[i := st']) n = {i}" by simp
  have ib: "i \<in> owners sts b" using i k b by (simp add: owners_def)
  then have c1: "of_nat (card (owners sts b)) - (1 :: u32) = of_nat (card (owners sts b - {i}))"
    using card_gt_0_iff [of "owners sts b"] by (cases "card (owners sts b)") auto
  have live: "slots_live (w_heap w') sls \<longleftrightarrow> slots_live (w_heap w) sls" for sls using cp by (simp add: slots_live_def copied_def)
  have bb: "b < w_next_block w" "w_refs w b = Some (of_nat (card (owners sts b)))"
    "\<exists>sls. w_slots w b = Some sls \<and> length sls = CESK_STORE_BLOCK_NSLOTS \<and> slots_live (w_heap w) sls"
    using cow_inv_block [OF inv, of b] ib by blast+
  have nb: "b \<noteq> n" using fresh ib by blast
  have "distinct (st_blocks st')"
    using fresh i dist by (auto simp: st' owners_def intro!: distinct_list_update)
  then have "\<forall>st \<in> set (sts[i := st']). distinct (st_blocks st)"
    using inv set_update_subset_insert [of sts i st'] unfolding cow_inv_def by blast
  moreover have "c < w_next_block w' \<and> w_refs w' c = Some (of_nat (card (owners (sts[i := st']) c))) \<and>
      (\<exists>sls. w_slots w' c = Some sls \<and> length sls = CESK_STORE_BLOCK_NSLOTS \<and> slots_live (w_heap w') sls)"
    if c: "owners (sts[i := st']) c \<noteq> {}" for c
  proof -
    consider "c = n" | "c = b" | "c \<noteq> n" "c \<noteq> b" "owners sts c \<noteq> {}" using c own' by (auto split: if_splits)
    then show ?thesis
    proof cases
      case 1
      then show ?thesis using nb own' bb ib cp by (auto simp: copied_def live)
    next
      case 2
      then show ?thesis using nb own' bb ib cp n c1 by (auto simp: copied_def live)
    next
      case 3
      then show ?thesis using own' cow_inv_block [OF inv, of c] cp n by (auto simp: copied_def live)
    qed
  qed
  ultimately show "cow_inv (sts[i := st']) w'" using inv cp by (auto simp: cow_inv_def copied_def)
qed

lemma same_view_copied:
  assumes inv: "cow_inv sts w" and i: "i < length sts" and k: "k < nblocks (sts ! i)" and b: "b = st_blocks (sts ! i) ! k"
    and n: "n = w_next_block w" and st': "st' = (sts ! i)\<lparr>st_blocks := (st_blocks (sts ! i))[k := n]\<rparr>" and cp: "copied b n w w'"
    and j: "j < length sts"
  shows "same_view (sts ! j) w (sts[i := st'] ! j) w'"
proof -
  have fresh: "n \<notin> set (st_blocks (sts ! m))" if "m < length sts" for m
    using cow_inv_fresh [OF inv] n that by (auto simp: owners_def)
  show ?thesis
  proof (cases "j = i")
    case True
    have "w_slots w' (st_blocks st' ! m) = w_slots w (st_blocks (sts ! i) ! m)" if "m < nblocks (sts ! i)" for m
      using that fresh [OF i] nth_mem [OF that] cp by (cases "m = k") (auto simp: copied_def st' b)
    then show ?thesis using True i by (simp add: same_view_def store_slot_at_def slot_at_slots st')
  next
    case False
    have "c \<noteq> n" if "c \<in> set (st_blocks (sts ! j))" for c using that fresh [OF j] by blast
    then show ?thesis using False cp by (auto intro!: same_viewI simp: copied_def)
  qed
qed

lemma getblock_rw_copies:
  assumes a: "addr \<noteq> CESK_STORE_ADDR_NULL" "addr_block addr < nblocks st" and b: "b = st_blocks st ! addr_block addr"
    and blk: "w_blocks w b = Some blk" "sb_refcnt blk > 1" "b \<noteq> w_next_block w" "slots_live (w_heap w) (sb_slots blk)" "heap_bounded (w_heap w)"
  shows "\<exists>w'. cesk_store_getblock_rw st addr w =
      Some (Some (w_next_block w), st\<lparr>st_blocks := (st_blocks st)[addr_block addr := w_next_block w]\<rparr>, w') \<and> copied b (w_next_block w) w w'"
proof -
  define n where "n = w_next_block w"
  obtain h where h: "incref_values (sb_slots blk) (w_heap w) = Some h" "dom (vh_mem h) = dom (vh_mem (w_heap w))" "heap_bounded h"
    using incref_values_live [OF blk(4,5)] by blast
  define w' where "w' = w\<lparr>w_heap := h, w_next_block := Suc n,
      w_blocks := (w_blocks w)(n \<mapsto> blk\<lparr>sb_refcnt := 1\<rparr>, b \<mapsto> blk\<lparr>sb_refcnt := sb_refcnt blk - 1\<rparr>)\<rparr>"
  have "cesk_store_getblock_rw st addr w = Some (Some n, st\<lparr>st_blocks := (st_blocks st)[addr_block addr := n]\<rparr>, w')"
    using a blk h(1) by (simp add: cesk_store_getblock_rw_def b [symmetric] linorder_not_le cesk_store_block_duplicate_def
        n_def [symmetric] block_upd_def heap_op_def Let_def w'_def)
  moreover have "copied b n w w'" using h(2,3) blk(1,3) by (simp add: copied_def w'_def w_slots_def w_refs_def n_def)
  ultimately show ?thesis by (auto simp: n_def)
qed

lemma getblock_rw_cow:
  fixes w :: "'d world"
  assumes inv: "cow_inv sts w" and i: "i < length sts" and a: "addr \<noteq> CESK_STORE_ADDR_NULL" "addr_block addr < nblocks (sts ! i)"
  shows "\<exists>b st' w'. cesk_store_getblock_rw (sts ! i) addr w = Some (Some b, st', w') \<and> cow_inv (sts[i := st']) w' \<and>
    owners (sts[i := st']) b = {i} \<and> nblocks st' = nblocks (sts ! i) \<and> st_blocks st' ! addr_block addr = b \<and>
    (\<forall>j < length sts. same_view (sts ! j) w (sts[i := st'] ! j) w')"
proof -
  let ?k = "addr_block addr" and ?n = "w_next_block w"
  define b where "b = st_blocks (sts ! i) ! ?k"
  have own: "i \<in> owners sts b" using i a(2) by (simp add: owners_def b_def)
  then have "owners sts b \<noteq> {}" by blast
  then obtain blk where blk: "w_blocks w b = Some blk" "sb_refcnt blk = of_nat (card (owners sts b))" "b \<noteq> ?n"
    "slots_live (w_heap w) (sb_slots blk)"
    using cow_inv_block [OF inv] by (fastforce simp: w_refs_def w_slots_def)
  have "card (owners sts b) < 2 ^ 32" using card_owners_le [of sts b] inv by (simp add: cow_inv_def)
  then have ref: "sb_refcnt blk > 1 \<longleftrightarrow> card (owners sts b) > 1"
    by (simp add: blk(2) word_less_nat_alt unat_of_nat take_bit_nat_eq_self_iff)
  show ?thesis
  proof (cases "card (owners sts b) > 1")
    case False
    then have "owners sts b = {i}" using owners_single own by simp
    moreover have "cesk_store_getblock_rw (sts ! i) addr w = Some (Some b, sts ! i, w)"
      using False ref a blk(1) by (simp add: cesk_store_getblock_rw_def b_def [symmetric] linorder_not_le)
    ultimately show ?thesis using inv b_def by auto
  next
    case True
    define st' where "st' = (sts ! i)\<lparr>st_blocks := (st_blocks (sts ! i))[?k := ?n]\<rparr>"
    have "heap_bounded (w_heap w)" using inv by (simp add: cow_inv_def)
    then obtain w' where w': "cesk_store_getblock_rw (sts ! i) addr w = Some (Some ?n, st', w')" "copied b ?n w w'"
      using getblock_rw_copies [OF a b_def blk(1) _ blk(3,4)] True ref by (auto simp: st'_def)
    note facts = inv i a(2) b_def refl [of ?n] st'_def w'(2)
    have "nblocks st' = nblocks (sts ! i)" "st_blocks st' ! ?k = ?n" using a(2) by (simp_all add: st'_def)
    then show ?thesis using w'(1) cow_inv_copied [OF facts] same_view_copied [OF facts]
      by (intro exI [of _ ?n] exI [of _ st'] exI [of _ w']) simp
  qed
qed

subsection \<open>Writing to a block of one's own\<close>

text \<open>
  Store \<open>i\<close> has become \<open>st\<close> and has block \<open>b\<close> for itself, if at all; what the other stores see has not
  changed since world \<open>w\<close>. The steps that follow \<^const>\<open>cesk_store_getblock_rw\<close> in an operation keep this.
\<close>

definition isolated :: "cesk_store list \<Rightarrow> nat \<Rightarrow> cesk_store \<Rightarrow> nat \<Rightarrow> 'd world \<Rightarrow> 'd world \<Rightarrow> bool" where
  "isolated sts i st b w w1 \<longleftrightarrow> cow_inv (sts[i := st]) w1 \<and> owners (sts[i := st]) b \<subseteq> {i} \<and>
     (\<forall>j < length sts. j \<noteq> i \<longrightarrow> same_view (sts ! j) w (sts ! j) w1)"

lemma getblock_rw_cases:
  assumes "cow_inv sts w" "i < length sts" "cesk_store_getblock_rw (sts ! i) addr w = Some (r, st, w1)"
  shows "r = None \<and> st = sts ! i \<and> w1 = w \<or> (\<exists>b. r = Some b \<and> isolated sts i st b w w1)"
proof (cases "addr \<noteq> CESK_STORE_ADDR_NULL \<and> addr_block addr < nblocks (sts ! i)")
  case True
  then obtain b where "r = Some b" "cow_inv (sts[i := st]) w1" "owners (sts[i := st]) b = {i}"
    "\<forall>j < length sts. same_view (sts ! j) w (sts[i := st] ! j) w1"
    using getblock_rw_cow [OF assms(1,2)] assms(3) by fastforce
  then show ?thesis by (simp add: isolated_def) (metis nth_list_update_neq)
qed (use assms(3) in \<open>auto simp: cesk_store_getblock_rw_def split: if_splits\<close>)

lemma isolated_hash: "isolated sts i st b w w1 \<Longrightarrow> st_blocks st' = st_blocks st \<Longrightarrow> isolated sts i st' b w w1"
proof -
  assume iso: "isolated sts i st b w w1" and eq: "st_blocks st' = st_blocks st"
  have m: "map st_blocks (sts[i := st']) = map st_blocks (sts[i := st])" by (simp add: map_update eq)
  show ?thesis using iso by (simp add: isolated_def cow_inv_cong [OF m] owners_cong [OF m])
qed

lemma isolated_update:
  assumes iso: "isolated sts i st b w w1" and keep: "w_next_block w2 = w_next_block w1" "\<And>c. w_refs w2 c = w_refs w1 c"
    "\<And>c. c \<noteq> b \<Longrightarrow> w_slots w2 c = w_slots w1 c" "dom (vh_mem (w_heap w1)) \<subseteq> dom (vh_mem (w_heap w2))" "heap_bounded (w_heap w2)"
    and here: "\<And>sls. w_slots w1 b = Some sls \<Longrightarrow> slots_live (w_heap w1) sls \<Longrightarrow>
      \<exists>sls'. w_slots w2 b = Some sls' \<and> length sls' = length sls \<and> slots_live (w_heap w2) sls'"
  shows "isolated sts i st b w w2"
proof -
  let ?sts = "sts[i := st]"
  have inv: "cow_inv ?sts w1" using iso by (simp add: isolated_def)
  have "c < w_next_block w2 \<and> w_refs w2 c = Some (of_nat (card (owners ?sts c))) \<and>
      (\<exists>sls. w_slots w2 c = Some sls \<and> length sls = CESK_STORE_BLOCK_NSLOTS \<and> slots_live (w_heap w2) sls)"
    if c: "owners ?sts c \<noteq> {}" for c
  proof -
    from cow_inv_block [OF inv c] obtain sls where b: "c < w_next_block w1" "w_refs w1 c = Some (of_nat (card (owners ?sts c)))"
      "w_slots w1 c = Some sls" "length sls = CESK_STORE_BLOCK_NSLOTS" "slots_live (w_heap w1) sls" by blast
    have "slots_live (w_heap w2) sls" using b(5) keep(4) by (rule slots_live_mono)
    then show ?thesis using b keep here [of sls] by (cases "c = b") auto
  qed
  then have "cow_inv ?sts w2" using inv keep(5) by (simp add: cow_inv_def)
  moreover have "same_view (sts ! j) w (sts ! j) w2" if "j < length sts" "j \<noteq> i" for j
  proof -
    have "c \<noteq> b" if "c \<in> set (st_blocks (sts ! j))" for c
      using iso that \<open>j < length sts\<close> \<open>j \<noteq> i\<close> by (auto simp: isolated_def owners_def)
    then have "same_view (sts ! j) w1 (sts ! j) w2" using keep(3) by (auto intro: same_viewI)
    then show ?thesis using iso that same_view_trans by (fastforce simp: isolated_def)
  qed
  ultimately show ?thesis using iso by (simp add: isolated_def)
qed

lemma isolated_heap_bounded: "isolated sts i st b w w1 \<Longrightarrow> heap_bounded (w_heap w1)"
  by (simp add: isolated_def cow_inv_def)

lemma isolated_slot_upd:
  assumes iso: "isolated sts i st b w w1" and upd: "slot_upd b ofs f w1 = Some w2"
    and val: "\<And>sl. set_option (sl_value (f sl)) \<subseteq> set_option (sl_value sl) \<union> dom (vh_mem (w_heap w1))"
  shows "isolated sts i st b w w2"
proof -
  obtain blk where blk: "w_blocks w1 b = Some blk" "ofs < length (sb_slots blk)"
    "w2 = w1\<lparr>w_blocks := (w_blocks w1)(b \<mapsto> blk\<lparr>sb_slots := (sb_slots blk)[ofs := f (sb_slots blk ! ofs)]\<rparr>)\<rparr>"
    using upd by (auto simp: slot_upd_def slot_at_def block_upd_def bind_eq_Some_conv split: if_splits)
  have "slots_live (w_heap w1) ((sb_slots blk)[ofs := f (sb_slots blk ! ofs)])" if "slots_live (w_heap w1) (sb_slots blk)"
    using slots_live_nth [OF that blk(2)] val by (intro slots_live_update [OF that]) blast
  then show ?thesis using blk isolated_heap_bounded [OF iso]
    by (intro isolated_update [OF iso]) (auto simp: w_refs_def w_slots_def)
qed

lemma isolated_block_upd:
  assumes "isolated sts i st b w w1" "block_upd b f w1 = Some w2" "\<And>blk. sb_refcnt (f blk) = sb_refcnt blk" "\<And>blk. sb_slots (f blk) = sb_slots blk"
  shows "isolated sts i st b w w2"
  using assms isolated_heap_bounded [OF assms(1)]
  by (intro isolated_update [OF assms(1)]) (auto simp: block_upd_def w_refs_def w_slots_def bind_eq_Some_conv)

lemma isolated_heap:
  assumes "isolated sts i st b w w1" "dom (vh_mem (w_heap w1)) \<subseteq> dom (vh_mem h)" "heap_bounded h"
  shows "isolated sts i st b w (w1\<lparr>w_heap := h\<rparr>)"
  using assms(2,3) by (intro isolated_update [OF assms(1)]) (auto simp: w_refs_def w_slots_def intro: slots_live_mono)

lemma isolated_value_upd:
  assumes "isolated sts i st b w w1" "heap_op (value_upd v f) w1 = Some w2"
  shows "isolated sts i st b w w2"
proof -
  obtain x where "vh_mem (w_heap w1) v = Some x" "w2 = w1\<lparr>w_heap := (w_heap w1)\<lparr>vh_mem := (vh_mem (w_heap w1))(v \<mapsto> f x)\<rparr>\<rparr>"
    using assms(2) by (auto simp: heap_op_def value_upd_def bind_eq_Some_conv)
  then show ?thesis using isolated_heap_bounded [OF assms(1)]
    by (auto intro!: isolated_heap [OF assms(1)] simp: heap_bounded_def dom_def)
qed

lemma isolated_flush:
  assumes "isolated sts i st b w w1" "flush_hash class_addr addr c st w2 = Some st'"
  shows "isolated sts i st' b w w1"
  using assms by (auto simp: flush_hash_def bind_eq_Some_conv intro: isolated_hash)

lemmas isolated_intros = isolated_slot_upd isolated_block_upd isolated_value_upd isolated_flush

subsection \<open>The operations\<close>

text \<open>
  What the client of a store relies on: an operation on one store keeps the invariant and leaves what the
  other stores see as it was.
\<close>

locale cow_writer =
  fixes wr :: "cesk_store \<Rightarrow> 'd world \<Rightarrow> ('r \<times> cesk_store \<times> 'd world) option"
  assumes wr_isolated: "cow_inv sts w \<Longrightarrow> i < length sts \<Longrightarrow> wr (sts ! i) w = Some (r, st, w1) \<Longrightarrow> \<exists>b. isolated sts i st b w w1"
begin

lemma wr_inv: "cow_inv sts w \<Longrightarrow> i < length sts \<Longrightarrow> wr (sts ! i) w = Some (r, st, w1) \<Longrightarrow> cow_inv (sts[i := st]) w1"
  using wr_isolated unfolding isolated_def by blast

lemma wr_view:
  "cow_inv sts w \<Longrightarrow> i < length sts \<Longrightarrow> wr (sts ! i) w = Some (r, st, w1) \<Longrightarrow> j < length sts \<Longrightarrow> j \<noteq> i \<Longrightarrow>
     same_view (sts ! j) w (sts ! j) w1"
  using wr_isolated unfolding isolated_def by blast

end

lemma isolated_start:
  assumes "cow_inv sts w" "i < length sts"
  shows "isolated sts i (sts ! i) (w_next_block w) w w"
  using assms cow_inv_fresh [OF assms(1)] by (simp add: isolated_def)

text \<open>
  The operations are sequences of steps that may fail. \<open>isolates\<close> says that a sequence ends, if it ends,
  with the writes confined to store \<open>i\<close>; there is one rule for every kind of step, so that a proof follows the
  text of the operation.
\<close>

definition isolates :: "cesk_store list \<Rightarrow> nat \<Rightarrow> 'd world \<Rightarrow> ('r \<times> cesk_store \<times> 'd world) option \<Rightarrow> bool" where
  "isolates sts i w res \<longleftrightarrow> (\<forall>r st w1. res = Some (r, st, w1) \<longrightarrow> (\<exists>b. isolated sts i st b w w1))"

lemma isolates_return: "isolated sts i st b w w1 \<Longrightarrow> isolates sts i w (Some (r, st, w1))"
  unfolding isolates_def by blast

lemma isolates_None [simp]: "isolates sts i w None"
  by (simp add: isolates_def)

lemma isolates_unchanged: "cow_inv sts w \<Longrightarrow> i < length sts \<Longrightarrow> isolates sts i w (Some (r, sts ! i, w))"
  by (blast intro: isolates_return isolated_start)

lemma isolates_read: "(\<And>x. m = Some x \<Longrightarrow> isolates sts i w (k x)) \<Longrightarrow> isolates sts i w (m \<bind> k)"
  by (cases m) (simp_all add: isolates_def)

lemma isolates_getblock:
  assumes "cow_inv sts w" "i < length sts" "isolates sts i w (k (None, sts ! i, w))"
    "\<And>b st w1. isolated sts i st b w w1 \<Longrightarrow> isolates sts i w (k (Some b, st, w1))"
  shows "isolates sts i w (cesk_store_getblock_rw (sts ! i) addr w \<bind> k)"
proof (rule isolates_read)
  fix x assume "cesk_store_getblock_rw (sts ! i) addr w = Some x"
  then show "isolates sts i w (k x)"
    using getblock_rw_cases [OF assms(1,2), of addr "fst x" "fst (snd x)" "snd (snd x)"] assms(3,4) by (cases x) auto
qed

lemma isolates_slot_upd:
  assumes "isolated sts i st b w w1" "\<And>sl. set_option (sl_value (f sl)) \<subseteq> set_option (sl_value sl) \<union> dom (vh_mem (w_heap w1))"
    "\<And>w2. isolated sts i st b w w2 \<Longrightarrow> slot_upd b ofs f w1 = Some w2 \<Longrightarrow> isolates sts i w (k w2)"
  shows "isolates sts i w (slot_upd b ofs f w1 \<bind> k)"
  using assms by (blast intro: isolates_read isolated_slot_upd)

lemma isolates_block_upd:
  assumes "isolated sts i st b w w1" "\<And>blk. sb_refcnt (f blk) = sb_refcnt blk" "\<And>blk. sb_slots (f blk) = sb_slots blk"
    "\<And>w2. isolated sts i st b w w2 \<Longrightarrow> isolates sts i w (k w2)"
  shows "isolates sts i w (block_upd b f w1 \<bind> k)" "isolates sts i w ((if c then block_upd b f w1 else Some w1) \<bind> k)"
  using assms isolated_block_upd [OF assms(1) _ assms(2,3)] by (auto intro: isolates_read)

lemma isolates_value_upd:
  assumes "isolated sts i st b w w1" "\<And>w2. isolated sts i st b w w2 \<Longrightarrow> isolates sts i w (k w2)"
  shows "isolates sts i w (heap_op (value_upd v f) w1 \<bind> k)"
  using assms by (blast intro: isolates_read isolated_value_upd)

lemma isolates_flush:
  assumes "isolated sts i st b w w1" "\<And>st'. isolated sts i st' b w w1 \<Longrightarrow> isolates sts i w (k st')"
  shows "isolates sts i w (flush_hash class_addr addr c st w1 \<bind> k)"
    "isolates sts i w ((if q then flush_hash class_addr addr c st w1 else Some st) \<bind> k)"
  using assms by (auto intro: isolates_read isolated_flush)

lemmas isolates_reads =
  isolates_read [where m = "slot_at b ofs w1" for b ofs w1]
  isolates_read [where m = "vh_mem h v" for h v]
  isolates_read [where m = "sl_value sl" for sl]

lemmas isolates_rules = isolates_unchanged isolates_getblock isolates_flush isolates_slot_upd isolates_block_upd isolates_value_upd isolates_reads

lemma map_option_bind: "map_option f (m \<bind> k) = m \<bind> (\<lambda>x. map_option f (k x))"
  by (cases m) simp_all

lemma cow_writerI: "(\<And>sts i w. cow_inv sts w \<Longrightarrow> i < length sts \<Longrightarrow> isolates sts i w (wr (sts ! i) w)) \<Longrightarrow> cow_writer wr"
  unfolding cow_writer_def isolates_def by blast

lemma isolates_clear_refcnt:
  "cow_inv sts w \<Longrightarrow> i < length sts \<Longrightarrow> isolates sts i w (cesk_store_clear_refcnt (sts ! i) addr w)"
  unfolding cesk_store_clear_refcnt_def Let_def by (auto intro!: isolates_rules) (blast intro: isolates_return)+

lemma isolates_incref:
  "cow_inv sts w \<Longrightarrow> i < length sts \<Longrightarrow> isolates sts i w (cesk_store_incref (sts ! i) addr w)"
  unfolding cesk_store_incref_def Let_def by (auto intro!: isolates_rules) (blast intro: isolates_return)+

lemma isolates_set_reuse:
  "cow_inv sts w \<Longrightarrow> i < length sts \<Longrightarrow> isolates sts i w (cesk_store_set_reuse class_addr (sts ! i) addr w)"
  unfolding cesk_store_set_reuse_def Let_def by (auto intro!: isolates_rules) (blast intro: isolates_return)+

lemma isolates_clear_reuse:
  "cow_inv sts w \<Longrightarrow> i < length sts \<Longrightarrow> isolates sts i w (cesk_store_clear_reuse class_addr (sts ! i) addr w)"
  unfolding cesk_store_clear_reuse_def Let_def by (auto intro!: isolates_rules) (blast intro: isolates_return)+

lemma isolates_release_rw:
  "cow_inv sts w \<Longrightarrow> i < length sts \<Longrightarrow> isolates sts i w (map_option (Pair ()) (cesk_store_release_rw class_addr (sts ! i) addr w))"
  unfolding cesk_store_release_rw_def Let_def
  by (auto simp: map_option_bind if_distrib [of "map_option (Pair ())"] intro!: isolates_rules) (blast intro: isolates_return)+

lemma value_fork_mem:
  assumes "cesk_value_fork junk v h = Some (r, h')"
  shows "\<exists>m. vh_mem h' = (vh_mem h)(vh_next h := m) \<and> vh_next h' = Suc (vh_next h) \<and> (r \<noteq> None \<longrightarrow> r = Some (vh_next h) \<and> m \<noteq> None)"
proof -
  obtain x where x: "vh_mem h v = Some x" using assms by (auto simp: cesk_value_fork_def bind_eq_Some_conv)
  note defs = cesk_value_fork_def bind_eq_Some_conv cesk_value_alloc_def cesk_value_free_def value_upd_def with_tags_def Let_def
  show ?thesis
  proof (cases "val_data x")
    case (VObject obj)
    then obtain o' r' ts where "obj = Some o'" "cesk_object_duplicate o' (vh_tags h) = Some (r', ts)"
      using assms x by (auto simp: defs)
    then show ?thesis using assms x VObject by (cases r') (auto simp: defs)
  next
    case (VSet j)
    then obtain r' s where "cesk_set_fork j (vh_sets h) = Some (r', s)" using assms x by (auto simp: defs)
    then show ?thesis using assms x VSet by (cases r') (auto simp: defs)
  qed
qed

lemma value_fork_heap:
  assumes "cesk_value_fork junk v h = Some (r, h')" "heap_bounded h" "vh_mem h v = Some x"
  shows "dom (vh_mem h) \<subseteq> dom (vh_mem h')" "heap_bounded h'" "vh_mem h' v = Some x" "set_option r \<subseteq> dom (vh_mem h')"
proof -
  have "vh_mem h (vh_next h) = None" "v < vh_next h" using assms(2,3) by (auto simp: heap_bounded_def)
  then show "dom (vh_mem h) \<subseteq> dom (vh_mem h')" "heap_bounded h'" "vh_mem h' v = Some x" "set_option r \<subseteq> dom (vh_mem h')"
    using value_fork_mem [OF assms(1)] assms(2,3) by (auto simp: heap_bounded_def less_Suc_eq split: if_splits)
qed

lemma decref_shared:
  assumes "vh_mem (w_heap w) v = Some x" "val_refcnt x > 1"
  shows "heap_op (cesk_value_decref v) w = heap_op (value_upd v (\<lambda>x. x\<lparr>val_refcnt := val_refcnt x - 1\<rparr>)) w"
proof -
  have "val_refcnt x - 1 \<noteq> 0" using assms(2) by auto
  then show ?thesis using assms(1) by (simp add: heap_op_def cesk_value_decref_def value_upd_def)
qed

lemma isolates_fork_value:
  assumes iso: "isolated sts i st b w w1" and x: "vh_mem (w_heap w1) v = Some x"
    and k: "\<And>r w2. isolated sts i st b w w2 \<Longrightarrow> isolates sts i w (k (r, w2))"
  shows "isolates sts i w ((if 1 < val_refcnt x \<and> \<not> noval
      then cesk_value_fork junk v (w_heap w1) \<bind> (\<lambda>(n, h). case n of
          None \<Rightarrow> Some (None, w1\<lparr>w_heap := h\<rparr>)
        | Some n \<Rightarrow> slot_upd b ofs (\<lambda>sl. sl\<lparr>sl_value := Some n\<rparr>) (w1\<lparr>w_heap := h\<rparr>) \<bind>
            (\<lambda>w. heap_op (cesk_value_decref v) w \<bind> (\<lambda>w. heap_op (cesk_value_incref n) w \<bind> (\<lambda>w. Some (Some n, w)))))
      else Some (Some v, w1)) \<bind> k)"
proof (cases "1 < val_refcnt x \<and> \<not> noval")
  case True
  show ?thesis
  proof (simp add: True, rule isolates_read, clarify)
    fix r h assume f: "cesk_value_fork junk v (w_heap w1) = Some (r, h)"
    note h = value_fork_heap [OF f isolated_heap_bounded [OF iso] x]
    have iso1: "isolated sts i st b w (w1\<lparr>w_heap := h\<rparr>)" by (rule isolated_heap [OF iso h(1,2)])
    show "isolates sts i w ((case r of
          None \<Rightarrow> Some (None, w1\<lparr>w_heap := h\<rparr>)
        | Some n \<Rightarrow> slot_upd b ofs (\<lambda>sl. sl\<lparr>sl_value := Some n\<rparr>) (w1\<lparr>w_heap := h\<rparr>) \<bind>
            (\<lambda>w. heap_op (cesk_value_decref v) w \<bind> (\<lambda>w. heap_op (cesk_value_incref n) w \<bind> (\<lambda>w. Some (Some n, w))))) \<bind> k)"
    proof (cases r)
      case (Some n)
      have n: "n \<in> dom (vh_mem h)" using h(4) Some by simp
      have "isolates sts i w (heap_op (cesk_value_decref v) w2 \<bind> (\<lambda>w. heap_op (cesk_value_incref n) w \<bind> (\<lambda>w. k (Some n, w))))"
        if iso2: "isolated sts i st b w w2" and u: "slot_upd b ofs (\<lambda>sl. sl\<lparr>sl_value := Some n\<rparr>) (w1\<lparr>w_heap := h\<rparr>) = Some w2" for w2
      proof -
        have "vh_mem (w_heap w2) v = Some x" using slot_upd_frame [OF u] h(3) by simp
        from decref_shared [OF this] True show ?thesis
          by (auto simp: cesk_value_incref_def [abs_def] intro!: isolates_value_upd [OF iso2] isolates_value_upd k)
      qed
      then show ?thesis using Some n by (auto intro!: isolates_slot_upd [OF iso1])
    qed (use k [OF iso1] in simp)
  qed
qed (use k [OF iso] in auto)

lemma isolates_get_rw:
  "cow_inv sts w \<Longrightarrow> i < length sts \<Longrightarrow> isolates sts i w (cesk_store_get_rw class_addr junk (sts ! i) addr noval w)"
  unfolding cesk_store_get_rw_def Let_def
  by (auto simp del: One_nat_def intro!: isolates_fork_value isolates_rules split: option.split) (blast intro: isolates_return)+

interpretation cow_incref: cow_writer "\<lambda>st. cesk_store_incref st addr"
  by (rule cow_writerI) (rule isolates_incref)

interpretation cow_clear_refcnt: cow_writer "\<lambda>st. cesk_store_clear_refcnt st addr"
  by (rule cow_writerI) (rule isolates_clear_refcnt)

interpretation cow_set_reuse: cow_writer "\<lambda>st. cesk_store_set_reuse class_addr st addr"
  by (rule cow_writerI) (rule isolates_set_reuse)

interpretation cow_clear_reuse: cow_writer "\<lambda>st. cesk_store_clear_reuse class_addr st addr"
  by (rule cow_writerI) (rule isolates_clear_reuse)

interpretation cow_get_rw: cow_writer "\<lambda>st. cesk_store_get_rw class_addr junk st addr noval"
  by (rule cow_writerI) (rule isolates_get_rw)

interpretation cow_release_rw: cow_writer "\<lambda>st w. map_option (Pair ()) (cesk_store_release_rw class_addr st addr w)"
  by (rule cow_writerI) (rule isolates_release_rw)

subsection \<open>Forks\<close>

lemma incref_blocks_effect:
  assumes "distinct bs" "\<forall>b \<in> set bs. w_blocks w b \<noteq> None"
  shows "\<exists>w'. incref_blocks bs w = Some w' \<and> w_next_block w' = w_next_block w \<and> w_heap w' = w_heap w \<and>
    (\<forall>c. w_slots w' c = w_slots w c) \<and>
    (\<forall>c. w_refs w' c = (if c \<in> set bs then map_option (\<lambda>r. r + 1) (w_refs w c) else w_refs w c))"
  using assms
proof (induction bs arbitrary: w)
  case (Cons b bs)
  then obtain blk where blk: "w_blocks w b = Some blk" by auto
  let ?w = "w\<lparr>w_blocks := (w_blocks w)(b \<mapsto> blk\<lparr>sb_refcnt := sb_refcnt blk + 1\<rparr>)\<rparr>"
  have "distinct bs" "\<forall>b \<in> set bs. w_blocks ?w b \<noteq> None" using Cons.prems by auto
  from Cons.IH [OF this] obtain w' where "incref_blocks bs ?w = Some w'" "w_next_block w' = w_next_block w" "w_heap w' = w_heap w"
    "\<forall>c. w_slots w' c = w_slots ?w c"
    "\<forall>c. w_refs w' c = (if c \<in> set bs then map_option (\<lambda>r. r + 1) (w_refs ?w c) else w_refs ?w c)" by auto
  then show ?case using Cons.prems(1) blk by (auto simp: block_upd_def w_slots_def w_refs_def)
qed auto

lemma owners_fork:
  "i < length sts \<Longrightarrow> st_blocks st = st_blocks (sts ! i) \<Longrightarrow>
     owners (sts @ [st]) c = (if c \<in> set (st_blocks (sts ! i)) then insert (length sts) (owners sts c) else owners sts c)"
  by (auto simp: owners_def nth_append less_Suc_eq)

lemma fork_cow:
  assumes inv: "cow_inv sts w" and i: "i < length sts" and room: "Suc (length sts) < 2 ^ 32"
  shows "\<exists>w'. cesk_store_fork (sts ! i) w = Some (sts ! i, w') \<and> cow_inv (sts @ [sts ! i]) w' \<and> (\<forall>c. w_slots w' c = w_slots w c)"
proof -
  let ?bs = "st_blocks (sts ! i)"
  have own: "owners sts b \<noteq> {}" if "b \<in> set ?bs" for b using that i by (auto simp: owners_def)
  have "w_blocks w b \<noteq> None" if "b \<in> set ?bs" for b
    using cow_inv_block [OF inv own [OF that]] by (auto simp: w_slots_def)
  then obtain w' where w': "incref_blocks ?bs w = Some w'" "w_next_block w' = w_next_block w" "w_heap w' = w_heap w"
    "\<And>c. w_slots w' c = w_slots w c" "\<And>c. w_refs w' c = (if c \<in> set ?bs then map_option (\<lambda>r. r + 1) (w_refs w c) else w_refs w c)"
    using incref_blocks_effect [OF cow_inv_distinct [OF inv i]] by blast
  have card: "card (insert (length sts) (owners sts c)) = Suc (card (owners sts c))" for c
    by (simp add: owners_def)
  have "c < w_next_block w' \<and> w_refs w' c = Some (of_nat (card (owners (sts @ [sts ! i]) c))) \<and>
      (\<exists>sls. w_slots w' c = Some sls \<and> length sls = CESK_STORE_BLOCK_NSLOTS \<and> slots_live (w_heap w') sls)"
    if "owners (sts @ [sts ! i]) c \<noteq> {}" for c
  proof -
    have "owners sts c \<noteq> {}" using that own [of c] by (simp add: owners_fork [OF i refl] split: if_splits)
    then show ?thesis using cow_inv_block [OF inv, of c] by (auto simp: w' owners_fork [OF i refl] card add.commute)
  qed
  moreover have "\<forall>st \<in> set (sts @ [sts ! i]). distinct (st_blocks st)" using inv i by (auto simp: cow_inv_def)
  ultimately have "cow_inv (sts @ [sts ! i]) w'" using inv room by (simp add: cow_inv_def w'(3))
  then show ?thesis using w'(1,4) by (simp add: cesk_store_fork_def)
qed

subsection \<open>Runs of several stores\<close>

datatype store_op =
    Incref u32
  | ClearRefcnt u32
  | SetReuse u32
  | ClearReuse u32
  | GetRw nat u32 bool
  | ReleaseRw u32

fun run_op :: "('d class_ref \<Rightarrow> nat) \<Rightarrow> store_op \<Rightarrow> cesk_store \<Rightarrow> 'd world \<Rightarrow> (unit \<times> cesk_store \<times> 'd world) option" where
  "run_op class_addr (Incref a) st w = map_option (Pair () \<circ> snd) (cesk_store_incref st a w)"
| "run_op class_addr (ClearRefcnt a) st w = map_option (Pair () \<circ> snd) (cesk_store_clear_refcnt st a w)"
| "run_op class_addr (SetReuse a) st w = map_option (Pair () \<circ> snd) (cesk_store_set_reuse class_addr st a w)"
| "run_op class_addr (ClearReuse a) st w = map_option (Pair () \<circ> snd) (cesk_store_clear_reuse class_addr st a w)"
| "run_op class_addr (GetRw junk a noval) st w = map_option (Pair () \<circ> snd) (cesk_store_get_rw class_addr junk st a noval w)"
| "run_op class_addr (ReleaseRw a) st w = map_option (Pair ()) (cesk_store_release_rw class_addr st a w)"

lemma run_op_isolated:
  assumes "cow_inv sts w" "i < length sts" "run_op class_addr p (sts ! i) w = Some (r, st, w1)"
  shows "\<exists>b. isolated sts i st b w w1"
proof (cases p)
  case (Incref a)
  then show ?thesis using assms by (auto dest: cow_incref.wr_isolated)
next
  case (ClearRefcnt a)
  then show ?thesis using assms by (auto dest: cow_clear_refcnt.wr_isolated)
next
  case (SetReuse a)
  then show ?thesis using assms by (auto dest: cow_set_reuse.wr_isolated)
next
  case (ClearReuse a)
  then show ?thesis using assms by (auto dest: cow_clear_reuse.wr_isolated)
next
  case (GetRw junk a noval)
  then show ?thesis using assms by (auto dest: cow_get_rw.wr_isolated)
next
  case (ReleaseRw a)
  then show ?thesis using assms cow_release_rw.wr_isolated [OF assms(1,2)] by simp
qed

interpretation cow_run: cow_writer "run_op class_addr p"
  by unfold_locales (rule run_op_isolated)

datatype step_label = Forked | Wrote nat | Allocated nat

inductive cow_step :: "('d class_ref \<Rightarrow> nat) \<Rightarrow> step_label \<Rightarrow> cesk_store list \<times> 'd world \<Rightarrow> cesk_store list \<times> 'd world \<Rightarrow> bool"
  for class_addr where
  fork: "i < length sts \<Longrightarrow> Suc (length sts) < 2 ^ 32 \<Longrightarrow> cesk_store_fork (sts ! i) w = Some (st, w') \<Longrightarrow>
     cow_step class_addr Forked (sts, w) (sts @ [st], w')"
| wrote: "i < length sts \<Longrightarrow> run_op class_addr p (sts ! i) w = Some (r, st, w') \<Longrightarrow>
     cow_step class_addr (Wrote i) (sts, w) (sts[i := st], w')"
| allocate: "i < length sts \<Longrightarrow> cesk_store_allocate (sts ! i) param w = Some (a, st, w') \<Longrightarrow>
     cow_step class_addr (Allocated i) (sts, w) (sts[i := st], w')"

inductive_cases cow_stepE: "cow_step class_addr l (sts, w) (sts', w')"

lemma mark_slot_keeps:
  assumes inv: "cow_inv sts w" and upd: "slot_upd b ofs (mark_slot param) w = Some w'"
  shows "cow_inv sts w'"
proof -
  obtain blk where blk: "w_blocks w b = Some blk" "ofs < length (sb_slots blk)"
    "w' = w\<lparr>w_blocks := (w_blocks w)(b \<mapsto> blk\<lparr>sb_slots := (sb_slots blk)[ofs := mark_slot param (sb_slots blk ! ofs)]\<rparr>)\<rparr>"
    using upd by (auto simp: slot_upd_def slot_at_def block_upd_def bind_eq_Some_conv split: if_splits)
  have live: "slots_live h ((sb_slots blk)[ofs := mark_slot param (sb_slots blk ! ofs)])" if "slots_live h (sb_slots blk)" for h :: "'a value_heap"
    using slots_live_update [OF that, of "mark_slot param (sb_slots blk ! ofs)"] slots_live_nth [OF that blk(2)] by simp
  have "c < w_next_block w' \<and> w_refs w' c = Some (of_nat (card (owners sts c))) \<and>
      (\<exists>sls. w_slots w' c = Some sls \<and> length sls = CESK_STORE_BLOCK_NSLOTS \<and> slots_live (w_heap w') sls)"
    if "owners sts c \<noteq> {}" for c
    using cow_inv_block [OF inv that] blk live by (auto simp: w_refs_def w_slots_def)
  then show ?thesis using inv blk(3) by (simp add: cow_inv_def)
qed

lemma owners_new_block:
  "i < length sts \<Longrightarrow> st = (sts ! i)\<lparr>st_blocks := st_blocks (sts ! i) @ [n]\<rparr> \<Longrightarrow> owners sts n = {} \<Longrightarrow>
     owners (sts[i := st]) c = (if c = n then {i} else owners sts c)"
  by (auto simp: owners_def nth_list_update)

lemma new_block_keeps:
  assumes inv: "cow_inv sts w" and i: "i < length sts" and st: "st = (sts ! i)\<lparr>st_blocks := st_blocks (sts ! i) @ [w_next_block w]\<rparr>"
  shows "cow_inv (sts[i := st]) (with_new_block w)"
proof -
  note fresh = cow_inv_fresh [OF inv]
  note own = owners_new_block [OF i st fresh]
  have "distinct (st_blocks st)" using cow_inv_distinct [OF inv i] fresh i by (auto simp: st owners_def)
  then have "\<forall>st \<in> set (sts[i := st]). distinct (st_blocks st)"
    using inv set_update_subset_insert [of sts i st] unfolding cow_inv_def by blast
  moreover have "slots_live (w_heap w) (sb_slots block_zero)" "length (sb_slots block_zero) = CESK_STORE_BLOCK_NSLOTS"
    by (simp_all add: slots_live_def block_zero_def slot_zero_def)
  ultimately show ?thesis using inv unfolding cow_inv_def own
    by (auto simp: with_new_block_def w_refs_def w_slots_def less_Suc_eq)
qed

lemma allocate_keeps:
  assumes "cow_inv sts w" "i < length sts" "cesk_store_allocate (sts ! i) param w = Some (a, st, w')"
  shows "cow_inv (sts[i := st]) w'"
  using assms mark_slot_keeps [OF assms(1)] mark_slot_keeps [OF new_block_keeps [OF assms(1,2) refl]]
  by (auto simp: allocate_cases [OF cow_inv_store_ok [OF assms(1,2)]] split: option.splits)

lemma cow_step_inv: "cow_step class_addr l (sts, w) (sts', w') \<Longrightarrow> cow_inv sts w \<Longrightarrow> cow_inv sts' w'"
  by (elim cow_stepE) (auto dest: fork_cow cow_run.wr_inv allocate_keeps)

text \<open>A world with one block that two stores share, and the one where just the first of them exists.\<close>

definition shared_world :: "nat \<Rightarrow> unit world" where
  "shared_world n = empty_world\<lparr>w_blocks := [0 \<mapsto> block_zero\<lparr>sb_refcnt := of_nat n\<rparr>], w_next_block := 1\<rparr>"

definition one_block :: cesk_store where
  "one_block = (cesk_store_empty_store 0)\<lparr>st_blocks := [0]\<rparr>"

lemma one_block_blocks: "st_blocks one_block = [0]"
  by (simp add: one_block_def)

lemma shared_world_inv: "cow_inv [one_block] (shared_world 1)" "cow_inv [one_block, one_block] (shared_world 2)"
proof -
  have "j < 2 \<Longrightarrow> st_blocks ([one_block, one_block] ! j) = [0]" for j :: nat
    by (cases j) (simp_all add: one_block_def)
  then have "owners [one_block, one_block] b = (if b = 0 then {0, 1} else {})" for b
    using one_block_blocks by (auto simp: owners_def)
  moreover have "owners [one_block] b = (if b = 0 then {0} else {})" for b by (auto simp: owners_def one_block_def)
  ultimately show "cow_inv [one_block] (shared_world 1)" "cow_inv [one_block, one_block] (shared_world 2)"
    by (simp_all add: cow_inv_def shared_world_def empty_world_def heap_bounded_def w_refs_def w_slots_def block_zero_def slots_live_def slot_zero_def
        one_block_def cesk_store_empty_store_def)
qed

lemma make_address_zero [simp]: "cesk_store_make_object_address st 0 w = 0"
  by (simp add: cesk_store_make_object_address_def CESK_STORE_ADDR_IS_RELOC_def addr_const_defs)

lemma fork_one_block: "cesk_store_fork one_block (shared_world 1) = Some (one_block, shared_world 2)"
  by (simp add: cesk_store_fork_def one_block_def cesk_store_empty_store_def block_upd_def shared_world_def empty_world_def)

lemma clear_refcnt_runs:
  assumes "cow_inv sts w" "i < length sts" "0 < nblocks (sts ! i)"
  shows "\<exists>r st w'. run_op class_addr (ClearRefcnt 0) (sts ! i) w = Some (r, st, w')"
proof -
  obtain b st w1 where g: "cesk_store_getblock_rw (sts ! i) 0 w = Some (Some b, st, w1)" "cow_inv (sts[i := st]) w1"
    "nblocks st = nblocks (sts ! i)" "st_blocks st ! 0 = b"
    using getblock_rw_cow [OF assms(1,2), of 0] assms(3) by (auto simp: addr_const_defs)
  have "store_ok st w1" using cow_inv_store_ok [OF g(2), of i] assms(2) by simp
  then obtain sl where "slot_at b 0 w1 = Some sl" using store_slot_exists [of st w1 0 0] g(3,4) assms(3) by auto
  then obtain w2 where "slot_upd b 0 (\<lambda>sl. sl\<lparr>sl_refcnt := 0\<rparr>) w1 = Some w2" using slot_upd_Some by blast
  then show ?thesis using g(1) by (simp add: cesk_store_clear_refcnt_def addr_const_defs)
qed



lemma cow_step_view:
  assumes "cow_step class_addr l (sts, w) (sts', w')" "cow_inv sts w" "j < length sts" "l = Forked \<or> (\<exists>i. l = Wrote i \<and> i \<noteq> j)"
  shows "j < length sts' \<and> sts' ! j = sts ! j \<and> same_view (sts ! j) w (sts ! j) w'"
  using assms(1)
proof cases
  case (fork i st)
  then have "w_slots w' c = w_slots w c" for c using fork_cow [OF assms(2), of i] by auto
  then show ?thesis using fork assms(3) by (auto simp: nth_append intro!: same_viewI)
next
  case (wrote i p r st)
  then show ?thesis using cow_run.wr_view [OF assms(2)] assms(3,4) by auto
qed (use assms(4) in auto)



text \<open>
  The allocator is the exception. It marks a slot without taking the block for writing, so when a store is
  forked and a slot is then allocated in a block that the fork shares, the slot also becomes a slot in use of
  the store that was forked, with the parameter of the other store's allocation.
\<close>

theorem cesk_store_allocate_not_isolated:
  assumes "store_ok st w" "cesk_store_fork st w = Some (st1, w1)" "\<forall>q. \<not> slot_matches param st w q"
    "cesk_store_allocate st1 param w1 = Some (a, st2, w2)" "addr_block a < nblocks st" "Suc (nblocks st) * CESK_STORE_BLOCK_NSLOTS \<le> 0xff000000"
  shows "slot_matches param st w2 (addr_block a, addr_ofs a) \<and> \<not> slot_matches param st w (addr_block a, addr_ofs a)"
proof -
  have st1: "st1 = st" "incref_blocks (st_blocks st) w = Some w1" using assms(2) by (auto simp: cesk_store_fork_def bind_eq_Some_conv)
  have "\<forall>b \<in> set (st_blocks st). w_blocks w b \<noteq> None" "distinct (st_blocks st)" using assms(1) by (auto simp: store_ok_def)
  then have frame: "w_next_block w1 = w_next_block w" "\<And>c. w_slots w1 c = w_slots w c" using incref_blocks_effect st1(2) by fastforce+
  have "map_option (\<lambda>blk. length (sb_slots blk)) (w_blocks w1 b) = map_option (\<lambda>blk. length (sb_slots blk)) (w_blocks w b)" for b
    using arg_cong [OF frame(2) [of b], of "map_option length"] by (simp add: w_slots_def option.map_comp comp_def)
  then have ok: "store_ok st w1" using assms(1) frame(1) by (simp add: store_ok_alt)
  obtain p st' w' where p: "cesk_store_allocate st param w1 = Some (slot_addr p, st', w')" "allocated st param w1 p st' w'"
    using allocate_correct [OF ok] by blast
  then have eq: "a = slot_addr p" "st' = st2" "w' = w2" and b: "snd p < CESK_STORE_BLOCK_NSLOTS" "fst p \<le> nblocks st"
    using assms(4) by (auto simp: st1 allocated_def)
  have "Suc (fst p) * CESK_STORE_BLOCK_NSLOTS \<le> 0xff000000"
    using assms(6) b(2) mult_le_mono1 [of "Suc (fst p)" "Suc (nblocks st)" CESK_STORE_BLOCK_NSLOTS] by linarith
  note parts = slot_addr_parts [OF b(1) this]
  have "st_blocks st' ! fst p = st_blocks st ! fst p \<and> slot_matches param st' w' p"
    using p assms(5) parts by (auto simp: allocated_def eq allocate_cases [OF ok] nth_append split: option.splits)
  then show ?thesis using assms(3,5) parts by (simp add: eq slot_matches_def store_slot_at_def split: if_splits)
qed

lemma one_block_free: "store_ok one_block (shared_world n)" "\<not> slot_matches param one_block (shared_world n) q"
  "fst q = 0 \<Longrightarrow> snd q < CESK_STORE_BLOCK_NSLOTS \<Longrightarrow> slot_free one_block (shared_world n) q"
  by (simp_all add: store_ok_def slot_matches_def slot_free_def store_slot_at_def slot_at_def one_block_def cesk_store_empty_store_def
      shared_world_def empty_world_def block_zero_def slot_zero_def)

lemma allocate_one_block:
  "\<exists>w. cesk_store_allocate one_block param (shared_world n) = Some (slot_addr (0, init_slot param), one_block, w)"
proof -
  have len: "nblocks one_block = 1" by (simp add: one_block_def)
  have "search_positions param one_block = (0, init_slot param) # tl (search_positions param one_block)"
    by (simp add: len CESK_STORE_ALLOC_ATTEMPT_def numeral_eq_Suc positions_def)
  then have "find (slot_free one_block (shared_world n)) (search_positions param one_block) = Some (0, init_slot param)"
    using one_block_free(3) [of "(0, init_slot param)" n] by (metis find.simps(2) fst_conv snd_conv init_slot_bound)
  moreover have "find (slot_matches param one_block (shared_world n)) (search_positions param one_block) = None"
    by (simp add: find_None_mem one_block_free)
  ultimately show ?thesis using allocate_empty [OF one_block_free(1)] by blast
qed

theorem cesk_store_allocate_not_isolated_witness:
  "\<exists>st w a. cesk_store_fork one_block (shared_world 1) = Some (one_block, shared_world 2) \<and>
     cesk_store_allocate one_block \<lparr>ap_inst = 7, ap_offset = 0\<rparr> (shared_world 2) = Some (a, st, w) \<and>
     slot_matches \<lparr>ap_inst = 7, ap_offset = 0\<rparr> one_block w (addr_block a, addr_ofs a) \<and>
     \<not> slot_matches \<lparr>ap_inst = 7, ap_offset = 0\<rparr> one_block (shared_world 1) (addr_block a, addr_ofs a)"
proof -
  let ?p = "\<lparr>ap_inst = 7, ap_offset = 0\<rparr>"
  obtain w where w: "cesk_store_allocate one_block ?p (shared_world 2) = Some (slot_addr (0, init_slot ?p), one_block, w)"
    using allocate_one_block by blast
  have fit: "Suc (nblocks one_block) * CESK_STORE_BLOCK_NSLOTS \<le> 0xff000000"
    by (simp add: one_block_def CESK_STORE_BLOCK_NSLOTS_def CESK_STORE_BLOCK_SIZE_def)
  have "addr_block (slot_addr (0, init_slot ?p)) < nblocks one_block"
    using slot_addr_parts(1) [of "(0, init_slot ?p)"] init_slot_bound [of ?p] fit by (simp add: one_block_def)
  from cesk_store_allocate_not_isolated [OF one_block_free(1) fork_one_block _ w this fit] w fork_one_block one_block_free(2)
  show ?thesis by blast
qed

end
