(* ===== verification/Cesk_Reloc.thy ===== *)
theory Cesk_Reloc
  imports Cesk_Store_Cow
begin

text \<open>
  The relocation tables (\<^verbatim>\<open>src/cesk/cesk_reloc.c\<close>, \<^verbatim>\<open>include/cesk/cesk_reloc.h\<close>). The analysis of a method does
  not know the objects of its caller, so it gives new objects relocated addresses. A relocation table is a
  vector of allocation parameters; the relocated address of an object is its position, with a prefix. A hash
  table that all relocation tables share leads from a table and a parameter back to the address.

  The tables live at addresses of a memory, as the hash table compares pointers to them. \<^const>\<open>None\<close> at the outer
  level is undefined behaviour, as for the store.
\<close>

subsection \<open>Data and operations\<close>

definition CESK_RELOC_HASH_SIZE :: nat where "CESK_RELOC_HASH_SIZE = 655217"

record reloc_node =
  rn_param :: alloc_param
  rn_table :: nat
  rn_addr :: u32

record reloc_state =
  rs_hash :: "reloc_node htab"
  rs_tables :: "nat \<rightharpoonup> alloc_param list"
  rs_next :: nat

definition cesk_reloc_init :: "reloc_state \<Rightarrow> int \<times> reloc_state" where
  "cesk_reloc_init rs = (0, rs\<lparr>rs_hash := chain_empty\<rparr>)"

definition cesk_reloc_reverse_hash :: "nat \<Rightarrow> alloc_param \<Rightarrow> u32" where
  "cesk_reloc_reverse_hash table param = of_nat (table mod 2147483647) * MH_MULTIPLY * MH_MULTIPLY + cesk_alloc_param_hash param"

definition reverse_slot :: "nat \<Rightarrow> alloc_param \<Rightarrow> nat" where
  "reverse_slot table param = unat (cesk_reloc_reverse_hash table param) mod CESK_RELOC_HASH_SIZE"

definition cesk_reloc_reverse_hash_find :: "nat \<Rightarrow> alloc_param \<Rightarrow> reloc_state \<Rightarrow> reloc_node option" where
  "cesk_reloc_reverse_hash_find table param rs =
     find (\<lambda>n. cesk_alloc_param_equal (rn_param n) param \<and> rn_table n = table) (rs_hash rs (reverse_slot table param))"

definition cesk_reloc_reverse_hash_insert :: "nat \<Rightarrow> alloc_param \<Rightarrow> u32 \<Rightarrow> reloc_state \<Rightarrow> reloc_state" where
  "cesk_reloc_reverse_hash_insert table param addr rs =
     (let h = reverse_slot table param
      in rs\<lparr>rs_hash := (rs_hash rs)(h := \<lparr>rn_param = param, rn_table = table, rn_addr = addr\<rparr> # rs_hash rs h)\<rparr>)"

fun delete_first :: "('n \<Rightarrow> bool) \<Rightarrow> 'n list \<Rightarrow> 'n list" where
  "delete_first P [] = []"
| "delete_first P (n # ns) = (if P n then ns else n # delete_first P ns)"

definition cesk_reloc_reverse_hash_delete :: "nat \<Rightarrow> alloc_param \<Rightarrow> reloc_state \<Rightarrow> reloc_state" where
  "cesk_reloc_reverse_hash_delete table param rs =
     (let h = reverse_slot table param
      in rs\<lparr>rs_hash := (rs_hash rs)(h := delete_first (\<lambda>n. cesk_alloc_param_equal param (rn_param n) \<and> rn_table n = table) (rs_hash rs h))\<rparr>)"

definition cesk_reloc_table_new :: "reloc_state \<Rightarrow> nat \<times> reloc_state" where
  "cesk_reloc_table_new rs = (rs_next rs, rs\<lparr>rs_tables := (rs_tables rs)(rs_next rs \<mapsto> []), rs_next := Suc (rs_next rs)\<rparr>)"

definition cesk_reloc_table_free :: "nat option \<Rightarrow> reloc_state \<Rightarrow> reloc_state option" where
  "cesk_reloc_table_free mem rs =
     (case mem of
        None \<Rightarrow> Some rs
      | Some t \<Rightarrow> do {
          items \<leftarrow> rs_tables rs t;
          let rs = fold (cesk_reloc_reverse_hash_delete t) items rs;
          Some (rs\<lparr>rs_tables := (rs_tables rs)(t := None)\<rparr>) })"

definition cesk_reloc_table_append :: "nat option \<Rightarrow> alloc_param \<Rightarrow> reloc_state \<Rightarrow> (u32 \<times> reloc_state) option" where
  "cesk_reloc_table_append table param rs =
     (case table of
        None \<Rightarrow> Some (CESK_STORE_ADDR_NULL, rs)
      | Some t \<Rightarrow> do {
          items \<leftarrow> rs_tables rs t;
          let ret = (of_nat (length items) :: u32);
          if ret AND CESK_STORE_ADDR_RELOC_PREFIX \<noteq> 0 then Some (CESK_STORE_ADDR_NULL, rs)
          else let rs = rs\<lparr>rs_tables := (rs_tables rs)(t \<mapsto> items @ [param])\<rparr>;
                   ret = CESK_STORE_ADDR_RELOC_PREFIX OR ret
               in Some (if CESK_STORE_ADDR_IS_RELOC ret then ret else CESK_STORE_ADDR_NULL, rs) })"

text \<open>The pair of records in the allocation table of a store.\<close>

definition store_map_addr :: "cesk_store \<Rightarrow> u32 \<Rightarrow> u32 \<Rightarrow> 'd world \<Rightarrow> (int \<times> 'd world) option" where
  "store_map_addr st rel_addr obj_addr w =
     (case st_alloc_tab st of
        None \<Rightarrow> Some (fst (cesk_alloctab_map_addr None (Some (st_alloc_token st)) rel_addr obj_addr), w)
      | Some i \<Rightarrow> do {
          t \<leftarrow> at_mem (w_tabs w) i;
          (case cesk_alloctab_map_addr (Some t) (Some (st_alloc_token st)) rel_addr obj_addr of
             (rc, t) \<Rightarrow> Some (rc, w\<lparr>w_tabs := (w_tabs w)\<lparr>at_mem := (at_mem (w_tabs w))(i := t)\<rparr>\<rparr>)) })"

definition reloc_finish ::
  "bool \<Rightarrow> cesk_store \<Rightarrow> u32 \<Rightarrow> 'd world \<Rightarrow> u32 \<Rightarrow> reloc_state \<Rightarrow> (u32 \<times> cesk_store option \<times> reloc_state \<times> 'd world) option" where
  "reloc_finish dry_run st obj_addr w rel_addr rs =
     (if dry_run then Some (rel_addr, Some st, rs, w)
      else do {
        (rc, w) \<leftarrow> store_map_addr st rel_addr obj_addr w;
        Some (if rc < 0 then CESK_STORE_ADDR_NULL else rel_addr, Some st, rs, w) })"

definition cesk_reloc_allocate ::
  "nat option \<Rightarrow> cesk_store option \<Rightarrow> alloc_param \<Rightarrow> bool \<Rightarrow> reloc_state \<Rightarrow> 'd world
     \<Rightarrow> (u32 \<times> cesk_store option \<times> reloc_state \<times> 'd world) option" where
  "cesk_reloc_allocate value_tab store param dry_run rs w =
     (case (value_tab, store) of
        (Some t, Some st) \<Rightarrow>
          if st_alloc_tab st = None then Some (CESK_STORE_ADDR_NULL, store, rs, w)
          else do {
            (obj_addr, st, w) \<leftarrow> cesk_store_allocate st param w;
            if obj_addr = CESK_STORE_ADDR_NULL then Some (CESK_STORE_ADDR_NULL, Some st, rs, w)
            else
              (case cesk_reloc_reverse_hash_find t param rs of
                 Some node \<Rightarrow>
                   let rel_addr = cesk_alloctab_query (store_tab st w) (st_alloc_token st) obj_addr
                   in if rel_addr \<noteq> CESK_STORE_ADDR_NULL then Some (rel_addr, Some st, rs, w)
                      else reloc_finish dry_run st obj_addr w (rn_addr node) rs
               | None \<Rightarrow> do {
                   v \<leftarrow> cesk_store_get_ro st obj_addr w;
                   if v \<noteq> None then Some (obj_addr, Some st, rs, w)
                   else do {
                     (rel_addr, rs) \<leftarrow> cesk_reloc_table_append (Some t) param rs;
                     if rel_addr = CESK_STORE_ADDR_NULL then Some (CESK_STORE_ADDR_NULL, Some st, rs, w)
                     else reloc_finish dry_run st obj_addr w rel_addr (cesk_reloc_reverse_hash_insert t param rel_addr rs) } }) }
      | _ \<Rightarrow> Some (CESK_STORE_ADDR_NULL, store, rs, w))"

definition cesk_reloc_addr_init ::
  "('d class_ref \<Rightarrow> nat) \<Rightarrow> nat \<Rightarrow> nat option \<Rightarrow> cesk_store option \<Rightarrow> u32 \<Rightarrow> nat option \<Rightarrow> reloc_state \<Rightarrow> 'd world
     \<Rightarrow> (u32 \<times> cesk_store option \<times> 'd world) option" where
  "cesk_reloc_addr_init class_addr f table store addr init_val rs w =
     (case (table, store) of
        (Some t, Some st) \<Rightarrow>
          if \<not> CESK_STORE_ADDR_IS_RELOC addr then Some (CESK_STORE_ADDR_NULL, store, w)
          else do {
            items \<leftarrow> rs_tables rs t;
            let value_idx = unat (CESK_STORE_ADDR_RELOC_IDX addr);
            if value_idx \<ge> length items then Some (CESK_STORE_ADDR_NULL, store, w)
            else if init_val = None then Some (CESK_STORE_ADDR_NULL, store, w)
            else do {
              (obj_addr, st, w) \<leftarrow> cesk_store_allocate st (items ! value_idx) w;
              if obj_addr = CESK_STORE_ADDR_NULL then Some (CESK_STORE_ADDR_NULL, Some st, w)
              else if cesk_alloctab_query (store_tab st w) (st_alloc_token st) obj_addr \<noteq> CESK_STORE_ADDR_NULL
              then Some (CESK_STORE_ADDR_NULL, Some st, w)
              else do {
                (rc, w) \<leftarrow> store_map_addr st addr obj_addr w;
                if rc < 0 then Some (CESK_STORE_ADDR_NULL, Some st, w)
                else do {
                  (rc, st, w) \<leftarrow> cesk_store_attach class_addr f st obj_addr init_val w;
                  if rc < 0 then Some (CESK_STORE_ADDR_NULL, Some st, w)
                  else do {
                    (st, w) \<leftarrow> cesk_store_release_rw class_addr st obj_addr w;
                    Some (obj_addr, Some st, w) } } } } }
      | _ \<Rightarrow> Some (CESK_STORE_ADDR_NULL, store, w))"

definition cesk_reloc_next_addr :: "nat \<Rightarrow> reloc_state \<Rightarrow> u32 option" where
  "cesk_reloc_next_addr t rs = do {
     items \<leftarrow> rs_tables rs t;
     let ret = CESK_STORE_ADDR_RELOC_PREFIX OR of_nat (length items);
     Some (if CESK_STORE_ADDR_IS_RELOC ret then ret else CESK_STORE_ADDR_NULL) }"

text \<open>\<^const>\<open>None\<close> is a null pointer or a table that is not there.\<close>

definition cesk_reloc_addr_info :: "nat \<Rightarrow> u32 \<Rightarrow> reloc_state \<Rightarrow> alloc_param option" where
  "cesk_reloc_addr_info t addr rs =
     (if \<not> CESK_STORE_ADDR_IS_RELOC addr then None
      else do {
        items \<leftarrow> rs_tables rs t;
        let idx = unat (CESK_STORE_ADDR_RELOC_IDX addr);
        if idx < length items then Some (items ! idx) else None })"

subsection \<open>The reverse hash table\<close>

definition rn_key :: "reloc_node \<Rightarrow> nat \<times> alloc_param" where "rn_key n = (rn_table n, rn_param n)"
definition reverse_key_slot :: "nat \<times> alloc_param \<Rightarrow> nat" where "reverse_key_slot k = reverse_slot (fst k) (snd k)"

interpretation reverse_tab: keyed_table chain_empty "chain_insert reverse_key_slot rn_key" "chain_find reverse_key_slot rn_key" rn_key
  by (rule keyed_table_chain)

lemma reverse_find_chain:
  "cesk_reloc_reverse_hash_find t param rs = chain_find reverse_key_slot rn_key (rs_hash rs) (t, param)"
proof -
  have "(\<lambda>n. cesk_alloc_param_equal (rn_param n) param \<and> rn_table n = t) = (\<lambda>n. rn_key n = (t, param))"
    by (auto simp: fun_eq_iff rn_key_def param_equal)
  then show ?thesis by (simp add: cesk_reloc_reverse_hash_find_def chain_find_def reverse_key_slot_def)
qed

lemma reverse_insert_chain:
  "cesk_reloc_reverse_hash_insert t param addr rs =
     rs\<lparr>rs_hash := chain_insert reverse_key_slot rn_key \<lparr>rn_param = param, rn_table = t, rn_addr = addr\<rparr> (rs_hash rs)\<rparr>"
  by (simp add: cesk_reloc_reverse_hash_insert_def chain_insert_def reverse_key_slot_def rn_key_def Let_def)

text \<open>No key is in the table twice; so the deletion of the first node with a key deletes all of them.\<close>

definition reverse_ok :: "reloc_state \<Rightarrow> bool" where
  "reverse_ok rs \<longleftrightarrow> (\<forall>h. distinct (map rn_key (rs_hash rs h)))"

lemma delete_first_key: "distinct (map f xs) \<Longrightarrow> delete_first (\<lambda>n. f n = k) xs = filter (\<lambda>n. f n \<noteq> k) xs"
proof (induction xs)
  case (Cons a xs)
  then have "filter (\<lambda>n. f n \<noteq> f a) xs = xs" by (auto simp: filter_id_conv image_iff)
  then show ?case using Cons by auto
qed simp

lemma reverse_delete_chain:
  assumes "reverse_ok rs"
  shows "rs_hash (cesk_reloc_reverse_hash_delete t param rs) h =
    (if h = reverse_slot t param then filter (\<lambda>n. rn_key n \<noteq> (t, param)) (rs_hash rs h) else rs_hash rs h)"
proof -
  have "(\<lambda>n. cesk_alloc_param_equal param (rn_param n) \<and> rn_table n = t) = (\<lambda>n. rn_key n = (t, param))"
    by (auto simp: fun_eq_iff rn_key_def param_equal)
  then show ?thesis using assms delete_first_key [of rn_key "rs_hash rs (reverse_slot t param)" "(t, param)"]
    by (simp add: cesk_reloc_reverse_hash_delete_def Let_def reverse_ok_def)
qed

lemma find_filter_other: "k \<noteq> k' \<Longrightarrow> find (\<lambda>n. f n = k) (filter (\<lambda>n. f n \<noteq> k') xs) = find (\<lambda>n. f n = k) xs"
  by (induction xs) auto

lemma find_filter_same: "find (\<lambda>n. f n = k) (filter (\<lambda>n. f n \<noteq> k) xs) = None"
  by (simp add: find_None_iff)

lemma reverse_delete:
  assumes "reverse_ok rs"
  shows "reverse_ok (cesk_reloc_reverse_hash_delete t param rs)"
    "cesk_reloc_reverse_hash_find t' param' (cesk_reloc_reverse_hash_delete t param rs) =
      (if (t', param') = (t, param) then None else cesk_reloc_reverse_hash_find t' param' rs)"
    "rs_tables (cesk_reloc_reverse_hash_delete t param rs) = rs_tables rs"
proof -
  show "reverse_ok (cesk_reloc_reverse_hash_delete t param rs)"
    using assms by (simp add: reverse_ok_def reverse_delete_chain [OF assms] distinct_map_filter)
  show "cesk_reloc_reverse_hash_find t' param' (cesk_reloc_reverse_hash_delete t param rs) =
      (if (t', param') = (t, param) then None else cesk_reloc_reverse_hash_find t' param' rs)"
    unfolding reverse_find_chain chain_find_def reverse_key_slot_def reverse_delete_chain [OF assms]
    by (auto simp: find_filter_same find_filter_other)
  show "rs_tables (cesk_reloc_reverse_hash_delete t param rs) = rs_tables rs"
    by (simp add: cesk_reloc_reverse_hash_delete_def Let_def)
qed

lemma reverse_insert:
  assumes "reverse_ok rs" "cesk_reloc_reverse_hash_find t param rs = None"
  shows "reverse_ok (cesk_reloc_reverse_hash_insert t param addr rs)"
    "cesk_reloc_reverse_hash_find t' param' (cesk_reloc_reverse_hash_insert t param addr rs) =
      (if (t', param') = (t, param) then Some \<lparr>rn_param = param, rn_table = t, rn_addr = addr\<rparr> else cesk_reloc_reverse_hash_find t' param' rs)"
    "rs_tables (cesk_reloc_reverse_hash_insert t param addr rs) = rs_tables rs"
proof -
  let ?n = "\<lparr>rn_param = param, rn_table = t, rn_addr = addr\<rparr>"
  have k: "rn_key ?n = (t, param)" by (simp add: rn_key_def)
  have "rn_key ?n \<notin> rn_key ` set (rs_hash rs (reverse_key_slot (t, param)))"
    using assms(2) unfolding reverse_find_chain chain_find_def k by (auto simp: find_None_iff)
  then show "reverse_ok (cesk_reloc_reverse_hash_insert t param addr rs)"
    using assms(1) by (simp add: reverse_ok_def reverse_insert_chain chain_insert_def k)
  show "cesk_reloc_reverse_hash_find t' param' (cesk_reloc_reverse_hash_insert t param addr rs) =
      (if (t', param') = (t, param) then Some ?n else cesk_reloc_reverse_hash_find t' param' rs)"
    unfolding reverse_find_chain reverse_insert_chain using reverse_tab.find_insert [of ?n "rs_hash rs" "(t', param')"] k by auto
  show "rs_tables (cesk_reloc_reverse_hash_insert t param addr rs) = rs_tables rs" by (simp add: reverse_insert_chain)
qed

subsection \<open>The invariant\<close>

text \<open>
  The reverse hash table has exactly the entries of the relocation tables: an entry under a table and a
  parameter is the address of that parameter in the table, and every item of a table has its entry.
\<close>

definition item_addr :: "nat \<Rightarrow> u32" where "item_addr i = CESK_STORE_ADDR_RELOC_PREFIX OR of_nat i"

text \<open>Addresses end where the constant addresses begin; items behind that have no address.\<close>

abbreviation addressed :: "alloc_param list \<Rightarrow> alloc_param list" where "addressed items \<equiv> take 0xffff00 items"

definition items_of :: "reloc_state \<Rightarrow> nat \<Rightarrow> alloc_param list option" where
  "items_of rs t = map_option (take 0xffff00) (rs_tables rs t)"

definition reloc_inv :: "reloc_state \<Rightarrow> bool" where
  "reloc_inv rs \<longleftrightarrow> reverse_ok rs \<and>
     (\<forall>t param n. cesk_reloc_reverse_hash_find t param rs = Some n \<longrightarrow>
        (\<exists>items i. items_of rs t = Some items \<and> i < length items \<and> items ! i = param \<and> rn_addr n = item_addr i)) \<and>
     (\<forall>t items. items_of rs t = Some items \<longrightarrow> distinct items \<and>
        (\<forall>param \<in> set items. cesk_reloc_reverse_hash_find t param rs \<noteq> None)) \<and>
     (\<forall>t all. rs_tables rs t = Some all \<longrightarrow> t < rs_next rs \<and> length all \<le> 2 ^ 24)"

lemma item_addr_low:
  assumes "i < 2 ^ 24"
  shows "of_nat i AND CESK_STORE_ADDR_RELOC_PREFIX = 0" "item_addr i = 0xff000000 + of_nat i" "CESK_STORE_ADDR_RELOC_IDX (item_addr i) = of_nat i"
proof -
  define x where "x = (of_nat i :: u32)"
  have "unat x = i" using assms unfolding x_def by (subst unat_of_nat) (simp add: take_bit_nat_eq_self_iff)
  then have "unat (take_bit 24 x) = unat x" using assms by (simp add: unsigned_take_bit_eq take_bit_nat_eq_self_iff)
  then have "take_bit 24 x = x" by (simp only: word_unat_eq_iff)
  then have b: "bit x k \<Longrightarrow> k < 24" for k by (metis bit_take_bit_iff)
  have m: "CESK_STORE_ADDR_RELOC_PREFIX = NOT (mask 24)" by (simp add: addr_const_defs mask_eq_exp_minus_1)
  show z: "of_nat i AND CESK_STORE_ADDR_RELOC_PREFIX = 0"
    unfolding m x_def [symmetric] by (rule bit_word_eqI) (auto simp: bit_simps dest: b)
  show "item_addr i = 0xff000000 + of_nat i"
    using z by (simp add: item_addr_def addr_const_defs word_plus_and_or [symmetric, of "0xff000000"] and.commute)
  show "CESK_STORE_ADDR_RELOC_IDX (item_addr i) = of_nat i"
    unfolding CESK_STORE_ADDR_RELOC_IDX_def item_addr_def m x_def [symmetric] by (rule bit_word_eqI) (auto simp: bit_simps dest: b)
qed

lemma item_addr_reloc: "i < 2 ^ 24 \<Longrightarrow> CESK_STORE_ADDR_IS_RELOC (item_addr i) \<longleftrightarrow> i < 0xffff00"
proof -
  assume i: "i < 2 ^ 24"
  then have u: "unat (of_nat i :: u32) = i" by (subst unat_of_nat) (simp add: take_bit_nat_eq_self_iff)
  have "unat (0xff000000 + of_nat i :: u32) = 0xff000000 + i"
    using i u by (subst unat_plus_if') simp
  then show ?thesis using i by (simp add: is_reloc_iff_range item_addr_low(2) addr_const_defs word_less_nat_alt word_le_nat_alt)
qed

lemma item_info:
  assumes "items_of rs t = Some items" "i < length items"
  shows "CESK_STORE_ADDR_IS_RELOC (item_addr i)" "cesk_reloc_addr_info t (item_addr i) rs = Some (items ! i)"
proof -
  obtain all where all: "rs_tables rs t = Some all" "items = addressed all" using assms(1) by (auto simp: items_of_def)
  then have i: "i < 0xffff00" "i < length all" using assms(2) by auto
  then have "unat (of_nat i :: u32) = i" by (subst unat_of_nat) (simp add: take_bit_nat_eq_self_iff)
  then show "CESK_STORE_ADDR_IS_RELOC (item_addr i)" "cesk_reloc_addr_info t (item_addr i) rs = Some (items ! i)"
    using i item_addr_reloc [of i] item_addr_low(3) [of i] all by (simp_all add: cesk_reloc_addr_info_def Let_def)
qed

lemma find_tables_upd [simp]:
  "cesk_reloc_reverse_hash_find t param (rs\<lparr>rs_tables := m\<rparr>) = cesk_reloc_reverse_hash_find t param rs"
  "reverse_ok (rs\<lparr>rs_tables := m\<rparr>) = reverse_ok rs"
  by (simp_all add: cesk_reloc_reverse_hash_find_def reverse_ok_def)

lemma reloc_invD:
  assumes "reloc_inv rs"
  shows "reverse_ok rs"
    "cesk_reloc_reverse_hash_find t param rs = Some n \<Longrightarrow>
      \<exists>items i. items_of rs t = Some items \<and> i < length items \<and> items ! i = param \<and> rn_addr n = item_addr i"
    "items_of rs t = Some items \<Longrightarrow> distinct items"
    "items_of rs t = Some items \<Longrightarrow> param \<in> set items \<Longrightarrow> cesk_reloc_reverse_hash_find t param rs \<noteq> None"
    "rs_tables rs t = Some all \<Longrightarrow> t < rs_next rs \<and> length all \<le> 2 ^ 24"
  using assms unfolding reloc_inv_def by blast+

text \<open>An item behind the last address changes nothing that counts.\<close>

lemma reloc_inv_full:
  assumes "reloc_inv rs" "rs_tables rs t = Some items" "0xffff00 \<le> length items" "length items < 2 ^ 24"
  shows "reloc_inv (rs\<lparr>rs_tables := (rs_tables rs)(t \<mapsto> items @ [param])\<rparr>)"
proof -
  have "items_of (rs\<lparr>rs_tables := (rs_tables rs)(t \<mapsto> items @ [param])\<rparr>) = items_of rs"
    using assms(2,3) by (auto simp: items_of_def fun_eq_iff)
  then show ?thesis using assms(1,2,4) by (simp add: reloc_inv_def)
qed

lemma reloc_inv_new_item:
  assumes inv: "reloc_inv rs" and t: "rs_tables rs t = Some items" "length items < 0xffff00" and new: "cesk_reloc_reverse_hash_find t param rs = None"
  defines "rs' \<equiv> cesk_reloc_reverse_hash_insert t param (item_addr (length items)) (rs\<lparr>rs_tables := (rs_tables rs)(t \<mapsto> items @ [param])\<rparr>)"
  shows "reloc_inv rs'" "items_of rs' = (items_of rs)(t \<mapsto> items @ [param])" "items_of rs t = Some items"
proof -
  show old: "items_of rs t = Some items" using t by (simp add: items_of_def)
  let ?rs = "rs\<lparr>rs_tables := (rs_tables rs)(t \<mapsto> items @ [param])\<rparr>"
  have f: "reverse_ok ?rs" "cesk_reloc_reverse_hash_find t param ?rs = None" using reloc_invD(1) [OF inv] new by simp_all
  note ins = reverse_insert [OF f, where addr = "item_addr (length items)", folded rs'_def]
  show tabs: "items_of rs' = (items_of rs)(t \<mapsto> items @ [param])" using ins(3) t(2) by (simp add: items_of_def fun_eq_iff)
  have fresh: "param \<notin> set items" using reloc_invD(4) [OF inv old] new by metis
  have next': "rs_next rs' = rs_next rs" by (simp add: rs'_def reverse_insert_chain)
  show "reloc_inv rs'" unfolding reloc_inv_def
  proof (intro conjI allI impI)
    show "reverse_ok rs'" by (rule ins(1))
    show "\<exists>is i. items_of rs' t' = Some is \<and> i < length is \<and> is ! i = p \<and> rn_addr n = item_addr i"
      if "cesk_reloc_reverse_hash_find t' p rs' = Some n" for t' p n
    proof (cases "(t', p) = (t, param)")
      case True
      then show ?thesis using that ins(2) [of t' p] by (auto simp: tabs)
    next
      case False
      then have "cesk_reloc_reverse_hash_find t' p rs = Some n" using that ins(2) [of t' p] by auto
      from reloc_invD(2) [OF inv this] obtain ys i where i: "items_of rs t' = Some ys" "i < length ys" "ys ! i = p" "rn_addr n = item_addr i"
        by blast
      then show ?thesis using old by (cases "t' = t") (auto simp: tabs nth_append intro!: exI [of _ i])
    qed
    fix t' ys assume t': "items_of rs' t' = Some ys"
    show "distinct ys"
      using t' fresh reloc_invD(3) [OF inv] reloc_invD(3) [OF inv old] by (auto simp: tabs split: if_splits)
    show "\<forall>p \<in> set ys. cesk_reloc_reverse_hash_find t' p rs' \<noteq> None"
      using t' reloc_invD(4) [OF inv] reloc_invD(4) [OF inv old] by (auto simp: tabs ins(2) split: if_splits)
  next
    fix t' all assume "rs_tables rs' t' = Some all"
    then show "t' < rs_next rs'" "length all \<le> 2 ^ 24"
      using reloc_invD(5) [OF inv] reloc_invD(5) [OF inv t(1)] t(2) ins(3) by (auto simp: next' split: if_splits)
  qed
qed

subsection \<open>Allocation\<close>

text \<open>An address that has an item is the address of its position.\<close>

lemma info_item:
  assumes "cesk_reloc_addr_info t a rs = Some p"
  obtains items i where "items_of rs t = Some items" "i < length items" "a = item_addr i" "items ! i = p"
proof -
  obtain all where r: "CESK_STORE_ADDR_IS_RELOC a" "rs_tables rs t = Some all" "unat (CESK_STORE_ADDR_RELOC_IDX a) < length all"
    "all ! unat (CESK_STORE_ADDR_RELOC_IDX a) = p"
    using assms by (auto simp: cesk_reloc_addr_info_def bind_eq_Some_conv Let_def split: if_splits)
  have m: "CESK_STORE_ADDR_RELOC_PREFIX = NOT (mask 24)" by (simp add: addr_const_defs mask_eq_exp_minus_1)
  have x: "CESK_STORE_ADDR_RELOC_IDX a = take_bit 24 a"
    unfolding CESK_STORE_ADDR_RELOC_IDX_def m by (rule bit_word_eqI) (auto simp: bit_simps)
  have lt: "unat (CESK_STORE_ADDR_RELOC_IDX a) < 2 ^ 24" unfolding x using take_bit_nat_less_exp [of 24 "unat a"] by (simp add: unsigned_take_bit_eq)
  have "a AND NOT (mask 24) = NOT (mask 24)" using r(1) by (simp add: CESK_STORE_ADDR_IS_RELOC_def m)
  moreover have "a = (a AND NOT (mask 24)) OR take_bit 24 a" by (rule bit_word_eqI) (auto simp: bit_simps)
  ultimately have a: "a = item_addr (unat (CESK_STORE_ADDR_RELOC_IDX a))"
    unfolding item_addr_def m x unsigned_of_nat by simp
  then have "unat (CESK_STORE_ADDR_RELOC_IDX a) < 0xffff00" using r(1) item_addr_reloc [OF lt] by simp
  then show ?thesis using that [of "addressed all" "unat (CESK_STORE_ADDR_RELOC_IDX a)"] r a by (simp add: items_of_def)
qed

lemma info_unique:
  assumes "reloc_inv rs" "cesk_reloc_addr_info t a rs = Some p" "cesk_reloc_addr_info t b rs = Some p"
  shows "a = b"
  using assms by (elim info_item) (auto dest: reloc_invD(3) simp: nth_eq_iff_index_eq)

lemma append_cases:
  assumes "cesk_reloc_table_append (Some t) param rs = Some (addr, rs1)" "reloc_inv rs" "cesk_reloc_reverse_hash_find t param rs = None"
  obtains (full) "addr = CESK_STORE_ADDR_NULL" "reloc_inv rs1" "items_of rs1 = items_of rs"
    | (new) items where "CESK_STORE_ADDR_IS_RELOC addr" "items_of rs t = Some items" "addr = item_addr (length items)"
      "reloc_inv (cesk_reloc_reverse_hash_insert t param addr rs1)"
      "items_of (cesk_reloc_reverse_hash_insert t param addr rs1) = (items_of rs)(t \<mapsto> items @ [param])"
proof -
  obtain items where t: "rs_tables rs t = Some items" using assms(1) by (auto simp: cesk_reloc_table_append_def bind_eq_Some_conv)
  have len: "length items \<le> 2 ^ 24" using reloc_invD(5) [OF assms(2) t] by simp
  let ?rs = "rs\<lparr>rs_tables := (rs_tables rs)(t \<mapsto> items @ [param])\<rparr>"
  have low: "(of_nat (length items) :: u32) AND CESK_STORE_ADDR_RELOC_PREFIX = 0 \<longleftrightarrow> length items < 2 ^ 24"
  proof (cases "length items < 2 ^ 24")
    case False
    then have "length items = 2 ^ 24" using len by simp
    then show ?thesis by (simp add: addr_const_defs)
  qed (use item_addr_low(1) in blast)
  have eq: "Some (addr, rs1) = (if length items < 2 ^ 24 then Some (if CESK_STORE_ADDR_IS_RELOC (item_addr (length items)) then item_addr (length items)
      else CESK_STORE_ADDR_NULL, ?rs) else Some (CESK_STORE_ADDR_NULL, rs))"
    using assms(1) unfolding cesk_reloc_table_append_def by (auto simp: t low item_addr_def Let_def split: if_splits)
  consider "length items < 0xffff00" | "0xffff00 \<le> length items" "length items < 2 ^ 24" | "\<not> length items < 2 ^ 24" by linarith
  then show ?thesis
  proof cases
    case 1
    then have "addr = item_addr (length items)" "rs1 = ?rs" "CESK_STORE_ADDR_IS_RELOC addr"
      using eq item_addr_reloc [of "length items"] by simp_all
    then show ?thesis using new [of items] reloc_inv_new_item [OF assms(2) t 1 assms(3)] by simp
  next
    case 2
    then have "addr = CESK_STORE_ADDR_NULL" "rs1 = ?rs" using eq item_addr_reloc [of "length items"] by simp_all
    moreover have "items_of ?rs = items_of rs" using t 2(1) by (auto simp: items_of_def fun_eq_iff)
    ultimately show ?thesis using full reloc_inv_full [OF assms(2) t 2] by simp
  next
    case 3
    then show ?thesis using full eq assms(2) by simp
  qed
qed

lemma info_later:
  assumes "items_of rs' = items_of rs \<or> (\<exists>t items param. items_of rs t = Some items \<and> items_of rs' = (items_of rs)(t \<mapsto> items @ [param]))"
    and "cesk_reloc_addr_info t a rs = Some p"
  shows "cesk_reloc_addr_info t a rs' = Some p"
proof -
  obtain items i where i: "items_of rs t = Some items" "i < length items" "a = item_addr i" "items ! i = p" using info_item [OF assms(2)] .
  then have "\<exists>items'. items_of rs' t = Some items' \<and> i < length items' \<and> items' ! i = p"
    using assms(1) by (auto simp: nth_append)
  then show ?thesis using i(3) item_info(2) by blast
qed

text \<open>The last step of an allocation, and what it writes to the allocation table.\<close>

definition mapped :: "bool \<Rightarrow> cesk_store \<Rightarrow> u32 \<Rightarrow> u32 \<Rightarrow> 'd world \<Rightarrow> u32 \<Rightarrow> 'd world \<Rightarrow> bool" where
  "mapped dry_run st rel obj w addr w' \<longleftrightarrow>
     (if dry_run then addr = rel \<and> w' = w
      else if \<not> CESK_STORE_ADDR_IS_OBJ obj then addr = CESK_STORE_ADDR_NULL \<and> w' = w
      else addr = rel \<and> w' = w\<lparr>w_tabs := w_tabs w'\<rparr> \<and>
        cesk_alloctab_query (store_tab st w') (st_alloc_token st) rel = obj \<and>
        cesk_alloctab_query (store_tab st w') (st_alloc_token st) obj = rel \<and>
        (\<forall>token a. (token, a) \<notin> {(st_alloc_token st, rel), (st_alloc_token st, obj)} \<longrightarrow>
           cesk_alloctab_query (store_tab st w') token a = cesk_alloctab_query (store_tab st w) token a))"

lemma finish_mapped:
  assumes "reloc_finish dry_run st obj w rel rs = Some (addr, st', rs', w')" "CESK_STORE_ADDR_IS_RELOC rel" "st_alloc_tab st \<noteq> None"
  shows "st' = Some st \<and> rs' = rs \<and> mapped dry_run st rel obj w addr w'"
proof (cases dry_run)
  case False
  then obtain rc where m: "store_map_addr st rel obj w = Some (rc, w')" "addr = (if rc < 0 then CESK_STORE_ADDR_NULL else rel)"
    "st' = Some st" "rs' = rs"
    using assms(1) by (auto simp: reloc_finish_def bind_eq_Some_conv)
  obtain i t where t: "st_alloc_tab st = Some i" "at_mem (w_tabs w) i = Some t"
    using m(1) assms(3) by (auto simp: store_map_addr_def bind_eq_Some_conv)
  show ?thesis
  proof (cases "CESK_STORE_ADDR_IS_OBJ obj")
    case True
    from cesk_alloctab_map_addr_correct [OF assms(2) True, of t "st_alloc_token st"] obtain t' where
      t': "cesk_alloctab_map_addr (Some t) (Some (st_alloc_token st)) rel obj = (0, Some t')"
        "cesk_alloctab_query (Some t') (st_alloc_token st) rel = obj" "cesk_alloctab_query (Some t') (st_alloc_token st) obj = rel"
        "\<forall>token a. (token, a) \<notin> {(st_alloc_token st, rel), (st_alloc_token st, obj)} \<longrightarrow>
          cesk_alloctab_query (Some t') token a = cesk_alloctab_query (Some t) token a" by blast
    then have "w' = w\<lparr>w_tabs := (w_tabs w)\<lparr>at_mem := (at_mem (w_tabs w))(i \<mapsto> t')\<rparr>\<rparr>" "rc = 0"
      using m(1) t by (auto simp: store_map_addr_def)
    then show ?thesis using m(2-4) t t' True False by (auto simp: mapped_def store_tab_def)
  next
    case obj: False
    then have "cesk_alloctab_map_addr (Some t) (Some (st_alloc_token st)) rel obj = (-1, Some t)"
      using cesk_alloctab_rejects [of rel obj "Some t" "Some (st_alloc_token st)"] by simp
    then have "rc = -1" "w' = w" using m(1) t by (auto simp: store_map_addr_def fun_upd_idem)
    then show ?thesis using m(2-4) obj False by (simp add: mapped_def)
  qed
qed (use assms(1) in \<open>simp add: reloc_finish_def mapped_def\<close>)

lemma allocate_tab: "cesk_store_allocate st param w = Some (obj, st', w') \<Longrightarrow> st_alloc_tab st' = st_alloc_tab st"
  by (auto simp: cesk_store_allocate_def bind_eq_Some_conv Let_def split: option.splits prod.splits)

lemma info_iff:
  "cesk_reloc_addr_info t a rs = Some p \<longleftrightarrow>
     (\<exists>items i. items_of rs t = Some items \<and> i < length items \<and> a = item_addr i \<and> items ! i = p)"
  by (auto elim!: info_item simp: item_info(2))

lemma append_room:
  assumes "cesk_reloc_table_append (Some t) param rs = Some (addr, rs1)" "reloc_inv rs"
  shows "CESK_STORE_ADDR_IS_RELOC addr \<longleftrightarrow> length (the (rs_tables rs t)) < 0xffff00"
proof -
  obtain items where t: "rs_tables rs t = Some items" using assms(1) by (auto simp: cesk_reloc_table_append_def bind_eq_Some_conv)
  have len: "length items \<le> 2 ^ 24" using reloc_invD(5) [OF assms(2) t] by simp
  have null: "\<not> CESK_STORE_ADDR_IS_RELOC CESK_STORE_ADDR_NULL"
    by (simp add: CESK_STORE_ADDR_IS_RELOC_def addr_const_defs CESK_STORE_ADDR_IS_CONST_def)
  show ?thesis
  proof (cases "length items < 2 ^ 24")
    case True
    then show ?thesis using assms(1) t null item_addr_low(1) [OF True] item_addr_reloc [OF True]
      by (auto simp: cesk_reloc_table_append_def item_addr_def Let_def split: if_splits)
  next
    case False
    then have "length items = 2 ^ 24" using len by simp
    then show ?thesis using assms(1) t null by (simp add: cesk_reloc_table_append_def addr_const_defs Let_def)
  qed
qed

text \<open>
  C24: allocating a relocated address keeps the relocation tables consistent and every address keeps its
  meaning; the only new entry is that of the parameter in the table. When the object of the parameter has a
  relocated address in the allocation table of the store, that is the result, and when the parameter is new but
  the object has a value already, the result is the object; both change nothing but what the allocation in the
  store does. A full relocation table is an error. Otherwise the result is the only address whose entry in the
  table is the parameter, and unless it is a dry run the allocation table of the store then gives the object for
  this address and this address for the object, all its other answers stay, and nothing else of the memory
  changes.
\<close>

theorem cesk_reloc_allocate_correct:
  assumes "reloc_inv rs" "st_alloc_tab st \<noteq> None" "cesk_store_allocate st param w = Some (obj, st1, w1)" "obj \<noteq> CESK_STORE_ADDR_NULL"
    and "cesk_reloc_allocate (Some t) (Some st) param dry_run rs w = Some (addr, st', rs', w')"
  defines "known \<equiv> cesk_reloc_reverse_hash_find t param rs \<noteq> None"
    and "old \<equiv> cesk_alloctab_query (store_tab st1 w1) (st_alloc_token st1) obj"
  shows "reloc_inv rs' \<and> st' = Some st1 \<and>
    (\<forall>t' a p. cesk_reloc_addr_info t' a rs = Some p \<longrightarrow> cesk_reloc_addr_info t' a rs' = Some p) \<and>
    (\<forall>t' a p. cesk_reloc_addr_info t' a rs' = Some p \<longrightarrow> cesk_reloc_addr_info t' a rs = Some p \<or> t' = t \<and> p = param) \<and>
    (if known \<and> old \<noteq> CESK_STORE_ADDR_NULL then addr = old \<and> rs' = rs \<and> w' = w1
     else if \<not> known \<and> cesk_store_get_ro st1 obj w1 \<noteq> Some None then addr = obj \<and> rs' = rs \<and> w' = w1
     else if \<not> known \<and> 0xffff00 \<le> length (the (rs_tables rs t)) then addr = CESK_STORE_ADDR_NULL \<and> w' = w1
     else \<exists>rel. CESK_STORE_ADDR_IS_RELOC rel \<and> (\<forall>a. cesk_reloc_addr_info t a rs' = Some param \<longleftrightarrow> a = rel) \<and>
       mapped dry_run st1 rel obj w1 addr w')"
proof -
  have st1: "st_alloc_tab st1 \<noteq> None" using assms(2) allocate_tab [OF assms(3)] by simp
  have eq: "(case cesk_reloc_reverse_hash_find t param rs of
       Some node \<Rightarrow> if old \<noteq> CESK_STORE_ADDR_NULL then Some (old, Some st1, rs, w1) else reloc_finish dry_run st1 obj w1 (rn_addr node) rs
     | None \<Rightarrow> do {
         v \<leftarrow> cesk_store_get_ro st1 obj w1;
         if v \<noteq> None then Some (obj, Some st1, rs, w1)
         else do {
           (rel_addr, rs) \<leftarrow> cesk_reloc_table_append (Some t) param rs;
           if rel_addr = CESK_STORE_ADDR_NULL then Some (CESK_STORE_ADDR_NULL, Some st1, rs, w1)
           else reloc_finish dry_run st1 obj w1 rel_addr (cesk_reloc_reverse_hash_insert t param rel_addr rs) } }) = Some (addr, st', rs', w')"
    using assms(2) unfolding assms(5) [symmetric] cesk_reloc_allocate_def old_def Let_def by (auto simp: assms(3,4))
  show ?thesis
  proof (cases "cesk_reloc_reverse_hash_find t param rs")
    case (Some node)
    from reloc_invD(2) [OF assms(1) Some] obtain items i where i: "items_of rs t = Some items" "i < length items" "items ! i = param"
      "rn_addr node = item_addr i" by blast
    have r: "cesk_reloc_addr_info t (rn_addr node) rs = Some param" "CESK_STORE_ADDR_IS_RELOC (rn_addr node)" using item_info [OF i(1,2)] i(3,4) by simp_all
    then have "\<forall>a. cesk_reloc_addr_info t a rs = Some param \<longleftrightarrow> a = rn_addr node" using info_unique [OF assms(1)] by blast
    then show ?thesis using eq Some assms(1) r(2) finish_mapped [OF _ r(2) st1, of dry_run obj w1 rs addr st' rs' w']
      by (cases "old = CESK_STORE_ADDR_NULL") (auto simp: known_def)
  next
    case None
    note none = this
    obtain v where v: "cesk_store_get_ro st1 obj w1 = Some v" using eq none by (auto simp: bind_eq_Some_conv)
    show ?thesis
    proof (cases v)
      case (Some x)
      then show ?thesis using eq none v assms(1) by (auto simp: known_def)
    next
      case None
      then obtain rel rs1 where app: "cesk_reloc_table_append (Some t) param rs = Some (rel, rs1)"
        "(if rel = CESK_STORE_ADDR_NULL then Some (CESK_STORE_ADDR_NULL, Some st1, rs1, w1)
          else reloc_finish dry_run st1 obj w1 rel (cesk_reloc_reverse_hash_insert t param rel rs1)) = Some (addr, st', rs', w')"
        using eq none v by (auto simp: bind_eq_Some_conv)
      have state: "\<not> (known \<and> old \<noteq> CESK_STORE_ADDR_NULL)" "\<not> (\<not> known \<and> cesk_store_get_ro st1 obj w1 \<noteq> Some None)"
        using none v None by (simp_all add: known_def)
      show ?thesis using app(1) assms(1) none
      proof (cases rule: append_cases)
        case full
        have "\<not> CESK_STORE_ADDR_IS_RELOC rel" unfolding full(1)
          by (simp add: CESK_STORE_ADDR_IS_RELOC_def addr_const_defs CESK_STORE_ADDR_IS_CONST_def)
        then have "0xffff00 \<le> length (the (rs_tables rs t))" using append_room [OF app(1) assms(1)] by simp
        moreover have "cesk_reloc_addr_info t' a rs1 = Some p \<longleftrightarrow> cesk_reloc_addr_info t' a rs = Some p" for t' a p
          using full(3) by (simp add: info_iff)
        ultimately show ?thesis using app(2) state full none by (auto simp: known_def)
      next
        case (new items)
        let ?rs = "cesk_reloc_reverse_hash_insert t param rel rs1"
        have "rel \<noteq> CESK_STORE_ADDR_NULL" using new(1) by (auto simp: CESK_STORE_ADDR_IS_RELOC_def addr_const_defs CESK_STORE_ADDR_IS_CONST_def)
        then have f: "st' = Some st1" "rs' = ?rs" "mapped dry_run st1 rel obj w1 addr w'" using app(2) finish_mapped [OF _ new(1) st1, of dry_run obj w1 ?rs addr st' rs' w'] by auto
        have "items_of ?rs t = Some (items @ [param])" using new(5) by simp
        from item_info(2) [OF this, of "length items"] have "cesk_reloc_addr_info t rel ?rs = Some param" using new(3) by simp
        then have "\<forall>a. cesk_reloc_addr_info t a ?rs = Some param \<longleftrightarrow> a = rel" using info_unique [OF new(4)] by blast
        moreover have "\<forall>t' a p. cesk_reloc_addr_info t' a rs = Some p \<longrightarrow> cesk_reloc_addr_info t' a ?rs = Some p"
          using info_later [of ?rs rs] new(2,5) by blast
        moreover have "\<forall>t' a p. cesk_reloc_addr_info t' a ?rs = Some p \<longrightarrow> cesk_reloc_addr_info t' a rs = Some p \<or> t' = t \<and> p = param"
          using new(2,5) by (auto simp: info_iff nth_append less_Suc_eq split: if_splits)
        moreover have "\<not> 0xffff00 \<le> length (the (rs_tables rs t))" using append_room [OF app(1) assms(1)] new(1) by simp
        ultimately show ?thesis unfolding f(2) if_not_P [OF state(1)] if_not_P [OF state(2)] using f(1,3) new(1,4) by simp blast
      qed
    qed
  qed
qed

text \<open>A store with one block and an empty allocation table, for the witness.\<close>

definition reloc_start :: reloc_state where
  "reloc_start = \<lparr>rs_hash = chain_empty, rs_tables = [0 \<mapsto> []], rs_next = 1\<rparr>"

lemma reloc_start_inv: "reloc_inv reloc_start"
  by (auto simp: reloc_inv_def reloc_start_def reverse_ok_def chain_empty_def items_of_def cesk_reloc_reverse_hash_find_def split: if_splits)

definition reloc_store :: cesk_store where "reloc_store = one_block\<lparr>st_alloc_tab := Some 0\<rparr>"

definition reloc_world :: "unit world" where
  "reloc_world = (shared_world 1)\<lparr>w_tabs := \<lparr>at_mem = [0 \<mapsto> alloctab_zero], at_fresh = 1\<rparr>\<rparr>"

lemma reloc_store_free: "store_ok reloc_store reloc_world" "\<not> slot_matches param reloc_store reloc_world q"
  "fst q = 0 \<Longrightarrow> snd q < CESK_STORE_BLOCK_NSLOTS \<Longrightarrow> slot_free reloc_store reloc_world q"
  by (simp_all add: store_ok_def slot_matches_def slot_free_def store_slot_at_def slot_at_def reloc_store_def one_block_def cesk_store_empty_store_def
      reloc_world_def shared_world_def empty_world_def block_zero_def slot_zero_def)

lemma reloc_store_allocate:
  obtains w where "cesk_store_allocate reloc_store param reloc_world = Some (slot_addr (0, init_slot param), reloc_store, w)"
    "slot_addr (0, init_slot param) \<noteq> CESK_STORE_ADDR_NULL" "cesk_store_get_ro reloc_store (slot_addr (0, init_slot param)) w = Some None"
    "CESK_STORE_ADDR_IS_OBJ (slot_addr (0, init_slot param))" "at_mem (w_tabs w) 0 = Some alloctab_zero"
proof -
  let ?p = "(0 :: nat, init_slot param)"
  have len: "nblocks reloc_store = 1" "st_blocks reloc_store = [0]" by (simp_all add: reloc_store_def one_block_def)
  have "search_positions param reloc_store = ?p # tl (search_positions param reloc_store)"
    by (simp add: len CESK_STORE_ALLOC_ATTEMPT_def numeral_eq_Suc positions_def)
  then have "find (slot_free reloc_store reloc_world) (search_positions param reloc_store) = Some ?p"
    using reloc_store_free(3) [of ?p] by (metis find.simps(2) fst_conv snd_conv init_slot_bound)
  moreover have "find (slot_matches param reloc_store reloc_world) (search_positions param reloc_store) = None"
    by (simp add: find_None_mem reloc_store_free)
  moreover have sl: "slot_at 0 (init_slot param) reloc_world = Some slot_zero"
    using init_slot_bound [of param] by (simp add: slot_at_def reloc_world_def shared_world_def empty_world_def block_zero_def)
  moreover obtain w where w: "slot_upd 0 (init_slot param) (mark_slot param) reloc_world = Some w" using slot_upd_Some [OF sl] by blast
  ultimately have a: "cesk_store_allocate reloc_store param reloc_world = Some (slot_addr ?p, reloc_store, w)"
    by (simp add: allocate_cases [OF reloc_store_free(1)] len)
  have p: "addr_block (slot_addr ?p) = 0" "addr_ofs (slot_addr ?p) = init_slot param" "CESK_STORE_ADDR_IS_OBJ (slot_addr ?p)"
    using slot_addr_parts [of ?p] init_slot_bound [of param] by (simp_all add: CESK_STORE_BLOCK_NSLOTS_def CESK_STORE_BLOCK_SIZE_def)
  have "slot_addr ?p \<noteq> CESK_STORE_ADDR_NULL" "\<not> CESK_STORE_ADDR_IS_RELOC (slot_addr ?p)"
    using p(3) by (auto simp: is_obj_iff is_reloc_iff_range addr_const_defs not_le)
  moreover from this have "cesk_store_get_ro reloc_store (slot_addr ?p) w = Some None"
    using slot_at_upd [OF w, of 0 "init_slot param"] sl
    by (simp add: cesk_store_get_ro_def cesk_store_make_object_address_def p len slot_zero_def)
  moreover have "w_tabs w = w_tabs reloc_world" using w by (auto simp: slot_upd_def block_upd_def bind_eq_Some_conv Let_def split: if_splits)
  ultimately show ?thesis using that a p(3) by (simp add: reloc_world_def)
qed

definition reloc_param :: alloc_param where "reloc_param = \<lparr>ap_inst = 7, ap_offset = 0\<rparr>"

definition reloc_filled :: reloc_state where
  "reloc_filled = cesk_reloc_reverse_hash_insert 0 reloc_param 0xff000000 (reloc_start\<lparr>rs_tables := [0 \<mapsto> [reloc_param]]\<rparr>)"

lemma reloc_demo:
  obtains obj w w' where "cesk_store_allocate reloc_store reloc_param reloc_world = Some (obj, reloc_store, w)" "obj \<noteq> CESK_STORE_ADDR_NULL"
    "cesk_store_get_ro reloc_store obj w = Some None" "CESK_STORE_ADDR_IS_OBJ obj"
    "cesk_reloc_reverse_hash_find 0 reloc_param reloc_start = None"
    "cesk_reloc_allocate (Some 0) (Some reloc_store) reloc_param False reloc_start reloc_world = Some (0xff000000, Some reloc_store, reloc_filled, w')"
proof -
  let ?obj = "slot_addr (0, init_slot reloc_param)"
  obtain w where a: "cesk_store_allocate reloc_store reloc_param reloc_world = Some (?obj, reloc_store, w)"
    "?obj \<noteq> CESK_STORE_ADDR_NULL" "cesk_store_get_ro reloc_store ?obj w = Some None" "CESK_STORE_ADDR_IS_OBJ ?obj"
    "at_mem (w_tabs w) 0 = Some alloctab_zero"
    by (rule reloc_store_allocate)
  have tab: "st_alloc_tab reloc_store = Some 0" by (simp add: reloc_store_def)
  have none: "cesk_reloc_reverse_hash_find 0 reloc_param reloc_start = None" by (simp add: cesk_reloc_reverse_hash_find_def reloc_start_def chain_empty_def)
  have r: "CESK_STORE_ADDR_IS_RELOC 0xff000000" by (simp add: CESK_STORE_ADDR_IS_RELOC_def CESK_STORE_ADDR_IS_CONST_def addr_const_defs)
  have app: "cesk_reloc_table_append (Some 0) reloc_param reloc_start = Some (0xff000000, reloc_start\<lparr>rs_tables := [0 \<mapsto> [reloc_param]]\<rparr>)"
    using r by (simp add: cesk_reloc_table_append_def reloc_start_def addr_const_defs)
  obtain t' where "cesk_alloctab_map_addr (Some alloctab_zero) (Some (st_alloc_token reloc_store)) 0xff000000 ?obj = (0, Some t')"
    using cesk_alloctab_map_addr_correct [OF r a(4)] by blast
  then have "\<exists>w'. cesk_reloc_allocate (Some 0) (Some reloc_store) reloc_param False reloc_start reloc_world = Some (0xff000000, Some reloc_store, reloc_filled, w')"
    using a(2,5) tab by (simp add: cesk_reloc_allocate_def reloc_filled_def a(1,3) none app reloc_finish_def store_map_addr_def addr_const_defs
        del: One_nat_def)
  then show ?thesis using that [OF a(1-4) none] by blast
qed

theorem cesk_reloc_allocate_correct_witness:
  "\<exists>addr w'. cesk_reloc_allocate (Some 0) (Some reloc_store) reloc_param False reloc_start reloc_world =
      Some (addr, Some reloc_store, reloc_filled, w') \<and> CESK_STORE_ADDR_IS_RELOC addr \<and>
    CESK_STORE_ADDR_IS_OBJ (cesk_alloctab_query (store_tab reloc_store w') (st_alloc_token reloc_store) addr)"
proof -
  obtain obj w w' where a: "cesk_store_allocate reloc_store reloc_param reloc_world = Some (obj, reloc_store, w)" "obj \<noteq> CESK_STORE_ADDR_NULL"
    "cesk_store_get_ro reloc_store obj w = Some None" "CESK_STORE_ADDR_IS_OBJ obj"
    "cesk_reloc_reverse_hash_find 0 reloc_param reloc_start = None"
    "cesk_reloc_allocate (Some 0) (Some reloc_store) reloc_param False reloc_start reloc_world = Some (0xff000000, Some reloc_store, reloc_filled, w')"
    by (rule reloc_demo)
  have t: "st_alloc_tab reloc_store \<noteq> None" by (simp add: reloc_store_def)
  show ?thesis using cesk_reloc_allocate_correct [OF reloc_start_inv t a(1,2,6)] a(3-6) by (auto simp: mapped_def reloc_start_def)
qed

subsection \<open>The life of a table\<close>

lemma reverse_delete_all:
  "reverse_ok rs \<Longrightarrow> reverse_ok (fold (cesk_reloc_reverse_hash_delete t) items rs) \<and>
    rs_tables (fold (cesk_reloc_reverse_hash_delete t) items rs) = rs_tables rs \<and>
    rs_next (fold (cesk_reloc_reverse_hash_delete t) items rs) = rs_next rs \<and>
    (\<forall>t' p. cesk_reloc_reverse_hash_find t' p (fold (cesk_reloc_reverse_hash_delete t) items rs) =
      (if t' = t \<and> p \<in> set items then None else cesk_reloc_reverse_hash_find t' p rs))"
proof (induction items arbitrary: rs)
  case (Cons x items)
  note step = reverse_delete [OF Cons.prems, where t = t and param = x]
  have "rs_next (cesk_reloc_reverse_hash_delete t x rs) = rs_next rs" by (simp add: cesk_reloc_reverse_hash_delete_def Let_def)
  with Cons.IH [OF step(1)] step(2,3) show ?case by auto
qed simp

lemma same_hash:
  assumes "rs_hash rs' = rs_hash rs"
  shows "cesk_reloc_reverse_hash_find t p rs' = cesk_reloc_reverse_hash_find t p rs" "reverse_ok rs' = reverse_ok rs"
  using assms by (simp_all add: cesk_reloc_reverse_hash_find_def reverse_ok_def)

lemma table_new_inv:
  assumes inv: "reloc_inv rs" and "cesk_reloc_table_new rs = (t, rs')"
  shows "reloc_inv rs'" "rs_tables rs t = None" "rs_tables rs' = (rs_tables rs)(t \<mapsto> [])"
proof -
  have r: "t = rs_next rs" "rs' = rs\<lparr>rs_tables := (rs_tables rs)(t \<mapsto> []), rs_next := Suc (rs_next rs)\<rparr>"
    using assms(2) by (auto simp: cesk_reloc_table_new_def)
  show none: "rs_tables rs t = None" using reloc_invD(5) [OF inv, of t] r(1) by (cases "rs_tables rs t") auto
  show tabs: "rs_tables rs' = (rs_tables rs)(t \<mapsto> [])" by (simp add: r(2))
  have items: "items_of rs' t' = (if t' = t then Some [] else items_of rs t')" for t' by (simp add: items_of_def tabs)
  have hash: "rs_hash rs' = rs_hash rs" by (simp add: r(2))
  have old: "items_of rs t = None" by (simp add: items_of_def none)
  show "reloc_inv rs'" unfolding reloc_inv_def same_hash [OF hash]
  proof (intro conjI allI impI)
    show "reverse_ok rs" by (rule reloc_invD(1) [OF inv])
    show "\<exists>ys i. items_of rs' t' = Some ys \<and> i < length ys \<and> ys ! i = p \<and> rn_addr n = item_addr i"
      if "cesk_reloc_reverse_hash_find t' p rs = Some n" for t' p n
      using reloc_invD(2) [OF inv that] old by (auto simp: items)
    fix t' ys assume "items_of rs' t' = Some ys"
    then show "distinct ys" "\<forall>p \<in> set ys. cesk_reloc_reverse_hash_find t' p rs \<noteq> None"
      using reloc_invD(3,4) [OF inv] by (auto simp: items split: if_splits)
  next
    fix t' all assume "rs_tables rs' t' = Some all"
    then show "t' < rs_next rs'" "length all \<le> 2 ^ 24" using reloc_invD(5) [OF inv, of t'] by (auto simp: tabs r split: if_splits)
  qed
qed

lemma table_free_inv:
  assumes inv: "reloc_inv rs" and "cesk_reloc_table_free (Some t) rs = Some rs'"
  shows "reloc_inv rs'" "rs_tables rs' = (rs_tables rs)(t := None)"
    "cesk_reloc_reverse_hash_find t' p rs' = (if t' = t then None else cesk_reloc_reverse_hash_find t' p rs)"
proof -
  obtain all where t: "rs_tables rs t = Some all"
    "rs' = (fold (cesk_reloc_reverse_hash_delete t) all rs)\<lparr>rs_tables := (rs_tables (fold (cesk_reloc_reverse_hash_delete t) all rs))(t := None)\<rparr>"
    using assms(2) by (auto simp: cesk_reloc_table_free_def bind_eq_Some_conv Let_def)
  note del = reverse_delete_all [OF reloc_invD(1) [OF inv], of t all]
  show tabs: "rs_tables rs' = (rs_tables rs)(t := None)" using t(2) del by simp
  have "p \<in> set all" if "cesk_reloc_reverse_hash_find t p rs = Some n" for p n
    using reloc_invD(2) [OF inv that] t(1) by (auto simp: items_of_def dest: in_set_takeD [OF nth_mem])
  then have f: "cesk_reloc_reverse_hash_find t' p rs' = (if t' = t then None else cesk_reloc_reverse_hash_find t' p rs)" for t' p
    using t(2) del by (cases "cesk_reloc_reverse_hash_find t p rs") auto
  show "cesk_reloc_reverse_hash_find t' p rs' = (if t' = t then None else cesk_reloc_reverse_hash_find t' p rs)" by (rule f)
  have items: "items_of rs' t' = (if t' = t then None else items_of rs t')" for t' by (simp add: items_of_def tabs)
  show "reloc_inv rs'" unfolding reloc_inv_def
  proof (intro conjI allI impI)
    show "reverse_ok rs'" using t(2) del by simp
    show "\<exists>ys i. items_of rs' t' = Some ys \<and> i < length ys \<and> ys ! i = p \<and> rn_addr n = item_addr i"
      if "cesk_reloc_reverse_hash_find t' p rs' = Some n" for t' p n
      using that reloc_invD(2) [OF inv, of t' p n] by (auto simp: f items split: if_splits)
    fix t' ys assume "items_of rs' t' = Some ys"
    then show "distinct ys" "\<forall>p \<in> set ys. cesk_reloc_reverse_hash_find t' p rs' \<noteq> None"
      using reloc_invD(3,4) [OF inv] by (auto simp: f items split: if_splits)
  next
    fix t' all' assume "rs_tables rs' t' = Some all'"
    then show "t' < rs_next rs'" "length all' \<le> 2 ^ 24" using reloc_invD(5) [OF inv, of t'] t(2) del by (auto simp: tabs split: if_splits)
  qed
qed

lemma allocate_inv:
  assumes "cesk_reloc_allocate table st param dry_run rs w = Some (addr, st', rs', w')" "reloc_inv rs"
  shows "reloc_inv rs'"
proof -
  have fin: "rs' = rs0" if "reloc_finish dry_run st1 obj w1 rel rs0 = Some (addr, st', rs', w')" for st1 obj w1 rel rs0
    using that by (auto simp: reloc_finish_def bind_eq_Some_conv split: if_splits)
  consider "rs' = rs" | t rel rs1 where "table = Some t" "cesk_reloc_reverse_hash_find t param rs = None"
      "cesk_reloc_table_append (Some t) param rs = Some (rel, rs1)"
      "rs' = (if rel = CESK_STORE_ADDR_NULL then rs1 else cesk_reloc_reverse_hash_insert t param rel rs1)"
  proof (cases table)
    case t: (Some t)
    show ?thesis
    proof (cases "cesk_reloc_reverse_hash_find t param rs")
      case None
      then show ?thesis using assms(1) fin t that
        by (auto simp: cesk_reloc_allocate_def bind_eq_Some_conv split: option.splits if_splits)
    next
      case (Some node)
      have "rs' = rs" using assms(1) fin t Some
        by (auto simp: cesk_reloc_allocate_def bind_eq_Some_conv Let_def split: option.splits if_splits)
      then show ?thesis using that(1) by blast
    qed
  qed (use assms(1) that in \<open>simp add: cesk_reloc_allocate_def\<close>)
  then show ?thesis
  proof cases
    case 2
    from 2(3) assms(2) 2(2) show ?thesis
    proof (cases rule: append_cases)
      case (new items)
      then show ?thesis using 2(4) by (auto simp: CESK_STORE_ADDR_IS_RELOC_def addr_const_defs CESK_STORE_ADDR_IS_CONST_def split: if_splits)
    qed (use 2(4) in simp)
  qed (use assms(2) in simp)
qed

lemma find_info:
  assumes "reloc_inv rs"
  shows "(\<exists>n. cesk_reloc_reverse_hash_find t p rs = Some n \<and> rn_addr n = a) \<longleftrightarrow> cesk_reloc_addr_info t a rs = Some p"
proof
  assume "\<exists>n. cesk_reloc_reverse_hash_find t p rs = Some n \<and> rn_addr n = a"
  then show "cesk_reloc_addr_info t a rs = Some p" using reloc_invD(2) [OF assms] item_info(2) by fastforce
next
  assume a: "cesk_reloc_addr_info t a rs = Some p"
  then obtain items i where "items_of rs t = Some items" "i < length items" "items ! i = p" by (rule info_item)
  then obtain n where n: "cesk_reloc_reverse_hash_find t p rs = Some n" using reloc_invD(4) [OF assms] by fastforce
  then have "cesk_reloc_addr_info t (rn_addr n) rs = Some p" using reloc_invD(2) [OF assms n] item_info(2) by fastforce
  then show "\<exists>n. cesk_reloc_reverse_hash_find t p rs = Some n \<and> rn_addr n = a" using n info_unique [OF assms a] by blast
qed

text \<open>What the analyser does to the relocation tables: it makes tables, allocates addresses in them and releases them.\<close>

inductive reloc_step :: "reloc_state \<times> 'd world \<Rightarrow> reloc_state \<times> 'd world \<Rightarrow> bool" where
  table_new: "cesk_reloc_table_new rs = (t, rs') \<Longrightarrow> reloc_step (rs, w) (rs', w)"
| allocate: "cesk_reloc_allocate table st param dry_run rs w = Some (addr, st', rs', w') \<Longrightarrow> reloc_step (rs, w) (rs', w')"
| table_free: "cesk_reloc_table_free table rs = Some rs' \<Longrightarrow> reloc_step (rs, w) (rs', w)"
| elsewhere: "reloc_step (rs, w) (rs, w')"

lemma reloc_step_inv: "reloc_step x y \<Longrightarrow> reloc_inv (fst x) \<Longrightarrow> reloc_inv (fst y)"
proof (induction rule: reloc_step.induct)
  case (table_free table rs rs' w)
  then show ?case by (cases table) (auto dest: table_free_inv(1) simp: cesk_reloc_table_free_def)
qed (auto intro: table_new_inv(1) allocate_inv)

text \<open>
  C34: however tables are made, filled and released, starting with none, the hash table that all tables
  share has an entry for a table and a parameter just when the parameter has an address in the table, and the
  entry has this address. In every such state, a new table has an identity of its own and no addresses, and takes none
  from the others; every table that exists can be released, and this removes its entries from the hash table
  and its addresses, and nothing of any other table.
\<close>

theorem cesk_reloc_table_lifecycle:
  assumes "reloc_step\<^sup>*\<^sup>* (rs0, w0) (rs, w)" "rs_tables rs0 = Map.empty" "rs_hash rs0 = chain_empty"
  shows "(\<forall>t p a. (\<exists>n. cesk_reloc_reverse_hash_find t p rs = Some n \<and> rn_addr n = a) \<longleftrightarrow> cesk_reloc_addr_info t a rs = Some p) \<and>
    (\<forall>t rs1. cesk_reloc_table_new rs = (t, rs1) \<longrightarrow> rs_tables rs t = None \<and> rs_tables rs1 = (rs_tables rs)(t \<mapsto> []) \<and>
       (\<forall>t' a. cesk_reloc_addr_info t' a rs1 = cesk_reloc_addr_info t' a rs)) \<and>
    (\<forall>t. rs_tables rs t \<noteq> None \<longrightarrow> (\<exists>rs1. cesk_reloc_table_free (Some t) rs = Some rs1 \<and> rs_tables rs1 = (rs_tables rs)(t := None) \<and>
       (\<forall>t' p. cesk_reloc_reverse_hash_find t' p rs1 = (if t' = t then None else cesk_reloc_reverse_hash_find t' p rs)) \<and>
       (\<forall>t' a. cesk_reloc_addr_info t' a rs1 = (if t' = t then None else cesk_reloc_addr_info t' a rs))))"
proof -
  have start: "reloc_inv rs0" using assms(2,3)
    by (auto simp: reloc_inv_def reverse_ok_def chain_empty_def items_of_def cesk_reloc_reverse_hash_find_def)
  have inv: "reloc_inv rs" using assms(1) start by (induction rule: rtranclp_induct2) (auto dest: reloc_step_inv)
  show ?thesis
  proof (intro conjI allI impI)
    fix t p a
    show "(\<exists>n. cesk_reloc_reverse_hash_find t p rs = Some n \<and> rn_addr n = a) \<longleftrightarrow> cesk_reloc_addr_info t a rs = Some p"
      by (rule find_info [OF inv])
  next
    fix t rs1 t' a
    assume new: "cesk_reloc_table_new rs = (t, rs1)"
    show "rs_tables rs t = None" "rs_tables rs1 = (rs_tables rs)(t \<mapsto> [])" by (rule table_new_inv [OF inv new])+
    then show "cesk_reloc_addr_info t' a rs1 = cesk_reloc_addr_info t' a rs" by (simp add: cesk_reloc_addr_info_def)
  next
    fix t
    assume "rs_tables rs t \<noteq> None"
    then obtain rs1 where f: "cesk_reloc_table_free (Some t) rs = Some rs1" by (auto simp: cesk_reloc_table_free_def Let_def)
    have "cesk_reloc_addr_info t' a rs1 = (if t' = t then None else cesk_reloc_addr_info t' a rs)" for t' a
      using table_free_inv(2) [OF inv f] by (simp add: cesk_reloc_addr_info_def)
    then show "\<exists>rs1. cesk_reloc_table_free (Some t) rs = Some rs1 \<and> rs_tables rs1 = (rs_tables rs)(t := None) \<and>
       (\<forall>t' p. cesk_reloc_reverse_hash_find t' p rs1 = (if t' = t then None else cesk_reloc_reverse_hash_find t' p rs)) \<and>
       (\<forall>t' a. cesk_reloc_addr_info t' a rs1 = (if t' = t then None else cesk_reloc_addr_info t' a rs))"
      using f table_free_inv(2,3) [OF inv f] by blast
  qed
qed

theorem cesk_reloc_table_lifecycle_witness:
  "\<exists>w n rs1. reloc_step\<^sup>*\<^sup>* (reloc_start\<lparr>rs_tables := Map.empty, rs_next := 0\<rparr>, reloc_world) (reloc_filled, w) \<and>
     cesk_reloc_reverse_hash_find 0 reloc_param reloc_filled = Some n \<and> rn_addr n = 0xff000000 \<and>
     cesk_reloc_table_free (Some 0) reloc_filled = Some rs1 \<and> cesk_reloc_reverse_hash_find 0 reloc_param rs1 = None"
proof -
  let ?rs0 = "reloc_start\<lparr>rs_tables := Map.empty, rs_next := 0\<rparr>"
  have new: "cesk_reloc_table_new ?rs0 = (0, reloc_start)" by (simp add: cesk_reloc_table_new_def reloc_start_def)
  obtain w where r: "cesk_reloc_allocate (Some 0) (Some reloc_store) reloc_param False reloc_start reloc_world =
      Some (0xff000000, Some reloc_store, reloc_filled, w)" by (rule reloc_demo)
  have steps: "reloc_step\<^sup>*\<^sup>* (?rs0, reloc_world) (reloc_filled, w)"
    using reloc_step.table_new [OF new, of reloc_world] reloc_step.allocate [OF r] by (auto intro: rtranclp.rtrancl_into_rtrancl)
  have start: "rs_tables ?rs0 = Map.empty" "rs_hash ?rs0 = chain_empty" by (simp_all add: reloc_start_def)
  note life = cesk_reloc_table_lifecycle [OF steps start]
  have t: "rs_tables reloc_filled 0 \<noteq> None"
    by (simp add: reloc_filled_def cesk_reloc_reverse_hash_insert_def Let_def)
  have "cesk_reloc_addr_info 0 0xff000000 reloc_filled = Some reloc_param"
    by (simp add: reloc_filled_def cesk_reloc_reverse_hash_insert_def Let_def cesk_reloc_addr_info_def CESK_STORE_ADDR_IS_RELOC_def
        CESK_STORE_ADDR_IS_CONST_def CESK_STORE_ADDR_RELOC_IDX_def addr_const_defs)
  then obtain n where n: "cesk_reloc_reverse_hash_find 0 reloc_param reloc_filled = Some n" "rn_addr n = 0xff000000" using conjunct1 [OF life] by blast
  obtain rs1 where "cesk_reloc_table_free (Some 0) reloc_filled = Some rs1" "cesk_reloc_reverse_hash_find 0 reloc_param rs1 = None"
    using mp [OF spec [OF conjunct2 [OF conjunct2 [OF life]]] t] by auto
  then show ?thesis using steps n by blast
qed

end
