(* ===== verification/Cesk_Static.thy ===== *)
theory Cesk_Static
  imports Cesk_Store_Cow Dalvik_Class
begin

text \<open>
  The tables of static fields (\<^verbatim>\<open>src/cesk/cesk_static.c\<close>). A table is a segment tree over the numbers of the
  static fields; a leaf holds the set of values of its field, and a field that has not been touched has no
  leaf. Trees are shared: a fork of a table refers to the same root, nodes count the references to them, and
  a write first copies the nodes on its way that somebody else refers to.

  Nodes live at addresses of a memory and are never reused. The set of a leaf is its index in the memory of
  sets. The number of static fields is \<open>ss_count\<close>, the numbers are below \<open>2 ^ 31\<close>, and counters do not wrap.
  \<^const>\<open>None\<close> at the outer level is a null or dangling pointer that is followed, or a counter below zero. A loop that
  goes down the tree and writes the pointer in the parent is a recursion that writes it on the way back.
\<close>

subsection \<open>Data\<close>

datatype static_body = SLeaf "u32 option" | SInner "nat option" "nat option"

record static_node =
  sn_reloc :: bool
  sn_refcnt :: nat
  sn_body :: static_body

record static_state =
  ss_nodes :: "nat \<rightharpoonup> static_node"
  ss_next :: nat
  ss_sets :: set_state
  ss_default :: "u32 list option"
  ss_count :: nat

record static_table =
  tb_hashcode :: u32
  tb_root :: "nat option"

fun sn_isleaf :: "static_node \<Rightarrow> bool" where
  "sn_isleaf n = (case sn_body n of SLeaf v \<Rightarrow> True | SInner c0 c1 \<Rightarrow> False)"

definition upd_static :: "nat \<Rightarrow> (static_node \<Rightarrow> static_node) \<Rightarrow> static_state \<Rightarrow> static_state option" where
  "upd_static a f s = do { n \<leftarrow> ss_nodes s a; Some (s\<lparr>ss_nodes := (ss_nodes s)(a \<mapsto> f n)\<rparr>) }"

definition alloc_static :: "static_node \<Rightarrow> static_state \<Rightarrow> nat \<times> static_state" where
  "alloc_static n s = (ss_next s, s\<lparr>ss_nodes := (ss_nodes s)(ss_next s \<mapsto> n), ss_next := Suc (ss_next s)\<rparr>)"

definition set_op :: "(set_state \<Rightarrow> ('a \<times> set_state) option) \<Rightarrow> static_state \<Rightarrow> ('a \<times> static_state) option" where
  "set_op f s = do { (x, t) \<leftarrow> f (ss_sets s); Some (x, s\<lparr>ss_sets := t\<rparr>) }"

subsection \<open>Reference counters and copies\<close>

definition cesk_static_tree_node_incref :: "nat option \<Rightarrow> static_state \<Rightarrow> static_state option" where
  "cesk_static_tree_node_incref node s =
     (case node of None \<Rightarrow> Some s | Some a \<Rightarrow> upd_static a (\<lambda>n. n\<lparr>sn_refcnt := Suc (sn_refcnt n)\<rparr>) s)"

text \<open>The recursion goes down one level per call; the fuel is the number of levels.\<close>

fun cesk_static_tree_node_decref :: "nat \<Rightarrow> nat option \<Rightarrow> static_state \<Rightarrow> static_state option" where
  "cesk_static_tree_node_decref fuel None s = Some s"
| "cesk_static_tree_node_decref 0 (Some a) s = None"
| "cesk_static_tree_node_decref (Suc fuel) (Some a) s = do {
     n \<leftarrow> ss_nodes s a;
     if sn_refcnt n = 0 then None
     else if sn_refcnt n > 1 then upd_static a (\<lambda>n. n\<lparr>sn_refcnt := sn_refcnt n - 1\<rparr>) s
     else do {
       s \<leftarrow> (case sn_body n of
              SLeaf v \<Rightarrow> map_option (\<lambda>t. s\<lparr>ss_sets := t\<rparr>) (cesk_set_free v (ss_sets s))
            | SInner c0 c1 \<Rightarrow> do {
                s \<leftarrow> cesk_static_tree_node_decref fuel c0 s;
                cesk_static_tree_node_decref fuel c1 s });
       Some (s\<lparr>ss_nodes := (ss_nodes s)(a := None)\<rparr>) } }"

text \<open>The body of a node that is created here is written at once; the code writes it after the call.\<close>

definition cesk_static_tree_node_new :: "static_body \<Rightarrow> static_node" where
  "cesk_static_tree_node_new body = \<lparr>sn_reloc = False, sn_refcnt = 0, sn_body = body\<rparr>"

definition cesk_static_tree_node_duplicate :: "nat \<Rightarrow> static_state \<Rightarrow> (nat \<times> static_state) option" where
  "cesk_static_tree_node_duplicate a s = do {
     n \<leftarrow> ss_nodes s a;
     (case sn_body n of
        SLeaf v \<Rightarrow> do {
          (v, s) \<leftarrow> set_op (cesk_set_fork v) s;
          Some (alloc_static (cesk_static_tree_node_new (SLeaf v)) s) }
      | SInner c0 c1 \<Rightarrow> do {
          s \<leftarrow> cesk_static_tree_node_incref c0 s;
          s \<leftarrow> cesk_static_tree_node_incref c1 s;
          Some (alloc_static (cesk_static_tree_node_new (SInner c0 c1)) s) }) }"

subsection \<open>Lookup\<close>

function cesk_static_tree_node_find :: "(nat \<rightharpoonup> static_node) \<Rightarrow> nat option \<Rightarrow> nat \<Rightarrow> nat \<Rightarrow> nat \<Rightarrow> nat option option" where
  "cesk_static_tree_node_find mem rt l r idx =
     (if r - l \<le> 1 then Some rt
      else case rt of
             None \<Rightarrow> Some None
           | Some a \<Rightarrow>
               (case mem a of
                  None \<Rightarrow> None
                | Some n \<Rightarrow>
                    (case sn_body n of
                       SLeaf v \<Rightarrow> None
                     | SInner c0 c1 \<Rightarrow>
                         let m = (l + r) div 2
                         in if idx < m then cesk_static_tree_node_find mem c0 l m idx
                            else cesk_static_tree_node_find mem c1 m r idx)))"
  by pat_completeness auto
termination by (relation "measure (\<lambda>(mem, rt, l, r, idx). r - l)") auto

declare cesk_static_tree_node_find.simps [simp del]

subsection \<open>Preparing a write\<close>

text \<open>The counter of the node that is copied is above one, so its reference is dropped without releasing it.\<close>

definition cesk_static_tree_node_prepare_to_write :: "nat \<Rightarrow> static_state \<Rightarrow> (nat \<times> static_state) option" where
  "cesk_static_tree_node_prepare_to_write a s = do {
     n \<leftarrow> ss_nodes s a;
     if sn_refcnt n = 1 then Some (a, s)
     else do {
       (dup, s) \<leftarrow> cesk_static_tree_node_duplicate a s;
       s \<leftarrow> cesk_static_tree_node_decref 1 (Some a) s;
       s \<leftarrow> cesk_static_tree_node_incref (Some dup) s;
       Some (dup, s) } }"

definition set_child :: "nat \<Rightarrow> bool \<Rightarrow> nat option \<Rightarrow> static_state \<Rightarrow> static_state option" where
  "set_child a right c s = do {
     n \<leftarrow> ss_nodes s a;
     (case sn_body n of
        SLeaf v \<Rightarrow> None
      | SInner c0 c1 \<Rightarrow> upd_static a (\<lambda>n. n\<lparr>sn_body := (if right then SInner c0 c else SInner c c1)\<rparr>) s) }"

definition child_of :: "bool \<Rightarrow> nat \<Rightarrow> static_state \<Rightarrow> nat option option" where
  "child_of right a s = do {
     n \<leftarrow> ss_nodes s a;
     (case sn_body n of SLeaf v \<Rightarrow> None | SInner c0 c1 \<Rightarrow> Some (if right then c1 else c0)) }"

text \<open>The new root and the target.\<close>

function cesk_static_tree_prepare_to_write ::
  "nat option \<Rightarrow> nat \<Rightarrow> nat \<Rightarrow> nat \<Rightarrow> static_state \<Rightarrow> (nat option \<times> nat option \<times> static_state) option" where
  "cesk_static_tree_prepare_to_write rt l r idx s =
     (case rt of
        None \<Rightarrow> Some (None, None, s)
      | Some a \<Rightarrow> do {
          (b, s) \<leftarrow> cesk_static_tree_node_prepare_to_write a s;
          if r - l \<le> 1 then Some (Some b, Some b, s)
          else do {
            let m = (l + r) div 2;
            let right = (m \<le> idx);
            child \<leftarrow> child_of right b s;
            (c, target, s) \<leftarrow> (if right then cesk_static_tree_prepare_to_write child m r idx s
                               else cesk_static_tree_prepare_to_write child l m idx s);
            s \<leftarrow> set_child b right c s;
            Some (Some b, target, s) } })"
  by pat_completeness auto
termination by (relation "measure (\<lambda>(rt, l, r, idx, s). r - l)") auto

declare cesk_static_tree_prepare_to_write.simps [simp del]

subsection \<open>Insertion\<close>

text \<open>The nodes from a segment without a node down to the leaf; no target means that the set of the leaf could not be made.\<close>

definition new_leaf :: "u32 \<Rightarrow> static_state \<Rightarrow> (nat option \<times> static_state) option" where
  "new_leaf initval s =
     (if initval = CESK_STORE_ADDR_NULL
      then Some (case alloc_static ((cesk_static_tree_node_new (SLeaf None))\<lparr>sn_refcnt := 1\<rparr>) s of (a, s) \<Rightarrow> (Some a, s))
      else do {
        (e, s) \<leftarrow> set_op cesk_set_empty_set s;
        (rc, v, t) \<leftarrow> cesk_set_push (Some e) initval (ss_sets s);
        let s = s\<lparr>ss_sets := t\<rparr>;
        if rc < 0 then Some (None, s)
        else Some (case alloc_static ((cesk_static_tree_node_new (SLeaf v))\<lparr>sn_refcnt := 1\<rparr>) s of (a, s) \<Rightarrow> (Some a, s)) })"

function new_path :: "nat \<Rightarrow> nat \<Rightarrow> nat \<Rightarrow> u32 \<Rightarrow> static_state \<Rightarrow> (nat option \<times> nat option \<times> static_state) option" where
  "new_path l r idx initval s =
     (if r - l \<le> 1 then do { (a, s) \<leftarrow> new_leaf initval s; Some (a, a, s) }
      else do {
        let m = (l + r) div 2;
        let right = (m \<le> idx);
        let (a, s) = alloc_static ((cesk_static_tree_node_new (SInner None None))\<lparr>sn_refcnt := 1\<rparr>) s;
        (c, target, s) \<leftarrow> (if right then new_path m r idx initval s else new_path l m idx initval s);
        s \<leftarrow> set_child a right c s;
        Some (Some a, target, s) })"
  by pat_completeness auto
termination by (relation "measure (\<lambda>(l, r, idx, initval, s). r - l)") auto

declare new_path.simps [simp del]

text \<open>
  The outcome of an insertion: the root of the tree and the new leaf; the error value; or, for an index
  that is in the tree already, the leaf, which the code returns in place of the root.
\<close>

datatype insert_result = Inserted "nat option" nat | InsertError | Duplicate nat

text \<open>The node that is written to the parent, with the outcome; the leaf that is there already is the outcome on every level.\<close>

function insert_loop :: "nat option \<Rightarrow> nat \<Rightarrow> nat \<Rightarrow> nat \<Rightarrow> u32 \<Rightarrow> static_state \<Rightarrow> (insert_result \<times> nat option \<times> static_state) option" where
  "insert_loop node l r idx initval s =
     (case node of
        None \<Rightarrow> do {
          (a, target, s) \<leftarrow> new_path l r idx initval s;
          Some (case target of Some t \<Rightarrow> Inserted a t | None \<Rightarrow> InsertError, a, s) }
      | Some a \<Rightarrow>
          if r - l \<le> 1 then Some (Duplicate a, Some a, s)
          else do {
            let m = (l + r) div 2;
            let right = (m \<le> idx);
            child \<leftarrow> child_of right a s;
            (res, c, s) \<leftarrow> (if right then insert_loop child m r idx initval s else insert_loop child l m idx initval s);
            s \<leftarrow> set_child a right c s;
            Some (case res of Inserted _ t \<Rightarrow> Inserted (Some a) t | _ \<Rightarrow> res, Some a, s) })"
  by pat_completeness auto
termination by (relation "measure (\<lambda>(node, l, r, idx, initval, s). r - l)") auto

declare insert_loop.simps [simp del]

definition cesk_static_tree_insert :: "nat option \<Rightarrow> nat \<Rightarrow> u32 \<Rightarrow> static_state \<Rightarrow> (insert_result \<times> static_state) option" where
  "cesk_static_tree_insert tree idx initval s = do {
     (tree, _, s) \<leftarrow> cesk_static_tree_prepare_to_write tree 0 (ss_count s) idx s;
     (res, _, s) \<leftarrow> insert_loop tree 0 (ss_count s) idx initval s;
     Some (res, s) }"

subsection \<open>Fields and hash codes\<close>

text \<open>The new leaf, the table and the state. A leaf that was there already becomes the root of the table, and no leaf is returned.\<close>

definition cesk_static_table_init_field ::
  "static_table \<Rightarrow> nat \<Rightarrow> bool \<Rightarrow> static_state \<Rightarrow> (nat option \<times> static_table \<times> static_state) option" where
  "cesk_static_table_init_field tb idx init s = do {
     defaults \<leftarrow> ss_default s;
     if idx \<ge> length defaults then None
     else let init_val = defaults ! idx
          in if init_val = CESK_STORE_ADDR_NULL then Some (None, tb, s)
             else do {
               (res, s) \<leftarrow> cesk_static_tree_insert (tb_root tb) idx (if init then init_val else CESK_STORE_ADDR_NULL) s;
               Some (case res of
                       Inserted rt t \<Rightarrow> (Some t, tb\<lparr>tb_root := rt\<rparr>, s)
                     | Duplicate a \<Rightarrow> (None, tb\<lparr>tb_root := Some a\<rparr>, s)
                     | InsertError \<Rightarrow> (None, tb, s)) } }"

definition is_default :: "nat \<Rightarrow> u32 option \<Rightarrow> static_state \<Rightarrow> bool option" where
  "is_default idx v s = do {
     n \<leftarrow> cesk_set_size v (ss_sets s);
     if n \<noteq> 1 then Some False
     else do {
       defaults \<leftarrow> ss_default s;
       if idx \<ge> length defaults then None else Some (cesk_set_contain v (defaults ! idx) (ss_sets s)) } }"

definition cesk_static_field_hashcode :: "nat \<Rightarrow> u32 option \<Rightarrow> static_state \<Rightarrow> u32 option" where
  "cesk_static_field_hashcode idx v s = do {
     d \<leftarrow> is_default idx v s;
     if d then Some 0
     else do {
       v \<leftarrow> v;
       h \<leftarrow> cesk_set_hashcode v (ss_sets s);
       Some ((of_nat idx * of_nat idx * MH_MULTIPLY) XOR h) } }"

definition cesk_static_table_update_hashcode :: "static_table \<Rightarrow> nat \<Rightarrow> u32 option \<Rightarrow> static_state \<Rightarrow> static_table option" where
  "cesk_static_table_update_hashcode tb idx v s = do {
     h \<leftarrow> cesk_static_field_hashcode idx v s;
     Some (tb\<lparr>tb_hashcode := tb_hashcode tb XOR h\<rparr>) }"

subsection \<open>Searching the tree\<close>

text \<open>
  The nodes from the root towards the start, as far as they exist, each with its segment and whether the
  way goes on to the right; and the segment and node where the way ends.
\<close>

type_synonym step_down = "nat \<times> nat \<times> nat \<times> bool"

function way_down :: "(nat \<rightharpoonup> static_node) \<Rightarrow> nat option \<Rightarrow> nat \<Rightarrow> nat \<Rightarrow> nat \<Rightarrow> (step_down list \<times> nat \<times> nat option) option" where
  "way_down mem rt l r start =
     (if r - l \<le> 1 then Some ([], l, rt)
      else case rt of
             None \<Rightarrow> Some ([], l, None)
           | Some a \<Rightarrow>
               (case mem a of
                  None \<Rightarrow> None
                | Some n \<Rightarrow>
                    (case sn_body n of
                       SLeaf v \<Rightarrow> None
                     | SInner c0 c1 \<Rightarrow>
                         let m = (l + r) div 2
                         in if start < m then map_option (\<lambda>(p, e). ((l, r, a, False) # p, e)) (way_down mem c0 l m start)
                            else map_option (\<lambda>(p, e). ((l, r, a, True) # p, e)) (way_down mem c1 m r start))))"
  by pat_completeness auto
termination by (relation "measure (\<lambda>(mem, rt, l, r, start). r - l)") auto

declare way_down.simps [simp del]

function leftmost :: "(nat \<rightharpoonup> static_node) \<Rightarrow> nat \<Rightarrow> nat \<Rightarrow> nat \<Rightarrow> (nat \<times> nat) option" where
  "leftmost mem a left right' =
     (case mem a of
        None \<Rightarrow> None
      | Some n \<Rightarrow>
          (case sn_body n of
             SLeaf v \<Rightarrow> Some (left, a)
           | SInner c0 c1 \<Rightarrow>
               if right' - left \<le> 1 then None
               else let mid = (left + right') div 2
                    in (case c0 of
                          Some c \<Rightarrow> leftmost mem c left mid
                        | None \<Rightarrow> (case c1 of Some c \<Rightarrow> leftmost mem c mid right' | None \<Rightarrow> None))))"
  by pat_completeness auto
termination by (relation "measure (\<lambda>(mem, a, left, right'). right' - left)") auto

declare leftmost.simps [simp del]

text \<open>The way back up: the first node with a right child that was not on the way.\<close>

fun way_up :: "(nat \<rightharpoonup> static_node) \<Rightarrow> step_down list \<Rightarrow> (nat \<times> nat) option option" where
  "way_up mem [] = Some None"
| "way_up mem ((l, r, a, right') # up) =
     (case mem a of
        None \<Rightarrow> None
      | Some n \<Rightarrow>
          (case sn_body n of
             SLeaf v \<Rightarrow> None
           | SInner c0 c1 \<Rightarrow>
               if right' then way_up mem up
               else (case c1 of
                       None \<Rightarrow> way_up mem up
                     | Some c \<Rightarrow> if c1 = c0 then way_up mem up else map_option Some (leftmost mem c ((l + r) div 2) r))))"

definition leaf_at :: "(nat \<rightharpoonup> static_node) \<Rightarrow> nat option \<Rightarrow> bool option" where
  "leaf_at mem a = (case a of None \<Rightarrow> Some False | Some a \<Rightarrow> map_option sn_isleaf (mem a))"

text \<open>The number of the next field with its leaf; the inner \<^const>\<open>None\<close> is the error value of the code.\<close>

definition cesk_static_tree_next :: "nat option \<Rightarrow> nat \<Rightarrow> static_state \<Rightarrow> (nat \<times> nat) option option" where
  "cesk_static_tree_next rt start s = do {
     (path, l, e) \<leftarrow> way_down (ss_nodes s) rt 0 (ss_count s) start;
     leaf \<leftarrow> leaf_at (ss_nodes s) e;
     if leaf \<and> l = start then Some (Some (l, the e))
     else way_up (ss_nodes s) (rev path) }"

definition reloc_of :: "(nat \<rightharpoonup> static_node) \<Rightarrow> nat option \<Rightarrow> bool option" where
  "reloc_of mem c = (case c of None \<Rightarrow> Some False | Some a \<Rightarrow> map_option sn_reloc (mem a))"

function first_reloc_loop :: "(nat \<rightharpoonup> static_node) \<Rightarrow> nat \<Rightarrow> nat \<Rightarrow> nat \<Rightarrow> (nat \<times> nat) option" where
  "first_reloc_loop mem a left right' =
     (case mem a of
        None \<Rightarrow> None
      | Some n \<Rightarrow>
          (case sn_body n of
             SLeaf v \<Rightarrow> Some (left, a)
           | SInner c0 c1 \<Rightarrow>
               if right' - left \<le> 1 then None
               else let mid = (left + right') div 2
                    in (case reloc_of mem c0 of
                          None \<Rightarrow> None
                        | Some f \<Rightarrow>
                            if f then first_reloc_loop mem (the c0) left mid
                            else (case c1 of Some c \<Rightarrow> first_reloc_loop mem c mid right' | None \<Rightarrow> None))))"
  by pat_completeness auto
termination by (relation "measure (\<lambda>(mem, a, left, right'). right' - left)") auto

declare first_reloc_loop.simps [simp del]

definition cesk_static_tree_first_reloc :: "nat option \<Rightarrow> static_state \<Rightarrow> (nat \<times> nat) option option" where
  "cesk_static_tree_first_reloc rt s =
     (case rt of
        None \<Rightarrow> Some None
      | Some a \<Rightarrow> do {
          f \<leftarrow> reloc_of (ss_nodes s) rt;
          if \<not> f then Some None else map_option Some (first_reloc_loop (ss_nodes s) a 0 (ss_count s)) })"

subsection \<open>Tables\<close>

definition INIT_HASHCODE :: u32 where "INIT_HASHCODE = 0x3c457fab"

definition CESK_FRAME_REG_STATIC_PREFIX :: u32 where "CESK_FRAME_REG_STATIC_PREFIX = 0x80000000"

definition CESK_FRAME_REG_IS_STATIC :: "u32 \<Rightarrow> bool" where
  "CESK_FRAME_REG_IS_STATIC addr \<longleftrightarrow> addr AND CESK_FRAME_REG_STATIC_PREFIX \<noteq> 0"

definition CESK_FRAME_REG_STATIC_IDX :: "u32 \<Rightarrow> nat" where
  "CESK_FRAME_REG_STATIC_IDX addr = unat (addr AND NOT CESK_FRAME_REG_STATIC_PREFIX)"

definition cesk_static_table_fork :: "static_table option \<Rightarrow> static_state \<Rightarrow> (static_table \<times> static_state) option" where
  "cesk_static_table_fork tb s =
     (case tb of
        None \<Rightarrow> Some (\<lparr>tb_hashcode = INIT_HASHCODE, tb_root = None\<rparr>, s)
      | Some tb \<Rightarrow> do { s \<leftarrow> cesk_static_tree_node_incref (tb_root tb) s; Some (tb, s) })"

text \<open>A tree over less than \<open>2 ^ 31\<close> numbers has at most 32 levels.\<close>

definition cesk_static_table_free :: "static_table option \<Rightarrow> static_state \<Rightarrow> static_state option" where
  "cesk_static_table_free tb s =
     (case tb of None \<Rightarrow> Some s | Some tb \<Rightarrow> cesk_static_tree_node_decref 32 (tb_root tb) s)"

definition leaf_value :: "nat \<Rightarrow> static_state \<Rightarrow> u32 option option" where
  "leaf_value a s = do { n \<leftarrow> ss_nodes s a; (case sn_body n of SLeaf v \<Rightarrow> Some v | SInner c0 c1 \<Rightarrow> None) }"

definition cesk_static_table_get_ro ::
  "static_table option \<Rightarrow> u32 \<Rightarrow> bool \<Rightarrow> static_state \<Rightarrow> (u32 option \<times> static_table option \<times> static_state) option" where
  "cesk_static_table_get_ro tab addr init s =
     (case tab of
        None \<Rightarrow> Some (None, tab, s)
      | Some tb \<Rightarrow>
          if \<not> CESK_FRAME_REG_IS_STATIC addr then Some (None, tab, s)
          else let idx = CESK_FRAME_REG_STATIC_IDX addr
          in if idx \<ge> ss_count s then Some (None, tab, s)
             else do {
               node \<leftarrow> cesk_static_tree_node_find (ss_nodes s) (tb_root tb) 0 (ss_count s) idx;
               (case node of
                  Some a \<Rightarrow> do { v \<leftarrow> leaf_value a s; Some (v, tab, s) }
                | None \<Rightarrow>
                    if \<not> init then Some (None, tab, s)
                    else do {
                      (node, tb, s) \<leftarrow> cesk_static_table_init_field tb idx True s;
                      (case node of
                         None \<Rightarrow> Some (None, Some tb, s)
                       | Some a \<Rightarrow> do { v \<leftarrow> leaf_value a s; Some (v, Some tb, s) }) }) })"

text \<open>The slot that the caller may write is given by the address of its leaf.\<close>

definition cesk_static_table_get_rw ::
  "static_table option \<Rightarrow> u32 \<Rightarrow> bool \<Rightarrow> static_state \<Rightarrow> (nat option \<times> static_table option \<times> static_state) option" where
  "cesk_static_table_get_rw tab addr init s =
     (case tab of
        None \<Rightarrow> Some (None, tab, s)
      | Some tb \<Rightarrow>
          if \<not> CESK_FRAME_REG_IS_STATIC addr then Some (None, tab, s)
          else let idx = CESK_FRAME_REG_STATIC_IDX addr
          in if idx \<ge> ss_count s then Some (None, tab, s)
             else do {
               (rt, target, s) \<leftarrow> cesk_static_tree_prepare_to_write (tb_root tb) 0 (ss_count s) idx s;
               let tb = tb\<lparr>tb_root := rt\<rparr>;
               (case target of
                  None \<Rightarrow> do {
                    (target, tb, s) \<leftarrow> cesk_static_table_init_field tb idx init s;
                    Some (target, Some tb, s) }
                | Some a \<Rightarrow> do {
                    v \<leftarrow> leaf_value a s;
                    tb \<leftarrow> cesk_static_table_update_hashcode tb idx v s;
                    Some (Some a, Some tb, s) }) })"

text \<open>The caller writes the slot.\<close>

definition write_leaf :: "nat \<Rightarrow> u32 option \<Rightarrow> static_state \<Rightarrow> static_state option" where
  "write_leaf a v s = upd_static a (\<lambda>n. n\<lparr>sn_body := SLeaf v\<rparr>) s"

definition cesk_static_table_release_rw ::
  "static_table option \<Rightarrow> u32 \<Rightarrow> u32 option \<Rightarrow> static_state \<Rightarrow> (int \<times> static_table option) option" where
  "cesk_static_table_release_rw tab addr v s =
     (case (tab, v) of
        (Some tb, Some _) \<Rightarrow>
          if \<not> CESK_FRAME_REG_IS_STATIC addr then Some (-1, tab)
          else do {
            tb \<leftarrow> cesk_static_table_update_hashcode tb (CESK_FRAME_REG_STATIC_IDX addr) v s;
            Some (0, Some tb) }
      | _ \<Rightarrow> Some (-1, tab))"

text \<open>The flags on the way are computed from the bottom up; a shared node on the way is an error.\<close>

function flag_loop :: "nat option \<Rightarrow> nat \<Rightarrow> nat \<Rightarrow> nat \<Rightarrow> bool \<Rightarrow> static_state \<Rightarrow> (int \<times> static_state) option" where
  "flag_loop rt l r idx val s =
     (case rt of
        None \<Rightarrow> Some (-1, s)
      | Some a \<Rightarrow>
          if r - l \<le> 1 then do { s \<leftarrow> upd_static a (\<lambda>n. n\<lparr>sn_reloc := val\<rparr>) s; Some (0, s) }
          else do {
            n \<leftarrow> ss_nodes s a;
            if sn_refcnt n > 1 then Some (-1, s)
            else do {
              let m = (l + r) div 2;
              child \<leftarrow> child_of (m \<le> idx) a s;
              (rc, s) \<leftarrow> (if m \<le> idx then flag_loop child m r idx val s else flag_loop child l m idx val s);
              if rc < 0 then Some (rc, s)
              else do {
                c0 \<leftarrow> child_of False a s;
                c1 \<leftarrow> child_of True a s;
                f0 \<leftarrow> reloc_of (ss_nodes s) c0;
                f1 \<leftarrow> reloc_of (ss_nodes s) c1;
                s \<leftarrow> upd_static a (\<lambda>n. n\<lparr>sn_reloc := f0 \<or> f1\<rparr>) s;
                Some (0, s) } } })"
  by pat_completeness auto
termination by (relation "measure (\<lambda>(rt, l, r, idx, val, s). r - l)") auto

declare flag_loop.simps [simp del]

definition cesk_static_table_update_relocated_flag ::
  "static_table option \<Rightarrow> u32 \<Rightarrow> bool \<Rightarrow> bool \<Rightarrow> static_state \<Rightarrow> (int \<times> static_table option \<times> static_state) option" where
  "cesk_static_table_update_relocated_flag tab addr val assume_writable s =
     (case tab of
        None \<Rightarrow> Some (-1, tab, s)
      | Some tb \<Rightarrow>
          if \<not> CESK_FRAME_REG_IS_STATIC addr then Some (-1, tab, s)
          else let idx = CESK_FRAME_REG_STATIC_IDX addr
          in if idx \<ge> ss_count s then Some (-1, tab, s)
             else do {
               (rt, target, s) \<leftarrow> (if assume_writable then Some (tb_root tb, tb_root tb, s)
                                   else cesk_static_tree_prepare_to_write (tb_root tb) 0 (ss_count s) idx s);
               let tab = Some (tb\<lparr>tb_root := rt\<rparr>);
               if \<not> assume_writable \<and> target = None then Some (0, tab, s)
               else do {
                 (rc, s) \<leftarrow> flag_loop rt 0 (ss_count s) idx val s;
                 Some (rc, tab, s) } })"

definition cesk_static_table_first_reloc :: "static_table option \<Rightarrow> static_state \<Rightarrow> u32 option" where
  "cesk_static_table_first_reloc tab s =
     (case tab of
        None \<Rightarrow> Some CESK_STORE_ADDR_NULL
      | Some tb \<Rightarrow> do {
          r \<leftarrow> cesk_static_tree_first_reloc (tb_root tb) s;
          Some (CESK_FRAME_REG_STATIC_PREFIX OR (case r of None \<Rightarrow> CESK_STORE_ADDR_NULL | Some (i, _) \<Rightarrow> of_nat i)) })"

subsection \<open>Iteration and comparison\<close>

definition cesk_static_table_iter_next :: "static_table \<Rightarrow> nat \<Rightarrow> static_state \<Rightarrow> (nat \<times> u32) option option" where
  "cesk_static_table_iter_next tb begin' s = do {
     r \<leftarrow> cesk_static_tree_next (tb_root tb) begin' s;
     (case r of
        None \<Rightarrow> Some None
      | Some (i, a) \<Rightarrow> do { v \<leftarrow> leaf_value a s; Some (map_option (Pair i) v) }) }"

text \<open>
  What an iterator returns until it returns null; the iterators only read. The fuel is the number of
  fields.
\<close>

fun iter_all :: "nat \<Rightarrow> static_table \<Rightarrow> nat \<Rightarrow> static_state \<Rightarrow> (nat \<times> u32) list option" where
  "iter_all 0 tb begin' s = None"
| "iter_all (Suc fuel) tb begin' s = do {
     r \<leftarrow> cesk_static_table_iter_next tb begin' s;
     (case r of
        None \<Rightarrow> Some []
      | Some (i, v) \<Rightarrow> map_option (Cons (i, v)) (iter_all fuel tb (Suc i) s)) }"

definition table_fields :: "static_table \<Rightarrow> static_state \<Rightarrow> (nat \<times> u32) list option" where
  "table_fields tb s = iter_all (Suc (ss_count s)) tb 0 s"

text \<open>
  The comparison. The inner loop moves the right iterator over default values up to the field of the left
  iterator; the right iterator stays at the field that has been compared.
\<close>

datatype skip_result = Differ | Skipped "(nat \<times> u32) list"

fun skip_right :: "nat \<Rightarrow> u32 \<Rightarrow> (nat \<times> u32) list \<Rightarrow> static_state \<Rightarrow> skip_result option" where
  "skip_right laddr lset [] s = Some (Skipped [])"
| "skip_right laddr lset ((raddr, rset) # rs) s = do {
     d \<leftarrow> is_default raddr (Some rset) s;
     if d then skip_right laddr lset rs s
     else if laddr \<noteq> raddr then Some Differ
     else do {
       e \<leftarrow> cesk_set_equal (Some lset) (Some rset) (ss_sets s);
       if e = 0 then Some Differ else Some (Skipped ((raddr, rset) # rs)) } }"

fun compare_fields :: "(nat \<times> u32) list \<Rightarrow> (nat \<times> u32) list \<Rightarrow> static_state \<Rightarrow> skip_result option" where
  "compare_fields [] rs s = Some (Skipped rs)"
| "compare_fields ((laddr, lset) # ls) rs s = do {
     d \<leftarrow> is_default laddr (Some lset) s;
     if d then compare_fields ls rs s
     else do {
       r \<leftarrow> skip_right laddr lset rs s;
       (case r of Differ \<Rightarrow> Some Differ | Skipped rs \<Rightarrow> compare_fields ls rs s) } }"

fun strip_defaults :: "(nat \<times> u32) list \<Rightarrow> static_state \<Rightarrow> (nat \<times> u32) list option" where
  "strip_defaults [] s = Some []"
| "strip_defaults ((raddr, rset) # rs) s = do {
     d \<leftarrow> is_default raddr (Some rset) s;
     if d then strip_defaults rs s else Some ((raddr, rset) # rs) }"

definition cesk_static_table_equal :: "static_table option \<Rightarrow> static_table option \<Rightarrow> static_state \<Rightarrow> int option" where
  "cesk_static_table_equal left right' s =
     (case (left, right') of
        (Some ltab, Some rtab) \<Rightarrow>
          if tb_hashcode ltab \<noteq> tb_hashcode rtab then Some 0
          else do {
            ls \<leftarrow> table_fields ltab s;
            rs \<leftarrow> table_fields rtab s;
            r \<leftarrow> compare_fields ls rs s;
            (case r of
               Differ \<Rightarrow> Some 0
             | Skipped rs \<Rightarrow> do { rs \<leftarrow> strip_defaults rs s; Some (if rs = [] then 1 else 0) }) }
      | (None, None) \<Rightarrow> Some 1
      | _ \<Rightarrow> Some 0)"

function cesk_static_tree_compute_hash :: "nat option \<Rightarrow> nat \<Rightarrow> nat \<Rightarrow> static_state \<Rightarrow> u32 option" where
  "cesk_static_tree_compute_hash rt left right' s =
     (case rt of
        None \<Rightarrow> Some 0
      | Some a \<Rightarrow>
          (case ss_nodes s a of
             None \<Rightarrow> None
           | Some n \<Rightarrow>
               (case sn_body n of
                  SLeaf v \<Rightarrow> cesk_static_field_hashcode left v s
                | SInner c0 c1 \<Rightarrow>
                    if right' - left \<le> 1 then None
                    else let m = (left + right') div 2
                         in (case (cesk_static_tree_compute_hash c0 left m s, cesk_static_tree_compute_hash c1 m right' s) of
                               (Some x, Some y) \<Rightarrow> Some (x XOR y) | _ \<Rightarrow> None))))"
  by pat_completeness auto
termination by (relation "measure (\<lambda>(rt, left, right', s). right' - left)") auto

declare cesk_static_tree_compute_hash.simps [simp del]

definition cesk_static_table_compute_hashcode :: "static_table \<Rightarrow> static_state \<Rightarrow> u32 option" where
  "cesk_static_table_compute_hashcode tb s =
     map_option (\<lambda>h. h XOR INIT_HASHCODE) (cesk_static_tree_compute_hash (tb_root tb) 0 (ss_count s) s)"

subsection \<open>The numbers of the fields\<close>

text \<open>
  A literal of a floating point field is converted with \<^verbatim>\<open>(int)atof\<close>. The value of the decimal text is exact
  here; \<^const>\<open>None\<close> is a value that does not fit in an \<^verbatim>\<open>int\<close>, which the language leaves undefined, and the
  hexadecimal, infinite and not-a-number texts, which are left out.
\<close>

definition split_sign :: "cstr \<Rightarrow> int \<times> cstr" where
  "split_sign t = (case t of
     c # u \<Rightarrow> if c = CHR ''-'' then (-1, u) else if c = CHR ''+'' then (1, u) else (1, t)
   | [] \<Rightarrow> (1, t))"

definition int_of_atof :: "cstr \<Rightarrow> int option" where
  "int_of_atof text =
     (let isdec = (\<lambda>c. dec_digit c \<noteq> None);
          (sgn, t) = split_sign (dropWhile is_space text);
          whole = takeWhile isdec t;
          rest = dropWhile isdec t;
          frac = (case rest of c # u \<Rightarrow> if c = CHR ''.'' then takeWhile isdec u else [] | [] \<Rightarrow> []);
          rest = (case rest of c # u \<Rightarrow> if c = CHR ''.'' then dropWhile isdec u else rest | [] \<Rightarrow> []);
          expo = (case rest of
                    c # u \<Rightarrow> if c = CHR ''e'' \<or> c = CHR ''E''
                             then (case split_sign u of (g, w) \<Rightarrow> g * int (digits_value 10 dec_digit w 0)) else 0
                  | [] \<Rightarrow> 0);
          m = digits_value 10 dec_digit (whole @ frac) 0;
          k = expo - int (length frac);
          v = sgn * int (if k \<ge> 0 then m * 10 ^ nat k else m div 10 ^ nat (- k))
      in if whole @ frac = [] then (case rest of c # u \<Rightarrow> if c \<in> set ''iInN'' then None else Some 0 | [] \<Rightarrow> Some 0)
         else if (case rest of c # u \<Rightarrow> whole = ''0'' \<and> frac = [] \<and> c \<in> set ''xX'' | [] \<Rightarrow> False) then None
         else if - (2 ^ 31) \<le> v \<and> v < 2 ^ 31 then Some v else None)"

abbreviation DALVIK_TOKEN_TRUE :: "nat list \<Rightarrow> nat" where "DALVIK_TOKEN_TRUE kw \<equiv> DALVIK_TOKEN_TABLE_ENTITY kw 114"

text \<open>The address of the initial value; a type without a case leaves the error value.\<close>

definition field_initial_value :: "nat list \<Rightarrow> pool \<Rightarrow> dalvik_type \<Rightarrow> nat \<Rightarrow> u32 option" where
  "field_initial_value kw p ty init_str =
     (case ty of
        TArray _ \<Rightarrow> Some (num_addr 0)
      | TObject _ \<Rightarrow> Some CESK_STORE_ADDR_ZERO
      | TAtom tc \<Rightarrow>
          if tc \<in> {DALVIK_TYPECODE_INT, DALVIK_TYPECODE_LONG, DALVIK_TYPECODE_BYTE, DALVIK_TYPECODE_SHORT}
          then map_option (\<lambda>w. num_addr (atoi w)) (pool_mem p init_str)
          else if tc = DALVIK_TYPECODE_BOOLEAN
          then Some (num_addr (if init_str = DALVIK_TOKEN_TRUE kw then 1 else 0))
          else if tc \<in> {DALVIK_TYPECODE_FLOAT, DALVIK_TYPECODE_DOUBLE}
          then map_option num_addr (Option.bind (pool_mem p init_str) int_of_atof)
          else Some CESK_STORE_ADDR_NULL)"

definition cesk_static_init :: int where "cesk_static_init = 0"

text \<open>The array is released and the pointer to it is kept, so that no entry can be read any more.\<close>

definition cesk_static_finalize :: "static_state \<Rightarrow> static_state" where
  "cesk_static_finalize s = s\<lparr>ss_default := map_option (\<lambda>ds. []) (ss_default s)\<rparr>"

definition cesk_static_field_query ::
  "nat list \<Rightarrow> atom_table \<Rightarrow> 'm dalvik_member memberdict \<Rightarrow> pool \<Rightarrow> nat \<Rightarrow> nat \<Rightarrow> static_state \<Rightarrow> (u32 \<times> static_state) option" where
  "cesk_static_field_query kw atoms dict p class_path name s =
     (let defaults = (case ss_default s of None \<Rightarrow> replicate (ss_count s) CESK_STORE_ADDR_NULL | Some ds \<Rightarrow> ds);
          s = s\<lparr>ss_default := Some defaults\<rparr>
      in case get_field_def atoms dict class_path name of
           None \<Rightarrow> Some (CESK_STORE_ADDR_NULL, s)
         | Some f \<Rightarrow>
             if fld_attrs f AND DALVIK_ATTRS_STATIC = 0 then Some (CESK_STORE_ADDR_NULL, s)
             else let idx = (of_int (fld_offset f) :: u32); i = unat idx; addr = CESK_FRAME_REG_STATIC_PREFIX OR idx
             in if ss_count s \<le> i then Some (CESK_STORE_ADDR_NULL, s)
                else if length defaults \<le> i then None
                else if defaults ! i \<noteq> CESK_STORE_ADDR_NULL then Some (addr, s)
                else (case fld_default f of
                        None \<Rightarrow> Some (addr, s\<lparr>ss_default := Some (defaults[i := CESK_STORE_ADDR_ZERO])\<rparr>)
                      | Some init_str \<Rightarrow> do {
                          v \<leftarrow> field_initial_value kw p (fld_type f) init_str;
                          Some (addr, s\<lparr>ss_default := Some (defaults[i := v])\<rparr>) }))"

end
