(* ===== verification/Cesk_Static_Cow.thy ===== *)
theory Cesk_Static_Cow
  imports Cesk_Static
begin

text \<open>
  Copy on write of the tables of static fields: the counter of a node is the number of references to it, so
  that a write through one table is not seen by another, and the fields of a table are not changed by the
  copies that a write makes.
\<close>

subsection \<open>Counting references\<close>

type_synonym static_mem = "nat \<rightharpoonup> static_node"

fun slots :: "static_body \<Rightarrow> nat \<Rightarrow> nat" where
  "slots (SLeaf v) x = 0"
| "slots (SInner c0 c1) x = of_bool (c0 = Some x) + of_bool (c1 = Some x)"

definition inrefs :: "static_mem \<Rightarrow> nat \<Rightarrow> nat" where
  "inrefs m x = (\<Sum>b \<in> dom m. slots (sn_body (the (m b))) x)"

text \<open>\<open>E\<close> counts the references from outside of the memory, \<open>ref E c\<close> those with one more for \<open>c\<close>.\<close>

definition ref :: "(nat \<Rightarrow> nat) \<Rightarrow> nat option \<Rightarrow> nat \<Rightarrow> nat" where
  "ref E c x = E x + of_bool (c = Some x)"

definition refs :: "(nat \<Rightarrow> nat) \<Rightarrow> static_body \<Rightarrow> nat \<Rightarrow> nat" where
  "refs E body x = E x + slots body x"

definition counted :: "(nat \<Rightarrow> nat) \<Rightarrow> static_mem \<Rightarrow> bool" where
  "counted E m \<longleftrightarrow> finite (dom m) \<and> (\<forall>x n. m x = Some n \<longrightarrow> sn_refcnt n = E x + inrefs m x) \<and>
     (\<forall>x. x \<notin> dom m \<longrightarrow> E x + inrefs m x = 0)"

lemma ref_None [simp]: "ref E None = E"
  by (simp add: ref_def fun_eq_iff)

lemma ref_swap: "ref (ref E c) d = ref (ref E d) c"
  by (simp add: ref_def fun_eq_iff)

lemma refs_inner: "refs E (SInner c0 c1) = ref (ref E c0) c1"
  by (simp add: refs_def ref_def fun_eq_iff)

lemma refs_leaf [simp]: "refs E (SLeaf v) = E"
  by (simp add: refs_def fun_eq_iff)

lemma countedD:
  assumes "counted E m"
  shows "finite (dom m)" "m x = Some n \<Longrightarrow> sn_refcnt n = E x + inrefs m x" "x \<notin> dom m \<Longrightarrow> E x = 0 \<and> inrefs m x = 0"
    "0 < E x \<Longrightarrow> \<exists>n. m x = Some n" "0 < inrefs m x \<Longrightarrow> \<exists>n. m x = Some n"
  using assms unfolding counted_def by (blast, blast, auto)

lemma inrefs_new: "finite (dom m) \<Longrightarrow> b \<notin> dom m \<Longrightarrow> inrefs (m(b \<mapsto> n)) x = slots (sn_body n) x + inrefs m x"
  unfolding inrefs_def by (simp add: dom_def [symmetric]) (rule sum.cong; auto)

lemma inrefs_body:
  assumes "m b = Some n" "sn_body n' = sn_body n"
  shows "inrefs (m(b \<mapsto> n')) x = inrefs m x"
proof -
  have "dom (m(b \<mapsto> n')) = dom m" using assms by auto
  then show ?thesis unfolding inrefs_def by (auto intro!: sum.cong simp: assms)
qed

lemma inrefs_remove:
  assumes "finite (dom m)" "m b = Some n"
  shows "inrefs m x = slots (sn_body n) x + inrefs (m(b := None)) x"
proof -
  have "m = (m(b := None))(b \<mapsto> n)" using assms(2) by auto
  then show ?thesis using inrefs_new [of "m(b := None)" b n x] assms(1) by simp
qed

lemma inrefs_pos: "finite (dom m) \<Longrightarrow> m b = Some n \<Longrightarrow> 0 < slots (sn_body n) x \<Longrightarrow> 0 < inrefs m x"
  using inrefs_remove [of m b n x] by simp

text \<open>What the operations on nodes do to the counting.\<close>

lemma counted_alloc:
  assumes "counted (refs E (sn_body n)) m" "b \<notin> dom m" "sn_refcnt n = 0"
  shows "counted E (m(b \<mapsto> n))"
proof -
  note c = countedD [OF assms(1)]
  have new: "inrefs (m(b \<mapsto> n)) x = slots (sn_body n) x + inrefs m x" for x by (rule inrefs_new [OF c(1) assms(2)])
  have "E b + inrefs (m(b \<mapsto> n)) b = 0" using c(3) [OF assms(2)] by (simp add: new refs_def)
  with assms(3) c show ?thesis unfolding counted_def new refs_def by (auto simp: domIff)
qed

lemma counted_incref:
  assumes "counted E m" "m a = Some n"
  shows "counted (ref E (Some a)) (m(a \<mapsto> n\<lparr>sn_refcnt := Suc (sn_refcnt n)\<rparr>))"
  using countedD [OF assms(1)] assms(2) unfolding counted_def ref_def
  by (auto simp: inrefs_body [of m a n] domIff)

lemma counted_decref:
  assumes "counted (ref E (Some a)) m" "m a = Some n"
  shows "counted E (m(a \<mapsto> n\<lparr>sn_refcnt := sn_refcnt n - 1\<rparr>))"
  using countedD [OF assms(1)] assms(2) unfolding counted_def ref_def
  by (auto simp: inrefs_body [of m a n] domIff)

text \<open>A node with one reference is taken out of the memory, and put back with other children.\<close>

lemma counted_open:
  assumes "counted (ref E (Some b)) m" "m b = Some n" "sn_refcnt n = 1"
  shows "counted (refs E (sn_body n)) (m(b := None))" "E b = 0" "inrefs m b = 0"
proof -
  note c = countedD [OF assms(1)]
  show zero: "E b = 0" "inrefs m b = 0" using c(2) [OF assms(2)] assms(3) by (simp_all add: ref_def)
  have rem: "inrefs m x = slots (sn_body n) x + inrefs (m(b := None)) x" for x by (rule inrefs_remove [OF c(1) assms(2)])
  then have "slots (sn_body n) b + inrefs (m(b := None)) b = 0" using zero(2) by metis
  then have b: "refs E (sn_body n) b + inrefs (m(b := None)) b = 0" using zero(1) by (simp add: refs_def)
  have other: "refs E (sn_body n) x + inrefs (m(b := None)) x = ref E (Some b) x + inrefs m x" if "x \<noteq> b" for x
    using rem [of x] that by (simp add: refs_def ref_def)
  show "counted (refs E (sn_body n)) (m(b := None))"
    unfolding counted_def
  proof (intro conjI allI impI)
    fix x k assume x: "(m(b := None)) x = Some k"
    then have "x \<noteq> b" "m x = Some k" by (auto split: if_splits)
    then show "sn_refcnt k = refs E (sn_body n) x + inrefs (m(b := None)) x" using other c(2) by simp
  next
    fix x assume "x \<notin> dom (m(b := None))"
    then show "refs E (sn_body n) x + inrefs (m(b := None)) x = 0" using b other c(3) by (cases "x = b") (auto simp: domIff)
  qed (use c(1) in simp)
qed

lemma counted_close:
  assumes "counted (refs E (sn_body n)) m" "b \<notin> dom m" "sn_refcnt n = 1"
  shows "counted (ref E (Some b)) (m(b \<mapsto> n))"
proof -
  have "counted E (m(b \<mapsto> n\<lparr>sn_refcnt := 0\<rparr>))" using assms by (intro counted_alloc) simp_all
  from counted_incref [OF this, of b "n\<lparr>sn_refcnt := 0\<rparr>"] have "counted (ref E (Some b)) (m(b \<mapsto> n\<lparr>sn_refcnt := 1\<rparr>))" by simp
  moreover have "n\<lparr>sn_refcnt := 1\<rparr> = n" using assms(3) by simp
  ultimately show ?thesis by simp
qed

subsection \<open>Trees in memory and the fields they hold\<close>

inductive segment_tree :: "static_mem \<Rightarrow> nat option \<Rightarrow> nat \<Rightarrow> nat \<Rightarrow> bool" for m where
  seg_None: "segment_tree m None l r"
| seg_leaf: "m a = Some n \<Longrightarrow> sn_body n = SLeaf v \<Longrightarrow> r - l \<le> 1 \<Longrightarrow> segment_tree m (Some a) l r"
| seg_inner: "m a = Some n \<Longrightarrow> sn_body n = SInner c0 c1 \<Longrightarrow> 1 < r - l \<Longrightarrow> segment_tree m c0 l ((l + r) div 2) \<Longrightarrow>
    segment_tree m c1 ((l + r) div 2) r \<Longrightarrow> segment_tree m (Some a) l r"

inductive_cases seg_Some: "segment_tree m (Some a) l r"

text \<open>The value of a field: what the lookup finds, and nothing for a field without a leaf.\<close>

definition field_at :: "static_mem \<Rightarrow> nat option \<Rightarrow> nat \<Rightarrow> nat \<Rightarrow> nat \<Rightarrow> u32 option option" where
  "field_at m rt l r i =
     (case cesk_static_tree_node_find m rt l r i of
        Some (Some a) \<Rightarrow>
          (case m a of Some n \<Rightarrow> (case sn_body n of SLeaf v \<Rightarrow> Some v | SInner c0 c1 \<Rightarrow> None) | None \<Rightarrow> None)
      | _ \<Rightarrow> None)"

lemma field_None [simp]: "field_at m None l r i = None"
  by (subst field_at_def, subst cesk_static_tree_node_find.simps) simp

lemma field_leaf: "m a = Some n \<Longrightarrow> sn_body n = SLeaf v \<Longrightarrow> r - l \<le> 1 \<Longrightarrow> field_at m (Some a) l r i = Some v"
  by (subst field_at_def, subst cesk_static_tree_node_find.simps) simp

lemma field_inner:
  "m a = Some n \<Longrightarrow> sn_body n = SInner c0 c1 \<Longrightarrow> 1 < r - l \<Longrightarrow>
   field_at m (Some a) l r i = (if i < (l + r) div 2 then field_at m c0 l ((l + r) div 2) i else field_at m c1 ((l + r) div 2) r i)"
  by (subst (1) field_at_def, subst cesk_static_tree_node_find.simps) (simp add: Let_def field_at_def)

text \<open>Nodes that are reached from the references \<open>E\<close>, and memories that keep what these nodes hold.\<close>

inductive reached :: "(nat \<Rightarrow> nat) \<Rightarrow> static_mem \<Rightarrow> nat \<Rightarrow> bool" for E m where
  reached_ext: "0 < E x \<Longrightarrow> reached E m x"
| reached_slot: "reached E m x \<Longrightarrow> m x = Some n \<Longrightarrow> 0 < slots (sn_body n) y \<Longrightarrow> reached E m y"

definition keeps :: "(nat \<Rightarrow> nat) \<Rightarrow> static_mem \<Rightarrow> static_mem \<Rightarrow> bool" where
  "keeps E m m' \<longleftrightarrow> (\<forall>x n. reached E m x \<longrightarrow> m x = Some n \<longrightarrow> (\<exists>n'. m' x = Some n' \<and> sn_body n' = sn_body n))"

lemma keepsD: "keeps E m m' \<Longrightarrow> reached E m x \<Longrightarrow> m x = Some n \<Longrightarrow> \<exists>n'. m' x = Some n' \<and> sn_body n' = sn_body n"
  by (auto simp: keeps_def)

lemma keeps_refl: "keeps E m m"
  by (simp add: keeps_def)

lemma reached_keeps: "reached E m x \<Longrightarrow> keeps E m m' \<Longrightarrow> reached E m' x"
proof (induction rule: reached.induct)
  case (reached_slot x n y)
  then obtain n' where "m' x = Some n'" "sn_body n' = sn_body n" using keepsD by blast
  with reached_slot show ?case by (auto intro: reached.reached_slot)
qed (auto intro: reached_ext)

lemma keeps_trans: "keeps E m m1 \<Longrightarrow> keeps E m1 m2 \<Longrightarrow> keeps E m m2"
  unfolding keeps_def by (metis reached_keeps keeps_def)

lemma keeps_le: "m \<subseteq>\<^sub>m m' \<Longrightarrow> keeps E m m'"
  by (force simp: keeps_def map_le_def)

text \<open>A tree whose nodes keep what they hold keeps its form and its fields.\<close>

lemma tree_kept:
  assumes "segment_tree m rt l r" "keeps E m m'" "\<forall>x. rt = Some x \<longrightarrow> reached E m x"
  shows "segment_tree m' rt l r \<and> (\<forall>i. field_at m' rt l r i = field_at m rt l r i)"
  using assms
proof (induction rule: segment_tree.induct)
  case (seg_leaf a n v r l)
  then obtain n' where "m' a = Some n'" "sn_body n' = SLeaf v" using keepsD [of E m m' a n] by auto
  with seg_leaf show ?case by (auto intro: segment_tree.seg_leaf simp: field_leaf)
next
  case (seg_inner a n c0 c1 r l)
  then obtain n' where n': "m' a = Some n'" "sn_body n' = SInner c0 c1" using keepsD [of E m m' a n] by auto
  have "\<forall>x. c0 = Some x \<longrightarrow> reached E m x" "\<forall>x. c1 = Some x \<longrightarrow> reached E m x"
    using seg_inner.hyps(1,2) seg_inner.prems(2) by (auto intro: reached_slot [where n = n])
  with seg_inner n' show ?case by (auto intro: segment_tree.seg_inner simp: field_inner)
qed (auto intro: seg_None)

lemma tree_larger: "segment_tree m rt l r \<Longrightarrow> m \<subseteq>\<^sub>m m' \<Longrightarrow> segment_tree m' rt l r \<and> (\<forall>i. field_at m' rt l r i = field_at m rt l r i)"
  by (rule tree_kept [where E = "\<lambda>_. 1"]) (auto intro: keeps_le reached_ext)

lemma tree_smaller:
  assumes "segment_tree m rt l r" "counted E m'" "m' \<subseteq>\<^sub>m m" "\<forall>x. rt = Some x \<longrightarrow> x \<in> dom m'"
  shows "segment_tree m' rt l r"
  using assms
proof (induction rule: segment_tree.induct)
  case (seg_inner a n c0 c1 r l)
  then have a: "m' a = Some n" by (metis domIff map_le_def option.exhaust)
  have "x \<in> dom m'" if "0 < slots (sn_body n) x" for x
    using countedD(1,5) [OF seg_inner.prems(1)] inrefs_pos [of m' a n x] that a by blast
  with seg_inner a show ?case by (auto intro!: segment_tree.seg_inner)
next
  case (seg_leaf a n v r l)
  then have "m' a = Some n" by (metis domIff map_le_def option.exhaust)
  with seg_leaf show ?case by (auto intro: segment_tree.seg_leaf)
qed (auto intro: seg_None)

subsection \<open>Rewriting a subtree\<close>

text \<open>
  A subtree is replaced by another one, for a holder of one reference to it: references are counted, what the
  other references reach is kept, and of the fields of the subtree only field \<open>i\<close> may change.
\<close>

definition replaces ::
  "(nat \<Rightarrow> nat) \<Rightarrow> static_mem \<Rightarrow> nat option \<Rightarrow> nat \<Rightarrow> nat \<Rightarrow> static_mem \<Rightarrow> nat option \<Rightarrow> nat \<Rightarrow> u32 option option \<Rightarrow> bool" where
  "replaces E m rt l r m' rt' i w \<longleftrightarrow> counted (ref E rt') m' \<and> keeps E m m' \<and> segment_tree m' rt' l r \<and>
     (\<forall>j. l \<le> j \<longrightarrow> j < r \<longrightarrow> field_at m' rt' l r j = (if j = i then w else field_at m rt l r j))"

lemma replacesI:
  assumes "counted (ref E rt') m'" "keeps E m m'" "segment_tree m' rt' l r"
    and "\<And>j. l \<le> j \<Longrightarrow> j < r \<Longrightarrow> field_at m' rt' l r j = (if j = i then w else field_at m rt l r j)"
  shows "replaces E m rt l r m' rt' i w"
  using assms by (simp add: replaces_def)

lemma replaces_trans:
  assumes "replaces E m rt l r m1 rt1 i w1" "replaces E m1 rt1 l r m2 rt2 i w2"
  shows "replaces E m rt l r m2 rt2 i w2"
  using assms keeps_trans unfolding replaces_def by fastforce

lemma open_unreached:
  assumes "counted (ref E (Some b)) m" "m b = Some n" "sn_refcnt n = 1"
  shows "\<not> reached E m b"
proof
  assume "reached E m b"
  then show False
    using counted_open(2,3) [OF assms] inrefs_pos [OF countedD(1) [OF assms(1)]] by cases (simp, metis less_nat_zero_code)
qed

lemma reached_open:
  assumes "reached E m x" and b: "counted (ref E (Some b)) m" "m b = Some n" "sn_refcnt n = 1"
  shows "reached (ref E c) (m(b := None)) x"
  using assms(1)
proof (induction rule: reached.induct)
  case (reached_slot x k y)
  then have "x \<noteq> b" using open_unreached [OF b] by blast
  with reached_slot show ?case by (auto intro: reached.reached_slot [where n = k])
qed (simp add: reached_ext ref_def)

text \<open>The node \<open>b\<close> above the subtree is out of the memory while the subtree is replaced.\<close>

lemma around_subtree:
  assumes b: "counted (ref E (Some b)) m" "m b = Some n" "sn_refcnt n = 1" "refs E (sn_body n) = ref (ref E oth) c"
    and sub: "keeps (ref E oth) (m(b := None)) m1" "counted (ref (ref E oth) c') m1" "b \<notin> dom m1"
    and n': "refs E body = ref (ref E oth) c'"
  defines "m' \<equiv> m1(b \<mapsto> n\<lparr>sn_body := body\<rparr>)"
  shows "counted (ref E (Some b)) m'" and "keeps E m m'"
    and "segment_tree m oth l r \<Longrightarrow> segment_tree m' oth l r \<and> (\<forall>i. field_at m' oth l r i = field_at m oth l r i)"
    and "segment_tree m1 c' l r \<Longrightarrow> segment_tree m' c' l r \<and> (\<forall>i. field_at m' c' l r i = field_at m1 c' l r i)"
    and "segment_tree m c l r \<Longrightarrow> segment_tree (m(b := None)) c l r \<and> (\<forall>i. field_at (m(b := None)) c l r i = field_at m c l r i)"
proof -
  have le: "m1 \<subseteq>\<^sub>m m'" using sub(3) by (auto simp: m'_def map_le_def)
  have le0: "m(b := None) \<subseteq>\<^sub>m m" by (simp add: map_le_def)
  have m0: "counted (ref (ref E oth) c) (m(b := None))" using counted_open(1) [OF b(1-3)] b(4) by simp
  have dom0: "x \<in> dom (m(b := None))" if "oth = Some x \<or> c = Some x" for x
    using countedD(4) [OF m0, of x] that by (auto simp: ref_def split: if_splits)
  show "counted (ref E (Some b)) m'"
    unfolding m'_def using sub(2,3) b(3) n' by (intro counted_close) simp_all
  show "keeps E m m'"
    unfolding keeps_def
  proof (intro allI impI)
    fix x k assume x: "reached E m x" "m x = Some k"
    then have "x \<noteq> b" using open_unreached [OF b(1-3)] by blast
    then obtain k' where "m1 x = Some k'" "sn_body k' = sn_body k"
      using keepsD [OF sub(1) reached_open [OF x(1) b(1-3)], of k] x(2) by auto
    with \<open>x \<noteq> b\<close> show "\<exists>k'. m' x = Some k' \<and> sn_body k' = sn_body k" by (simp add: m'_def)
  qed
  have small: "segment_tree (m(b := None)) d l r \<and> (\<forall>i. field_at (m(b := None)) d l r i = field_at m d l r i)"
    if "segment_tree m d l r" "\<forall>x. d = Some x \<longrightarrow> x \<in> dom (m(b := None))" for d
  proof -
    have "segment_tree (m(b := None)) d l r" by (rule tree_smaller [OF that(1) m0 le0 that(2)])
    with tree_larger [OF this le0] show ?thesis by simp
  qed
  show "segment_tree m c l r \<Longrightarrow> segment_tree (m(b := None)) c l r \<and> (\<forall>i. field_at (m(b := None)) c l r i = field_at m c l r i)"
    by (rule small) (use dom0 in auto)
  show "segment_tree m1 c' l r \<Longrightarrow> segment_tree m' c' l r \<and> (\<forall>i. field_at m' c' l r i = field_at m1 c' l r i)"
    by (rule tree_larger [OF _ le])
  assume oth: "segment_tree m oth l r"
  have "segment_tree (m(b := None)) oth l r \<and> (\<forall>i. field_at (m(b := None)) oth l r i = field_at m oth l r i)"
    by (rule small [OF oth]) (use dom0 in auto)
  moreover from this have "segment_tree m1 oth l r \<and> (\<forall>i. field_at m1 oth l r i = field_at (m(b := None)) oth l r i)"
    by (intro tree_kept [OF _ sub(1)]) (auto intro: reached_ext simp: ref_def)
  ultimately show "segment_tree m' oth l r \<and> (\<forall>i. field_at m' oth l r i = field_at m oth l r i)"
    using tree_larger [OF _ le, of oth l r] by simp
qed

definition put_child :: "bool \<Rightarrow> nat option \<Rightarrow> static_body \<Rightarrow> static_body" where
  "put_child right c body = (case body of SLeaf v \<Rightarrow> body | SInner c0 c1 \<Rightarrow> if right then SInner c0 c else SInner c c1)"

lemma replaces_child:
  assumes b: "counted (ref E (Some b)) m" "m b = Some n" "sn_refcnt n = 1" "sn_body n = SInner c0 c1"
    and wf: "segment_tree m (Some b) l r" and mid: "mid = (l + r) div 2"
    and i: "l \<le> i" "i < r" "right = (mid \<le> i)"
    and sub: "replaces (ref E (if right then c0 else c1)) (m(b := None)) (if right then c1 else c0)
      (if right then mid else l) (if right then r else mid) m1 c i w" "b \<notin> dom m1"
  shows "replaces E m (Some b) l r (m1(b \<mapsto> n\<lparr>sn_body := put_child right c (sn_body n)\<rparr>)) (Some b) i w"
proof -
  have wf01: "1 < r - l" "segment_tree m c0 l mid" "segment_tree m c1 mid r" using wf b(2,4) mid by (auto elim: seg_Some)
  note sub' = sub(1) [unfolded replaces_def]
  have refs: "refs E (sn_body n) = ref (ref E (if right then c0 else c1)) (if right then c1 else c0)"
    "refs E (put_child right c (sn_body n)) = ref (ref E (if right then c0 else c1)) c"
    using ref_swap by (auto simp: b(4) put_child_def refs_inner)
  note around = around_subtree [OF b(1-3) refs(1) _ _ sub(2) refs(2)]
  define k where "k = n\<lparr>sn_body := put_child right c (sn_body n)\<rparr>"
  define m' where "m' = m1(b \<mapsto> k)"
  note around = around [folded k_def, folded m'_def]
  have keep: "counted (ref E (Some b)) m'" "keeps E m m'" using around(1,2) sub' by blast+
  have bm: "m' b = Some k" by (simp add: m'_def)
  have "replaces E m (Some b) l r m' (Some b) i w"
  proof (cases right)
    case True
    then have sub1: "keeps (ref E c0) (m(b := None)) m1" "counted (ref (ref E c0) c) m1" "segment_tree m1 c mid r"
      "\<forall>j. mid \<le> j \<longrightarrow> j < r \<longrightarrow> field_at m1 c mid r j = (if j = i then w else field_at (m(b := None)) c1 mid r j)"
      using sub' by simp_all
    note around1 = around [unfolded if_P [OF True], OF sub1(1,2)]
    have body: "sn_body k = SInner c0 c" using True by (simp add: put_child_def b(4) k_def)
    show ?thesis
    proof (rule replacesI [OF keep])
      show "segment_tree m' (Some b) l r"
        using around1(3) [OF wf01(2)] around1(4) [OF sub1(3)] wf01(1) mid by (intro seg_inner [where m = m' and a = b, OF bm body]) simp_all
      show "field_at m' (Some b) l r j = (if j = i then w else field_at m (Some b) l r j)" if "l \<le> j" "j < r" for j
        using around1(3) [OF wf01(2)] around1(4) [OF sub1(3)] around1(5) [OF wf01(3)] sub1(4) that i mid True
        by (simp add: field_inner [where m = m' and a = b, OF bm body wf01(1)] field_inner [where m = m and a = b, OF b(2,4) wf01(1)])
    qed
  next
    case False
    then have sub1: "keeps (ref E c1) (m(b := None)) m1" "counted (ref (ref E c1) c) m1" "segment_tree m1 c l mid"
      "\<forall>j. l \<le> j \<longrightarrow> j < mid \<longrightarrow> field_at m1 c l mid j = (if j = i then w else field_at (m(b := None)) c0 l mid j)"
      using sub' by simp_all
    note around1 = around [unfolded if_not_P [OF False], OF sub1(1,2)]
    have body: "sn_body k = SInner c c1" using False by (simp add: put_child_def b(4) k_def)
    show ?thesis
    proof (rule replacesI [OF keep])
      show "segment_tree m' (Some b) l r"
        using around1(3) [OF wf01(3)] around1(4) [OF sub1(3)] wf01(1) mid by (intro seg_inner [where m = m' and a = b, OF bm body]) simp_all
      show "field_at m' (Some b) l r j = (if j = i then w else field_at m (Some b) l r j)" if "l \<le> j" "j < r" for j
        using around1(3) [OF wf01(3)] around1(4) [OF sub1(3)] around1(5) [OF wf01(2)] sub1(4) that i mid False
        by (simp add: field_inner [where m = m' and a = b, OF bm body wf01(1)] field_inner [where m = m and a = b, OF b(2,4) wf01(1)])
    qed
  qed
  then show ?thesis by (simp add: m'_def k_def)
qed

text \<open>A way of nodes with one reference each, down to a leaf or to a missing node.\<close>

inductive owned :: "static_mem \<Rightarrow> nat \<Rightarrow> nat option \<Rightarrow> nat \<Rightarrow> nat \<Rightarrow> nat option \<Rightarrow> bool" for m i where
  owned_None: "owned m i None l r None"
| owned_leaf: "m a = Some n \<Longrightarrow> sn_refcnt n = 1 \<Longrightarrow> sn_body n = SLeaf v \<Longrightarrow> owned m i (Some a) l r (Some a)"
| owned_inner: "m a = Some n \<Longrightarrow> sn_refcnt n = 1 \<Longrightarrow> sn_body n = SInner c0 c1 \<Longrightarrow> mid = (l + r) div 2 \<Longrightarrow>
    owned m i (if mid \<le> i then c1 else c0) (if mid \<le> i then mid else l) (if mid \<le> i then r else mid) t \<Longrightarrow>
    owned m i (Some a) l r t"

lemma owned_larger: "owned m i rt l r t \<Longrightarrow> m \<subseteq>\<^sub>m m' \<Longrightarrow> owned m' i rt l r t"
proof (induction rule: owned.induct)
  case (owned_leaf a n v l r)
  then have "m' a = Some n" by (metis domI map_le_def)
  with owned_leaf show ?case by (auto intro: owned.owned_leaf)
next
  case (owned_inner a n c0 c1 mid l r t)
  then have "m' a = Some n" by (metis domI map_le_def)
  with owned_inner show ?case by (auto intro: owned.owned_inner)
qed (auto intro: owned_None)

subsection \<open>States\<close>

text \<open>The memory without the nodes \<open>P\<close> that are being written.\<close>

definition outside :: "nat set \<Rightarrow> static_state \<Rightarrow> static_mem" where
  "outside P s = ss_nodes s |` (- P)"

definition live_value :: "set_state \<Rightarrow> u32 option \<Rightarrow> bool" where
  "live_value t v \<longleftrightarrow> (\<forall>i. v = Some i \<longrightarrow> (\<exists>q. node_key t q = Some (i, INFO_ADDR)))"

definition leaves_live :: "static_state \<Rightarrow> bool" where
  "leaves_live s \<longleftrightarrow> set_inv (ss_sets s) \<and>
     (\<forall>a n v. ss_nodes s a = Some n \<longrightarrow> sn_body n = SLeaf v \<longrightarrow> live_value (ss_sets s) v)"

definition bounded :: "static_state \<Rightarrow> bool" where
  "bounded s \<longleftrightarrow> dom (ss_nodes s) \<subseteq> {..<ss_next s}"

definition frame :: "nat set \<Rightarrow> static_state \<Rightarrow> static_state \<Rightarrow> bool" where
  "frame P s s' \<longleftrightarrow> bounded s' \<and> (\<forall>p \<in> P. ss_nodes s' p = ss_nodes s p) \<and> ss_next s \<le> ss_next s' \<and>
     ss_count s' = ss_count s \<and> ss_default s' = ss_default s"

text \<open>The steps of a copy also keep every set, and the sets of the leaves are live after them.\<close>

definition tidy :: "nat set \<Rightarrow> static_state \<Rightarrow> static_state \<Rightarrow> bool" where
  "tidy P s s' \<longleftrightarrow> frame P s s' \<and> leaves_live s' \<and> (\<forall>q. node_key (ss_sets s') q = node_key (ss_sets s) q)"

definition grows :: "static_mem \<Rightarrow> static_mem \<Rightarrow> bool" where
  "grows m m' \<longleftrightarrow> (\<forall>x n. m x = Some n \<longrightarrow> (\<exists>n'. m' x = Some n' \<and> sn_body n' = sn_body n \<and> sn_refcnt n \<le> sn_refcnt n'))"

lemma frame_refl: "bounded s \<Longrightarrow> frame P s s"
  by (simp add: frame_def)

lemma frame_trans: "frame P s s1 \<Longrightarrow> frame P s1 s2 \<Longrightarrow> frame P s s2"
  by (auto simp: frame_def)

lemma frame_mono: "frame P s s' \<Longrightarrow> Q \<subseteq> P \<Longrightarrow> frame Q s s'"
  by (auto simp: frame_def)

lemma tidy_trans: "tidy P s s1 \<Longrightarrow> tidy P s1 s2 \<Longrightarrow> tidy P s s2"
  by (auto simp: tidy_def elim: frame_trans)

lemma tidy_refl: "bounded s \<Longrightarrow> leaves_live s \<Longrightarrow> tidy P s s"
  by (simp add: tidy_def frame_refl)

lemma growsD: "grows m m' \<Longrightarrow> m x = Some n \<Longrightarrow> \<exists>n'. m' x = Some n' \<and> sn_body n' = sn_body n \<and> sn_refcnt n \<le> sn_refcnt n'"
  by (auto simp: grows_def)

lemma grows_trans:
  assumes "grows m m1" "grows m1 m2"
  shows "grows m m2"
  unfolding grows_def
proof (intro allI impI)
  fix x n assume "m x = Some n"
  then obtain n1 where n1: "m1 x = Some n1" "sn_body n1 = sn_body n" "sn_refcnt n \<le> sn_refcnt n1" using growsD [OF assms(1)] by blast
  then show "\<exists>n'. m2 x = Some n' \<and> sn_body n' = sn_body n \<and> sn_refcnt n \<le> sn_refcnt n'" using growsD [OF assms(2) n1(1)] by auto
qed

lemma outside_Some: "outside P s a = Some n \<longleftrightarrow> a \<notin> P \<and> ss_nodes s a = Some n"
  by (auto simp: outside_def restrict_map_def)

lemma outside_insert: "outside (insert b P) s = (outside P s)(b := None)"
  by (auto simp: outside_def restrict_map_def fun_eq_iff)

lemma outside_upd: "a \<notin> P \<Longrightarrow> outside P (s\<lparr>ss_nodes := (ss_nodes s)(a \<mapsto> n)\<rparr>) = (outside P s)(a \<mapsto> n)"
  by (auto simp: outside_def restrict_map_def fun_eq_iff)

lemma leaves_live_upd:
  "leaves_live s \<Longrightarrow> (\<forall>v. sn_body n = SLeaf v \<longrightarrow> live_value (ss_sets s) v) \<Longrightarrow> leaves_live (s\<lparr>ss_nodes := (ss_nodes s)(a \<mapsto> n), ss_next := k\<rparr>)"
  by (simp add: leaves_live_def)

lemma upd_static_ok:
  assumes a: "outside P s a = Some n" and s: "bounded s" "leaves_live s" and f: "sn_body (f n) = sn_body n"
  shows "\<exists>s'. upd_static a f s = Some s' \<and> outside P s' = (outside P s)(a \<mapsto> f n) \<and> tidy P s s'"
proof -
  let ?s = "s\<lparr>ss_nodes := (ss_nodes s)(a \<mapsto> f n)\<rparr>"
  have n: "a \<notin> P" "ss_nodes s a = Some n" using a by (auto simp: outside_Some)
  have "leaves_live ?s" using s(2) n(2) f by (auto simp: leaves_live_def)
  then have "tidy P s ?s" using s n by (auto simp: tidy_def frame_def bounded_def)
  then show ?thesis using n by (auto simp: upd_static_def outside_upd)
qed

lemma incref_ok:
  assumes m: "counted E (outside P s)" and c: "\<forall>x. c = Some x \<longrightarrow> x \<in> dom (outside P s)" and s: "bounded s" "leaves_live s"
  shows "\<exists>s'. cesk_static_tree_node_incref c s = Some s' \<and> counted (ref E c) (outside P s') \<and>
    grows (outside P s) (outside P s') \<and> dom (outside P s') = dom (outside P s) \<and> tidy P s s'"
proof (cases c)
  case (Some a)
  then obtain n where n: "outside P s a = Some n" using c by blast
  obtain s' where s': "upd_static a (\<lambda>n. n\<lparr>sn_refcnt := Suc (sn_refcnt n)\<rparr>) s = Some s'"
    "outside P s' = (outside P s)(a \<mapsto> n\<lparr>sn_refcnt := Suc (sn_refcnt n)\<rparr>)" "tidy P s s'"
    using upd_static_ok [OF n s, of "\<lambda>n. n\<lparr>sn_refcnt := Suc (sn_refcnt n)\<rparr>"] by auto
  have "grows (outside P s) (outside P s')" using n by (simp add: grows_def s'(2))
  moreover have "dom (outside P s') = dom (outside P s)" using n by (auto simp: s'(2))
  ultimately show ?thesis using s' counted_incref [OF m n] Some by (auto simp: cesk_static_tree_node_incref_def)
qed (use assms in \<open>auto simp: cesk_static_tree_node_incref_def grows_def tidy_refl\<close>)

lemma set_fork_ok:
  assumes "set_inv t" "live_value t v"
  shows "\<exists>t'. cesk_set_fork v t = Some (v, t') \<and> set_inv t' \<and> (\<forall>q. node_key t' q = node_key t q)"
proof (cases v)
  case (Some i)
  then obtain q where q: "node_key t q = Some (i, INFO_ADDR)" using assms(2) by (auto simp: live_value_def)
  then obtain e where e: "get_info q t = Some e" using live_handle [OF set_invD(1) [OF assms(1)]] by blast
  have "cesk_set_hash_find i INFO_ADDR t = Some q" using hash_find_iff [OF set_invD(1) [OF assms(1)]] q by simp
  with Some show ?thesis
    using upd_refcnt_set_inv [OF assms(1) e, of "\<lambda>e. info_refcnt e + 1"] by (metis (no_types, lifting) bind.bind_lunit cesk_set_fork_def option.simps(5))
qed (use assms in \<open>simp add: cesk_set_fork_def\<close>)

subsection \<open>Copying a node\<close>

lemma alloc_ok:
  assumes "alloc_static n s = (b, s')" and s: "bounded s" "leaves_live s" "P \<subseteq> dom (ss_nodes s)"
    and n: "\<forall>v. sn_body n = SLeaf v \<longrightarrow> live_value (ss_sets s) v"
  shows "outside P s' = (outside P s)(b \<mapsto> n)" "b \<notin> dom (ss_nodes s)" "tidy P s s'"
proof -
  have b: "b = ss_next s" "s' = s\<lparr>ss_nodes := (ss_nodes s)(b \<mapsto> n), ss_next := Suc b\<rparr>" using assms(1) by (auto simp: alloc_static_def)
  show "b \<notin> dom (ss_nodes s)" using s(1) b(1) by (auto simp: bounded_def)
  then have "b \<notin> P" using s(3) by auto
  then show "outside P s' = (outside P s)(b \<mapsto> n)" by (auto simp: b(2) outside_def restrict_map_def fun_eq_iff)
  have "frame P s s'" using s(1) \<open>b \<notin> P\<close> b(1) by (auto simp: frame_def b(2) bounded_def)
  moreover have "leaves_live s'" unfolding b(2) using s(2) n by (rule leaves_live_upd)
  ultimately show "tidy P s s'" by (simp add: tidy_def b(2))
qed

lemma outside_dom: "dom (outside P s) = dom (ss_nodes s) - P"
  by (auto simp: outside_def restrict_map_def split: if_splits)

lemma tidyD: "tidy P s s' \<Longrightarrow> bounded s'" "tidy P s s' \<Longrightarrow> leaves_live s'" "tidy P s s' \<Longrightarrow> frame P s s'"
    "tidy P s s' \<Longrightarrow> node_key (ss_sets s') q = node_key (ss_sets s) q"
    "tidy P s s' \<Longrightarrow> P \<subseteq> dom (ss_nodes s) \<Longrightarrow> P \<subseteq> dom (ss_nodes s')"
  by (auto simp: tidy_def frame_def domIff)

lemma duplicate_ok:
  assumes m: "counted E (outside P s)" "outside P s a = Some n" and s: "bounded s" "leaves_live s" "P \<subseteq> dom (ss_nodes s)"
  shows "\<exists>b s'. cesk_static_tree_node_duplicate a s = Some (b, s') \<and> counted E (outside P s') \<and> b \<notin> dom (outside P s) \<and>
    outside P s' b = Some (cesk_static_tree_node_new (sn_body n)) \<and> grows (outside P s) (outside P s') \<and> tidy P s s'"
proof -
  have n: "ss_nodes s a = Some n" using m(2) by (simp add: outside_Some)
  define k where "k = cesk_static_tree_node_new (sn_body n)"
  have k: "sn_body k = sn_body n" "sn_refcnt k = 0" by (simp_all add: k_def cesk_static_tree_node_new_def)
  have finish: ?thesis
    if run: "cesk_static_tree_node_duplicate a s = Some (alloc_static k s1)"
      and s1: "counted (refs E (sn_body n)) (outside P s1)" "dom (outside P s1) = dom (outside P s)"
        "grows (outside P s) (outside P s1)" "tidy P s s1" "\<forall>v. sn_body n = SLeaf v \<longrightarrow> live_value (ss_sets s1) v" for s1
  proof -
    obtain b s' where b: "alloc_static k s1 = (b, s')" by fastforce
    note al = alloc_ok [OF b tidyD(1,2) [OF s1(4)] tidyD(5) [OF s1(4) s(3)]] 
    have al: "outside P s' = (outside P s1)(b \<mapsto> k)" "b \<notin> dom (ss_nodes s1)" "tidy P s1 s'"
      using al s1(5) k(1) by simp_all
    then have new: "b \<notin> dom (outside P s1)" by (simp add: outside_dom)
    then have "grows (outside P s1) (outside P s')" by (auto simp: grows_def al(1))
    moreover have "counted E (outside P s')" unfolding al(1) using s1(1) k new by (intro counted_alloc) simp_all
    ultimately show ?thesis
      using run b al new s1 by (auto simp: k_def intro: tidy_trans grows_trans)
  qed
  show ?thesis
  proof (cases "sn_body n")
    case (SLeaf v)
    have live: "set_inv (ss_sets s)" "live_value (ss_sets s) v" using s(2) n SLeaf by (auto simp: leaves_live_def)
    obtain t' where t': "cesk_set_fork v (ss_sets s) = Some (v, t')" "set_inv t'" "\<forall>q. node_key t' q = node_key (ss_sets s) q"
      using set_fork_ok [OF live] by blast
    have out: "outside P (s\<lparr>ss_sets := t'\<rparr>) = outside P s" by (simp add: outside_def)
    have "tidy P s (s\<lparr>ss_sets := t'\<rparr>)"
      using s t' by (auto simp: tidy_def frame_def bounded_def leaves_live_def live_value_def)
    then show ?thesis
      by (intro finish [of "s\<lparr>ss_sets := t'\<rparr>"])
        (use n SLeaf t' m(1) live(2) in \<open>simp_all add: cesk_static_tree_node_duplicate_def set_op_def k_def out grows_def live_value_def\<close>)
  next
    case (SInner c0 c1)
    have kids: "x \<in> dom (outside P s)" if "c0 = Some x \<or> c1 = Some x" for x
      using countedD(5) [OF m(1)] inrefs_pos [OF countedD(1) [OF m(1)] m(2)] that SInner by fastforce
    obtain s0 where s0: "cesk_static_tree_node_incref c0 s = Some s0" "counted (ref E c0) (outside P s0)"
      "grows (outside P s) (outside P s0)" "dom (outside P s0) = dom (outside P s)" "tidy P s s0"
      using incref_ok [OF m(1) _ s(1,2), of c0] kids by blast
    obtain s1 where s1: "cesk_static_tree_node_incref c1 s0 = Some s1" "counted (ref (ref E c0) c1) (outside P s1)"
      "grows (outside P s0) (outside P s1)" "dom (outside P s1) = dom (outside P s0)" "tidy P s0 s1"
      using incref_ok [OF s0(2) _ tidyD(1,2) [OF s0(5)], of c1] kids s0(4) by blast
    show ?thesis
      by (rule finish [of s1])
        (use n SInner s0 s1 in \<open>auto simp: cesk_static_tree_node_duplicate_def k_def refs_inner intro: tidy_trans grows_trans\<close>)
  qed
qed

text \<open>A node that is shared is replaced by a copy of it; the node itself keeps what it holds.\<close>

lemma node_prepare_ok:
  assumes m: "counted (ref E (Some a)) (outside P s)" "outside P s a = Some n" and s: "bounded s" "leaves_live s" "P \<subseteq> dom (ss_nodes s)"
  shows "\<exists>b k s'. cesk_static_tree_node_prepare_to_write a s = Some (b, s') \<and> counted (ref E (Some b)) (outside P s') \<and>
    outside P s' b = Some k \<and> sn_refcnt k = 1 \<and> sn_body k = sn_body n \<and> tidy P s s' \<and>
    (\<forall>x y. outside P s x = Some y \<longrightarrow> (\<exists>y'. outside P s' x = Some y' \<and> sn_body y' = sn_body y))"
proof (cases "sn_refcnt n = 1")
  case True
  with m(2) have "cesk_static_tree_node_prepare_to_write a s = Some (a, s)"
    by (simp add: cesk_static_tree_node_prepare_to_write_def outside_Some)
  with True m s show ?thesis by (auto intro: tidy_refl)
next
  case False
  obtain b s1 where s1: "cesk_static_tree_node_duplicate a s = Some (b, s1)" "counted (ref E (Some a)) (outside P s1)"
    "b \<notin> dom (outside P s)" "outside P s1 b = Some (cesk_static_tree_node_new (sn_body n))"
    "grows (outside P s) (outside P s1)" "tidy P s s1"
    using duplicate_ok [OF m s] by blast
  obtain n1 where n1: "outside P s1 a = Some n1" "sn_body n1 = sn_body n" "sn_refcnt n \<le> sn_refcnt n1"
    using s1(5) m(2) by (auto simp: grows_def)
  have "0 < sn_refcnt n" using countedD(2) [OF m] by (simp add: ref_def)
  with False n1(3) have many: "1 < sn_refcnt n1" by simp
  let ?d = "\<lambda>n :: static_node. n\<lparr>sn_refcnt := sn_refcnt n - 1\<rparr>"
  obtain s2 where s2: "upd_static a ?d s1 = Some s2" "outside P s2 = (outside P s1)(a \<mapsto> ?d n1)" "tidy P s1 s2"
    using upd_static_ok [OF n1(1) tidyD(1,2) [OF s1(6)], of ?d] by auto
  have dec: "cesk_static_tree_node_decref 1 (Some a) s1 = Some s2"
    using n1(1) many s2(1) by (simp add: outside_Some)
  have ab: "a \<noteq> b" using s1(3) m(2) by auto
  obtain s3 where s3: "cesk_static_tree_node_incref (Some b) s2 = Some s3" "counted (ref E (Some b)) (outside P s3)"
    "tidy P s2 s3" and s3m: "outside P s3 = (outside P s2)(b \<mapsto> (cesk_static_tree_node_new (sn_body n))\<lparr>sn_refcnt := 1\<rparr>)"
  proof -
    have b2: "outside P s2 b = Some (cesk_static_tree_node_new (sn_body n))" using s1(4) ab by (simp add: s2(2))
    have c2: "counted E (outside P s2)" unfolding s2(2) by (rule counted_decref [OF s1(2) n1(1)])
    let ?i = "\<lambda>n :: static_node. n\<lparr>sn_refcnt := Suc (sn_refcnt n)\<rparr>"
    obtain s3 where "upd_static b ?i s2 = Some s3" "outside P s3 = (outside P s2)(b \<mapsto> ?i (cesk_static_tree_node_new (sn_body n)))" "tidy P s2 s3"
      using upd_static_ok [OF b2 tidyD(1,2) [OF s2(3)], of ?i] by auto
    with counted_incref [OF c2 b2] show thesis
      by (intro that [of s3]) (simp_all add: cesk_static_tree_node_incref_def cesk_static_tree_node_new_def)
  qed
  have run: "cesk_static_tree_node_prepare_to_write a s = Some (b, s3)"
    using m(2) False s1(1) dec s3(1) by (simp add: cesk_static_tree_node_prepare_to_write_def outside_Some del: cesk_static_tree_node_decref.simps)
  have kept: "\<exists>y'. outside P s3 x = Some y' \<and> sn_body y' = sn_body y" if "outside P s x = Some y" for x y
    using growsD [OF s1(5) that] that s1(3) n1 m(2) by (auto simp: s3m s2(2))
  have "tidy P s s3" using s1(6) s2(3) s3(3) by (blast intro: tidy_trans)
  with run s3(2) kept show ?thesis
    by (intro exI [of _ b] exI [of _ "(cesk_static_tree_node_new (sn_body n))\<lparr>sn_refcnt := 1\<rparr>"] exI [of _ s3])
      (simp add: s3m cesk_static_tree_node_new_def)
qed

subsection \<open>Going down the tree\<close>

text \<open>
  What the loops over a way down the tree share: \<open>b\<close> is a node with one reference, the subtree below it is
  replaced with \<open>b\<close> out of the memory, and the new subtree is written to \<open>b\<close>.
\<close>

lemma child_open:
  fixes right :: bool
  assumes b: "counted (ref E (Some b)) m" "m b = Some n" "sn_refcnt n = 1" "sn_body n = SInner c0 c1" "segment_tree m (Some b) l r"
    and mid: "mid = (l + r) div 2"
  defines "c \<equiv> (if right then c1 else c0)" and "oth \<equiv> (if right then c0 else c1)"
    and "lo \<equiv> (if right then mid else l)" and "hi \<equiv> (if right then r else mid)"
  shows "counted (ref (ref E oth) c) (m(b := None))" and "segment_tree (m(b := None)) c lo hi"
    and "right = (mid \<le> i) \<Longrightarrow> field_at (m(b := None)) c lo hi i = field_at m (Some b) l r i"
proof -
  have wf: "1 < r - l" "segment_tree m c0 l mid" "segment_tree m c1 mid r" using b(2,4,5) mid by (auto elim: seg_Some)
  show m0: "counted (ref (ref E oth) c) (m(b := None))"
    using counted_open(1) [OF b(1-3)] ref_swap by (auto simp: b(4) refs_inner c_def oth_def)
  have le0: "m(b := None) \<subseteq>\<^sub>m m" by (simp add: map_le_def)
  have "x \<in> dom (m(b := None))" if "c = Some x" for x using countedD(4) [OF m0, of x] that by (auto simp: ref_def split: if_splits)
  with wf show seg: "segment_tree (m(b := None)) c lo hi"
    by (intro tree_smaller [OF _ m0 le0]) (simp_all add: c_def lo_def hi_def)
  show "field_at (m(b := None)) c lo hi i = field_at m (Some b) l r i" if "right = (mid \<le> i)"
    using tree_larger [OF seg le0] that unfolding mid c_def lo_def hi_def
    by (cases right) (simp_all add: field_inner [where m = m and a = b, OF b(2,4) wf(1)])
qed

lemma set_child_ok:
  assumes "ss_nodes s b = Some n" "sn_body n = SInner c0 c1"
  shows "set_child b right c s = Some (s\<lparr>ss_nodes := (ss_nodes s)(b \<mapsto> n\<lparr>sn_body := put_child right c (sn_body n)\<rparr>)\<rparr>)"
  using assms by (simp add: set_child_def upd_static_def put_child_def)

lemma down:
  assumes b: "counted (ref E (Some b)) (outside P s1)" "outside P s1 b = Some n" "sn_refcnt n = 1" "sn_body n = SInner c0 c1"
    and wf: "segment_tree (outside P s1) (Some b) l r" and mid: "mid = (l + r) div 2" and i: "l \<le> i" "i < r" "right = (mid \<le> i)"
    and sub: "replaces (ref E (if right then c0 else c1)) (outside (insert b P) s1) (if right then c1 else c0)
      (if right then mid else l) (if right then r else mid) (outside (insert b P) s2) c i w" "frame (insert b P) s1 s2"
  shows "\<exists>s3. set_child b right c s2 = Some s3 \<and> replaces E (outside P s1) (Some b) l r (outside P s3) (Some b) i w \<and>
    frame P s1 s3 \<and> (tidy (insert b P) s1 s2 \<longrightarrow> tidy P s1 s3) \<and> ss_sets s3 = ss_sets s2 \<and>
    (owned (outside (insert b P) s2) i c (if right then mid else l) (if right then r else mid) t \<longrightarrow>
     owned (outside P s3) i (Some b) l r t) \<and> (\<forall>x. x \<noteq> b \<longrightarrow> ss_nodes s3 x = ss_nodes s2 x)"
proof -
  have bP: "b \<notin> P" "ss_nodes s1 b = Some n" using b(2) by (simp_all add: outside_Some)
  then have n2: "ss_nodes s2 b = Some n" using sub(2) by (simp add: frame_def)
  define k where "k = n\<lparr>sn_body := put_child right c (sn_body n)\<rparr>"
  define s3 where "s3 = s2\<lparr>ss_nodes := (ss_nodes s2)(b \<mapsto> k)\<rparr>"
  have run: "set_child b right c s2 = Some s3" using set_child_ok [OF n2 b(4)] by (simp add: s3_def k_def)
  have out: "outside P s3 = (outside (insert b P) s2)(b \<mapsto> k)"
    using bP(1) by (auto simp: s3_def outside_def restrict_map_def fun_eq_iff)
  have new: "b \<notin> dom (outside (insert b P) s2)" by (simp add: outside_dom)
  have rep: "replaces E (outside P s1) (Some b) l r (outside P s3) (Some b) i w"
    unfolding out k_def by (rule replaces_child [OF b wf mid i _ new]) (use sub(1) in \<open>simp add: outside_insert\<close>)
  have fr: "frame P s1 s3" using sub(2) n2 bP by (auto simp: frame_def s3_def bounded_def)
  have "\<forall>v. sn_body k \<noteq> SLeaf v" using b(4) by (simp add: k_def put_child_def)
  then have td: "tidy P s1 s3" if "tidy (insert b P) s1 s2"
    using that fr by (auto simp: tidy_def s3_def leaves_live_def)
  have "owned (outside P s3) i (Some b) l r t"
    if "owned (outside (insert b P) s2) i c (if right then mid else l) (if right then r else mid) t"
  proof -
    have "outside (insert b P) s2 \<subseteq>\<^sub>m outside P s3" using new by (auto simp: out map_le_def)
    then have ow: "owned (outside P s3) i c (if right then mid else l) (if right then r else mid) t" using owned_larger that by blast
    have "outside P s3 b = Some k" "sn_refcnt k = 1" by (simp_all add: out k_def b(3))
    moreover obtain d0 d1 where "sn_body k = SInner d0 d1" "c = (if right then d1 else d0)"
      using b(4) that by (cases right) (simp_all add: k_def put_child_def)
    ultimately show ?thesis using ow by (intro owned_inner [OF _ _ _ mid]) (auto simp: i(3))
  qed
  with run rep fr td show ?thesis by (intro exI [of _ s3]) (simp add: s3_def)
qed

subsection \<open>Preparing a write\<close>

lemma all_kept: "(\<forall>x y. m x = Some y \<longrightarrow> (\<exists>y'. m' x = Some y' \<and> sn_body y' = sn_body y)) \<Longrightarrow> keeps E m m'"
  by (simp add: keeps_def)

text \<open>A copy of the root of a tree is the root of a tree with the same fields.\<close>

lemma copied_root:
  assumes wf: "segment_tree m (Some a) l r" and a: "m a = Some n" and b: "m' b = Some k" "sn_body k = sn_body n"
    and kept: "\<forall>x y. m x = Some y \<longrightarrow> (\<exists>y'. m' x = Some y' \<and> sn_body y' = sn_body y)" and c: "counted (ref E (Some b)) m'"
  shows "replaces E m (Some a) l r m' (Some b) i (field_at m (Some a) l r i)"
proof -
  have same: "segment_tree m' d x y \<and> (\<forall>j. field_at m' d x y j = field_at m d x y j)" if "segment_tree m d x y" for d x y
    by (rule tree_kept [OF that all_kept [OF kept, of "\<lambda>_. 1"]]) (simp add: reached_ext)
  show ?thesis
  proof (rule replacesI [OF c all_kept [OF kept]])
    show "segment_tree m' (Some b) l r"
      using wf
    proof cases
      case (seg_leaf n' v)
      then show ?thesis using a b by (auto intro: segment_tree.seg_leaf)
    next
      case (seg_inner n' c0 c1)
      then show ?thesis using a b same by (intro segment_tree.seg_inner [where m = m' and a = b, OF b(1)]) auto
    qed
    show "field_at m' (Some b) l r j = (if j = i then field_at m (Some a) l r i else field_at m (Some a) l r j)" for j
      using wf
    proof cases
      case (seg_leaf n' v)
      then show ?thesis using a b by (simp add: field_leaf)
    next
      case (seg_inner n' c0 c1)
      then show ?thesis using a b same [OF seg_inner(4)] same [OF seg_inner(5)] by (simp add: field_inner)
    qed
  qed
qed

lemma prepare_ok:
  assumes "counted (ref E rt) (outside P s)" "segment_tree (outside P s) rt l r" "l \<le> i" "i < r"
    and "bounded s" "leaves_live s" "P \<subseteq> dom (ss_nodes s)"
  shows "\<exists>rt' t s'. cesk_static_tree_prepare_to_write rt l r i s = Some (rt', t, s') \<and> tidy P s s' \<and>
    replaces E (outside P s) rt l r (outside P s') rt' i (field_at (outside P s) rt l r i) \<and>
    owned (outside P s') i rt' l r t"
  using assms
proof (induction "r - l" arbitrary: rt l r s E P rule: less_induct)
  case less
  show ?case
  proof (cases rt)
    case None
    with less.prems show ?thesis
      by (subst cesk_static_tree_prepare_to_write.simps)
        (auto simp: replaces_def keeps_refl tidy_refl intro: seg_None owned_None)
  next
    case (Some a)
    obtain n where n: "outside P s a = Some n" using less.prems(2) by (auto simp: Some elim: seg_Some)
    obtain b k s1 where s1: "cesk_static_tree_node_prepare_to_write a s = Some (b, s1)" "counted (ref E (Some b)) (outside P s1)"
      "outside P s1 b = Some k" "sn_refcnt k = 1" "sn_body k = sn_body n" "tidy P s s1"
      and kept: "\<forall>x y. outside P s x = Some y \<longrightarrow> (\<exists>y'. outside P s1 x = Some y' \<and> sn_body y' = sn_body y)"
      using node_prepare_ok [OF less.prems(1) [unfolded Some] n less.prems(5-7)] by blast
    have rep1: "replaces E (outside P s) rt l r (outside P s1) (Some b) i (field_at (outside P s) rt l r i)"
      unfolding Some by (rule copied_root [OF less.prems(2) [unfolded Some] n s1(3,5) kept s1(2)])
    then have wf1: "segment_tree (outside P s1) (Some b) l r" and fld1: "field_at (outside P s1) (Some b) l r i = field_at (outside P s) rt l r i"
      using less.prems(3,4) by (simp_all add: replaces_def)
    from wf1 show ?thesis
    proof cases
      case (seg_leaf n' v)
      then have "cesk_static_tree_prepare_to_write rt l r i s = Some (Some b, Some b, s1)"
        using s1(1) Some by (subst cesk_static_tree_prepare_to_write.simps) simp
      moreover have "owned (outside P s1) i (Some b) l r (Some b)" using seg_leaf s1(3,4) by (auto intro: owned_leaf)
      ultimately show ?thesis using rep1 s1(6) by auto
    next
      case (seg_inner n' c0 c1)
      define mid where "mid = (l + r) div 2"
      define right where "right = (mid \<le> i)"
      let ?c = "if right then c1 else c0" and ?o = "if right then c0 else c1" and ?l = "if right then mid else l" and ?r = "if right then r else mid"
      have k: "sn_body k = SInner c0 c1" using seg_inner s1(3) by simp
      note op = child_open [OF s1(2,3,4) k wf1 mid_def, where right = right]
      have bP: "b \<notin> P" "ss_nodes s1 b = Some k" using s1(3) by (auto simp: outside_Some)
      have lt: "?r - ?l < r - l" "?l \<le> i" "i < ?r" using seg_inner less.prems(3,4) by (auto simp: right_def mid_def)
      obtain c t s2 where rec: "cesk_static_tree_prepare_to_write ?c ?l ?r i s1 = Some (c, t, s2)" "tidy (insert b P) s1 s2"
        "replaces (ref E ?o) (outside (insert b P) s1) ?c ?l ?r (outside (insert b P) s2) c i (field_at (outside (insert b P) s1) ?c ?l ?r i)"
        "owned (outside (insert b P) s2) i c ?l ?r t"
        using less.hyps [OF lt(1), of "ref E ?o" ?c "insert b P" s1] op(1,2) lt tidyD(1,2) [OF s1(6)] tidyD(5) [OF s1(6) less.prems(7)] bP
        by (auto simp: outside_insert)
      have w: "field_at (outside (insert b P) s1) ?c ?l ?r i = field_at (outside P s1) (Some b) l r i"
        unfolding outside_insert by (rule op(3)) (simp add: right_def)
      obtain s3 where s3: "set_child b right c s2 = Some s3" "tidy P s1 s3" "owned (outside P s3) i (Some b) l r t"
        "replaces E (outside P s1) (Some b) l r (outside P s3) (Some b) i (field_at (outside P s1) (Some b) l r i)"
        using down [OF s1(2,3,4) k wf1 mid_def less.prems(3,4) right_def rec(3) tidyD(3) [OF rec(2)], where t = t] rec(2,4) w by auto
      have "child_of right b s1 = Some ?c" using bP(2) k by (simp add: child_of_def)
      then have "cesk_static_tree_prepare_to_write rt l r i s = Some (Some b, t, s3)"
        using Some s1(1) seg_inner(3) rec(1) s3(1)
        by (subst cesk_static_tree_prepare_to_write.simps) (simp add: right_def mid_def Let_def split: if_splits)
      moreover have "tidy P s s3" using s1(6) s3(2) by (rule tidy_trans)
      moreover have "replaces E (outside P s) rt l r (outside P s3) (Some b) i (field_at (outside P s) rt l r i)"
        using replaces_trans [OF rep1 s3(4)] fld1 by simp
      ultimately show ?thesis using s3(3) by blast
    qed
  qed
qed

subsection \<open>Owned leaves\<close>

lemma owned_field:
  assumes "owned m i rt l r t" "segment_tree m rt l r"
  shows "case t of None \<Rightarrow> field_at m rt l r i = None
    | Some x \<Rightarrow> \<exists>n v. m x = Some n \<and> sn_refcnt n = 1 \<and> sn_body n = SLeaf v \<and> field_at m rt l r i = Some v"
  using assms
proof (induction rule: owned.induct)
  case (owned_leaf a n v l r)
  then have "r - l \<le> 1" by (auto elim: seg_Some)
  with owned_leaf show ?case by (auto simp: field_leaf)
next
  case (owned_inner a n c0 c1 mid l r t)
  then have "1 < r - l" "segment_tree m (if mid \<le> i then c1 else c0) (if mid \<le> i then mid else l) (if mid \<le> i then r else mid)"
    by (auto elim: seg_Some)
  with owned_inner show ?case by (auto simp: field_inner split: option.splits if_splits)
qed simp

lemma owned_smaller:
  assumes "owned m i rt l r t" "counted E m'" "m' \<subseteq>\<^sub>m m" "\<forall>x. rt = Some x \<longrightarrow> x \<in> dom m'"
  shows "owned m' i rt l r t"
  using assms
proof (induction rule: owned.induct)
  case (owned_leaf a n v l r)
  then have "m' a = Some n" by (metis domIff map_le_def option.exhaust)
  with owned_leaf show ?case by (auto intro: owned.owned_leaf)
next
  case (owned_inner a n c0 c1 mid l r t)
  then have a: "m' a = Some n" by (metis domIff map_le_def option.exhaust)
  have "x \<in> dom m'" if "0 < slots (sn_body n) x" for x
    using countedD(1,5) [OF owned_inner.prems(1)] inrefs_pos [of m' a n x] that a by blast
  with owned_inner a show ?case by (intro owned.owned_inner) auto
qed (auto intro: owned_None)

text \<open>A write to the leaf at the end of an owned way changes the field of the tree, and nothing that another reference reaches.\<close>

lemma owned_write:
  assumes "owned m i rt l r (Some x)" "segment_tree m rt l r" "counted (ref E rt) m" "l \<le> i" "i < r"
    and "m x = Some n" "sn_body n' = SLeaf v" "sn_refcnt n' = sn_refcnt n"
  shows "replaces E m rt l r (m(x \<mapsto> n')) rt i (Some v)"
  using assms
proof (induction "r - l" arbitrary: m rt l r E rule: less_induct)
  case less
  from less.prems(1) show ?case
  proof cases
    case (owned_leaf k u)
    then have leaf: "r - l \<le> 1" "k = n" using less.prems(2,6) by (auto elim: seg_Some)
    note c = less.prems(3) [unfolded owned_leaf(1)]
    have "counted (ref E (Some x)) ((m(x := None))(x \<mapsto> n'))"
      using counted_open(1) [OF c owned_leaf(2,3)] owned_leaf leaf less.prems(7,8) by (intro counted_close) auto
    moreover have "keeps E m (m(x \<mapsto> n'))"
      using open_unreached [OF c owned_leaf(2,3)] by (auto simp: keeps_def)
    ultimately show ?thesis
      using owned_leaf leaf less.prems(4-7) by (intro replacesI) (auto intro: seg_leaf simp: field_leaf)
  next
    case (owned_inner a k c0 c1 mid)
    define right where "right = (mid \<le> i)"
    let ?c = "if right then c1 else c0" and ?o = "if right then c0 else c1" and ?l = "if right then mid else l" and ?r = "if right then r else mid"
    note c = less.prems(3) [unfolded owned_inner(1)] and wf = less.prems(2) [unfolded owned_inner(1)]
    note op = child_open [OF c owned_inner(2,3,4) wf owned_inner(5), where right = right]
    have le0: "m(a := None) \<subseteq>\<^sub>m m" by (simp add: map_le_def)
    have "\<forall>y. ?c = Some y \<longrightarrow> y \<in> dom (m(a := None))"
    proof (intro allI impI)
      fix y assume "?c = Some y"
      then show "y \<in> dom (m(a := None))" using countedD(4) [OF op(1), of y] unfolding dom_def ref_def by (simp del: fun_upd_apply)
    qed
    then have ow: "owned (m(a := None)) i ?c ?l ?r (Some x)"
      using owned_smaller [OF owned_inner(6) op(1) le0] by (simp add: right_def)
    then have x: "(m(a := None)) x = Some n" using owned_field [OF ow op(2)] less.prems(6) by (auto split: if_splits)
    have "1 < r - l" using wf owned_inner(2,4) by (auto elim: seg_Some)
    then have "?r - ?l < r - l" "?l \<le> i" "i < ?r" using less.prems(4,5) by (auto simp: right_def owned_inner(5))
    then have "replaces (ref E ?o) (m(a := None)) ?c ?l ?r ((m(a := None))(x \<mapsto> n')) ?c i (Some v)"
      using ow op(1,2) x less.prems(7,8) by (intro less.hyps) auto
    moreover have "a \<notin> dom ((m(a := None))(x \<mapsto> n'))" using x by (auto split: if_splits)
    ultimately have "replaces E m (Some a) l r ((m(a := None))(x \<mapsto> n', a \<mapsto> k\<lparr>sn_body := put_child right ?c (sn_body k)\<rparr>)) (Some a) i (Some v)"
      by (rule replaces_child [OF c owned_inner(2,3,4) wf owned_inner(5) less.prems(4,5) right_def])
    moreover have "put_child right ?c (sn_body k) = sn_body k" by (simp add: owned_inner(4) put_child_def)
    moreover have "(m(a := None))(x \<mapsto> n', a \<mapsto> k) = m(x \<mapsto> n')" using owned_inner(2) x by (auto simp: fun_eq_iff split: if_splits)
    ultimately show ?thesis by (simp add: owned_inner(1))
  qed
qed

subsection \<open>Insertion\<close>

lemma alloc_frame:
  assumes "alloc_static n s = (b, s')" "bounded s" "P \<subseteq> dom (ss_nodes s)"
  shows "outside P s' = (outside P s)(b \<mapsto> n)" "b \<notin> dom (ss_nodes s)" "b \<notin> P" "frame P s s'" "ss_nodes s' = (ss_nodes s)(b \<mapsto> n)"
proof -
  have b: "b = ss_next s" "s' = s\<lparr>ss_nodes := (ss_nodes s)(b \<mapsto> n), ss_next := Suc b\<rparr>" using assms(1) by (auto simp: alloc_static_def)
  show "b \<notin> dom (ss_nodes s)" using assms(2) b(1) by (auto simp: bounded_def)
  then show "b \<notin> P" using assms(3) by auto
  then show "outside P s' = (outside P s)(b \<mapsto> n)" by (auto simp: b(2) outside_def restrict_map_def fun_eq_iff)
  show "frame P s s'" using assms(2) \<open>b \<notin> P\<close> b(1) by (auto simp: frame_def b(2) bounded_def)
  show "ss_nodes s' = (ss_nodes s)(b \<mapsto> n)" by (simp add: b(2))
qed

lemma new_root:
  assumes "counted E (outside P s)" "alloc_static n s = (b, s')" "bounded s" "P \<subseteq> dom (ss_nodes s)" "sn_refcnt n = 1" "refs E (sn_body n) = E"
  shows "counted (ref E (Some b)) (outside P s')" "keeps E (outside P s) (outside P s')"
proof -
  note al = alloc_frame [OF assms(2-4)]
  have new: "b \<notin> dom (outside P s)" using al(2) by (simp add: outside_dom)
  show "counted (ref E (Some b)) (outside P s')" unfolding al(1) using assms(1,5,6) new by (intro counted_close) simp_all
  show "keeps E (outside P s) (outside P s')" unfolding al(1) using new by (intro keeps_le) (auto simp: map_le_def)
qed

lemma set_only_frame:
  "bounded s \<Longrightarrow> frame P s (s\<lparr>ss_sets := t\<rparr>)" "outside P (s\<lparr>ss_sets := t\<rparr>) = outside P s" "bounded (s\<lparr>ss_sets := t\<rparr>) = bounded s"
  by (simp_all add: frame_def bounded_def outside_def)

lemma new_leaf_ok:
  assumes run: "new_leaf initval s = Some (rt', s')" and m: "counted E (outside P s)" "bounded s" "P \<subseteq> dom (ss_nodes s)" and seg: "r - l \<le> 1" "l \<le> i" "i < r"
  shows "frame P s s' \<and> (\<exists>w. replaces E (outside P s) None l r (outside P s') rt' i w) \<and> owned (outside P s') i rt' l r rt'"
proof -
  let ?n = "\<lambda>v. (cesk_static_tree_node_new (SLeaf v))\<lparr>sn_refcnt := 1\<rparr>"
  have leaf: "frame P s s' \<and> (\<exists>w. replaces E (outside P s) None l r (outside P s') rt' i w) \<and> owned (outside P s') i rt' l r rt'"
    if "rt' = Some a" "alloc_static (?n v) (s\<lparr>ss_sets := t\<rparr>) = (a, s')" for a v t
  proof -
    let ?s = "s\<lparr>ss_sets := t\<rparr>"
    have n: "counted E (outside P ?s)" "bounded ?s" "P \<subseteq> dom (ss_nodes ?s)" "sn_refcnt (?n v) = 1" "sn_body (?n v) = SLeaf v"
      using m by (simp_all add: set_only_frame cesk_static_tree_node_new_def)
    note al = alloc_frame [OF that(2) n(2,3)] and new = new_root [OF n(1) that(2) n(2-4)]
    have a: "outside P s' a = Some (?n v)" by (simp add: al(1))
    have "counted (ref E (Some a)) (outside P s')" "keeps E (outside P s) (outside P s')" using new n(5) by (simp_all add: set_only_frame)
    moreover have "segment_tree (outside P s') (Some a) l r" using a n(5) seg(1) by (rule seg_leaf)
    moreover have "field_at (outside P s') (Some a) l r j = Some v" for j using a n(5) seg(1) by (rule field_leaf)
    moreover have "frame P s s'" using frame_trans [OF set_only_frame(1) [OF m(2)] al(4)] .
    moreover have "owned (outside P s') i (Some a) l r (Some a)" using a n(4,5) by (rule owned_leaf)
    ultimately show ?thesis using that(1) seg by (auto simp: replaces_def intro!: exI [of _ "Some v"])
  qed
  have same: "s\<lparr>ss_sets := ss_sets s\<rparr> = s" by simp
  show ?thesis
  proof (cases "initval = CESK_STORE_ADDR_NULL")
    case True
    then show ?thesis using run leaf [of _ None "ss_sets s"] by (auto simp: new_leaf_def same split: prod.splits)
  next
    case False
    then obtain e t0 rc v t where t: "cesk_set_empty_set (ss_sets s) = Some (e, t0)" "cesk_set_push (Some e) initval t0 = Some (rc, v, t)"
      and res: "(rt', s') = (if rc < 0 then (None, s\<lparr>ss_sets := t\<rparr>)
        else case alloc_static (?n v) (s\<lparr>ss_sets := t\<rparr>) of (a, s) \<Rightarrow> (Some a, s))"
      using run by (auto simp: new_leaf_def set_op_def Let_def split: bind_splits if_splits)
    show ?thesis
    proof (cases "rc < 0")
      case True
      then have "rt' = None" "s' = s\<lparr>ss_sets := t\<rparr>" using res by auto
      then show ?thesis using m by (auto simp: set_only_frame replaces_def keeps_refl intro!: seg_None owned_None exI [of _ None])
    next
      case False
      then show ?thesis using res leaf [of _ v t] by (auto split: prod.splits)
    qed
  qed
qed

text \<open>The node above a missing subtree, when there is one, is owned; the way to the new leaf is owned too.\<close>

definition grown :: "(nat \<Rightarrow> nat) \<Rightarrow> nat set \<Rightarrow> static_state \<Rightarrow> nat option \<Rightarrow> nat \<Rightarrow> nat \<Rightarrow> nat \<Rightarrow> nat option \<Rightarrow> nat option \<Rightarrow> static_state \<Rightarrow> bool" where
  "grown E P s rt l r i rt' t s' \<longleftrightarrow> frame P s s' \<and> (\<exists>w. replaces E (outside P s) rt l r (outside P s') rt' i w) \<and>
     owned (outside P s') i rt' l r t"

lemma grown_down:
  assumes b: "counted (ref E (Some b)) (outside P s1)" "outside P s1 b = Some n" "sn_refcnt n = 1" "sn_body n = SInner c0 c1"
    and wf: "segment_tree (outside P s1) (Some b) l r" and mid: "mid = (l + r) div 2" and i: "l \<le> i" "i < r" "right = (mid \<le> i)"
    and sub: "grown (ref E (if right then c0 else c1)) (insert b P) s1 (if right then c1 else c0)
      (if right then mid else l) (if right then r else mid) i c t s2" and run: "set_child b right c s2 = Some s3"
  shows "grown E P s1 (Some b) l r i (Some b) t s3"
proof -
  obtain w where w: "replaces (ref E (if right then c0 else c1)) (outside (insert b P) s1) (if right then c1 else c0)
      (if right then mid else l) (if right then r else mid) (outside (insert b P) s2) c i w"
    using sub by (auto simp: grown_def)
  show ?thesis
    using down [OF b wf mid i w, where t = t] sub run by (auto simp: grown_def)
qed

lemma new_path_ok:
  assumes "new_path l r i initval s = Some (rt', t, s')" "counted E (outside P s)" "bounded s" "P \<subseteq> dom (ss_nodes s)" "l \<le> i" "i < r"
  shows "grown E P s None l r i rt' t s'"
  using assms
proof (induction "r - l" arbitrary: l r s rt' t s' E P rule: less_induct)
  case less
  show ?case
  proof (cases "r - l \<le> 1")
    case True
    then obtain a where "new_leaf initval s = Some (a, s')" "rt' = a" "t = a"
      using less.prems(1) by (subst (asm) new_path.simps) (auto split: bind_splits)
    then show ?thesis using new_leaf_ok [OF _ less.prems(2-4) True less.prems(5,6)] by (simp add: grown_def)
  next
    case False
    define mid where "mid = (l + r) div 2"
    define right where "right = (mid \<le> i)"
    let ?l = "if right then mid else l" and ?r = "if right then r else mid"
    define n where "n = (cesk_static_tree_node_new (SInner None None))\<lparr>sn_refcnt := 1\<rparr>"
    have n: "sn_refcnt n = 1" "sn_body n = SInner None None" "refs E (sn_body n) = E"
      by (simp_all add: n_def cesk_static_tree_node_new_def refs_inner)
    obtain b s1 where al: "alloc_static n s = (b, s1)" by fastforce
    obtain c s2 where rec: "new_path ?l ?r i initval s1 = Some (c, t, s2)" and run: "set_child b right c s2 = Some s'" and rt': "rt' = Some b"
      using less.prems(1) False al
      by (subst (asm) new_path.simps) (auto simp: Let_def right_def mid_def n_def split: bind_splits if_splits)
    note fr = alloc_frame [OF al less.prems(3,4)] and new = new_root [OF less.prems(2) al less.prems(3,4) n(1,3)]
    have b: "outside P s1 b = Some n" by (simp add: fr(1))
    have wf1: "segment_tree (outside P s1) (Some b) l r" using False by (intro seg_inner [where m = "outside P s1" and a = b, OF b n(2)] seg_None) simp_all
    note op = child_open [OF new(1) b n(1,2) wf1 mid_def, where right = right]
    have P1: "insert b P \<subseteq> dom (ss_nodes s1)" "bounded s1" using fr(4,5) less.prems(4) by (auto simp: frame_def)
    have lt: "?r - ?l < r - l" "?l \<le> i" "i < ?r" using False less.prems(5,6) by (auto simp: right_def mid_def)
    have "grown E (insert b P) s1 None ?l ?r i c t s2"
      using less.hyps [OF lt(1) rec _ P1(2,1) lt(2,3)] op(1) by (simp add: outside_insert)
    then have g: "grown E P s1 (Some b) l r i (Some b) t s'"
      by (intro grown_down [OF new(1) b n(1,2) wf1 mid_def less.prems(5,6) right_def _ run]) simp
    have "field_at (outside P s1) (Some b) l r j = None" for j
      using False by (simp add: field_inner [where m = "outside P s1" and a = b, OF b n(2)])
    then show ?thesis
      using g new(2) fr(4) rt' keeps_trans frame_trans unfolding grown_def replaces_def by auto
  qed
qed

lemma insert_loop_ok:
  assumes "insert_loop node l r i initval s = Some (res, node', s')" "counted (ref E node) (outside P s)"
    and "segment_tree (outside P s) node l r" "owned (outside P s) i node l r None"
    and "bounded s" "P \<subseteq> dom (ss_nodes s)" "l \<le> i" "i < r"
  shows "\<exists>t. grown E P s node l r i node' t s' \<and> res = (case t of None \<Rightarrow> InsertError | Some x \<Rightarrow> Inserted node' x)"
  using assms
proof (induction "r - l" arbitrary: node l r s res node' s' E P rule: less_induct)
  case less
  from less.prems(4) show ?case
  proof cases
    case owned_None
    then obtain t where "new_path l r i initval s = Some (node', t, s')" "res = (case t of None \<Rightarrow> InsertError | Some x \<Rightarrow> Inserted node' x)"
      using less.prems(1) by (subst (asm) insert_loop.simps) (auto split: bind_splits option.splits)
    then show ?thesis
      using new_path_ok [OF _ _ less.prems(5-8)] less.prems(2) owned_None(1) by (intro exI [of _ t]) simp
  next
    case (owned_inner b n c0 c1 mid)
    define right where "right = (mid \<le> i)"
    let ?c = "if right then c1 else c0" and ?o = "if right then c0 else c1" and ?l = "if right then mid else l" and ?r = "if right then r else mid"
    note b = less.prems(2) [unfolded owned_inner(1)] owned_inner(2-4) and wf = less.prems(3) [unfolded owned_inner(1)]
    note op = child_open [OF b wf owned_inner(5), where right = right]
    have big: "1 < r - l" using wf b(2,4) by (auto elim: seg_Some)
    have nb: "b \<notin> P" "ss_nodes s b = Some n" using b(2) by (auto simp: outside_Some)
    then have "child_of right b s = Some ?c" using b(4) by (simp add: child_of_def)
    then obtain res1 c s2 where rec: "insert_loop ?c ?l ?r i initval s = Some (res1, c, s2)" and run: "set_child b right c s2 = Some s'"
      and out: "node' = Some b" "res = (case res1 of Inserted _ x \<Rightarrow> Inserted (Some b) x | _ \<Rightarrow> res1)"
      using less.prems(1) big unfolding owned_inner(1)
      by (subst (asm) insert_loop.simps) (auto simp: Let_def right_def owned_inner(5) split: bind_splits if_splits)
    have lt: "?r - ?l < r - l" "?l \<le> i" "i < ?r" using big less.prems(7,8) by (auto simp: right_def owned_inner(5))
    have dom: "\<forall>y. ?c = Some y \<longrightarrow> y \<in> dom ((outside P s)(b := None))"
      using countedD(4) [OF op(1)] unfolding dom_def ref_def by (simp del: fun_upd_apply)
    have le0: "(outside P s)(b := None) \<subseteq>\<^sub>m outside P s" by (simp add: map_le_def)
    have "owned ((outside P s)(b := None)) i ?c ?l ?r None"
      using owned_smaller [OF owned_inner(6) op(1) le0] dom by (simp add: right_def)
    then obtain t where t: "grown (ref E ?o) (insert b P) s ?c ?l ?r i c t s2" "res1 = (case t of None \<Rightarrow> InsertError | Some x \<Rightarrow> Inserted c x)"
      using less.hyps [OF lt(1) rec _ _ _ less.prems(5) _ lt(2,3), of "ref E ?o" "insert b P"] op(1,2) nb less.prems(6)
      by (auto simp: outside_insert)
    have "grown E P s (Some b) l r i (Some b) t s'"
      by (rule grown_down [OF b wf owned_inner(5) less.prems(7,8) right_def t(1) run])
    then show ?thesis using out t(2) owned_inner(1) by (auto split: option.splits intro!: exI [of _ t])
  qed
qed

end
