(* ===== verification/Cesk_Static_Tables.thy ===== *)
theory Cesk_Static_Tables
  imports Cesk_Static_Cow
begin

text \<open>
  The tables of static fields as their clients use them: any number of tables that share their trees, the slot
  that a write gets, forks and releases, the comparison of two tables, and the numbers of the fields.
\<close>

subsection \<open>Tables\<close>

definition table_refs :: "static_table list \<Rightarrow> nat \<Rightarrow> nat" where
  "table_refs tbs x = length (filter (\<lambda>tb. tb_root tb = Some x) tbs)"

text \<open>The tables in use are well formed, and the counter of a node is the number of tables and nodes that refer to it.\<close>

definition static_inv :: "static_table list \<Rightarrow> static_state \<Rightarrow> bool" where
  "static_inv tbs s \<longleftrightarrow> bounded s \<and> counted (table_refs tbs) (ss_nodes s) \<and>
     (\<forall>tb \<in> set tbs. segment_tree (ss_nodes s) (tb_root tb) 0 (ss_count s))"

definition table_field :: "static_state \<Rightarrow> static_table \<Rightarrow> nat \<Rightarrow> u32 option option" where
  "table_field s tb j = field_at (ss_nodes s) (tb_root tb) 0 (ss_count s) j"

lemma table_refs_Cons: "table_refs (tb # tbs) = ref (table_refs tbs) (tb_root tb)"
  by (simp add: table_refs_def ref_def fun_eq_iff)

lemma outside_empty [simp]: "outside {} s = ss_nodes s"
  by (simp add: outside_def restrict_map_def)

lemma table_reached: "tb \<in> set tbs \<Longrightarrow> tb_root tb = Some x \<Longrightarrow> reached (table_refs tbs) m x"
  by (rule reached_ext) (auto simp: table_refs_def filter_empty_conv)

text \<open>Replacing the tree of one table leaves the other tables as they are.\<close>

lemma static_inv_replace:
  assumes inv: "static_inv (tb # tbs) s" and rep: "replaces (table_refs tbs) (ss_nodes s) (tb_root tb) 0 (ss_count s) (ss_nodes s') (tb_root tb') i w"
    and fr: "frame {} s s'"
  shows "static_inv (tb' # tbs) s'" "\<forall>ot \<in> set tbs. \<forall>j. table_field s' ot j = table_field s ot j"
    "\<forall>j < ss_count s. table_field s' tb' j = (if j = i then w else table_field s tb j)"
proof -
  have cnt: "ss_count s' = ss_count s" "bounded s'" using fr by (simp_all add: frame_def)
  have others: "segment_tree (ss_nodes s') (tb_root ot) 0 (ss_count s) \<and>
      (\<forall>j. field_at (ss_nodes s') (tb_root ot) 0 (ss_count s) j = field_at (ss_nodes s) (tb_root ot) 0 (ss_count s) j)" if "ot \<in> set tbs" for ot
    by (rule tree_kept [of "ss_nodes s" _ _ _ "table_refs tbs"])
      (use inv rep that in \<open>auto simp: static_inv_def replaces_def intro: table_reached\<close>)
  show "static_inv (tb' # tbs) s'" using rep others cnt by (simp add: static_inv_def table_refs_Cons replaces_def)
  show "\<forall>ot \<in> set tbs. \<forall>j. table_field s' ot j = table_field s ot j" using others by (simp add: table_field_def cnt)
  show "\<forall>j < ss_count s. table_field s' tb' j = (if j = i then w else table_field s tb j)"
    using rep by (simp add: table_field_def replaces_def cnt)
qed

lemma insert_ok:
  assumes run: "cesk_static_tree_insert rt i initval s = Some (Inserted rt' x, s')" and m: "counted (ref E rt) (ss_nodes s)" "segment_tree (ss_nodes s) rt 0 (ss_count s)"
    and s: "bounded s" "leaves_live s" and i: "i < ss_count s" "field_at (ss_nodes s) rt 0 (ss_count s) i = None"
  shows "frame {} s s' \<and> (\<exists>w. replaces E (ss_nodes s) rt 0 (ss_count s) (ss_nodes s') rt' i w) \<and> owned (ss_nodes s') i rt' 0 (ss_count s) (Some x)"
proof -
  obtain rt1 t s1 where p: "cesk_static_tree_prepare_to_write rt 0 (ss_count s) i s = Some (rt1, t, s1)" "tidy {} s s1"
    "replaces E (ss_nodes s) rt 0 (ss_count s) (ss_nodes s1) rt1 i (field_at (ss_nodes s) rt 0 (ss_count s) i)"
    "owned (ss_nodes s1) i rt1 0 (ss_count s) t"
    using prepare_ok [of E rt "{}" s 0 "ss_count s" i] m s i by auto
  have one: "counted (ref E rt1) (ss_nodes s1)" "segment_tree (ss_nodes s1) rt1 0 (ss_count s)" "field_at (ss_nodes s1) rt1 0 (ss_count s) i = None"
    using p(3) i by (simp_all add: replaces_def)
  have cnt: "ss_count s1 = ss_count s" "bounded s1" using tidyD(3) [OF p(2)] by (simp_all add: frame_def)
  have "t = None" using owned_field [OF p(4) one(2)] one(3) by (auto split: option.splits)
  moreover obtain node where loop: "insert_loop rt1 0 (ss_count s) i initval s1 = Some (Inserted rt' x, node, s')"
    using run p(1) cnt by (auto simp: cesk_static_tree_insert_def split: bind_splits)
  ultimately obtain t' where g: "grown E {} s1 rt1 0 (ss_count s) i node t' s'" "Inserted rt' x = (case t' of None \<Rightarrow> InsertError | Some y \<Rightarrow> Inserted node y)"
    using insert_loop_ok [of rt1 0 "ss_count s" i initval s1 "Inserted rt' x" node s' E "{}"] one cnt p(4) i(1) by auto
  then have "t' = Some x" "node = rt'" by (auto split: option.splits)
  with g(1) show ?thesis
    using replaces_trans [OF p(3)] frame_trans [OF tidyD(3) [OF p(2)]] by (auto simp: grown_def)
qed

text \<open>The slot that the caller gets is the end of an owned way in the tree of its table.\<close>

lemma get_rw_ok:
  assumes inv: "static_inv (tb # tbs) s" and live: "leaves_live s"
    and run: "cesk_static_table_get_rw (Some tb) addr init s = Some (Some x, Some tb', s')"
  defines "i \<equiv> CESK_FRAME_REG_STATIC_IDX addr"
  shows "CESK_FRAME_REG_IS_STATIC addr \<and> i < ss_count s \<and> frame {} s s' \<and> owned (ss_nodes s') i (tb_root tb') 0 (ss_count s) (Some x) \<and>
    (\<exists>w. replaces (table_refs tbs) (ss_nodes s) (tb_root tb) 0 (ss_count s) (ss_nodes s') (tb_root tb') i w \<and>
      (table_field s tb i \<noteq> None \<longrightarrow> w = table_field s tb i))"
proof -
  let ?E = "table_refs tbs" and ?n = "ss_count s"
  have st: "bounded s" "counted (ref ?E (tb_root tb)) (ss_nodes s)" "segment_tree (ss_nodes s) (tb_root tb) 0 ?n"
    using inv by (simp_all add: static_inv_def table_refs_Cons)
  have ad: "CESK_FRAME_REG_IS_STATIC addr" "i < ?n"
    using run by (auto simp: cesk_static_table_get_rw_def i_def Let_def split: if_splits)
  obtain rt t s1 where p: "cesk_static_tree_prepare_to_write (tb_root tb) 0 ?n i s = Some (rt, t, s1)" "tidy {} s s1"
    "replaces ?E (ss_nodes s) (tb_root tb) 0 ?n (ss_nodes s1) rt i (table_field s tb i)" "owned (ss_nodes s1) i rt 0 ?n t"
    using prepare_ok [of ?E "tb_root tb" "{}" s 0 ?n i] st live ad by (auto simp: table_field_def)
  have one: "counted (ref ?E rt) (ss_nodes s1)" "segment_tree (ss_nodes s1) rt 0 ?n" "field_at (ss_nodes s1) rt 0 ?n i = table_field s tb i"
    using p(3) ad(2) by (simp_all add: replaces_def)
  have cnt: "ss_count s1 = ?n" "bounded s1" using tidyD(3) [OF p(2)] by (simp_all add: frame_def)
  show ?thesis
  proof (cases t)
    case (Some a)
    have "x = a" "tb_root tb' = rt" "s' = s1"
      using run ad p(1) Some by (auto simp: cesk_static_table_get_rw_def cesk_static_table_update_hashcode_def i_def Let_def split: bind_splits)
    then show ?thesis using p Some ad tidyD(3) [OF p(2)] by auto
  next
    case None
    have absent: "table_field s tb i = None" using owned_field [OF p(4) one(2)] None one(3) by simp
    obtain iv where ins: "cesk_static_tree_insert rt i iv s1 = Some (Inserted (tb_root tb') x, s')"
      using run ad p(1) None
      by (auto simp: cesk_static_table_get_rw_def cesk_static_table_init_field_def i_def Let_def
          split: bind_splits if_splits insert_result.splits)
    have "frame {} s1 s' \<and> (\<exists>w. replaces ?E (ss_nodes s1) rt 0 ?n (ss_nodes s') (tb_root tb') i w) \<and> owned (ss_nodes s') i (tb_root tb') 0 ?n (Some x)"
      using insert_ok [OF ins] one cnt absent ad tidyD(2) [OF p(2)] by simp
    then show ?thesis using ad absent frame_trans [OF tidyD(3) [OF p(2)]] replaces_trans [OF p(3)] by blast
  qed
qed

subsection \<open>Dropping a reference\<close>

lemma decref_ok:
  assumes "cesk_static_tree_node_decref fuel rt s = Some s'" "counted (ref E rt) (outside P s)" "segment_tree (outside P s) rt l r"
    and "bounded s" "P \<subseteq> dom (ss_nodes s)"
  shows "counted E (outside P s') \<and> keeps E (outside P s) (outside P s') \<and> frame P s s'"
  using assms
proof (induction fuel arbitrary: rt s s' E P l r)
  case 0
  then show ?case by (cases rt) (simp_all add: keeps_refl frame_refl)
next
  case (Suc fuel)
  show ?case
  proof (cases rt)
    case None
    with Suc.prems show ?thesis by (simp add: keeps_refl frame_refl)
  next
    case (Some a)
    obtain n where n: "outside P s a = Some n" using Suc.prems(3) by (auto simp: Some elim: seg_Some)
    then have na: "a \<notin> P" "ss_nodes s a = Some n" by (simp_all add: outside_Some)
    note c = Suc.prems(2) [unfolded Some]
    show ?thesis
    proof (cases "sn_refcnt n = 1")
      case False
      then have "upd_static a (\<lambda>n. n\<lparr>sn_refcnt := sn_refcnt n - 1\<rparr>) s = Some s'"
        using Suc.prems(1) na(2) by (auto simp: Some split: if_splits)
      then have s': "s' = s\<lparr>ss_nodes := (ss_nodes s)(a \<mapsto> n\<lparr>sn_refcnt := sn_refcnt n - 1\<rparr>)\<rparr>" using na(2) by (simp add: upd_static_def)
      have "frame P s s'" using Suc.prems(4) na by (auto simp: frame_def bounded_def s')
      moreover have out: "outside P s' = (outside P s)(a \<mapsto> n\<lparr>sn_refcnt := sn_refcnt n - 1\<rparr>)" unfolding s' by (rule outside_upd [OF na(1)])
      moreover have "keeps E (outside P s) (outside P s')" using n by (auto simp: out keeps_def)
      ultimately show ?thesis using counted_decref [OF c n] by metis
    next
      case True
      let ?Q = "insert a P"
      have Q: "counted (refs E (sn_body n)) (outside ?Q s)" "?Q \<subseteq> dom (ss_nodes s)"
        using counted_open(1) [OF c n True] Suc.prems(5) na(2) by (auto simp: outside_insert)
      have finish: ?thesis
        if "counted E (outside ?Q s1)" "keeps E (outside ?Q s) (outside ?Q s1)" "frame ?Q s s1"
          and s': "s' = s1\<lparr>ss_nodes := (ss_nodes s1)(a := None)\<rparr>" for s1
      proof -
        have out: "outside P s' = outside ?Q s1" using na(1) by (auto simp: s' outside_def restrict_map_def fun_eq_iff)
        have "keeps E (outside P s) (outside P s')"
          unfolding keeps_def
        proof (intro allI impI)
          fix x y assume x: "reached E (outside P s) x" "outside P s x = Some y"
          then have "x \<noteq> a" using open_unreached [OF c n True] by blast
          moreover have "reached E (outside ?Q s) x" using reached_open [OF x(1) c n True, of None] by (simp add: outside_insert)
          ultimately show "\<exists>y'. outside P s' x = Some y' \<and> sn_body y' = sn_body y"
            using keepsD [OF that(2), of x y] x(2) by (simp add: outside_insert out)
        qed
        moreover have "frame P s s'" using that(3) na by (auto simp: frame_def bounded_def s')
        ultimately show ?thesis using that(1) by (simp add: out)
      qed
      show ?thesis
      proof (cases "sn_body n")
        case (SLeaf v)
        then obtain t where "s' = (s\<lparr>ss_sets := t\<rparr>)\<lparr>ss_nodes := (ss_nodes s)(a := None)\<rparr>"
          using Suc.prems(1) na(2) True by (auto simp: Some split: bind_splits)
        then show ?thesis
          using Q(1) SLeaf Suc.prems(4) by (intro finish [of "s\<lparr>ss_sets := t\<rparr>"]) (simp_all add: set_only_frame keeps_refl)
      next
        case (SInner c0 c1)
        then obtain s1 s2 where r: "cesk_static_tree_node_decref fuel c0 s = Some s1" "cesk_static_tree_node_decref fuel c1 s1 = Some s2"
          and s': "s' = s2\<lparr>ss_nodes := (ss_nodes s2)(a := None)\<rparr>"
          using Suc.prems(1) na(2) True by (auto simp: Some split: bind_splits)
        define mid where "mid = (l + r) div 2"
        note wf = Suc.prems(3) [unfolded Some]
        note op0 = child_open [OF c n True SInner wf mid_def, where right = False, unfolded if_False]
          and op1 = child_open [OF c n True SInner wf mid_def, where right = True, unfolded if_True]
        have "counted (ref (ref E c1) c0) (outside ?Q s)" "segment_tree (outside ?Q s) c0 l mid" using op0 by (simp_all add: outside_insert)
        from Suc.IH [OF r(1) this Suc.prems(4) Q(2)]
        have one: "counted (ref E c1) (outside ?Q s1)" "keeps (ref E c1) (outside ?Q s) (outside ?Q s1)" "frame ?Q s s1" by blast+
        have "segment_tree (outside ?Q s1) c1 mid r"
        proof -
          have "\<forall>x. c1 = Some x \<longrightarrow> reached (ref E c1) (outside ?Q s) x" by (auto intro: reached_ext simp: ref_def)
          then show ?thesis using tree_kept [OF _ one(2), of c1 mid r] op1(2) by (simp add: outside_insert)
        qed
        moreover have "?Q \<subseteq> dom (ss_nodes s1)" "bounded s1" using Q(2) one(3) by (auto simp: frame_def domIff)
        ultimately have two: "counted E (outside ?Q s2)" "keeps E (outside ?Q s1) (outside ?Q s2)" "frame ?Q s1 s2"
          using Suc.IH [OF r(2) one(1)] by blast+
        have "keeps E (outside ?Q s) (outside ?Q s1)"
          unfolding keeps_def
        proof (intro allI impI)
          fix x y assume x: "reached E (outside ?Q s) x" "outside ?Q s x = Some y"
          have "reached (ref E c1) (outside ?Q s) x" using x(1)
            by (induction rule: reached.induct) (auto intro: reached_ext reached_slot simp: ref_def)
          then show "\<exists>y'. outside ?Q s1 x = Some y' \<and> sn_body y' = sn_body y" using keepsD [OF one(2)] x(2) by blast
        qed
        then show ?thesis
          using two one(3) s' by (intro finish [of s2]) (auto intro: keeps_trans frame_trans)
      qed
    qed
  qed
qed

subsection \<open>Comparison\<close>

text \<open>A field that an iterator returned: its test against the default value is defined, it holds the default value, and two of them can be compared.\<close>

definition tested :: "static_state \<Rightarrow> nat \<times> u32 \<Rightarrow> bool" where
  "tested s f \<longleftrightarrow> is_default (fst f) (Some (snd f)) s \<noteq> None"

definition holds_default :: "static_state \<Rightarrow> nat \<times> u32 \<Rightarrow> bool" where
  "holds_default s f \<longleftrightarrow> is_default (fst f) (Some (snd f)) s = Some True"

definition comparable :: "static_state \<Rightarrow> nat \<times> u32 \<Rightarrow> nat \<times> u32 \<Rightarrow> bool" where
  "comparable s f g \<longleftrightarrow> cesk_set_equal (Some (snd f)) (Some (snd g)) (ss_sets s) \<noteq> None"

lemma testedE:
  assumes "tested s (i, v)"
  obtains d where "is_default i (Some v) s = Some d" "d = holds_default s (i, v)"
  using assms by (auto simp: tested_def holds_default_def)

lemma strip_defaults_eq: "\<forall>f \<in> set rs. tested s f \<Longrightarrow> strip_defaults rs s = Some (dropWhile (holds_default s) rs)"
proof (induction rs s rule: strip_defaults.induct)
  case (2 j u rs s)
  then show ?case by (auto elim: testedE [of s j u])
qed simp

lemma skip_right_eq:
  assumes "\<forall>g \<in> set rs. tested s g \<and> comparable s (i, v) g"
  shows "skip_right i v rs s = Some (Skipped (dropWhile (holds_default s) rs)) \<or>
    skip_right i v rs s = Some Differ \<and> \<not> (\<forall>g \<in> set rs. holds_default s g)"
  using assms
proof (induction i v rs s rule: skip_right.induct)
  case (2 i v j u rs s)
  obtain d where d: "is_default j (Some u) s = Some d" "d = holds_default s (j, u)" using "2.prems" by (auto elim: testedE)
  obtain e where e: "cesk_set_equal (Some v) (Some u) (ss_sets s) = Some e" using "2.prems" by (auto simp: comparable_def)
  show ?case
  proof (cases d)
    case True
    then show ?thesis using "2.IH" [OF d(1)] "2.prems" d by auto
  next
    case False
    then show ?thesis using d e by simp
  qed
qed simp

lemma dropWhile_twice: "dropWhile P (dropWhile P xs) = dropWhile P xs"
  by (induction xs) auto

text \<open>The right iterator never passes a field whose value is not the default one.\<close>

lemma compare_fields_eq:
  assumes "\<forall>g \<in> set rs. tested s g" "\<forall>f \<in> set ls. tested s f \<and> (\<forall>g \<in> set rs. comparable s f g)"
  shows "(\<exists>xs. compare_fields ls rs s = Some (Skipped xs) \<and> set xs \<subseteq> set rs \<and> dropWhile (holds_default s) xs = dropWhile (holds_default s) rs) \<or>
    compare_fields ls rs s = Some Differ \<and> \<not> (\<forall>g \<in> set rs. holds_default s g)"
  using assms
proof (induction ls rs s rule: compare_fields.induct)
  case (2 i v ls rs s)
  obtain d where d: "is_default i (Some v) s = Some d" "d = holds_default s (i, v)" using "2.prems"(2) by (auto elim: testedE)
  show ?case
  proof (cases d)
    case True
    have run: "compare_fields ((i, v) # ls) rs s = compare_fields ls rs s" using d(1) True by simp
    show ?thesis unfolding run by (rule "2.IH"(1) [OF d(1) True]) (use "2.prems" in auto)
  next
    case False
    have "\<forall>g \<in> set rs. tested s g \<and> comparable s (i, v) g" using "2.prems" by simp
    from skip_right_eq [OF this] show ?thesis
    proof
      let ?xs = "dropWhile (holds_default s) rs"
      assume sk: "skip_right i v rs s = Some (Skipped ?xs)"
      have run: "compare_fields ((i, v) # ls) rs s = compare_fields ls ?xs s" using d(1) False sk by simp
      have sub: "set ?xs \<subseteq> set rs" using set_dropWhileD by fast
      have sub': "\<forall>g \<in> set ?xs. tested s g" "\<forall>f \<in> set ls. tested s f \<and> (\<forall>g \<in> set ?xs. comparable s f g)"
        using "2.prems" sub by auto
      from "2.IH"(2) [OF d(1) False sk refl sub'] show ?thesis
      proof
        assume "\<exists>xs. compare_fields ls ?xs s = Some (Skipped xs) \<and> set xs \<subseteq> set ?xs \<and> dropWhile (holds_default s) xs = dropWhile (holds_default s) ?xs"
        then show ?thesis unfolding run dropWhile_twice using sub by blast
      next
        assume "compare_fields ls ?xs s = Some Differ \<and> \<not> (\<forall>g \<in> set ?xs. holds_default s g)"
        then show ?thesis unfolding run using sub by blast
      qed
    next
      assume "skip_right i v rs s = Some Differ \<and> \<not> (\<forall>g \<in> set rs. holds_default s g)"
      then show ?thesis using d(1) False by simp
    qed
  qed
qed simp

lemma iter_all_leaf: "iter_all k tb b s = Some fs \<Longrightarrow> f \<in> set fs \<Longrightarrow> \<exists>a n. ss_nodes s a = Some n \<and> sn_body n = SLeaf (Some (snd f))"
proof (induction k tb b s arbitrary: fs rule: iter_all.induct)
  case (2 k tb b s)
  then obtain r where r: "cesk_static_table_iter_next tb b s = Some r" by (auto split: bind_splits)
  show ?case
  proof (cases r)
    case None
    then show ?thesis using "2.prems" r by simp
  next
    case (Some iv)
    then obtain i v gs where iv: "r = Some (i, v)" "iter_all k tb (Suc i) s = Some gs" "fs = (i, v) # gs" using "2.prems"(1) r by (cases iv) auto
    have "\<exists>a n. ss_nodes s a = Some n \<and> sn_body n = SLeaf (Some v)"
      using r iv(1) unfolding cesk_static_table_iter_next_def leaf_value_def
      by (simp split: bind_splits option.splits static_body.splits) (auto split: bind_splits static_body.splits, blast)
    then show ?thesis
    proof (cases "f = (i, v)")
      case False
      then show ?thesis using "2.IH" [OF r iv(1) refl iv(2)] "2.prems"(2) iv(3) by simp
    qed simp
  qed
qed simp

lemma live_set_known:
  assumes "set_inv t" "live_value t (Some v)"
  obtains q e x y where "node_key t q = Some (v, INFO_ADDR)" "get_info q t = Some e" "cesk_set_hash_find v INFO_ADDR t = Some q"
    "info_tags e = Some x" "tag_sets (set_tags t) x = Some y"
proof -
  obtain q where q: "node_key t q = Some (v, INFO_ADDR)" using assms(2) by (auto simp: live_value_def)
  then obtain e where e: "get_info q t = Some e" using live_handle [OF set_invD(1) [OF assms(1)]] by blast
  have "info_inv t v e" using set_invD(4) [OF assms(1)] q e by blast
  then show ?thesis using that q e hash_find_iff [OF set_invD(1) [OF assms(1)]] by (auto simp: info_inv_def)
qed

lemma live_comparable:
  assumes "set_inv (ss_sets s)" "live_value (ss_sets s) (Some (snd f))" "live_value (ss_sets s) (Some (snd g))"
  shows "comparable s f g"
proof -
  obtain p e x y where p: "node_key (ss_sets s) p = Some (snd f, INFO_ADDR)" "get_info p (ss_sets s) = Some e"
    "info_tags e = Some x" "tag_sets (set_tags (ss_sets s)) x = Some y" by (rule live_set_known [OF assms(1,2)])
  obtain q d z w where q: "node_key (ss_sets s) q = Some (snd g, INFO_ADDR)" "get_info q (ss_sets s) = Some d"
    "info_tags d = Some z" "tag_sets (set_tags (ss_sets s)) z = Some w" by (rule live_set_known [OF assms(1,3)])
  show ?thesis using set_equal_eq [OF assms(1) p(1,2) q(1,2) p(3,4) q(3,4)] by (simp add: comparable_def)
qed

lemma live_is_default:
  assumes "set_inv (ss_sets s)" "live_value (ss_sets s) (Some v)" "ss_default s = Some ds" "i < length ds"
  shows "\<exists>d h. is_default i (Some v) s = Some d \<and> cesk_static_field_hashcode i (Some v) s = Some h"
proof -
  obtain q e where "get_info q (ss_sets s) = Some e" "cesk_set_hash_find v INFO_ADDR (ss_sets s) = Some q"
    by (rule live_set_known [OF assms(1,2)])
  then obtain d where "is_default i (Some v) s = Some d" "\<exists>h. cesk_set_hashcode v (ss_sets s) = Some h"
    using assms(3,4) by (cases "info_size e = 1") (auto simp: is_default_def cesk_set_size_def cesk_set_hashcode_def)
  then show ?thesis by (auto simp: cesk_static_field_hashcode_def)
qed

subsection \<open>Properties of the tables\<close>

text \<open>
  C7: a write through a table of static fields is not seen by the tables that share nodes with it. The slot that
  \<^verbatim>\<open>cesk_static_table_get_rw\<close> returns is the leaf of the field in the table alone, with the value that the field had;
  after the caller has written it, the table differs in this field only, every other table has all the fields
  it had, and the counters of the nodes still count the references to them.
\<close>

theorem cesk_static_table_write_isolated:
  assumes "static_inv (tb # tbs) s" "leaves_live s"
    and "cesk_static_table_get_rw (Some tb) addr init s = Some (Some x, Some tb', s1)" "write_leaf x v s1 = Some s2"
  shows "CESK_FRAME_REG_STATIC_IDX addr < ss_count s \<and> static_inv (tb' # tbs) s2 \<and> ss_count s2 = ss_count s \<and>
    (\<forall>other \<in> set tbs. \<forall>j. table_field s2 other j = table_field s other j) \<and>
    (\<forall>j < ss_count s. table_field s2 tb' j = (if j = CESK_FRAME_REG_STATIC_IDX addr then Some v else table_field s tb j)) \<and>
    (table_field s tb (CESK_FRAME_REG_STATIC_IDX addr) \<noteq> None \<longrightarrow> leaf_value x s1 = table_field s tb (CESK_FRAME_REG_STATIC_IDX addr))"
proof -
  let ?i = "CESK_FRAME_REG_STATIC_IDX addr" and ?n = "ss_count s"
  obtain w where ad: "?i < ?n" and fr: "frame {} s s1" and ow: "owned (ss_nodes s1) ?i (tb_root tb') 0 ?n (Some x)"
    and rep: "replaces (table_refs tbs) (ss_nodes s) (tb_root tb) 0 ?n (ss_nodes s1) (tb_root tb') ?i w"
    and w: "table_field s tb ?i \<noteq> None \<longrightarrow> w = table_field s tb ?i"
    using get_rw_ok [OF assms(1-3)] by blast
  have one: "counted (ref (table_refs tbs) (tb_root tb')) (ss_nodes s1)" "segment_tree (ss_nodes s1) (tb_root tb') 0 ?n"
    "field_at (ss_nodes s1) (tb_root tb') 0 ?n ?i = w"
    using rep ad by (simp_all add: replaces_def)
  obtain n u where n: "ss_nodes s1 x = Some n" "sn_body n = SLeaf u" "w = Some u"
    using owned_field [OF ow one(2)] one(3) by auto
  have s2: "s2 = s1\<lparr>ss_nodes := (ss_nodes s1)(x \<mapsto> n\<lparr>sn_body := SLeaf v\<rparr>)\<rparr>"
    using assms(4) n(1) by (simp add: write_leaf_def upd_static_def)
  have "replaces (table_refs tbs) (ss_nodes s1) (tb_root tb') 0 ?n (ss_nodes s2) (tb_root tb') ?i (Some v)"
    unfolding s2 using owned_write [OF ow one(2,1) _ ad n(1), of "n\<lparr>sn_body := SLeaf v\<rparr>" v] by simp
  from replaces_trans [OF rep this] have rep2: "replaces (table_refs tbs) (ss_nodes s) (tb_root tb) 0 ?n (ss_nodes s2) (tb_root tb') ?i (Some v)" .
  have fr2: "frame {} s s2" using fr n(1) by (auto simp: frame_def s2 bounded_def)
  have "leaf_value x s1 = Some u" using n by (simp add: leaf_value_def)
  then show ?thesis
    using ad static_inv_replace [OF assms(1) rep2 fr2] fr2 w n(3) by (auto simp: frame_def)
qed

text \<open>A state with two tables that share a tree, for the witnesses.\<close>

definition shared_tables :: "set_state \<Rightarrow> static_state" where
  "shared_tables t = \<lparr>ss_nodes = [0 \<mapsto> \<lparr>sn_reloc = False, sn_refcnt = 2, sn_body = SInner (Some 1) None\<rparr>,
     1 \<mapsto> \<lparr>sn_reloc = False, sn_refcnt = 1, sn_body = SLeaf (Some 0)\<rparr>], ss_next = 2, ss_sets = t,
     ss_default = Some [CESK_STORE_ADDR_ZERO, CESK_STORE_ADDR_ZERO], ss_count = 2\<rparr>"

definition shared_table :: static_table where
  "shared_table = \<lparr>tb_hashcode = INIT_HASHCODE, tb_root = Some 0\<rparr>"

lemma shared_tables_inv: "static_inv [shared_table, shared_table] (shared_tables t)"
proof -
  let ?m = "ss_nodes (shared_tables t)"
  have dom: "dom ?m = {0, 1}" by (auto simp: shared_tables_def)
  have "counted (table_refs [shared_table, shared_table]) ?m"
    unfolding counted_def inrefs_def dom by (auto simp: shared_tables_def table_refs_def shared_table_def)
  moreover have "segment_tree ?m (Some 0) 0 2"
  proof (rule seg_inner [where m = ?m and a = 0])
    show "?m 0 = Some \<lparr>sn_reloc = False, sn_refcnt = 2, sn_body = SInner (Some 1) None\<rparr>" by (simp add: shared_tables_def)
    have "?m 1 = Some \<lparr>sn_reloc = False, sn_refcnt = 1, sn_body = SLeaf (Some 0)\<rparr>" by (simp add: shared_tables_def)
    then show "segment_tree ?m (Some 1) 0 ((0 + 2) div 2)" by (rule seg_leaf) simp_all
  qed (rule seg_None | simp)+
  ultimately show ?thesis using dom by (simp add: static_inv_def bounded_def shared_table_def) (simp add: shared_tables_def)
qed

lemma shared_tables_live:
  assumes "set_inv t" "live_set t 0 e"
  shows "leaves_live (shared_tables t)"
  using assms by (auto simp: leaves_live_def shared_tables_def live_value_def live_set_def split: if_splits)

text \<open>A field that has a value can always be written: its slot is found, with the value in it.\<close>

lemma get_rw_total:
  assumes "static_inv (tb # tbs) s" "leaves_live s" "CESK_FRAME_REG_IS_STATIC addr" "CESK_FRAME_REG_STATIC_IDX addr < ss_count s"
    and "table_field s tb (CESK_FRAME_REG_STATIC_IDX addr) = Some (Some d)" "ss_default s = Some ds" "ss_count s \<le> length ds"
  shows "\<exists>x tb' s'. cesk_static_table_get_rw (Some tb) addr init s = Some (Some x, Some tb', s') \<and> leaf_value x s' = Some (Some d)"
proof -
  let ?i = "CESK_FRAME_REG_STATIC_IDX addr" and ?E = "table_refs tbs" and ?n = "ss_count s"
  obtain rt t s1 where p: "cesk_static_tree_prepare_to_write (tb_root tb) 0 ?n ?i s = Some (rt, t, s1)" "tidy {} s s1"
    "replaces ?E (ss_nodes s) (tb_root tb) 0 ?n (ss_nodes s1) rt ?i (table_field s tb ?i)" "owned (ss_nodes s1) ?i rt 0 ?n t"
    using prepare_ok [of ?E "tb_root tb" "{}" s 0 ?n ?i] assms(1,2,4) by (auto simp: table_field_def static_inv_def table_refs_Cons)
  have one: "segment_tree (ss_nodes s1) rt 0 ?n" "field_at (ss_nodes s1) rt 0 ?n ?i = Some (Some d)"
    using p(3) assms(4,5) by (simp_all add: replaces_def)
  obtain a n where a: "t = Some a" "ss_nodes s1 a = Some n" "sn_body n = SLeaf (Some d)"
    using owned_field [OF p(4) one(1)] one(2) by (auto split: option.splits)
  have "leaves_live s1" "frame {} s s1" using tidyD [OF p(2)] by blast+
  then have s1: "set_inv (ss_sets s1)" "live_value (ss_sets s1) (Some d)" "ss_default s1 = Some ds"
    using a assms(6) unfolding leaves_live_def frame_def by auto
  obtain h where h: "cesk_static_field_hashcode ?i (Some d) s1 = Some h"
    using live_is_default [OF s1, of ?i] assms(4,7) by auto
  have v: "leaf_value a s1 = Some (Some d)" using a by (simp add: leaf_value_def)
  then have "cesk_static_table_get_rw (Some tb) addr init s = Some (Some a, Some (tb\<lparr>tb_root := rt, tb_hashcode := tb_hashcode tb XOR h\<rparr>), s1)"
    using p(1) a(1) h assms(3,4) by (simp add: cesk_static_table_get_rw_def cesk_static_table_update_hashcode_def Let_def)
  with v show ?thesis by blast
qed

lemma shared_tables_sizes: "ss_count (shared_tables t) = 2" "ss_default (shared_tables t) = Some [CESK_STORE_ADDR_ZERO, CESK_STORE_ADDR_ZERO]"
  by (simp_all add: shared_tables_def)

lemma shared_tables_field: "table_field (shared_tables t) shared_table 0 = Some (Some 0)"
proof -
  let ?m = "ss_nodes (shared_tables t)"
  have "?m 0 = Some \<lparr>sn_reloc = False, sn_refcnt = 2, sn_body = SInner (Some 1) None\<rparr>"
    "?m 1 = Some \<lparr>sn_reloc = False, sn_refcnt = 1, sn_body = SLeaf (Some 0)\<rparr>" by (simp_all add: shared_tables_def)
  then have "field_at ?m (Some 1) 0 1 0 = Some (Some 0)" "field_at ?m (Some 0) 0 2 0 = field_at ?m (Some 1) 0 1 0"
    by (simp_all add: field_leaf field_inner)
  then show ?thesis by (simp add: table_field_def shared_table_def shared_tables_def)
qed

lemma static_prefix [simp]: "CESK_FRAME_REG_IS_STATIC CESK_FRAME_REG_STATIC_PREFIX" "CESK_FRAME_REG_STATIC_IDX CESK_FRAME_REG_STATIC_PREFIX = 0"
  by (simp_all add: CESK_FRAME_REG_IS_STATIC_def CESK_FRAME_REG_STATIC_IDX_def CESK_FRAME_REG_STATIC_PREFIX_def)

lemma shared_tables_write:
  obtains t x tb' s1 s2 where "leaves_live (shared_tables t)" "write_leaf x None s1 = Some s2"
    "cesk_static_table_get_rw (Some shared_table) CESK_FRAME_REG_STATIC_PREFIX True (shared_tables t) = Some (Some x, Some tb', s1)"
proof -
  obtain t e where t: "set_inv t" "live_set t 0 e" by (rule empty_handle)
  note live = shared_tables_live [OF t]
  obtain x tb' s1 where x: "cesk_static_table_get_rw (Some shared_table) CESK_FRAME_REG_STATIC_PREFIX True (shared_tables t) = Some (Some x, Some tb', s1)"
    "leaf_value x s1 = Some (Some 0)"
    using get_rw_total [OF shared_tables_inv live static_prefix(1) _ _ shared_tables_sizes(2), of 0 True] shared_tables_field
    by (auto simp: shared_tables_sizes(1))
  then obtain s2 where "write_leaf x None s1 = Some s2" by (auto simp: leaf_value_def write_leaf_def upd_static_def split: bind_splits)
  then show thesis using that live x by blast
qed

theorem cesk_static_table_write_isolated_witness:
  "\<exists>t x tb' s1 s2.
    cesk_static_table_get_rw (Some shared_table) CESK_FRAME_REG_STATIC_PREFIX True (shared_tables t) = Some (Some x, Some tb', s1) \<and>
    write_leaf x None s1 = Some s2 \<and> static_inv [tb', shared_table] s2 \<and>
    table_field s2 shared_table 0 = Some (Some 0) \<and> table_field s2 tb' 0 = Some None"
proof -
  obtain t x tb' s1 s2 where r: "leaves_live (shared_tables t)" "write_leaf x None s1 = Some s2"
    "cesk_static_table_get_rw (Some shared_table) CESK_FRAME_REG_STATIC_PREFIX True (shared_tables t) = Some (Some x, Some tb', s1)"
    by (rule shared_tables_write)
  from shared_tables_sizes(1) cesk_static_table_write_isolated [OF shared_tables_inv r(1,3,2)] r shared_tables_field show ?thesis by fastforce
qed

text \<open>
  C30: \<^verbatim>\<open>cesk_static_table_get_rw\<close> never fails for a field that has a value: it returns a slot, which holds the
  value, whatever the sharing of the tables is.
\<close>

theorem cesk_static_table_get_rw_returns:
  assumes "static_inv (tb # tbs) s" "leaves_live s" "CESK_FRAME_REG_IS_STATIC addr" "CESK_FRAME_REG_STATIC_IDX addr < ss_count s"
    and "table_field s tb (CESK_FRAME_REG_STATIC_IDX addr) = Some (Some d)" "ss_default s = Some ds" "ss_count s \<le> length ds"
  shows "\<exists>x tb' s'. cesk_static_table_get_rw (Some tb) addr init s = Some (Some x, Some tb', s') \<and> leaf_value x s' = Some (Some d)"
  by (rule get_rw_total [OF assms])

theorem cesk_static_table_get_rw_returns_witness:
  "\<exists>t x tb' s'. cesk_static_table_get_rw (Some shared_table) CESK_FRAME_REG_STATIC_PREFIX False (shared_tables t) = Some (Some x, Some tb', s') \<and>
    leaf_value x s' = Some (Some 0)"
proof -
  obtain t e where t: "set_inv t" "live_set t 0 e" by (rule empty_handle)
  show ?thesis
    using cesk_static_table_get_rw_returns [OF shared_tables_inv shared_tables_live [OF t] static_prefix(1) _ _ shared_tables_sizes(2), of 0 False]
      shared_tables_field
    by (auto simp: shared_tables_sizes(1))
qed



text \<open>
  C14: \<^verbatim>\<open>cesk_static_table_equal\<close> does not compare the tables. Once the hash codes agree it answers whether every
  field of the right table has its default value, whatever the left table holds: the right iterator is not
  moved past a field that was compared, so that it is always left over. A table with a field that was written
  is never equal to itself.
\<close>

theorem cesk_static_table_equal_ignores_left:
  assumes "table_fields l s = Some ls" "table_fields r s = Some rs" "leaves_live s"
    and "ss_default s = Some ds" "\<forall>f \<in> set (ls @ rs). fst f < length ds"
  shows "cesk_static_table_equal (Some l) (Some r) s =
    Some (if tb_hashcode l = tb_hashcode r \<and> (\<forall>f \<in> set rs. is_default (fst f) (Some (snd f)) s = Some True) then 1 else 0)"
proof -
  have live: "set_inv (ss_sets s)" "live_value (ss_sets s) (Some (snd f))" if "f \<in> set (ls @ rs)" for f
  proof -
    show "set_inv (ss_sets s)" using assms(3) by (simp add: leaves_live_def)
    obtain a n where "ss_nodes s a = Some n" "sn_body n = SLeaf (Some (snd f))"
      using iter_all_leaf assms(1,2) \<open>f \<in> set (ls @ rs)\<close> unfolding table_fields_def by (metis Un_iff set_append)
    then show "live_value (ss_sets s) (Some (snd f))" using assms(3) by (auto simp: leaves_live_def)
  qed
  have t: "tested s f" if "f \<in> set (ls @ rs)" for f
    using live_is_default [OF live [OF that] assms(4)] assms(5) that by (auto simp: tested_def)
  have "comparable s f g" if "f \<in> set ls" "g \<in> set rs" for f g
    by (rule live_comparable) (use live [of f] live [of g] that in simp_all)
  with t have "\<forall>g \<in> set rs. tested s g" "\<forall>f \<in> set ls. tested s f \<and> (\<forall>g \<in> set rs. comparable s f g)" by simp_all
  from compare_fields_eq [OF this] have "tb_hashcode l = tb_hashcode r \<Longrightarrow>
      cesk_static_table_equal (Some l) (Some r) s = Some (if \<forall>f \<in> set rs. holds_default s f then 1 else 0)"
  proof
    assume eq: "tb_hashcode l = tb_hashcode r"
      and "\<exists>xs. compare_fields ls rs s = Some (Skipped xs) \<and> set xs \<subseteq> set rs \<and> dropWhile (holds_default s) xs = dropWhile (holds_default s) rs"
    then obtain xs where xs: "compare_fields ls rs s = Some (Skipped xs)" "set xs \<subseteq> set rs"
      "dropWhile (holds_default s) xs = dropWhile (holds_default s) rs" by blast
    have "strip_defaults xs s = Some (dropWhile (holds_default s) rs)" using strip_defaults_eq [of xs s] \<open>\<forall>g \<in> set rs. tested s g\<close> xs by fastforce
    then show ?thesis using eq assms(1,2) xs(1) by (simp add: cesk_static_table_equal_def dropWhile_eq_Nil_conv)
  next
    assume "tb_hashcode l = tb_hashcode r" "compare_fields ls rs s = Some Differ \<and> \<not> (\<forall>g \<in> set rs. holds_default s g)"
    then show ?thesis using assms(1,2) by (simp add: cesk_static_table_equal_def)
  qed
  then show ?thesis by (cases "tb_hashcode l = tb_hashcode r") (auto simp: cesk_static_table_equal_def holds_default_def)
qed

lemma shared_tables_fields: "table_fields shared_table (shared_tables t) = Some [(0, 0)]"
  by (simp add: table_fields_def shared_table_def shared_tables_def numeral_eq_Suc cesk_static_table_iter_next_def cesk_static_tree_next_def
      way_down.simps leaf_at_def leaf_value_def)

theorem cesk_static_table_equal_ignores_left_witness:
  "\<exists>t. cesk_static_table_equal (Some shared_table) (Some shared_table) (shared_tables t) = Some 0"
proof -
  obtain t e where t: "set_inv t" "live_set t 0 e" "set_elems t 0 = {}" by (rule empty_handle)
  have "\<not> cesk_set_contain (Some 0) CESK_STORE_ADDR_ZERO t"
    using set_elems_find [OF set_invD(1) [OF t(1)], of CESK_STORE_ADDR_ZERO 0] t(3) by (simp add: cesk_set_contain_def)
  then have "is_default 0 (Some 0) (shared_tables t) \<noteq> Some True"
    by (simp add: is_default_def shared_tables_def split: bind_splits)
  with cesk_static_table_equal_ignores_left [OF shared_tables_fields shared_tables_fields shared_tables_live [OF t(1,2)] shared_tables_sizes(2)]
  show ?thesis by auto
qed

subsection \<open>The numbers of the fields\<close>

lemma static_address:
  assumes "i < 2 ^ 31"
  shows "CESK_FRAME_REG_IS_STATIC (CESK_FRAME_REG_STATIC_PREFIX OR of_nat i)"
    "CESK_FRAME_REG_STATIC_IDX (CESK_FRAME_REG_STATIC_PREFIX OR of_nat i) = i"
proof -
  define w where "w = (of_nat i :: u32)"
  have w: "unat w = i" using assms by (simp add: w_def unat_of_nat take_bit_nat_eq_self)
  then have low: "w < 0x80000000" using assms by (simp add: word_less_nat_alt)
  have "\<not> bit i 31" using assms by (simp add: bit_iff_odd)
  then have bit31: "\<not> bit w 31" by (simp add: w_def bit_of_nat_iff)
  have "bit (CESK_FRAME_REG_STATIC_PREFIX OR w) 31" by (simp add: CESK_FRAME_REG_STATIC_PREFIX_def bit_or_iff bit_numeral_rec numeral_eq_Suc)
  have split: "(CESK_FRAME_REG_STATIC_PREFIX OR w) AND CESK_FRAME_REG_STATIC_PREFIX = CESK_FRAME_REG_STATIC_PREFIX"
    by (metis word_ao_absorbs(1) word_bw_comms(1) word_bw_comms(2))
  then show "CESK_FRAME_REG_IS_STATIC (CESK_FRAME_REG_STATIC_PREFIX OR of_nat i)"
    unfolding w_def CESK_FRAME_REG_IS_STATIC_def by (simp add: CESK_FRAME_REG_STATIC_PREFIX_def)
  have "(CESK_FRAME_REG_STATIC_PREFIX OR w) AND NOT CESK_FRAME_REG_STATIC_PREFIX = w"
  proof (rule bit_word_eqI)
    fix k assume "k < LENGTH(32)"
    have pre: "CESK_FRAME_REG_STATIC_PREFIX = 2 ^ 31" by (simp add: CESK_FRAME_REG_STATIC_PREFIX_def)
    have "bit CESK_FRAME_REG_STATIC_PREFIX k \<longleftrightarrow> k = 31"
      unfolding pre bit_exp_iff using \<open>k < LENGTH(32)\<close> by auto
    then show "bit ((CESK_FRAME_REG_STATIC_PREFIX OR w) AND NOT CESK_FRAME_REG_STATIC_PREFIX) k \<longleftrightarrow> bit w k"
      using bit31 \<open>k < LENGTH(32)\<close> by (auto simp: bit_and_iff bit_or_iff bit_not_iff)
  qed
  then show "CESK_FRAME_REG_STATIC_IDX (CESK_FRAME_REG_STATIC_PREFIX OR of_nat i) = i"
    using w by (simp add: CESK_FRAME_REG_STATIC_IDX_def w_def)
qed



end
