(* ===== verification/Cesk_Diff.thy ===== *)
theory Cesk_Diff
  imports Cesk_Store_Cow
begin

text \<open>
  Diffs of abstract states (\<^verbatim>\<open>src/cesk/cesk_diff.c\<close>, \<^verbatim>\<open>include/cesk/cesk_diff.h\<close>). A diff is one array of
  records cut into five sections by six offsets: allocations, changes of the reuse flag, registers, store
  cells and deallocations. The records of a section are sorted by address. A buffer collects records in the
  order of execution and is turned into a diff, which then drops the allocations that nothing refers to.

  This theory holds the data, the buffers, the collection of garbage, the conversion of a buffer and the
  life of a diff. The array of a diff is a map from positions that have been written; \<open>df_cap\<close> is its
  length, and a write beyond it, a read of a position that was not written, a record whose union holds
  another kind of value and a null or dangling pointer that is followed are \<^const>\<open>None\<close> at the outer level. The
  exhaustion of memory is not modelled, and the texts of the log are left out.
\<close>

subsection \<open>Data\<close>

definition CESK_DIFF_ALLOC :: nat where "CESK_DIFF_ALLOC = 0"
definition CESK_DIFF_REUSE :: nat where "CESK_DIFF_REUSE = 1"
definition CESK_DIFF_REG :: nat where "CESK_DIFF_REG = 2"
definition CESK_DIFF_STORE :: nat where "CESK_DIFF_STORE = 3"
definition CESK_DIFF_DEALLOC :: nat where "CESK_DIFF_DEALLOC = 4"
definition CESK_DIFF_NTYPES :: nat where "CESK_DIFF_NTYPES = 5"

lemmas diff_sections =
  CESK_DIFF_ALLOC_def CESK_DIFF_REUSE_def CESK_DIFF_REG_def CESK_DIFF_STORE_def CESK_DIFF_DEALLOC_def CESK_DIFF_NTYPES_def

text \<open>
  The union of a record: a pointer to a value, a set, or a pointer that is used as a number and whose low byte
  is the boolean. \<open>AJunk\<close> is a field that has not been written.
\<close>

datatype diff_arg = AVal "nat option" | ASet "u32 option" | ABits u64 | AJunk

record diff_rec =
  dr_addr :: u32
  dr_arg :: diff_arg

record cesk_diff =
  df_index :: nat
  df_refcnt :: u32
  df_offset :: "nat list"
  df_cap :: nat
  df_data :: "nat \<rightharpoonup> diff_rec"

record diff_node =
  nd_type :: nat
  nd_addr :: u32
  nd_time :: int
  nd_value :: diff_arg

record diff_buffer =
  bf_converted :: nat
  bf_nodes :: "diff_node list"
  bf_reverse :: bool
  bf_merge :: bool

text \<open>The two static arrays of the collector and its clock.\<close>

record gc_marks =
  gc_keep :: "nat \<Rightarrow> u32"
  gc_del :: "nat \<Rightarrow> u32"
  gc_tick :: u32

record 'd diff_state =
  ds_heap :: "'d value_heap"
  ds_diffs :: "nat \<rightharpoonup> cesk_diff"
  ds_next :: nat
  ds_empty :: "nat option"
  ds_gc :: gc_marks

definition arg_value :: "diff_arg \<Rightarrow> nat option option" where
  "arg_value a = (case a of AVal v \<Rightarrow> Some v | _ \<Rightarrow> None)"

definition arg_set :: "diff_arg \<Rightarrow> u32 option option" where
  "arg_set a = (case a of ASet i \<Rightarrow> Some i | _ \<Rightarrow> None)"

definition arg_boolean :: "diff_arg \<Rightarrow> u8 option" where
  "arg_boolean a = (case a of ABits x \<Rightarrow> Some (ucast x) | _ \<Rightarrow> None)"

definition arg_null :: "diff_arg \<Rightarrow> bool" where
  "arg_null a \<longleftrightarrow> a = AVal None \<or> a = ASet None \<or> a = ABits 0"

text \<open>A write of the boolean leaves the other bytes of the pointer.\<close>

definition put_boolean :: "u8 \<Rightarrow> diff_arg \<Rightarrow> diff_arg" where
  "put_boolean b a = (case a of ABits x \<Rightarrow> ABits ((x AND NOT 0xff) OR ucast b) | _ \<Rightarrow> a)"

abbreviation offs :: "cesk_diff \<Rightarrow> nat \<Rightarrow> nat" where
  "offs d i \<equiv> df_offset d ! i"

definition set_offs :: "nat \<Rightarrow> nat \<Rightarrow> cesk_diff \<Rightarrow> cesk_diff" where
  "set_offs i v d = d\<lparr>df_offset := (df_offset d)[i := v]\<rparr>"

definition put_rec :: "nat \<Rightarrow> diff_rec \<Rightarrow> cesk_diff \<Rightarrow> cesk_diff option" where
  "put_rec p r d = (if p < df_cap d then Some (d\<lparr>df_data := (df_data d)(p \<mapsto> r)\<rparr>) else None)"

definition drop_value :: "diff_arg \<Rightarrow> 'd value_heap \<Rightarrow> 'd value_heap option" where
  "drop_value a h = do { v \<leftarrow> arg_value a; v \<leftarrow> v; cesk_value_decref v h }"

definition drop_set :: "diff_arg \<Rightarrow> 'd value_heap \<Rightarrow> 'd value_heap option" where
  "drop_set a h = do { i \<leftarrow> arg_set a; s \<leftarrow> cesk_set_free i (vh_sets h); Some (h\<lparr>vh_sets := s\<rparr>) }"

text \<open>What a record of a section owns is given back: the two loops of \<^verbatim>\<open>switch\<close> statements that free.\<close>

definition release_arg :: "nat \<Rightarrow> diff_arg \<Rightarrow> 'd value_heap \<Rightarrow> 'd value_heap option" where
  "release_arg sec a h =
     (if sec = CESK_DIFF_ALLOC \<or> sec = CESK_DIFF_STORE then drop_value a h
      else if sec = CESK_DIFF_REG then drop_set a h
      else Some h)"

subsection \<open>Buffers\<close>

definition cesk_diff_buffer_new :: "u8 \<Rightarrow> u32 \<Rightarrow> diff_buffer" where
  "cesk_diff_buffer_new reverse merge =
     \<lparr>bf_converted = 0, bf_nodes = [], bf_reverse = bit reverse 0, bf_merge = bit merge 0\<rparr>"

fun free_nodes :: "diff_node list \<Rightarrow> 'd value_heap \<Rightarrow> 'd value_heap option" where
  "free_nodes [] h = Some h"
| "free_nodes (n # ns) h =
     (if arg_null (nd_value n) then free_nodes ns h
      else do { h \<leftarrow> release_arg (nd_type n) (nd_value n) h; free_nodes ns h })"

definition cesk_diff_buffer_free :: "diff_buffer option \<Rightarrow> 'd value_heap \<Rightarrow> 'd value_heap option" where
  "cesk_diff_buffer_free mem h =
     (case mem of None \<Rightarrow> Some h | Some b \<Rightarrow> free_nodes (drop (bf_converted b) (bf_nodes b)) h)"

definition cesk_diff_buffer_append ::
  "diff_buffer option \<Rightarrow> nat \<Rightarrow> u32 \<Rightarrow> diff_arg \<Rightarrow> 'd value_heap \<Rightarrow> (int \<times> diff_buffer option \<times> 'd value_heap) option" where
  "cesk_diff_buffer_append buffer type addr value h =
     (case buffer of
        None \<Rightarrow> Some (-1, None, h)
      | Some b \<Rightarrow>
          if type \<noteq> CESK_DIFF_DEALLOC \<and> type \<noteq> CESK_DIFF_REUSE \<and> arg_null value then Some (-1, Some b, h)
          else do {
            let value = (if type = CESK_DIFF_DEALLOC then ABits 0 else value);
            let time = int (length (bf_nodes b));
            let time = (if bf_reverse b then - time else time);
            (value, h) \<leftarrow>
              (if type = CESK_DIFF_STORE \<or> type = CESK_DIFF_ALLOC
               then do { v \<leftarrow> arg_value value; v \<leftarrow> v; h \<leftarrow> cesk_value_incref v h; Some (value, h) }
               else if type = CESK_DIFF_REG
               then do { i \<leftarrow> arg_set value; (i, s) \<leftarrow> cesk_set_fork i (vh_sets h); Some (ASet i, h\<lparr>vh_sets := s\<rparr>) }
               else Some (value, h));
            Some (0, Some (b\<lparr>bf_nodes := bf_nodes b @ [\<lparr>nd_type = type, nd_addr = addr, nd_time = time, nd_value = value\<rparr>]\<rparr>), h)
          })"

text \<open>The inner \<^const>\<open>None\<close> is the null pointer that reports an error.\<close>

definition cesk_diff_buffer_append_peek ::
  "diff_buffer option \<Rightarrow> nat \<Rightarrow> u32 \<Rightarrow> diff_arg \<Rightarrow> 'd value_heap \<Rightarrow> (diff_arg option \<times> diff_buffer option \<times> 'd value_heap) option" where
  "cesk_diff_buffer_append_peek buffer type addr value h = do {
     (rc, buffer, h) \<leftarrow> cesk_diff_buffer_append buffer type addr value h;
     if rc < 0 then Some (None, buffer, h)
     else do { b \<leftarrow> buffer; Some (Some (nd_value (last (bf_nodes b))), buffer, h) } }"

text \<open>
  The order of the nodes, by section, address and time. \<^verbatim>\<open>qsort\<close> is not fixed to one algorithm; times are
  distinct, so that the sorted array is the same for all of them.
\<close>

definition cesk_diff_buffer_cmp :: "diff_node \<Rightarrow> diff_node \<Rightarrow> int" where
  "cesk_diff_buffer_cmp l r =
     (if nd_type l \<noteq> nd_type r then int (nd_type l) - int (nd_type r)
      else if nd_addr l \<noteq> nd_addr r then (if nd_addr l < nd_addr r then -1 else 1)
      else nd_time l - nd_time r)"

fun insert_node :: "('n \<Rightarrow> 'n \<Rightarrow> int) \<Rightarrow> 'n \<Rightarrow> 'n list \<Rightarrow> 'n list" where
  "insert_node cmp n [] = [n]"
| "insert_node cmp n (m # ms) = (if cmp n m \<le> 0 then n # m # ms else m # insert_node cmp n ms)"

fun qsort :: "('n \<Rightarrow> 'n \<Rightarrow> int) \<Rightarrow> 'n list \<Rightarrow> 'n list" where
  "qsort cmp [] = []"
| "qsort cmp (n # ns) = insert_node cmp n (qsort cmp ns)"

subsection \<open>Garbage\<close>

text \<open>The records of a section, in order. The code computes the length of a section as an unsigned number.\<close>

definition df_section :: "cesk_diff \<Rightarrow> nat \<Rightarrow> diff_rec list option" where
  "df_section d sec =
     (if offs d sec \<le> offs d (Suc sec) then map_opt (df_data d) [offs d sec..<offs d (Suc sec)] else None)"

definition CESK_STORE_ADDR_RELOC_SIZE :: nat where
  "CESK_STORE_ADDR_RELOC_SIZE = unat ((1 + NOT CESK_STORE_ADDR_RELOC_PREFIX) - (1 + NOT CESK_STORE_ADDR_CONST_PREFIX))"

text \<open>The mark \<open>buf[idx] = tick\<close> of the index of a relocated address.\<close>

definition mark_idx :: "u32 \<Rightarrow> u32 \<Rightarrow> (nat \<Rightarrow> u32) \<Rightarrow> (nat \<Rightarrow> u32) option" where
  "mark_idx tick addr buf =
     (let idx = unat (CESK_STORE_ADDR_RELOC_IDX addr)
      in if idx < CESK_STORE_ADDR_RELOC_SIZE then Some (buf(idx := tick)) else None)"

definition mark_addr :: "u32 \<Rightarrow> u32 \<Rightarrow> (nat \<Rightarrow> u32) \<Rightarrow> (nat \<Rightarrow> u32) option" where
  "mark_addr tick addr buf = (if CESK_STORE_ADDR_IS_RELOC addr then mark_idx tick addr buf else Some buf)"

fun mark_addrs :: "u32 \<Rightarrow> u32 list \<Rightarrow> (nat \<Rightarrow> u32) \<Rightarrow> (nat \<Rightarrow> u32) option" where
  "mark_addrs tick [] buf = Some buf"
| "mark_addrs tick (a # as) buf = do { buf \<leftarrow> mark_addr tick a buf; mark_addrs tick as buf }"

fun mark_elements :: "nat \<Rightarrow> u32 \<Rightarrow> nat option \<Rightarrow> set_state \<Rightarrow> (nat \<Rightarrow> u32) \<Rightarrow> (nat \<Rightarrow> u32) option" where
  "mark_elements 0 tick iter s buf = None"
| "mark_elements (Suc n) tick iter s buf = do {
     (addr, iter) \<leftarrow> cesk_set_iter_next iter s;
     if addr = CESK_STORE_ADDR_NULL then Some buf
     else do { buf \<leftarrow> mark_addr tick addr buf; mark_elements n tick iter s buf } }"

text \<open>A set whose iterator can not be acquired, the null pointer included, is skipped.\<close>

definition mark_set :: "u32 \<Rightarrow> u32 option \<Rightarrow> set_state \<Rightarrow> (nat \<Rightarrow> u32) \<Rightarrow> (nat \<Rightarrow> u32) option" where
  "mark_set tick st s buf =
     (case Option.bind st (\<lambda>i. cesk_set_iter i s) of
        None \<Rightarrow> Some buf
      | Some iter \<Rightarrow> mark_elements (Suc (next_node s)) tick iter s buf)"

text \<open>
  The addresses of an instance of a built-in class. The collector has two such loops: the one for the store
  section advances the offset, the one for the allocations reads the first part again and again.
\<close>

fun mark_builtin :: "bool \<Rightarrow> nat \<Rightarrow> nat \<Rightarrow> u32 \<Rightarrow> 'd bci_class_wrap \<Rightarrow> 'd \<Rightarrow> nat \<Rightarrow> (nat \<Rightarrow> u32) \<Rightarrow> (nat \<Rightarrow> u32) option" where
  "mark_builtin advance sz 0 tick wr d offset buf = None"
| "mark_builtin advance sz (Suc n) tick wr d offset buf =
     (case bci_class_read (Some d) offset sz (Some (wrap_class wr)) of
        (rc, as) \<Rightarrow>
          if rc \<le> 0 then Some buf
          else do {
            buf \<leftarrow> mark_addrs tick (take (nat rc) as) buf;
            mark_builtin advance sz n tick wr d (if advance then offset + nat rc else offset) buf })"

fun mark_object :: "bool \<Rightarrow> nat \<Rightarrow> nat \<Rightarrow> u32 \<Rightarrow> 'd object_struct list \<Rightarrow> (nat \<Rightarrow> u32) \<Rightarrow> (nat \<Rightarrow> u32) option" where
  "mark_object advance sz n tick [] buf = Some buf"
| "mark_object advance sz n tick (UdefStruct c tab # ss) buf = do {
     buf \<leftarrow> mark_addrs tick tab buf; mark_object advance sz n tick ss buf }"
| "mark_object advance sz n tick (BciStruct wr d # ss) buf = do {
     buf \<leftarrow> mark_builtin advance sz n tick wr d 0 buf; mark_object advance sz n tick ss buf }"

definition mark_value :: "bool \<Rightarrow> nat \<Rightarrow> nat \<Rightarrow> u32 \<Rightarrow> 'd cesk_value \<Rightarrow> set_state \<Rightarrow> (nat \<Rightarrow> u32) \<Rightarrow> (nat \<Rightarrow> u32) option" where
  "mark_value advance sz n tick x s buf =
     (case val_data x of
        VSet st \<Rightarrow> mark_set tick st s buf
      | VObject obj \<Rightarrow> do { obj \<leftarrow> obj; mark_object advance sz n tick (obj_members obj) buf })"

fun cesk_diff_gc_check_store_rec_inuse ::
  "nat \<Rightarrow> diff_rec list \<Rightarrow> u32 \<Rightarrow> 'd value_heap \<Rightarrow> (nat \<Rightarrow> u32) \<Rightarrow> (nat \<Rightarrow> u32) option" where
  "cesk_diff_gc_check_store_rec_inuse n [] tick h buf = Some buf"
| "cesk_diff_gc_check_store_rec_inuse n (r # rs) tick h buf = do {
     v \<leftarrow> arg_value (dr_arg r);
     (case v of
        None \<Rightarrow> cesk_diff_gc_check_store_rec_inuse n rs tick h buf
      | Some v \<Rightarrow> do {
          x \<leftarrow> vh_mem h v;
          buf \<leftarrow> mark_value True 1024 n tick x (vh_sets h) buf;
          cesk_diff_gc_check_store_rec_inuse n rs tick h buf }) }"

fun cesk_diff_gc_check_register_rec_inuse ::
  "diff_rec list \<Rightarrow> u32 \<Rightarrow> 'd value_heap \<Rightarrow> (nat \<Rightarrow> u32) \<Rightarrow> (nat \<Rightarrow> u32) option" where
  "cesk_diff_gc_check_register_rec_inuse [] tick h buf = Some buf"
| "cesk_diff_gc_check_register_rec_inuse (r # rs) tick h buf = do {
     st \<leftarrow> arg_set (dr_arg r);
     buf \<leftarrow> mark_set tick st (vh_sets h) buf;
     cesk_diff_gc_check_register_rec_inuse rs tick h buf }"

definition marked :: "u32 \<Rightarrow> (nat \<Rightarrow> u32) \<Rightarrow> u32 \<Rightarrow> bool" where
  "marked tick flags addr \<longleftrightarrow> flags (unat (CESK_STORE_ADDR_RELOC_IDX addr)) = tick"

fun cesk_diff_gc_check_allocation_rec_inuse ::
  "nat \<Rightarrow> diff_rec list \<Rightarrow> u32 \<Rightarrow> 'd value_heap \<Rightarrow> (nat \<Rightarrow> u32) \<Rightarrow> (nat \<Rightarrow> u32) option" where
  "cesk_diff_gc_check_allocation_rec_inuse n [] tick h flags = Some flags"
| "cesk_diff_gc_check_allocation_rec_inuse n (r # rs) tick h flags =
     (if \<not> CESK_STORE_ADDR_IS_RELOC (dr_addr r) \<or> \<not> marked tick flags (dr_addr r)
      then cesk_diff_gc_check_allocation_rec_inuse n rs tick h flags
      else do {
        v \<leftarrow> arg_value (dr_arg r);
        v \<leftarrow> v;
        x \<leftarrow> vh_mem h v;
        flags \<leftarrow> mark_value False 128 n tick x (vh_sets h) flags;
        cesk_diff_gc_check_allocation_rec_inuse n rs tick h flags })"

text \<open>
  The allocations that are kept move to the right end of their section; the scan goes from right to left.
  \<open>k\<close> is the number of records still to look at, and \<open>free\<close> is \<^verbatim>\<open>ret + 1\<close>. The result is the number of places
  that have become free on the left.
\<close>

fun alloc_compact ::
  "nat \<Rightarrow> nat \<Rightarrow> nat \<Rightarrow> (nat \<Rightarrow> u32) \<Rightarrow> u32 \<Rightarrow> cesk_diff \<Rightarrow> (nat \<Rightarrow> u32) \<Rightarrow> 'd value_heap
     \<Rightarrow> (nat \<times> cesk_diff \<times> (nat \<Rightarrow> u32) \<times> 'd value_heap) option" where
  "alloc_compact base 0 free flags tick d del h = Some (free, d, del, h)"
| "alloc_compact base (Suc k) free flags tick d del h = do {
     r \<leftarrow> df_data d (base + k);
     if CESK_STORE_ADDR_IS_RELOC (dr_addr r) \<longrightarrow> marked tick flags (dr_addr r)
     then do {
       d \<leftarrow> put_rec (base + free - 1) r d;
       alloc_compact base k (free - 1) flags tick d del h }
     else do {
       del \<leftarrow> mark_idx tick (dr_addr r) del;
       h \<leftarrow> drop_value (dr_arg r) h;
       alloc_compact base k free flags tick d del h } }"

definition cesk_diff_gc_alloc_compact ::
  "nat \<Rightarrow> nat \<Rightarrow> (nat \<Rightarrow> u32) \<Rightarrow> u32 \<Rightarrow> cesk_diff \<Rightarrow> (nat \<Rightarrow> u32) \<Rightarrow> 'd value_heap
     \<Rightarrow> (nat \<times> cesk_diff \<times> (nat \<Rightarrow> u32) \<times> 'd value_heap) option" where
  "cesk_diff_gc_alloc_compact base N flags tick d del h = alloc_compact base N N flags tick d del h"

definition deleted :: "u32 \<Rightarrow> (nat \<Rightarrow> u32) \<Rightarrow> u32 \<Rightarrow> bool" where
  "deleted tick del addr \<longleftrightarrow> CESK_STORE_ADDR_IS_RELOC addr \<and> marked tick del addr"

text \<open>
  The loop that keeps the records of a section whose address is not deleted and moves them to the left; the
  values of the others are given back in the store section. The list holds the positions to look at.
\<close>

fun compact_left ::
  "nat \<Rightarrow> (nat \<Rightarrow> u32) \<Rightarrow> u32 \<Rightarrow> nat list \<Rightarrow> nat \<Rightarrow> cesk_diff \<Rightarrow> 'd value_heap \<Rightarrow> (nat \<times> cesk_diff \<times> 'd value_heap) option" where
  "compact_left sec del tick [] free d h = Some (free, d, h)"
| "compact_left sec del tick (p # ps) free d h = do {
     r \<leftarrow> df_data d p;
     if deleted tick del (dr_addr r)
     then do { h \<leftarrow> release_arg sec (dr_arg r) h; compact_left sec del tick ps free d h }
     else do { d \<leftarrow> put_rec free r d; compact_left sec del tick ps (Suc free) d h } }"

text \<open>
  Then everything behind the reuse section moves to the left. The loop jumps over the free places of the
  store section when its next position is the first of them. A step that does not go forward never ends.
\<close>

function move_left :: "nat \<Rightarrow> nat \<Rightarrow> nat \<Rightarrow> nat \<Rightarrow> nat \<Rightarrow> cesk_diff \<Rightarrow> cesk_diff option" where
  "move_left store_free store_end bound i j d =
     (if i < bound
      then do {
        r \<leftarrow> df_data d i;
        d \<leftarrow> put_rec j r d;
        let nx = (if Suc i = store_free then store_end else Suc i);
        if i < nx then move_left store_free store_end bound nx (Suc j) d else None }
      else Some d)"
  by pat_completeness auto
termination
  by (relation "measure (\<lambda>(sf, se, bound, i, j, d). bound - i)") auto

declare move_left.simps [simp del]

definition shrink_offs :: "nat \<Rightarrow> nat \<Rightarrow> cesk_diff \<Rightarrow> cesk_diff option" where
  "shrink_offs i n d = (if n \<le> offs d i then Some (set_offs i (offs d i - n) d) else None)"

definition cesk_diff_gc_reuse_store_compact ::
  "cesk_diff \<Rightarrow> (nat \<Rightarrow> u32) \<Rightarrow> u32 \<Rightarrow> 'd value_heap \<Rightarrow> (cesk_diff \<times> 'd value_heap) option" where
  "cesk_diff_gc_reuse_store_compact d del tick h = do {
     let store_begin = offs d CESK_DIFF_STORE;
     let store_end = offs d (Suc CESK_DIFF_STORE);
     let reuse_begin = offs d CESK_DIFF_REUSE;
     let reuse_end = offs d (Suc CESK_DIFF_REUSE);
     (store_free, d, h) \<leftarrow> compact_left CESK_DIFF_STORE del tick [store_begin..<store_end] store_begin d h;
     (reuse_free, d, h) \<leftarrow> compact_left CESK_DIFF_REUSE del tick [reuse_begin..<reuse_end] reuse_begin d h;
     d \<leftarrow> move_left store_free store_end (offs d CESK_DIFF_NTYPES) reuse_end reuse_free d;
     d \<leftarrow> shrink_offs CESK_DIFF_REG (reuse_end - reuse_free) d;
     d \<leftarrow> shrink_offs CESK_DIFF_STORE (reuse_end - reuse_free) d;
     d \<leftarrow> shrink_offs CESK_DIFF_DEALLOC (reuse_end - reuse_free + (store_end - store_free)) d;
     d \<leftarrow> shrink_offs CESK_DIFF_NTYPES (reuse_end - reuse_free + (store_end - store_free)) d;
     Some (d, h) }"

text \<open>The test of a deallocation looks at the index and not at the kind of the address.\<close>

fun mark_deallocs :: "u32 \<Rightarrow> diff_rec list \<Rightarrow> (nat \<Rightarrow> u32) \<Rightarrow> (nat \<Rightarrow> u32) option" where
  "mark_deallocs tick [] del = Some del"
| "mark_deallocs tick (r # rs) del =
     (if CESK_STORE_ADDR_RELOC_IDX (dr_addr r) \<noteq> 0
      then do { del \<leftarrow> mark_idx tick (dr_addr r) del; mark_deallocs tick rs del }
      else mark_deallocs tick rs del)"

definition cesk_diff_gc ::
  "nat \<Rightarrow> cesk_diff \<Rightarrow> gc_marks \<Rightarrow> 'd value_heap \<Rightarrow> (cesk_diff \<times> gc_marks \<times> 'd value_heap) option" where
  "cesk_diff_gc n d g h = do {
     let tick = gc_tick g + 1;
     stores \<leftarrow> df_section d CESK_DIFF_STORE;
     keep \<leftarrow> cesk_diff_gc_check_store_rec_inuse n stores tick h (gc_keep g);
     regs \<leftarrow> df_section d CESK_DIFF_REG;
     keep \<leftarrow> cesk_diff_gc_check_register_rec_inuse regs tick h keep;
     allocs \<leftarrow> df_section d CESK_DIFF_ALLOC;
     keep \<leftarrow> cesk_diff_gc_check_allocation_rec_inuse n allocs tick h keep;
     (rc, d, del, h) \<leftarrow> cesk_diff_gc_alloc_compact (offs d CESK_DIFF_ALLOC)
                         (offs d (Suc CESK_DIFF_ALLOC) - offs d CESK_DIFF_ALLOC) keep tick d (gc_del g) h;
     d \<leftarrow> Some (set_offs CESK_DIFF_ALLOC (offs d CESK_DIFF_ALLOC + rc) d);
     deallocs \<leftarrow> df_section d CESK_DIFF_DEALLOC;
     del \<leftarrow> mark_deallocs tick deallocs del;
     (d, h) \<leftarrow> cesk_diff_gc_reuse_store_compact d del tick h;
     Some (d, \<lparr>gc_keep = keep, gc_del = del, gc_tick = tick\<rparr>, h) }"

subsection \<open>From a buffer to a diff\<close>

text \<open>The number of slots: a node counts when its section or its address differs from the node before.\<close>

fun count_slots :: "nat \<Rightarrow> u32 \<Rightarrow> diff_node list \<Rightarrow> nat" where
  "count_slots prev_type prev_addr [] = 0"
| "count_slots prev_type prev_addr (n # ns) =
     of_bool (prev_type \<noteq> nd_type n \<or> prev_addr \<noteq> nd_addr n) + count_slots (nd_type n) (nd_addr n) ns"

text \<open>
  The memory is requested in units of buffer nodes, 24 bytes; a record has 16. The index, the reference
  counter and the offsets are set by the callers.
\<close>

definition new_diff :: "nat \<Rightarrow> cesk_diff" where
  "new_diff slots = \<lparr>df_index = 0, df_refcnt = 1, df_offset = replicate (Suc CESK_DIFF_NTYPES) 0,
     df_cap = 24 * slots div 16, df_data = Map.empty\<rparr>"

text \<open>
  The values of two nodes for the same cell are merged into the first, which is copied before if somebody
  else refers to it. The merge of a built-in class is given the structures in place of the data in them;
  what a callback does then is undefined. A class without the callback ends the loop. An object whose pointer
  to the built-in structures is null is one that has none.
\<close>

definition merge_objects :: "'d cesk_object \<Rightarrow> 'd cesk_object \<Rightarrow> unit option" where
  "merge_objects dest sour =
     (if obj_nbuiltin dest = 0 \<or> obj_nbuiltin sour = 0 then Some ()
      else (case obj_members dest ! obj_builtin dest of
              UdefStruct c tab \<Rightarrow> None
            | BciStruct wr d \<Rightarrow> (if bci_merge (wrap_class wr) = None then Some () else None)))"

definition merge_node_value :: "nat \<Rightarrow> nat \<Rightarrow> 'd value_heap \<Rightarrow> 'd value_heap option" where
  "merge_node_value value node h = do {
     x \<leftarrow> vh_mem h node;
     y \<leftarrow> vh_mem h value;
     (case val_data x of
        VObject sour \<Rightarrow>
          (case val_data y of
             VSet st \<Rightarrow> None
           | VObject dest \<Rightarrow> do {
               dest \<leftarrow> dest;
               sour \<leftarrow> sour;
               u \<leftarrow> merge_objects dest sour;
               (new_tags, ts) \<leftarrow> tag_set_merge (obj_tags dest) (obj_tags sour) (vh_tags h);
               let h = with_tags ts h;
               (case new_tags of
                  None \<Rightarrow> Some h
                | Some t \<Rightarrow> do {
                    ts \<leftarrow> tag_set_free (obj_tags dest) (vh_tags h);
                    h \<leftarrow> value_upd value (\<lambda>y. y\<lparr>val_data := VObject (Some (dest\<lparr>obj_tags := Some t\<rparr>))\<rparr>) (with_tags ts h);
                    cesk_value_decref node h }) })
      | VSet sour \<Rightarrow>
          (case val_data y of
             VObject dest \<Rightarrow> None
           | VSet dest \<Rightarrow> do {
               (rc, dest, s) \<leftarrow> cesk_set_merge dest sour (vh_sets h);
               h \<leftarrow> value_upd value (\<lambda>y. y\<lparr>val_data := VSet dest\<rparr>) (h\<lparr>vh_sets := s\<rparr>);
               cesk_value_decref node h })) }"

text \<open>The result is the new argument of the record.\<close>

definition merge_store_node :: "nat \<Rightarrow> diff_arg \<Rightarrow> diff_arg \<Rightarrow> 'd value_heap \<Rightarrow> (diff_arg \<times> 'd value_heap) option" where
  "merge_store_node junk a node h = do {
     v \<leftarrow> arg_value a;
     w \<leftarrow> arg_value node;
     (case v of
        None \<Rightarrow> Some (node, h)
      | Some value \<Rightarrow> do {
          w \<leftarrow> w;
          x \<leftarrow> vh_mem h w;
          y \<leftarrow> vh_mem h value;
          (nv, h) \<leftarrow>
            (if val_refcnt y > 1
             then do {
               (nv, h) \<leftarrow> cesk_value_fork junk value h;
               (case nv of
                  None \<Rightarrow> Some (None, h)
                | Some nv \<Rightarrow> do { h \<leftarrow> cesk_value_decref value h; h \<leftarrow> cesk_value_incref nv h; Some (Some nv, h) }) }
             else Some (Some value, h));
          (case nv of
             None \<Rightarrow> Some (a, h)
           | Some nv \<Rightarrow> do { h \<leftarrow> merge_node_value nv w h; Some (AVal (Some nv), h) }) }) }"

text \<open>
  A node for the address of the current record is combined with it. The boolean is false when the rest of
  the loop body is skipped.
\<close>

definition combine_node ::
  "nat \<Rightarrow> bool \<Rightarrow> nat \<Rightarrow> diff_arg \<Rightarrow> diff_arg \<Rightarrow> 'd value_heap \<Rightarrow> (bool \<times> diff_arg \<times> 'd value_heap) option" where
  "combine_node junk merge sec a node h =
     (if sec = CESK_DIFF_ALLOC then do {
        v \<leftarrow> arg_value a;
        h \<leftarrow> (if v \<noteq> None then drop_value a h else Some h);
        Some (True, node, h) }
      else if sec = CESK_DIFF_REUSE then do {
        b \<leftarrow> arg_boolean a;
        let bit = of_bool (\<not> arg_null node);
        Some (True, put_boolean (if merge then b OR bit else bit) a, h) }
      else if sec = CESK_DIFF_REG then do {
        i \<leftarrow> arg_set a;
        j \<leftarrow> arg_set node;
        if merge
        then if i = None then Some (True, node, h)
          else do {
            (rc, i, s) \<leftarrow> cesk_set_merge i j (vh_sets h);
            let h = h\<lparr>vh_sets := s\<rparr>;
            if rc < 0 then Some (False, ASet i, h)
            else do { h \<leftarrow> drop_set node h; Some (True, ASet i, h) } }
        else do {
          h \<leftarrow> (if i \<noteq> None then drop_set a h else Some h);
          Some (True, node, h) } }
      else if sec = CESK_DIFF_STORE then
        if merge then do { (a, h) \<leftarrow> merge_store_node junk a node h; Some (True, a, h) }
        else do {
          v \<leftarrow> arg_value a;
          h \<leftarrow> (if v \<noteq> None then drop_value a h else Some h);
          Some (True, node, h) }
      else Some (True, a, h))"

definition place_node ::
  "nat \<Rightarrow> bool \<Rightarrow> nat \<Rightarrow> diff_node \<Rightarrow> bool \<Rightarrow> u32 \<Rightarrow> cesk_diff \<Rightarrow> 'd value_heap \<Rightarrow> (bool \<times> cesk_diff \<times> 'd value_heap) option" where
  "place_node junk merge sec n is_first prev_addr d h =
     (let p = offs d (Suc sec)
      in if is_first
         then do { d \<leftarrow> put_rec p \<lparr>dr_addr = nd_addr n, dr_arg = nd_value n\<rparr> d; Some (True, d, h) }
         else if prev_addr \<noteq> nd_addr n
         then do { d \<leftarrow> put_rec (Suc p) \<lparr>dr_addr = nd_addr n, dr_arg = nd_value n\<rparr> (set_offs (Suc sec) (Suc p) d); Some (True, d, h) }
         else do {
           r \<leftarrow> df_data d p;
           (ok, a, h) \<leftarrow> combine_node junk merge sec (dr_arg r) (nd_value n) h;
           d \<leftarrow> put_rec p (r\<lparr>dr_arg := a\<rparr>) d;
           Some (ok, d, h) })"

text \<open>The loop over the nodes of a section returns the nodes that are left and the number of converted ones.\<close>

fun convert_nodes ::
  "nat \<Rightarrow> bool \<Rightarrow> nat \<Rightarrow> diff_node list \<Rightarrow> bool \<Rightarrow> u32 \<Rightarrow> nat \<Rightarrow> cesk_diff \<Rightarrow> 'd value_heap
     \<Rightarrow> (diff_node list \<times> bool \<times> u32 \<times> nat \<times> cesk_diff \<times> 'd value_heap) option" where
  "convert_nodes junk merge sec [] is_first prev_addr converted d h = Some ([], is_first, prev_addr, converted, d, h)"
| "convert_nodes junk merge sec (n # ns) is_first prev_addr converted d h =
     (if nd_type n \<noteq> sec then Some (n # ns, is_first, prev_addr, converted, d, h)
      else do {
        (ok, d, h) \<leftarrow> place_node junk merge sec n is_first prev_addr d h;
        if ok then convert_nodes junk merge sec ns False (nd_addr n) (Suc converted) d h
        else convert_nodes junk merge sec ns is_first prev_addr converted d h })"

fun convert_sections ::
  "nat \<Rightarrow> bool \<Rightarrow> nat list \<Rightarrow> diff_node list \<Rightarrow> u32 \<Rightarrow> nat \<Rightarrow> cesk_diff \<Rightarrow> 'd value_heap \<Rightarrow> (nat \<times> cesk_diff \<times> 'd value_heap) option" where
  "convert_sections junk merge [] ns prev_addr converted d h = Some (converted, d, h)"
| "convert_sections junk merge (sec # secs) ns prev_addr converted d h = do {
     (ns, is_first, prev_addr, converted, d, h) \<leftarrow>
       convert_nodes junk merge sec ns True prev_addr converted (set_offs (Suc sec) (offs d sec) d) h;
     convert_sections junk merge secs ns prev_addr converted
       (if is_first then d else set_offs (Suc sec) (Suc (offs d (Suc sec))) d) h }"

definition last_addr :: "diff_node list \<Rightarrow> u32" where
  "last_addr ns = (if ns = [] then CESK_STORE_ADDR_NULL else nd_addr (last ns))"

definition alloc_diff :: "cesk_diff \<Rightarrow> 'd diff_state \<Rightarrow> nat \<times> 'd diff_state" where
  "alloc_diff d s = (ds_next s, s\<lparr>ds_diffs := (ds_diffs s)(ds_next s \<mapsto> d), ds_next := Suc (ds_next s)\<rparr>)"

definition cesk_diff_from_buffer ::
  "nat \<Rightarrow> nat \<Rightarrow> diff_buffer option \<Rightarrow> 'd diff_state \<Rightarrow> (nat option \<times> diff_buffer option \<times> 'd diff_state) option" where
  "cesk_diff_from_buffer n junk buffer s =
     (case buffer of
        None \<Rightarrow> Some (None, None, s)
      | Some b \<Rightarrow>
          if bf_converted b \<noteq> 0 then Some (None, Some b, s)
          else do {
            let nodes = qsort cesk_diff_buffer_cmp (bf_nodes b);
            (converted, d, h) \<leftarrow> convert_sections junk (bf_merge b) [0..<CESK_DIFF_NTYPES] nodes (last_addr nodes) 0
                                (new_diff (count_slots 0 CESK_STORE_ADDR_NULL nodes)) (ds_heap s);
            (d, g, h) \<leftarrow> cesk_diff_gc n d (ds_gc s) h;
            let (p, s) = alloc_diff d (s\<lparr>ds_heap := h, ds_gc := g\<rparr>);
            Some (Some p, Some (b\<lparr>bf_converted := converted, bf_nodes := nodes\<rparr>), s) })"

subsection \<open>The life of a diff\<close>

definition diff_upd :: "nat \<Rightarrow> (cesk_diff \<Rightarrow> cesk_diff) \<Rightarrow> 'd diff_state \<Rightarrow> 'd diff_state option" where
  "diff_upd p f s = do { d \<leftarrow> ds_diffs s p; Some (s\<lparr>ds_diffs := (ds_diffs s)(p \<mapsto> f d)\<rparr>) }"

fun release_recs :: "nat \<Rightarrow> nat list \<Rightarrow> cesk_diff \<Rightarrow> 'd value_heap \<Rightarrow> 'd value_heap option" where
  "release_recs sec [] d h = Some h"
| "release_recs sec (p # ps) d h = do {
     r \<leftarrow> df_data d p;
     h \<leftarrow> release_arg sec (dr_arg r) h;
     release_recs sec ps d h }"

fun release_sections :: "nat list \<Rightarrow> cesk_diff \<Rightarrow> 'd value_heap \<Rightarrow> 'd value_heap option" where
  "release_sections [] d h = Some h"
| "release_sections (sec # secs) d h = do {
     h \<leftarrow> release_recs sec [offs d sec..<offs d (Suc sec)] d h;
     release_sections secs d h }"

definition cesk_diff_free :: "nat option \<Rightarrow> 'd diff_state \<Rightarrow> 'd diff_state option" where
  "cesk_diff_free diff s =
     (case diff of
        None \<Rightarrow> Some s
      | Some p \<Rightarrow> do {
          s \<leftarrow> diff_upd p (\<lambda>d. d\<lparr>df_refcnt := df_refcnt d - 1\<rparr>) s;
          d \<leftarrow> ds_diffs s p;
          if df_refcnt d = 0
          then do {
            h \<leftarrow> release_sections [0..<CESK_DIFF_NTYPES] d (ds_heap s);
            Some (s\<lparr>ds_heap := h, ds_diffs := (ds_diffs s)(p := None)\<rparr>) }
          else Some s })"

text \<open>
  The empty diff is made once and kept in a static pointer. The first call returns it with one reference,
  the caller's.
\<close>

definition cesk_diff_empty :: "'d diff_state \<Rightarrow> (nat \<times> 'd diff_state) option" where
  "cesk_diff_empty s =
     (case ds_empty s of
        None \<Rightarrow>
          (let (p, s) = alloc_diff (new_diff 0) s in Some (p, s\<lparr>ds_empty := Some p\<rparr>))
      | Some p \<Rightarrow> do { s \<leftarrow> diff_upd p (\<lambda>d. d\<lparr>df_refcnt := df_refcnt d + 1\<rparr>) s; Some (p, s) })"

definition cesk_diff_fork :: "nat option \<Rightarrow> 'd diff_state \<Rightarrow> (nat option \<times> 'd diff_state) option" where
  "cesk_diff_fork diff s =
     (case diff of
        None \<Rightarrow> Some (None, s)
      | Some p \<Rightarrow> do { s \<leftarrow> diff_upd p (\<lambda>d. d\<lparr>df_refcnt := df_refcnt d + 1\<rparr>) s; Some (Some p, s) })"

text \<open>
  The copy of a diff before a write. The copy of a record is the record with its value or set replaced by a
  fork; the inner \<^const>\<open>None\<close> is the jump to the error exit.
\<close>

definition copy_arg :: "nat \<Rightarrow> nat \<Rightarrow> diff_arg \<Rightarrow> 'd value_heap \<Rightarrow> (diff_arg option \<times> 'd value_heap) option" where
  "copy_arg junk sec a h =
     (if sec = CESK_DIFF_ALLOC \<or> sec = CESK_DIFF_STORE then do {
        v \<leftarrow> arg_value a;
        v \<leftarrow> v;
        (n, h) \<leftarrow> cesk_value_fork junk v h;
        (case n of
           None \<Rightarrow> Some (None, h)
         | Some n \<Rightarrow> do { h \<leftarrow> cesk_value_incref n h; Some (Some (AVal (Some n)), h) }) }
      else if sec = CESK_DIFF_REG then do {
        i \<leftarrow> arg_set a;
        (i, t) \<leftarrow> cesk_set_fork i (vh_sets h);
        let h = h\<lparr>vh_sets := t\<rparr>;
        (case i of None \<Rightarrow> Some (None, h) | Some i \<Rightarrow> Some (Some (ASet (Some i)), h)) }
      else Some (Some a, h))"

text \<open>The result tells whether the loop went to the end, and where it stopped.\<close>

fun copy_recs ::
  "nat \<Rightarrow> nat \<Rightarrow> nat list \<Rightarrow> cesk_diff \<Rightarrow> cesk_diff \<Rightarrow> 'd value_heap \<Rightarrow> (nat option \<times> cesk_diff \<times> 'd value_heap) option" where
  "copy_recs junk sec [] d ret h = Some (None, ret, h)"
| "copy_recs junk sec (p # ps) d ret h = do {
     let current = offs ret (Suc sec);
     r \<leftarrow> df_data d p;
     (a, h) \<leftarrow> copy_arg junk sec (dr_arg r) h;
     let ret = set_offs (Suc sec) (Suc current) ret;
     (case a of
        None \<Rightarrow> do { ret \<leftarrow> put_rec current r ret; Some (Some p, ret, h) }
      | Some a \<Rightarrow> do {
          ret \<leftarrow> put_rec current (r\<lparr>dr_arg := a\<rparr>) ret;
          copy_recs junk sec ps d ret h }) }"

fun copy_sections ::
  "nat \<Rightarrow> nat list \<Rightarrow> cesk_diff \<Rightarrow> cesk_diff \<Rightarrow> 'd value_heap \<Rightarrow> ((nat \<times> nat) option \<times> cesk_diff \<times> 'd value_heap) option" where
  "copy_sections junk [] d ret h = Some (None, ret, h)"
| "copy_sections junk (sec # secs) d ret h = do {
     (stop, ret, h) \<leftarrow> copy_recs junk sec [offs d sec..<offs d (Suc sec)] d (set_offs (Suc sec) (offs ret sec) ret) h;
     (case stop of
        Some p \<Rightarrow> Some (Some (sec, p), ret, h)
      | None \<Rightarrow> copy_sections junk secs d ret h) }"

text \<open>
  The error exit gives back the copies that were made, and treats all of them as records of the section in
  which the copy stopped. \<open>k\<close> counts the copies.
\<close>

fun undo_copy :: "nat \<Rightarrow> nat \<Rightarrow> nat \<Rightarrow> cesk_diff \<Rightarrow> 'd value_heap \<Rightarrow> 'd value_heap option" where
  "undo_copy sec k 0 ret h = Some h"
| "undo_copy sec k (Suc n) ret h = do {
     r \<leftarrow> df_data ret k;
     h \<leftarrow> release_arg sec (dr_arg r) h;
     undo_copy sec (Suc k) n ret h }"

definition cesk_diff_prepare_to_write :: "nat \<Rightarrow> nat option \<Rightarrow> 'd diff_state \<Rightarrow> (nat option \<times> 'd diff_state) option" where
  "cesk_diff_prepare_to_write junk diff s =
     (case diff of
        None \<Rightarrow> Some (None, s)
      | Some p \<Rightarrow> do {
          d \<leftarrow> ds_diffs s p;
          if df_refcnt d = 1 then Some (Some p, s)
          else do {
            let ret = (new_diff 0)\<lparr>df_cap := offs d CESK_DIFF_NTYPES - offs d 0\<rparr>;
            (stop, ret, h) \<leftarrow> copy_sections junk [0..<CESK_DIFF_NTYPES] d ret (ds_heap s);
            (case stop of
               Some (sec, ofs) \<Rightarrow> do {
                 h \<leftarrow> undo_copy sec 0 (\<Sum>i\<leftarrow>[0..<Suc sec]. min ofs (offs d (Suc i)) - offs d i) ret h;
                 Some (None, s\<lparr>ds_heap := h\<rparr>) }
             | None \<Rightarrow> do {
                 let (q, s) = alloc_diff ret (s\<lparr>ds_heap := h\<rparr>);
                 s \<leftarrow> cesk_diff_free (Some p) s;
                 Some (Some q, s) }) } })"

end
