(* ===== verification/Cesk_Diff_Ops.thy ===== *)
theory Cesk_Diff_Ops
  imports Cesk_Diff
begin

text \<open>
  The operations on several diffs (\<^verbatim>\<open>src/cesk/cesk_diff.c\<close>): the composition of a sequence of diffs, the
  test whether one diff is the inverse of another, and the subtraction of allocations and deallocations.
  The composition walks over the sections of all inputs side by side; the position in every input is a
  field of the input, so that an input that is given twice is walked over once.
\<close>

subsection \<open>The common walk\<close>

text \<open>The address of the next record of an input in the section, if there is one.\<close>

definition next_in_section :: "(nat \<rightharpoonup> cesk_diff) \<Rightarrow> nat \<Rightarrow> nat \<Rightarrow> diff_rec option option" where
  "next_in_section m sec p = do {
     d \<leftarrow> m p;
     if df_index d < offs d (Suc sec) then do { r \<leftarrow> df_data d (df_index d); Some (Some r) } else Some None }"

definition advance :: "nat \<Rightarrow> (nat \<rightharpoonup> cesk_diff) \<Rightarrow> (nat \<rightharpoonup> cesk_diff) option" where
  "advance p m = do { d \<leftarrow> m p; Some (m(p \<mapsto> d\<lparr>df_index := Suc (df_index d)\<rparr>)) }"

fun reset_index :: "nat list \<Rightarrow> (nat \<rightharpoonup> cesk_diff) \<Rightarrow> (nat \<rightharpoonup> cesk_diff) option" where
  "reset_index [] m = Some m"
| "reset_index (p # ps) m = do { d \<leftarrow> m p; reset_index ps (m(p \<mapsto> d\<lparr>df_index := offs d 0\<rparr>)) }"

text \<open>The scan for the smallest address, with the first input that has it.\<close>

fun scan_min :: "(nat \<rightharpoonup> cesk_diff) \<Rightarrow> nat \<Rightarrow> nat list \<Rightarrow> u32 \<times> nat \<Rightarrow> (u32 \<times> nat) option" where
  "scan_min m sec [] cur = Some cur"
| "scan_min m sec (p # ps) cur = do {
     r \<leftarrow> next_in_section m sec p;
     (case r of
        Some r \<Rightarrow> scan_min m sec ps (if dr_addr r < fst cur then (dr_addr r, p) else cur)
      | None \<Rightarrow> scan_min m sec ps cur) }"

text \<open>The number of records that are left bounds the rounds of the loops below.\<close>

definition walk_fuel :: "(nat \<rightharpoonup> cesk_diff) \<Rightarrow> nat list \<Rightarrow> nat" where
  "walk_fuel m args = Suc (\<Sum>p\<leftarrow>args. case m p of None \<Rightarrow> 0 | Some d \<Rightarrow> offs d CESK_DIFF_NTYPES)"

fun count_section ::
  "nat \<Rightarrow> nat list \<Rightarrow> nat \<Rightarrow> u32 \<Rightarrow> nat \<Rightarrow> (nat \<rightharpoonup> cesk_diff) \<Rightarrow> (nat \<times> (nat \<rightharpoonup> cesk_diff)) option" where
  "count_section 0 args sec prev_addr slots m = None"
| "count_section (Suc k) args sec prev_addr slots m = do {
     (cur_addr, cur) \<leftarrow> scan_min m sec args (CESK_STORE_ADDR_NULL, hd args);
     if cur_addr = CESK_STORE_ADDR_NULL then Some (slots, m)
     else do {
       m \<leftarrow> advance cur m;
       count_section k args sec cur_addr (if prev_addr \<noteq> cur_addr then Suc slots else slots) m } }"

fun count_sections ::
  "nat \<Rightarrow> nat list \<Rightarrow> bool \<Rightarrow> nat list \<Rightarrow> nat \<Rightarrow> nat \<Rightarrow> (nat \<rightharpoonup> cesk_diff) \<Rightarrow> (nat \<times> (nat \<rightharpoonup> cesk_diff)) option" where
  "count_sections k args new_reuse [] slots nreuse m = Some (slots + nreuse, m)"
| "count_sections k args new_reuse (sec # secs) slots nreuse m = do {
     (slots, m) \<leftarrow> count_section k args sec CESK_STORE_ADDR_NULL slots m;
     count_sections k args new_reuse secs slots (if new_reuse \<and> sec = CESK_DIFF_ALLOC then slots div 2 else nreuse) m }"

definition cesk_diff_allocate_result ::
  "nat list \<Rightarrow> bool \<Rightarrow> (nat \<rightharpoonup> cesk_diff) \<Rightarrow> (cesk_diff \<times> (nat \<rightharpoonup> cesk_diff)) option" where
  "cesk_diff_allocate_result args new_reuse m = do {
     m \<leftarrow> reset_index args m;
     (slots, m) \<leftarrow> count_sections (walk_fuel m args) args new_reuse [0..<CESK_DIFF_NTYPES] 0 0 m;
     Some (new_diff slots, m) }"

subsection \<open>Composition\<close>

text \<open>
  The records for the smallest address: each input in turn overwrites the result. In the last section just
  the address is written.
\<close>

fun take_records ::
  "nat \<Rightarrow> u32 \<Rightarrow> nat list \<Rightarrow> cesk_diff \<Rightarrow> (nat \<rightharpoonup> cesk_diff) \<Rightarrow> (cesk_diff \<times> (nat \<rightharpoonup> cesk_diff)) option" where
  "take_records sec cur_addr [] ret m = Some (ret, m)"
| "take_records sec cur_addr (p # ps) ret m = do {
     r \<leftarrow> next_in_section m sec p;
     (case r of
        None \<Rightarrow> take_records sec cur_addr ps ret m
      | Some r \<Rightarrow>
          if dr_addr r = cur_addr
          then do {
            ret \<leftarrow> put_rec (offs ret (Suc sec)) \<lparr>dr_addr = cur_addr, dr_arg = (if sec = CESK_DIFF_DEALLOC then AJunk else dr_arg r)\<rparr> ret;
            m \<leftarrow> advance p m;
            take_records sec cur_addr ps ret m }
          else take_records sec cur_addr ps ret m) }"

text \<open>The result takes a reference of its own.\<close>

definition own_arg :: "nat \<Rightarrow> diff_arg \<Rightarrow> 'd value_heap \<Rightarrow> (diff_arg \<times> 'd value_heap) option" where
  "own_arg sec a h =
     (if sec = CESK_DIFF_ALLOC \<or> sec = CESK_DIFF_STORE
      then do { v \<leftarrow> arg_value a; v \<leftarrow> v; h \<leftarrow> cesk_value_incref v h; Some (a, h) }
      else if sec = CESK_DIFF_REG
      then do { i \<leftarrow> arg_set a; (i, s) \<leftarrow> cesk_set_fork i (vh_sets h); Some (ASet i, h\<lparr>vh_sets := s\<rparr>) }
      else Some (a, h))"

fun apply_section ::
  "nat \<Rightarrow> nat list \<Rightarrow> nat \<Rightarrow> cesk_diff \<Rightarrow> (nat \<rightharpoonup> cesk_diff) \<Rightarrow> 'd value_heap \<Rightarrow> (cesk_diff \<times> (nat \<rightharpoonup> cesk_diff) \<times> 'd value_heap) option" where
  "apply_section 0 args sec ret m h = None"
| "apply_section (Suc k) args sec ret m h = do {
     (cur_addr, cur) \<leftarrow> scan_min m sec args (CESK_STORE_ADDR_NULL, hd args);
     if cur_addr = CESK_STORE_ADDR_NULL then Some (ret, m, h)
     else do {
       (ret, m) \<leftarrow> take_records sec cur_addr args ret m;
       let p = offs ret (Suc sec);
       r \<leftarrow> df_data ret p;
       (a, h) \<leftarrow> own_arg sec (dr_arg r) h;
       ret \<leftarrow> put_rec p (r\<lparr>dr_arg := a\<rparr>) ret;
       apply_section k args sec (set_offs (Suc sec) (Suc p) ret) m h } }"

fun apply_sections ::
  "nat \<Rightarrow> nat list \<Rightarrow> nat list \<Rightarrow> cesk_diff \<Rightarrow> (nat \<rightharpoonup> cesk_diff) \<Rightarrow> 'd value_heap \<Rightarrow> (cesk_diff \<times> (nat \<rightharpoonup> cesk_diff) \<times> 'd value_heap) option" where
  "apply_sections k args [] ret m h = Some (ret, m, h)"
| "apply_sections k args (sec # secs) ret m h = do {
     (ret, m, h) \<leftarrow> apply_section k args sec (set_offs (Suc sec) (offs ret sec) ret) m h;
     apply_sections k args secs ret m h }"

text \<open>
  The pairs of an allocation and a deallocation at one address are taken out, from the right end of both
  sections to the left. A position is kept as its successor, so that the position before the first is 0; its
  address is read from the offsets, which lie before the records in memory.
\<close>

definition addr_before :: "cesk_diff \<Rightarrow> nat \<Rightarrow> u32 option" where
  "addr_before d k = (case k of 0 \<Rightarrow> Some (of_nat (offs d 2)) | Suc i \<Rightarrow> map_option dr_addr (df_data d i))"

fun keep_deallocs :: "nat \<Rightarrow> u32 \<Rightarrow> nat \<Rightarrow> nat \<Rightarrow> bool \<Rightarrow> cesk_diff \<Rightarrow> (nat \<times> nat \<times> bool \<times> cesk_diff) option" where
  "keep_deallocs dbegin addr 0 free matches d = Some (0, free, matches, d)"
| "keep_deallocs dbegin addr (Suc i) free matches d =
     (if i < dbegin then Some (Suc i, free, matches, d)
      else do {
        r \<leftarrow> df_data d i;
        if dr_addr r \<le> addr then Some (Suc i, free, matches, d)
        else if matches then keep_deallocs dbegin addr i free False d
        else do { d \<leftarrow> put_rec (free - 1) r d; keep_deallocs dbegin addr i (free - 1) False d } })"

fun cancel_pairs ::
  "nat \<Rightarrow> nat \<Rightarrow> nat \<Rightarrow> nat \<Rightarrow> nat \<Rightarrow> nat \<Rightarrow> bool \<Rightarrow> cesk_diff \<Rightarrow> 'd value_heap
     \<Rightarrow> (nat \<times> nat \<times> nat \<times> bool \<times> cesk_diff \<times> 'd value_heap) option" where
  "cancel_pairs abegin dbegin 0 dptr afree dfree matches d h = Some (dptr, afree, dfree, matches, d, h)"
| "cancel_pairs abegin dbegin (Suc i) dptr afree dfree matches d h =
     (if i < abegin then Some (dptr, afree, dfree, matches, d, h)
      else do {
        r \<leftarrow> df_data d i;
        (dptr, dfree, matches, d) \<leftarrow> keep_deallocs dbegin (dr_addr r) dptr dfree matches d;
        pair \<leftarrow> (if dptr \<le> dbegin then Some False
                else map_option (\<lambda>e. dr_addr e = dr_addr r) (df_data d (dptr - 1)));
        if pair
        then do { h \<leftarrow> drop_value (dr_arg r) h; cancel_pairs abegin dbegin i dptr afree dfree True d h }
        else do {
          d \<leftarrow> put_rec (afree - 1) r d;
          cancel_pairs abegin dbegin i dptr (afree - 1) dfree matches d h } })"

fun shift_recs :: "nat list \<Rightarrow> nat \<Rightarrow> cesk_diff \<Rightarrow> cesk_diff option" where
  "shift_recs [] q d = Some d"
| "shift_recs (p # ps) q d = do { r \<leftarrow> df_data d p; d \<leftarrow> put_rec q r d; shift_recs ps (Suc q) d }"

definition eliminate_pairs :: "cesk_diff \<Rightarrow> 'd value_heap \<Rightarrow> (cesk_diff \<times> 'd value_heap) option" where
  "eliminate_pairs d h =
     (let abegin = offs d CESK_DIFF_ALLOC; aend = offs d (Suc CESK_DIFF_ALLOC);
          dbegin = offs d CESK_DIFF_DEALLOC; dend = offs d (Suc CESK_DIFF_DEALLOC)
      in if abegin < aend \<and> dbegin < dend
         then do {
           (dptr, afree, dfree, matches, d, h) \<leftarrow> cancel_pairs abegin dbegin aend dend aend dend False d h;
           addr \<leftarrow> addr_before d abegin;
           (dptr, dfree, matches, d) \<leftarrow> keep_deallocs dbegin addr dptr dfree matches d;
           d \<leftarrow> shift_recs [dfree..<dend] dbegin d;
           Some (set_offs CESK_DIFF_NTYPES (dend - dfree + dbegin) (set_offs 0 afree d), h) }
         else Some (d, h))"

definition cesk_diff_apply :: "nat \<Rightarrow> nat list \<Rightarrow> 'd diff_state \<Rightarrow> (nat \<times> 'd diff_state) option" where
  "cesk_diff_apply n args s =
     (if args = [] then cesk_diff_empty s
      else do {
        (ret, m) \<leftarrow> cesk_diff_allocate_result args False (ds_diffs s);
        m \<leftarrow> reset_index args m;
        (ret, m, h) \<leftarrow> apply_sections (walk_fuel m args) args [0..<CESK_DIFF_NTYPES] ret m (ds_heap s);
        (ret, h) \<leftarrow> eliminate_pairs ret h;
        (ret, g, h) \<leftarrow> cesk_diff_gc n ret (ds_gc s) h;
        Some (alloc_diff ret (s\<lparr>ds_diffs := m, ds_heap := h, ds_gc := g\<rparr>)) })"

subsection \<open>Inverse diffs\<close>

text \<open>
  The loops of the comparison run over both sections at once; \<open>ps\<close> holds the pairs of positions. The second
  boolean of the reuse section is read from the first diff.
\<close>

fun equal_reuse :: "(nat \<times> nat) list \<Rightarrow> cesk_diff \<Rightarrow> cesk_diff \<Rightarrow> bool option" where
  "equal_reuse [] d e = Some True"
| "equal_reuse ((i, j) # ps) d e = do {
     r \<leftarrow> df_data d i;
     t \<leftarrow> df_data e j;
     if dr_addr r \<noteq> dr_addr t then Some False
     else do {
       u \<leftarrow> df_data d j;
       a \<leftarrow> arg_boolean (dr_arg r);
       b \<leftarrow> arg_boolean (dr_arg u);
       if a \<noteq> b then Some False else equal_reuse ps d e } }"

text \<open>The same loop serves the store section, whose records hold values and not sets.\<close>

fun equal_sets :: "(nat \<times> nat) list \<Rightarrow> cesk_diff \<Rightarrow> cesk_diff \<Rightarrow> set_state \<Rightarrow> bool option" where
  "equal_sets [] d e s = Some True"
| "equal_sets ((i, j) # ps) d e s = do {
     r \<leftarrow> df_data d i;
     t \<leftarrow> df_data e j;
     if dr_addr r \<noteq> dr_addr t then Some False
     else do {
       a \<leftarrow> arg_set (dr_arg r);
       b \<leftarrow> arg_set (dr_arg t);
       rc \<leftarrow> cesk_set_equal a b s;
       if rc = 0 then Some False else equal_sets ps d e s } }"

definition section_pairs :: "nat \<Rightarrow> cesk_diff \<Rightarrow> cesk_diff \<Rightarrow> (nat \<times> nat) list" where
  "section_pairs sec d e = zip [offs d sec..<offs d (Suc sec)] [offs e sec..<offs e (Suc sec)]"

definition section_size :: "cesk_diff \<Rightarrow> nat \<Rightarrow> int" where
  "section_size d sec = int (offs d (Suc sec)) - int (offs d sec)"

text \<open>The search for a deallocation goes on where it stopped, and reads the addresses of the first diff.\<close>

fun find_dealloc :: "u32 \<Rightarrow> nat list \<Rightarrow> cesk_diff \<Rightarrow> nat list option" where
  "find_dealloc addr [] d = Some []"
| "find_dealloc addr (j # js) d = do {
     r \<leftarrow> df_data d j;
     if addr = dr_addr r then Some (j # js) else find_dealloc addr js d }"

text \<open>\<open>js\<close> are the positions from \<^verbatim>\<open>j\<close> to the end; the result is the value of \<^verbatim>\<open>i\<close> after the loop.\<close>

fun match_allocs :: "nat \<Rightarrow> nat list \<Rightarrow> nat list \<Rightarrow> cesk_diff \<Rightarrow> nat option" where
  "match_allocs i [] js d = Some i"
| "match_allocs i (k # ks) js d =
     (if js = [] then Some i
      else do {
        r \<leftarrow> df_data d k;
        js \<leftarrow> find_dealloc (dr_addr r) js d;
        match_allocs (Suc k) ks js d })"

definition cesk_diff_identity :: "cesk_diff option \<Rightarrow> cesk_diff option \<Rightarrow> set_state \<Rightarrow> int option" where
  "cesk_diff_identity diff other s =
     (case (diff, other) of
        (Some d, Some e) \<Rightarrow>
          if section_size d CESK_DIFF_REUSE \<noteq> section_size e CESK_DIFF_REUSE then Some 0
          else do {
            same \<leftarrow> equal_reuse (section_pairs CESK_DIFF_REUSE d e) d e;
            if \<not> same then Some 0
            else if section_size d CESK_DIFF_STORE \<noteq> section_size e CESK_DIFF_STORE then Some 0
            else do {
              same \<leftarrow> equal_sets (section_pairs CESK_DIFF_STORE d e) d e s;
              if \<not> same then Some 0
              else if section_size d CESK_DIFF_REG \<noteq> section_size e CESK_DIFF_REG then Some 0
              else do {
                same \<leftarrow> equal_sets (section_pairs CESK_DIFF_REG d e) d e s;
                if \<not> same then Some 0
                else do {
                  i \<leftarrow> match_allocs (offs d CESK_DIFF_ALLOC) [offs d CESK_DIFF_ALLOC..<offs d (Suc CESK_DIFF_ALLOC)]
                         [offs e CESK_DIFF_DEALLOC..<offs e (Suc CESK_DIFF_DEALLOC)] d;
                  Some (if i \<noteq> offs d (Suc CESK_DIFF_DEALLOC) then 0 else 1) } } } }
      | _ \<Rightarrow> Some 1)"

subsection \<open>Subtraction\<close>

text \<open>
  The two loops move the entries of the array of offsets where those of the array of records are meant; an
  index beyond the offsets is \<^const>\<open>None\<close>. \<open>j\<close> is kept as its successor in the first loop, and the address before
  the first record is read from the offsets.
\<close>

definition move_offs :: "int \<Rightarrow> nat \<Rightarrow> cesk_diff \<Rightarrow> cesk_diff option" where
  "move_offs q i d =
     (if 0 \<le> q \<and> nat q < length (df_offset d) \<and> i < length (df_offset d) then Some (set_offs (nat q) (offs d i) d) else None)"

fun skip_down :: "nat \<Rightarrow> u32 \<Rightarrow> nat \<Rightarrow> cesk_diff \<Rightarrow> nat option" where
  "skip_down sbegin addr 0 e = Some 0"
| "skip_down sbegin addr (Suc j) e =
     (if j < sbegin then Some (Suc j)
      else do { r \<leftarrow> df_data e j; if dr_addr r > addr then skip_down sbegin addr j e else Some (Suc j) })"

fun sub_allocs :: "nat list \<Rightarrow> nat \<Rightarrow> nat \<Rightarrow> int \<Rightarrow> cesk_diff \<Rightarrow> cesk_diff \<Rightarrow> (int \<times> cesk_diff) option" where
  "sub_allocs [] sbegin j q d e = Some (q, d)"
| "sub_allocs (i # is) sbegin j q d e = do {
     r \<leftarrow> df_data d i;
     j \<leftarrow> skip_down sbegin (dr_addr r) j e;
     addr \<leftarrow> addr_before e j;
     if addr = dr_addr r then sub_allocs is sbegin j q d e
     else do { d \<leftarrow> move_offs q i d; sub_allocs is sbegin j (q - 1) d e } }"

fun skip_up :: "u32 \<Rightarrow> nat list \<Rightarrow> cesk_diff \<Rightarrow> nat list option" where
  "skip_up addr [] e = Some []"
| "skip_up addr (j # js) e = do { r \<leftarrow> df_data e j; if addr > dr_addr r then skip_up addr js e else Some (j # js) }"

fun sub_deallocs :: "nat list \<Rightarrow> nat list \<Rightarrow> nat \<Rightarrow> nat \<Rightarrow> cesk_diff \<Rightarrow> cesk_diff \<Rightarrow> (nat \<times> cesk_diff) option" where
  "sub_deallocs [] js send q d e = Some (q, d)"
| "sub_deallocs (i # is) js send q d e = do {
     r \<leftarrow> df_data d i;
     js \<leftarrow> skip_up (dr_addr r) js e;
     t \<leftarrow> df_data e (case js of [] \<Rightarrow> send | j # js' \<Rightarrow> j);
     if dr_addr t = dr_addr r then sub_deallocs is js send q d e
     else do { d \<leftarrow> move_offs (int q) i d; sub_deallocs is js send (Suc q) d e } }"

text \<open>The bounds of the second loop over the subtrahend are those of the minuend.\<close>

definition cesk_diff_sub :: "cesk_diff option \<Rightarrow> cesk_diff option \<Rightarrow> (int \<times> cesk_diff option) option" where
  "cesk_diff_sub dest sour =
     (case (dest, sour) of
        (Some d, Some e) \<Rightarrow> do {
          d \<leftarrow> (if section_size e CESK_DIFF_ALLOC > 0
               then do {
                 (q, d') \<leftarrow> sub_allocs (rev [offs d CESK_DIFF_ALLOC..<offs d (Suc CESK_DIFF_ALLOC)]) (offs e CESK_DIFF_ALLOC)
                              (offs e (Suc CESK_DIFF_ALLOC)) (int (offs d (Suc CESK_DIFF_ALLOC)) - 1) d e;
                 Some (set_offs CESK_DIFF_ALLOC (nat (q + 1)) d') }
               else Some d);
          d \<leftarrow> (if section_size e CESK_DIFF_DEALLOC > 0
               then do {
                 let begin = offs d CESK_DIFF_DEALLOC;
                 let end' = offs d (Suc CESK_DIFF_DEALLOC);
                 (q, d) \<leftarrow> sub_deallocs [begin..<end'] [begin..<end'] end' begin d e;
                 Some (set_offs (Suc CESK_DIFF_DEALLOC) q d) }
               else Some d);
          Some (0, Some d) }
      | _ \<Rightarrow> Some (-1, dest))"

end
