(* ===== verification/Cesk_Frame.thy ===== *)
theory Cesk_Frame
  imports Cesk_Diff Cesk_Reloc Cesk_Static
begin

text \<open>
  Stack frames of the abstract machine (\<^verbatim>\<open>src/cesk/cesk_frame.c\<close>, \<^verbatim>\<open>include/cesk/cesk_frame.h\<close>): an array of
  registers, which are address sets, a store and a table of static fields. The operations of the block
  interpreter change a frame and log what they do to two buffers, one for the change and one for its
  inverse; a diff is applied to a frame section by section.

  The memory of the machine is one record, since values, stores and static fields share the sets. A frame that
  an operation works on and the two buffers extend it. A register holds a pointer to a set, which may be
  null. A result is \<^const>\<open>None\<close> when a null pointer is followed, an array is left or a loop does not end. An
  operation that returns an \<^verbatim>\<open>int\<close> yields it with the new state.
\<close>

subsection \<open>Data\<close>

text \<open>The flags of the collector: an array that is kept between the runs, and the number that stands for true.\<close>

record gc_flags =
  gf_fb :: "(nat \<rightharpoonup> u32) option"
  gf_size :: u32
  gf_true :: u32

record frame =
  fr_store :: cesk_store
  fr_statics :: static_table
  fr_regs :: "u32 option list"

record 'd frame_mem =
  fm_world :: "'d world"
  fm_statics :: static_state
  fm_relocs :: reloc_state
  fm_gc :: gc_flags

record 'd frame_state = "'d frame_mem" +
  fs_frame :: frame
  fs_fwd :: "diff_buffer option"
  fs_inv :: "diff_buffer option"

text \<open>
  What the operations take from their surroundings: the addresses of classes for the hash codes, fuel for
  the release of values and for the loops over built-in classes, the content of fresh memory, the loaded
  program, and the callbacks of built-in classes that read and write a field.
\<close>

record ('m, 'd) frame_env =
  fe_class_addr :: "'d class_ref \<Rightarrow> nat"
  fe_fuel :: nat
  fe_junk :: nat
  fe_atoms :: atom_table
  fe_dict :: "'m dalvik_member memberdict"
  fe_nametab :: "'d bci_nametab"
  fe_mem0 :: "nat \<Rightarrow> u32"
  fe_raw :: "'d bci_class_wrap \<Rightarrow> 'd"
  fe_get :: "'d bci_class \<Rightarrow> ('d \<Rightarrow> nat \<Rightarrow> set_state \<Rightarrow> u32 option \<times> set_state) option"
  fe_put :: "'d bci_class \<Rightarrow> ('d \<Rightarrow> nat \<Rightarrow> u32 \<Rightarrow> bool \<Rightarrow> cesk_store \<Rightarrow> 'd world \<Rightarrow> int \<times> 'd \<times> cesk_store \<times> 'd world) option"

definition CESK_FRAME_RESULT_REG :: nat where "CESK_FRAME_RESULT_REG = 0"
definition CESK_FRAME_EXCEPTION_REG :: nat where "CESK_FRAME_EXCEPTION_REG = 1"
definition CESK_FRAME_GENERAL_REG :: "nat \<Rightarrow> nat" where "CESK_FRAME_GENERAL_REG i = i + 2"
definition CESK_FRAME_INIT_HASH :: u32 where "CESK_FRAME_INIT_HASH = 0xa3efab97"

abbreviation fr_size :: "frame \<Rightarrow> nat" where
  "fr_size fr \<equiv> length (fr_regs fr)"

abbreviation mem_heap :: "('d, 'z) frame_mem_scheme \<Rightarrow> 'd value_heap" where
  "mem_heap m \<equiv> w_heap (fm_world m)"

abbreviation mem_sets :: "('d, 'z) frame_mem_scheme \<Rightarrow> set_state" where
  "mem_sets m \<equiv> vh_sets (mem_heap m)"

definition with_heap :: "'d value_heap \<Rightarrow> ('d, 'z) frame_mem_scheme \<Rightarrow> ('d, 'z) frame_mem_scheme" where
  "with_heap h m = m\<lparr>fm_world := (fm_world m)\<lparr>w_heap := h\<rparr>\<rparr>"

definition with_sets :: "set_state \<Rightarrow> ('d, 'z) frame_mem_scheme \<Rightarrow> ('d, 'z) frame_mem_scheme" where
  "with_sets s m = with_heap ((mem_heap m)\<lparr>vh_sets := s\<rparr>) m"

definition statics_of :: "('d, 'z) frame_mem_scheme \<Rightarrow> static_state" where
  "statics_of m = (fm_statics m)\<lparr>ss_sets := mem_sets m\<rparr>"

definition with_statics :: "static_state \<Rightarrow> ('d, 'z) frame_mem_scheme \<Rightarrow> ('d, 'z) frame_mem_scheme" where
  "with_statics s m = with_sets (ss_sets s) (m\<lparr>fm_statics := s\<rparr>)"

definition set_reg :: "nat \<Rightarrow> u32 option \<Rightarrow> 'd frame_state \<Rightarrow> 'd frame_state" where
  "set_reg r v fs = fs\<lparr>fs_frame := (fs_frame fs)\<lparr>fr_regs := (fr_regs (fs_frame fs))[r := v]\<rparr>\<rparr>"

abbreviation reg :: "'d frame_state \<Rightarrow> nat \<Rightarrow> u32 option" where
  "reg fs r \<equiv> fr_regs (fs_frame fs) ! r"

abbreviation reg_count :: "'d frame_state \<Rightarrow> nat" where
  "reg_count fs \<equiv> fr_size (fs_frame fs)"

text \<open>An operation on the store, on the static fields or on sets, run on the state of a frame.\<close>

definition on_store :: "(cesk_store \<Rightarrow> 'd world \<Rightarrow> ('a \<times> cesk_store \<times> 'd world) option) \<Rightarrow> 'd frame_state \<Rightarrow> ('a \<times> 'd frame_state) option" where
  "on_store f fs = do {
     (r, st, w) \<leftarrow> f (fr_store (fs_frame fs)) (fm_world fs);
     Some (r, fs\<lparr>fm_world := w, fs_frame := (fs_frame fs)\<lparr>fr_store := st\<rparr>\<rparr>) }"

definition on_table ::
  "(static_table option \<Rightarrow> static_state \<Rightarrow> ('a \<times> static_table option \<times> static_state) option) \<Rightarrow> 'd frame_state \<Rightarrow> ('a \<times> 'd frame_state) option" where
  "on_table f fs = do {
     (r, tb, s) \<leftarrow> f (Some (fr_statics (fs_frame fs))) (statics_of fs);
     tb \<leftarrow> tb;
     let fs = with_statics s fs;
     Some (r, fs\<lparr>fs_frame := (fs_frame fs)\<lparr>fr_statics := tb\<rparr>\<rparr>) }"

definition on_sets :: "(set_state \<Rightarrow> ('a \<times> set_state) option) \<Rightarrow> ('d, 'z) frame_mem_scheme \<Rightarrow> ('a \<times> ('d, 'z) frame_mem_scheme) option" where
  "on_sets f m = do { (r, s) \<leftarrow> f (mem_sets m); Some (r, with_sets s m) }"

definition on_heap :: "('d value_heap \<Rightarrow> ('a \<times> 'd value_heap) option) \<Rightarrow> ('d, 'z) frame_mem_scheme \<Rightarrow> ('a \<times> ('d, 'z) frame_mem_scheme) option" where
  "on_heap f m = do { (r, h) \<leftarrow> f (mem_heap m); Some (r, with_heap h m) }"

text \<open>An operation on a set that may redirect the pointer in a register.\<close>

definition on_reg :: "nat \<Rightarrow> (u32 option \<Rightarrow> set_state \<Rightarrow> (int \<times> u32 option \<times> set_state) option) \<Rightarrow> 'd frame_state \<Rightarrow> (int \<times> 'd frame_state) option" where
  "on_reg r f fs = do { (rc, i, s) \<leftarrow> f (reg fs r) (mem_sets fs); Some (rc, set_reg r i (with_sets s fs)) }"

text \<open>A call whose failure ends the caller with \<open>-1\<close>.\<close>

definition checked :: "(int \<times> 's) option \<Rightarrow> ('s \<Rightarrow> (int \<times> 's) option) \<Rightarrow> (int \<times> 's) option" where
  "checked m f = do { (rc, s) \<leftarrow> m; if rc < 0 then Some (-1, s) else f s }"

text \<open>The macro \<^verbatim>\<open>_SNAPSHOT\<close> on the buffer of the change and on that of the inverse.\<close>

definition log_to :: "diff_buffer option \<Rightarrow> nat \<Rightarrow> u32 \<Rightarrow> diff_arg \<Rightarrow> 'd value_heap \<Rightarrow> (int \<times> diff_buffer option \<times> 'd value_heap) option" where
  "log_to buf type addr value h = (case buf of None \<Rightarrow> Some (0, None, h) | Some b \<Rightarrow> cesk_diff_buffer_append (Some b) type addr value h)"

definition log_fwd :: "nat \<Rightarrow> u32 \<Rightarrow> diff_arg \<Rightarrow> 'd frame_state \<Rightarrow> (int \<times> 'd frame_state) option" where
  "log_fwd type addr value fs = do {
     (rc, b, h) \<leftarrow> log_to (fs_fwd fs) type addr value (mem_heap fs);
     Some (rc, with_heap h (fs\<lparr>fs_fwd := b\<rparr>)) }"

definition log_inv :: "nat \<Rightarrow> u32 \<Rightarrow> diff_arg \<Rightarrow> 'd frame_state \<Rightarrow> (int \<times> 'd frame_state) option" where
  "log_inv type addr value fs = do {
     (rc, b, h) \<leftarrow> log_to (fs_inv fs) type addr value (mem_heap fs);
     Some (rc, with_heap h (fs\<lparr>fs_inv := b\<rparr>)) }"

text \<open>A call with null pointers in place of the buffers.\<close>

definition unlogged :: "('d frame_state \<Rightarrow> (int \<times> 'd frame_state) option) \<Rightarrow> 'd frame_state \<Rightarrow> (int \<times> 'd frame_state) option" where
  "unlogged f fs = do {
     (rc, fs') \<leftarrow> f (fs\<lparr>fs_fwd := None, fs_inv := None\<rparr>);
     Some (rc, fs'\<lparr>fs_fwd := fs_fwd fs, fs_inv := fs_inv fs\<rparr>) }"

subsection \<open>The life of a frame\<close>

definition cesk_frame_init :: int where "cesk_frame_init = 0"

text \<open>The array is released; the pointer to it stays.\<close>

definition cesk_frame_finalize :: "('d, 'z) frame_mem_scheme \<Rightarrow> ('d, 'z) frame_mem_scheme" where
  "cesk_frame_finalize m = m\<lparr>fm_gc := (fm_gc m)\<lparr>gf_fb := map_option (\<lambda>f. Map.empty) (gf_fb (fm_gc m))\<rparr>\<rparr>"

fun empty_regs :: "nat \<Rightarrow> set_state \<Rightarrow> (u32 option list \<times> set_state) option" where
  "empty_regs 0 s = Some ([], s)"
| "empty_regs (Suc n) s = do { (i, s) \<leftarrow> cesk_set_empty_set s; (is, s) \<leftarrow> empty_regs n s; Some (Some i # is, s) }"

text \<open>The number of registers has 16 bits, and so has its sum with 2.\<close>

definition cesk_frame_new :: "16 word \<Rightarrow> u32 \<Rightarrow> 'd frame_mem \<Rightarrow> (frame option \<times> 'd frame_mem) option" where
  "cesk_frame_new sz token m =
     (if sz = 0 then Some (None, m)
      else do {
        (regs, m) \<leftarrow> on_sets (empty_regs (unat (sz + 2))) m;
        (tb, s) \<leftarrow> cesk_static_table_fork None (statics_of m);
        Some (Some \<lparr>fr_store = cesk_store_empty_store token, fr_statics = tb, fr_regs = regs\<rparr>, with_statics s m) })"

text \<open>
  The copies of the registers; a set that can not be forked ends the loop. The error exit then repeats its
  first step for ever when there is a register before, and otherwise returns null.
\<close>

fun fork_regs :: "u32 option list \<Rightarrow> set_state \<Rightarrow> (u32 option list \<times> bool \<times> set_state) option" where
  "fork_regs [] s = Some ([], True, s)"
| "fork_regs (r # rs) s = do {
     (i, s) \<leftarrow> cesk_set_fork r s;
     (case i of
        None \<Rightarrow> Some ([], False, s)
      | Some i \<Rightarrow> do { (is, ok, s) \<leftarrow> fork_regs rs s; Some (Some i # is, ok, s) }) }"

definition cesk_frame_fork :: "frame option \<Rightarrow> 'd frame_mem \<Rightarrow> (frame option \<times> 'd frame_mem) option" where
  "cesk_frame_fork fr m =
     (case fr of
        None \<Rightarrow> Some (None, m)
      | Some fr \<Rightarrow> do {
          (regs, ok, s) \<leftarrow> fork_regs (fr_regs fr) (mem_sets m);
          let m = with_sets s m;
          if \<not> ok then (if regs = [] then Some (None, m) else None)
          else do {
            (st, w) \<leftarrow> cesk_store_fork (fr_store fr) (fm_world m);
            let m = m\<lparr>fm_world := w\<rparr>;
            (tb, s) \<leftarrow> cesk_static_table_fork (Some (fr_statics fr)) (statics_of m);
            Some (Some \<lparr>fr_store = st, fr_statics = tb, fr_regs = regs\<rparr>, with_statics s m) } })"

fun free_regs :: "u32 option list \<Rightarrow> set_state \<Rightarrow> set_state option" where
  "free_regs [] s = Some s"
| "free_regs (r # rs) s = do { s \<leftarrow> cesk_set_free r s; free_regs rs s }"

definition release_store :: "cesk_store \<Rightarrow> ('d, 'z) frame_mem_scheme \<Rightarrow> ('d, 'z) frame_mem_scheme option" where
  "release_store st m = do { w \<leftarrow> cesk_store_free (Some st) (fm_world m); Some (m\<lparr>fm_world := w\<rparr>) }"

definition release_statics :: "static_table \<Rightarrow> ('d, 'z) frame_mem_scheme \<Rightarrow> ('d, 'z) frame_mem_scheme option" where
  "release_statics tb m = do { s \<leftarrow> cesk_static_table_free (Some tb) (statics_of m); Some (with_statics s m) }"

definition cesk_frame_free :: "frame option \<Rightarrow> 'd frame_mem \<Rightarrow> 'd frame_mem option" where
  "cesk_frame_free fr m =
     (case fr of
        None \<Rightarrow> Some m
      | Some fr \<Rightarrow> do {
          s \<leftarrow> free_regs (fr_regs fr) (mem_sets m);
          m \<leftarrow> release_store (fr_store fr) (with_sets s m);
          release_statics (fr_statics fr) m })"

subsection \<open>Hash codes and comparison\<close>

fun hash_regs :: "(u32 option \<Rightarrow> set_state \<Rightarrow> u32 option) \<Rightarrow> u32 option list \<Rightarrow> u32 \<Rightarrow> u32 \<Rightarrow> set_state \<Rightarrow> u32 option" where
  "hash_regs hash [] mul ret s = Some ret"
| "hash_regs hash (r # rs) mul ret s = do {
     k \<leftarrow> hash r s;
     hash_regs hash rs (mul * MH_MULTIPLY) (ret XOR (mul * k)) s }"

definition cesk_frame_hashcode :: "frame \<Rightarrow> ('d, 'z) frame_mem_scheme \<Rightarrow> u32 option" where
  "cesk_frame_hashcode fr m = do {
     ret \<leftarrow> hash_regs (\<lambda>r s. Option.bind r (\<lambda>i. cesk_set_hashcode i s)) (fr_regs fr) MH_MULTIPLY CESK_FRAME_INIT_HASH (mem_sets m);
     let ret = ret XOR st_hashcode (fr_store fr);
     let static_hash = tb_hashcode (fr_statics fr);
     Some (ret XOR (static_hash * static_hash)) }"

definition cesk_frame_compute_hashcode :: "('m, 'd) frame_env \<Rightarrow> frame \<Rightarrow> ('d, 'z) frame_mem_scheme \<Rightarrow> u32 option" where
  "cesk_frame_compute_hashcode env fr m = do {
     ret \<leftarrow> hash_regs cesk_set_compute_hashcode (fr_regs fr) MH_MULTIPLY CESK_FRAME_INIT_HASH (mem_sets m);
     k \<leftarrow> cesk_store_compute_hashcode (fe_class_addr env) (fr_store fr) (fm_world m);
     static_hash \<leftarrow> cesk_static_table_compute_hashcode (fr_statics fr) (statics_of m);
     Some (ret XOR k XOR (static_hash * static_hash)) }"

fun equal_regs :: "u32 option list \<Rightarrow> u32 option list \<Rightarrow> set_state \<Rightarrow> bool option" where
  "equal_regs (a # as) (b # bs) s = do {
     rc \<leftarrow> cesk_set_equal a b s;
     if rc = 0 then Some False else equal_regs as bs s }"
| "equal_regs as bs s = Some True"

text \<open>Two null pointers are equal, and one is not equal to a frame.\<close>

definition cesk_frame_equal :: "('m, 'd) frame_env \<Rightarrow> frame option \<Rightarrow> frame option \<Rightarrow> ('d, 'z) frame_mem_scheme \<Rightarrow> int option" where
  "cesk_frame_equal env first second m =
     (case (first, second) of
        (Some f, Some g) \<Rightarrow> do {
          hf \<leftarrow> cesk_frame_hashcode f m;
          hg \<leftarrow> cesk_frame_hashcode g m;
          if hf \<noteq> hg then Some 0
          else if fr_size f \<noteq> fr_size g then Some 0
          else do {
            same \<leftarrow> equal_regs (fr_regs f) (fr_regs g) (mem_sets m);
            if \<not> same then Some 0
            else do {
              rc \<leftarrow> cesk_static_table_equal (Some (fr_statics f)) (Some (fr_statics g)) (statics_of m);
              if rc = 0 then Some 0
              else do {
                rc \<leftarrow> cesk_store_equal (fe_class_addr env) (Some (fr_store f)) (Some (fr_store g)) (fm_world m);
                Some (of_bool (rc \<noteq> 0)) } } } }
      | (None, None) \<Rightarrow> Some 1
      | _ \<Rightarrow> Some 0)"

subsection \<open>Garbage collection\<close>

text \<open>
  The addresses that a value refers to, in the order in which the loops of the search read them. The loops
  only read, so that the recursive calls between two steps do not change what comes next. An iterator that
  can not be acquired is null, and gives nothing.
\<close>

fun set_refs :: "nat \<Rightarrow> nat option \<Rightarrow> set_state \<Rightarrow> u32 list option" where
  "set_refs 0 iter s = None"
| "set_refs (Suc n) iter s = do {
     (addr, iter) \<leftarrow> cesk_set_iter_next iter s;
     if addr = CESK_STORE_ADDR_NULL then Some [] else map_option (Cons addr) (set_refs n iter s) }"

definition refs_of_set :: "u32 option \<Rightarrow> set_state \<Rightarrow> u32 list option" where
  "refs_of_set st s =
     (case Option.bind st (\<lambda>i. cesk_set_iter i s) of None \<Rightarrow> Some [] | Some iter \<Rightarrow> set_refs (Suc (next_node s)) iter s)"

fun builtin_refs :: "nat \<Rightarrow> 'd bci_class_wrap \<Rightarrow> 'd \<Rightarrow> nat \<Rightarrow> u32 list option" where
  "builtin_refs 0 wr d offset = None"
| "builtin_refs (Suc n) wr d offset =
     (case bci_class_read (Some d) offset 1024 (Some (wrap_class wr)) of
        (rc, buf) \<Rightarrow> if rc \<le> 0 then Some [] else map_option (append (take (nat rc) buf)) (builtin_refs n wr d (offset + nat rc)))"

fun struct_refs :: "nat \<Rightarrow> 'd object_struct list \<Rightarrow> u32 list option" where
  "struct_refs n [] = Some []"
| "struct_refs n (UdefStruct c tab # ss) = map_option (append tab) (struct_refs n ss)"
| "struct_refs n (BciStruct wr d # ss) = do { as \<leftarrow> builtin_refs n wr d 0; map_option (append as) (struct_refs n ss) }"

definition refs_of_value :: "nat \<Rightarrow> nat \<Rightarrow> 'd value_heap \<Rightarrow> u32 list option" where
  "refs_of_value n v h = do {
     x \<leftarrow> vh_mem h v;
     (case val_data x of
        VSet st \<Rightarrow> refs_of_set st (vh_sets h)
      | VObject obj \<Rightarrow> do { obj \<leftarrow> obj; struct_refs n (obj_members obj) }) }"

text \<open>A relocated address is translated; \<^const>\<open>None\<close> is one that the search ignores, and so is a constant.\<close>

definition dfs_target :: "cesk_store \<Rightarrow> 'd world \<Rightarrow> u32 \<Rightarrow> u32 option" where
  "dfs_target st w addr =
     (if addr = CESK_STORE_ADDR_NULL \<or> CESK_STORE_ADDR_IS_CONST addr then None
      else if CESK_STORE_ADDR_IS_RELOC addr
      then if st_alloc_tab st = None then None
           else let a = cesk_alloctab_query (store_tab st w) (st_alloc_token st) addr
                in if a = CESK_STORE_ADDR_NULL then None else Some a
      else Some addr)"

text \<open>
  The depth first search, over the list of addresses that one loop goes through. The fuel bounds the depth;
  every level has set a flag. An address beyond the flags is \<^const>\<open>None\<close>.
\<close>

fun cesk_frame_store_dfs ::
  "nat \<Rightarrow> nat \<Rightarrow> cesk_store \<Rightarrow> 'd world \<Rightarrow> u32 \<Rightarrow> u32 list \<Rightarrow> (nat \<rightharpoonup> u32) \<Rightarrow> (nat \<rightharpoonup> u32) option" where
  "cesk_frame_store_dfs k n st w true' [] f = Some f"
| "cesk_frame_store_dfs 0 n st w true' (a # as) f = None"
| "cesk_frame_store_dfs (Suc k) n st w true' (a # as) f =
     (case dfs_target st w a of
        None \<Rightarrow> cesk_frame_store_dfs (Suc k) n st w true' as f
      | Some addr \<Rightarrow> do {
          flag \<leftarrow> f (unat addr);
          if flag = true' then cesk_frame_store_dfs (Suc k) n st w true' as f
          else do {
            let f = f(unat addr \<mapsto> true');
            val \<leftarrow> cesk_store_get_ro st addr w;
            f \<leftarrow> (case val of
                   None \<Rightarrow> Some f
                 | Some v \<Rightarrow> do { refs \<leftarrow> refs_of_value n v (w_heap w); cesk_frame_store_dfs k n st w true' refs f });
            cesk_frame_store_dfs (Suc k) n st w true' as f } })"

fun roots_of_sets :: "u32 option list \<Rightarrow> set_state \<Rightarrow> u32 list option" where
  "roots_of_sets [] s = Some []"
| "roots_of_sets (r # rs) s = do { as \<leftarrow> refs_of_set r s; map_option (append as) (roots_of_sets rs s) }"

text \<open>The array of flags is made at the first run, and doubled once when it is too short.\<close>

definition fresh_flags :: "u32 \<Rightarrow> nat \<rightharpoonup> u32" where
  "fresh_flags sz = (\<lambda>i. if i < unat sz then Some 0 else None)"

definition gc_prepare :: "nat \<Rightarrow> gc_flags \<Rightarrow> gc_flags" where
  "gc_prepare nslot g =
     (let g = (if gf_fb g = None \<and> gf_size g = 0
               then let sz = (if nslot < 1024 then 1024 else of_nat nslot) in g\<lparr>gf_fb := Some (fresh_flags sz), gf_size := sz\<rparr>
               else g)
      in if unat (gf_size g) < nslot \<and> gf_fb g \<noteq> None
         then let sz = gf_size g * 2 in g\<lparr>gf_fb := Some (fresh_flags sz), gf_size := sz, gf_true := 1\<rparr>
         else g)"

text \<open>The slots that have a value and no flag are emptied.\<close>

fun sweep ::
  "('d class_ref \<Rightarrow> nat) \<Rightarrow> nat \<Rightarrow> u32 \<Rightarrow> (nat \<rightharpoonup> u32) \<Rightarrow> nat list \<Rightarrow> cesk_store \<Rightarrow> 'd world \<Rightarrow> (unit \<times> cesk_store \<times> 'd world) option" where
  "sweep class_addr n true' f [] st w = Some ((), st, w)"
| "sweep class_addr n true' f (a # as) st w = do {
     flag \<leftarrow> f a;
     if flag = true' then sweep class_addr n true' f as st w
     else do {
       v \<leftarrow> cesk_store_get_ro st (of_nat a) w;
       if v = None then sweep class_addr n true' f as st w
       else do {
         (rc, st, w) \<leftarrow> cesk_store_attach class_addr n st (of_nat a) None w;
         (rc, st, w) \<leftarrow> cesk_store_clear_refcnt st (of_nat a) w;
         sweep class_addr n true' f as st w } } }"

definition cesk_frame_gc :: "('m, 'd) frame_env \<Rightarrow> 'd frame_state \<Rightarrow> (int \<times> 'd frame_state) option" where
  "cesk_frame_gc env fs = do {
     let fr = fs_frame fs;
     let nslot = nblocks (fr_store fr) * CESK_STORE_BLOCK_NSLOTS;
     let g = gc_prepare nslot (fm_gc fs);
     (case gf_fb g of
        None \<Rightarrow> Some (-1, fs\<lparr>fm_gc := g\<lparr>gf_size := 0\<rparr>\<rparr>)
      | Some f \<Rightarrow> do {
          let dfs = cesk_frame_store_dfs (Suc (unat (gf_size g))) (fe_fuel env) (fr_store fr) (fm_world fs) (gf_true g);
          roots \<leftarrow> roots_of_sets (fr_regs fr) (mem_sets fs);
          f \<leftarrow> dfs roots f;
          fields \<leftarrow> table_fields (fr_statics fr) (statics_of fs);
          roots \<leftarrow> roots_of_sets (map (Some \<circ> snd) fields) (mem_sets fs);
          f \<leftarrow> dfs roots f;
          (u, fs) \<leftarrow> on_store (sweep (fe_class_addr env) (fe_fuel env) (gf_true g) f [0..<nslot]) fs;
          (rc, fs) \<leftarrow> on_store (\<lambda>st w. do {
             (rc, st', w) \<leftarrow> cesk_store_compact_store (Some st) w; st' \<leftarrow> st'; Some (rc, st', w) }) fs;
          Some (0, fs\<lparr>fm_gc := g\<lparr>gf_fb := Some f, gf_true := gf_true g + 1\<rparr>\<rparr>) }) }"

subsection \<open>Frames of called methods\<close>

text \<open>
  The relocated addresses of a set are replaced while the iterator goes on. The result has the return code
  and the set that the pointer leads to then.
\<close>

fun relocate_set :: "nat \<Rightarrow> alloctab option \<Rightarrow> u32 \<Rightarrow> nat option \<Rightarrow> u32 option \<Rightarrow> set_state \<Rightarrow> (int \<times> u32 option \<times> set_state) option" where
  "relocate_set 0 tab token iter i s = None"
| "relocate_set (Suc n) tab token iter i s = do {
     (addr, iter) \<leftarrow> cesk_set_iter_next iter s;
     if addr = CESK_STORE_ADDR_NULL then Some (0, i, s)
     else if CESK_STORE_ADDR_IS_RELOC addr
     then let naddr = cesk_alloctab_query tab token addr
          in if naddr = CESK_STORE_ADDR_NULL then Some (-1, i, s)
             else do {
               (rc, i, s) \<leftarrow> cesk_set_modify i addr naddr s;
               if rc < 0 then Some (-1, i, s) else relocate_set n tab token iter i s }
     else relocate_set n tab token iter i s }"

definition relocate :: "alloctab option \<Rightarrow> u32 \<Rightarrow> u32 option \<Rightarrow> set_state \<Rightarrow> (int \<times> u32 option \<times> set_state) option" where
  "relocate tab token i s =
     (case Option.bind i (\<lambda>i. cesk_set_iter i s) of
        None \<Rightarrow> Some (-1, i, s)
      | Some iter \<Rightarrow> relocate_set (Suc (next_node s)) tab token iter i s)"

fun relocate_regs :: "nat list \<Rightarrow> 'd frame_state \<Rightarrow> (int \<times> 'd frame_state) option" where
  "relocate_regs [] fs = Some (0, fs)"
| "relocate_regs (r # rs) fs =
     (let st = fr_store (fs_frame fs) in
      checked (on_reg r (relocate (store_tab st (fm_world fs)) (st_alloc_token st)) fs) (relocate_regs rs))"

text \<open>One static field after the other that has a relocated address. Every round clears the flag of a field.\<close>

definition relocate_field :: "u32 \<Rightarrow> 'd frame_state \<Rightarrow> (int \<times> 'd frame_state) option" where
  "relocate_field ref fs = do {
     (slot, fs) \<leftarrow> on_table (\<lambda>tb. cesk_static_table_get_rw tb ref False) fs;
     (case slot of
        None \<Rightarrow> Some (-1, fs)
      | Some a \<Rightarrow> do {
          v \<leftarrow> leaf_value a (statics_of fs);
          if v = None then Some (-1, fs)
          else do {
            let st = fr_store (fs_frame fs);
            (rc, v, s) \<leftarrow> relocate (store_tab st (fm_world fs)) (st_alloc_token st) v (mem_sets fs);
            s \<leftarrow> write_leaf a v (statics_of (with_sets s fs));
            let fs = with_statics s fs;
            if rc < 0 then Some (-1, fs)
            else checked (on_table (\<lambda>tb s. do { (rc, tb) \<leftarrow> cesk_static_table_release_rw tb ref v s; Some (rc, tb, s) }) fs)
              (on_table (\<lambda>tb. cesk_static_table_update_relocated_flag tb ref False True)) } }) }"

fun relocate_fields :: "nat \<Rightarrow> 'd frame_state \<Rightarrow> (int \<times> 'd frame_state) option" where
  "relocate_fields 0 fs = None"
| "relocate_fields (Suc n) fs = do {
     ref \<leftarrow> cesk_static_table_first_reloc (Some (fr_statics (fs_frame fs))) (statics_of fs);
     if ref = CESK_STORE_ADDR_NULL then Some (0, fs)
     else checked (relocate_field ref fs) (relocate_fields n) }"

text \<open>
  The arguments become the last registers of the new frame; the boolean tells whether all of them are there,
  and otherwise the registers before the null pointer are returned.
\<close>

fun take_args :: "u32 option list \<Rightarrow> u32 option list \<times> bool" where
  "take_args [] = ([], True)"
| "take_args (None # as) = ([], False)"
| "take_args (Some i # as) = (case take_args as of (is, ok) \<Rightarrow> (Some i # is, ok))"

text \<open>
  The error exit gives back the static fields, the store and the first registers of the frame of the caller.
  The switch falls through from the later stages to the earlier ones.
\<close>

definition invocation_error :: "frame \<Rightarrow> nat \<Rightarrow> nat \<Rightarrow> ('d, 'z) frame_mem_scheme \<Rightarrow> ('d, 'z) frame_mem_scheme option" where
  "invocation_error fr stage regcnt m = do {
     m \<leftarrow> (if stage = 4 then release_statics (fr_statics fr) m else Some m);
     m \<leftarrow> (if stage \<ge> 3 then release_store (fr_store fr) m else Some m);
     if fr_size fr < regcnt then None
     else do { s \<leftarrow> free_regs (take regcnt (fr_regs fr)) (mem_sets m); Some (with_sets s m) } }"

definition staged ::
  "frame \<Rightarrow> nat \<Rightarrow> (int \<times> 'd frame_state) option \<Rightarrow> ('d frame_state \<Rightarrow> (frame option \<times> 'd frame_state) option) \<Rightarrow> (frame option \<times> 'd frame_state) option" where
  "staged fr stage m f = do {
     (rc, fs) \<leftarrow> m;
     if rc < 0 then do { fs \<leftarrow> invocation_error fr stage (reg_count fs) fs; Some (None, fs) } else f fs }"

definition cesk_frame_make_invocation_frame ::
  "('m, 'd) frame_env \<Rightarrow> frame option \<Rightarrow> nat \<Rightarrow> nat \<Rightarrow> u32 option list option \<Rightarrow> 'd frame_mem \<Rightarrow> (frame option \<times> 'd frame_mem) option" where
  "cesk_frame_make_invocation_frame env fr nreg narg args m =
     (case (fr, args) of
        (Some fr, Some args) \<Rightarrow>
          if nreg > 65536 \<or> narg > nreg then Some (None, m)
          else if length args < narg then None
          else do {
            (regs, m) \<leftarrow> on_sets (empty_regs (nreg + 2 - narg)) m;
            (case take_args (take narg args) of
               (params, False) \<Rightarrow> do {
                 m \<leftarrow> invocation_error fr 1 (length regs + length params) m;
                 Some (None, m) }
             | (params, True) \<Rightarrow> do {
                 (st, w) \<leftarrow> cesk_store_fork (fr_store fr) (fm_world m);
                 let new = \<lparr>fr_store = st, fr_statics = fr_statics fr, fr_regs = regs @ params\<rparr>;
                 let fs = frame_mem.extend (m\<lparr>fm_world := w\<rparr>) (frame_state.fields new None None);
                 (ret, fs) \<leftarrow>
                   staged fr 2 (relocate_regs [0..<nreg + 2] fs) (\<lambda>fs.
                   do {
                     (tb, s) \<leftarrow> cesk_static_table_fork (Some (fr_statics fr)) (statics_of fs);
                     let fs = with_statics s (fs\<lparr>fs_frame := (fs_frame fs)\<lparr>fr_statics := tb\<rparr>\<rparr>);
                     staged fr 3 (relocate_fields (Suc (ss_count (fm_statics fs))) fs) (\<lambda>fs.
                     staged fr 4 (on_store (cesk_store_apply_alloctab (fe_class_addr env) (fe_fuel env) (fe_junk env)) fs) (\<lambda>fs.
                     staged fr 4 (cesk_frame_gc env fs) (\<lambda>fs. Some (Some (fs_frame fs), fs)))) });
                 Some (ret, frame_mem.truncate fs) }) }
      | _ \<Rightarrow> Some (None, m))"

end
