(* ===== verification/Cesk_Diff_Facts.thy ===== *)
theory Cesk_Diff_Facts
  imports Cesk_Diff "HOL-Library.Multiset"
begin

text \<open>
  What the conversion of a buffer computes (\<^verbatim>\<open>cesk_diff_from_buffer\<close>): the nodes in order, the records of the
  five sections as lists, the references that are given back, and the bounds of the array.
\<close>

subsection \<open>Sorting\<close>

text \<open>What the sort relies on, and what its result is for every comparison of this kind.\<close>

locale comparison =
  fixes cmp :: "'n \<Rightarrow> 'n \<Rightarrow> int"
  assumes cmp_total: "cmp x y \<le> 0 \<or> cmp y x \<le> 0"
    and cmp_trans: "cmp x y \<le> 0 \<Longrightarrow> cmp y z \<le> 0 \<Longrightarrow> cmp x z \<le> 0"
begin

lemma mset_insert_node: "mset (insert_node cmp n ms) = add_mset n (mset ms)"
  by (induction ms) simp_all

lemma mset_qsort: "mset (qsort cmp ns) = mset ns"
  by (induction ns) (simp_all add: mset_insert_node)

lemma sorted_insert_node:
  "sorted_wrt (\<lambda>x y. cmp x y \<le> 0) ms \<Longrightarrow> sorted_wrt (\<lambda>x y. cmp x y \<le> 0) (insert_node cmp n ms)"
proof (induction ms)
  case (Cons m ms)
  have "set (insert_node cmp n ms) = insert n (set ms)"
    using mset_insert_node [of n ms] by (metis set_mset_add_mset_insert set_mset_mset)
  then show ?case using Cons cmp_total [of n m] by (auto intro: cmp_trans)
qed simp

lemma sorted_qsort: "sorted_wrt (\<lambda>x y. cmp x y \<le> 0) (qsort cmp ns)"
  by (induction ns) (simp_all add: sorted_insert_node)

lemma set_qsort: "set (qsort cmp ns) = set ns"
  using mset_qsort [of ns] by (metis set_mset_mset)

lemma length_qsort: "length (qsort cmp ns) = length ns"
  using mset_qsort [of ns] by (metis size_mset)

end

lemma cmp_le_iff:
  "cesk_diff_buffer_cmp l r \<le> 0 \<longleftrightarrow>
     nd_type l < nd_type r \<or> nd_type l = nd_type r \<and>
       (nd_addr l < nd_addr r \<or> nd_addr l = nd_addr r \<and> nd_time l \<le> nd_time r)"
  by (auto simp: cesk_diff_buffer_cmp_def)

interpretation node_order: comparison cesk_diff_buffer_cmp
proof
  show "cesk_diff_buffer_cmp x y \<le> 0 \<or> cesk_diff_buffer_cmp y x \<le> 0" for x y
    by (auto simp: cmp_le_iff)
  show "cesk_diff_buffer_cmp x y \<le> 0 \<Longrightarrow> cesk_diff_buffer_cmp y z \<le> 0 \<Longrightarrow> cesk_diff_buffer_cmp x z \<le> 0" for x y z
    by (auto simp: cmp_le_iff)
qed

lemma sorted_wrt_unique:
  assumes "\<And>x y. P x y \<Longrightarrow> \<not> P y x"
  shows "sorted_wrt P xs \<Longrightarrow> sorted_wrt P ys \<Longrightarrow> set xs = set ys \<Longrightarrow> xs = ys"
proof (induction xs arbitrary: ys)
  case (Cons x xs)
  then obtain y ys' where ys: "ys = y # ys'" by (cases ys) auto
  have "x = y" using Cons.prems assms by (metis insert_iff list.set(2) sorted_wrt.simps(2) ys)
  moreover have "x \<notin> set xs" using Cons.prems(1) assms [of x x] by auto
  moreover have "y \<notin> set ys'" using Cons.prems(2) assms [of y y] ys by auto
  moreover have "xs = ys'" using Cons.prems ys calculation by (intro Cons.IH) auto
  ultimately show ?case using ys by simp
qed simp

subsection \<open>Records at consecutive positions\<close>

definition rows :: "cesk_diff \<Rightarrow> nat \<Rightarrow> diff_rec list \<Rightarrow> bool" where
  "rows d a rs \<longleftrightarrow> (\<forall>i < length rs. df_data d (a + i) = Some (rs ! i))"

lemma rows_Nil [simp]: "rows d a []"
  by (simp add: rows_def)

lemma rows_Cons: "rows d a (r # rs) \<longleftrightarrow> df_data d a = Some r \<and> rows d (Suc a) rs"
  by (auto simp: rows_def All_less_Suc2)

lemma rows_append: "rows d a (rs @ ts) \<longleftrightarrow> rows d a rs \<and> rows d (a + length rs) ts"
  by (induction rs arbitrary: a) (simp_all add: rows_Cons)

lemma rows_cong: "(\<And>i. a \<le> i \<Longrightarrow> i < a + length rs \<Longrightarrow> df_data d i = df_data e i) \<Longrightarrow> rows d a rs = rows e a rs"
  by (simp add: rows_def)

lemma map_opt_rows: "map_opt (df_data d) [a..<a + length rs] = Some rs \<longleftrightarrow> rows d a rs"
  by (simp add: map_opt_Some_nth rows_def)

lemma df_section_rows: "offs d (Suc sec) = offs d sec + length rs \<Longrightarrow> rows d (offs d sec) rs \<Longrightarrow> df_section d sec = Some rs"
  by (simp add: df_section_def map_opt_rows)

lemma df_sectionD:
  assumes "df_section d sec = Some rs"
  shows "offs d (Suc sec) = offs d sec + length rs" "rows d (offs d sec) rs"
proof -
  have le: "offs d sec \<le> offs d (Suc sec)" and m: "map_opt (df_data d) [offs d sec..<offs d (Suc sec)] = Some rs"
    using assms by (auto simp: df_section_def split: if_splits)
  then have "length rs = offs d (Suc sec) - offs d sec" by (auto simp: map_opt_Some_nth)
  then show "offs d (Suc sec) = offs d sec + length rs" using le by simp
  with m show "rows d (offs d sec) rs" by (simp add: map_opt_rows)
qed

subsection \<open>The records of a section\<close>

text \<open>The effect of an overriding node on the argument of the current record, by section.\<close>

definition override :: "nat \<Rightarrow> diff_arg \<Rightarrow> diff_arg \<Rightarrow> diff_arg" where
  "override sec a node =
     (if sec = CESK_DIFF_REUSE then put_boolean (of_bool (\<not> arg_null node)) a
      else if sec = CESK_DIFF_DEALLOC then a else node)"

text \<open>The records in reverse order, the current one first.\<close>

fun add_node :: "nat \<Rightarrow> diff_rec list \<Rightarrow> diff_node \<Rightarrow> diff_rec list" where
  "add_node sec [] n = [\<lparr>dr_addr = nd_addr n, dr_arg = nd_value n\<rparr>]"
| "add_node sec (r # rs) n =
     (if dr_addr r = nd_addr n then r\<lparr>dr_arg := override sec (dr_arg r) (nd_value n)\<rparr> # rs
      else \<lparr>dr_addr = nd_addr n, dr_arg = nd_value n\<rparr> # r # rs)"

definition section_recs :: "nat \<Rightarrow> diff_node list \<Rightarrow> diff_rec list" where
  "section_recs sec ns = rev (foldl (add_node sec) [] ns)"

text \<open>The references that a section gives back while its nodes are converted.\<close>

fun overwritten :: "nat \<Rightarrow> diff_rec list \<Rightarrow> diff_node list \<Rightarrow> 'd value_heap \<Rightarrow> 'd value_heap option" where
  "overwritten sec rs [] h = Some h"
| "overwritten sec rs (n # ns) h = do {
     h \<leftarrow> (case rs of [] \<Rightarrow> Some h | r # _ \<Rightarrow> if dr_addr r = nd_addr n then release_arg sec (dr_arg r) h else Some h);
     overwritten sec (add_node sec rs n) ns h }"

definition arg_fits :: "nat \<Rightarrow> diff_arg \<Rightarrow> bool" where
  "arg_fits sec a \<longleftrightarrow>
     (if sec = CESK_DIFF_ALLOC \<or> sec = CESK_DIFF_STORE then \<exists>v. a = AVal (Some v)
      else if sec = CESK_DIFF_REG then \<exists>i. a = ASet i
      else if sec = CESK_DIFF_DEALLOC then a = ABits 0
      else \<exists>x. a = ABits x)"

lemma arg_simps [simp]:
  "arg_value (AVal v) = Some v" "arg_set (ASet i) = Some i" "arg_boolean (ABits x) = Some (ucast x)"
  by (simp_all add: arg_value_def arg_set_def arg_boolean_def)

lemma drop_simps [simp]:
  "drop_value (AVal (Some v)) h = cesk_value_decref v h" "drop_set (ASet None) h = Some h"
  by (simp_all add: drop_value_def drop_set_def cesk_set_free_def)

lemma combine_override:
  assumes "arg_fits sec a" "arg_fits sec b" "sec < CESK_DIFF_NTYPES"
  shows "combine_node junk False sec a b h = map_option (\<lambda>h. (True, override sec a b, h)) (release_arg sec a h)"
proof -
  consider (val) v w where "sec = CESK_DIFF_ALLOC \<or> sec = CESK_DIFF_STORE" "a = AVal (Some v)" "b = AVal (Some w)"
    | (reg) i j where "sec = CESK_DIFF_REG" "a = ASet i" "b = ASet j"
    | (bits) x y where "sec = CESK_DIFF_REUSE" "a = ABits x" "b = ABits y"
    | (dealloc) "sec = CESK_DIFF_DEALLOC"
    using assms by (auto simp: arg_fits_def diff_sections less_Suc_eq numeral_eq_Suc split: if_splits)
  then show ?thesis
  proof cases
    case val
    then show ?thesis
      by (cases "cesk_value_decref v h") (auto simp: combine_node_def override_def release_arg_def diff_sections)
  next
    case reg
    then show ?thesis
      by (cases i; cases "drop_set (ASet i) h") (auto simp: combine_node_def override_def release_arg_def diff_sections)
  qed (auto simp: combine_node_def override_def release_arg_def diff_sections)
qed

lemma override_fits: "arg_fits sec a \<Longrightarrow> arg_fits sec b \<Longrightarrow> arg_fits sec (override sec a b)"
  by (auto simp: override_def arg_fits_def put_boolean_def diff_sections)

lemma offs_set_offs [simp]: "i < length (df_offset d) \<Longrightarrow> offs (set_offs i v d) i = v"
  and offs_set_other [simp]: "i \<noteq> j \<Longrightarrow> offs (set_offs i v d) j = offs d j"
  by (simp_all add: set_offs_def)

lemma set_offs_sel [simp]:
  "df_data (set_offs i v d) = df_data d" "df_cap (set_offs i v d) = df_cap d" "df_refcnt (set_offs i v d) = df_refcnt d"
  "length (df_offset (set_offs i v d)) = length (df_offset d)" "df_index (set_offs i v d) = df_index d"
  by (simp_all add: set_offs_def)

lemma rows_set_offs [simp]: "rows (set_offs i v d) a rs = rows d a rs"
  by (simp add: rows_def)

subsection \<open>Conversion without merging\<close>

definition add_heap :: "nat \<Rightarrow> diff_rec list \<Rightarrow> diff_node \<Rightarrow> 'd value_heap \<Rightarrow> 'd value_heap option" where
  "add_heap sec rs n h =
     (case rs of [] \<Rightarrow> Some h | r # _ \<Rightarrow> if dr_addr r = nd_addr n then release_arg sec (dr_arg r) h else Some h)"

lemma overwritten_Cons: "overwritten sec rs (n # ns) h = do { h \<leftarrow> add_heap sec rs n h; overwritten sec (add_node sec rs n) ns h }"
  by (simp add: add_heap_def)

lemma length_add_node: "length rs \<le> length (add_node sec rs n)" "add_node sec rs n \<noteq> []"
  by (cases rs; simp)+

text \<open>The part of a diff that the conversion of a section has written.\<close>

definition in_section :: "nat \<Rightarrow> cesk_diff \<Rightarrow> diff_rec list \<Rightarrow> bool" where
  "in_section sec d rs \<longleftrightarrow>
     length (df_offset d) = Suc CESK_DIFF_NTYPES \<and> sec < CESK_DIFF_NTYPES \<and>
     rows d (offs d sec) (rev rs) \<and> offs d (Suc sec) = offs d sec + (length rs - 1) \<and>
     (\<forall>r \<in> set rs. arg_fits sec (dr_arg r))"

text \<open>Nothing else has changed.\<close>

definition in_bounds :: "cesk_diff \<Rightarrow> bool" where
  "in_bounds d \<longleftrightarrow> dom (df_data d) \<subseteq> {..<df_cap d}"

lemma in_bounds_set_offs [simp]: "in_bounds (set_offs i v d) = in_bounds d"
  by (simp add: in_bounds_def)

definition keeps_below :: "nat \<Rightarrow> cesk_diff \<Rightarrow> cesk_diff \<Rightarrow> bool" where
  "keeps_below sec d e \<longleftrightarrow>
     df_cap e = df_cap d \<and> df_refcnt e = df_refcnt d \<and> length (df_offset e) = length (df_offset d) \<and>
     (\<forall>i \<le> sec. offs e i = offs d i) \<and> (\<forall>i < offs d sec. df_data e i = df_data d i) \<and> (in_bounds d \<longrightarrow> in_bounds e)"

lemma keeps_below_refl [simp]: "keeps_below sec d d"
  by (simp add: keeps_below_def)

lemma keeps_below_trans: "keeps_below sec d e \<Longrightarrow> keeps_below sec e f \<Longrightarrow> keeps_below sec d f"
  by (simp add: keeps_below_def)

lemma place_node_step:
  assumes inv: "in_section sec d rs" and fits: "arg_fits sec (nd_value n)"
    and prev: "rs \<noteq> [] \<Longrightarrow> prev = dr_addr (hd rs)"
    and cap: "offs d sec + length (add_node sec rs n) \<le> df_cap d"
  obtains e where "\<forall>h :: 'd value_heap. place_node junk False sec n (rs = []) prev d h = map_option (\<lambda>h. (True, e, h)) (add_heap sec rs n h)"
    "in_section sec e (add_node sec rs n)" "keeps_below sec d e"
proof (cases rs)
  case Nil
  then show thesis
    using inv fits cap
    by (intro that [of "d\<lparr>df_data := (df_data d)(offs d sec \<mapsto> \<lparr>dr_addr = nd_addr n, dr_arg = nd_value n\<rparr>)\<rparr>"])
      (auto simp: place_node_def put_rec_def in_section_def keeps_below_def add_heap_def rows_Cons in_bounds_def)
next
  case (Cons r rs')
  have len: "length (df_offset d) = Suc CESK_DIFF_NTYPES" "sec < CESK_DIFF_NTYPES" "offs d (Suc sec) = offs d sec + length rs'"
    and rows: "rows d (offs d sec) (rev rs')" "df_data d (offs d sec + length rs') = Some r"
    and rfits: "arg_fits sec (dr_arg r)" "\<forall>r \<in> set rs'. arg_fits sec (dr_arg r)"
    using inv by (auto simp: in_section_def Cons rows_append rows_Cons)
  show thesis
  proof (cases "dr_addr r = nd_addr n")
    case True
    define t where "t = r\<lparr>dr_arg := override sec (dr_arg r) (nd_value n)\<rparr>"
    define e where "e = d\<lparr>df_data := (df_data d)(offs d sec + length rs' \<mapsto> t)\<rparr>"
    have "rows e (offs d sec) (rev rs')"
      using rows(1) by (subst rows_cong [of _ _ _ d]) (auto simp: e_def)
    then have sec_e: "in_section sec e (add_node sec rs n)"
      using len rfits fits True override_fits [OF rfits(1) fits]
      by (auto simp: in_section_def Cons rows_append rows_Cons e_def t_def)
    have place: "place_node junk False sec n (rs = []) prev d h = map_option (\<lambda>h. (True, e, h)) (add_heap sec rs n h)" for h :: "'d value_heap"
      using prev True rows(2) len cap combine_override [OF rfits(1) fits len(2), where h = h]
      by (cases "release_arg sec (dr_arg r) h")
        (auto simp: place_node_def Cons add_heap_def put_rec_def e_def t_def)
    have "keeps_below sec d e" using Cons cap True by (auto simp: keeps_below_def e_def in_bounds_def)
    with place sec_e show thesis using that by blast
  next
    case False
    define t where "t = \<lparr>dr_addr = nd_addr n, dr_arg = nd_value n\<rparr>"
    define e where "e = (set_offs (Suc sec) (Suc (offs d (Suc sec))) d)\<lparr>df_data := (df_data d)(Suc (offs d sec + length rs') \<mapsto> t)\<rparr>"
    have offs: "offs e sec = offs d sec" "offs e (Suc sec) = Suc (offs d (Suc sec))"
      using len by (auto simp: e_def set_offs_def)
    have "rows e (offs d sec) (rev rs')"
      using rows(1) by (subst rows_cong [of _ _ _ d]) (auto simp: e_def)
    then have sec_e: "in_section sec e (add_node sec rs n)"
      using len rfits fits False rows(2) offs
      by (auto simp: in_section_def Cons rows_append rows_Cons e_def t_def)
    have place: "place_node junk False sec n (rs = []) prev d h = map_option (\<lambda>h. (True, e, h)) (add_heap sec rs n h)" for h :: "'d value_heap"
      using prev False len cap by (auto simp: place_node_def Cons add_heap_def put_rec_def e_def t_def Let_def)
    have "keeps_below sec d e"
      using len Cons cap False by (auto simp: keeps_below_def e_def set_offs_def in_bounds_def)
    with place sec_e show thesis using that by blast
  qed
qed

lemma keeps_section: "in_section sec d rs \<Longrightarrow> keeps_below sec d e \<Longrightarrow> offs e sec = offs d sec"
  by (simp add: keeps_below_def)

lemma hd_add_node: "dr_addr (hd (add_node sec rs n)) = nd_addr n"
  by (cases rs) auto

lemma length_add_nodes: "length rs \<le> length (foldl (add_node sec) rs ns)"
  by (induction ns arbitrary: rs) (auto intro: order.trans [OF length_add_node(1)])

lemma convert_nodes_section:
  assumes "in_section sec d rs" "\<forall>n \<in> set ns. nd_type n = sec \<and> arg_fits sec (nd_value n)"
    and "rs \<noteq> [] \<Longrightarrow> prev = dr_addr (hd rs)" and "ys = [] \<or> nd_type (hd ys) \<noteq> sec"
    and "offs d sec + length (foldl (add_node sec) rs ns) \<le> df_cap d"
  shows "\<exists>e pa. (\<forall>h :: 'd value_heap. convert_nodes junk False sec (ns @ ys) (rs = []) prev c d h =
             map_option (\<lambda>h. (ys, foldl (add_node sec) rs ns = [], pa, c + length ns, e, h)) (overwritten sec rs ns h)) \<and>
           in_section sec e (foldl (add_node sec) rs ns) \<and> keeps_below sec d e"
  using assms
proof (induction ns arbitrary: rs prev c d)
  case Nil
  then show ?case by (intro exI [of _ d] exI [of _ prev]) (cases ys; auto)
next
  case (Cons n ns)
  have fits: "arg_fits sec (nd_value n)" using Cons.prems(2) by simp
  have cap: "offs d sec + length (add_node sec rs n) \<le> df_cap d"
    using Cons.prems(5) length_add_nodes [of "add_node sec rs n" sec ns] by simp
  obtain e where place: "\<forall>h :: 'd value_heap. place_node junk False sec n (rs = []) prev d h = map_option (\<lambda>h. (True, e, h)) (add_heap sec rs n h)"
    and e: "in_section sec e (add_node sec rs n)" "keeps_below sec d e"
    by (rule place_node_step [where junk = junk, OF Cons.prems(1) fits Cons.prems(3) cap])
  have eq: "offs e sec = offs d sec" "df_cap e = df_cap d" using e(2) by (simp_all add: keeps_below_def)
  have types: "\<forall>n \<in> set ns. nd_type n = sec \<and> arg_fits sec (nd_value n)" using Cons.prems(2) by simp
  have heads: "nd_addr n = dr_addr (hd (add_node sec rs n))" by (simp add: hd_add_node)
  have room: "offs e sec + length (foldl (add_node sec) (add_node sec rs n) ns) \<le> df_cap e" using Cons.prems(5) eq by simp
  have "\<exists>f pa. (\<forall>h :: 'd value_heap. convert_nodes junk False sec (ns @ ys) False (nd_addr n) (Suc c) e h =
        map_option (\<lambda>h. (ys, foldl (add_node sec) (add_node sec rs n) ns = [], pa, Suc c + length ns, f, h)) (overwritten sec (add_node sec rs n) ns h)) \<and>
      in_section sec f (foldl (add_node sec) (add_node sec rs n) ns) \<and> keeps_below sec e f"
    using Cons.IH [OF e(1) types heads Cons.prems(4) room, of "Suc c"] by (simp only: length_add_node(2) if_False simp_thms)
  then obtain f pa where f: "\<And>h :: 'd value_heap. convert_nodes junk False sec (ns @ ys) False (nd_addr n) (Suc c) e h =
        map_option (\<lambda>h. (ys, foldl (add_node sec) (add_node sec rs n) ns = [], pa, Suc c + length ns, f, h)) (overwritten sec (add_node sec rs n) ns h)"
    "in_section sec f (foldl (add_node sec) (add_node sec rs n) ns)" "keeps_below sec e f"
    by blast
  have "convert_nodes junk False sec ((n # ns) @ ys) (rs = []) prev c d h =
      map_option (\<lambda>h. (ys, foldl (add_node sec) rs (n # ns) = [], pa, c + length (n # ns), f, h)) (overwritten sec rs (n # ns) h)" for h :: "'d value_heap"
    unfolding overwritten_Cons using Cons.prems(2) by (cases "add_heap sec rs n h") (simp_all add: place f(1) del: overwritten.simps)
  moreover have "keeps_below sec d f" by (rule keeps_below_trans [OF e(2) f(3)])
  moreover have "in_section sec f (foldl (add_node sec) rs (n # ns))" using f(2) by simp
  ultimately show ?case by blast
qed

text \<open>All sections, from one of them on.\<close>

definition section_nodes :: "nat \<Rightarrow> diff_node list \<Rightarrow> diff_node list" where
  "section_nodes sec ns = filter (\<lambda>n. nd_type n = sec) ns"

fun overwritten_all :: "nat list \<Rightarrow> diff_node list \<Rightarrow> 'd value_heap \<Rightarrow> 'd value_heap option" where
  "overwritten_all [] ns h = Some h"
| "overwritten_all (sec # secs) ns h = do { h \<leftarrow> overwritten sec [] (section_nodes sec ns) h; overwritten_all secs ns h }"

lemma keeps_below_mono: "keeps_below sec d e \<Longrightarrow> sec' \<le> sec \<Longrightarrow> offs d sec' \<le> offs d sec \<Longrightarrow> keeps_below sec' d e"
  by (simp add: keeps_below_def)

lemma in_section_start:
  "length (df_offset d) = Suc CESK_DIFF_NTYPES \<Longrightarrow> sec < CESK_DIFF_NTYPES \<Longrightarrow> in_section sec (set_offs (Suc sec) (offs d sec) d) []"
  by (simp add: in_section_def)

lemma convert_one_section:
  assumes "length (df_offset d) = Suc CESK_DIFF_NTYPES" "sec < CESK_DIFF_NTYPES"
    and "\<forall>n \<in> set ns. nd_type n = sec \<and> arg_fits sec (nd_value n)" "ys = [] \<or> nd_type (hd ys) \<noteq> sec"
    and "offs d sec + length (section_recs sec ns) \<le> df_cap d"
  shows "\<exists>e pa. (\<forall>secs (h :: 'd value_heap). convert_sections junk False (sec # secs) (ns @ ys) prev c d h =
      do { h \<leftarrow> overwritten sec [] ns h; convert_sections junk False secs ys pa (c + length ns) e h }) \<and>
    df_section e sec = Some (section_recs sec ns) \<and> keeps_below sec d e \<and> offs e (Suc sec) = offs d sec + length (section_recs sec ns)"
proof -
  let ?d = "set_offs (Suc sec) (offs d sec) d" and ?rs = "foldl (add_node sec) [] ns"
  have cap: "offs ?d sec + length ?rs \<le> df_cap ?d" using assms(5) by (simp add: section_recs_def)
  obtain e pa where e: "\<And>h :: 'd value_heap. convert_nodes junk False sec (ns @ ys) True prev c ?d h =
        map_option (\<lambda>h. (ys, ?rs = [], pa, c + length ns, e, h)) (overwritten sec [] ns h)"
    "in_section sec e ?rs" "keeps_below sec ?d e"
    using convert_nodes_section [OF in_section_start [OF assms(1,2)] assms(3) _ assms(4) cap, of prev junk c] by auto
  define e' where "e' = (if ?rs = [] then e else set_offs (Suc sec) (Suc (offs e (Suc sec))) e)"
  have offs: "offs e' sec = offs d sec" "offs e' (Suc sec) = offs d sec + length ?rs"
    using e(2,3) by (auto simp: e'_def keeps_below_def in_section_def)
  have "rows e' (offs e' sec) (section_recs sec ns)"
    using e(2,3) offs(1) by (simp add: e'_def in_section_def section_recs_def keeps_below_def)
  then have "df_section e' sec = Some (section_recs sec ns)"
    using offs by (intro df_section_rows) (simp_all add: section_recs_def)
  moreover have "convert_sections junk False (sec # secs) (ns @ ys) prev c d h =
      do { h \<leftarrow> overwritten sec [] ns h; convert_sections junk False secs ys pa (c + length ns) e' h }" for secs and h :: "'d value_heap"
    by (cases "overwritten sec [] ns h") (simp_all add: e(1) e'_def)
  moreover have "keeps_below sec d e'" using e(3) by (auto simp: keeps_below_def e'_def)
  ultimately show ?thesis using offs(2) by (intro exI [of _ e'] exI [of _ pa]) (simp add: section_recs_def)
qed

lemma df_section_keeps:
  assumes "df_section d sec = Some rs" "keeps_below (Suc sec) d e"
  shows "df_section e sec = Some rs"
proof (rule df_section_rows)
  note d = df_sectionD [OF assms(1)]
  show "offs e (Suc sec) = offs e sec + length rs" using assms(2) d(1) by (simp add: keeps_below_def)
  show "rows e (offs e sec) rs"
    using assms(2) d by (simp add: keeps_below_def rows_def)
qed

abbreviation node_sorted :: "diff_node list \<Rightarrow> bool" where
  "node_sorted ns \<equiv> sorted_wrt (\<lambda>x y. cesk_diff_buffer_cmp x y \<le> 0) ns"

lemma split_sections:
  "node_sorted ns \<Longrightarrow> \<forall>n \<in> set ns. k \<le> nd_type n \<Longrightarrow> ns = section_nodes k ns @ filter (\<lambda>n. nd_type n \<noteq> k) ns"
proof (induction ns)
  case (Cons n ns)
  show ?case
  proof (cases "nd_type n = k")
    case True
    then show ?thesis using Cons by (simp add: section_nodes_def)
  next
    case False
    then have "\<forall>m \<in> set ns. nd_type m \<noteq> k" using Cons.prems by (fastforce simp: cmp_le_iff)
    then show ?thesis using False by (simp add: section_nodes_def filter_empty_conv)
  qed
qed (simp add: section_nodes_def)

definition all_recs :: "nat list \<Rightarrow> diff_node list \<Rightarrow> nat" where
  "all_recs secs ns = (\<Sum>s\<leftarrow>secs. length (section_recs s (section_nodes s ns)))"

lemma section_nodes_later: "s \<noteq> k \<Longrightarrow> section_nodes s (filter (\<lambda>n. nd_type n \<noteq> k) ns) = section_nodes s ns"
  by (auto simp: section_nodes_def intro: filter_cong)

lemma overwritten_all_later:
  "k \<notin> set secs \<Longrightarrow> overwritten_all secs (filter (\<lambda>n. nd_type n \<noteq> k) ns) h = overwritten_all secs ns h"
proof (induction secs arbitrary: h)
  case (Cons s secs)
  then show ?case by (cases "overwritten s [] (section_nodes s ns) h") (auto simp: section_nodes_later)
qed simp

lemma all_recs_later: "k \<notin> set secs \<Longrightarrow> all_recs secs (filter (\<lambda>n. nd_type n \<noteq> k) ns) = all_recs secs ns"
  by (induction secs) (auto simp: all_recs_def section_nodes_later)

lemma convert_from:
  assumes "k + j = CESK_DIFF_NTYPES" "node_sorted ns"
    and "\<forall>n \<in> set ns. k \<le> nd_type n \<and> nd_type n < CESK_DIFF_NTYPES \<and> arg_fits (nd_type n) (nd_value n)"
    and "length (df_offset d) = Suc CESK_DIFF_NTYPES" "offs d k + all_recs [k..<CESK_DIFF_NTYPES] ns \<le> df_cap d"
  shows "\<exists>e. (\<forall>h :: 'd value_heap. convert_sections junk False [k..<CESK_DIFF_NTYPES] ns prev c d h =
             map_option (\<lambda>h. (c + length ns, e, h)) (overwritten_all [k..<CESK_DIFF_NTYPES] ns h)) \<and>
           (\<forall>s. k \<le> s \<longrightarrow> s < CESK_DIFF_NTYPES \<longrightarrow> df_section e s = Some (section_recs s (section_nodes s ns))) \<and>
           keeps_below k d e"
  using assms
proof (induction j arbitrary: k ns d prev c)
  case 0
  then have "k = CESK_DIFF_NTYPES" "ns = []" by (simp, cases ns) auto
  then show ?case by (intro exI [of _ d]) simp
next
  case (Suc j)
  let ?us = "section_nodes k ns" and ?vs = "filter (\<lambda>n. nd_type n \<noteq> k) ns"
  have k: "k < CESK_DIFF_NTYPES" "Suc k + j = CESK_DIFF_NTYPES" using Suc.prems(1) by simp_all
  have upt: "[k..<CESK_DIFF_NTYPES] = k # [Suc k..<CESK_DIFF_NTYPES]" using k(1) by (simp add: upt_conv_Cons)
  have split: "ns = ?us @ ?vs" using split_sections [of ns k] Suc.prems(2,3) by blast
  have us: "\<forall>n \<in> set ?us. nd_type n = k \<and> arg_fits k (nd_value n)" using Suc.prems(3) by (auto simp: section_nodes_def)
  have vs: "\<forall>n \<in> set ?vs. Suc k \<le> nd_type n \<and> nd_type n < CESK_DIFF_NTYPES \<and> arg_fits (nd_type n) (nd_value n)"
    using Suc.prems(3) by (auto simp: Suc_le_eq le_neq_implies_less)
  have tail: "?vs = [] \<or> nd_type (hd ?vs) \<noteq> k"
  proof (cases "?vs = []")
    case False
    then have "hd ?vs \<in> set ?vs" by (rule hd_in_set)
    then show ?thesis by simp
  qed simp
  have recs: "all_recs [k..<CESK_DIFF_NTYPES] ns = length (section_recs k ?us) + all_recs [Suc k..<CESK_DIFF_NTYPES] ?vs"
    by (simp add: upt all_recs_later) (simp add: all_recs_def)
  have room: "offs d k + length (section_recs k ?us) \<le> df_cap d" using Suc.prems(5) recs by simp
  obtain e pa where "(\<forall>secs (h :: 'd value_heap). convert_sections junk False (k # secs) (?us @ ?vs) prev c d h =
        do { h \<leftarrow> overwritten k [] ?us h; convert_sections junk False secs ?vs pa (c + length ?us) e h }) \<and>
      df_section e k = Some (section_recs k ?us) \<and> keeps_below k d e \<and> offs e (Suc k) = offs d k + length (section_recs k ?us)"
    using convert_one_section [OF Suc.prems(4) k(1) us tail room] by blast
  then have e: "\<forall>secs (h :: 'd value_heap). convert_sections junk False (k # secs) (?us @ ?vs) prev c d h =
        do { h \<leftarrow> overwritten k [] ?us h; convert_sections junk False secs ?vs pa (c + length ?us) e h }"
    "df_section e k = Some (section_recs k ?us)" "keeps_below k d e" "offs e (Suc k) = offs d k + length (section_recs k ?us)"
    by blast+
  have "node_sorted ?vs" by (rule sorted_wrt_filter [OF Suc.prems(2)])
  moreover have "length (df_offset e) = Suc CESK_DIFF_NTYPES" "offs e (Suc k) + all_recs [Suc k..<CESK_DIFF_NTYPES] ?vs \<le> df_cap e"
    using e(3,4) Suc.prems(4,5) recs by (simp_all add: keeps_below_def)
  ultimately obtain f where f: "\<And>h :: 'd value_heap. convert_sections junk False [Suc k..<CESK_DIFF_NTYPES] ?vs pa (c + length ?us) e h =
        map_option (\<lambda>h. (c + length ?us + length ?vs, f, h)) (overwritten_all [Suc k..<CESK_DIFF_NTYPES] ?vs h)"
    "\<forall>s. Suc k \<le> s \<longrightarrow> s < CESK_DIFF_NTYPES \<longrightarrow> df_section f s = Some (section_recs s (section_nodes s ?vs))"
    "keeps_below (Suc k) e f"
    using Suc.IH [OF k(2) _ vs] by blast
  have len: "length ?us + length ?vs = length ns" using arg_cong [OF split, of length] by simp
  have conv: "convert_sections junk False [k..<CESK_DIFF_NTYPES] ns prev c d h =
      map_option (\<lambda>h. (c + length ns, f, h)) (overwritten_all [k..<CESK_DIFF_NTYPES] ns h)" for h :: "'d value_heap"
  proof -
    have "convert_sections junk False [k..<CESK_DIFF_NTYPES] ns prev c d h =
        convert_sections junk False (k # [Suc k..<CESK_DIFF_NTYPES]) (?us @ ?vs) prev c d h"
      using split upt by (metis (no_types))
    also have "\<dots> = do { h \<leftarrow> overwritten k [] ?us h; convert_sections junk False [Suc k..<CESK_DIFF_NTYPES] ?vs pa (c + length ?us) e h }"
      by (rule e(1) [rule_format])
    also have "\<dots> = map_option (\<lambda>h. (c + length ns, f, h)) (overwritten_all [k..<CESK_DIFF_NTYPES] ns h)"
      by (cases "overwritten k [] ?us h") (simp_all add: upt overwritten_all_later f(1) len [symmetric] add.assoc)
    finally show ?thesis .
  qed
  have secs: "df_section f s = Some (section_recs s (section_nodes s ns))" if "k \<le> s" "s < CESK_DIFF_NTYPES" for s
  proof (cases "s = k")
    case True
    then show ?thesis using df_section_keeps [OF e(2) f(3)] by simp
  next
    case False
    then show ?thesis using f(2) that by (simp add: section_nodes_later)
  qed
  have "offs e k = offs d k" using e(3) by (simp add: keeps_below_def)
  then have "offs e k \<le> offs e (Suc k)" using e(4) by simp
  then have "keeps_below k d f" by (intro keeps_below_trans [OF e(3)] keeps_below_mono [OF f(3)]) simp_all
  with conv secs show ?case by (intro exI [of _ f] conjI allI impI) simp_all
qed

subsection \<open>The records of a sorted section\<close>

definition addr_sorted :: "diff_node list \<Rightarrow> bool" where
  "addr_sorted ns \<longleftrightarrow> sorted (map nd_addr ns)"

text \<open>The nodes for one address, combined from the first to the last.\<close>

fun combine_nodes :: "nat \<Rightarrow> diff_node list \<Rightarrow> diff_arg option" where
  "combine_nodes sec [] = None"
| "combine_nodes sec (n # ns) = Some (foldl (\<lambda>a m. override sec a (nd_value m)) (nd_value n) ns)"

lemma combine_nodes_snoc:
  "combine_nodes sec (ns @ [n]) = Some (case combine_nodes sec ns of None \<Rightarrow> nd_value n | Some a \<Rightarrow> override sec a (nd_value n))"
  by (cases ns) simp_all

definition rec_arg :: "diff_rec list \<Rightarrow> u32 \<Rightarrow> diff_arg option" where
  "rec_arg rs a = map_of (map (\<lambda>r. (dr_addr r, dr_arg r)) rs) a"

lemma rec_arg_simps [simp]: "rec_arg [] a = None" "rec_arg (r # rs) a = (if dr_addr r = a then Some (dr_arg r) else rec_arg rs a)"
  by (simp_all add: rec_arg_def)

lemma rec_arg_append: "rec_arg (rs @ ts) a = (case rec_arg rs a of None \<Rightarrow> rec_arg ts a | Some x \<Rightarrow> Some x)"
  by (induction rs) simp_all

lemma rec_arg_None: "rec_arg rs a = None \<longleftrightarrow> a \<notin> dr_addr ` set rs"
  by (induction rs) auto

lemma rec_arg_distinct: "distinct (map dr_addr rs) \<Longrightarrow> rec_arg (rev rs) a = rec_arg rs a"
proof (induction rs)
  case (Cons r rs)
  then show ?case by (cases "dr_addr r = a") (auto simp: rec_arg_append rec_arg_None [symmetric] split: option.splits)
qed simp

lemma add_nodes_sorted:
  assumes "addr_sorted ns"
  shows "sorted_wrt (>) (map dr_addr (foldl (add_node sec) [] ns)) \<and>
    (ns \<noteq> [] \<longrightarrow> foldl (add_node sec) [] ns \<noteq> [] \<and> dr_addr (hd (foldl (add_node sec) [] ns)) = nd_addr (last ns)) \<and>
    (\<forall>a. rec_arg (foldl (add_node sec) [] ns) a = combine_nodes sec (filter (\<lambda>n. nd_addr n = a) ns))"
  using assms
proof (induction ns rule: rev_induct)
  case (snoc n ns)
  let ?rs = "foldl (add_node sec) [] ns"
  have IH: "sorted_wrt (>) (map dr_addr ?rs)" "ns \<noteq> [] \<Longrightarrow> ?rs \<noteq> [] \<and> dr_addr (hd ?rs) = nd_addr (last ns)"
    "\<And>a. rec_arg ?rs a = combine_nodes sec (filter (\<lambda>n. nd_addr n = a) ns)"
    using snoc by (simp_all add: addr_sorted_def sorted_append)
  show ?case
  proof (cases ?rs)
    case Nil
    then have "ns = []" using IH(2) by auto
    then show ?thesis by simp
  next
    case (Cons r rs')
    then have "ns \<noteq> []" by auto
    then have r: "dr_addr r = nd_addr (last ns)" using IH(2) Cons by simp
    have le: "dr_addr r \<le> nd_addr n" using snoc.prems \<open>ns \<noteq> []\<close> r by (auto simp: addr_sorted_def sorted_append)
    have other: "rec_arg rs' a = combine_nodes sec (filter (\<lambda>n. nd_addr n = a) ns)" if "a \<noteq> dr_addr r" for a
      using IH(3) [of a] that Cons by simp
    have same: "combine_nodes sec (filter (\<lambda>n. nd_addr n = dr_addr r) ns) = Some (dr_arg r)"
      using IH(3) [of "dr_addr r"] Cons by simp
    have none: "rec_arg rs' a = None" if "dr_addr r \<le> a" for a
      using IH(1) that Cons by (auto simp: rec_arg_None)
    show ?thesis
    proof (cases "dr_addr r = nd_addr n")
      case True
      then show ?thesis using Cons IH(1) other same by (auto simp: combine_nodes_snoc)
    next
      case False
      then have less: "dr_addr r < nd_addr n" using le by simp
      have fresh: "combine_nodes sec (filter (\<lambda>m. nd_addr m = nd_addr n) ns) = None"
        using none [OF le] other [of "nd_addr n"] False by auto
      show ?thesis using Cons IH(1) other same less fresh by (auto simp: combine_nodes_snoc)
    qed
  qed
qed simp

lemma section_recs_sorted: "addr_sorted ns \<Longrightarrow> sorted_wrt (<) (map dr_addr (section_recs sec ns))"
  using add_nodes_sorted [of ns sec] by (simp add: section_recs_def rev_map [symmetric] sorted_wrt_rev)

lemma section_recs_arg:
  assumes "addr_sorted ns"
  shows "rec_arg (section_recs sec ns) a = combine_nodes sec (filter (\<lambda>n. nd_addr n = a) ns)"
proof -
  have "distinct (map dr_addr (foldl (add_node sec) [] ns))"
    using add_nodes_sorted [OF assms, of sec] by (auto simp: sorted_wrt_iff_nth_less distinct_conv_nth neq_iff)
  then show ?thesis using add_nodes_sorted [OF assms, of sec] by (simp add: section_recs_def rec_arg_distinct)
qed

lemma section_nodes_sorted: "node_sorted ns \<Longrightarrow> addr_sorted (section_nodes sec ns)"
proof -
  assume "node_sorted ns"
  then have "node_sorted (section_nodes sec ns)" by (simp add: section_nodes_def sorted_wrt_filter)
  moreover have "\<forall>n \<in> set (section_nodes sec ns). nd_type n = sec" by (simp add: section_nodes_def)
  ultimately show ?thesis
    unfolding addr_sorted_def sorted_map
    by (elim sorted_wrt_mono_rel [rotated]) (auto simp: cmp_le_iff)
qed

subsection \<open>The size of the array\<close>

lemma count_slots_append:
  "count_slots pt pa (ns @ ms) =
     count_slots pt pa ns + count_slots (if ns = [] then pt else nd_type (last ns)) (if ns = [] then pa else nd_addr (last ns)) ms"
  by (induction ns arbitrary: pt pa) auto

lemma hd_add_nodes:
  "ns \<noteq> [] \<Longrightarrow> foldl (add_node sec) [] ns \<noteq> [] \<and> dr_addr (hd (foldl (add_node sec) [] ns)) = nd_addr (last ns)"
  by (induction ns rule: rev_induct) (simp_all add: length_add_node(2) hd_add_node)

lemma length_add_node_eq: "rs \<noteq> [] \<Longrightarrow> length (add_node sec rs n) = length rs + of_bool (dr_addr (hd rs) \<noteq> nd_addr n)"
  by (cases rs) auto

lemma count_one_section:
  "\<forall>n \<in> set ns. nd_type n = sec \<and> (pt \<noteq> sec \<or> pa \<noteq> nd_addr n) \<Longrightarrow> count_slots pt pa ns = length (section_recs sec ns)"
proof (induction ns rule: rev_induct)
  case (snoc n ns)
  have IH: "count_slots pt pa ns = length (foldl (add_node sec) [] ns)" using snoc by (simp add: section_recs_def)
  show ?case
  proof (cases "ns = []")
    case True
    then show ?thesis using snoc.prems by (auto simp: section_recs_def)
  next
    case False
    then have "nd_type (last ns) = sec" using snoc.prems by simp
    then show ?thesis
      using snoc.prems False IH hd_add_nodes [OF False, of sec]
      by (simp add: count_slots_append section_recs_def length_add_node_eq)
  qed
qed (simp add: section_recs_def)

lemma count_slots_recs:
  assumes "k + j = CESK_DIFF_NTYPES" "node_sorted ns"
    and "\<forall>n \<in> set ns. k \<le> nd_type n \<and> nd_type n < CESK_DIFF_NTYPES \<and> (pt \<noteq> nd_type n \<or> pa \<noteq> nd_addr n)"
  shows "count_slots pt pa ns = all_recs [k..<CESK_DIFF_NTYPES] ns"
  using assms
proof (induction j arbitrary: k ns pt pa)
  case 0
  then have "ns = []" by (cases ns) auto
  then show ?case using 0 by (simp add: all_recs_def)
next
  case (Suc j)
  let ?us = "section_nodes k ns" and ?vs = "filter (\<lambda>n. nd_type n \<noteq> k) ns"
  let ?pt = "if ?us = [] then pt else nd_type (last ?us)" and ?pa = "if ?us = [] then pa else nd_addr (last ?us)"
  have k: "k < CESK_DIFF_NTYPES" "Suc k + j = CESK_DIFF_NTYPES" using Suc.prems(1) by simp_all
  have split: "ns = ?us @ ?vs" using split_sections [of ns k] Suc.prems(2,3) by blast
  have us: "\<forall>n \<in> set ?us. nd_type n = k \<and> (pt \<noteq> k \<or> pa \<noteq> nd_addr n)" using Suc.prems(3) by (auto simp: section_nodes_def)
  have "?us \<noteq> [] \<Longrightarrow> nd_type (last ?us) = k" using us last_in_set by blast
  then have vs: "\<forall>n \<in> set ?vs. Suc k \<le> nd_type n \<and> nd_type n < CESK_DIFF_NTYPES \<and> (?pt \<noteq> nd_type n \<or> ?pa \<noteq> nd_addr n)"
    using Suc.prems(3) by (auto simp: Suc_le_eq le_neq_implies_less)
  have "count_slots pt pa ns = count_slots pt pa ?us + count_slots ?pt ?pa ?vs"
    by (subst split) (rule count_slots_append)
  also have "count_slots pt pa ?us = length (section_recs k ?us)" by (rule count_one_section [OF us])
  also have "count_slots ?pt ?pa ?vs = all_recs [Suc k..<CESK_DIFF_NTYPES] ns"
    using Suc.IH [OF k(2) sorted_wrt_filter [OF Suc.prems(2)] vs] by (simp add: all_recs_later)
  finally show ?case using k(1) by (simp add: upt_conv_Cons all_recs_def)
qed

subsection \<open>The order of time\<close>

text \<open>What every buffer satisfies that was filled by appending records to memory addresses.\<close>

definition buffer_ok :: "diff_buffer \<Rightarrow> bool" where
  "buffer_ok b \<longleftrightarrow>
     (\<forall>i < length (bf_nodes b). nd_time (bf_nodes b ! i) = (if bf_reverse b then - int i else int i)) \<and>
     (\<forall>n \<in> set (bf_nodes b). nd_type n < CESK_DIFF_NTYPES \<and> nd_addr n \<noteq> CESK_STORE_ADDR_NULL \<and> arg_fits (nd_type n) (nd_value n))"

text \<open>The nodes from the one that is converted first to the one that is converted last.\<close>

definition time_order :: "diff_buffer \<Rightarrow> diff_node list" where
  "time_order b = (if bf_reverse b then rev (bf_nodes b) else bf_nodes b)"

lemma time_order_sorted: "buffer_ok b \<Longrightarrow> sorted_wrt (\<lambda>x y. nd_time x < nd_time y) (time_order b)"
  by (auto simp: buffer_ok_def time_order_def sorted_wrt_iff_nth_less rev_nth)

lemma filter_time_order:
  assumes "buffer_ok b"
  shows "filter (\<lambda>n. nd_type n = sec \<and> nd_addr n = a) (qsort cesk_diff_buffer_cmp (bf_nodes b)) =
    filter (\<lambda>n. nd_type n = sec \<and> nd_addr n = a) (time_order b)" (is "filter ?P ?q = _")
proof (rule sorted_wrt_unique)
  show "sorted_wrt (\<lambda>x y. nd_time x < nd_time y) (filter ?P (time_order b))"
    by (rule sorted_wrt_filter [OF time_order_sorted [OF assms]])
  show "set (filter ?P ?q) = set (filter ?P (time_order b))"
    by (simp add: node_order.set_qsort time_order_def)
  have "sorted_wrt (\<lambda>x y. nd_time x \<noteq> nd_time y) (time_order b)"
    by (rule sorted_wrt_mono_rel [OF _ time_order_sorted [OF assms]]) auto
  then have "distinct (map nd_time (time_order b))"
    by (simp add: distinct_conv_nth sorted_wrt_iff_nth_less) (metis nat_neq_iff)
  moreover have "mset (map nd_time ?q) = mset (map nd_time (time_order b))"
    by (simp add: node_order.mset_qsort time_order_def)
  ultimately have "distinct (map nd_time ?q)" using mset_eq_imp_distinct_iff by blast
  then have "sorted_wrt (\<lambda>x y. nd_time x \<noteq> nd_time y) ?q"
    by (simp add: distinct_conv_nth sorted_wrt_iff_nth_less)
  then have "sorted_wrt (\<lambda>x y. nd_time x \<noteq> nd_time y \<and> cesk_diff_buffer_cmp x y \<le> 0) ?q"
    using node_order.sorted_qsort [of "bf_nodes b"] by (simp add: sorted_wrt_iff_nth_less)
  then have "sorted_wrt (\<lambda>x y. nd_time x \<noteq> nd_time y \<and> cesk_diff_buffer_cmp x y \<le> 0) (filter ?P ?q)"
    by (rule sorted_wrt_filter)
  then show "sorted_wrt (\<lambda>x y. nd_time x < nd_time y) (filter ?P ?q)"
    by (rule sorted_wrt_mono_rel [rotated]) (auto simp: cmp_le_iff)
qed auto

text \<open>
  The argument of the record for the nodes \<open>ns\<close> of one cell: the last node wins; a reuse record keeps the
  pointer of the first node and takes the truth value of the last.
\<close>

definition winner :: "nat \<Rightarrow> diff_node list \<Rightarrow> diff_arg option" where
  "winner sec ns =
     (if ns = [] then None
      else if sec = CESK_DIFF_REUSE \<and> tl ns \<noteq> [] then Some (put_boolean (of_bool (\<not> arg_null (nd_value (last ns)))) (nd_value (hd ns)))
      else if sec = CESK_DIFF_DEALLOC then Some (nd_value (hd ns))
      else Some (nd_value (last ns)))"

lemma put_boolean_twice: "put_boolean b (put_boolean c a) = put_boolean b a"
proof (cases a)
  case (ABits x)
  have low: "i < 8 \<Longrightarrow> bit (0xff :: u64) i" for i
  proof -
    assume "i < 8"
    moreover have "(0xff :: u64) = mask 8" by (simp add: mask_eq_exp_minus_1)
    ultimately show ?thesis by (simp only: bit_mask_iff) auto
  qed
  have "(x AND NOT 0xff OR ucast c) AND NOT 0xff OR ucast b = (x AND NOT 0xff OR (ucast b :: u64))"
  proof (rule bit_word_eqI)
    fix i assume "i < LENGTH(64)"
    have "bit c i \<Longrightarrow> bit (0xff :: u64) i" using bit_imp_le_length [of c i] low [of i] by simp
    then show "bit ((x AND NOT 0xff OR ucast c) AND NOT 0xff OR ucast b) i = bit (x AND NOT 0xff OR (ucast b :: u64)) i"
      by (simp only: bit_or_iff bit_and_iff bit_not_iff bit_unsigned_iff) blast
  qed
  then show ?thesis by (simp only: ABits put_boolean_def diff_arg.case)
qed (simp_all add: put_boolean_def)

lemma combine_winner: "combine_nodes sec ns = winner sec ns"
proof (induction ns rule: rev_induct)
  case (snoc n ns)
  then show ?case
    by (cases ns) (auto simp: combine_nodes_snoc winner_def override_def put_boolean_twice split: if_splits)
qed (simp add: winner_def)

lemma section_nodes_addr: "filter (\<lambda>n. nd_addr n = a) (section_nodes sec ns) = filter (\<lambda>n. nd_type n = sec \<and> nd_addr n = a) ns"
  by (simp add: section_nodes_def conj_commute)

lemma convert_buffer:
  assumes ok: "buffer_ok b" and "\<not> bf_merge b"
  defines "ns \<equiv> qsort cesk_diff_buffer_cmp (bf_nodes b)"
  shows "\<exists>d. (\<forall>h :: 'd value_heap. convert_sections junk (bf_merge b) [0..<CESK_DIFF_NTYPES] ns (last_addr ns) 0
              (new_diff (count_slots 0 CESK_STORE_ADDR_NULL ns)) h =
            map_option (\<lambda>h. (length (bf_nodes b), d, h)) (overwritten_all [0..<CESK_DIFF_NTYPES] ns h)) \<and>
    (\<forall>sec < CESK_DIFF_NTYPES. df_section d sec = Some (section_recs sec (section_nodes sec ns)) \<and>
       (\<forall>a. rec_arg (section_recs sec (section_nodes sec ns)) a =
          winner sec (filter (\<lambda>n. nd_type n = sec \<and> nd_addr n = a) (time_order b)))) \<and>
    length (df_offset d) = Suc CESK_DIFF_NTYPES \<and> offs d 0 = 0 \<and> in_bounds d \<and> df_refcnt d = 1"
proof -
  have sorted: "node_sorted ns" by (simp add: ns_def node_order.sorted_qsort)
  have nodes: "\<forall>n \<in> set ns. 0 \<le> nd_type n \<and> nd_type n < CESK_DIFF_NTYPES \<and> arg_fits (nd_type n) (nd_value n)"
    using ok by (simp add: ns_def node_order.set_qsort buffer_ok_def)
  have slots: "count_slots 0 CESK_STORE_ADDR_NULL ns = all_recs [0..<CESK_DIFF_NTYPES] ns"
    using ok by (intro count_slots_recs [where j = CESK_DIFF_NTYPES] sorted)
      (auto simp: ns_def node_order.set_qsort buffer_ok_def)
  let ?d = "new_diff (count_slots 0 CESK_STORE_ADDR_NULL ns)"
  have start: "length (df_offset ?d) = Suc CESK_DIFF_NTYPES" "offs ?d 0 = 0" "in_bounds ?d" "df_refcnt ?d = 1"
    by (simp_all add: new_diff_def in_bounds_def)
  have room: "offs ?d 0 + all_recs [0..<CESK_DIFF_NTYPES] ns \<le> df_cap ?d"
    using start(2) by (simp add: new_diff_def slots)
  obtain d where conv: "\<forall>h :: 'd value_heap. convert_sections junk False [0..<CESK_DIFF_NTYPES] ns (last_addr ns) 0 ?d h =
        map_option (\<lambda>h. (0 + length ns, d, h)) (overwritten_all [0..<CESK_DIFF_NTYPES] ns h)"
    and secs: "\<forall>s. 0 \<le> s \<longrightarrow> s < CESK_DIFF_NTYPES \<longrightarrow> df_section d s = Some (section_recs s (section_nodes s ns))"
    and keeps: "keeps_below 0 ?d d"
    using convert_from [OF _ sorted nodes start(1) room, of CESK_DIFF_NTYPES junk "last_addr ns" 0] by auto
  have len: "0 + length ns = length (bf_nodes b)" by (simp add: ns_def node_order.length_qsort)
  have "df_section d sec = Some (section_recs sec (section_nodes sec ns)) \<and>
       (\<forall>a. rec_arg (section_recs sec (section_nodes sec ns)) a =
          winner sec (filter (\<lambda>n. nd_type n = sec \<and> nd_addr n = a) (time_order b)))"
    if "sec < CESK_DIFF_NTYPES" for sec
  proof (intro conjI allI)
    note addrs = section_nodes_sorted [OF sorted, of sec]
    show "df_section d sec = Some (section_recs sec (section_nodes sec ns))" using secs that by simp
    show "rec_arg (section_recs sec (section_nodes sec ns)) a = winner sec (filter (\<lambda>n. nd_type n = sec \<and> nd_addr n = a) (time_order b))" for a
      by (simp add: section_recs_arg [OF addrs [unfolded ns_def]] section_nodes_addr filter_time_order [OF ok] ns_def combine_winner)
  qed
  moreover have "length (df_offset d) = Suc CESK_DIFF_NTYPES" "offs d 0 = 0" "in_bounds d" "df_refcnt d = 1"
    using keeps start by (simp_all add: keeps_below_def)
  ultimately show ?thesis using conv assms(2) unfolding len by (intro exI [of _ d]) simp
qed

end
