(* ===== verification/Cesk_Diff_Gc.thy ===== *)
theory Cesk_Diff_Gc
  imports Cesk_Diff_Facts
begin

text \<open>
  What the collector of garbage does to a diff (\<^verbatim>\<open>_cesk_diff_gc\<close>): which addresses are marked, which records
  stay in the five sections, and which references are given back. The marks of one run are told from those
  of earlier runs by the clock, so that the results speak of arrays that do not hold the new tick.
\<close>

subsection \<open>Marks\<close>

definition reloc_idx :: "u32 \<Rightarrow> nat" where
  "reloc_idx a = unat (CESK_STORE_ADDR_RELOC_IDX a)"

lemma reloc_idx_range: "CESK_STORE_ADDR_IS_RELOC a \<Longrightarrow> unat a = 0xff000000 + reloc_idx a \<and> reloc_idx a < 0xffff00"
proof -
  assume "CESK_STORE_ADDR_IS_RELOC a"
  then have r: "0xff000000 \<le> unat a" "unat a < 0xffffff00"
    by (simp_all add: is_reloc_iff_range addr_const_defs word_le_nat_alt word_less_nat_alt)
  have m: "NOT CESK_STORE_ADDR_RELOC_PREFIX = mask 24"
    by (simp add: addr_const_defs mask_eq_exp_minus_1)
  have "reloc_idx a = take_bit 24 (unat a)"
    by (simp only: reloc_idx_def CESK_STORE_ADDR_RELOC_IDX_def m take_bit_eq_mask [symmetric] unsigned_take_bit_eq)
  also have "\<dots> = unat a mod 2 ^ 24" by (rule take_bit_eq_mod)
  also have "\<dots> = unat a - 255 * 2 ^ 24"
    using r by (intro mod_nat_eqI) simp_all
  finally show ?thesis using r by simp
qed

lemma reloc_size: "CESK_STORE_ADDR_RELOC_SIZE = 0xffff00"
  by (simp add: CESK_STORE_ADDR_RELOC_SIZE_def addr_const_defs)

lemma reloc_idx_inj: "CESK_STORE_ADDR_IS_RELOC a \<Longrightarrow> CESK_STORE_ADDR_IS_RELOC b \<Longrightarrow> reloc_idx a = reloc_idx b \<Longrightarrow> a = b"
  using reloc_idx_range [of a] reloc_idx_range [of b] by (simp add: word_unat_eq_iff)

text \<open>An array after the marks of some addresses.\<close>

definition with_marks :: "u32 \<Rightarrow> u32 set \<Rightarrow> (nat \<Rightarrow> u32) \<Rightarrow> nat \<Rightarrow> u32" where
  "with_marks tick as buf = (\<lambda>i. if i \<in> reloc_idx ` {a \<in> as. CESK_STORE_ADDR_IS_RELOC a} then tick else buf i)"

lemma with_marks_empty [simp]: "with_marks tick {} buf = buf"
  by (simp add: with_marks_def)

lemma with_marks_Un: "with_marks tick bs (with_marks tick as buf) = with_marks tick (as \<union> bs) buf"
  by (auto simp: with_marks_def fun_eq_iff)

lemma with_marks_insert: "with_marks tick bs (with_marks tick {a} buf) = with_marks tick (insert a bs) buf"
  by (simp add: with_marks_Un)

lemma mark_idx_reloc: "CESK_STORE_ADDR_IS_RELOC a \<Longrightarrow> mark_idx tick a buf = Some (with_marks tick {a} buf)"
  using reloc_idx_range [of a]
  by (auto simp: mark_idx_def reloc_size reloc_idx_def with_marks_def fun_eq_iff)

lemma mark_addr_eq: "mark_addr tick a buf = Some (with_marks tick {a} buf)"
proof (cases "CESK_STORE_ADDR_IS_RELOC a")
  case False
  then have none: "{b \<in> {a}. CESK_STORE_ADDR_IS_RELOC b} = {}" by blast
  show ?thesis unfolding mark_addr_def with_marks_def none using False by simp
qed (simp add: mark_addr_def mark_idx_reloc)

lemma mark_addrs_eq: "mark_addrs tick as buf = Some (with_marks tick (set as) buf)"
  by (induction as arbitrary: buf) (simp_all add: mark_addr_eq with_marks_insert)

lemma marked_iff:
  "\<forall>i. buf i \<noteq> tick \<Longrightarrow> CESK_STORE_ADDR_IS_RELOC a \<Longrightarrow> marked tick (with_marks tick as buf) a \<longleftrightarrow> a \<in> as"
  by (auto simp: marked_def with_marks_def reloc_idx_def [symmetric] dest: reloc_idx_inj)

text \<open>The relocated addresses that a value refers to.\<close>

fun builtin_addrs :: "bool \<Rightarrow> nat \<Rightarrow> nat \<Rightarrow> 'd bci_class_wrap \<Rightarrow> 'd \<Rightarrow> nat \<Rightarrow> u32 list option" where
  "builtin_addrs advance sz 0 wr d offset = None"
| "builtin_addrs advance sz (Suc n) wr d offset =
     (case bci_class_read (Some d) offset sz (Some (wrap_class wr)) of
        (rc, as) \<Rightarrow>
          if rc \<le> 0 then Some []
          else map_option ((@) (take (nat rc) as)) (builtin_addrs advance sz n wr d (if advance then offset + nat rc else offset)))"

fun struct_addrs :: "bool \<Rightarrow> nat \<Rightarrow> nat \<Rightarrow> 'd object_struct list \<Rightarrow> u32 list option" where
  "struct_addrs advance sz n [] = Some []"
| "struct_addrs advance sz n (UdefStruct c tab # ss) = map_option ((@) tab) (struct_addrs advance sz n ss)"
| "struct_addrs advance sz n (BciStruct wr d # ss) = do {
     as \<leftarrow> builtin_addrs advance sz n wr d 0; bs \<leftarrow> struct_addrs advance sz n ss; Some (as @ bs) }"

lemma mark_builtin_eq:
  "mark_builtin advance sz n tick wr d offset buf =
     map_option (\<lambda>as. with_marks tick (set as) buf) (builtin_addrs advance sz n wr d offset)"
proof (induction n arbitrary: offset buf)
  case (Suc n)
  obtain rc as where r: "bci_class_read (Some d) offset sz (Some (wrap_class wr)) = (rc, as)" by fastforce
  show ?case
    by (cases "builtin_addrs advance sz n wr d (if advance then offset + nat rc else offset)")
      (auto simp: r Suc.IH mark_addrs_eq with_marks_Un)
qed simp

lemma mark_object_eq:
  "mark_object advance sz n tick ss buf = map_option (\<lambda>as. with_marks tick (set as) buf) (struct_addrs advance sz n ss)"
proof (induction ss arbitrary: buf)
  case (Cons x ss)
  show ?case
  proof (cases x)
    case (UdefStruct c tab)
    then show ?thesis
      by (cases "struct_addrs advance sz n ss") (simp_all add: Cons.IH mark_addrs_eq with_marks_Un)
  next
    case (BciStruct wr d)
    then show ?thesis
      by (cases "builtin_addrs advance sz n wr d 0"; cases "struct_addrs advance sz n ss")
        (simp_all add: Cons.IH mark_builtin_eq with_marks_Un)
  qed
qed simp

lemma mark_elements_eq:
  assumes "dpath (\<lambda>q. data_next q s) q ps" and "set ps \<subseteq> set_elem_nodes s i" and "length ps < fuel"
  shows "mark_elements fuel tick q s buf = Some (with_marks tick (set (addrs_of s ps)) buf)"
  using assms
proof (induction ps arbitrary: q fuel buf)
  case Nil
  then show ?case by (cases fuel) (simp_all add: cesk_set_iter_next_def addrs_of_def)
next
  case (Cons p ps)
  then obtain nx a f where p: "q = Some p" "data_next p s = Some nx" "dpath (\<lambda>q. data_next q s) nx ps"
    and a: "a \<noteq> INFO_ADDR" "node_key s p = Some (i, a)" and f: "fuel = Suc f" "length ps < f"
    by (cases fuel) (auto simp: set_elem_nodes_def)
  have "addrs_of s (p # ps) = a # addrs_of s ps" using a by (simp add: addrs_of_def)
  then show ?case
    using p a f Cons.IH [OF p(3) _ f(2)] Cons.prems(2)
    by (simp add: iter_next_step [OF a(2) p(2)] mark_addr_eq with_marks_insert CESK_STORE_ADDR_NULL_def)
qed

text \<open>A set is the null pointer or is live.\<close>

definition set_addrs :: "set_state \<Rightarrow> u32 option \<Rightarrow> u32 set" where
  "set_addrs s st = (case st of None \<Rightarrow> {} | Some i \<Rightarrow> set_elems s i)"

definition set_known :: "set_state \<Rightarrow> u32 option \<Rightarrow> bool" where
  "set_known s st \<longleftrightarrow> (\<forall>i. st = Some i \<longrightarrow> (\<exists>r. node_key s r = Some (i, INFO_ADDR)))"

lemma mark_set_eq:
  assumes "set_inv s" "set_known s st"
  shows "mark_set tick st s buf = Some (with_marks tick (set_addrs s st) buf)"
proof (cases st)
  case (Some i)
  then obtain r where r: "node_key s r = Some (i, INFO_ADDR)" using assms(2) by (auto simp: set_known_def)
  obtain e where e: "get_info r s = Some e" using live_handle [OF set_invD(1) [OF assms(1)] r] .
  obtain ps where ps: "dpath (\<lambda>q. data_next q s) (info_first e) ps" "set ps \<subseteq> set_elem_nodes s i" "length ps < Suc (next_node s)"
    "set (addrs_of s ps) = set_elems s i" "cesk_set_hash_find i INFO_ADDR s = Some r"
    by (rule set_inv_summary [OF assms(1) r e])
  then have "cesk_set_iter i s = Some (info_first e)" by (simp add: cesk_set_iter_def cesk_set_iter_from_info_node_def e)
  then show ?thesis
    by (simp add: mark_set_def Some mark_elements_eq [OF ps(1-3)] ps(4) set_addrs_def del: mark_elements.simps)
qed (simp add: mark_set_def set_addrs_def)

text \<open>
  The addresses that a value refers to, when the code can read them. The marking of the allocations reads the
  instances of built-in classes with its own loop.
\<close>

definition value_addrs :: "bool \<Rightarrow> nat \<Rightarrow> nat \<Rightarrow> 'd value_heap \<Rightarrow> nat \<Rightarrow> u32 set option" where
  "value_addrs advance sz n h v = do {
     x \<leftarrow> vh_mem h v;
     (case val_data x of
        VSet st \<Rightarrow> Some (set_addrs (vh_sets h) st)
      | VObject obj \<Rightarrow> do { obj \<leftarrow> obj; as \<leftarrow> struct_addrs advance sz n (obj_members obj); Some (set as) }) }"

definition sets_known :: "'d value_heap \<Rightarrow> bool" where
  "sets_known h \<longleftrightarrow> set_inv (vh_sets h) \<and>
     (\<forall>v x st. vh_mem h v = Some x \<longrightarrow> val_data x = VSet st \<longrightarrow> set_known (vh_sets h) st)"

lemma mark_value_eq:
  assumes "sets_known h" "vh_mem h v = Some x"
  shows "mark_value advance sz n tick x (vh_sets h) buf =
    map_option (\<lambda>as. with_marks tick as buf) (value_addrs advance sz n h v)"
proof (cases "val_data x")
  case (VObject obj)
  then show ?thesis
  proof (cases obj)
    case (Some ob)
    then show ?thesis using VObject assms(2)
      by (cases "struct_addrs advance sz n (obj_members ob)") (simp_all add: mark_value_def mark_object_eq value_addrs_def)
  qed (simp add: mark_value_def value_addrs_def assms(2))
next
  case (VSet st)
  then have "set_known (vh_sets h) st" "set_inv (vh_sets h)" using assms by (auto simp: sets_known_def)
  then show ?thesis by (simp add: mark_value_def VSet mark_set_eq value_addrs_def assms(2))
qed

text \<open>The three passes of the marking.\<close>

fun store_refs :: "nat \<Rightarrow> 'd value_heap \<Rightarrow> diff_rec list \<Rightarrow> u32 set option" where
  "store_refs n h [] = Some {}"
| "store_refs n h (r # rs) = do {
     v \<leftarrow> arg_value (dr_arg r);
     v \<leftarrow> v;
     as \<leftarrow> value_addrs True 1024 n h v;
     bs \<leftarrow> store_refs n h rs;
     Some (as \<union> bs) }"

definition reg_refs :: "'d value_heap \<Rightarrow> diff_rec list \<Rightarrow> u32 set" where
  "reg_refs h rs = (\<Union>r \<in> set rs. case arg_set (dr_arg r) of Some st \<Rightarrow> set_addrs (vh_sets h) st | None \<Rightarrow> {})"

fun alloc_refs :: "nat \<Rightarrow> 'd value_heap \<Rightarrow> diff_rec list \<Rightarrow> u32 set \<Rightarrow> u32 set option" where
  "alloc_refs n h [] as = Some as"
| "alloc_refs n h (r # rs) as =
     (if CESK_STORE_ADDR_IS_RELOC (dr_addr r) \<and> dr_addr r \<in> as
      then do {
        v \<leftarrow> arg_value (dr_arg r);
        v \<leftarrow> v;
        bs \<leftarrow> value_addrs False 128 n h v;
        alloc_refs n h rs (as \<union> bs) }
      else alloc_refs n h rs as)"

lemma check_store_eq:
  assumes "sets_known h" "\<forall>r \<in> set rs. arg_fits CESK_DIFF_STORE (dr_arg r)"
  shows "cesk_diff_gc_check_store_rec_inuse n rs tick h buf = map_option (\<lambda>as. with_marks tick as buf) (store_refs n h rs)"
  using assms(2)
proof (induction rs arbitrary: buf)
  case (Cons r rs)
  then obtain v where v: "dr_arg r = AVal (Some v)" by (auto simp: arg_fits_def)
  show ?case
  proof (cases "vh_mem h v")
    case (Some x)
    show ?thesis
      using Cons
      by (cases "value_addrs True 1024 n h v"; cases "store_refs n h rs")
        (simp_all add: v Some mark_value_eq [OF assms(1) Some] with_marks_Un)
  qed (simp add: v value_addrs_def)
qed simp

lemma check_register_eq:
  assumes "set_inv (vh_sets h)" "\<forall>r \<in> set rs. \<exists>st. dr_arg r = ASet st \<and> set_known (vh_sets h) st"
  shows "cesk_diff_gc_check_register_rec_inuse rs tick h buf = Some (with_marks tick (reg_refs h rs) buf)"
  using assms(2)
proof (induction rs arbitrary: buf)
  case (Cons r rs)
  then obtain st where st: "dr_arg r = ASet st" "set_known (vh_sets h) st" by auto
  then show ?case using Cons by (simp add: mark_set_eq [OF assms(1)] with_marks_Un reg_refs_def)
qed (simp add: reg_refs_def)

lemma check_allocation_eq:
  assumes "sets_known h" "\<forall>r \<in> set rs. arg_fits CESK_DIFF_ALLOC (dr_arg r)" "\<forall>i. buf i \<noteq> tick"
  shows "cesk_diff_gc_check_allocation_rec_inuse n rs tick h (with_marks tick as buf) =
    map_option (\<lambda>bs. with_marks tick bs buf) (alloc_refs n h rs as)"
  using assms(2)
proof (induction rs arbitrary: as)
  case (Cons r rs)
  then obtain v where v: "dr_arg r = AVal (Some v)" by (auto simp: arg_fits_def)
  have IH: "cesk_diff_gc_check_allocation_rec_inuse n rs tick h (with_marks tick as buf) =
      map_option (\<lambda>bs. with_marks tick bs buf) (alloc_refs n h rs as)" for as
    using Cons by simp
  show ?case
  proof (cases "CESK_STORE_ADDR_IS_RELOC (dr_addr r) \<and> dr_addr r \<in> as")
    case True
    then have m: "marked tick (with_marks tick as buf) (dr_addr r)" using marked_iff [OF assms(3)] by simp
    show ?thesis
    proof (cases "vh_mem h v")
      case (Some x)
      then show ?thesis
        using True m
        by (cases "value_addrs False 128 n h v") (simp_all add: v mark_value_eq [OF assms(1) Some] with_marks_Un IH)
    qed (use True m in \<open>simp add: v value_addrs_def\<close>)
  next
    case False
    then have "\<not> CESK_STORE_ADDR_IS_RELOC (dr_addr r) \<or> \<not> marked tick (with_marks tick as buf) (dr_addr r)"
      using marked_iff [OF assms(3)] by auto
    then show ?thesis using False IH [of as] by auto
  qed
qed simp

subsection \<open>Moving records\<close>

fun release_list :: "nat \<Rightarrow> diff_rec list \<Rightarrow> 'd value_heap \<Rightarrow> 'd value_heap option" where
  "release_list sec [] h = Some h"
| "release_list sec (r # rs) h = do { h \<leftarrow> release_arg sec (dr_arg r) h; release_list sec rs h }"

lemma release_list_reuse [simp]: "release_list CESK_DIFF_REUSE rs h = Some h"
  by (induction rs) (simp_all add: release_arg_def diff_sections)

lemma rows_in_bounds: "rows d a rs \<Longrightarrow> i < length rs \<Longrightarrow> in_bounds d \<Longrightarrow> a + i < df_cap d"
  by (auto simp: rows_def in_bounds_def)

lemma put_rec_data: "p < df_cap d \<Longrightarrow> put_rec p r d = Some (d\<lparr>df_data := (df_data d)(p \<mapsto> r)\<rparr>)"
  by (simp add: put_rec_def)

lemma in_bounds_put [simp]: "p < df_cap d \<Longrightarrow> in_bounds d \<Longrightarrow> in_bounds (d\<lparr>df_data := (df_data d)(p \<mapsto> r)\<rparr>)"
  by (simp add: in_bounds_def)

definition alive :: "u32 \<Rightarrow> (nat \<Rightarrow> u32) \<Rightarrow> diff_rec \<Rightarrow> bool" where
  "alive tick flags r \<longleftrightarrow> (CESK_STORE_ADDR_IS_RELOC (dr_addr r) \<longrightarrow> marked tick flags (dr_addr r))"

lemma alloc_compact_rows:
  assumes "rows d base as" "length as \<le> free" "rows d (base + free) bs" "in_bounds d" "as = [] \<or> base + free - 1 < df_cap d"
  shows "\<exists>f. (\<forall>h :: 'd value_heap. alloc_compact base (length as) free flags tick d del h =
      map_option (\<lambda>h. (free - length (filter (alive tick flags) as), d\<lparr>df_data := f\<rparr>,
        with_marks tick (dr_addr ` set (filter (\<lambda>r. \<not> alive tick flags r) as)) del, h))
        (release_list CESK_DIFF_ALLOC (rev (filter (\<lambda>r. \<not> alive tick flags r) as)) h)) \<and>
    rows (d\<lparr>df_data := f\<rparr>) (base + free - length (filter (alive tick flags) as)) (filter (alive tick flags) as @ bs) \<and>
    (\<forall>i. i < base \<or> base + free \<le> i \<longrightarrow> f i = df_data d i) \<and> in_bounds (d\<lparr>df_data := f\<rparr>)"
  using assms
proof (induction as arbitrary: free d bs del rule: rev_induct)
  case Nil
  then show ?case by (intro exI [of _ "df_data d"]) simp
next
  case (snoc r as)
  have r: "df_data d (base + length as) = Some r" and as: "rows d base as" using snoc.prems(1) by (simp_all add: rows_append rows_Cons)
  have free: "0 < free" "base + (free - 1) < df_cap d" using snoc.prems(2,5) by simp_all
  show ?case
  proof (cases "alive tick flags r")
    case True
    define e where "e = d\<lparr>df_data := (df_data d)(base + free - 1 \<mapsto> r)\<rparr>"
    have a1: "rows e base as" using as snoc.prems(2) by (subst rows_cong [of _ _ _ d]) (auto simp: e_def)
    have a2: "length as \<le> free - 1" using snoc.prems(2) by simp
    have a3: "rows e (base + (free - 1)) (r # bs)"
    proof -
      obtain g where g: "free = Suc g" using free(1) by (cases free) auto
      have "rows e (Suc (base + g)) bs" using snoc.prems(3) by (subst rows_cong [of _ _ _ d]) (auto simp: e_def g)
      then show ?thesis by (simp add: rows_Cons g) (simp add: e_def g)
    qed
    have a4: "in_bounds e" using free snoc.prems(4) by (simp add: e_def)
    have a5: "as = [] \<or> base + (free - 1) - 1 < df_cap e" using free by (auto simp: e_def)
    obtain f where f: "\<forall>h :: 'd value_heap. alloc_compact base (length as) (free - 1) flags tick e del h =
        map_option (\<lambda>h. (free - 1 - length (filter (alive tick flags) as), e\<lparr>df_data := f\<rparr>,
          with_marks tick (dr_addr ` set (filter (\<lambda>r. \<not> alive tick flags r) as)) del, h))
          (release_list CESK_DIFF_ALLOC (rev (filter (\<lambda>r. \<not> alive tick flags r) as)) h)"
      "rows (e\<lparr>df_data := f\<rparr>) (base + (free - 1) - length (filter (alive tick flags) as)) (filter (alive tick flags) as @ r # bs)"
      "\<forall>i. i < base \<or> base + (free - 1) \<le> i \<longrightarrow> f i = df_data e i" "in_bounds (e\<lparr>df_data := f\<rparr>)"
      using snoc.IH [OF a1 a2 a3 a4 a5, where del = del] by blast
    have upd: "e\<lparr>df_data := f\<rparr> = d\<lparr>df_data := f\<rparr>" by (simp add: e_def)
    have "f i = df_data d i" if "i < base \<or> base + free \<le> i" for i
    proof -
      have "f i = df_data e i" using f(3) that by auto
      also have "\<dots> = df_data d i" using that free(1) by (auto simp: e_def)
      finally show ?thesis .
    qed
    moreover have "alloc_compact base (length (as @ [r])) free flags tick d del h = alloc_compact base (length as) (free - 1) flags tick e del h" for h :: "'d value_heap"
      using True r free by (simp add: alive_def put_rec_data e_def)
    ultimately show ?thesis using f free True unfolding upd by (intro exI [of _ f]) simp
  next
    case False
    then have reloc: "CESK_STORE_ADDR_IS_RELOC (dr_addr r)" by (simp add: alive_def)
    have b2: "length as \<le> free" and b5: "as = [] \<or> base + free - 1 < df_cap d" using free snoc.prems(2) by simp_all
    obtain f where f: "\<forall>h :: 'd value_heap. alloc_compact base (length as) free flags tick d (with_marks tick {dr_addr r} del) h =
        map_option (\<lambda>h. (free - length (filter (alive tick flags) as), d\<lparr>df_data := f\<rparr>,
          with_marks tick (dr_addr ` set (filter (\<lambda>r. \<not> alive tick flags r) as)) (with_marks tick {dr_addr r} del), h))
          (release_list CESK_DIFF_ALLOC (rev (filter (\<lambda>r. \<not> alive tick flags r) as)) h)"
      "rows (d\<lparr>df_data := f\<rparr>) (base + free - length (filter (alive tick flags) as)) (filter (alive tick flags) as @ bs)"
      "\<forall>i. i < base \<or> base + free \<le> i \<longrightarrow> f i = df_data d i" "in_bounds (d\<lparr>df_data := f\<rparr>)"
      using snoc.IH [OF as b2 snoc.prems(3,4) b5, where del = "with_marks tick {dr_addr r} del"] by blast
    have "alloc_compact base (length (as @ [r])) free flags tick d del h =
        do { h \<leftarrow> release_arg CESK_DIFF_ALLOC (dr_arg r) h; alloc_compact base (length as) free flags tick d (with_marks tick {dr_addr r} del) h }"
      for h :: "'d value_heap"
      using False r reloc by (simp add: alive_def mark_idx_reloc release_arg_def)
    then have "alloc_compact base (length (as @ [r])) free flags tick d del h =
        map_option (\<lambda>h. (free - length (filter (alive tick flags) (as @ [r])), d\<lparr>df_data := f\<rparr>,
          with_marks tick (dr_addr ` set (filter (\<lambda>r. \<not> alive tick flags r) (as @ [r]))) del, h))
          (release_list CESK_DIFF_ALLOC (rev (filter (\<lambda>r. \<not> alive tick flags r) (as @ [r]))) h)" for h :: "'d value_heap"
      using False f(1) by (cases "release_arg CESK_DIFF_ALLOC (dr_arg r) h") (simp_all add: with_marks_insert)
    then show ?thesis using f(2-4) False by (intro exI [of _ f]) simp
  qed
qed

abbreviation kept :: "u32 \<Rightarrow> (nat \<Rightarrow> u32) \<Rightarrow> diff_rec list \<Rightarrow> diff_rec list" where
  "kept tick del rs \<equiv> filter (\<lambda>r. \<not> deleted tick del (dr_addr r)) rs"

lemma compact_left_rows:
  assumes "rows d p rs" "free \<le> p" "in_bounds d"
  shows "\<exists>f. (\<forall>h :: 'd value_heap. compact_left sec del tick [p..<p + length rs] free d h =
      map_option (\<lambda>h. (free + length (kept tick del rs), d\<lparr>df_data := f\<rparr>, h))
        (release_list sec (filter (\<lambda>r. deleted tick del (dr_addr r)) rs) h)) \<and>
    rows (d\<lparr>df_data := f\<rparr>) free (kept tick del rs) \<and>
    (\<forall>i. i < free \<or> p + length rs \<le> i \<longrightarrow> f i = df_data d i) \<and> in_bounds (d\<lparr>df_data := f\<rparr>)"
  using assms
proof (induction rs arbitrary: p free d)
  case Nil
  then show ?case by (intro exI [of _ "df_data d"]) simp
next
  case (Cons r rs)
  have r: "df_data d p = Some r" "rows d (Suc p) rs" using Cons.prems(1) by (simp_all add: rows_Cons)
  have p: "p < df_cap d" using rows_in_bounds [OF Cons.prems(1), of 0] Cons.prems(3) by simp
  have upt: "[p..<p + length (r # rs)] = p # [Suc p..<Suc p + length rs]" by (subst upt_conv_Cons) simp_all
  show ?case
  proof (cases "deleted tick del (dr_addr r)")
    case True
    have le: "free \<le> Suc p" using Cons.prems(2) by simp
    obtain f where f: "\<forall>h :: 'd value_heap. compact_left sec del tick [Suc p..<Suc p + length rs] free d h =
        map_option (\<lambda>h. (free + length (kept tick del rs), d\<lparr>df_data := f\<rparr>, h))
          (release_list sec (filter (\<lambda>r. deleted tick del (dr_addr r)) rs) h)"
      "rows (d\<lparr>df_data := f\<rparr>) free (kept tick del rs)"
      "\<forall>i. i < free \<or> Suc p + length rs \<le> i \<longrightarrow> f i = df_data d i" "in_bounds (d\<lparr>df_data := f\<rparr>)"
      using Cons.IH [OF r(2) le Cons.prems(3)] by blast
    have "compact_left sec del tick [p..<p + length (r # rs)] free d h =
        map_option (\<lambda>h. (free + length (kept tick del (r # rs)), d\<lparr>df_data := f\<rparr>, h))
          (release_list sec (filter (\<lambda>r. deleted tick del (dr_addr r)) (r # rs)) h)" for h :: "'d value_heap"
      unfolding upt using True f(1) by (cases "release_arg sec (dr_arg r) h") (simp_all add: r(1))
    with f(2-4) True show ?thesis by (intro exI [of _ f]) simp
  next
    case False
    define e where "e = d\<lparr>df_data := (df_data d)(free \<mapsto> r)\<rparr>"
    have fr: "free < df_cap d" "Suc free \<le> Suc p" using Cons.prems(2) p by simp_all
    have rs: "rows e (Suc p) rs" using r(2) fr by (subst rows_cong [of _ _ _ d]) (auto simp: e_def)
    have b: "in_bounds e" using fr Cons.prems(3) by (simp add: e_def)
    obtain f where f: "\<forall>h :: 'd value_heap. compact_left sec del tick [Suc p..<Suc p + length rs] (Suc free) e h =
        map_option (\<lambda>h. (Suc free + length (kept tick del rs), e\<lparr>df_data := f\<rparr>, h))
          (release_list sec (filter (\<lambda>r. deleted tick del (dr_addr r)) rs) h)"
      "rows (e\<lparr>df_data := f\<rparr>) (Suc free) (kept tick del rs)"
      "\<forall>i. i < Suc free \<or> Suc p + length rs \<le> i \<longrightarrow> f i = df_data e i" "in_bounds (e\<lparr>df_data := f\<rparr>)"
      using Cons.IH [OF rs fr(2) b] by blast
    have upd: "e\<lparr>df_data := f\<rparr> = d\<lparr>df_data := f\<rparr>" by (simp add: e_def)
    have "compact_left sec del tick [p..<p + length (r # rs)] free d h =
        map_option (\<lambda>h. (free + length (kept tick del (r # rs)), d\<lparr>df_data := f\<rparr>, h))
          (release_list sec (filter (\<lambda>r. deleted tick del (dr_addr r)) (r # rs)) h)" for h :: "'d value_heap"
      unfolding upt using False f(1) fr(1) by (simp add: r(1) put_rec_data e_def [symmetric] upd)
    moreover have "f free = Some r" using f(3) by (simp add: e_def)
    moreover have "f i = df_data d i" if "i < free \<or> p + length (r # rs) \<le> i" for i
    proof -
      have "f i = df_data e i" using f(3) that by auto
      also have "\<dots> = df_data d i" using that Cons.prems(2) by (auto simp: e_def)
      finally show ?thesis .
    qed
    ultimately show ?thesis using f(2,4) False unfolding upd by (intro exI [of _ f]) (simp add: rows_Cons)
  qed
qed

lemma move_rest:
  assumes "rows d i rs" "i + length rs = bound" "j \<le> i" "store_free \<le> i" "in_bounds d"
  shows "\<exists>f. move_left store_free store_end bound i j d = Some (d\<lparr>df_data := f\<rparr>) \<and> rows (d\<lparr>df_data := f\<rparr>) j rs \<and>
    (\<forall>k < j. f k = df_data d k) \<and> in_bounds (d\<lparr>df_data := f\<rparr>)"
  using assms
proof (induction rs arbitrary: i j d)
  case Nil
  then show ?case by (intro exI [of _ "df_data d"]) (simp, simp add: move_left.simps)
next
  case (Cons r rs)
  define e where "e = d\<lparr>df_data := (df_data d)(j \<mapsto> r)\<rparr>"
  have r: "df_data d i = Some r" "rows d (Suc i) rs" using Cons.prems(1) by (simp_all add: rows_Cons)
  have "i < df_cap d" using rows_in_bounds [OF Cons.prems(1), of 0] Cons.prems(5) by simp
  then have j: "j < df_cap d" using Cons.prems(3) by simp
  have rs: "rows e (Suc i) rs" using r(2) Cons.prems(3) by (subst rows_cong [of _ _ _ d]) (auto simp: e_def)
  have le: "Suc i + length rs = bound" "Suc j \<le> Suc i" "store_free \<le> Suc i" "in_bounds e"
    using Cons.prems j by (simp_all add: e_def)
  obtain f where f: "move_left store_free store_end bound (Suc i) (Suc j) e = Some (e\<lparr>df_data := f\<rparr>)"
    "rows (e\<lparr>df_data := f\<rparr>) (Suc j) rs" "\<forall>k < Suc j. f k = df_data e k" "in_bounds (e\<lparr>df_data := f\<rparr>)"
    using Cons.IH [OF rs le] by blast
  have upd: "e\<lparr>df_data := f\<rparr> = d\<lparr>df_data := f\<rparr>" by (simp add: e_def)
  have "move_left store_free store_end bound i j d = Some (d\<lparr>df_data := f\<rparr>)"
    using Cons.prems(2,4) f(1) j by (simp add: move_left.simps [of _ _ _ i] r(1) put_rec_data e_def [symmetric] upd)
  moreover have "f j = Some r" "\<forall>k < j. f k = df_data d k" using f(3) by (simp_all add: e_def)
  ultimately show ?case using f(2,4) unfolding upd by (intro exI [of _ f]) (simp add: rows_Cons)
qed

lemma move_all:
  assumes "rows d i xs" "xs \<noteq> []" "i + length xs = store_free" "rows d store_end ys" "store_end + length ys = bound"
    and "store_free \<le> store_end" "j \<le> i" "in_bounds d"
  shows "\<exists>f. move_left store_free store_end bound i j d = Some (d\<lparr>df_data := f\<rparr>) \<and> rows (d\<lparr>df_data := f\<rparr>) j (xs @ ys) \<and>
    (\<forall>k < j. f k = df_data d k) \<and> in_bounds (d\<lparr>df_data := f\<rparr>)"
  using assms
proof (induction xs arbitrary: i j d)
  case (Cons r xs)
  define e where "e = d\<lparr>df_data := (df_data d)(j \<mapsto> r)\<rparr>"
  have r: "df_data d i = Some r" "rows d (Suc i) xs" using Cons.prems(1) by (simp_all add: rows_Cons)
  have "i < df_cap d" using rows_in_bounds [OF Cons.prems(1), of 0] Cons.prems(8) by simp
  then have j: "j < df_cap d" using Cons.prems(7) by simp
  have xs: "rows e (Suc i) xs" using r(2) Cons.prems(7) by (subst rows_cong [of _ _ _ d]) (auto simp: e_def)
  have i: "i < store_end" using Cons.prems(3,6) by simp
  have ys: "rows e store_end ys" using Cons.prems(4,7) i by (subst rows_cong [of _ _ _ d]) (auto simp: e_def)
  have b: "in_bounds e" using Cons.prems(8) j by (simp add: e_def)
  have step: "\<exists>f. move_left store_free store_end bound (if Suc i = store_free then store_end else Suc i) (Suc j) e = Some (e\<lparr>df_data := f\<rparr>) \<and>
      rows (e\<lparr>df_data := f\<rparr>) (Suc j) (xs @ ys) \<and> (\<forall>k < Suc j. f k = df_data e k) \<and> in_bounds (e\<lparr>df_data := f\<rparr>)"
  proof (cases "xs = []")
    case True
    then have "Suc i = store_free" using Cons.prems(3) by simp
    moreover have "Suc j \<le> store_end" using i Cons.prems(7) by simp
    ultimately show ?thesis using move_rest [OF ys Cons.prems(5) _ Cons.prems(6) b] True by simp
  next
    case False
    then have "Suc i \<noteq> store_free" "Suc i + length xs = store_free" "Suc j \<le> Suc i" using Cons.prems(3,7) by (cases xs; simp)+
    then show ?thesis using Cons.IH [OF xs False _ ys Cons.prems(5,6) _ b, of "Suc j"] by simp
  qed
  then obtain f where f: "move_left store_free store_end bound (if Suc i = store_free then store_end else Suc i) (Suc j) e = Some (e\<lparr>df_data := f\<rparr>)"
    "rows (e\<lparr>df_data := f\<rparr>) (Suc j) (xs @ ys)" "\<forall>k < Suc j. f k = df_data e k" "in_bounds (e\<lparr>df_data := f\<rparr>)"
    by blast
  have upd: "e\<lparr>df_data := f\<rparr> = d\<lparr>df_data := f\<rparr>" by (simp add: e_def)
  have "i < bound" "i < (if Suc i = store_free then store_end else Suc i)" using i Cons.prems(5) by auto
  then have "move_left store_free store_end bound i j d = Some (d\<lparr>df_data := f\<rparr>)"
    using f(1) j by (subst move_left.simps) (simp only: r(1) put_rec_data e_def [symmetric] upd if_True Let_def bind.bind_lunit)
  moreover have "f j = Some r" "\<forall>k < j. f k = df_data d k" using f(3) by (simp_all add: e_def)
  ultimately show ?case using f(2,4) unfolding upd by (intro exI [of _ f]) (simp add: rows_Cons)
qed simp

subsection \<open>The sections of a diff\<close>

definition layout :: "cesk_diff \<Rightarrow> (nat \<Rightarrow> diff_rec list) \<Rightarrow> bool" where
  "layout d F \<longleftrightarrow> length (df_offset d) = Suc CESK_DIFF_NTYPES \<and> in_bounds d \<and>
     (\<forall>sec < CESK_DIFF_NTYPES. df_section d sec = Some (F sec))"

lemma less_sections: "(\<forall>sec < CESK_DIFF_NTYPES. P sec) \<longleftrightarrow>
    P CESK_DIFF_ALLOC \<and> P CESK_DIFF_REUSE \<and> P CESK_DIFF_REG \<and> P CESK_DIFF_STORE \<and> P CESK_DIFF_DEALLOC"
  by (auto simp: diff_sections less_Suc_eq numeral_eq_Suc)

lemma layoutD:
  assumes "layout d F" "sec < CESK_DIFF_NTYPES"
  shows "offs d (Suc sec) = offs d sec + length (F sec)" "rows d (offs d sec) (F sec)"
  using assms df_sectionD by (auto simp: layout_def)

lemma layoutI:
  assumes "length (df_offset d) = Suc CESK_DIFF_NTYPES" "in_bounds d"
    and "\<And>sec. sec < CESK_DIFF_NTYPES \<Longrightarrow> offs d (Suc sec) = offs d sec + length (F sec) \<and> rows d (offs d sec) (F sec)"
  shows "layout d F"
  using assms df_section_rows by (auto simp: layout_def)

lemma shrink_offs_eq: "n \<le> offs d i \<Longrightarrow> shrink_offs i n d = Some (set_offs i (offs d i - n) d)"
  by (simp add: shrink_offs_def)

definition compacted :: "u32 \<Rightarrow> (nat \<Rightarrow> u32) \<Rightarrow> (nat \<Rightarrow> diff_rec list) \<Rightarrow> nat \<Rightarrow> diff_rec list" where
  "compacted tick del F sec = (if sec = CESK_DIFF_REUSE \<or> sec = CESK_DIFF_STORE then kept tick del (F sec) else F sec)"

lemma reuse_store_compact:
  assumes lay: "layout d F"
    and jump: "F CESK_DIFF_REG \<noteq> [] \<or> kept tick del (F CESK_DIFF_STORE) \<noteq> [] \<or> kept tick del (F CESK_DIFF_STORE) = F CESK_DIFF_STORE"
  shows "\<exists>e. (\<forall>h :: 'd value_heap. cesk_diff_gc_reuse_store_compact d del tick h =
      map_option (\<lambda>h. (e, h)) (release_list CESK_DIFF_STORE (filter (\<lambda>r. deleted tick del (dr_addr r)) (F CESK_DIFF_STORE)) h)) \<and>
    layout e (compacted tick del F) \<and> df_refcnt e = df_refcnt d"
proof -
  let ?U = "F 1" and ?R = "F 2" and ?S = "F 3" and ?D = "F 4"
  let ?kU = "kept tick del ?U" and ?kS = "kept tick del ?S"
  have len: "length (df_offset d) = 6" and inb: "in_bounds d" using lay by (simp_all add: layout_def diff_sections)
  have o: "offs d 1 = offs d 0 + length (F 0)" "offs d 2 = offs d 1 + length ?U" "offs d 3 = offs d 2 + length ?R"
    "offs d 4 = offs d 3 + length ?S" "offs d 5 = offs d 4 + length ?D"
    using layoutD(1) [OF lay] by (simp_all add: less_sections diff_sections numeral_eq_Suc)
  have rows: "rows d (offs d 0) (F 0)" "rows d (offs d 1) ?U" "rows d (offs d 2) ?R" "rows d (offs d 3) ?S" "rows d (offs d 4) ?D"
    using layoutD(2) [OF lay] by (simp_all add: less_sections diff_sections)
  have lens: "length ?kU \<le> length ?U" "length ?kS \<le> length ?S" by simp_all
  obtain f1 where f1: "\<forall>h :: 'd value_heap. compact_left 3 del tick [offs d 3..<offs d 3 + length ?S] (offs d 3) d h =
      map_option (\<lambda>h. (offs d 3 + length ?kS, d\<lparr>df_data := f1\<rparr>, h)) (release_list 3 (filter (\<lambda>r. deleted tick del (dr_addr r)) ?S) h)"
    "rows (d\<lparr>df_data := f1\<rparr>) (offs d 3) ?kS" "\<forall>i. i < offs d 3 \<or> offs d 3 + length ?S \<le> i \<longrightarrow> f1 i = df_data d i" "in_bounds (d\<lparr>df_data := f1\<rparr>)"
    using compact_left_rows [OF rows(4) order.refl inb, where sec = 3 and del = del and tick = tick] by blast
  have u1: "rows (d\<lparr>df_data := f1\<rparr>) (offs d 1) ?U"
    using rows(2) f1(3) o by (subst rows_cong [of _ _ _ d]) auto
  obtain f2 where f2: "\<forall>h :: 'd value_heap. compact_left 1 del tick [offs d 1..<offs d 1 + length ?U] (offs d 1) (d\<lparr>df_data := f1\<rparr>) h =
      map_option (\<lambda>h. (offs d 1 + length ?kU, d\<lparr>df_data := f1\<rparr>\<lparr>df_data := f2\<rparr>, h)) (release_list 1 (filter (\<lambda>r. deleted tick del (dr_addr r)) ?U) h)"
    "rows (d\<lparr>df_data := f1\<rparr>\<lparr>df_data := f2\<rparr>) (offs d 1) ?kU"
    "\<forall>i. i < offs d 1 \<or> offs d 1 + length ?U \<le> i \<longrightarrow> f2 i = df_data (d\<lparr>df_data := f1\<rparr>) i" "in_bounds (d\<lparr>df_data := f1\<rparr>\<lparr>df_data := f2\<rparr>)"
    using compact_left_rows [OF u1 order.refl f1(4), where sec = 1 and del = del and tick = tick] by blast
  let ?d = "d\<lparr>df_data := f2\<rparr>"
  have upd: "d\<lparr>df_data := f1\<rparr>\<lparr>df_data := f2\<rparr> = ?d" by simp
  have below: "f2 i = df_data d i" if "i < offs d 1 \<or> (offs d 2 \<le> i \<and> i < offs d 3) \<or> offs d 4 \<le> i" for i
  proof -
    have "f2 i = f1 i" using f2(3) that o by auto
    also have "\<dots> = df_data d i" using f1(3) that o by auto
    finally show ?thesis .
  qed
  have kS: "rows ?d (offs d 3) ?kS"
  proof -
    have "rows ?d (offs d 3) ?kS \<longleftrightarrow> rows (d\<lparr>df_data := f1\<rparr>) (offs d 3) ?kS"
      using f2(3) o by (intro rows_cong) auto
    then show ?thesis using f1(2) by simp
  qed
  have R: "rows ?d (offs d 2) ?R" using rows(3) below o by (subst rows_cong [of _ _ _ d]) auto
  have D: "rows ?d (offs d 4) ?D" using rows(5) below o by (subst rows_cong [of _ _ _ d]) auto
  have A: "rows ?d (offs d 0) (F 0)" using rows(1) below o by (subst rows_cong [of _ _ _ d]) auto
  have RS: "rows ?d (offs d 2) (?R @ ?kS)" using R kS o by (simp add: rows_append)
  have j: "offs d 1 + length ?kU \<le> offs d 2" using lens(1) o by simp
  have inb2: "in_bounds ?d" using f2(4) by simp
  have "\<exists>f. move_left (offs d 3 + length ?kS) (offs d 4) (offs d 5) (offs d 2) (offs d 1 + length ?kU) ?d = Some (?d\<lparr>df_data := f\<rparr>) \<and>
      rows (?d\<lparr>df_data := f\<rparr>) (offs d 1 + length ?kU) ((?R @ ?kS) @ ?D) \<and>
      (\<forall>k < offs d 1 + length ?kU. f k = df_data ?d k) \<and> in_bounds (?d\<lparr>df_data := f\<rparr>)"
  proof (cases "?R @ ?kS = []")
    case True
    then have "?S = []" using jump by (auto simp: diff_sections)
    then have "offs d 2 = offs d 4" "offs d 3 + length ?kS \<le> offs d 2" using True o by simp_all
    then show ?thesis using move_rest [of ?d "offs d 2" ?D "offs d 5" "offs d 1 + length ?kU"] D j o inb2 True by simp
  next
    case False
    show ?thesis
    proof (rule move_all [OF RS False _ D _ _ j inb2])
      show "offs d 2 + length (?R @ ?kS) = offs d 3 + length ?kS" "offs d 4 + length ?D = offs d 5"
        "offs d 3 + length ?kS \<le> offs d 4" using o lens(2) by simp_all
    qed
  qed
  then obtain f3 where f3: "move_left (offs d 3 + length ?kS) (offs d 4) (offs d 5) (offs d 2) (offs d 1 + length ?kU) ?d = Some (d\<lparr>df_data := f3\<rparr>)"
    "rows (d\<lparr>df_data := f3\<rparr>) (offs d 1 + length ?kU) ((?R @ ?kS) @ ?D)"
    "\<forall>k < offs d 1 + length ?kU. f3 k = f2 k" "in_bounds (d\<lparr>df_data := f3\<rparr>)"
    by auto
  let ?u = "length ?U - length ?kU" and ?s = "length ?S - length ?kS"
  define e where "e = set_offs 5 (offs d 5 - (?u + ?s)) (set_offs 4 (offs d 4 - (?u + ?s)) (set_offs 3 (offs d 3 - ?u) (set_offs 2 (offs d 2 - ?u) (d\<lparr>df_data := f3\<rparr>))))"
  have eo: "offs e 0 = offs d 0" "offs e 1 = offs d 1" "offs e 2 = offs d 2 - ?u" "offs e 3 = offs d 3 - ?u"
    "offs e 4 = offs d 4 - (?u + ?s)" "offs e 5 = offs d 5 - (?u + ?s)"
    using len by (simp_all add: e_def set_offs_def)
  have "cesk_diff_gc_reuse_store_compact d del tick h =
      map_option (\<lambda>h. (e, h)) (release_list 3 (filter (\<lambda>r. deleted tick del (dr_addr r)) ?S) h)" for h :: "'d value_heap"
  proof (cases "release_list 3 (filter (\<lambda>r. deleted tick del (dr_addr r)) ?S) h")
    case None
    then show ?thesis using f1(1) o by (simp add: cesk_diff_gc_reuse_store_compact_def diff_sections)
  next
    case (Some h')
    have store: "compact_left 3 del tick [offs d 3..<offs d 4] (offs d 3) d h = Some (offs d 3 + length ?kS, d\<lparr>df_data := f1\<rparr>, h')"
      using f1(1) Some o by simp
    have reuse: "compact_left 1 del tick [offs d 1..<offs d 2] (offs d 1) (d\<lparr>df_data := f1\<rparr>) h' = Some (offs d 1 + length ?kU, ?d, h')"
      using f2(1) o release_list_reuse [of _ h'] by (simp add: diff_sections)
    have shrink: "shrink_offs 2 ?u (d\<lparr>df_data := f3\<rparr>) \<bind> (\<lambda>d. shrink_offs 3 ?u d \<bind>
        (\<lambda>d. shrink_offs 4 (?u + ?s) d \<bind> (\<lambda>d. shrink_offs 5 (?u + ?s) d \<bind> (\<lambda>d. Some (d, h'))))) = Some (e, h')"
      using o len by (simp add: shrink_offs_eq e_def)
    have gaps: "offs d 2 - (offs d 1 + length ?kU) = ?u" "offs d 4 - (offs d 3 + length ?kS) = ?s" "offs ?d 5 = offs d 5"
      using o by simp_all
    have nums: "Suc 3 = (4 :: nat)" "Suc 1 = (2 :: nat)" "Suc 4 = (5 :: nat)" by simp_all
    show ?thesis
      by (simp only: cesk_diff_gc_reuse_store_compact_def Let_def diff_sections nums store reuse bind.bind_lunit split_conv
          gaps f3(1) shrink Some option.map)
  qed
  moreover have "layout e (compacted tick del F)"
  proof (rule layoutI)
    show "length (df_offset e) = Suc CESK_DIFF_NTYPES" "in_bounds e" using len f3(4) by (simp_all add: e_def diff_sections)
    have re: "rows e a rs = rows (d\<lparr>df_data := f3\<rparr>) a rs" for a rs by (simp add: e_def)
    have rA: "rows e (offs d 0) (F 0)"
      unfolding re using A f3(3) o by (subst rows_cong [of _ _ _ ?d]) auto
    have rU: "rows e (offs d 1) ?kU"
      unfolding re using f2(2) f3(3) o by (subst rows_cong [of _ _ _ ?d]) auto
    have rR: "rows e (offs d 1 + length ?kU) ?R" and rS: "rows e (offs d 1 + length ?kU + length ?R) ?kS"
      and rD: "rows e (offs d 1 + length ?kU + length ?R + length ?kS) ?D"
      unfolding re using f3(2) by (simp_all add: rows_append)
    have q: "offs e 1 = offs d 0 + length (F 0)" "offs e 2 = offs d 1 + length ?kU" "offs e 3 = offs d 1 + length ?kU + length ?R"
      "offs e 4 = offs d 1 + length ?kU + length ?R + length ?kS"
      "offs e 5 = offs d 1 + length ?kU + length ?R + length ?kS + length ?D"
      unfolding eo using o lens by arith+
    have nums: "Suc 3 = (4 :: nat)" "Suc 1 = (2 :: nat)" "Suc 4 = (5 :: nat)" "Suc 2 = (3 :: nat)" "Suc 0 = (1 :: nat)" by simp_all
    have cs: "compacted tick del F 0 = F 0" "compacted tick del F 1 = ?kU" "compacted tick del F 2 = ?R"
      "compacted tick del F 3 = ?kS" "compacted tick del F 4 = ?D" by (simp_all add: compacted_def diff_sections)
    have "\<forall>sec < CESK_DIFF_NTYPES. offs e (Suc sec) = offs e sec + length (compacted tick del F sec) \<and> rows e (offs e sec) (compacted tick del F sec)"
      unfolding less_sections unfolding diff_sections nums cs q eo(1,2)
      using rA rU rR rS rD o(1) by simp
    then show "offs e (Suc sec) = offs e sec + length (compacted tick del F sec) \<and> rows e (offs e sec) (compacted tick del F sec)"
      if "sec < CESK_DIFF_NTYPES" for sec
      using that by blast
  qed
  moreover have "df_refcnt e = df_refcnt d" by (simp add: e_def)
  ultimately show ?thesis by (intro exI [of _ e]) (simp add: diff_sections)
qed

subsection \<open>The collector\<close>

lemma layout_mono:
  assumes "layout d F" "i \<le> j" "j \<le> CESK_DIFF_NTYPES"
  shows "offs d i \<le> offs d j"
  using assms(2,3)
proof (induction j rule: dec_induct)
  case (step j)
  then have "offs d i \<le> offs d j" by simp
  also have "\<dots> \<le> offs d (Suc j)" using layoutD(1) [OF assms(1), of j] step by simp
  finally show ?case .
qed simp

lemma alloc_pass:
  fixes tick :: u32 and flags :: "nat \<Rightarrow> u32"
  assumes lay: "layout d F"
  defines "live \<equiv> filter (alive tick flags) (F CESK_DIFF_ALLOC)" and "dead \<equiv> filter (\<lambda>r. \<not> alive tick flags r) (F CESK_DIFF_ALLOC)"
  shows "\<exists>f. (\<forall>h :: 'd value_heap. cesk_diff_gc_alloc_compact (offs d CESK_DIFF_ALLOC) (offs d (Suc CESK_DIFF_ALLOC) - offs d CESK_DIFF_ALLOC) flags tick d del h =
      map_option (\<lambda>h. (length (F CESK_DIFF_ALLOC) - length live, d\<lparr>df_data := f\<rparr>, with_marks tick (dr_addr ` set dead) del, h))
        (release_list CESK_DIFF_ALLOC (rev dead) h)) \<and>
    layout (set_offs CESK_DIFF_ALLOC (offs d CESK_DIFF_ALLOC + (length (F CESK_DIFF_ALLOC) - length live)) (d\<lparr>df_data := f\<rparr>)) (F(CESK_DIFF_ALLOC := live))"
proof -
  let ?A = "F CESK_DIFF_ALLOC"
  have len: "length (df_offset d) = 6" and inb: "in_bounds d" using lay by (simp_all add: layout_def diff_sections)
  have A: "offs d 1 = offs d 0 + length ?A" "rows d (offs d 0) ?A" using layoutD [OF lay, of 0] by (simp_all add: diff_sections)
  have "?A = [] \<or> offs d 0 + length ?A - 1 < df_cap d"
    using rows_in_bounds [OF A(2), of "length ?A - 1"] inb by (cases "?A = []") auto
  then obtain f where f: "\<forall>h :: 'd value_heap. alloc_compact (offs d 0) (length ?A) (length ?A) flags tick d del h =
      map_option (\<lambda>h. (length ?A - length live, d\<lparr>df_data := f\<rparr>, with_marks tick (dr_addr ` set dead) del, h))
        (release_list CESK_DIFF_ALLOC (rev dead) h)"
    "rows (d\<lparr>df_data := f\<rparr>) (offs d 0 + length ?A - length live) (live @ [])"
    "\<forall>i. i < offs d 0 \<or> offs d 0 + length ?A \<le> i \<longrightarrow> f i = df_data d i" "in_bounds (d\<lparr>df_data := f\<rparr>)"
    using alloc_compact_rows [OF A(2) order.refl rows_Nil inb, where flags = flags and tick = tick and del = del]
    unfolding live_def [symmetric] dead_def [symmetric] by blast
  let ?k = "length ?A - length live"
  let ?e = "set_offs 0 (offs d 0 + ?k) (d\<lparr>df_data := f\<rparr>)"
  have le: "length live \<le> length ?A" by (simp add: live_def)
  have "layout ?e (F(CESK_DIFF_ALLOC := live))"
  proof (rule layoutI)
    show "length (df_offset ?e) = Suc CESK_DIFF_NTYPES" "in_bounds ?e" using len f(4) by (simp_all add: diff_sections)
    show "offs ?e (Suc sec) = offs ?e sec + length ((F(CESK_DIFF_ALLOC := live)) sec) \<and> rows ?e (offs ?e sec) ((F(CESK_DIFF_ALLOC := live)) sec)"
      if sec: "sec < CESK_DIFF_NTYPES" for sec
    proof (cases sec)
      case 0
      have "offs d 0 + length ?A - length live = offs d 0 + ?k" using le by simp
      then show ?thesis using 0 len f(2) A(1) le by (simp add: diff_sections)
    next
      case (Suc k)
      have mono: "offs d 1 \<le> offs d sec" using layout_mono [OF lay, of 1 sec] sec Suc by simp
      have "rows ?e (offs d sec) (F sec)"
        using layoutD(2) [OF lay sec] f(3) A(1) mono by (subst rows_cong [of _ _ _ d]) auto
      then show ?thesis using Suc layoutD(1) [OF lay sec] by (simp add: diff_sections)
    qed
  qed
  moreover have "cesk_diff_gc_alloc_compact (offs d CESK_DIFF_ALLOC) (offs d (Suc CESK_DIFF_ALLOC) - offs d CESK_DIFF_ALLOC) flags tick d del h =
      alloc_compact (offs d 0) (length ?A) (length ?A) flags tick d del h" for h :: "'d value_heap"
    using A(1) by (simp add: cesk_diff_gc_alloc_compact_def diff_sections)
  ultimately show ?thesis using f(1) by (intro exI [of _ f]) (simp add: diff_sections)
qed

text \<open>The deallocated addresses that the test lets through.\<close>

definition dealloc_addrs :: "diff_rec list \<Rightarrow> u32 set" where
  "dealloc_addrs rs = {a \<in> dr_addr ` set rs. CESK_STORE_ADDR_RELOC_IDX a \<noteq> 0}"

lemma mark_deallocs_eq:
  "\<forall>r \<in> set rs. CESK_STORE_ADDR_IS_RELOC (dr_addr r) \<Longrightarrow> mark_deallocs tick rs del = Some (with_marks tick (dealloc_addrs rs) del)"
proof (induction rs arbitrary: del)
  case (Cons r rs)
  have "dealloc_addrs (r # rs) = (if CESK_STORE_ADDR_RELOC_IDX (dr_addr r) \<noteq> 0 then insert (dr_addr r) (dealloc_addrs rs) else dealloc_addrs rs)"
    by (auto simp: dealloc_addrs_def)
  then show ?case using Cons by (simp add: mark_idx_reloc with_marks_insert)
qed (simp add: dealloc_addrs_def)

text \<open>
  The records of a section after a run of the collector, when \<open>live\<close> are the marked addresses and \<open>gone\<close> those of
  the removed allocations and of the deallocations.
\<close>

definition collected :: "u32 set \<Rightarrow> u32 set \<Rightarrow> (nat \<Rightarrow> diff_rec list) \<Rightarrow> nat \<Rightarrow> diff_rec list" where
  "collected live gone F sec =
     (if sec = CESK_DIFF_ALLOC then filter (\<lambda>r. CESK_STORE_ADDR_IS_RELOC (dr_addr r) \<longrightarrow> dr_addr r \<in> live) (F sec)
      else if sec = CESK_DIFF_REUSE \<or> sec = CESK_DIFF_STORE then filter (\<lambda>r. dr_addr r \<notin> gone) (F sec)
      else F sec)"

definition unreached :: "u32 set \<Rightarrow> (nat \<Rightarrow> diff_rec list) \<Rightarrow> diff_rec list" where
  "unreached live F = filter (\<lambda>r. CESK_STORE_ADDR_IS_RELOC (dr_addr r) \<and> dr_addr r \<notin> live) (F CESK_DIFF_ALLOC)"

definition gone_addrs :: "u32 set \<Rightarrow> (nat \<Rightarrow> diff_rec list) \<Rightarrow> u32 set" where
  "gone_addrs live F = dr_addr ` set (unreached live F) \<union> dealloc_addrs (F CESK_DIFF_DEALLOC)"

text \<open>The records are of the kinds of their sections, and the marks are older than the next tick.\<close>

definition gc_ready :: "(nat \<Rightarrow> diff_rec list) \<Rightarrow> gc_marks \<Rightarrow> 'd value_heap \<Rightarrow> bool" where
  "gc_ready F g h \<longleftrightarrow> sets_known h \<and>
     (\<forall>r \<in> set (F CESK_DIFF_ALLOC). arg_fits CESK_DIFF_ALLOC (dr_arg r)) \<and>
     (\<forall>r \<in> set (F CESK_DIFF_STORE). arg_fits CESK_DIFF_STORE (dr_arg r)) \<and>
     (\<forall>r \<in> set (F CESK_DIFF_REG). \<exists>st. dr_arg r = ASet st \<and> set_known (vh_sets h) st) \<and>
     (\<forall>r \<in> set (F CESK_DIFF_DEALLOC). CESK_STORE_ADDR_IS_RELOC (dr_addr r)) \<and>
     (\<forall>i. gc_keep g i \<noteq> gc_tick g + 1 \<and> gc_del g i \<noteq> gc_tick g + 1)"

lemma gc_sections:
  fixes h :: "'d value_heap"
  assumes lay: "layout d F" and ready: "gc_ready F g h"
    and stores: "store_refs n h (F CESK_DIFF_STORE) = Some ss"
    and live: "alloc_refs n h (F CESK_DIFF_ALLOC) (ss \<union> reg_refs h (F CESK_DIFF_REG)) = Some live"
    and jump: "F CESK_DIFF_REG \<noteq> [] \<or> (\<exists>r \<in> set (F CESK_DIFF_STORE). dr_addr r \<notin> gone_addrs live F) \<or>
                (\<forall>r \<in> set (F CESK_DIFF_STORE). dr_addr r \<notin> gone_addrs live F)"
  shows "\<exists>e g'. cesk_diff_gc n d g h =
      map_option (\<lambda>h. (e, g', h)) (release_list CESK_DIFF_ALLOC (rev (unreached live F)) h \<bind>
        release_list CESK_DIFF_STORE (filter (\<lambda>r. dr_addr r \<in> gone_addrs live F) (F CESK_DIFF_STORE))) \<and>
    layout e (collected live (gone_addrs live F) F) \<and> df_refcnt e = df_refcnt d"
proof -
  define tick where "tick = gc_tick g + 1"
  have known: "sets_known h" "set_inv (vh_sets h)" using ready by (simp_all add: gc_ready_def sets_known_def)
  have old: "\<forall>i. gc_keep g i \<noteq> tick" "\<forall>i. gc_del g i \<noteq> tick" using ready by (simp_all add: gc_ready_def tick_def)
  have secs: "df_section d sec = Some (F sec)" if "sec < CESK_DIFF_NTYPES" for sec using lay that by (simp add: layout_def)
  let ?keep = "with_marks tick live (gc_keep g)"
  have p1: "cesk_diff_gc_check_store_rec_inuse n (F CESK_DIFF_STORE) tick h (gc_keep g) = Some (with_marks tick ss (gc_keep g))"
    using check_store_eq [OF known(1)] ready stores by (simp add: gc_ready_def)
  have p2: "cesk_diff_gc_check_register_rec_inuse (F CESK_DIFF_REG) tick h (with_marks tick ss (gc_keep g)) =
      Some (with_marks tick (ss \<union> reg_refs h (F CESK_DIFF_REG)) (gc_keep g))"
    using check_register_eq [OF known(2)] ready by (simp add: gc_ready_def with_marks_Un)
  have p3: "cesk_diff_gc_check_allocation_rec_inuse n (F CESK_DIFF_ALLOC) tick h (with_marks tick (ss \<union> reg_refs h (F CESK_DIFF_REG)) (gc_keep g)) = Some ?keep"
    using check_allocation_eq [OF known(1) _ old(1)] ready live by (simp add: gc_ready_def)
  have alive: "alive tick ?keep r \<longleftrightarrow> (CESK_STORE_ADDR_IS_RELOC (dr_addr r) \<longrightarrow> dr_addr r \<in> live)" for r
    using marked_iff [OF old(1)] by (auto simp: alive_def)
  have dead: "filter (\<lambda>r. \<not> alive tick ?keep r) (F CESK_DIFF_ALLOC) = unreached live F" by (simp add: alive unreached_def)
  let ?live = "filter (alive tick ?keep) (F CESK_DIFF_ALLOC)" and ?del = "with_marks tick (dr_addr ` set (unreached live F)) (gc_del g)"
  let ?rc = "length (F CESK_DIFF_ALLOC) - length ?live"
  obtain f where f: "\<forall>h :: 'd value_heap. cesk_diff_gc_alloc_compact (offs d CESK_DIFF_ALLOC) (offs d (Suc CESK_DIFF_ALLOC) - offs d CESK_DIFF_ALLOC) ?keep tick d (gc_del g) h =
      map_option (\<lambda>h. (?rc, d\<lparr>df_data := f\<rparr>, ?del, h)) (release_list CESK_DIFF_ALLOC (rev (unreached live F)) h)"
    and lay1: "layout (set_offs CESK_DIFF_ALLOC (offs d CESK_DIFF_ALLOC + ?rc) (d\<lparr>df_data := f\<rparr>)) (F(CESK_DIFF_ALLOC := ?live))"
    using alloc_pass [OF lay, where flags = ?keep and tick = tick and del = "gc_del g", where 'd = 'd] unfolding dead by blast
  let ?d1 = "set_offs CESK_DIFF_ALLOC (offs d CESK_DIFF_ALLOC + ?rc) (d\<lparr>df_data := f\<rparr>)"
  have deallocs: "df_section ?d1 CESK_DIFF_DEALLOC = Some (F CESK_DIFF_DEALLOC)"
    using lay1 by (auto simp: layout_def less_sections) (simp add: diff_sections)
  let ?del2 = "with_marks tick (gone_addrs live F) (gc_del g)"
  have p4: "mark_deallocs tick (F CESK_DIFF_DEALLOC) ?del = Some ?del2"
    using ready by (simp add: mark_deallocs_eq gc_ready_def with_marks_Un gone_addrs_def)
  have gone: "deleted tick ?del2 a \<longleftrightarrow> a \<in> gone_addrs live F" for a
  proof -
    have "CESK_STORE_ADDR_IS_RELOC a" if "a \<in> gone_addrs live F"
      using that ready by (auto simp: gone_addrs_def unreached_def dealloc_addrs_def gc_ready_def)
    then show ?thesis using marked_iff [OF old(2)] by (auto simp: deleted_def)
  qed
  let ?F = "F(CESK_DIFF_ALLOC := ?live)"
  have other: "?F CESK_DIFF_REG = F CESK_DIFF_REG" "?F CESK_DIFF_STORE = F CESK_DIFF_STORE" by (simp_all add: diff_sections)
  have "?F CESK_DIFF_REG \<noteq> [] \<or> kept tick ?del2 (?F CESK_DIFF_STORE) \<noteq> [] \<or> kept tick ?del2 (?F CESK_DIFF_STORE) = ?F CESK_DIFF_STORE"
    unfolding other gone using jump by (auto simp: filter_empty_conv filter_id_conv)
  then obtain e where e: "\<forall>h :: 'd value_heap. cesk_diff_gc_reuse_store_compact ?d1 ?del2 tick h =
      map_option (\<lambda>h. (e, h)) (release_list CESK_DIFF_STORE (filter (\<lambda>r. deleted tick ?del2 (dr_addr r)) (?F CESK_DIFF_STORE)) h)"
    "layout e (compacted tick ?del2 ?F)" "df_refcnt e = df_refcnt ?d1"
    using reuse_store_compact [OF lay1, where 'd = 'd] by blast
  have recs: "?live = filter (\<lambda>r. CESK_STORE_ADDR_IS_RELOC (dr_addr r) \<longrightarrow> dr_addr r \<in> live) (F CESK_DIFF_ALLOC)"
    by (rule filter_cong) (simp_all only: alive)
  have "compacted tick ?del2 ?F = collected live (gone_addrs live F) F"
    by (rule ext) (simp add: compacted_def collected_def gone recs [unfolded diff_sections] diff_sections)
  moreover have "cesk_diff_gc n d g h =
      map_option (\<lambda>h. (e, \<lparr>gc_keep = ?keep, gc_del = ?del2, gc_tick = tick\<rparr>, h)) (release_list CESK_DIFF_ALLOC (rev (unreached live F)) h \<bind>
        release_list CESK_DIFF_STORE (filter (\<lambda>r. dr_addr r \<in> gone_addrs live F) (F CESK_DIFF_STORE)))"
  proof -
    have s: "df_section d CESK_DIFF_STORE = Some (F CESK_DIFF_STORE)" "df_section d CESK_DIFF_REG = Some (F CESK_DIFF_REG)"
      "df_section d CESK_DIFF_ALLOC = Some (F CESK_DIFF_ALLOC)" using secs by (simp_all add: diff_sections)
    have o: "offs (d\<lparr>df_data := f\<rparr>) i = offs d i" for i by simp
    have dels: "filter (\<lambda>r. deleted tick ?del2 (dr_addr r)) (F CESK_DIFF_STORE) = filter (\<lambda>r. dr_addr r \<in> gone_addrs live F) (F CESK_DIFF_STORE)"
      by (simp add: gone)
    show ?thesis
    proof (cases "release_list CESK_DIFF_ALLOC (rev (unreached live F)) h")
      case None
      then show ?thesis
        by (simp only: cesk_diff_gc_def Let_def tick_def [symmetric] s p1 p2 p3 bind.bind_lunit f [rule_format] option.map bind.bind_lzero)
    next
      case (Some h1)
      show ?thesis
        by (cases "release_list CESK_DIFF_STORE (filter (\<lambda>r. dr_addr r \<in> gone_addrs live F) (F CESK_DIFF_STORE)) h1")
          (simp_all only: cesk_diff_gc_def Let_def tick_def [symmetric] s p1 p2 p3 bind.bind_lunit f [rule_format] Some option.map
            split_conv o deallocs p4 e(1) [rule_format] other dels bind.bind_lzero)
    qed
  qed
  ultimately show ?thesis using e(2,3) by auto
qed

subsection \<open>Reachability\<close>

lemma alloc_refs_mono: "alloc_refs n h rs as = Some live \<Longrightarrow> as \<subseteq> live"
proof (induction rs arbitrary: as)
  case (Cons r rs)
  then show ?case by (force split: if_splits bind_splits)
qed simp

text \<open>What an allocation refers to, as the collector reads it.\<close>

definition alloc_targets :: "nat \<Rightarrow> 'd value_heap \<Rightarrow> diff_rec \<Rightarrow> u32 set" where
  "alloc_targets n h r = (case arg_value (dr_arg r) of Some (Some v) \<Rightarrow> (case value_addrs False 128 n h v of Some as \<Rightarrow> as | None \<Rightarrow> {}) | _ \<Rightarrow> {})"

text \<open>
  The marking of the allocations is one pass. It is complete when no allocation refers to an earlier one of
  the section.
\<close>

definition forward :: "nat \<Rightarrow> 'd value_heap \<Rightarrow> diff_rec list \<Rightarrow> bool" where
  "forward n h rs \<longleftrightarrow> sorted_wrt (\<lambda>q r. dr_addr q \<notin> alloc_targets n h r) rs"

lemma alloc_step:
  assumes "alloc_refs n h (r # rs) as = Some live"
  shows "alloc_refs n h rs (if CESK_STORE_ADDR_IS_RELOC (dr_addr r) \<and> dr_addr r \<in> as then as \<union> alloc_targets n h r else as) = Some live"
proof (cases "CESK_STORE_ADDR_IS_RELOC (dr_addr r) \<and> dr_addr r \<in> as")
  case True
  then obtain v bs where "arg_value (dr_arg r) = Some (Some v)" "value_addrs False 128 n h v = Some bs" "alloc_refs n h rs (as \<union> bs) = Some live"
    using assms by (auto split: bind_splits)
  then show ?thesis using True by (simp add: alloc_targets_def)
qed (use assms in auto)

lemma alloc_refs_bound: "alloc_refs n h rs as = Some live \<Longrightarrow> live \<subseteq> as \<union> (\<Union>r \<in> set rs. alloc_targets n h r)"
proof (induction rs arbitrary: as)
  case (Cons r rs)
  from Cons.IH [OF alloc_step [OF Cons.prems]] show ?case by (auto split: if_splits)
qed simp

lemma alloc_refs_closed:
  assumes "alloc_refs n h rs as = Some live" "forward n h rs"
    and "r \<in> set rs" "CESK_STORE_ADDR_IS_RELOC (dr_addr r)" "dr_addr r \<in> live"
  shows "alloc_targets n h r \<subseteq> live"
  using assms
proof (induction rs arbitrary: as)
  case (Cons q rs)
  note step = alloc_step [OF Cons.prems(1)]
  have rest: "forward n h rs" "\<forall>r \<in> set rs. dr_addr q \<notin> alloc_targets n h r" using Cons.prems(2) by (simp_all add: forward_def)
  show ?case
  proof (cases "r \<in> set rs")
    case True
    then show ?thesis using Cons.IH [OF step rest(1)] Cons.prems(4,5) by blast
  next
    case False
    then have q: "r = q" using Cons.prems(3) by simp
    have "dr_addr q \<in> as"
    proof (rule ccontr)
      assume "dr_addr q \<notin> as"
      then have "live \<subseteq> as \<union> (\<Union>r \<in> set rs. alloc_targets n h r)" using alloc_refs_bound [OF step] by simp
      then show False using Cons.prems(5) q rest(2) \<open>dr_addr q \<notin> as\<close> by blast
    qed
    then have "alloc_refs n h rs (as \<union> alloc_targets n h q) = Some live" using step Cons.prems(4) q by simp
    then show ?thesis using alloc_refs_mono q by blast
  qed
qed simp

subsection \<open>Properties\<close>

definition buffer_recs :: "diff_buffer \<Rightarrow> nat \<Rightarrow> diff_rec list" where
  "buffer_recs b sec = section_recs sec (section_nodes sec (qsort cesk_diff_buffer_cmp (bf_nodes b)))"

lemma buffer_recs_sorted: "sorted_wrt (<) (map dr_addr (buffer_recs b sec))"
  unfolding buffer_recs_def by (intro section_recs_sorted section_nodes_sorted node_order.sorted_qsort)


text \<open>A buffer with two allocations at one address, a store record that refers to it and two reuse records.\<close>

definition demo_object :: "u32 list \<Rightarrow> unit cesk_value" where
  "demo_object as = \<lparr>val_data = VObject (Some \<lparr>obj_members = [UdefStruct point_class as], obj_builtin = 1, obj_nbuiltin = 0, obj_tags = None\<rparr>),
     val_write_count = 0, val_reloc = False, val_refcnt = 1\<rparr>"

definition demo_heap :: "u32 list list \<Rightarrow> unit value_heap" where
  "demo_heap xss = \<lparr>vh_mem = (\<lambda>i. if i < length xss then Some (demo_object (xss ! i)) else None), vh_next = length xss, vh_sets = set_boot\<rparr>"

definition demo_state :: "unit value_heap \<Rightarrow> unit diff_state" where
  "demo_state h = \<lparr>ds_heap = h, ds_diffs = Map.empty, ds_next = 0, ds_empty = None, ds_gc = \<lparr>gc_keep = \<lambda>i. 0, gc_del = \<lambda>i. 0, gc_tick = 0\<rparr>\<rparr>"

definition demo_buffer :: diff_buffer where
  "demo_buffer = \<lparr>bf_converted = 0, bf_nodes =
     [\<lparr>nd_type = 0, nd_addr = 0xff000001, nd_time = 0, nd_value = AVal (Some 0)\<rparr>,
      \<lparr>nd_type = 1, nd_addr = 9, nd_time = 1, nd_value = ABits 1\<rparr>,
      \<lparr>nd_type = 3, nd_addr = 5, nd_time = 2, nd_value = AVal (Some 2)\<rparr>,
      \<lparr>nd_type = 1, nd_addr = 9, nd_time = 3, nd_value = ABits 0\<rparr>,
      \<lparr>nd_type = 0, nd_addr = 0xff000001, nd_time = 4, nd_value = AVal (Some 1)\<rparr>],
     bf_reverse = False, bf_merge = False\<rparr>"

lemma demo_known: "sets_known ((demo_heap xss)\<lparr>vh_mem := (vh_mem (demo_heap xss))(i := None)\<rparr>)" "sets_known (demo_heap xss)"
  by (auto simp: sets_known_def demo_heap_def demo_object_def set_boot_inv split: if_splits)

lemma demo_release:
  "vh_mem h v = Some (demo_object as) \<Longrightarrow> cesk_value_decref v h = Some (h\<lparr>vh_mem := (vh_mem h)(v := None)\<rparr>)"
  by (cases h) (simp add: cesk_value_decref_def value_upd_def cesk_value_free_def demo_object_def cesk_object_free_def
      tag_set_free_def with_tags_def)

lemma demo_mem: "i < length xss \<Longrightarrow> vh_mem (demo_heap xss) i = Some (demo_object (xss ! i))"
  by (simp add: demo_heap_def)

lemma demo_addrs: "vh_mem h v = Some (demo_object as) \<Longrightarrow> value_addrs advance sz n h v = Some (set as)"
  by (simp add: value_addrs_def demo_object_def)

lemma demo_sorted: "qsort cesk_diff_buffer_cmp (bf_nodes demo_buffer) =
     [\<lparr>nd_type = 0, nd_addr = 0xff000001, nd_time = 0, nd_value = AVal (Some 0)\<rparr>,
      \<lparr>nd_type = 0, nd_addr = 0xff000001, nd_time = 4, nd_value = AVal (Some 1)\<rparr>,
      \<lparr>nd_type = 1, nd_addr = 9, nd_time = 1, nd_value = ABits 1\<rparr>,
      \<lparr>nd_type = 1, nd_addr = 9, nd_time = 3, nd_value = ABits 0\<rparr>,
      \<lparr>nd_type = 3, nd_addr = 5, nd_time = 2, nd_value = AVal (Some 2)\<rparr>]"
  by (simp add: demo_buffer_def cesk_diff_buffer_cmp_def)

lemma demo_recs:
  "buffer_recs demo_buffer CESK_DIFF_ALLOC = [\<lparr>dr_addr = 0xff000001, dr_arg = AVal (Some 1)\<rparr>]"
  "buffer_recs demo_buffer CESK_DIFF_REUSE = [\<lparr>dr_addr = 9, dr_arg = ABits 0\<rparr>]"
  "buffer_recs demo_buffer CESK_DIFF_REG = []" "buffer_recs demo_buffer CESK_DIFF_DEALLOC = []"
  "buffer_recs demo_buffer CESK_DIFF_STORE = [\<lparr>dr_addr = 5, dr_arg = AVal (Some 2)\<rparr>]"
  by (simp_all add: buffer_recs_def demo_sorted section_recs_def section_nodes_def override_def put_boolean_def arg_null_def diff_sections)


text \<open>
  C18: A run of the collector on a diff whose allocations refer only to themselves or to later ones, in the order of
  the section, gives back just the allocations that nothing refers to: an address that a register record, a
  store record of the diff or a remaining allocation refers to keeps its allocation.
\<close>

theorem cesk_diff_gc_closed:
  assumes "layout d F" "gc_ready F g h" "store_refs n h (F CESK_DIFF_STORE) = Some ss"
    and live: "alloc_refs n h (F CESK_DIFF_ALLOC) (ss \<union> reg_refs h (F CESK_DIFF_REG)) = Some live"
    and "F CESK_DIFF_REG \<noteq> [] \<or> (\<exists>r \<in> set (F CESK_DIFF_STORE). dr_addr r \<notin> gone_addrs live F) \<or>
                (\<forall>r \<in> set (F CESK_DIFF_STORE). dr_addr r \<notin> gone_addrs live F)"
    and fwd: "forward n h (F CESK_DIFF_ALLOC)" and reloc: "\<forall>r \<in> set (F CESK_DIFF_ALLOC). CESK_STORE_ADDR_IS_RELOC (dr_addr r)"
    and run: "cesk_diff_gc n d g h = Some (e, g', h')"
  shows "\<exists>A. df_section e CESK_DIFF_ALLOC = Some A \<and> set A \<subseteq> set (F CESK_DIFF_ALLOC) \<and>
    (\<forall>a \<in> ss \<union> reg_refs h (F CESK_DIFF_REG) \<union> (\<Union>r \<in> set A. alloc_targets n h r).
       a \<in> dr_addr ` set (F CESK_DIFF_ALLOC) \<longrightarrow> a \<in> dr_addr ` set A)"
proof -
  let ?A = "filter (\<lambda>r. dr_addr r \<in> live) (F CESK_DIFF_ALLOC)"
  obtain e0 g0 m where "cesk_diff_gc n d g h = map_option (\<lambda>h. (e0, g0, h)) m" "layout e0 (collected live (gone_addrs live F) F)"
    using gc_sections [OF assms(1-5)] by blast
  then have "layout e (collected live (gone_addrs live F) F)"
    using run by (cases m) simp_all
  moreover have "collected live (gone_addrs live F) F CESK_DIFF_ALLOC = ?A"
    using reloc by (auto simp: collected_def intro: filter_cong)
  ultimately have "df_section e CESK_DIFF_ALLOC = Some ?A" by (simp add: layout_def diff_sections)
  moreover have "a \<in> live" if a: "a \<in> ss \<union> reg_refs h (F CESK_DIFF_REG) \<union> (\<Union>r \<in> set ?A. alloc_targets n h r)" for a
  proof (cases "a \<in> ss \<union> reg_refs h (F CESK_DIFF_REG)")
    case True
    then show ?thesis using alloc_refs_mono [OF live] by blast
  next
    case False
    then obtain r where r: "r \<in> set ?A" "a \<in> alloc_targets n h r" using a by blast
    then show ?thesis using alloc_refs_closed [OF live fwd, of r] reloc by simp blast
  qed
  then have "\<forall>a \<in> ss \<union> reg_refs h (F CESK_DIFF_REG) \<union> (\<Union>r \<in> set ?A. alloc_targets n h r).
       a \<in> dr_addr ` set (F CESK_DIFF_ALLOC) \<longrightarrow> a \<in> dr_addr ` set ?A" by (fastforce simp only: set_filter image_iff)
  moreover have "set ?A \<subseteq> set (F CESK_DIFF_ALLOC)" by simp
  ultimately show ?thesis by blast
qed

text \<open>A diff over an array of records, for the examples.\<close>

definition array_diff :: "nat list \<Rightarrow> diff_rec list \<Rightarrow> cesk_diff" where
  "array_diff os rs = \<lparr>df_index = 0, df_refcnt = 1, df_offset = os, df_cap = length rs, df_data = (\<lambda>i. if i < length rs then Some (rs ! i) else None)\<rparr>"

lemma layout_array:
  assumes "length os = Suc CESK_DIFF_NTYPES" "\<forall>sec < CESK_DIFF_NTYPES. os ! sec \<le> os ! Suc sec \<and> os ! Suc sec \<le> length rs"
  shows "layout (array_diff os rs) (\<lambda>sec. take (os ! Suc sec - os ! sec) (drop (os ! sec) rs))"
proof (rule layoutI)
  show "length (df_offset (array_diff os rs)) = Suc CESK_DIFF_NTYPES" "in_bounds (array_diff os rs)"
    using assms(1) by (auto simp: array_diff_def in_bounds_def split: if_splits)
  show "offs (array_diff os rs) (Suc sec) = offs (array_diff os rs) sec + length (take (os ! Suc sec - os ! sec) (drop (os ! sec) rs)) \<and>
      rows (array_diff os rs) (offs (array_diff os rs) sec) (take (os ! Suc sec - os ! sec) (drop (os ! sec) rs))"
    if "sec < CESK_DIFF_NTYPES" for sec
    using assms(2) that by (auto simp: array_diff_def rows_def min_def)
qed

definition sections_demo :: "diff_rec list \<Rightarrow> nat \<Rightarrow> diff_rec list" where
  "sections_demo allocs sec = (if sec = CESK_DIFF_ALLOC then allocs else if sec = CESK_DIFF_STORE then [\<lparr>dr_addr = 5, dr_arg = AVal (Some 0)\<rparr>] else [])"

definition alloc_demo :: "diff_rec list \<Rightarrow> cesk_diff" where
  "alloc_demo allocs = array_diff [0, length allocs, length allocs, length allocs, Suc (length allocs), Suc (length allocs)]
     (allocs @ [\<lparr>dr_addr = 5, dr_arg = AVal (Some 0)\<rparr>])"

lemma alloc_demo_layout: "layout (alloc_demo allocs) (sections_demo allocs)"
proof -
  let ?os = "[0, length allocs, length allocs, length allocs, Suc (length allocs), Suc (length allocs)]"
    and ?rs = "allocs @ [\<lparr>dr_addr = 5, dr_arg = AVal (Some 0)\<rparr>]"
  have "layout (alloc_demo allocs) (\<lambda>sec. take (?os ! Suc sec - ?os ! sec) (drop (?os ! sec) ?rs))"
    unfolding alloc_demo_def by (rule layout_array) (simp_all only: less_sections, simp_all add: diff_sections)
  moreover have "\<forall>sec < CESK_DIFF_NTYPES. take (?os ! Suc sec - ?os ! sec) (drop (?os ! sec) ?rs) = sections_demo allocs sec"
    unfolding less_sections by (simp add: diff_sections sections_demo_def)
  ultimately show ?thesis by (simp add: layout_def)
qed

definition demo_marks :: gc_marks where
  "demo_marks = \<lparr>gc_keep = \<lambda>i. 0, gc_del = \<lambda>i. 0, gc_tick = 0\<rparr>"

lemma demo_ready:
  "\<forall>r \<in> set allocs. arg_fits CESK_DIFF_ALLOC (dr_arg r) \<Longrightarrow> gc_ready (sections_demo allocs) demo_marks (demo_heap xss)"
  using demo_known(2) [of xss] by (auto simp: gc_ready_def demo_marks_def sections_demo_def arg_fits_def diff_sections)

lemma demo_unreached:
  "\<forall>r \<in> set allocs. CESK_STORE_ADDR_IS_RELOC (dr_addr r) \<Longrightarrow> unreached live (sections_demo allocs) = filter (\<lambda>r. dr_addr r \<notin> live) allocs"
  unfolding unreached_def sections_demo_def by (auto intro: filter_cong)

lemma demo_gone:
  "\<forall>r \<in> set allocs. CESK_STORE_ADDR_IS_RELOC (dr_addr r) \<Longrightarrow> 5 \<notin> dr_addr ` set allocs \<Longrightarrow> 5 \<notin> gone_addrs live (sections_demo allocs)"
  unfolding gone_addrs_def demo_unreached by (auto simp: dealloc_addrs_def sections_demo_def diff_sections)

lemma demo_forward:
  assumes "\<forall>r \<in> set allocs. arg_fits CESK_DIFF_ALLOC (dr_arg r)" "store_refs n (demo_heap xss) [\<lparr>dr_addr = 5, dr_arg = AVal (Some 0)\<rparr>] = Some ss"
    and "alloc_refs n (demo_heap xss) allocs ss = Some live" "\<forall>r \<in> set allocs. CESK_STORE_ADDR_IS_RELOC (dr_addr r)" "5 \<notin> dr_addr ` set allocs"
    and "release_list CESK_DIFF_ALLOC (rev (filter (\<lambda>r. dr_addr r \<notin> live) allocs)) (demo_heap xss) = Some h'"
  shows "\<exists>e g'. cesk_diff_gc n (alloc_demo allocs) demo_marks (demo_heap xss) = Some (e, g', h') \<and>
    df_section e CESK_DIFF_ALLOC = Some (filter (\<lambda>r. dr_addr r \<in> live) allocs)"
proof -
  let ?F = "sections_demo allocs"
  have F: "?F CESK_DIFF_ALLOC = allocs" "?F CESK_DIFF_STORE = [\<lparr>dr_addr = 5, dr_arg = AVal (Some 0)\<rparr>]"
    "?F CESK_DIFF_REG = []" "?F CESK_DIFF_DEALLOC = []" by (simp_all add: sections_demo_def diff_sections)
  note un = demo_unreached [OF assms(4), of live] and gone = demo_gone [OF assms(4,5), of live]
  have stores: "store_refs n (demo_heap xss) (?F CESK_DIFF_STORE) = Some ss" unfolding F by (rule assms(2))
  have live: "alloc_refs n (demo_heap xss) (?F CESK_DIFF_ALLOC) (ss \<union> reg_refs (demo_heap xss) (?F CESK_DIFF_REG)) = Some live"
    unfolding F using assms(3) by (simp add: reg_refs_def)
  have jump: "?F CESK_DIFF_REG \<noteq> [] \<or> (\<exists>r \<in> set (?F CESK_DIFF_STORE). dr_addr r \<notin> gone_addrs live ?F) \<or>
                (\<forall>r \<in> set (?F CESK_DIFF_STORE). dr_addr r \<notin> gone_addrs live ?F)"
    unfolding F using gone by simp
  obtain e g' where e: "cesk_diff_gc n (alloc_demo allocs) demo_marks (demo_heap xss) =
      map_option (\<lambda>h. (e, g', h)) (release_list CESK_DIFF_ALLOC (rev (unreached live ?F)) (demo_heap xss) \<bind>
        release_list CESK_DIFF_STORE (filter (\<lambda>r. dr_addr r \<in> gone_addrs live ?F) (?F CESK_DIFF_STORE)))"
    "layout e (collected live (gone_addrs live ?F) ?F)"
    using gc_sections [OF alloc_demo_layout demo_ready [OF assms(1)] stores live jump] by blast
  have "collected live (gone_addrs live ?F) ?F CESK_DIFF_ALLOC = filter (\<lambda>r. dr_addr r \<in> live) allocs"
    using assms(4) by (auto simp: collected_def F intro: filter_cong)
  then have "df_section e CESK_DIFF_ALLOC = Some (filter (\<lambda>r. dr_addr r \<in> live) allocs)"
    using e(2) by (simp add: layout_def less_sections)
  then show ?thesis using e(1) assms(6) gone by (intro exI [of _ e] exI [of _ g']) (simp add: un F)
qed

lemma demo_reloc: "CESK_STORE_ADDR_IS_RELOC 0xff000001" "CESK_STORE_ADDR_IS_RELOC 0xff000002" "CESK_STORE_ADDR_IS_RELOC 0xff000003"
  by (simp_all add: is_reloc_iff_range addr_const_defs)

theorem cesk_diff_gc_closed_witness:
  "\<exists>e g' h'. cesk_diff_gc 1 (alloc_demo [\<lparr>dr_addr = 0xff000001, dr_arg = AVal (Some 1)\<rparr>, \<lparr>dr_addr = 0xff000002, dr_arg = AVal (Some 2)\<rparr>,
       \<lparr>dr_addr = 0xff000003, dr_arg = AVal (Some 3)\<rparr>]) demo_marks (demo_heap [[0xff000001], [0xff000002], [], []]) = Some (e, g', h') \<and>
     (\<exists>A. df_section e CESK_DIFF_ALLOC = Some A \<and> 0xff000002 \<in> dr_addr ` set A)"
proof -
  let ?r = "[\<lparr>dr_addr = 0xff000001, dr_arg = AVal (Some 1)\<rparr>, \<lparr>dr_addr = 0xff000002, dr_arg = AVal (Some 2)\<rparr>, \<lparr>dr_addr = 0xff000003, dr_arg = AVal (Some 3)\<rparr>]"
    and ?h = "demo_heap [[0xff000001], [0xff000002], [], []]" and ?F = "sections_demo"
  have fits: "\<forall>r \<in> set ?r. arg_fits CESK_DIFF_ALLOC (dr_arg r)" and rel: "\<forall>r \<in> set ?r. CESK_STORE_ADDR_IS_RELOC (dr_addr r)"
    by (simp_all add: arg_fits_def demo_reloc)
  have ss: "store_refs 1 ?h [\<lparr>dr_addr = 5, dr_arg = AVal (Some 0)\<rparr>] = Some {0xff000001}" by (simp add: demo_addrs demo_mem)
  have live: "alloc_refs 1 ?h ?r {0xff000001} = Some {0xff000001, 0xff000002}" by (simp add: demo_addrs demo_mem demo_reloc insert_commute)
  have drop: "release_list CESK_DIFF_ALLOC (rev (filter (\<lambda>r. dr_addr r \<notin> {0xff000001, 0xff000002}) ?r)) ?h = Some (?h\<lparr>vh_mem := (vh_mem ?h)(3 := None)\<rparr>)"
    by (simp add: release_arg_def demo_release demo_mem)
  have five: "5 \<notin> dr_addr ` set ?r" by simp
  obtain e g' where e: "cesk_diff_gc 1 (alloc_demo ?r) demo_marks ?h = Some (e, g', ?h\<lparr>vh_mem := (vh_mem ?h)(3 := None)\<rparr>)"
    using demo_forward [OF fits ss live rel five drop] by blast
  have F: "?F ?r CESK_DIFF_ALLOC = ?r" "?F ?r CESK_DIFF_STORE = [\<lparr>dr_addr = 5, dr_arg = AVal (Some 0)\<rparr>]" "?F ?r CESK_DIFF_REG = []"
    by (simp_all add: sections_demo_def diff_sections)
  have tgt: "alloc_targets 1 ?h \<lparr>dr_addr = 0xff000001, dr_arg = AVal (Some 1)\<rparr> = {0xff000002}"
    "alloc_targets 1 ?h \<lparr>dr_addr = 0xff000002, dr_arg = AVal (Some 2)\<rparr> = {}" "alloc_targets 1 ?h \<lparr>dr_addr = 0xff000003, dr_arg = AVal (Some 3)\<rparr> = {}"
    by (simp_all add: alloc_targets_def demo_addrs demo_mem)
  have fwd: "forward 1 ?h (?F ?r CESK_DIFF_ALLOC)" unfolding F forward_def using tgt by simp
  have jump: "?F ?r CESK_DIFF_REG \<noteq> [] \<or> (\<exists>r \<in> set (?F ?r CESK_DIFF_STORE). dr_addr r \<notin> gone_addrs {0xff000001, 0xff000002} (?F ?r)) \<or>
      (\<forall>r \<in> set (?F ?r CESK_DIFF_STORE). dr_addr r \<notin> gone_addrs {0xff000001, 0xff000002} (?F ?r))"
    unfolding F using demo_gone [OF rel five] by simp
  have stores: "store_refs 1 ?h (?F ?r CESK_DIFF_STORE) = Some {0xff000001}" unfolding F by (rule ss)
  have marks: "alloc_refs 1 ?h (?F ?r CESK_DIFF_ALLOC) ({0xff000001} \<union> reg_refs ?h (?F ?r CESK_DIFF_REG)) = Some {0xff000001, 0xff000002}"
    unfolding F using live by (simp add: reg_refs_def)
  have rel': "\<forall>r \<in> set (?F ?r CESK_DIFF_ALLOC). CESK_STORE_ADDR_IS_RELOC (dr_addr r)" unfolding F by (rule rel)
  obtain A where A: "df_section e CESK_DIFF_ALLOC = Some A" "set A \<subseteq> set ?r"
    "\<forall>a \<in> {0xff000001} \<union> reg_refs ?h (?F ?r CESK_DIFF_REG) \<union> (\<Union>r \<in> set A. alloc_targets 1 ?h r). a \<in> dr_addr ` set ?r \<longrightarrow> a \<in> dr_addr ` set A"
    using cesk_diff_gc_closed [OF alloc_demo_layout demo_ready [OF fits] stores marks jump fwd rel' e] unfolding F(1) by (elim exE conjE)
  have "0xff000001 \<in> dr_addr ` set A" using A(3) by simp
  then obtain r where r: "r \<in> set A" "dr_addr r = 0xff000001" by auto
  then have "r = \<lparr>dr_addr = 0xff000001, dr_arg = AVal (Some 1)\<rparr>" using subsetD [OF A(2) r(1)] by auto
  then have "\<lparr>dr_addr = 0xff000001, dr_arg = AVal (Some 1)\<rparr> \<in> set A" using r(1) by simp
  then have "0xff000002 \<in> (\<Union>r \<in> set A. alloc_targets 1 ?h r)" using tgt(1) by (intro UN_I) (assumption, simp only: singletonI)
  then have "0xff000002 \<in> dr_addr ` set ?r \<longrightarrow> 0xff000002 \<in> dr_addr ` set A" by (intro bspec [OF A(3)] UnI2)
  then have "0xff000002 \<in> dr_addr ` set A" by simp
  with A(1) e show ?thesis by blast
qed

text \<open>
  C15: The marking of the allocations is a single pass in the order of the section, so that the collector can
  remove what a remaining allocation refers to. In a diff whose store record refers to the second of three
  allocations, which refers to the first, which refers to the third, the first two stay and the third is
  given back.
\<close>

theorem cesk_diff_gc_drops_referenced:
  "\<exists>e g' h'. cesk_diff_gc 1 (alloc_demo [\<lparr>dr_addr = 0xff000001, dr_arg = AVal (Some 1)\<rparr>, \<lparr>dr_addr = 0xff000002, dr_arg = AVal (Some 2)\<rparr>,
       \<lparr>dr_addr = 0xff000003, dr_arg = AVal (Some 3)\<rparr>]) demo_marks (demo_heap [[0xff000002], [0xff000003], [0xff000001], []]) = Some (e, g', h') \<and>
     df_section e CESK_DIFF_ALLOC = Some [\<lparr>dr_addr = 0xff000001, dr_arg = AVal (Some 1)\<rparr>, \<lparr>dr_addr = 0xff000002, dr_arg = AVal (Some 2)\<rparr>] \<and>
     value_addrs False 128 1 h' 1 = Some {0xff000003} \<and> vh_mem h' 3 = None"
proof -
  let ?r = "[\<lparr>dr_addr = 0xff000001, dr_arg = AVal (Some 1)\<rparr>, \<lparr>dr_addr = 0xff000002, dr_arg = AVal (Some 2)\<rparr>, \<lparr>dr_addr = 0xff000003, dr_arg = AVal (Some 3)\<rparr>]"
    and ?h = "demo_heap [[0xff000002], [0xff000003], [0xff000001], []]"
  have fits: "\<forall>r \<in> set ?r. arg_fits CESK_DIFF_ALLOC (dr_arg r)" and rel: "\<forall>r \<in> set ?r. CESK_STORE_ADDR_IS_RELOC (dr_addr r)"
    by (simp_all add: arg_fits_def demo_reloc)
  have ss: "store_refs 1 ?h [\<lparr>dr_addr = 5, dr_arg = AVal (Some 0)\<rparr>] = Some {0xff000002}" by (simp add: demo_addrs demo_mem)
  have live: "alloc_refs 1 ?h ?r {0xff000002} = Some {0xff000001, 0xff000002}" by (simp add: demo_addrs demo_mem demo_reloc insert_commute)
  have drop: "release_list CESK_DIFF_ALLOC (rev (filter (\<lambda>r. dr_addr r \<notin> {0xff000001, 0xff000002}) ?r)) ?h = Some (?h\<lparr>vh_mem := (vh_mem ?h)(3 := None)\<rparr>)"
    by (simp add: release_arg_def demo_release demo_mem)
  have five: "5 \<notin> dr_addr ` set ?r" by simp
  obtain e g' where "cesk_diff_gc 1 (alloc_demo ?r) demo_marks ?h = Some (e, g', ?h\<lparr>vh_mem := (vh_mem ?h)(3 := None)\<rparr>)"
    "df_section e CESK_DIFF_ALLOC = Some (filter (\<lambda>r. dr_addr r \<in> {0xff000001, 0xff000002}) ?r)"
    using demo_forward [OF fits ss live rel five drop] by blast
  then show ?thesis by (intro exI [of _ e] exI [of _ g'] exI conjI) (auto simp: demo_addrs demo_mem)
qed

subsection \<open>A store section that is deleted as a whole\<close>

text \<open>
  The case that \<open>jump\<close> excludes: when there is no register record and every store record is deleted, the
  first record of the next section that the move copies is the deleted store record.
\<close>

theorem cesk_diff_gc_compact_copies_deleted:
  fixes h h' :: "'d value_heap"
  assumes d: "df_offset d = [0, 0, 0, 0, 1, 2]" "df_data d 0 = Some r" "df_data d 1 = Some q" "df_cap d = 2"
    and del: "deleted tick del (dr_addr r)" and free: "release_arg CESK_DIFF_STORE (dr_arg r) h = Some h'"
  shows "\<exists>e. cesk_diff_gc_reuse_store_compact d del tick h = Some (e, h') \<and>
    df_offset e = [0, 0, 0, 0, 0, 1] \<and> df_section e CESK_DIFF_DEALLOC = Some [r]"
proof -
  have s: "compact_left CESK_DIFF_STORE del tick [0..<1] 0 d h = Some (0, d, h')"
    using d del free by (simp add: upt_rec)
  have m: "move_left 0 1 2 0 0 d = Some (d\<lparr>df_data := (df_data d)(0 \<mapsto> r, 1 \<mapsto> q)\<rparr>)"
    using d by (simp add: move_left.simps [where i = 0] move_left.simps [where i = "Suc 0"] move_left.simps [where i = "Suc (Suc 0)"] put_rec_def Let_def)
  show ?thesis using d s m
    by (simp add: cesk_diff_gc_reuse_store_compact_def diff_sections set_offs_def shrink_offs_def Let_def
        df_section_def numeral_eq_Suc)
qed

end
