(* ===== verification/Cesk_Frame_Gc.thy ===== *)
theory Cesk_Frame_Gc
  imports Cesk_Frame Cesk_Diff_Gc
begin

text \<open>
  The marking phase of the collector of a frame (\<^verbatim>\<open>cesk_frame_gc\<close>, \<^verbatim>\<open>_cesk_frame_store_dfs\<close>): the depth first
  search ends, and it sets the flags of just the addresses that can be reached from the registers and the
  static fields.
\<close>

subsection \<open>The search\<close>

text \<open>The edges of the graph that the search goes along, and the addresses that a list leads to.\<close>

definition store_edges :: "nat \<Rightarrow> cesk_store \<Rightarrow> 'd world \<Rightarrow> (u32 \<times> u32) set" where
  "store_edges n st w = {(a, b). \<exists>v refs x. cesk_store_get_ro st a w = Some (Some v) \<and>
     refs_of_value n v (w_heap w) = Some refs \<and> x \<in> set refs \<and> dfs_target st w x = Some b}"

definition targets :: "cesk_store \<Rightarrow> 'd world \<Rightarrow> u32 list \<Rightarrow> u32 set" where
  "targets st w as = {b. \<exists>x \<in> set as. dfs_target st w x = Some b}"

definition reached :: "nat \<Rightarrow> cesk_store \<Rightarrow> 'd world \<Rightarrow> u32 list \<Rightarrow> u32 set" where
  "reached n st w as = (store_edges n st w)\<^sup>* `` targets st w as"

lemma targets_simps [simp]:
  "targets st w [] = {}"
  "targets st w (a # as) = (case dfs_target st w a of None \<Rightarrow> {} | Some b \<Rightarrow> {b}) \<union> targets st w as"
  by (auto simp: targets_def split: option.splits)

lemma targets_append: "targets st w (as @ bs) = targets st w as \<union> targets st w bs"
  by (auto simp: targets_def)

lemma store_edges_targets:
  "cesk_store_get_ro st a w = Some (Some v) \<Longrightarrow> refs_of_value n v (w_heap w) = Some refs \<Longrightarrow>
     (a, b) \<in> store_edges n st w \<longleftrightarrow> b \<in> targets st w refs"
  by (auto simp: store_edges_def targets_def)

text \<open>A set of addresses that the search does not leave, with readable slots and flags.\<close>

definition searchable :: "nat \<Rightarrow> cesk_store \<Rightarrow> 'd world \<Rightarrow> nat \<Rightarrow> u32 set \<Rightarrow> bool" where
  "searchable n st w sz U \<longleftrightarrow> (\<forall>a \<in> U. unat a < sz \<and> (\<exists>val. cesk_store_get_ro st a w = Some val \<and>
     (\<forall>v. val = Some v \<longrightarrow> (\<exists>refs. refs_of_value n v (w_heap w) = Some refs \<and> targets st w refs \<subseteq> U))))"

lemma searchableD:
  "searchable n st w sz U \<Longrightarrow> a \<in> U \<Longrightarrow> unat a < sz \<and> (\<exists>val. cesk_store_get_ro st a w = Some val \<and>
     (\<forall>v. val = Some v \<longrightarrow> (\<exists>refs. refs_of_value n v (w_heap w) = Some refs \<and> targets st w refs \<subseteq> U)))"
  unfolding searchable_def by (rule bspec)

definition flagged :: "u32 \<Rightarrow> (nat \<rightharpoonup> u32) \<Rightarrow> u32 set" where
  "flagged t f = {a. f (unat a) = Some t}"

lemma flagged_upd [simp]: "flagged t (f(unat a \<mapsto> t)) = insert a (flagged t f)"
  by (auto simp: flagged_def dest: word_unat_eq_iff [THEN iffD2])

text \<open>What a search over a list of addresses has done when it ends.\<close>

definition search_done :: "nat \<Rightarrow> cesk_store \<Rightarrow> 'd world \<Rightarrow> u32 \<Rightarrow> u32 list \<Rightarrow> (nat \<rightharpoonup> u32) \<Rightarrow> (nat \<rightharpoonup> u32) \<Rightarrow> bool" where
  "search_done n st w t as f f' \<longleftrightarrow>
     (\<forall>i. f' i = f i \<or> f' i = Some t \<and> f i \<noteq> None) \<and> flagged t f \<subseteq> flagged t f' \<and>
     targets st w as \<subseteq> flagged t f' \<and> flagged t f' - flagged t f \<subseteq> reached n st w as \<and>
     store_edges n st w `` (flagged t f' - flagged t f) \<subseteq> flagged t f'"

lemma search_doneD:
  assumes "search_done n st w t as f f'"
  shows "\<forall>i. f' i = f i \<or> f' i = Some t \<and> f i \<noteq> None" "flagged t f \<subseteq> flagged t f'" "targets st w as \<subseteq> flagged t f'"
    "flagged t f' - flagged t f \<subseteq> reached n st w as" "store_edges n st w `` (flagged t f' - flagged t f) \<subseteq> flagged t f'"
  using assms [unfolded search_done_def] by - (elim conjE, assumption)+

lemma search_done_Nil: "search_done n st w t [] f f"
  by (simp add: search_done_def)

lemma reached_mono: "targets st w as \<subseteq> reached n st w bs \<Longrightarrow> reached n st w as \<subseteq> reached n st w bs"
  unfolding reached_def by (auto intro: rtrancl_trans)

lemma search_done_trans:
  assumes 1: "search_done n st w t as f f1" and 2: "search_done n st w t bs f1 f2"
    and sub: "targets st w as \<subseteq> reached n st w cs" "targets st w bs \<subseteq> reached n st w cs"
    and cs: "targets st w cs \<subseteq> flagged t f1 \<union> targets st w bs"
  shows "search_done n st w t cs f f2"
proof -
  have r: "reached n st w as \<subseteq> reached n st w cs" "reached n st w bs \<subseteq> reached n st w cs"
    using sub by (auto dest: reached_mono)
  have m: "flagged t f \<subseteq> flagged t f1" "flagged t f1 \<subseteq> flagged t f2" using 1 2 by (auto simp: search_done_def)
  have "f2 i = f i \<or> f2 i = Some t \<and> f i \<noteq> None" for i
    using 1 2 unfolding search_done_def by metis
  moreover have "targets st w cs \<subseteq> flagged t f2" using cs m 2 unfolding search_done_def by blast
  moreover have "flagged t f2 - flagged t f \<subseteq> reached n st w cs"
  proof
    fix a assume a: "a \<in> flagged t f2 - flagged t f"
    show "a \<in> reached n st w cs"
    proof (cases "a \<in> flagged t f1")
      case True
      then have "a \<in> reached n st w as" using a 1 unfolding search_done_def by blast
      then show ?thesis using r(1) by blast
    next
      case False
      then have "a \<in> reached n st w bs" using a 2 unfolding search_done_def by blast
      then show ?thesis using r(2) by blast
    qed
  qed
  moreover have "store_edges n st w `` (flagged t f2 - flagged t f) \<subseteq> flagged t f2"
  proof -
    have "store_edges n st w `` (flagged t f1 - flagged t f) \<subseteq> flagged t f2"
      using 1 m unfolding search_done_def by blast
    moreover have "store_edges n st w `` (flagged t f2 - flagged t f1) \<subseteq> flagged t f2"
      using 2 unfolding search_done_def by blast
    moreover have "flagged t f2 - flagged t f \<subseteq> (flagged t f1 - flagged t f) \<union> (flagged t f2 - flagged t f1)" by blast
    ultimately show ?thesis by blast
  qed
  ultimately show ?thesis using m unfolding search_done_def by blast
qed

lemma search_done_same: "targets st w as \<subseteq> flagged t f \<Longrightarrow> search_done n st w t as f f"
  by (simp add: search_done_def)

text \<open>The step into an address that has no flag yet, after the search from its references.\<close>

lemma search_done_enter:
  assumes new: "f (unat a) = Some x" "x \<noteq> t" and tgt: "dfs_target st w b = Some a"
    and sub: "search_done n st w t refs (f(unat a \<mapsto> t)) f'"
    and edges: "store_edges n st w `` {a} = targets st w refs"
  shows "search_done n st w t [b] f f'"
proof -
  let ?E = "store_edges n st w"
  have m: "insert a (flagged t f) \<subseteq> flagged t f'" using sub by (simp add: search_done_def)
  have na: "a \<notin> flagged t f" using new by (simp add: flagged_def)
  have ra: "a \<in> reached n st w [b]" using tgt by (auto simp: reached_def)
  have "targets st w refs \<subseteq> reached n st w [b]"
    using edges tgt by (auto simp: reached_def intro!: r_into_rtrancl)
  then have rr: "reached n st w refs \<subseteq> reached n st w [b]" by (rule reached_mono)
  have s: "\<forall>i. f' i = (f(unat a \<mapsto> t)) i \<or> f' i = Some t \<and> (f(unat a \<mapsto> t)) i \<noteq> None"
    "flagged t f' - insert a (flagged t f) \<subseteq> reached n st w refs"
    "?E `` (flagged t f' - insert a (flagged t f)) \<subseteq> flagged t f'" "targets st w refs \<subseteq> flagged t f'"
    using sub [unfolded search_done_def flagged_upd] by - (elim conjE, assumption)+
  have "f' i = f i \<or> f' i = Some t \<and> f i \<noteq> None" for i using spec [OF s(1), of i] new by (auto split: if_splits)
  moreover have "flagged t f' - flagged t f \<subseteq> reached n st w [b]" using s(2) ra rr by blast
  moreover have "?E `` (flagged t f' - flagged t f) \<subseteq> flagged t f'" using s(3,4) edges by blast
  moreover have "targets st w [b] \<subseteq> flagged t f'" using tgt m by simp
  ultimately show ?thesis using m unfolding search_done_def by blast
qed

lemma cesk_frame_store_dfs_done:
  assumes U: "searchable n st w sz U"
  shows "targets st w as \<subseteq> U \<Longrightarrow> (\<forall>i < sz. f i \<noteq> None) \<Longrightarrow> card (U - flagged t f) < k \<Longrightarrow>
    \<exists>f'. cesk_frame_store_dfs k n st w t as f = Some f' \<and> search_done n st w t as f f'"
proof (induction k arbitrary: as f)
  case 0
  then show ?case by simp
next
  case (Suc k)
  note deeper = Suc.IH
  show ?case using Suc.prems
  proof (induction as arbitrary: f)
    case Nil
    then show ?case by (simp add: search_done_def)
  next
    case (Cons b as)
    have rest: "\<exists>f'. cesk_frame_store_dfs (Suc k) n st w t as f1 = Some f' \<and> search_done n st w t (b # as) f f'"
      if f1: "search_done n st w t [b] f f1" for f1
    proof -
      have d: "\<forall>i < sz. f1 i \<noteq> None" using search_doneD(1) [OF f1] Cons.prems(2) by (metis option.distinct(1))
      have "U - flagged t f1 \<subseteq> U - flagged t f" using search_doneD(2) [OF f1] by blast
      then have c: "card (U - flagged t f1) < Suc k"
        using card_mono [of "U - flagged t f" "U - flagged t f1"] Cons.prems(3) by simp
      have "targets st w as \<subseteq> U" using Cons.prems(1) by simp
      then obtain f' where f': "cesk_frame_store_dfs (Suc k) n st w t as f1 = Some f'" "search_done n st w t as f1 f'"
        using Cons.IH [OF _ d c] by blast
      have "targets st w [b] \<subseteq> reached n st w (b # as)" "targets st w as \<subseteq> reached n st w (b # as)"
        unfolding reached_def by (auto split: option.splits)
      moreover have "targets st w (b # as) \<subseteq> flagged t f1 \<union> targets st w as"
        using search_doneD(3) [OF f1] by (auto split: option.splits)
      ultimately have "search_done n st w t (b # as) f f'" by (rule search_done_trans [OF f1 f'(2)])
      then show ?thesis using f'(1) by blast
    qed
    show ?case
    proof (cases "dfs_target st w b")
      case None
      then show ?thesis using rest [of f] by (simp add: search_done_same)
    next
      case (Some a)
      have aU: "a \<in> U" using Cons.prems(1) Some by simp
      note su = searchableD [OF U aU]
      obtain val where val: "cesk_store_get_ro st a w = Some val"
        and refs: "\<forall>v. val = Some v \<longrightarrow> (\<exists>refs. refs_of_value n v (w_heap w) = Some refs \<and> targets st w refs \<subseteq> U)"
        using conjunct2 [OF su] by (elim exE conjE)
      obtain x where x: "f (unat a) = Some x" using Cons.prems(2) conjunct1 [OF su] by blast
      show ?thesis
      proof (cases "x = t")
        case True
        then have "search_done n st w t [b] f f" using Some x by (intro search_done_same) (simp add: flagged_def)
        then show ?thesis using rest [of f] Some x True by simp
      next
        case False
        let ?f = "f(unat a \<mapsto> t)"
        have less: "card (U - flagged t ?f) < k"
        proof -
          have "a \<notin> flagged t f" using x False by (simp add: flagged_def)
          then have "U - insert a (flagged t f) \<subset> U - flagged t f" using aU by blast
          then have "card (U - flagged t ?f) < card (U - flagged t f)"
            unfolding flagged_upd by (intro psubset_card_mono) simp_all
          then show ?thesis using Cons.prems(3) by simp
        qed
        have "\<forall>i < sz. ?f i \<noteq> None" using Cons.prems(2) by simp
        note dom = this
        obtain f1 where f1: "(case val of None \<Rightarrow> Some ?f
             | Some v \<Rightarrow> do { refs \<leftarrow> refs_of_value n v (w_heap w); cesk_frame_store_dfs k n st w t refs ?f }) = Some f1"
            "search_done n st w t [b] f f1"
        proof (cases val)
          case None
          then have "store_edges n st w `` {a} = targets st w []" using val by (auto simp: store_edges_def)
          then have "search_done n st w t [b] f ?f" using search_done_enter [where f = f and a = a and refs = "[]" and f' = ?f, OF x False Some search_done_Nil] by blast
          then show ?thesis using that [of ?f] None by simp
        next
          case v: (Some v)
          obtain rs where rs: "refs_of_value n v (w_heap w) = Some rs" "targets st w rs \<subseteq> U" using refs v by blast
          obtain f1 where g: "cesk_frame_store_dfs k n st w t rs ?f = Some f1" "search_done n st w t rs ?f f1"
            using deeper [OF rs(2) dom less] by (elim exE conjE)
          have "store_edges n st w `` {a} = targets st w rs"
            using store_edges_targets [of st a w v n rs] val v rs(1) by (simp add: Image_def)
          then have "search_done n st w t [b] f f1" using search_done_enter [where f = f and a = a and refs = rs and f' = f1, OF x False Some g(2)] by blast
          then show ?thesis using that [of f1] v rs(1) g(1) by simp
        qed
        obtain f' where "cesk_frame_store_dfs (Suc k) n st w t as f1 = Some f'" "search_done n st w t (b # as) f f'"
          using rest [OF f1(2)] by (elim exE conjE)
        then show ?thesis using f1(1) Some x False val by (intro exI [of _ f']) (simp add: Let_def)
      qed
    qed
  qed
qed

subsection \<open>The marks of the collector\<close>

lemma cesk_frame_store_dfs_append:
  "cesk_frame_store_dfs k n st w t (as @ bs) f =
     Option.bind (cesk_frame_store_dfs k n st w t as f) (cesk_frame_store_dfs k n st w t bs)"
proof (induction as arbitrary: f)
  case Nil
  then show ?case by (cases bs; cases k) simp_all
next
  case (Cons a as)
  show ?case
  proof (cases k)
    case (Suc k')
    show ?thesis
      using Cons unfolding Suc append_Cons cesk_frame_store_dfs.simps(3)
      by (auto simp: Let_def simp del: fun_upd_apply split: option.splits Option.bind_split)
  qed simp
qed

text \<open>The flags with which a run starts: an array for all slots in which nothing has the current mark.\<close>

definition flags_ready :: "nat \<Rightarrow> gc_flags \<Rightarrow> bool" where
  "flags_ready nslot g \<longleftrightarrow> nslot \<le> unat (gf_size g) \<and>
     (\<exists>f. gf_fb g = Some f \<and> (\<forall>i < unat (gf_size g). f i \<noteq> None) \<and> (\<forall>i. f i \<noteq> Some (gf_true g)))"

definition gc_roots :: "'d frame_state \<Rightarrow> u32 list option" where
  "gc_roots fs = do {
     as \<leftarrow> roots_of_sets (fr_regs (fs_frame fs)) (mem_sets fs);
     fields \<leftarrow> table_fields (fr_statics (fs_frame fs)) (statics_of fs);
     bs \<leftarrow> roots_of_sets (map (Some \<circ> snd) fields) (mem_sets fs);
     Some (as @ bs) }"

text \<open>The addresses that the frame can reach lead to slots with flags, and their references can be read.\<close>

definition heap_readable :: "nat \<Rightarrow> cesk_store \<Rightarrow> 'd world \<Rightarrow> nat \<Rightarrow> u32 set \<Rightarrow> bool" where
  "heap_readable n st w sz R \<longleftrightarrow> (\<forall>a \<in> R. unat a < sz \<and> (\<exists>val. cesk_store_get_ro st a w = Some val \<and>
     (\<forall>v. val = Some v \<longrightarrow> refs_of_value n v (w_heap w) \<noteq> None)))"

lemma reached_closed: "store_edges n st w `` reached n st w as \<subseteq> reached n st w as"
  by (auto simp: reached_def intro: rtrancl.rtrancl_into_rtrancl)

lemma reached_least: "targets st w as \<subseteq> A \<Longrightarrow> store_edges n st w `` A \<subseteq> A \<Longrightarrow> reached n st w as \<subseteq> A"
  unfolding reached_def using Image_mono [OF order.refl, of "targets st w as" A "(store_edges n st w)\<^sup>*"]
    Image_closed_trancl [of "store_edges n st w" A] by simp

lemma searchable_reached:
  assumes "heap_readable n st w sz (reached n st w as)"
  shows "searchable n st w sz (reached n st w as)"
  unfolding searchable_def
proof (rule ballI)
  fix a assume a: "a \<in> reached n st w as"
  obtain val where sz: "unat a < sz" and val: "cesk_store_get_ro st a w = Some val"
    and refs: "\<forall>v. val = Some v \<longrightarrow> refs_of_value n v (w_heap w) \<noteq> None"
    using bspec [OF assms [unfolded heap_readable_def] a] by (elim conjE exE)
  have "targets st w rs \<subseteq> reached n st w as" if v: "val = Some v" "refs_of_value n v (w_heap w) = Some rs" for v rs
  proof
    fix b assume "b \<in> targets st w rs"
    then have "(a, b) \<in> store_edges n st w" using store_edges_targets [of st a w v n rs b] val v by simp
    then show "b \<in> reached n st w as" by (rule subsetD [OF reached_closed ImageI [OF _ a]])
  qed
  then show "unat a < sz \<and> (\<exists>val. cesk_store_get_ro st a w = Some val \<and>
      (\<forall>v. val = Some v \<longrightarrow> (\<exists>refs. refs_of_value n v (w_heap w) = Some refs \<and> targets st w refs \<subseteq> reached n st w as)))"
    using sz val refs by blast
qed

lemma search_marks:
  assumes R: "heap_readable n st w sz (reached n st w as)"
    and f: "\<forall>i < sz. f i \<noteq> None" "\<forall>i. f i \<noteq> Some t"
  shows "\<exists>f'. cesk_frame_store_dfs (Suc sz) n st w t as f = Some f' \<and> flagged t f' = reached n st w as \<and> (\<forall>i < sz. f' i \<noteq> None)"
proof -
  let ?R = "reached n st w as"
  have no: "flagged t f = {}" using f(2) by (simp add: flagged_def)
  have "unat ` ?R \<subseteq> {..<sz}" using R by (auto simp: heap_readable_def)
  moreover have "inj_on unat ?R" by (rule inj_onI) (rule word_unat_eq_iff [THEN iffD2])
  ultimately have "card (?R - flagged t f) < Suc sz"
    using card_mono [of "{..<sz}" "unat ` ?R"] by (simp add: no card_image less_Suc_eq_le)
  moreover have "targets st w as \<subseteq> ?R" by (auto simp: reached_def)
  ultimately obtain f' where f': "cesk_frame_store_dfs (Suc sz) n st w t as f = Some f'" "search_done n st w t as f f'"
    using cesk_frame_store_dfs_done [OF searchable_reached [OF R] _ f(1)] by blast
  note d = search_doneD [OF f'(2), unfolded no Diff_empty]
  have "flagged t f' = ?R" using d(4) reached_least [OF d(3) d(5)] by (rule equalityI)
  moreover have "\<forall>i < sz. f' i \<noteq> None" using d(1) f(1) by (metis option.distinct(1))
  ultimately show ?thesis using f'(1) by blast
qed

text \<open>What the collector does after the search.\<close>

definition gc_sweep :: "('m, 'd) frame_env \<Rightarrow> (nat \<rightharpoonup> u32) \<Rightarrow> gc_flags \<Rightarrow> 'd frame_state \<Rightarrow> (int \<times> 'd frame_state) option" where
  "gc_sweep env f g fs = do {
     (u, fs) \<leftarrow> on_store (sweep (fe_class_addr env) (fe_fuel env) (gf_true g) f
                     [0..<nblocks (fr_store (fs_frame fs)) * CESK_STORE_BLOCK_NSLOTS]) fs;
     (rc, fs) \<leftarrow> on_store (\<lambda>st w. do {
        (rc, st', w) \<leftarrow> cesk_store_compact_store (Some st) w; st' \<leftarrow> st'; Some (rc, st', w) }) fs;
     Some (0, fs\<lparr>fm_gc := g\<lparr>gf_fb := Some f, gf_true := gf_true g + 1\<rparr>\<rparr>) }"

lemma cesk_frame_gc_marks:
  fixes fs :: "'d frame_state" and env :: "('m, 'd) frame_env"
  defines "st \<equiv> fr_store (fs_frame fs)" and "w \<equiv> fm_world fs"
  assumes g: "gc_prepare (nblocks st * CESK_STORE_BLOCK_NSLOTS) (fm_gc fs) = g" "flags_ready (nblocks st * CESK_STORE_BLOCK_NSLOTS) g"
    and rs: "gc_roots fs = Some rs"
    and R: "heap_readable (fe_fuel env) st w (unat (gf_size g)) (reached (fe_fuel env) st w rs)"
  shows "\<exists>f. cesk_frame_gc env fs = gc_sweep env f g fs \<and> flagged (gf_true g) f = reached (fe_fuel env) st w rs \<and>
    (\<forall>i < nblocks st * CESK_STORE_BLOCK_NSLOTS. f i \<noteq> None)"
proof -
  let ?n = "nblocks st * CESK_STORE_BLOCK_NSLOTS" and ?sz = "unat (gf_size g)"
  let ?dfs = "cesk_frame_store_dfs (Suc ?sz) (fe_fuel env) st w (gf_true g)"
  obtain f0 where f0: "?n \<le> ?sz" "gf_fb g = Some f0" "\<forall>i < ?sz. f0 i \<noteq> None" "\<forall>i. f0 i \<noteq> Some (gf_true g)"
    using g(2) unfolding flags_ready_def by blast
  obtain as fields bs where a: "roots_of_sets (fr_regs (fs_frame fs)) (mem_sets fs) = Some as"
      "table_fields (fr_statics (fs_frame fs)) (statics_of fs) = Some fields"
      "roots_of_sets (map (Some \<circ> snd) fields) (mem_sets fs) = Some bs" "rs = as @ bs"
    using rs unfolding gc_roots_def by (auto split: Option.bind_splits)
  obtain f where f: "?dfs rs f0 = Some f" "flagged (gf_true g) f = reached (fe_fuel env) st w rs" "\<forall>i < ?sz. f i \<noteq> None"
    using search_marks [OF R f0(3,4)] by blast
  obtain f1 where "?dfs as f0 = Some f1" "?dfs bs f1 = Some f"
    using f(1) unfolding a(4) cesk_frame_store_dfs_append by (auto split: Option.bind_splits)
  then have "cesk_frame_gc env fs = gc_sweep env f g fs"
    using g(1) f0(2) a(1-3) unfolding st_def w_def cesk_frame_gc_def gc_sweep_def Let_def by simp
  then show ?thesis using f(2,3) f0(1) by (intro exI [of _ f]) auto
qed

text \<open>
  C3: The mark phase of the collector of a frame is exact. When the array of flags covers the slots of the store,
  none of its flags has the current mark, and the reachable slots can be read, the depth first search ends; the
  collector then sweeps with flags that are set for just the addresses that can be reached from the registers
  and the static fields along the fields of objects, the elements of sets and the addresses that built-in
  classes report, relocated addresses being translated.
\<close>

theorem cesk_frame_gc_marks_reachable:
  fixes fs :: "'d frame_state" and env :: "('m, 'd) frame_env"
  assumes "gc_prepare (nblocks (fr_store (fs_frame fs)) * CESK_STORE_BLOCK_NSLOTS) (fm_gc fs) = g"
    and "flags_ready (nblocks (fr_store (fs_frame fs)) * CESK_STORE_BLOCK_NSLOTS) g"
    and "gc_roots fs = Some rs"
    and "heap_readable (fe_fuel env) (fr_store (fs_frame fs)) (fm_world fs) (unat (gf_size g))
           (reached (fe_fuel env) (fr_store (fs_frame fs)) (fm_world fs) rs)"
  shows "\<exists>f. cesk_frame_gc env fs = gc_sweep env f g fs \<and>
    (\<forall>a. f (unat a) = Some (gf_true g) \<longleftrightarrow> a \<in> reached (fe_fuel env) (fr_store (fs_frame fs)) (fm_world fs) rs)"
proof -
  obtain f where f: "cesk_frame_gc env fs = gc_sweep env f g fs"
    "flagged (gf_true g) f = reached (fe_fuel env) (fr_store (fs_frame fs)) (fm_world fs) rs"
    using cesk_frame_gc_marks [OF assms] by blast
  have "f (unat a) = Some (gf_true g) \<longleftrightarrow> a \<in> reached (fe_fuel env) (fr_store (fs_frame fs)) (fm_world fs) rs" for a
    unfolding f(2) [symmetric] by (simp add: flagged_def)
  then show ?thesis using f(1) by blast
qed

text \<open>
  A frame with one register, whose set has the address of the first of the objects in the store. The first
  object refers to the second, and the third refers to the first.
\<close>

definition gc_demo_sets :: set_state where
  "gc_demo_sets = set_boot\<lparr>nodes := [8 \<mapsto> \<lparr>node_idx = 7, node_addr = INFO_ADDR, node_body = Info_Entry
       \<lparr>info_size = 1, info_refcnt = 1, info_reloc = 0, info_hashcode = 0, info_tags = None, info_first = Some 9\<rparr>\<rparr>,
     9 \<mapsto> \<lparr>node_idx = 7, node_addr = 0, node_body = Data_Entry None None\<rparr>], set_hash := \<lambda>i. [8, 9], next_node := 10\<rparr>"

definition gc_demo_block :: "nat \<Rightarrow> store_block" where
  "gc_demo_block k = block_zero\<lparr>sb_refcnt := 1, sb_num_ent := of_nat k,
     sb_slots := map (\<lambda>i. slot_zero\<lparr>sl_value := if i < k then Some i else None\<rparr>) [0..<CESK_STORE_BLOCK_NSLOTS]\<rparr>"

definition gc_demo_world :: "nat \<Rightarrow> unit world" where
  "gc_demo_world k = empty_world\<lparr>w_heap := (demo_heap [[1], [], [0]])\<lparr>vh_sets := gc_demo_sets\<rparr>, w_blocks := [0 \<mapsto> gc_demo_block k]\<rparr>"

definition gc_demo_env :: "(unit, unit) frame_env" where
  "gc_demo_env = \<lparr>fe_class_addr = \<lambda>c. 0, fe_fuel = 1, fe_junk = 0, fe_atoms = \<lambda>c. 0, fe_dict = chain_empty, fe_nametab = chain_empty,
     fe_mem0 = \<lambda>i. 0, fe_raw = \<lambda>w. (), fe_get = \<lambda>c. None, fe_put = \<lambda>c. None\<rparr>"

definition gc_demo_frame :: "nat \<Rightarrow> unit frame_state" where
  "gc_demo_frame k = \<lparr>fm_world = gc_demo_world k,
     fm_statics = \<lparr>ss_nodes = Map.empty, ss_next = 0, ss_sets = gc_demo_sets, ss_default = None, ss_count = 0\<rparr>,
     fm_relocs = \<lparr>rs_hash = chain_empty, rs_tables = Map.empty, rs_next = 0\<rparr>, fm_gc = \<lparr>gf_fb = None, gf_size = 0, gf_true = 1\<rparr>,
     fs_frame = \<lparr>fr_store = one_block, fr_statics = \<lparr>tb_hashcode = 0, tb_root = None\<rparr>, fr_regs = [Some 7]\<rparr>,
     fs_fwd = None, fs_inv = None\<rparr>"

definition gc_demo_flags :: gc_flags where
  "gc_demo_flags = \<lparr>gf_fb = Some (fresh_flags 1024), gf_size = 1024, gf_true = 1\<rparr>"

lemma gc_demo_nslots: "nblocks one_block * CESK_STORE_BLOCK_NSLOTS = 682"
  by (simp add: one_block_def CESK_STORE_BLOCK_NSLOTS_def CESK_STORE_BLOCK_SIZE_def)

lemma gc_demo_null: "INFO_ADDR \<noteq> 0" "0 \<noteq> INFO_ADDR"
  by (simp_all add: CESK_STORE_ADDR_NULL_def)

lemma gc_demo_object:
  assumes "unat a < 682"
  shows "\<not> CESK_STORE_ADDR_IS_RELOC a" "\<not> CESK_STORE_ADDR_IS_CONST a" "a \<noteq> CESK_STORE_ADDR_NULL"
proof -
  have "a < CESK_STORE_ADDR_RELOC_PREFIX" using assms by (simp add: CESK_STORE_ADDR_RELOC_PREFIX_def word_less_nat_alt)
  then show "\<not> CESK_STORE_ADDR_IS_RELOC a" "\<not> CESK_STORE_ADDR_IS_CONST a"
    by (auto simp: is_reloc_iff_range is_const_iff_ge addr_const_defs not_le intro: less_trans)
  show "a \<noteq> CESK_STORE_ADDR_NULL" using assms by (auto simp: CESK_STORE_ADDR_NULL_def)
qed

lemma gc_demo_read:
  assumes "unat a < 682"
  shows "cesk_store_get_ro one_block a (gc_demo_world k) = Some (if unat a < k then Some (unat a) else None)"
  using assms gc_demo_object [OF assms]
  by (simp add: cesk_store_get_ro_def cesk_store_make_object_address_def one_block_def cesk_store_empty_store_def
      slot_at_def gc_demo_world_def gc_demo_block_def block_zero_def CESK_STORE_BLOCK_NSLOTS_def CESK_STORE_BLOCK_SIZE_def Let_def slot_zero_def)

lemma gc_demo_refs:
  "refs_of_value 1 0 (w_heap (gc_demo_world k)) = Some [1]"
  "refs_of_value 1 1 (w_heap (gc_demo_world k)) = Some []"
  by (simp_all add: refs_of_value_def gc_demo_world_def demo_heap_def demo_object_def)

lemma gc_demo_targets: "targets one_block (gc_demo_world k) [0] = {0}" "targets one_block (gc_demo_world k) [1] = {1}"
  using gc_demo_object [of 0] gc_demo_object [of 1] by (simp_all add: dfs_target_def)

lemma gc_demo_reached:
  assumes "1 < k"
  shows "reached 1 one_block (gc_demo_world k) [0] = {0, 1}"
proof
  let ?E = "store_edges 1 one_block (gc_demo_world k)" and ?R = "reached 1 one_block (gc_demo_world k) [0]"
  have e0: "(0, b) \<in> ?E \<longleftrightarrow> b = 1" for b
    using store_edges_targets [of one_block 0 "gc_demo_world k" 0 1 "[1]"] gc_demo_read [of 0] gc_demo_refs(1) gc_demo_targets(2) assms by simp
  have e1: "(1, b) \<notin> ?E" for b
    using store_edges_targets [of one_block 1 "gc_demo_world k" 1 1 "[]"] gc_demo_read [of 1] gc_demo_refs(2) assms by simp
  show "?R \<subseteq> {0, 1}"
    by (rule reached_least) (auto simp: gc_demo_targets e0 [simplified] e1 [simplified] simp del: targets_simps)
  have zero: "0 \<in> ?R" unfolding reached_def gc_demo_targets by simp
  have "1 \<in> ?R" using e0 [of 1] by (intro subsetD [OF reached_closed ImageI [OF _ zero]]) simp
  with zero show "{0, 1} \<subseteq> ?R" by simp
qed

lemma gc_demo_roots: "gc_roots (gc_demo_frame k) = Some [0]"
  by (simp add: gc_roots_def gc_demo_frame_def gc_demo_world_def gc_demo_sets_def refs_of_set_def cesk_set_iter_def cesk_set_hash_find_def
      node_matches_def get_info_def cesk_set_iter_from_info_node_def cesk_set_iter_next_def data_next_def table_fields_def statics_of_def
      cesk_static_table_iter_next_def cesk_static_tree_next_def way_down.simps way_up.simps leaf_at_def gc_demo_null eval_nat_numeral)

lemma gc_demo_ready:
  "gc_prepare (nblocks (fr_store (fs_frame (gc_demo_frame k))) * CESK_STORE_BLOCK_NSLOTS) (fm_gc (gc_demo_frame k)) = gc_demo_flags"
  "flags_ready (nblocks (fr_store (fs_frame (gc_demo_frame k))) * CESK_STORE_BLOCK_NSLOTS) gc_demo_flags"
  by (simp_all add: gc_demo_frame_def gc_demo_nslots gc_prepare_def gc_demo_flags_def flags_ready_def fresh_flags_def Let_def)

lemma gc_demo_readable:
  assumes "1 < k"
  shows "heap_readable (fe_fuel gc_demo_env) (fr_store (fs_frame (gc_demo_frame k))) (fm_world (gc_demo_frame k)) (unat (gf_size gc_demo_flags))
    (reached (fe_fuel gc_demo_env) (fr_store (fs_frame (gc_demo_frame k))) (fm_world (gc_demo_frame k)) [0])"
  using gc_demo_reached [OF assms] gc_demo_read [of 0 k] gc_demo_read [of 1 k] gc_demo_refs [of k] assms
  by (simp add: heap_readable_def gc_demo_env_def gc_demo_frame_def gc_demo_flags_def)

theorem cesk_frame_gc_marks_reachable_witness:
  "\<exists>f. cesk_frame_gc gc_demo_env (gc_demo_frame 3) = gc_sweep gc_demo_env f gc_demo_flags (gc_demo_frame 3) \<and>
     f 0 = Some 1 \<and> f 1 = Some 1 \<and> f 2 \<noteq> Some 1"
proof -
  have k: "1 < (3 :: nat)" by simp
  obtain f where f: "cesk_frame_gc gc_demo_env (gc_demo_frame 3) = gc_sweep gc_demo_env f gc_demo_flags (gc_demo_frame 3)"
    "\<forall>a. f (unat a) = Some (gf_true gc_demo_flags) \<longleftrightarrow>
       a \<in> reached (fe_fuel gc_demo_env) (fr_store (fs_frame (gc_demo_frame 3))) (fm_world (gc_demo_frame 3)) [0]"
    using cesk_frame_gc_marks_reachable [OF gc_demo_ready [of 3] gc_demo_roots gc_demo_readable [OF k]] by blast
  have "f (unat a) = Some 1 \<longleftrightarrow> a \<in> {0, 1}" for a :: u32
    using spec [OF f(2), of a] gc_demo_reached [of 3] by (simp add: gc_demo_env_def gc_demo_frame_def gc_demo_flags_def)
  from this [of 0] this [of 1] this [of 2] have "f 0 = Some 1" "f 1 = Some 1" "f 2 \<noteq> Some 1" by simp_all
  then show ?thesis using f(1) by blast
qed

lemma sweep_marked:
  "\<forall>a \<in> set as. f a \<noteq> None \<and> (f a = Some t \<or> cesk_store_get_ro st (of_nat a) w = Some None) \<Longrightarrow>
     sweep class_addr n t f as st w = Some ((), st, w)"
  by (induction as) auto

subsection \<open>Dropping the empty blocks\<close>

text \<open>The blocks of a store are there, all different, of the right size, and count the values in their slots.\<close>

definition blocks_counted :: "cesk_store \<Rightarrow> 'd world \<Rightarrow> bool" where
  "blocks_counted st w \<longleftrightarrow> distinct (st_blocks st) \<and>
     (\<forall>b \<in> set (st_blocks st). \<exists>blk. w_blocks w b = Some blk \<and> length (sb_slots blk) = CESK_STORE_BLOCK_NSLOTS \<and>
        unat (sb_num_ent blk) = length (filter (\<lambda>sl. sl_value sl \<noteq> None) (sb_slots blk)))"

lemma blocks_counted_there:
  "blocks_counted st w \<Longrightarrow> distinct (st_blocks st)" "blocks_counted st w \<Longrightarrow> \<forall>b \<in> set (st_blocks st). w_blocks w b \<noteq> None"
  unfolding blocks_counted_def by blast fastforce

text \<open>A store gives up its reference to a block, which is freed with the last one.\<close>

definition block_dropped :: "store_block \<Rightarrow> store_block option" where
  "block_dropped blk = (if sb_refcnt blk = 1 then None else Some (blk\<lparr>sb_refcnt := sb_refcnt blk - 1\<rparr>))"

text \<open>What the compaction of a store leaves: its first \<open>k\<close> blocks.\<close>

definition compacted_to :: "nat \<Rightarrow> cesk_store \<Rightarrow> 'd world \<Rightarrow> 'd world \<Rightarrow> bool" where
  "compacted_to k st w w' \<longleftrightarrow> k \<le> nblocks st \<and> w_heap w' = w_heap w \<and> w_tabs w' = w_tabs w \<and> w_next_block w' = w_next_block w \<and>
     (\<forall>b. b \<notin> set (drop k (st_blocks st)) \<longrightarrow> w_blocks w' b = w_blocks w b) \<and>
     (\<forall>b \<in> set (drop k (st_blocks st)). \<exists>blk. w_blocks w b = Some blk \<and> sb_num_ent blk = 0 \<and> w_blocks w' b = block_dropped blk) \<and>
     (0 < k \<longrightarrow> (\<exists>blk. w_blocks w (st_blocks st ! (k - 1)) = Some blk \<and> sb_num_ent blk \<noteq> 0))"

lemma compacted_to_snoc:
  assumes k: "compacted_to k (st\<lparr>st_blocks := bs\<rparr>) (w\<lparr>w_blocks := (w_blocks w)(b := block_dropped blk)\<rparr>) w'"
    and b: "st_blocks st = bs @ [b]" "b \<notin> set bs" "w_blocks w b = Some blk" "sb_num_ent blk = 0"
  shows "compacted_to k st w w'"
proof -
  have le: "k \<le> length bs" using k by (simp add: compacted_to_def)
  then have dr: "drop k (st_blocks st) = drop k bs @ [b]" by (simp add: b(1))
  have b': "b \<notin> set (drop k bs)" using b(2) by (auto dest: in_set_dropD)
  have other: "w_blocks w' c = (if c = b then block_dropped blk else w_blocks w c)" if "c \<notin> set (drop k bs)" for c
    using k that by (simp add: compacted_to_def)
  have dropped: "\<exists>x. w_blocks w c = Some x \<and> sb_num_ent x = 0 \<and> w_blocks w' c = block_dropped x" if "c \<in> set (drop k bs)" for c
  proof -
    have "c \<noteq> b" using that b' by blast
    then show ?thesis using k that by (auto simp: compacted_to_def)
  qed
  have kept: "\<exists>x. w_blocks w (st_blocks st ! (k - 1)) = Some x \<and> sb_num_ent x \<noteq> 0" if "0 < k"
  proof -
    have "k - 1 < length bs" using that le by simp
    then have "bs ! (k - 1) \<noteq> b" "st_blocks st ! (k - 1) = bs ! (k - 1)" using b(1,2) by (auto simp: nth_append)
    then show ?thesis using k that by (auto simp: compacted_to_def)
  qed
  show ?thesis
    using le k dropped kept other [OF b'] b(3,4) other unfolding compacted_to_def dr
    by (intro conjI allI ballI impI) (auto simp: b(1))
qed

lemma compact_loop_result:
  assumes "distinct (st_blocks st)" "\<forall>b \<in> set (st_blocks st). w_blocks w b \<noteq> None"
  shows "\<exists>k w'. compact_loop st w = Some (st\<lparr>st_blocks := take k (st_blocks st)\<rparr>, w') \<and> compacted_to k st w w'"
  using assms
proof (induction st w rule: compact_loop.induct)
  case (1 st w)
  show ?case
  proof (cases "st_blocks st" rule: rev_cases)
    case Nil
    then have "compact_loop st w = Some (st, w)" by (subst compact_loop.simps) simp
    then show ?thesis using Nil by (intro exI [of _ 0] exI [of _ w]) (simp add: compacted_to_def)
  next
    case (snoc bs b)
    obtain blk where blk: "w_blocks w b = Some blk" using "1.prems"(2) snoc by auto
    show ?thesis
    proof (cases "sb_num_ent blk = 0")
      case False
      then have "compact_loop st w = Some (st, w)" using snoc blk by (subst compact_loop.simps) simp
      then show ?thesis using False snoc blk
        by (intro exI [of _ "nblocks st"] exI [of _ w]) (simp add: compacted_to_def nth_append)
    next
      case True
      define w1 where "w1 = w\<lparr>w_blocks := (w_blocks w)(b := block_dropped blk)\<rparr>"
      have w1: "(if sb_refcnt blk = 1 then w\<lparr>w_blocks := (w_blocks w)(b := None)\<rparr>
           else w\<lparr>w_blocks := (w_blocks w)(b \<mapsto> blk\<lparr>sb_refcnt := sb_refcnt blk - 1\<rparr>)\<rparr>) = w1"
        by (simp add: w1_def block_dropped_def)
      have fresh: "b \<notin> set bs" "distinct bs" using "1.prems"(1) snoc by auto
      have step: "compact_loop st w = compact_loop (st\<lparr>st_blocks := bs\<rparr>) w1"
        using snoc blk True w1 by (subst compact_loop.simps) simp
      have IH: "\<exists>k w'. compact_loop (st\<lparr>st_blocks := bs\<rparr>) w1 = Some (st\<lparr>st_blocks := take k bs\<rparr>, w') \<and>
          compacted_to k (st\<lparr>st_blocks := bs\<rparr>) w1 w'"
      proof -
        let ?W = "if sb_refcnt blk - 1 = 0 then w\<lparr>w_blocks := (w_blocks w)(b := None)\<rparr>
           else w\<lparr>w_blocks := (w_blocks w)(b \<mapsto> blk\<lparr>sb_refcnt := sb_refcnt blk - 1\<rparr>)\<rparr>"
        let ?st = "st\<lparr>st_blocks := butlast (st_blocks st)\<rparr>"
        have W: "?W = w1" using w1 by simp
        have "\<exists>k w'. compact_loop ?st ?W = Some (?st\<lparr>st_blocks := take k (st_blocks ?st)\<rparr>, w') \<and> compacted_to k ?st ?W w'"
        proof (rule "1.IH")
          show "st_blocks st \<noteq> []" "b = last (st_blocks st)" "w_blocks w b = Some blk" "\<not> sb_num_ent blk \<noteq> 0"
            "distinct (st_blocks ?st)" using snoc blk True fresh(2) by simp_all
          show "\<forall>c \<in> set (st_blocks ?st). w_blocks ?W c \<noteq> None"
            unfolding W using "1.prems"(2) snoc fresh(1) by (auto simp: w1_def)
        qed
        then show ?thesis unfolding W using snoc by simp
      qed
      then obtain k w' where k: "compact_loop (st\<lparr>st_blocks := bs\<rparr>) w1 = Some (st\<lparr>st_blocks := take k bs\<rparr>, w')"
        "compacted_to k (st\<lparr>st_blocks := bs\<rparr>) w1 w'" by blast
      have le: "k \<le> length bs" using k(2) by (simp add: compacted_to_def)
      have "compact_loop st w = Some (st\<lparr>st_blocks := take k (st_blocks st)\<rparr>, w')" using step k(1) le snoc by simp
      moreover have "compacted_to k st w w'" by (rule compacted_to_snoc [OF k(2) [unfolded w1_def] snoc fresh(1) blk True])
      ultimately show ?thesis by blast
    qed
  qed
qed

text \<open>No value is lost: the blocks that are dropped hold none.\<close>

lemma compacted_get_ro:
  assumes counted: "blocks_counted st w" and k: "compacted_to k st w w'"
  shows "cesk_store_get_ro (st\<lparr>st_blocks := take k (st_blocks st)\<rparr>) a w' = cesk_store_get_ro st a w"
proof -
  let ?st = "st\<lparr>st_blocks := take k (st_blocks st)\<rparr>" and ?a = "cesk_store_make_object_address st a w"
  have addr: "cesk_store_make_object_address ?st a w' = ?a"
    using k by (simp add: cesk_store_make_object_address_def store_tab_def compacted_to_def)
  have len: "nblocks ?st = k" "k \<le> nblocks st" using k by (simp_all add: compacted_to_def)
  consider "addr_block ?a < k" | "k \<le> addr_block ?a" "addr_block ?a < nblocks st" | "nblocks st \<le> addr_block ?a" by linarith
  then show ?thesis
  proof cases
    case 1
    have "st_blocks st ! addr_block ?a \<notin> set (drop k (st_blocks st))"
    proof -
      have "distinct (take k (st_blocks st) @ drop k (st_blocks st))" using counted by (simp add: blocks_counted_def)
      moreover have "st_blocks st ! addr_block ?a \<in> set (take k (st_blocks st))"
        using 1 len by (auto simp: in_set_conv_nth intro!: exI [of _ "addr_block ?a"])
      ultimately show ?thesis unfolding distinct_append by blast
    qed
    then have "w_blocks w' (st_blocks st ! addr_block ?a) = w_blocks w (st_blocks st ! addr_block ?a)"
      using k by (simp add: compacted_to_def)
    then show ?thesis using 1 len by (simp add: cesk_store_get_ro_def addr slot_at_def Let_def)
  next
    case 2
    let ?b = "st_blocks st ! addr_block ?a"
    have "drop k (st_blocks st) ! (addr_block ?a - k) = ?b" "addr_block ?a - k < length (drop k (st_blocks st))" using 2 by simp_all
    then have b: "?b \<in> set (drop k (st_blocks st))" "?b \<in> set (st_blocks st)" using 2(2) nth_mem by metis+
    obtain blk where blk: "w_blocks w ?b = Some blk" "sb_num_ent blk = 0" using k b(1) by (auto simp: compacted_to_def)
    then have "length (sb_slots blk) = CESK_STORE_BLOCK_NSLOTS" "\<forall>sl \<in> set (sb_slots blk). sl_value sl = None"
      using counted b(2) by (auto simp: blocks_counted_def filter_empty_conv)
    then have "addr_ofs ?a < length (sb_slots blk)" "sl_value (sb_slots blk ! addr_ofs ?a) = None"
      by (simp_all add: CESK_STORE_BLOCK_NSLOTS_def CESK_STORE_BLOCK_SIZE_def)
    then show ?thesis using 2 len blk by (simp add: cesk_store_get_ro_def addr slot_at_def Let_def)
  next
    case 3
    then show ?thesis using len by (simp add: cesk_store_get_ro_def addr Let_def)
  qed
qed

text \<open>
  C17: Collecting a frame without garbage changes no value. When every slot with a value can be reached from the
  registers and the static fields and the blocks of the store count their values, the collector keeps the first
  blocks of the store up to the last one with a value: every block that it drops is empty and loses the reference of
  the store (it is freed with the last one), all the other blocks and the heap are as they were, and every
  address reads what it has read before.
\<close>

theorem cesk_frame_gc_without_garbage:
  fixes fs :: "'d frame_state" and env :: "('m, 'd) frame_env"
  assumes g: "gc_prepare (nblocks (fr_store (fs_frame fs)) * CESK_STORE_BLOCK_NSLOTS) (fm_gc fs) = g"
      "flags_ready (nblocks (fr_store (fs_frame fs)) * CESK_STORE_BLOCK_NSLOTS) g" "gc_roots fs = Some rs"
      "heap_readable (fe_fuel env) (fr_store (fs_frame fs)) (fm_world fs) (unat (gf_size g))
           (reached (fe_fuel env) (fr_store (fs_frame fs)) (fm_world fs) rs)"
    and used: "\<forall>a. unat a < nblocks (fr_store (fs_frame fs)) * CESK_STORE_BLOCK_NSLOTS \<longrightarrow>
      a \<in> reached (fe_fuel env) (fr_store (fs_frame fs)) (fm_world fs) rs \<or>
      cesk_store_get_ro (fr_store (fs_frame fs)) a (fm_world fs) = Some None"
    and counted: "blocks_counted (fr_store (fs_frame fs)) (fm_world fs)"
  shows "\<exists>k st' w' g'. cesk_frame_gc env fs = Some (0, fs\<lparr>fm_world := w', fs_frame := (fs_frame fs)\<lparr>fr_store := st'\<rparr>, fm_gc := g'\<rparr>) \<and>
    gf_true g' = gf_true g + 1 \<and>
    st' = (fr_store (fs_frame fs))\<lparr>st_blocks := take k (st_blocks (fr_store (fs_frame fs)))\<rparr> \<and>
    compacted_to k (fr_store (fs_frame fs)) (fm_world fs) w' \<and>
    (\<forall>a. cesk_store_get_ro st' a w' = cesk_store_get_ro (fr_store (fs_frame fs)) a (fm_world fs))"
proof -
  let ?st = "fr_store (fs_frame fs)"
  obtain k w' where k: "compact_loop ?st (fm_world fs) = Some (?st\<lparr>st_blocks := take k (st_blocks ?st)\<rparr>, w')" "compacted_to k ?st (fm_world fs) w'"
    using compact_loop_result [of ?st "fm_world fs"] blocks_counted_there [OF counted] by blast
  let ?n = "nblocks (fr_store (fs_frame fs)) * CESK_STORE_BLOCK_NSLOTS"
  let ?R = "reached (fe_fuel env) (fr_store (fs_frame fs)) (fm_world fs) rs"
  obtain f where f: "cesk_frame_gc env fs = gc_sweep env f g fs" "flagged (gf_true g) f = ?R" "\<forall>i < ?n. f i \<noteq> None"
    using cesk_frame_gc_marks [OF g] by blast
  have "f a \<noteq> None \<and> (f a = Some (gf_true g) \<or> cesk_store_get_ro (fr_store (fs_frame fs)) (of_nat a) (fm_world fs) = Some None)"
    if "a < ?n" for a
  proof -
    have "a < 2 ^ 32" using that g(2) unsigned_less [of "gf_size g", where 'a = nat] by (simp add: flags_ready_def)
    then have u: "unat (of_nat a :: u32) = a" by (simp add: unat_of_nat take_bit_eq_mod)
    show ?thesis
    proof (cases "(of_nat a :: u32) \<in> ?R")
      case True
      then have "f (unat (of_nat a :: u32)) = Some (gf_true g)" unfolding f(2) [symmetric] by (simp add: flagged_def)
      then show ?thesis unfolding u by simp
    next
      case False
      then have "cesk_store_get_ro (fr_store (fs_frame fs)) (of_nat a) (fm_world fs) = Some None"
        using spec [OF used, of "of_nat a"] u that by simp
      then show ?thesis using that f(3) by blast
    qed
  qed
  then have "sweep (fe_class_addr env) (fe_fuel env) (gf_true g) f [0..<?n] (fr_store (fs_frame fs)) (fm_world fs) =
      Some ((), fr_store (fs_frame fs), fm_world fs)" by (intro sweep_marked) simp
  then have "cesk_frame_gc env fs = Some (0, fs\<lparr>fm_world := w', fs_frame := (fs_frame fs)\<lparr>fr_store := ?st\<lparr>st_blocks := take k (st_blocks ?st)\<rparr>\<rparr>,
      fm_gc := g\<lparr>gf_fb := Some f, gf_true := gf_true g + 1\<rparr>\<rparr>)"
    using f(1) k(1) by (simp add: gc_sweep_def on_store_def cesk_store_compact_store_def)
  moreover have "\<forall>a. cesk_store_get_ro (?st\<lparr>st_blocks := take k (st_blocks ?st)\<rparr>) a w' = cesk_store_get_ro ?st a (fm_world fs)"
    using compacted_get_ro [OF counted k(2)] by blast
  ultimately show ?thesis using k(2)
    by (intro exI [of _ k] exI [of _ "?st\<lparr>st_blocks := take k (st_blocks ?st)\<rparr>"] exI [of _ w']
        exI [of _ "g\<lparr>gf_fb := Some f, gf_true := gf_true g + 1\<rparr>"]) simp
qed

theorem cesk_frame_gc_without_garbage_witness:
  "\<exists>k st' w' g'. cesk_frame_gc gc_demo_env (gc_demo_frame 2) = Some (0, (gc_demo_frame 2)\<lparr>fm_world := w',
       fs_frame := (fs_frame (gc_demo_frame 2))\<lparr>fr_store := st'\<rparr>, fm_gc := g'\<rparr>) \<and> gf_true g' = 2 \<and>
     st_blocks st' = take k [0] \<and> cesk_store_get_ro st' 1 w' = Some (Some 1)"
proof -
  let ?fs = "gc_demo_frame 2"
  have k: "1 < (2 :: nat)" by simp
  have used: "\<forall>a. unat a < nblocks (fr_store (fs_frame ?fs)) * CESK_STORE_BLOCK_NSLOTS \<longrightarrow>
      a \<in> reached (fe_fuel gc_demo_env) (fr_store (fs_frame ?fs)) (fm_world ?fs) [0] \<or>
      cesk_store_get_ro (fr_store (fs_frame ?fs)) a (fm_world ?fs) = Some None"
  proof (intro allI impI)
    fix a :: u32
    assume "unat a < nblocks (fr_store (fs_frame ?fs)) * CESK_STORE_BLOCK_NSLOTS"
    then have a: "unat a < 682" by (simp add: gc_demo_frame_def gc_demo_nslots)
    have "a = 0 \<or> a = 1 \<or> \<not> unat a < 2"
      using word_unat_eq_iff [of a 0] word_unat_eq_iff [of a 1] by auto
    then show "a \<in> reached (fe_fuel gc_demo_env) (fr_store (fs_frame ?fs)) (fm_world ?fs) [0] \<or>
        cesk_store_get_ro (fr_store (fs_frame ?fs)) a (fm_world ?fs) = Some None"
      using gc_demo_read [OF a, of 2] gc_demo_reached [of 2] by (auto simp: gc_demo_env_def gc_demo_frame_def)
  qed
  have "length (filter (\<lambda>i. i < 2) [0..<n]) = 2" if "2 \<le> n" for n :: nat
    using that by (induction n rule: nat_induct_at_least) (simp_all add: numeral_2_eq_2)
  moreover have "2 \<le> CESK_STORE_BLOCK_NSLOTS" by (simp add: CESK_STORE_BLOCK_NSLOTS_def CESK_STORE_BLOCK_SIZE_def)
  moreover have "(\<lambda>sl. sl_value sl \<noteq> None) \<circ> (\<lambda>i. slot_zero\<lparr>sl_value := if i < 2 then Some i else None\<rparr>) = (\<lambda>i. i < 2)"
    by (simp add: fun_eq_iff)
  ultimately have "length (filter (\<lambda>sl. sl_value sl \<noteq> None) (sb_slots (gc_demo_block 2))) = 2"
    by (simp only: gc_demo_block_def filter_map length_map) simp
  then have c: "blocks_counted (fr_store (fs_frame ?fs)) (fm_world ?fs)"
    by (simp add: blocks_counted_def gc_demo_frame_def one_block_def gc_demo_world_def) (simp add: gc_demo_block_def)
  have "fr_store (fs_frame ?fs) = one_block" "fm_world ?fs = gc_demo_world 2" "st_blocks one_block = [0]"
    by (simp_all add: gc_demo_frame_def one_block_def)
  moreover have "cesk_store_get_ro one_block 1 (gc_demo_world 2) = Some (Some 1)" using gc_demo_read [of 1 2] by simp
  ultimately show ?thesis
    using cesk_frame_gc_without_garbage [OF gc_demo_ready [of 2] gc_demo_roots gc_demo_readable [OF k] used c]
    by (fastforce simp: gc_demo_flags_def)
qed

end
