(* ===== verification/Spec2Isabelle.thy ===== *)
theory Spec2Isabelle
  imports Cesk_Arithmetic Cesk_Set Alloctab Bci_Nametab Dalvik_Label Sexp Vector_Data Dalvik_Tokens Dalvik_Type
    Dalvik_Memberdict Dalvik_Exception Dalvik_Block Dalvik_Loader Cesk_Store_Cow Cesk_Reloc
    Cesk_Static_Tables Cesk_Diff_Ops Cesk_Frame_Gc
begin

text \<open>
  ADAM is a static analyser for Android applications, written in C. It reads Dalvik code as
  S-expressions, builds the block graph of every method and runs an abstract machine (a CESK machine)
  over the graphs. Values of the abstract machine are sets of abstract addresses; every address of a
  set carries a set of tags, and the analysis asks which tags can flow where. This library models the
  parts below and proves what makes them correct. Paths are relative to \<^verbatim>\<open>src/\<close>.

  \<^bold>\<open>Conventions.\<close> A C structure is a record, an enumeration or a tagged union a datatype. Global state
  is a record that operations take and return. Machine integers are words (\<open>u32\<close>, \<open>u64\<close>) where they
  wrap, and numbers where they are indices or counters that do not. Pooled strings are the numbers of
  their cells, so that comparing pointers compares numbers. An error return is a value: \<open>-1\<close>, an
  \<^const>\<open>Inl\<close> or a \<^const>\<open>None\<close>, as the text of each theory says; reading or writing outside of an array
  is a \<^const>\<open>None\<close> of its own. Exhaustion of memory is not modelled, and neither is the logging.

  \<^bold>\<open>Shared material.\<close> \<^verbatim>\<open>Adam_Prelude\<close> has the hash tables with chained nodes that most modules use,
  the binary search \<open>bisect\<close> with the lemmas on its bounds, lemmas on folds, lists and words, and two
  interfaces. The locale \<open>keyed_table\<close> is what a table of keyed nodes promises; it is interpreted on the
  allocation table, the name table, the label table, the member dictionary and the reverse hash of the
  relocation tables. The locale \<open>interning\<close>
  is what a function that numbers values promises; it is interpreted on the string pool and the label
  table. The locale \<open>cow_writer\<close> is what an operation on a store that shares its blocks promises to
  the other stores; it is interpreted on the operations that write. The locale \<open>constructor_contract\<close> is what a
  property of instructions needs for all constructors of the instruction reader to keep it; it is
  interpreted on the types of operands and on the members that the reader of methods owns; the locale
  \<open>switch_contract\<close> extends it for properties that look at the table of a switch. The locale \<open>class_contract\<close> is the same
  for the definitions of a class; it is interpreted on the layout of members, on the numbers of static
  fields and on the registered classes. The locale \<open>comparison\<close> is what the
  sort of a buffer needs of its comparison; it is interpreted on the order of the nodes. The locales \<open>sound_arith\<close> and \<open>resolution_join\<close> state the laws of the abstract arithmetic and of
  the merge of tag sets.

  \<^bold>\<open>The abstract machine.\<close>
  \<^item> \<^verbatim>\<open>Store_Addr\<close>: the address space of \<^verbatim>\<open>include/cesk/cesk_store.h\<close> and \<^verbatim>\<open>src/cesk/cesk_store.c\<close>:
    constant addresses, which are bit sets of the signs and truth values a number can have, relocated
    addresses and objects.
  \<^item> \<^verbatim>\<open>Cesk_Arithmetic\<close>: \<^verbatim>\<open>include/cesk/cesk_arithmetic.h\<close>, the operations on constant addresses,
    against the concrete operations on integers: which are sound, which are not, and which are exact.
  \<^item> \<^verbatim>\<open>Tag_Set\<close>: \<^verbatim>\<open>src/tag/tag_set.c\<close>: shared, reference counted, sorted arrays of tags, refined to
    finite maps from tags to stacks.
  \<^item> \<^verbatim>\<open>Cesk_Set\<close>: \<^verbatim>\<open>src/cesk/cesk_set.c\<close>: the hash table that holds the elements of all sets, with a
    counter of references per set, refined to sets of addresses with tags.
  \<^item> \<^verbatim>\<open>Alloctab\<close>: \<^verbatim>\<open>src/cesk/cesk_alloctab.c\<close>: the table that relates objects and relocated addresses.
  \<^item> \<^verbatim>\<open>Cesk_Object\<close>: \<^verbatim>\<open>src/cesk/cesk_object.c\<close> and the dispatch to built-in classes of
    \<^verbatim>\<open>src/bci/bci_class.c\<close>: the layout of objects along the inheritance path, field access, comparison,
    copies, hash codes and instance tests. A built-in class is a record of its callbacks.
  \<^item> \<^verbatim>\<open>Cesk_Value\<close>: \<^verbatim>\<open>src/cesk/cesk_value.c\<close>: counted values, which are objects or sets.
  \<^item> \<^verbatim>\<open>Cesk_Store\<close>: \<^verbatim>\<open>src/cesk/cesk_store.c\<close>: stores as tables of shared blocks of slots. \<^verbatim>\<open>Cesk_Store_Alloc\<close>
    shows what the allocator finds and returns, \<^verbatim>\<open>Cesk_Store_Cow\<close> that sharing is not observable.
  \<^item> \<^verbatim>\<open>Cesk_Reloc\<close>: \<^verbatim>\<open>src/cesk/cesk_reloc.c\<close>: the relocation tables, which give the objects that a method
    allocates their relocated addresses.
  \<^item> \<^verbatim>\<open>Cesk_Static\<close>: \<^verbatim>\<open>src/cesk/cesk_static.c\<close>: the tables of static fields, which are segment trees that
    share nodes. \<^verbatim>\<open>Cesk_Static_Cow\<close> shows what going down a shared tree and copying its nodes keeps,
    \<^verbatim>\<open>Cesk_Static_Tables\<close> has the properties of the tables.
  \<^item> \<^verbatim>\<open>Cesk_Diff\<close>, \<^verbatim>\<open>Cesk_Diff_Ops\<close>: \<^verbatim>\<open>src/cesk/cesk_diff.c\<close>: buffers of records, diffs, their collector, their
    conversion and copies in the first, composition, the test for inverses and subtraction in the second.
    \<^verbatim>\<open>Cesk_Diff_Facts\<close> shows what converting a buffer gives, \<^verbatim>\<open>Cesk_Diff_Gc\<close> what the collector keeps.
  \<^item> \<^verbatim>\<open>Cesk_Frame\<close>: \<^verbatim>\<open>src/cesk/cesk_frame.c\<close>: stack frames, their life, the frames of called methods, hash codes and
    the collector. \<^verbatim>\<open>Cesk_Frame_Gc\<close> shows that the collector marks just what can be reached.

  \<^bold>\<open>The reader.\<close>
  \<^item> \<^verbatim>\<open>Stringpool\<close>: \<^verbatim>\<open>src/stringpool.c\<close>: interning, with its accumulator.
  \<^item> \<^verbatim>\<open>Sexp\<close>: \<^verbatim>\<open>src/sexp.c\<close>: scanner, parser, pattern matcher and path functions.
  \<^item> \<^verbatim>\<open>Vector_Data\<close>: \<^verbatim>\<open>src/vector.c\<close>: growing arrays, down to the bytes.
  \<^item> \<^verbatim>\<open>Dalvik_Tokens\<close>, \<^verbatim>\<open>Dalvik_Label\<close>, \<^verbatim>\<open>Dalvik_Type\<close>, \<^verbatim>\<open>Dalvik_Exception\<close>, \<^verbatim>\<open>Dalvik_Memberdict\<close>: the files
    of the same names under \<^verbatim>\<open>src/dalvik/\<close> (\<^verbatim>\<open>Dalvik_Type\<close> has \<^verbatim>\<open>dalvik_attrs.c\<close> as well): keywords,
    labels, type descriptors and attributes, exception handlers, and the dictionary of classes,
    methods and fields.
  \<^item> \<^verbatim>\<open>Dalvik_Block\<close>: \<^verbatim>\<open>src/dalvik/dalvik_block.c\<close>: key instructions, basic blocks, their branches, linking,
    reachability and the cache of finished graphs.
  \<^item> \<^verbatim>\<open>Dalvik_Instruction\<close>: \<^verbatim>\<open>src/dalvik/dalvik_instruction.c\<close>: the pool of instructions and one constructor
    per keyword. \<^verbatim>\<open>Dalvik_Instruction_Read\<close> shows what texts are read into, \<^verbatim>\<open>Dalvik_Instruction_Type\<close> that
    the flags of an operand tell what its union holds, \<^verbatim>\<open>Dalvik_Instruction_Labels\<close> that the jump table is
    left alone.
  \<^item> \<^verbatim>\<open>Dalvik_Method\<close>: \<^verbatim>\<open>src/dalvik/dalvik_method.c\<close>: the reader of methods, which fills the pool, places the
    labels and collects the exception handlers.
  \<^item> \<^verbatim>\<open>Dalvik_Class\<close>: \<^verbatim>\<open>src/dalvik/dalvik_field.c\<close> and \<^verbatim>\<open>src/dalvik/dalvik_class.c\<close>: fields and classes, and
    their registration in the member dictionary. \<^verbatim>\<open>Dalvik_Loader\<close>: \<^verbatim>\<open>src/dalvik/dalvik_loader.c\<close>, the walk through
    the files.
  \<^item> \<^verbatim>\<open>Bci_Nametab\<close>: \<^verbatim>\<open>src/bci/bci_nametab.c\<close>: the name table of built-in classes.

  \<^bold>\<open>How the parts interact.\<close> The parser pools the texts of literals, the keyword table pools the
  keywords, and so a literal is compared with a keyword by its number; the readers of types and
  handlers rest on the pattern matcher, on the keyword table and, for labels, on the label table. The
  member dictionary compares and hashes type lists; the block builder asks it for methods, reads the
  jump targets from the label table and the handlers from the exception module. The reader of methods
  chains the instructions that the instruction reader makes, and a theorem shows that the block builder
  can rely on what it leaves. The reader of classes numbers the fields, and a theorem about the loader
  shows that object creation can rely on the numbers. Address sets keep the
  tag set of each element and merge it by the operations of \<^verbatim>\<open>Tag_Set\<close>; the elements are addresses of
  \<^verbatim>\<open>Store_Addr\<close>, and the arithmetic combines the constant ones. Objects are laid out from the classes of
  the member dictionary and the name table; values hold objects and sets; the slots of a store refer to
  values, and a store translates relocated addresses by the allocation table, which a relocation table
  extends when a method allocates. A diff refers to values and sets, and a frame puts registers, a store and a
  table of static fields together; the collector of a frame follows the references of its values. The numbers that the reader of classes gives to static fields are the
  numbers by which the tables of static fields know them.

  \<^bold>\<open>What the lemmas show.\<close> Each theory with state has an invariant that its operations keep, and an
  abstraction (a finite map, a set, a list of registered members) on which every operation is a simple
  function; the properties are stated on the operations of the code and proved through it. The parser
  and the key scan have results on every input of the stated kind, and parsing what was printed gives
  it back. For the block graph, the blocks partition a method, every jump target begins a block, no
  block outside of the array is used, and exactly the reachable blocks are kept. Theorems also pin down
  where the code departs from its intent, such as the default branch of a packed switch.

  \<^bold>\<open>Fuel.\<close> The parser takes fuel that its termination theorem bounds by the length of the text. The
  key scan of \<^verbatim>\<open>Dalvik_Block\<close> follows the chain of instructions with fuel of one more than their number,
  and the search of the graph has one more than the number of blocks; the theorems show that this is
  enough. Dropping a reference in a store frees what it refers to in turn, with fuel; a round that goes
  deeper has emptied a slot. A tree of static fields has at most 32 levels, which is the fuel for releasing
  it; an iterator over a table ends after as many steps as there are fields. The composition of diffs takes one
  more round than the inputs have records. The collector of a frame goes as deep as there are flags, and a theorem
  shows that this is enough; reading the addresses of a built-in class takes fuel, since a class may never stop. The path of super classes ends after 1024 classes, as in the code. All other loops are structural recursions or have a termination proof.

  \<^bold>\<open>Not modelled.\<close> Of the diffs, the factorisation and the correction of a count are left out: they read frames
  while a diff is applied. Of the frames, the application of a diff and the operations on registers and fields are
  left out, and so are the interpreters that call them (\<^verbatim>\<open>cesk_block.c\<close>, \<^verbatim>\<open>cesk_method.c\<close>) and the services for
  built-in classes (\<^verbatim>\<open>bci_interface.c\<close>). The functions that turn instructions, sets, objects, values, stores, diffs
  and frames into text for the log are left out, as is the tag tracker, which only serves debugging. The built-in
  classes under \<^verbatim>\<open>builtins/\<close> are parameters; logging, start-up and the command line debugger are input and output.
\<close>

end
